(* ===== verification/Maiko_Prelude.thy ===== *)
theory Maiko_Prelude
  imports Main "HOL-Library.Word"
begin

text \<open>
  Shared vocabulary of the development: the machine types of the emulator
  (\<open>inc/lispemul.h\<close>, \<open>inc/lispmap.h\<close>), the ways in which an operation can
  leave its normal path, and the generic lemmas on words and results that the component
  theories use.

  The configuration modelled is the default one of \<open>CMakeLists.txt\<close>: release 351, that is
  \<open>BIGATOMS\<close>, \<open>BIGVM\<close>, \<open>BIGBIGVM\<close> and \<open>NEWCDRCODING\<close> of \<open>inc/version.h\<close>.
\<close>

unbundle bit_operations_syntax

named_theorems maiko_consts \<open>the numeric constants of the headers, to be unfolded by evaluation\<close>

section \<open>Machine types and constants\<close>

text \<open>A Lisp pointer is an unsigned 32-bit word address, a DLword an unsigned 16-bit word.\<close>

type_synonym LispPTR = "32 word"
type_synonym DLword = "16 word"
type_synonym DLbyte = "8 word"

definition NIL :: LispPTR where "NIL = 0"
definition T :: LispPTR where "T = 1"
definition ATOM_T :: LispPTR where "ATOM_T = 76"
definition S_POSITIVE :: LispPTR where "S_POSITIVE = 0xE0000"
definition S_NEGATIVE :: LispPTR where "S_NEGATIVE = 0xF0000"
definition POINTERMASK :: LispPTR where "POINTERMASK = 0xFFFFFFF"
definition SEGMASK :: LispPTR where "SEGMASK = 0xFFF0000"

lemmas lisp_const_defs =
  NIL_def T_def ATOM_T_def S_POSITIVE_def S_NEGATIVE_def POINTERMASK_def SEGMASK_def

declare lisp_const_defs [maiko_consts]

section \<open>Leaving the normal path\<close>

text \<open>
  The four ways in which an operation of the emulator does not simply return:
  \<^item> \<open>Ufn tos\<close>: the macro \<open>ERROR_EXIT(tos)\<close> of \<open>inc/lispemul.h\<close>, which stores
    \<open>tos\<close> in \<open>TopOfStack\<close>, sets \<open>Error_Exit\<close> and returns -1: the opcode is
    handed over to its Lisp definition;
  \<^item> \<open>Timer tos\<close>: the macro \<open>TIMER_EXIT(tos)\<close> (returns -2), taken when an interrupt is
    pending;
  \<^item> \<open>Fatal msg\<close>: a call of \<open>error(msg)\<close> of \<open>src/common.c\<close>, which enters the
    low-level debugger; what a user does there is outside the model;
  \<^item> \<open>Diverges\<close>: the C loop does not end on this state.
\<close>

datatype lisp_error = Ufn LispPTR | Timer LispPTR | Fatal string | Diverges

type_synonym 'a res = "lisp_error + 'a"

definition rbind :: "'a res \<Rightarrow> ('a \<Rightarrow> 'b res) \<Rightarrow> 'b res" where
  "rbind m f = (case m of Inl e \<Rightarrow> Inl e | Inr x \<Rightarrow> f x)"

lemma rbind_simps [simp]:
  "rbind (Inl e) f = Inl e"
  "rbind (Inr x) f = f x"
  by (simp_all add: rbind_def)

lemma rbind_Inr_iff: "rbind m f = Inr y \<longleftrightarrow> (\<exists>x. m = Inr x \<and> f x = Inr y)"
  by (cases m) auto

lemma rbind_cong [fundef_cong]:
  "m = m' \<Longrightarrow> (\<And>x. m' = Inr x \<Longrightarrow> f x = f' x) \<Longrightarrow> rbind m f = rbind m' f'"
  by (cases m') auto

text \<open>A loop modelled with \<open>partial_function (option)\<close> does not end where it is \<open>None\<close>.\<close>

definition of_loop :: "'a option \<Rightarrow> 'a res" where
  "of_loop x = (case x of None \<Rightarrow> Inl Diverges | Some y \<Rightarrow> Inr y)"

lemma of_loop_simps [simp]:
  "of_loop None = Inl Diverges"
  "of_loop (Some x) = Inr x"
  by (simp_all add: of_loop_def)

lemma of_loop_Inr_iff [simp]: "of_loop m = Inr y \<longleftrightarrow> m = Some y"
  by (cases m) auto

end
