(* ===== verification/GC_Table.thy ===== *)
theory GC_Table
  imports Maiko_Prelude
begin

text \<open>
  The reference-count table of the garbage collector: \<open>src/gchtfind.c\<close> with the macros of
  \<open>inc/gcdata.h\<close> and \<open>disablegc1\<close> of \<open>src/gcr.c\<close>, in the
  \<open>BIGVM\<close> layout (32-bit entries). This theory holds the definitions only; their
  invariant and refinement are in the theories that import it.

  The three tables are separate C arrays at fixed addresses (\<open>HTmain\<close>, \<open>HTcoll\<close>,
  \<open>HTbigcount\<close>), so they are separate fields of the state and a C pointer
  \<open>GCENTRY *\<close> is a tagged index.
\<close>

section \<open>The state\<close>

record gctab =
  htmain :: "nat \<Rightarrow> LispPTR"
  htcoll :: "nat \<Rightarrow> LispPTR"
  ovfl_ptr :: "nat \<Rightarrow> LispPTR"
  ovfl_cnt :: "nat \<Rightarrow> 32 word"
  reclaim_cnt :: LispPTR
  reclaim_min :: LispPTR
  gc_disabled :: LispPTR
  irq_check :: bool
  gc_interrupt :: bool
  mds_typetbl :: "nat \<Rightarrow> DLword"

datatype gcentry = Main nat | Coll nat

datatype refcase = ADDREF | DELREF | STKREF | UNSTKREF

definition HTCOLL_SIZE :: nat where "HTCOLL_SIZE = 0x100000"
definition HTCOLLMAX :: nat where "HTCOLLMAX = HTCOLL_SIZE div 2 - 16"
definition MAX_GCCOUNT :: "32 word" where "MAX_GCCOUNT = 0x7FFF"
definition HTCNTMASK :: "32 word" where "HTCNTMASK = 0xFFFE0000"
definition HTCNTSTKMASK :: "32 word" where "HTCNTSTKMASK = 0xFFFF0000"
definition HTSTKMASK :: "32 word" where "HTSTKMASK = 0x10000"
definition HTHIMASK :: "32 word" where "HTHIMASK = 0x1FFE"
definition TT_NOREF :: DLword where "TT_NOREF = 0x8000"

text \<open>The layout constants of \<open>inc/lispmap.h\<close> that bound the overflow table.\<close>

definition HTBIG_OFFSET :: nat where "HTBIG_OFFSET = 0x170100"
definition HTCOLL_OFFSET :: nat where "HTCOLL_OFFSET = 0x1C0000"
definition MDS_OFFSET :: nat where "MDS_OFFSET = 0x180000"

lemmas gc_const_defs [maiko_consts] =
  HTCOLL_SIZE_def HTCOLLMAX_def MAX_GCCOUNT_def HTCNTMASK_def HTCNTSTKMASK_def HTSTKMASK_def
  HTHIMASK_def TT_NOREF_def HTBIG_OFFSET_def HTCOLL_OFFSET_def MDS_OFFSET_def

fun getgc :: "gctab \<Rightarrow> gcentry \<Rightarrow> 32 word" where
  "getgc g (Main i) = htmain g i"
| "getgc g (Coll i) = htcoll g i"

fun putgc :: "gcentry \<Rightarrow> 32 word \<Rightarrow> gctab \<Rightarrow> gctab" where
  "putgc (Main i) v g = g\<lparr>htmain := (htmain g)(i := v)\<rparr>"
| "putgc (Coll i) v g = g\<lparr>htcoll := (htcoll g)(i := v)\<rparr>"

fun gcsucc :: "gcentry \<Rightarrow> gcentry" where
  "gcsucc (Main i) = Main (Suc i)"
| "gcsucc (Coll i) = Coll (Suc i)"

section \<open>Allocation count and shutdown\<close>

text \<open>\<open>IncAllocCnt\<close>: unsigned arithmetic on the countdown word.\<close>

definition IncAllocCnt :: "32 word \<Rightarrow> gctab \<Rightarrow> gctab" where
  "IncAllocCnt n g =
     (let c = reclaim_cnt g - n
      in if c \<le> S_POSITIVE then g\<lparr>irq_check := True, reclaim_cnt := S_POSITIVE\<rparr>
         else g\<lparr>reclaim_cnt := c\<rparr>)"

definition DecAllocCnt :: "32 word \<Rightarrow> gctab \<Rightarrow> gctab" where
  "DecAllocCnt n g = g\<lparr>reclaim_cnt := reclaim_cnt g + n\<rparr>"

text \<open>
  \<open>disablegc1\<close> marks the first 128 * 256 entries of the type table as not reference counted,
  stops the allocation countdown and, when called with \<open>noerror = NIL\<close>, requests the
  gc-disabled interrupt once.
\<close>

definition disablegc1 :: "bool \<Rightarrow> gctab \<Rightarrow> gctab" where
  "disablegc1 noerror g =
     (let g1 = g\<lparr>mds_typetbl := (\<lambda>i. if i < 128 * 256 then mds_typetbl g i OR TT_NOREF
                                     else mds_typetbl g i),
                 reclaim_cnt := NIL, reclaim_min := NIL\<rparr>;
          g2 = (if \<not> noerror \<and> gc_disabled g1 = NIL then g1\<lparr>gc_interrupt := True\<rparr> else g1)
      in g2\<lparr>gc_disabled := ATOM_T\<rparr>)"

section \<open>Collision cells\<close>

text \<open>
  \<open>GetLink\<close>: a cell from the free list headed by \<open>HTcoll[0]\<close>, or else the next unused one,
  counted by \<open>HTcoll[1]\<close>; \<open>None\<close> is the branch that disables the collector and
  leaves the calling function with \<open>NIL\<close>.
\<close>

definition GetLink :: "gctab \<Rightarrow> nat option \<times> gctab" where
  "GetLink g =
     (let linkoff = unat (htcoll g 0)
      in if linkoff = 0
         then let top = unat (htcoll g 1)
              in if top \<ge> HTCOLLMAX then (None, disablegc1 False g)
                 else (Some top, putgc (Coll 1) (of_nat (top + 2)) g)
         else (Some linkoff, putgc (Coll 0) (htcoll g (linkoff + 1)) g))"

definition FreeLink :: "nat \<Rightarrow> gctab \<Rightarrow> gctab" where
  "FreeLink link g =
     (let g1 = putgc (Coll link) 0 g;
          g2 = putgc (Coll (link + 1)) (htcoll g1 0) g1
      in putgc (Coll 0) (of_nat link) g2)"

section \<open>The overflow table\<close>

text \<open>
  The overflow table starts at \<open>HTBIG_OFFSET\<close>, one entry is four DLwords (a pointer and a
  count). The loops of the code run until they meet a pointer they look for; the model follows
  them up to the type table that lies behind the overflow table in the release 351 layout
  (\<open>BIGLIMIT\<close> entries) and answers \<open>None\<close> past it, where the C code would go on reading
  another structure.
\<close>

definition BIGLIMIT :: nat where
  "BIGLIMIT = (MDS_OFFSET - HTBIG_OFFSET) div 4"

fun big_free :: "nat \<Rightarrow> nat \<Rightarrow> gctab \<Rightarrow> LispPTR \<Rightarrow> (nat + nat) option" where
  "big_free 0 i g ptr = None"
| "big_free (Suc n) i g ptr =
     (if ovfl_ptr g i \<noteq> ATOM_T \<and> ovfl_ptr g i \<noteq> NIL
      then if ovfl_ptr g i = ptr then Some (Inl i) else big_free n (Suc i) g ptr
      else Some (Inr i))"

text \<open>
  \<open>enter_big_reference_count\<close>. The guard against running into \<open>HTcoll\<close> is kept as it is
  written: the byte address of the entry plus one is compared with the byte address of
  \<open>HTcoll\<close>. \<open>newpage\<close> only makes the page of the table writable.
\<close>

definition big_guard :: "nat \<Rightarrow> bool" where
  "big_guard i \<longleftrightarrow>
     (HTBIG_OFFSET + 4 * (i + 1)) mod 256 = 0 \<and>
     2 * (HTBIG_OFFSET + 4 * i) + 1 \<ge> 2 * HTCOLL_OFFSET"

definition enter_big_reference_count :: "LispPTR \<Rightarrow> gctab \<Rightarrow> gctab res" where
  "enter_big_reference_count ptr0 g =
     (let ptr = ptr0 AND 0xFFFFFFFE in
      case big_free BIGLIMIT 0 g ptr of
        None \<Rightarrow> Inl Diverges
      | Some (Inl i) \<Rightarrow> Inl (Fatal ''ERROR : PTR already in overflow table.'')
      | Some (Inr i) \<Rightarrow>
          (if ovfl_ptr g i = NIL \<and> big_guard i
           then Inl (Fatal ''GC big reference count table overflow'')
           else Inr (g\<lparr>ovfl_cnt := (ovfl_cnt g)(i := MAX_GCCOUNT),
                       ovfl_ptr := (ovfl_ptr g)(i := ptr)\<rparr>)))"

fun big_find :: "nat \<Rightarrow> nat \<Rightarrow> gctab \<Rightarrow> LispPTR \<Rightarrow> (nat + nat) option" where
  "big_find 0 i g ptr = None"
| "big_find (Suc n) i g ptr =
     (if ovfl_ptr g i \<noteq> ptr
      then if ovfl_ptr g i = NIL then Some (Inl i) else big_find n (Suc i) g ptr
      else Some (Inr i))"

text \<open>
  \<open>modify_big_reference_count\<close>. The fields of \<open>struct hashentry\<close> are written in place:
  \<open>count\<close> is bits 17 to 31, \<open>stackref\<close> bit 16. For \<open>STKREF\<close> the code reaches the
  entry through \<open>WORDPTR(entry)\<close>, which on a byte-swapped machine is the address with bit 1
  flipped: the 16-bit unit that holds \<open>stackref\<close> is then the low half of the entry that
  \<^emph>\<open>follows\<close>, and the bit set there is its bit 0. \<open>swapped\<close> says which of the two
  builds is meant.
\<close>

definition set_hcount :: "32 word \<Rightarrow> 32 word \<Rightarrow> 32 word" where
  "set_hcount c e = push_bit 17 c OR (e AND 0x1FFFF)"

definition modify_big_reference_count ::
  "bool \<Rightarrow> gcentry \<Rightarrow> refcase \<Rightarrow> LispPTR \<Rightarrow> gctab \<Rightarrow> gctab res" where
  "modify_big_reference_count swapped entry casep ptr0 g =
     (let ptr = (if bit ptr0 0 then ptr0 AND 0xFFFFFFFE else ptr0) in
      case big_find BIGLIMIT 0 g ptr of
        None \<Rightarrow> Inl Diverges
      | Some (Inl i) \<Rightarrow> Inl (Fatal ''refcnt previously overflowed, but not found in table.'')
      | Some (Inr i) \<Rightarrow>
          (case casep of
             ADDREF \<Rightarrow> Inr (g\<lparr>ovfl_cnt := (ovfl_cnt g)(i := ovfl_cnt g i + 1)\<rparr>)
           | DELREF \<Rightarrow>
               (let c = ovfl_cnt g i - 1;
                    g1 = g\<lparr>ovfl_cnt := (ovfl_cnt g)(i := c)\<rparr>
                in if c < MAX_GCCOUNT
                   then Inr ((putgc entry (set_hcount (MAX_GCCOUNT - 1) (getgc g1 entry)) g1)
                               \<lparr>ovfl_ptr := (ovfl_ptr g)(i := ATOM_T)\<rparr>)
                   else Inr g1)
           | STKREF \<Rightarrow>
               (if swapped
                then Inr (putgc (gcsucc entry) (getgc g (gcsucc entry) OR 1) g)
                else Inr (putgc entry (getgc g entry OR HTSTKMASK) g))
           | UNSTKREF \<Rightarrow> Inr g))"

section \<open>Entries: create and modify\<close>

text \<open>
  \<open>NewEntry\<close> and \<open>RecNewEntry\<close> fill an entry and leave the calling function with a
  result; \<open>ModEntry\<close> and \<open>RecModEntry\<close> either do that (\<open>Inr (Some r, g)\<close>) or jump to
  the label given as \<open>remove\<close> (\<open>Inr (None, g)\<close>).
\<close>

definition NewEntry ::
  "gcentry \<Rightarrow> 32 word \<Rightarrow> refcase \<Rightarrow> LispPTR \<Rightarrow> gctab \<Rightarrow> (LispPTR \<times> gctab) res" where
  "NewEntry entry hiptr casep ptr g =
     (case casep of
        ADDREF \<Rightarrow> Inr (NIL, IncAllocCnt 1 (putgc entry (hiptr OR push_bit 17 2) g))
      | DELREF \<Rightarrow> Inr (ptr, IncAllocCnt 1 (putgc entry hiptr g))
      | _ \<Rightarrow> Inl (Fatal ''GC error: new entry touches stack bit''))"

definition RecNewEntry ::
  "gcentry \<Rightarrow> 32 word \<Rightarrow> refcase \<Rightarrow> LispPTR \<Rightarrow> gctab \<Rightarrow> (LispPTR \<times> gctab) res" where
  "RecNewEntry entry hiptr casep ptr g =
     (case casep of
        ADDREF \<Rightarrow> Inr (NIL, putgc entry (hiptr OR push_bit 17 2) g)
      | DELREF \<Rightarrow> Inr (ptr, putgc entry hiptr g)
      | STKREF \<Rightarrow> Inr (NIL, putgc entry (hiptr OR push_bit 17 1 OR HTSTKMASK) g)
      | UNSTKREF \<Rightarrow> Inl (Fatal ''GC error: new entry when turning off stack bit''))"

definition ModEntry ::
  "bool \<Rightarrow> gcentry \<Rightarrow> 32 word \<Rightarrow> LispPTR \<Rightarrow> refcase \<Rightarrow> gctab \<Rightarrow> (LispPTR option \<times> gctab) res" where
  "ModEntry swapped entry contents ptr casep g =
     (if contents AND HTCNTMASK = HTCNTMASK
      then rbind (modify_big_reference_count swapped entry casep ptr g) (\<lambda>g. Inr (Some NIL, g))
      else case casep of
        ADDREF \<Rightarrow>
          (let c = contents + push_bit 17 1
           in if c AND HTCNTMASK = HTCNTMASK
              then rbind (enter_big_reference_count ptr (putgc entry c g)) (\<lambda>g. Inr (Some NIL, g))
              else if c AND HTCNTSTKMASK = push_bit 17 1 then Inr (None, DecAllocCnt 1 g)
              else Inr (Some NIL, putgc entry c g))
      | DELREF \<Rightarrow>
          (if drop_bit 17 contents = 0
           then Inl (Fatal ''attempt to decrement 0 reference count'')
           else let c = contents - push_bit 17 1
                in if c AND HTCNTSTKMASK = push_bit 17 1 then Inr (None, DecAllocCnt 1 g)
                   else Inr (Some NIL, putgc entry c g))
      | _ \<Rightarrow> Inl (Fatal ''GC error: mod entry touches stack bit''))"

definition RecModEntry ::
  "bool \<Rightarrow> gcentry \<Rightarrow> 32 word \<Rightarrow> LispPTR \<Rightarrow> refcase \<Rightarrow> gctab \<Rightarrow> (LispPTR option \<times> gctab) res" where
  "RecModEntry swapped entry contents ptr casep g =
     (let finish = (\<lambda>c. if c AND HTCNTSTKMASK = push_bit 17 1 then Inr (None, g)
                        else Inr (Some NIL, putgc entry c g))
      in if contents AND HTCNTMASK = HTCNTMASK
      then rbind (modify_big_reference_count swapped entry casep ptr g) (\<lambda>g. Inr (Some NIL, g))
      else case casep of
        ADDREF \<Rightarrow>
          (let c = contents + push_bit 17 1
           in if c AND HTCNTMASK = HTCNTMASK
              then rbind (enter_big_reference_count ptr (putgc entry c g)) (\<lambda>g. Inr (Some NIL, g))
              else finish c)
      | DELREF \<Rightarrow>
          (if drop_bit 17 contents = 0
           then Inl (Fatal ''attempt to decrement 0 reference count'')
           else finish (contents - push_bit 17 1))
      | STKREF \<Rightarrow> Inr (Some NIL, putgc entry (contents OR HTSTKMASK) g)
      | UNSTKREF \<Rightarrow> finish contents)"

section \<open>htfind and rec\_htfind\<close>

text \<open>The part of a pointer that is stored in an entry, and its place in the main table.\<close>

definition ht_hiptr :: "LispPTR \<Rightarrow> 32 word" where
  "ht_hiptr ptr = drop_bit 15 ptr AND HTHIMASK"

definition ht_slot :: "LispPTR \<Rightarrow> nat" where
  "ht_slot ptr = unat (drop_bit 1 (ptr AND 0xFFFF))"

text \<open>
  The loop at the label \<open>newlink\<close>: walk the collision chain from \<open>link\<close>; the answer is the
  matching cell with its predecessor (0 for none), or \<open>None\<close> at the end of the chain
  (label \<open>nolink\<close>).
\<close>

partial_function (option) newlink ::
  "(nat \<Rightarrow> 32 word) \<Rightarrow> 32 word \<Rightarrow> nat \<Rightarrow> nat \<Rightarrow> (nat \<times> nat) option option" where
  "newlink coll hiptr link prev =
     (if hiptr = coll link AND HTHIMASK then Some (Some (link, prev))
      else if coll (link + 1) = 0 then Some None
      else newlink coll hiptr (unat (coll (link + 1))) link)"

declare newlink.simps [code]

text \<open>The label \<open>dellink\<close>: unlink a cell, and give up the chain when one cell is left.\<close>

definition dellink :: "nat \<Rightarrow> nat \<Rightarrow> nat \<Rightarrow> gctab \<Rightarrow> gctab" where
  "dellink entry link prev g =
     (let g1 = (if prev \<noteq> 0 then putgc (Coll (prev + 1)) (htcoll g (link + 1)) g
                else putgc (Main entry) (htcoll g (link + 1) OR 1) g);
          g2 = FreeLink link g1;
          l = unat (htmain g2 entry - 1)
      in if htcoll g2 (l + 1) = 0
         then FreeLink l (putgc (Main entry) (htcoll g2 l) g2)
         else g2)"

text \<open>
  The body shared by \<open>htfind\<close> and \<open>rec_htfind\<close>: the two C functions differ in the macros
  they use for a new entry and for the change of an old one, given here as \<open>newe\<close> and
  \<open>mode\<close>.
\<close>

definition ht_body ::
  "(gcentry \<Rightarrow> 32 word \<Rightarrow> refcase \<Rightarrow> LispPTR \<Rightarrow> gctab \<Rightarrow> (LispPTR \<times> gctab) res) \<Rightarrow>
   (gcentry \<Rightarrow> 32 word \<Rightarrow> LispPTR \<Rightarrow> refcase \<Rightarrow> gctab \<Rightarrow> (LispPTR option \<times> gctab) res) \<Rightarrow>
   LispPTR \<Rightarrow> refcase \<Rightarrow> gctab \<Rightarrow> (LispPTR \<times> gctab) res" where
  "ht_body newe mode ptr casep g =
     (let hiptr = ht_hiptr ptr; entry = ht_slot ptr; contents = htmain g entry
      in if contents = 0 then newe (Main entry) hiptr casep ptr g
         else if bit contents 0 then
           rbind (of_loop (newlink (htcoll g) hiptr (unat (contents - 1)) 0)) (\<lambda>found.
           case found of
             Some (link, prev) \<Rightarrow>
               rbind (mode (Coll link) (htcoll g link) ptr casep g) (\<lambda>(r, g1).
               case r of Some v \<Rightarrow> Inr (v, g1) | None \<Rightarrow> Inr (NIL, dellink entry link prev g1))
           | None \<Rightarrow>
               (case GetLink g of
                  (None, g1) \<Rightarrow> Inr (NIL, g1)
                | (Some link, g1) \<Rightarrow>
                    (let g2 = putgc (Coll (link + 1)) (htmain g1 entry - 1) g1;
                         g3 = putgc (Main entry) (of_nat link + 1) g2
                     in newe (Coll link) hiptr casep ptr g3)))
         else if hiptr = contents AND HTHIMASK then
           rbind (mode (Main entry) contents ptr casep g) (\<lambda>(r, g1).
           case r of Some v \<Rightarrow> Inr (v, g1) | None \<Rightarrow> Inr (NIL, putgc (Main entry) 0 g1))
         else
           (case GetLink g of
              (None, g1) \<Rightarrow> Inr (NIL, g1)
            | (Some link, g1) \<Rightarrow>
                (case GetLink g1 of
                   (None, g2) \<Rightarrow> Inr (NIL, g2)
                 | (Some prev, g2) \<Rightarrow>
                     (let g3 = putgc (Coll (prev + 1)) 0 g2;
                          g4 = putgc (Coll prev) contents g3;
                          g5 = putgc (Coll (link + 1)) (of_nat prev) g4;
                          g6 = putgc (Main entry) (of_nat link + 1) g5
                      in newe (Coll link) hiptr casep ptr g6))))"

definition htfind :: "bool \<Rightarrow> LispPTR \<Rightarrow> refcase \<Rightarrow> gctab \<Rightarrow> (LispPTR \<times> gctab) res" where
  "htfind swapped = ht_body NewEntry (ModEntry swapped)"

definition rec_htfind :: "bool \<Rightarrow> LispPTR \<Rightarrow> refcase \<Rightarrow> gctab \<Rightarrow> (LispPTR \<times> gctab) res" where
  "rec_htfind swapped = ht_body RecNewEntry (RecModEntry swapped)"

end
