(* ===== verification/GC_Entry.thy ===== *)
theory GC_Entry
  imports GC_Table
begin

text \<open>
  One entry of the reference-count table as a value: its count (bits 17 to 31), its stack bit
  (bit 16) and the part of the pointer it stores (bits 1 to 12), with the effect of every bit
  operation of \<open>src/gchtfind.c\<close> on them. Everything here is about single 32-bit words.
\<close>

definition hcount :: "32 word \<Rightarrow> nat" where "hcount e = unat (drop_bit 17 e)"
definition hstk :: "32 word \<Rightarrow> bool" where "hstk e = bit e 16"
definition hhi :: "32 word \<Rightarrow> 32 word" where "hhi e = e AND HTHIMASK"

definition wf_entry :: "32 word \<Rightarrow> bool" where
  "wf_entry e \<longleftrightarrow> e AND 0xE001 = 0 \<and> hhi e \<noteq> 0"

lemma hcount_div: "hcount e = unat e div 2 ^ 17"
  unfolding hcount_def unat_drop_bit_eq by (simp add: drop_bit_eq_div)

lemma unat_bound32: "unat (e :: 32 word) < 2 ^ 32"
  using unsigned_less [of e] by simp

lemma hcount_bound: "hcount e \<le> 0x7FFF"
  using unat_bound32 [of e] by (simp add: hcount_div)

lemma hstk_take: "hstk e = bit (take_bit 17 e) 16"
  by (simp add: hstk_def bit_take_bit_iff)

lemma hhi_take: "hhi e = take_bit 17 e AND HTHIMASK"
proof -
  have "HTHIMASK = take_bit 17 HTHIMASK" by (simp add: HTHIMASK_def)
  then show ?thesis unfolding hhi_def by (metis take_bit_and take_bit_eq_mask and.assoc and.commute)
qed

lemma unused_take: "e AND 0xE001 = take_bit 17 e AND (0xE001 :: 32 word)"
proof -
  have "(0xE001 :: 32 word) = take_bit 17 0xE001" by simp
  then show ?thesis by (metis take_bit_and take_bit_eq_mask and.assoc and.commute)
qed

lemma entry_eqI: "take_bit 17 e = take_bit 17 e' \<Longrightarrow>
   hstk e = hstk e' \<and> hhi e = hhi e' \<and> wf_entry e = wf_entry e'"
  unfolding hstk_take [of e] hstk_take [of e'] hhi_take [of e] hhi_take [of e'] wf_entry_def
    unused_take [of e] unused_take [of e'] by simp

lemma bit_cntmask: "bit HTCNTMASK n \<longleftrightarrow> 17 \<le> n \<and> n < 32"
proof -
  have m: "HTCNTMASK = push_bit 17 0x7FFF" by (simp add: HTCNTMASK_def)
  have k: "(0x7FFF :: 32 word) = mask 15" by (simp add: mask_eq_exp_minus_1)
  show ?thesis unfolding m k by (auto simp: bit_push_bit_iff bit_mask_iff)
qed

lemma bit_stkmask: "bit HTSTKMASK n \<longleftrightarrow> n = 16"
proof -
  have m: "HTSTKMASK = push_bit 16 1" by (simp add: HTSTKMASK_def)
  show ?thesis unfolding m by (auto simp only: bit_push_bit_iff bit_1_iff possible_bit_word) simp
qed

lemma cntmask_iff: "e AND HTCNTMASK = HTCNTMASK \<longleftrightarrow> hcount e = 0x7FFF"
proof -
  have "e AND HTCNTMASK = HTCNTMASK \<longleftrightarrow> (\<forall>n. 17 \<le> n \<and> n < 32 \<longrightarrow> bit e n)"
    by (auto simp: bit_eq_iff bit_and_iff bit_cntmask)
  also have "\<dots> \<longleftrightarrow> drop_bit 17 e = mask 15"
  proof
    assume "\<forall>n. 17 \<le> n \<and> n < 32 \<longrightarrow> bit e n"
    then show "drop_bit 17 e = mask 15"
      by (auto intro!: bit_word_eqI simp: bit_drop_bit_eq bit_mask_iff) (fastforce dest: bit_imp_le_length)
  next
    assume a: "drop_bit 17 e = mask 15"
    show "\<forall>n. 17 \<le> n \<and> n < 32 \<longrightarrow> bit e n"
    proof safe
      fix n :: nat assume "17 \<le> n" "n < 32"
      then have "bit (drop_bit 17 e) (n - 17)" unfolding a by (auto simp: bit_mask_iff)
      with \<open>17 \<le> n\<close> show "bit e n" by (simp add: bit_drop_bit_eq)
    qed
  qed
  also have "\<dots> \<longleftrightarrow> hcount e = 0x7FFF"
    unfolding hcount_def by (simp add: mask_eq_exp_minus_1 word_unat_eq_iff)
  finally show ?thesis .
qed

lemma cntstkmask_iff: "e AND HTCNTSTKMASK = push_bit 17 1 \<longleftrightarrow> hcount e = 1 \<and> \<not> hstk e"
proof -
  have m: "HTCNTSTKMASK = push_bit 16 0xFFFF" by (simp add: HTCNTSTKMASK_def)
  have k: "(0xFFFF :: 32 word) = mask 16" by (simp add: mask_eq_exp_minus_1)
  have b: "bit HTCNTSTKMASK n \<longleftrightarrow> 16 \<le> n \<and> n < 32" for n
    unfolding m k by (auto simp: bit_push_bit_iff bit_mask_iff)
  have bp: "bit (push_bit 17 1 :: 32 word) n \<longleftrightarrow> n = 17" for n
    by (simp only: bit_push_bit_iff bit_1_iff possible_bit_word) auto
  have "e AND HTCNTSTKMASK = push_bit 17 1 \<longleftrightarrow>
      (\<forall>n. bit e n \<and> 16 \<le> n \<and> n < 32 \<longleftrightarrow> n = 17)"
    unfolding bit_eq_iff [where 'a = "32 word"] bit_and_iff b bp by (auto dest: spec [of _ 17])
  also have "\<dots> \<longleftrightarrow> (\<forall>n. 16 \<le> n \<and> n < 32 \<longrightarrow> (bit e n \<longleftrightarrow> n = 17))"
    by force
  also have "\<dots> \<longleftrightarrow> drop_bit 17 e = 1 \<and> \<not> hstk e"
  proof
    assume a: "\<forall>n. 16 \<le> n \<and> n < 32 \<longrightarrow> (bit e n \<longleftrightarrow> n = 17)"
    have "drop_bit 17 e = 1"
    proof (rule bit_word_eqI)
      fix n assume "n < LENGTH(32)"
      show "bit (drop_bit 17 e) n = bit 1 n"
        using a [rule_format, of "17 + n"] bit_imp_le_length [of e "17 + n"]
        by (auto simp: bit_drop_bit_eq bit_1_iff)
    qed
    with a show "drop_bit 17 e = 1 \<and> \<not> hstk e" by (simp add: hstk_def)
  next
    assume a: "drop_bit 17 e = 1 \<and> \<not> hstk e"
    show "\<forall>n. 16 \<le> n \<and> n < 32 \<longrightarrow> (bit e n \<longleftrightarrow> n = 17)"
    proof safe
      fix n :: nat assume n: "16 \<le> n" "n < 32"
      { assume "n \<noteq> 16"
        with n have "bit e n = bit (drop_bit 17 e) (n - 17)" by (simp add: bit_drop_bit_eq)
        with a have "bit e n = (n - 17 = 0)" by (simp add: bit_1_iff)
      } note k = this
      show "n = 17" if "bit e n" using that a k n by (cases "n = 16") (auto simp: hstk_def)
      have "bit (drop_bit 17 e) 0" unfolding conjunct1 [OF a] by simp
      then show "bit e 17" by (simp only: bit_drop_bit_eq comp_apply) simp
    qed
  qed
  also have "\<dots> \<longleftrightarrow> hcount e = 1 \<and> \<not> hstk e"
    unfolding hcount_def by (simp add: word_unat_eq_iff)
  finally show ?thesis .
qed

lemma hcount_0_iff: "drop_bit 17 e = 0 \<longleftrightarrow> hcount e = 0"
  by (simp add: hcount_def unat_eq_0)

lemma take_17_eq_iff: "take_bit 17 e = take_bit 17 (e' :: 32 word) \<longleftrightarrow> unat e mod 2 ^ 17 = unat e' mod 2 ^ 17"
  unfolding word_unat_eq_iff unsigned_take_bit_eq take_bit_eq_mod [where 'a = nat] ..

lemma unat_push_17: "unat (push_bit 17 (c :: 32 word)) mod 2 ^ 17 = 0"
proof -
  have "take_bit 17 (push_bit 17 c) = (take_bit 17 0 :: 32 word)"
    by (rule bit_word_eqI) (auto simp: bit_take_bit_iff bit_push_bit_iff)
  then show ?thesis unfolding take_17_eq_iff by simp
qed

lemma take_bit_17_add: "take_bit 17 (e + push_bit 17 (c :: 32 word)) = take_bit 17 e"
proof -
  have "unat (e + push_bit 17 c) mod 2 ^ 17 = (unat e + unat (push_bit 17 c)) mod 2 ^ 17"
    unfolding unat_word_ariths by (simp add: mod_mod_cancel)
  also have "\<dots> = unat e mod 2 ^ 17"
    using unat_push_17 [of c] by (metis mod_add_right_eq add.right_neutral)
  finally show ?thesis unfolding take_17_eq_iff .
qed

lemma take_bit_17_sub: "take_bit 17 (e - push_bit 17 (c :: 32 word)) = take_bit 17 e"
  using take_bit_17_add [of "e - push_bit 17 c" c] by simp

lemma unat_push_17_1: "unat (push_bit 17 1 :: 32 word) = 2 ^ 17"
  by simp

lemma hcount_incr: "hcount e < 0x7FFF \<Longrightarrow> hcount (e + push_bit 17 1) = hcount e + 1"
proof -
  assume "hcount e < 0x7FFF"
  then have "unat e + 2 ^ 17 < 2 ^ 32" by (simp add: hcount_div)
  then have "unat (e + push_bit 17 1) = unat e + 2 ^ 17"
    by (simp add: unat_word_ariths)
  then show ?thesis by (simp add: hcount_div)
qed

lemma hcount_decr: "hcount e \<noteq> 0 \<Longrightarrow> hcount (e - push_bit 17 1) = hcount e - 1"
proof -
  assume "hcount e \<noteq> 0"
  then have le: "2 ^ 17 \<le> unat e" by (simp add: hcount_div div_greater_zero_iff)
  then have "unat (e - push_bit 17 1) = unat e - 2 ^ 17"
    by (subst unat_sub) (simp_all add: word_le_nat_alt)
  then show ?thesis using le by (simp add: hcount_div le_div_geq)
qed

lemmas entry_incr = entry_eqI [OF take_bit_17_add [of _ 1]]
lemmas entry_decr = entry_eqI [OF take_bit_17_sub [of _ 1]]

text \<open>An entry is a count in the high bits over a low part; the fields of such a composition.\<close>

lemma take_17_or: "take_bit 17 (push_bit 17 c OR r :: 32 word) = take_bit 17 r"
  by (rule bit_word_eqI) (auto simp: bit_take_bit_iff bit_or_iff bit_push_bit_iff)

lemma drop_17_or: "take_bit 17 r = r \<Longrightarrow> drop_bit 17 (push_bit 17 c OR r :: 32 word) = take_bit 15 c"
proof (rule bit_word_eqI)
  fix n assume r: "take_bit 17 r = r" and n: "n < LENGTH(32)"
  have "\<not> bit r (17 + n)" using r by (metis bit_take_bit_iff not_add_less1)
  then show "bit (drop_bit 17 (push_bit 17 c OR r)) n = bit (take_bit 15 c) n"
    using n by (auto simp: bit_drop_bit_eq bit_or_iff bit_push_bit_iff bit_take_bit_iff)
qed

lemma bit_himask: "bit HTHIMASK n \<longleftrightarrow> 1 \<le> n \<and> n \<le> 12"
proof -
  have m: "HTHIMASK = push_bit 1 0xFFF" by (simp add: HTHIMASK_def)
  have k: "(0xFFF :: 32 word) = mask 12" by (simp add: mask_eq_exp_minus_1)
  have "bit (push_bit 1 (mask 12) :: 32 word) n \<longleftrightarrow> 1 \<le> n \<and> n \<le> 12"
    by (simp only: bit_push_bit_iff bit_mask_iff possible_bit_word) auto
  then show ?thesis unfolding m k .
qed

lemma bit_unused: "bit (0xE001 :: 32 word) n \<longleftrightarrow> n = 0 \<or> (13 \<le> n \<and> n \<le> 15)"
proof -
  have m: "(0xE001 :: 32 word) = 1 OR push_bit 13 7" by simp
  have k: "(7 :: 32 word) = mask 3" by (simp add: mask_eq_exp_minus_1)
  have "bit (1 OR push_bit 13 (mask 3) :: 32 word) n \<longleftrightarrow> n = 0 \<or> (13 \<le> n \<and> n \<le> 15)"
    by (auto simp only: bit_or_iff bit_push_bit_iff bit_1_iff bit_mask_iff possible_bit_word, auto)
  then show ?thesis unfolding m k .
qed

definition is_hi :: "32 word \<Rightarrow> bool" where
  "is_hi h \<longleftrightarrow> h AND HTHIMASK = h \<and> h \<noteq> 0"

lemma is_hi_bit: "is_hi h \<Longrightarrow> bit h n \<Longrightarrow> 1 \<le> n \<and> n \<le> 12"
  unfolding is_hi_def by (metis bit_and_iff bit_himask)

lemma is_hi_take: "is_hi h \<Longrightarrow> take_bit 17 h = h"
  by (rule bit_word_eqI) (auto simp: bit_take_bit_iff dest: is_hi_bit)

lemma is_hi_drop: "is_hi h \<Longrightarrow> drop_bit 17 h = 0"
  by (rule bit_word_eqI) (auto simp: bit_drop_bit_eq dest: is_hi_bit)

lemma is_hi_stk: "is_hi h \<Longrightarrow> \<not> bit h 16"
  by (auto dest: is_hi_bit)

lemma is_hi_wf: "is_hi h \<Longrightarrow> wf_entry h \<and> hhi h = h"
proof -
  assume h: "is_hi h"
  have "h AND 0xE001 = 0"
    by (rule bit_word_eqI) (simp only: bit_and_iff bit_unused bit_0_eq, use is_hi_bit [OF h] in fastforce)
  with h show ?thesis by (auto simp: wf_entry_def hhi_def is_hi_def)
qed

lemma wf_entry_is_hi: "wf_entry e \<Longrightarrow> is_hi (hhi e)"
  by (simp add: wf_entry_def is_hi_def hhi_def and.assoc)

lemma entry_fields:
  assumes h: "is_hi h"
  shows "wf_entry h" "hcount h = 0" "\<not> hstk h" "hhi h = h"
    "wf_entry (h OR push_bit 17 2)" "hcount (h OR push_bit 17 2) = 2"
    "\<not> hstk (h OR push_bit 17 2)" "hhi (h OR push_bit 17 2) = h"
proof -
  note hw = is_hi_wf [OF h] and tk = is_hi_take [OF h]
  show "wf_entry h" "hhi h = h" using hw by auto
  show "hcount h = 0" by (simp add: hcount_def is_hi_drop [OF h])
  show s: "\<not> hstk h" by (simp add: hstk_def is_hi_stk [OF h])
  have "take_bit 17 (h OR push_bit 17 2) = take_bit 17 h"
    by (subst or.commute) (rule take_17_or)
  note eq = entry_eqI [OF this]
  show "wf_entry (h OR push_bit 17 2)" "hhi (h OR push_bit 17 2) = h" using eq hw by auto
  show "\<not> hstk (h OR push_bit 17 2)" using eq s by auto
  show "hcount (h OR push_bit 17 2) = 2"
    unfolding hcount_def or.commute [of h] drop_17_or [OF tk] by simp
qed

lemma or_stk_fields:
  shows "hcount (e OR HTSTKMASK) = hcount e" "hstk (e OR HTSTKMASK)"
    "hhi (e OR HTSTKMASK) = hhi e" "wf_entry (e OR HTSTKMASK) = wf_entry e"
proof -
  have "drop_bit 17 (e OR HTSTKMASK) = drop_bit 17 e"
    by (rule bit_word_eqI) (auto simp: bit_drop_bit_eq bit_or_iff bit_stkmask)
  then show "hcount (e OR HTSTKMASK) = hcount e" by (simp add: hcount_def)
  show "hstk (e OR HTSTKMASK)" by (simp add: hstk_def bit_or_iff bit_stkmask)
  show h: "hhi (e OR HTSTKMASK) = hhi e"
    unfolding hhi_def by (rule bit_word_eqI) (auto simp: bit_or_iff bit_and_iff bit_stkmask bit_himask)
  have "(e OR HTSTKMASK) AND 0xE001 = e AND 0xE001"
    by (rule bit_word_eqI) (auto simp: bit_or_iff bit_and_iff bit_stkmask bit_unused)
  with h show "wf_entry (e OR HTSTKMASK) = wf_entry e" by (simp add: wf_entry_def)
qed

lemma new_stk_fields:
  assumes h: "is_hi h"
  shows "hcount (h OR push_bit 17 1 OR HTSTKMASK) = 1" "hstk (h OR push_bit 17 1 OR HTSTKMASK)"
    "hhi (h OR push_bit 17 1 OR HTSTKMASK) = h" "wf_entry (h OR push_bit 17 1 OR HTSTKMASK)"
proof -
  note hw = is_hi_wf [OF h] and tk = is_hi_take [OF h]
  have "take_bit 17 (h OR push_bit 17 1) = take_bit 17 h"
    by (subst or.commute) (rule take_17_or)
  note eq = entry_eqI [OF this]
  have c: "hcount (h OR push_bit 17 1) = 1"
    unfolding hcount_def or.commute [of h] drop_17_or [OF tk] by simp
  show "hcount (h OR push_bit 17 1 OR HTSTKMASK) = 1"
    unfolding or.assoc [symmetric] or_stk_fields(1) by (rule c)
  show "hstk (h OR push_bit 17 1 OR HTSTKMASK)"
    unfolding or.assoc [symmetric] by (rule or_stk_fields(2))
  show "hhi (h OR push_bit 17 1 OR HTSTKMASK) = h"
    unfolding or.assoc [symmetric] or_stk_fields(3) using eq hw by presburger
  show "wf_entry (h OR push_bit 17 1 OR HTSTKMASK)"
    unfolding or.assoc [symmetric] or_stk_fields(4) using eq hw by presburger
qed

lemma set_hcount_fields:
  "hcount (set_hcount (MAX_GCCOUNT - 1) e) = 0x7FFE"
  "hstk (set_hcount c e) = hstk e" "hhi (set_hcount c e) = hhi e"
  "wf_entry (set_hcount c e) = wf_entry e"
proof -
  have k: "e AND 0x1FFFF = take_bit 17 e"
    unfolding take_bit_eq_mask by (simp add: mask_eq_exp_minus_1)
  have "take_bit 17 (set_hcount c e) = take_bit 17 e"
    unfolding set_hcount_def k take_17_or by simp
  from entry_eqI [OF this]
  show "hstk (set_hcount c e) = hstk e" "hhi (set_hcount c e) = hhi e"
    "wf_entry (set_hcount c e) = wf_entry e" by auto
  have t: "take_bit 17 (take_bit 17 e) = take_bit 17 e" by simp
  show "hcount (set_hcount (MAX_GCCOUNT - 1) e) = 0x7FFE"
    unfolding set_hcount_def k hcount_def drop_17_or [OF t] by (simp add: MAX_GCCOUNT_def)
qed

lemma wf_entry_nz: "wf_entry e \<Longrightarrow> e \<noteq> 0"
  by (auto simp: wf_entry_def hhi_def)

lemma wf_entry_even: "wf_entry e \<Longrightarrow> \<not> bit e 0"
proof
  assume "wf_entry e" "bit e 0"
  then have "bit (e AND 0xE001) 0" unfolding bit_and_iff bit_unused by simp
  with \<open>wf_entry e\<close> show False by (simp add: wf_entry_def)
qed

end
