(* ===== verification/GC_Shape.thy ===== *)
theory GC_Shape
  imports GC_Entry
begin

text \<open>
  The heap shape of the reference-count table: chains of collision cells hanging off the slots of
  \<open>HTmain\<close>, the free list and the unused rest of \<open>HTcoll\<close>, all disjoint. The link loop
  terminates on it, and every write of \<open>src/gchtfind.c\<close> to it is framed here.
\<close>

section \<open>Chains of collision cells\<close>

primrec chain :: "(nat \<Rightarrow> 32 word) \<Rightarrow> nat \<Rightarrow> nat list \<Rightarrow> bool" where
  "chain c l [] \<longleftrightarrow> l = 0"
| "chain c l (x # xs) \<longleftrightarrow> l = x \<and> x \<noteq> 0 \<and> chain c (unat (c (Suc x))) xs"

lemma chain_cong:
  "(\<And>x. x \<in> set xs \<Longrightarrow> c' (Suc x) = c (Suc x)) \<Longrightarrow> chain c' l xs = chain c l xs"
  by (induction xs arbitrary: l) auto

lemma chain_upd [simp]:
  "\<forall>x \<in> set xs. k \<noteq> Suc x \<Longrightarrow> chain (c(k := v)) l xs = chain c l xs"
  by (rule chain_cong) auto

lemma chain_hd: "chain c l xs \<Longrightarrow> xs \<noteq> [] \<Longrightarrow> l = hd xs \<and> l \<in> set xs \<and> l \<noteq> 0"
  by (cases xs) auto

lemma chain_append:
  "chain c l (xs @ ys) \<Longrightarrow>
     chain c (if xs = [] then l else unat (c (Suc (last xs)))) ys"
  by (induction xs arbitrary: l) (auto split: if_splits)

text \<open>Redirecting the link of the last cell of a prefix.\<close>

lemma chain_redirect:
  "chain c l (xs @ ys) \<Longrightarrow> xs \<noteq> [] \<Longrightarrow> distinct xs \<Longrightarrow>
   chain (c(Suc (last xs) := v)) (unat v) zs \<Longrightarrow>
   chain (c(Suc (last xs) := v)) l (xs @ zs)"
proof (induction xs arbitrary: l)
  case (Cons x xs)
  then show ?case
    by (cases "xs = []") auto
qed simp

text \<open>The loop \<open>newlink\<close> on a chain: the first cell with the wanted high part, or none.\<close>

lemma newlink_hit:
  "chain c l (xs @ x # ys) \<Longrightarrow> c x AND HTHIMASK = h \<Longrightarrow> \<forall>y \<in> set xs. c y AND HTHIMASK \<noteq> h \<Longrightarrow>
   newlink c h l prev = Some (Some (x, if xs = [] then prev else last xs))"
proof (induction xs arbitrary: l prev)
  case Nil
  then show ?case by (simp add: newlink.simps)
next
  case (Cons y xs)
  from Cons.prems(1) have l: "l = y" and ch: "chain c (unat (c (Suc y))) (xs @ x # ys)" by auto
  then have "unat (c (Suc y)) \<noteq> 0" by (cases xs) auto
  with Cons.prems Cons.IH [OF ch, of y] l show ?case
    by (subst newlink.simps) auto
qed

lemma newlink_miss:
  "chain c l xs \<Longrightarrow> xs \<noteq> [] \<Longrightarrow> \<forall>y \<in> set xs. c y AND HTHIMASK \<noteq> h \<Longrightarrow>
   newlink c h l prev = Some None"
proof (induction xs arbitrary: l prev)
  case (Cons y xs)
  then show ?case
    by (cases "xs = []"; subst newlink.simps) (auto simp: unat_eq_0 dest: chain_hd)
qed simp

section \<open>The shape of the table\<close>

text \<open>
  \<open>S i\<close> lists the collision cells of slot \<open>i\<close> of the main table (none when the slot is
  empty or holds its only entry itself), \<open>fs\<close> the free cells.
\<close>

definition HTSLOTS :: nat where "HTSLOTS = 32768"

definition slot_ok :: "(nat \<Rightarrow> 32 word) \<Rightarrow> 32 word \<Rightarrow> nat list \<Rightarrow> bool" where
  "slot_ok c w ls \<longleftrightarrow>
     (if ls = [] then w = 0 \<or> wf_entry w
      else 2 \<le> length ls \<and> bit w 0 \<and> chain c (unat (w - 1)) ls \<and>
        (\<forall>x \<in> set ls. wf_entry (c x)) \<and> distinct (map (\<lambda>x. hhi (c x)) ls))"

definition cell_ok :: "nat \<Rightarrow> nat \<Rightarrow> bool" where
  "cell_ok tp x \<longleftrightarrow> even x \<and> 2 \<le> x \<and> x < tp"

definition separate :: "(nat \<Rightarrow> nat list) \<Rightarrow> nat list \<Rightarrow> bool" where
  "separate S fs \<longleftrightarrow> distinct fs \<and>
     (\<forall>i. distinct (S i) \<and> set (S i) \<inter> set fs = {}) \<and>
     (\<forall>i j. i \<noteq> j \<longrightarrow> set (S i) \<inter> set (S j) = {})"

definition ht_shape ::
  "(nat \<Rightarrow> 32 word) \<Rightarrow> (nat \<Rightarrow> 32 word) \<Rightarrow> (nat \<Rightarrow> nat list) \<Rightarrow> nat list \<Rightarrow> bool" where
  "ht_shape m c S fs \<longleftrightarrow>
     (\<forall>i < HTSLOTS. slot_ok c (m i) (S i)) \<and>
     chain c (unat (c 0)) fs \<and> separate S fs \<and>
     even (unat (c (Suc 0))) \<and> 2 \<le> unat (c (Suc 0)) \<and> unat (c (Suc 0)) \<le> HTCOLLMAX + 1 \<and>
     (\<forall>x \<in> set fs. cell_ok (unat (c (Suc 0))) x) \<and> (\<forall>i. \<forall>x \<in> set (S i). cell_ok (unat (c (Suc 0))) x)"

text \<open>The entry for a slot and a high part, found the way the code finds it.\<close>

definition htlookup ::
  "(nat \<Rightarrow> 32 word) \<Rightarrow> (nat \<Rightarrow> 32 word) \<Rightarrow> nat \<Rightarrow> 32 word \<Rightarrow> 32 word option" where
  "htlookup m c i h =
     (let w = m i in
      if w = 0 then None
      else if bit w 0 then
        (case newlink c h (unat (w - 1)) 0 of
           Some (Some (link, prev)) \<Rightarrow> Some (c link) | _ \<Rightarrow> None)
      else if h = w AND HTHIMASK then Some w else None)"

definition ents :: "(nat \<Rightarrow> 32 word) \<Rightarrow> (nat \<Rightarrow> 32 word) \<Rightarrow> (nat \<Rightarrow> nat list) \<Rightarrow> nat \<Rightarrow> 32 word list" where
  "ents m c S i = (if S i = [] then if m i = 0 then [] else [m i] else map c (S i))"

definition emap :: "32 word list \<Rightarrow> 32 word \<rightharpoonup> 32 word" where
  "emap es = map_of (map (\<lambda>e. (hhi e, e)) es)"

lemma emap_simps [simp]:
  "emap [] = Map.empty"
  "emap (e # es) = (emap es)(hhi e \<mapsto> e)"
  "emap (es @ es') = emap es' ++ emap es"
  by (simp_all add: emap_def)

lemma emap_None: "emap es h = None \<longleftrightarrow> h \<notin> hhi ` set es"
  by (auto simp: emap_def map_of_eq_None_iff image_image)

lemma emap_first: "hhi e \<notin> hhi ` set es \<Longrightarrow> emap (es @ e # es') (hhi e) = Some e"
  by (induction es) auto

lemma htlookup_emap:
  assumes "slot_ok c (m i) (S i)"
  shows "htlookup m c i h = emap (ents m c S i) h"
proof (cases "S i = []")
  case True
  with assms have w: "m i = 0 \<or> wf_entry (m i)" by (simp add: slot_ok_def)
  then show ?thesis
    using True wf_entry_even [of "m i"] wf_entry_nz [of "m i"]
    by (auto simp: htlookup_def ents_def hhi_def)
next
  case False
  with assms have ch: "chain c (unat (m i - 1)) (S i)" and b: "bit (m i) 0"
    and d: "distinct (map (\<lambda>x. hhi (c x)) (S i))"
    by (auto simp: slot_ok_def)
  from b have nz: "m i \<noteq> 0" by auto
  show ?thesis
  proof (cases "\<exists>x \<in> set (S i). hhi (c x) = h")
    case True
    then obtain xs x ys where s: "S i = xs @ x # ys" "hhi (c x) = h" "\<forall>y \<in> set xs. hhi (c y) \<noteq> h"
      using split_list_first_prop [OF True] by blast
    have "newlink c h (unat (m i - 1)) 0 = Some (Some (x, if xs = [] then 0 else last xs))"
      by (rule newlink_hit [of _ _ _ _ ys]) (use ch s in \<open>auto simp: hhi_def\<close>)
    moreover have "hhi (c x) \<notin> hhi ` set (map c xs)" using s by force
    then have "emap (map c (S i)) h = Some (c x)"
      using emap_first [of "c x" "map c xs" "map c ys"] s by simp
    ultimately show ?thesis using False nz b by (simp add: htlookup_def ents_def)
  next
    case None: False
    then have "newlink c h (unat (m i - 1)) 0 = Some None"
      by (intro newlink_miss [OF ch False]) (auto simp: hhi_def)
    moreover have "emap (map c (S i)) h = None" using None by (auto simp: emap_None)
    ultimately show ?thesis using False nz b by (simp add: htlookup_def ents_def)
  qed
qed

section \<open>Framing\<close>

text \<open>Two collision arrays that differ, above the two header words, only in the cells of \<open>Y\<close>.\<close>

definition agree :: "nat set \<Rightarrow> (nat \<Rightarrow> 32 word) \<Rightarrow> (nat \<Rightarrow> 32 word) \<Rightarrow> bool" where
  "agree Y c c' \<longleftrightarrow> (\<forall>x. even x \<and> 2 \<le> x \<and> x \<notin> Y \<longrightarrow> c' x = c x \<and> c' (Suc x) = c (Suc x))"

lemma agree_refl [simp]: "agree Y c c"
  by (simp add: agree_def)

lemma agree_trans: "agree Y c c' \<Longrightarrow> agree Z c' c'' \<Longrightarrow> agree (Y \<union> Z) c c''"
  by (simp add: agree_def)

lemma agree_mono: "agree Y c c' \<Longrightarrow> Y \<subseteq> Z \<Longrightarrow> agree Z c c'"
  by (auto simp: agree_def)

lemma agree_header [simp]: "k < 2 \<Longrightarrow> agree Y c (c(k := v))"
  by (auto simp: agree_def)

lemma agree_cell: "even x \<Longrightarrow> x \<in> Y \<Longrightarrow> agree Y c (c(x := v))"
  by (auto simp: agree_def)

lemma agree_next: "even x \<Longrightarrow> x \<in> Y \<Longrightarrow> agree Y c (c(Suc x := v))"
  by (auto simp: agree_def)

lemma agreeD: "agree Y c c' \<Longrightarrow> cell_ok tp x \<Longrightarrow> x \<notin> Y \<Longrightarrow> c' x = c x \<and> c' (Suc x) = c (Suc x)"
  by (simp add: agree_def cell_ok_def)

lemma chain_agree:
  "agree Y c c' \<Longrightarrow> \<forall>x \<in> set xs. cell_ok tp x \<and> x \<notin> Y \<Longrightarrow> chain c' l xs = chain c l xs"
  by (rule chain_cong) (auto dest: agreeD)

lemma slot_ok_agree:
  "agree Y c c' \<Longrightarrow> \<forall>x \<in> set ls. cell_ok tp x \<and> x \<notin> Y \<Longrightarrow> slot_ok c' w ls = slot_ok c w ls"
proof -
  assume a: "agree Y c c'" and k: "\<forall>x \<in> set ls. cell_ok tp x \<and> x \<notin> Y"
  have e: "\<forall>x \<in> set ls. c' x = c x" using agreeD [OF a] k by blast
  then have m: "map (\<lambda>x. hhi (c' x)) ls = map (\<lambda>x. hhi (c x)) ls" by simp
  show ?thesis unfolding slot_ok_def m chain_agree [OF a k] using e by auto
qed

lemma ents_agree:
  "agree Y c c' \<Longrightarrow> \<forall>x \<in> set (S i). cell_ok tp x \<and> x \<notin> Y \<Longrightarrow> ents m c' S i = ents m c S i"
  using agreeD by (auto simp: ents_def)

lemma shape_cells: "ht_shape m c S fs \<Longrightarrow> x \<in> set (S i) \<Longrightarrow> cell_ok (unat (c (Suc 0))) x"
  by (simp add: ht_shape_def)

lemma shape_agree:
  assumes sh: "ht_shape m c S fs" and a: "agree Y c c'" and h: "c' 0 = c 0" "c' (Suc 0) = c (Suc 0)"
    and y: "\<forall>x \<in> set fs. x \<notin> Y" "\<forall>i. \<forall>x \<in> set (S i). x \<notin> Y"
  shows "ht_shape m c' S fs"
proof -
  have "\<forall>i. \<forall>x \<in> set (S i). cell_ok (unat (c (Suc 0))) x \<and> x \<notin> Y"
    "\<forall>x \<in> set fs. cell_ok (unat (c (Suc 0))) x \<and> x \<notin> Y"
    using sh y by (auto simp: ht_shape_def)
  then show ?thesis
    using sh h slot_ok_agree [OF a] chain_agree [OF a] unfolding ht_shape_def by metis
qed

text \<open>A slot can be vacated, and a slot that owns no cell can be given a list of free-standing ones.\<close>

lemma shape_vacate: "ht_shape m c S fs \<Longrightarrow> ht_shape (m(i := 0)) c (S(i := [])) fs"
  by (simp add: ht_shape_def separate_def slot_ok_def)

lemma shape_install:
  assumes sh: "ht_shape m c S fs" and "S i = []" and ok: "slot_ok c w ls"
    and ls: "distinct ls" "\<forall>x \<in> set ls. cell_ok (unat (c (Suc 0))) x \<and> x \<notin> set fs \<and> (\<forall>j. x \<notin> set (S j))"
  shows "ht_shape (m(i := w)) c (S(i := ls)) fs"
proof -
  have "separate S fs" using sh by (simp add: ht_shape_def)
  then have "separate (S(i := ls)) fs"
    unfolding separate_def using ls \<open>S i = []\<close> by (auto simp: disjoint_iff)
  then show ?thesis using sh ok ls by (simp add: ht_shape_def)
qed

section \<open>Allocating and freeing collision cells\<close>

text \<open>A cell that belongs to no list.\<close>

definition unowned :: "(nat \<Rightarrow> 32 word) \<Rightarrow> (nat \<Rightarrow> nat list) \<Rightarrow> nat list \<Rightarrow> nat \<Rightarrow> bool" where
  "unowned c S fs x \<longleftrightarrow> cell_ok (unat (c (Suc 0))) x \<and> x \<notin> set fs \<and> (\<forall>i. x \<notin> set (S i))"

lemma FreeLink_simps:
  "htmain (FreeLink l g) = htmain g"
  "htcoll (FreeLink l g) = (htcoll g)(l := 0, Suc l := ((htcoll g)(l := 0)) 0, 0 := of_nat l)"
  by (simp_all add: FreeLink_def Let_def)

lemma cell_bound: "cell_ok (unat (w :: 32 word)) x \<Longrightarrow> x < 2 ^ 32"
  using unat_bound32 [of w] by (auto simp: cell_ok_def)

lemma unat_of_cell [simp]: "cell_ok (unat (w :: 32 word)) x \<Longrightarrow> unat (of_nat x :: 32 word) = x"
  using cell_bound by (simp add: unat_of_nat)

lemma FreeLink_shape:
  assumes sh: "ht_shape m (htcoll g) S fs" and u: "unowned (htcoll g) S fs l"
  shows "ht_shape m (htcoll (FreeLink l g)) S (l # fs)" "agree {l} (htcoll g) (htcoll (FreeLink l g))"
    "htcoll (FreeLink l g) (Suc 0) = htcoll g (Suc 0)"
proof -
  let ?c = "htcoll g" and ?c' = "htcoll (FreeLink l g)"
  have l: "even l" "2 \<le> l" "cell_ok (unat (?c (Suc 0))) l" using u by (auto simp: unowned_def cell_ok_def)
  have c': "?c' = ?c(l := 0, Suc l := ?c 0, 0 := of_nat l)"
    using l by (simp add: FreeLink_simps)
  show a: "agree {l} ?c ?c'" using l by (auto simp: c' agree_def)
  show one: "?c' (Suc 0) = ?c (Suc 0)" using l by (simp add: c')
  have ok: "\<forall>x \<in> set fs. cell_ok (unat (?c (Suc 0))) x \<and> x \<notin> {l}"
    "\<forall>i. \<forall>x \<in> set (S i). cell_ok (unat (?c (Suc 0))) x \<and> x \<notin> {l}"
    using sh u by (auto simp: ht_shape_def unowned_def)
  have "chain ?c' (unat (?c 0)) fs"
    using sh chain_agree [OF a ok(1)] by (simp add: ht_shape_def)
  then have "chain ?c' (unat (?c' 0)) (l # fs)" using l by (simp add: c')
  moreover have "separate S (l # fs)" using sh u by (auto simp: ht_shape_def separate_def unowned_def)
  moreover have "\<forall>i < HTSLOTS. slot_ok ?c' (m i) (S i)"
    using sh slot_ok_agree [OF a] ok(2) unfolding ht_shape_def by metis
  ultimately show "ht_shape m ?c' S (l # fs)"
    using sh l by (simp add: ht_shape_def one)
qed

lemma GetLink_shape:
  assumes sh: "ht_shape m (htcoll g) S fs" and gl: "GetLink g = (Some l, g')"
  obtains fs' where "ht_shape m (htcoll g') S fs'" "unowned (htcoll g') S fs' l"
    "agree {} (htcoll g) (htcoll g')" "g' = g\<lparr>htcoll := htcoll g'\<rparr>"
    "\<And>x. unowned (htcoll g) S fs x \<Longrightarrow> x \<noteq> l \<and> unowned (htcoll g') S fs' x"
proof (cases "unat (htcoll g 0) = 0")
  case True
  then have fs: "fs = []" using sh by (cases fs) (auto simp: ht_shape_def)
  let ?t = "unat (htcoll g (Suc 0))"
  from gl True have t: "\<not> HTCOLLMAX \<le> ?t" and l: "l = ?t" and g': "g' = putgc (Coll (Suc 0)) (of_nat (?t + 2)) g"
    by (auto simp: GetLink_def Let_def split: if_splits)
  have t1: "unat (of_nat (?t + 2) :: 32 word) = ?t + 2"
    using t by (subst unat_of_nat) (simp add: HTCOLLMAX_def HTCOLL_SIZE_def)
  have c': "htcoll g' = (htcoll g)(Suc 0 := of_nat (?t + 2))" by (simp add: g')
  have a: "agree {} (htcoll g) (htcoll g')" by (simp add: c')
  have ev: "even ?t" "2 \<le> ?t" using sh by (auto simp: ht_shape_def)
  have ok: "\<forall>i. \<forall>x \<in> set (S i). cell_ok ?t x \<and> x \<notin> {}" using sh by (auto simp: ht_shape_def)
  have "\<forall>i < HTSLOTS. slot_ok (htcoll g') (m i) (S i)"
    using sh slot_ok_agree [OF a] ok unfolding ht_shape_def by metis
  moreover have "cell_ok (?t + 2) x" if "cell_ok ?t x" for x using that by (simp add: cell_ok_def)
  ultimately have s: "ht_shape m (htcoll g') S []"
    using sh t fs ok t1 True by (auto simp: ht_shape_def c')
  have "\<And>i. l \<notin> set (S i)" using ok l by (auto simp: cell_ok_def)
  then have u: "unowned (htcoll g') S [] l"
    using ev t1 by (simp add: unowned_def cell_ok_def c' l)
  show thesis
    by (rule that [OF s u a]) (use fs l t1 in \<open>auto simp: g' unowned_def cell_ok_def\<close>)
next
  case False
  let ?l = "unat (htcoll g 0)"
  from gl False have l: "l = ?l" and g': "g' = putgc (Coll 0) (htcoll g (?l + 1)) g"
    by (auto simp: GetLink_def Let_def)
  from sh False obtain fs' where fs: "fs = l # fs'"
    by (cases fs) (auto simp: ht_shape_def l)
  have c': "htcoll g' = (htcoll g)(0 := htcoll g (Suc l))" by (simp add: g' l)
  have a: "agree {} (htcoll g) (htcoll g')" by (simp add: c')
  have ok: "\<forall>i. \<forall>x \<in> set (S i). cell_ok (unat (htcoll g (Suc 0))) x \<and> x \<notin> {}"
    "\<forall>x \<in> set fs. cell_ok (unat (htcoll g (Suc 0))) x \<and> x \<notin> {}" using sh by (auto simp: ht_shape_def)
  have "chain (htcoll g) (unat (htcoll g (Suc l))) fs'" using sh by (simp add: ht_shape_def fs)
  then have "chain (htcoll g') (unat (htcoll g' 0)) fs'"
    using chain_agree [OF a, of fs' "unat (htcoll g (Suc 0))"] ok(2) by (simp add: fs c')
  moreover have "\<forall>i < HTSLOTS. slot_ok (htcoll g') (m i) (S i)"
    using sh slot_ok_agree [OF a] ok(1) unfolding ht_shape_def by metis
  moreover have "separate S fs'" using sh by (auto simp: ht_shape_def separate_def fs)
  ultimately have s: "ht_shape m (htcoll g') S fs'"
    using sh by (simp add: ht_shape_def c' fs)
  have u: "unowned (htcoll g') S fs' l"
    using sh by (auto simp: unowned_def ht_shape_def separate_def fs c')
  show thesis
    by (rule that [OF s u a]) (auto simp: g' unowned_def fs)
qed

end
