(* ===== verification/GC_Steps.thy ===== *)
theory GC_Steps
  imports GC_Shape
begin

text \<open>
  What each way through \<open>htfind\<close> does to the table: every one of them keeps the shape and
  changes the entry of one key (slot and high part) only.
\<close>

definition ht_ok :: "(nat \<Rightarrow> 32 word) \<Rightarrow> (nat \<Rightarrow> 32 word) \<Rightarrow> bool" where
  "ht_ok m c \<longleftrightarrow> (\<exists>S fs. ht_shape m c S fs)"

definition ht_upd ::
  "(nat \<Rightarrow> 32 word) \<Rightarrow> (nat \<Rightarrow> 32 word) \<Rightarrow> (nat \<Rightarrow> 32 word) \<Rightarrow> (nat \<Rightarrow> 32 word) \<Rightarrow>
   nat \<Rightarrow> 32 word \<Rightarrow> 32 word option \<Rightarrow> bool" where
  "ht_upd m c m' c' i h v \<longleftrightarrow>
     (\<forall>j < HTSLOTS. \<forall>h'. htlookup m' c' j h' = (if j = i \<and> h' = h then v else htlookup m c j h'))"

lemma htlookup_shape:
  "ht_shape m c S fs \<Longrightarrow> i < HTSLOTS \<Longrightarrow> htlookup m c i h = emap (ents m c S i) h"
  by (rule htlookup_emap) (simp add: ht_shape_def)

lemma slot_ok_shape: "ht_shape m c S fs \<Longrightarrow> i < HTSLOTS \<Longrightarrow> slot_ok c (m i) (S i)"
  by (simp add: ht_shape_def)

text \<open>
  The general step: the cells that change are either of slot \<open>i\<close> or unowned, and the entries of
  slot \<open>i\<close> change in the one way given.
\<close>

lemma ht_updI:
  assumes sh: "ht_shape m c S fs" and sh': "ht_shape m' c' S' fs'"
    and i: "i < HTSLOTS" and a: "agree Y c c'"
    and fr: "\<And>j. j \<noteq> i \<Longrightarrow> S' j = S j \<and> m' j = m j \<and> set (S j) \<inter> Y = {}"
    and e: "emap (ents m' c' S' i) = (emap (ents m c S i))(h := v)"
  shows "ht_upd m c m' c' i h v"
  unfolding ht_upd_def
proof (intro allI impI)
  fix j h' assume j: "j < HTSLOTS"
  show "htlookup m' c' j h' = (if j = i \<and> h' = h then v else htlookup m c j h')"
  proof (cases "j = i")
    case True
    then show ?thesis using i e by (simp add: htlookup_shape [OF sh] htlookup_shape [OF sh'])
  next
    case False
    have "ents m c' S j = ents m c S j"
      by (rule ents_agree [OF a]) (use fr [OF False] shape_cells [OF sh, of _ j] in blast)
    moreover have "ents m' c' S' j = ents m c' S j" using fr [OF False] by (simp add: ents_def)
    ultimately show ?thesis using False j by (simp add: htlookup_shape [OF sh] htlookup_shape [OF sh'])
  qed
qed

lemma shape_disjoint: "ht_shape m c S fs \<Longrightarrow> x \<in> set (S i) \<Longrightarrow> x \<in> set (S j) \<Longrightarrow> i = j"
  unfolding ht_shape_def separate_def by blast

lemma shape_not_free: "ht_shape m c S fs \<Longrightarrow> x \<in> set (S i) \<Longrightarrow> x \<notin> set fs"
  unfolding ht_shape_def separate_def by blast

lemma direct_slot: "slot_ok c w ls \<Longrightarrow> \<not> bit w 0 \<Longrightarrow> ls = [] \<and> (w = 0 \<or> wf_entry w)"
  by (auto simp: slot_ok_def split: if_splits)

text \<open>A slot that holds no link: write or clear its only entry.\<close>

lemma step_direct:
  assumes ok: "ht_ok m c" and i: "i < HTSLOTS" and w: "\<not> bit (m i) 0" "m i = 0 \<or> hhi (m i) = hhi e"
    and e: "wf_entry e"
  shows "ht_ok (m(i := e)) c \<and> ht_upd m c (m(i := e)) c i (hhi e) (Some e)"
proof -
  from ok obtain S fs where sh: "ht_shape m c S fs" by (auto simp: ht_ok_def)
  from direct_slot [OF slot_ok_shape [OF sh i] w(1)] have Si: "S i = []" by simp
  have "ht_shape ((m(i := 0))(i := e)) c ((S(i := []))(i := [])) fs"
    by (rule shape_install [OF shape_vacate [OF sh]]) (simp_all add: slot_ok_def e)
  then have sh': "ht_shape (m(i := e)) c (S(i := [])) fs" by simp
  have "ht_upd m c (m(i := e)) c i (hhi e) (Some e)"
    by (rule ht_updI [OF sh sh' i, where Y = "{}"])
       (use Si w wf_entry_nz [OF e] in \<open>auto simp: ents_def\<close>)
  with sh' show ?thesis by (auto simp: ht_ok_def)
qed

lemma step_direct_remove:
  assumes ok: "ht_ok m c" and i: "i < HTSLOTS" and w: "\<not> bit (m i) 0" "m i \<noteq> 0"
  shows "ht_ok (m(i := 0)) c \<and> ht_upd m c (m(i := 0)) c i (hhi (m i)) None"
proof -
  from ok obtain S fs where sh: "ht_shape m c S fs" by (auto simp: ht_ok_def)
  from direct_slot [OF slot_ok_shape [OF sh i] w(1)] have Si: "S i = []" by simp
  note sh' = shape_vacate [OF sh, of i]
  have "ht_upd m c (m(i := 0)) c i (hhi (m i)) None"
    by (rule ht_updI [OF sh sh' i, where Y = "{}"]) (use Si w in \<open>auto simp: ents_def\<close>)
  with sh' show ?thesis by (auto simp: ht_ok_def)
qed

text \<open>The two words a link is made of.\<close>

lemma link_word:
  assumes "cell_ok (unat (t :: 32 word)) l"
  shows "bit (of_nat l + 1 :: 32 word) 0" "unat (of_nat l + 1 - 1 :: 32 word) = l"
    "of_nat l + 1 \<noteq> (0 :: 32 word)"
proof -
  have ev: "even (of_nat l :: 32 word)"
    using assms by (auto simp: cell_ok_def elim!: evenE)
  then show "bit (of_nat l + 1 :: 32 word) 0" by (simp add: bit_0)
  show "unat (of_nat l + 1 - 1 :: 32 word) = l" using assms by simp
  from ev show "of_nat l + 1 \<noteq> (0 :: 32 word)" by (metis bit_0 bit_0_eq even_plus_one_iff bot_apply bot_bool_def)
qed

text \<open>A first collision: the slot's own entry and the new one move to two fresh cells.\<close>

lemma step_new_collision:
  assumes ok: "ht_ok m (htcoll g)" and i: "i < HTSLOTS"
    and w: "\<not> bit (m i) 0" "m i \<noteq> 0" "hhi (m i) \<noteq> hhi e" and e: "wf_entry e"
    and gl: "GetLink g = (Some link, g1)" "GetLink g1 = (Some prev, g2)"
    and c': "c' = (htcoll g2)(Suc prev := 0, prev := m i, Suc link := of_nat prev, link := e)"
  shows "ht_ok (m(i := of_nat link + 1)) c' \<and>
    ht_upd m (htcoll g) (m(i := of_nat link + 1)) c' i (hhi e) (Some e) \<and>
    g2 = g\<lparr>htcoll := htcoll g2\<rparr>"
proof -
  from ok obtain S fs where sh: "ht_shape m (htcoll g) S fs" by (auto simp: ht_ok_def)
  obtain fs1 where s1: "ht_shape m (htcoll g1) S fs1" and u1: "unowned (htcoll g1) S fs1 link"
    and a1: "agree {} (htcoll g) (htcoll g1)" and g1: "g1 = g\<lparr>htcoll := htcoll g1\<rparr>"
    by (rule GetLink_shape [OF sh gl(1)]) blast
  obtain fs2 where s2: "ht_shape m (htcoll g2) S fs2" and u2: "unowned (htcoll g2) S fs2 prev"
    and a2: "agree {} (htcoll g1) (htcoll g2)" and g2: "g2 = g1\<lparr>htcoll := htcoll g2\<rparr>"
    and keep: "\<And>x. unowned (htcoll g1) S fs1 x \<Longrightarrow> x \<noteq> prev \<and> unowned (htcoll g2) S fs2 x"
    by (rule GetLink_shape [OF s1 gl(2)]) blast
  from keep [OF u1] have np: "link \<noteq> prev" and ul: "unowned (htcoll g2) S fs2 link" by auto
  have cl: "cell_ok (unat (htcoll g2 (Suc 0))) link" "cell_ok (unat (htcoll g2 (Suc 0))) prev"
    using ul u2 by (auto simp: unowned_def)
  then have le: "even link" "2 \<le> link" "even prev" "2 \<le> prev" by (auto simp: cell_ok_def)
  then have neq: "Suc link \<noteq> prev" "Suc prev \<noteq> link" by auto
  from direct_slot [OF slot_ok_shape [OF sh i] w(1)] w(2) have Si: "S i = []" and wm: "wf_entry (m i)" by auto
  have a3: "agree {link, prev} (htcoll g2) c'" using le neq np by (auto simp: c' agree_def)
  have hdr: "c' 0 = htcoll g2 0" "c' (Suc 0) = htcoll g2 (Suc 0)" using le by (auto simp: c')
  have s3: "ht_shape m c' S fs2"
    by (rule shape_agree [OF s2 a3 hdr]) (use ul u2 in \<open>auto simp: unowned_def\<close>)
  have ok3: "slot_ok c' (of_nat link + 1) [link, prev]"
    using le neq np wm e w(3) link_word [OF cl(1)] cl(2) by (auto simp: slot_ok_def c')
  have "ht_shape ((m(i := 0))(i := of_nat link + 1)) c' ((S(i := []))(i := [link, prev])) fs2"
    by (rule shape_install [OF shape_vacate [OF s3]])
       (use ok3 np ul u2 in \<open>auto simp: unowned_def hdr\<close>)
  then have s4: "ht_shape (m(i := of_nat link + 1)) c' (S(i := [link, prev])) fs2" by simp
  have "agree {link, prev} (htcoll g) c'"
    using agree_trans [OF agree_trans [OF a1 a2] a3] by simp
  then have "ht_upd m (htcoll g) (m(i := of_nat link + 1)) c' i (hhi e) (Some e)"
    by (rule ht_updI [OF sh s4 i]) 
       (use Si w neq np ul u2 in \<open>auto simp: ents_def unowned_def c' fun_eq_iff\<close>)
  moreover have "g2 = g\<lparr>htcoll := htcoll g2\<rparr>"
    using arg_cong [OF g1, of "\<lambda>x. x\<lparr>htcoll := htcoll g2\<rparr>"] g2 by simp
  ultimately show ?thesis using s4 by (auto simp: ht_ok_def)
qed

text \<open>The link loop always ends, at the entry looked for or with the knowledge that there is none.\<close>

lemma collision_slot:
  assumes sh: "ht_shape m c S fs" and i: "i < HTSLOTS" and b: "bit (m i) 0"
  shows "S i \<noteq> []" "chain c (unat (m i - 1)) (S i)" "\<forall>x \<in> set (S i). wf_entry (c x)"
    "distinct (map (\<lambda>x. hhi (c x)) (S i))" "2 \<le> length (S i)" "distinct (S i)"
    "\<forall>x \<in> set (S i). cell_ok (unat (c (Suc 0))) x"
proof -
  from slot_ok_shape [OF sh i] b wf_entry_even [of "m i"]
  show "S i \<noteq> []" "chain c (unat (m i - 1)) (S i)" "\<forall>x \<in> set (S i). wf_entry (c x)"
    "distinct (map (\<lambda>x. hhi (c x)) (S i))" "2 \<le> length (S i)"
    by (auto simp: slot_ok_def split: if_splits)
  show "distinct (S i)" "\<forall>x \<in> set (S i). cell_ok (unat (c (Suc 0))) x"
    using sh by (auto simp: ht_shape_def separate_def)
qed

lemma newlink_cases:
  assumes sh: "ht_shape m c S fs" and i: "i < HTSLOTS" and b: "bit (m i) 0"
  obtains (hit) xs x ys where "newlink c h (unat (m i - 1)) 0 = Some (Some (x, if xs = [] then 0 else last xs))"
      "S i = xs @ x # ys" "hhi (c x) = h"
    | (miss) "newlink c h (unat (m i - 1)) 0 = Some None" "\<forall>x \<in> set (S i). hhi (c x) \<noteq> h"
proof (cases "\<exists>x \<in> set (S i). hhi (c x) = h")
  case True
  obtain xs x ys where s: "S i = xs @ x # ys" "hhi (c x) = h" "\<forall>y \<in> set xs. hhi (c y) \<noteq> h"
    using split_list_first_prop [OF True] by blast
  have "newlink c h (unat (m i - 1)) 0 = Some (Some (x, if xs = [] then 0 else last xs))"
    by (rule newlink_hit [of _ _ _ _ ys])
       (use collision_slot(2) [OF sh i b] s in \<open>auto simp: hhi_def\<close>)
  with s show thesis using that(1) by blast
next
  case False
  show thesis
    by (rule that(2) [OF newlink_miss]) (use collision_slot [OF sh i b] False in \<open>auto simp: hhi_def\<close>)
qed

text \<open>A further collision: the new entry goes to the front of the chain.\<close>

lemma step_push:
  assumes ok: "ht_ok m (htcoll g)" and i: "i < HTSLOTS" and b: "bit (m i) 0"
    and miss: "newlink (htcoll g) (hhi e) (unat (m i - 1)) 0 = Some None" and e: "wf_entry e"
    and gl: "GetLink g = (Some link, g1)"
    and c': "c' = (htcoll g1)(Suc link := m i - 1, link := e)"
  shows "ht_ok (m(i := of_nat link + 1)) c' \<and>
    ht_upd m (htcoll g) (m(i := of_nat link + 1)) c' i (hhi e) (Some e) \<and>
    g1 = g\<lparr>htcoll := htcoll g1\<rparr>"
proof -
  from ok obtain S fs where sh: "ht_shape m (htcoll g) S fs" by (auto simp: ht_ok_def)
  note cs = collision_slot [OF sh i b]
  have no: "\<forall>x \<in> set (S i). hhi (htcoll g x) \<noteq> hhi e"
    by (rule newlink_cases [OF sh i b, of "hhi e"]) (use miss in auto)
  obtain fs1 where s1: "ht_shape m (htcoll g1) S fs1" and u1: "unowned (htcoll g1) S fs1 link"
    and a1: "agree {} (htcoll g) (htcoll g1)" and g1: "g1 = g\<lparr>htcoll := htcoll g1\<rparr>"
    by (rule GetLink_shape [OF sh gl]) blast
  note cs1 = collision_slot [OF s1 i b]
  have cl: "cell_ok (unat (htcoll g1 (Suc 0))) link" using u1 by (auto simp: unowned_def)
  then have le: "even link" "2 \<le> link" by (auto simp: cell_ok_def)
  have a3: "agree {link} (htcoll g1) c'" using le by (auto simp: c' agree_def)
  have hdr: "c' 0 = htcoll g1 0" "c' (Suc 0) = htcoll g1 (Suc 0)" using le by (auto simp: c')
  have s3: "ht_shape m c' S fs1"
    by (rule shape_agree [OF s1 a3 hdr]) (use u1 in \<open>auto simp: unowned_def\<close>)
  have a: "agree {link} (htcoll g) c'" using agree_trans [OF a1 a3] by simp
  have nl: "link \<notin> set (S i)" using u1 by (auto simp: unowned_def)
  have cc: "\<forall>x \<in> set (S i). cell_ok (unat (htcoll g (Suc 0))) x \<and> x \<notin> {link}"
    using cs(7) nl by auto
  have eq: "c' x = htcoll g x" if "x \<in> set (S i)" for x
    using agreeD [OF a] cc that by blast
  have "chain c' (unat (m i - 1)) (S i)" using chain_agree [OF a cc] cs(2) by simp
  then have ch: "chain c' link (link # S i)" using le by (simp add: c')
  have hd: "map (\<lambda>x. hhi (c' x)) (S i) = map (\<lambda>x. hhi (htcoll g x)) (S i)" using eq by simp
  have dm: "distinct (map (\<lambda>x. hhi (c' x)) (S i))" unfolding hd by (rule cs(4))
  have ok3: "slot_ok c' (of_nat link + 1) (link # S i)"
    unfolding slot_ok_def using cs(1,3) ch link_word [OF cl] e no eq dm
    by (cases "S i") (auto simp: c')
  have "ht_shape ((m(i := 0))(i := of_nat link + 1)) c' ((S(i := []))(i := link # S i)) fs1"
    by (rule shape_install [OF shape_vacate [OF s3]])
       (use ok3 nl cs(6) u1 cs1(7) s1 in \<open>auto simp: unowned_def hdr ht_shape_def separate_def disjoint_iff\<close>)
  then have s4: "ht_shape (m(i := of_nat link + 1)) c' (S(i := link # S i)) fs1" by simp
  have em: "emap (map c' (S i)) = emap (map (htcoll g) (S i))" using eq by (simp add: cong: map_cong)
  have "ht_upd m (htcoll g) (m(i := of_nat link + 1)) c' i (hhi e) (Some e)"
    by (rule ht_updI [OF sh s4 i a])
       (use cs(1) u1 em in \<open>auto simp: ents_def unowned_def c'\<close>)
  with s4 g1 show ?thesis by (auto simp: ht_ok_def)
qed

text \<open>The entry is in a chain: it is overwritten in place.\<close>

lemma step_chain_put:
  assumes ok: "ht_ok m c" and i: "i < HTSLOTS" and b: "bit (m i) 0"
    and hit: "newlink c (hhi e) (unat (m i - 1)) 0 = Some (Some (link, prev))" and e: "wf_entry e"
  shows "ht_ok m (c(link := e)) \<and> ht_upd m c m (c(link := e)) i (hhi e) (Some e)"
proof -
  from ok obtain S fs where sh: "ht_shape m c S fs" by (auto simp: ht_ok_def)
  note cs = collision_slot [OF sh i b]
  obtain xs ys where s: "S i = xs @ link # ys" "hhi (c link) = hhi e"
    by (rule newlink_cases [OF sh i b, of "hhi e"]) (use hit in auto)
  have le: "even link" "2 \<le> link" using cs(7) s by (auto simp: cell_ok_def)
  have a: "agree {link} c (c(link := e))" using le by (simp add: agree_cell)
  have ch: "chain (c(link := e)) (unat (m i - 1)) (S i)"
    using cs(2,7) le by (subst chain_cong [of _ "c(link := e)" c]) (auto simp: cell_ok_def)
  have hd: "map (\<lambda>x. hhi ((c(link := e)) x)) (S i) = map (\<lambda>x. hhi (c x)) (S i)"
    using s by auto
  have ok3: "slot_ok (c(link := e)) (m i) (S i)"
    unfolding slot_ok_def hd using cs ch e b by auto
  have oth: "x \<noteq> link" if "x \<in> set (S j)" "j \<noteq> i" for x j
    using shape_disjoint [OF sh that(1), of i] s that(2) by auto
  have lf: "link \<notin> set fs" using shape_not_free [OF sh, of link i] s by simp
  have sv: "ht_shape (m(i := 0)) (c(link := e)) (S(i := [])) fs"
    by (rule shape_agree [OF shape_vacate [OF sh] a]) (use le lf oth in auto)
  have "ht_shape ((m(i := 0))(i := m i)) (c(link := e)) ((S(i := []))(i := S i)) fs"
    by (rule shape_install [OF sv])
       (use ok3 cs(6,7) le sh in \<open>auto simp: ht_shape_def separate_def disjoint_iff\<close>)
  then have s4: "ht_shape m (c(link := e)) S fs" by simp
  have d: "link \<notin> set xs" "link \<notin> set ys" using cs(6) s by auto
  have "hhi e \<notin> hhi ` c ` set xs" using cs(4) s by auto
  then have "emap (map (c(link := e)) (S i)) = (emap (map c (S i)))(hhi e \<mapsto> e)"
    using d s(2) emap_None [of "map c xs" "hhi e"]
    by (auto simp: s(1) fun_eq_iff map_add_def split: option.splits)
  then have "ht_upd m c m (c(link := e)) i (hhi e) (Some e)"
    by (intro ht_updI [OF sh s4 i a]) (use cs(1) oth in \<open>auto simp: ents_def\<close>)
  with s4 show ?thesis by (auto simp: ht_ok_def)
qed

text \<open>The entry is in a chain and goes away (label \<open>dellink\<close>).\<close>

lemma or_1_even: "\<not> bit w 0 \<Longrightarrow> w OR 1 = w + (1 :: 32 word)"
  by (simp add: or_one_eq bit_0)

lemma even_bit0: "even (unat (w :: 32 word)) \<Longrightarrow> \<not> bit w 0"
proof -
  assume "even (unat w)"
  then have "\<not> bit (unat w) 0" by (simp add: bit_0)
  then show ?thesis by (simp add: bit_unsigned_iff)
qed

lemma chain_link_word:
  assumes "chain c (unat (w :: 32 word)) ys" "ys \<noteq> []" "\<forall>x \<in> set ys. cell_ok tp x"
  shows "bit (w OR 1) 0" "unat ((w OR 1) - 1) = hd ys"
proof -
  have h: "unat w = hd ys" "hd ys \<in> set ys" using chain_hd [OF assms(1,2)] assms(2) by auto
  with assms(3) have "even (unat w)" by (auto simp: cell_ok_def)
  from or_1_even [OF even_bit0 [OF this]] h(1) show "unat ((w OR 1) - 1) = hd ys" by simp
  show "bit (w OR 1) 0" by (simp add: bit_or_iff bit_1_iff)
qed

text \<open>The first half: the chain without the cell, still hanging off the slot.\<close>

lemma unlink_cell:
  assumes sh: "ht_shape m c S fs" and i: "i < HTSLOTS" and b: "bit (m i) 0"
    and s: "S i = xs @ link # ys"
    and c1: "c1 = (if xs = [] then c else c(Suc (last xs) := c (Suc link)))"
    and m1: "m1 = (if xs = [] then m(i := c (Suc link) OR 1) else m)"
  shows "bit (m1 i) 0" "chain c1 (unat (m1 i - 1)) (xs @ ys)"
    "agree (set xs) c c1" "\<And>x. x \<in> set (xs @ ys) \<Longrightarrow> c1 x = c x"
    "c1 0 = c 0" "c1 (Suc 0) = c (Suc 0)" "\<And>j. j \<noteq> i \<Longrightarrow> m1 j = m j"
proof -
  note cs = collision_slot [OF sh i b]
  have cl: "\<And>x. x \<in> set (S i) \<Longrightarrow> even x \<and> 2 \<le> x" using cs(7) by (auto simp: cell_ok_def)
  have ly: "chain c (unat (c (Suc link))) ys"
    using chain_append [of c "unat (m i - 1)" "xs @ [link]" ys] cs(2) s by simp
  show "agree (set xs) c c1"
    using cl s by (cases "xs = []") (auto simp: c1 intro!: agree_next)
  have lx: "xs \<noteq> [] \<Longrightarrow> even (last xs) \<and> 2 \<le> last xs" using cl s by auto
  have nx: "x \<noteq> Suc (last xs)" if "x \<in> set (xs @ ys)" "xs \<noteq> []" for x
    using cl [of x] lx that s by (auto simp del: last_in_set)
  show "\<And>x. x \<in> set (xs @ ys) \<Longrightarrow> c1 x = c x"
    using nx by (simp add: c1)
  show "c1 0 = c 0" "c1 (Suc 0) = c (Suc 0)" using lx by (auto simp: c1)
  show "\<And>j. j \<noteq> i \<Longrightarrow> m1 j = m j" by (simp add: m1)
  show "bit (m1 i) 0" using b by (auto simp: m1 bit_or_iff bit_1_iff)
  show "chain c1 (unat (m1 i - 1)) (xs @ ys)"
  proof (cases "xs = []")
    case True
    with cs(5) s have ys: "ys \<noteq> []" by auto
    have "unat ((c (Suc link) OR 1) - 1) = hd ys"
      by (rule chain_link_word(2) [OF ly ys]) (use cs(7) s in auto)
    then show ?thesis using True ly chain_hd [OF ly ys] by (simp add: c1 m1)
  next
    case False
    have d: "distinct xs" "last xs \<notin> set ys" using cs(6) s False by (auto dest: last_in_set)
    then have "\<forall>x \<in> set ys. Suc (last xs) \<noteq> Suc x" by auto
    then have "chain c1 (unat (c (Suc link))) ys" using ly False by (simp add: c1)
    with chain_redirect [of c "unat (m i - 1)" xs "link # ys" "c (Suc link)" ys] cs(2) s False d
    show ?thesis by (simp add: c1 m1)
  qed
qed

lemma emap_remove:
  "distinct (map hhi (as @ e # bs)) \<Longrightarrow> emap (as @ bs) = (emap (as @ e # bs))(hhi e := None)"
  using emap_None [of as "hhi e"] emap_None [of bs "hhi e"]
  by (auto simp: fun_eq_iff map_add_def split: option.splits)

lemma step_dellink:
  assumes ok: "ht_ok (htmain g) (htcoll g)" and i: "i < HTSLOTS" and b: "bit (htmain g i) 0"
    and hit: "newlink (htcoll g) h (unat (htmain g i - 1)) 0 = Some (Some (link, prev))"
    and g': "g' = dellink i link prev g"
  shows "ht_ok (htmain g') (htcoll g') \<and>
    ht_upd (htmain g) (htcoll g) (htmain g') (htcoll g') i h None \<and>
    g' = g\<lparr>htmain := htmain g', htcoll := htcoll g'\<rparr>"
proof -
  let ?m = "htmain g" and ?c = "htcoll g"
  from ok obtain S fs where sh: "ht_shape ?m ?c S fs" by (auto simp: ht_ok_def)
  note cs = collision_slot [OF sh i b]
  obtain xs ys where s: "S i = xs @ link # ys" "hhi (?c link) = h"
      and prev: "prev = (if xs = [] then 0 else last xs)"
    by (rule newlink_cases [OF sh i b, of h]) (use hit in auto)
  have lx: "prev \<noteq> 0" if "xs \<noteq> []"
  proof -
    have "last xs \<in> set (S i)" using that by (simp add: s)
    then show ?thesis using cs(7) prev that by (auto simp: cell_ok_def)
  qed
  define g1 where "g1 = (if prev \<noteq> 0 then putgc (Coll (prev + 1)) (?c (link + 1)) g
                         else putgc (Main i) (?c (link + 1) OR 1) g)"
  have c1: "htcoll g1 = (if xs = [] then ?c else ?c(Suc (last xs) := ?c (Suc link)))"
    and m1: "htmain g1 = (if xs = [] then ?m(i := ?c (Suc link) OR 1) else ?m)"
    using prev lx by (auto simp: g1_def)
  note u = unlink_cell [OF sh i b s(1) c1 m1]
  let ?ls = "xs @ ys" and ?mv = "?m(i := 0)" and ?Sv = "S(i := [])"
  define g2 where "g2 = FreeLink link g1"
  have ne: "?ls \<noteq> []" using cs(5) s by (cases xs) auto
  have dl: "link \<notin> set ?ls" "distinct ?ls" using cs(6) s by auto
  have oth: "x \<notin> set (S j)" if "x \<in> set (S i)" "j \<noteq> i" for x j
    using shape_disjoint [OF sh that(1)] that(2) by blast
  have s1: "ht_shape ?mv (htcoll g1) ?Sv fs"
    by (rule shape_agree [OF shape_vacate [OF sh] u(3,5,6)])
       (use oth s shape_not_free [OF sh, of _ i] in auto)
  have un: "unowned (htcoll g1) ?Sv fs x" if "x \<in> set (S i)" for x
    using that oth shape_not_free [OF sh that] cs(7) u(6) by (auto simp: unowned_def)
  have ul: "unowned (htcoll g1) ?Sv fs link" by (rule un) (simp add: s)
  note f = FreeLink_shape [OF s1 ul, folded g2_def]
  have mg2: "htmain g2 = htmain g1" by (simp add: g2_def FreeLink_simps)
  have un2: "unowned (htcoll g2) ?Sv (link # fs) x" if "x \<in> set ?ls" for x
    using un [of x] that s f(3) dl by (auto simp: unowned_def)
  have cx: "\<forall>x \<in> set ?ls. cell_ok (unat (htcoll g1 (Suc 0))) x \<and> x \<notin> {link}"
    using un s dl unfolding unowned_def by auto
  have ch2: "chain (htcoll g2) (unat (htmain g2 i - 1)) ?ls"
    using u(2) chain_agree [OF f(2) cx] by (simp add: mg2)
  have e2: "htcoll g2 x = ?c x" if "x \<in> set ?ls" for x
    using agreeD [OF f(2), of _ x] cx u(4) [of x] that by auto
  define l where "l = unat (htmain g2 i - 1)"
  have l: "l = hd ?ls" "l \<in> set ?ls" using chain_hd [OF ch2 ne] ne by (auto simp: l_def)
  have dk: "distinct (map hhi (map ?c xs @ ?c link # map ?c ys))" using cs(4) s by (simp add: comp_def)
  have em: "emap (map ?c ?ls) = (emap (map ?c (S i)))(h := None)"
    using emap_remove [OF dk] s by simp
  have a02: "agree (set (S i)) ?c (htcoll g2)"
    by (rule agree_mono [OF agree_trans [OF u(3) f(2)]]) (use s in auto)
  have frame: "g2 = g\<lparr>htmain := htmain g2, htcoll := htcoll g2\<rparr>"
    by (simp add: g2_def FreeLink_def g1_def Let_def)
  have g'2: "g' = (if htcoll g2 (l + 1) = 0
      then FreeLink l (putgc (Main i) (htcoll g2 l) g2) else g2)"
    by (simp only: g' dellink_def Let_def g1_def g2_def l_def)
  have wf: "\<forall>x \<in> set ?ls. wf_entry (htcoll g2 x)" using cs(3) s e2 by auto
  show ?thesis
  proof (cases "htcoll g2 (Suc l) = 0")
    case True
    then have ls: "?ls = [l]"
      using ch2 l by (cases ?ls) (auto simp: l_def dest: chain_hd split: list.splits)
    let ?g3 = "putgc (Main i) (htcoll g2 l) g2"
    have cg3: "htcoll ?g3 = htcoll g2" by simp
    have sh3: "ht_shape ?mv (htcoll ?g3) ?Sv (link # fs)" using f(1) by simp
    have "unowned (htcoll ?g3) ?Sv (link # fs) l" using un2 l by simp
    note f3 = FreeLink_shape [OF sh3 this]
    have m': "htmain g' = ?mv(i := htcoll g2 l)" and cg': "htcoll g' = htcoll (FreeLink l ?g3)"
      using True u(7) by (auto simp: g'2 FreeLink_simps mg2 fun_eq_iff)
    have "ht_shape (?mv(i := htcoll g2 l)) (htcoll g') (?Sv(i := [])) (l # link # fs)"
      by (rule shape_install) (use f3(1) wf l in \<open>auto simp: cg' slot_ok_def\<close>)
    then have s4: "ht_shape (htmain g') (htcoll g') ?Sv (l # link # fs)" by (simp add: m')
    have a: "agree (set (S i)) ?c (htcoll g')"
    proof -
      have al: "agree {l} (htcoll g2) (htcoll g')" using f3(2) by (simp only: cg3 cg')
      show ?thesis by (rule agree_mono [OF agree_trans [OF a02 al]]) (use l(2) s in auto)
    qed
    have "ents (htmain g') (htcoll g') ?Sv i = map ?c ?ls"
      using wf_entry_nz wf l(2) e2 by (simp add: ents_def m' ls)
    then have "ht_upd ?m ?c (htmain g') (htcoll g') i h None"
      by (intro ht_updI [OF sh s4 i a]) (use oth em cs(1) in \<open>auto simp: ents_def m'\<close>)
    moreover have "g' = g\<lparr>htmain := htmain g', htcoll := htcoll g'\<rparr>"
      using True arg_cong [OF frame, of "\<lambda>g. g\<lparr>htmain := htmain g', htcoll := htcoll g'\<rparr>"]
      by (simp add: g'2 FreeLink_def Let_def)
    ultimately show ?thesis using s4 by (auto simp: ht_ok_def)
  next
    case False
    then have g'3: "g' = g2" by (simp add: g'2)
    have len: "2 \<le> length ?ls"
      using False ch2 l ne by (cases ?ls rule: remdups_adj.cases) (auto simp: unat_eq_0)
    have dm: "distinct (map (\<lambda>x. hhi (htcoll g2 x)) ?ls)"
    proof -
      have mm: "map (\<lambda>x. hhi (htcoll g2 x)) ?ls = map (\<lambda>x. hhi (?c x)) ?ls" using e2 by simp
      show ?thesis unfolding mm using cs(4) s by auto
    qed
    have "ht_shape (?mv(i := htmain g2 i)) (htcoll g2) (?Sv(i := ?ls)) (link # fs)"
      by (rule shape_install [OF f(1)])
         (use len ch2 wf dm dl un2 u(1) ne in \<open>auto simp: slot_ok_def mg2 unowned_def\<close>)
    moreover have "?mv(i := htmain g2 i) = htmain g2" using u(7) by (auto simp: mg2 fun_eq_iff)
    ultimately have s4: "ht_shape (htmain g') (htcoll g') (S(i := ?ls)) (link # fs)"
      by (simp add: g'3)
    have "ents (htmain g') (htcoll g') (S(i := ?ls)) i = map ?c ?ls"
      using ne e2 by (auto simp: ents_def g'3)
    then have "ht_upd ?m ?c (htmain g') (htcoll g') i h None"
      by (intro ht_updI [OF sh s4 i a02 [folded g'3]])
         (use oth em cs(1) u(7) in \<open>auto simp: ents_def g'3 mg2\<close>)
    then show ?thesis using s4 frame by (auto simp: ht_ok_def g'3)
  qed
qed

end
