(* ===== verification/GC_Overflow.thy ===== *)
theory GC_Overflow
  imports GC_Steps
begin

text \<open>
  Pointers as keys of the reference-count table (slot and high part, \<open>src/gchtfind.c\<close>), and the
  overflow table \<open>HTbigcount\<close> as a map from keys to counts: what \<open>big_find\<close> and
  \<open>big_free\<close> find in it, and the three changes the collector makes to it.
\<close>

section \<open>Pointers as keys\<close>

definition key_of :: "LispPTR \<Rightarrow> LispPTR" where "key_of p = p AND 0xFFFFFFFE"

text \<open>The pointers that are counted: 28-bit addresses outside of segment 0 (the atoms).\<close>

definition gc_ptr :: "LispPTR \<Rightarrow> bool" where
  "gc_ptr p \<longleftrightarrow> p AND POINTERMASK = p \<and> ht_hiptr p \<noteq> 0"

lemma slot_bound: "ht_slot p < HTSLOTS"
proof -
  have "p AND 0xFFFF = take_bit 16 p" unfolding take_bit_eq_mask by (simp add: mask_eq_exp_minus_1)
  then have "ht_slot p = unat (drop_bit 1 (take_bit 16 p))" by (simp only: ht_slot_def)
  also have "\<dots> = (unat p mod 2 ^ 16) div 2"
    unfolding unat_drop_bit_eq unsigned_take_bit_eq take_bit_eq_mod [where 'a = nat]
    by (simp add: drop_bit_eq_div)
  finally show ?thesis by (simp add: HTSLOTS_def)
qed

lemma is_hi_hiptr: "ht_hiptr p \<noteq> 0 \<Longrightarrow> is_hi (ht_hiptr p)"
  by (simp add: is_hi_def ht_hiptr_def and.assoc)

lemma bit_fffffffe: "bit (0xFFFFFFFE :: 32 word) n \<longleftrightarrow> 1 \<le> n \<and> n < 32"
proof -
  have m: "(0xFFFFFFFE :: 32 word) = push_bit 1 0x7FFFFFFF" by simp
  have k: "(0x7FFFFFFF :: 32 word) = mask 31" by (simp add: mask_eq_exp_minus_1)
  have "bit (push_bit 1 (mask 31) :: 32 word) n \<longleftrightarrow> 1 \<le> n \<and> n < 32"
    by (simp only: bit_push_bit_iff bit_mask_iff possible_bit_word) auto
  then show ?thesis unfolding m k .
qed

lemma bit_pointermask: "bit POINTERMASK n \<longleftrightarrow> n < 28"
proof -
  have k: "POINTERMASK = mask 28" by (simp add: POINTERMASK_def mask_eq_exp_minus_1)
  show ?thesis unfolding k by (auto simp: bit_mask_iff)
qed

lemma bit_key_of: "bit (key_of p) n \<longleftrightarrow> bit p n \<and> 1 \<le> n"
  unfolding key_of_def bit_and_iff bit_fffffffe using bit_imp_le_length [of p n] by auto

lemma bit_hiptr: "bit (ht_hiptr p) n \<longleftrightarrow> 1 \<le> n \<and> n \<le> 12 \<and> bit p (15 + n)"
  by (auto simp: ht_hiptr_def bit_and_iff bit_himask bit_drop_bit_eq)

lemma bit_low16: "bit (drop_bit 1 (p AND 0xFFFF) :: 32 word) n \<longleftrightarrow> n < 15 \<and> bit p (Suc n)"
proof -
  have "p AND 0xFFFF = take_bit 16 p" unfolding take_bit_eq_mask by (simp add: mask_eq_exp_minus_1)
  then have "bit (drop_bit 1 (p AND 0xFFFF)) n = bit (drop_bit 1 (take_bit 16 p)) n" by (simp only:)
  also have "\<dots> = (n < 15 \<and> bit p (Suc n))"
    by (simp only: bit_drop_bit_eq bit_take_bit_iff comp_apply) auto
  finally show ?thesis .
qed

lemma slot_key_of [simp]: "ht_slot (key_of p) = ht_slot p"
proof -
  have "drop_bit 1 (key_of p AND 0xFFFF) = drop_bit 1 (p AND 0xFFFF)"
    by (rule bit_word_eqI) (simp only: bit_low16 bit_key_of, simp)
  then show ?thesis by (simp only: ht_slot_def)
qed

lemma hiptr_key_of [simp]: "ht_hiptr (key_of p) = ht_hiptr p"
  by (rule bit_word_eqI) (auto simp: bit_hiptr bit_key_of)

lemma key_of_idem [simp]: "key_of (key_of p) = key_of p"
  by (rule bit_word_eqI) (auto simp: bit_key_of)

text \<open>Slot and high part identify a counted pointer, up to its lowest bit.\<close>

lemma key_inj:
  assumes "gc_ptr p" "gc_ptr q"
  shows "ht_slot p = ht_slot q \<and> ht_hiptr p = ht_hiptr q \<longleftrightarrow> key_of p = key_of q"
proof
  assume a: "ht_slot p = ht_slot q \<and> ht_hiptr p = ht_hiptr q"
  then have lo: "drop_bit 1 (p AND 0xFFFF) = drop_bit 1 (q AND 0xFFFF)"
    by (simp only: ht_slot_def word_unat_eq_iff)
  have hi: "ht_hiptr p = ht_hiptr q" using a by simp
  show "key_of p = key_of q"
  proof (rule bit_word_eqI)
    fix n assume "n < LENGTH(32)"
    have P: "bit p n \<Longrightarrow> n < 28" "bit q n \<Longrightarrow> n < 28"
      using assms unfolding gc_ptr_def by (metis bit_and_iff bit_pointermask)+
    show "bit (key_of p) n = bit (key_of q) n"
    proof (cases "n < 16")
      case True
      have "bit (drop_bit 1 (p AND 0xFFFF)) (n - 1) = bit (drop_bit 1 (q AND 0xFFFF)) (n - 1)"
        by (simp only: lo)
      with True show ?thesis by (cases n) (simp_all only: bit_low16 bit_key_of, auto)
    next
      case False
      have "bit (ht_hiptr p) (n - 15) = bit (ht_hiptr q) (n - 15)" by (simp only: hi)
      with False P show ?thesis by (auto simp: bit_hiptr bit_key_of)
    qed
  qed
next
  assume a: "key_of p = key_of q"
  then show "ht_slot p = ht_slot q \<and> ht_hiptr p = ht_hiptr q"
    by (metis slot_key_of hiptr_key_of)
qed

lemma key_of_nz: "gc_ptr p \<Longrightarrow> key_of p \<noteq> NIL \<and> key_of p \<noteq> ATOM_T"
proof -
  assume p: "gc_ptr p"
  have "ht_hiptr NIL = 0" by (simp add: ht_hiptr_def NIL_def)
  moreover have "ht_hiptr ATOM_T = 0" by (simp add: ht_hiptr_def ATOM_T_def)
  moreover have "ht_hiptr (key_of p) \<noteq> 0" using p by (simp add: gc_ptr_def)
  ultimately show ?thesis by metis
qed

section \<open>The overflow table as a map\<close>

definition big_ok :: "gctab \<Rightarrow> nat \<Rightarrow> bool" where
  "big_ok g n \<longleftrightarrow> n < BIGLIMIT \<and> (\<forall>i < n. ovfl_ptr g i \<noteq> NIL) \<and>
     (\<forall>i. n \<le> i \<and> i < BIGLIMIT \<longrightarrow> ovfl_ptr g i = NIL) \<and>
     (\<forall>i < n. \<forall>j < n. ovfl_ptr g i = ovfl_ptr g j \<and> ovfl_ptr g i \<noteq> ATOM_T \<longrightarrow> i = j)"

definition is_key :: "LispPTR \<Rightarrow> bool" where
  "is_key k \<longleftrightarrow> k \<noteq> NIL \<and> k \<noteq> ATOM_T"

definition bigmap :: "gctab \<Rightarrow> LispPTR \<rightharpoonup> 32 word" where
  "bigmap g k =
     (if is_key k then
        (case big_find BIGLIMIT 0 g k of Some (Inr i) \<Rightarrow> Some (ovfl_cnt g i) | _ \<Rightarrow> None)
      else None)"

lemma big_find_hit:
  "ovfl_ptr g (i + m) = k \<Longrightarrow> \<forall>j < m. ovfl_ptr g (i + j) \<noteq> k \<and> ovfl_ptr g (i + j) \<noteq> NIL \<Longrightarrow> m < f \<Longrightarrow>
   big_find f i g k = Some (Inr (i + m))"
proof (induction f arbitrary: i m)
  case (Suc f)
  show ?case
  proof (cases m)
    case 0
    with Suc.prems show ?thesis by simp
  next
    case (Suc m')
    have "big_find f (Suc i) g k = Some (Inr (Suc i + m'))"
      by (rule Suc.IH) (use Suc.prems Suc in auto)
    moreover have "ovfl_ptr g i \<noteq> k" "ovfl_ptr g i \<noteq> NIL" using Suc.prems(2) Suc by (auto dest: spec [of _ 0])
    ultimately show ?thesis using Suc by simp
  qed
qed simp

lemma big_find_miss:
  "ovfl_ptr g (i + m) = NIL \<Longrightarrow> k \<noteq> NIL \<Longrightarrow>
   \<forall>j < m. ovfl_ptr g (i + j) \<noteq> k \<and> ovfl_ptr g (i + j) \<noteq> NIL \<Longrightarrow> m < f \<Longrightarrow>
   big_find f i g k = Some (Inl (i + m))"
proof (induction f arbitrary: i m)
  case (Suc f)
  show ?case
  proof (cases m)
    case 0
    with Suc.prems show ?thesis by simp
  next
    case (Suc m')
    have "big_find f (Suc i) g k = Some (Inl (Suc i + m'))"
      by (rule Suc.IH) (use Suc.prems Suc in auto)
    moreover have "ovfl_ptr g i \<noteq> k" "ovfl_ptr g i \<noteq> NIL" using Suc.prems(3) Suc by (auto dest: spec [of _ 0])
    ultimately show ?thesis using Suc by simp
  qed
qed simp

lemma big_free_here:
  "ovfl_ptr g (i + m) = NIL \<or> ovfl_ptr g (i + m) = ATOM_T \<Longrightarrow>
   \<forall>j < m. ovfl_ptr g (i + j) \<notin> {k, NIL, ATOM_T} \<Longrightarrow> m < f \<Longrightarrow>
   big_free f i g k = Some (Inr (i + m))"
proof (induction f arbitrary: i m)
  case (Suc f)
  show ?case
  proof (cases m)
    case 0
    with Suc.prems show ?thesis by auto
  next
    case (Suc m')
    have "big_free f (Suc i) g k = Some (Inr (Suc i + m'))"
      by (rule Suc.IH) (use Suc.prems Suc in auto)
    moreover have "ovfl_ptr g i \<notin> {k, NIL, ATOM_T}" using Suc.prems(2) Suc by (auto dest: spec [of _ 0])
    ultimately show ?thesis using Suc by simp
  qed
qed simp

lemma big_find_in:
  assumes ok: "big_ok g n" and i: "i < n" "ovfl_ptr g i = k" "is_key k"
  shows "big_find BIGLIMIT 0 g k = Some (Inr i)"
proof -
  have "\<forall>j < i. ovfl_ptr g (0 + j) \<noteq> k \<and> ovfl_ptr g (0 + j) \<noteq> NIL"
    using ok i unfolding big_ok_def is_key_def by (metis add_0 nless_le order.strict_trans2 less_imp_le)
  moreover have "i < BIGLIMIT" using ok i by (simp add: big_ok_def)
  ultimately show ?thesis using big_find_hit [of g 0 i k BIGLIMIT] i(2) by simp
qed

lemma big_find_out:
  assumes ok: "big_ok g n" and no: "\<forall>i < n. ovfl_ptr g i \<noteq> k" "is_key k"
  shows "big_find BIGLIMIT 0 g k = Some (Inl n)"
  using big_find_miss [of g 0 n k BIGLIMIT] ok no by (auto simp: big_ok_def is_key_def)

lemma bigmap_in: "big_ok g n \<Longrightarrow> i < n \<Longrightarrow> ovfl_ptr g i = k \<Longrightarrow> is_key k \<Longrightarrow> bigmap g k = Some (ovfl_cnt g i)"
  by (simp add: bigmap_def big_find_in)

lemma bigmap_out: "big_ok g n \<Longrightarrow> \<forall>i < n. ovfl_ptr g i \<noteq> k \<Longrightarrow> bigmap g k = None"
  by (cases "is_key k") (simp_all add: bigmap_def big_find_out)

lemma bigmap_Some:
  assumes "big_ok g n" "bigmap g k = Some c"
  obtains i where "i < n" "ovfl_ptr g i = k" "is_key k" "ovfl_cnt g i = c"
    "big_find BIGLIMIT 0 g k = Some (Inr i)"
proof -
  have k: "is_key k" using assms(2) by (auto simp: bigmap_def split: if_splits)
  obtain i where i: "i < n" "ovfl_ptr g i = k" using bigmap_out [OF assms(1)] assms(2) by fastforce
  show thesis
    using that [OF i k _ big_find_in [OF assms(1) i k]] bigmap_in [OF assms(1) i k] assms(2) by simp
qed

lemma bigmap_None: "big_ok g n \<Longrightarrow> bigmap g k = None \<Longrightarrow> is_key k \<Longrightarrow> i < n \<Longrightarrow> ovfl_ptr g i \<noteq> k"
  using bigmap_in by fastforce

text \<open>Two tables with the same set of (pointer, count) rows for a key have the same map there.\<close>

lemma bigmap_same_row:
  assumes ok: "big_ok g n" and ok': "big_ok g' n'"
    and row: "\<And>i. i < n \<Longrightarrow> ovfl_ptr g i = k \<Longrightarrow> i < n' \<and> ovfl_ptr g' i = k \<and> ovfl_cnt g' i = ovfl_cnt g i"
    and inv: "\<And>i. i < n' \<Longrightarrow> ovfl_ptr g' i = k \<Longrightarrow> i < n \<and> ovfl_ptr g i = k"
  shows "bigmap g' k = bigmap g k"
proof (cases "is_key k \<and> (\<exists>i < n. ovfl_ptr g i = k)")
  case True
  then obtain i where i: "is_key k" "i < n" "ovfl_ptr g i = k" by blast
  with row [OF i(2,3)] show ?thesis
    using bigmap_in [OF ok i(2,3,1)] bigmap_in [OF ok' _ _ i(1), of i] by simp
next
  case False
  show ?thesis
  proof (cases "is_key k")
    case True
    with False have "\<forall>i < n. ovfl_ptr g i \<noteq> k" by blast
    moreover from this have "\<forall>i < n'. ovfl_ptr g' i \<noteq> k" using inv by blast
    ultimately show ?thesis by (simp add: bigmap_out [OF ok] bigmap_out [OF ok'])
  qed (simp add: bigmap_def)
qed

section \<open>The three changes of the overflow table\<close>

definition big_room :: "gctab \<Rightarrow> bool" where
  "big_room g \<longleftrightarrow> (\<exists>i < BIGLIMIT - 1. ovfl_ptr g i = NIL \<or> ovfl_ptr g i = ATOM_T)"

lemma big_set_count:
  assumes ok: "big_ok g n" and i: "i < n" "ovfl_ptr g i = k" "is_key k"
    and g': "g' = g\<lparr>ovfl_cnt := (ovfl_cnt g)(i := c)\<rparr>"
  shows "big_ok g' n \<and> bigmap g' = (bigmap g)(k \<mapsto> c)"
proof -
  have p: "ovfl_ptr g' = ovfl_ptr g" by (simp add: g')
  have ok': "big_ok g' n" using ok unfolding big_ok_def p .
  have "bigmap g' x = ((bigmap g)(k \<mapsto> c)) x" for x
  proof (cases "x = k")
    case True
    then show ?thesis using bigmap_in [OF ok' i(1) _ i(3)] i by (simp add: g')
  next
    case False
    have "bigmap g' x = bigmap g x"
      by (rule bigmap_same_row [OF ok ok']) (use i False in \<open>auto simp: g'\<close>)
    with False show ?thesis by simp
  qed
  with ok' show ?thesis by blast
qed

lemma big_remove:
  assumes ok: "big_ok g n" and i: "i < n" "ovfl_ptr g i = k" "is_key k"
    and g': "ovfl_ptr g' = (ovfl_ptr g)(i := ATOM_T)" "ovfl_cnt g' = (ovfl_cnt g)(i := c)"
  shows "big_ok g' n \<and> bigmap g' = (bigmap g)(k := None)"
proof -
  have ok': "big_ok g' n" using ok i by (auto simp: big_ok_def g' NIL_def ATOM_T_def)
  have "bigmap g' x = ((bigmap g)(k := None)) x" for x
  proof (cases "x = k")
    case True
    have "\<forall>j < n. ovfl_ptr g' j \<noteq> k"
      using ok i by (auto simp: big_ok_def g' is_key_def)
    then show ?thesis using True bigmap_out [OF ok'] by simp
  next
    case False
    show ?thesis
    proof (cases "is_key x")
      case True
      have "bigmap g' x = bigmap g x"
        by (rule bigmap_same_row [OF ok ok']) (use i False True in \<open>auto simp: g' is_key_def split: if_splits\<close>)
      with False show ?thesis by simp
    qed (use False in \<open>simp add: bigmap_def\<close>)
  qed
  with ok' show ?thesis by blast
qed

lemma big_enter_at:
  assumes ok: "big_ok g n" and i: "i \<le> n" "Suc i < BIGLIMIT" "ovfl_ptr g i = NIL \<or> ovfl_ptr g i = ATOM_T"
    and k: "is_key k" "bigmap g k = None"
    and g': "ovfl_ptr g' = (ovfl_ptr g)(i := k)" "ovfl_cnt g' = (ovfl_cnt g)(i := c)"
  shows "\<exists>n'. big_ok g' n' \<and> bigmap g' = (bigmap g)(k \<mapsto> c)"
proof -
  let ?n = "if i = n then Suc n else n"
  have no: "\<And>j. j < n \<Longrightarrow> ovfl_ptr g j \<noteq> k" using bigmap_None [OF ok k(2,1)] by blast
  have ok': "big_ok g' ?n"
    using ok i no k unfolding big_ok_def is_key_def g' by (auto simp: less_Suc_eq)
  have "bigmap g' x = ((bigmap g)(k \<mapsto> c)) x" for x
  proof (cases "x = k")
    case True
    then show ?thesis using bigmap_in [OF ok', of i k] k i by (auto simp: g')
  next
    case False
    show ?thesis
    proof (cases "is_key x")
      case True
      have "bigmap g' x = bigmap g x"
        by (rule bigmap_same_row [OF ok ok'])
           (use i False True in \<open>auto simp: g' is_key_def less_Suc_eq split: if_splits\<close>)
      with False show ?thesis by simp
    qed (use False in \<open>simp add: bigmap_def\<close>)
  qed
  with ok' show ?thesis by blast
qed

end
