(* ===== verification/GC_Refcount.thy ===== *)
theory GC_Refcount
  imports GC_Overflow
begin

text \<open>
  The contract of the reference-count table: what \<open>htfind\<close> and \<open>rec_htfind\<close>
  (\<open>src/gchtfind.c\<close>) do to the reference count and the stack bit of a pointer. A pointer that is
  not in the table counts once and is not on the stack. The two functions share their body; the
  macros they differ in are the interface \<open>entry_macros\<close>.
\<close>

section \<open>The abstract view\<close>

definition entry_of :: "gctab \<Rightarrow> LispPTR \<Rightarrow> 32 word option" where
  "entry_of g p = htlookup (htmain g) (htcoll g) (ht_slot p) (ht_hiptr p)"

definition bigcount :: "gctab \<Rightarrow> LispPTR \<Rightarrow> 32 word option" where
  "bigcount g p = bigmap g (key_of p)"

text \<open>Count and stack bit of an entry whose overflow count, if any, is \<open>b\<close>.\<close>

fun view_of :: "32 word option \<Rightarrow> 32 word option \<Rightarrow> nat \<times> bool" where
  "view_of None b = (1, False)"
| "view_of (Some e) None = (hcount e, hstk e)"
| "view_of (Some e) (Some c) = (unat c, hstk e)"

definition rcview :: "gctab \<Rightarrow> LispPTR \<Rightarrow> nat \<times> bool" where
  "rcview g p = view_of (entry_of g p) (bigcount g p)"

definition refcount :: "gctab \<Rightarrow> LispPTR \<Rightarrow> nat" where "refcount g p = fst (rcview g p)"
definition stackref :: "gctab \<Rightarrow> LispPTR \<Rightarrow> bool" where "stackref g p = snd (rcview g p)"

fun entry_ok :: "32 word option \<Rightarrow> 32 word option \<Rightarrow> bool" where
  "entry_ok None b \<longleftrightarrow> b = None"
| "entry_ok (Some e) None \<longleftrightarrow> hcount e \<noteq> 0x7FFF \<and> (hcount e, hstk e) \<noteq> (1, False)"
| "entry_ok (Some e) (Some c) \<longleftrightarrow> hcount e = 0x7FFF \<and> 0x7FFF \<le> unat c"

text \<open>
  The invariant: the shape of the two tables, the overflow table, and for every counted pointer:
  it has an overflow count exactly when its entry is saturated, and an entry that says what no
  entry says does not stay.
\<close>

definition gc_inv :: "gctab \<Rightarrow> bool" where
  "gc_inv g \<longleftrightarrow> ht_ok (htmain g) (htcoll g) \<and> (\<exists>n. big_ok g n) \<and>
     (\<forall>p. gc_ptr p \<longrightarrow> entry_ok (entry_of g p) (bigcount g p))"

fun rc_step :: "refcase \<Rightarrow> nat \<times> bool \<Rightarrow> nat \<times> bool" where
  "rc_step ADDREF (n, s) = (n + 1, s)"
| "rc_step DELREF (n, s) = (n - 1, s)"
| "rc_step STKREF (n, s) = (n, True)"
| "rc_step UNSTKREF (n, s) = (n, False)"

text \<open>
  When the operation is defined: counts do not wrap, an overflowing count finds room, a zero count
  is not decremented, and on a byte-swapped machine the stack bit of a saturated entry is not set.
\<close>

fun rc_pre :: "bool \<Rightarrow> refcase \<Rightarrow> bool \<Rightarrow> nat \<times> bool \<Rightarrow> bool" where
  "rc_pre swapped ADDREF room (n, s) \<longleftrightarrow> n < 2 ^ 32 - 1 \<and> (n = 0x7FFE \<longrightarrow> room)"
| "rc_pre swapped DELREF room (n, s) \<longleftrightarrow> n \<noteq> 0"
| "rc_pre swapped STKREF room (n, s) \<longleftrightarrow> (swapped \<longrightarrow> n < 0x7FFF)"
| "rc_pre swapped UNSTKREF room (n, s) \<longleftrightarrow> False"

section \<open>The interface of the entry macros\<close>

definition same_tabs :: "gctab \<Rightarrow> gctab \<Rightarrow> bool" where
  "same_tabs g g' \<longleftrightarrow> htmain g' = htmain g \<and> htcoll g' = htcoll g \<and>
     ovfl_ptr g' = ovfl_ptr g \<and> ovfl_cnt g' = ovfl_cnt g"

text \<open>
  \<open>entry_put\<close>: the entry at a place is \<open>e\<close> now, and \<open>b\<close> the overflow count of the
  key; nothing else changed.
\<close>

definition entry_put ::
  "gctab \<Rightarrow> gctab \<Rightarrow> gcentry \<Rightarrow> 32 word \<Rightarrow> LispPTR \<Rightarrow> 32 word option \<Rightarrow> bool" where
  "entry_put g g' ent e k b \<longleftrightarrow>
     htmain g' = htmain (putgc ent e g) \<and> htcoll g' = htcoll (putgc ent e g) \<and>
     (\<exists>n. big_ok g' n) \<and> bigmap g' = (bigmap g)(k := b)"

locale entry_macros =
  fixes newe :: "gcentry \<Rightarrow> 32 word \<Rightarrow> refcase \<Rightarrow> LispPTR \<Rightarrow> gctab \<Rightarrow> (LispPTR \<times> gctab) res"
    and mode :: "gcentry \<Rightarrow> 32 word \<Rightarrow> LispPTR \<Rightarrow> refcase \<Rightarrow> gctab \<Rightarrow> (LispPTR option \<times> gctab) res"
    and cases_ok :: "refcase \<Rightarrow> bool"
    and swapped :: bool
  assumes new_law: "cases_ok c \<Longrightarrow> is_hi h \<Longrightarrow>
      \<exists>e g'. newe ent h c p g = Inr (if c = DELREF then p else NIL, g') \<and>
        same_tabs (putgc ent e g) g' \<and> wf_entry e \<and> hhi e = h \<and>
        entry_ok (Some e) None \<and> view_of (Some e) None = rc_step c (1, False)"
    and mod_law: "cases_ok c \<Longrightarrow> wf_entry e \<Longrightarrow> e = getgc g ent \<Longrightarrow> is_key (key_of p) \<Longrightarrow>
      big_ok g n \<Longrightarrow> entry_ok (Some e) (bigmap g (key_of p)) \<Longrightarrow>
      rc_pre swapped c (big_room g) (view_of (Some e) (bigmap g (key_of p))) \<Longrightarrow>
      (\<exists>g'. mode ent e p c g = Inr (None, g') \<and> same_tabs g g' \<and> bigmap g (key_of p) = None \<and>
         rc_step c (view_of (Some e) None) = (1, False)) \<or>
      (\<exists>e' b g'. mode ent e p c g = Inr (Some NIL, g') \<and> entry_put g g' ent e' (key_of p) b \<and>
         wf_entry e' \<and> hhi e' = hhi e \<and> entry_ok (Some e') b \<and>
         view_of (Some e') b = rc_step c (view_of (Some e) (bigmap g (key_of p))))"

text \<open>Both sets of macros satisfy it.\<close>

lemma big_ok_cong: "ovfl_ptr g' = ovfl_ptr g \<Longrightarrow> big_ok g' n = big_ok g n"
  by (simp add: big_ok_def)

lemma big_find_cong: "ovfl_ptr g' = ovfl_ptr g \<Longrightarrow> big_find f i g' k = big_find f i g k"
  by (induction f arbitrary: i) auto

lemma big_free_cong: "ovfl_ptr g' = ovfl_ptr g \<Longrightarrow> big_free f i g' k = big_free f i g k"
  by (induction f arbitrary: i) auto

lemma bigmap_cong:
  assumes "ovfl_ptr g' = ovfl_ptr g" "ovfl_cnt g' = ovfl_cnt g"
  shows "bigmap g' = bigmap g"
  by (rule ext) (simp only: bigmap_def big_find_cong [OF assms(1)] assms(2))

lemma putgc_ovfl [simp]:
  "ovfl_ptr (putgc ent e g) = ovfl_ptr g" "ovfl_cnt (putgc ent e g) = ovfl_cnt g"
  by (cases ent; simp)+

lemma putgc_more [simp]:
  "htmain (putgc ent e (g\<lparr>ovfl_cnt := x\<rparr>)) = htmain (putgc ent e g)"
  "htcoll (putgc ent e (g\<lparr>ovfl_cnt := x\<rparr>)) = htcoll (putgc ent e g)"
  "htmain (putgc ent (getgc g ent) g) = htmain g"
  "htcoll (putgc ent (getgc g ent) g) = htcoll g"
  "getgc (g\<lparr>ovfl_cnt := x\<rparr>) ent = getgc g ent"
  by (cases ent; simp)+

lemma big_room_put [simp]: "big_room (putgc ent e g) = big_room g"
  by (simp add: big_room_def)

lemma entry_putI:
  "same_tabs (putgc ent e g) g' \<Longrightarrow> big_ok g n \<Longrightarrow> bigmap g k = b \<Longrightarrow> entry_put g g' ent e k b"
  using big_ok_cong [of g' g n] bigmap_cong [of g' g]
  by (auto simp: same_tabs_def entry_put_def)

lemma IncAllocCnt_tabs [simp]: "same_tabs g (IncAllocCnt n g')  = same_tabs g g'"
  by (simp add: same_tabs_def IncAllocCnt_def Let_def)

lemma DecAllocCnt_tabs [simp]: "same_tabs g (DecAllocCnt n g') = same_tabs g g'"
  by (simp add: same_tabs_def DecAllocCnt_def)

lemma same_tabs_refl [simp]: "same_tabs g g"
  by (simp add: same_tabs_def)

lemma mask_odd_key: "(if bit p 0 then p AND 0xFFFFFFFE else p) = key_of p"
  by (rule bit_word_eqI) (auto simp: bit_key_of key_of_def [symmetric] Suc_le_eq intro: gr0I)

text \<open>The saturated entries.\<close>

lemma modify_big_law:
  assumes w: "wf_entry e" "e = getgc g ent" and k: "is_key (key_of p)" and ok: "big_ok g n"
    and b: "bigmap g (key_of p) = Some c0" "entry_ok (Some e) (Some c0)"
    and pre: "rc_pre swapped c (big_room g) (view_of (Some e) (Some c0))"
  shows "\<exists>e' b g'. modify_big_reference_count swapped ent c p g = Inr g' \<and>
      entry_put g g' ent e' (key_of p) b \<and> wf_entry e' \<and> hhi e' = hhi e \<and> entry_ok (Some e') b \<and>
      view_of (Some e') b = rc_step c (view_of (Some e) (Some c0))"
proof -
  from bigmap_Some [OF ok b(1)] obtain i where i: "i < n" "ovfl_ptr g i = key_of p" "ovfl_cnt g i = c0"
      "big_find BIGLIMIT 0 g (key_of p) = Some (Inr i)" by metis
  have pt: "(if bit p 0 then p AND 0xFFFFFFFE else p) = key_of p" by (rule mask_odd_key)
  note D = modify_big_reference_count_def [of swapped ent c p g, unfolded Let_def pt i(4), simplified]
  from b(2) have sat: "hcount e = 0x7FFF" "0x7FFF \<le> unat c0" by auto
  show ?thesis
  proof (cases c)
    case ADDREF
    let ?g = "g\<lparr>ovfl_cnt := (ovfl_cnt g)(i := c0 + 1)\<rparr>"
    from big_set_count [OF ok i(1,2) k refl]
    have s: "big_ok ?g n" "bigmap ?g = (bigmap g)(key_of p \<mapsto> c0 + 1)" by auto
    have u: "unat (c0 + 1) = unat c0 + 1"
      using pre ADDREF by (simp add: unat_word_ariths)
    have "entry_put g ?g ent e (key_of p) (Some (c0 + 1))"
      using s w by (auto simp: entry_put_def)
    then show ?thesis using D ADDREF w sat u i
      by (intro exI [of _ e] exI [of _ "Some (c0 + 1)"] exI [of _ ?g]) simp
  next
    case DELREF
    have u: "unat (c0 - 1) = unat c0 - 1"
      using sat by (subst unat_sub) (simp_all add: word_le_nat_alt)
    show ?thesis
    proof (cases "c0 - 1 < MAX_GCCOUNT")
      case True
      then have c0: "unat c0 = 0x7FFF" using u sat by (simp add: word_less_nat_alt MAX_GCCOUNT_def)
      let ?e = "set_hcount (MAX_GCCOUNT - 1) e"
      let ?g = "(putgc ent ?e (g\<lparr>ovfl_cnt := (ovfl_cnt g)(i := c0 - 1)\<rparr>))\<lparr>ovfl_ptr := (ovfl_ptr g)(i := ATOM_T)\<rparr>"
      have "big_ok ?g n \<and> bigmap ?g = (bigmap g)(key_of p := None)"
        by (rule big_remove [OF ok i(1,2) k]) simp_all
      then have "entry_put g ?g ent ?e (key_of p) None"
        by (auto simp: entry_put_def)
      moreover have "modify_big_reference_count swapped ent c p g = Inr ?g"
        using D DELREF True i w by simp
      ultimately show ?thesis using DELREF w c0 set_hcount_fields [of e] set_hcount_fields(2-4) [of _ e]
        by (intro exI [of _ ?e] exI [of _ None] exI [of _ ?g]) simp
    next
      case False
      then have c0: "0x7FFF < unat c0" using u sat by (simp add: word_less_nat_alt MAX_GCCOUNT_def)
      let ?g = "g\<lparr>ovfl_cnt := (ovfl_cnt g)(i := c0 - 1)\<rparr>"
      from big_set_count [OF ok i(1,2) k refl]
      have s: "big_ok ?g n" "bigmap ?g = (bigmap g)(key_of p \<mapsto> c0 - 1)" by auto
      have "entry_put g ?g ent e (key_of p) (Some (c0 - 1))"
        using s w by (auto simp: entry_put_def)
      then show ?thesis using D DELREF w sat u c0 i False
        by (intro exI [of _ e] exI [of _ "Some (c0 - 1)"] exI [of _ ?g]) simp
    qed
  next
    case STKREF
    let ?g = "putgc ent (e OR HTSTKMASK) g"
    have "\<not> swapped" using pre STKREF sat by auto
    then have "modify_big_reference_count swapped ent c p g = Inr ?g" using D STKREF w by simp
    moreover have "entry_put g ?g ent (e OR HTSTKMASK) (key_of p) (Some c0)"
      by (rule entry_putI [OF same_tabs_refl ok b(1)])
    ultimately show ?thesis using STKREF w sat or_stk_fields [of e]
      by (intro exI [of _ "e OR HTSTKMASK"] exI [of _ "Some c0"] exI [of _ ?g]) simp
  qed (use pre in simp)
qed

text \<open>A count that becomes saturated goes to the overflow table.\<close>

lemma enter_big_law:
  assumes ok: "big_ok g n" and k: "is_key (key_of p)" "bigmap g (key_of p) = None" and room: "big_room g"
  shows "\<exists>g' n'. enter_big_reference_count p g = Inr g' \<and> htmain g' = htmain g \<and> htcoll g' = htcoll g \<and>
    big_ok g' n' \<and> bigmap g' = (bigmap g)(key_of p \<mapsto> MAX_GCCOUNT)"
proof -
  let ?P = "\<lambda>i. ovfl_ptr g i = NIL \<or> ovfl_ptr g i = ATOM_T"
  from room obtain i0 where "i0 < BIGLIMIT - 1" "?P i0" by (auto simp: big_room_def)
  then obtain i where i: "i < BIGLIMIT - 1" "?P i" "\<forall>j < i. \<not> ?P j"
    using ex_least_nat_le [of ?P i0] by (metis le_less_trans)
  have n: "n < BIGLIMIT" "ovfl_ptr g n = NIL" using ok by (auto simp: big_ok_def)
  then have "i \<le> n" using i(3) not_le by blast
  have no: "\<And>j. j < n \<Longrightarrow> ovfl_ptr g j \<noteq> key_of p" using bigmap_None [OF ok k(2,1)] by blast
  have f: "big_free BIGLIMIT 0 g (p AND 0xFFFFFFFE) = Some (Inr i)"
    using big_free_here [of g 0 i "key_of p" BIGLIMIT] i no \<open>i \<le> n\<close> by (simp add: key_of_def)
  have gd: "\<not> big_guard i"
    using i(1) by (simp add: big_guard_def BIGLIMIT_def HTBIG_OFFSET_def HTCOLL_OFFSET_def MDS_OFFSET_def)
  let ?g = "g\<lparr>ovfl_cnt := (ovfl_cnt g)(i := MAX_GCCOUNT), ovfl_ptr := (ovfl_ptr g)(i := key_of p)\<rparr>"
  have "enter_big_reference_count p g = Inr ?g"
    by (simp add: enter_big_reference_count_def Let_def f gd key_of_def)
  moreover have "\<exists>n'. big_ok ?g n' \<and> bigmap ?g = (bigmap g)(key_of p \<mapsto> MAX_GCCOUNT)"
    by (rule big_enter_at [OF ok \<open>i \<le> n\<close> _ i(2) k]) (use i(1) in simp_all)
  ultimately show ?thesis by (intro exI [of _ ?g]) auto
qed

lemma enter_put:
  assumes ok: "big_ok g n" and k: "is_key (key_of p)" "bigmap g (key_of p) = None" and room: "big_room g"
  shows "\<exists>g'. enter_big_reference_count p (putgc ent e g) = Inr g' \<and>
    entry_put g g' ent e (key_of p) (Some MAX_GCCOUNT)"
proof -
  have ok': "big_ok (putgc ent e g) n" using ok big_ok_cong [of "putgc ent e g" g] by simp
  have bm: "bigmap (putgc ent e g) = bigmap g" by (rule bigmap_cong) simp_all
  from enter_big_law [OF ok' k(1)] k(2) bm room show ?thesis
    by (simp add: entry_put_def)
qed

text \<open>The unsaturated entries: what both \<open>ModEntry\<close> macros compute.\<close>

lemma entry_ok_unsat: "entry_ok (Some e) b \<Longrightarrow> hcount e \<noteq> 0x7FFF \<Longrightarrow> b = None"
  by (cases b) auto

lemma entry_ok_sat: "entry_ok (Some e) b \<Longrightarrow> hcount e = 0x7FFF \<Longrightarrow> \<exists>c. b = Some c"
  by (cases b) auto

lemma unat_max_gccount: "unat MAX_GCCOUNT = 0x7FFF"
  by (simp add: MAX_GCCOUNT_def)

definition mod_spec ::
  "gctab \<Rightarrow> gcentry \<Rightarrow> 32 word \<Rightarrow> LispPTR \<Rightarrow> refcase \<Rightarrow> (LispPTR option \<times> gctab) res \<Rightarrow> bool" where
  "mod_spec g ent e p c r \<longleftrightarrow>
      (\<exists>g'. r = Inr (None, g') \<and> same_tabs g g' \<and> bigmap g (key_of p) = None \<and>
         rc_step c (view_of (Some e) None) = (1, False)) \<or>
      (\<exists>e' b g'. r = Inr (Some NIL, g') \<and> entry_put g g' ent e' (key_of p) b \<and>
         wf_entry e' \<and> hhi e' = hhi e \<and> entry_ok (Some e') b \<and>
         view_of (Some e') b = rc_step c (view_of (Some e) (bigmap g (key_of p))))"

lemma mod_spec_sat:
  assumes w: "wf_entry e" "e = getgc g ent" and k: "is_key (key_of p)" and ok: "big_ok g n"
    and b: "entry_ok (Some e) (bigmap g (key_of p))" "hcount e = 0x7FFF"
    and pre: "rc_pre swapped c (big_room g) (view_of (Some e) (bigmap g (key_of p)))"
  shows "mod_spec g ent e p c (rbind (modify_big_reference_count swapped ent c p g) (\<lambda>g. Inr (Some NIL, g)))"
proof -
  obtain c0 where c0: "bigmap g (key_of p) = Some c0" using entry_ok_sat [OF b] by blast
  from modify_big_law [OF w k ok c0 b(1) [unfolded c0] pre [unfolded c0]] obtain e' b' g' where
    "modify_big_reference_count swapped ent c p g = Inr g'" "entry_put g g' ent e' (key_of p) b'"
    "wf_entry e'" "hhi e' = hhi e" "entry_ok (Some e') b'"
    "view_of (Some e') b' = rc_step c (view_of (Some e) (Some c0))" by blast
  then show ?thesis unfolding mod_spec_def c0 by auto
qed

lemma mod_spec_put:
  assumes "big_ok g n" "bigmap g (key_of p) = None" "wf_entry e'" "hhi e' = hhi e"
    "hcount e' \<noteq> 0x7FFF" "(hcount e', hstk e') \<noteq> (1, False)"
    "(hcount e', hstk e') = rc_step c (hcount e, hstk e)"
  shows "mod_spec g ent e p c (Inr (Some NIL, putgc ent e' g))"
  unfolding mod_spec_def
  using assms entry_putI [OF same_tabs_refl assms(1,2), of ent e']
  by (intro disjI2 exI [of _ e'] exI [of _ None] exI [of _ "putgc ent e' g"]) simp

lemma mod_spec_remove:
  assumes "bigmap g (key_of p) = None" "same_tabs g g'" "rc_step c (hcount e, hstk e) = (1, False)"
  shows "mod_spec g ent e p c (Inr (None, g'))"
  unfolding mod_spec_def using assms by (intro disjI1 exI [of _ g']) simp

lemma mod_spec_enter:
  assumes ok: "big_ok g n" and k: "is_key (key_of p)" "bigmap g (key_of p) = None"
    and w: "wf_entry e" and c: "hcount e = 0x7FFE" and room: "big_room g"
  shows "mod_spec g ent e p ADDREF
    (rbind (enter_big_reference_count p (putgc ent (e + push_bit 17 1) g)) (\<lambda>g. Inr (Some NIL, g)))"
proof -
  let ?e = "e + push_bit 17 1 :: 32 word"
  from enter_put [OF ok k room, of ent ?e] obtain g' where
    g': "enter_big_reference_count p (putgc ent ?e g) = Inr g'"
      "entry_put g g' ent ?e (key_of p) (Some MAX_GCCOUNT)" by blast
  then show ?thesis
    unfolding mod_spec_def
    using c hcount_incr [of e] entry_incr [of e] w
    by (intro disjI2 exI [of _ ?e] exI [of _ "Some MAX_GCCOUNT"] exI [of _ g'])
       (simp add: k unat_max_gccount)
qed

lemma ModEntry_law:
  assumes c: "c = ADDREF \<or> c = DELREF"
    and w: "wf_entry e" "e = getgc g ent" and k: "is_key (key_of p)" and ok: "big_ok g n"
    and b: "entry_ok (Some e) (bigmap g (key_of p))"
    and pre: "rc_pre swapped c (big_room g) (view_of (Some e) (bigmap g (key_of p)))"
  shows "mod_spec g ent e p c (ModEntry swapped ent e p c g)"
proof (cases "hcount e = 0x7FFF")
  case True
  then show ?thesis using mod_spec_sat [OF w k ok b _ pre] by (simp add: ModEntry_def cntmask_iff)
next
  case False
  note un = entry_ok_unsat [OF b False]
  have lt: "hcount e < 0x7FFF" using False hcount_bound [of e] by simp
  show ?thesis
  proof (cases c)
    case ADDREF
    note inc = hcount_incr [OF lt] and fl = entry_incr [of e]
    show ?thesis
    proof (cases "hcount e = 0x7FFE")
      case True
      then have "big_room g" using pre ADDREF un by simp
      from mod_spec_enter [OF ok k un w(1) True this] show ?thesis
        using ADDREF False True inc by (simp add: ModEntry_def cntmask_iff Let_def)
    next
      case F: False
      then show ?thesis
        using ADDREF False inc fl un
        by (auto simp: ModEntry_def cntmask_iff cntstkmask_iff [simplified] Let_def w(1)
              intro!: mod_spec_put [OF ok] mod_spec_remove)
    qed
  next
    case DELREF
    then have nz: "hcount e \<noteq> 0" using pre un by simp
    note dec = hcount_decr [OF nz] and fl = entry_decr [of e]
    show ?thesis
      using DELREF False dec fl un lt nz
      by (auto simp: ModEntry_def cntmask_iff cntstkmask_iff [simplified] Let_def w(1) hcount_0_iff
            intro!: mod_spec_put [OF ok] mod_spec_remove)
  qed (use c in auto)
qed

lemma RecModEntry_law:
  assumes c: "c = ADDREF \<or> c = DELREF \<or> c = STKREF"
    and w: "wf_entry e" "e = getgc g ent" and k: "is_key (key_of p)" and ok: "big_ok g n"
    and b: "entry_ok (Some e) (bigmap g (key_of p))"
    and pre: "rc_pre swapped c (big_room g) (view_of (Some e) (bigmap g (key_of p)))"
  shows "mod_spec g ent e p c (RecModEntry swapped ent e p c g)"
proof (cases "hcount e = 0x7FFF")
  case True
  then show ?thesis using mod_spec_sat [OF w k ok b _ pre] by (simp add: RecModEntry_def cntmask_iff)
next
  case False
  note un = entry_ok_unsat [OF b False]
  have lt: "hcount e < 0x7FFF" using False hcount_bound [of e] by simp
  show ?thesis
  proof (cases c)
    case ADDREF
    note inc = hcount_incr [OF lt] and fl = entry_incr [of e]
    show ?thesis
    proof (cases "hcount e = 0x7FFE")
      case True
      then have "big_room g" using pre ADDREF un by simp
      from mod_spec_enter [OF ok k un w(1) True this] show ?thesis
        using ADDREF False True inc by (simp add: RecModEntry_def cntmask_iff Let_def)
    next
      case F: False
      then show ?thesis
        using ADDREF False inc fl un
        by (auto simp: RecModEntry_def cntmask_iff cntstkmask_iff [simplified] Let_def w(1)
              intro!: mod_spec_put [OF ok] mod_spec_remove)
    qed
  next
    case DELREF
    then have nz: "hcount e \<noteq> 0" using pre un by simp
    note dec = hcount_decr [OF nz] and fl = entry_decr [of e]
    show ?thesis
      using DELREF False dec fl un lt nz
      by (auto simp: RecModEntry_def cntmask_iff cntstkmask_iff [simplified] Let_def w(1) hcount_0_iff
            intro!: mod_spec_put [OF ok] mod_spec_remove)
  next
    case STKREF
    then show ?thesis
      using False un or_stk_fields [of e]
      by (auto simp: RecModEntry_def cntmask_iff Let_def w(1) intro!: mod_spec_put [OF ok])
  qed (use c in auto)
qed

lemma NewEntry_law:
  assumes "c = ADDREF \<or> c = DELREF" "is_hi h"
  shows "\<exists>e g'. NewEntry ent h c p g = Inr (if c = DELREF then p else NIL, g') \<and>
        same_tabs (putgc ent e g) g' \<and> wf_entry e \<and> hhi e = h \<and>
        entry_ok (Some e) None \<and> view_of (Some e) None = rc_step c (1, False)"
proof (cases c)
  case ADDREF
  then show ?thesis using entry_fields [OF assms(2)]
    by (intro exI [of _ "h OR push_bit 17 2"]) (simp add: NewEntry_def)
next
  case DELREF
  then show ?thesis using entry_fields [OF assms(2)]
    by (intro exI [of _ h]) (simp add: NewEntry_def)
qed (use assms(1) in auto)

lemma RecNewEntry_law:
  assumes "c = ADDREF \<or> c = DELREF \<or> c = STKREF" "is_hi h"
  shows "\<exists>e g'. RecNewEntry ent h c p g = Inr (if c = DELREF then p else NIL, g') \<and>
        same_tabs (putgc ent e g) g' \<and> wf_entry e \<and> hhi e = h \<and>
        entry_ok (Some e) None \<and> view_of (Some e) None = rc_step c (1, False)"
proof (cases c)
  case ADDREF
  then show ?thesis using entry_fields [OF assms(2)]
    by (intro exI [of _ "h OR push_bit 17 2"]) (simp add: RecNewEntry_def)
next
  case DELREF
  then show ?thesis using entry_fields [OF assms(2)]
    by (intro exI [of _ h]) (simp add: RecNewEntry_def)
next
  case STKREF
  then show ?thesis using new_stk_fields [OF assms(2)]
    by (intro exI [of _ "h OR push_bit 17 1 OR HTSTKMASK"]) (simp add: RecNewEntry_def)
qed (use assms(1) in auto)

end
