(* ===== verification/GC_Htfind.thy ===== *)
theory GC_Htfind
  imports GC_Refcount
begin

text \<open>
  The body of \<open>htfind\<close> and \<open>rec_htfind\<close> refines \<open>rc_step\<close>: proved once over
  the interface \<open>entry_macros\<close>, then taken at both sets of macros.
\<close>

section \<open>One update of the table\<close>

lemma entry_ok_view: "entry_ok v b \<Longrightarrow> view_of v b = (1, False) \<longleftrightarrow> v = None"
  by (cases v; cases b) auto

lemma tab_update:
  assumes inv: "gc_inv g" and p: "gc_ptr p"
    and step: "ht_ok (htmain g') (htcoll g') \<and>
      ht_upd (htmain g) (htcoll g) (htmain g') (htcoll g') (ht_slot p) (ht_hiptr p) v"
    and big: "\<exists>n. big_ok g' n" and bm: "bigmap g' = (bigmap g)(key_of p := b)" and e: "entry_ok v b"
  shows "gc_inv g' \<and> rcview g' p = view_of v b \<and>
    (\<forall>q. gc_ptr q \<and> key_of q \<noteq> key_of p \<longrightarrow> rcview g' q = rcview g q)"
proof -
  have same: "entry_of g' q = v \<and> bigcount g' q = b" if "key_of q = key_of p" for q
  proof -
    have "ht_slot q = ht_slot p" "ht_hiptr q = ht_hiptr p"
      using that slot_key_of [of q] slot_key_of [of p] hiptr_key_of [of q] hiptr_key_of [of p] by simp_all
    with step bm that show ?thesis by (simp add: entry_of_def bigcount_def ht_upd_def slot_bound)
  qed
  have other: "entry_of g' q = entry_of g q \<and> bigcount g' q = bigcount g q"
    if "gc_ptr q" "key_of q \<noteq> key_of p" for q
    using step bm that key_inj [OF that(1) p] by (auto simp: entry_of_def bigcount_def ht_upd_def slot_bound)
  have "gc_inv g'"
    using inv step big e same other unfolding gc_inv_def by metis
  then show ?thesis using same [OF refl] other by (simp add: rcview_def)
qed

definition two_links :: "gctab \<Rightarrow> bool" where
  "two_links g \<longleftrightarrow>
     (case GetLink g of
        (Some l, g1) \<Rightarrow> (case GetLink g1 of (Some l', g2) \<Rightarrow> True | _ \<Rightarrow> False)
      | _ \<Rightarrow> False)"

lemma two_linksE:
  assumes "two_links g"
  obtains l g1 l' g2 where "GetLink g = (Some l, g1)" "GetLink g1 = (Some l', g2)"
  using assms by (auto simp: two_links_def split: prod.splits option.splits)

section \<open>The body\<close>

definition refines_rc_step :: "gctab \<Rightarrow> LispPTR \<Rightarrow> refcase \<Rightarrow> (LispPTR \<times> gctab) res \<Rightarrow> bool" where
  "refines_rc_step g p c res \<longleftrightarrow>
     (\<exists>g'. res = Inr (if c = DELREF \<and> rcview g p = (1, False) then p else NIL, g') \<and>
        gc_inv g' \<and> rcview g' p = rc_step c (rcview g p) \<and>
        (\<forall>q. gc_ptr q \<and> key_of q \<noteq> key_of p \<longrightarrow> rcview g' q = rcview g q))"

lemma refines_rc_stepI:
  assumes "gc_inv g" "gc_ptr p"
    and "ht_ok (htmain g') (htcoll g') \<and>
      ht_upd (htmain g) (htcoll g) (htmain g') (htcoll g') (ht_slot p) (ht_hiptr p) v"
    and "\<exists>n. big_ok g' n" "bigmap g' = (bigmap g)(key_of p := b)" "entry_ok v b"
    and "view_of v b = rc_step c (rcview g p)"
    and "r = (if c = DELREF \<and> entry_of g p = None then p else NIL)"
  shows "refines_rc_step g p c (Inr (r, g'))"
proof -
  have "rcview g p = (1, False) \<longleftrightarrow> entry_of g p = None"
    using assms(1,2) entry_ok_view by (simp add: gc_inv_def rcview_def)
  then show ?thesis
    using tab_update [OF assms(1-6)] assms(7,8) by (simp add: refines_rc_step_def)
qed

lemma gc_inv_entry: "gc_inv g \<Longrightarrow> gc_ptr p \<Longrightarrow> entry_ok (entry_of g p) (bigcount g p)"
  by (simp add: gc_inv_def)

lemma same_tabs_big:
  assumes "same_tabs g g'"
  shows "bigmap g' = bigmap g" "big_ok g' n = big_ok g n"
  using assms by (simp_all add: same_tabs_def bigmap_cong [of g' g] big_ok_cong [of g' g])

lemma putgc_link_tabs [simp]:
  "htmain (putgc (Coll l) v g) = htmain g" "htcoll (putgc (Main i) v g) = htcoll g"
  "htmain (putgc (Main i) v g) = (htmain g)(i := v)" "htcoll (putgc (Coll l) v g) = (htcoll g)(l := v)"
  by simp_all

lemma dellink_ovfl [simp]:
  "ovfl_ptr (dellink i l l' g) = ovfl_ptr g" "ovfl_cnt (dellink i l l' g) = ovfl_cnt g"
  by (simp_all add: dellink_def FreeLink_def Let_def)

context entry_macros
begin

text \<open>A new entry, at a place where the tables were prepared for it.\<close>

lemma new_step:
  assumes inv: "gc_inv g" and p: "gc_ptr p" and c: "cases_ok c" and none: "entry_of g p = None"
    and big: "ovfl_ptr G = ovfl_ptr g" "ovfl_cnt G = ovfl_cnt g"
    and step: "\<And>e. wf_entry e \<Longrightarrow> hhi e = ht_hiptr p \<Longrightarrow>
      ht_ok (htmain (putgc ent e G)) (htcoll (putgc ent e G)) \<and>
      ht_upd (htmain g) (htcoll g) (htmain (putgc ent e G)) (htcoll (putgc ent e G))
        (ht_slot p) (ht_hiptr p) (Some e)"
  shows "refines_rc_step g p c (newe ent (ht_hiptr p) c p G)"
proof -
  have b: "bigcount g p = None" using gc_inv_entry [OF inv p] none by simp
  have "is_hi (ht_hiptr p)" using p is_hi_hiptr by (simp add: gc_ptr_def)
  from new_law [OF c this] obtain e g' where
    n: "newe ent (ht_hiptr p) c p G = Inr (if c = DELREF then p else NIL, g')"
      "same_tabs (putgc ent e G) g'" "wf_entry e" "hhi e = ht_hiptr p"
      "entry_ok (Some e) None" "view_of (Some e) None = rc_step c (1, False)" by blast
  have st: "ht_ok (htmain g') (htcoll g') \<and>
      ht_upd (htmain g) (htcoll g) (htmain g') (htcoll g') (ht_slot p) (ht_hiptr p) (Some e)"
    using step [OF n(3,4)] n(2) by (simp add: same_tabs_def)
  have ov: "ovfl_ptr g' = ovfl_ptr g" "ovfl_cnt g' = ovfl_cnt g"
    using n(2) big by (simp_all add: same_tabs_def)
  have "rcview g p = (1, False)" using none by (simp add: rcview_def)
  then show ?thesis unfolding n(1)
    using inv n(5,6) none b bigmap_cong [OF ov] big_ok_cong [OF ov(1)]
    by (intro refines_rc_stepI [OF inv p st]) (auto simp: gc_inv_def bigcount_def)
qed

text \<open>A change of the entry that is there.\<close>

lemma mod_step:
  assumes inv: "gc_inv g" and p: "gc_ptr p" and c: "cases_ok c" and some: "entry_of g p = Some e"
    and e: "wf_entry e" "e = getgc g ent" "hhi e = ht_hiptr p"
    and pre: "rc_pre swapped c (big_room g) (rcview g p)"
    and putL: "\<And>e'. wf_entry e' \<Longrightarrow> hhi e' = ht_hiptr p \<Longrightarrow>
      ht_ok (htmain (putgc ent e' g)) (htcoll (putgc ent e' g)) \<and>
      ht_upd (htmain g) (htcoll g) (htmain (putgc ent e' g)) (htcoll (putgc ent e' g))
        (ht_slot p) (ht_hiptr p) (Some e')"
    and remL: "\<And>g1. same_tabs g g1 \<Longrightarrow>
      ht_ok (htmain (remove g1)) (htcoll (remove g1)) \<and>
      ht_upd (htmain g) (htcoll g) (htmain (remove g1)) (htcoll (remove g1)) (ht_slot p) (ht_hiptr p) None \<and>
      ovfl_ptr (remove g1) = ovfl_ptr g1 \<and> ovfl_cnt (remove g1) = ovfl_cnt g1"
  shows "refines_rc_step g p c
    (rbind (mode ent e p c g) (\<lambda>(r, g1). case r of Some v \<Rightarrow> Inr (v, g1) | None \<Rightarrow> Inr (NIL, remove g1)))"
proof -
  have k: "is_key (key_of p)" using key_of_nz [OF p] by (simp add: is_key_def)
  obtain n where n: "big_ok g n" using inv by (auto simp: gc_inv_def)
  have ok: "entry_ok (Some e) (bigmap g (key_of p))"
    using gc_inv_entry [OF inv p] some by (simp add: bigcount_def)
  have v: "rcview g p = view_of (Some e) (bigmap g (key_of p))"
    using some by (simp add: rcview_def bigcount_def)
  from mod_law [OF c e(1,2) k n ok pre [unfolded v]] consider
    (rem) g' where "mode ent e p c g = Inr (None, g')" "same_tabs g g'" "bigmap g (key_of p) = None"
      "rc_step c (view_of (Some e) None) = (1, False)"
  | (put) e' b g' where "mode ent e p c g = Inr (Some NIL, g')" "entry_put g g' ent e' (key_of p) b"
      "wf_entry e'" "hhi e' = hhi e" "entry_ok (Some e') b"
      "view_of (Some e') b = rc_step c (rcview g p)" unfolding v by metis
  then show ?thesis
  proof cases
    case rem
    note r = remL [OF rem(2)]
    have ov: "ovfl_ptr (remove g') = ovfl_ptr g" "ovfl_cnt (remove g') = ovfl_cnt g"
      using r rem(2) by (simp_all add: same_tabs_def)
    have bm: "bigmap (remove g') = (bigmap g)(key_of p := None)"
      unfolding bigmap_cong [OF ov] using rem(3) by (metis fun_upd_triv)
    have "refines_rc_step g p c (Inr (NIL, remove g'))"
      using r big_ok_cong [OF ov(1)] n rem(3,4) bm v some
      by (intro refines_rc_stepI [OF inv p, where v = None and b = None]) auto
    then show ?thesis by (simp add: rem(1))
  next
    case put
    note s = putL [OF put(3) put(4) [unfolded e(3)]]
    have "refines_rc_step g p c (Inr (NIL, g'))"
      using s put(2,4-6) e(3) some
      by (intro refines_rc_stepI [OF inv p, where v = "Some e'" and b = b]) (auto simp: entry_put_def)
    then show ?thesis by (simp add: put(1))
  qed
qed

lemma body_empty:
  assumes inv: "gc_inv g" and p: "gc_ptr p" and c: "cases_ok c" and m: "htmain g (ht_slot p) = 0"
  shows "refines_rc_step g p c (ht_body newe mode p c g)"
proof -
  have ok: "ht_ok (htmain g) (htcoll g)" using inv by (simp add: gc_inv_def)
  have none: "entry_of g p = None" using m by (simp add: entry_of_def htlookup_def)
  have "refines_rc_step g p c (newe (Main (ht_slot p)) (ht_hiptr p) c p g)"
    by (rule new_step [OF inv p c none refl refl])
       (use step_direct [OF ok slot_bound [of p]] m in force)
  then show ?thesis by (simp add: ht_body_def Let_def m)
qed

lemma body_direct:
  assumes inv: "gc_inv g" and p: "gc_ptr p" and c: "cases_ok c"
    and m: "htmain g (ht_slot p) \<noteq> 0" "\<not> bit (htmain g (ht_slot p)) 0"
      "ht_hiptr p = htmain g (ht_slot p) AND HTHIMASK"
    and pre: "rc_pre swapped c (big_room g) (rcview g p)"
  shows "refines_rc_step g p c (ht_body newe mode p c g)"
proof -
  let ?w = "htmain g (ht_slot p)"
  have ok: "ht_ok (htmain g) (htcoll g)" using inv by (simp add: gc_inv_def)
  then obtain S fs where sh: "ht_shape (htmain g) (htcoll g) S fs" by (auto simp: ht_ok_def)
  have w: "wf_entry ?w" using direct_slot [OF slot_ok_shape [OF sh slot_bound] m(2)] m(1) by simp
  have hi: "hhi ?w = ht_hiptr p" using m(3) by (simp add: hhi_def)
  have some: "entry_of g p = Some ?w" using m by (simp add: entry_of_def htlookup_def)
  note rm = step_direct_remove [OF ok slot_bound m(2,1), unfolded hi]
  have pt: "ht_ok ((htmain g)(ht_slot p := e)) (htcoll g) \<and>
      ht_upd (htmain g) (htcoll g) ((htmain g)(ht_slot p := e)) (htcoll g) (ht_slot p) (ht_hiptr p) (Some e)"
    if "wf_entry e" "hhi e = ht_hiptr p" for e
    using step_direct [OF ok slot_bound [of p] m(2), of e] that hi by simp
  have "refines_rc_step g p c (rbind (mode (Main (ht_slot p)) ?w p c g)
      (\<lambda>(r, g1). case r of Some v \<Rightarrow> Inr (v, g1) | None \<Rightarrow> Inr (NIL, putgc (Main (ht_slot p)) 0 g1)))"
    by (rule mod_step [OF inv p c some w _ hi pre])
       (use pt rm in \<open>auto simp: same_tabs_def\<close>)
  then show ?thesis using m by (simp add: ht_body_def Let_def)
qed

lemma body_new_collision:
  assumes inv: "gc_inv g" and p: "gc_ptr p" and c: "cases_ok c"
    and m: "htmain g (ht_slot p) \<noteq> 0" "\<not> bit (htmain g (ht_slot p)) 0"
      "ht_hiptr p \<noteq> htmain g (ht_slot p) AND HTHIMASK"
    and links: "two_links g"
  shows "refines_rc_step g p c (ht_body newe mode p c g)"
proof -
  have ok: "ht_ok (htmain g) (htcoll g)" using inv by (simp add: gc_inv_def)
  have none: "entry_of g p = None" using m by (simp add: entry_of_def htlookup_def)
  obtain l g1 l' g2 where gl: "GetLink g = (Some l, g1)" "GetLink g1 = (Some l', g2)"
    by (rule two_linksE [OF links])
  let ?i = "ht_slot p"
  let ?G = "putgc (Main ?i) (of_nat l + 1) (putgc (Coll (l + 1)) (of_nat l')
     (putgc (Coll l') (htmain g ?i) (putgc (Coll (l' + 1)) 0 g2)))"
  have st: "ht_ok ((htmain g)(?i := of_nat l + 1)) (htcoll (putgc (Coll l) e ?G)) \<and>
      ht_upd (htmain g) (htcoll g) ((htmain g)(?i := of_nat l + 1)) (htcoll (putgc (Coll l) e ?G)) ?i (ht_hiptr p) (Some e) \<and>
      g2 = g\<lparr>htcoll := htcoll g2\<rparr>" if "wf_entry e" "hhi e = ht_hiptr p" for e
    using step_new_collision [OF ok slot_bound [of p] m(2,1) _ that(1) gl, where c' = "htcoll (putgc (Coll l) e ?G)"]
      that(2) m(3) by (simp add: hhi_def)
  obtain e0 where "wf_entry e0" "hhi e0 = ht_hiptr p"
    using is_hi_wf [OF is_hi_hiptr] p by (auto simp: gc_ptr_def)
  from st [OF this] have g2: "g2 = g\<lparr>htcoll := htcoll g2\<rparr>" by blast
  have f2: "htmain g2 = htmain g" "ovfl_ptr g2 = ovfl_ptr g" "ovfl_cnt g2 = ovfl_cnt g"
    by (subst g2, simp)+
  have "refines_rc_step g p c (newe (Coll l) (ht_hiptr p) c p ?G)"
    by (rule new_step [OF inv p c none]) (use st f2 in simp_all)
  then show ?thesis using m by (simp add: ht_body_def Let_def gl)
qed

lemma body_hit:
  assumes inv: "gc_inv g" and p: "gc_ptr p" and c: "cases_ok c"
    and b: "bit (htmain g (ht_slot p)) 0"
    and hit: "newlink (htcoll g) (ht_hiptr p) (unat (htmain g (ht_slot p) - 1)) 0 = Some (Some (link, prev))"
    and pre: "rc_pre swapped c (big_room g) (rcview g p)"
  shows "refines_rc_step g p c (ht_body newe mode p c g)"
proof -
  have nz: "htmain g (ht_slot p) \<noteq> 0" using b by auto
  have ok: "ht_ok (htmain g) (htcoll g)" using inv by (simp add: gc_inv_def)
  then obtain S fs where sh: "ht_shape (htmain g) (htcoll g) S fs" by (auto simp: ht_ok_def)
  let ?e = "htcoll g link"
  have e: "wf_entry ?e \<and> hhi ?e = ht_hiptr p"
    by (rule newlink_cases [OF sh slot_bound b, of "ht_hiptr p"])
       (use hit collision_slot(3) [OF sh slot_bound b] in auto)
  then have some: "entry_of g p = Some ?e" using nz b hit by (simp add: entry_of_def htlookup_def)
  have del: "ht_ok (htmain g') (htcoll g') \<and>
      ht_upd (htmain g) (htcoll g) (htmain g') (htcoll g') (ht_slot p) (ht_hiptr p) None \<and>
      g' = g1\<lparr>htmain := htmain g', htcoll := htcoll g'\<rparr>"
    if "same_tabs g g1" "g' = dellink (ht_slot p) link prev g1" for g1 g'
    using step_dellink [OF _ slot_bound [of p] _ _ that(2), of "ht_hiptr p"] that(1) ok b hit
    by (simp add: same_tabs_def)
  have "refines_rc_step g p c (rbind (mode (Coll link) ?e p c g)
      (\<lambda>(r, g1). case r of Some v \<Rightarrow> Inr (v, g1) | None \<Rightarrow> Inr (NIL, dellink (ht_slot p) link prev g1)))"
  proof (rule mod_step [OF inv p c some])
    fix e' assume "wf_entry e'" "hhi e' = ht_hiptr p"
    then show "ht_ok (htmain (putgc (Coll link) e' g)) (htcoll (putgc (Coll link) e' g)) \<and>
      ht_upd (htmain g) (htcoll g) (htmain (putgc (Coll link) e' g)) (htcoll (putgc (Coll link) e' g))
        (ht_slot p) (ht_hiptr p) (Some e')"
      using step_chain_put [OF ok slot_bound b, of e' link prev] hit by simp
  next
    fix g1 assume g1: "same_tabs g g1"
    from del [OF g1 refl] show "ht_ok (htmain (dellink (ht_slot p) link prev g1)) (htcoll (dellink (ht_slot p) link prev g1)) \<and>
        ht_upd (htmain g) (htcoll g) (htmain (dellink (ht_slot p) link prev g1)) (htcoll (dellink (ht_slot p) link prev g1))
          (ht_slot p) (ht_hiptr p) None \<and>
        ovfl_ptr (dellink (ht_slot p) link prev g1) = ovfl_ptr g1 \<and>
        ovfl_cnt (dellink (ht_slot p) link prev g1) = ovfl_cnt g1"
      by simp
  qed (use e pre in simp_all)
  then show ?thesis using nz b by (simp add: ht_body_def Let_def hit)
qed

lemma body_push:
  assumes inv: "gc_inv g" and p: "gc_ptr p" and c: "cases_ok c"
    and b: "bit (htmain g (ht_slot p)) 0"
    and miss: "newlink (htcoll g) (ht_hiptr p) (unat (htmain g (ht_slot p) - 1)) 0 = Some None"
    and gl: "GetLink g = (Some l, g1)"
  shows "refines_rc_step g p c (ht_body newe mode p c g)"
proof -
  have nz: "htmain g (ht_slot p) \<noteq> 0" using b by auto
  have ok: "ht_ok (htmain g) (htcoll g)" using inv by (simp add: gc_inv_def)
  have none: "entry_of g p = None" using nz b miss by (simp add: entry_of_def htlookup_def)
  let ?i = "ht_slot p"
  let ?G = "putgc (Main ?i) (of_nat l + 1) (putgc (Coll (l + 1)) (htmain g1 ?i - 1) g1)"
  have st: "ht_ok ((htmain g)(?i := of_nat l + 1)) (htcoll (putgc (Coll l) e (putgc (Coll (l + 1)) (htmain g ?i - 1) g1))) \<and>
      ht_upd (htmain g) (htcoll g) ((htmain g)(?i := of_nat l + 1))
        (htcoll (putgc (Coll l) e (putgc (Coll (l + 1)) (htmain g ?i - 1) g1))) ?i (ht_hiptr p) (Some e) \<and>
      g1 = g\<lparr>htcoll := htcoll g1\<rparr>" if "wf_entry e" "hhi e = ht_hiptr p" for e
    using step_push [OF ok slot_bound [of p] b _ that(1) gl,
        where c' = "htcoll (putgc (Coll l) e (putgc (Coll (l + 1)) (htmain g ?i - 1) g1))"]
      that(2) miss by simp
  obtain e0 where "wf_entry e0" "hhi e0 = ht_hiptr p"
    using is_hi_wf [OF is_hi_hiptr] p by (auto simp: gc_ptr_def)
  from st [OF this] have g1: "g1 = g\<lparr>htcoll := htcoll g1\<rparr>" by blast
  have f1: "htmain g1 = htmain g" "ovfl_ptr g1 = ovfl_ptr g" "ovfl_cnt g1 = ovfl_cnt g"
    by (subst g1, simp)+
  have "refines_rc_step g p c (newe (Coll l) (ht_hiptr p) c p ?G)"
    by (rule new_step [OF inv p c none]) (use st f1 in simp_all)
  then show ?thesis using nz b by (simp add: ht_body_def Let_def gl miss)
qed

text \<open>All branches.\<close>

theorem body_refines:
  assumes inv: "gc_inv g" and p: "gc_ptr p" and c: "cases_ok c" and links: "two_links g"
    and pre: "rc_pre swapped c (big_room g) (rcview g p)"
  shows "refines_rc_step g p c (ht_body newe mode p c g)"
proof -
  let ?w = "htmain g (ht_slot p)"
  have ok: "ht_ok (htmain g) (htcoll g)" using inv by (simp add: gc_inv_def)
  then obtain S fs where sh: "ht_shape (htmain g) (htcoll g) S fs" by (auto simp: ht_ok_def)
  consider "?w = 0" | "?w \<noteq> 0" "\<not> bit ?w 0" "ht_hiptr p = ?w AND HTHIMASK"
    | "?w \<noteq> 0" "\<not> bit ?w 0" "ht_hiptr p \<noteq> ?w AND HTHIMASK" | "bit ?w 0" by blast
  then show ?thesis
  proof cases
    case 4
    obtain l g1 where gl: "GetLink g = (Some l, g1)" by (rule two_linksE [OF links])
    show ?thesis
    proof (rule newlink_cases [OF sh slot_bound 4, of "ht_hiptr p"])
      fix xs x ys
      assume h: "newlink (htcoll g) (ht_hiptr p) (unat (?w - 1)) 0 = Some (Some (x, if xs = [] then 0 else last xs))"
      from body_hit [OF inv p c 4 h pre] show ?thesis .
    next
      assume "newlink (htcoll g) (ht_hiptr p) (unat (?w - 1)) 0 = Some None"
      from body_push [OF inv p c 4 this gl] show ?thesis .
    qed
  qed (use body_empty [OF inv p c] body_direct [OF inv p c _ _ _ pre]
      body_new_collision [OF inv p c _ _ _ links] in auto)
qed

end

section \<open>The two functions\<close>

interpretation htfind_macros: entry_macros NewEntry "ModEntry swapped" "\<lambda>c. c = ADDREF \<or> c = DELREF" swapped
  for swapped
  by unfold_locales (rule NewEntry_law, assumption+, fold mod_spec_def, rule ModEntry_law)

interpretation rec_htfind_macros: entry_macros RecNewEntry "RecModEntry swapped"
    "\<lambda>c. c = ADDREF \<or> c = DELREF \<or> c = STKREF" swapped
  for swapped
  by unfold_locales (rule RecNewEntry_law, assumption+, fold mod_spec_def, rule RecModEntry_law)

lemma htfind_refines_all:
  assumes "gc_inv g" "gc_ptr p" "c = ADDREF \<or> c = DELREF" "two_links g"
    and "rc_pre swapped c (big_room g) (rcview g p)"
  shows "refines_rc_step g p c (htfind swapped p c g)"
  unfolding htfind_def by (rule htfind_macros.body_refines [OF assms])

lemma rec_htfind_refines_all:
  assumes "gc_inv g" "gc_ptr p" "c = ADDREF \<or> c = DELREF \<or> c = STKREF" "two_links g"
    and "rc_pre swapped c (big_room g) (rcview g p)"
  shows "refines_rc_step g p c (rec_htfind swapped p c g)"
  unfolding rec_htfind_def by (rule rec_htfind_macros.body_refines [OF assms])

section \<open>Properties\<close>

text \<open>An empty table, as \<open>make_page_writable\<close> and the sysout leave it.\<close>

definition gctab0 :: gctab where
  "gctab0 = \<lparr>htmain = (\<lambda>_. 0), htcoll = (\<lambda>i. if i = Suc 0 then 2 else 0), ovfl_ptr = (\<lambda>_. NIL),
     ovfl_cnt = (\<lambda>_. 0), reclaim_cnt = S_POSITIVE, reclaim_min = S_POSITIVE, gc_disabled = NIL,
     irq_check = False, gc_interrupt = False, mds_typetbl = (\<lambda>_. 0)\<rparr>"

lemma gctab0_inv: "gc_inv gctab0" "two_links gctab0" "big_room gctab0"
proof -
  have "ht_shape (\<lambda>_. 0) (\<lambda>i. if i = Suc 0 then 2 else 0) (\<lambda>_. []) []"
    by (simp add: ht_shape_def slot_ok_def separate_def HTCOLLMAX_def HTCOLL_SIZE_def)
  then have "ht_ok (htmain gctab0) (htcoll gctab0)" by (auto simp: ht_ok_def gctab0_def)
  moreover have bo: "big_ok gctab0 0"
    by (simp add: big_ok_def gctab0_def BIGLIMIT_def MDS_OFFSET_def HTBIG_OFFSET_def)
  moreover have "entry_of gctab0 p = None" for p
    by (simp add: entry_of_def htlookup_def gctab0_def)
  moreover have "bigcount gctab0 p = None" for p
    using bigmap_out [OF bo] by (simp add: bigcount_def)
  ultimately show "gc_inv gctab0" by (auto simp: gc_inv_def)
  show "two_links gctab0"
    by (simp add: two_links_def gctab0_def GetLink_def HTCOLLMAX_def HTCOLL_SIZE_def)
  show "big_room gctab0"
    by (auto simp: big_room_def gctab0_def BIGLIMIT_def MDS_OFFSET_def HTBIG_OFFSET_def
          intro: exI [of _ 0])
qed

lemma gctab0_view: "rcview gctab0 p = (1, False)"
  by (simp add: rcview_def entry_of_def htlookup_def gctab0_def)

lemma gc_ptr_sample: "gc_ptr 0x200004"
  by (simp add: gc_ptr_def ht_hiptr_def HTHIMASK_def POINTERMASK_def)

text \<open>
  C1. \<open>htfind\<close> counts: on a well-formed table with two free collision cells, adding or deleting
  a reference of a counted pointer returns, keeps the table well-formed, changes the count of that
  pointer by one and the count and stack bit of no other, and answers the pointer itself exactly
  when the last but one reference went away (the pointer was not in the table), \<open>NIL\<close>
  otherwise. The counts run through the saturated range and back (overflow table).
\<close>

theorem htfind_counts:
  assumes "gc_inv g" "gc_ptr p" "c = ADDREF \<or> c = DELREF" "two_links g"
    and "rc_pre swapped c (big_room g) (rcview g p)"
  shows "\<exists>g'. htfind swapped p c g = Inr (if c = DELREF \<and> rcview g p = (1, False) then p else NIL, g') \<and>
    gc_inv g' \<and> rcview g' p = rc_step c (rcview g p) \<and>
    (\<forall>q. gc_ptr q \<and> key_of q \<noteq> key_of p \<longrightarrow> rcview g' q = rcview g q)"
  using htfind_refines_all [OF assms] by (simp add: refines_rc_step_def)

lemma htfind_counts_witness:
  "\<exists>g'. htfind False 0x200004 DELREF gctab0 = Inr (0x200004, g') \<and> rcview g' 0x200004 = (0, False)"
  using htfind_counts [OF gctab0_inv(1) gc_ptr_sample _ gctab0_inv(2), of DELREF False]
  by (auto simp: gctab0_view)

text \<open>
  C2. \<open>rec_htfind\<close>, used while the collector itself runs, has the same contract and also sets
  the stack bit (\<open>STKREF\<close>); on a byte-swapped build this excludes saturated entries
  (the hypothesis \<open>rc_pre\<close>).
\<close>

theorem rec_htfind_counts:
  assumes "gc_inv g" "gc_ptr p" "c = ADDREF \<or> c = DELREF \<or> c = STKREF" "two_links g"
    and "rc_pre swapped c (big_room g) (rcview g p)"
  shows "\<exists>g'. rec_htfind swapped p c g = Inr (if c = DELREF \<and> rcview g p = (1, False) then p else NIL, g') \<and>
    gc_inv g' \<and> rcview g' p = rc_step c (rcview g p) \<and>
    (\<forall>q. gc_ptr q \<and> key_of q \<noteq> key_of p \<longrightarrow> rcview g' q = rcview g q)"
  using rec_htfind_refines_all [OF assms] by (simp add: refines_rc_step_def)

lemma rec_htfind_counts_witness:
  "\<exists>g'. rec_htfind True 0x200004 STKREF gctab0 = Inr (NIL, g') \<and> rcview g' 0x200004 = (1, True)"
  using rec_htfind_counts [OF gctab0_inv(1) gc_ptr_sample _ gctab0_inv(2), of STKREF True]
  by (auto simp: gctab0_view)

text \<open>
  The search loop at the label \<open>newlink\<close> ends on every slot of a well-formed table that
  holds a chain, whatever high part is looked for.
\<close>

theorem newlink_terminates:
  assumes "ht_ok (htmain g) (htcoll g)" "i < HTSLOTS" "bit (htmain g i) 0"
  shows "newlink (htcoll g) h (unat (htmain g i - 1)) 0 \<noteq> None"
proof -
  from assms(1) obtain S fs where sh: "ht_shape (htmain g) (htcoll g) S fs" by (auto simp: ht_ok_def)
  show ?thesis by (rule newlink_cases [OF sh assms(2,3), of h]) auto
qed

definition gctab_chain :: gctab where
  "gctab_chain = gctab0\<lparr>htmain := (\<lambda>_. 0)(2 := 3),
     htcoll := (\<lambda>_. 0)(1 := 6, 2 := 0x40040, 3 := 4, 4 := 0x40042)\<rparr>"

lemma gctab_chain_ok: "ht_ok (htmain gctab_chain) (htcoll gctab_chain)"
proof -
  have b: "bit (3 :: 32 word) 0" by simp
  have "ht_shape (htmain gctab_chain) (htcoll gctab_chain) (\<lambda>i. if i = 2 then [2, 4] else []) []"
    by (auto simp: gctab_chain_def gctab0_def ht_shape_def slot_ok_def separate_def HTCOLLMAX_def HTCOLL_SIZE_def
          cell_ok_def wf_entry_def hhi_def HTHIMASK_def)
  then show ?thesis by (auto simp: ht_ok_def)
qed

lemma newlink_terminates_witness:
  "newlink (htcoll gctab_chain) 0x44 (unat (htmain gctab_chain 2 - 1)) 0 \<noteq> None"
  by (rule newlink_terminates [OF gctab_chain_ok])
     (simp_all add: HTSLOTS_def gctab_chain_def)

text \<open>
  C3. A full collision table turns the collector off: when no cell is left and the pointer would
  need one, \<open>htfind\<close> answers \<open>NIL\<close>, the counts stay as they are, and
  \<open>*GcDisabled_word\<close> is \<open>T\<close>.
\<close>

theorem htfind_full_disables:
  assumes "gc_inv g" "gc_ptr p" "entry_of g p = None" "htmain g (ht_slot p) \<noteq> 0"
    and "GetLink g = (None, g1)"
  shows "\<exists>g'. htfind swapped p c g = Inr (NIL, g') \<and> gc_disabled g' = ATOM_T \<and> same_tabs g g'"
proof -
  have g1: "g1 = disablegc1 False g"
    using assms(5) by (auto simp: GetLink_def Let_def split: if_splits)
  have "htfind swapped p c g = Inr (NIL, g1)"
  proof (cases "bit (htmain g (ht_slot p)) 0")
    case True
    have ok: "ht_ok (htmain g) (htcoll g)" using assms(1) by (simp add: gc_inv_def)
    then obtain S fs where sh: "ht_shape (htmain g) (htcoll g) S fs" by (auto simp: ht_ok_def)
    have "newlink (htcoll g) (ht_hiptr p) (unat (htmain g (ht_slot p) - 1)) 0 = Some None"
      by (rule newlink_cases [OF sh slot_bound True, of "ht_hiptr p"])
         (use assms(3,4) True in \<open>auto simp: entry_of_def htlookup_def\<close>)
    then show ?thesis using True assms(4,5) by (simp add: htfind_def ht_body_def Let_def)
  next
    case False
    then show ?thesis using assms(3-5)
      by (auto simp: htfind_def ht_body_def Let_def entry_of_def htlookup_def split: if_splits)
  qed
  then show ?thesis by (simp add: g1 disablegc1_def Let_def same_tabs_def)
qed

definition gctab_full :: gctab where
  "gctab_full = gctab0\<lparr>htmain := (\<lambda>_. 0)(2 := 0x40042),
     htcoll := (\<lambda>_. 0)(1 := of_nat HTCOLLMAX)\<rparr>"

lemma gctab_full_inv: "gc_inv gctab_full"
proof -
  have "ht_shape (htmain gctab_full) (htcoll gctab_full) (\<lambda>_. []) []"
    by (auto simp: gctab_full_def gctab0_def ht_shape_def slot_ok_def separate_def HTCOLLMAX_def
          HTCOLL_SIZE_def wf_entry_def hhi_def HTHIMASK_def)
  then have "ht_ok (htmain gctab_full) (htcoll gctab_full)" by (auto simp: ht_ok_def)
  moreover have bo: "big_ok gctab_full 0"
    by (simp add: gctab_full_def big_ok_def gctab0_def BIGLIMIT_def MDS_OFFSET_def HTBIG_OFFSET_def)
  moreover have "entry_ok (entry_of gctab_full p) None" for p
    by (simp add: entry_of_def htlookup_def gctab_full_def gctab0_def hcount_def hstk_def)
  moreover have "bigcount gctab_full p = None" for p
    using bigmap_out [OF bo] by (simp add: bigcount_def)
  ultimately show ?thesis by (auto simp: gc_inv_def)
qed

lemma htfind_full_disables_witness:
  "\<exists>g'. htfind False 0x200004 ADDREF gctab_full = Inr (NIL, g') \<and> gc_disabled g' = ATOM_T \<and>
     same_tabs gctab_full g'"
proof -
  have "GetLink gctab_full = (None, disablegc1 False gctab_full)"
    by (simp add: gctab_full_def gctab0_def GetLink_def HTCOLLMAX_def HTCOLL_SIZE_def)
  then show ?thesis
    by (rule htfind_full_disables [OF gctab_full_inv gc_ptr_sample, rotated 2])
       (simp_all add: entry_of_def htlookup_def gctab_full_def gctab0_def ht_slot_def ht_hiptr_def
          HTHIMASK_def)
qed

text \<open>
  On a byte-swapped build, setting the stack bit of a saturated entry misses: the entry keeps
  its stack bit, and the entry that follows it in the table gets bit 0 set, which marks it as a
  chain of collisions (see the findings of the manifest).
\<close>

theorem stkref_swapped_misses:
  assumes "big_find BIGLIMIT 0 g (key_of p) = Some (Inr i)"
  shows "\<exists>g'. modify_big_reference_count True ent STKREF p g = Inr g' \<and>
    getgc g' ent = getgc g ent \<and> bit (getgc g' (gcsucc ent)) 0"
proof -
  have "modify_big_reference_count True ent STKREF p g =
      Inr (putgc (gcsucc ent) (getgc g (gcsucc ent) OR 1) g)"
    by (simp add: modify_big_reference_count_def Let_def mask_odd_key assms)
  then show ?thesis by (cases ent) (simp_all add: bit_or_iff)
qed

lemma stkref_swapped_misses_witness:
  "\<exists>g'. modify_big_reference_count True (Main 2) STKREF 0x200004
        (gctab0\<lparr>ovfl_ptr := (ovfl_ptr gctab0)(0 := 0x200004)\<rparr>) = Inr g' \<and> bit (htmain g' 3) 0"
proof -
  let ?g = "gctab0\<lparr>ovfl_ptr := (ovfl_ptr gctab0)(0 := 0x200004)\<rparr>"
  have "big_find BIGLIMIT 0 ?g (key_of 0x200004) = Some (Inr 0)"
    using big_find_hit [of ?g 0 0 "key_of 0x200004" BIGLIMIT]
    by (simp add: key_of_def BIGLIMIT_def MDS_OFFSET_def HTBIG_OFFSET_def)
  from stkref_swapped_misses [OF this, of "Main 2"] show ?thesis by (auto simp: numeral_3_eq_3)
qed

text \<open>
  The guard of \<open>enter_big_reference_count\<close> comes too late: every entry on which it
  fires lies at or beyond the type table \<open>MDStypetbl\<close>, which follows the overflow table
  in the layout of this release.
\<close>

theorem big_guard_late: "\<not> (big_guard i \<and> HTBIG_OFFSET + 4 * i < MDS_OFFSET)"
  by (simp add: big_guard_def HTBIG_OFFSET_def MDS_OFFSET_def HTCOLL_OFFSET_def)

end
