(* ===== verification/Lisp_Memory.thy ===== *)
theory Lisp_Memory
  imports GC_Htfind
begin

text \<open>
  The memory of the Lisp virtual machine: \<open>inc/adr68k.h\<close>, \<open>inc/address.h\<close>, the access
  macros and the type table of \<open>inc/lsptypes.h\<close>, and the reference-counting macros of
  \<open>inc/gcdata.h\<close>.

  Memory is addressed by DLwords and modelled as its 32-bit cells, at even addresses, in the
  logical (big-endian) order of the virtual machine: \<open>GETWORD\<close> and \<open>GETBYTE\<close> of a
  byte-swapped build flip address bits so that a program sees the same order on both builds. A C
  pointer made by \<open>NativeAligned4FromLAddr\<close> is the Lisp address it was made from.
\<close>

section \<open>Address arithmetic\<close>

definition HILOC :: "LispPTR \<Rightarrow> 32 word" where "HILOC p = drop_bit 16 (p AND SEGMASK)"
definition LOLOC :: "LispPTR \<Rightarrow> 32 word" where "LOLOC p = p AND 0xFFFF"
definition VAG2 :: "32 word \<Rightarrow> 32 word \<Rightarrow> LispPTR" where "VAG2 hi lo = push_bit 16 hi OR lo"
definition POINTER_PAGE :: "LispPTR \<Rightarrow> 32 word" where "POINTER_PAGE p = drop_bit 8 (p AND 0x0FFFFF00)"
definition POINTER_PAGEBASE :: "LispPTR \<Rightarrow> LispPTR" where "POINTER_PAGEBASE p = p AND 0x0FFFFF00"
definition LPage :: "LispPTR \<Rightarrow> 32 word" where "LPage p = drop_bit 8 p"
definition FromLPage :: "32 word \<Rightarrow> LispPTR" where "FromLPage pg = push_bit 8 pg"

section \<open>Cells, words and bytes\<close>

type_synonym memory = "LispPTR \<Rightarrow> 32 word"

definition hi_word :: "32 word \<Rightarrow> DLword" where "hi_word c = ucast (drop_bit 16 c)"
definition lo_word :: "32 word \<Rightarrow> DLword" where "lo_word c = ucast c"
definition join_words :: "DLword \<Rightarrow> DLword \<Rightarrow> 32 word" where
  "join_words h l = push_bit 16 (ucast h) OR ucast l"

definition getcell :: "memory \<Rightarrow> LispPTR \<Rightarrow> 32 word" where "getcell m a = m a"
definition putcell :: "LispPTR \<Rightarrow> 32 word \<Rightarrow> memory \<Rightarrow> memory" where "putcell a v m = m(a := v)"

definition cell_of :: "LispPTR \<Rightarrow> LispPTR" where "cell_of a = a AND 0xFFFFFFFE"

text \<open>\<open>GETWORD(NativeAligned2FromLAddr(a))\<close> as a value and as the target of an assignment.\<close>

definition getword :: "memory \<Rightarrow> LispPTR \<Rightarrow> DLword" where
  "getword m a = (if bit a 0 then lo_word (m (cell_of a)) else hi_word (m (cell_of a)))"

definition putword :: "LispPTR \<Rightarrow> DLword \<Rightarrow> memory \<Rightarrow> memory" where
  "putword a v m =
     (let c = cell_of a
      in m(c := if bit a 0 then join_words (hi_word (m c)) v else join_words v (lo_word (m c))))"

text \<open>Byte \<open>n\<close> counted from the DLword address \<open>a\<close> (\<open>GETBYTE\<close>).\<close>

definition getbyte :: "memory \<Rightarrow> LispPTR \<Rightarrow> 32 word \<Rightarrow> DLbyte" where
  "getbyte m a n =
     (let w = getword m (a + drop_bit 1 n)
      in if bit n 0 then ucast w else ucast (drop_bit 8 w))"

definition putbyte :: "LispPTR \<Rightarrow> 32 word \<Rightarrow> DLbyte \<Rightarrow> memory \<Rightarrow> memory" where
  "putbyte a n v m =
     (let b = a + drop_bit 1 n; w = getword m b
      in putword b (if bit n 0 then (w AND 0xFF00) OR ucast v
                    else push_bit 8 (ucast v) OR (w AND 0xFF)) m)"

section \<open>The machine state\<close>

text \<open>
  The part of the emulator's state the modelled operations share. The words of the global value
  area and of the interface page that the emulator reaches through native pointers
  (\<open>*GcDisabled_word\<close>, \<open>InterfacePage->key\<close> and the like) are fields, named after
  the C variables; \<open>gc\<close> is the state of the collector with the type table.
  \<open>err_log\<close> collects the calls of \<open>error\<close> after which the code goes on.
\<close>

record array_words =
  FreeBlockBuckets_word :: LispPTR
  ArrayMerging_word :: LispPTR
  ArraySpace_word :: LispPTR
  ArraySpace2_word :: LispPTR
  ArrayFrLst_word :: LispPTR
  ArrayFrLst2_word :: LispPTR
  Hunk_word :: LispPTR
  Array_Block_Checking_word :: LispPTR
  System_Buffer_List_word :: LispPTR
  Closure_Cache_Enabled_word :: LispPTR
  Closure_Cache_word :: LispPTR
  Deleted_Implicit_Hash_Slot_word :: LispPTR

record storage_words =
  MDS_free_page_word :: LispPTR
  Next_MDSpage_word :: LispPTR
  Next_Array_word :: LispPTR
  STORAGEFULLSTATE_word :: LispPTR
  STORAGEFULL_word :: LispPTR
  LeastMDSPage_word :: LispPTR
  SecondMDSPage_word :: LispPTR
  SecondArrayPage_word :: LispPTR
  SYSTEMCACHEVARS_word :: LispPTR
  MACHINETYPE_word :: LispPTR
  LASTVMEMFILEPAGE_word :: LispPTR
  VMEM_FULL_STATE_word :: LispPTR
  PENDINGINTERRUPT_word :: LispPTR
  int_storagefull :: bool
  int_vmemfull :: bool
  dl24bitaddressable :: DLword
  fullspaceused :: DLword
  if_key :: DLword
  fptovpstart :: DLword
  nactivepages :: "32 word"
  dllastvmempage :: "32 word"

record vm =
  mem :: memory
  gc :: gctab
  byteswapped :: bool
  err_log :: "string list"
  arr :: array_words
  sto :: storage_words
  oplength :: "nat list"
  Irq_Stk_End :: nat
  Scratch_CSTK :: LispPTR

definition rd :: "vm \<Rightarrow> LispPTR \<Rightarrow> 32 word" where "rd s a = getcell (mem s) a"

definition wr :: "LispPTR \<Rightarrow> 32 word \<Rightarrow> vm \<Rightarrow> vm" where
  "wr a v s = s\<lparr>mem := putcell a v (mem s)\<rparr>"

definition log_error :: "string \<Rightarrow> vm \<Rightarrow> vm" where
  "log_error msg s = s\<lparr>err_log := msg # err_log s\<rparr>"

definition GetTypeEntry :: "vm \<Rightarrow> LispPTR \<Rightarrow> DLword" where
  "GetTypeEntry s a = mds_typetbl (gc s) (unat (drop_bit 9 a))"

definition GetTypeNumber :: "vm \<Rightarrow> LispPTR \<Rightarrow> DLword" where
  "GetTypeNumber s a = GetTypeEntry s a AND 0x7FF"

definition TYPE_SMALLP :: DLword where "TYPE_SMALLP = 1"
definition TYPE_FIXP :: DLword where "TYPE_FIXP = 2"
definition TYPE_FLOATP :: DLword where "TYPE_FLOATP = 3"
definition TYPE_LITATOM :: DLword where "TYPE_LITATOM = 4"
definition TYPE_LISTP :: DLword where "TYPE_LISTP = 5"
definition TYPE_STACKP :: DLword where "TYPE_STACKP = 8"
definition TYPE_CHARACTERP :: DLword where "TYPE_CHARACTERP = 9"
definition TYPE_VMEMPAGEP :: DLword where "TYPE_VMEMPAGEP = 10"
definition TYPE_ARRAYBLOCK :: DLword where "TYPE_ARRAYBLOCK = 0"
definition TYPE_CODEHUNK1 :: DLword where "TYPE_CODEHUNK1 = 64"
definition TYPE_CODEHUNK10 :: DLword where "TYPE_CODEHUNK10 = 73"

lemmas type_defs [maiko_consts] =
  TYPE_SMALLP_def TYPE_FIXP_def TYPE_FLOATP_def TYPE_LITATOM_def TYPE_LISTP_def TYPE_STACKP_def
  TYPE_CHARACTERP_def TYPE_VMEMPAGEP_def TYPE_ARRAYBLOCK_def TYPE_CODEHUNK1_def TYPE_CODEHUNK10_def

definition Listp :: "vm \<Rightarrow> LispPTR \<Rightarrow> bool" where
  "Listp s a \<longleftrightarrow> GetTypeNumber s a = TYPE_LISTP"

definition Numberp :: "vm \<Rightarrow> LispPTR \<Rightarrow> bool" where
  "Numberp s a \<longleftrightarrow> GetTypeEntry s a AND 0x1000 \<noteq> 0"

section \<open>Reference counting from outside the table\<close>

definition RefCntP :: "vm \<Rightarrow> LispPTR \<Rightarrow> bool" where
  "RefCntP s p \<longleftrightarrow> GetTypeEntry s p AND TT_NOREF = 0 \<and> gc_disabled (gc s) \<noteq> ATOM_T"

definition GCLOOKUPV :: "LispPTR \<Rightarrow> refcase \<Rightarrow> vm \<Rightarrow> (LispPTR \<times> vm) res" where
  "GCLOOKUPV p c s =
     (if RefCntP s p
      then rbind (if reclaim_cnt (gc s) \<noteq> NIL then htfind (byteswapped s) p c (gc s)
                  else rec_htfind (byteswapped s) p c (gc s)) (\<lambda>(v, g). Inr (v, s\<lparr>gc := g\<rparr>))
      else Inr (NIL, s))"

definition GCLOOKUP :: "LispPTR \<Rightarrow> refcase \<Rightarrow> vm \<Rightarrow> vm res" where
  "GCLOOKUP p c s = rbind (GCLOOKUPV p c s) (\<lambda>(v, s). Inr s)"

definition REC_GCLOOKUPV :: "LispPTR \<Rightarrow> refcase \<Rightarrow> vm \<Rightarrow> (LispPTR \<times> vm) res" where
  "REC_GCLOOKUPV p c s =
     (if RefCntP s p
      then rbind (rec_htfind (byteswapped s) p c (gc s)) (\<lambda>(v, g). Inr (v, s\<lparr>gc := g\<rparr>))
      else Inr (NIL, s))"

definition REC_GCLOOKUP :: "LispPTR \<Rightarrow> refcase \<Rightarrow> vm \<Rightarrow> vm res" where
  "REC_GCLOOKUP p c s = rbind (REC_GCLOOKUPV p c s) (\<lambda>(v, s). Inr s)"

section \<open>Reads after writes\<close>

text \<open>The three access widths obey the same two laws, for the addresses they are meant for.\<close>

locale store =
  fixes get :: "memory \<Rightarrow> LispPTR \<Rightarrow> 'v"
    and put :: "LispPTR \<Rightarrow> 'v \<Rightarrow> memory \<Rightarrow> memory"
    and ok :: "LispPTR \<Rightarrow> bool"
  assumes get_put_same: "ok a \<Longrightarrow> get (put a v m) a = v"
    and get_put_other: "ok a \<Longrightarrow> ok b \<Longrightarrow> a \<noteq> b \<Longrightarrow> get (put a v m) b = get m b"
begin

text \<open>A run of locations \<open>a, a + d, ...\<close> and the value stored there.\<close>

primrec putrun :: "LispPTR \<Rightarrow> LispPTR \<Rightarrow> 'v list \<Rightarrow> memory \<Rightarrow> memory" where
  "putrun a d [] m = m"
| "putrun a d (v # vs) m = putrun (a + d) d vs (put a v m)"

primrec getrun :: "memory \<Rightarrow> LispPTR \<Rightarrow> LispPTR \<Rightarrow> nat \<Rightarrow> 'v list" where
  "getrun m a d 0 = []"
| "getrun m a d (Suc n) = get m a # getrun m (a + d) d n"

primrec runaddrs :: "LispPTR \<Rightarrow> LispPTR \<Rightarrow> nat \<Rightarrow> LispPTR list" where
  "runaddrs a d 0 = []"
| "runaddrs a d (Suc n) = a # runaddrs (a + d) d n"

lemma putrun_other:
  "list_all ok (runaddrs a d (length vs)) \<Longrightarrow> ok b \<Longrightarrow> b \<notin> set (runaddrs a d (length vs)) \<Longrightarrow>
   get (putrun a d vs m) b = get m b"
  by (induction vs arbitrary: a m) (auto simp: get_put_other)

lemma getrun_putrun:
  "list_all ok (runaddrs a d (length vs)) \<Longrightarrow> distinct (runaddrs a d (length vs)) \<Longrightarrow>
   getrun (putrun a d vs m) a d (length vs) = vs"
  by (induction vs arbitrary: a m) (auto simp: putrun_other get_put_same)

end

lemma hi_lo_join [simp]:
  "hi_word (join_words h l) = h" "lo_word (join_words h l) = l"
proof -
  show "hi_word (join_words h l) = h"
    by (rule bit_word_eqI)
       (auto simp: hi_word_def join_words_def bit_ucast_iff bit_or_iff bit_push_bit_iff bit_drop_bit_eq
          dest: bit_imp_le_length)
  show "lo_word (join_words h l) = l"
    by (rule bit_word_eqI)
       (auto simp: lo_word_def join_words_def bit_ucast_iff bit_or_iff bit_push_bit_iff)
qed

lemma join_hi_lo [simp]: "join_words (hi_word c) (lo_word c) = c"
  by (rule bit_word_eqI)
     (auto simp: hi_word_def lo_word_def join_words_def bit_ucast_iff bit_or_iff bit_push_bit_iff
        bit_drop_bit_eq not_less)

lemma bit_cell_of: "bit (cell_of a) n \<longleftrightarrow> bit a n \<and> 1 \<le> n"
  using bit_key_of [of a n] by (simp add: cell_of_def key_of_def)

lemma cell_of_eqD: "cell_of a = cell_of b \<Longrightarrow> bit a 0 = bit b 0 \<Longrightarrow> a = b"
  by (rule bit_word_eqI) (metis bit_cell_of less_one not_less)

interpretation cells: store getcell putcell "\<lambda>a. \<not> bit a 0"
  by unfold_locales (simp_all add: getcell_def putcell_def)

interpretation words: store getword putword "\<lambda>_. True"
proof
  fix a b :: LispPTR and v :: DLword and m :: memory
  show "getword (putword a v m) a = v" by (simp add: getword_def putword_def Let_def)
  assume "a \<noteq> b"
  then show "getword (putword a v m) b = getword m b"
    using cell_of_eqD [of a b] by (auto simp: getword_def putword_def Let_def)
qed

text \<open>A cell is the two words at its address.\<close>

lemma getcell_words: "\<not> bit a 0 \<Longrightarrow> getcell m a = join_words (getword m a) (getword m (a + 1))"
proof -
  assume a: "\<not> bit a 0"
  have "a + 1 = a OR 1" using or_1_even [OF a] by simp
  moreover have "cell_of a = a" using a by (intro bit_word_eqI) (auto simp: bit_cell_of intro: gr0I simp: Suc_le_eq)
  moreover have "cell_of (a OR 1) = a"
    using a by (intro bit_word_eqI) (auto simp: bit_cell_of bit_or_iff bit_1_iff Suc_le_eq intro: gr0I)
  moreover have "bit (a OR 1) 0" by (simp add: bit_or_iff bit_1_iff)
  ultimately show ?thesis using a by (simp add: getcell_def getword_def)
qed

section \<open>The counts as seen by the clients\<close>

lemma GCLOOKUP_frame: "GCLOOKUP p c s = Inr s' \<Longrightarrow> s' = s\<lparr>gc := gc s'\<rparr>"
  by (auto simp: GCLOOKUP_def GCLOOKUPV_def rbind_Inr_iff split: if_splits prod.splits)

lemma REC_GCLOOKUP_frame: "REC_GCLOOKUP p c s = Inr s' \<Longrightarrow> s' = s\<lparr>gc := gc s'\<rparr>"
  by (auto simp: REC_GCLOOKUP_def REC_GCLOOKUPV_def rbind_Inr_iff split: if_splits prod.splits)

definition counts_ready :: "vm \<Rightarrow> LispPTR \<Rightarrow> refcase \<Rightarrow> bool" where
  "counts_ready s p c \<longleftrightarrow> gc_inv (gc s) \<and> gc_ptr p \<and> two_links (gc s) \<and>
     rc_pre (byteswapped s) c (big_room (gc s)) (rcview (gc s) p)"

lemma GCLOOKUP_counts:
  assumes "counts_ready s p c" "c = ADDREF \<or> c = DELREF" "RefCntP s p"
  shows "\<exists>g'. GCLOOKUP p c s = Inr (s\<lparr>gc := g'\<rparr>) \<and> gc_inv g' \<and>
    rcview g' p = rc_step c (rcview (gc s) p) \<and>
    (\<forall>q. gc_ptr q \<and> key_of q \<noteq> key_of p \<longrightarrow> rcview g' q = rcview (gc s) q)"
proof -
  have r: "refines_rc_step (gc s) p c (htfind (byteswapped s) p c (gc s))"
    "refines_rc_step (gc s) p c (rec_htfind (byteswapped s) p c (gc s))"
    using assms htfind_refines_all rec_htfind_refines_all by (auto simp: counts_ready_def)
  show ?thesis
    using assms(3) r by (fastforce simp: GCLOOKUP_def GCLOOKUPV_def refines_rc_step_def)
qed

lemma GCLOOKUP_uncounted: "\<not> RefCntP s p \<Longrightarrow> GCLOOKUP p c s = Inr s"
  by (simp add: GCLOOKUP_def GCLOOKUPV_def)

end
