(* ===== verification/Array_Space.thy ===== *)
theory Array_Space
  imports Lisp_Memory
begin

text \<open>
  The free blocks of array space, \<open>src/gcfinal.c\<close> with \<open>inc/array.h\<close>: checking, deleting
  and linking blocks, merging them with their neighbours, and reclaiming a block. Definitions and
  the fields of a block; the free list is proved correct in \<open>Array_Rings\<close>.
\<close>

section \<open>Block headers\<close>

definition MAXARRAYBLOCKSIZE :: "16 word" where "MAXARRAYBLOCKSIZE = 65535"
definition MINARRAYBLOCKSIZE :: "16 word" where "MINARRAYBLOCKSIZE = 4"
definition MAXBUCKETINDEX :: nat where "MAXBUCKETINDEX = 30"
definition ARRAYBLOCKPASSWORD :: "32 word" where "ARRAYBLOCKPASSWORD = drop_bit 3 43690"
definition FREEARRAYFLAGWORD :: DLword where "FREEARRAYFLAGWORD = 43688"
definition FIRSTARRAYSEGMENT :: "32 word" where "FIRSTARRAYSEGMENT = 19"

lemmas array_const_defs [maiko_consts] =
  MAXARRAYBLOCKSIZE_def MINARRAYBLOCKSIZE_def MAXBUCKETINDEX_def ARRAYBLOCKPASSWORD_def
  FREEARRAYFLAGWORD_def FIRSTARRAYSEGMENT_def

text \<open>
  \<open>struct arrayblock\<close>: \<open>password\<close> (13 bits), \<open>gctype\<close> (2), \<open>inuse\<close> (1) and
  \<open>arlen\<close> (16) in the first cell, then \<open>fwd\<close> and \<open>bkwd\<close>.
\<close>

definition ab_password :: "vm \<Rightarrow> LispPTR \<Rightarrow> 32 word" where "ab_password s b = drop_bit 19 (rd s b)"
definition ab_gctype :: "vm \<Rightarrow> LispPTR \<Rightarrow> 32 word" where "ab_gctype s b = drop_bit 17 (rd s b) AND 3"
definition ab_inuse :: "vm \<Rightarrow> LispPTR \<Rightarrow> bool" where "ab_inuse s b = bit (rd s b) 16"
definition ab_arlen :: "vm \<Rightarrow> LispPTR \<Rightarrow> DLword" where "ab_arlen s b = lo_word (rd s b)"
definition ab_fwd :: "vm \<Rightarrow> LispPTR \<Rightarrow> LispPTR" where "ab_fwd s b = rd s (b + 2)"
definition ab_bkwd :: "vm \<Rightarrow> LispPTR \<Rightarrow> LispPTR" where "ab_bkwd s b = rd s (b + 4)"
definition set_fwd :: "LispPTR \<Rightarrow> LispPTR \<Rightarrow> vm \<Rightarrow> vm" where "set_fwd b v = wr (b + 2) v"
definition set_bkwd :: "LispPTR \<Rightarrow> LispPTR \<Rightarrow> vm \<Rightarrow> vm" where "set_bkwd b v = wr (b + 4) v"

definition Trailer :: "LispPTR \<Rightarrow> vm \<Rightarrow> LispPTR \<Rightarrow> LispPTR" where
  "Trailer l s b = l + 2 * (ucast (ab_arlen s b) - 1)"

fun il_step :: "nat \<Rightarrow> 32 word \<times> nat \<Rightarrow> 32 word \<times> nat" where
  "il_step sh (n, p) = (if n \<ge> 2 ^ sh then (drop_bit sh n, p + sh) else (n, p))"

definition integerlength :: "32 word \<Rightarrow> nat" where
  "integerlength n =
     (if n \<le> 2 then unat n
      else
        (let (n4, p4) = il_step 2 (il_step 4 (il_step 8 (il_step 16 (n, 0))));
             p5 = (if n4 \<ge> 2 then p4 + 1 else p4)
         in p5 + 1))"

definition BucketIndex :: "32 word \<Rightarrow> nat" where
  "BucketIndex n = (if integerlength n > MAXBUCKETINDEX then MAXBUCKETINDEX else integerlength n)"

definition FreeBlockChainN :: "vm \<Rightarrow> DLword \<Rightarrow> LispPTR" where
  "FreeBlockChainN s n =
     (POINTERMASK AND FreeBlockBuckets_word (arr s)) + 2 * of_nat (BucketIndex (ucast n))"

section \<open>checkarrayblock\<close>

text \<open>
  The checks of header and trailer; \<open>Inl msg\<close> is a failed check (the C code prints, calls
  \<open>error\<close> and answers \<open>T\<close>).
\<close>

definition check_header :: "vm \<Rightarrow> LispPTR \<Rightarrow> bool \<Rightarrow> string option" where
  "check_header s base free =
     (let trailer = Trailer base s base
      in if ab_password s base \<noteq> ARRAYBLOCKPASSWORD then Some ''ARRAYBLOCK password wrong''
         else if ab_inuse s base = free then Some ''ARRAYBLOCK INUSE bit set wrong''
         else if ab_password s trailer \<noteq> ARRAYBLOCKPASSWORD
           then Some ''ARRAYBLOCK trailer password wrong''
         else if ab_arlen s base \<noteq> ab_arlen s trailer
           then Some ''ARRAYBLOCK Header and Trailer length don't match''
         else if ab_inuse s trailer = free then Some ''ARRAYBLOCK Trailer INUSE bit set wrong''
         else None)"

text \<open>The call with \<open>onfreelist = NIL\<close>, which is also the recursive call.\<close>

definition checkarrayblock_off :: "LispPTR \<Rightarrow> bool \<Rightarrow> vm \<Rightarrow> bool \<times> vm" where
  "checkarrayblock_off base free s =
     (if Array_Block_Checking_word (arr s) \<noteq> NIL
      then case check_header s base free of
             Some msg \<Rightarrow> (True, log_error msg s) | None \<Rightarrow> (False, s)
      else (False, s))"

text \<open>
  The loop over the free list: \<open>rover\<close> and \<open>tmprover\<close> are two pointers to the same bucket
  cell, which the loop assigns.
\<close>

partial_function (option) check_rover ::
  "LispPTR \<Rightarrow> LispPTR \<Rightarrow> LispPTR \<Rightarrow> vm \<Rightarrow> (bool \<times> vm) option" where
  "check_rover rover tmprover base s =
     (if rd s rover AND POINTERMASK = base then Some (False, s)
      else
        (let s1 = snd (checkarrayblock_off (rd s rover AND POINTERMASK) True s);
             rbase = rd s1 rover AND POINTERMASK;
             s2 = wr rover (ab_fwd s1 rbase) s1
         in if rd s2 rover AND POINTERMASK \<noteq> rd s2 tmprover AND POINTERMASK
            then check_rover rover tmprover base s2
            else Some (False, s2)))"

declare check_rover.simps [code]

definition checkarrayblock :: "LispPTR \<Rightarrow> bool \<Rightarrow> bool \<Rightarrow> vm \<Rightarrow> (bool \<times> vm) res" where
  "checkarrayblock base free onfreelist s =
     (if Array_Block_Checking_word (arr s) \<noteq> NIL
      then case check_header s base free of
             Some msg \<Rightarrow> Inr (True, log_error msg s)
           | None \<Rightarrow>
               (if \<not> onfreelist \<or> ab_arlen s base < MINARRAYBLOCKSIZE then Inr (False, s)
                else if ab_fwd s (ab_bkwd s base) \<noteq> base \<or> ab_bkwd s (ab_fwd s base) \<noteq> base
                then Inr (True, log_error ''ARRAYBLOCK links fouled'' s)
                else
                  (let fbl = FreeBlockChainN s (ab_arlen s base)
                   in if rd s fbl AND POINTERMASK = NIL
                      then Inr (True, log_error ''Free Block's bucket empty'' s)
                      else of_loop (check_rover fbl fbl base s)))
      else Inr (False, s))"

section \<open>The free list\<close>

definition deleteblock :: "LispPTR \<Rightarrow> vm \<Rightarrow> vm" where
  "deleteblock base s =
     (if ab_arlen s base \<ge> MINARRAYBLOCKSIZE \<and> ab_fwd s base \<noteq> NIL
      then
        (let f = ab_fwd s base; b = ab_bkwd s base;
             fbl = FreeBlockChainN s (ab_arlen s base);
             freeblock = POINTERMASK AND rd s fbl
         in if base = f
            then if base = freeblock then wr fbl NIL s
                 else log_error ''GC error:deleting last list # FREEBLOCKLIST'' s
            else
              (let s1 = (if base = freeblock then wr fbl f s else s)
               in set_fwd b f (set_bkwd f b s1)))
      else s)"

definition linkblock :: "LispPTR \<Rightarrow> vm \<Rightarrow> (LispPTR \<times> vm) res" where
  "linkblock base s =
     (if FreeBlockBuckets_word (arr s) = NIL then Inr (base, s)
      else if ab_arlen s base < MINARRAYBLOCKSIZE
      then rbind (checkarrayblock base True False s) (\<lambda>(_, s). Inr (base, s))
      else
        (let fbl = FreeBlockChainN s (ab_arlen s base);
             bucket = POINTERMASK AND fbl;
             freeblock = POINTERMASK AND rd s bucket;
             s1 = (if freeblock = NIL then set_bkwd base base (set_fwd base base s)
                   else
                     (let s1 = set_fwd base freeblock s;
                          s2 = set_bkwd base (ab_bkwd s1 freeblock) s1;
                          s3 = set_fwd (ab_bkwd s2 freeblock) base s2
                      in set_bkwd freeblock base s3));
             s2 = wr bucket base s1
         in rbind (checkarrayblock base True True s2) (\<lambda>(_, s). Inr (base, s))))"

text \<open>\<open>abflags\<close> is the high word of the header cell; \<open>length\<close> is a DLword parameter.\<close>

definition makefreearrayblock :: "LispPTR \<Rightarrow> DLword \<Rightarrow> vm \<Rightarrow> LispPTR \<times> vm" where
  "makefreearrayblock block len s =
     (let s1 = wr block (join_words FREEARRAYFLAGWORD len) s;
          trailer = Trailer block s1 block
      in (block, wr trailer (join_words FREEARRAYFLAGWORD len) s1))"

text \<open>
  The arithmetic of \<open>arrayblockmerger\<close> when both blocks do not fit into one: all its
  variables are DLwords. The result is the length of the merged block, \<open>secondbite\<close> and the
  length of the left-over block, which starts \<open>secondbite\<close> cells behind \<open>nbase\<close>.
\<close>

definition merge_split :: "DLword \<Rightarrow> DLword \<Rightarrow> DLword \<Rightarrow> DLword \<times> DLword \<times> DLword" where
  "merge_split arlens0 narlens0 minblocksize =
     (let secondbite = MAXARRAYBLOCKSIZE - arlens0;
          arlens = MAXARRAYBLOCKSIZE;
          narlens = narlens0 - secondbite
      in if narlens < minblocksize
         then
           (let shaveback = narlens - minblocksize
            in (arlens + shaveback, secondbite + shaveback, minblocksize))
         else (arlens, secondbite, narlens))"

definition arrayblockmerger :: "LispPTR \<Rightarrow> LispPTR \<Rightarrow> vm \<Rightarrow> (LispPTR \<times> vm) res" where
  "arrayblockmerger base nbase s =
     (let arlens = ab_arlen s base; narlens = ab_arlen s nbase;
          secondbite = MAXARRAYBLOCKSIZE - arlens;
          s0 = (if base + 2 * ucast arlens \<noteq> nbase
                then log_error ''Attempt to merge non-adjacent blocks in array space'' s else s)
      in if narlens > secondbite
         then
           (let minblocksize = (if Hunk_word (arr s0) = ATOM_T then 2 + 64 else MINARRAYBLOCKSIZE);
                (arlens1, secondbite1, narlens1) = merge_split arlens narlens minblocksize;
                (leftover, s1) = makefreearrayblock (nbase + 2 * ucast secondbite1) narlens1 s0
            in rbind (linkblock leftover s1) (\<lambda>(_, s2).
               let (b, s3) = makefreearrayblock base arlens1 s2 in linkblock b s3))
         else
           (let (b, s1) = makefreearrayblock base (arlens + narlens) s0 in linkblock b s1))"

definition mergebackward :: "LispPTR \<Rightarrow> vm \<Rightarrow> (LispPTR \<times> vm) res" where
  "mergebackward base s =
     (if base = NIL then Inr (NIL, s)
      else
        (let ptrailer = base - 2
         in if ArrayMerging_word (arr s) = NIL \<or> base = ArraySpace_word (arr s) \<or>
               base = ArraySpace2_word (arr s) \<or> ab_inuse s ptrailer
            then linkblock base s
            else
              (let pbase = base - 2 * ucast (ab_arlen s ptrailer)
               in rbind (checkarrayblock pbase True False s) (\<lambda>(_, s1).
                  arrayblockmerger pbase base (deleteblock pbase s1)))))"

definition mergeforward :: "LispPTR \<Rightarrow> vm \<Rightarrow> (LispPTR \<times> vm) res" where
  "mergeforward base s =
     (if ArrayMerging_word (arr s) = NIL then Inr (NIL, s)
      else if base = NIL then Inr (NIL, s)
      else rbind (checkarrayblock base True True s) (\<lambda>(bad, s1).
        if bad then Inr (NIL, s1)
        else
          (let nbase = base + 2 * ucast (ab_arlen s1 base)
           in if nbase = ArrayFrLst_word (arr s1) \<or> nbase = ArrayFrLst2_word (arr s1)
              then Inr (NIL, s1)
              else
                (let nbinuse = ab_inuse s1 nbase
                 in rbind (checkarrayblock nbase (\<not> nbinuse) False s1) (\<lambda>(bad, s2).
                    if bad \<or> nbinuse then Inr (NIL, s2)
                    else arrayblockmerger base nbase (deleteblock base (deleteblock nbase s2)))))))"

section \<open>Page buffers\<close>

text \<open>
  \<open>struct buffer\<close>: \<open>vmempage\<close> at +2, \<open>noreference\<close> the top bit and \<open>sysnext\<close> the
  low 28 bits of the cell at +6.
\<close>

partial_function (option) findptrsbuffer_loop :: "vm \<Rightarrow> LispPTR \<Rightarrow> LispPTR \<Rightarrow> LispPTR option" where
  "findptrsbuffer_loop s ptr buf =
     (if buf = NIL then Some NIL
      else if ptr = rd s (buf + 2) then Some buf
      else findptrsbuffer_loop s ptr (rd s (buf + 6) AND POINTERMASK))"

declare findptrsbuffer_loop.simps [code]

definition findptrsbuffer :: "LispPTR \<Rightarrow> vm \<Rightarrow> LispPTR res" where
  "findptrsbuffer ptr s = of_loop (findptrsbuffer_loop s ptr (System_Buffer_List_word (arr s)))"

definition releasingvmempage :: "LispPTR \<Rightarrow> vm \<Rightarrow> (LispPTR \<times> vm) res" where
  "releasingvmempage ptr s =
     rbind (findptrsbuffer ptr s) (\<lambda>buffer.
       if buffer = NIL then Inr (NIL, s)
       else Inr (ATOM_T, wr (buffer + 6) (rd s (buffer + 6) OR 0x80000000) s))"

end
