(* ===== verification/Array_Rings.thy ===== *)
theory Array_Rings
  imports Array_Space
begin

text \<open>
  The free list of a bucket is a ring, linked both ways. The interface \<open>dlinks\<close> states what
  the two link fields of a record promise; its lemmas are about inserting before the head and
  deleting; the blocks of array space provide it, and \<open>linkblock\<close> and \<open>deleteblock\<close> of
  \<open>src/gcfinal.c\<close> are proved with it.
\<close>

section \<open>Two-way links\<close>

locale dlinks =
  fixes fwd bkwd :: "'s \<Rightarrow> 'a \<Rightarrow> 'a"
    and setf setb :: "'a \<Rightarrow> 'a \<Rightarrow> 's \<Rightarrow> 's"
    and apart :: "'a \<Rightarrow> 'a \<Rightarrow> bool"
  assumes fwd_setf: "fwd (setf a v s) a = v" "apart a b \<Longrightarrow> fwd (setf a v s) b = fwd s b"
    and bkwd_setf: "bkwd (setf a v s) a = bkwd s a" "apart a b \<Longrightarrow> bkwd (setf a v s) b = bkwd s b"
    and fwd_setb: "fwd (setb a v s) a = fwd s a" "apart a b \<Longrightarrow> fwd (setb a v s) b = fwd s b"
    and bkwd_setb: "bkwd (setb a v s) a = v" "apart a b \<Longrightarrow> bkwd (setb a v s) b = bkwd s b"
begin

lemmas link_simps = fwd_setf bkwd_setf fwd_setb bkwd_setb

fun dpath :: "'s \<Rightarrow> 'a list \<Rightarrow> bool" where
  "dpath s (x # y # zs) \<longleftrightarrow> fwd s x = y \<and> bkwd s y = x \<and> dpath s (y # zs)"
| "dpath s _ \<longleftrightarrow> True"

definition ring :: "'s \<Rightarrow> 'a list \<Rightarrow> bool" where
  "ring s bs \<longleftrightarrow> bs \<noteq> [] \<and> dpath s (bs @ [hd bs])"

definition spread :: "'a list \<Rightarrow> bool" where
  "spread bs \<longleftrightarrow> distinct bs \<and> (\<forall>a \<in> set bs. \<forall>b \<in> set bs. a \<noteq> b \<longrightarrow> apart a b)"

lemma dpath_append: "dpath s (xs @ y # ys) \<longleftrightarrow> dpath s (xs @ [y]) \<and> dpath s (y # ys)"
proof (induction xs)
  case (Cons x xs)
  then show ?case by (cases xs) auto
qed simp

lemma dpath_snoc: "dpath s (xs @ [y]) \<longleftrightarrow> xs = [] \<or> dpath s xs \<and> fwd s (last xs) = y \<and> bkwd s y = last xs"
proof (cases xs rule: rev_cases)
  case (snoc ys x)
  then show ?thesis using dpath_append [of s ys x "[y]"] by simp
qed simp

lemma dpath_frame:
  "\<forall>x \<in> set (butlast xs). fwd s' x = fwd s x \<Longrightarrow> \<forall>x \<in> set (tl xs). bkwd s' x = bkwd s x \<Longrightarrow>
   dpath s' xs = dpath s xs"
proof (induction xs rule: dpath.induct [case_names more none1 none2])
  case (more s x y zs)
  have "\<forall>x \<in> set (butlast (y # zs)). fwd s' x = fwd s x" "\<forall>x \<in> set (tl (y # zs)). bkwd s' x = bkwd s x"
    using more.prems by auto
  with more show ?case by auto
qed simp_all

lemma ring_iff:
  "ring s bs \<longleftrightarrow> bs \<noteq> [] \<and> dpath s bs \<and> fwd s (last bs) = hd bs \<and> bkwd s (hd bs) = last bs"
  by (auto simp: ring_def dpath_snoc)

lemma ring_rotate1: "ring s (x # xs) = ring s (xs @ [x])"
proof (cases xs)
  case (Cons y ys)
  have "ring s (x # xs) \<longleftrightarrow> fwd s x = y \<and> bkwd s y = x \<and> dpath s (y # ys @ [x])"
    by (simp add: ring_def Cons)
  moreover have "ring s (xs @ [x]) \<longleftrightarrow> dpath s (y # ys @ [x]) \<and> dpath s [x, y]"
    using dpath_append [of s "y # ys" x "[y]"] by (simp add: ring_def Cons)
  ultimately show ?thesis by auto
qed simp

lemma ring_rotate: "ring s (xs @ ys) = ring s (ys @ xs)"
proof (induction xs arbitrary: ys)
  case (Cons x xs)
  have "ring s ((x # xs) @ ys) = ring s (xs @ (ys @ [x]))" using ring_rotate1 [of s x "xs @ ys"] by simp
  also have "\<dots> = ring s ((ys @ [x]) @ xs)" by (rule Cons.IH)
  finally show ?case by simp
qed simp

lemma butlast_not_last: "distinct xs \<Longrightarrow> x \<in> set (butlast xs) \<Longrightarrow> x \<noteq> last xs \<and> x \<in> set xs"
  by (cases xs rule: rev_cases) auto

lemma tl_not_hd: "distinct xs \<Longrightarrow> x \<in> set (tl xs) \<Longrightarrow> x \<noteq> hd xs \<and> x \<in> set xs"
  by (cases xs) auto

text \<open>Closing a path into a ring.\<close>

lemma close_ring:
  assumes p: "dpath s zs" "zs \<noteq> []" and sp: "spread zs"
  shows "ring (setf (last zs) (hd zs) (setb (hd zs) (last zs) s)) zs"
proof -
  let ?s1 = "setb (hd zs) (last zs) s"
  let ?s = "setf (last zs) (hd zs) ?s1"
  have ap: "apart a b" if "a \<in> set zs" "b \<in> set zs" "a \<noteq> b" for a b using sp that by (auto simp: spread_def)
  have d: "distinct zs" using sp by (simp add: spread_def)
  have h: "hd zs \<in> set zs" "last zs \<in> set zs" using p(2) by auto
  have bk1: "bkwd ?s x = bkwd ?s1 x" if "x \<in> set zs" for x
    using ap [OF h(2) that] by (cases "x = last zs") (auto simp: link_simps)
  have fw1: "fwd ?s1 x = fwd s x" if "x \<in> set zs" for x
    using ap [OF h(1) that] by (cases "x = hd zs") (auto simp: link_simps)
  have "dpath ?s zs = dpath s zs"
  proof (rule dpath_frame; intro ballI)
    fix x assume x: "x \<in> set (butlast zs)"
    with butlast_not_last [OF d x] ap h show "fwd ?s x = fwd s x"
      by (metis fw1 link_simps(2))
  next
    fix x assume x: "x \<in> set (tl zs)"
    with tl_not_hd [OF d x] ap h show "bkwd ?s x = bkwd s x"
      by (metis bk1 link_simps(8))
  qed
  then show ?thesis using p bk1 [OF h(1)] by (simp add: ring_iff link_simps)
qed

text \<open>A new element in front of the head of a ring.\<close>

lemma ring_insert:
  assumes r: "ring s bs" and sp: "spread (b # bs)"
  defines "s' \<equiv> setb (hd bs) b (setf (bkwd s (hd bs)) b (setb b (bkwd s (hd bs)) (setf b (hd bs) s)))"
  shows "ring s' (b # bs)"
proof -
  have ne: "bs \<noteq> []" and dp: "dpath s bs" and l: "bkwd s (hd bs) = last bs" "fwd s (last bs) = hd bs"
    using r by (auto simp: ring_iff)
  have h: "hd bs \<in> set bs" "last bs \<in> set bs" using ne by auto
  have d: "distinct bs" "b \<notin> set bs" using sp by (auto simp: spread_def)
  have ap: "apart x y" if "x \<in> set (b # bs)" "y \<in> set (b # bs)" "x \<noteq> y" for x y
    using sp that by (auto simp: spread_def)
  have nb: "hd bs \<noteq> b" "last bs \<noteq> b" using h d by auto
  let ?s1 = "setf b (hd bs) s"
  let ?s2 = "setb b (last bs) ?s1"
  let ?s3 = "setf (last bs) b ?s2"
  have s': "s' = setb (hd bs) b ?s3" by (simp add: s'_def l)
  have f2: "fwd ?s2 x = (if x = b then hd bs else fwd s x)" if "x \<in> set (b # bs)" for x
    using ap [of b x] that by (auto simp: link_simps)
  have b2: "bkwd ?s2 x = (if x = b then last bs else bkwd s x)" if "x \<in> set (b # bs)" for x
    using ap [of b x] that by (auto simp: link_simps)
  have f3: "fwd ?s3 x = (if x = last bs then b else fwd ?s2 x)" if "x \<in> set (b # bs)" for x
    using ap [of "last bs" x] that h by (auto simp: link_simps)
  have b3: "bkwd ?s3 x = bkwd ?s2 x" if "x \<in> set (b # bs)" for x
    using ap [of "last bs" x] that h
    by (cases "x = last bs") (simp_all only: link_simps(3), simp add: link_simps(4))
  have f4: "fwd s' x = fwd ?s3 x" if "x \<in> set (b # bs)" for x
    using ap [of "hd bs" x] that h unfolding s' by (cases "x = hd bs") (simp_all add: link_simps)
  have b4: "bkwd s' x = (if x = hd bs then b else bkwd ?s3 x)" if "x \<in> set (b # bs)" for x
    using ap [of "hd bs" x] that h unfolding s' by (cases "x = hd bs") (simp_all add: link_simps)
  have "dpath s' bs = dpath s bs"
  proof (rule dpath_frame; intro ballI)
    fix x assume "x \<in> set (butlast bs)"
    from butlast_not_last [OF d(1) this] d(2) show "fwd s' x = fwd s x"
      by (simp add: f4 f3 f2) metis
  next
    fix x assume "x \<in> set (tl bs)"
    from tl_not_hd [OF d(1) this] d(2) show "bkwd s' x = bkwd s x"
      by (simp add: b4 b3 b2) metis
  qed
  moreover have "fwd s' b = hd bs" "bkwd s' (hd bs) = b" "fwd s' (last bs) = b" "bkwd s' b = last bs"
    using nb h by (simp_all add: f4 f3 f2 b4 b3 b2)
  ultimately show ?thesis using ne dp by (cases bs) (auto simp: ring_iff)
qed

text \<open>Deleting an element that is not the only one.\<close>

lemma ring_delete:
  assumes r: "ring s (xs @ b # ys)" and sp: "spread (xs @ b # ys)" and ne: "xs @ ys \<noteq> []"
  shows "ring (setf (bkwd s b) (fwd s b) (setb (fwd s b) (bkwd s b) s)) (xs @ ys)"
    and "fwd s b \<noteq> b" and "fwd s b = (if ys = [] then hd xs else hd ys)"
proof -
  let ?zs = "ys @ xs"
  have "ring s (b # ?zs)" using r ring_rotate [of s xs "b # ys"] by simp
  then have z: "dpath s ?zs" "fwd s b = hd ?zs" "bkwd s b = last ?zs"
    using ne by (cases ?zs; auto simp: ring_iff)+
  have sz: "spread ?zs" and bz: "b \<notin> set ?zs" using sp by (auto simp: spread_def)
  have nz: "?zs \<noteq> []" using ne by auto
  from close_ring [OF z(1) nz sz]
  have "ring (setf (bkwd s b) (fwd s b) (setb (fwd s b) (bkwd s b) s)) ?zs" by (simp only: z(2,3))
  then show "ring (setf (bkwd s b) (fwd s b) (setb (fwd s b) (bkwd s b) s)) (xs @ ys)"
    using ring_rotate by blast
  show "fwd s b \<noteq> b" using z(2) nz bz by (metis hd_in_set)
  show "fwd s b = (if ys = [] then hd xs else hd ys)" using z(2) by simp
qed

lemma ring_single: "ring s [b] \<longleftrightarrow> fwd s b = b \<and> bkwd s b = b"
  by (auto simp: ring_iff)

lemma ring_singleton_fwd: "ring s (xs @ b # ys) \<Longrightarrow> xs @ ys = [] \<Longrightarrow> fwd s b = b"
  by (simp add: ring_single)

end

section \<open>Blocks are linked both ways\<close>

definition blocks_apart :: "LispPTR \<Rightarrow> LispPTR \<Rightarrow> bool" where
  "blocks_apart a b \<longleftrightarrow> a + 2 \<noteq> b + 2 \<and> a + 2 \<noteq> b + 4 \<and> a + 4 \<noteq> b + 2"

lemma rd_wr: "rd (wr a v s) b = (if b = a then v else rd s b)"
  by (simp add: rd_def wr_def getcell_def putcell_def)

lemma wr_arr [simp]: "arr (wr a v s) = arr s"
  by (simp add: wr_def)

interpretation blocks: dlinks ab_fwd ab_bkwd set_fwd set_bkwd blocks_apart
proof
  have off: "a + 2 \<noteq> a + (4 :: 32 word)" for a by simp
  show "ab_fwd (set_fwd a v s) a = v" "ab_bkwd (set_fwd a v s) a = ab_bkwd s a"
    "ab_fwd (set_bkwd a v s) a = ab_fwd s a" "ab_bkwd (set_bkwd a v s) a = v" for a v s
    by (simp_all add: ab_fwd_def ab_bkwd_def set_fwd_def set_bkwd_def rd_wr)
  show "blocks_apart a b \<Longrightarrow> ab_fwd (set_fwd a v s) b = ab_fwd s b"
    "blocks_apart a b \<Longrightarrow> ab_bkwd (set_fwd a v s) b = ab_bkwd s b"
    "blocks_apart a b \<Longrightarrow> ab_fwd (set_bkwd a v s) b = ab_fwd s b"
    "blocks_apart a b \<Longrightarrow> ab_bkwd (set_bkwd a v s) b = ab_bkwd s b" for a b v s
    by (auto simp: blocks_apart_def ab_fwd_def ab_bkwd_def set_fwd_def set_bkwd_def rd_wr)
qed

section \<open>The bucket and its ring\<close>

text \<open>
  The free list of the bucket cell \<open>fbl\<close>: empty, or a ring whose head the cell holds.
  \<open>layout\<close> says that no two of the cells involved overlap.
\<close>

definition free_list :: "vm \<Rightarrow> LispPTR \<Rightarrow> LispPTR list \<Rightarrow> bool" where
  "free_list s fbl bs \<longleftrightarrow>
     rd s fbl AND POINTERMASK = (if bs = [] then NIL else hd bs) \<and> (bs = [] \<or> blocks.ring s bs)"

definition link_cells :: "LispPTR \<Rightarrow> LispPTR list \<Rightarrow> LispPTR set" where
  "link_cells fbl bs = {fbl} \<union> (\<lambda>b. b + 2) ` set bs \<union> (\<lambda>b. b + 4) ` set bs"

definition layout :: "LispPTR \<Rightarrow> LispPTR list \<Rightarrow> bool" where
  "layout fbl bs \<longleftrightarrow> blocks.spread bs \<and> NIL \<notin> set bs \<and> set bs \<inter> link_cells fbl bs = {} \<and>
     fbl AND POINTERMASK = fbl \<and> (\<forall>b \<in> set bs. b AND POINTERMASK = b \<and> fbl \<noteq> b + 2 \<and> fbl \<noteq> b + 4)"

lemma in_set_tlD: "x \<in> set (tl xs) \<Longrightarrow> x \<in> set xs"
  by (cases xs) auto

lemma ring_same:
  "\<forall>b \<in> set bs. ab_fwd s' b = ab_fwd s b \<and> ab_bkwd s' b = ab_bkwd s b \<Longrightarrow> blocks.ring s' bs = blocks.ring s bs"
proof -
  assume e: "\<forall>b \<in> set bs. ab_fwd s' b = ab_fwd s b \<and> ab_bkwd s' b = ab_bkwd s b"
  have "blocks.dpath s' bs = blocks.dpath s bs"
    by (rule blocks.dpath_frame) (use e in \<open>auto dest: in_set_butlastD in_set_tlD\<close>)
  then show ?thesis using e by (cases "bs = []") (simp_all add: blocks.ring_iff)
qed

lemma ring_wr:
  "\<forall>b \<in> set bs. a \<noteq> b + 2 \<and> a \<noteq> b + 4 \<Longrightarrow> blocks.ring (wr a v s) bs = blocks.ring s bs"
  by (rule ring_same) (auto simp: ab_fwd_def ab_bkwd_def rd_wr)

lemma rd_set_links [simp]:
  "rd (set_fwd b v s) a = (if a = b + 2 then v else rd s a)"
  "rd (set_bkwd b v s) a = (if a = b + 4 then v else rd s a)"
  "arr (set_fwd b v s) = arr s" "arr (set_bkwd b v s) = arr s"
  by (simp_all add: set_fwd_def set_bkwd_def rd_wr)

lemma log_error_rd [simp]: "rd (log_error msg s) a = rd s a" "arr (log_error msg s) = arr s"
  by (simp_all add: log_error_def rd_def)

lemma log_error_ring [simp]: "blocks.ring (log_error msg s) bs = blocks.ring s bs"
  by (rule ring_same) (simp add: ab_fwd_def ab_bkwd_def)

lemma FreeBlockChainN_arr: "arr s' = arr s \<Longrightarrow> FreeBlockChainN s' n = FreeBlockChainN s n"
  by (simp add: FreeBlockChainN_def)

text \<open>The final check of \<open>linkblock\<close>: the block is the head of its list.\<close>

lemma check_head:
  assumes "rd s (FreeBlockChainN s (ab_arlen s base)) AND POINTERMASK = base" "base \<noteq> NIL"
  shows "\<exists>r s'. checkarrayblock base True True s = Inr (r, s') \<and> (s' = s \<or> (\<exists>msg. s' = log_error msg s))"
  using assms
  by (auto simp: checkarrayblock_def check_rover.simps Let_def of_loop_def split: option.splits)

lemma linkblock_list:
  assumes buckets: "FreeBlockBuckets_word (arr s) \<noteq> NIL"
    and len: "\<not> ab_arlen s base < MINARRAYBLOCKSIZE" and fbl: "fbl = FreeBlockChainN s (ab_arlen s base)"
    and lay: "layout fbl (base # bs)" and fl: "free_list s fbl bs"
  shows "\<exists>s'. linkblock base s = Inr (base, s') \<and> free_list s' fbl (base # bs) \<and> arr s' = arr s \<and>
    (\<forall>a. a \<notin> link_cells fbl (base # bs) \<longrightarrow> rd s' a = rd s a)"
proof -
  let ?free = "POINTERMASK AND rd s fbl"
  define s1 where "s1 = (if ?free = NIL then set_bkwd base base (set_fwd base base s)
     else (let s1 = set_fwd base ?free s; s2 = set_bkwd base (ab_bkwd s1 ?free) s1;
              s3 = set_fwd (ab_bkwd s2 ?free) base s2 in set_bkwd ?free base s3))"
  define s2 where "s2 = wr fbl base s1"
  have fb: "POINTERMASK AND fbl = fbl" using lay by (simp add: layout_def and.commute)
  have hd: "?free = (if bs = [] then NIL else hd bs)" using fl by (simp add: free_list_def and.commute)
  have sp: "blocks.spread (base # bs)" and nn: "base \<noteq> NIL" "NIL \<notin> set bs" and bp: "base AND POINTERMASK = base"
    using lay by (auto simp: layout_def)
  have ap: "blocks_apart x y" if "x \<in> set (base # bs)" "y \<in> set (base # bs)" "x \<noteq> y" for x y
    using sp that by (auto simp: blocks.spread_def)
  have ring1: "blocks.ring s1 (base # bs) \<and> arr s1 = arr s \<and>
      (\<forall>a. a \<notin> link_cells fbl (base # bs) \<longrightarrow> rd s1 a = rd s a)"
  proof (cases "bs = []")
    case True
    then have s1: "s1 = set_bkwd base base (set_fwd base base s)" using hd by (simp add: s1_def)
    show ?thesis using True unfolding s1
      by (auto simp: blocks.ring_single blocks.link_simps link_cells_def)
  next
    case False
    then have r: "blocks.ring s bs" using fl by (simp add: free_list_def)
    have h: "?free = hd bs" "hd bs \<noteq> NIL" "hd bs \<in> set bs"
      using hd False nn(2) hd_in_set [OF False] by (simp_all, metis)
    have bk: "ab_bkwd s (hd bs) = last bs" "last bs \<in> set bs" using r False by (auto simp: blocks.ring_iff)
    have hb: "hd bs \<noteq> base" using sp h by (auto simp: blocks.spread_def)
    then have b1: "ab_bkwd (set_fwd base (hd bs) s) (hd bs) = ab_bkwd s (hd bs)"
      "ab_bkwd (set_bkwd base (ab_bkwd s (hd bs)) (set_fwd base (hd bs) s)) (hd bs) = ab_bkwd s (hd bs)"
      using ap [of base "hd bs"] h by (simp_all add: blocks.link_simps)
    have s1: "s1 = set_bkwd (hd bs) base (set_fwd (ab_bkwd s (hd bs)) base
        (set_bkwd base (ab_bkwd s (hd bs)) (set_fwd base (hd bs) s)))"
      using h by (simp add: s1_def Let_def b1)
    show ?thesis using blocks.ring_insert [OF r sp] h bk unfolding s1
      by (auto simp: link_cells_def)
  qed
  have s2: "blocks.ring s2 (base # bs)" "arr s2 = arr s" "rd s2 fbl = base"
      "\<forall>a. a \<notin> link_cells fbl (base # bs) \<longrightarrow> rd s2 a = rd s a"
    unfolding s2_def using ring1 lay ring_wr [of "base # bs" fbl base s1]
    by (auto simp: rd_wr layout_def link_cells_def)
  have "ab_arlen s2 base = ab_arlen s base"
    using s2(4) lay by (auto simp: ab_arlen_def layout_def)
  then have "FreeBlockChainN s2 (ab_arlen s2 base) = fbl"
    using fbl FreeBlockChainN_arr [OF s2(2)] by simp
  then obtain r s3 where c: "checkarrayblock base True True s2 = Inr (r, s3)"
      "s3 = s2 \<or> (\<exists>msg. s3 = log_error msg s2)"
    using check_head [of s2 base] s2(3) nn bp by auto
  have "linkblock base s = rbind (checkarrayblock base True True s2) (\<lambda>(_, s). Inr (base, s))"
    unfolding s2_def s1_def using buckets len
    by (cases "?free = NIL") (simp_all add: linkblock_def fbl [symmetric] Let_def fb)
  then have "linkblock base s = Inr (base, s3)" by (simp add: c(1))
  moreover have "free_list s3 fbl (base # bs)" "arr s3 = arr s"
    "\<forall>a. a \<notin> link_cells fbl (base # bs) \<longrightarrow> rd s3 a = rd s a"
    using c(2) s2 bp by (auto simp: free_list_def)
  ultimately show ?thesis by blast
qed

lemma deleteblock_list:
  assumes len: "\<not> ab_arlen s base < MINARRAYBLOCKSIZE" and fbl: "fbl = FreeBlockChainN s (ab_arlen s base)"
    and lay: "layout fbl (xs @ base # ys)" and fl: "free_list s fbl (xs @ base # ys)"
  shows "free_list (deleteblock base s) fbl (xs @ ys) \<and> arr (deleteblock base s) = arr s \<and>
    (\<forall>a. a \<notin> link_cells fbl (xs @ base # ys) \<longrightarrow> rd (deleteblock base s) a = rd s a)"
proof -
  let ?bs = "xs @ base # ys"
  have r: "blocks.ring s ?bs" and hd: "POINTERMASK AND rd s fbl = hd ?bs"
    using fl by (simp_all add: free_list_def and.commute)
  have sp: "blocks.spread ?bs" and nn: "NIL \<notin> set ?bs" using lay by (auto simp: layout_def)
  have d: "base \<notin> set xs" "base \<notin> set ys" "distinct ?bs" using sp by (auto simp: blocks.spread_def)
  show ?thesis
  proof (cases "xs @ ys = []")
    case True
    have f: "ab_fwd s base = base" by (rule blocks.ring_singleton_fwd [OF r True])
    then have "deleteblock base s = wr fbl NIL s"
      using True len nn hd by (simp add: deleteblock_def Let_def fbl [symmetric])
    then show ?thesis using True by (simp add: free_list_def rd_wr link_cells_def NIL_def)
  next
    case False
    note dl = blocks.ring_delete [OF r sp False]
    let ?f = "ab_fwd s base" and ?b = "ab_bkwd s base"
    define s1 where "s1 = (if base = hd ?bs then wr fbl ?f s else s)"
    have fin: "?f \<in> set (xs @ ys)" using dl(3) False by (cases ys) auto
    have bin: "?b \<in> set (xs @ ys)"
    proof -
      have "blocks.ring s (base # ys @ xs)" using r blocks.ring_rotate [of s xs "base # ys"] by simp
      then have "?b = last (base # ys @ xs)" by (simp add: blocks.ring_iff)
      then have "?b = last (ys @ xs)" using False by auto
      then show ?thesis using False last_in_set [of "ys @ xs"] by auto
    qed
    have nf: "?f \<noteq> NIL" using fin nn by auto
    have ap: "\<forall>b \<in> set ?bs. fbl \<noteq> b + 2 \<and> fbl \<noteq> b + 4" using lay by (simp add: layout_def)
    have D: "deleteblock base s = set_fwd ?b ?f (set_bkwd ?f ?b s1)"
      using len nf dl(2) hd by (simp add: deleteblock_def Let_def fbl [symmetric] s1_def)
    have e: "ab_fwd s1 b = ab_fwd s b \<and> ab_bkwd s1 b = ab_bkwd s b" if "b \<in> set ?bs" for b
      using ap that by (auto simp: s1_def ab_fwd_def ab_bkwd_def rd_wr)
    have "blocks.ring s1 ?bs" using r ring_same [of ?bs s1 s] e by simp
    from blocks.ring_delete(1) [OF this sp False] have "blocks.ring (deleteblock base s) (xs @ ys)"
      using e [of base] by (simp add: D)
    moreover have "rd (deleteblock base s) fbl AND POINTERMASK = hd (xs @ ys)"
    proof -
      have "rd (deleteblock base s) fbl = rd s1 fbl" using ap fin bin by (auto simp: D)
      moreover have "?f AND POINTERMASK = ?f" using fin lay by (auto simp: layout_def)
      moreover have "base = hd ?bs \<longleftrightarrow> xs = []" using d(1) by (cases xs) auto
      ultimately show ?thesis using dl(3) hd False by (auto simp: s1_def rd_wr and.commute hd_append)
    qed
    ultimately show ?thesis using False fin bin
      by (auto simp: free_list_def D s1_def rd_wr link_cells_def)
  qed
qed

section \<open>Properties\<close>

text \<open>A state with an empty memory, to evaluate on.\<close>

definition vm0 :: vm where
  "vm0 = \<lparr>mem = (\<lambda>_. 0), gc = gctab0, byteswapped = False, err_log = [],
     arr = \<lparr>FreeBlockBuckets_word = 0x300000, ArrayMerging_word = ATOM_T, ArraySpace_word = 0x2E0000,
       ArraySpace2_word = NIL, ArrayFrLst_word = NIL, ArrayFrLst2_word = NIL, Hunk_word = NIL,
       Array_Block_Checking_word = NIL, System_Buffer_List_word = NIL,
       Closure_Cache_Enabled_word = NIL, Closure_Cache_word = NIL,
       Deleted_Implicit_Hash_Slot_word = NIL\<rparr>,
     sto = \<lparr>MDS_free_page_word = NIL, Next_MDSpage_word = 0x8000, Next_Array_word = 0x3000,
       STORAGEFULLSTATE_word = NIL, STORAGEFULL_word = NIL, LeastMDSPage_word = 0x7000,
       SecondMDSPage_word = NIL, SecondArrayPage_word = NIL, SYSTEMCACHEVARS_word = NIL,
       MACHINETYPE_word = S_POSITIVE OR 3, LASTVMEMFILEPAGE_word = 0x10000, VMEM_FULL_STATE_word = NIL,
       PENDINGINTERRUPT_word = NIL, int_storagefull = False, int_vmemfull = False,
       dl24bitaddressable = 0, fullspaceused = 0, if_key = 0x15E3, fptovpstart = 0,
       nactivepages = 1, dllastvmempage = 0x10000\<rparr>,
     oplength = [], Irq_Stk_End = 1, Scratch_CSTK = NIL\<rparr>"

text \<open>
  C9. \<open>linkblock\<close> puts a free block in front of the ring of its bucket: the list gets the
  block as its new head, the ring stays linked in both directions, and nothing but the link
  fields and the bucket cell changes.
\<close>

theorem linkblock_adds:
  assumes "FreeBlockBuckets_word (arr s) \<noteq> NIL" "\<not> ab_arlen s base < MINARRAYBLOCKSIZE"
    and "layout (FreeBlockChainN s (ab_arlen s base)) (base # bs)"
    and "free_list s (FreeBlockChainN s (ab_arlen s base)) bs"
  shows "\<exists>s'. linkblock base s = Inr (base, s') \<and>
    free_list s' (FreeBlockChainN s (ab_arlen s base)) (base # bs) \<and>
    (\<forall>a. a \<notin> link_cells (FreeBlockChainN s (ab_arlen s base)) (base # bs) \<longrightarrow> rd s' a = rd s a)"
  using linkblock_list [OF assms(1,2) refl assms(3,4)] by blast

definition vm_block :: vm where
  "vm_block = vm0\<lparr>mem := (mem vm0)(0x300100 := 0xAAA80008)\<rparr>"

lemma vm_block_facts:
  "FreeBlockBuckets_word (arr vm_block) \<noteq> NIL" "\<not> ab_arlen vm_block 0x300100 < MINARRAYBLOCKSIZE"
  "FreeBlockChainN vm_block (ab_arlen vm_block 0x300100) = 0x300008"
  "layout 0x300008 [0x300100]" "free_list vm_block 0x300008 []"
  by (simp_all add: vm_block_def vm0_def ab_arlen_def rd_def getcell_def lo_word_def
      FreeBlockChainN_def BucketIndex_def integerlength_def layout_def blocks.spread_def link_cells_def
      free_list_def maiko_consts)

lemma linkblock_adds_witness:
  "\<exists>s'. linkblock 0x300100 vm_block = Inr (0x300100, s') \<and> free_list s' 0x300008 [0x300100]"
  using linkblock_adds [of vm_block "0x300100" "[]"] vm_block_facts by auto

text \<open>
  C10. \<open>deleteblock\<close> takes a block out of the ring of its bucket, wherever it stands in it;
  the rest stays a ring in the same order and the bucket cell is corrected when the block was
  its head.
\<close>

theorem deleteblock_removes:
  assumes "\<not> ab_arlen s base < MINARRAYBLOCKSIZE"
    and "layout (FreeBlockChainN s (ab_arlen s base)) (xs @ base # ys)"
    and "free_list s (FreeBlockChainN s (ab_arlen s base)) (xs @ base # ys)"
  shows "free_list (deleteblock base s) (FreeBlockChainN s (ab_arlen s base)) (xs @ ys) \<and>
    (\<forall>a. a \<notin> link_cells (FreeBlockChainN s (ab_arlen s base)) (xs @ base # ys) \<longrightarrow>
       rd (deleteblock base s) a = rd s a)"
  using deleteblock_list [OF assms(1) refl assms(2,3)] by blast

definition vm_block1 :: vm where
  "vm_block1 = vm0\<lparr>mem := (mem vm0)(0x300100 := 0xAAA80008, 0x300102 := 0x300100, 0x300104 := 0x300100,
     0x300008 := 0x300100)\<rparr>"

lemma vm_block1_facts:
  "\<not> ab_arlen vm_block1 0x300100 < MINARRAYBLOCKSIZE"
  "FreeBlockChainN vm_block1 (ab_arlen vm_block1 0x300100) = 0x300008"
  "free_list vm_block1 0x300008 [0x300100]"
  by (simp_all add: vm_block1_def vm0_def ab_arlen_def rd_def getcell_def lo_word_def
      FreeBlockChainN_def BucketIndex_def integerlength_def free_list_def blocks.ring_single
      ab_fwd_def ab_bkwd_def maiko_consts)

lemma deleteblock_removes_witness: "free_list (deleteblock 0x300100 vm_block1) 0x300008 []"
  using deleteblock_removes [of vm_block1 "0x300100" "[]" "[]"] vm_block1_facts vm_block_facts(4)
  by simp

lemma drop_div: "unat (drop_bit k (n :: 32 word)) = unat n div 2 ^ k"
  unfolding unat_drop_bit_eq by (simp add: drop_bit_eq_div)

lemma unat_pow2_32: "k < 32 \<Longrightarrow> unat (2 ^ k :: 32 word) = 2 ^ k"
proof -
  assume "k < 32"
  then have "(2 :: nat) ^ k < 2 ^ 32" by (intro power_strict_increasing) simp_all
  then show ?thesis using unat_of_nat [of "2 ^ k", where 'a = 32] by simp
qed

lemma il_step_inv:
  assumes "il_step sh (n, p) = (n', p')" "unat n = m div 2 ^ p" "0 < unat n" "unat n < 2 ^ (sh + sh)" "sh < 32"
  shows "unat n' = m div 2 ^ p' \<and> 0 < unat n' \<and> unat n' < 2 ^ sh"
proof (cases "n \<ge> 2 ^ sh")
  case True
  have u: "unat (2 ^ sh :: 32 word) = 2 ^ sh" by (rule unat_pow2_32 [OF assms(5)])
  have "unat n div 2 ^ sh < 2 ^ sh"
    using assms(4) by (simp add: power_add less_mult_imp_div_less)
  moreover have "0 < unat n div 2 ^ sh"
    using True u by (simp add: word_le_nat_alt div_greater_zero_iff)
  moreover have "m div 2 ^ p div 2 ^ sh = m div 2 ^ (p + sh)"
    by (simp add: div_mult2_eq power_add)
  ultimately show ?thesis using assms(1,2) True by (auto simp: drop_div)
next
  case False
  have u: "unat (2 ^ sh :: 32 word) = 2 ^ sh" by (rule unat_pow2_32 [OF assms(5)])
  with False assms(1-3) show ?thesis by (auto simp: word_le_nat_alt)
qed

text \<open>
  \<open>integerlength\<close> is the number of binary digits, so that a bucket holds the lengths
  between two powers of two.
\<close>

theorem integerlength_digits:
  assumes "n \<noteq> 0"
  shows "2 ^ (integerlength n - 1) \<le> unat n \<and> unat n < 2 ^ integerlength n"
proof (cases "n \<le> 2")
  case True
  then have "unat n \<le> 2" by (simp add: word_le_nat_alt)
  moreover have "unat n \<noteq> 0" using assms by (simp add: unat_eq_0)
  ultimately have "unat n = 1 \<or> unat n = 2" by linarith
  moreover have "integerlength n = unat n" using True by (simp add: integerlength_def)
  ultimately show ?thesis by auto
next
  case False
  obtain n1 p1 where 1: "il_step 16 (n, 0) = (n1, p1)" by fastforce
  obtain n2 p2 where 2: "il_step 8 (n1, p1) = (n2, p2)" by fastforce
  obtain n3 p3 where 3: "il_step 4 (n2, p2) = (n3, p3)" by fastforce
  obtain n4 p4 where 4: "il_step 2 (n3, p3) = (n4, p4)" by fastforce
  have nz: "0 < unat n" using assms unat_eq_0 [of n] by simp
  have i1: "unat n1 = unat n div 2 ^ p1 \<and> 0 < unat n1 \<and> unat n1 < 2 ^ 16"
    by (rule il_step_inv [OF 1]) (use nz unat_bound32 [of n] in simp_all)
  have i2: "unat n2 = unat n div 2 ^ p2 \<and> 0 < unat n2 \<and> unat n2 < 2 ^ 8"
    by (rule il_step_inv [OF 2]) (use i1 in simp_all)
  have i3: "unat n3 = unat n div 2 ^ p3 \<and> 0 < unat n3 \<and> unat n3 < 2 ^ 4"
    by (rule il_step_inv [OF 3]) (use i2 in simp_all)
  have i4: "unat n4 = unat n div 2 ^ p4 \<and> 0 < unat n4 \<and> unat n4 < 2 ^ 2"
    by (rule il_step_inv [OF 4]) (use i3 in simp_all)
  have e: "integerlength n = (if n4 \<ge> 2 then p4 + 1 else p4) + 1"
    using False by (simp add: integerlength_def 1 2 3 4 del: il_step.simps)
  let ?q = "unat n div 2 ^ p4"
  have lo: "?q * 2 ^ p4 \<le> unat n" by simp
  have hi: "unat n < (?q + 1) * 2 ^ p4" by (simp add: dividend_less_div_times)
  show ?thesis
  proof (cases "n4 \<ge> 2")
    case True
    then have q: "2 \<le> ?q" "?q + 1 \<le> 4" using i4 by (auto simp: word_le_nat_alt)
    note order.trans [OF mult_le_mono1 [OF q(1), of "2 ^ p4"] lo]
      order.strict_trans2 [OF hi mult_le_mono1 [OF q(2), of "2 ^ p4"]]
    then show ?thesis using True e by simp
  next
    case F: False
    then have "?q = 1" using i4 by (auto simp: word_le_nat_alt)
    then show ?thesis using lo hi F e by simp
  qed
qed

lemma integerlength_digits_witness: "2 ^ (integerlength 0x50 - 1) \<le> unat (0x50 :: 32 word)"
  using integerlength_digits [of "0x50"] by simp

lemma unat_le16: "unat (w :: 16 word) \<le> 65535"
proof -
  have "unat w < 2 ^ 16" using unsigned_less [of w] by simp
  then show ?thesis by simp
qed

text \<open>
  Splitting two blocks that do not fit into one: when the second block is at least of minimal
  size, the two new lengths add up to the old ones, the left-over block is at least of minimal
  size, and it starts exactly where the merged block ends.
\<close>

theorem merge_split_ok:
  assumes "narlens > MAXARRAYBLOCKSIZE - arlens" "narlens \<ge> minb"
    and "merge_split arlens narlens minb = (arlens', secondbite', narlens')"
  shows "unat arlens' + unat narlens' = unat arlens + unat narlens \<and> minb \<le> narlens' \<and>
    unat arlens + unat secondbite' = unat arlens'"
proof -
  let ?sb = "MAXARRAYBLOCKSIZE - arlens"
  have b16: "unat (w :: 16 word) \<le> 65535" for w by (rule unat_le16)
  have m: "unat MAXARRAYBLOCKSIZE = 65535" by (simp add: MAXARRAYBLOCKSIZE_def)
  have sb: "unat ?sb = 65535 - unat arlens"
    by (subst unat_sub) (simp_all add: m word_le_nat_alt b16)
  have n1: "unat (narlens - ?sb) = unat narlens - unat ?sb"
    using assms(1) by (subst unat_sub) (simp_all add: less_imp_le)
  have lt: "unat ?sb < unat narlens" using assms(1) by (simp add: word_less_nat_alt)
  show ?thesis
  proof (cases "narlens - ?sb < minb")
    case True
    let ?d = "minb - (narlens - ?sb)"
    have r: "arlens' = MAXARRAYBLOCKSIZE - ?d" "secondbite' = ?sb - ?d" "narlens' = minb"
      using assms(3) True by (auto simp: merge_split_def Let_def)
    have d: "unat ?d = unat minb - (unat narlens - unat ?sb)"
      using True n1 by (subst unat_sub) (simp_all add: less_imp_le)
    have le: "unat ?d \<le> unat ?sb" using d assms(2) lt by (simp add: word_le_nat_alt)
    have a: "unat arlens' = 65535 - unat ?d" unfolding r(1) using le b16 [of ?d]
      by (subst unat_sub) (simp_all add: m word_le_nat_alt)
    have s: "unat secondbite' = unat ?sb - unat ?d" unfolding r(2) using le
      by (subst unat_sub) (simp_all add: word_le_nat_alt)
    show ?thesis using a s r(3) d le sb lt b16 [of arlens] True n1
      by (auto simp: word_less_nat_alt add.commute)
  next
    case False
    have "merge_split arlens narlens minb = (MAXARRAYBLOCKSIZE, ?sb, narlens - ?sb)"
      using False by (simp add: merge_split_def Let_def)
    then have r: "arlens' = MAXARRAYBLOCKSIZE" "secondbite' = ?sb" "narlens' = narlens - ?sb"
      using assms(3) by (metis Pair_inject)+
    show ?thesis using False unfolding r using sb n1 m lt b16 [of arlens] by (simp add: not_less)
  qed
qed

lemma merge_split_ok_witness:
  "\<exists>a sb n. merge_split 65000 600 66 = (a, sb, n) \<and> unat a + unat n = 65600 \<and> 65000 + unat sb = unat a"
  using merge_split_ok [of 65000 600 66]
  by (simp add: merge_split_def MAXARRAYBLOCKSIZE_def)

text \<open>
  When the second block is below the minimal size, \<open>secondbite + shaveback\<close> is negative
  and wraps in the DLword: the left-over block is put far behind the two blocks instead of at
  their boundary. The case at hand: a block of maximal size followed by one of ten cells, while
  hunking is on (see the findings of the manifest).
\<close>

theorem merge_split_wraps:
  "\<exists>arlens' secondbite' narlens'. merge_split MAXARRAYBLOCKSIZE 10 66 = (arlens', secondbite', narlens') \<and>
     unat MAXARRAYBLOCKSIZE + unat secondbite' \<noteq> unat arlens' \<and>
     unat MAXARRAYBLOCKSIZE + 10 < unat MAXARRAYBLOCKSIZE + unat secondbite'"
  by (simp add: merge_split_def MAXARRAYBLOCKSIZE_def)

text \<open>
  A successful check of a block that is on the free list but not at its head moves the head:
  \<open>rover\<close> and \<open>tmprover\<close> point to the same bucket cell, so the loop stores the successor of the
  head into the bucket, finds the two equal and ends after one round.
\<close>

theorem check_moves_head:
  assumes "Array_Block_Checking_word (arr s) \<noteq> NIL" "check_header s base free = None"
    and "\<not> ab_arlen s base < MINARRAYBLOCKSIZE"
    and "ab_fwd s (ab_bkwd s base) = base" "ab_bkwd s (ab_fwd s base) = base"
    and "fbl = FreeBlockChainN s (ab_arlen s base)" "head = rd s fbl AND POINTERMASK"
    and "head \<noteq> NIL" "head \<noteq> base" "check_header s head True = None"
  shows "checkarrayblock base free True s = Inr (False, wr fbl (ab_fwd s head) s)"
  using assms
  by (simp add: checkarrayblock_def check_rover.simps Let_def checkarrayblock_off_def rd_wr)

definition vm_two :: vm where
  "vm_two = vm0\<lparr>mem := (mem vm0)(
       0x300100 := 0xAAA80008, 0x300102 := 0x300200, 0x300104 := 0x300200, 0x30010E := 0xAAA80008,
       0x300200 := 0xAAA80008, 0x300202 := 0x300100, 0x300204 := 0x300100, 0x30020E := 0xAAA80008,
       0x300008 := 0x300100), arr := (arr vm0)\<lparr>Array_Block_Checking_word := ATOM_T\<rparr>\<rparr>"

lemma check_moves_head_witness:
  "checkarrayblock 0x300200 True True vm_two = Inr (False, wr 0x300008 0x300200 vm_two)"
proof -
  have f: "FreeBlockChainN vm_two (ab_arlen vm_two 0x300200) = 0x300008"
    by (simp add: vm_two_def vm0_def FreeBlockChainN_def ab_arlen_def rd_def getcell_def lo_word_def
        BucketIndex_def integerlength_def maiko_consts)
  have c: "check_header vm_two 0x300200 True = None" "check_header vm_two 0x300100 True = None"
    by (simp_all add: vm_two_def vm0_def check_header_def Let_def Trailer_def ab_password_def ab_inuse_def
        ab_arlen_def rd_def getcell_def lo_word_def maiko_consts)
  have "checkarrayblock 0x300200 True True vm_two =
      Inr (False, wr 0x300008 (ab_fwd vm_two 0x300100) vm_two)"
    by (rule check_moves_head [OF _ c(1) _ _ _ f [symmetric] _ _ _ c(2)])
       (simp_all add: vm_two_def vm0_def ab_arlen_def ab_fwd_def ab_bkwd_def rd_def getcell_def
          lo_word_def maiko_consts)
  then show ?thesis by (simp add: vm_two_def vm0_def ab_fwd_def rd_def getcell_def)
qed

end
