(* ===== verification/Storage.thy ===== *)
theory Storage
  imports Array_Rings
begin

text \<open>
  Virtual pages and datatype cells: \<open>src/storage.c\<close>, \<open>src/allocmds.c\<close> and
  \<open>src/mkcell.c\<close>.

  The storage check calls \<open>cons\<close> (once, when it sets the storage state), \<open>cons\<close> allocates pages,
  and allocating a page runs the storage check. The check therefore takes the function to cons
  with as an argument, and the allocation takes the check; \<open>Conses\<close> closes the circle.
\<close>

section \<open>Constants\<close>

definition DLWORDSPER_PAGE :: nat where "DLWORDSPER_PAGE = 256"
definition MDSINCREMENT :: nat where "MDSINCREMENT = 512"
definition FPTOVP_OFFSET :: LispPTR where "FPTOVP_OFFSET = 0x20000"
definition DTD_OFFSET :: LispPTR where "DTD_OFFSET = 0x141000"
definition GUARDSTORAGEFULL :: int where "GUARDSTORAGEFULL = 128"
definition GUARD1STORAGEFULL :: int where "GUARD1STORAGEFULL = 64"
definition GUARDVMEMFULL :: "32 word" where "GUARDVMEMFULL = 500"
definition IFPVALID_KEY :: DLword where "IFPVALID_KEY = 5603"
definition PAGESPER_MDSUNIT :: "32 word" where "PAGESPER_MDSUNIT = 2"

lemmas storage_const_defs [maiko_consts] =
  DLWORDSPER_PAGE_def MDSINCREMENT_def FPTOVP_OFFSET_def DTD_OFFSET_def GUARDSTORAGEFULL_def
  GUARD1STORAGEFULL_def GUARDVMEMFULL_def IFPVALID_KEY_def PAGESPER_MDSUNIT_def

section \<open>The page map\<close>

definition GETFPTOVP :: "vm \<Rightarrow> 32 word \<Rightarrow> 32 word" where
  "GETFPTOVP s off = rd s (FPTOVP_OFFSET + 2 * off)"

definition PUTFPTOVP :: "32 word \<Rightarrow> 32 word \<Rightarrow> vm \<Rightarrow> vm" where
  "PUTFPTOVP off v = wr (FPTOVP_OFFSET + 2 * off) v"

definition upd_sto :: "(storage_words \<Rightarrow> storage_words) \<Rightarrow> vm \<Rightarrow> vm" where
  "upd_sto f s = s\<lparr>sto := f (sto s)\<rparr>"

text \<open>
  \<open>newpage\<close> enters a new virtual page in \<open>FPtoVP\<close>; when the next entry would start a new
  page of the table itself, a file page is made for that page first. \<open>dirty\<close> is the atom
  \<open>DIRTY\<close>, the result of \<open>MAKEATOM("DIRTY")\<close>.
\<close>

definition newpage_table :: "32 word \<Rightarrow> vm \<Rightarrow> vm" where
  "newpage_table vp s =
     (let nactive = nactivepages (sto s) + 1;
          s1 = upd_sto (\<lambda>w. w\<lparr>nactivepages := nactive\<rparr>) s
      in if nactive AND 127 = 0
         then
           (let vp_of_fp = drop_bit 8 (FPTOVP_OFFSET + 2 * nactive);
                fp_of_fptovp = ucast (fptovpstart (sto s1)) + (vp_of_fp - drop_bit 8 FPTOVP_OFFSET);
                s2 = PUTFPTOVP nactive (GETFPTOVP s1 fp_of_fptovp) s1;
                s3 = PUTFPTOVP fp_of_fptovp vp_of_fp s2;
                nactive2 = nactivepages (sto s3) + 1;
                s4 = upd_sto (\<lambda>w. w\<lparr>nactivepages := nactive2\<rparr>) s3
            in PUTFPTOVP nactive2 vp s4)
         else PUTFPTOVP nactive vp s1)"

definition newpage_full :: "LispPTR \<Rightarrow> vm \<Rightarrow> vm" where
  "newpage_full dirty s =
     (if nactivepages (sto s) > LASTVMEMFILEPAGE_word (sto s) - GUARDVMEMFULL
      then
        (let s1 = (if VMEM_FULL_STATE_word (sto s) = NIL
                   then upd_sto (\<lambda>w. w\<lparr>int_vmemfull := True, PENDINGINTERRUPT_word := ATOM_T\<rparr>) s else s);
             v = (if nactivepages (sto s1) < LASTVMEMFILEPAGE_word (sto s1) then S_POSITIVE
                  else if if_key (sto s1) = IFPVALID_KEY then ATOM_T else dirty)
         in upd_sto (\<lambda>w. w\<lparr>VMEM_FULL_STATE_word := v\<rparr>) s1)
      else s)"

definition newpage :: "LispPTR \<Rightarrow> LispPTR \<Rightarrow> vm \<Rightarrow> LispPTR \<times> vm" where
  "newpage dirty base s = (base, newpage_full dirty (newpage_table (drop_bit 8 base) s))"

definition init_storage :: "vm \<Rightarrow> vm" where
  "init_storage = upd_sto (\<lambda>w. w\<lparr>SecondMDSPage_word := dllastvmempage w - PAGESPER_MDSUNIT - 1\<rparr>)"

section \<open>Datatype pages\<close>

definition Make_MDSentry :: "32 word \<Rightarrow> DLword \<Rightarrow> vm \<Rightarrow> vm" where
  "Make_MDSentry page pattern s =
     s\<lparr>gc := (gc s)\<lparr>mds_typetbl := (mds_typetbl (gc s))(unat (drop_bit 1 page) := pattern)\<rparr>\<rparr>"

text \<open>The inner loop of \<open>initmdspage\<close>: chain the cells that fit below \<open>limit\<close>.\<close>

function init_run :: "nat \<Rightarrow> nat \<Rightarrow> nat \<Rightarrow> LispPTR \<Rightarrow> LispPTR \<Rightarrow> vm \<Rightarrow> LispPTR \<times> LispPTR \<times> vm" where
  "init_run siz limit used base prev s =
     (if 0 < siz \<and> used + siz \<le> limit
      then init_run siz limit (used + siz) (base + of_nat siz) base (wr base prev s)
      else (base, prev, s))"
  by pat_completeness auto
termination by (relation "measure (\<lambda>(siz, limit, used, _). limit - used)") auto

declare init_run.simps [simp del]

fun init_pages :: "nat \<Rightarrow> nat \<Rightarrow> nat \<Rightarrow> nat \<Rightarrow> LispPTR \<Rightarrow> LispPTR \<Rightarrow> vm \<Rightarrow> LispPTR \<times> vm" where
  "init_pages 0 siz limit remain base prev s = (prev, s)"
| "init_pages (Suc n) siz limit remain base prev s =
     (let (base1, prev1, s1) = init_run siz limit 0 base prev s
      in init_pages n siz limit remain (base1 + of_nat remain) prev1 s1)"

definition initmdspage :: "LispPTR \<Rightarrow> DLword \<Rightarrow> LispPTR \<Rightarrow> vm \<Rightarrow> (LispPTR \<times> vm) res" where
  "initmdspage base sz prev s =
     (let siz = unat sz
      in if siz = 0 then Inl (Fatal ''remainder by zero'')
         else
           (let remain_size = DLWORDSPER_PAGE mod siz
            in if remain_size \<noteq> 0 \<and> remain_size < siz div 2 \<and> siz < DLWORDSPER_PAGE
               then Inr (init_pages (MDSINCREMENT div DLWORDSPER_PAGE) siz DLWORDSPER_PAGE remain_size base prev s)
               else Inr (init_pages 1 siz MDSINCREMENT remain_size base prev s)))"

text \<open>\<open>chk\<close> is the storage check, \<open>checkfor_storagefull(NIL)\<close>.\<close>

definition alloc_mdspage :: "(vm \<Rightarrow> vm res) \<Rightarrow> LispPTR \<Rightarrow> DLword \<Rightarrow> vm \<Rightarrow> (LispPTR \<times> vm) res" where
  "alloc_mdspage chk dirty type s =
     (if LOLOC (MDS_free_page_word (sto s)) \<noteq> NIL
      then
        (let ptr = FromLPage (LOLOC (MDS_free_page_word (sto s)));
             next_page = LOLOC (rd s ptr);
             s1 = (if next_page \<noteq> 0 \<and> GetTypeNumber s (rd s ptr) \<noteq> TYPE_SMALLP
                   then log_error ''alloc_mdspage: Bad Free Page Link'' s
                   else upd_sto (\<lambda>w. w\<lparr>MDS_free_page_word := S_POSITIVE OR next_page\<rparr>) s)
         in Inr (ptr, Make_MDSentry (LPage ptr) type s1))
      else rbind (chk s) (\<lambda>s1.
        (let ptr = FromLPage (Next_MDSpage_word (sto s1));
             s2 = upd_sto (\<lambda>w. w\<lparr>Next_MDSpage_word := LPage (ptr - 512)\<rparr>) s1;
             (p1, s3) = newpage dirty ptr s2;
             (p2, s4) = newpage dirty (p1 + 256) s3
         in Inr (ptr, Make_MDSentry (LPage ptr) type s4))))"

section \<open>Type descriptors and new cells\<close>

text \<open>
  \<open>struct dtd\<close>: \<open>dtd_name\<close> (28 bits) at 0, the words \<open>dtd_cnt0\<close> and \<open>dtd_size\<close> at 2
  and 3, then the cells \<open>dtd_free\<close> (4), \<open>dtd_ptrs\<close> (10), \<open>dtd_oldcnt\<close> (12),
  \<open>dtd_nextpage\<close> (14), and the words \<open>dtd_typeentry\<close> and \<open>dtd_supertype\<close> at 16 and 17.
\<close>

definition GetDTD :: "DLword \<Rightarrow> LispPTR" where
  "GetDTD typ = DTD_OFFSET + push_bit 4 (ucast typ) + push_bit 1 (ucast typ)"

definition dtd_name :: "vm \<Rightarrow> LispPTR \<Rightarrow> 32 word" where "dtd_name s d = rd s d AND POINTERMASK"
definition dtd_size :: "vm \<Rightarrow> LispPTR \<Rightarrow> DLword" where "dtd_size s d = lo_word (rd s (d + 2))"
definition dtd_cnt0 :: "vm \<Rightarrow> LispPTR \<Rightarrow> DLword" where "dtd_cnt0 s d = hi_word (rd s (d + 2))"
definition dtd_free :: "vm \<Rightarrow> LispPTR \<Rightarrow> LispPTR" where "dtd_free s d = rd s (d + 4)"
definition dtd_ptrs :: "vm \<Rightarrow> LispPTR \<Rightarrow> LispPTR" where "dtd_ptrs s d = rd s (d + 10)"
definition dtd_oldcnt :: "vm \<Rightarrow> LispPTR \<Rightarrow> 32 word" where "dtd_oldcnt s d = rd s (d + 12)"
definition dtd_nextpage :: "vm \<Rightarrow> LispPTR \<Rightarrow> 32 word" where "dtd_nextpage s d = rd s (d + 14)"
definition dtd_typeentry :: "vm \<Rightarrow> LispPTR \<Rightarrow> DLword" where "dtd_typeentry s d = hi_word (rd s (d + 16))"
definition dtd_supertype :: "vm \<Rightarrow> LispPTR \<Rightarrow> DLword" where "dtd_supertype s d = lo_word (rd s (d + 16))"

definition set_dtd_free :: "LispPTR \<Rightarrow> LispPTR \<Rightarrow> vm \<Rightarrow> vm" where "set_dtd_free d v = wr (d + 4) v"
definition set_dtd_nextpage :: "LispPTR \<Rightarrow> 32 word \<Rightarrow> vm \<Rightarrow> vm" where "set_dtd_nextpage d v = wr (d + 14) v"
definition incr_oldcnt :: "LispPTR \<Rightarrow> vm \<Rightarrow> vm" where
  "incr_oldcnt d s = wr (d + 12) (rd s (d + 12) + 1) s"
definition incr_cnt0 :: "LispPTR \<Rightarrow> vm \<Rightarrow> vm" where
  "incr_cnt0 d s = wr (d + 2) (join_words (dtd_cnt0 s d + 1) (dtd_size s d)) s"

fun clear_words :: "nat \<Rightarrow> LispPTR \<Rightarrow> vm \<Rightarrow> vm" where
  "clear_words 0 a s = s"
| "clear_words (Suc n) a s = clear_words n (a + 1) (s\<lparr>mem := putword a 0 (mem s)\<rparr>)"

text \<open>
  Take the first cell of the free chain of a type: the part of \<open>N_OP_createcell\<close> and
  \<open>createcell68k\<close> behind the label \<open>retry\<close> when the chain is not empty. \<open>badmask\<close> is
  the mask of the check of the new chain head, which differs between the two functions.
\<close>

definition take_cell :: "32 word \<Rightarrow> LispPTR \<Rightarrow> LispPTR \<Rightarrow> vm \<Rightarrow> (LispPTR \<times> vm) res" where
  "take_cell badmask d newcell s =
     (let s1 = (if rd s newcell = 917505 then log_error ''N_OP_createcell E0001 error'' s else s);
          s2 = set_dtd_free d (rd s1 newcell AND POINTERMASK) s1;
          s3 = (if dtd_free s2 d AND badmask \<noteq> 0 then log_error ''bad entry on free chain.'' s2 else s2);
          s4 = incr_oldcnt d s3;
          s5 = clear_words (unat (dtd_size s4 d)) newcell s4
      in rbind (GCLOOKUP newcell DELREF s5) (\<lambda>s6. Inr (newcell, s6)))"

text \<open>
  The loop at \<open>retry\<close>: when the chain is empty, a page is allocated and divided. A page without a
  single cell (a size above \<open>MDSINCREMENT\<close>) leaves the chain empty and the loop never ends.
\<close>

definition retry_cell ::
  "(vm \<Rightarrow> vm res) \<Rightarrow> LispPTR \<Rightarrow> 32 word \<Rightarrow> LispPTR \<Rightarrow> vm \<Rightarrow> (LispPTR \<times> vm) res" where
  "retry_cell chk dirty badmask d s =
     (let newcell = dtd_free s d AND POINTERMASK
      in if newcell \<noteq> NIL then take_cell badmask d newcell s
         else rbind (alloc_mdspage chk dirty (dtd_typeentry s d) s) (\<lambda>(page, s1).
              rbind (initmdspage page (dtd_size s1 d) NIL s1) (\<lambda>(prev, s2).
              let s3 = set_dtd_free d prev s2;
                  s4 = (if dtd_free s3 d AND 0x8000000 \<noteq> 0
                        then log_error ''bad entry on free chain.'' s3 else s3);
                  newcell = dtd_free s4 d AND POINTERMASK
              in if newcell \<noteq> NIL then take_cell badmask d newcell s4 else Inl Diverges)))"

definition N_OP_createcell :: "(vm \<Rightarrow> vm res) \<Rightarrow> LispPTR \<Rightarrow> LispPTR \<Rightarrow> vm \<Rightarrow> (LispPTR \<times> vm) res" where
  "N_OP_createcell chk dirty tos s =
     (if tos AND SEGMASK \<noteq> S_POSITIVE then Inl (Ufn tos)
      else
        (let d = GetDTD (ucast (tos AND 0xFFFF))
         in if dtd_size s d = 0 then Inl (Ufn tos)
            else retry_cell chk dirty 0x8000001 d s))"

definition createcell68k :: "(vm \<Rightarrow> vm res) \<Rightarrow> LispPTR \<Rightarrow> DLword \<Rightarrow> vm \<Rightarrow> (LispPTR \<times> vm) res" where
  "createcell68k chk dirty type s =
     (let d = GetDTD type
      in if dtd_size s d = 0 then Inl (Fatal ''createcell : Attempt to create a cell not declared yet'')
         else retry_cell chk dirty 0x8000000 d s)"

section \<open>The storage state\<close>

text \<open>
  \<open>dremove\<close> and \<open>cons\<close> come from the list component; \<open>remv\<close> stands for
  \<open>dremove(STORAGEFULLSTATE_index, -)\<close> and \<open>consf\<close> for \<open>cons(STORAGEFULLSTATE_index, -)\<close>.
\<close>

definition advance_storagestate :: "(LispPTR \<Rightarrow> vm \<Rightarrow> (LispPTR \<times> vm) res) \<Rightarrow> DLword \<Rightarrow> vm \<Rightarrow> vm res" where
  "advance_storagestate remv flg s =
     (let s1 = upd_sto (\<lambda>w. w\<lparr>STORAGEFULLSTATE_word := S_POSITIVE OR ucast flg, fullspaceused := 65535\<rparr>) s
      in rbind (remv (SYSTEMCACHEVARS_word (sto s1)) s1) (\<lambda>(l, s2).
         Inr (upd_sto (\<lambda>w. w\<lparr>SYSTEMCACHEVARS_word := l\<rparr>) s2)))"

definition advance_array_seg :: "32 word \<Rightarrow> vm \<Rightarrow> vm res" where
  "advance_array_seg nxtpage0 s =
     (let nxtpage = nxtpage0 AND 0xFFFFF;
          frlst = ArrayFrLst_word (arr s);
          ncellsleft = (Next_Array_word (sto s) - POINTER_PAGE frlst - 1) * 128 +
                       (128 - drop_bit 1 (frlst AND 0xFF))
      in rbind (if ncellsleft \<ge> 4
                then
                  (let (b, s1) = makefreearrayblock frlst (ucast ncellsleft) s
                   in rbind (mergebackward b s1) (\<lambda>(_, s2).
                      Inr (s2\<lparr>arr := (arr s2)\<lparr>ArrayFrLst2_word := push_bit 8 (LeastMDSPage_word (sto s2))\<rparr>\<rparr>)))
                else Inr (s\<lparr>arr := (arr s)\<lparr>ArrayFrLst2_word := frlst\<rparr>\<rparr>)) (\<lambda>s3.
         let s4 = upd_sto (\<lambda>w. w\<lparr>Next_Array_word := nxtpage\<rparr>) s3
         in Inr (s4\<lparr>arr := (arr s4)\<lparr>ArrayFrLst_word := push_bit 8 nxtpage,
                                     ArraySpace2_word := push_bit 8 nxtpage\<rparr>\<rparr>)))"

definition set_storage_state :: "(LispPTR \<Rightarrow> vm \<Rightarrow> (LispPTR \<times> vm) res) \<Rightarrow> vm \<Rightarrow> vm res" where
  "set_storage_state consf s =
     (if MACHINETYPE_word (sto s) AND 0xFFFF = 3
      then
        (let st = (if dl24bitaddressable (sto s) \<noteq> 0 then 2 else 1);
             s1 = upd_sto (\<lambda>w. w\<lparr>STORAGEFULLSTATE_word := S_POSITIVE OR st\<rparr>) s
         in rbind (consf (SYSTEMCACHEVARS_word (sto s1)) s1) (\<lambda>(l, s2).
            let s3 = upd_sto (\<lambda>w. w\<lparr>SYSTEMCACHEVARS_word := l\<rparr>) s2
            in GCLOOKUP (SYSTEMCACHEVARS_word (sto s3)) ADDREF s3))
      else Inr (log_error ''set_storage_state: Sorry! We can work on only Maiko'' s))"

text \<open>The branches of the switch of \<open>checkfor_storagefull\<close>; \<open>pagesleft\<close> is a signed int.\<close>

definition storage_pagesleft :: "vm \<Rightarrow> 32 word" where
  "storage_pagesleft s = Next_MDSpage_word (sto s) - Next_Array_word (sto s) - PAGESPER_MDSUNIT"

definition sfs_full :: "int \<Rightarrow> vm \<Rightarrow> vm res" where
  "sfs_full pagesleft s =
     (if pagesleft < 0 then Inl (Fatal ''MP9320:Storage completely full'')
         else if pagesleft \<le> GUARD1STORAGEFULL \<and> STORAGEFULL_word (sto s) \<noteq> NIL
         then Inr (log_error ''MP9325:Space getting VERY full.''
                (upd_sto (\<lambda>w. w\<lparr>STORAGEFULL_word := S_POSITIVE\<rparr>) s))
         else if STORAGEFULL_word (sto s) = NIL
         then Inr (upd_sto (\<lambda>w. w\<lparr>STORAGEFULL_word := ATOM_T, int_storagefull := True,
                                  PENDINGINTERRUPT_word := ATOM_T\<rparr>) s)
         else Inr s)"

definition sfs_switchable ::
  "(LispPTR \<Rightarrow> vm \<Rightarrow> (LispPTR \<times> vm) res) \<Rightarrow> 32 word \<Rightarrow> 32 word \<Rightarrow> vm \<Rightarrow> vm res" where
  "sfs_switchable remv pagesleft npages s =
     (if npages = NIL
      then if sint pagesleft \<le> 0
           then rbind (advance_storagestate remv 4
                  (upd_sto (\<lambda>w. w\<lparr>LeastMDSPage_word := Next_Array_word w,
                                  Next_MDSpage_word := SecondMDSPage_word w\<rparr>) s)) (\<lambda>s1.
                advance_array_seg (SecondArrayPage_word (sto s1)) s1)
           else Inr s
      else if npages > pagesleft
      then rbind (advance_storagestate remv 3
             (upd_sto (\<lambda>w. w\<lparr>LeastMDSPage_word := Next_Array_word w\<rparr>) s)) (\<lambda>s1.
           advance_array_seg (SecondArrayPage_word (sto s1)) s1)
      else Inr s)"

definition sfs_arrayswitched :: "(LispPTR \<Rightarrow> vm \<Rightarrow> (LispPTR \<times> vm) res) \<Rightarrow> vm \<Rightarrow> vm res" where
  "sfs_arrayswitched remv s =
     (if Next_MDSpage_word (sto s) < LeastMDSPage_word (sto s)
      then advance_storagestate remv 4
             (upd_sto (\<lambda>w. w\<lparr>Next_MDSpage_word := SecondMDSPage_word w\<rparr>) s)
      else Inr s)"

definition checkfor_storagefull ::
  "(LispPTR \<Rightarrow> vm \<Rightarrow> (LispPTR \<times> vm) res) \<Rightarrow> (LispPTR \<Rightarrow> vm \<Rightarrow> (LispPTR \<times> vm) res) \<Rightarrow>
   32 word \<Rightarrow> vm \<Rightarrow> vm res" where
  "checkfor_storagefull consf remv npages s =
     (let pagesleft = storage_pagesleft s
      in if sint pagesleft < GUARDSTORAGEFULL \<or> npages \<noteq> 0
         then rbind (if STORAGEFULLSTATE_word (sto s) = NIL then set_storage_state consf s else Inr s)
           (\<lambda>s1. let st = STORAGEFULLSTATE_word (sto s1) AND 0xFFFF
             in if st = 1 \<or> st = 4 then sfs_full (sint pagesleft) s1
                else if st = 2 then sfs_switchable remv pagesleft npages s1
                else if st = 3 then sfs_arrayswitched remv s1
                else Inr (log_error ''checkfor_storagefull: Shouldn't'' s1))
         else Inr s)"

section \<open>Free chains of datatype cells\<close>

text \<open>The cells of a free chain from \<open>p\<close> up to \<open>t\<close>.\<close>

fun fchain :: "vm \<Rightarrow> LispPTR \<Rightarrow> LispPTR list \<Rightarrow> LispPTR \<Rightarrow> bool" where
  "fchain s p [] t \<longleftrightarrow> p = t"
| "fchain s p (c # cs) t \<longleftrightarrow> p = c \<and> fchain s (rd s c) cs t"

lemma fchain_snoc: "fchain s p (cs @ [c]) t \<longleftrightarrow> fchain s p cs c \<and> rd s c = t"
  by (induction cs arbitrary: p) auto

definition run_cells :: "LispPTR \<Rightarrow> nat \<Rightarrow> nat \<Rightarrow> LispPTR list" where
  "run_cells base siz n = map (\<lambda>i. base + of_nat (i * siz)) [0..<n]"

lemma run_cells_Suc: "run_cells base siz (Suc n) = base # run_cells (base + of_nat siz) siz n"
proof -
  have "[0..<Suc n] = 0 # map Suc [0..<n]" by (simp only: upt_conv_Cons map_Suc_upt zero_less_Suc)
  then show ?thesis by (simp add: run_cells_def o_def algebra_simps)
qed

lemma of_nat_small_nz: "0 < k \<Longrightarrow> k < 2 ^ 32 \<Longrightarrow> (of_nat k :: 32 word) \<noteq> 0"
  by (simp add: word_of_nat_eq_0_iff) (metis nat_dvd_not_less)

lemma base_not_later:
  assumes "0 < siz" "n * siz < 2 ^ 32" "n0 \<le> n" 
  shows "base \<notin> set (run_cells (base + of_nat siz) siz (n0 - 1))"
proof
  assume "base \<in> set (run_cells (base + of_nat siz) siz (n0 - 1))"
  then obtain i where i: "i < n0 - 1" "base = base + of_nat siz + of_nat (i * siz)"
    by (auto simp: run_cells_def)
  then have z: "(of_nat (Suc i * siz) :: 32 word) = 0" by (simp add: algebra_simps)
  have "Suc i * siz \<le> n * siz" using i assms(3) by (intro mult_right_mono) auto
  with z of_nat_small_nz [of "Suc i * siz"] assms(1,2) show False by simp
qed

lemma init_run_chain:
  assumes "0 < siz" "n = (limit - used) div siz" "used \<le> limit" "limit < 2 ^ 32"
  shows "\<exists>s' p. init_run siz limit used base prev s = (base + of_nat (n * siz), p, s') \<and>
    fchain s' p (rev (run_cells base siz n)) prev \<and>
    (\<forall>a. a \<notin> set (run_cells base siz n) \<longrightarrow> rd s' a = rd s a) \<and> s' = s\<lparr>mem := mem s'\<rparr>"
  using assms(2,3)
proof (induction n arbitrary: used base prev s)
  case 0
  then have "limit - used < siz" using assms(1) by (metis div_less_iff_less_mult mult_1 not_less_zero zero_less_iff_neq_zero div_eq_0_iff less_not_refl)
  then have "\<not> used + siz \<le> limit" using 0 by simp
  then show ?case by (subst init_run.simps) (simp add: run_cells_def)
next
  case (Suc n)
  have ge: "siz \<le> limit - used" using Suc.prems(1) assms(1) by (metis div_less not_less Zero_neq_Suc)
  have n: "n = (limit - (used + siz)) div siz"
    using Suc.prems(1) ge assms(1) by (simp add: le_div_geq)
  let ?s = "wr base prev s"
  have le: "used + siz \<le> limit" using ge Suc.prems(2) by simp
  from Suc.IH [OF n le, of "base + of_nat siz" base ?s] obtain s' p where
    r: "init_run siz limit (used + siz) (base + of_nat siz) base ?s = (base + of_nat siz + of_nat (n * siz), p, s')"
      "fchain s' p (rev (run_cells (base + of_nat siz) siz n)) base"
      "\<forall>a. a \<notin> set (run_cells (base + of_nat siz) siz n) \<longrightarrow> rd s' a = rd ?s a" "s' = ?s\<lparr>mem := mem s'\<rparr>"
    by blast
  have "Suc n * siz \<le> limit" using Suc.prems(1) by (metis diff_le_self div_times_less_eq_dividend le_trans)
  then have nb: "base \<notin> set (run_cells (base + of_nat siz) siz n)"
    using base_not_later [of siz "Suc n" "Suc n" base] assms(1,4) by simp
  have "rd s' base = prev" using r(3) nb by (simp add: rd_wr)
  moreover have "init_run siz limit used base prev s = init_run siz limit (used + siz) (base + of_nat siz) base ?s"
    using le assms(1) by (subst init_run.simps) simp
  moreover have "s' = s\<lparr>mem := mem s'\<rparr>" using r(4) by (simp add: wr_def)
  ultimately show ?case using r
    by (intro exI [of _ s'] exI [of _ p])
       (auto simp: run_cells_Suc fchain_snoc rd_wr algebra_simps)
qed

lemma fchain_cong: "(\<And>c. c \<in> set cs \<Longrightarrow> rd s' c = rd s c) \<Longrightarrow> fchain s' p cs t = fchain s p cs t"
  by (induction cs arbitrary: p) auto

lemma fchain_append: "fchain s p (cs @ ds) t \<longleftrightarrow> (\<exists>q. fchain s p cs q \<and> fchain s q ds t)"
  by (induction cs arbitrary: p) auto

text \<open>The cells of the two pages: a size that would waste little of each page is laid out page by page.\<close>

definition page_by_page :: "nat \<Rightarrow> bool" where
  "page_by_page siz \<longleftrightarrow> 256 mod siz \<noteq> 0 \<and> 256 mod siz < siz div 2 \<and> siz < 256"

definition mds_cells :: "LispPTR \<Rightarrow> nat \<Rightarrow> LispPTR list" where
  "mds_cells base siz =
     (if page_by_page siz then run_cells base siz (256 div siz) @ run_cells (base + 256) siz (256 div siz)
      else run_cells base siz (512 div siz))"

lemma run_cells_in: "c \<in> set (run_cells base siz n) \<longleftrightarrow> (\<exists>i<n. c = base + of_nat (i * siz))"
  by (auto simp: run_cells_def)

lemma pages_disjoint:
  assumes "0 < siz" "c \<in> set (run_cells base siz (256 div siz))"
  shows "c \<notin> set (run_cells (base + 256) siz (256 div siz))"
proof
  assume "c \<in> set (run_cells (base + 256) siz (256 div siz))"
  then obtain i j where ij: "i < 256 div siz" "j < 256 div siz" "of_nat (i * siz) = (256 + of_nat (j * siz) :: 32 word)"
    using assms(2) by (auto simp: run_cells_in simp del: of_nat_mult)
  have b: "k * siz < 256" if "k < 256 div siz" for k
    using that assms(1) by (metis less_mult_imp_div_less less_le_trans mult.commute times_div_less_eq_dividend mult_less_cancel2)
  have "of_nat (i * siz) = (of_nat (256 + j * siz) :: 32 word)" using ij(3) by simp
  then have "unat (of_nat (i * siz) :: 32 word) = unat (of_nat (256 + j * siz) :: 32 word)" by simp
  then have "i * siz = 256 + j * siz"
    using b [OF ij(1)] b [OF ij(2)] by (simp add: unsigned_of_nat take_bit_nat_eq_self del: of_nat_mult of_nat_add)
  then show False using b [OF ij(1)] by simp
qed

text \<open>
  C11. \<open>initmdspage\<close> chains every cell of the two pages, for every size: the last one first,
  ending in the chain it was given, and nothing else changes. Where the cells lie is \<open>mds_cells\<close>: one
  after the other over both pages, or, when that wastes little of a page (\<open>page_by_page\<close>),
  each page on its own, with the words left at its end skipped.
\<close>

theorem initmdspage_chains:
  assumes "sz \<noteq> 0"
  shows "\<exists>p s'. initmdspage base sz prev s = Inr (p, s') \<and>
    fchain s' p (rev (mds_cells base (unat sz))) prev \<and>
    (\<forall>a. a \<notin> set (mds_cells base (unat sz)) \<longrightarrow> rd s' a = rd s a)"
proof (cases "page_by_page (unat sz)")
  case False
  have z: "0 < unat sz" using assms(1) by (simp add: unat_gt_0)
  obtain s' p where r: "init_run (unat sz) 512 0 base prev s = (base + of_nat (512 div unat sz * unat sz), p, s')"
      "fchain s' p (rev (run_cells base (unat sz) (512 div unat sz))) prev"
      "\<forall>a. a \<notin> set (run_cells base (unat sz) (512 div unat sz)) \<longrightarrow> rd s' a = rd s a"
    using init_run_chain [OF z, of "512 div unat sz" 512 0 base prev s] by auto
  have "initmdspage base sz prev s = Inr (init_pages (Suc 0) (unat sz) 512 (256 mod unat sz) base prev s)"
    using z False by (auto simp: initmdspage_def Let_def DLWORDSPER_PAGE_def MDSINCREMENT_def page_by_page_def)
  then show ?thesis using r False by (simp add: r(1) mds_cells_def)
next
  case True
  define siz n where "siz = unat sz" and "n = 256 div siz"
  have z: "0 < siz" using assms(1) by (simp add: siz_def unat_gt_0)
  obtain s1 p1 where r1: "init_run siz 256 0 base prev s = (base + of_nat (n * siz), p1, s1)"
      "fchain s1 p1 (rev (run_cells base siz n)) prev"
      "\<forall>a. a \<notin> set (run_cells base siz n) \<longrightarrow> rd s1 a = rd s a"
    using init_run_chain [OF z, of n 256 0 base prev s] by (auto simp: n_def)
  obtain s2 p2 where r2: "init_run siz 256 0 (base + 256) p1 s1 = (base + 256 + of_nat (n * siz), p2, s2)"
      "fchain s2 p2 (rev (run_cells (base + 256) siz n)) p1"
      "\<forall>a. a \<notin> set (run_cells (base + 256) siz n) \<longrightarrow> rd s2 a = rd s1 a"
    using init_run_chain [OF z, of n 256 0 "base + 256" p1 s1] by (auto simp: n_def)
  have "n * siz + 256 mod siz = 256" by (simp add: n_def)
  then have "base + of_nat (n * siz) + of_nat (256 mod siz) = base + (of_nat 256 :: 32 word)"
    by (metis add.assoc of_nat_add)
  then have b: "base + of_nat (n * siz) + of_nat (256 mod siz) = base + 256" by simp
  have "initmdspage base sz prev s = Inr (init_pages (Suc (Suc 0)) siz 256 (256 mod siz) base prev s)"
    using z True by (simp add: initmdspage_def Let_def DLWORDSPER_PAGE_def MDSINCREMENT_def page_by_page_def siz_def
      numeral_2_eq_2)
  then have i: "initmdspage base sz prev s = Inr (p2, s2)" by (simp add: r1(1) r2(1) b del: of_nat_mult)
  have "fchain s2 p1 (rev (run_cells base siz n)) prev"
    using r1(2) r2(3) pages_disjoint [OF z] by (subst fchain_cong [of _ _ s1]) (auto simp: n_def)
  then have "fchain s2 p2 (rev (mds_cells base siz)) prev"
    using r2(2) True by (auto simp: mds_cells_def fchain_append siz_def [symmetric] n_def [symmetric])
  moreover have "rd s2 a = rd s a" if "a \<notin> set (mds_cells base siz)" for a
    using r1(3) r2(3) that True by (simp add: mds_cells_def siz_def [symmetric] n_def [symmetric])
  ultimately show ?thesis using i by (auto simp: siz_def)
qed

text \<open>Cells of 120 words: two on each page, and 16 words of each page are left over.\<close>

lemma initmdspage_chains_witness:
  "\<exists>p s'. initmdspage 0x400000 120 NIL vm0 = Inr (p, s') \<and>
     fchain s' p [0x400178, 0x400100, 0x400078, 0x400000] NIL"
proof -
  have "rev (mds_cells 0x400000 120) = [0x400178, 0x400100, 0x400078, 0x400000]"
    by (simp add: mds_cells_def page_by_page_def run_cells_def upt_rec)
  then show ?thesis using initmdspage_chains [of 120 "0x400000" NIL vm0] by auto
qed

end
