(* ===== verification/Datatype_Cells.thy ===== *)
theory Datatype_Cells
  imports Storage
begin

text \<open>
  What \<open>createcell68k\<close> and \<open>N_OP_createcell\<close> (\<open>src/mkcell.c\<close>) promise when the free
  chain of the type is not empty: a cleared cell, off the chain, counted down by one.
\<close>

lemma clear_words_run: "mem (clear_words n a s) = words.putrun a 1 (replicate n 0) (mem s)"
  by (induction n arbitrary: a s) auto

lemma clear_words_frame: "clear_words n a s = s\<lparr>mem := mem (clear_words n a s)\<rparr>"
proof (induction n arbitrary: a s)
  case (Suc n)
  from Suc [of "a + 1" "s\<lparr>mem := putword a 0 (mem s)\<rparr>"] show ?case
    by simp
qed simp

lemma runaddrs_words: "words.runaddrs a 1 n = map (\<lambda>i. a + of_nat i) [0..<n]"
proof (induction n arbitrary: a)
  case (Suc n)
  have eq: "[0..<Suc n] = 0 # map Suc [0..<n]" by (simp only: upt_conv_Cons map_Suc_upt zero_less_Suc)
  have sh: "(\<lambda>i. a + of_nat i) \<circ> Suc = (\<lambda>i. a + 1 + of_nat i)"
    by (rule ext) (simp add: add.assoc)
  have "map (\<lambda>i. a + of_nat i) [0..<Suc n] = a # map (\<lambda>i. a + 1 + of_nat i) [0..<n]"
    by (simp only: eq list.map map_map sh) simp
  then show ?case by (simp only: words.runaddrs.simps Suc)
qed simp

lemma offset_inj: "i < 2 ^ 32 \<Longrightarrow> j < 2 ^ 32 \<Longrightarrow> a + of_nat i = a + (of_nat j :: 32 word) \<Longrightarrow> i = j"
proof -
  assume i: "i < 2 ^ 32" "j < 2 ^ 32" and e: "a + of_nat i = a + (of_nat j :: 32 word)"
  have "unat (of_nat i :: 32 word) = i" "unat (of_nat j :: 32 word) = j"
    using i by (simp_all add: unat_of_nat)
  moreover have "(of_nat i :: 32 word) = of_nat j" using e by (simp only: add_left_cancel)
  ultimately show "i = j" by metis
qed

lemma getrun_nth: "i < n \<Longrightarrow> words.getrun m a 1 n ! i = getword m (a + of_nat i)"
proof (induction n arbitrary: a i)
  case (Suc n)
  then show ?case by (cases i) (simp_all add: algebra_simps)
qed simp

lemma clear_words_zero:
  assumes "n < 2 ^ 32" "i < n"
  shows "getword (mem (clear_words n a s)) (a + of_nat i) = 0"
proof -
  have len: "length (replicate n (0 :: DLword)) = n" by simp
  have "distinct (words.runaddrs a 1 n)"
    unfolding runaddrs_words distinct_map using offset_inj assms(1) by (auto simp: inj_on_def)
  then have "words.getrun (mem (clear_words n a s)) a 1 n = replicate n 0"
    using words.getrun_putrun [of a 1 "replicate n 0" "mem s"] unfolding clear_words_run len
    by (simp add: list.pred_True)
  then show ?thesis using getrun_nth [OF assms(2)] assms(2) by (metis nth_replicate)
qed

lemma clear_words_other:
  "\<forall>i < n. cell_of (a + of_nat i) \<noteq> x \<Longrightarrow> rd (clear_words n a s) x = rd s x"
proof (induction n arbitrary: a s)
  case (Suc n)
  have "cell_of a \<noteq> x" using Suc.prems by (auto dest: spec [of _ 0])
  then have "rd (s\<lparr>mem := putword a 0 (mem s)\<rparr>) x = rd s x"
    by (simp add: rd_def getcell_def putword_def Let_def)
  moreover have "\<forall>i < n. cell_of (a + 1 + of_nat i) \<noteq> x"
  proof (intro allI impI)
    fix i assume "i < n"
    then have "cell_of (a + of_nat (Suc i)) \<noteq> x" using Suc.prems by blast
    then show "cell_of (a + 1 + of_nat i) \<noteq> x" by (simp add: algebra_simps)
  qed
  ultimately show ?case using Suc.IH by simp
qed simp

lemma RefCntP_gc: "gc s' = gc s \<Longrightarrow> RefCntP s' p = RefCntP s p"
  by (simp add: RefCntP_def GetTypeEntry_def)

lemma wr_fields [simp]:
  "gc (wr a v s) = gc s" "byteswapped (wr a v s) = byteswapped s" "sto (wr a v s) = sto s"
  "gc (log_error msg s) = gc s" "byteswapped (log_error msg s) = byteswapped s" "sto (log_error msg s) = sto s"
  by (simp_all add: wr_def log_error_def)

definition cell_apart :: "vm \<Rightarrow> LispPTR \<Rightarrow> LispPTR \<Rightarrow> bool" where
  "cell_apart s d c \<longleftrightarrow> (\<forall>i < unat (dtd_size s d). cell_of (c + of_nat i) \<notin> {d + 2, d + 4, d + 12})"

lemma take_cell_law:
  assumes ap: "cell_apart s d c" and rc: "RefCntP s c" and cr: "counts_ready s c DELREF"
  shows "\<exists>s'. take_cell bad d c s = Inr (c, s') \<and> dtd_free s' d = rd s c AND POINTERMASK \<and>
    dtd_oldcnt s' d = dtd_oldcnt s d + 1 \<and>
    (\<forall>i < unat (dtd_size s d). getword (mem s') (c + of_nat i) = 0) \<and>
    gc_inv (gc s') \<and> rcview (gc s') c = rc_step DELREF (rcview (gc s) c) \<and>
    (\<forall>x. x \<notin> {d + 4, d + 12} \<and> (\<forall>i < unat (dtd_size s d). cell_of (c + of_nat i) \<noteq> x) \<longrightarrow> rd s' x = rd s x)"
proof -
  define s1 where "s1 = (if rd s c = 917505 then log_error ''N_OP_createcell E0001 error'' s else s)"
  define s2 where "s2 = set_dtd_free d (rd s1 c AND POINTERMASK) s1"
  define s3 where "s3 = (if dtd_free s2 d AND bad \<noteq> 0 then log_error ''bad entry on free chain.'' s2 else s2)"
  define s4 where "s4 = incr_oldcnt d s3"
  define s5 where "s5 = clear_words (unat (dtd_size s4 d)) c s4"
  have r1: "rd s1 x = rd s x" for x by (simp add: s1_def)
  have r4: "rd s4 x = (if x = d + 12 then rd s (d + 12) + 1 else if x = d + 4 then rd s c AND POINTERMASK else rd s x)" for x
    by (simp add: s4_def incr_oldcnt_def s3_def s2_def set_dtd_free_def rd_wr r1)
  have sz: "dtd_size s4 d = dtd_size s d" by (simp add: dtd_size_def r4)
  have r5: "rd s5 x = rd s4 x" if "\<forall>i < unat (dtd_size s d). cell_of (c + of_nat i) \<noteq> x" for x
    unfolding s5_def sz by (rule clear_words_other [OF that])
  have g: "gc s5 = gc s" "byteswapped s5 = byteswapped s"
    unfolding s5_def by (subst clear_words_frame, simp add: s4_def incr_oldcnt_def s3_def s2_def set_dtd_free_def s1_def)+
  have z: "\<forall>i < unat (dtd_size s d). getword (mem s5) (c + of_nat i) = 0"
    unfolding s5_def sz using clear_words_zero unat_le16 [of "dtd_size s d"] by auto
  have "RefCntP s5 c" "counts_ready s5 c DELREF"
    using rc cr g RefCntP_gc [of s5 s] by (simp_all add: counts_ready_def)
  from GCLOOKUP_counts [OF this(2) _ this(1)] g obtain g' where
    gg: "GCLOOKUP c DELREF s5 = Inr (s5\<lparr>gc := g'\<rparr>)" "gc_inv g'" "rcview g' c = rc_step DELREF (rcview (gc s) c)"
    by auto
  have "take_cell bad d c s = rbind (GCLOOKUP c DELREF s5) (\<lambda>s6. Inr (c, s6))"
    unfolding s5_def s4_def s3_def s2_def s1_def take_cell_def Let_def ..
  then have "take_cell bad d c s = Inr (c, s5\<lparr>gc := g'\<rparr>)" by (simp add: gg(1))
  moreover have fr: "rd (s5\<lparr>gc := g'\<rparr>) x = rd s5 x" for x by (simp add: rd_def)
  moreover have "rd s5 (d + 4) = rd s c AND POINTERMASK" "rd s5 (d + 12) = rd s (d + 12) + 1"
    using ap r5 [of "d + 4"] r5 [of "d + 12"] r4 by (auto simp: cell_apart_def)
  ultimately show ?thesis using z gg r5 r4
    by (intro exI [of _ "s5\<lparr>gc := g'\<rparr>"]) (auto simp: dtd_free_def dtd_oldcnt_def)
qed

text \<open>
  \<open>createcell68k\<close> on a type whose free chain is not empty returns the head of the chain,
  cleared to zero, with the chain shortened by it and its reference count (still that of a cell
  nobody points to) counted down, and the table of counts stays well-formed.
\<close>

theorem createcell68k_fresh:
  assumes "dtd_size s (GetDTD type) \<noteq> 0" "c = dtd_free s (GetDTD type) AND POINTERMASK" "c \<noteq> NIL"
    and "cell_apart s (GetDTD type) c" "RefCntP s c" "counts_ready s c DELREF"
  shows "\<exists>s'. createcell68k chk dirty type s = Inr (c, s') \<and>
    dtd_free s' (GetDTD type) = rd s c AND POINTERMASK \<and>
    (\<forall>i < unat (dtd_size s (GetDTD type)). getword (mem s') (c + of_nat i) = 0) \<and>
    gc_inv (gc s') \<and> rcview (gc s') c = rc_step DELREF (rcview (gc s) c)"
  using take_cell_law [OF assms(4-6), where bad = "0x8000000"] assms(1-3)
  by (auto simp: createcell68k_def retry_cell_def Let_def)

definition vm_fixp :: vm where
  "vm_fixp = vm0\<lparr>mem := (mem vm0)(0x141026 := 2, 0x141028 := 0x400010, 0x400010 := 0x400020)\<rparr>"

lemma vm_fixp_facts:
  "GetDTD TYPE_FIXP = 0x141024" "dtd_size vm_fixp 0x141024 = 2" "dtd_free vm_fixp 0x141024 = 0x400010"
  "cell_apart vm_fixp 0x141024 0x400010" "RefCntP vm_fixp 0x400010" "counts_ready vm_fixp 0x400010 DELREF"
proof -
  show "GetDTD TYPE_FIXP = 0x141024" by (simp add: GetDTD_def DTD_OFFSET_def TYPE_FIXP_def)
  show sz: "dtd_size vm_fixp 0x141024 = 2" "dtd_free vm_fixp 0x141024 = 0x400010"
    by (simp_all add: dtd_size_def dtd_free_def vm_fixp_def rd_def getcell_def lo_word_def)
  show "cell_apart vm_fixp 0x141024 0x400010"
    unfolding cell_apart_def sz by (auto simp: less_2_cases_iff cell_of_def)
  show "RefCntP vm_fixp 0x400010"
    by (simp add: RefCntP_def GetTypeEntry_def vm_fixp_def vm0_def gctab0_def ATOM_T_def NIL_def)
  have "gc_ptr 0x400010" by (simp add: gc_ptr_def ht_hiptr_def HTHIMASK_def POINTERMASK_def)
  then show "counts_ready vm_fixp 0x400010 DELREF"
    using gctab0_inv gctab0_view by (simp add: counts_ready_def vm_fixp_def vm0_def)
qed

lemma createcell68k_fresh_witness:
  "\<exists>s'. createcell68k (\<lambda>s. Inr s) NIL TYPE_FIXP vm_fixp = Inr (0x400010, s') \<and>
     dtd_free s' 0x141024 = 0x400020 \<and> rcview (gc s') 0x400010 = (0, False)"
proof -
  have m: "(0x400010 :: 32 word) = dtd_free vm_fixp (GetDTD TYPE_FIXP) AND POINTERMASK"
    by (simp add: vm_fixp_facts POINTERMASK_def)
  have "rd vm_fixp 0x400010 AND POINTERMASK = 0x400020"
    by (simp add: vm_fixp_def rd_def getcell_def POINTERMASK_def)
  moreover have "rcview (gc vm_fixp) 0x400010 = (1, False)"
    using gctab0_view by (simp add: vm_fixp_def vm0_def)
  ultimately show ?thesis
    using createcell68k_fresh [OF _ m, where chk = "\<lambda>s. Inr s" and dirty = NIL] vm_fixp_facts by (auto simp: NIL_def)
qed

end
