(* ===== verification/Conses.thy ===== *)
theory Conses
  imports Datatype_Cells
begin

text \<open>
  Cdr-coded lists, in the 4-bit cdr coding of this release: \<open>inc/cell.h\<close>,
  \<open>src/car-cdr.c\<close>, \<open>src/conspage.c\<close>, \<open>src/rplcons.c\<close>, \<open>freelistcell\<close> of
  \<open>src/gcrcell.c\<close> and the list functions of \<open>src/lsthandl.c\<close>. Definitions; what they
  promise is in \<open>Cons_Laws\<close> and \<open>Cons_Pages\<close>.
\<close>

section \<open>Cells and pages\<close>

definition ListpDTD :: LispPTR where "ListpDTD = GetDTD TYPE_LISTP"
definition CONSPAGE_LAST :: "32 word" where "CONSPAGE_LAST = 0xFFFFFFFF"
definition CDR_ONPAGE :: "32 word" where "CDR_ONPAGE = 8"
definition CDR_NIL :: "32 word" where "CDR_NIL = 8"
definition CDR_INDIRECT :: "32 word" where "CDR_INDIRECT = 0"
definition CDR_MAXINDIRECT :: "32 word" where "CDR_MAXINDIRECT = 7"

lemmas cons_const_defs [maiko_consts] =
  CONSPAGE_LAST_def CDR_ONPAGE_def CDR_NIL_def CDR_INDIRECT_def CDR_MAXINDIRECT_def

text \<open>\<open>ConsCell\<close>: \<open>cdr_code\<close> is the top 4 bits, \<open>car_field\<close> the other 28.\<close>

definition car_of :: "32 word \<Rightarrow> LispPTR" where "car_of c = c AND POINTERMASK"
definition code_of :: "32 word \<Rightarrow> 32 word" where "code_of c = drop_bit 28 c"

definition car_field :: "vm \<Rightarrow> LispPTR \<Rightarrow> LispPTR" where "car_field s a = car_of (rd s a)"
definition cdr_code :: "vm \<Rightarrow> LispPTR \<Rightarrow> 32 word" where "cdr_code s a = code_of (rd s a)"

definition set_car :: "LispPTR \<Rightarrow> LispPTR \<Rightarrow> vm \<Rightarrow> vm" where
  "set_car a v s = wr a (push_bit 28 (code_of (rd s a)) OR (v AND POINTERMASK)) s"

definition set_code :: "LispPTR \<Rightarrow> 32 word \<Rightarrow> vm \<Rightarrow> vm" where
  "set_code a k s = wr a (push_bit 28 k OR car_of (rd s a)) s"

text \<open>
  A cons page holds its count of free cells and the first of them in the cell at offset 4 and the
  next page of the chain in the cell at offset 6; a free cell names its successor in its top byte.
\<close>

definition pg_count :: "vm \<Rightarrow> LispPTR \<Rightarrow> 32 word" where "pg_count s pg = drop_bit 24 (rd s (pg + 4))"
definition pg_next_cell :: "vm \<Rightarrow> LispPTR \<Rightarrow> 32 word" where
  "pg_next_cell s pg = drop_bit 16 (rd s (pg + 4)) AND 0xFF"
definition pg_next_page :: "vm \<Rightarrow> LispPTR \<Rightarrow> 32 word" where "pg_next_page s pg = rd s (pg + 6)"

definition set_count :: "LispPTR \<Rightarrow> 32 word \<Rightarrow> vm \<Rightarrow> vm" where
  "set_count pg n s = wr (pg + 4) (push_bit 24 n OR (rd s (pg + 4) AND 0xFFFFFF)) s"
definition set_next_cell :: "LispPTR \<Rightarrow> 32 word \<Rightarrow> vm \<Rightarrow> vm" where
  "set_next_cell pg n s = wr (pg + 4) (push_bit 16 (n AND 0xFF) OR (rd s (pg + 4) AND 0xFF00FFFF)) s"
definition set_next_page :: "LispPTR \<Rightarrow> 32 word \<Rightarrow> vm \<Rightarrow> vm" where
  "set_next_page pg n = wr (pg + 6) n"

definition next_free :: "vm \<Rightarrow> LispPTR \<Rightarrow> 32 word" where "next_free s a = drop_bit 24 (rd s a)"
definition set_next_free :: "LispPTR \<Rightarrow> 32 word \<Rightarrow> vm \<Rightarrow> vm" where
  "set_next_free a n s = wr a (push_bit 24 n OR (rd s a AND 0xFFFFFF)) s"

section \<open>car and cdr\<close>

definition car :: "vm \<Rightarrow> LispPTR \<Rightarrow> LispPTR res" where
  "car s datum =
     (if Listp s datum
      then (if cdr_code s datum = CDR_INDIRECT then Inr (car_field s (car_field s datum))
            else Inr (car_field s datum))
      else if datum = NIL then Inr NIL
      else if datum = ATOM_T then Inr ATOM_T
      else if datum AND SEGMASK = 0 then Inr NIL
      else Inl (Fatal ''car : ARG not list''))"

definition of_loop_res :: "'a res option \<Rightarrow> 'a res" where
  "of_loop_res x = (case x of None \<Rightarrow> Inl Diverges | Some r \<Rightarrow> r)"

lemma of_loop_res_simps [simp]: "of_loop_res None = Inl Diverges" "of_loop_res (Some r) = r"
  by (simp_all add: of_loop_res_def)

partial_function (option) cdr_loop :: "vm \<Rightarrow> LispPTR \<Rightarrow> LispPTR res option" where
  "cdr_loop s datum =
     (if datum = NIL then Some (Inr NIL)
      else if \<not> Listp s datum then Some (Inl (Fatal ''cdr : ARG not list''))
      else if cdr_code s datum = CDR_NIL then Some (Inr NIL)
      else if cdr_code s datum AND CDR_ONPAGE \<noteq> 0
      then Some (Inr (datum + push_bit 1 (cdr_code s datum AND 7)))
      else if cdr_code s datum = CDR_INDIRECT then cdr_loop s (car_field s datum)
      else Some (Inr (car_field s (datum + push_bit 1 (cdr_code s datum)))))"

declare cdr_loop.simps [code]

definition cdr :: "vm \<Rightarrow> LispPTR \<Rightarrow> LispPTR res" where
  "cdr s datum = of_loop_res (cdr_loop s datum)"

definition N_OP_car :: "LispPTR \<Rightarrow> vm \<Rightarrow> LispPTR res" where
  "N_OP_car tos s =
     (if Listp s tos
      then (if cdr_code s tos = CDR_INDIRECT then Inr (car_field s (car_field s tos))
            else Inr (car_field s tos))
      else if tos = NIL then Inr tos
      else if tos = ATOM_T then Inr tos
      else Inl (Ufn tos))"

definition N_OP_cdr :: "LispPTR \<Rightarrow> vm \<Rightarrow> LispPTR res" where
  "N_OP_cdr tos s =
     (if tos = NIL then Inr tos
      else if \<not> Listp s tos then Inl (Ufn tos)
      else if cdr_code s tos = CDR_NIL then Inr NIL
      else if cdr_code s tos > CDR_ONPAGE then Inr (tos + push_bit 1 (cdr_code s tos AND 7))
      else if cdr_code s tos = CDR_INDIRECT then cdr s (car_field s tos)
      else Inr (car_field s (tos + push_bit 1 (cdr_code s tos))))"

section \<open>rplaca\<close>

text \<open>The assignment both \<open>rplaca\<close> and \<open>N_OP_rplaca\<close> end with.\<close>

definition store_car :: "LispPTR \<Rightarrow> LispPTR \<Rightarrow> vm \<Rightarrow> vm" where
  "store_car x y s =
     (if cdr_code s x = CDR_INDIRECT then set_car (car_field s x) y s else set_car x y s)"

definition rplaca :: "LispPTR \<Rightarrow> LispPTR \<Rightarrow> vm \<Rightarrow> (LispPTR \<times> vm) res" where
  "rplaca x y s =
     (if \<not> Listp s x
      then (if x = NIL
            then (if y \<noteq> NIL then Inr (NIL, log_error ''Attempt to RPLACA NIL'' s) else Inr (NIL, s))
            else Inr (NIL, log_error ''ARG not List'' s))
      else rbind (car s x) (\<lambda>old.
           rbind (GCLOOKUP old DELREF s) (\<lambda>s1.
           rbind (GCLOOKUP y ADDREF s1) (\<lambda>s2. Inr (x, store_car x y s2)))))"

definition N_OP_rplaca :: "LispPTR \<Rightarrow> LispPTR \<Rightarrow> vm \<Rightarrow> (LispPTR \<times> vm) res" where
  "N_OP_rplaca tosm1 tos s =
     (if \<not> Listp s tosm1
      then (if tosm1 = NIL then (if tos \<noteq> NIL then Inl (Ufn tos) else Inr (tosm1, s)) else Inl (Ufn tos))
      else rbind (car s tosm1) (\<lambda>old.
           rbind (GCLOOKUP old DELREF s) (\<lambda>s1.
           rbind (GCLOOKUP tos ADDREF s1) (\<lambda>s2. Inr (tosm1, store_car tosm1 tos s2)))))"

section \<open>Free cells of a page\<close>

text \<open>Take \<open>off\<close>, the successor of \<open>prior\<close> (0: the first), off the free chain of \<open>pg\<close>.\<close>

definition unchain :: "LispPTR \<Rightarrow> 32 word \<Rightarrow> 32 word \<Rightarrow> vm \<Rightarrow> vm" where
  "unchain pg prior nxt s =
     (if prior \<noteq> 0 then set_next_free (pg + prior) nxt s else set_next_cell pg nxt s)"

partial_function (option) close_prior_search ::
  "vm \<Rightarrow> LispPTR \<Rightarrow> 32 word \<Rightarrow> 32 word \<Rightarrow> 32 word \<Rightarrow> (32 word \<times> 32 word) option option" where
  "close_prior_search s pg oldoffset prior off =
     (if off = 0 then Some None
      else if off < oldoffset \<and> off \<ge> oldoffset - 14 then Some (Some (prior, off))
      else close_prior_search s pg oldoffset off (next_free s (pg + off)))"

declare close_prior_search.simps [code]

partial_function (option) climb ::
  "vm \<Rightarrow> LispPTR \<Rightarrow> 32 word \<Rightarrow> 32 word \<Rightarrow> 32 word \<Rightarrow> (32 word \<times> 32 word) option" where
  "climb s pg bound prior off =
     (let noffset = next_free s (pg + off)
      in if noffset > off \<and> noffset < bound then climb s pg bound off noffset
         else Some (prior, off))"

declare climb.simps [code]

definition find_close_prior_cell :: "LispPTR \<Rightarrow> LispPTR \<Rightarrow> vm \<Rightarrow> (LispPTR option \<times> vm) res" where
  "find_close_prior_cell page oldcell s =
     (let oldoffset = oldcell AND 0xFF
      in rbind (of_loop (close_prior_search s page oldoffset 0 (pg_next_cell s page))) (\<lambda>found.
         case found of None \<Rightarrow> Inr (None, s)
         | Some (prior0, off0) \<Rightarrow>
             rbind (of_loop (climb s page oldoffset prior0 off0)) (\<lambda>(prior, off).
             let cell = page + off;
                 s1 = unchain page prior (next_free s cell) s;
                 s2 = set_count page (pg_count s1 page - 1) s1;
                 s3 = set_code cell (CDR_ONPAGE OR drop_bit 1 (oldoffset - off)) s2;
                 s4 = (if 254 < off + push_bit 1 (cdr_code s3 cell AND 7)
                       then log_error ''in fcpc, page overflow.'' s3 else s3)
             in Inr (Some cell, s4))))"

partial_function (option) close_search ::
  "vm \<Rightarrow> LispPTR \<Rightarrow> 32 word \<Rightarrow> 32 word \<Rightarrow> 32 word \<Rightarrow> (32 word \<times> 32 word) option option" where
  "close_search s pg oldoffset prior off =
     (if off = 0 then Some None
      else if off > oldoffset \<and> off \<le> oldoffset + 14 then Some (Some (prior, off))
      else close_search s pg oldoffset off (next_free s (pg + off)))"

declare close_search.simps [code]

definition find_close_cell :: "LispPTR \<Rightarrow> LispPTR \<Rightarrow> vm \<Rightarrow> (LispPTR option \<times> vm) res" where
  "find_close_cell page oldcell s =
     rbind (of_loop (close_search s page (oldcell AND 0xFF) 0 (pg_next_cell s page))) (\<lambda>found.
       case found of None \<Rightarrow> Inr (None, s)
       | Some (prior, off) \<Rightarrow>
           (let s1 = unchain page prior (next_free s (page + off)) s
            in Inr (Some (page + off), set_count page (pg_count s1 page - 1) s1)))"

text \<open>
  The search for two free cells within seven cells of each other, in neighbouring places of the
  free chain: the answer is the cell before the pair, the two places, and which of them is lower.
\<close>

partial_function (option) pair_search ::
  "vm \<Rightarrow> LispPTR \<Rightarrow> 32 word \<Rightarrow> 32 word \<Rightarrow> 32 word \<Rightarrow>
   (32 word \<times> 32 word \<times> 32 word \<times> bool) option option" where
  "pair_search s pg priorprior prior off =
     (if off = 0 then Some None
      else if prior \<noteq> 0 \<and> off < prior \<and> prior \<le> off + 14
      then Some (Some (priorprior, prior, off, True))
      else if prior \<noteq> 0 \<and> off > prior \<and> off \<le> prior + 14
      then Some (Some (priorprior, prior, off, False))
      else pair_search s pg prior off (next_free s (pg + off)))"

declare pair_search.simps [code]

partial_function (option) climb_pair ::
  "vm \<Rightarrow> LispPTR \<Rightarrow> 32 word \<Rightarrow> 32 word \<Rightarrow> 32 word \<Rightarrow> 32 word \<Rightarrow> (32 word \<times> 32 word \<times> 32 word) option" where
  "climb_pair s pg prior nprior poffset off =
     (let noffset = next_free s (pg + off)
      in if noffset > off \<and> noffset < prior then climb_pair s pg prior off prior noffset
         else Some (nprior, poffset, off))"

declare climb_pair.simps [code]

text \<open>
  The unlinking shared by \<open>find_cdrpair_in_page\<close> and \<open>find_pair_in_page\<close>: the places of the
  car cell and of the cdr cell, and the state with both off the chain.
\<close>

definition take_pair :: "LispPTR \<Rightarrow> vm \<Rightarrow> ((32 word \<times> 32 word) option \<times> vm) res" where
  "take_pair pg s =
     (if pg_count s pg < 2 then Inr (None, s)
      else rbind (of_loop (pair_search s pg 0 0 (pg_next_cell s pg))) (\<lambda>found.
        case found of None \<Rightarrow> Inr (None, s)
        | Some (priorprior, prior, off, True) \<Rightarrow>
            rbind (of_loop (climb_pair s pg prior 0 off off)) (\<lambda>(nprior, poffset, off1).
            let s1 = unchain pg priorprior (next_free s (pg + poffset)) s;
                s2 = (if nprior \<noteq> 0 then set_next_free (pg + nprior) (next_free s1 (pg + off1)) s1 else s1)
            in Inr (Some (off1, prior), s2))
        | Some (priorprior, prior, off, False) \<Rightarrow>
            Inr (Some (prior, off), unchain pg priorprior (next_free s (pg + off)) s)))"

definition find_cdrpair_in_page ::
  "LispPTR \<Rightarrow> LispPTR \<Rightarrow> LispPTR \<Rightarrow> vm \<Rightarrow> (LispPTR option \<times> vm) res" where
  "find_cdrpair_in_page pg carpart cdrpart s =
     rbind (take_pair pg s) (\<lambda>(found, s1).
       case found of None \<Rightarrow> Inr (None, s1)
       | Some (caroff, cdroff) \<Rightarrow>
           (let s2 = set_count pg (pg_count s1 pg - 2) s1;
                carcell = pg + caroff; cdrcell = pg + cdroff;
                s3 = wr carcell carpart s2;
                s4 = wr cdrcell cdrpart s3
            in Inr (Some carcell, set_code carcell (drop_bit 1 (cdrcell - carcell)) s4)))"

definition find_pair_in_page :: "LispPTR \<Rightarrow> LispPTR \<Rightarrow> vm \<Rightarrow> (LispPTR option \<times> vm) res" where
  "find_pair_in_page pg cdrval s =
     rbind (take_pair pg s) (\<lambda>(found, s1).
       case found of None \<Rightarrow> Inr (None, s1)
       | Some (caroff, cdroff) \<Rightarrow>
           (let carcell = pg + caroff; cdrcell = pg + cdroff;
                code = drop_bit 1 (cdrcell - carcell);
                s2 = set_code carcell code s1;
                s3 = (if code > 7 then log_error ''in find_pair_in_page, cdr code too big.'' s2 else s2);
                s4 = (if 254 < caroff + push_bit 1 (cdr_code s3 carcell)
                      then log_error ''in fpip, page overflow.'' s3 else s3);
                s5 = set_count pg (pg_count s4 pg - 2) s4
            in Inr (Some carcell, wr cdrcell cdrval s5)))"

section \<open>Pages\<close>

fun init_conscells :: "nat \<Rightarrow> 32 word \<Rightarrow> LispPTR \<Rightarrow> vm \<Rightarrow> vm" where
  "init_conscells 0 j base s = s"
| "init_conscells (Suc n) j base s =
     (let cell = base + (6 XOR j);
          s1 = set_car cell NIL s;
          j1 = j - 2
      in init_conscells n j1 base (set_next_free cell (6 XOR j1) s1))"

text \<open>\<open>init_conspage\<close>: 123 rounds take \<open>j\<close> from 254 to 8, where the chain ends.\<close>

definition init_conspage :: "LispPTR \<Rightarrow> 32 word \<Rightarrow> vm \<Rightarrow> vm" where
  "init_conspage base link s =
     (let s1 = set_next_cell base (6 XOR 254) s;
          s2 = init_conscells 123 254 base s1;
          cell = base + (6 XOR 8);
          s3 = set_next_free cell 0 (set_car cell NIL s2);
          s4 = set_count base 124 s3
      in set_next_page base link s4)"

text \<open>The last page of the chain of pages that starts with page \<open>nxt\<close> (0: there is none).\<close>

partial_function (option) last_page :: "vm \<Rightarrow> 32 word \<Rightarrow> 32 word \<Rightarrow> 32 word option" where
  "last_page s prior nxt =
     (if nxt \<noteq> 0 \<and> nxt \<noteq> CONSPAGE_LAST then last_page s nxt (pg_next_page s (FromLPage nxt))
      else Some prior)"

declare last_page.simps [code]

definition next_conspage :: "(vm \<Rightarrow> vm res) \<Rightarrow> LispPTR \<Rightarrow> vm \<Rightarrow> (LispPTR \<times> vm) res" where
  "next_conspage chk dirty s =
     rbind (alloc_mdspage chk dirty TYPE_LISTP s) (\<lambda>(page1, s1).
       let page2 = page1 + 256;
           s2 = init_conspage page2 0 s1;
           s3 = init_conspage page1 (LPage page2) s2
       in rbind (of_loop (last_page s3 0 (dtd_nextpage s3 ListpDTD))) (\<lambda>prior.
          let s4 = (if prior \<noteq> 0 then set_next_page (FromLPage prior) (LPage page1) s3
                    else set_dtd_nextpage ListpDTD (LPage page1) s3);
              s5 = (if pg_next_page s4 page2 \<noteq> 0
                    then log_error ''page2 has a next page??'' s4 else s4);
              s6 = (if prior \<noteq> 0 \<and> page2 = FromLPage prior
                    then log_error ''loop in conspage next_pages'' s5 else s5)
          in Inr (page1, s6)))"

partial_function (option) cdrable_search ::
  "LispPTR \<Rightarrow> LispPTR \<Rightarrow> 32 word \<Rightarrow> vm \<Rightarrow> (LispPTR option \<times> vm) res option" where
  "cdrable_search carpart cdrpart pgno s =
     (if pgno = 0 then Some (Inr (None, s))
      else case find_cdrpair_in_page (FromLPage pgno) carpart cdrpart s of
             Inl e \<Rightarrow> Some (Inl e)
           | Inr (Some cell, s1) \<Rightarrow> Some (Inr (Some cell, s1))
           | Inr (None, s1) \<Rightarrow> cdrable_search carpart cdrpart (pg_next_page s1 (FromLPage pgno)) s1)"

declare cdrable_search.simps [code]

definition need_cell :: "LispPTR option \<times> vm \<Rightarrow> (LispPTR \<times> vm) res" where
  "need_cell r = (case r of (Some cell, s) \<Rightarrow> Inr (cell, s) | (None, s) \<Rightarrow> Inl (Fatal ''null cons cell''))"

definition find_cdrable_pair ::
  "(vm \<Rightarrow> vm res) \<Rightarrow> LispPTR \<Rightarrow> LispPTR \<Rightarrow> LispPTR \<Rightarrow> vm \<Rightarrow> (LispPTR \<times> vm) res" where
  "find_cdrable_pair chk dirty carpart cdrpart s =
     rbind (of_loop_res (cdrable_search carpart cdrpart (dtd_nextpage s ListpDTD) s)) (\<lambda>(found, s1).
       case found of Some cell \<Rightarrow> Inr (cell, s1)
       | None \<Rightarrow>
           rbind (next_conspage chk dirty s1) (\<lambda>(pg, s2).
           rbind (find_cdrpair_in_page pg carpart cdrpart s2) need_cell))"

partial_function (option) cdrcodable_search ::
  "LispPTR \<Rightarrow> 32 word \<Rightarrow> vm \<Rightarrow> (LispPTR option \<times> vm) res option" where
  "cdrcodable_search cdrval pgno s =
     (if pgno = 0 then Some (Inr (None, s))
      else case find_pair_in_page (FromLPage pgno) cdrval s of
             Inl e \<Rightarrow> Some (Inl e)
           | Inr (Some cell, s1) \<Rightarrow> Some (Inr (Some cell, s1))
           | Inr (None, s1) \<Rightarrow> cdrcodable_search cdrval (pg_next_page s1 (FromLPage pgno)) s1)"

declare cdrcodable_search.simps [code]

definition find_cdrcodable_pair ::
  "(vm \<Rightarrow> vm res) \<Rightarrow> LispPTR \<Rightarrow> LispPTR \<Rightarrow> vm \<Rightarrow> (LispPTR \<times> vm) res" where
  "find_cdrcodable_pair chk dirty cdrval s =
     rbind (of_loop_res (cdrcodable_search cdrval (dtd_nextpage s ListpDTD) s)) (\<lambda>(found, s1).
       case found of Some cell \<Rightarrow> Inr (cell, s1)
       | None \<Rightarrow>
           rbind (next_conspage chk dirty s1) (\<lambda>(pg, s2).
           rbind (find_pair_in_page pg cdrval s2) need_cell))"

text \<open>\<open>find_free_cons_cell\<close> drops empty pages from the chain as it goes.\<close>

partial_function (option) free_cons_search :: "32 word \<Rightarrow> vm \<Rightarrow> (LispPTR option \<times> vm) option" where
  "free_cons_search pgno s =
     (if pgno = 0 then Some (None, s)
      else
        (let pg = FromLPage pgno
         in if pg_count s pg \<noteq> 0
            then
              (let s1 = set_count pg (pg_count s pg - 1) s;
                   cell = pg + pg_next_cell s1 pg
               in Some (Some cell, set_next_cell pg (next_free s1 cell) s1))
            else
              (let nxt = pg_next_page s pg;
                   s1 = set_dtd_nextpage ListpDTD nxt s
               in free_cons_search nxt (set_next_page pg CONSPAGE_LAST s1))))"

declare free_cons_search.simps [code]

definition find_free_cons_cell :: "vm \<Rightarrow> (LispPTR option \<times> vm) res" where
  "find_free_cons_cell s = of_loop (free_cons_search (dtd_nextpage s ListpDTD) s)"

section \<open>cons\<close>

text \<open>The three ways of \<open>N_OP_cons\<close> to a cell, with its contents filled in.\<close>

definition cons_nil :: "(vm \<Rightarrow> vm res) \<Rightarrow> LispPTR \<Rightarrow> LispPTR \<Rightarrow> vm \<Rightarrow> (LispPTR \<times> vm) res" where
  "cons_nil chk dirty cons_car s =
     rbind (find_free_cons_cell s) (\<lambda>(found, s1).
       case found of
         Some cell \<Rightarrow> Inr (cell, incr_cnt0 ListpDTD (set_code cell CDR_NIL (set_car cell cons_car s1)))
       | None \<Rightarrow>
           rbind (next_conspage chk dirty s1) (\<lambda>(pg, s2).
           let cell = pg + pg_next_cell s2 pg;
               s3 = set_count pg (pg_count s2 pg - 1) s2;
               s4 = set_next_cell pg (next_free s3 cell) s3
           in Inr (cell, incr_oldcnt ListpDTD (set_code cell CDR_NIL (set_car cell cons_car s4)))))"

definition cons_pair ::
  "(vm \<Rightarrow> vm res) \<Rightarrow> LispPTR \<Rightarrow> LispPTR \<Rightarrow> LispPTR \<Rightarrow> vm \<Rightarrow> (LispPTR \<times> vm) res" where
  "cons_pair chk dirty cons_car cons_cdr s =
     rbind (find_cdrcodable_pair chk dirty cons_cdr s) (\<lambda>(cell, s1).
       Inr (cell, incr_oldcnt ListpDTD (set_car cell cons_car s1)))"

definition N_OP_cons ::
  "(vm \<Rightarrow> vm res) \<Rightarrow> LispPTR \<Rightarrow> LispPTR \<Rightarrow> LispPTR \<Rightarrow> vm \<Rightarrow> (LispPTR \<times> vm) res" where
  "N_OP_cons chk dirty cons_car cons_cdr0 s =
     (let cons_cdr = cons_cdr0 AND POINTERMASK
      in rbind (GCLOOKUP cons_cdr ADDREF s) (\<lambda>s1.
         rbind (GCLOOKUP cons_car ADDREF s1) (\<lambda>s2.
         rbind
           (if cons_cdr = NIL then cons_nil chk dirty cons_car s2
            else
              (let page = FromLPage (POINTER_PAGE cons_cdr)
               in rbind (if Listp s2 cons_cdr \<and> pg_count s2 page > 0
                         then find_close_prior_cell page cons_cdr s2 else Inr (None, s2)) (\<lambda>(found, s3).
                  case found of
                    Some cell \<Rightarrow> Inr (cell, incr_cnt0 ListpDTD (set_car cell cons_car s3))
                  | None \<Rightarrow> cons_pair chk dirty cons_car cons_cdr s3))) (\<lambda>(new_page, s4).
         rbind (GCLOOKUP new_page DELREF s4) (\<lambda>s5.
         Inr (new_page,
              if 254 < (new_page AND 0xFF) + push_bit 1 (cdr_code s5 new_page AND 7)
              then log_error ''in CONS, cdr code too big.'' s5 else s5))))))"

section \<open>rplacd\<close>

definition rplacd ::
  "(vm \<Rightarrow> vm res) \<Rightarrow> LispPTR \<Rightarrow> LispPTR \<Rightarrow> LispPTR \<Rightarrow> vm \<Rightarrow> (LispPTR \<times> vm) res" where
  "rplacd chk dirty x y s =
     (if \<not> Listp s x
      then (if x = NIL
            then (if y \<noteq> NIL then Inr (x, log_error ''Attempt to RPLACD NIL'' s) else Inr (NIL, s))
            else Inr (x, log_error ''ARG not List'' s))
      else rbind (cdr s x) (\<lambda>old.
           rbind (GCLOOKUP old DELREF s) (\<lambda>s1.
           rbind (GCLOOKUP y ADDREF s1) (\<lambda>s2.
           let code = cdr_code s2 x; rp_page = POINTER_PAGEBASE x
           in if code = CDR_INDIRECT
              then (let t = car_field s2 x;
                        cell = t + push_bit 1 (cdr_code s2 t)
                    in Inr (x, wr cell (y AND POINTERMASK) s2))
              else if code \<le> CDR_MAXINDIRECT
              then Inr (x, wr (x + push_bit 1 code) (y AND POINTERMASK) s2)
              else if y = NIL then Inr (x, set_code x CDR_NIL s2)
              else if rp_page = POINTER_PAGEBASE y \<and> y > x \<and> y \<le> x + 14
              then Inr (x, set_code x (CDR_ONPAGE + drop_bit 1 (y - x)) s2)
              else
                rbind (if pg_count s2 rp_page > 0 then find_close_cell rp_page x s2 else Inr (None, s2))
                  (\<lambda>(found, s3).
                  case found of
                    Some cell \<Rightarrow>
                      Inr (x, set_code x (drop_bit 1 (cell - x)) (wr cell (y AND POINTERMASK) s3))
                  | None \<Rightarrow>
                      rbind (find_cdrable_pair chk dirty x y s3) (\<lambda>(temp, s4).
                      let s5 = set_car temp (car_field s4 x) s4;
                          s6 = set_car x temp s5
                      in Inr (x, set_code x CDR_INDIRECT s6)))))))"

definition N_OP_rplacd ::
  "(vm \<Rightarrow> vm res) \<Rightarrow> LispPTR \<Rightarrow> LispPTR \<Rightarrow> LispPTR \<Rightarrow> vm \<Rightarrow> (LispPTR \<times> vm) res" where
  "N_OP_rplacd chk dirty tosm1 tos s =
     (if \<not> Listp s tosm1
      then (if tosm1 = NIL then (if tos \<noteq> NIL then Inl (Ufn tos) else Inr (tosm1, s)) else Inl (Ufn tos))
      else rbind (rplacd chk dirty tosm1 tos s) (\<lambda>(_, s1). Inr (tosm1, s1)))"

definition N_OP_rplcons ::
  "(vm \<Rightarrow> vm res) \<Rightarrow> LispPTR \<Rightarrow> LispPTR \<Rightarrow> LispPTR \<Rightarrow> vm \<Rightarrow> (LispPTR \<times> vm) res" where
  "N_OP_rplcons chk dirty list item s =
     (if \<not> Listp s list then Inl (Ufn item)
      else rbind (N_OP_cons chk dirty item NIL s) (\<lambda>(new, s1).
           rbind (N_OP_rplacd chk dirty list new s1) (\<lambda>(_, s2). Inr (new, s2))))"

section \<open>Freeing a cell\<close>

text \<open>The place where \<open>freelistcell\<close> inserts: the cell before it (0: none) and the cell after it.\<close>

partial_function (option) freelist_place ::
  "vm \<Rightarrow> LispPTR \<Rightarrow> 32 word \<Rightarrow> 32 word \<Rightarrow> 32 word \<Rightarrow> (32 word \<times> 32 word) option" where
  "freelist_place s pg celloffset prior off =
     (if off = 0 then Some (prior, off)
      else if (6 XOR off) < (6 XOR celloffset) then Some (prior, off)
      else freelist_place s pg celloffset off (next_free s (pg + off)))"

declare freelist_place.simps [code]

definition freelistcell :: "LispPTR \<Rightarrow> vm \<Rightarrow> vm res" where
  "freelistcell cell s =
     (let pbase = FromLPage (POINTER_PAGE cell);
          celloffset = cell AND 0xFF;
          s0 = (if celloffset < 8
                then log_error ''freeing CONS cell that's really freelist ptr'' s else s)
      in rbind
           (if pg_count s0 pbase \<noteq> 0
            then rbind (of_loop (freelist_place s0 pbase celloffset 0 (pg_next_cell s0 pbase))) (\<lambda>(prior, off).
                 Inr (set_next_free cell off (unchain pbase prior celloffset s0)))
            else Inr (set_next_free (pbase + celloffset) 0 (set_next_cell pbase celloffset s0))) (\<lambda>s1.
         let s2 = set_count pbase (pg_count s1 pbase + 1) s1
         in if pg_count s2 pbase > 32 \<and> pg_next_page s2 pbase = CONSPAGE_LAST
            then (let s3 = set_next_page pbase (dtd_nextpage s2 ListpDTD) s2
                  in Inr (set_dtd_nextpage ListpDTD (POINTER_PAGE cell) s3))
            else Inr s2))"

section \<open>List functions\<close>

text \<open>\<open>fmemb\<close> for C callers, and the opcode, which stops when an interrupt is pending.\<close>

partial_function (option) fmemb_loop :: "vm \<Rightarrow> LispPTR \<Rightarrow> LispPTR \<Rightarrow> LispPTR res option" where
  "fmemb_loop s item list =
     (if Listp s list
      then (case car s list of
              Inl e \<Rightarrow> Some (Inl e)
            | Inr a \<Rightarrow>
                (if item = a then Some (Inr list)
                 else case cdr s list of Inl e \<Rightarrow> Some (Inl e) | Inr d \<Rightarrow> fmemb_loop s item d))
      else Some (Inr list))"

declare fmemb_loop.simps [code]

definition fmemb :: "vm \<Rightarrow> LispPTR \<Rightarrow> LispPTR \<Rightarrow> LispPTR res" where
  "fmemb s item list = of_loop_res (fmemb_loop s item list)"

partial_function (option) op_fmemb_loop :: "vm \<Rightarrow> LispPTR \<Rightarrow> LispPTR \<Rightarrow> LispPTR res option" where
  "op_fmemb_loop s item tos =
     (if Listp s tos
      then (case car s tos of
              Inl e \<Rightarrow> Some (Inl e)
            | Inr a \<Rightarrow>
                (if item = a then Some (Inr tos)
                 else case cdr s tos of
                        Inl e \<Rightarrow> Some (Inl e)
                      | Inr d \<Rightarrow> (if Irq_Stk_End s = 0 then Some (Inl (Timer d)) else op_fmemb_loop s item d)))
      else Some (if tos \<noteq> NIL then Inl (Ufn tos) else Inr tos))"

declare op_fmemb_loop.simps [code]

definition N_OP_fmemb :: "LispPTR \<Rightarrow> LispPTR \<Rightarrow> vm \<Rightarrow> LispPTR res" where
  "N_OP_fmemb item tos s = of_loop_res (op_fmemb_loop s item tos)"

text \<open>
  \<open>N_OP_listget\<close>: \<open>cadr\<close> is car and cdr together; an exit leaves the rest of the list in
  \<open>Scratch_CSTK\<close>, which is part of the result here.
\<close>

datatype listget_exit = Found LispPTR | Punt LispPTR lisp_error

partial_function (option) listget_loop :: "vm \<Rightarrow> LispPTR \<Rightarrow> LispPTR \<Rightarrow> listget_exit res option" where
  "listget_loop s tos plist =
     (if plist = NIL then Some (Inr (Found NIL))
      else if \<not> Listp s plist then Some (Inr (Punt plist (Ufn tos)))
      else case (car s plist, cdr s plist) of
        (Inr a, Inr d) \<Rightarrow>
          (if a = tos
           then if d = NIL then Some (Inr (Found NIL))
                else if Listp s d
                then (case car s d of Inl e \<Rightarrow> Some (Inl e) | Inr v \<Rightarrow> Some (Inr (Found v)))
                else Some (Inr (Punt plist (Ufn tos)))
           else if \<not> Listp s d then Some (Inr (Found NIL))
           else case (car s d, cdr s d) of
             (Inr _, Inr dd) \<Rightarrow>
               (if Irq_Stk_End s = 0 then Some (Inr (Punt dd (Timer tos))) else listget_loop s tos dd)
           | (Inl e, _) \<Rightarrow> Some (Inl e)
           | (_, Inl e) \<Rightarrow> Some (Inl e))
      | (Inl e, _) \<Rightarrow> Some (Inl e)
      | (_, Inl e) \<Rightarrow> Some (Inl e))"

declare listget_loop.simps [code]

definition N_OP_listget :: "LispPTR \<Rightarrow> LispPTR \<Rightarrow> vm \<Rightarrow> (LispPTR \<times> vm) res" where
  "N_OP_listget plist tos s =
     rbind (of_loop_res (listget_loop s tos plist)) (\<lambda>r.
       case r of Found v \<Rightarrow> Inr (v, s) | Punt rest e \<Rightarrow> Inl e)"

definition listget_scratch :: "LispPTR \<Rightarrow> LispPTR \<Rightarrow> vm \<Rightarrow> vm" where
  "listget_scratch plist tos s =
     (case of_loop_res (listget_loop s tos plist) of
        Inr (Punt rest e) \<Rightarrow> s\<lparr>Scratch_CSTK := rest\<rparr> | _ \<Rightarrow> s)"

section \<open>dremove and the storage check\<close>

partial_function (option) dremove_tail ::
  "(vm \<Rightarrow> vm res) \<Rightarrow> LispPTR \<Rightarrow> LispPTR \<Rightarrow> LispPTR \<Rightarrow> LispPTR \<Rightarrow> vm \<Rightarrow> (LispPTR \<times> vm) res option" where
  "dremove_tail chk dirty x z l s =
     (case cdr s l of
        Inl e \<Rightarrow> Some (Inl e)
      | Inr d \<Rightarrow>
          (if \<not> Listp s d then Some (Inr (z, s))
           else case car s d of
             Inl e \<Rightarrow> Some (Inl e)
           | Inr a \<Rightarrow>
               (if x = a
                then (case rbind (cdr s d) (\<lambda>dd. rplacd chk dirty l dd s) of
                        Inl e \<Rightarrow> Some (Inl e)
                      | Inr (_, s1) \<Rightarrow> dremove_tail chk dirty x z l s1)
                else dremove_tail chk dirty x z d s)))"

declare dremove_tail.simps [code]

partial_function (option) dremove ::
  "(vm \<Rightarrow> vm res) \<Rightarrow> LispPTR \<Rightarrow> LispPTR \<Rightarrow> LispPTR \<Rightarrow> vm \<Rightarrow> (LispPTR \<times> vm) res option" where
  "dremove chk dirty x l s =
     (if \<not> Listp s l then Some (Inr (NIL, s))
      else case car s l of
        Inl e \<Rightarrow> Some (Inl e)
      | Inr a \<Rightarrow>
          (if x = a
           then (case cdr s l of
                   Inl e \<Rightarrow> Some (Inl e)
                 | Inr d \<Rightarrow>
                     (if d \<noteq> NIL
                      then (case rbind (car s d) (\<lambda>ad. rbind (rplaca l ad s) (\<lambda>(_, s1).
                                 rbind (cdr s1 l) (\<lambda>d1. rbind (cdr s1 d1) (\<lambda>dd.
                                 rplacd chk dirty l dd s1)))) of
                              Inl e \<Rightarrow> Some (Inl e)
                            | Inr (_, s2) \<Rightarrow> dremove chk dirty x l s2)
                      else Some (Inr (NIL, s))))
           else dremove_tail chk dirty x l l s))"

declare dremove.simps [code]

text \<open>
  The circle of the storage check, unrolled \<open>n\<close> times. The check conses only when the storage
  state is not set yet, and sets it before it conses, so a check inside that \<open>cons\<close> does not cons
  again.
\<close>

fun storage_check :: "nat \<Rightarrow> LispPTR \<Rightarrow> LispPTR \<Rightarrow> 32 word \<Rightarrow> vm \<Rightarrow> vm res" where
  "storage_check 0 idx dirty npages s = Inl Diverges"
| "storage_check (Suc n) idx dirty npages s =
     checkfor_storagefull
       (\<lambda>l s. N_OP_cons (storage_check n idx dirty 0) dirty idx l s)
       (\<lambda>l s. of_loop_res (dremove (storage_check n idx dirty 0) dirty idx l s))
       npages s"

end
