(* ===== verification/Cons_Pages.thy ===== *)
theory Cons_Pages
  imports Conses
begin

text \<open>
  The free cells of a cons page are a chain with its head in the page header. The interface
  \<open>free_chain\<close> states the laws of such a chain; the page provides it, and the searches of
  \<open>src/conspage.c\<close> and \<open>src/car-cdr.c\<close> are proved with it.
\<close>

section \<open>Fields of a cell\<close>

lemma bit_and_pm: "bit (c AND POINTERMASK) n \<longleftrightarrow> bit c n \<and> n < 28"
  by (auto simp: bit_and_iff bit_pointermask)

lemma car_code_join [simp]:
  "car_of (push_bit 28 k OR (v AND POINTERMASK)) = v AND POINTERMASK"
  "code_of (push_bit 28 k OR (v AND POINTERMASK)) = take_bit 4 k"
proof -
  show "car_of (push_bit 28 k OR (v AND POINTERMASK)) = v AND POINTERMASK"
    unfolding car_of_def
    by (rule bit_word_eqI) (auto simp: bit_and_pm bit_or_iff bit_push_bit_iff)
  have "bit (drop_bit 28 (push_bit 28 k OR (v AND POINTERMASK))) n = bit (take_bit 4 k) n" if n: "n < 32" for n
  proof (cases "n < 4")
    case True
    then show ?thesis
      by (simp only: bit_drop_bit_eq comp_apply bit_or_iff bit_push_bit_iff bit_and_pm bit_take_bit_iff) simp
  next
    case False
    then have "\<not> bit w (28 + n)" for w :: "32 word" by (auto dest: bit_imp_le_length)
    then show ?thesis using False
      by (simp only: bit_drop_bit_eq comp_apply bit_take_bit_iff) simp
  qed
  then show "code_of (push_bit 28 k OR (v AND POINTERMASK)) = take_bit 4 k"
    unfolding code_of_def by (intro bit_word_eqI) simp
qed

lemma car_of_idem [simp]: "car_of c AND POINTERMASK = car_of c" "car_of (car_of c) = car_of c"
  by (simp_all add: car_of_def and.assoc)

lemma take_4_code [simp]: "take_bit 4 (code_of c) = code_of c"
  unfolding code_of_def
  by (rule bit_word_eqI) (auto simp: bit_take_bit_iff bit_drop_bit_eq dest: bit_imp_le_length)

lemma bit_24: "bit (c AND 0xFFFFFF :: 32 word) n \<longleftrightarrow> bit c n \<and> n < 24"
proof -
  have "(0xFFFFFF :: 32 word) = mask 24" by (simp add: mask_eq_exp_minus_1)
  then show ?thesis by (simp only: bit_and_iff bit_mask_iff) auto
qed

lemma next_free_set [simp]:
  "next_free (set_next_free a n s) b = (if b = a then take_bit 8 n else next_free s b)"
proof -
  have "drop_bit 24 (push_bit 24 n OR (c AND 0xFFFFFF)) = take_bit 8 (n :: 32 word)" for c
    by (rule bit_word_eqI) (auto simp: bit_drop_bit_eq bit_or_iff bit_push_bit_iff bit_24 bit_take_bit_iff)
  then show ?thesis by (simp add: next_free_def set_next_free_def rd_wr)
qed

lemma next_free_small: "take_bit 8 (next_free s a) = next_free s a"
  unfolding next_free_def
  by (rule bit_word_eqI) (auto simp: bit_take_bit_iff bit_drop_bit_eq dest: bit_imp_le_length)

lemma bit_ff: "bit (c AND 0xFF :: 32 word) n \<longleftrightarrow> bit c n \<and> n < 8"
proof -
  have "(0xFF :: 32 word) = mask 8" by (simp add: mask_eq_exp_minus_1)
  then show ?thesis by (simp only: bit_and_iff bit_mask_iff) auto
qed

lemma and_ff: "c AND 0xFF = take_bit 8 (c :: 32 word)"
  by (rule bit_word_eqI) (auto simp: bit_ff bit_take_bit_iff)

lemma bit_hole: "bit (c AND 0xFF00FFFF :: 32 word) n \<longleftrightarrow> bit c n \<and> (n < 16 \<or> 24 \<le> n)"
proof -
  have "(0xFF00FFFF :: 32 word) = push_bit 24 0xFF OR 0xFFFF" by simp
  moreover have "(0xFF :: 32 word) = mask 8" "(0xFFFF :: 32 word) = mask 16"
    by (simp_all add: mask_eq_exp_minus_1)
  ultimately have m: "(0xFF00FFFF :: 32 word) = push_bit 24 (mask 8) OR mask 16" by simp
  show ?thesis unfolding m
    by (auto simp: bit_and_iff bit_or_iff bit_push_bit_iff bit_mask_iff dest: bit_imp_le_length)
qed

lemma header_fields [simp]:
  "pg_next_cell (set_next_cell pg n s) pg = take_bit 8 n"
  "pg_count (set_next_cell pg n s) pg = pg_count s pg"
  "pg_count (set_count pg n s) pg = take_bit 8 n"
  "pg_next_cell (set_count pg n s) pg = pg_next_cell s pg"
proof -
  have a: "drop_bit 16 (push_bit 16 (n AND 0xFF) OR (c AND 0xFF00FFFF)) AND 0xFF = take_bit 8 n" for c :: "32 word"
    by (rule bit_word_eqI)
       (simp only: bit_ff bit_drop_bit_eq comp_apply bit_or_iff bit_push_bit_iff bit_hole bit_take_bit_iff, auto)
  have b: "drop_bit 24 (push_bit 16 (n AND 0xFF) OR (c AND 0xFF00FFFF)) = drop_bit 24 c" for c :: "32 word"
    by (rule bit_word_eqI) (auto simp: bit_ff bit_drop_bit_eq bit_or_iff bit_push_bit_iff bit_hole
        dest: bit_imp_le_length)
  have c: "drop_bit 24 (push_bit 24 n OR (c AND 0xFFFFFF)) = take_bit 8 n" for c :: "32 word"
    by (rule bit_word_eqI) (auto simp: bit_drop_bit_eq bit_or_iff bit_push_bit_iff bit_24 bit_take_bit_iff)
  have d: "drop_bit 16 (push_bit 24 n OR (c AND 0xFFFFFF)) AND 0xFF = drop_bit 16 c AND 0xFF" for c :: "32 word"
    by (rule bit_word_eqI) (auto simp: bit_ff bit_drop_bit_eq bit_or_iff bit_push_bit_iff bit_24)
  show "pg_next_cell (set_next_cell pg n s) pg = take_bit 8 n"
    "pg_count (set_next_cell pg n s) pg = pg_count s pg"
    "pg_count (set_count pg n s) pg = take_bit 8 n"
    "pg_next_cell (set_count pg n s) pg = pg_next_cell s pg"
    by (simp_all only: pg_next_cell_def pg_count_def set_next_cell_def set_count_def rd_wr a b c d simp_thms if_True)
qed

section \<open>Chains with a head\<close>

locale free_chain =
  fixes nxt :: "'s \<Rightarrow> 'k \<Rightarrow> 'k" and first :: "'s \<Rightarrow> 'k"
    and setn :: "'k \<Rightarrow> 'k \<Rightarrow> 's \<Rightarrow> 's" and setf :: "'k \<Rightarrow> 's \<Rightarrow> 's"
    and none :: 'k and good :: "'k \<Rightarrow> bool"
  assumes none_bad: "\<not> good none"
    and nxt_setn: "good a \<Longrightarrow> good b \<Longrightarrow> good v \<or> v = none \<Longrightarrow> nxt (setn a v s) b = (if b = a then v else nxt s b)"
    and first_setn: "good a \<Longrightarrow> first (setn a v s) = first s"
    and nxt_setf: "good b \<Longrightarrow> nxt (setf v s) b = nxt s b"
    and first_setf: "good v \<or> v = none \<Longrightarrow> first (setf v s) = v"
begin

fun fpath :: "'s \<Rightarrow> 'k \<Rightarrow> 'k list \<Rightarrow> bool" where
  "fpath s k [] \<longleftrightarrow> k = none"
| "fpath s k (x # xs) \<longleftrightarrow> k = x \<and> good x \<and> fpath s (nxt s x) xs"

lemma fpath_good: "fpath s k xs \<Longrightarrow> x \<in> set xs \<Longrightarrow> good x"
  by (induction xs arbitrary: k) auto

lemma fpath_head: "fpath s k xs \<Longrightarrow> good k \<or> k = none"
  by (cases xs) auto

lemma fpath_frame: "\<forall>x \<in> set xs. nxt s' x = nxt s x \<Longrightarrow> fpath s' k xs = fpath s k xs"
  by (induction xs arbitrary: k) auto

lemma fpath_append: "fpath s k (xs @ ys) \<longleftrightarrow>
    (if xs = [] then fpath s k ys
     else (\<forall>x \<in> set xs. good x) \<and> k = hd xs \<and>
       (\<forall>i. Suc i < length xs \<longrightarrow> nxt s (xs ! i) = xs ! Suc i) \<and> fpath s (nxt s (last xs)) ys)"
proof (induction xs arbitrary: k)
  case (Cons x xs)
  show ?case
  proof (cases xs)
    case (Cons y zs)
    have "(\<forall>i. Suc i < length (x # xs) \<longrightarrow> nxt s ((x # xs) ! i) = (x # xs) ! Suc i) \<longleftrightarrow>
        nxt s x = y \<and> (\<forall>i. Suc i < length xs \<longrightarrow> nxt s (xs ! i) = xs ! Suc i)"
      unfolding Cons by (auto simp: nth_Cons split: nat.splits)
    then show ?thesis using Cons.IH Cons by auto
  qed auto
qed simp

text \<open>The cell before a place, with \<open>none\<close> for the head.\<close>

definition before :: "'k list \<Rightarrow> 'k" where
  "before xs = (if xs = [] then none else last xs)"

definition relink :: "'k \<Rightarrow> 'k \<Rightarrow> 's \<Rightarrow> 's" where
  "relink p v s = (if p = none then setf v s else setn p v s)"

lemma fpath_last: "fpath s k (xs @ ys) \<Longrightarrow> fpath s (if xs = [] then k else nxt s (last xs)) ys"
  by (simp add: fpath_append split: if_splits)

text \<open>Replacing everything behind a place.\<close>

lemma fpath_relink:
  assumes c: "fpath s (first s) (xs @ ys)" "distinct xs"
    and z: "fpath (relink (before xs) v s) v zs"
  shows "fpath (relink (before xs) v s) (first (relink (before xs) v s)) (xs @ zs)"
proof (cases "xs = []")
  case True
  then show ?thesis using z fpath_head [OF z] by (simp add: before_def relink_def first_setf)
next
  case False
  let ?s = "setn (last xs) v s"
  have gl: "good (last xs)" using fpath_good [OF c(1)] False by simp
  have r: "relink (before xs) v s = ?s" using False gl none_bad by (auto simp: before_def relink_def)
  have gv: "good v \<or> v = none" by (rule fpath_head [OF z])
  have n: "nxt ?s x = (if x = last xs then v else nxt s x)" if "good x" for x
    using nxt_setn [OF gl that gv] by simp
  have b: "(\<forall>x \<in> set xs. good x) \<and> first s = hd xs \<and> (\<forall>i. Suc i < length xs \<longrightarrow> nxt s (xs ! i) = xs ! Suc i)"
    using c(1) False by (simp add: fpath_append)
  have "\<forall>i. Suc i < length xs \<longrightarrow> nxt ?s (xs ! i) = xs ! Suc i"
  proof (intro allI impI)
    fix i assume i: "Suc i < length xs"
    have "xs ! i \<noteq> last xs" using i c(2) False by (simp add: last_conv_nth nth_eq_iff_index_eq)
    then show "nxt ?s (xs ! i) = xs ! Suc i" using n [of "xs ! i"] b i by simp
  qed
  then show ?thesis using z b False n [OF gl] gl unfolding r by (simp add: fpath_append first_setn)
qed

text \<open>Taking one cell out, and putting one in.\<close>

lemma fpath_remove:
  assumes c: "fpath s (first s) (xs @ x # ys)" and d: "distinct (xs @ x # ys)"
  shows "fpath (relink (before xs) (nxt s x) s) (first (relink (before xs) (nxt s x) s)) (xs @ ys)"
proof (rule fpath_relink [OF c])
  have y: "fpath s (nxt s x) ys" using fpath_last [OF c] by simp
  have gx: "\<forall>y \<in> set (xs @ x # ys). good y" using fpath_good [OF c] by blast
  have v: "good (nxt s x) \<or> nxt s x = none" by (rule fpath_head [OF y])
  have "\<forall>y \<in> set ys. nxt (relink (before xs) (nxt s x) s) y = nxt s y"
  proof
    fix y assume y: "y \<in> set ys"
    have "xs \<noteq> [] \<Longrightarrow> good (last xs) \<and> last xs \<noteq> none \<and> last xs \<noteq> y"
    proof -
      assume x: "xs \<noteq> []"
      have l: "last xs \<in> set xs" using x by (rule last_in_set)
      then have "good (last xs)" using gx by simp
      moreover have "set xs \<inter> set ys = {}" using d by auto
      ultimately show ?thesis using l y none_bad by blast
    qed
    then show "nxt (relink (before xs) (nxt s x) s) y = nxt s y"
      using gx y v nxt_setn [of "last xs" y "nxt s x" s] nxt_setf [of y "nxt s x" s]
      by (auto simp: relink_def before_def)
  qed
  then show "fpath (relink (before xs) (nxt s x) s) (nxt s x) ys"
    using y fpath_frame by blast
qed (use d in simp)

lemma fpath_insert:
  assumes c: "fpath s (first s) (xs @ ys)" and d: "distinct (xs @ ys)" and x: "good x" "x \<notin> set (xs @ ys)"
  defines "v \<equiv> (if xs = [] then first s else nxt s (last xs))"
  shows "fpath (setn x v (relink (before xs) x s)) (first (setn x v (relink (before xs) x s))) (xs @ x # ys)"
proof -
  let ?s1 = "relink (before xs) x s"
  let ?s = "setn x v ?s1"
  have y: "fpath s v ys" using fpath_last [OF c] by (simp add: v_def)
  have gs: "\<forall>y \<in> set (xs @ ys). good y" using fpath_good [OF c] by blast
  have gv: "good v \<or> v = none" by (rule fpath_head [OF y])
  have n1: "nxt ?s1 y = (if xs \<noteq> [] \<and> y = last xs then x else nxt s y)" if "good y" for y
  proof -
    have "xs \<noteq> [] \<Longrightarrow> good (last xs) \<and> last xs \<noteq> none" using gs last_in_set [of xs] none_bad by auto
    then show ?thesis using that x nxt_setn [of "last xs" y x s] nxt_setf [of y x s]
      by (auto simp: relink_def before_def)
  qed
  have n: "nxt ?s y = (if y = x then v else nxt ?s1 y)" if "good y" for y
    using nxt_setn [OF x(1) that gv] by simp
  have gl: "xs \<noteq> [] \<Longrightarrow> good (last xs) \<and> last xs \<noteq> none" using gs last_in_set [of xs] none_bad by auto
  have f: "first ?s = (if xs = [] then x else first s)"
    using x gl by (auto simp: first_setn relink_def before_def first_setf)
  have ny: "nxt ?s y = nxt s y" if y: "y \<in> set ys" for y
  proof -
    have "set xs \<inter> set ys = {}" using d by auto
    then have "xs \<noteq> [] \<Longrightarrow> y \<noteq> last xs" using y last_in_set [of xs] by blast
    then show ?thesis using y gs n n1 x(2) by auto
  qed
  have tail: "fpath ?s x (x # ys)"
    using y x n [OF x(1)] fpath_frame [of ys ?s s v] ny by simp
  show ?thesis
  proof (cases "xs = []")
    case True
    then show ?thesis using tail f by simp
  next
    case False
    have b: "(\<forall>x \<in> set xs. good x) \<and> first s = hd xs \<and> (\<forall>i. Suc i < length xs \<longrightarrow> nxt s (xs ! i) = xs ! Suc i)"
      using c False by (simp add: fpath_append)
    have "nxt ?s (xs ! i) = xs ! Suc i" if i: "Suc i < length xs" for i
    proof -
      have "xs ! i \<noteq> last xs" using i d False by (simp add: last_conv_nth nth_eq_iff_index_eq)
      moreover have "xs ! i \<in> set xs" using i by simp
      ultimately show ?thesis using n [of "xs ! i"] n1 [of "xs ! i"] b i x(2) by auto
    qed
    moreover have "nxt ?s (last xs) = x"
      using n [of "last xs"] n1 [of "last xs"] False gs x(2) by auto
    ultimately show ?thesis using tail f b False by (simp add: fpath_append)
  qed
qed

end

section \<open>The page as a chain\<close>

definition is_off :: "32 word \<Rightarrow> bool" where
  "is_off k \<longleftrightarrow> 8 \<le> k \<and> k < 256"

lemma is_off_take: "is_off k \<or> k = 0 \<Longrightarrow> take_bit 8 k = k"
proof -
  assume "is_off k \<or> k = 0"
  then have "unat k < 256" by (auto simp: is_off_def word_less_nat_alt)
  then have "unat (take_bit 8 k) = unat k" by (simp add: unsigned_take_bit_eq take_bit_eq_mod [where 'a = nat])
  then show ?thesis by (simp only: word_unat_eq_iff)
qed

lemma is_off_header: "is_off k \<Longrightarrow> k \<noteq> 4 \<and> k \<noteq> 6 \<and> k \<noteq> 0"
  by (auto simp: is_off_def)

lemma header_frame [simp]:
  "k \<noteq> 4 \<Longrightarrow> next_free (set_next_cell pg n s) (pg + k) = next_free s (pg + k)"
  "k \<noteq> 4 \<Longrightarrow> next_free (set_count pg n s) (pg + k) = next_free s (pg + k)"
  "k \<noteq> 4 \<Longrightarrow> pg_next_cell (set_next_free (pg + k) n s) pg = pg_next_cell s pg"
  "k \<noteq> 4 \<Longrightarrow> pg_count (set_next_free (pg + k) n s) pg = pg_count s pg"
  by (simp_all add: next_free_def pg_next_cell_def pg_count_def set_next_cell_def set_count_def
      set_next_free_def rd_wr)

interpretation page: free_chain "\<lambda>s k. next_free s (pg + k)" "\<lambda>s. pg_next_cell s pg"
    "\<lambda>k v. set_next_free (pg + k) v" "set_next_cell pg" 0 is_off
  for pg
proof unfold_locales
  show "\<not> is_off 0" by (simp add: is_off_def)
qed (auto dest: is_off_header simp: is_off_take)

end
