(* ===== verification/Cons_Laws.thy ===== *)
theory Cons_Laws
  imports Cons_Pages
begin

text \<open>
  What the operations on cons cells promise: the searches take a cell or a pair of cells off a page's
  free chain within the distance a cdr code can express, a freed cell goes back onto the chain, a new
  page starts with all its 124 cells free, and \<open>car\<close>, \<open>cdr\<close> read what \<open>cons\<close>, \<open>rplaca\<close>
  and \<open>rplacd\<close> stored.
\<close>

section \<open>Searching a chain\<close>

fun seek :: "('k \<Rightarrow> bool) \<Rightarrow> 'k \<Rightarrow> 'k list \<Rightarrow> ('k \<times> 'k) option" where
  "seek P p [] = None"
| "seek P p (x # xs) = (if P x then Some (p, x) else seek P x xs)"

lemma seek_None: "seek P p xs = None \<longleftrightarrow> (\<forall>x \<in> set xs. \<not> P x)"
  by (induction xs arbitrary: p) auto

definition prior_of :: "32 word list \<Rightarrow> 32 word" where
  "prior_of us = (if us = [] then 0 else last us)"

lemma seek_Some_aux: "seek P p xs = Some (q, x) \<Longrightarrow>
    \<exists>us vs. xs = us @ x # vs \<and> P x \<and> q = (if us = [] then p else last us)"
proof (induction xs arbitrary: p)
  case (Cons y ys)
  show ?case
  proof (cases "P y")
    case True
    then show ?thesis using Cons.prems by (intro exI [of _ "[]"] exI [of _ ys]) auto
  next
    case False
    then obtain us vs where "ys = us @ x # vs" "P x" "q = (if us = [] then y else last us)"
      using Cons.IH [of y] Cons.prems by auto
    then show ?thesis by (intro exI [of _ "y # us"] exI [of _ vs]) auto
  qed
qed simp

lemma seek_Some: "seek P 0 xs = Some (q, x) \<Longrightarrow> \<exists>us vs. xs = us @ x # vs \<and> P x \<and> q = prior_of us"
  unfolding prior_of_def by (rule seek_Some_aux)

lemma close_search_path: "page.fpath pg s k xs \<Longrightarrow>
    close_search s pg old p k = Some (seek (\<lambda>x. x > old \<and> x \<le> old + 14) p xs)"
  by (induction xs arbitrary: k p; subst close_search.simps) (auto dest: is_off_header)

lemma close_prior_search_path: "page.fpath pg s k xs \<Longrightarrow>
    close_prior_search s pg old p k = Some (seek (\<lambda>x. x < old \<and> x \<ge> old - 14) p xs)"
  by (induction xs arbitrary: k p; subst close_prior_search.simps) (auto dest: is_off_header)

lemma freelist_place_path: "page.fpath pg s k xs \<Longrightarrow>
    \<exists>us vs. xs = us @ vs \<and>
      freelist_place s pg cell p k = Some (if us = [] then p else last us, if vs = [] then 0 else hd vs)"
proof (induction xs arbitrary: k p)
  case Nil
  then show ?case by (subst freelist_place.simps) auto
next
  case (Cons x xs)
  then have x: "k = x" "x \<noteq> 0" "page.fpath pg s (next_free s (pg + x)) xs" by (auto dest: is_off_header)
  show ?case
  proof (cases "(6 XOR x) < (6 XOR cell)")
    case True
    then show ?thesis using x by (intro exI [of _ "[]"] exI [of _ "x # xs"]) (subst freelist_place.simps, auto)
  next
    case False
    obtain us vs where "xs = us @ vs" "freelist_place s pg cell x (next_free s (pg + x)) =
        Some (if us = [] then x else last us, if vs = [] then 0 else hd vs)"
      using Cons.IH [OF x(3)] by blast
    then show ?thesis using x False
      by (intro exI [of _ "x # us"] exI [of _ vs]) (subst freelist_place.simps, auto)
  qed
qed

text \<open>Climbing stops at a later place of the chain.\<close>

lemma climb_path: "page.fpath pg s k (k # xs) \<Longrightarrow>
    \<exists>us x vs. k # xs = us @ x # vs \<and> climb s pg bound p k = Some (if us = [] then p else last us, x) \<and>
      k \<le> x \<and> (k < bound \<longrightarrow> x < bound)"
proof (induction xs arbitrary: k p)
  case Nil
  then have "next_free s (pg + k) = 0" by simp
  then show ?case by (intro exI [of _ "[]"] exI [of _ k]) (subst climb.simps, auto simp: Let_def)
next
  case (Cons y ys)
  then have y: "next_free s (pg + k) = y" "page.fpath pg s y (y # ys)" by auto
  show ?case
  proof (cases "y > k \<and> y < bound")
    case False
    then show ?thesis using y
      by (intro exI [of _ "[]"] exI [of _ k] exI [of _ "y # ys"]) (subst climb.simps, auto simp: Let_def)
  next
    case True
    obtain us x vs where r: "y # ys = us @ x # vs" "climb s pg bound k y = Some (if us = [] then k else last us, x)"
      "y \<le> x" "y < bound \<longrightarrow> x < bound" using Cons.IH [OF y(2)] by blast
    have "climb s pg bound p k = climb s pg bound k y"
      using True y(1) by (subst climb.simps) (simp add: Let_def)
    then show ?thesis using r True by (intro exI [of _ "k # us"] exI [of _ x] exI [of _ vs]) auto
  qed
qed

section \<open>Pages\<close>

definition page_ok :: "vm \<Rightarrow> LispPTR \<Rightarrow> 32 word list \<Rightarrow> bool" where
  "page_ok s pg offs \<longleftrightarrow> page.fpath pg s (pg_next_cell s pg) offs \<and> distinct offs \<and>
     list_all (\<lambda>x. \<not> bit x 0) offs \<and> unat (pg_count s pg) = length offs"

text \<open>Nothing changed but the header and the free cells of the page.\<close>

definition only_chain :: "LispPTR \<Rightarrow> 32 word list \<Rightarrow> vm \<Rightarrow> vm \<Rightarrow> bool" where
  "only_chain pg offs s s' \<longleftrightarrow> s'\<lparr>mem := mem s, err_log := err_log s\<rparr> = s \<and>
     (\<forall>a. a \<noteq> pg + 4 \<and> (\<forall>x \<in> set offs. a \<noteq> pg + x) \<longrightarrow> rd s' a = rd s a)"

lemma only_chain_refl [simp]: "only_chain pg offs s s"
  by (simp add: only_chain_def)

lemma count_small: "unat (pg_count s pg) < 256"
proof -
  have "unat (pg_count s pg) = unat (rd s (pg + 4)) div 2 ^ 24" by (simp add: pg_count_def drop_div)
  moreover have "unat (rd s (pg + 4)) < 2 ^ 32" using unsigned_less [of "rd s (pg + 4)"] by simp
  ultimately show ?thesis by (simp add: div_less_iff_less_mult)
qed

lemma unat_take8: "unat (n :: 32 word) < 256 \<Longrightarrow> take_bit 8 n = n"
proof -
  assume "unat n < 256"
  then have "unat (take_bit 8 n) = unat n" by (simp add: unsigned_take_bit_eq take_bit_eq_mod [where 'a = nat])
  then show ?thesis by (simp only: word_unat_eq_iff)
qed

lemma unat_dec: "0 < unat (n :: 32 word) \<Longrightarrow> unat (n - 1) = unat n - 1"
  by (rule unat_minus_one) auto

lemma rd_unchain: "a \<noteq> pg + 4 \<Longrightarrow> p = 0 \<or> a \<noteq> pg + p \<Longrightarrow> rd (unchain pg p v s) a = rd s a"
  by (auto simp: unchain_def set_next_free_def set_next_cell_def rd_wr)

lemma rd_set_count: "a \<noteq> pg + 4 \<Longrightarrow> rd (set_count pg n s) a = rd s a"
  by (simp add: set_count_def rd_wr)

lemma vm_frames [simp]:
  "(set_count pg n s)\<lparr>mem := m\<rparr> = s\<lparr>mem := m\<rparr>"
  "(unchain pg p v s)\<lparr>mem := m\<rparr> = s\<lparr>mem := m\<rparr>"
  "(set_code a k s)\<lparr>mem := m\<rparr> = s\<lparr>mem := m\<rparr>"
  "(set_car a w s)\<lparr>mem := m\<rparr> = s\<lparr>mem := m\<rparr>"
  "(wr a w s)\<lparr>mem := m\<rparr> = s\<lparr>mem := m\<rparr>"
  by (simp_all add: set_count_def unchain_def set_next_free_def set_next_cell_def set_code_def set_car_def wr_def)

lemma vm_fields [simp]:
  "err_log (set_count pg n s) = err_log s" "err_log (unchain pg p v s) = err_log s"
  "gc (set_count pg n s) = gc s" "gc (unchain pg p v s) = gc s"
  "gc (set_code a k s) = gc s" "gc (set_car a w s) = gc s"
  "err_log (set_code a k s) = err_log s" "err_log (set_car a w s) = err_log s"
  by (simp_all add: set_count_def unchain_def set_next_free_def set_next_cell_def wr_def set_code_def set_car_def)

lemma pg_count_unchain: "is_off p \<or> p = 0 \<Longrightarrow> pg_count (unchain pg p v s) pg = pg_count s pg"
  by (auto simp: unchain_def dest: is_off_header)

lemma unchain_relink: "unchain pg p v s = page.relink pg p v s"
  by (simp add: unchain_def page.relink_def)

lemma prior_before: "page.before us = prior_of us"
  by (simp add: page.before_def prior_of_def)

lemma fpath_set_count [simp]: "page.fpath pg (set_count pg n s) k xs = page.fpath pg s k xs"
proof (induction xs arbitrary: k)
  case (Cons x xs)
  have "is_off x \<Longrightarrow> next_free (set_count pg n s) (pg + x) = next_free s (pg + x)"
    by (rule header_frame) (use is_off_header in blast)
  then show ?case using Cons.IH by (simp only: page.fpath.simps) metis
qed simp

text \<open>Taking one cell off the chain, with its count.\<close>

definition take_off :: "LispPTR \<Rightarrow> 32 word list \<Rightarrow> 32 word \<Rightarrow> vm \<Rightarrow> vm" where
  "take_off pg us x s =
     (let s1 = unchain pg (prior_of us) (next_free s (pg + x)) s in set_count pg (pg_count s1 pg - 1) s1)"

lemma page_ok_good: "page_ok s pg offs \<Longrightarrow> x \<in> set offs \<Longrightarrow> is_off x \<and> \<not> bit x 0"
  unfolding page_ok_def by (auto simp: list_all_iff dest: page.fpath_good)

lemma prior_of_good: "page_ok s pg (us @ vs) \<Longrightarrow> is_off (prior_of us) \<or> prior_of us = 0"
  using page_ok_good [of s pg "us @ vs" "last us"] by (auto simp: prior_of_def)

lemma unchain_chain: "page_ok s pg (us @ x # vs) \<Longrightarrow>
    page.fpath pg (unchain pg (prior_of us) (next_free s (pg + x)) s)
      (pg_next_cell (unchain pg (prior_of us) (next_free s (pg + x)) s) pg) (us @ vs)"
  unfolding unchain_relink prior_before [symmetric]
  by (rule page.fpath_remove) (simp_all add: page_ok_def)

lemma take_off_ok:
  assumes ok: "page_ok s pg (us @ x # vs)"
  shows "page_ok (take_off pg us x s) pg (us @ vs)"
    and "only_chain pg (us @ x # vs) s (take_off pg us x s)"
    and "err_log (take_off pg us x s) = err_log s"
    and "rd (take_off pg us x s) (pg + x) = rd s (pg + x)"
proof -
  note p = prior_of_good [OF ok]
  have c: "unat (pg_count s pg) = length (us @ x # vs)" using ok by (simp add: page_ok_def)
  have n: "unat (pg_count s pg - 1) = length (us @ vs)" using c by (subst unat_dec) simp_all
  then have t: "take_bit 8 (pg_count s pg - 1) = pg_count s pg - 1"
    using count_small [of s pg] c by (intro unat_take8) simp
  show "page_ok (take_off pg us x s) pg (us @ vs)"
    using unchain_chain [OF ok] ok n t p unfolding page_ok_def take_off_def Let_def
    by (simp add: pg_count_unchain)
  have l: "us \<noteq> [] \<Longrightarrow> last us \<in> set us" by simp
  have x: "is_off x" "x \<notin> set us" using ok page_ok_good [OF ok] by (auto simp: page_ok_def)
  show "only_chain pg (us @ x # vs) s (take_off pg us x s)"
    using l by (auto simp: only_chain_def take_off_def Let_def prior_of_def rd_set_count rd_unchain)
  show "err_log (take_off pg us x s) = err_log s" by (simp add: take_off_def Let_def)
  have n_last: "us \<noteq> [] \<Longrightarrow> x \<noteq> last us" using x(2) l by metis
  show "rd (take_off pg us x s) (pg + x) = rd s (pg + x)"
    using is_off_header [OF x(1)] n_last
    by (auto simp: take_off_def Let_def prior_of_def rd_set_count rd_unchain)
qed


lemma page_ok_frame:
  assumes "rd s' (pg + 4) = rd s (pg + 4)" "\<forall>x \<in> set offs. rd s' (pg + x) = rd s (pg + x)"
  shows "page_ok s' pg offs = page_ok s pg offs"
proof -
  have h: "pg_next_cell s' pg = pg_next_cell s pg" "pg_count s' pg = pg_count s pg"
    using assms(1) by (simp_all add: pg_next_cell_def pg_count_def)
  have "page.fpath pg s' k offs = page.fpath pg s k offs" for k
    by (rule page.fpath_frame) (use assms(2) in \<open>simp add: next_free_def\<close>)
  then show ?thesis by (simp add: page_ok_def h)
qed

lemma only_chain_wr: "x \<in> set offs \<Longrightarrow> only_chain pg offs s t \<Longrightarrow> only_chain pg offs s (wr (pg + x) v t)"
  by (auto simp: only_chain_def rd_wr)

lemma only_chain_set_count: "only_chain pg offs s t \<Longrightarrow> only_chain pg offs s (set_count pg n t)"
  by (auto simp: only_chain_def rd_set_count)

lemma cell_fields [simp]:
  "cdr_code (set_code a k s) b = (if b = a then take_bit 4 k else cdr_code s b)"
  "car_field (set_code a k s) b = car_field s b"
  "car_field (set_car a v s) b = (if b = a then v AND POINTERMASK else car_field s b)"
  "cdr_code (set_car a v s) b = cdr_code s b"
proof -
  have [simp]: "car_of (push_bit 28 k OR car_of c) = car_of c"
    "code_of (push_bit 28 k OR car_of c) = take_bit 4 k" for k c
    unfolding car_of_def using car_code_join [of k c, unfolded car_of_def] by (simp_all add: and.assoc)
  show "cdr_code (set_code a k s) b = (if b = a then take_bit 4 k else cdr_code s b)"
    "car_field (set_code a k s) b = car_field s b"
    "car_field (set_car a v s) b = (if b = a then v AND POINTERMASK else car_field s b)"
    "cdr_code (set_car a v s) b = cdr_code s b"
    by (auto simp: cdr_code_def car_field_def set_code_def set_car_def rd_wr)
qed

lemma Listp_gc: "gc s' = gc s \<Longrightarrow> Listp s' a = Listp s a"
  by (simp add: Listp_def GetTypeNumber_def GetTypeEntry_def)

section \<open>One cell near another\<close>

text \<open>A cdr code expresses the distances 2, 4, ..., 14.\<close>

definition reach :: "32 word \<Rightarrow> 32 word \<Rightarrow> bool" where
  "reach a c \<longleftrightarrow> a < c \<and> c \<le> a + 14"

lemma reach_dist:
  assumes "reach a c" "is_off a" "is_off c" "\<not> bit a 0" "\<not> bit c 0"
  shows "c - a \<in> {2, 4, 6, 8, 10, 12, 14}"
proof -
  have u: "unat a < 256" "unat c < 256" using assms(2,3) by (auto simp: is_off_def word_less_nat_alt)
  have "unat (a + 14) = unat a + 14" using u(1) by (simp add: unat_word_ariths)
  then have le: "unat a < unat c" "unat c \<le> unat a + 14"
    using assms(1) by (auto simp: reach_def word_less_nat_alt word_le_nat_alt)
  have "unat (c - a) = unat c - unat a" using le by (simp add: unat_sub word_le_nat_alt)
  moreover have "even (unat a)" "even (unat c)"
    using assms(4,5) bit_unsigned_iff [of a 0, where 'a = nat] bit_unsigned_iff [of c 0, where 'a = nat]
    by (simp_all add: bit_0)
  ultimately have d: "unat (c - a) \<le> 14" "0 < unat (c - a)" "even (unat (c - a))" using le by auto
  have "unat (c - a) \<in> {2, 4, 6, 8, 10, 12, 14}"
  proof -
    define n where "n = unat (c - a)"
    have "n \<le> 14 \<Longrightarrow> 0 < n \<Longrightarrow> even n \<Longrightarrow>
        n = 2 \<or> n = 4 \<or> n = 6 \<or> n = 8 \<or> n = 10 \<or> n = 12 \<or> n = 14"
      by presburger
    then show ?thesis using d by (simp add: n_def)
  qed
  then show ?thesis by (auto simp: word_unat_eq_iff)
qed

text \<open>
  \<open>find_close_cell\<close> returns on every well-formed page. It answers with a free cell that the
  cdr code of the old cell can reach, taken off the chain with its count, when there is one, and
  otherwise with no cell and the page as it was.
\<close>

lemma find_close_cell_law:
  assumes "page_ok s pg offs"
  shows "(\<exists>us x vs s'. find_close_cell pg old s = Inr (Some (pg + x), s') \<and> offs = us @ x # vs \<and>
            reach (old AND 0xFF) x \<and> page_ok s' pg (us @ vs) \<and> only_chain pg offs s s') \<or>
         (find_close_cell pg old s = Inr (None, s) \<and> (\<forall>x \<in> set offs. \<not> reach (old AND 0xFF) x))"
proof -
  define P where "P = (\<lambda>x. x > (old AND 0xFF) \<and> x \<le> (old AND 0xFF) + 14)"
  have c: "close_search s pg (old AND 0xFF) 0 (pg_next_cell s pg) = Some (seek P 0 offs)"
    using assms unfolding P_def by (intro close_search_path) (simp add: page_ok_def)
  show ?thesis
  proof (cases "seek P 0 offs")
    case None
    then have "find_close_cell pg old s = Inr (None, s)" using c by (simp add: find_close_cell_def)
    then show ?thesis using None by (simp add: seek_None reach_def P_def)
  next
    case (Some q)
    then obtain us x vs where x: "q = (prior_of us, x)" "offs = us @ x # vs" "P x"
      using seek_Some [of P offs "fst q" "snd q"] by (metis prod.collapse)
    have "find_close_cell pg old s = Inr (Some (pg + x), take_off pg us x s)"
      using c Some x(1) by (simp add: find_close_cell_def take_off_def Let_def)
    then show ?thesis using take_off_ok [of s pg us x vs] assms x(2,3) by (auto simp: reach_def P_def)
  qed
qed


lemma reach_prior: "x < old \<Longrightarrow> x \<ge> old - 14 \<Longrightarrow> unat old < 256 \<Longrightarrow> reach x old"
proof -
  assume a: "x < old" "x \<ge> old - 14" "unat old < 256"
  have "14 \<le> old"
  proof (rule ccontr)
    assume "\<not> 14 \<le> old"
    then have "unat old < 14" by (simp add: word_le_nat_alt)
    then have "unat (old - 14) = unat old + 2 ^ 32 - 14" by (simp add: unat_sub_if_size word_size)
    then show False using a by (simp add: word_less_nat_alt word_le_nat_alt)
  qed
  then have "unat (old - 14) = unat old - 14" "14 \<le> unat old"
    by (simp_all add: unat_sub word_le_nat_alt)
  moreover have "unat x < 2 ^ 32 - 14" using a(1,3) by (simp add: word_less_nat_alt)
  then have "unat (x + 14) = unat x + 14" by (simp add: unat_word_ariths)
  ultimately show ?thesis using a by (simp add: reach_def word_le_nat_alt word_less_nat_alt)
qed

lemma reach_code:
  assumes "c - a \<in> {2, 4, 6, 8, 10, 12, 14 :: 32 word}"
  shows "take_bit 4 (drop_bit 1 (c - a)) = drop_bit 1 (c - a)" "drop_bit 1 (c - a) \<noteq> 0"
    "\<not> drop_bit 1 (c - a) > 7" "drop_bit 1 (c - a) AND 8 = 0" "drop_bit 1 (c - a) \<noteq> 8"
    "push_bit 1 (drop_bit 1 (c - a)) = c - a"
    "take_bit 4 (8 OR drop_bit 1 (c - a)) = 8 OR drop_bit 1 (c - a)"
    "8 OR drop_bit 1 (c - a) \<noteq> 8" "8 OR drop_bit 1 (c - a) \<noteq> 0"
    "(8 OR drop_bit 1 (c - a)) AND 8 \<noteq> 0" "(8 OR drop_bit 1 (c - a)) AND 7 = drop_bit 1 (c - a)"
    "8 OR drop_bit 1 (c - a) > 8"
    "drop_bit 1 (c - a) \<le> 7"
  using assms by auto

lemma reach_code_sum:
  assumes "c - a \<in> {2, 4, 6, 8, 10, 12, 14 :: 32 word}"
  shows "8 + drop_bit 1 (c - a) = 8 OR drop_bit 1 (c - a)"
  using assms by auto

text \<open>The two codes of a cell whose cdr is stored: what \<open>cdr\<close> reads there.\<close>

lemma cdr_onpage:
  assumes "Listp s a" "a \<noteq> NIL" "cdr_code s a = 8 OR drop_bit 1 (y - x)"
    and "y - x \<in> {2, 4, 6, 8, 10, 12, 14}"
  shows "cdr s a = Inr (a + (y - x))"
  using reach_code [OF assms(4)] assms(1-3)
  by (simp add: cdr_def cdr_loop.simps [of s a] CDR_NIL_def CDR_ONPAGE_def)

lemma cdr_nearby:
  assumes "Listp s a" "a \<noteq> NIL" "cdr_code s a = drop_bit 1 (y - x)"
    and "y - x \<in> {2, 4, 6, 8, 10, 12, 14}"
  shows "cdr s a = Inr (car_field s (a + (y - x)))"
  using reach_code [OF assms(4)] assms(1-3)
  by (simp add: cdr_def cdr_loop.simps [of s a] CDR_NIL_def CDR_ONPAGE_def CDR_INDIRECT_def)

lemma off_254: "is_off x \<Longrightarrow> \<not> bit x 0 \<Longrightarrow> x \<le> 254"
proof -
  assume a: "is_off x" "\<not> bit x 0"
  have "unat x < 256" using a(1) by (simp add: is_off_def word_less_nat_alt)
  moreover have "even (unat x)" using a(2) bit_unsigned_iff [of x 0, where 'a = nat] by (simp add: bit_0)
  ultimately have "unat x \<le> 254" by presburger
  then show ?thesis by (simp add: word_le_nat_alt)
qed

text \<open>
  \<open>find_close_prior_cell\<close> returns on every well-formed page, without a complaint. A cell
  it answers with is a free cell in reach before the old cell, off the chain with its count, and its
  cdr is the old cell; it answers with none only when no free cell is in reach,
  or when the old cell is one of the first three of the page.
\<close>

lemma find_close_prior_cell_law:
  assumes ok: "page_ok s pg offs" and old: "old = pg + oo" "oo = old AND 0xFF" "is_off oo" "\<not> bit oo 0"
  shows "(\<exists>us x vs s'. find_close_prior_cell pg old s = Inr (Some (pg + x), s') \<and> offs = us @ x # vs \<and>
            reach x oo \<and> page_ok s' pg (us @ vs) \<and> only_chain pg offs s s' \<and> err_log s' = err_log s \<and>
            cdr_code s' (pg + x) > 8 \<and>
            (Listp s (pg + x) \<and> pg + x \<noteq> NIL \<longrightarrow> cdr s' (pg + x) = Inr old)) \<or>
         (find_close_prior_cell pg old s = Inr (None, s) \<and> (14 \<le> oo \<longrightarrow> (\<forall>x \<in> set offs. \<not> reach x oo)))"
proof -
  define P where "P = (\<lambda>x. x < oo \<and> x \<ge> oo - 14)"
  have ch: "page.fpath pg s (pg_next_cell s pg) offs" using ok by (simp add: page_ok_def)
  have c: "close_prior_search s pg oo 0 (pg_next_cell s pg) = Some (seek P 0 offs)"
    using close_prior_search_path [OF ch] unfolding P_def by simp
  show ?thesis
  proof (cases "seek P 0 offs")
    case None
    then have "find_close_prior_cell pg old s = Inr (None, s)"
      using c old(2) by (simp add: find_close_prior_cell_def)
    moreover have "\<not> reach x oo" if "x \<in> set offs" "14 \<le> oo" for x
    proof
      assume r: "reach x oo"
      have "is_off x" using page_ok_good [OF ok that(1)] by simp
      then have "unat x < 256" by (simp add: is_off_def word_less_nat_alt)
      then have "unat (x + 14) = unat x + 14" by (simp add: unat_word_ariths)
      then have "unat oo \<le> unat x + 14" using r by (simp add: reach_def word_le_nat_alt)
      moreover have "unat (oo - 14) = unat oo - 14" using that(2) by (simp add: unat_sub word_le_nat_alt)
      ultimately have "oo - 14 \<le> x" by (simp add: word_le_nat_alt)
      then show False using None that(1) r by (simp add: seek_None P_def reach_def)
    qed
    ultimately show ?thesis by simp
  next
    case (Some q)
    then obtain us0 x0 vs0 where x0: "q = (prior_of us0, x0)" "offs = us0 @ x0 # vs0" "P x0"
      using seek_Some [of P offs "fst q" "snd q"] by (metis prod.collapse)
    have "page.fpath pg s x0 (x0 # vs0)"
      using page.fpath_last [of pg s "pg_next_cell s pg" us0 "x0 # vs0"] ch x0(2) by (auto split: if_splits)
    from climb_path [OF this, of oo "prior_of us0"] obtain us1 x vs where
      x: "x0 # vs0 = us1 @ x # vs" "climb s pg oo (prior_of us0) x0 = Some (if us1 = [] then prior_of us0 else last us1, x)"
      "x0 \<le> x" "x0 < oo \<longrightarrow> x < oo" by blast
    define us where "us = us0 @ us1"
    have pr: "(if us1 = [] then prior_of us0 else last us1) = prior_of us" by (simp add: us_def prior_of_def)
    have offs: "offs = us @ x # vs" using x0(2) x(1) by (simp add: us_def)
    have g: "is_off x" "\<not> bit x 0" using page_ok_good [OF ok, of x] offs by auto
    have "x < oo" "x \<ge> oo - 14" using x(3,4) x0(3) by (auto simp: P_def)
    then have r: "reach x oo" using old(3) by (intro reach_prior) (auto simp: is_off_def word_less_nat_alt)
    define s2 where "s2 = take_off pg us x s"
    define s' where "s' = set_code (pg + x) (8 OR drop_bit 1 (oo - x)) s2"
    note d = reach_dist [OF r g(1) old(3) g(2) old(4)]
    note rc = reach_code [OF d]
    have "x + (oo - x) = oo" by simp
    moreover have cc: "cdr_code s' (pg + x) = 8 OR drop_bit 1 (oo - x)" using rc(7) by (simp add: s'_def)
    ultimately have nolog: "\<not> 254 < x + push_bit 1 (cdr_code s' (pg + x) AND 7)"
      using off_254 [OF old(3,4)] by (simp only: cc rc not_less)
    have f: "find_close_prior_cell pg old s = Inr (Some (pg + x), s')"
      using c Some x0(1) x(2) nolog unfolding s'_def s2_def old(2)
      by (simp add: find_close_prior_cell_def pr take_off_def Let_def CDR_ONPAGE_def del: cell_fields)
    note to = take_off_ok [OF ok [unfolded offs]]
    have nx: "x \<notin> set (us @ vs)" using ok offs by (auto simp: page_ok_def)
    have pk: "page_ok s' pg (us @ vs)"
      unfolding s'_def set_code_def s2_def
      by (subst page_ok_frame [of _ _ "take_off pg us x s"]) (use is_off_header [OF g(1)] nx to(1) in \<open>auto simp: rd_wr\<close>)
    have oc: "only_chain pg offs s s'"
      unfolding s'_def set_code_def s2_def offs by (rule only_chain_wr [OF _ to(2)]) simp
    have gs: "gc s' = gc s" by (simp add: s'_def s2_def take_off_def Let_def)
    have e: "err_log s' = err_log s" using to(3) by (simp add: s'_def s2_def)
    have "cdr s' (pg + x) = Inr old" if l: "Listp s (pg + x)" "pg + x \<noteq> NIL"
    proof -
      have "cdr s' (pg + x) = Inr (pg + x + (oo - x))"
        by (rule cdr_onpage [OF _ l(2) _ d]) (simp_all add: Listp_gc [OF gs] l(1) cc)
      then show ?thesis by (simp add: old(1))
    qed
    then show ?thesis
      by (intro disjI1 exI [of _ us] exI [of _ x] exI [of _ vs] exI [of _ s'] conjI impI f offs r pk oc e) (use cc rc(12) in simp_all)
  qed
qed

end
