(* ===== verification/Cons_Pairs.thy ===== *)
theory Cons_Pairs
  imports Cons_Laws
begin

text \<open>
  Pairs of cells: the search for two free cells in reach of each other, which \<open>cons\<close> uses
  for a cell whose cdr is no cell of its page and \<open>rplacd\<close> for a cell it has to move; and the
  two ends of a cell's life, the new page and the freed cell.
\<close>

section \<open>The search\<close>

lemma pair_search_path: "page.fpath pg s k xs \<Longrightarrow>
    pair_search s pg pp p k = Some None \<and>
      (\<forall>us q x vs. p # xs = us @ q # x # vs \<and> q \<noteq> 0 \<longrightarrow> \<not> reach q x \<and> \<not> reach x q) \<or>
    (\<exists>pp' p' x b. pair_search s pg pp p k = Some (Some (pp', p', x, b)) \<and> p' \<noteq> 0 \<and>
       (if b then reach x p' else reach p' x) \<and>
       (\<exists>us vs. p # xs = us @ p' # x # vs \<and> pp' = (if us = [] then pp else last us)))"
proof (induction xs arbitrary: k pp p)
  case Nil
  then have "k = 0" by simp
  moreover have "[p] \<noteq> us @ q # x # vs" for us q x vs by (cases us) auto
  ultimately show ?case by (simp add: pair_search.simps [of s pg pp p 0])
next
  case (Cons y ys)
  then have y: "k = y" "y \<noteq> 0" "page.fpath pg s (next_free s (pg + y)) ys" by (auto dest: is_off_header)
  consider (l) "p \<noteq> 0" "reach y p" | (h) "p \<noteq> 0" "\<not> reach y p" "reach p y"
    | (n) "p = 0 \<or> \<not> reach y p \<and> \<not> reach p y" by blast
  then show ?case
  proof cases
    case l
    then have "pair_search s pg pp p k = Some (Some (pp, p, y, True))"
      using y(1,2) by (simp add: pair_search.simps [of s pg pp p y] reach_def)
    moreover have "p # y # ys = [] @ p # y # ys" by simp
    ultimately show ?thesis using l by (intro disjI2) fastforce
  next
    case h
    then have "pair_search s pg pp p k = Some (Some (pp, p, y, False))"
      using y(1,2) by (auto simp add: pair_search.simps [of s pg pp p y] reach_def)
    moreover have "p # y # ys = [] @ p # y # ys" by simp
    ultimately show ?thesis using h by (intro disjI2) fastforce
  next
    case n
    then have "pair_search s pg pp p k = pair_search s pg p y (next_free s (pg + y))"
      using y(1,2) by (auto simp add: pair_search.simps [of s pg pp p y] reach_def)
    then have e: "pair_search s pg pp p k = pair_search s pg p y (next_free s (pg + y))" .
    from Cons.IH [OF y(3), of p y] show ?thesis
    proof (elim disjE exE conjE)
      fix pp' p' x b us vs
      assume r: "pair_search s pg p y (next_free s (pg + y)) = Some (Some (pp', p', x, b))" "p' \<noteq> 0"
        "if b then reach x p' else reach p' x" "y # ys = us @ p' # x # vs" "pp' = (if us = [] then p else last us)"
      have "p # y # ys = (p # us) @ p' # x # vs" "pp' = (if p # us = [] then pp else last (p # us))"
        using r(4,5) by auto
      with r(1-3) e show ?thesis by (intro disjI2, simp only:) blast
    next
      assume r: "pair_search s pg p y (next_free s (pg + y)) = Some None"
        "\<forall>us q x vs. y # ys = us @ q # x # vs \<and> q \<noteq> 0 \<longrightarrow> \<not> reach q x \<and> \<not> reach x q"
      have "\<not> reach q x \<and> \<not> reach x q" if "p # y # ys = us @ q # x # vs" "q \<noteq> 0" for us q x vs
        using that n r(2) by (cases us) auto
      then show ?thesis using r(1) e by simp
    qed
  qed
qed

lemma climb_pair_path: "page.fpath pg s k (k # xs) \<Longrightarrow> k < p \<Longrightarrow>
    \<exists>us x vs. k # xs = us @ x # vs \<and> k \<le> x \<and> x < p \<and>
      climb_pair s pg p np po k = Some (if us = [] then (np, po, x) else (last us, p, x))"
proof (induction xs arbitrary: k np po)
  case Nil
  then have "next_free s (pg + k) = 0" by simp
  then show ?case using Nil
    by (intro exI [of _ "[]"] exI [of _ k]) (simp add: climb_pair.simps [of s pg p np po k] Let_def)
next
  case (Cons y ys)
  then have y: "next_free s (pg + k) = y" "page.fpath pg s y (y # ys)" by auto
  show ?case
  proof (cases "y > k \<and> y < p")
    case False
    then show ?thesis using y Cons.prems(2)
      by (intro exI [of _ "[]"] exI [of _ k] exI [of _ "y # ys"])
         (auto simp add: climb_pair.simps [of s pg p np po k] Let_def)
  next
    case True
    have e: "climb_pair s pg p np po k = climb_pair s pg p k p y"
      using True y(1) by (simp add: climb_pair.simps [of s pg p np po k] Let_def)
    obtain us x vs where r: "y # ys = us @ x # vs" "y \<le> x" "x < p"
      "climb_pair s pg p k p y = Some (if us = [] then (k, p, x) else (last us, p, x))"
      using Cons.IH [OF y(2)] True by blast
    show ?thesis
      by (rule exI [of _ "k # us"], rule exI [of _ x], rule exI [of _ vs]) (use r True e in auto)
  qed
qed

section \<open>Taking a pair off the chain\<close>

text \<open>A chain without regard to the count in the header.\<close>

definition chain_ok :: "vm \<Rightarrow> LispPTR \<Rightarrow> 32 word list \<Rightarrow> bool" where
  "chain_ok s pg offs \<longleftrightarrow> page.fpath pg s (pg_next_cell s pg) offs \<and> distinct offs \<and>
     list_all (\<lambda>x. \<not> bit x 0) offs"

lemma page_ok_chain: "page_ok s pg offs \<longleftrightarrow> chain_ok s pg offs \<and> unat (pg_count s pg) = length offs"
  by (auto simp: page_ok_def chain_ok_def)

lemma chain_good: "chain_ok s pg offs \<Longrightarrow> x \<in> set offs \<Longrightarrow> is_off x \<and> \<not> bit x 0"
  unfolding chain_ok_def by (auto simp: list_all_iff dest: page.fpath_good)

lemma chain_remove: "chain_ok s pg (us @ x # vs) \<Longrightarrow>
    chain_ok (unchain pg (prior_of us) (next_free s (pg + x)) s) pg (us @ vs)"
  unfolding chain_ok_def unchain_relink prior_before [symmetric]
  by (intro conjI page.fpath_remove) simp_all

lemma unchain_only: "prior_of us = 0 \<or> prior_of us \<in> set offs \<Longrightarrow>
    only_chain pg offs s t \<Longrightarrow> only_chain pg offs s (unchain pg (prior_of us) v t)"
  by (auto simp: only_chain_def rd_unchain)

lemma prior_of_mem: "prior_of us = 0 \<or> prior_of us \<in> set us"
  by (simp add: prior_of_def)

lemma chain_prior: "chain_ok s pg (us @ vs) \<Longrightarrow> is_off (prior_of us) \<or> prior_of us = 0"
  using chain_good [of s pg "us @ vs" "last us"] by (auto simp: prior_of_def)

lemma chain_remove2:
  assumes "chain_ok s pg (us @ x # y # vs)"
  shows "chain_ok (unchain pg (prior_of us) (next_free s (pg + y)) s) pg (us @ vs)"
proof -
  define v where "v = next_free s (pg + y)"
  have c: "page.fpath pg s (pg_next_cell s pg) (us @ x # y # vs)" "distinct (us @ x # y # vs)"
    "list_all (\<lambda>x. \<not> bit x 0) (us @ x # y # vs)" using assms by (simp_all add: chain_ok_def)
  have t: "page.fpath pg s v vs"
    using page.fpath_last [OF c(1)] by (auto simp: v_def split: if_splits)
  have p: "is_off (prior_of us) \<or> prior_of us = 0" by (rule chain_prior [OF assms])
  have pn: "prior_of us \<notin> set vs"
    using c(2) prior_of_mem [of us] chain_good [OF assms] by (auto dest: is_off_header)
  have fr: "\<forall>z \<in> set vs. next_free (unchain pg (prior_of us) v s) (pg + z) = next_free s (pg + z)"
    using chain_good [OF assms] pn is_off_header
    by (auto simp: next_free_def intro!: arg_cong [of _ _ "drop_bit 24"] rd_unchain)
  have "page.fpath pg (page.relink pg (page.before us) v s) v vs"
    using page.fpath_frame [OF fr] t by (simp add: unchain_relink prior_before)
  from page.fpath_relink [OF c(1) _ this] c(2,3) show ?thesis
    by (simp add: chain_ok_def v_def unchain_relink prior_before)
qed

text \<open>What a search for a pair promises: the pair, and the chain without it.\<close>

definition pair_taken ::
  "vm \<Rightarrow> LispPTR \<Rightarrow> 32 word list \<Rightarrow> 32 word \<Rightarrow> 32 word \<Rightarrow> 32 word list \<Rightarrow> vm \<Rightarrow> bool" where
  "pair_taken s pg offs a c rest s' \<longleftrightarrow> reach a c \<and> set offs = {a, c} \<union> set rest \<and>
     length offs = length rest + 2 \<and> chain_ok s' pg rest \<and> a \<notin> set rest \<and> c \<notin> set rest \<and>
     pg_count s' pg = pg_count s pg \<and> only_chain pg offs s s' \<and> err_log s' = err_log s"


lemma reach_climb: "reach x p \<Longrightarrow> x \<le> y \<Longrightarrow> y < p \<Longrightarrow> is_off p \<Longrightarrow> reach y p"
proof -
  assume a: "reach x p" "x \<le> y" "y < p" "is_off p"
  have u: "unat p < 256" "unat x \<le> unat y" "unat y < unat p"
    using a by (auto simp: is_off_def word_less_nat_alt word_le_nat_alt)
  then have "unat (x + 14) = unat x + 14" "unat (y + 14) = unat y + 14" by (simp_all add: unat_word_ariths)
  then show ?thesis using a(1) u by (simp add: reach_def word_le_nat_alt word_less_nat_alt)
qed

lemma take_pair_law:
  assumes ok: "page_ok s pg offs"
  shows "take_pair pg s = Inr (None, s) \<and>
      (\<forall>us q x vs. offs = us @ q # x # vs \<longrightarrow> \<not> reach q x \<and> \<not> reach x q) \<or>
    (\<exists>a c rest s'. take_pair pg s = Inr (Some (a, c), s') \<and> pair_taken s pg offs a c rest s')"
proof (cases "pg_count s pg < 2")
  case True
  then have "unat (pg_count s pg) < 2" by (simp add: word_less_nat_alt)
  then have "length offs < 2" using ok by (simp add: page_ok_def)
  then have "offs \<noteq> us @ q # x # vs" for us q x vs by auto
  then show ?thesis using True by (simp add: take_pair_def)
next
  case cnt: False
  have ch: "page.fpath pg s (pg_next_cell s pg) offs" and co: "chain_ok s pg offs"
    using ok by (simp_all add: page_ok_def chain_ok_def)
  from pair_search_path [OF ch, of 0 0]
  consider (no) "pair_search s pg 0 0 (pg_next_cell s pg) = Some None"
      "\<forall>us q x vs. 0 # offs = us @ q # x # vs \<and> q \<noteq> 0 \<longrightarrow> \<not> reach q x \<and> \<not> reach x q"
    | (yes) pp p x b us vs where "pair_search s pg 0 0 (pg_next_cell s pg) = Some (Some (pp, p, x, b))"
      "p \<noteq> 0" "if b then reach x p else reach p x" "0 # offs = us @ p # x # vs" "pp = (if us = [] then 0 else last us)"
    by blast
  then show ?thesis
  proof cases
    case no
    have "\<not> reach q x \<and> \<not> reach x q" if o: "offs = us @ q # x # vs" for us q x vs
    proof -
      have "q \<noteq> 0" using chain_good [OF co, of q] o is_off_header by auto
      moreover have "0 # offs = (0 # us) @ q # x # vs" using o by simp
      ultimately show ?thesis using no(2) by blast
    qed
    then show ?thesis using no(1) cnt by (simp add: take_pair_def)
  next
    case yes
    obtain us' where us: "us = 0 # us'" using yes(2,4) by (cases us) auto
    have offs: "offs = us' @ p # x # vs" and pp: "pp = prior_of us'"
      using yes(4,5) us by (auto simp: prior_of_def)
    have d: "distinct offs" using co by (simp add: chain_ok_def)
    have g: "is_off p" "is_off x" "x \<noteq> 0" using chain_good [OF co] offs by (auto dest: is_off_header)
    define s1 where "s1 = unchain pg pp (next_free s (pg + x)) s"
    have one: "chain_ok s1 pg (us' @ vs)" "only_chain pg offs s s1" "pg_count s1 pg = pg_count s pg"
      using chain_remove2 [OF co [unfolded offs]] prior_of_mem [of us'] chain_prior [OF co [unfolded offs]] offs
      by (auto simp: s1_def pp pg_count_unchain intro!: unchain_only)
    have both: "pair_taken s pg offs a c (us' @ vs) s1" if "reach a c" "{a, c} = {p, x}" for a c
      using one that d offs by (auto simp: pair_taken_def s1_def doubleton_eq_iff)
    show ?thesis
    proof (cases b)
      case False
      then have "take_pair pg s = Inr (Some (p, x), s1)" using yes(1) cnt by (simp add: take_pair_def s1_def)
      then show ?thesis using both [of p x] yes(3) False by auto
    next
      case True
      have "page.fpath pg s x (x # vs)"
        using page.fpath_last [of pg s "pg_next_cell s pg" "us' @ [p]" "x # vs"] ch offs by simp
      from climb_pair_path [OF this, of p 0 x] obtain us1 y vs1 where
        y: "x # vs = us1 @ y # vs1" "x \<le> y" "y < p"
          "climb_pair s pg p 0 x x = Some (if us1 = [] then (0, x, y) else (last us1, p, y))"
        using yes(3) True by (auto simp: reach_def)
      have r: "reach y p" using reach_climb [OF _ y(2,3) g(1)] yes(3) True by simp
      show ?thesis
      proof (cases "us1 = []")
        case True
        then have "take_pair pg s = Inr (Some (y, p), s1)"
          using yes(1) cnt y(4) \<open>b\<close> by (simp add: take_pair_def s1_def)
        then show ?thesis using both [of y p] r True y(1) by auto
      next
        case False
        define t1 where "t1 = unchain pg pp (next_free s (pg + p)) s"
        define t2 where "t2 = unchain pg (prior_of (us' @ us1)) (next_free t1 (pg + y)) t1"
        have offs1: "offs = us' @ p # us1 @ y # vs1" using offs y(1) by simp
        have c1: "chain_ok t1 pg ((us' @ us1) @ y # vs1)"
          using chain_remove [OF co [unfolded offs1]] by (simp add: t1_def pp)
        have c2: "chain_ok t2 pg ((us' @ us1) @ vs1)" using chain_remove [OF c1] by (simp add: t2_def)
        have pr: "prior_of (us' @ us1) = last us1" "last us1 \<in> set us1" using False by (simp_all add: prior_of_def)
        then have "last us1 \<in> set offs" using offs1 by auto
        then have nz: "last us1 \<noteq> 0" using chain_good [OF co] by (auto dest: is_off_header)
        have o1: "only_chain pg offs s t1" unfolding t1_def pp
          using prior_of_mem [of us'] offs1 by (intro unchain_only) auto
        have o2: "only_chain pg offs s t2" unfolding t2_def
          using pr \<open>last us1 \<in> set offs\<close> o1 by (intro unchain_only) auto
        have n: "pg_count t2 pg = pg_count s pg"
          using chain_prior [OF c1] chain_prior [OF co [unfolded offs1]]
          by (simp add: t2_def t1_def pp pg_count_unchain)
        have tp: "take_pair pg s = Inr (Some (y, p), t2)"
          using yes(1) cnt y(4) \<open>b\<close> False nz
          by (simp add: take_pair_def t2_def pr t1_def Let_def) (simp add: unchain_def)
        have "pair_taken s pg offs y p (us' @ us1 @ vs1) t2"
          using r c2 o2 n d offs1 by (auto simp: pair_taken_def t2_def t1_def)
        then show ?thesis using tp by blast
      qed
    qed
  qed
qed


lemma chain_ok_frame:
  assumes "rd s' (pg + 4) = rd s (pg + 4)" "\<forall>x \<in> set offs. rd s' (pg + x) = rd s (pg + x)"
  shows "chain_ok s' pg offs = chain_ok s pg offs"
proof -
  have h: "pg_next_cell s' pg = pg_next_cell s pg" using assms(1) by (simp add: pg_next_cell_def)
  have "page.fpath pg s' k offs = page.fpath pg s k offs" for k
    by (rule page.fpath_frame) (use assms(2) in \<open>simp add: next_free_def\<close>)
  then show ?thesis by (simp add: chain_ok_def h)
qed

lemma page_ok_count2:
  assumes "chain_ok s pg rest" "unat (pg_count s pg) = length rest + 2"
  shows "page_ok (set_count pg (pg_count s pg - 2) s) pg rest"
proof -
  have n: "unat (pg_count s pg - 2) = length rest"
    using assms(2) by (simp add: unat_sub word_le_nat_alt)
  then have t: "take_bit 8 (pg_count s pg - 2) = pg_count s pg - 2"
    using count_small [of s pg] assms(2) by (intro unat_take8) simp
  show ?thesis using assms(1) n t by (simp add: page_ok_def chain_ok_def)
qed

section \<open>A new cell with its cdr beside it\<close>

text \<open>The state both routines end in, up to the order of their stores.\<close>

lemma pair_filled:
  assumes ok: "page_ok s pg offs" and tk: "pair_taken s pg offs a c rest s1"
    and s2: "chain_ok s2 pg rest" "unat (pg_count s2 pg) = length rest" "gc s2 = gc s1"
    and cells: "rd s2 (pg + c) = cdrval" "cdr_code s2 (pg + a) = drop_bit 1 (c - a)"
  shows "page_ok s2 pg rest"
    and "Listp s (pg + a) \<and> pg + a \<noteq> NIL \<longrightarrow> cdr s2 (pg + a) = Inr (cdrval AND POINTERMASK)"
    and "c - a \<in> {2, 4, 6, 8, 10, 12, 14}"
proof -
  show "page_ok s2 pg rest" using s2 by (simp add: page_ok_chain)
  have g: "is_off a" "\<not> bit a 0" "is_off c" "\<not> bit c 0"
    using page_ok_good [OF ok] tk by (auto simp: pair_taken_def)
  show d: "c - a \<in> {2, 4, 6, 8, 10, 12, 14}"
    using tk g by (intro reach_dist) (auto simp: pair_taken_def)
  have gs: "gc s2 = gc s"
    using tk s2(3) unfolding pair_taken_def only_chain_def by (metis vm.ext_inject vm.surjective vm.update_convs(1,4))
  show "Listp s (pg + a) \<and> pg + a \<noteq> NIL \<longrightarrow> cdr s2 (pg + a) = Inr (cdrval AND POINTERMASK)"
  proof
    assume l: "Listp s (pg + a) \<and> pg + a \<noteq> NIL"
    have "cdr s2 (pg + a) = Inr (car_field s2 (pg + a + (c - a)))"
      by (rule cdr_nearby [OF _ _ cells(2) d]) (use l Listp_gc [OF gs] in simp_all)
    then show "cdr s2 (pg + a) = Inr (cdrval AND POINTERMASK)" by (simp add: car_field_def car_of_def cells(1))
  qed
qed

lemma only_chain_gc: "only_chain pg offs s t \<Longrightarrow> gc t = gc s"
  by (auto simp: only_chain_def dest: arg_cong [of _ _ gc])

lemma taken_frame: "pair_taken s pg offs a c rest s1 \<Longrightarrow> gc s1 = gc s"
  unfolding pair_taken_def by (elim conjE only_chain_gc)

text \<open>
  \<open>find_pair_in_page\<close> returns on every well-formed page, without a complaint. It leaves the
  page alone, or it takes two cells in reach of each other off the chain, stores the cdr in the
  second and the distance in the cdr code of the first, so that the cdr of the first is the value.
\<close>

lemma find_pair_in_page_law:
  assumes ok: "page_ok s pg offs"
  shows "(\<exists>a c rest s'. find_pair_in_page pg v s = Inr (Some (pg + a), s') \<and>
            set offs = {a, c} \<union> set rest \<and> a \<notin> set rest \<and> c \<notin> set rest \<and>
            page_ok s' pg rest \<and> only_chain pg offs s s' \<and> err_log s' = err_log s \<and>
            c = a + push_bit 1 (cdr_code s' (pg + a)) \<and> cdr_code s' (pg + a) \<in> {1..7} \<and>
            (Listp s (pg + a) \<and> pg + a \<noteq> NIL \<longrightarrow> cdr s' (pg + a) = Inr (v AND POINTERMASK))) \<or>
         find_pair_in_page pg v s = Inr (None, s) \<and>
           (\<forall>us q x vs. offs = us @ q # x # vs \<longrightarrow> \<not> reach q x \<and> \<not> reach x q)"
  using take_pair_law [OF ok]
proof (elim disjE exE conjE)
  assume "take_pair pg s = Inr (None, s)" "\<forall>us q x vs. offs = us @ q # x # vs \<longrightarrow> \<not> reach q x \<and> \<not> reach x q"
  then show ?thesis by (simp add: find_pair_in_page_def)
next
  fix a c rest s1
  assume t: "take_pair pg s = Inr (Some (a, c), s1)" and tk: "pair_taken s pg offs a c rest s1"
  have g: "is_off a" "\<not> bit a 0" "is_off c" "\<not> bit c 0"
    using page_ok_good [OF ok] tk by (auto simp: pair_taken_def)
  have r: "reach a c" "a \<noteq> c" and a: "a \<noteq> 4" "c \<noteq> 4"
    using tk is_off_header g by (auto simp: pair_taken_def reach_def)
  note d = reach_dist [OF r(1) g(1) g(3) g(2) g(4)]
  note rc = reach_code [OF d]
  define s2 where "s2 = set_code (pg + a) (drop_bit 1 (c - a)) s1"
  define s' where "s' = wr (pg + c) v (set_count pg (pg_count s2 pg - 2) s2)"
  have cc: "cdr_code s2 (pg + a) = drop_bit 1 (c - a)" using rc(1) by (simp add: s2_def)
  have "a + (c - a) = c" by simp
  then have nolog: "\<not> 254 < a + push_bit 1 (cdr_code s2 (pg + a))"
    using off_254 [OF g(3,4)] by (simp only: cc rc not_less)
  have f: "find_pair_in_page pg v s = Inr (Some (pg + a), s')"
    using t nolog rc(3) unfolding s'_def s2_def by (simp add: find_pair_in_page_def Let_def del: cell_fields)
  have c2: "chain_ok s2 pg rest" "pg_count s2 pg = pg_count s pg"
  proof -
    have h: "rd s2 (pg + 4) = rd s1 (pg + 4)" using a by (simp add: s2_def set_code_def rd_wr)
    have "\<forall>x \<in> set rest. rd s2 (pg + x) = rd s1 (pg + x)"
      using tk by (auto simp: pair_taken_def s2_def set_code_def rd_wr)
    then show "chain_ok s2 pg rest" using chain_ok_frame [OF h] tk by (simp add: pair_taken_def)
    show "pg_count s2 pg = pg_count s pg" using h tk by (simp add: pg_count_def pair_taken_def)
  qed
  have n: "unat (pg_count s2 pg) = length rest + 2"
    using c2(2) ok tk by (simp add: page_ok_def pair_taken_def)
  have p2: "page_ok (set_count pg (pg_count s2 pg - 2) s2) pg rest" by (rule page_ok_count2 [OF c2(1) n])
  have p': "page_ok s' pg rest"
    unfolding s'_def using tk a
    by (subst page_ok_frame [OF _ _, of _ _ "set_count pg (pg_count s2 pg - 2) s2"])
       (auto simp: rd_wr p2 pair_taken_def)
  have o: "only_chain pg offs s s'" unfolding s'_def s2_def set_code_def
    by (intro only_chain_wr only_chain_set_count) (use tk in \<open>auto simp: pair_taken_def\<close>)
  have e: "err_log s' = err_log s" using tk by (simp add: s'_def s2_def pair_taken_def wr_def)
  have cell: "cdr_code s' (pg + a) = drop_bit 1 (c - a)"
    using cc r(2) a by (simp add: s'_def cdr_code_def rd_wr rd_set_count)
  have l: "Listp s (pg + a) \<and> pg + a \<noteq> NIL \<longrightarrow> cdr s' (pg + a) = Inr (v AND POINTERMASK)"
  proof (rule pair_filled(2) [OF ok tk _ _ _ _ cell])
    show "chain_ok s' pg rest" "unat (pg_count s' pg) = length rest" using p' by (simp_all add: page_ok_chain)
    show "gc s' = gc s1" by (simp add: s'_def s2_def)
    show "rd s' (pg + c) = v" by (simp add: s'_def rd_wr)
  qed
  have k: "c = a + push_bit 1 (cdr_code s' (pg + a))" "cdr_code s' (pg + a) \<in> {1..7}"
    using rc(2,3) by (simp_all only: cell rc(6)) (auto simp: word_le_nat_alt word_less_nat_alt unat_eq_zero Suc_le_eq intro: gr0I)
  have m: "set offs = {a, c} \<union> set rest" "a \<notin> set rest" "c \<notin> set rest"
    using tk by (simp_all add: pair_taken_def)
  show ?thesis
    by (intro disjI1 exI [of _ a] exI [of _ c] exI [of _ rest] exI [of _ s'] conjI f m p' o e k l)
qed


text \<open>
  \<open>find_cdrpair_in_page\<close> returns on every well-formed page. It leaves the page alone, or it
  takes a pair in reach off the chain with its count and builds the cell there: its car and its cdr
  are the arguments.
\<close>

theorem find_cdrpair_in_page_builds:
  assumes ok: "page_ok s pg offs"
  shows "(\<exists>a c rest s'. find_cdrpair_in_page pg v w s = Inr (Some (pg + a), s') \<and>
            set offs = {a, c} \<union> set rest \<and> a \<notin> set rest \<and> c \<notin> set rest \<and>
            page_ok s' pg rest \<and> only_chain pg offs s s' \<and> err_log s' = err_log s \<and>
            (Listp s (pg + a) \<and> pg + a \<noteq> NIL \<longrightarrow>
               car s' (pg + a) = Inr (v AND POINTERMASK) \<and> cdr s' (pg + a) = Inr (w AND POINTERMASK))) \<or>
         find_cdrpair_in_page pg v w s = Inr (None, s)"
  using take_pair_law [OF ok]
proof (elim disjE exE conjE)
  assume "take_pair pg s = Inr (None, s)"
  then show ?thesis by (simp add: find_cdrpair_in_page_def)
next
  fix a c rest s1
  assume t: "take_pair pg s = Inr (Some (a, c), s1)" and tk: "pair_taken s pg offs a c rest s1"
  have g: "is_off a" "\<not> bit a 0" "is_off c" "\<not> bit c 0"
    using page_ok_good [OF ok] tk by (auto simp: pair_taken_def)
  have r: "reach a c" "a \<noteq> c" and a: "a \<noteq> 4" "c \<noteq> 4"
    using tk is_off_header g by (auto simp: pair_taken_def reach_def)
  note d = reach_dist [OF r(1) g(1) g(3) g(2) g(4)]
  note rc = reach_code [OF d]
  define s2 where "s2 = set_count pg (pg_count s1 pg - 2) s1"
  define s4 where "s4 = wr (pg + c) w (wr (pg + a) v s2)"
  define s' where "s' = set_code (pg + a) (drop_bit 1 (c - a)) s4"
  have f: "find_cdrpair_in_page pg v w s = Inr (Some (pg + a), s')"
    using t unfolding s'_def s4_def s2_def by (simp add: find_cdrpair_in_page_def Let_def del: cell_fields)
  have n: "unat (pg_count s1 pg) = length rest + 2"
    using ok tk by (simp add: page_ok_def pair_taken_def)
  have p2: "page_ok s2 pg rest" unfolding s2_def
    by (rule page_ok_count2 [OF _ n]) (use tk in \<open>simp add: pair_taken_def\<close>)
  have p': "page_ok s' pg rest"
    unfolding s'_def s4_def set_code_def using tk a
    by (subst page_ok_frame [OF _ _, of _ _ s2]) (auto simp: rd_wr p2 pair_taken_def)
  have o: "only_chain pg offs s s'" unfolding s'_def s4_def s2_def set_code_def
    by (intro only_chain_wr only_chain_set_count) (use tk in \<open>auto simp: pair_taken_def\<close>)
  have e: "err_log s' = err_log s" using tk by (simp add: s'_def s4_def s2_def pair_taken_def wr_def)
  have cell: "cdr_code s' (pg + a) = drop_bit 1 (c - a)" using rc(1) by (simp add: s'_def)
  have cr: "car_field s' (pg + a) = v AND POINTERMASK"
  proof -
    have "car_field s' (pg + a) = car_field s4 (pg + a)" by (simp add: s'_def)
    then show ?thesis using r(2) by (simp add: s4_def car_field_def car_of_def rd_wr)
  qed
  have gs: "gc s' = gc s" using taken_frame [OF tk] by (simp add: s'_def s4_def s2_def)
  have l: "Listp s (pg + a) \<and> pg + a \<noteq> NIL \<longrightarrow> cdr s' (pg + a) = Inr (w AND POINTERMASK)"
  proof (rule pair_filled(2) [OF ok tk _ _ _ _ cell])
    show "chain_ok s' pg rest" "unat (pg_count s' pg) = length rest" using p' by (simp_all add: page_ok_chain)
    show "gc s' = gc s1" by (simp add: s'_def s4_def s2_def)
    show "rd s' (pg + c) = w" using r(2) by (simp add: s'_def s4_def set_code_def rd_wr)
  qed
  have l': "Listp s (pg + a) \<and> pg + a \<noteq> NIL \<longrightarrow>
      car s' (pg + a) = Inr (v AND POINTERMASK) \<and> cdr s' (pg + a) = Inr (w AND POINTERMASK)"
    using l cell rc(2) cr Listp_gc [OF gs] by (auto simp: car_def CDR_INDIRECT_def)
  have m: "set offs = {a, c} \<union> set rest" "a \<notin> set rest" "c \<notin> set rest"
    using tk by (simp_all add: pair_taken_def)
  show ?thesis
    by (intro disjI1 exI [of _ a] exI [of _ c] exI [of _ rest] exI [of _ s'] conjI f m p' o e l')
qed

section \<open>A new page\<close>

fun chain_offs :: "nat \<Rightarrow> 32 word \<Rightarrow> 32 word list" where
  "chain_offs 0 j = [6 XOR j]"
| "chain_offs (Suc n) j = (6 XOR j) # chain_offs n (j - 2)"

lemma chain_offs_length [simp]: "length (chain_offs n j) = Suc n"
  by (induction n arbitrary: j) auto

lemma chain_offs_hd [simp]: "chain_offs n j ! 0 = 6 XOR j"
  by (cases n) auto

lemma next_free_set_car: "next_free (set_car a NIL s) b = (if b = a then next_free (set_car a NIL s) a else next_free s b)"
  by (simp add: next_free_def set_car_def rd_wr)

lemma rd_set_cell: "b \<noteq> a \<Longrightarrow> rd (set_next_free a n s) b = rd s b" "b \<noteq> a \<Longrightarrow> rd (set_car a v s) b = rd s b"
  by (simp_all add: set_next_free_def set_car_def rd_wr)

lemma init_conscells_links:
  assumes "distinct (chain_offs n j)" "\<forall>x \<in> set (chain_offs n j). is_off x"
  shows "(\<forall>i < n. next_free (init_conscells n j base s) (base + chain_offs n j ! i) = chain_offs n j ! Suc i) \<and>
    (\<forall>a. a \<notin> (\<lambda>x. base + x) ` set (butlast (chain_offs n j)) \<longrightarrow> rd (init_conscells n j base s) a = rd s a)"
  using assms
proof (induction n arbitrary: j s)
  case (Suc n)
  define s1 where "s1 = set_next_free (base + (6 XOR j)) (6 XOR (j - 2)) (set_car (base + (6 XOR j)) NIL s)"
  have e: "init_conscells (Suc n) j base s = init_conscells n (j - 2) base s1"
    by (simp add: s1_def Let_def)
  have ne: "chain_offs n (j - 2) \<noteq> []" by (cases n) auto
  have nin: "6 XOR j \<notin> set (chain_offs n (j - 2))" using Suc.prems(1) by simp
  note IH = Suc.IH [of "j - 2" s1] 
  have ih: "\<forall>i < n. next_free (init_conscells n (j - 2) base s1) (base + chain_offs n (j - 2) ! i) = chain_offs n (j - 2) ! Suc i"
    "\<forall>a. a \<notin> (\<lambda>x. base + x) ` set (butlast (chain_offs n (j - 2))) \<longrightarrow> rd (init_conscells n (j - 2) base s1) a = rd s1 a"
    using IH Suc.prems by auto
  have hd: "chain_offs n (j - 2) ! 0 = 6 XOR (j - 2)" by simp
  have off: "is_off (6 XOR (j - 2))" using Suc.prems(2) hd nth_mem [of 0 "chain_offs n (j - 2)"] by simp
  have "base + (6 XOR j) \<notin> (\<lambda>x. base + x) ` set (butlast (chain_offs n (j - 2)))"
    using nin by (auto dest: in_set_butlastD)
  then have "next_free (init_conscells n (j - 2) base s1) (base + (6 XOR j)) = next_free s1 (base + (6 XOR j))"
    using ih(2) by (simp add: next_free_def)
  then have first: "next_free (init_conscells n (j - 2) base s1) (base + (6 XOR j)) = 6 XOR (j - 2)"
    using is_off_take [of "6 XOR (j - 2)"] off by (simp add: s1_def)
  show ?case unfolding e
  proof (intro conjI allI impI)
    fix i assume "i < Suc n"
    then show "next_free (init_conscells n (j - 2) base s1) (base + chain_offs (Suc n) j ! i) = chain_offs (Suc n) j ! Suc i"
      using first ih(1) hd by (cases i) auto
  next
    fix a assume "a \<notin> (\<lambda>x. base + x) ` set (butlast (chain_offs (Suc n) j))"
    then have "a \<noteq> base + (6 XOR j)" "a \<notin> (\<lambda>x. base + x) ` set (butlast (chain_offs n (j - 2)))" using ne by auto
    then show "rd (init_conscells n (j - 2) base s1) a = rd s a"
      using ih(2) by (simp add: s1_def rd_set_cell)
  qed
qed auto


definition page_offs :: "32 word list" where "page_offs = chain_offs 123 254"

lemma xor6_inj: "6 XOR x = 6 XOR y \<Longrightarrow> x = (y :: 32 word)"
proof -
  assume "6 XOR x = 6 XOR y"
  then have "6 XOR (6 XOR x) = 6 XOR (6 XOR y)" by simp
  then show ?thesis by (simp add: xor.assoc [symmetric])
qed

lemma chain_offs_map: "chain_offs n j = map (\<lambda>i. 6 XOR (j - 2 * of_nat i)) [0..<Suc n]"
proof (induction n arbitrary: j)
  case (Suc n)
  have "[0..<Suc (Suc n)] = 0 # map Suc [0..<Suc n]" by (simp only: map_Suc_upt upt_conv_Cons [of 0 "Suc (Suc n)"] zero_less_Suc)
  then show ?case using Suc.IH [of "j - 2"] by (simp only: chain_offs.simps list.map map_map comp_def) (simp add: algebra_simps)
qed simp

lemma page_offs_distinct: "distinct page_offs"
proof -
  have "inj_on (\<lambda>i. 6 XOR (254 - 2 * of_nat i) :: 32 word) {0..<124}"
  proof (rule inj_onI)
    fix i k :: nat
    assume a: "i \<in> {0..<124}" "k \<in> {0..<124}" "(6 XOR (254 - 2 * of_nat i) :: 32 word) = 6 XOR (254 - 2 * of_nat k)"
    have u: "unat (254 - 2 * of_nat m :: 32 word) = 254 - 2 * m" if "m < 124" for m
    proof -
      have m: "unat (2 * of_nat m :: 32 word) = 2 * m"
        using that by (simp add: unat_word_ariths unat_of_nat)
      then have "(2 * of_nat m :: 32 word) \<le> 254" using that by (simp add: word_le_nat_alt)
      then show ?thesis using m by (simp add: unat_sub)
    qed
    have "(254 - 2 * of_nat i :: 32 word) = 254 - 2 * of_nat k" by (rule xor6_inj [OF a(3)])
    then have "254 - 2 * i = 254 - 2 * k" using u a(1,2) by (metis atLeastLessThan_iff)
    then show "i = k" using a(1,2) by auto
  qed
  then show ?thesis unfolding page_offs_def chain_offs_map by (simp add: distinct_map del: upt_Suc)
qed

lemma page_offs_good: "list_all (\<lambda>x. is_off x \<and> \<not> bit x 0) page_offs"
  by code_simp

lemma page_offs_last: "last page_offs = 14" "hd page_offs = 248"
  by (code_simp, code_simp)


lemma init_conspage_law:
  "page_ok (init_conspage base link s) base page_offs \<and> length page_offs = 124 \<and>
   pg_next_page (init_conspage base link s) base = link \<and>
   only_chain base (6 # page_offs) s (init_conspage base link s)"
proof -
  define s1 where "s1 = set_next_cell base (6 XOR 254) s"
  define s2 where "s2 = init_conscells 123 254 base s1"
  define s3 where "s3 = set_next_free (base + 14) 0 (set_car (base + 14) NIL s2)"
  define s4 where "s4 = set_count base 124 s3"
  have e: "init_conspage base link s = set_next_page base link s4"
    by (simp add: init_conspage_def Let_def s4_def s3_def s2_def s1_def)
  have len: "length page_offs = 124" by (simp add: page_offs_def)
  then have ne: "page_offs \<noteq> []" by auto
  have good: "is_off x \<and> \<not> bit x 0" if "x \<in> set page_offs" for x
    using that page_offs_good by (simp add: list_all_iff)
  have links: "\<forall>i < 123. next_free s2 (base + page_offs ! i) = page_offs ! Suc i"
    and frame: "\<forall>a. a \<notin> (\<lambda>x. base + x) ` set (butlast page_offs) \<longrightarrow> rd s2 a = rd s1 a"
    unfolding s2_def page_offs_def
    by (rule init_conscells_links [THEN conjunct1] init_conscells_links [THEN conjunct2];
        use page_offs_distinct good in \<open>simp add: page_offs_def\<close>)+
  have l: "page_offs ! 123 = 14" using page_offs_last(1) ne len by (simp add: last_conv_nth)
  have n14: "page_offs ! i \<noteq> 14" if "i < 123" for i
    using that l nth_eq_iff_index_eq [OF page_offs_distinct, of i 123] len by simp
  let ?t = "init_conspage base link s"
  have nf: "next_free ?t (base + x) = (if x = 14 then 0 else next_free s2 (base + x))" if "is_off x" for x
    using that is_off_header [OF that]
    by (simp add: e s4_def s3_def next_free_def set_next_page_def rd_wr rd_set_count rd_set_cell)
       (auto simp: set_next_free_def rd_wr rd_set_count)
  have h: "rd s2 (base + 4) = rd s1 (base + 4)"
  proof -
    have "base + 4 \<notin> (\<lambda>x. base + x) ` set (butlast page_offs)"
      using good is_off_header by (auto dest!: in_set_butlastD)
    then show ?thesis using frame by simp
  qed
  have hd4: "rd s3 (base + 4) = rd s1 (base + 4)" using h by (simp add: s3_def rd_set_cell)
  have nc: "pg_next_cell ?t base = 248"
  proof -
    have "pg_next_cell ?t base = pg_next_cell s4 base"
      by (simp add: e pg_next_cell_def set_next_page_def rd_wr)
    also have "\<dots> = pg_next_cell s1 base" using hd4 by (simp add: s4_def pg_next_cell_def [of s3] pg_next_cell_def [of s1])
    also have "\<dots> = 248" by (simp add: s1_def)
    finally show ?thesis .
  qed
  have cn: "pg_count ?t base = 124"
  proof -
    have "pg_count ?t base = pg_count s4 base" by (simp add: e pg_count_def set_next_page_def rd_wr)
    then show ?thesis by (simp add: s4_def)
  qed
  have "page.fpath base ?t (pg_next_cell ?t base) (page_offs @ [])"
    unfolding page.fpath_append
  proof (simp only: if_not_P [OF ne], intro conjI ballI allI impI)
    fix i assume i: "Suc i < length page_offs"
    have "is_off (page_offs ! i)" using good i by simp
    then show "next_free ?t (base + page_offs ! i) = page_offs ! Suc i"
      using i len n14 links by (simp add: nf)
  next
    show "page.fpath base ?t (next_free ?t (base + last page_offs)) []"
      using nf [of 14] good [of 14] page_offs_last ne last_in_set [of page_offs] by simp
  qed (use good page_offs_last nc in simp_all)
  then have p: "page_ok ?t base page_offs"
    using page_offs_distinct good cn len by (simp add: page_ok_def list_all_iff)
  have np: "pg_next_page ?t base = link" by (simp add: e pg_next_page_def set_next_page_def rd_wr)
  have "rd ?t a = rd s a" if a: "a \<noteq> base + 4" "\<forall>x \<in> set (6 # page_offs). a \<noteq> base + x" for a
  proof -
    have "14 \<in> set page_offs" using l len nth_mem [of 123 page_offs] by simp
    then have "a \<noteq> base + 14" using a(2) by auto
    moreover have "a \<notin> (\<lambda>x. base + x) ` set (butlast page_offs)" using a(2) by (auto dest: in_set_butlastD)
    ultimately show ?thesis using a frame
      by (simp add: e s4_def s3_def set_next_page_def rd_wr rd_set_count rd_set_cell)
         (simp add: s1_def set_next_cell_def rd_wr)
  qed
  moreover have "?t\<lparr>mem := mem s, err_log := err_log s\<rparr> = s"
  proof -
    have "(init_conscells n j base u)\<lparr>mem := m\<rparr> = u\<lparr>mem := m\<rparr>" for n j u m
      by (induction n arbitrary: j u) (simp_all add: Let_def set_next_free_def)
    then have "?t\<lparr>mem := mem s\<rparr> = s1\<lparr>mem := mem s\<rparr>"
      by (simp add: e s4_def s3_def s2_def set_next_page_def set_next_free_def)
    then have "?t\<lparr>mem := mem s\<rparr> = s" by (simp add: s1_def set_next_cell_def)
    then show ?thesis by (metis vm.surjective vm.update_convs(4) vm.select_convs(4))
  qed
  ultimately show ?thesis using p np len by (auto simp: only_chain_def)
qed


text \<open>
  \<open>init_conspage\<close> makes every cell of the page a free cell: the header counts 124, the chain
  is well formed, starts with the cell at 248 and holds exactly the even offsets from 8 to 254, and the next-page link is
  the one given.
\<close>

theorem init_conspage_all_free:
  "\<exists>offs. page_ok (init_conspage base link s) base offs \<and> length offs = 124 \<and> hd offs = 248 \<and>
     set offs = {x. 8 \<le> x \<and> x < 256 \<and> \<not> bit x 0} \<and>
     pg_next_page (init_conspage base link s) base = link \<and>
     only_chain base (6 # offs) s (init_conspage base link s)"
proof -
  let ?E = "{x :: 32 word. 8 \<le> x \<and> x < 256 \<and> \<not> bit x 0}"
  have fin: "unat ` ?E \<subseteq> (\<lambda>i. 8 + 2 * i) ` {0..<124}"
  proof
    fix n assume "n \<in> unat ` ?E"
    then obtain x :: "32 word" where x: "n = unat x" "8 \<le> x" "x < 256" "\<not> bit x 0" by auto
    have "even n" using x(1,4) bit_unsigned_iff [of x 0, where 'a = nat] by (simp add: bit_0)
    moreover have "8 \<le> n" "n < 256" using x by (simp_all add: word_le_nat_alt word_less_nat_alt)
    ultimately have "n = 8 + 2 * ((n - 8) div 2)" "(n - 8) div 2 < 124" by presburger+
    then show "n \<in> (\<lambda>i. 8 + 2 * i) ` {0..<124}" by (metis atLeast0LessThan image_eqI lessThan_iff)
  qed
  have "card ?E = card (unat ` ?E)" by (rule card_image [symmetric]) (simp add: inj_on_def word_unat_eq_iff)
  also have "\<dots> \<le> 124"
    using card_mono [OF _ fin] card_image_le [of "{0..<124 :: nat}" "\<lambda>i. 8 + 2 * i"] by simp
  finally have le: "card ?E \<le> card (set page_offs)"
    using distinct_card [OF page_offs_distinct] init_conspage_law by simp
  have sub: "set page_offs \<subseteq> ?E" using page_offs_good by (auto simp: list_all_iff is_off_def)
  have "set page_offs = ?E" by (rule card_seteq [OF _ sub le]) simp
  then show ?thesis using init_conspage_law [of base link s] page_offs_last(2) by blast
qed

section \<open>A freed cell\<close>

lemma offs_bound: "distinct xs \<Longrightarrow> \<forall>x \<in> set xs. is_off x \<Longrightarrow> length xs \<le> 248"
proof -
  assume a: "distinct xs" "\<forall>x \<in> set xs. is_off x"
  have "unat ` set xs \<subseteq> {8..<256}" using a(2) by (auto simp: is_off_def word_less_nat_alt word_le_nat_alt)
  then have "card (unat ` set xs) \<le> 248" using card_mono [of "{8..<256 :: nat}"] by fastforce
  moreover have "card (unat ` set xs) = length xs"
    using a(1) by (simp add: card_image inj_on_def word_unat_eq_iff distinct_card)
  ultimately show ?thesis by simp
qed

lemma fpath_next: "page.fpath pg s k vs \<Longrightarrow> k = (if vs = [] then 0 else hd vs)"
  by (cases vs) auto

text \<open>Putting a cell back into the chain, with its count.\<close>

definition put_back :: "LispPTR \<Rightarrow> 32 word list \<Rightarrow> 32 word \<Rightarrow> 32 word \<Rightarrow> vm \<Rightarrow> vm" where
  "put_back pg us x v s =
     (let s1 = set_next_free (pg + x) v (unchain pg (prior_of us) x s)
      in set_count pg (pg_count s1 pg + 1) s1)"

lemma put_back_ok:
  assumes ok: "page_ok s pg (us @ vs)" and x: "is_off x" "\<not> bit x 0" "x \<notin> set (us @ vs)"
  shows "page_ok (put_back pg us x (if vs = [] then 0 else hd vs) s) pg (us @ x # vs)"
    and "only_chain pg (us @ x # vs) s (put_back pg us x (if vs = [] then 0 else hd vs) s)"
proof -
  let ?v = "if vs = [] then 0 else hd vs"
  define s1 where "s1 = set_next_free (pg + x) ?v (unchain pg (prior_of us) x s)"
  have c: "page.fpath pg s (pg_next_cell s pg) (us @ vs)" "distinct (us @ vs)"
    "list_all (\<lambda>x. \<not> bit x 0) (us @ vs)" "unat (pg_count s pg) = length (us @ vs)"
    using ok by (simp_all add: page_ok_def)
  have v: "(if us = [] then pg_next_cell s pg else next_free s (pg + last us)) = ?v"
    using fpath_next [OF page.fpath_last [OF c(1)]] by simp
  have ins: "page.fpath pg s1 (pg_next_cell s1 pg) (us @ x # vs)"
    using page.fpath_insert [OF c(1,2) x(1,3)] unfolding v s1_def unchain_relink prior_before .
  have "\<forall>y \<in> set (us @ x # vs). is_off y" using page_ok_good [OF ok] x(1) by auto
  then have "length (us @ x # vs) \<le> 248" using c(2) x(3) by (intro offs_bound) auto
  then have n: "unat (pg_count s pg + 1) = length (us @ x # vs)" "length (us @ x # vs) < 256"
    using c(4) by (simp_all add: unat_word_ariths)
  then have t: "take_bit 8 (pg_count s pg + 1) = pg_count s pg + 1" by (intro unat_take8) simp
  have p: "pg_count s1 pg = pg_count s pg"
    using is_off_header [OF x(1)] prior_of_good [OF ok] by (simp add: s1_def pg_count_unchain)
  have e: "put_back pg us x ?v s = set_count pg (pg_count s pg + 1) s1"
    using p by (simp add: put_back_def Let_def s1_def)
  show "page_ok (put_back pg us x ?v s) pg (us @ x # vs)"
    using ins c n t x unfolding e by (simp add: page_ok_def)
  have "only_chain pg (us @ x # vs) s s1"
    unfolding s1_def set_next_free_def using prior_of_mem [of us]
    by (intro only_chain_wr unchain_only) auto
  then show "only_chain pg (us @ x # vs) s (put_back pg us x ?v s)"
    unfolding e by (rule only_chain_set_count)
qed

text \<open>The end of \<open>freelistcell\<close>: a page with many free cells joins the chain of pages again.\<close>

definition rejoin :: "LispPTR \<Rightarrow> vm \<Rightarrow> vm" where
  "rejoin pg s =
     (if pg_count s pg > 32 \<and> pg_next_page s pg = CONSPAGE_LAST
      then set_dtd_nextpage ListpDTD (LPage pg) (set_next_page pg (dtd_nextpage s ListpDTD) s)
      else s)"

text \<open>
  C8. \<open>freelistcell\<close> returns on every cell that is not on the free chain of its well-formed page:
  it puts the cell into the chain and counts it. When the page then has more than 32 free cells and
  is off the chain of pages, it becomes the first page of that chain.
\<close>

theorem freelistcell_returns:
  assumes ok: "page_ok s pg offs"
    and x: "cell = pg + x" "x = cell AND 0xFF" "is_off x" "\<not> bit x 0" "x \<notin> set offs"
    and pg: "FromLPage (POINTER_PAGE cell) = pg" "POINTER_PAGE cell = LPage pg"
    and dtd: "\<forall>k. k = 4 \<or> is_off k \<longrightarrow> pg + k \<noteq> ListpDTD + 14" "pg + 6 \<noteq> ListpDTD + 14"
  shows "\<exists>us vs s1. offs = us @ vs \<and> freelistcell cell s = Inr (rejoin pg s1) \<and>
    page_ok s1 pg (us @ x # vs) \<and> page_ok (rejoin pg s1) pg (us @ x # vs) \<and>
    only_chain pg (x # offs) s s1 \<and>
    (length offs \<ge> 32 \<and> pg_next_page s pg = CONSPAGE_LAST \<longrightarrow>
       dtd_nextpage (rejoin pg s1) ListpDTD = LPage pg \<and>
       pg_next_page (rejoin pg s1) pg = dtd_nextpage s ListpDTD)"
proof -
  have ch: "page.fpath pg s (pg_next_cell s pg) offs" using ok by (simp add: page_ok_def)
  obtain us vs where uv: "offs = us @ vs"
    "freelist_place s pg x 0 (pg_next_cell s pg) = Some (if us = [] then 0 else last us, if vs = [] then 0 else hd vs)"
    using freelist_place_path [OF ch, of x 0] by blast
  define s1 where "s1 = put_back pg us x (if vs = [] then 0 else hd vs) s"
  have pb: "page_ok s1 pg (us @ x # vs)" "only_chain pg (us @ x # vs) s s1"
    using put_back_ok [OF ok [unfolded uv(1)] x(3,4)] x(5) uv(1) unfolding s1_def by auto
  have oc: "only_chain pg (x # offs) s s1" using pb(2) uv(1) by (simp add: only_chain_def)
  have x8: "\<not> x < 8" using x(3) by (simp add: is_off_def not_less)
  have pgl: "FromLPage (LPage pg) = pg" using pg by simp
  have f: "freelistcell cell s = Inr (rejoin pg s1)"
  proof (cases "pg_count s pg = 0")
    case True
    then have "us = [] \<and> vs = []" using ok uv(1) by (simp add: page_ok_def)
    then show ?thesis using x8 True
      unfolding freelistcell_def pg x(2) [symmetric]
      by (simp add: Let_def s1_def put_back_def rejoin_def prior_of_def unchain_def pgl)
  next
    case False
    then show ?thesis using x8 uv(2)
      unfolding freelistcell_def pg x(2) [symmetric]
      by (simp add: Let_def s1_def put_back_def rejoin_def prior_of_def x(1) [symmetric] pgl)
  qed
  have rj: "page_ok (rejoin pg s1) pg (us @ x # vs)"
  proof (cases "pg_count s1 pg > 32 \<and> pg_next_page s1 pg = CONSPAGE_LAST")
    case True
    show ?thesis
    proof (subst page_ok_frame [of _ _ s1])
      show "rd (rejoin pg s1) (pg + 4) = rd s1 (pg + 4)"
        using dtd by (simp add: rejoin_def set_dtd_nextpage_def set_next_page_def rd_wr)
      show "\<forall>y \<in> set (us @ x # vs). rd (rejoin pg s1) (pg + y) = rd s1 (pg + y)"
        using page_ok_good [OF pb(1)] dtd is_off_header
        by (auto simp: rejoin_def set_dtd_nextpage_def set_next_page_def rd_wr)
    qed (rule pb(1))
  next
    case False
    then show ?thesis using pb(1) by (auto simp: rejoin_def)
  qed
  have keep: "rd s1 (pg + 6) = rd s (pg + 6)" "rd s1 (ListpDTD + 14) = rd s (ListpDTD + 14)"
  proof -
    have g: "\<forall>y \<in> set (us @ x # vs). is_off y" using page_ok_good [OF pb(1)] by blast
    show "rd s1 (pg + 6) = rd s (pg + 6)"
      using pb(2) g is_off_header by (auto simp: only_chain_def)
    show "rd s1 (ListpDTD + 14) = rd s (ListpDTD + 14)"
    proof -
      have "ListpDTD + 14 \<noteq> pg + 4" using dtd(1) by metis
      moreover have "\<forall>y \<in> set (us @ x # vs). ListpDTD + 14 \<noteq> pg + y" using g dtd(1) by metis
      ultimately show ?thesis using pb(2) unfolding only_chain_def by blast
    qed
  qed
  have last: "dtd_nextpage (rejoin pg s1) ListpDTD = LPage pg \<and>
       pg_next_page (rejoin pg s1) pg = dtd_nextpage s ListpDTD"
    if h: "length offs \<ge> 32 \<and> pg_next_page s pg = CONSPAGE_LAST"
  proof -
    have "unat (pg_count s1 pg) > 32" using pb(1) h uv(1) by (simp add: page_ok_def)
    then have "pg_count s1 pg > 32" by (simp add: word_less_nat_alt)
    moreover have "pg_next_page s1 pg = CONSPAGE_LAST" using h keep(1) by (simp add: pg_next_page_def)
    ultimately show ?thesis using dtd(2) keep(2)
      by (simp add: rejoin_def dtd_nextpage_def pg_next_page_def set_dtd_nextpage_def set_next_page_def rd_wr)
  qed
  show ?thesis
    by (rule exI [of _ us], rule exI [of _ vs], rule exI [of _ s1]) (use uv(1) f pb(1) rj oc last in blast)
qed


section \<open>On a concrete page\<close>

text \<open>
  A state with one page of lists, new, at 0x400000, which is the first page of the chain; nothing is
  counted.
\<close>

definition vm_types :: vm where
  "vm_types = vm0\<lparr>mem := (mem vm0)(0x141068 := 0x4000),
     gc := (gc vm0)\<lparr>mds_typetbl := (\<lambda>i. if i = 0x2000 then 0x8005 else 0x8004)\<rparr>\<rparr>"

definition vm_page :: vm where "vm_page = init_conspage 0x400000 0 vm_types"

lemma vm_page_ok: "page_ok vm_page 0x400000 page_offs"
  unfolding vm_page_def using init_conspage_law by blast

lemma vm_page_gc: "gc vm_page = gc vm_types"
  using only_chain_gc [OF init_conspage_law [THEN conjunct2, THEN conjunct2, THEN conjunct2]]
  unfolding vm_page_def .

lemma off_on_page: "k < 256 \<Longrightarrow> drop_bit 9 (0x400000 + k) = (0x2000 :: 32 word)"
proof -
  assume "k < 256"
  then have k: "unat k < 256" by (simp add: word_less_nat_alt)
  then have "unat (0x400000 + k) = 0x400000 + unat k" by (simp add: unat_word_ariths)
  then have "unat (drop_bit 9 (0x400000 + k)) = (0x400000 + unat k) div 512" by (simp add: drop_div)
  also have "\<dots> = 0x2000" using k by simp
  finally show ?thesis by (simp add: word_unat_eq_iff)
qed

lemma vm_page_Listp: "k < 256 \<Longrightarrow> Listp vm_page (0x400000 + k)"
  by (simp add: Listp_def GetTypeNumber_def GetTypeEntry_def vm_page_gc vm_types_def TYPE_LISTP_def off_on_page)

lemma vm_page_uncounted: "\<not> RefCntP vm_page a"
  by (simp add: RefCntP_def GetTypeEntry_def vm_page_gc vm_types_def TT_NOREF_def)

lemma page_offs_eq: "page_offs = 248 # tl page_offs"
proof -
  have "length page_offs = 124" by (simp add: page_offs_def)
  then have "page_offs \<noteq> []" by auto
  then show ?thesis using page_offs_last(2) list.collapse by metis
qed

text \<open>
  The lower bound of the search in \<open>find_close_prior_cell\<close> is the unsigned difference of the
  old cell's offset and 14: for the cells at offsets 8, 10 and 12 it wraps around, so that no free cell
  is found before them, whatever the chain holds.
\<close>

theorem prior_cell_wraps:
  assumes "page_ok s pg offs" "old AND 0xFF < 14"
  shows "find_close_prior_cell pg old s = Inr (None, s)"
proof -
  define oo where "oo = old AND 0xFF"
  have o: "unat oo < 14" using assms(2) by (simp add: oo_def word_less_nat_alt)
  have "page.fpath pg s (pg_next_cell s pg) offs" using assms(1) by (simp add: page_ok_def)
  from close_prior_search_path [OF this, of oo 0]
  have c: "close_prior_search s pg oo 0 (pg_next_cell s pg) = Some (seek (\<lambda>x. x < oo \<and> x \<ge> oo - 14) 0 offs)" .
  have "unat (oo - 14) = unat oo + 2 ^ 32 - 14" using o by (simp add: unat_sub_if_size word_size)
  then have "\<not> (x < oo \<and> x \<ge> oo - 14)" for x
    using o by (auto simp: word_less_nat_alt word_le_nat_alt)
  then have "seek (\<lambda>x. x < oo \<and> x \<ge> oo - 14) 0 offs = None" by (simp add: seek_None)
  then show ?thesis using c by (simp add: find_close_prior_cell_def oo_def)
qed

lemma prior_cell_wraps_witness:
  "find_close_prior_cell 0x400000 0x40000C vm_page = Inr (None, vm_page) \<and> 10 \<in> set page_offs \<and> reach 10 12"
proof -
  have "10 \<in> set page_offs" unfolding page_offs_def by code_simp
  then show ?thesis using prior_cell_wraps [OF vm_page_ok, of "0x40000C"] by (simp add: reach_def)
qed

lemma find_cdrpair_in_page_builds_witness:
  "(\<exists>a s'. find_cdrpair_in_page 0x400000 0x500000 0x400100 vm_page = Inr (Some (0x400000 + a), s') \<and>
      (0x400000 + a \<noteq> NIL \<longrightarrow>
        car s' (0x400000 + a) = Inr 0x500000 \<and> cdr s' (0x400000 + a) = Inr 0x400100)) \<or>
   find_cdrpair_in_page 0x400000 0x500000 0x400100 vm_page = Inr (None, vm_page)"
proof -
  have h: "(0x400100 :: 32 word) AND POINTERMASK = 0x400100" "(0x500000 :: 32 word) AND POINTERMASK = 0x500000"
    by (simp_all add: POINTERMASK_def)
  show ?thesis using find_cdrpair_in_page_builds [OF vm_page_ok, of "0x500000" "0x400100"] vm_page_Listp
      page_ok_good [OF vm_page_ok] unfolding h is_off_def by blast
qed

lemma freelistcell_returns_witness:
  "\<exists>s1. freelistcell 0x4000F8 (take_off 0x400000 [] 248 vm_page) = Inr (rejoin 0x400000 s1)"
proof -
  have ok: "page_ok (take_off 0x400000 [] 248 vm_page) 0x400000 (tl page_offs)"
    using take_off_ok(1) [of vm_page "0x400000" "[]" 248 "tl page_offs"] vm_page_ok page_offs_eq by simp
  have n: "248 \<notin> set (tl page_offs)" using page_offs_distinct page_offs_eq by (metis distinct.simps(2))
  have d: "ListpDTD = 0x14105A" by (simp add: ListpDTD_def GetDTD_def DTD_OFFSET_def TYPE_LISTP_def)
  have dd: "0x400000 + k \<noteq> ListpDTD + 14" if "k = 4 \<or> k = 6 \<or> is_off k" for k
  proof
    assume "0x400000 + k = ListpDTD + 14"
    then have "k = ListpDTD + 14 - 0x400000" by (simp add: algebra_simps)
    then show False using that by (auto simp: d is_off_def)
  qed
  have h: "(0x4000F8 :: 32 word) = 0x400000 + 248" "(248 :: 32 word) = 0x4000F8 AND 0xFF" "is_off 248"
    "\<not> bit (248 :: 32 word) 0" "FromLPage (POINTER_PAGE 0x4000F8) = 0x400000"
    "POINTER_PAGE 0x4000F8 = LPage 0x400000"
    by (simp_all add: is_off_def FromLPage_def POINTER_PAGE_def LPage_def)
  show ?thesis using freelistcell_returns [OF ok h(1-4) n h(5,6)] dd by blast
qed

end
