(* ===== verification/Cons_Store.thy ===== *)
theory Cons_Store
  imports Cons_Pairs
begin

text \<open>
  \<open>rplaca\<close>, \<open>rplacd\<close> and \<open>cons\<close> against the two functions that read a list:
  after the store \<open>car\<close> and \<open>cdr\<close> of the cell are the values stored.
\<close>

section \<open>Counting keeps the types\<close>

text \<open>
  Whatever a change of a count does to the tables, at most the not-counted flag of a type entry is
  set (by \<open>disablegc1\<close>): the type numbers stay.
\<close>

definition types_kept :: "gctab \<Rightarrow> gctab \<Rightarrow> bool" where
  "types_kept g g' \<longleftrightarrow> (\<forall>i. mds_typetbl g' i AND 0x7FF = mds_typetbl g i AND 0x7FF)"

lemma types_kept_same [intro]: "mds_typetbl g' = mds_typetbl g \<Longrightarrow> types_kept g g'"
  by (simp add: types_kept_def)

lemma typetbl_simps [simp]:
  "mds_typetbl (putgc e v g) = mds_typetbl g"
  "mds_typetbl (IncAllocCnt n g) = mds_typetbl g"
  "mds_typetbl (DecAllocCnt n g) = mds_typetbl g"
  "mds_typetbl (FreeLink l g) = mds_typetbl g"
  by (cases e) (simp_all add: IncAllocCnt_def DecAllocCnt_def FreeLink_def Let_def)

lemma typetbl_dellink [simp]: "mds_typetbl (dellink entry link prev g) = mds_typetbl g"
  by (simp add: dellink_def Let_def)

lemma types_kept_disable: "types_kept g (disablegc1 b g)"
proof -
  have "(w OR TT_NOREF) AND 0x7FF = w AND 0x7FF" for w :: "16 word"
    by (simp add: TT_NOREF_def and.commute [of _ "0x7FF"] bit.conj_disj_distrib)
  then show ?thesis by (simp add: types_kept_def disablegc1_def Let_def)
qed

lemma types_kept_GetLink: "types_kept g (snd (GetLink g))"
  using types_kept_disable by (auto simp: GetLink_def Let_def)

lemma types_kept_trans: "types_kept g g1 \<Longrightarrow> types_kept g1 g2 \<Longrightarrow> types_kept g g2"
  by (simp add: types_kept_def)

lemma types_kept_big:
  "enter_big_reference_count p g = Inr g' \<Longrightarrow> mds_typetbl g' = mds_typetbl g"
  "modify_big_reference_count sw e c p g = Inr g' \<Longrightarrow> mds_typetbl g' = mds_typetbl g"
  by (auto simp: enter_big_reference_count_def modify_big_reference_count_def Let_def
      split: option.splits sum.splits if_splits refcase.splits)

lemma types_kept_entries:
  "NewEntry e h c p g = Inr (r, g') \<Longrightarrow> mds_typetbl g' = mds_typetbl g"
  "RecNewEntry e h c p g = Inr (r, g') \<Longrightarrow> mds_typetbl g' = mds_typetbl g"
  "ModEntry sw e w p c g = Inr (q, g') \<Longrightarrow> mds_typetbl g' = mds_typetbl g"
  "RecModEntry sw e w p c g = Inr (q, g') \<Longrightarrow> mds_typetbl g' = mds_typetbl g"
  by (auto simp: NewEntry_def RecNewEntry_def ModEntry_def RecModEntry_def rbind_Inr_iff Let_def
      dest: types_kept_big split: if_splits refcase.splits)

lemma types_kept_body:
  assumes "\<And>e h r g g'. newe e h c p g = Inr (r, g') \<Longrightarrow> mds_typetbl g' = mds_typetbl g"
    and "\<And>e w q g g'. mode e w p c g = Inr (q, g') \<Longrightarrow> mds_typetbl g' = mds_typetbl g"
    and b: "ht_body newe mode p c g = Inr (r, g')"
  shows "types_kept g g'"
proof -
  have gl: "types_kept g g1" if "GetLink g = (l, g1)" for g l g1
    using types_kept_GetLink [of g] that by simp
  have n: "types_kept g g'" if "newe e h c p g2 = Inr (r, g')" "mds_typetbl g2 = mds_typetbl g1" "types_kept g g1"
    for e h g1 g2
    using assms(1) [OF that(1)] that(2,3) by (simp add: types_kept_def)
  have m: "types_kept g g'" if "rbind (mode e w p c g) (\<lambda>(r, g1). case r of Some v \<Rightarrow> Inr (v, g1) | None \<Rightarrow> Inr (NIL, f g1)) = Inr (r, g')"
    "\<And>g. mds_typetbl (f g) = mds_typetbl g" for e w f
    using that by (auto simp: rbind_Inr_iff types_kept_def dest!: assms(2) split: option.splits)
  let ?i = "ht_slot p" and ?w = "htmain g (ht_slot p)"
  consider "?w = 0" | "?w \<noteq> 0" "bit ?w 0" | "?w \<noteq> 0" "\<not> bit ?w 0" "ht_hiptr p = ?w AND HTHIMASK"
    | "?w \<noteq> 0" "\<not> bit ?w 0" "ht_hiptr p \<noteq> ?w AND HTHIMASK" by blast
  then show ?thesis
  proof cases
    case 1
    then show ?thesis using b assms(1) by (simp add: ht_body_def Let_def types_kept_def)
  next
    case 2
    then obtain found where f: "newlink (htcoll g) (ht_hiptr p) (unat (?w - 1)) 0 = Some found"
      using b by (cases "newlink (htcoll g) (ht_hiptr p) (unat (?w - 1)) 0") (simp_all add: ht_body_def Let_def)
    show ?thesis
    proof (cases found)
      case (Some q)
      obtain x y where "q = (x, y)" by fastforce
      then show ?thesis using b 2 f Some
        by (intro m [where f = "dellink ?i x y"]) (auto simp: ht_body_def Let_def)
    next
      case None
      obtain l g1 where g1: "GetLink g = (l, g1)" by fastforce
      show ?thesis using b 2 f None g1 gl [OF g1]
        by (cases l) (auto simp: ht_body_def Let_def intro: n)
    qed
  next
    case 3
    then show ?thesis using b
      by (auto simp: ht_body_def Let_def intro: m [where f = "putgc (Main ?i) 0"])
  next
    case 4
    obtain l g1 where g1: "GetLink g = (l, g1)" by fastforce
    obtain l' g2 where g2: "GetLink g1 = (l', g2)" by fastforce
    note k = types_kept_trans [OF gl [OF g1] gl [OF g2]]
    show ?thesis using b 4 g1 g2 gl [OF g1] k
      by (cases l; cases l') (auto simp: ht_body_def Let_def intro: n)
  qed
qed

lemma GCLOOKUP_types_kept: "GCLOOKUP p c s = Inr s' \<Longrightarrow> types_kept (gc s) (gc s')"
proof -
  assume g: "GCLOOKUP p c s = Inr s'"
  have h: "types_kept g g'" if "htfind sw p c g = Inr (r, g') \<or> rec_htfind sw p c g = Inr (r, g')" for sw g r g'
    using that types_kept_body types_kept_entries unfolding htfind_def rec_htfind_def by metis
  then show "types_kept (gc s) (gc s')"
    using g by (fastforce simp: GCLOOKUP_def GCLOOKUPV_def rbind_Inr_iff split: if_splits prod.splits)
qed

lemma GCLOOKUP_types: "GCLOOKUP p c s = Inr s' \<Longrightarrow> GetTypeNumber s' a = GetTypeNumber s a"
  using GCLOOKUP_types_kept by (simp add: GetTypeNumber_def GetTypeEntry_def types_kept_def)


section \<open>Replacing the car\<close>

text \<open>
  A list cell as \<open>car\<close> and \<open>cdr\<close> take it: an indirect cell points to a list cell whose cdr is
  stored, which is not indirect itself and whose cdr is not stored in the first cell.
\<close>

definition cell_ok :: "vm \<Rightarrow> LispPTR \<Rightarrow> bool" where
  "cell_ok s x \<longleftrightarrow> Listp s x \<and> x \<noteq> NIL \<and>
     (cdr_code s x = CDR_INDIRECT \<longrightarrow>
        Listp s (car_field s x) \<and> car_field s x \<noteq> NIL \<and> cdr_code s (car_field s x) \<in> {1..7} \<and>
        car_field s x + push_bit 1 (cdr_code s (car_field s x)) \<noteq> x)"

text \<open>The cell that holds the car, and the cell that holds the cdr when one does.\<close>

definition car_place :: "vm \<Rightarrow> LispPTR \<Rightarrow> LispPTR" where
  "car_place s x = (if cdr_code s x = CDR_INDIRECT then car_field s x else x)"

definition cdr_place :: "vm \<Rightarrow> LispPTR \<Rightarrow> LispPTR" where
  "cdr_place s x = car_place s x + push_bit 1 (cdr_code s (car_place s x))"

lemma car_place_field: "Listp s x \<Longrightarrow> car s x = Inr (car_field s (car_place s x))"
  by (simp add: car_def car_place_def)

lemma code_small: "k \<in> {1..7 :: 32 word} \<Longrightarrow> k \<in> {1, 2, 3, 4, 5, 6, 7}"
proof -
  assume "k \<in> {1..7}"
  then have "1 \<le> unat k" "unat k \<le> 7" by (auto simp: word_le_nat_alt)
  then have "unat k \<in> {1, 2, 3, 4, 5, 6, 7}" by auto
  then show ?thesis by (auto simp: word_unat_eq_iff)
qed

lemma code_small_facts:
  assumes "k \<in> {1..7 :: 32 word}"
  shows "k \<noteq> 0" "k \<noteq> 8" "k AND 8 = 0" "push_bit 1 k \<noteq> 0" "a + push_bit 1 k \<noteq> a"
  using code_small [OF assms] by auto

lemma cdr_stored:
  assumes "cell_ok s x" "cdr_code s (car_place s x) \<in> {1..7}"
  shows "cdr s x = Inr (car_field s (cdr_place s x))"
proof (cases "cdr_code s x = CDR_INDIRECT")
  case True
  then show ?thesis using assms code_small_facts [OF assms(2)]
    by (simp add: cdr_def cdr_loop.simps [of s x] cdr_loop.simps [of s "car_field s x"] cell_ok_def
        car_place_def cdr_place_def CDR_INDIRECT_def CDR_NIL_def CDR_ONPAGE_def)
next
  case False
  then show ?thesis using assms code_small_facts [OF assms(2)]
    by (simp add: cdr_def cdr_loop.simps [of s x] cell_ok_def
        car_place_def cdr_place_def CDR_INDIRECT_def CDR_NIL_def CDR_ONPAGE_def)
qed

lemma cdr_other_code:
  assumes "Listp s x" "x \<noteq> NIL" "cdr_code s x \<noteq> CDR_INDIRECT" "cdr_code s x \<notin> {1..7}"
    and "Listp s' x" "cdr_code s' x = cdr_code s x"
  shows "cdr s' x = cdr s x"
proof -
  let ?k = "cdr_code s x"
  have "unat ?k = unat (rd s x) div 2 ^ 28" by (simp add: cdr_code_def code_of_def drop_div)
  moreover have "unat (rd s x) < 2 ^ 32" using unsigned_less [of "rd s x"] by simp
  ultimately have "unat ?k < 16" by (simp add: div_less_iff_less_mult)
  moreover have "\<not> unat ?k < 8"
  proof
    assume "unat ?k < 8"
    then have "?k \<in> {1..7} \<or> ?k = 0" by (auto simp: word_le_nat_alt unat_eq_zero Suc_le_eq intro: gr0I)
    then show False using assms(3,4) by (simp add: CDR_INDIRECT_def)
  qed
  ultimately have "unat ?k \<in> {8, 9, 10, 11, 12, 13, 14, 15}" by auto
  then have "?k \<in> {8, 9, 10, 11, 12, 13, 14, 15}" by (auto simp: word_unat_eq_iff)
  then have "?k AND CDR_ONPAGE \<noteq> 0" by (auto simp: CDR_ONPAGE_def)
  then show ?thesis using assms
    by (simp add: cdr_def cdr_loop.simps [of s x] cdr_loop.simps [of s' x])
qed


lemma Listp_type: "GetTypeNumber s' a = GetTypeNumber s a \<Longrightarrow> Listp s' a = Listp s a"
  by (simp add: Listp_def)

lemma cell_ok_indirect: "cell_ok s x \<Longrightarrow> cdr_code s x = CDR_INDIRECT \<Longrightarrow> car_field s x \<noteq> x"
  unfolding cell_ok_def using code_small_facts(1) by (metis CDR_INDIRECT_def)

text \<open>The states between the two changes of counts and the store.\<close>

lemma counted_frame:
  assumes "GCLOOKUP old DELREF s = Inr s1" "GCLOOKUP y ADDREF s1 = Inr s2"
  shows "rd s2 a = rd s a" "GetTypeNumber s2 a = GetTypeNumber s a" "err_log s2 = err_log s"
proof -
  note f = GCLOOKUP_frame [OF assms(1)] GCLOOKUP_frame [OF assms(2)]
  show "rd s2 a = rd s a" by (subst f(2), subst f(1)) (simp add: rd_def)
  show "GetTypeNumber s2 a = GetTypeNumber s a" using GCLOOKUP_types assms by metis
  show "err_log s2 = err_log s" by (subst f(2), subst f(1)) simp
qed

lemma same_cells:
  assumes "\<And>a. rd s2 a = rd s a"
  shows "cdr_code s2 = cdr_code s" "car_field s2 = car_field s" "car_place s2 = car_place s"
    "cdr_place s2 = cdr_place s" "pg_count s2 = pg_count s"
proof -
  show c: "cdr_code s2 = cdr_code s" "car_field s2 = car_field s"
    by (intro ext; simp add: cdr_code_def car_field_def assms)+
  then show "car_place s2 = car_place s" by (intro ext) (simp add: car_place_def)
  then show "cdr_place s2 = cdr_place s" using c by (intro ext) (simp add: cdr_place_def)
  show "pg_count s2 = pg_count s" by (intro ext) (simp add: pg_count_def assms)
qed

lemma rd_set_car: "rd (set_car b v s) a = (if a = b then rd (set_car b v s) b else rd s a)"
  by (simp add: set_car_def rd_wr)

lemma types_wr [simp]:
  "GetTypeNumber (wr a v s) b = GetTypeNumber s b"
  "GetTypeNumber (set_car a v s) b = GetTypeNumber s b"
  "GetTypeNumber (set_code a k s) b = GetTypeNumber s b"
  by (simp_all add: GetTypeNumber_def GetTypeEntry_def)

text \<open>
  \<open>rplaca\<close>, and the opcode, replace the car of a list cell: afterwards \<open>car\<close> is the new
  value, \<open>cdr\<close> is what it was, and only the cell that holds the car has changed. For an indirect
  cell that is the cell it points to.
\<close>

theorem rplaca_stores:
  assumes x: "cell_ok s x" and old: "car s x = Inr old"
    and gc: "GCLOOKUP old DELREF s = Inr s1" "GCLOOKUP y ADDREF s1 = Inr s2"
  shows "\<exists>s'. rplaca x y s = Inr (x, s') \<and> N_OP_rplaca x y s = Inr (x, s') \<and>
    car s' x = Inr (y AND POINTERMASK) \<and> cdr s' x = cdr s x \<and>
    (\<forall>a. a \<noteq> car_place s x \<longrightarrow> rd s' a = rd s a)"
proof -
  note fr = counted_frame [OF gc]
  note sm = same_cells [of s2 s, OF fr(1)]
  define s' where "s' = set_car (car_place s x) y s2"
  have l: "Listp s x" "x \<noteq> NIL" using x by (auto simp: cell_ok_def)
  have st: "store_car x y s2 = s'" by (simp add: store_car_def s'_def car_place_def sm)
  have run: "rplaca x y s = Inr (x, s')" "N_OP_rplaca x y s = Inr (x, s')"
    using l old gc st by (simp_all add: rplaca_def N_OP_rplaca_def)
  have ty: "Listp s' a = Listp s a" for a using fr(2) by (simp add: s'_def Listp_def)
  have code: "cdr_code s' = cdr_code s" by (intro ext) (simp add: s'_def sm)
  have cf: "car_field s' a = (if a = car_place s x then y AND POINTERMASK else car_field s a)" for a
    by (simp add: s'_def sm)
  have pl: "car_place s' x = car_place s x"
    using cell_ok_indirect [OF x] by (auto simp: car_place_def code cf)
  have car: "car s' x = Inr (y AND POINTERMASK)"
    using car_place_field [of s' x] ty l(1) pl cf by simp
  have cdr: "cdr s' x = cdr s x"
  proof (cases "cdr_code s (car_place s x) \<in> {1..7}")
    case True
    have dp: "cdr_place s' x = cdr_place s x" by (simp add: cdr_place_def pl code)
    have ne: "cdr_place s x \<noteq> car_place s x" using code_small_facts(5) [OF True] by (simp add: cdr_place_def)
    have "cell_ok s' x"
      using x cell_ok_indirect [OF x] ty code cf by (auto simp: cell_ok_def car_place_def)
    then have "cdr s' x = Inr (car_field s' (cdr_place s x))"
      using cdr_stored [of s' x] True pl code dp by simp
    then show ?thesis using cdr_stored [OF x True] cf ne by simp
  next
    case False
    then have "cdr_code s x \<noteq> CDR_INDIRECT" using x by (auto simp: cell_ok_def car_place_def)
    then show ?thesis using False l ty code
      by (intro cdr_other_code) (simp_all add: car_place_def)
  qed
  have "rd s' a = rd s a" if "a \<noteq> car_place s x" for a
    using that fr(1) by (simp add: s'_def rd_set_cell)
  then show ?thesis using run car cdr by blast
qed

section \<open>Replacing the cdr\<close>

text \<open>
  C6. Where the cdr of a list cell is stored in a cell, its own or that of the cell it points to,
  \<open>rplacd\<close> stores the new value there: afterwards \<open>cdr\<close> is the new value, \<open>car\<close> is what it
  was, and no other cell has changed.
\<close>

theorem rplacd_stores:
  assumes x: "cell_ok s x" "cdr_code s (car_place s x) \<in> {1..7}" and old: "cdr s x = Inr old"
    and gc: "GCLOOKUP old DELREF s = Inr s1" "GCLOOKUP y ADDREF s1 = Inr s2"
  shows "\<exists>s'. rplacd chk dirty x y s = Inr (x, s') \<and> cdr s' x = Inr (y AND POINTERMASK) \<and>
    car s' x = car s x \<and> (\<forall>a. a \<noteq> cdr_place s x \<longrightarrow> rd s' a = rd s a)"
proof -
  note fr = counted_frame [OF gc]
  note sm = same_cells [of s2 s, OF fr(1)]
  define s' where "s' = wr (cdr_place s x) (y AND POINTERMASK) s2"
  have l: "Listp s x" "x \<noteq> NIL" using x by (auto simp: cell_ok_def)
  have run: "rplacd chk dirty x y s = Inr (x, s')"
  proof (cases "cdr_code s x = CDR_INDIRECT")
    case True
    then show ?thesis using l old gc sm
      by (simp add: rplacd_def s'_def cdr_place_def car_place_def Let_def)
  next
    case False
    then have "cdr_code s x \<le> CDR_MAXINDIRECT" using x(2) by (simp add: car_place_def CDR_MAXINDIRECT_def)
    then show ?thesis using False l old gc sm
      by (simp add: rplacd_def s'_def cdr_place_def car_place_def Let_def)
  qed
  have same: "rd s' a = rd s a" if "a \<noteq> cdr_place s x" for a
    using that fr(1) by (simp add: s'_def rd_wr)
  have dx: "cdr_place s x \<noteq> x" "cdr_place s x \<noteq> car_place s x"
    using x code_small_facts(5) [OF x(2)] by (auto simp: cdr_place_def car_place_def cell_ok_def)
  have eq: "cdr_code s' x = cdr_code s x" "car_field s' x = car_field s x"
    "cdr_code s' (car_place s x) = cdr_code s (car_place s x)"
    "car_field s' (car_place s x) = car_field s (car_place s x)"
    using same [of x] same [of "car_place s x"] dx by (auto simp: cdr_code_def car_field_def)
  have ty: "Listp s' a = Listp s a" for a using fr(2) by (simp add: s'_def Listp_def)
  have pl: "car_place s' x = car_place s x" by (simp add: car_place_def eq)
  have dp: "cdr_place s' x = cdr_place s x" by (simp add: cdr_place_def pl eq)
  have ok: "cell_ok s' x" using x(1) eq ty by (auto simp: cell_ok_def car_place_def split: if_splits)
  have "cdr s' x = Inr (car_field s' (cdr_place s x))"
    using cdr_stored [OF ok] x(2) pl eq dp by simp
  then have cdr: "cdr s' x = Inr (y AND POINTERMASK)"
    by (simp add: s'_def car_field_def rd_wr car_of_def and.assoc)
  have "car s' x = car s x" using car_place_field [of s x] car_place_field [of s' x] ty l(1) pl eq by simp
  then show ?thesis using run cdr same by blast
qed


section \<open>Cells on the same page\<close>

lemma reach_dist28:
  assumes "reach a c" "unat a < 2 ^ 28" "\<not> bit a 0" "\<not> bit c 0"
  shows "c - a \<in> {2, 4, 6, 8, 10, 12, 14}"
proof -
  have "unat (a + 14) = unat a + 14" using assms(2) by (simp add: unat_word_ariths)
  then have le: "unat a < unat c" "unat c \<le> unat a + 14"
    using assms(1) by (auto simp: reach_def word_less_nat_alt word_le_nat_alt)
  have "unat (c - a) = unat c - unat a" using le by (simp add: unat_sub word_le_nat_alt)
  moreover have "even (unat a)" "even (unat c)"
    using assms(3,4) bit_unsigned_iff [of a 0, where 'a = nat] bit_unsigned_iff [of c 0, where 'a = nat]
    by (simp_all add: bit_0)
  ultimately have d: "unat (c - a) \<le> 14" "0 < unat (c - a)" "even (unat (c - a))" using le by auto
  have "n \<le> 14 \<Longrightarrow> 0 < n \<Longrightarrow> even n \<Longrightarrow>
      n = 2 \<or> n = 4 \<or> n = 6 \<or> n = 8 \<or> n = 10 \<or> n = 12 \<or> n = 14" for n :: nat by presburger
  from this [OF d] show ?thesis by (auto simp: word_unat_eq_iff)
qed

lemma cdr_nil: "Listp s x \<Longrightarrow> x \<noteq> NIL \<Longrightarrow> cdr_code s x = CDR_NIL \<Longrightarrow> cdr s x = Inr NIL"
  by (simp add: cdr_def cdr_loop.simps [of s x])

lemma cell_code8: "take_bit 4 (CDR_NIL) = CDR_NIL"
  by (simp add: CDR_NIL_def)

lemma page_cell: "is_off x \<Longrightarrow> pg + x \<noteq> pg + 4"
  by (auto dest: is_off_header)

text \<open>
  C7. Where the cdr of a list cell is a code, \<open>rplacd\<close> to \<open>NIL\<close>, to a cell that the code can
  express, or with a free cell in reach of the cell, ends with \<open>cdr\<close> the new value, \<open>car\<close>
  what it was, and a well-formed free chain. (Otherwise the cell is moved.)
\<close>

theorem rplacd_on_page:
  assumes x: "Listp s x" "x \<noteq> NIL" "cdr_code s x \<notin> {0..7}" and old: "cdr s x = Inr old"
    and gc: "GCLOOKUP old DELREF s = Inr s1" "GCLOOKUP y ADDREF s1 = Inr s2"
    and pg: "page_ok s pg offs" "POINTER_PAGEBASE x = pg" "x = pg + xo" "xo = x AND 0xFF" "is_off xo"
      "\<not> bit xo 0" "\<not> bit x 0" "xo \<notin> set offs" "unat x < 2 ^ 28"
    and y: "y AND POINTERMASK = y" "\<not> bit y 0"
    and near: "y = NIL \<or> POINTER_PAGEBASE y = pg \<and> reach x y \<or> (\<exists>f \<in> set offs. reach xo f)"
  shows "\<exists>s' rest. rplacd chk dirty x y s = Inr (x, s') \<and> cdr s' x = Inr y \<and> car s' x = car s x \<and>
    page_ok s' pg rest \<and> set rest \<subseteq> set offs"
proof -
  note fr = counted_frame [OF gc]
  note sm = same_cells [of s2 s, OF fr(1)]
  have p2: "page_ok s2 pg offs" using pg(1) fr(1) by (subst page_ok_frame [of _ _ s]) simp_all
  have l2: "Listp s2 x" using x(1) by (simp add: Listp_type [OF fr(2)])
  have c: "cdr_code s x \<noteq> CDR_INDIRECT" "\<not> cdr_code s x \<le> CDR_MAXINDIRECT"
    using x(3) by (auto simp: CDR_INDIRECT_def CDR_MAXINDIRECT_def)
  have car0: "car s x = Inr (car_field s x)" using x(1) c(1) by (simp add: car_def)
  have code_only: ?thesis
    if run: "rplacd chk dirty x y s = Inr (x, set_code x k s2)" and k: "take_bit 4 k \<noteq> 0"
      and r: "cdr (set_code x k s2) x = Inr y" for k
  proof (intro exI conjI)
    show "rplacd chk dirty x y s = Inr (x, set_code x k s2)" by (rule run)
    show "cdr (set_code x k s2) x = Inr y" by (rule r)
    have "Listp (set_code x k s2) x" using l2 by (simp add: Listp_def)
    then show "car (set_code x k s2) x = car s x" using car0 k by (simp add: car_def CDR_INDIRECT_def sm)
    have "\<forall>f \<in> set offs. pg + f \<noteq> x" using pg(3,8) by auto
    then show "page_ok (set_code x k s2) pg offs"
      using p2 page_cell [OF pg(5)] pg(3) by (subst page_ok_frame [of _ _ s2]) (auto simp: set_code_def rd_wr)
  qed simp
  show ?thesis
  proof (cases "y = NIL")
    case True
    have "rplacd chk dirty x y s = Inr (x, set_code x CDR_NIL s2)"
      using x old gc c sm True by (simp add: rplacd_def Let_def)
    then show ?thesis
      by (rule code_only) (use True l2 x(2) cell_code8 in \<open>simp_all add: CDR_NIL_def cdr_nil Listp_def\<close>)
  next
    case ynil: False
    show ?thesis
    proof (cases "POINTER_PAGEBASE y = pg \<and> reach x y")
      case True
      note d = reach_dist28 [OF True [THEN conjunct2] pg(9,7) y(2)]
      have "rplacd chk dirty x y s = Inr (x, set_code x (8 OR drop_bit 1 (y - x)) s2)"
        using x old gc c sm True ynil reach_code_sum [OF d]
        by (simp add: rplacd_def Let_def pg(2) reach_def CDR_ONPAGE_def)
      then show ?thesis
      proof (rule code_only)
        show "cdr (set_code x (8 OR drop_bit 1 (y - x)) s2) x = Inr y"
        using cdr_onpage [of "set_code x (8 OR drop_bit 1 (y - x)) s2" x y x, OF _ x(2) _ d] l2 reach_code(7) [OF d]
        by (simp add: Listp_def del: take_bit_or)
        show "take_bit 4 (8 OR drop_bit 1 (y - x)) \<noteq> 0" using reach_code(7,9) [OF d] by metis
      qed
    next
      case False
      then obtain f0 where f0: "f0 \<in> set offs" "reach xo f0" using near ynil by blast
      obtain us f vs s3 where f: "find_close_cell pg x s2 = Inr (Some (pg + f), s3)" "offs = us @ f # vs"
        "reach xo f" "page_ok s3 pg (us @ vs)" "only_chain pg offs s2 s3"
        using find_close_cell_law [OF p2, of x] f0 unfolding pg(4) [symmetric] by blast
      have gf: "is_off f" "\<not> bit f 0" using page_ok_good [OF p2, of f] f(2) by auto
      note d = reach_dist [OF f(3) pg(5) gf(1) pg(6) gf(2)]
      have df: "pg + f - x = f - xo" using pg(3) by simp
      have cnt: "pg_count s2 pg > 0"
        using p2 f(2) by (simp add: page_ok_def word_less_nat_alt)
      define s' where "s' = set_code x (drop_bit 1 (f - xo)) (wr (pg + f) (y AND POINTERMASK) s3)"
      have nr: "\<not> (pg = POINTER_PAGEBASE y \<and> y > x \<and> y \<le> x + 14)" using False by (auto simp: reach_def)
      have run: "rplacd chk dirty x y s = Inr (x, s')"
        using x(1) old gc c ynil cnt f(1)
        by (simp add: rplacd_def Let_def pg(2) sm(1) df s'_def if_not_P [OF nr])
      have g3: "gc s3 = gc s2" by (rule only_chain_gc [OF f(5)])
      have l': "Listp s' x" using l2 g3 by (simp add: s'_def Listp_def GetTypeNumber_def GetTypeEntry_def)
      have ne: "pg + f \<noteq> x" using pg(3,8) f(2) by auto
      have x3: "rd s3 x = rd s2 x"
        using f(5) pg(3,8) page_cell [OF pg(5)] unfolding only_chain_def by (metis add_left_cancel)
      have code: "cdr_code s' x = drop_bit 1 (f - xo)" using reach_code(1) [OF d] by (simp add: s'_def)
      have "x + (f - xo) = pg + f" using pg(3) by simp
      then have "cdr s' x = Inr (car_field s' (pg + f))"
        using cdr_nearby [OF l' x(2) code d] by metis
      then have cdr: "cdr s' x = Inr y"
        using y(1) by (simp add: s'_def) (simp add: car_field_def rd_wr car_of_def and.assoc)
      have "car_field s' x = car_field s x"
        using x3 fr(1) ne by (simp add: s'_def) (simp add: car_field_def rd_wr)
      then have car: "car s' x = car s x"
        using car0 l' code reach_code(2) [OF d] by (simp add: car_def CDR_INDIRECT_def)
      have nf: "f \<notin> set (us @ vs)" using p2 f(2) by (auto simp: page_ok_def)
      have "\<forall>g \<in> set (us @ vs). pg + g \<noteq> x" using pg(3,8) f(2) by auto
      then have "page_ok s' pg (us @ vs)"
        using f(4) nf page_cell [OF pg(5)] page_cell [OF gf(1)] pg(3)
        by (subst page_ok_frame [of _ _ s3]) (auto simp: s'_def set_code_def rd_wr)
      then show ?thesis using run cdr car f(2) by (intro exI [of _ s'] exI [of _ "us @ vs"]) auto
    qed
  qed
qed


section \<open>cons\<close>

text \<open>The page lies apart from the fields of the type descriptor that \<open>cons\<close> counts in.\<close>

definition off_dtd :: "LispPTR \<Rightarrow> bool" where
  "off_dtd pg \<longleftrightarrow> (\<forall>k. k < 256 \<longrightarrow> pg + k \<notin> {ListpDTD + 2, ListpDTD + 12})"

text \<open>The count of a new cell can be taken down: it is not counted, or its entry is in order.\<close>

definition release_ready :: "vm \<Rightarrow> LispPTR \<Rightarrow> bool" where
  "release_ready s p \<longleftrightarrow> \<not> RefCntP s p \<or> counts_ready s p DELREF"

lemma release_returns:
  assumes "release_ready s p" "gc s' = gc s" "byteswapped s' = byteswapped s"
  shows "\<exists>g. GCLOOKUP p DELREF s' = Inr (s'\<lparr>gc := g\<rparr>)"
proof (cases "RefCntP s' p")
  case True
  then have "RefCntP s p" using RefCntP_gc [OF assms(2)] by simp
  then have "counts_ready s' p DELREF" using assms by (simp add: release_ready_def counts_ready_def)
  then show ?thesis using GCLOOKUP_counts [of s' p DELREF] True by blast
next
  case False
  then have "GCLOOKUP p DELREF s' = Inr (s'\<lparr>gc := gc s'\<rparr>)" by (simp add: GCLOOKUP_uncounted)
  then show ?thesis by blast
qed

lemma off_dtd_cell: "off_dtd pg \<Longrightarrow> is_off x \<or> x = 4 \<Longrightarrow> pg + x \<noteq> ListpDTD + 2 \<and> pg + x \<noteq> ListpDTD + 12"
proof -
  assume a: "off_dtd pg" "is_off x \<or> x = 4"
  then have "x < 256" by (auto simp: is_off_def)
  then show ?thesis using a(1) by (auto simp: off_dtd_def)
qed

text \<open>
  The end of \<open>N_OP_cons\<close>: a cell \<open>pg + x\<close> of a well-formed page with its cdr in place gets its
  car and the cells are counted.
\<close>

lemma cons_fill:
  assumes ok: "page_ok s3 pg rest" "x \<notin> set rest" "is_off x"
    and cell: "Listp s3 (pg + x)" "pg + x \<noteq> NIL" "cdr_code s3 (pg + x) = k" "k \<noteq> CDR_INDIRECT"
    and far: "k \<in> {1..7} \<Longrightarrow> is_off (x + push_bit 1 k)"
    and dtd: "off_dtd pg" "incr = incr_cnt0 \<or> incr = incr_oldcnt"
    and s4_def: "s4 = incr ListpDTD (set_car (pg + x) a s3)"
  shows "page_ok s4 pg rest" "Listp s4 (pg + x)" "car s4 (pg + x) = Inr (a AND POINTERMASK)"
    "cdr s4 (pg + x) = cdr s3 (pg + x)" "cdr_code s4 (pg + x) = k"
    "gc s4 = gc s3" "byteswapped s4 = byteswapped s3" "err_log s4 = err_log s3"
proof -
  obtain b v where "s4 = wr b v (set_car (pg + x) a s3)" and b: "b = ListpDTD + 2 \<or> b = ListpDTD + 12"
    using dtd(2) by (auto simp: s4_def incr_cnt0_def incr_oldcnt_def)
  note e = this(1)
  have bn: "pg + y \<noteq> b" if "is_off y \<or> y = 4" for y using off_dtd_cell [OF dtd(1) that] b by auto
  have rd4: "rd s4 (pg + y) = rd (set_car (pg + x) a s3) (pg + y)" if "is_off y \<or> y = 4" for y
    using bn [OF that] by (simp add: e rd_wr)
  show g: "gc s4 = gc s3" "byteswapped s4 = byteswapped s3" "err_log s4 = err_log s3"
    by (simp_all add: e set_car_def wr_def)
  show l: "Listp s4 (pg + x)" using cell(1) g(1) by (simp add: Listp_def GetTypeNumber_def GetTypeEntry_def)
  have fields: "cdr_code s4 (pg + y) = cdr_code s3 (pg + y)"
    "car_field s4 (pg + y) = (if y = x then a AND POINTERMASK else car_field s3 (pg + y))" if "is_off y" for y
  proof -
    have "cdr_code s4 (pg + y) = cdr_code (set_car (pg + x) a s3) (pg + y)"
      "car_field s4 (pg + y) = car_field (set_car (pg + x) a s3) (pg + y)"
      using rd4 that by (simp_all add: cdr_code_def car_field_def)
    then show "cdr_code s4 (pg + y) = cdr_code s3 (pg + y)"
      "car_field s4 (pg + y) = (if y = x then a AND POINTERMASK else car_field s3 (pg + y))" by simp_all
  qed
  show c4: "cdr_code s4 (pg + x) = k" using fields [OF ok(3)] cell(3) by simp
  then show "car s4 (pg + x) = Inr (a AND POINTERMASK)"
    using l cell(4) fields [OF ok(3)] by (simp add: car_def)
  have g: "is_off y" if "y \<in> set rest" for y using page_ok_good [OF ok(1) that] by simp
  have "rd s4 (pg + y) = rd s3 (pg + y)" if "y \<in> set rest \<or> y = 4" for y
  proof -
    have "y \<noteq> x" using that ok(2,3) is_off_header by auto
    then show ?thesis using rd4 [of y] g that by (auto simp: rd_set_cell)
  qed
  then show "page_ok s4 pg rest" using ok(1) by (subst page_ok_frame [of _ _ s3]) auto
  show "cdr s4 (pg + x) = cdr s3 (pg + x)"
  proof (cases "k \<in> {1..7}")
    case True
    note kf = code_small_facts [OF True]
    have nx: "x + push_bit 1 k \<noteq> x" by (rule kf(5))
    have "car_field s4 (pg + (x + push_bit 1 k)) = car_field s3 (pg + (x + push_bit 1 k))"
      using fields [OF far [OF True]] nx by simp
    then show ?thesis
      using l cell c4 kf
      by (simp add: cdr_def cdr_loop.simps [of s4 "pg + x"] cdr_loop.simps [of s3 "pg + x"]
          CDR_NIL_def CDR_ONPAGE_def CDR_INDIRECT_def add.assoc)
  next
    case False
    then show ?thesis using cell l c4 by (intro cdr_other_code) simp_all
  qed
qed


text \<open>The last steps of \<open>N_OP_cons\<close>: the new cell is released and its code looked at once more.\<close>

lemma cons_release:
  assumes r: "release_ready s3 p" "gc s4 = gc s3" "byteswapped s4 = byteswapped s3"
    and p: "p = pg + x" "p AND 0xFF = x" "x + push_bit 1 (cdr_code s4 p AND 7) \<le> 254"
  shows "\<exists>g. types_kept (gc s4) g \<and>
    rbind (GCLOOKUP p DELREF s4) (\<lambda>s5. Inr (p,
      if 254 < (p AND 0xFF) + push_bit 1 (cdr_code s5 p AND 7)
      then log_error ''in CONS, cdr code too big.'' s5 else s5)) = Inr (p, s4\<lparr>gc := g\<rparr>)"
proof -
  obtain g where g: "GCLOOKUP p DELREF s4 = Inr (s4\<lparr>gc := g\<rparr>)" using release_returns [OF r] by blast
  have c: "cdr_code (s4\<lparr>gc := g\<rparr>) p = cdr_code s4 p" by (simp add: cdr_code_def rd_def)
  have "types_kept (gc s4) g" using GCLOOKUP_types_kept [OF g] by simp
  moreover have "\<not> 254 < (p AND 0xFF) + push_bit 1 (cdr_code s4 p AND 7)" using p(2,3) by (simp add: not_less)
  ultimately show ?thesis using g c by (intro exI [of _ g]) (simp only: rbind_simps if_False simp_thms)
qed

text \<open>Fields of one cell can be set in either order.\<close>

lemma wr_wr [simp]: "wr a v (wr a w s) = wr a v s"
  by (simp add: wr_def putcell_def)

lemma header_commute: "set_next_cell pg n (set_count pg m s) = set_count pg m (set_next_cell pg n s)"
proof -
  have "push_bit 16 (n AND 0xFF) OR ((push_bit 24 m OR (c AND 0xFFFFFF)) AND 0xFF00FFFF) =
      push_bit 24 m OR ((push_bit 16 (n AND 0xFF) OR (c AND 0xFF00FFFF)) AND 0xFFFFFF)" for c :: "32 word"
    by (rule bit_word_eqI) (simp only: bit_or_iff bit_push_bit_iff bit_hole bit_24 bit_ff, auto)
  then show ?thesis by (simp add: set_next_cell_def set_count_def rd_wr)
qed

lemma car_code_commute: "set_code p k (set_car p v s) = set_car p v (set_code p k s)"
proof -
  have r: "rd (set_car p v s) p = push_bit 28 (code_of (rd s p)) OR (v AND POINTERMASK)"
    "rd (set_code p k s) p = push_bit 28 k OR car_of (rd s p)" by (simp_all add: set_car_def set_code_def rd_wr)
  have "push_bit 28 (take_bit 4 k) = push_bit 28 k" for k :: "32 word"
    by (rule bit_word_eqI) (auto simp: bit_push_bit_iff bit_take_bit_iff)
  moreover have "code_of (push_bit 28 k OR car_of (rd s p)) = take_bit 4 k"
    using car_code_join(2) [of k "rd s p"] by (simp add: car_of_def)
  ultimately show ?thesis by (simp add: set_code_def [of p k "set_car p v s"] set_car_def [of p v "set_code p k s"] r)
      (simp add: set_car_def set_code_def)
qed

text \<open>The state with other tables reads the same.\<close>

lemma gc_only:
  assumes "types_kept (gc s) g" "cdr_code s p \<noteq> CDR_INDIRECT"
  shows "car (s\<lparr>gc := g\<rparr>) p = car s p" "cdr (s\<lparr>gc := g\<rparr>) p = cdr s p"
    "page_ok (s\<lparr>gc := g\<rparr>) pg offs = page_ok s pg offs"
proof -
  have l: "Listp (s\<lparr>gc := g\<rparr>) = Listp s"
    using assms by (intro ext) (simp add: Listp_def GetTypeNumber_def GetTypeEntry_def types_kept_def)
  have f: "car_field (s\<lparr>gc := g\<rparr>) = car_field s" "cdr_code (s\<lparr>gc := g\<rparr>) = cdr_code s"
    by (intro ext; simp add: car_field_def cdr_code_def rd_def)+
  show "car (s\<lparr>gc := g\<rparr>) p = car s p" by (simp add: car_def l f)
  show "cdr (s\<lparr>gc := g\<rparr>) p = cdr s p"
    using assms(2) by (simp add: cdr_def cdr_loop.simps [of "s\<lparr>gc := g\<rparr>" p] cdr_loop.simps [of s p] l f)
  show "page_ok (s\<lparr>gc := g\<rparr>) pg offs = page_ok s pg offs"
    by (rule page_ok_frame) (simp_all add: rd_def)
qed


text \<open>
  A page \<open>cons\<close> can take cells from: its free cells are list cells, and their counts can be
  taken down in the state the cell is made in.
\<close>

definition cons_page :: "vm \<Rightarrow> vm \<Rightarrow> LispPTR \<Rightarrow> 32 word list \<Rightarrow> bool" where
  "cons_page s s2 pg offs \<longleftrightarrow> page_ok s pg offs \<and> off_dtd pg \<and>
     (\<forall>x \<in> set offs. Listp s (pg + x) \<and> pg + x \<noteq> NIL \<and> (pg + x) AND 0xFF = x \<and> release_ready s2 (pg + x))"

text \<open>What \<open>cons\<close> has done when it answers with the cell at \<open>x\<close>.\<close>

definition consed :: "LispPTR \<Rightarrow> LispPTR \<Rightarrow> LispPTR \<Rightarrow> 32 word \<Rightarrow> 32 word list \<Rightarrow> vm \<Rightarrow> bool" where
  "consed a d pg x rest s' \<longleftrightarrow> car s' (pg + x) = Inr (a AND POINTERMASK) \<and> cdr s' (pg + x) = Inr d \<and>
     page_ok s' pg rest \<and> x \<notin> set rest"

lemma cons_done:
  assumes pgs: "cons_page s s2 pg offs" "x \<in> set offs" "types_kept (gc s) (gc s2)"
    and s3: "page_ok s3 pg rest" "x \<notin> set rest" "gc s3 = gc s2" "byteswapped s3 = byteswapped s2"
    and code: "cdr_code s3 (pg + x) = k" "k \<noteq> CDR_INDIRECT" "x + push_bit 1 (k AND 7) \<le> 254"
      "k \<in> {1..7} \<Longrightarrow> is_off (x + push_bit 1 k)"
    and d: "cdr s3 (pg + x) = Inr d" and inc: "incr = incr_cnt0 \<or> incr = incr_oldcnt"
  shows "\<exists>s'. rbind (GCLOOKUP (pg + x) DELREF (incr ListpDTD (set_car (pg + x) a s3))) (\<lambda>s5. Inr (pg + x,
      if 254 < ((pg + x) AND 0xFF) + push_bit 1 (cdr_code s5 (pg + x) AND 7)
      then log_error ''in CONS, cdr code too big.'' s5 else s5)) = Inr (pg + x, s') \<and> consed a d pg x rest s'"
proof -
  have p: "page_ok s pg offs" "off_dtd pg" "Listp s (pg + x)" "pg + x \<noteq> NIL" "(pg + x) AND 0xFF = x"
    "release_ready s2 (pg + x)" using pgs(1,2) by (auto simp: cons_page_def)
  have off: "is_off x" using page_ok_good [OF p(1) pgs(2)] by simp
  have l3: "Listp s3 (pg + x)"
    using p(3) pgs(3) s3(3) by (simp add: Listp_def GetTypeNumber_def GetTypeEntry_def types_kept_def)
  have rr: "release_ready s3 (pg + x)"
    using p(6) s3(3,4) by (simp add: release_ready_def counts_ready_def RefCntP_def GetTypeEntry_def)
  define s4 where "s4 = incr ListpDTD (set_car (pg + x) a s3)"
  note f = cons_fill [OF s3(1,2) off l3 p(4) code(1,2,4) p(2) inc s4_def]
  have "x + push_bit 1 (cdr_code s4 (pg + x) AND 7) \<le> 254" using f(5) code(3) by simp
  from cons_release [OF rr f(6) f(7) refl p(5) this] obtain g where
    g: "types_kept (gc s4) g" "rbind (GCLOOKUP (pg + x) DELREF s4) (\<lambda>s5. Inr (pg + x,
      if 254 < ((pg + x) AND 0xFF) + push_bit 1 (cdr_code s5 (pg + x) AND 7)
      then log_error ''in CONS, cdr code too big.'' s5 else s5)) = Inr (pg + x, s4\<lparr>gc := g\<rparr>)" by blast
  have "cdr_code s4 (pg + x) \<noteq> CDR_INDIRECT" using f(5) code(2) by simp
  note o = gc_only [OF g(1) this]
  have "consed a d pg x rest (s4\<lparr>gc := g\<rparr>)"
    using o(1,2) o(3) [of pg rest] f(1,3,4) d s3(2) by (simp add: consed_def)
  then show ?thesis using g(2) unfolding s4_def by blast
qed

lemma counted_same:
  assumes "GCLOOKUP old c s = Inr s1" "GCLOOKUP y c' s1 = Inr s2"
  shows "rd s2 = rd s" "types_kept (gc s) (gc s2)" "Listp s2 = Listp s"
proof -
  note f = GCLOOKUP_frame [OF assms(1)] GCLOOKUP_frame [OF assms(2)]
  show "rd s2 = rd s" by (subst f(2), subst f(1)) (simp add: rd_def fun_eq_iff)
  show t: "types_kept (gc s) (gc s2)" using GCLOOKUP_types_kept assms types_kept_trans by blast
  show "Listp s2 = Listp s"
    using t by (intro ext) (simp add: Listp_def GetTypeNumber_def GetTypeEntry_def types_kept_def)
qed

lemma only_chain_fields: "only_chain pg offs s t \<Longrightarrow> gc t = gc s \<and> byteswapped t = byteswapped s"
  unfolding only_chain_def by (metis vm.ext_inject vm.surjective vm.update_convs(1,4))

text \<open>A list cell at offset 14 or later with a free cell in reach before it: that cell, or a closer one, is taken.\<close>

lemma cons_takes_prior:
  assumes gc: "GCLOOKUP d ADDREF s = Inr s1" "GCLOOKUP a ADDREF s1 = Inr s2"
    and d: "d AND POINTERMASK = d" "d \<noteq> NIL" "Listp s d" "FromLPage (POINTER_PAGE d) = pg"
      "d = pg + oo" "oo = d AND 0xFF" "is_off oo" "\<not> bit oo 0" "14 \<le> oo"
    and pg: "cons_page s s2 pg offs" and x: "\<exists>x \<in> set offs. reach x oo"
  shows "\<exists>x s' rest. N_OP_cons chk dirty a d s = Inr (pg + x, s') \<and> consed a d pg x rest s' \<and>
    set offs = insert x (set rest)"
proof -
  note c = counted_same [OF gc]
  have p0: "page_ok s pg offs" using pg by (simp add: cons_page_def)
  have p2: "page_ok s2 pg offs" using p0 c(1) by (subst page_ok_frame [of _ _ s]) simp_all
  obtain us x vs s3 where f: "find_close_prior_cell pg d s2 = Inr (Some (pg + x), s3)" "offs = us @ x # vs"
    "reach x oo" "page_ok s3 pg (us @ vs)" "only_chain pg offs s2 s3" "cdr_code s3 (pg + x) > 8"
    "Listp s2 (pg + x) \<and> pg + x \<noteq> NIL \<longrightarrow> cdr s3 (pg + x) = Inr d"
    using find_close_prior_cell_law [OF p2 d(5-8)] d(9) x by blast
  have xm: "x \<in> set offs" "x \<notin> set (us @ vs)" using f(2) p0 by (auto simp: page_ok_def)
  have gx: "is_off x" "\<not> bit x 0" using page_ok_good [OF p0 xm(1)] by auto
  have lx: "Listp s2 (pg + x)" "pg + x \<noteq> NIL" using pg xm(1) c(3) by (auto simp: cons_page_def)
  have cnt: "pg_count s2 pg > 0" using p2 f(2) by (simp add: page_ok_def word_less_nat_alt)
  define k where "k = cdr_code s3 (pg + x)"
  have k8: "k > 8" using f(6) by (simp add: k_def)
  have kn: "k \<noteq> CDR_INDIRECT" "k \<notin> {1..7}" using k8 by (auto simp: CDR_INDIRECT_def word_less_nat_alt word_le_nat_alt)
  have "x + push_bit 1 (k AND 7) \<le> 254"
  proof -
    have "pg + x + push_bit 1 (k AND 7) = d"
    proof -
      have "cdr s3 (pg + x) = Inr d" "Listp s3 (pg + x)"
        using f(7) lx only_chain_fields [OF f(5)] by (auto simp: Listp_def GetTypeNumber_def GetTypeEntry_def)
      moreover have "k \<noteq> CDR_NIL" "k AND CDR_ONPAGE \<noteq> 0"
      proof -
        show "k \<noteq> CDR_NIL" using k8 by (auto simp: CDR_NIL_def)
        have "unat k < 16"
        proof -
          have "unat k = unat (rd s3 (pg + x)) div 2 ^ 28" by (simp add: k_def cdr_code_def code_of_def drop_div)
          then show ?thesis using unsigned_less [of "rd s3 (pg + x)"] by (simp add: div_less_iff_less_mult)
        qed
        moreover have "8 < unat k" using k8 by (simp add: word_less_nat_alt)
        ultimately have "unat k \<in> {9, 10, 11, 12, 13, 14, 15}" by auto
        then have "k \<in> {9, 10, 11, 12, 13, 14, 15}" by (auto simp: word_unat_eq_iff)
        then show "k AND CDR_ONPAGE \<noteq> 0" by (auto simp: CDR_ONPAGE_def)
      qed
      ultimately show ?thesis using lx(2) kn(1)
        by (simp add: cdr_def cdr_loop.simps [of s3 "pg + x"] k_def [symmetric])
    qed
    then have "x + push_bit 1 (k AND 7) = oo" using d(5) by (simp add: add.assoc)
    then show ?thesis using off_254 [OF d(7,8)] by simp
  qed
  note dn = cons_done [OF pg xm(1) c(2) f(4) xm(2) _ _ k_def [symmetric] kn(1) this, of d incr_cnt0 a]
  obtain s' where s': "rbind (GCLOOKUP (pg + x) DELREF (incr_cnt0 ListpDTD (set_car (pg + x) a s3))) (\<lambda>s5. Inr (pg + x,
      if 254 < ((pg + x) AND 0xFF) + push_bit 1 (cdr_code s5 (pg + x) AND 7)
      then log_error ''in CONS, cdr code too big.'' s5 else s5)) = Inr (pg + x, s')" "consed a d pg x (us @ vs) s'"
    using dn only_chain_fields [OF f(5)] kn(2) f(7) lx by blast
  have "N_OP_cons chk dirty a d s = Inr (pg + x, s')"
    using gc d(1-4) c(3) cnt f(1) s'(1) unfolding N_OP_cons_def by (simp add: Let_def del: cell_fields)
  then show ?thesis using s'(2) f(2) by (intro exI [of _ x] exI [of _ s'] exI [of _ "us @ vs"]) auto
qed


text \<open>
  Where the search for a free cell before the list gives none, or is not made, \<open>cons\<close> takes a pair of
  cells from the first page of the chain, when two neighbours of its free chain are in reach of each other.
\<close>

lemma cons_takes_pair:
  assumes gc: "GCLOOKUP d ADDREF s = Inr s1" "GCLOOKUP a ADDREF s1 = Inr s2"
    and d: "d AND POINTERMASK = d" "d \<noteq> NIL"
    and no: "Listp s d \<Longrightarrow> pg_count s2 (FromLPage (POINTER_PAGE d)) > 0 \<Longrightarrow>
      find_close_prior_cell (FromLPage (POINTER_PAGE d)) d s2 = Inr (None, s2)"
    and pg: "dtd_nextpage s ListpDTD = pn" "pn \<noteq> 0" "FromLPage pn = pg" "cons_page s s2 pg offs"
    and pair: "offs = us @ q # r # vs" "reach q r \<or> reach r q"
  shows "\<exists>x y s' rest. N_OP_cons chk dirty a d s = Inr (pg + x, s') \<and> consed a d pg x rest s' \<and>
    set offs = {x, y} \<union> set rest \<and> y \<notin> set rest"
proof -
  note c = counted_same [OF gc]
  have p0: "page_ok s pg offs" using pg(4) by (simp add: cons_page_def)
  have p2: "page_ok s2 pg offs" using p0 c(1) by (subst page_ok_frame [of _ _ s]) simp_all
  obtain x y rest s3 where f: "find_pair_in_page pg d s2 = Inr (Some (pg + x), s3)"
    "set offs = {x, y} \<union> set rest" "x \<notin> set rest" "y \<notin> set rest" "page_ok s3 pg rest"
    "only_chain pg offs s2 s3" "y = x + push_bit 1 (cdr_code s3 (pg + x))" "cdr_code s3 (pg + x) \<in> {1..7}"
    "Listp s2 (pg + x) \<and> pg + x \<noteq> NIL \<longrightarrow> cdr s3 (pg + x) = Inr (d AND POINTERMASK)"
    using find_pair_in_page_law [OF p2, of d] pair by blast
  have xm: "x \<in> set offs" "y \<in> set offs" using f(2) by auto
  have lx: "Listp s2 (pg + x)" "pg + x \<noteq> NIL" using pg(4) xm(1) c(3) by (auto simp: cons_page_def)
  have gy: "is_off y" "\<not> bit y 0" using page_ok_good [OF p0 xm(2)] by auto
  define k where "k = cdr_code s3 (pg + x)"
  have k: "k \<in> {1..7}" "y = x + push_bit 1 k" using f(7,8) by (simp_all add: k_def)
  have "k AND 7 = k" using code_small [OF k(1)] by auto
  then have le: "x + push_bit 1 (k AND 7) \<le> 254" using off_254 [OF gy] k(2) by simp
  have kn: "k \<noteq> CDR_INDIRECT" using code_small_facts(1) [OF k(1)] by (simp add: CDR_INDIRECT_def)
  obtain s' where s': "rbind (GCLOOKUP (pg + x) DELREF (incr_oldcnt ListpDTD (set_car (pg + x) a s3))) (\<lambda>s5. Inr (pg + x,
      if 254 < ((pg + x) AND 0xFF) + push_bit 1 (cdr_code s5 (pg + x) AND 7)
      then log_error ''in CONS, cdr code too big.'' s5 else s5)) = Inr (pg + x, s')" "consed a d pg x rest s'"
    using cons_done [OF pg(4) xm(1) c(2) f(5,3) _ _ k_def [symmetric] kn le, of d incr_oldcnt a]
      only_chain_fields [OF f(6)] k gy(1) f(9) lx d(1) by auto
  have dn: "dtd_nextpage s2 ListpDTD = pn" using pg(1) by (simp add: dtd_nextpage_def c(1))
  have fp: "find_cdrcodable_pair chk dirty d s2 = Inr (pg + x, s3)"
    using f(1) pg(2,3) dn by (simp add: find_cdrcodable_pair_def cdrcodable_search.simps [of d pn s2])
  have none: "(if Listp s2 d \<and> pg_count s2 (FromLPage (POINTER_PAGE d)) > 0
      then find_close_prior_cell (FromLPage (POINTER_PAGE d)) d s2 else Inr (None, s2)) = Inr (None, s2)"
    using no c(3) by auto
  have "N_OP_cons chk dirty a d s = Inr (pg + x, s')"
    using gc d fp s'(1) unfolding N_OP_cons_def by (simp add: none Let_def cons_pair_def del: cell_fields)
  then show ?thesis using s'(2) f(2,4) by blast
qed

text \<open>
  C4. \<open>cons\<close> onto a list cell. Where the cell stands at offset 14 of its page or later and a free cell
  is in reach before it, that free cell (or a closer one) is the new cell: its \<open>cdr\<close> is the
  list, found through the distance in the cdr code, its \<open>car\<close> is the first argument, and the page's
  free chain has lost exactly this cell. Otherwise, in particular onto the cells at offsets 8, 10 and
  12, before which the search finds no free cell even where there is one (the lower bound wraps around),
  the new cell is one of a pair from the first page of the chain, as for a cdr that is no list, when two
  neighbours of that page's free chain are in reach of each other.
\<close>

theorem cons_before_list:
  assumes gc: "GCLOOKUP d ADDREF s = Inr s1" "GCLOOKUP a ADDREF s1 = Inr s2"
    and d: "d AND POINTERMASK = d" "d \<noteq> NIL" "Listp s d" "FromLPage (POINTER_PAGE d) = pg"
      "d = pg + oo" "oo = d AND 0xFF" "is_off oo" "\<not> bit oo 0"
    and pg: "cons_page s s2 pg offs"
  shows "if 14 \<le> oo \<and> (\<exists>x \<in> set offs. reach x oo)
    then \<exists>x s' rest. N_OP_cons chk dirty a d s = Inr (pg + x, s') \<and> consed a d pg x rest s' \<and>
      set offs = insert x (set rest)
    else \<forall>pn pg' offs' us q r vs.
      dtd_nextpage s ListpDTD = pn \<and> pn \<noteq> 0 \<and> FromLPage pn = pg' \<and> cons_page s s2 pg' offs' \<and>
      offs' = us @ q # r # vs \<and> (reach q r \<or> reach r q) \<longrightarrow>
      (\<exists>x y s' rest. N_OP_cons chk dirty a d s = Inr (pg' + x, s') \<and> consed a d pg' x rest s' \<and>
         set offs' = {x, y} \<union> set rest \<and> y \<notin> set rest)"
proof -
  note c = counted_same [OF gc]
  have p0: "page_ok s pg offs" using pg by (simp add: cons_page_def)
  have p2: "page_ok s2 pg offs" using p0 c(1) by (subst page_ok_frame [of _ _ s]) simp_all
  show ?thesis
  proof (cases "14 \<le> oo \<and> (\<exists>x \<in> set offs. reach x oo)")
    case True
    then show ?thesis using cons_takes_prior [OF gc d(1-8) _ pg] by simp
  next
    case False
    have no: "find_close_prior_cell (FromLPage (POINTER_PAGE d)) d s2 = Inr (None, s2)"
    proof (cases "14 \<le> oo")
      case True
      then show ?thesis using find_close_prior_cell_law [OF p2 d(5-8)] False d(4) by auto
    next
      case lo: False
      then show ?thesis using prior_cell_wraps [OF p2, of d] d(4,6) by (simp add: not_le)
    qed
    note cons_takes_pair [OF gc d(1,2) no]
    then show ?thesis by (subst if_not_P [OF False]) blast
  qed
qed

text \<open>
  C5. \<open>cons\<close> onto something that is no list takes a pair of cells from the first page of the
  chain, when two neighbours of its free chain are in reach of each other: the second cell holds the
  cdr, \<open>car\<close> and \<open>cdr\<close> of the first are the arguments.
\<close>

theorem cons_with_pair:
  assumes gc: "GCLOOKUP d ADDREF s = Inr s1" "GCLOOKUP a ADDREF s1 = Inr s2"
    and d: "d AND POINTERMASK = d" "d \<noteq> NIL" "\<not> Listp s d"
    and pg: "dtd_nextpage s ListpDTD = pn" "pn \<noteq> 0" "FromLPage pn = pg" "cons_page s s2 pg offs"
    and pair: "offs = us @ q # r # vs" "reach q r \<or> reach r q"
  shows "\<exists>x y s' rest. N_OP_cons chk dirty a d s = Inr (pg + x, s') \<and> consed a d pg x rest s' \<and>
    set offs = {x, y} \<union> set rest \<and> y \<notin> set rest"
  by (rule cons_takes_pair [OF gc d(1,2) _ pg pair]) (simp add: d(3))

text \<open>
  \<open>cons\<close> onto \<open>NIL\<close> takes the first free cell of the first page of the chain: its
  \<open>cdr\<close> is \<open>NIL\<close>, its \<open>car\<close> the first argument, and the page counts one free cell less.
\<close>

theorem cons_onto_nil:
  assumes gc: "GCLOOKUP NIL ADDREF s = Inr s1" "GCLOOKUP a ADDREF s1 = Inr s2"
    and pg: "dtd_nextpage s ListpDTD = pn" "pn \<noteq> 0" "FromLPage pn = pg" "cons_page s s2 pg (x # rest)"
  shows "\<exists>s'. N_OP_cons chk dirty a NIL s = Inr (pg + x, s') \<and> consed a NIL pg x rest s'"
proof -
  note c = counted_same [OF gc]
  have p0: "page_ok s pg (x # rest)" using pg(4) by (simp add: cons_page_def)
  have p2: "page_ok s2 pg ([] @ x # rest)" using p0 c(1) by (subst page_ok_frame [of _ _ s]) simp_all
  note to = take_off_ok [OF p2]
  have gx: "is_off x" "\<not> bit x 0" "x \<notin> set rest" using page_ok_good [OF p0] p0 by (auto simp: page_ok_def)
  have first: "pg_next_cell s2 pg = x" using p2 by (simp add: page_ok_def)
  have cnt: "pg_count s2 pg \<noteq> 0" using p2 by (auto simp: page_ok_def)
  define s3 where "s3 = take_off pg [] x s2"
  have x4: "x \<noteq> 4" using is_off_header [OF gx(1)] by simp
  have e3: "set_next_cell pg (next_free (set_count pg (pg_count s2 pg - 1) s2) (pg + pg_next_cell (set_count pg (pg_count s2 pg - 1) s2) pg))
      (set_count pg (pg_count s2 pg - 1) s2) = s3"
  proof -
    have "set_next_cell pg n (set_count pg m s2) = set_count pg m (set_next_cell pg n s2)" for m n
      by (rule header_commute)
    then show ?thesis using x4 by (simp add: s3_def take_off_def prior_of_def unchain_def Let_def first)
  qed
  have ff: "find_free_cons_cell s2 = Inr (Some (pg + x), s3)"
  proof -
    have dn: "dtd_nextpage s2 ListpDTD = pn" using pg(1) by (simp add: dtd_nextpage_def c(1))
    have "free_cons_search pn s2 = Some (Some (pg + x), s3)"
      using pg(2,3) cnt e3 first by (simp add: free_cons_search.simps [of pn s2] Let_def)
    then show ?thesis by (simp add: find_free_cons_cell_def dn)
  qed
  define s4 where "s4 = set_code (pg + x) CDR_NIL s3"
  have oc: "gc s4 = gc s2" "byteswapped s4 = byteswapped s2"
    using only_chain_fields [OF to(2)] by (simp_all add: s4_def s3_def set_code_def wr_def)
  have lx: "Listp s4 (pg + x)" "pg + x \<noteq> NIL"
    using pg(4) c(3) unfolding Listp_gc [OF oc(1)] by (simp_all add: cons_page_def)
  have k: "cdr_code s4 (pg + x) = CDR_NIL" by (simp add: s4_def cell_code8)
  have kn: "CDR_NIL \<noteq> CDR_INDIRECT" "x + push_bit 1 (CDR_NIL AND 7) \<le> 254" "CDR_NIL \<notin> {1..7}"
    using off_254 [OF gx(1,2)] by (simp_all add: CDR_NIL_def CDR_INDIRECT_def)
  have p4: "page_ok s4 pg rest"
    using to(1) gx(3) x4 unfolding s4_def s3_def set_code_def
    by (subst page_ok_frame [of _ _ "take_off pg [] x s2"]) (auto simp: rd_wr)
  obtain s' where s': "rbind (GCLOOKUP (pg + x) DELREF (incr_cnt0 ListpDTD (set_car (pg + x) a s4))) (\<lambda>s5. Inr (pg + x,
      if 254 < ((pg + x) AND 0xFF) + push_bit 1 (cdr_code s5 (pg + x) AND 7)
      then log_error ''in CONS, cdr code too big.'' s5 else s5)) = Inr (pg + x, s')" "consed a NIL pg x rest s'"
    using cons_done [OF pg(4) _ c(2) p4 gx(3) oc k kn(1,2), of NIL incr_cnt0 a] kn(3) cdr_nil [OF lx k] by auto
  have sw: "set_code (pg + x) CDR_NIL (set_car (pg + x) a s3) = set_car (pg + x) a s4"
    unfolding s4_def by (rule car_code_commute)
  have "N_OP_cons chk dirty a NIL s = Inr (pg + x, s')"
    using gc ff s'(1) sw unfolding N_OP_cons_def by (simp add: Let_def cons_nil_def NIL_def del: cell_fields)
  then show ?thesis using s'(2) by blast
qed


section \<open>On concrete cells\<close>

text \<open>Two cells, the first with its cdr stored in the second.\<close>

definition vm_cell :: vm where
  "vm_cell = vm_types\<lparr>mem := (mem vm_types)(0x400010 := 0x10500000, 0x400012 := 0x600000)\<rparr>"

lemma uncounted_runs: "(\<And>a. \<not> RefCntP s a) \<Longrightarrow> GCLOOKUP p c s = Inr s"
  by (simp add: GCLOOKUP_uncounted)

lemma vm_cell_facts:
  "cell_ok vm_cell 0x400010" "car vm_cell 0x400010 = Inr 0x500000" "cdr vm_cell 0x400010 = Inr 0x600000"
  "cdr_code vm_cell (car_place vm_cell 0x400010) \<in> {1..7}" "GCLOOKUP p c vm_cell = Inr vm_cell"
proof -
  have l: "Listp vm_cell 0x400010"
    by (simp add: Listp_def GetTypeNumber_def GetTypeEntry_def vm_cell_def vm_types_def TYPE_LISTP_def)
  have k: "cdr_code vm_cell 0x400010 = 1" "car_field vm_cell 0x400010 = 0x500000" "car_field vm_cell 0x400012 = 0x600000"
    by (simp_all add: cdr_code_def code_of_def car_field_def car_of_def vm_cell_def rd_def getcell_def POINTERMASK_def)
  show "cell_ok vm_cell 0x400010" using l k by (simp add: cell_ok_def CDR_INDIRECT_def NIL_def)
  show "car vm_cell 0x400010 = Inr 0x500000" using l k by (simp add: car_def CDR_INDIRECT_def)
  show "cdr vm_cell 0x400010 = Inr 0x600000" using l k
    by (simp add: cdr_def cdr_loop.simps [of vm_cell "0x400010"] CDR_INDIRECT_def CDR_NIL_def CDR_ONPAGE_def NIL_def)
  show "cdr_code vm_cell (car_place vm_cell 0x400010) \<in> {1..7}" using k by (simp add: car_place_def CDR_INDIRECT_def)
  show "GCLOOKUP p c vm_cell = Inr vm_cell"
    by (rule uncounted_runs) (simp add: RefCntP_def GetTypeEntry_def vm_cell_def vm_types_def TT_NOREF_def)
qed

lemma rplaca_stores_witness:
  "\<exists>s'. rplaca 0x400010 0x700000 vm_cell = Inr (0x400010, s') \<and>
     car s' 0x400010 = Inr 0x700000 \<and> cdr s' 0x400010 = Inr 0x600000"
  using rplaca_stores [OF vm_cell_facts(1,2) vm_cell_facts(5,5), of "0x700000"] vm_cell_facts(3)
  by (auto simp: POINTERMASK_def)

lemma rplacd_stores_witness:
  "\<exists>s'. rplacd (\<lambda>s. Inr s) NIL 0x400010 0x700000 vm_cell = Inr (0x400010, s') \<and>
     cdr s' 0x400010 = Inr 0x700000 \<and> car s' 0x400010 = Inr 0x500000"
  using rplacd_stores [OF vm_cell_facts(1,4,3,5,5), where y = "0x700000" and chk = "\<lambda>s. Inr s" and dirty = NIL] vm_cell_facts(2)
  by (auto simp: POINTERMASK_def)

text \<open>The new page with its first cell taken, as a list of one element.\<close>

definition vm_one :: vm where
  "vm_one = set_code 0x4000F8 CDR_NIL (take_off 0x400000 [] 248 vm_page)"

lemma vm_one_facts:
  "page_ok vm_one 0x400000 (tl page_offs)" "248 \<notin> set (tl page_offs)" "gc vm_one = gc vm_page"
  "cdr_code vm_one 0x4000F8 = 8" "GCLOOKUP p c vm_one = Inr vm_one" "Listp vm_one 0x4000F8"
proof -
  note to = take_off_ok [of vm_page "0x400000" "[]" 248 "tl page_offs"]
  have pk: "page_ok vm_page 0x400000 ([] @ 248 # tl page_offs)" using vm_page_ok page_offs_eq by simp
  show n: "248 \<notin> set (tl page_offs)" using page_offs_distinct page_offs_eq by (metis distinct.simps(2))
  show g: "gc vm_one = gc vm_page"
    using only_chain_fields [OF to(2) [OF pk]] by (simp add: vm_one_def)
  have "(0x4000F8 :: 32 word) = 0x400000 + 248" by simp
  then show "page_ok vm_one 0x400000 (tl page_offs)"
    using to(1) [OF pk] n unfolding vm_one_def set_code_def
    by (subst page_ok_frame [of _ _ "take_off 0x400000 [] 248 vm_page"]) (auto simp: rd_wr)
  show "cdr_code vm_one 0x4000F8 = 8" by (simp add: vm_one_def CDR_NIL_def)
  show "GCLOOKUP p c vm_one = Inr vm_one"
    by (rule uncounted_runs) (use vm_page_uncounted RefCntP_gc [OF g] in simp)
  show "Listp vm_one 0x4000F8" using vm_page_Listp [of 248] Listp_gc [OF g] by simp
qed

lemma page_0x400000:
  assumes "is_off x"
  shows "0x400000 + x \<noteq> NIL" "(0x400000 + x) AND 0xFF = x" "off_dtd 0x400000"
proof -
  have u: "unat x < 256" using assms by (simp add: is_off_def word_less_nat_alt)
  have s: "unat (0x400000 + x) = 0x400000 + unat x" using u by (simp add: unat_word_ariths)
  then show "0x400000 + x \<noteq> NIL" by (auto simp: NIL_def dest: arg_cong [of _ _ unat])
  have "(0x400000 + unat x) mod 256 = unat x"
    using mod_mult_self1 [of "unat x" 16384 256] u by (simp add: add.commute)
  then have "unat ((0x400000 + x) AND 0xFF) = unat x"
    unfolding and_ff unsigned_take_bit_eq s by (simp add: take_bit_eq_mod)
  then show "(0x400000 + x) AND 0xFF = x" by (simp only: word_unat_eq_iff)
  have d: "ListpDTD = 0x14105A" by (simp add: ListpDTD_def GetDTD_def DTD_OFFSET_def TYPE_LISTP_def)
  have "0x400000 + k \<noteq> v" if "k < 256" "v = 0x14105C \<or> v = 0x141066" for k v :: "32 word"
  proof
    assume "0x400000 + k = v"
    then have "k = v - 0x400000" by (simp add: algebra_simps)
    then show False using that by auto
  qed
  then show "off_dtd 0x400000" by (auto simp: off_dtd_def d)
qed

lemma vm_cons_page: "page_ok s 0x400000 offs \<Longrightarrow> gc s = gc vm_page \<Longrightarrow> cons_page s s 0x400000 offs"
proof -
  assume a: "page_ok s 0x400000 offs" "gc s = gc vm_page"
  have "Listp s (0x400000 + x) \<and> 0x400000 + x \<noteq> NIL \<and> (0x400000 + x) AND 0xFF = x \<and> release_ready s (0x400000 + x)"
    if "x \<in> set offs" for x
  proof -
    have o: "is_off x" using page_ok_good [OF a(1) that] by simp
    then have "x < 256" by (simp add: is_off_def)
    then show ?thesis using page_0x400000 [OF o] vm_page_Listp Listp_gc [OF a(2)] RefCntP_gc [OF a(2)] vm_page_uncounted
      by (simp add: release_ready_def)
  qed
  moreover have "off_dtd 0x400000" by (rule page_0x400000(3) [of 8]) (simp add: is_off_def)
  ultimately show ?thesis using a(1) by (simp add: cons_page_def)
qed

lemma rplacd_on_page_witness:
  "\<exists>s'. rplacd (\<lambda>s. Inr s) NIL 0x4000F8 NIL vm_one = Inr (0x4000F8, s') \<and> cdr s' 0x4000F8 = Inr NIL"
proof -
  have c: "cdr_code vm_one 0x4000F8 \<notin> {0..7}" using vm_one_facts(4) by simp
  have d: "cdr vm_one 0x4000F8 = Inr NIL"
    by (rule cdr_nil) (use vm_one_facts(4,6) in \<open>simp_all add: NIL_def CDR_NIL_def\<close>)
  have p: "(0x4000F8 :: 32 word) \<noteq> NIL" "POINTER_PAGEBASE 0x4000F8 = 0x400000" "(0x4000F8 :: 32 word) = 0x400000 + 248"
    "(248 :: 32 word) = 0x4000F8 AND 0xFF" "is_off 248" "\<not> bit (248 :: 32 word) 0" "\<not> bit (0x4000F8 :: 32 word) 0"
    "unat (0x4000F8 :: 32 word) < 2 ^ 28" "NIL AND POINTERMASK = NIL" "\<not> bit NIL 0"
    by (simp_all add: NIL_def POINTER_PAGEBASE_def is_off_def)
  show ?thesis
    using rplacd_on_page [OF vm_one_facts(6) p(1) c d vm_one_facts(5,5,1) p(2-7) vm_one_facts(2) p(8-10), of "\<lambda>s. Inr s" NIL]
    by blast
qed

lemma cons_before_list_witness:
  "\<exists>x s' rest. N_OP_cons (\<lambda>s. Inr s) NIL 0x500000 0x4000F8 vm_one = Inr (0x400000 + x, s') \<and>
     consed 0x500000 0x4000F8 0x400000 x rest s'"
proof -
  have h: "(0x4000F8 :: 32 word) AND POINTERMASK = 0x4000F8" "(0x4000F8 :: 32 word) \<noteq> NIL"
    "FromLPage (POINTER_PAGE 0x4000F8) = 0x400000" "(0x4000F8 :: 32 word) = 0x400000 + 248"
    "(248 :: 32 word) = 0x4000F8 AND 0xFF" "is_off 248" "\<not> bit (248 :: 32 word) 0" "14 \<le> (248 :: 32 word)"
    by (simp_all add: POINTERMASK_def NIL_def FromLPage_def POINTER_PAGE_def is_off_def)
  have "246 \<in> set (tl page_offs)" unfolding page_offs_def by code_simp
  moreover have "reach 246 248" by (simp add: reach_def)
  ultimately show ?thesis
    using cons_before_list [OF vm_one_facts(5,5) h(1,2) vm_one_facts(6) h(3-7) vm_cons_page [OF vm_one_facts(1,3)],
        of "\<lambda>s. Inr s" NIL "0x500000"] h(8) by (auto split: if_splits)
qed

lemma vm_page_chain: "dtd_nextpage vm_page ListpDTD = 0x4000" "GCLOOKUP p c vm_page = Inr vm_page"
  "\<not> Listp vm_page 0x500000"
proof -
  have d: "ListpDTD = 0x14105A" by (simp add: ListpDTD_def GetDTD_def DTD_OFFSET_def TYPE_LISTP_def)
  have oc: "only_chain 0x400000 (6 # page_offs) vm_types vm_page"
    unfolding vm_page_def using init_conspage_law by blast
  have "\<forall>x \<in> set (6 # page_offs). 0x141068 \<noteq> 0x400000 + x"
  proof
    fix x assume "x \<in> set (6 # page_offs)"
    then have "x < 256" using page_offs_good by (auto simp: list_all_iff is_off_def)
    show "0x141068 \<noteq> 0x400000 + x"
    proof
      assume "0x141068 = 0x400000 + x"
      then have "x = 0x141068 - 0x400000" by (metis add_diff_cancel_left')
      then show False using \<open>x < 256\<close> by simp
    qed
  qed
  then have "rd vm_page 0x141068 = rd vm_types 0x141068" using oc unfolding only_chain_def by simp
  then show "dtd_nextpage vm_page ListpDTD = 0x4000" by (simp add: dtd_nextpage_def d vm_types_def rd_def getcell_def)
  show "GCLOOKUP p c vm_page = Inr vm_page" by (rule uncounted_runs) (rule vm_page_uncounted)
  show "\<not> Listp vm_page 0x500000"
    by (simp add: Listp_def GetTypeNumber_def GetTypeEntry_def vm_page_gc vm_types_def TYPE_LISTP_def)
qed

lemma cons_with_pair_witness:
  "\<exists>x s' rest. N_OP_cons (\<lambda>s. Inr s) NIL 0x600000 0x500000 vm_page = Inr (0x400000 + x, s') \<and>
     consed 0x600000 0x500000 0x400000 x rest s'"
proof -
  have "take 2 page_offs = [248, 250]" unfolding page_offs_def by code_simp
  then have o: "page_offs = [] @ 248 # 250 # drop 2 page_offs"
    by (metis append_Cons append_Nil append_take_drop_id)
  have h: "(0x500000 :: 32 word) AND POINTERMASK = 0x500000" "(0x500000 :: 32 word) \<noteq> NIL"
    "(0x4000 :: 32 word) \<noteq> 0" "FromLPage 0x4000 = 0x400000" "reach 248 250 \<or> reach 250 248"
    by (simp_all add: POINTERMASK_def NIL_def FromLPage_def reach_def)
  show ?thesis
    using cons_with_pair [OF vm_page_chain(2,2) h(1,2) vm_page_chain(3,1) h(3,4) vm_cons_page [OF vm_page_ok refl] o h(5),
        of "\<lambda>s. Inr s" NIL "0x600000"] by blast
qed

lemma cons_onto_nil_witness:
  "\<exists>s'. N_OP_cons (\<lambda>s. Inr s) NIL 0x600000 NIL vm_page = Inr (0x4000F8, s') \<and>
     consed 0x600000 NIL 0x400000 248 (tl page_offs) s'"
proof -
  have h: "(0x4000 :: 32 word) \<noteq> 0" "FromLPage 0x4000 = 0x400000" by (simp_all add: FromLPage_def)
  have "page_ok vm_page 0x400000 (248 # tl page_offs)" using vm_page_ok page_offs_eq by simp
  from cons_onto_nil [OF vm_page_chain(2,2,1) h vm_cons_page [OF this refl], of "\<lambda>s. Inr s" NIL "0x600000"]
  show ?thesis by simp
qed

end
