(* ===== verification/Numbers.thy ===== *)
theory Numbers
  imports Cons_Store "HOL-Library.Signed_Division"
begin

text \<open>
  The number opcodes: \<open>inc/arith.h\<close>, \<open>N_MakeFloat\<close> of \<open>inc/my.h\<close>,
  \<open>src/arithops.c\<close>, \<open>src/shift.c\<close>, \<open>src/fp.c\<close> and \<open>src/ubf1.c\<close> to
  \<open>src/ubf3.c\<close>. Definitions; what they promise is in \<open>Number_Laws\<close>.

  A C \<open>int\<close> is a 32-bit word read with \<open>sint\<close>, a \<open>float\<close> the word of its bits. The
  shifts and sums the code leaves to wrap (\<open>a << 1\<close> of a negative number, \<open>+=\<close> on a
  box) wrap, as the supported compilers make them; a division the hardware traps on is
  \<open>Fatal\<close>. The rounding of the floating-point unit is not code of the program: it is a field of
  \<open>calc\<close>. Comparisons of floats are defined on the bits.
\<close>

section \<open>The environment of the number opcodes\<close>

text \<open>
  \<open>overflow_builtins\<close> chooses the branch of \<open>#ifdef USE_OVERFLOW_BUILTINS\<close>;
  \<open>storage_chk\<close> and \<open>dirty_arg\<close> are what \<open>createcell68k\<close> needs when it has to
  allocate a page; \<open>f_cast\<close> is the C conversion of a float to \<open>int\<close>.
\<close>

record calc =
  overflow_builtins :: bool
  storage_chk :: "vm \<Rightarrow> vm res"
  dirty_arg :: LispPTR
  f_add :: "32 word \<Rightarrow> 32 word \<Rightarrow> 32 word"
  f_sub :: "32 word \<Rightarrow> 32 word \<Rightarrow> 32 word"
  f_mul :: "32 word \<Rightarrow> 32 word \<Rightarrow> 32 word"
  f_div :: "32 word \<Rightarrow> 32 word \<Rightarrow> 32 word"
  f_mod :: "32 word \<Rightarrow> 32 word \<Rightarrow> 32 word"
  f_of_int :: "32 word \<Rightarrow> 32 word"
  f_cast :: "32 word \<Rightarrow> 32 word"

section \<open>Reading and boxing a number\<close>

definition MAX_SMALL :: int where "MAX_SMALL = 65535"
definition MIN_SMALL :: int where "MIN_SMALL = -65536"
definition MIN_FIXP :: "32 word" where "MIN_FIXP = 0x80000000"

definition GetSmalldata :: "LispPTR \<Rightarrow> 32 word res" where
  "GetSmalldata x =
     (if SEGMASK AND x = S_POSITIVE then Inr (x AND 0xFFFF)
      else if SEGMASK AND x = S_NEGATIVE then Inr (x OR 0xFFFF0000)
      else Inl (Fatal ''Not smallp address''))"

text \<open>\<open>x\<close> is a C \<open>long\<close>, 64 bits on the supported machines.\<close>

definition GetSmallp :: "64 word \<Rightarrow> LispPTR res" where
  "GetSmallp x =
     (if sint x \<ge> 0
      then (if sint x \<le> MAX_SMALL then Inr (S_POSITIVE OR ucast x) else Inl (Fatal ''Not Smallp data''))
      else (if sint x \<ge> MIN_SMALL then Inr (S_NEGATIVE OR (ucast x AND 0xFFFF))
            else Inl (Fatal ''Not Smallp data'')))"

definition GetPosSmallp :: "64 word \<Rightarrow> LispPTR res" where
  "GetPosSmallp x =
     (if x \<le> 65535 then Inr (S_POSITIVE OR ucast x) else Inl (Fatal ''Not Smallp data''))"

text \<open>The macro jumps to its label where the value is \<open>None\<close>.\<close>

definition N_GETNUMBER :: "vm \<Rightarrow> LispPTR \<Rightarrow> 32 word option" where
  "N_GETNUMBER s x =
     (if SEGMASK AND x = S_POSITIVE then Some (x AND 0xFFFF)
      else if SEGMASK AND x = S_NEGATIVE then Some (x OR 0xFFFF0000)
      else if GetTypeNumber s x \<noteq> TYPE_FIXP then None
      else Some (rd s x))"

text \<open>
  The order of single-precision floats on their bits: a NaN is unordered, the two zeros are equal,
  and the others order as sign and magnitude.
\<close>

definition f_nan :: "32 word \<Rightarrow> bool" where "f_nan x \<longleftrightarrow> (x AND 0x7FFFFFFF) > 0x7F800000"

definition f_key :: "32 word \<Rightarrow> int" where
  "f_key x = (if bit x 31 then - uint (x AND 0x7FFFFFFF) else uint (x AND 0x7FFFFFFF))"

definition f_gt :: "32 word \<Rightarrow> 32 word \<Rightarrow> bool" where
  "f_gt x y \<longleftrightarrow> \<not> f_nan x \<and> \<not> f_nan y \<and> f_key x > f_key y"

definition FPTEST :: "32 word \<Rightarrow> bool" where
  "FPTEST x \<longleftrightarrow> x AND 0x7F800000 = 0x7F800000"

text \<open>
  \<open>(float)0x7fffffff\<close> rounds to \<open>2 ^ 31\<close>. So is \<open>(float)0x80000000\<close>: the literal
  is unsigned.
\<close>

definition F_2_31 :: "32 word" where "F_2_31 = 0x4F000000"

definition float_to_int :: "calc \<Rightarrow> 32 word \<Rightarrow> 32 word option" where
  "float_to_int E temp = (if f_gt temp F_2_31 \<or> f_gt F_2_31 temp then None else Some (f_cast E temp))"

definition N_IGETNUMBER :: "calc \<Rightarrow> vm \<Rightarrow> LispPTR \<Rightarrow> 32 word option" where
  "N_IGETNUMBER E s x =
     (if SEGMASK AND x = S_POSITIVE then Some (x AND 0xFFFF)
      else if SEGMASK AND x = S_NEGATIVE then Some (x OR 0xFFFF0000)
      else if GetTypeNumber s x = TYPE_FIXP then Some (rd s x)
      else if GetTypeNumber s x = TYPE_FLOATP then float_to_int E (rd s x)
      else None)"

definition N_MakeFloat :: "calc \<Rightarrow> vm \<Rightarrow> LispPTR \<Rightarrow> 32 word option" where
  "N_MakeFloat E s x =
     (if SEGMASK AND x = S_POSITIVE then Some (f_of_int E (0xFFFF AND x))
      else if SEGMASK AND x = S_NEGATIVE then Some (f_of_int E (0xFFFF0000 OR x))
      else if GetTypeNumber s x = TYPE_FLOATP then Some (rd s x)
      else if GetTypeNumber s x = TYPE_FIXP then Some (f_of_int E (rd s x))
      else None)"

text \<open>A new box of a type holding \<open>v\<close>, and the number \<open>v\<close> as a Lisp object.\<close>

definition box_cell :: "calc \<Rightarrow> DLword \<Rightarrow> 32 word \<Rightarrow> vm \<Rightarrow> (LispPTR \<times> vm) res" where
  "box_cell E type v s =
     rbind (createcell68k (storage_chk E) (dirty_arg E) type s) (\<lambda>(p, s1). Inr (p, wr p v s1))"

definition N_ARITH_SWITCH :: "calc \<Rightarrow> 32 word \<Rightarrow> vm \<Rightarrow> (LispPTR \<times> vm) res" where
  "N_ARITH_SWITCH E arg s =
     (if arg AND 0xFFFF0000 = 0 then Inr (S_POSITIVE OR arg, s)
      else if arg AND 0xFFFF0000 = 0xFFFF0000 then Inr (S_NEGATIVE OR (0xFFFF AND arg), s)
      else box_cell E TYPE_FIXP arg s)"

text \<open>A binary opcode that reads both arguments or jumps to its \<open>doufn\<close> label.\<close>

definition two_numbers ::
  "32 word option \<Rightarrow> 32 word option \<Rightarrow> 'a \<Rightarrow> (32 word \<Rightarrow> 32 word \<Rightarrow> 'a) \<Rightarrow> 'a" where
  "two_numbers a b no yes = (case a of None \<Rightarrow> no | Some x \<Rightarrow> (case b of None \<Rightarrow> no | Some y \<Rightarrow> yes x y))"

section \<open>Overflow tests\<close>

text \<open>
  The sum, difference and product of two ints, \<open>None\<close> on overflow: \<open>__builtin_sadd_overflow\<close>
  and its relatives, or the test on the wrapped result of the \<open>#else\<close> branches.
\<close>

definition fits :: "int \<Rightarrow> bool" where "fits i \<longleftrightarrow> -(2 ^ 31) \<le> i \<and> i < 2 ^ 31"

definition nonneg :: "32 word \<Rightarrow> bool" where "nonneg a \<longleftrightarrow> \<not> bit a 31"

definition add_check :: "bool \<Rightarrow> 32 word \<Rightarrow> 32 word \<Rightarrow> 32 word option" where
  "add_check bi a b =
     (if bi then (if fits (sint a + sint b) then Some (a + b) else None)
      else let r = a + b
           in if nonneg a = nonneg b \<and> nonneg r \<noteq> nonneg a then None else Some r)"

definition sub_check :: "bool \<Rightarrow> 32 word \<Rightarrow> 32 word \<Rightarrow> 32 word option" where
  "sub_check bi a b =
     (if bi then (if fits (sint a - sint b) then Some (a - b) else None)
      else let r = a - b
           in if nonneg a = (\<not> nonneg b) \<and> nonneg r \<noteq> nonneg a then None else Some r)"

text \<open>The one-sided tests of \<open>IPLUS.N\<close> and \<open>IDIFFERENCE.N\<close>.\<close>

definition addn_check :: "bool \<Rightarrow> 32 word \<Rightarrow> 32 word \<Rightarrow> 32 word option" where
  "addn_check bi a n =
     (if bi then (if fits (sint a + sint n) then Some (a + n) else None)
      else let r = a + n in if \<not> nonneg r \<and> nonneg a then None else Some r)"

definition subn_check :: "bool \<Rightarrow> 32 word \<Rightarrow> 32 word \<Rightarrow> 32 word option" where
  "subn_check bi a n =
     (if bi then (if fits (sint a - sint n) then Some (a - n) else None)
      else let r = a - n in if nonneg r \<and> \<not> nonneg a then None else Some r)"

text \<open>C division truncates; \<open>MIN_FIXP / -1\<close> is a hardware trap.\<close>

definition c_div :: "32 word \<Rightarrow> 32 word \<Rightarrow> 32 word res" where
  "c_div a b =
     (if a = MIN_FIXP \<and> b = -1 then Inl (Fatal ''integer division overflow'')
      else Inr (word_of_int (sint a sdiv sint b)))"

definition c_rem :: "32 word \<Rightarrow> 32 word \<Rightarrow> 32 word res" where
  "c_rem a b =
     (if a = MIN_FIXP \<and> b = -1 then Inl (Fatal ''integer division overflow'')
      else Inr (word_of_int (sint a smod sint b)))"

definition mul_check :: "bool \<Rightarrow> 32 word \<Rightarrow> 32 word \<Rightarrow> 32 word option res" where
  "mul_check bi a b =
     (if bi then Inr (if fits (sint a * sint b) then Some (a * b) else None)
      else let r = a * b
           in if b \<noteq> 0 then rbind (c_div r b) (\<lambda>q. Inr (if q \<noteq> a then None else Some r))
              else Inr (Some r))"

section \<open>Floating-point opcodes\<close>

definition float_op ::
  "(32 word \<Rightarrow> 32 word \<Rightarrow> 32 word) \<Rightarrow> calc \<Rightarrow> LispPTR \<Rightarrow> LispPTR \<Rightarrow> vm \<Rightarrow> (LispPTR \<times> vm) res" where
  "float_op f E parg1 parg2 s =
     two_numbers (N_MakeFloat E s parg1) (N_MakeFloat E s parg2) (Inl (Ufn parg2)) (\<lambda>a b.
       let r = f a b
       in if FPTEST r then Inl (Ufn parg2) else box_cell E TYPE_FLOATP r s)"

definition N_OP_fplus2 :: "calc \<Rightarrow> LispPTR \<Rightarrow> LispPTR \<Rightarrow> vm \<Rightarrow> (LispPTR \<times> vm) res" where
  "N_OP_fplus2 E parg1 parg2 s = float_op (f_add E) E parg1 parg2 s"

definition N_OP_fdifference :: "calc \<Rightarrow> LispPTR \<Rightarrow> LispPTR \<Rightarrow> vm \<Rightarrow> (LispPTR \<times> vm) res" where
  "N_OP_fdifference E parg1 parg2 s = float_op (f_sub E) E parg1 parg2 s"

definition N_OP_ftimes2 :: "calc \<Rightarrow> LispPTR \<Rightarrow> LispPTR \<Rightarrow> vm \<Rightarrow> (LispPTR \<times> vm) res" where
  "N_OP_ftimes2 E parg1 parg2 s = float_op (f_mul E) E parg1 parg2 s"

definition N_OP_fquotient :: "calc \<Rightarrow> LispPTR \<Rightarrow> LispPTR \<Rightarrow> vm \<Rightarrow> (LispPTR \<times> vm) res" where
  "N_OP_fquotient E parg1 parg2 s = float_op (f_div E) E parg1 parg2 s"

definition N_OP_fgreaterp :: "calc \<Rightarrow> LispPTR \<Rightarrow> LispPTR \<Rightarrow> vm \<Rightarrow> (LispPTR \<times> vm) res" where
  "N_OP_fgreaterp E parg1 parg2 s =
     two_numbers (N_MakeFloat E s parg1) (N_MakeFloat E s parg2) (Inl (Ufn parg2)) (\<lambda>a b.
       Inr (if f_gt a b then ATOM_T else NIL, s))"

section \<open>Integer opcodes\<close>

definition N_OP_plus2 :: "calc \<Rightarrow> LispPTR \<Rightarrow> LispPTR \<Rightarrow> vm \<Rightarrow> (LispPTR \<times> vm) res" where
  "N_OP_plus2 E tosm1 tos s =
     two_numbers (N_GETNUMBER s tos) (N_GETNUMBER s tosm1) (N_OP_fplus2 E tosm1 tos s) (\<lambda>arg1 arg2.
       case add_check (overflow_builtins E) arg1 arg2 of
         None \<Rightarrow> Inl (Ufn tos) | Some result \<Rightarrow> N_ARITH_SWITCH E result s)"

definition N_OP_iplus2 :: "calc \<Rightarrow> LispPTR \<Rightarrow> LispPTR \<Rightarrow> vm \<Rightarrow> (LispPTR \<times> vm) res" where
  "N_OP_iplus2 E tosm1 tos s =
     two_numbers (N_IGETNUMBER E s tos) (N_IGETNUMBER E s tosm1) (Inl (Ufn tos)) (\<lambda>arg1 arg2.
       case add_check (overflow_builtins E) arg1 arg2 of
         None \<Rightarrow> Inl (Ufn tos) | Some result \<Rightarrow> N_ARITH_SWITCH E result s)"

definition N_OP_difference :: "calc \<Rightarrow> LispPTR \<Rightarrow> LispPTR \<Rightarrow> vm \<Rightarrow> (LispPTR \<times> vm) res" where
  "N_OP_difference E tosm1 tos s =
     two_numbers (N_GETNUMBER s tosm1) (N_GETNUMBER s tos) (N_OP_fdifference E tosm1 tos s) (\<lambda>arg1 arg2.
       case sub_check (overflow_builtins E) arg1 arg2 of
         None \<Rightarrow> Inl (Ufn tos) | Some result \<Rightarrow> N_ARITH_SWITCH E result s)"

definition N_OP_idifference :: "calc \<Rightarrow> LispPTR \<Rightarrow> LispPTR \<Rightarrow> vm \<Rightarrow> (LispPTR \<times> vm) res" where
  "N_OP_idifference E tosm1 tos s =
     two_numbers (N_IGETNUMBER E s tosm1) (N_IGETNUMBER E s tos) (Inl (Ufn tos)) (\<lambda>arg1 arg2.
       case sub_check (overflow_builtins E) arg1 arg2 of
         None \<Rightarrow> Inl (Ufn tos) | Some result \<Rightarrow> N_ARITH_SWITCH E result s)"

definition N_OP_logxor :: "calc \<Rightarrow> LispPTR \<Rightarrow> LispPTR \<Rightarrow> vm \<Rightarrow> (LispPTR \<times> vm) res" where
  "N_OP_logxor E tosm1 tos s =
     two_numbers (N_IGETNUMBER E s tosm1) (N_IGETNUMBER E s tos) (Inl (Ufn tos)) (\<lambda>arg1 arg2.
       N_ARITH_SWITCH E (arg1 XOR arg2) s)"

definition N_OP_logand :: "calc \<Rightarrow> LispPTR \<Rightarrow> LispPTR \<Rightarrow> vm \<Rightarrow> (LispPTR \<times> vm) res" where
  "N_OP_logand E tosm1 tos s =
     two_numbers (N_IGETNUMBER E s tosm1) (N_IGETNUMBER E s tos) (Inl (Ufn tos)) (\<lambda>arg1 arg2.
       N_ARITH_SWITCH E (arg1 AND arg2) s)"

definition N_OP_logor :: "calc \<Rightarrow> LispPTR \<Rightarrow> LispPTR \<Rightarrow> vm \<Rightarrow> (LispPTR \<times> vm) res" where
  "N_OP_logor E tosm1 tos s =
     two_numbers (N_IGETNUMBER E s tosm1) (N_IGETNUMBER E s tos) (Inl (Ufn tos)) (\<lambda>arg1 arg2.
       N_ARITH_SWITCH E (arg1 OR arg2) s)"

definition N_OP_greaterp :: "calc \<Rightarrow> LispPTR \<Rightarrow> LispPTR \<Rightarrow> vm \<Rightarrow> (LispPTR \<times> vm) res" where
  "N_OP_greaterp E tosm1 tos s =
     two_numbers (N_GETNUMBER s tosm1) (N_GETNUMBER s tos) (N_OP_fgreaterp E tosm1 tos s) (\<lambda>arg1 arg2.
       Inr (if sint arg1 > sint arg2 then ATOM_T else NIL, s))"

definition N_OP_igreaterp :: "calc \<Rightarrow> LispPTR \<Rightarrow> LispPTR \<Rightarrow> vm \<Rightarrow> (LispPTR \<times> vm) res" where
  "N_OP_igreaterp E tosm1 tos s =
     two_numbers (N_IGETNUMBER E s tosm1) (N_IGETNUMBER E s tos) (Inl (Ufn tos)) (\<lambda>arg1 arg2.
       Inr (if sint arg1 > sint arg2 then ATOM_T else NIL, s))"

definition N_OP_iplusn :: "calc \<Rightarrow> LispPTR \<Rightarrow> 32 word \<Rightarrow> vm \<Rightarrow> (LispPTR \<times> vm) res" where
  "N_OP_iplusn E tos n s =
     (case N_IGETNUMBER E s tos of
        None \<Rightarrow> Inl (Ufn tos)
      | Some arg1 \<Rightarrow>
          (case addn_check (overflow_builtins E) arg1 n of
             None \<Rightarrow> Inl (Ufn tos) | Some result \<Rightarrow> N_ARITH_SWITCH E result s))"

definition N_OP_idifferencen :: "calc \<Rightarrow> LispPTR \<Rightarrow> 32 word \<Rightarrow> vm \<Rightarrow> (LispPTR \<times> vm) res" where
  "N_OP_idifferencen E tos n s =
     (case N_IGETNUMBER E s tos of
        None \<Rightarrow> Inl (Ufn tos)
      | Some arg1 \<Rightarrow>
          (case subn_check (overflow_builtins E) arg1 n of
             None \<Rightarrow> Inl (Ufn tos) | Some result \<Rightarrow> N_ARITH_SWITCH E result s))"

definition N_OP_makenumber :: "calc \<Rightarrow> LispPTR \<Rightarrow> LispPTR \<Rightarrow> vm \<Rightarrow> (LispPTR \<times> vm) res" where
  "N_OP_makenumber E tosm1 tos s =
     (if tosm1 AND 0xFFFF0000 \<noteq> S_POSITIVE \<or> tos AND 0xFFFF0000 \<noteq> S_POSITIVE then Inl (Ufn tos)
      else N_ARITH_SWITCH E (push_bit 16 (tosm1 AND 0xFFFF) OR (tos AND 0xFFFF)) s)"

text \<open>The two opcodes that change a box in place.\<close>

definition N_OP_boxiplus :: "LispPTR \<Rightarrow> LispPTR \<Rightarrow> vm \<Rightarrow> (LispPTR \<times> vm) res" where
  "N_OP_boxiplus a tos s =
     (if GetTypeNumber s a = TYPE_FIXP
      then (case N_GETNUMBER s tos of None \<Rightarrow> Inl (Ufn tos) | Some arg2 \<Rightarrow> Inr (a, wr a (rd s a + arg2) s))
      else Inl (Ufn tos))"

definition N_OP_boxidiff :: "LispPTR \<Rightarrow> LispPTR \<Rightarrow> vm \<Rightarrow> (LispPTR \<times> vm) res" where
  "N_OP_boxidiff a tos s =
     (if GetTypeNumber s a = TYPE_FIXP
      then (case N_GETNUMBER s tos of None \<Rightarrow> Inl (Ufn tos) | Some arg2 \<Rightarrow> Inr (a, wr a (rd s a - arg2) s))
      else Inl (Ufn tos))"

definition N_OP_times2 :: "calc \<Rightarrow> LispPTR \<Rightarrow> LispPTR \<Rightarrow> vm \<Rightarrow> (LispPTR \<times> vm) res" where
  "N_OP_times2 E tosm1 tos s =
     two_numbers (N_GETNUMBER s tosm1) (N_GETNUMBER s tos) (N_OP_ftimes2 E tosm1 tos s) (\<lambda>arg1 arg2.
       rbind (mul_check (overflow_builtins E) arg1 arg2) (\<lambda>r.
         case r of None \<Rightarrow> Inl (Ufn tos) | Some result \<Rightarrow> N_ARITH_SWITCH E result s))"

definition N_OP_itimes2 :: "calc \<Rightarrow> LispPTR \<Rightarrow> LispPTR \<Rightarrow> vm \<Rightarrow> (LispPTR \<times> vm) res" where
  "N_OP_itimes2 E tosm1 tos s =
     two_numbers (N_IGETNUMBER E s tosm1) (N_IGETNUMBER E s tos) (Inl (Ufn tos)) (\<lambda>arg1 arg2.
       rbind (mul_check (overflow_builtins E) arg1 arg2) (\<lambda>r.
         case r of None \<Rightarrow> Inl (Ufn tos) | Some result \<Rightarrow> N_ARITH_SWITCH E result s))"

definition N_OP_quot :: "calc \<Rightarrow> LispPTR \<Rightarrow> LispPTR \<Rightarrow> vm \<Rightarrow> (LispPTR \<times> vm) res" where
  "N_OP_quot E tosm1 tos s =
     two_numbers (N_GETNUMBER s tosm1) (N_GETNUMBER s tos) (N_OP_fquotient E tosm1 tos s) (\<lambda>arg1 arg2.
       if arg2 = 0 then Inl (Ufn tos)
       else rbind (c_div arg1 arg2) (\<lambda>result. N_ARITH_SWITCH E result s))"

definition N_OP_iquot :: "calc \<Rightarrow> LispPTR \<Rightarrow> LispPTR \<Rightarrow> vm \<Rightarrow> (LispPTR \<times> vm) res" where
  "N_OP_iquot E tosm1 tos s =
     two_numbers (N_IGETNUMBER E s tosm1) (N_IGETNUMBER E s tos) (Inl (Ufn tos)) (\<lambda>arg1 arg2.
       if arg2 = 0 then Inl (Ufn tos)
       else rbind (c_div arg1 arg2) (\<lambda>result. N_ARITH_SWITCH E result s))"

definition N_OP_iremainder :: "calc \<Rightarrow> LispPTR \<Rightarrow> LispPTR \<Rightarrow> vm \<Rightarrow> (LispPTR \<times> vm) res" where
  "N_OP_iremainder E tosm1 tos s =
     two_numbers (N_IGETNUMBER E s tosm1) (N_IGETNUMBER E s tos) (Inl (Ufn tos)) (\<lambda>arg1 arg2.
       if arg2 = 0 then Inl (Ufn tos)
       else rbind (c_rem arg1 arg2) (\<lambda>result. N_ARITH_SWITCH E result s))"

section \<open>Shifts\<close>

definition N_OP_llsh1 :: "calc \<Rightarrow> LispPTR \<Rightarrow> vm \<Rightarrow> (LispPTR \<times> vm) res" where
  "N_OP_llsh1 E a s =
     (case N_GETNUMBER s a of None \<Rightarrow> Inl (Ufn a) | Some arg1 \<Rightarrow> N_ARITH_SWITCH E (push_bit 1 arg1) s)"

definition N_OP_llsh8 :: "calc \<Rightarrow> LispPTR \<Rightarrow> vm \<Rightarrow> (LispPTR \<times> vm) res" where
  "N_OP_llsh8 E a s =
     (case N_GETNUMBER s a of None \<Rightarrow> Inl (Ufn a) | Some arg1 \<Rightarrow> N_ARITH_SWITCH E (push_bit 8 arg1) s)"

definition N_OP_lrsh1 :: "calc \<Rightarrow> LispPTR \<Rightarrow> vm \<Rightarrow> (LispPTR \<times> vm) res" where
  "N_OP_lrsh1 E a s =
     (case N_GETNUMBER s a of None \<Rightarrow> Inl (Ufn a) | Some arg1 \<Rightarrow> N_ARITH_SWITCH E (drop_bit 1 arg1) s)"

definition N_OP_lrsh8 :: "calc \<Rightarrow> LispPTR \<Rightarrow> vm \<Rightarrow> (LispPTR \<times> vm) res" where
  "N_OP_lrsh8 E a s =
     (case N_GETNUMBER s a of None \<Rightarrow> Inl (Ufn a) | Some arg1 \<Rightarrow> N_ARITH_SWITCH E (drop_bit 8 arg1) s)"

definition N_OP_lsh :: "calc \<Rightarrow> LispPTR \<Rightarrow> LispPTR \<Rightarrow> vm \<Rightarrow> (LispPTR \<times> vm) res" where
  "N_OP_lsh E a b s =
     two_numbers (N_GETNUMBER s b) (N_GETNUMBER s a) (Inl (Ufn b)) (\<lambda>size arg2.
       if sint size > 0
       then if sint size > 31 then Inl (Ufn b)
            else (let arg = push_bit (nat (sint size)) arg2
                  in if signed_drop_bit (nat (sint size)) arg \<noteq> arg2 then Inl (Ufn b)
                     else N_ARITH_SWITCH E arg s)
       else if sint size < 0
       then if sint size < -31 then Inl (Ufn b)
            else N_ARITH_SWITCH E (signed_drop_bit (nat (- sint size)) arg2) s
       else Inr (a, s))"

section \<open>Unboxed floats\<close>

definition N_OP_ubfloat1 :: "calc \<Rightarrow> LispPTR \<Rightarrow> int \<Rightarrow> vm \<Rightarrow> (LispPTR \<times> vm) res" where
  "N_OP_ubfloat1 E arg alpha s =
     (if alpha = 0 then box_cell E TYPE_FLOATP arg s
      else if alpha = 1
      then (case N_MakeFloat E s arg of None \<Rightarrow> Inl (Ufn arg) | Some dest \<Rightarrow> Inr (dest, s))
      else if alpha = 2 then Inr (0x7FFFFFFF AND arg, s)
      else if alpha = 3 then Inr (0x80000000 XOR arg, s)
      else if alpha = 4
      then (case float_to_int E arg of None \<Rightarrow> Inl (Ufn arg) | Some val \<Rightarrow> N_ARITH_SWITCH E val s)
      else Inl (Ufn arg))"

definition ub_result :: "32 word \<Rightarrow> 32 word \<Rightarrow> 32 word res" where
  "ub_result a1 ans = (if FPTEST ans then Inl (Ufn a1) else Inr ans)"

definition N_OP_ubfloat2 :: "calc \<Rightarrow> 32 word \<Rightarrow> 32 word \<Rightarrow> int \<Rightarrow> 32 word res" where
  "N_OP_ubfloat2 E a2 a1 alpha =
     (if alpha = 0 then ub_result a1 (f_add E a1 a2)
      else if alpha = 1 then ub_result a1 (f_sub E a2 a1)
      else if alpha = 2 then ub_result a1 (f_sub E a1 a2)
      else if alpha = 3 then ub_result a1 (f_mul E a1 a2)
      else if alpha = 4 then ub_result a1 (f_div E a2 a1)
      else if alpha = 5 then Inr (if f_gt a2 a1 then ATOM_T else NIL)
      else if alpha = 6 then Inr (if f_gt a2 a1 then a2 else a1)
      else if alpha = 7 then Inr (if f_gt a2 a1 then a1 else a2)
      else if alpha = 8 then ub_result a1 (f_mod E a2 a1)
      else Inl (Ufn a1))"

text \<open>Horner's rule over the coefficients in consecutive cells from \<open>fptr\<close>.\<close>

primrec poly_loop :: "calc \<Rightarrow> vm \<Rightarrow> 32 word \<Rightarrow> nat \<Rightarrow> LispPTR \<Rightarrow> 32 word \<Rightarrow> 32 word" where
  "poly_loop E s val 0 fptr ans = ans"
| "poly_loop E s val (Suc degree) fptr ans =
     poly_loop E s val degree (fptr + 2) (f_add E (f_mul E ans val) (rd s (fptr + 2)))"

definition N_OP_ubfloat3 :: "calc \<Rightarrow> 32 word \<Rightarrow> LispPTR \<Rightarrow> LispPTR \<Rightarrow> int \<Rightarrow> vm \<Rightarrow> 32 word res" where
  "N_OP_ubfloat3 E arg3 arg2 arg1 alpha s =
     (if alpha \<noteq> 0 then Inl (Ufn arg1)
      else if arg1 AND SEGMASK \<noteq> S_POSITIVE then Inl (Ufn arg1)
      else (let ans = poly_loop E s arg3 (unat (0xFFFF AND arg1)) arg2 (rd s arg2)
            in if FPTEST ans then Inl (Ufn arg1) else Inr ans))"

end
