(* ===== verification/Number_Laws.thy ===== *)
theory Number_Laws
  imports Numbers
begin

text \<open>
  What the number opcodes promise: a number survives being made a Lisp object and read back, the
  integer opcodes are exact or hand over to Lisp, and the two ways of testing for overflow agree.
\<close>

section \<open>Boxing and reading back\<close>

lemma take_cell_types:
  assumes "take_cell bad d c s = Inr (r, s')"
  shows "GetTypeNumber s' a = GetTypeNumber s a"
proof -
  define s1 where "s1 = (if rd s c = 917505 then log_error ''N_OP_createcell E0001 error'' s else s)"
  define s2 where "s2 = set_dtd_free d (rd s1 c AND POINTERMASK) s1"
  define s3 where "s3 = (if dtd_free s2 d AND bad \<noteq> 0 then log_error ''bad entry on free chain.'' s2 else s2)"
  define s4 where "s4 = incr_oldcnt d s3"
  define s5 where "s5 = clear_words (unat (dtd_size s4 d)) c s4"
  have g: "gc s5 = gc s"
    unfolding s5_def by (subst clear_words_frame, simp add: s4_def incr_oldcnt_def s3_def s2_def set_dtd_free_def s1_def)
  have "take_cell bad d c s = rbind (GCLOOKUP c DELREF s5) (\<lambda>s6. Inr (c, s6))"
    unfolding s5_def s4_def s3_def s2_def s1_def take_cell_def Let_def ..
  then have "rbind (GCLOOKUP c DELREF s5) (\<lambda>s6. Inr (c, s6)) = Inr (r, s')" using assms by simp
  then have "GCLOOKUP c DELREF s5 = Inr s'" by (auto simp: rbind_Inr_iff)
  from GCLOOKUP_types [OF this] have "GetTypeNumber s' a = GetTypeNumber s5 a" .
  then show ?thesis using g by (simp add: GetTypeNumber_def GetTypeEntry_def)
qed

text \<open>The free chain of a type has a cell to give, outside the segments of the small numbers.\<close>

definition new_box :: "vm \<Rightarrow> DLword \<Rightarrow> LispPTR" where
  "new_box s type = dtd_free s (GetDTD type) AND POINTERMASK"

definition box_ready :: "vm \<Rightarrow> DLword \<Rightarrow> bool" where
  "box_ready s type \<longleftrightarrow> (let d = GetDTD type; c = new_box s type
     in dtd_size s d \<noteq> 0 \<and> c \<noteq> NIL \<and> cell_apart s d c \<and> RefCntP s c \<and> counts_ready s c DELREF \<and>
        GetTypeNumber s c = type \<and> SEGMASK AND c \<noteq> S_POSITIVE \<and> SEGMASK AND c \<noteq> S_NEGATIVE)"

lemma types_wr1 [simp]: "GetTypeNumber (wr a v s) b = GetTypeNumber s b"
  by (simp add: GetTypeNumber_def GetTypeEntry_def)

lemma box_cell_law:
  assumes "box_ready s type"
  shows "\<exists>s'. box_cell E type v s = Inr (new_box s type, s') \<and> rd s' (new_box s type) = v \<and>
    (\<forall>a. GetTypeNumber s' a = GetTypeNumber s a) \<and>
    gc_inv (gc s') \<and> rcview (gc s') (new_box s type) = rc_step DELREF (rcview (gc s) (new_box s type))"
proof -
  let ?d = "GetDTD type" and ?c = "new_box s type"
  have r: "dtd_size s ?d \<noteq> 0" "?c \<noteq> NIL" "cell_apart s ?d ?c" "RefCntP s ?c" "counts_ready s ?c DELREF"
    using assms by (simp_all add: box_ready_def Let_def)
  from take_cell_law [OF r(3-5), where bad = "0x8000000"] obtain s1 where
    s1: "take_cell 0x8000000 ?d ?c s = Inr (?c, s1)" "gc_inv (gc s1)"
      "rcview (gc s1) ?c = rc_step DELREF (rcview (gc s) ?c)" by auto
  have "createcell68k (storage_chk E) (dirty_arg E) type s = Inr (?c, s1)"
    using r(1,2) s1(1) by (simp add: createcell68k_def retry_cell_def Let_def new_box_def)
  then show ?thesis
    using s1 take_cell_types [OF s1(1)]
    by (intro exI [of _ "wr ?c v s1"]) (simp add: box_cell_def rd_wr)
qed

lemma seg_pos: "SEGMASK AND (S_POSITIVE OR a) = S_POSITIVE OR (SEGMASK AND a)"
  "SEGMASK AND (S_NEGATIVE OR a) = S_NEGATIVE OR (SEGMASK AND a)"
  by (simp_all add: bit.conj_disj_distrib lisp_const_defs)

lemma seg_split: "SEGMASK AND a = SEGMASK AND (a AND 0xFFFF0000)"
proof -
  have "SEGMASK AND (a AND 0xFFFF0000) = (SEGMASK AND 0xFFFF0000) AND a" by (simp only: ac_simps)
  also have "SEGMASK AND 0xFFFF0000 = SEGMASK" by (simp add: SEGMASK_def)
  finally show ?thesis by simp
qed

lemma word_halves: "(a AND 0xFFFF0000) OR (a AND 0xFFFF) = a" for a :: "32 word"
proof -
  have "(0xFFFF0000 :: 32 word) OR 0xFFFF = -1" by simp
  then show ?thesis by (metis and.right_neutral bit.conj_disj_distrib)
qed

lemma small_pos_parts:
  assumes "a AND 0xFFFF0000 = 0"
  shows "SEGMASK AND (S_POSITIVE OR a) = S_POSITIVE" "(S_POSITIVE OR a) AND 0xFFFF = a"
proof -
  have m: "SEGMASK AND a = 0" using seg_split [of a] assms by simp
  then show "SEGMASK AND (S_POSITIVE OR a) = S_POSITIVE" by (simp add: seg_pos)
  have l: "a AND 0xFFFF = a" using word_halves [of a] assms by simp
  show "(S_POSITIVE OR a) AND 0xFFFF = a"
    by (simp add: bit.conj_disj_distrib2 l) (simp add: S_POSITIVE_def)
qed

lemma small_pos_get:
  assumes "a AND 0xFFFF0000 = 0"
  shows "N_GETNUMBER s (S_POSITIVE OR a) = Some a" "N_IGETNUMBER E s (S_POSITIVE OR a) = Some a"
  by (simp_all add: N_GETNUMBER_def N_IGETNUMBER_def small_pos_parts [OF assms])

lemma small_neg_get:
  assumes "a AND 0xFFFF0000 = 0xFFFF0000"
  shows "N_GETNUMBER s (S_NEGATIVE OR (0xFFFF AND a)) = Some a"
    "N_IGETNUMBER E s (S_NEGATIVE OR (0xFFFF AND a)) = Some a"
proof -
  have m: "SEGMASK AND (0xFFFF AND a) = 0"
    using seg_split [of "0xFFFF AND a"] by (simp add: and.assoc [symmetric] and.commute [of _ "0xFFFF0000"])
  have l: "0xFFFF0000 OR (0xFFFF AND a) = a" using word_halves [of a] assms by (simp add: and.commute)
  have "(S_NEGATIVE OR (0xFFFF AND a)) OR 0xFFFF0000 = (S_NEGATIVE OR 0xFFFF0000) OR (0xFFFF AND a)"
    by (simp only: ac_simps)
  also have "S_NEGATIVE OR 0xFFFF0000 = 0xFFFF0000" by (simp add: S_NEGATIVE_def)
  finally have e: "(S_NEGATIVE OR (0xFFFF AND a)) OR 0xFFFF0000 = a" using l by simp
  show "N_GETNUMBER s (S_NEGATIVE OR (0xFFFF AND a)) = Some a"
    "N_IGETNUMBER E s (S_NEGATIVE OR (0xFFFF AND a)) = Some a"
    using e by (simp_all add: N_GETNUMBER_def N_IGETNUMBER_def seg_pos m) (simp_all add: S_NEGATIVE_def S_POSITIVE_def)
qed

definition small_int :: "32 word \<Rightarrow> bool" where
  "small_int v \<longleftrightarrow> MIN_SMALL \<le> sint v \<and> sint v \<le> MAX_SMALL"

lemma high_half_iff: "v AND 0xFFFF0000 = push_bit 16 (drop_bit 16 v)" for v :: "32 word"
proof -
  have m: "(0xFFFF0000 :: 32 word) = push_bit 16 (mask 16)" by (simp add: mask_eq_exp_minus_1)
  show ?thesis unfolding m
    by (intro bit_word_eqI) (auto simp: bit_and_iff bit_push_bit_iff bit_drop_bit_eq bit_mask_iff)
qed


lemma uint32_less: "uint v < 4294967296" for v :: "32 word"
  using uint_bounded [of v] by simp

lemma sint32: "sint v = (if uint v < 2 ^ 31 then uint v else uint v - 2 ^ 32)" for v :: "32 word"
proof -
  have r: "0 \<le> uint v" "uint v < 4294967296" by (simp_all add: uint32_less)
  have b: "bit (uint v) 31 \<longleftrightarrow> 2 ^ 31 \<le> uint v"
  proof -
    have "uint v div 2 ^ 31 = (if 2 ^ 31 \<le> uint v then 1 else 0)"
      using r by auto
    then show ?thesis by (simp add: bit_iff_odd)
  qed
  have "sint v = signed_take_bit 31 (uint v)" by (simp add: sint_uint)
  also have "\<dots> = take_bit 32 (uint v) - 2 ^ 32 * of_bool (bit (uint v) 31)"
    by (simp add: signed_take_bit_eq_take_bit_minus)
  also have "take_bit 32 (uint v) = uint v" using r by (simp add: take_bit_int_eq_self)
  finally show ?thesis using b by (simp split: if_splits)
qed

lemma uint_high_half: "uint (v AND 0xFFFF0000) = uint v div 65536 * 65536" for v :: "32 word"
proof -
  have r: "0 \<le> uint v" "uint v < 4294967296" by (simp_all add: uint32_less)
  then have "uint v div 65536 * 65536 < 4294967296" "0 \<le> uint v div 65536"
    by (auto simp: pos_imp_zdiv_nonneg_iff)
  then have "take_bit 32 (uint v div 65536 * 65536) = uint v div 65536 * 65536"
    by (intro take_bit_int_eq_self) simp_all
  moreover have "take_bit 32 (uint v) = uint v" using r by (intro take_bit_int_eq_self) simp_all
  moreover have "uint (push_bit 16 (drop_bit 16 v)) = take_bit 32 (push_bit 16 (drop_bit 16 (take_bit 32 (uint v))))"
    by (simp only: unsigned_push_bit_eq unsigned_drop_bit_eq) simp
  ultimately show ?thesis
    unfolding high_half_iff by (simp only: push_bit_eq_mult drop_bit_eq_div) simp
qed

lemma arith_switch_cases:
  fixes v :: "32 word"
  shows "v AND 0xFFFF0000 = 0 \<longleftrightarrow> 0 \<le> sint v \<and> sint v \<le> MAX_SMALL"
    and "v AND 0xFFFF0000 = 0xFFFF0000 \<longleftrightarrow> MIN_SMALL \<le> sint v \<and> sint v < 0"
proof -
  have r: "0 \<le> uint v" "uint v < 4294967296" by (simp_all add: uint32_less)
  have "v AND 0xFFFF0000 = 0 \<longleftrightarrow> uint v div 65536 = 0"
    unfolding word_uint_eq_iff uint_high_half by simp
  then show "v AND 0xFFFF0000 = 0 \<longleftrightarrow> 0 \<le> sint v \<and> sint v \<le> MAX_SMALL"
    unfolding sint32 MAX_SMALL_def using r by (auto split: if_splits)
  have "v AND 0xFFFF0000 = 0xFFFF0000 \<longleftrightarrow> uint v div 65536 = 65535"
    unfolding word_uint_eq_iff uint_high_half by simp
  then show "v AND 0xFFFF0000 = 0xFFFF0000 \<longleftrightarrow> MIN_SMALL \<le> sint v \<and> sint v < 0"
    unfolding sint32 MIN_SMALL_def using r by (auto split: if_splits)
qed

text \<open>A number as a result: the object that stands for it, in the state the opcode leaves.\<close>

definition number_result :: "(LispPTR \<times> vm) res \<Rightarrow> 32 word \<Rightarrow> vm \<Rightarrow> bool" where
  "number_result r v s \<longleftrightarrow>
     (\<exists>p s'. r = Inr (p, s') \<and> N_GETNUMBER s' p = Some v \<and> (\<forall>E. N_IGETNUMBER E s' p = Some v) \<and>
        (if small_int v then s' = s
         else p = new_box s TYPE_FIXP \<and> rd s' p = v \<and> (\<forall>a. GetTypeNumber s' a = GetTypeNumber s a)))"

lemma arith_switch_number:
  assumes "small_int v \<or> box_ready s TYPE_FIXP"
  shows "number_result (N_ARITH_SWITCH E v s) v s"
proof -
  consider "v AND 0xFFFF0000 = 0" | "v AND 0xFFFF0000 = 0xFFFF0000"
    | "v AND 0xFFFF0000 \<noteq> 0" "v AND 0xFFFF0000 \<noteq> 0xFFFF0000" by blast
  then show ?thesis
  proof cases
    case 1
    then have "small_int v" using arith_switch_cases(1) [of v] by (simp add: small_int_def MIN_SMALL_def)
    then show ?thesis using 1 small_pos_get [OF 1] by (simp add: number_result_def N_ARITH_SWITCH_def)
  next
    case 2
    then have "small_int v" using arith_switch_cases(2) [of v] by (simp add: small_int_def MAX_SMALL_def)
    then show ?thesis using 2 small_neg_get [OF 2] by (simp add: number_result_def N_ARITH_SWITCH_def)
  next
    case 3
    then have n: "\<not> small_int v" using arith_switch_cases [of v] by (auto simp: small_int_def)
    then have b: "box_ready s TYPE_FIXP" using assms by simp
    have e: "N_ARITH_SWITCH E v s = box_cell E TYPE_FIXP v s" using 3 by (simp add: N_ARITH_SWITCH_def)
    let ?c = "new_box s TYPE_FIXP"
    from box_cell_law [OF b, of E v] obtain s' where
      s': "box_cell E TYPE_FIXP v s = Inr (?c, s')" "rd s' ?c = v" "\<forall>a. GetTypeNumber s' a = GetTypeNumber s a"
      by blast
    have "N_GETNUMBER s' ?c = Some v" "N_IGETNUMBER E s' ?c = Some v" for E
      using b s'(2,3) by (simp_all add: box_ready_def Let_def N_GETNUMBER_def N_IGETNUMBER_def)
    then show ?thesis unfolding e number_result_def using s' n by auto
  qed
qed


section \<open>Overflow\<close>

lemma sint_wrap: "sint (word_of_int i :: 32 word) = (i + 2 ^ 31) mod 2 ^ 32 - 2 ^ 31"
  by (subst int_word_sint) simp

lemma sint_fits: "fits i \<Longrightarrow> sint (word_of_int i :: 32 word) = i"
  unfolding sint_wrap fits_def by simp

lemma fits_sint: "fits (sint v)" for v :: "32 word"
  using sint_ge [of v] sint_lt [of v] by (simp add: fits_def)

lemma sint_over:
  "2 ^ 31 \<le> i \<Longrightarrow> i < 2 ^ 32 \<Longrightarrow> sint (word_of_int i :: 32 word) = i - 2 ^ 32"
  "- (2 ^ 32) \<le> i \<Longrightarrow> i < - (2 ^ 31) \<Longrightarrow> sint (word_of_int i :: 32 word) = i + 2 ^ 32"
proof -
  assume i: "2 ^ 31 \<le> i" "i < 2 ^ 32"
  have "i + 2 ^ 31 = i - 2 ^ 31 + 2 ^ 32" by simp
  then have "(i + 2 ^ 31) mod 2 ^ 32 = (i - 2 ^ 31 + 2 ^ 32) mod 2 ^ 32" by (rule arg_cong)
  also have "\<dots> = i - 2 ^ 31" unfolding mod_add_self2 using i by (intro mod_pos_pos_trivial) simp_all
  finally show "sint (word_of_int i :: 32 word) = i - 2 ^ 32" unfolding sint_wrap by simp
next
  assume i: "- (2 ^ 32) \<le> i" "i < - (2 ^ 31)"
  have "(i + 2 ^ 31) mod 2 ^ 32 = (i + 2 ^ 31 + 2 ^ 32) mod 2 ^ 32" by (simp only: mod_add_self2)
  also have "\<dots> = i + 2 ^ 31 + 2 ^ 32" using i by (intro mod_pos_pos_trivial) simp_all
  finally show "sint (word_of_int i :: 32 word) = i + 2 ^ 32" unfolding sint_wrap by simp
qed

lemma nonneg_sint: "nonneg v \<longleftrightarrow> 0 \<le> sint v"
  using bit_last_iff [of v] by (simp add: nonneg_def not_less)

lemma word_sums:
  fixes a b :: "32 word"
  shows "a + b = word_of_int (sint a + sint b)" "a - b = word_of_int (sint a - sint b)"
    "a * b = word_of_int (sint a * sint b)"
  by simp_all

text \<open>The three checks, in either configuration, give the exact result or nothing.\<close>

lemma check_sign:
  assumes "- (2 ^ 32) \<le> i" "i < 2 ^ 32"
  shows "sint (word_of_int i :: 32 word) = (if fits i then i else if i < 0 then i + 2 ^ 32 else i - 2 ^ 32)"
proof -
  consider "fits i" | "\<not> fits i" "i < 0" | "\<not> fits i" "0 \<le> i" by linarith
  then show ?thesis
  proof cases
    case 1
    then show ?thesis by (simp add: sint_fits)
  next
    case 2
    then show ?thesis using assms sint_over(2) [of i] by (simp add: fits_def)
  next
    case 3
    then show ?thesis using assms sint_over(1) [of i] by (simp add: fits_def)
  qed
qed

definition wrapped :: "int \<Rightarrow> int" where
  "wrapped i = (if fits i then i else if i < 0 then i + 2 ^ 32 else i - 2 ^ 32)"

lemma sint_sums:
  fixes a b :: "32 word"
  shows "sint (a + b) = wrapped (sint a + sint b)" "sint (a - b) = wrapped (sint a - sint b)"
proof -
  have r: "fits (sint a)" "fits (sint b)" by (rule fits_sint)+
  show "sint (a + b) = wrapped (sint a + sint b)"
    unfolding word_sums(1) wrapped_def using r by (intro check_sign) (simp_all add: fits_def)
  show "sint (a - b) = wrapped (sint a - sint b)"
    unfolding word_sums(2) wrapped_def using r by (intro check_sign) (simp_all add: fits_def)
qed

lemma sign_tests:
  assumes "fits a" "fits b"
  shows "((0 \<le> a) = (0 \<le> b) \<and> (0 \<le> wrapped (a + b)) \<noteq> (0 \<le> a)) \<longleftrightarrow> \<not> fits (a + b)"
    and "((0 \<le> a) = (\<not> 0 \<le> b) \<and> (0 \<le> wrapped (a - b)) \<noteq> (0 \<le> a)) \<longleftrightarrow> \<not> fits (a - b)"
    and "0 \<le> b \<Longrightarrow> (\<not> 0 \<le> wrapped (a + b) \<and> 0 \<le> a) \<longleftrightarrow> \<not> fits (a + b)"
    and "0 \<le> b \<Longrightarrow> (0 \<le> wrapped (a - b) \<and> \<not> 0 \<le> a) \<longleftrightarrow> \<not> fits (a - b)"
  using assms unfolding wrapped_def fits_def by (simp_all split: if_splits) linarith+

lemma add_check_exact:
  "add_check bi a b = (if fits (sint a + sint b) then Some (word_of_int (sint a + sint b)) else None)"
  using sign_tests(1) [OF fits_sint fits_sint, of a b]
  by (auto simp: add_check_def Let_def nonneg_sint sint_sums)

lemma sub_check_exact:
  "sub_check bi a b = (if fits (sint a - sint b) then Some (word_of_int (sint a - sint b)) else None)"
  using sign_tests(2) [OF fits_sint fits_sint, of a b]
  by (auto simp: sub_check_def Let_def nonneg_sint sint_sums)

text \<open>The one-sided tests are enough for the byte operand of their opcodes.\<close>

lemma addn_check_exact:
  "0 \<le> sint n \<Longrightarrow>
   addn_check bi a n = (if fits (sint a + sint n) then Some (word_of_int (sint a + sint n)) else None)"
  by (simp add: addn_check_def Let_def nonneg_sint sint_sums sign_tests(3) fits_sint)

lemma subn_check_exact:
  "0 \<le> sint n \<Longrightarrow>
   subn_check bi a n = (if fits (sint a - sint n) then Some (word_of_int (sint a - sint n)) else None)"
  by (simp add: subn_check_def Let_def nonneg_sint sint_sums sign_tests(4) fits_sint)


section \<open>Division and multiplication\<close>

lemma MIN_FIXP_sint: "a = MIN_FIXP \<longleftrightarrow> sint a = - (2 ^ 31)"
proof -
  have "sint MIN_FIXP = - (2 ^ 31)" by (simp add: MIN_FIXP_def)
  then show ?thesis by (metis signed_word_eqI)
qed

lemma sint_minus_one_iff: "b = -1 \<longleftrightarrow> sint b = -1" for b :: "32 word"
proof -
  have "sint (-1 :: 32 word) = -1" by simp
  then show ?thesis by (metis signed_word_eqI)
qed

lemma sint_zero_iff: "b = 0 \<longleftrightarrow> sint b = 0" for b :: "32 word"
  by (metis signed_0 signed_word_eqI)

lemma sdiv_fits:
  assumes "fits a" "fits b" "\<not> (a = - (2 ^ 31) \<and> b = -1)"
  shows "fits (a sdiv b)"
proof -
  have r: "\<bar>a sdiv b\<bar> \<le> \<bar>a\<bar>" using sdiv_int_range [of a b] by auto
  show ?thesis
  proof (cases "a = - (2 ^ 31)")
    case False
    then show ?thesis using r assms(1) unfolding fits_def by linarith
  next
    case True
    have "a sdiv b \<noteq> 2 ^ 31"
    proof
      assume e: "a sdiv b = 2 ^ 31"
      then have "a sdiv b = - a" using True by simp
      then have "b = -1" using int_sdiv_negated_is_minus1 [of a b] True by simp
      then show False using assms(3) True by blast
    qed
    moreover have "\<bar>a\<bar> = 2 ^ 31" using True by simp
    ultimately show ?thesis using r unfolding fits_def by linarith
  qed
qed

lemma smod_fits: "fits b \<Longrightarrow> fits a \<Longrightarrow> fits (a smod b)"
  using smod_int_range [of b a] by (cases "b = 0") (auto simp: fits_def)

lemma c_div_exact:
  assumes "\<not> (a = MIN_FIXP \<and> b = -1)"
  shows "\<exists>q. c_div a b = Inr q \<and> sint q = sint a sdiv sint b"
  using assms sint_fits [OF sdiv_fits [OF fits_sint fits_sint, of a b]]
  by (simp add: c_div_def MIN_FIXP_sint sint_minus_one_iff)

lemma c_rem_exact:
  assumes "\<not> (a = MIN_FIXP \<and> b = -1)"
  shows "\<exists>r. c_rem a b = Inr r \<and> sint r = sint a smod sint b"
  using assms sint_fits [OF smod_fits [OF fits_sint fits_sint, of a b]]
  by (simp add: c_rem_def)

lemma sint_product: "\<exists>k. sint (a * b) = sint a * sint b - 2 ^ 32 * k" for a b :: "32 word"
proof -
  have "sint (a * b) = (sint a * sint b + 2 ^ 31) mod 2 ^ 32 - 2 ^ 31"
    unfolding word_sums(3) by (rule sint_wrap)
  then have "sint (a * b) = sint a * sint b - 2 ^ 32 * ((sint a * sint b + 2 ^ 31) div 2 ^ 32)"
    by (simp add: minus_mult_div_eq_mod [symmetric])
  then show ?thesis by blast
qed

lemma quotient_test:
  fixes a b :: "32 word"
  assumes "b \<noteq> 0"
  shows "sint (a * b) sdiv sint b = sint a \<longleftrightarrow> fits (sint a * sint b)"
proof
  assume "fits (sint a * sint b)"
  then have e: "sint (a * b) = sint a * sint b" unfolding word_sums(3) by (rule sint_fits)
  have nz: "sint b \<noteq> 0" using assms by (simp add: sint_zero_iff)
  have "\<bar>sint a * sint b\<bar> div \<bar>sint b\<bar> = \<bar>sint a\<bar>" using nz by (simp add: abs_mult)
  moreover have "sgn (sint a * sint b) * sgn (sint b) = sgn (sint a)"
    using nz by (cases "sint b > 0") (simp_all add: sgn_mult)
  ultimately show "sint (a * b) sdiv sint b = sint a"
    unfolding e signed_divide_int_def by (simp only: sgn_mult_abs)
next
  assume q: "sint (a * b) sdiv sint b = sint a"
  have nz: "sint b \<noteq> 0" using assms by (simp add: sint_zero_iff)
  obtain k where k: "sint (a * b) = sint a * sint b - 2 ^ 32 * k" using sint_product by blast
  define m where "m = sint (a * b) smod sint b"
  have "sint (a * b) = sint a * sint b + m"
    using sdiv_mult_smod_eq [of "sint (a * b)" "sint b"] q by (simp add: m_def)
  then have mk: "m = - (2 ^ 32 * k)" using k by simp
  have "\<bar>m\<bar> < \<bar>sint b\<bar>" using smod_int_range [OF nz, of "sint (a * b)"] by (auto simp: m_def)
  moreover have "\<bar>sint b\<bar> \<le> 2 ^ 31" using fits_sint [of b] by (auto simp: fits_def)
  ultimately have "\<bar>2 ^ 32 * k\<bar> < 2 ^ 32" using mk by simp
  then have "k = 0" by (simp add: abs_mult)
  then show "fits (sint a * sint b)" using k fits_sint [of "a * b"] by simp
qed

lemma mul_check_exact:
  assumes "bi \<or> \<not> (a = MIN_FIXP \<and> b = -1)"
  shows "mul_check bi a b = Inr (if fits (sint a * sint b) then Some (a * b) else None)"
proof (cases "bi \<or> b = 0")
  case True
  then show ?thesis by (auto simp: mul_check_def fits_def)
next
  case False
  then have nz: "b \<noteq> 0" and "\<not> bi" by simp_all
  have "\<not> (a * b = MIN_FIXP \<and> b = -1)"
  proof
    assume m: "a * b = MIN_FIXP \<and> b = -1"
    then have "a = - MIN_FIXP" by (metis mult_minus1_right minus_minus)
    then have "a = MIN_FIXP" by (simp add: MIN_FIXP_def)
    then show False using assms m \<open>\<not> bi\<close> by blast
  qed
  then obtain q where q: "c_div (a * b) b = Inr q" "sint q = sint (a * b) sdiv sint b"
    using c_div_exact [of "a * b" b] by blast
  have "q = a \<longleftrightarrow> fits (sint a * sint b)"
    using quotient_test [OF nz, of a] q(2) by (metis signed_word_eqI)
  then show ?thesis using q(1) nz \<open>\<not> bi\<close> by (simp add: mul_check_def Let_def)
qed


section \<open>Properties of the integer opcodes\<close>

definition portable :: "calc \<Rightarrow> calc" where "portable E = E\<lparr>overflow_builtins := False\<rparr>"
definition builtin :: "calc \<Rightarrow> calc" where "builtin E = E\<lparr>overflow_builtins := True\<rparr>"

lemma builtins_irrelevant [simp]:
  "N_ARITH_SWITCH (E\<lparr>overflow_builtins := bi\<rparr>) = N_ARITH_SWITCH E"
  "N_IGETNUMBER (E\<lparr>overflow_builtins := bi\<rparr>) = N_IGETNUMBER E"
  "N_OP_fplus2 (E\<lparr>overflow_builtins := bi\<rparr>) = N_OP_fplus2 E"
  "N_OP_fdifference (E\<lparr>overflow_builtins := bi\<rparr>) = N_OP_fdifference E"
proof -
  have b: "box_cell (E\<lparr>overflow_builtins := bi\<rparr>) = box_cell E"
    by (intro ext) (simp add: box_cell_def)
  have f: "N_MakeFloat (E\<lparr>overflow_builtins := bi\<rparr>) = N_MakeFloat E"
    by (intro ext) (simp add: N_MakeFloat_def)
  show "N_ARITH_SWITCH (E\<lparr>overflow_builtins := bi\<rparr>) = N_ARITH_SWITCH E"
    by (intro ext) (simp add: N_ARITH_SWITCH_def b)
  show "N_IGETNUMBER (E\<lparr>overflow_builtins := bi\<rparr>) = N_IGETNUMBER E"
    by (intro ext) (simp add: N_IGETNUMBER_def float_to_int_def)
  show "N_OP_fplus2 (E\<lparr>overflow_builtins := bi\<rparr>) = N_OP_fplus2 E"
    by (intro ext) (unfold N_OP_fplus2_def float_op_def b f, simp)
  show "N_OP_fdifference (E\<lparr>overflow_builtins := bi\<rparr>) = N_OP_fdifference E"
    by (intro ext) (unfold N_OP_fdifference_def float_op_def b f, simp)
qed

text \<open>
  An opcode is exact when it hands over to Lisp where the mathematical result does not fit in 32
  bits, and returns an object for that number where it does.
\<close>

definition exact_int :: "(LispPTR \<times> vm) res \<Rightarrow> int \<Rightarrow> LispPTR \<Rightarrow> vm \<Rightarrow> bool" where
  "exact_int r i tos s \<longleftrightarrow>
     (if fits i then \<exists>v. sint v = i \<and> number_result r v s else r = Inl (Ufn tos))"

lemma exact_switch:
  assumes "box_ready s TYPE_FIXP"
  shows "exact_int (case (if fits i then Some (word_of_int i) else None) of
      None \<Rightarrow> Inl (Ufn tos) | Some v \<Rightarrow> N_ARITH_SWITCH E v s) i tos s"
  using arith_switch_number [of "word_of_int i" s E] assms sint_fits [of i]
  by (auto simp: exact_int_def)

text \<open>
  C12. A number made into a Lisp object by the macro that ends every integer opcode reads back as
  the same number: as one of the two ranges of small numbers, without touching the state, or in a
  new box taken from the free chain of the FIXP type.
\<close>

theorem number_roundtrip:
  assumes "box_ready s TYPE_FIXP"
  shows "number_result (N_ARITH_SWITCH E v s) v s"
  using arith_switch_number assms by blast

text \<open>
  C13. \<open>PLUS2\<close>, \<open>DIFFERENCE\<close> and \<open>TIMES2\<close> on two integers return the exact sum,
  difference or product when it fits in 32 bits and hand over to Lisp when it does not, with the
  compiler's overflow builtins.
\<close>

theorem integer_opcodes_exact:
  assumes "N_GETNUMBER s x = Some a" "N_GETNUMBER s y = Some b" "box_ready s TYPE_FIXP" "overflow_builtins E"
  shows "exact_int (N_OP_plus2 E x y s) (sint a + sint b) y s \<and>
    exact_int (N_OP_difference E x y s) (sint a - sint b) y s \<and>
    exact_int (N_OP_times2 E x y s) (sint a * sint b) y s"
proof (intro conjI)
  have m: "mul_check True a b = Inr (if fits (sint a * sint b) then Some (word_of_int (sint a * sint b)) else None)"
    using mul_check_exact [of True a b] by simp
  show "exact_int (N_OP_plus2 E x y s) (sint a + sint b) y s"
    using exact_switch [OF assms(3), where i = "sint a + sint b" and tos = y and E = E] assms(1,2)
    by (simp only: N_OP_plus2_def two_numbers_def option.case add_check_exact add.commute)
  show "exact_int (N_OP_difference E x y s) (sint a - sint b) y s"
    using exact_switch [OF assms(3), where i = "sint a - sint b" and tos = y and E = E] assms(1,2)
    by (simp only: N_OP_difference_def two_numbers_def option.case sub_check_exact)
  show "exact_int (N_OP_times2 E x y s) (sint a * sint b) y s"
    using exact_switch [OF assms(3), where i = "sint a * sint b" and tos = y and E = E] assms(1,2,4) m
    by (simp only: N_OP_times2_def two_numbers_def option.case rbind_simps simp_thms)
qed

text \<open>
  C14. The two branches of \<open>#ifdef USE_OVERFLOW_BUILTINS\<close> are the same function on every pair
  of arguments and every state for sums and differences, for \<open>IPLUS.N\<close> and
  \<open>IDIFFERENCE.N\<close> with the byte operand they get, and for \<open>ITIMES2\<close> except where the
  portable test itself divides \<open>MIN_FIXP\<close> by -1.
\<close>

theorem overflow_tests_agree:
  "N_OP_plus2 (portable E) x y s = N_OP_plus2 (builtin E) x y s \<and>
    N_OP_iplus2 (portable E) x y s = N_OP_iplus2 (builtin E) x y s \<and>
    N_OP_difference (portable E) x y s = N_OP_difference (builtin E) x y s \<and>
    N_OP_idifference (portable E) x y s = N_OP_idifference (builtin E) x y s \<and>
    N_OP_iplusn (portable E) y (ucast (n :: 8 word)) s = N_OP_iplusn (builtin E) y (ucast n) s \<and>
    N_OP_idifferencen (portable E) y (ucast n) s = N_OP_idifferencen (builtin E) y (ucast n) s \<and>
    (N_OP_itimes2 (portable E) x y s = N_OP_itimes2 (builtin E) x y s \<or>
     N_IGETNUMBER E s x = Some MIN_FIXP \<and> N_IGETNUMBER E s y = Some (-1) \<and>
     N_OP_itimes2 (portable E) x y s = Inl (Fatal ''integer division overflow''))"
proof -
  have n: "0 \<le> sint (ucast n :: 32 word)"
  proof -
    have "uint (ucast n :: 32 word) < 256" using uint_bounded [of n] by (simp add: uint_up_ucast is_up)
    then show ?thesis by (simp add: sint32)
  qed
  have m: "mul_check True a b = Inr (if fits (sint a * sint b) then Some (a * b) else None)" for a b
    by (rule mul_check_exact) simp
  have t: "mul_check False MIN_FIXP (-1) = Inl (Fatal ''integer division overflow'')"
    by (simp add: mul_check_def c_div_def MIN_FIXP_def)
  have times: "N_OP_itimes2 (portable E) x y s = N_OP_itimes2 (builtin E) x y s \<or>
     N_IGETNUMBER E s x = Some MIN_FIXP \<and> N_IGETNUMBER E s y = Some (-1) \<and>
     N_OP_itimes2 (portable E) x y s = Inl (Fatal ''integer division overflow'')"
  proof (cases "N_IGETNUMBER E s x = Some MIN_FIXP \<and> N_IGETNUMBER E s y = Some (-1)")
    case True
    then show ?thesis by (simp add: portable_def builtin_def N_OP_itimes2_def two_numbers_def t)
  next
    case False
    then have "mul_check False a b = mul_check True a b"
      if "N_IGETNUMBER E s x = Some a" "N_IGETNUMBER E s y = Some b" for a b
      using that mul_check_exact [of False a b] by (auto simp: m)
    then have "N_OP_itimes2 (portable E) x y s = N_OP_itimes2 (builtin E) x y s"
      by (simp add: portable_def builtin_def N_OP_itimes2_def two_numbers_def split: option.split)
    then show ?thesis ..
  qed
  show ?thesis
    by (intro conjI times;
        unfold portable_def builtin_def N_OP_plus2_def N_OP_iplus2_def N_OP_difference_def N_OP_idifference_def
          N_OP_iplusn_def N_OP_idifferencen_def add_check_exact sub_check_exact
          addn_check_exact [OF n] subn_check_exact [OF n] builtins_irrelevant; rule refl)
qed

text \<open>
  \<open>IQUOTIENT\<close> and \<open>IREMAINDER\<close> divide with truncation: the quotient times the
  divisor plus the remainder is the dividend, the remainder is smaller than the divisor and has
  the sign of the dividend. Division by zero hands over to Lisp.
\<close>

theorem quotient_remainder:
  assumes "N_IGETNUMBER E s x = Some a" "N_IGETNUMBER E s y = Some b" "box_ready s TYPE_FIXP"
    and "\<not> (a = MIN_FIXP \<and> b = -1)"
  shows "if b = 0 then N_OP_iquot E x y s = Inl (Ufn y) \<and> N_OP_iremainder E x y s = Inl (Ufn y)
    else \<exists>q r. number_result (N_OP_iquot E x y s) q s \<and> number_result (N_OP_iremainder E x y s) r s \<and>
      sint q * sint b + sint r = sint a \<and> \<bar>sint r\<bar> < \<bar>sint b\<bar> \<and>
      (sint r = 0 \<or> sgn (sint r) = sgn (sint a))"
proof (cases "b = 0")
  case True
  then show ?thesis using assms(1,2) by (simp add: N_OP_iquot_def N_OP_iremainder_def two_numbers_def)
next
  case False
  obtain q r where q: "c_div a b = Inr q" "sint q = sint a sdiv sint b"
    and r: "c_rem a b = Inr r" "sint r = sint a smod sint b"
    using c_div_exact [OF assms(4)] c_rem_exact [OF assms(4)] by blast
  have nz: "sint b \<noteq> 0" using False by (simp add: sint_zero_iff)
  have "N_OP_iquot E x y s = N_ARITH_SWITCH E q s" "N_OP_iremainder E x y s = N_ARITH_SWITCH E r s"
    using assms(1,2) False q(1) r(1) by (simp_all add: N_OP_iquot_def N_OP_iremainder_def two_numbers_def)
  moreover have "sint q * sint b + sint r = sint a" unfolding q(2) r(2) by (rule sdiv_mult_smod_eq)
  moreover have "\<bar>sint r\<bar> < \<bar>sint b\<bar>" unfolding r(2) using smod_int_range [OF nz, of "sint a"] by auto
  moreover have "sint r = 0 \<or> sgn (sint r) = sgn (sint a)"
  proof -
    have "0 \<le> \<bar>sint a\<bar> mod \<bar>sint b\<bar>" using nz by simp
    then have "\<bar>sint a\<bar> mod \<bar>sint b\<bar> = 0 \<or> sgn (\<bar>sint a\<bar> mod \<bar>sint b\<bar>) = 1"
      by (simp only: sgn_1_pos le_less) auto
    then show ?thesis unfolding r(2) smod_int_alt_def by (auto simp: sgn_mult)
  qed
  moreover have "number_result (N_ARITH_SWITCH E q s) q s" "number_result (N_ARITH_SWITCH E r s) r s"
    using arith_switch_number assms(3) by blast+
  ultimately show ?thesis unfolding if_not_P [OF False]
    by (intro exI [of _ q] exI [of _ r] conjI) simp_all
qed


section \<open>Shifts\<close>

lemma sint_signed_drop: "sint (signed_drop_bit n w) = sint w div 2 ^ n" for w :: "32 word"
proof -
  have "- (2 ^ 31) \<le> sint w div 2 ^ n \<and> sint w div 2 ^ n < 2 ^ 31"
  proof -
    have s: "- (2 ^ 31) \<le> sint w" "sint w < 2 ^ 31" using fits_sint [of w] by (auto simp: fits_def)
    have p: "(1 :: int) \<le> 2 ^ n" by simp
    have "sint w div 2 ^ n \<le> max 0 (sint w)"
      using p by (cases "0 \<le> sint w") (auto intro: order_trans [OF zdiv_mono2 [of _ 1]] simp: div_neg_pos_less0 less_imp_le)
    moreover have "min 0 (sint w) \<le> sint w div 2 ^ n"
    proof (cases "0 \<le> sint w")
      case False
      then have "sint w * 2 ^ n \<le> sint w * 1" using p by (intro mult_left_mono_neg) auto
      then have "sint w * 2 ^ n div 2 ^ n \<le> sint w div 2 ^ n" by (intro zdiv_mono1) simp_all
      then show ?thesis by simp
    qed (simp add: pos_imp_zdiv_nonneg_iff)
    ultimately show ?thesis using s by linarith
  qed
  then have "fits (sint w div 2 ^ n)" by (simp add: fits_def)
  moreover have "signed_drop_bit n w = word_of_int (sint w div 2 ^ n)"
    by transfer (simp add: drop_bit_eq_div)
  ultimately show ?thesis by (simp add: sint_fits)
qed

lemma left_shift_test:
  fixes v :: "32 word"
  assumes "n \<le> 31"
  shows "signed_drop_bit n (push_bit n v) = v \<longleftrightarrow> fits (sint v * 2 ^ n)"
    and "push_bit n v = word_of_int (sint v * 2 ^ n)"
proof -
  show p: "push_bit n v = word_of_int (sint v * 2 ^ n)" by (simp add: push_bit_eq_mult)
  let ?p = "sint v * 2 ^ n" and ?k = "(sint v * 2 ^ n + 2 ^ 31) div 2 ^ 32"
  have s: "sint (push_bit n v) = ?p - 2 ^ 32 * ?k"
    unfolding p sint_wrap by (simp add: minus_mult_div_eq_mod [symmetric])
  have "(2 :: int) ^ 32 = 2 ^ n * 2 ^ (32 - n)" using assms by (simp flip: power_add)
  then have "sint (push_bit n v) = 2 ^ n * (sint v - 2 ^ (32 - n) * ?k)"
    unfolding s by (simp add: algebra_simps)
  then have d: "sint (signed_drop_bit n (push_bit n v)) = sint v - 2 ^ (32 - n) * ?k"
    unfolding sint_signed_drop by simp
  have "signed_drop_bit n (push_bit n v) = v \<longleftrightarrow> sint (signed_drop_bit n (push_bit n v)) = sint v"
    by (auto intro: signed_word_eqI)
  also have "\<dots> \<longleftrightarrow> ?k = 0" unfolding d by simp
  also have "\<dots> \<longleftrightarrow> fits ?p"
  proof
    assume "?k = 0"
    then have "sint (push_bit n v) = ?p" using s by simp
    then show "fits ?p" using fits_sint [of "push_bit n v"] by simp
  next
    assume "fits ?p"
    then have "0 \<le> ?p + 2 ^ 31" "?p + 2 ^ 31 < 2 ^ 32" by (simp_all add: fits_def)
    then show "?k = 0" by (rule div_pos_pos_trivial)
  qed
  finally show "signed_drop_bit n (push_bit n v) = v \<longleftrightarrow> fits ?p" .
qed

text \<open>
  C15. \<open>LSH\<close> multiplies by a power of two exactly or hands over to Lisp; shifts right with the
  sign, rounding down; returns its argument itself for a shift of zero; and hands over to Lisp for
  a shift of 32 or more in either direction.
\<close>

theorem lsh_exact:
  assumes "N_GETNUMBER s b = Some k" "N_GETNUMBER s a = Some v" "box_ready s TYPE_FIXP"
  shows "if sint k = 0 then N_OP_lsh E a b s = Inr (a, s)
    else if \<bar>sint k\<bar> > 31 then N_OP_lsh E a b s = Inl (Ufn b)
    else if sint k > 0 then exact_int (N_OP_lsh E a b s) (sint v * 2 ^ nat (sint k)) b s
    else exact_int (N_OP_lsh E a b s) (sint v div 2 ^ nat (- sint k)) b s"
proof -
  consider "sint k = 0" | "\<bar>sint k\<bar> > 31" | "0 < sint k" "sint k \<le> 31" | "sint k < 0" "- sint k \<le> 31"
    by linarith
  then show ?thesis
  proof cases
    case 3
    then have n: "nat (sint k) \<le> 31" by simp
    have "N_OP_lsh E a b s =
        (case (if fits (sint v * 2 ^ nat (sint k)) then Some (word_of_int (sint v * 2 ^ nat (sint k))) else None) of
           None \<Rightarrow> Inl (Ufn b) | Some w \<Rightarrow> N_ARITH_SWITCH E w s)"
      using 3 assms(1,2) left_shift_test(1) [OF n, of v]
      by (simp add: N_OP_lsh_def two_numbers_def Let_def left_shift_test(2) [OF n])
    then show ?thesis using 3 exact_switch [OF assms(3)] by simp
  next
    case 4
    let ?w = "signed_drop_bit (nat (- sint k)) v"
    have "N_OP_lsh E a b s = N_ARITH_SWITCH E ?w s"
      using 4 assms(1,2) by (simp add: N_OP_lsh_def two_numbers_def Let_def)
    then have "exact_int (N_OP_lsh E a b s) (sint ?w) b s"
      using arith_switch_number [of ?w s E] assms(3) fits_sint [of ?w] by (auto simp: exact_int_def)
    then show ?thesis using 4 by (simp add: sint_signed_drop)
  qed (use assms(1,2) in \<open>auto simp: N_OP_lsh_def two_numbers_def\<close>)
qed


section \<open>Floats as integers\<close>

text \<open>
  The range test before a float is converted to an integer compares with \<open>2 ^ 31\<close> on both
  sides: every float below \<open>2 ^ 31\<close>, so every float an integer could be made from, is rejected,
  and the integer opcodes hand such an argument over to Lisp.
\<close>

theorem floats_rejected:
  assumes "GetTypeNumber s x = TYPE_FLOATP" "SEGMASK AND x \<noteq> S_POSITIVE" "SEGMASK AND x \<noteq> S_NEGATIVE"
    and "f_gt F_2_31 (rd s x)"
  shows "N_IGETNUMBER E s x = None \<and> N_OP_iplus2 E x y s = Inl (Ufn y) \<and>
    N_OP_idifference E x y s = Inl (Ufn y) \<and> N_OP_logand E x y s = Inl (Ufn y) \<and>
    N_OP_ubfloat1 E (rd s x) 4 s = Inl (Ufn (rd s x))"
proof -
  have "float_to_int E (rd s x) = None" using assms(4) by (simp add: float_to_int_def)
  moreover from this have "N_IGETNUMBER E s x = None"
    using assms(1-3) by (simp add: N_IGETNUMBER_def TYPE_FLOATP_def TYPE_FIXP_def)
  ultimately show ?thesis
    by (simp add: N_OP_iplus2_def N_OP_idifference_def N_OP_logand_def N_OP_ubfloat1_def two_numbers_def
        split: option.split)
qed

section \<open>On a concrete state\<close>

text \<open>A page of FIXP cells at 0x400000, two of them free, and one FLOATP page at 0x500000 with 1.0.\<close>

definition vm_num :: vm where
  "vm_num = vm_fixp\<lparr>mem := (mem vm_fixp)(0x500000 := 0x3F800000, 0x400040 := 0x40000000),
     gc := (gc vm_fixp)\<lparr>mds_typetbl := (\<lambda>i. if i = 0x2000 then 2 else if i = 0x2800 then 3 else 0)\<rparr>\<rparr>"

lemma typetbl_irrelevant:
  "gc_inv (gctab0\<lparr>mds_typetbl := t\<rparr>)" "two_links (gctab0\<lparr>mds_typetbl := t\<rparr>)"
  "big_room (gctab0\<lparr>mds_typetbl := t\<rparr>)" "rcview (gctab0\<lparr>mds_typetbl := t\<rparr>) p = (1, False)"
proof -
  let ?g = "gctab0\<lparr>mds_typetbl := t\<rparr>"
  have bo: "big_ok gctab0 0" "big_ok ?g 0"
    by (simp_all add: big_ok_def gctab0_def BIGLIMIT_def MDS_OFFSET_def HTBIG_OFFSET_def)
  have e: "entry_of ?g p = entry_of gctab0 p" "bigcount ?g p = bigcount gctab0 p" for p
    using bigmap_out [OF bo(1)] bigmap_out [OF bo(2)] by (simp_all add: entry_of_def bigcount_def)
  show "gc_inv ?g" using gctab0_inv(1) bo(2) unfolding gc_inv_def e by auto
  show "two_links ?g"
    by (simp add: two_links_def gctab0_def GetLink_def HTCOLLMAX_def HTCOLL_SIZE_def)
  show "big_room ?g" using gctab0_inv(3) by (simp add: big_room_def)
  show "rcview ?g p = (1, False)" using gctab0_view [of p] unfolding rcview_def e .
qed

lemma vm_num_box: "box_ready vm_num TYPE_FIXP" "new_box vm_num TYPE_FIXP = 0x400010"
proof -
  have d: "GetDTD TYPE_FIXP = 0x141024" by (rule vm_fixp_facts)
  have sz: "dtd_size vm_num 0x141024 = 2" "dtd_free vm_num 0x141024 = 0x400010"
    by (simp_all add: dtd_size_def dtd_free_def vm_num_def vm_fixp_def rd_def getcell_def lo_word_def)
  show nb: "new_box vm_num TYPE_FIXP = 0x400010" by (simp add: new_box_def d sz POINTERMASK_def)
  have "cell_apart vm_num 0x141024 0x400010"
    unfolding cell_apart_def sz by (auto simp: less_2_cases_iff cell_of_def)
  moreover have "RefCntP vm_num 0x400010" "GetTypeNumber vm_num 0x400010 = TYPE_FIXP"
    by (simp_all add: RefCntP_def GetTypeNumber_def GetTypeEntry_def vm_num_def vm_fixp_def vm0_def gctab0_def
        ATOM_T_def NIL_def TT_NOREF_def TYPE_FIXP_def)
  moreover have "gc_ptr 0x400010" by (simp add: gc_ptr_def ht_hiptr_def HTHIMASK_def POINTERMASK_def)
  then have "counts_ready vm_num 0x400010 DELREF"
    using typetbl_irrelevant by (simp add: counts_ready_def vm_num_def vm_fixp_def vm0_def)
  ultimately show "box_ready vm_num TYPE_FIXP"
    by (simp add: box_ready_def Let_def d sz nb NIL_def SEGMASK_def S_POSITIVE_def S_NEGATIVE_def)
qed

definition calc0 :: calc where
  "calc0 = \<lparr>overflow_builtins = True, storage_chk = (\<lambda>s. Inr s), dirty_arg = NIL, f_add = (\<lambda>a b. a),
     f_sub = (\<lambda>a b. a), f_mul = (\<lambda>a b. a), f_div = (\<lambda>a b. a), f_mod = (\<lambda>a b. a), f_of_int = (\<lambda>a. a),
     f_cast = (\<lambda>a. a)\<rparr>"

lemma number_roundtrip_witness: "number_result (N_ARITH_SWITCH calc0 0x12345678 vm_num) 0x12345678 vm_num"
  by (rule number_roundtrip [OF vm_num_box(1)])

lemma vm_num_reads:
  "N_GETNUMBER vm_num 0xE0007 = Some 7" "N_GETNUMBER vm_num 0xFFFFE = Some (- 2)"
  "N_IGETNUMBER E vm_num 0xE0007 = Some 7" "N_IGETNUMBER E vm_num 0xFFFFE = Some (- 2)"
  "N_GETNUMBER vm_num 0x400040 = Some 0x40000000" "N_GETNUMBER vm_num 0xE0002 = Some 2"
  by (simp_all add: N_GETNUMBER_def N_IGETNUMBER_def SEGMASK_def S_POSITIVE_def S_NEGATIVE_def GetTypeNumber_def
      GetTypeEntry_def vm_num_def TYPE_FIXP_def rd_def getcell_def)

lemma integer_opcodes_exact_witness:
  "exact_int (N_OP_plus2 calc0 0xE0007 0xFFFFE vm_num) 5 0xFFFFE vm_num \<and>
   N_OP_times2 calc0 0x400040 0xE0002 vm_num = Inl (Ufn 0xE0002)"
proof -
  have b: "overflow_builtins calc0" by (simp add: calc0_def)
  have "exact_int (N_OP_plus2 calc0 0xE0007 0xFFFFE vm_num) 5 0xFFFFE vm_num"
    using integer_opcodes_exact [OF vm_num_reads(1,2) vm_num_box(1) b] by simp
  moreover have "N_OP_times2 calc0 0x400040 0xE0002 vm_num = Inl (Ufn 0xE0002)"
    using integer_opcodes_exact [OF vm_num_reads(5,6) vm_num_box(1) b] by (simp add: exact_int_def fits_def)
  ultimately show ?thesis ..
qed

lemma quotient_remainder_witness:
  "\<exists>q r. number_result (N_OP_iquot calc0 0xE0007 0xFFFFE vm_num) q vm_num \<and>
     number_result (N_OP_iremainder calc0 0xE0007 0xFFFFE vm_num) r vm_num \<and>
     sint q * - 2 + sint r = 7 \<and> \<bar>sint r\<bar> < 2"
  using quotient_remainder [OF vm_num_reads(3,4) vm_num_box(1), of calc0] by auto

lemma lsh_exact_witness:
  "N_OP_lsh calc0 0x400040 0xE0002 vm_num = Inl (Ufn 0xE0002) \<and>
   exact_int (N_OP_lsh calc0 0x400040 0xFFFFE vm_num) (0x40000000 div 4) 0xFFFFE vm_num"
proof -
  have n: "nat (sint (2 :: 32 word)) = 2" "nat (- sint (- 2 :: 32 word)) = 2" by simp_all
  show ?thesis
    using lsh_exact [OF vm_num_reads(6,5) vm_num_box(1), of calc0] lsh_exact [OF vm_num_reads(2,5) vm_num_box(1), of calc0]
    by (simp add: n exact_int_def fits_def)
qed

lemma floats_rejected_witness: "N_IGETNUMBER calc0 vm_num 0x500000 = None"
proof -
  have r: "rd vm_num 0x500000 = 0x3F800000" by (simp add: vm_num_def rd_def getcell_def)
  have "GetTypeNumber vm_num 0x500000 = TYPE_FLOATP"
    by (simp add: GetTypeNumber_def GetTypeEntry_def vm_num_def TYPE_FLOATP_def)
  moreover have "f_gt F_2_31 (rd vm_num 0x500000)"
    unfolding r by (simp add: f_gt_def f_nan_def f_key_def F_2_31_def bit_simps)
  moreover have "SEGMASK AND 0x500000 \<noteq> S_POSITIVE" "SEGMASK AND 0x500000 \<noteq> S_NEGATIVE"
    by (simp_all add: SEGMASK_def S_POSITIVE_def S_NEGATIVE_def)
  ultimately show ?thesis using floats_rejected by blast
qed

end
