(* ===== verification/Lisp_Arrays.thy ===== *)
theory Lisp_Arrays
  imports Number_Laws
begin

text \<open>
  The array opcodes: \<open>N_GetPos\<close>, \<open>aref_switch\<close> and \<open>aset_switch\<close> of
  \<open>inc/my.h\<close>, the array headers of \<open>inc/lsptypes.h\<close> and \<open>src/arrayops.c\<close>.
  Element addresses are computed modulo \<open>2 ^ 32\<close>; the C index is an \<open>int\<close>, here a 32-bit word.
\<close>

section \<open>Headers\<close>

definition S_CHARACTER :: LispPTR where "S_CHARACTER = 0x70000"
definition TYPE_ONED_ARRAY :: DLword where "TYPE_ONED_ARRAY = 14"
definition TYPE_TWOD_ARRAY :: DLword where "TYPE_TWOD_ARRAY = 15"

text \<open>The fields of \<open>OneDArray\<close> and \<open>LispArray\<close> the opcodes read.\<close>

definition ar_base :: "vm \<Rightarrow> LispPTR \<Rightarrow> LispPTR" where "ar_base s a = rd s a AND POINTERMASK"
definition ar_typenumber :: "vm \<Rightarrow> LispPTR \<Rightarrow> 32 word" where
  "ar_typenumber s a = drop_bit 16 (rd s (a + 2)) AND 0xFF"
definition ar_offset :: "vm \<Rightarrow> LispPTR \<Rightarrow> 32 word" where "ar_offset s a = rd s (a + 2) AND 0xFFFF"
definition ar_Dim0 :: "vm \<Rightarrow> LispPTR \<Rightarrow> 32 word" where "ar_Dim0 s a = rd s (a + 4)"
definition ar_totalsize :: "vm \<Rightarrow> LispPTR \<Rightarrow> 32 word" where "ar_totalsize s a = rd s (a + 6)"
definition ar_Dim1 :: "vm \<Rightarrow> LispPTR \<Rightarrow> 32 word" where "ar_Dim1 s a = rd s (a + 8)"

section \<open>Elements\<close>

text \<open>A position: a positive small number, or a FIXP box with a non-negative number.\<close>

definition N_GetPos :: "vm \<Rightarrow> LispPTR \<Rightarrow> 32 word option" where
  "N_GetPos s arg =
     (if arg AND SEGMASK = S_POSITIVE then Some (arg AND 0xFFFF)
      else if GetTypeNumber s arg \<noteq> TYPE_FIXP then None
      else if rd s arg AND 0x80000000 \<noteq> 0 then None
      else Some (rd s arg))"

definition cell_at :: "LispPTR \<Rightarrow> 32 word \<Rightarrow> LispPTR" where "cell_at base index = base + 2 * index"

definition bit_shift :: "32 word \<Rightarrow> nat" where "bit_shift index = 7 - unat (index AND 7)"

definition aref_switch ::
  "calc \<Rightarrow> 32 word \<Rightarrow> LispPTR \<Rightarrow> LispPTR \<Rightarrow> 32 word \<Rightarrow> vm \<Rightarrow> (LispPTR \<times> vm) res" where
  "aref_switch E type tos baseL index s =
     (let w = getword (mem s) (baseL + index); b = getbyte (mem s) baseL index
      in if type = 38 then Inr (rd s (cell_at baseL index), s)
         else if type = 20
         then Inr (if w AND 0x8000 \<noteq> 0 then ucast w OR S_NEGATIVE else ucast w OR S_POSITIVE, s)
         else if type = 67 then Inr (S_CHARACTER OR ucast b, s)
         else if type = 22 then N_ARITH_SWITCH E (rd s (cell_at baseL index)) s
         else if type = 0
         then Inr (S_POSITIVE OR
                (drop_bit (bit_shift index) (ucast (getbyte (mem s) baseL (signed_drop_bit 3 index))) AND 1), s)
         else if type = 3 then Inr (S_POSITIVE OR ucast b, s)
         else if type = 4 then Inr (S_POSITIVE OR ucast w, s)
         else if type = 54
         then rbind (createcell68k (storage_chk E) (dirty_arg E) TYPE_FLOATP s) (\<lambda>(p, s1).
              Inr (p, wr p (rd s1 (cell_at baseL index)) s1))
         else if type = 68 then Inr (S_CHARACTER OR ucast w, s)
         else if type = 86 then Inr (rd s (cell_at baseL index), s)
         else Inl (Ufn tos))"

definition poke :: "memory \<Rightarrow> vm \<Rightarrow> vm" where "poke m s = s\<lparr>mem := m\<rparr>"

definition aset_switch ::
  "32 word \<Rightarrow> LispPTR \<Rightarrow> LispPTR \<Rightarrow> LispPTR \<Rightarrow> 32 word \<Rightarrow> vm \<Rightarrow> (LispPTR \<times> vm) res" where
  "aset_switch type tos data base index s =
     (if type = 38
      then rbind (GCLOOKUP (rd s (cell_at base index)) DELREF s) (\<lambda>s1.
           rbind (GCLOOKUP data ADDREF s1) (\<lambda>s2. Inr (data, wr (cell_at base index) data s2)))
      else if type = 20
      then (if data AND SEGMASK = S_POSITIVE \<and> data AND 0x8000 = 0 \<or>
               data AND SEGMASK = S_NEGATIVE \<and> data AND 0x8000 \<noteq> 0
            then Inr (data, poke (putword (base + index) (ucast data) (mem s)) s)
            else Inl (Ufn tos))
      else if type = 67
      then (if data AND SEGMASK \<noteq> S_CHARACTER then Inl (Ufn tos)
            else if data AND 0xFFFF > 0xFF then Inl (Ufn tos)
            else Inr (data, poke (putbyte base index (ucast data) (mem s)) s))
      else if type = 22
      then (case N_GETNUMBER s data of None \<Rightarrow> Inl (Ufn tos)
            | Some new \<Rightarrow> Inr (data, wr (cell_at base index) new s))
      else if type = 0
      then (case N_GetPos s data of None \<Rightarrow> Inl (Ufn tos)
            | Some new \<Rightarrow>
                if new > 1 then Inl (Ufn tos)
                else (let n = signed_drop_bit 3 index; old = getbyte (mem s) base n
                      in Inr (data, poke (putbyte base n
                           (if new \<noteq> 0 then old OR push_bit (bit_shift index) 1
                            else old AND (0xFF - push_bit (bit_shift index) 1)) (mem s)) s)))
      else if type = 3
      then (case N_GetPos s data of None \<Rightarrow> Inl (Ufn tos)
            | Some new \<Rightarrow> if new > 0xFF then Inl (Ufn tos)
                          else Inr (data, poke (putbyte base index (ucast new) (mem s)) s))
      else if type = 4
      then (case N_GetPos s data of None \<Rightarrow> Inl (Ufn tos)
            | Some new \<Rightarrow> if new > 0xFFFF then Inl (Ufn tos)
                          else Inr (data, poke (putword (base + index) (ucast new) (mem s)) s))
      else if type = 54
      then (if GetTypeNumber s data \<noteq> TYPE_FLOATP then Inl (Ufn tos)
            else Inr (data, wr (cell_at base index) (rd s data) s))
      else if type = 68
      then (if data AND SEGMASK \<noteq> S_CHARACTER then Inl (Ufn tos)
            else Inr (data, poke (putword (base + index) (ucast data) (mem s)) s))
      else if type = 86 then Inr (data, wr (cell_at base index) data s)
      else Inl (Ufn tos))"

section \<open>Opcodes\<close>

definition N_OP_misc3 ::
  "calc \<Rightarrow> LispPTR \<Rightarrow> LispPTR \<Rightarrow> LispPTR \<Rightarrow> int \<Rightarrow> vm \<Rightarrow> (LispPTR \<times> vm) res" where
  "N_OP_misc3 E baseL typenumber inx alpha s =
     (if alpha \<noteq> 9 then Inl (Ufn inx)
      else two_numbers (N_GetPos s inx) (N_GetPos s typenumber) (Inl (Ufn inx)) (\<lambda>index type.
        aref_switch E type inx baseL index s))"

definition N_OP_misc4 ::
  "LispPTR \<Rightarrow> LispPTR \<Rightarrow> LispPTR \<Rightarrow> LispPTR \<Rightarrow> int \<Rightarrow> vm \<Rightarrow> (LispPTR \<times> vm) res" where
  "N_OP_misc4 data base typenumber inx alpha s =
     (if alpha \<noteq> 7 then Inl (Ufn inx)
      else two_numbers (N_GetPos s inx) (N_GetPos s typenumber) (Inl (Ufn inx)) (\<lambda>index type.
        aset_switch type inx data base index s))"

text \<open>The checked index of a one-dimensional array, with its offset; the row-major index of two.\<close>

definition index1 :: "vm \<Rightarrow> LispPTR \<Rightarrow> LispPTR \<Rightarrow> 32 word option" where
  "index1 s arrayarg inx =
     (if GetTypeNumber s arrayarg \<noteq> TYPE_ONED_ARRAY then None
      else case N_GetPos s inx of None \<Rightarrow> None
      | Some index \<Rightarrow>
          if sint index \<ge> sint (ar_totalsize s arrayarg) then None
          else Some (index + ar_offset s arrayarg))"

definition index2 :: "vm \<Rightarrow> LispPTR \<Rightarrow> LispPTR \<Rightarrow> LispPTR \<Rightarrow> 32 word option" where
  "index2 s arrayarg inx0 inx1 =
     (if GetTypeNumber s arrayarg \<noteq> TYPE_TWOD_ARRAY then None
      else case N_GetPos s inx1 of None \<Rightarrow> None
      | Some temp \<Rightarrow>
          if sint temp \<ge> sint (ar_Dim1 s arrayarg) then None
          else case N_GetPos s inx0 of None \<Rightarrow> None
          | Some arindex \<Rightarrow>
              if sint arindex \<ge> sint (ar_Dim0 s arrayarg) then None
              else Some (arindex * ar_Dim1 s arrayarg + temp))"

definition N_OP_aref1 :: "calc \<Rightarrow> LispPTR \<Rightarrow> LispPTR \<Rightarrow> vm \<Rightarrow> (LispPTR \<times> vm) res" where
  "N_OP_aref1 E arrayarg inx s =
     (case index1 s arrayarg inx of None \<Rightarrow> Inl (Ufn inx)
      | Some index \<Rightarrow> aref_switch E (ar_typenumber s arrayarg) inx (ar_base s arrayarg) index s)"

definition N_OP_aset1 :: "LispPTR \<Rightarrow> LispPTR \<Rightarrow> LispPTR \<Rightarrow> vm \<Rightarrow> (LispPTR \<times> vm) res" where
  "N_OP_aset1 data arrayarg inx s =
     (case index1 s arrayarg inx of None \<Rightarrow> Inl (Ufn inx)
      | Some index \<Rightarrow> aset_switch (ar_typenumber s arrayarg) inx data (ar_base s arrayarg) index s)"

definition N_OP_aref2 :: "calc \<Rightarrow> LispPTR \<Rightarrow> LispPTR \<Rightarrow> LispPTR \<Rightarrow> vm \<Rightarrow> (LispPTR \<times> vm) res" where
  "N_OP_aref2 E arrayarg inx0 inx1 s =
     (case index2 s arrayarg inx0 inx1 of None \<Rightarrow> Inl (Ufn inx1)
      | Some index \<Rightarrow> aref_switch E (ar_typenumber s arrayarg) inx1 (ar_base s arrayarg) index s)"

definition N_OP_aset2 :: "LispPTR \<Rightarrow> LispPTR \<Rightarrow> LispPTR \<Rightarrow> LispPTR \<Rightarrow> vm \<Rightarrow> (LispPTR \<times> vm) res" where
  "N_OP_aset2 data arrayarg inx0 inx1 s =
     (case index2 s arrayarg inx0 inx1 of None \<Rightarrow> Inl (Ufn inx1)
      | Some index \<Rightarrow> aset_switch (ar_typenumber s arrayarg) inx1 data (ar_base s arrayarg) index s)"


section \<open>Bytes and bits obey the store laws\<close>

lemma byte_halves:
  fixes w :: "16 word" and v :: "8 word"
  shows "ucast ((w AND 0xFF00) OR ucast v) = v"
    "ucast (drop_bit 8 ((w AND 0xFF00) OR ucast v)) = (ucast (drop_bit 8 w) :: 8 word)"
    "ucast (drop_bit 8 (push_bit 8 (ucast v) OR (w AND 0xFF))) = v"
    "ucast (push_bit 8 (ucast v) OR (w AND 0xFF)) = (ucast w :: 8 word)"
    "ucast (drop_bit 8 (push_bit 8 (ucast v :: 16 word))) = v"
proof -
  have m: "(0xFF00 :: 16 word) = push_bit 8 (mask 8)" "(0xFF :: 16 word) = mask 8"
    by (simp_all add: mask_eq_exp_minus_1)
  show "ucast ((w AND 0xFF00) OR ucast v) = v" unfolding m
    by (intro bit_word_eqI) (auto simp: bit_simps)
  show "ucast (drop_bit 8 ((w AND 0xFF00) OR ucast v)) = (ucast (drop_bit 8 w) :: 8 word)" unfolding m
    by (intro bit_word_eqI) (auto simp: bit_simps dest: bit_imp_le_length)
  show "ucast (drop_bit 8 (push_bit 8 (ucast v) OR (w AND 0xFF))) = v" unfolding m
    by (intro bit_word_eqI) (auto simp: bit_simps)
  show "ucast (drop_bit 8 (push_bit 8 (ucast v :: 16 word))) = v"
    by (intro bit_word_eqI) (auto simp: bit_simps)
  show "ucast (push_bit 8 (ucast v) OR (w AND 0xFF)) = (ucast w :: 8 word)" unfolding m
    by (intro bit_word_eqI) (auto simp: bit_simps)
qed

lemma parity_split: "drop_bit 1 n = drop_bit 1 n' \<Longrightarrow> bit n 0 = bit n' 0 \<Longrightarrow> n = n'" for n n' :: "32 word"
proof (rule bit_word_eqI)
  fix k assume d: "drop_bit 1 n = drop_bit 1 n'" and b: "bit n 0 = bit n' 0"
  show "bit n k = bit n' k"
  proof (cases k)
    case (Suc j)
    have "bit (drop_bit 1 n) j = bit (drop_bit 1 n') j" using d by simp
    then show ?thesis using Suc by (simp add: bit_drop_bit_eq)
  qed (use b in simp)
qed

interpretation bytes: store "\<lambda>m n. getbyte m base n" "\<lambda>n v m. putbyte base n v m" "\<lambda>_. True" for base
proof
  fix n n' :: "32 word" and v :: "8 word" and m :: memory
  show "getbyte (putbyte base n v m) base n = v"
    by (simp add: getbyte_def putbyte_def Let_def words.get_put_same byte_halves)
  assume ne: "n \<noteq> n'"
  show "getbyte (putbyte base n v m) base n' = getbyte m base n'"
  proof (cases "drop_bit 1 n = drop_bit 1 n'")
    case True
    then have "bit n 0 \<noteq> bit n' 0" using parity_split ne by blast
    then show ?thesis
      by (cases "bit n 0"; cases "bit n' 0")
         (simp_all only: getbyte_def putbyte_def Let_def words.get_put_same byte_halves True if_True if_False simp_thms)
  next
    case False
    then have "base + drop_bit 1 n \<noteq> base + drop_bit 1 n'" by simp
    then show ?thesis by (simp add: getbyte_def putbyte_def Let_def words.get_put_other)
  qed
qed

definition getbit :: "memory \<Rightarrow> LispPTR \<Rightarrow> 32 word \<Rightarrow> bool" where
  "getbit m base i = bit (getbyte m base (signed_drop_bit 3 i)) (bit_shift i)"

definition putbit :: "LispPTR \<Rightarrow> 32 word \<Rightarrow> bool \<Rightarrow> memory \<Rightarrow> memory" where
  "putbit base i b m =
     (let n = signed_drop_bit 3 i; old = getbyte m base n
      in putbyte base n (if b then old OR push_bit (bit_shift i) 1
                         else old AND (0xFF - push_bit (bit_shift i) 1)) m)"

lemma bit_shift_less: "bit_shift i < 8" by (simp add: bit_shift_def)

lemma unat_and_7: "unat (i AND 7) = unat i mod 8" for i :: "32 word"
proof -
  have "i AND 7 = take_bit 3 i" by (simp add: take_bit_eq_mask mask_eq_exp_minus_1)
  then have "unat (i AND 7) = take_bit 3 (unat i)" by (simp only: unsigned_take_bit_eq)
  then show ?thesis by (simp add: take_bit_eq_mod)
qed

lemma bit_place:
  assumes "signed_drop_bit 3 i = signed_drop_bit 3 j" "bit_shift i = bit_shift j"
  shows "i = j"
proof -
  have "unat i mod 8 < 8" "unat j mod 8 < 8" by simp_all
  then have m: "unat (i AND 7) = unat (j AND 7)"
    using assms(2) unfolding bit_shift_def unat_and_7 by linarith
  have "i AND 7 = j AND 7" using m by (rule word_unat_eq_iff [THEN iffD2])
  moreover have "(7 :: 32 word) = mask 3" by (simp add: mask_eq_exp_minus_1)
  ultimately have low: "take_bit 3 i = take_bit 3 j" by (simp add: take_bit_eq_mask)
  show ?thesis
  proof (rule bit_word_eqI)
    fix n assume n: "n < LENGTH(32)"
    show "bit i n = bit j n"
    proof (cases "n < 3")
      case True
      have "bit (take_bit 3 i) n = bit (take_bit 3 j) n" using low by simp
      then show ?thesis using True by (simp add: bit_take_bit_iff)
    next
      case False
      have "bit (signed_drop_bit 3 i) (n - 3) = bit (signed_drop_bit 3 j) (n - 3)" using assms(1) by simp
      then show ?thesis using False n by (simp add: bit_signed_drop_bit_iff split: if_splits)
    qed
  qed
qed

lemma bit_clear_mask: "k < 8 \<Longrightarrow> bit (0xFF - 2 ^ k :: 8 word) n \<longleftrightarrow> n < 8 \<and> n \<noteq> k"
proof -
  assume k: "k < 8"
  have "0xFF - 2 ^ k = NOT (push_bit k (1 :: 8 word))" by (simp add: not_eq_complement)
  then show ?thesis by (auto simp: bit_simps)
qed

interpretation bits: store "\<lambda>m i. getbit m base i" "\<lambda>i b m. putbit base i b m" "\<lambda>_. True" for base
proof
  fix i j :: "32 word" and b :: bool and m :: memory
  note k = bit_shift_less [of i] bit_shift_less [of j]
  show "getbit (putbit base i b m) base i = b"
    using k by (simp add: getbit_def putbit_def Let_def bytes.get_put_same bit_simps bit_clear_mask)
  assume ne: "i \<noteq> j"
  show "getbit (putbit base i b m) base j = getbit m base j"
  proof (cases "signed_drop_bit 3 i = signed_drop_bit 3 j")
    case True
    then have "bit_shift i \<noteq> bit_shift j" using bit_place ne by blast
    then show ?thesis using True k
      by (auto simp: getbit_def putbit_def Let_def bytes.get_put_same bit_simps bit_clear_mask)
  next
    case False
    then show ?thesis by (simp add: getbit_def putbit_def Let_def bytes.get_put_other)
  qed
qed


section \<open>The element at an index\<close>

text \<open>
  What \<open>aref_switch\<close> finds at an index, before it is made a Lisp object, for the ten type
  numbers, and what \<open>aset_switch\<close> puts there.
\<close>

definition elem :: "32 word \<Rightarrow> memory \<Rightarrow> LispPTR \<Rightarrow> 32 word \<Rightarrow> 32 word" where
  "elem type m base index =
     (if type \<in> {38, 22, 54, 86} then getcell m (cell_at base index)
      else if type \<in> {20, 4, 68} then ucast (getword m (base + index))
      else if type \<in> {67, 3} then ucast (getbyte m base index)
      else of_bool (getbit m base index))"

definition elem_of :: "vm \<Rightarrow> 32 word \<Rightarrow> LispPTR \<Rightarrow> 32 word" where
  "elem_of s type data =
     (if type \<in> {38, 86} then data
      else if type = 22 then the (N_GETNUMBER s data)
      else if type = 54 then rd s data
      else if type \<in> {20, 68, 67} then data AND 0xFFFF
      else the (N_GetPos s data))"

definition in_reach :: "LispPTR \<Rightarrow> 32 word \<Rightarrow> bool" where
  "in_reach base index \<longleftrightarrow> \<not> bit base 0 \<and> \<not> bit index 31"

lemma cell_at_inj: "\<not> bit i 31 \<Longrightarrow> \<not> bit j 31 \<Longrightarrow> cell_at base i = cell_at base j \<Longrightarrow> i = j"
proof (rule bit_word_eqI)
  fix n assume a: "\<not> bit i 31" "\<not> bit j 31" "cell_at base i = cell_at base j" and n: "n < LENGTH(32)"
  have "push_bit 1 i = push_bit 1 j" using a(3) by (simp add: cell_at_def push_bit_eq_mult mult.commute)
  then have "bit (push_bit 1 i) (Suc n) = bit (push_bit 1 j) (Suc n)" by simp
  then have "n \<noteq> 31 \<Longrightarrow> bit i n = bit j n" using n unfolding bit_push_bit_iff by auto
  then show "bit i n = bit j n" using a(1,2) by (cases "n = 31") auto
qed

lemma cell_at_even: "\<not> bit base 0 \<Longrightarrow> \<not> bit (cell_at base i) 0"
  by (simp add: cell_at_def even_add bit_0)

text \<open>The laws of the four stores, as one law of \<open>elem\<close>.\<close>

definition put_elem :: "32 word \<Rightarrow> LispPTR \<Rightarrow> 32 word \<Rightarrow> 32 word \<Rightarrow> memory \<Rightarrow> memory" where
  "put_elem type base index v m =
     (if type \<in> {38, 22, 54, 86} then putcell (cell_at base index) v m
      else if type \<in> {20, 4, 68} then putword (base + index) (ucast v) m
      else if type \<in> {67, 3} then putbyte base index (ucast v) m
      else putbit base index (v \<noteq> 0) m)"

definition elem_fits :: "32 word \<Rightarrow> 32 word \<Rightarrow> bool" where
  "elem_fits type v \<longleftrightarrow>
     (if type \<in> {38, 22, 54, 86} then True else if type \<in> {20, 4, 68} then v \<le> 0xFFFF
      else if type \<in> {67, 3} then v \<le> 0xFF else v \<le> 1)"

lemma small_ucast:
  "v \<le> 0xFFFF \<Longrightarrow> ucast (ucast v :: 16 word) = v" "v \<le> 0xFF \<Longrightarrow> ucast (ucast v :: 8 word) = v" for v :: "32 word"
proof -
  assume "v \<le> 0xFFFF"
  then have "unat v < 2 ^ 16" by (simp add: word_le_nat_alt)
  then show "ucast (ucast v :: 16 word) = v"
    by (intro word_unat_eq_iff [THEN iffD2]) (simp add: unsigned_ucast_eq unsigned_take_bit_eq take_bit_nat_eq_self)
next
  assume "v \<le> 0xFF"
  then have "unat v < 2 ^ 8" by (simp add: word_le_nat_alt)
  then show "ucast (ucast v :: 8 word) = v"
    by (intro word_unat_eq_iff [THEN iffD2]) (simp add: unsigned_ucast_eq unsigned_take_bit_eq take_bit_nat_eq_self)
qed

lemma word_01: "v \<le> 1 \<Longrightarrow> of_bool (v \<noteq> 0) = v" for v :: "32 word"
  by (cases "v = 0") (auto simp: word_le_nat_alt word_unat_eq_iff le_Suc_eq)

lemma elem_put_same: "elem_fits type v \<Longrightarrow> elem type (put_elem type base i v m) base i = v"
  by (auto simp: elem_def put_elem_def elem_fits_def getcell_def putcell_def words.get_put_same
      bytes.get_put_same bits.get_put_same small_ucast word_01)

lemma elem_put_other:
  assumes "in_reach base i" "in_reach base j" "i \<noteq> j"
  shows "elem type (put_elem type base i v m) base j = elem type m base j"
proof -
  have "cell_at base i \<noteq> cell_at base j" using cell_at_inj assms by (auto simp: in_reach_def)
  moreover have "base + i \<noteq> base + j" using assms(3) by simp
  ultimately show ?thesis using assms(3)
    by (simp add: elem_def put_elem_def getcell_def putcell_def words.get_put_other bytes.get_put_other bits.get_put_other)
qed


section \<open>What the two switches do\<close>

definition array_types :: "32 word set" where "array_types = {38, 20, 67, 22, 0, 3, 4, 54, 68, 86}"

lemma N_GetPos_nonneg: "N_GetPos s x = Some v \<Longrightarrow> 0 \<le> sint v \<and> \<not> bit v 31"
proof -
  assume p: "N_GetPos s x = Some v"
  have "\<not> bit v 31"
  proof (cases "x AND SEGMASK = S_POSITIVE")
    case True
    then have "v = x AND mask 16" using p by (simp add: N_GetPos_def mask_eq_exp_minus_1)
    then show ?thesis by (simp add: bit_and_iff bit_mask_iff)
  next
    case False
    then have "v AND 0x80000000 = 0" using p by (auto simp: N_GetPos_def split: if_splits)
    then have "\<not> bit (v AND 0x80000000) 31" by simp
    then show ?thesis by (simp add: bit_and_iff)
  qed
  then show ?thesis using nonneg_sint [of v] by (simp add: nonneg_def)
qed

lemma low_half_le: "x AND 0xFFFF \<le> 0xFFFF" for x :: "32 word"
  by (simp add: word_and_le1)

lemma ucast_low: "ucast (x :: 32 word) = (ucast (x AND 0xFFFF) :: 16 word)"
  "ucast (x :: 32 word) = (ucast (x AND 0xFFFF) :: 8 word)"
proof -
  have m: "(0xFFFF :: 32 word) = mask 16" by (simp add: mask_eq_exp_minus_1)
  show "ucast x = (ucast (x AND 0xFFFF) :: 16 word)" unfolding m
    by (intro bit_word_eqI) (auto simp: bit_simps)
  show "ucast x = (ucast (x AND 0xFFFF) :: 8 word)" unfolding m
    by (intro bit_word_eqI) (auto simp: bit_simps)
qed

lemma aset_stores:
  assumes "aset_switch type tos data base i s = Inr (r, s')"
  shows "r = data \<and> type \<in> array_types \<and> elem_fits type (elem_of s type data) \<and>
    mem s' = put_elem type base i (elem_of s type data) (mem s) \<and>
    (\<forall>a. GetTypeNumber s' a = GetTypeNumber s a)"
proof -
  have tp: "GetTypeNumber (poke m s) a = GetTypeNumber s a" for m a
    by (simp add: GetTypeNumber_def GetTypeEntry_def poke_def)
  have "type \<in> array_types"
    using assms by (auto simp: aset_switch_def array_types_def split: if_splits)
  then consider "type = 38" | "type = 86" | "type = 22" | "type = 54" | "type = 20" | "type = 4" | "type = 68"
    | "type = 67" | "type = 3" | "type = 0" by (auto simp: array_types_def)
  then show ?thesis
  proof cases
    case 1
    then obtain s1 s2 where g: "GCLOOKUP (rd s (cell_at base i)) DELREF s = Inr s1" "GCLOOKUP data ADDREF s1 = Inr s2"
      "r = data" "s' = wr (cell_at base i) data s2"
      using assms by (auto simp: aset_switch_def rbind_Inr_iff)
    have "mem s2 = mem s" using GCLOOKUP_frame [OF g(1)] GCLOOKUP_frame [OF g(2)] by (metis vm.select_convs(1) vm.surjective vm.update_convs(2))
    moreover have "GetTypeNumber s2 a = GetTypeNumber s a" for a
      using GCLOOKUP_types [OF g(1)] GCLOOKUP_types [OF g(2)] by simp
    moreover have "mem s' = putcell (cell_at base i) data (mem s2)" using g(4) by (simp add: wr_def)
    moreover have "GetTypeNumber s' a = GetTypeNumber s2 a" for a using g(4) by simp
    ultimately show ?thesis using g(3) 1
      by (simp add: put_elem_def elem_of_def elem_fits_def array_types_def)
  qed (use assms in \<open>auto simp: aset_switch_def put_elem_def elem_of_def elem_fits_def array_types_def wr_def poke_def
        tp [unfolded poke_def] low_half_le ucast_low [symmetric] putbit_def Let_def GetTypeNumber_def GetTypeEntry_def
        split: if_splits option.splits\<close>)
qed


text \<open>The object \<open>aref_switch\<close> makes of an element it need not box.\<close>

definition show_elem :: "32 word \<Rightarrow> 32 word \<Rightarrow> LispPTR" where
  "show_elem type e =
     (if type \<in> {38, 86} then e
      else if type = 20 then (if e AND 0x8000 \<noteq> 0 then e OR S_NEGATIVE else e OR S_POSITIVE)
      else if type \<in> {67, 68} then S_CHARACTER OR e
      else S_POSITIVE OR e)"

lemma word_bit_of: "drop_bit k (ucast (w :: 8 word) :: 32 word) AND 1 = of_bool (bit w k)" if "k < 8" for k
  using that by (intro bit_word_eqI) (auto simp: bit_simps)

lemma ucast_sign: "(ucast (w :: 16 word) :: 32 word) AND 0x8000 = 0 \<longleftrightarrow> w AND 0x8000 = 0"
proof -
  have m: "(0x8000 :: 16 word) = push_bit 15 1" "(0x8000 :: 32 word) = push_bit 15 1" by simp_all
  have "w AND 0x8000 = 0 \<longleftrightarrow> \<not> bit w 15" unfolding m bit_iff_and_push_bit_not_eq_0 by blast
  moreover have "(ucast w :: 32 word) AND 0x8000 = 0 \<longleftrightarrow> \<not> bit (ucast w :: 32 word) 15"
    unfolding m bit_iff_and_push_bit_not_eq_0 by blast
  ultimately show ?thesis by (simp add: bit_ucast_iff)
qed

lemma aref_shows:
  assumes "type \<in> array_types"
  shows "type \<notin> {22, 54} \<Longrightarrow> aref_switch E type tos base i s = Inr (show_elem type (elem type (mem s) base i), s)"
    and "type = 22 \<Longrightarrow> aref_switch E type tos base i s = N_ARITH_SWITCH E (elem type (mem s) base i) s"
  using assms
  by (auto simp: array_types_def aref_switch_def show_elem_def elem_def rd_def Let_def getbit_def
      word_bit_of bit_shift_less ucast_sign)

lemma segment_object:
  assumes "data AND SEGMASK = seg" "seg AND 0xFFFF = 0"
  shows "seg OR (data AND 0xFFFF) = data AND POINTERMASK"
proof -
  have "data AND POINTERMASK = data AND (SEGMASK OR 0xFFFF)" by (simp add: POINTERMASK_def SEGMASK_def)
  also have "\<dots> = (data AND SEGMASK) OR (data AND 0xFFFF)" by (rule bit.conj_disj_distrib)
  finally show ?thesis using assms(1) by simp
qed

lemma signed_shown:
  assumes "data AND SEGMASK = S_POSITIVE \<and> data AND 0x8000 = 0 \<or> data AND SEGMASK = S_NEGATIVE \<and> data AND 0x8000 \<noteq> 0"
  shows "show_elem 20 (data AND 0xFFFF) = data AND POINTERMASK"
proof -
  have b: "(data AND 0xFFFF) AND 0x8000 = data AND 0x8000" by (simp add: and.assoc)
  show ?thesis
    using assms segment_object [of data S_POSITIVE] segment_object [of data S_NEGATIVE]
    by (auto simp: show_elem_def b or.commute) (simp_all add: S_POSITIVE_def S_NEGATIVE_def)
qed

lemma pos_shown: "v \<le> 0xFFFF \<Longrightarrow> N_GetPos s (S_POSITIVE OR v) = Some v"
proof -
  assume "v \<le> 0xFFFF"
  then have "uint v \<le> 65535" by (simp add: word_le_def)
  then have "uint v div 65536 = 0" by (simp add: div_pos_pos_trivial)
  then have "v AND 0xFFFF0000 = 0" unfolding word_uint_eq_iff uint_high_half by simp
  from small_pos_parts [OF this] show ?thesis by (simp add: N_GetPos_def and.commute)
qed


text \<open>
  A fetch of a float makes a new box. The cell the element lies in is not touched by taking the box.
\<close>

definition box_apart :: "vm \<Rightarrow> DLword \<Rightarrow> LispPTR \<Rightarrow> bool" where
  "box_apart s type a \<longleftrightarrow> a \<notin> {GetDTD type + 4, GetDTD type + 12} \<and>
     (\<forall>k < unat (dtd_size s (GetDTD type)). cell_of (new_box s type + of_nat k) \<noteq> a)"

definition boxed_float :: "(LispPTR \<times> vm) res \<Rightarrow> 32 word \<Rightarrow> bool" where
  "boxed_float r v \<longleftrightarrow> (\<exists>p s'. r = Inr (p, s') \<and> GetTypeNumber s' p = TYPE_FLOATP \<and> rd s' p = v)"

lemma aref_float:
  assumes "box_ready s TYPE_FLOATP" "box_apart s TYPE_FLOATP (cell_at base i)"
  shows "boxed_float (aref_switch E 54 tos base i s) (rd s (cell_at base i))"
proof -
  let ?d = "GetDTD TYPE_FLOATP" and ?c = "new_box s TYPE_FLOATP"
  have r: "dtd_size s ?d \<noteq> 0" "?c \<noteq> NIL" "cell_apart s ?d ?c" "RefCntP s ?c" "counts_ready s ?c DELREF"
    "GetTypeNumber s ?c = TYPE_FLOATP"
    using assms(1) by (simp_all add: box_ready_def Let_def)
  from take_cell_law [OF r(3-5), where bad = "0x8000000"] obtain s1 where
    s1: "take_cell 0x8000000 ?d ?c s = Inr (?c, s1)"
      "\<forall>x. x \<notin> {?d + 4, ?d + 12} \<and> (\<forall>k < unat (dtd_size s ?d). cell_of (?c + of_nat k) \<noteq> x) \<longrightarrow> rd s1 x = rd s x"
    by blast
  have "createcell68k (storage_chk E) (dirty_arg E) TYPE_FLOATP s = Inr (?c, s1)"
    using r(1,2) s1(1) by (simp add: createcell68k_def retry_cell_def Let_def new_box_def)
  moreover have "rd s1 (cell_at base i) = rd s (cell_at base i)"
    using assms(2) s1(2) by (simp add: box_apart_def)
  ultimately have "aref_switch E 54 tos base i s = Inr (?c, wr ?c (rd s (cell_at base i)) s1)"
    by (simp add: aref_switch_def Let_def)
  then show ?thesis using take_cell_types [OF s1(1)] r(6) by (simp add: boxed_float_def rd_wr)
qed



section \<open>Properties\<close>

text \<open>
  C16. What an array store puts in, an array fetch of the same element type gets back, for every
  element type: the pointer itself, the character, the number read from the data, for signed
  32-bit elements that number made into an object again, and for floats, where a box is free, a new
  FLOATP box with the float of the data (taking the box does not reach into the array).
\<close>

theorem aset_aref:
  assumes "aset_switch type tos data base i s = Inr (r, s')"
  shows "r = data \<and>
    (if type \<in> {38, 86} then aref_switch E type tos base i s' = Inr (data, s')
     else if type \<in> {20, 67, 68} then aref_switch E type tos base i s' = Inr (data AND POINTERMASK, s')
     else if type = 22 then \<exists>v. N_GETNUMBER s data = Some v \<and> aref_switch E type tos base i s' = N_ARITH_SWITCH E v s'
     else if type = 54 then elem type (mem s') base i = rd s data \<and>
       (box_ready s' TYPE_FLOATP \<and> box_apart s' TYPE_FLOATP (cell_at base i) \<longrightarrow>
        boxed_float (aref_switch E type tos base i s') (rd s data))
     else \<exists>p. aref_switch E type tos base i s' = Inr (p, s') \<and> N_GetPos s' p = N_GetPos s data)"
proof -
  let ?v = "elem_of s type data"
  have st: "r = data" "type \<in> array_types" "elem_fits type ?v" "mem s' = put_elem type base i ?v (mem s)"
    using aset_stores [OF assms] by simp_all
  have e: "elem type (mem s') base i = ?v" unfolding st(4) by (rule elem_put_same [OF st(3)])
  have sh: "type \<notin> {22, 54} \<Longrightarrow> aref_switch E type tos base i s' = Inr (show_elem type ?v, s')"
    using aref_shows(1) [OF st(2), of E tos base i s'] unfolding e .
  consider "type \<in> {38, 86}" | "type = 20" | "type \<in> {67, 68}" | "type = 22" | "type = 54" | "type \<in> {0, 3, 4}"
    using st(2) by (auto simp: array_types_def)
  then show ?thesis
  proof cases
    case 1
    then show ?thesis using sh st(1) by (auto simp: show_elem_def elem_of_def)
  next
    case 2
    have "data AND SEGMASK = S_POSITIVE \<and> data AND 0x8000 = 0 \<or> data AND SEGMASK = S_NEGATIVE \<and> data AND 0x8000 \<noteq> 0"
      using assms 2 by (auto simp: aset_switch_def split: if_splits)
    from signed_shown [OF this] show ?thesis using sh st(1) 2 by (simp add: elem_of_def)
  next
    case 3
    then have "data AND SEGMASK = S_CHARACTER"
      using assms by (auto simp: aset_switch_def split: if_splits)
    from segment_object [OF this] show ?thesis using sh st(1) 3
      by (auto simp: show_elem_def elem_of_def S_CHARACTER_def)
  next
    case 4
    then obtain v where v: "N_GETNUMBER s data = Some v"
      using assms by (auto simp: aset_switch_def split: option.splits)
    then show ?thesis using aref_shows(2) [OF st(2) 4, of E tos base i s'] st(1) 4
      unfolding e by (simp add: elem_of_def)
  next
    case 5
    then have r: "elem type (mem s') base i = rd s data" using e by (simp add: elem_of_def)
    then have "rd s' (cell_at base i) = rd s data" using 5 by (simp add: elem_def rd_def)
    then show ?thesis using r 5 st(1) aref_float [of s' base i E tos] by simp
  next
    case 6
    then obtain v where v: "N_GetPos s data = Some v" "?v = v"
      using assms by (auto simp: aset_switch_def elem_of_def split: option.splits)
    have "v \<le> 0xFFFF" using st(3) 6 unfolding v(2) by (auto simp: elem_fits_def word_le_nat_alt)
    then show ?thesis using sh st(1) 6 v pos_shown [of v s'] by (auto simp: show_elem_def)
  qed
qed

text \<open>
  C17. An array store changes one element: every other element of the array keeps its value,
  down to the bits that share a byte with the one stored.
\<close>

theorem aset_leaves_others:
  assumes "aset_switch type tos data base i s = Inr (r, s')" "in_reach base i" "in_reach base j" "i \<noteq> j"
  shows "elem type (mem s') base j = elem type (mem s) base j"
  using aset_stores [OF assms(1)] elem_put_other [OF assms(2-4)] by simp

lemma index1_bounds:
  assumes "index1 s a inx = Some k"
  shows "\<exists>i. N_GetPos s inx = Some i \<and> 0 \<le> sint i \<and> sint i < sint (ar_totalsize s a) \<and> k = i + ar_offset s a"
  using assms N_GetPos_nonneg by (auto simp: index1_def split: if_splits option.splits)

lemma product_bound:
  fixes a b m n :: int
  assumes "0 \<le> a" "a < m" "0 \<le> b" "b < n"
  shows "0 \<le> a * n + b" "a * n + b < m * n"
proof -
  show "0 \<le> a * n + b" using assms by simp
  have "(a + 1) * n \<le> m * n" using assms by (intro mult_right_mono) simp_all
  then show "a * n + b < m * n" using assms(4) by (simp add: algebra_simps)
qed

lemma index2_bounds:
  assumes "index2 s a inx0 inx1 = Some k" "fits (sint (ar_Dim0 s a) * sint (ar_Dim1 s a) - 1)"
  shows "\<exists>i j. N_GetPos s inx0 = Some i \<and> N_GetPos s inx1 = Some j \<and>
    0 \<le> sint i \<and> sint i < sint (ar_Dim0 s a) \<and> 0 \<le> sint j \<and> sint j < sint (ar_Dim1 s a) \<and>
    sint k = sint i * sint (ar_Dim1 s a) + sint j \<and>
    0 \<le> sint k \<and> sint k < sint (ar_Dim0 s a) * sint (ar_Dim1 s a)"
proof -
  obtain i j where ij: "N_GetPos s inx0 = Some i" "N_GetPos s inx1 = Some j"
    "sint i < sint (ar_Dim0 s a)" "sint j < sint (ar_Dim1 s a)" "k = i * ar_Dim1 s a + j"
    using assms(1) by (auto simp: index2_def split: if_splits option.splits)
  have nn: "0 \<le> sint i" "0 \<le> sint j" using ij N_GetPos_nonneg by blast+
  note b = product_bound [OF nn(1) ij(3) nn(2) ij(4)]
  have "fits (sint i * sint (ar_Dim1 s a) + sint j)" using b assms(2) by (auto simp: fits_def)
  moreover have "k = word_of_int (sint i * sint (ar_Dim1 s a) + sint j)" using ij(5) by simp
  ultimately have "sint k = sint i * sint (ar_Dim1 s a) + sint j" by (simp only: sint_fits)
  then show ?thesis using ij nn b by auto
qed

text \<open>
  C18. The array opcodes store only inside the array: a store that returns had an index in range (in
  both dimensions), wrote the element at that index, in row-major order, and nothing else of the
  memory.
\<close>

theorem array_store_in_bounds:
  assumes "N_OP_aset2 data a inx0 inx1 s = Inr (r, s')" "fits (sint (ar_Dim0 s a) * sint (ar_Dim1 s a) - 1)"
  shows "\<exists>i j k. N_GetPos s inx0 = Some i \<and> N_GetPos s inx1 = Some j \<and>
    0 \<le> sint i \<and> sint i < sint (ar_Dim0 s a) \<and> 0 \<le> sint j \<and> sint j < sint (ar_Dim1 s a) \<and>
    sint k = sint i * sint (ar_Dim1 s a) + sint j \<and> sint k < sint (ar_Dim0 s a) * sint (ar_Dim1 s a) \<and>
    mem s' = put_elem (ar_typenumber s a) (ar_base s a) k (elem_of s (ar_typenumber s a) data) (mem s)"
proof -
  obtain k where k: "index2 s a inx0 inx1 = Some k"
    "aset_switch (ar_typenumber s a) inx1 data (ar_base s a) k s = Inr (r, s')"
    using assms(1) by (auto simp: N_OP_aset2_def split: option.splits)
  then show ?thesis using index2_bounds [OF k(1) assms(2)] aset_stores [OF k(2)] by blast
qed


section \<open>On a concrete state\<close>

text \<open>A 3 by 4 array of bits at 0x600000, with its header at 0x500010.\<close>

definition vm_2d :: vm where
  "vm_2d = vm0\<lparr>mem := (mem vm0)(0x500010 := 0x600000, 0x500012 := 0x0, 0x500014 := 3, 0x500016 := 12, 0x500018 := 4),
     gc := (gc vm0)\<lparr>mds_typetbl := (\<lambda>i. if i = 0x2800 then 15 else 0)\<rparr>\<rparr>"

lemma vm_2d_facts:
  "GetTypeNumber vm_2d 0x500010 = TYPE_TWOD_ARRAY" "ar_Dim0 vm_2d 0x500010 = 3" "ar_Dim1 vm_2d 0x500010 = 4"
  "ar_base vm_2d 0x500010 = 0x600000" "ar_typenumber vm_2d 0x500010 = 0"
  "N_GetPos vm_2d 0xE0001 = Some 1" "N_GetPos vm_2d 0xE0002 = Some 2"
  by (simp_all add: GetTypeNumber_def GetTypeEntry_def vm_2d_def TYPE_TWOD_ARRAY_def ar_Dim0_def ar_Dim1_def
      ar_base_def ar_typenumber_def rd_def getcell_def POINTERMASK_def N_GetPos_def SEGMASK_def S_POSITIVE_def)

lemma vm_2d_store: "\<exists>s'. aset_switch 0 tos 0xE0001 0x600000 i vm_2d = Inr (0xE0001, s')"
  by (simp add: aset_switch_def vm_2d_facts Let_def)

text \<open>
  A state with a free FLOATP cell, a boxed 1.0 at 0x400040, and an array of floats at 0x700000.
\<close>

definition vm_flt :: vm where
  "vm_flt = vm0\<lparr>mem := (mem vm0)(0x141038 := 2, 0x14103A := 0x400010, 0x400010 := 0x400020, 0x400040 := 0x3F800000),
     gc := (gc vm0)\<lparr>mds_typetbl := (\<lambda>i. if i = 0x2000 then 3 else 0)\<rparr>\<rparr>"

lemma vm_flt_store:
  "aset_switch 54 tos 0x400040 0x700000 1 vm_flt = Inr (0x400040, wr 0x700002 0x3F800000 vm_flt)"
  "rd vm_flt 0x400040 = 0x3F800000"
  by (simp_all add: aset_switch_def GetTypeNumber_def GetTypeEntry_def vm_flt_def TYPE_FLOATP_def cell_at_def rd_def getcell_def)

lemma vm_flt_box:
  defines "s \<equiv> wr 0x700002 0x3F800000 vm_flt"
  shows "box_ready s TYPE_FLOATP" "box_apart s TYPE_FLOATP (cell_at 0x700000 1)"
proof -
  have d: "GetDTD TYPE_FLOATP = 0x141036" by (simp add: GetDTD_def DTD_OFFSET_def TYPE_FLOATP_def)
  have sz: "dtd_size s 0x141036 = 2" "dtd_free s 0x141036 = 0x400010"
    by (simp_all add: dtd_size_def dtd_free_def s_def rd_wr lo_word_def) (simp_all add: vm_flt_def rd_def getcell_def)
  have nb: "new_box s TYPE_FLOATP = 0x400010" by (simp add: new_box_def d sz POINTERMASK_def)
  have ap: "cell_apart s 0x141036 0x400010" unfolding cell_apart_def sz by (auto simp: less_2_cases_iff cell_of_def)
  have ty: "RefCntP s 0x400010" "GetTypeNumber s 0x400010 = TYPE_FLOATP"
    by (simp_all add: s_def RefCntP_def GetTypeNumber_def GetTypeEntry_def vm_flt_def vm0_def gctab0_def ATOM_T_def
        NIL_def TT_NOREF_def TYPE_FLOATP_def)
  have "gc_ptr 0x400010" by (simp add: gc_ptr_def ht_hiptr_def HTHIMASK_def POINTERMASK_def)
  then have cr: "counts_ready s 0x400010 DELREF"
    using typetbl_irrelevant by (simp add: counts_ready_def s_def vm_flt_def vm0_def)
  show "box_ready s TYPE_FLOATP"
    using ap ty cr by (simp add: box_ready_def Let_def d sz nb NIL_def SEGMASK_def S_POSITIVE_def S_NEGATIVE_def)
  show "box_apart s TYPE_FLOATP (cell_at 0x700000 1)"
    unfolding box_apart_def d sz nb by (auto simp: less_2_cases_iff cell_of_def cell_at_def)
qed

lemma aset_aref_witness:
  "(\<exists>s' p. aset_switch 0 0xE0002 0xE0001 0x600000 6 vm_2d = Inr (0xE0001, s') \<and>
     aref_switch calc0 0 0xE0002 0x600000 6 s' = Inr (p, s') \<and> N_GetPos s' p = Some 1) \<and>
   (\<exists>s'. aset_switch 54 0xE0001 0x400040 0x700000 1 vm_flt = Inr (0x400040, s') \<and>
     boxed_float (aref_switch calc0 54 0xE0001 0x700000 1 s') 0x3F800000)"
proof -
  obtain s' where s': "aset_switch 0 0xE0002 0xE0001 0x600000 6 vm_2d = Inr (0xE0001, s')" using vm_2d_store by blast
  then have "\<exists>p. aref_switch calc0 0 0xE0002 0x600000 6 s' = Inr (p, s') \<and> N_GetPos s' p = Some 1"
    using aset_aref [OF s', of calc0] by (auto simp: vm_2d_facts)
  moreover have "boxed_float (aref_switch calc0 54 0xE0001 0x700000 1 (wr 0x700002 0x3F800000 vm_flt)) 0x3F800000"
    using aset_aref [OF vm_flt_store(1), of calc0 "0xE0001"] vm_flt_box vm_flt_store(2) by simp
  ultimately show ?thesis using s' vm_flt_store(1) by blast
qed

lemma aset_leaves_others_witness:
  "\<exists>s'. aset_switch 0 0xE0002 0xE0001 0x600000 6 vm_2d = Inr (0xE0001, s') \<and>
     elem 0 (mem s') 0x600000 7 = elem 0 (mem vm_2d) 0x600000 7"
proof -
  obtain s' where s': "aset_switch 0 0xE0002 0xE0001 0x600000 6 vm_2d = Inr (0xE0001, s')" using vm_2d_store by blast
  have "in_reach 0x600000 6" "in_reach 0x600000 7" by (simp_all add: in_reach_def bit_simps)
  from aset_leaves_others [OF s' this] s' show ?thesis by auto
qed

lemma array_store_in_bounds_witness:
  "\<exists>s' k. N_OP_aset2 0xE0001 0x500010 0xE0001 0xE0002 vm_2d = Inr (0xE0001, s') \<and> sint k = 6 \<and>
     mem s' = put_elem 0 0x600000 k (elem_of vm_2d 0 0xE0001) (mem vm_2d)"
proof -
  have i: "index2 vm_2d 0x500010 0xE0001 0xE0002 = Some 6"
    by (simp add: index2_def vm_2d_facts)
  obtain s' where s': "aset_switch 0 0xE0002 0xE0001 0x600000 6 vm_2d = Inr (0xE0001, s')" using vm_2d_store by blast
  have r: "N_OP_aset2 0xE0001 0x500010 0xE0001 0xE0002 vm_2d = Inr (0xE0001, s')"
    by (simp add: N_OP_aset2_def i vm_2d_facts s')
  have "fits (sint (ar_Dim0 vm_2d 0x500010) * sint (ar_Dim1 vm_2d 0x500010) - 1)"
    by (simp add: vm_2d_facts fits_def)
  from array_store_in_bounds [OF r this] r show ?thesis by (auto simp: vm_2d_facts)
qed

end
