(* ===== verification/Equality.thy ===== *)
theory Equality
  imports Lisp_Arrays
begin

text \<open>
  The equality opcodes of \<open>src/eqf.c\<close>, on the numbers of \<open>Numbers\<close>.
\<close>

definition TT_NUMBERP :: DLword where "TT_NUMBERP = 0x1000"

definition f_eq :: "32 word \<Rightarrow> 32 word \<Rightarrow> bool" where
  "f_eq x y \<longleftrightarrow> \<not> f_nan x \<and> \<not> f_nan y \<and> f_key x = f_key y"

definition truth :: "bool \<Rightarrow> LispPTR" where "truth b = (if b then ATOM_T else NIL)"

definition smallp :: "LispPTR \<Rightarrow> bool" where
  "smallp x \<longleftrightarrow> SEGMASK AND x = S_POSITIVE \<or> SEGMASK AND x = S_NEGATIVE"

text \<open>The segments of the old atoms, the characters and the small numbers (\<open>IF_IMMEDIATE\<close>).\<close>

definition immediate :: "LispPTR \<Rightarrow> bool" where
  "immediate x \<longleftrightarrow> SEGMASK AND x = 0 \<or> SEGMASK AND x = S_CHARACTER \<or> smallp x"

definition N_OP_clequal :: "LispPTR \<Rightarrow> LispPTR \<Rightarrow> vm \<Rightarrow> LispPTR res" where
  "N_OP_clequal arg1 arg2 s =
     (if arg2 = arg1 then Inr ATOM_T
      else if immediate arg1 then Inr NIL
      else if immediate arg2 then Inr NIL
      else if Numberp s arg1 \<and> \<not> Numberp s arg2 then Inr NIL
      else if \<not> Numberp s arg1 \<and> Numberp s arg2 then Inr NIL
      else if \<not> Numberp s arg1 then Inl (Ufn arg2)
      else if GetTypeNumber s arg1 \<noteq> GetTypeNumber s arg2 then Inr NIL
      else if GetTypeNumber s arg1 = TYPE_FIXP then Inr (truth (rd s arg1 = rd s arg2))
      else if GetTypeNumber s arg1 = TYPE_FLOATP then Inr (truth (f_eq (rd s arg1) (rd s arg2)))
      else Inl (Ufn arg2))"

definition N_OP_eqlop :: "LispPTR \<Rightarrow> LispPTR \<Rightarrow> vm \<Rightarrow> LispPTR res" where
  "N_OP_eqlop arg1 arg2 s =
     (if arg2 = arg1 then Inr ATOM_T
      else if immediate arg1 then Inr NIL
      else if immediate arg2 then Inr NIL
      else if GetTypeNumber s arg1 \<noteq> GetTypeNumber s arg2 then Inr NIL
      else if GetTypeNumber s arg1 = TYPE_FIXP then Inr (truth (rd s arg1 = rd s arg2))
      else if GetTypeNumber s arg1 = TYPE_FLOATP then Inr (truth (f_eq (rd s arg1) (rd s arg2)))
      else if Numberp s arg1 then Inl (Ufn arg2) else Inr NIL)"

text \<open>
  In \<open>IL:EQUAL\<close> a small first argument jumps over the test of the second one, which then only
  stops at an immediate object.
\<close>

definition N_OP_equal :: "calc \<Rightarrow> LispPTR \<Rightarrow> LispPTR \<Rightarrow> vm \<Rightarrow> LispPTR res" where
  "N_OP_equal E arg1 arg2 s =
     (if arg2 = arg1 then Inr ATOM_T
      else if immediate arg1 \<and> \<not> smallp arg1 then Inr NIL
      else if smallp arg1 \<and> immediate arg2 then Inr NIL
      else if immediate arg2 \<and> \<not> smallp arg2 then Inr NIL
      else if Numberp s arg1 \<and> \<not> Numberp s arg2 then Inr NIL
      else if \<not> Numberp s arg1 \<and> Numberp s arg2 then Inr NIL
      else if \<not> Numberp s arg1 then Inl (Ufn arg2)
      else if GetTypeNumber s arg1 = GetTypeNumber s arg2
      then (if GetTypeNumber s arg1 = TYPE_SMALLP then Inr NIL
            else if GetTypeNumber s arg1 = TYPE_FIXP then Inr (truth (rd s arg1 = rd s arg2))
            else if GetTypeNumber s arg1 = TYPE_FLOATP then Inr (truth (f_eq (rd s arg1) (rd s arg2)))
            else Inl (Ufn arg2))
      else if GetTypeNumber s arg1 = TYPE_FLOATP \<or> GetTypeNumber s arg2 = TYPE_FLOATP
      then two_numbers (N_MakeFloat E s arg1) (N_MakeFloat E s arg2) (Inl (Ufn arg2))
             (\<lambda>f1 f2. Inr (truth (f_eq f1 f2)))
      else Inr NIL)"

definition N_OP_eqq :: "calc \<Rightarrow> LispPTR \<Rightarrow> LispPTR \<Rightarrow> vm \<Rightarrow> LispPTR res" where
  "N_OP_eqq E arg1 arg2 s =
     (let t1 = GetTypeNumber s arg1; t2 = GetTypeNumber s arg2;
          known = (\<lambda>t. t = TYPE_SMALLP \<or> t = TYPE_FIXP \<or> t = TYPE_FLOATP)
      in if GetTypeEntry s arg1 AND TT_NUMBERP = 0 then Inl (Ufn arg2)
         else if arg2 = arg1 then Inr ATOM_T
         else if GetTypeEntry s arg2 AND TT_NUMBERP = 0 then Inl (Ufn arg2)
         else if \<not> known t1 \<or> \<not> known t2 then Inl (Ufn arg2)
         else if t1 = TYPE_FLOATP \<or> t2 = TYPE_FLOATP
         then two_numbers (N_MakeFloat E s arg1) (N_MakeFloat E s arg2) (Inl (Ufn arg2))
                (\<lambda>f1 f2. Inr (truth (f_eq f1 f2)))
         else if t1 = TYPE_FIXP \<and> t2 = TYPE_FIXP then Inr (truth (rd s arg1 = rd s arg2))
         else Inr NIL)"

section \<open>The equality opcodes agree on numbers\<close>

text \<open>An object of a number type that is stored in a box of its own.\<close>

definition boxed :: "vm \<Rightarrow> LispPTR \<Rightarrow> bool" where
  "boxed s x \<longleftrightarrow> \<not> immediate x \<and> Numberp s x \<and> GetTypeNumber s x \<in> {TYPE_FIXP, TYPE_FLOATP}"

lemma boxed_float: "boxed s x \<Longrightarrow> GetTypeNumber s x = TYPE_FLOATP \<Longrightarrow> N_MakeFloat E s x = Some (rd s x)"
  by (simp add: boxed_def immediate_def smallp_def N_MakeFloat_def)

lemma boxed_converts: "boxed s x \<Longrightarrow> \<exists>f. N_MakeFloat E s x = Some f"
  by (auto simp: boxed_def immediate_def smallp_def N_MakeFloat_def)

text \<open>
  C19. On two boxed numbers of the same type the four equality opcodes give the same answer: T for
  the same object (even one that holds a NaN), otherwise equality of the integers, or equality of
  the floats with the two zeros equal. On an integer and a float, \<open>EQL\<close> and \<open>CL:EQUAL\<close> answer NIL, while
  \<open>IL:EQUAL\<close> and \<open>CL:=\<close> compare the floats the two convert to. (The head of \<open>eqf.c\<close> says that
  \<open>CL:=\<close> converts integers to floating point first; for two integers it does not, and tells
  16777216 from 16777217, which convert to the same float.)
\<close>

theorem equality_agrees:
  assumes "boxed s x" "boxed s y"
  shows "if GetTypeNumber s x = GetTypeNumber s y
    then N_OP_eqlop x y s = N_OP_clequal x y s \<and> N_OP_equal E x y s = N_OP_clequal x y s \<and>
      N_OP_eqq E x y s = N_OP_clequal x y s \<and>
      N_OP_clequal x y s = Inr (truth (x = y \<or> (if GetTypeNumber s x = TYPE_FIXP then rd s x = rd s y
                                               else f_eq (rd s x) (rd s y))))
    else N_OP_eqlop x y s = Inr NIL \<and> N_OP_clequal x y s = Inr NIL \<and> N_OP_equal E x y s = N_OP_eqq E x y s \<and>
      (\<exists>f g. N_MakeFloat E s x = Some f \<and> N_MakeFloat E s y = Some g \<and> N_OP_eqq E x y s = Inr (truth (f_eq f g)))"
proof -
  have ty: "GetTypeNumber s x = TYPE_FIXP \<or> GetTypeNumber s x = TYPE_FLOATP"
    "GetTypeNumber s y = TYPE_FIXP \<or> GetTypeNumber s y = TYPE_FLOATP"
    using assms by (auto simp: boxed_def)
  have ne: "TYPE_FIXP \<noteq> TYPE_FLOATP" "TYPE_FIXP \<noteq> TYPE_SMALLP" "TYPE_FLOATP \<noteq> TYPE_SMALLP"
    by (simp_all add: type_defs)
  have b: "\<not> immediate x" "\<not> immediate y" "\<not> smallp x" "\<not> smallp y" "Numberp s x" "Numberp s y"
    using assms(1,2) by (auto simp: boxed_def immediate_def)
  have n: "GetTypeEntry s x AND TT_NUMBERP \<noteq> 0" "GetTypeEntry s y AND TT_NUMBERP \<noteq> 0"
    using b(5,6) by (simp_all add: Numberp_def TT_NUMBERP_def)
  obtain f g where fg: "N_MakeFloat E s x = Some f" "N_MakeFloat E s y = Some g"
    using boxed_converts [OF assms(1), of E] boxed_converts [OF assms(2), of E] by blast
  have f: "GetTypeNumber s x = TYPE_FLOATP \<Longrightarrow> f = rd s x" "GetTypeNumber s y = TYPE_FLOATP \<Longrightarrow> g = rd s y"
    using boxed_float assms fg by simp_all
  show ?thesis
  proof (cases "GetTypeNumber s x = GetTypeNumber s y")
    case True
    then show ?thesis using ty(1) ne ne [symmetric] b n f fg
      by (cases "x = y")
         (auto simp: N_OP_eqlop_def N_OP_clequal_def N_OP_equal_def N_OP_eqq_def Let_def truth_def two_numbers_def)
  next
    case False
    then have xy: "y \<noteq> x" by blast
    have "N_OP_eqlop x y s = Inr NIL" "N_OP_clequal x y s = Inr NIL"
      using False xy b by (simp_all add: N_OP_eqlop_def N_OP_clequal_def)
    moreover have "N_OP_equal E x y s = Inr (truth (f_eq f g))" "N_OP_eqq E x y s = Inr (truth (f_eq f g))"
      using False xy ty ne ne [symmetric] b n fg
      by (auto simp: N_OP_equal_def N_OP_eqq_def Let_def two_numbers_def)
    ultimately show ?thesis using False fg by simp
  qed
qed

text \<open>Two boxed integers that convert to the same float.\<close>

definition vm_eq :: vm where
  "vm_eq = vm_num\<lparr>mem := (mem vm_num)(0x400010 := 16777216, 0x400040 := 16777217),
     gc := (gc vm_num)\<lparr>mds_typetbl := (\<lambda>_. 0x1002)\<rparr>\<rparr>"

lemma equality_agrees_witness:
  "N_OP_eqlop 0x400010 0x400040 vm_eq = Inr NIL \<and> N_OP_eqq calc0 0x400010 0x400040 vm_eq = Inr NIL"
proof -
  have t: "GetTypeNumber vm_eq x = TYPE_FIXP" "Numberp vm_eq x" for x
    by (simp_all add: vm_eq_def GetTypeNumber_def Numberp_def GetTypeEntry_def TYPE_FIXP_def)
  have "\<not> immediate 0x400010" "\<not> immediate 0x400040"
    by (simp_all add: immediate_def smallp_def SEGMASK_def S_CHARACTER_def S_POSITIVE_def S_NEGATIVE_def)
  then have b: "boxed vm_eq 0x400010" "boxed vm_eq 0x400040" using t by (simp_all add: boxed_def)
  have v: "rd vm_eq 0x400010 \<noteq> rd vm_eq 0x400040"
    by (simp add: rd_def getcell_def vm_eq_def)
  show ?thesis using equality_agrees [OF b, of calc0] v by (simp add: t truth_def)
qed

end
