(* ===== verification/Opcodes.thy ===== *)
theory Opcodes
  imports Equality
begin

text \<open>
  The opcodes that the interpreter loop expands in line: \<open>inc/tos1defs.h\<close>,
  \<open>inc/inlineC.h\<close> and, out of line, \<open>src/binds.c\<close>, \<open>src/unwind.c\<close>,
  \<open>src/typeof.c\<close>, \<open>src/gvar2.c\<close> and \<open>N_OP_arg0\<close> of \<open>src/vars3.c\<close>. Definitions;
  what they promise is in \<open>Opcode_Laws\<close>.

  The registers of \<open>cpu\<close> are the C variables of the same names. Native addresses are replaced by
  the Lisp addresses they stand for; \<open>PCMAC\<close> counts bytes from the start of the Lisp memory,
  every other pointer DLwords. The top of the evaluation stack is cached in \<open>TOPOFSTACK\<close>; \<open>CSTKPTR\<close> points behind the
  rest of it in memory. A macro ends in \<open>nextop\<close>, or jumps to \<open>op_ufn\<close> (the opcode is
  handed over to Lisp) or to \<open>check_interrupt\<close>. Operand bytes are arguments.
\<close>

section \<open>The state of the interpreter loop\<close>

record cpu =
  st :: vm
  TOPOFSTACK :: LispPTR
  CSTKPTR :: LispPTR
  PCMAC :: "32 word"
  PVAR :: LispPTR
  IVAR :: LispPTR
  TopOfStack :: LispPTR
  Irq_Stk_Check :: LispPTR
  FuncObj :: LispPTR
  EndSTKP :: LispPTR

datatype op_exit = Nextop cpu | Op_ufn cpu | Check_interrupt cpu | Fault lisp_error

definition nextop :: "32 word \<Rightarrow> cpu \<Rightarrow> op_exit" where
  "nextop n c = Nextop (c\<lparr>PCMAC := PCMAC c + n\<rparr>)"

definition set_tos :: "LispPTR \<Rightarrow> cpu \<Rightarrow> cpu" where "set_tos x c = c\<lparr>TOPOFSTACK := x\<rparr>"

definition peek :: "cpu \<Rightarrow> LispPTR \<Rightarrow> LispPTR" where "peek c a = rd (st c) a"

definition poke_cell :: "LispPTR \<Rightarrow> LispPTR \<Rightarrow> cpu \<Rightarrow> cpu" where
  "poke_cell a v c = c\<lparr>st := wr a v (st c)\<rparr>"

definition HARD_PUSH :: "LispPTR \<Rightarrow> cpu \<Rightarrow> cpu" where
  "HARD_PUSH x c = c\<lparr>st := wr (CSTKPTR c) x (st c), CSTKPTR := CSTKPTR c + 2\<rparr>"

text \<open>The argument of \<open>PUSH\<close> is evaluated after the old top is in memory.\<close>

definition PUSH :: "(cpu \<Rightarrow> LispPTR) \<Rightarrow> cpu \<Rightarrow> cpu" where
  "PUSH x c = (let c1 = HARD_PUSH (TOPOFSTACK c) c in set_tos (x c1) c1)"

definition POP_TOS_1 :: "cpu \<Rightarrow> LispPTR \<times> cpu" where
  "POP_TOS_1 c = (rd (st c) (CSTKPTR c - 2), c\<lparr>CSTKPTR := CSTKPTR c - 2\<rparr>)"

definition POP :: "cpu \<Rightarrow> cpu" where
  "POP c = (let (x, c1) = POP_TOS_1 c in set_tos x c1)"

definition GET_TOS_1 :: "cpu \<Rightarrow> LispPTR" where "GET_TOS_1 c = rd (st c) (CSTKPTR c - 2)"
definition GET_TOS_2 :: "cpu \<Rightarrow> LispPTR" where "GET_TOS_2 c = rd (st c) (CSTKPTR c - 4)"

definition CHECK_INTERRUPT :: "(cpu \<Rightarrow> op_exit) \<Rightarrow> cpu \<Rightarrow> op_exit" where
  "CHECK_INTERRUPT k c = (if CSTKPTR c > Irq_Stk_Check c then Check_interrupt c else k c)"

section \<open>Variables, jumps and the stack\<close>

definition IVARMACRO :: "32 word \<Rightarrow> cpu \<Rightarrow> op_exit" where
  "IVARMACRO x c = nextop 1 (PUSH (\<lambda>c. peek c (IVAR c + 2 * x)) c)"

definition PVARMACRO :: "32 word \<Rightarrow> cpu \<Rightarrow> op_exit" where
  "PVARMACRO x c = nextop 1 (PUSH (\<lambda>c. peek c (PVAR c + 2 * x)) c)"

definition PVARSETMACRO :: "32 word \<Rightarrow> cpu \<Rightarrow> op_exit" where
  "PVARSETMACRO x c = nextop 1 (poke_cell (PVAR c + 2 * x) (TOPOFSTACK c) c)"

definition PVARSETPOPMACRO :: "32 word \<Rightarrow> cpu \<Rightarrow> op_exit" where
  "PVARSETPOPMACRO x c = nextop 1 (POP (poke_cell (PVAR c + 2 * x) (TOPOFSTACK c) c))"

definition PUSHATOM :: "LispPTR \<Rightarrow> cpu \<Rightarrow> op_exit" where
  "PUSHATOM x c = nextop 1 (PUSH (\<lambda>_. x) c)"

definition JUMPMACRO :: "32 word \<Rightarrow> cpu \<Rightarrow> op_exit" where
  "JUMPMACRO x c = CHECK_INTERRUPT (\<lambda>c. nextop x c) c"

definition FJUMPMACRO :: "32 word \<Rightarrow> cpu \<Rightarrow> op_exit" where
  "FJUMPMACRO x c =
     (if TOPOFSTACK c \<noteq> 0 then nextop 1 (POP c) else CHECK_INTERRUPT (\<lambda>c. nextop x (POP c)) c)"

definition TJUMPMACRO :: "32 word \<Rightarrow> cpu \<Rightarrow> op_exit" where
  "TJUMPMACRO x c =
     (if TOPOFSTACK c = 0 then nextop 1 (POP c) else CHECK_INTERRUPT (\<lambda>c. nextop x (POP c)) c)"

definition PVARX :: "32 word \<Rightarrow> cpu \<Rightarrow> op_exit" where
  "PVARX x c = nextop 2 (PUSH (\<lambda>c. peek c (PVAR c + x)) c)"
definition PVARX_set :: "32 word \<Rightarrow> cpu \<Rightarrow> op_exit" where
  "PVARX_set x c = nextop 2 (poke_cell (PVAR c + x) (TOPOFSTACK c) c)"
definition IVARX :: "32 word \<Rightarrow> cpu \<Rightarrow> op_exit" where
  "IVARX x c = nextop 2 (PUSH (\<lambda>c. peek c (IVAR c + x)) c)"
definition IVARX_set :: "32 word \<Rightarrow> cpu \<Rightarrow> op_exit" where
  "IVARX_set x c = nextop 2 (poke_cell (IVAR c + x) (TOPOFSTACK c) c)"

definition COPY :: "cpu \<Rightarrow> op_exit" where
  "COPY c = nextop 1 (HARD_PUSH (TOPOFSTACK c) c)"

definition SWAP :: "cpu \<Rightarrow> op_exit" where
  "SWAP c = (let temp = GET_TOS_1 c
             in nextop 1 (set_tos temp (poke_cell (CSTKPTR c - 2) (TOPOFSTACK c) c)))"

text \<open>The operand of the next three counts DLwords.\<close>

definition STOREN :: "32 word \<Rightarrow> cpu \<Rightarrow> op_exit" where
  "STOREN n c = nextop 2 (poke_cell (CSTKPTR c - 2 * drop_bit 1 (n + 2)) (TOPOFSTACK c) c)"
definition COPYN :: "32 word \<Rightarrow> cpu \<Rightarrow> op_exit" where
  "COPYN n c = nextop 2 (PUSH (\<lambda>c. peek c (CSTKPTR c - 2 * drop_bit 1 (n + 2))) c)"
definition POPN :: "32 word \<Rightarrow> cpu \<Rightarrow> op_exit" where
  "POPN n c = (let c1 = c\<lparr>CSTKPTR := CSTKPTR c - 2 * (n + 1)\<rparr>
               in nextop 2 (set_tos (peek c1 (CSTKPTR c1)) c1))"

section \<open>Address and field opcodes\<close>

definition N_OP_VAG2 :: "cpu \<Rightarrow> op_exit" where
  "N_OP_VAG2 c = nextop 1 (set_tos (push_bit 16 (GET_TOS_1 c) OR (0xFFFF AND TOPOFSTACK c)) c
                             \<lparr>CSTKPTR := CSTKPTR c - 2\<rparr>)"
definition N_OP_HILOC :: "cpu \<Rightarrow> op_exit" where
  "N_OP_HILOC c = nextop 1 (set_tos (ucast (hi_word (TOPOFSTACK c)) OR S_POSITIVE) c)"
definition N_OP_LOLOC :: "cpu \<Rightarrow> op_exit" where
  "N_OP_LOLOC c = nextop 1 (set_tos (ucast (lo_word (TOPOFSTACK c)) OR S_POSITIVE) c)"

definition GETBASE_N :: "32 word \<Rightarrow> cpu \<Rightarrow> op_exit" where
  "GETBASE_N n c =
     nextop 2 (set_tos (S_POSITIVE OR ucast (getword (mem (st c)) ((POINTERMASK AND TOPOFSTACK c) + n))) c)"
definition GETBASEPTR_N :: "32 word \<Rightarrow> cpu \<Rightarrow> op_exit" where
  "GETBASEPTR_N n c =
     nextop 2 (set_tos (POINTERMASK AND peek c ((POINTERMASK AND TOPOFSTACK c) + n)) c)"
definition PUTBASEPTR_N :: "32 word \<Rightarrow> cpu \<Rightarrow> op_exit" where
  "PUTBASEPTR_N n c =
     (let (p, c1) = POP_TOS_1 c; base = POINTERMASK AND p
      in nextop 2 (set_tos base (poke_cell (base + n) (TOPOFSTACK c1) c1)))"
definition PUTBASE_N :: "32 word \<Rightarrow> cpu \<Rightarrow> op_exit" where
  "PUTBASE_N n c =
     (if ucast (hi_word (TOPOFSTACK c)) \<noteq> drop_bit 16 S_POSITIVE then Op_ufn c
      else (let (p, c1) = POP_TOS_1 c; base = POINTERMASK AND p
            in nextop 2 (set_tos base
                 (c1\<lparr>st := poke (putword (base + n) (lo_word (TOPOFSTACK c1)) (mem (st c1))) (st c1)\<rparr>))))"

text \<open>
  The two byte opcodes add an unsigned 32-bit number of bytes to a native pointer. On the 64-bit
  machines an offset of a negative small number points about 4 GB behind the base, outside the
  Lisp memory of at most \<open>2 ^ 29\<close> bytes.
\<close>

definition byte_inside :: "LispPTR \<Rightarrow> 32 word \<Rightarrow> bool" where
  "byte_inside base off \<longleftrightarrow> 2 * uint base + uint off < 2 ^ 29"

definition PUTBASEBYTE :: "cpu \<Rightarrow> op_exit" where
  "PUTBASEBYTE c =
     (if SEGMASK AND TOPOFSTACK c \<noteq> S_POSITIVE \<or> (TOPOFSTACK c AND 0xFFFF) \<ge> 256 then Op_ufn c
      else (let b = GET_TOS_1 c;
                off = (if SEGMASK AND b = S_POSITIVE then Some (b AND 0xFFFF)
                       else if SEGMASK AND b = S_NEGATIVE then Some (b OR 0xFFFF0000) else None)
            in case off of None \<Rightarrow> Op_ufn c
               | Some byteoffset \<Rightarrow>
                   (let (p, c1) = POP_TOS_1 (c\<lparr>CSTKPTR := CSTKPTR c - 2\<rparr>); base = POINTERMASK AND p
                    in if byte_inside base byteoffset
                       then nextop 1 (c1\<lparr>st := poke (putbyte base byteoffset (ucast (TOPOFSTACK c1)) (mem (st c1))) (st c1)\<rparr>)
                       else Fault (Fatal ''access outside Lisp memory''))))"

definition GETBASEBYTE :: "cpu \<Rightarrow> op_exit" where
  "GETBASEBYTE c =
     (let t = TOPOFSTACK c;
          off = (if SEGMASK AND t = S_POSITIVE then Some (t AND 0xFFFF)
                 else if SEGMASK AND t = S_NEGATIVE then Some (t OR 0xFFFF0000)
                 else if GetTypeNumber (st c) t = TYPE_FIXP then Some (rd (st c) t) else None)
      in case off of None \<Rightarrow> Op_ufn c
         | Some n \<Rightarrow>
             (let (p, c1) = POP_TOS_1 c; base = POINTERMASK AND p
              in if byte_inside base n
                 then nextop 1 (set_tos (S_POSITIVE OR ucast (getbyte (mem (st c1)) base n)) c1)
                 else Fault (Fatal ''access outside Lisp memory'')))"

definition n_mask_array :: "nat \<Rightarrow> DLword" where "n_mask_array n = mask (n + 1)"

text \<open>The second operand holds the first bit in its high half and the size less one in the low one.\<close>

definition GETBITS_N_M :: "32 word \<Rightarrow> nat \<Rightarrow> cpu \<Rightarrow> op_exit" where
  "GETBITS_N_M a bb c =
     (let temp = bb mod 16
      in nextop 3 (set_tos (S_POSITIVE OR
           ucast (drop_bit (16 - (bb div 16 mod 16 + temp + 1)) (getword (mem (st c)) (POINTERMASK AND (TOPOFSTACK c + a)))
                  AND n_mask_array temp)) c))"

definition PUTBITS_N_M :: "32 word \<Rightarrow> nat \<Rightarrow> cpu \<Rightarrow> op_exit" where
  "PUTBITS_N_M a bb c =
     (if SEGMASK AND TOPOFSTACK c \<noteq> S_POSITIVE then Op_ufn c
      else
        (let (p, c1) = POP_TOS_1 c; base = POINTERMASK AND p;
             field_size = bb mod 16;
             shift_size = 15 - bb div 16 mod 16 - field_size;
             fmask = push_bit shift_size (n_mask_array field_size);
             w = getword (mem (st c1)) (base + a)
         in nextop 3 (set_tos base (c1\<lparr>st := poke (putword (base + a)
              ((push_bit shift_size (ucast (TOPOFSTACK c1)) AND fmask) OR (w AND NOT fmask)) (mem (st c1))) (st c1)\<rparr>))))"

section \<open>Lists in line\<close>

definition OPCAR :: "cpu \<Rightarrow> op_exit" where
  "OPCAR c =
     (let t = TOPOFSTACK c; s = st c
      in if Listp s t
         then (if cdr_code s t = CDR_INDIRECT then nextop 1 (set_tos (car_field s (car_field s t)) c)
               else nextop 1 (set_tos (car_field s t) c))
         else if t = NIL then nextop 1 c
         else if t = ATOM_T then nextop 1 c
         else Op_ufn c)"

definition OPCDR :: "cpu \<Rightarrow> op_exit" where
  "OPCDR c =
     (let t = TOPOFSTACK c; s = st c; CDRCODEX = cdr_code s t
      in if Listp s t
         then (if CDRCODEX = CDR_NIL then nextop 1 (set_tos NIL c)
               else if CDRCODEX > CDR_ONPAGE then nextop 1 (set_tos (t + push_bit 1 (CDRCODEX AND 7)) c)
               else if CDRCODEX = CDR_INDIRECT
               then (case cdr s (car_field s t) of Inl e \<Rightarrow> Fault e | Inr d \<Rightarrow> nextop 1 (set_tos d c))
               else nextop 1 (set_tos (car_field s (t + push_bit 1 CDRCODEX)) c))
         else if t = NIL then nextop 1 c
         else Op_ufn c)"


section \<open>Types\<close>

definition LISTP :: "cpu \<Rightarrow> op_exit" where
  "LISTP c = nextop 1 (if GetTypeNumber (st c) (TOPOFSTACK c) \<noteq> TYPE_LISTP then set_tos NIL c else c)"
definition NTYPEX :: "cpu \<Rightarrow> op_exit" where
  "NTYPEX c = nextop 1 (set_tos (S_POSITIVE OR ucast (GetTypeNumber (st c) (TOPOFSTACK c))) c)"
definition TYPEP :: "DLword \<Rightarrow> cpu \<Rightarrow> op_exit" where
  "TYPEP n c = nextop 2 (if GetTypeNumber (st c) (TOPOFSTACK c) \<noteq> n then set_tos NIL c else c)"
definition TYPEMASK :: "DLword \<Rightarrow> cpu \<Rightarrow> op_exit" where
  "TYPEMASK n c =
     nextop 2 (if GetTypeEntry (st c) (TOPOFSTACK c) AND push_bit 8 n = 0 then set_tos NIL c else c)"

text \<open>
  The walk up the supertypes from a type descriptor: whether it meets the descriptor with the given
  name before one without a supertype.
\<close>

partial_function (option) type_walk :: "vm \<Rightarrow> LispPTR \<Rightarrow> LispPTR \<Rightarrow> bool option" where
  "type_walk s name d =
     (if name = dtd_name s d then Some True
      else if dtd_supertype s d = 0 then Some False
      else type_walk s name (GetDTD (dtd_supertype s d)))"

declare type_walk.simps [code]

definition N_OP_instancep :: "LispPTR \<Rightarrow> LispPTR \<Rightarrow> vm \<Rightarrow> LispPTR res" where
  "N_OP_instancep tos atom_index s =
     rbind (of_loop (type_walk s atom_index (GetDTD (GetTypeNumber s tos)))) (\<lambda>b. Inr (truth b))"

definition INSTANCEP :: "LispPTR \<Rightarrow> cpu \<Rightarrow> op_exit" where
  "INSTANCEP atom_index c =
     (case N_OP_instancep (TOPOFSTACK c) atom_index (st c) of
        Inl e \<Rightarrow> Fault e | Inr r \<Rightarrow> nextop 5 (set_tos r c))"

definition DTEST :: "LispPTR \<Rightarrow> cpu \<Rightarrow> op_exit" where
  "DTEST n c =
     (case type_walk (st c) n (GetDTD (GetTypeNumber (st c) (TOPOFSTACK c))) of
        None \<Rightarrow> Fault Diverges
      | Some True \<Rightarrow> nextop 5 c
      | Some False \<Rightarrow> Op_ufn c)"

section \<open>Atoms and reference-counted stores\<close>

definition NEWATOM_PNAME_OFFSET :: "32 word" where "NEWATOM_PNAME_OFFSET = 0"
definition NEWATOM_VALUE_OFFSET :: "32 word" where "NEWATOM_VALUE_OFFSET = 2"
definition NEWATOM_DEFN_OFFSET :: "32 word" where "NEWATOM_DEFN_OFFSET = 4"
definition NEWATOM_PLIST_OFFSET :: "32 word" where "NEWATOM_PLIST_OFFSET = 6"
definition ATOMS_HI :: "32 word" where "ATOMS_HI = 44"
definition TYPE_NEWATOM :: DLword where "TYPE_NEWATOM = 21"

text \<open>The value cell of an atom: an old one is an index into the atom space, a new one a pointer.\<close>

definition value_cell :: "LispPTR \<Rightarrow> LispPTR" where
  "value_cell tx = (if tx AND SEGMASK \<noteq> 0 then tx + NEWATOM_VALUE_OFFSET
                    else push_bit 16 ATOMS_HI + 2 * (tx * 5 + 1))"

definition GVAR :: "LispPTR \<Rightarrow> cpu \<Rightarrow> op_exit" where
  "GVAR x c = nextop 5 (PUSH (\<lambda>c. peek c (value_cell x)) c)"

text \<open>\<open>FRPLPTR\<close> on a field of 28 bits, whose cell keeps its top 4 bits.\<close>

definition FRPLPTR :: "LispPTR \<Rightarrow> LispPTR \<Rightarrow> vm \<Rightarrow> vm res" where
  "FRPLPTR slot new s =
     rbind (GCLOOKUP new ADDREF s) (\<lambda>s1.
     rbind (GCLOOKUP (rd s1 slot AND POINTERMASK) DELREF s1) (\<lambda>s2.
     Inr (wr slot ((rd s2 slot AND 0xF0000000) OR (new AND POINTERMASK)) s2)))"

definition N_OP_gvar_set :: "LispPTR \<Rightarrow> LispPTR \<Rightarrow> vm \<Rightarrow> (LispPTR \<times> vm) res" where
  "N_OP_gvar_set tos atom_index s = rbind (FRPLPTR (value_cell atom_index) tos s) (\<lambda>s1. Inr (tos, s1))"

definition N_OP_rplptr :: "LispPTR \<Rightarrow> LispPTR \<Rightarrow> 32 word \<Rightarrow> vm \<Rightarrow> (LispPTR \<times> vm) res" where
  "N_OP_rplptr tos_m_1 tos alpha s = rbind (FRPLPTR (tos_m_1 + alpha) tos s) (\<lambda>s1. Inr (tos_m_1, s1))"

definition GVAR_set :: "LispPTR \<Rightarrow> cpu \<Rightarrow> op_exit" where
  "GVAR_set atom_index c =
     (case N_OP_gvar_set (TOPOFSTACK c) atom_index (st c) of
        Inl e \<Rightarrow> Fault e | Inr (_, s) \<Rightarrow> nextop 5 (c\<lparr>st := s\<rparr>))"

definition RPLPTR :: "32 word \<Rightarrow> cpu \<Rightarrow> op_exit" where
  "RPLPTR n c =
     (let (p, c1) = POP_TOS_1 c
      in case N_OP_rplptr p (TOPOFSTACK c1) n (st c1) of
           Inl e \<Rightarrow> Fault e | Inr (r, s) \<Rightarrow> nextop 2 (set_tos r (c1\<lparr>st := s\<rparr>)))"

text \<open>The cell of an atom named by one of the four old segment numbers.\<close>

definition atom_cell_offset :: "32 word \<Rightarrow> 32 word option" where
  "atom_cell_offset nn =
     (if nn = 2 then Some NEWATOM_PLIST_OFFSET else if nn = 8 then Some NEWATOM_PNAME_OFFSET
      else if nn = 12 then Some NEWATOM_VALUE_OFFSET else if nn = 10 then Some NEWATOM_DEFN_OFFSET else None)"

definition ATOMCELL_N :: "32 word \<Rightarrow> cpu \<Rightarrow> op_exit" where
  "ATOMCELL_N nn c =
     (let t = TOPOFSTACK c AND POINTERMASK; c1 = set_tos t c
      in if t AND SEGMASK = 0
         then (case atom_cell_offset nn of None \<Rightarrow> Op_ufn c1
               | Some off \<Rightarrow> nextop 2 (set_tos (push_bit 16 ATOMS_HI + 10 * t + off) c1))
         else if TYPE_NEWATOM = GetTypeNumber (st c1) t
         then (case atom_cell_offset nn of None \<Rightarrow> Op_ufn c1 | Some off \<Rightarrow> nextop 2 (set_tos (t + off) c1))
         else Op_ufn c1)"

definition GCREF :: "refcase \<Rightarrow> cpu \<Rightarrow> op_exit" where
  "GCREF n c =
     (case GCLOOKUPV (TOPOFSTACK c) n (st c) of
        Inl e \<Rightarrow> Fault e | Inr (v, s) \<Rightarrow> nextop 2 (set_tos v (c\<lparr>st := s\<rparr>)))"

section \<open>Frames\<close>

definition FRAMESIZE :: "32 word" where "FRAMESIZE = 10"
definition BFSIZE :: "32 word" where "BFSIZE = 2"
definition STK_OFFSET :: LispPTR where "STK_OFFSET = 0x10000"
definition CURRENTFX :: "cpu \<Rightarrow> LispPTR" where "CURRENTFX c = PVAR c - FRAMESIZE"
definition fx_alink :: "vm \<Rightarrow> LispPTR \<Rightarrow> DLword" where "fx_alink s fx = getword (mem s) (fx + 1)"
definition fx_blink :: "vm \<Rightarrow> LispPTR \<Rightarrow> DLword" where "fx_blink s fx = getword (mem s) (fx + 8)"
definition fx_clink :: "vm \<Rightarrow> LispPTR \<Rightarrow> DLword" where "fx_clink s fx = getword (mem s) (fx + 9)"

definition MYALINK :: "cpu \<Rightarrow> op_exit" where
  "MYALINK c =
     nextop 1 (PUSH (\<lambda>c. (((ucast (fx_alink (st c) (CURRENTFX c)) AND 0xFFFE) - FRAMESIZE) OR S_POSITIVE)) c)"

text \<open>The basic frame of a frame: behind it in memory, or where the blink of a slow frame points.\<close>

definition basic_frame :: "vm \<Rightarrow> LispPTR \<Rightarrow> LispPTR" where
  "basic_frame s fx = (if bit (fx_alink s fx) 0 then STK_OFFSET + ucast (fx_blink s fx) else fx - BFSIZE)"

definition MYARGCOUNT :: "cpu \<Rightarrow> op_exit" where
  "MYARGCOUNT c =
     nextop 1 (PUSH (\<lambda>c. ucast (ucast (drop_bit 1 (basic_frame (st c) (CURRENTFX c) - IVAR c)) :: DLword) OR S_POSITIVE) c)"

definition N_OP_arg0 :: "LispPTR \<Rightarrow> cpu \<Rightarrow> LispPTR res" where
  "N_OP_arg0 tos c =
     (if SEGMASK AND tos \<noteq> S_POSITIVE then Inl (Ufn tos)
      else
        (let num = 0xFFFF AND tos; nargs = drop_bit 1 (basic_frame (st c) (CURRENTFX c) - IVAR c)
         in if num = 0 \<or> sint num > sint nargs then Inl (Ufn tos)
            else Inr (peek c (IVAR c + 2 * (num - 1)))))"

section \<open>Binding\<close>

text \<open>Stores of \<open>v\<close> in the \<open>n\<close> cells before \<open>p\<close>, and of a list of values, downwards.\<close>

primrec fill_down :: "nat \<Rightarrow> LispPTR \<Rightarrow> LispPTR \<Rightarrow> vm \<Rightarrow> vm" where
  "fill_down 0 p v s = s"
| "fill_down (Suc n) p v s = fill_down n (p - 2) v (wr (p - 2) v s)"

text \<open>\<open>for (i = 1; i < n2; i++) *--ppvar = *--stack_pointer\<close>: the next stack pointer and the state.\<close>

primrec move_down :: "nat \<Rightarrow> LispPTR \<Rightarrow> LispPTR \<Rightarrow> vm \<Rightarrow> LispPTR \<times> vm" where
  "move_down 0 p sp s = (sp, s)"
| "move_down (Suc n) p sp s = move_down n (p - 2) (sp - 2) (wr (p - 2) (rd s (sp - 2)) s)"

definition UNBOUND :: LispPTR where "UNBOUND = 0xFFFFFFFF"

definition bind_mark :: "nat \<Rightarrow> 32 word \<Rightarrow> LispPTR" where
  "bind_mark n byte2 = push_bit 16 (NOT (of_nat n)) OR push_bit 1 byte2"

text \<open>The shared part of \<open>BIND\<close> and \<open>N_OP_bind\<close>: slots to NIL, then values from the stack.\<close>

definition bind_slots :: "LispPTR \<Rightarrow> LispPTR \<Rightarrow> LispPTR \<Rightarrow> nat \<Rightarrow> nat \<Rightarrow> 32 word \<Rightarrow> vm \<Rightarrow> LispPTR \<times> vm" where
  "bind_slots pvar sp tos n1 n2 byte2 s =
     (let p = pvar + 2 * (1 + byte2);
          s1 = fill_down n1 p NIL s;
          p1 = p - 2 * of_nat n1
      in if n2 = 0 then (sp + 2, wr sp tos s1)
         else move_down (n2 - 1) (p1 - 2) sp (wr (p1 - 2) tos s1))"

definition N_OP_bind :: "LispPTR \<Rightarrow> LispPTR \<Rightarrow> LispPTR \<Rightarrow> nat \<Rightarrow> 32 word \<Rightarrow> vm \<Rightarrow> LispPTR \<times> vm" where
  "N_OP_bind pvar stack_pointer tos byte1 byte2 s =
     (let n1 = byte1 div 16; n2 = byte1 mod 16;
          (sp, s1) = bind_slots pvar stack_pointer tos n1 n2 byte2 s
      in (sp, wr sp (bind_mark (n1 + n2) byte2) s1))"

definition BIND :: "nat \<Rightarrow> 32 word \<Rightarrow> cpu \<Rightarrow> op_exit" where
  "BIND byte1 byte2 c =
     (let n1 = byte1 div 16; n2 = byte1 mod 16;
          (sp, s1) = bind_slots (PVAR c) (CSTKPTR c) (TOPOFSTACK c) n1 n2 byte2 (st c)
      in nextop 3 (set_tos (bind_mark (n1 + n2) byte2) (c\<lparr>st := s1, CSTKPTR := sp\<rparr>)))"

text \<open>The scan down to a mark, a cell with its top bit set.\<close>

partial_function (option) find_mark :: "vm \<Rightarrow> LispPTR \<Rightarrow> LispPTR option" where
  "find_mark s sp = (if bit (rd s (sp - 2)) 31 then Some (sp - 2) else find_mark s (sp - 2))"

declare find_mark.simps [code]

definition unbind_mark :: "LispPTR \<Rightarrow> LispPTR \<Rightarrow> vm \<Rightarrow> vm" where
  "unbind_mark pvar value s =
     fill_down (unat (hi_word (NOT value))) (pvar + 2 + ucast (lo_word value)) UNBOUND s"

definition N_OP_unbind :: "LispPTR \<Rightarrow> LispPTR \<Rightarrow> vm \<Rightarrow> (LispPTR \<times> vm) res" where
  "N_OP_unbind pvar stack_pointer s =
     rbind (of_loop (find_mark s stack_pointer)) (\<lambda>sp. Inr (sp, unbind_mark pvar (rd s sp) s))"

definition N_OP_dunbind :: "LispPTR \<Rightarrow> LispPTR \<Rightarrow> LispPTR \<Rightarrow> vm \<Rightarrow> (LispPTR \<times> vm) res" where
  "N_OP_dunbind pvar stack_pointer tos s =
     (if bit tos 31 then Inr (stack_pointer, unbind_mark pvar tos s) else N_OP_unbind pvar stack_pointer s)"

definition UNBIND :: "cpu \<Rightarrow> op_exit" where
  "UNBIND c =
     (case find_mark (st c) (CSTKPTR c) of None \<Rightarrow> Fault Diverges
      | Some sp \<Rightarrow> nextop 1 (c\<lparr>st := unbind_mark (PVAR c) (rd (st c) sp) (st c), CSTKPTR := sp\<rparr>))"

definition DUNBIND :: "cpu \<Rightarrow> op_exit" where
  "DUNBIND c =
     (if bit (TOPOFSTACK c) 31
      then nextop 1 (POP (c\<lparr>st := unbind_mark (PVAR c) (TOPOFSTACK c) (st c)\<rparr>))
      else case find_mark (st c) (CSTKPTR c) of None \<Rightarrow> Fault Diverges
      | Some sp \<Rightarrow> nextop 1 (POP (c\<lparr>st := unbind_mark (PVAR c) (rd (st c) sp) (st c), CSTKPTR := sp\<rparr>)))"

text \<open>
  \<open>UNWIND\<close>: every mark between \<open>endptr\<close> and the top unbinds its slots. The loop is structural in
  the number of cells.
\<close>

primrec unwind_loop :: "nat \<Rightarrow> LispPTR \<Rightarrow> LispPTR \<Rightarrow> vm \<Rightarrow> vm" where
  "unwind_loop 0 pvar sp s = s"
| "unwind_loop (Suc n) pvar sp s =
     (let num = rd s (sp - 2)
      in unwind_loop n pvar (sp - 2) (if bit num 31 then unbind_mark pvar num s else s))"

definition N_OP_unwind ::
  "LispPTR \<Rightarrow> LispPTR \<Rightarrow> LispPTR \<Rightarrow> 32 word \<Rightarrow> bool \<Rightarrow> vm \<Rightarrow> (LispPTR \<times> vm) res" where
  "N_OP_unwind pvar cstkptr tos n keep s =
     (let endptr = pvar + 2 * n
      in if endptr > cstkptr then Inl (Ufn tos)
         else
           (let s1 = wr cstkptr tos s;
                s2 = unwind_loop (unat (cstkptr + 2 - endptr) div 2) pvar (cstkptr + 2) s1
            in Inr (if keep then (endptr + 2, wr endptr tos s2) else (endptr, s2))))"

definition UNWIND :: "32 word \<Rightarrow> bool \<Rightarrow> cpu \<Rightarrow> op_exit" where
  "UNWIND n keep c =
     (case N_OP_unwind (PVAR c) (CSTKPTR c) (TOPOFSTACK c) n keep (st c) of
        Inl (Ufn t) \<Rightarrow> Op_ufn (c\<lparr>TopOfStack := t\<rparr>)
      | Inl e \<Rightarrow> Fault e
      | Inr (sp, s) \<Rightarrow> nextop 3 (POP (c\<lparr>st := s, CSTKPTR := sp\<rparr>)))"

end
