(* ===== verification/Opcode_Calls.thy ===== *)
theory Opcode_Calls
  imports Opcodes
begin

text \<open>
  The call interface between the interpreter loop and the opcode functions
  (\<open>inc/inlineC.h\<close>, \<open>UFN_CALLS\<close> and the \<open>N_OP_CALL\<close> macros), the list opcodes of
  \<open>src/vars3.c\<close> and \<open>src/z2.c\<close>, \<open>src/lowlev2.c\<close>, \<open>src/findkey.c\<close>, and the
  macros that use them. Definitions; what they promise is in \<open>Opcode_Laws\<close>.

  An opcode function returns a \<open>LispPTR\<close>, or leaves through \<open>ERROR_EXIT\<close> or
  \<open>TIMER_EXIT\<close>, which return -1 and -2 and set \<open>TopOfStack\<close> and \<open>Error_Exit\<close>. Most
  macros recognise these by the sign of the result, the unboxed ones by \<open>Error_Exit\<close>, which is
  false whenever an opcode starts.
\<close>

section \<open>Leaving an opcode\<close>

definition fix_tos_ufn :: "cpu \<Rightarrow> op_exit" where "fix_tos_ufn c = Op_ufn (set_tos (TopOfStack c) c)"

text \<open>\<open>ufn_2\<close>, \<open>ufn_2d\<close> and \<open>ufn_2d2\<close> put back the argument that was popped.\<close>

definition ufn_2 :: "cpu \<Rightarrow> op_exit" where "ufn_2 c = fix_tos_ufn (c\<lparr>CSTKPTR := CSTKPTR c + 2\<rparr>)"

definition punt :: "cpu \<Rightarrow> op_exit" where
  "punt c = (if Irq_Stk_End (st c) = 0 then Check_interrupt c else Op_ufn c)"

definition exception_2 :: "cpu \<Rightarrow> op_exit" where
  "exception_2 c = punt (set_tos (TopOfStack c) (c\<lparr>CSTKPTR := CSTKPTR c + 2\<rparr>))"

definition exception_2C :: "cpu \<Rightarrow> op_exit" where
  "exception_2C c =
     (let c1 = poke_cell (CSTKPTR c) (Scratch_CSTK (st c)) (set_tos (TopOfStack c) c)
      in punt (c1\<lparr>CSTKPTR := CSTKPTR c1 + 2\<rparr>))"

text \<open>The value an opcode function returns, and the registers afterwards.\<close>

definition returned :: "(LispPTR \<times> vm) res \<Rightarrow> cpu \<Rightarrow> (LispPTR \<times> cpu) res" where
  "returned r c =
     (case r of
        Inr (v, s) \<Rightarrow> Inr (v, c\<lparr>st := s\<rparr>)
      | Inl (Ufn t) \<Rightarrow> Inr (-1, c\<lparr>TopOfStack := t\<rparr>)
      | Inl (Timer t) \<Rightarrow> Inr (-2, c\<lparr>TopOfStack := t\<rparr>)
      | Inl e \<Rightarrow> Inl e)"

definition call_op :: "(LispPTR \<times> vm) res \<Rightarrow> cpu \<Rightarrow> (cpu \<Rightarrow> op_exit) \<Rightarrow> (cpu \<Rightarrow> op_exit) \<Rightarrow> op_exit" where
  "call_op r c good bad =
     (case returned r c of
        Inl e \<Rightarrow> Fault e
      | Inr (v, c1) \<Rightarrow> (if bit v 31 then bad (set_tos v c1) else good (set_tos v c1)))"

definition error_exit :: "'a res \<Rightarrow> bool" where
  "error_exit r = (case r of Inl (Ufn _) \<Rightarrow> True | Inl (Timer _) \<Rightarrow> True | _ \<Rightarrow> False)"

definition unboxed_op :: "(LispPTR \<times> vm) res \<Rightarrow> cpu \<Rightarrow> (cpu \<Rightarrow> op_exit) \<Rightarrow> (cpu \<Rightarrow> op_exit) \<Rightarrow> op_exit" where
  "unboxed_op r c good bad =
     (case returned r c of
        Inl e \<Rightarrow> Fault e
      | Inr (v, c1) \<Rightarrow> (if error_exit r then bad (set_tos v c1) else good (set_tos v c1)))"

text \<open>An opcode function without effect on the state.\<close>

definition pure_op :: "LispPTR res \<Rightarrow> vm \<Rightarrow> (LispPTR \<times> vm) res" where
  "pure_op r s = rbind r (\<lambda>v. Inr (v, s))"

section \<open>The call macros\<close>

type_synonym op0 = "vm \<Rightarrow> (LispPTR \<times> vm) res"
type_synonym op1 = "LispPTR \<Rightarrow> op0"
type_synonym op2 = "LispPTR \<Rightarrow> op1"
type_synonym op3 = "LispPTR \<Rightarrow> op2"
type_synonym op4 = "LispPTR \<Rightarrow> op3"

definition drop_args :: "32 word \<Rightarrow> 32 word \<Rightarrow> cpu \<Rightarrow> op_exit" where
  "drop_args k n c = nextop n (c\<lparr>CSTKPTR := CSTKPTR c - 2 * k\<rparr>)"

definition arg_cell :: "32 word \<Rightarrow> cpu \<Rightarrow> LispPTR" where "arg_cell k c = peek c (CSTKPTR c - 2 * k)"

definition N_OP_CALL_1 :: "op1 \<Rightarrow> cpu \<Rightarrow> op_exit" where
  "N_OP_CALL_1 f c = call_op (f (TOPOFSTACK c) (st c)) c (nextop 1) fix_tos_ufn"
definition N_OP_CALL_1d :: "op1 \<Rightarrow> cpu \<Rightarrow> op_exit" where
  "N_OP_CALL_1d f c = call_op (f (TOPOFSTACK c) (st c)) c (nextop 2) fix_tos_ufn"
definition N_OP_UNBOXED_CALL_1d :: "op1 \<Rightarrow> cpu \<Rightarrow> op_exit" where
  "N_OP_UNBOXED_CALL_1d f c = unboxed_op (f (TOPOFSTACK c) (st c)) c (nextop 2) fix_tos_ufn"

definition N_OP_POPPED_CALL_2 :: "op2 \<Rightarrow> LispPTR \<Rightarrow> cpu \<Rightarrow> op_exit" where
  "N_OP_POPPED_CALL_2 f popped_arg c = call_op (f popped_arg (TOPOFSTACK c) (st c)) c (nextop 1) ufn_2"
definition N_OP_CALL_2 :: "op2 \<Rightarrow> cpu \<Rightarrow> op_exit" where
  "N_OP_CALL_2 f c =
     (let (x, c1) = POP_TOS_1 c in call_op (f x (TOPOFSTACK c1) (st c1)) c1 (nextop 1) ufn_2)"
definition N_OP_UNBOXED_CALL_2d :: "op2 \<Rightarrow> cpu \<Rightarrow> op_exit" where
  "N_OP_UNBOXED_CALL_2d f c =
     (let (x, c1) = POP_TOS_1 c in unboxed_op (f x (TOPOFSTACK c1) (st c1)) c1 (nextop 2) ufn_2)"
definition N_OP_CALL_exception_2 :: "op2 \<Rightarrow> cpu \<Rightarrow> op_exit" where
  "N_OP_CALL_exception_2 f c =
     (let (x, c1) = POP_TOS_1 c in call_op (f x (TOPOFSTACK c1) (st c1)) c1 (nextop 1) exception_2)"

definition N_OP_CALL_3 :: "op3 \<Rightarrow> cpu \<Rightarrow> op_exit" where
  "N_OP_CALL_3 f c =
     call_op (f (arg_cell 2 c) (arg_cell 1 c) (TOPOFSTACK c) (st c)) c (drop_args 2 1) fix_tos_ufn"
definition N_OP_CALL_3d :: "op3 \<Rightarrow> cpu \<Rightarrow> op_exit" where
  "N_OP_CALL_3d f c =
     call_op (f (arg_cell 2 c) (arg_cell 1 c) (TOPOFSTACK c) (st c)) c (drop_args 2 2) fix_tos_ufn"
definition N_OP_UNBOXED_CALL_3d :: "op3 \<Rightarrow> cpu \<Rightarrow> op_exit" where
  "N_OP_UNBOXED_CALL_3d f c =
     unboxed_op (f (arg_cell 2 c) (arg_cell 1 c) (TOPOFSTACK c) (st c)) c (drop_args 2 2) fix_tos_ufn"
definition N_OP_CALL_4 :: "op4 \<Rightarrow> cpu \<Rightarrow> op_exit" where
  "N_OP_CALL_4 f c =
     call_op (f (arg_cell 3 c) (arg_cell 2 c) (arg_cell 1 c) (TOPOFSTACK c) (st c)) c (drop_args 3 1) fix_tos_ufn"
definition N_OP_CALL_4d :: "op4 \<Rightarrow> cpu \<Rightarrow> op_exit" where
  "N_OP_CALL_4d f c =
     call_op (f (arg_cell 3 c) (arg_cell 2 c) (arg_cell 1 c) (TOPOFSTACK c) (st c)) c (drop_args 3 2) fix_tos_ufn"

section \<open>Searching lists\<close>

text \<open>\<open>cadr\<close> follows indirections to the cell that holds the car; its other cases are those of \<open>cdr\<close>.\<close>

partial_function (option) cadr_loop :: "vm \<Rightarrow> LispPTR \<Rightarrow> LispPTR option" where
  "cadr_loop s cell_adr =
     (if cdr_code s cell_adr = CDR_INDIRECT then cadr_loop s (car_field s cell_adr) else Some cell_adr)"

declare cadr_loop.simps [code]

definition cadr :: "vm \<Rightarrow> LispPTR \<Rightarrow> (LispPTR \<times> LispPTR) res" where
  "cadr s cell_adr =
     (if \<not> Listp s cell_adr
      then (if cell_adr = NIL then Inr (NIL, NIL)
            else rbind (car s cell_adr) (\<lambda>a. rbind (cdr s cell_adr) (\<lambda>d. Inr (a, d))))
      else rbind (of_loop (cadr_loop s cell_adr)) (\<lambda>cell.
           let code = cdr_code s cell; offset = push_bit 1 (code AND 7)
           in Inr (car_field s cell,
                   if code = CDR_NIL then NIL
                   else if code > CDR_NIL then cell + offset
                   else car_field s (cell + offset))))"

text \<open>
  The loop of \<open>N_OP_assoc\<close> and \<open>N_OP_classoc\<close>. It ends at NIL, at an atom, or where an
  interrupt is pending.
\<close>

partial_function (option) assoc_loop ::
  "vm \<Rightarrow> LispPTR \<Rightarrow> LispPTR \<Rightarrow> LispPTR \<Rightarrow> LispPTR res option" where
  "assoc_loop s key car_cell cdrcell =
     (case (if Listp s car_cell then car s car_cell else Inr (NOT key)) of
        Inl e \<Rightarrow> Some (Inl e)
      | Inr a \<Rightarrow>
          (if Listp s car_cell \<and> key = a then Some (Inr car_cell)
           else case (if Listp s cdrcell then cadr s cdrcell else Inr (NIL, NIL)) of
                  Inl e \<Rightarrow> Some (Inl e)
                | Inr (car1, cdr1) \<Rightarrow>
                    (let rest = (if Listp s cdrcell then cdrcell else NIL)
                     in if Irq_Stk_End s = 0 then Some (Inl (Timer rest))
                        else if rest = NIL then Some (Inr NIL)
                        else assoc_loop s key car1 cdr1)))"

declare assoc_loop.simps [code]

definition N_OP_assoc :: "LispPTR \<Rightarrow> LispPTR \<Rightarrow> vm \<Rightarrow> LispPTR res" where
  "N_OP_assoc key list s =
     (if list = NIL then Inr NIL
      else if \<not> Listp s list then Inr NIL
      else rbind (cadr s list) (\<lambda>(a, d). of_loop_res (assoc_loop s key a d)))"

definition N_OP_classoc :: "LispPTR \<Rightarrow> LispPTR \<Rightarrow> vm \<Rightarrow> LispPTR res" where
  "N_OP_classoc key list s = (if \<not> immediate key then Inl (Ufn list) else N_OP_assoc key list s)"

definition N_OP_clfmemb :: "LispPTR \<Rightarrow> LispPTR \<Rightarrow> vm \<Rightarrow> LispPTR res" where
  "N_OP_clfmemb item list s = (if \<not> immediate item then Inl (Ufn list) else N_OP_fmemb item list s)"

text \<open>\<open>RESTLIST\<close>: the arguments from number \<open>skip\<close> to \<open>last\<close> in front of \<open>tail\<close>.\<close>

function restlist_loop :: "calc \<Rightarrow> LispPTR \<Rightarrow> int \<Rightarrow> int \<Rightarrow> LispPTR \<Rightarrow> vm \<Rightarrow> (LispPTR \<times> vm) res" where
  "restlist_loop E ivar skip n tail s =
     (if skip \<le> n
      then rbind (N_OP_cons (storage_chk E) (dirty_arg E) (rd s (ivar + word_of_int (2 * (n - 1)))) tail s)
             (\<lambda>(tail1, s1). restlist_loop E ivar skip (n - 1) tail1 s1)
      else Inr (tail, s))"
  by pat_completeness auto

termination by (relation "measure (\<lambda>(E, ivar, skip, n, tail, s). nat (n - skip + 1))") auto

declare restlist_loop.simps [simp del]

definition N_OP_restlist :: "calc \<Rightarrow> LispPTR \<Rightarrow> LispPTR \<Rightarrow> LispPTR \<Rightarrow> int \<Rightarrow> vm \<Rightarrow> (LispPTR \<times> vm) res" where
  "N_OP_restlist E ivar tail lastn skip s = restlist_loop E ivar skip (uint (lastn AND 0xFFFF)) tail s"

section \<open>Addresses and keywords\<close>

definition N_OP_addbase :: "LispPTR \<Rightarrow> LispPTR \<Rightarrow> vm \<Rightarrow> LispPTR res" where
  "N_OP_addbase base0 offset s =
     (let base = POINTERMASK AND base0
      in if SEGMASK AND offset = S_POSITIVE then Inr (base + (offset AND 0xFFFF))
         else if SEGMASK AND offset = S_NEGATIVE then Inr (base + (offset OR 0xFFFF0000))
         else if GetTypeNumber s offset = TYPE_FIXP then Inr (base + rd s offset)
         else Inl (Ufn offset))"

text \<open>
  \<open>N_OP_findkey\<close> compares every second argument from number \<open>byte\<close> on; \<open>arg_nth\<close> is a
  DLword. The number of rounds is bounded by the distance to the end, which decreases by 4.
\<close>

function findkey_loop :: "vm \<Rightarrow> LispPTR \<Rightarrow> LispPTR \<Rightarrow> int \<Rightarrow> DLword \<Rightarrow> LispPTR" where
  "findkey_loop s tos find_end ptr arg_nth =
     (if ptr \<le> uint find_end
      then if rd s (word_of_int ptr) = tos then S_POSITIVE OR ucast arg_nth
           else findkey_loop s tos find_end (ptr + 4) (arg_nth + 2)
      else NIL)"
  by pat_completeness auto

termination by (relation "measure (\<lambda>(s, tos, find_end, ptr, arg_nth). nat (uint find_end - ptr + 4))") auto

declare findkey_loop.simps [simp del]

definition N_OP_findkey :: "LispPTR \<Rightarrow> nat \<Rightarrow> cpu \<Rightarrow> LispPTR" where
  "N_OP_findkey tos byte c =
     findkey_loop (st c) tos (basic_frame (st c) (CURRENTFX c) - 4) (uint (IVAR c) + 2 * int byte - 2)
       (of_nat byte + 1)"

section \<open>Opcodes over the call interface\<close>

definition finish :: "32 word \<Rightarrow> cpu \<Rightarrow> (LispPTR \<times> vm) res \<Rightarrow> op_exit" where
  "finish n c r = (case r of Inl e \<Rightarrow> Fault e | Inr (v, s) \<Rightarrow> nextop n (set_tos v (c\<lparr>st := s\<rparr>)))"

definition CONS :: "calc \<Rightarrow> cpu \<Rightarrow> op_exit" where
  "CONS E c =
     (let (a, c1) = POP_TOS_1 c
      in finish 1 c1 (N_OP_cons (storage_chk E) (dirty_arg E) a (TOPOFSTACK c1) (st c1)))"

definition RESTLIST :: "calc \<Rightarrow> int \<Rightarrow> cpu \<Rightarrow> op_exit" where
  "RESTLIST E n c =
     (let (tail, c1) = POP_TOS_1 c in finish 2 c1 (N_OP_restlist E (IVAR c1) tail (TOPOFSTACK c1) n (st c1)))"

definition FINDKEY :: "nat \<Rightarrow> cpu \<Rightarrow> op_exit" where
  "FINDKEY x c = nextop 2 (set_tos (N_OP_findkey (TOPOFSTACK c) x c) c)"

text \<open>\<open>LISTGET\<close> leaves the rest of the list in \<open>Scratch_CSTK\<close> before it leaves through an exit.\<close>

definition LISTGET :: "cpu \<Rightarrow> op_exit" where
  "LISTGET c =
     (let (p, c1) = POP_TOS_1 c; r = N_OP_listget p (TOPOFSTACK c1) (st c1);
          c2 = c1\<lparr>st := listget_scratch p (TOPOFSTACK c1) (st c1)\<rparr>
      in call_op r (if error_exit r then c2 else c1) (nextop 1) exception_2C)"

definition CLARITHEQUAL :: "calc \<Rightarrow> cpu \<Rightarrow> op_exit" where
  "CLARITHEQUAL E c =
     (let (arg2, c1) = POP_TOS_1 c; t = TOPOFSTACK c1
      in if t AND SEGMASK = S_POSITIVE \<and> arg2 = t then nextop 1 (set_tos ATOM_T c1)
         else if t AND SEGMASK = S_POSITIVE \<and> arg2 AND SEGMASK = S_POSITIVE then nextop 1 (set_tos NIL c1)
         else N_OP_POPPED_CALL_2 (\<lambda>x t s. pure_op (N_OP_eqq E x t s) s) arg2 c1)"

definition TYPE_STREAM :: DLword where "TYPE_STREAM = 11"
definition stream_COFFSET :: "vm \<Rightarrow> LispPTR \<Rightarrow> DLword" where "stream_COFFSET s a = getword (mem s) a"
definition stream_CBUFSIZE :: "vm \<Rightarrow> LispPTR \<Rightarrow> DLword" where "stream_CBUFSIZE s a = getword (mem s) (a + 1)"
definition stream_CBUFPTR :: "vm \<Rightarrow> LispPTR \<Rightarrow> LispPTR" where "stream_CBUFPTR s a = rd s (a + 2) AND POINTERMASK"
definition stream_BINABLE :: "vm \<Rightarrow> LispPTR \<Rightarrow> bool" where "stream_BINABLE s a \<longleftrightarrow> bit (rd s (a + 10)) 31"

definition BIN :: "cpu \<Rightarrow> op_exit" where
  "BIN c =
     (let t = TOPOFSTACK c; s = st c; off = stream_COFFSET s t
      in if GetTypeNumber s t \<noteq> TYPE_STREAM then Op_ufn c
         else if \<not> stream_BINABLE s t \<or> off \<ge> stream_CBUFSIZE s t then Op_ufn c
         else nextop 1 (set_tos (S_POSITIVE OR ucast (getbyte (mem s) (stream_CBUFPTR s t) (ucast off)))
                (c\<lparr>st := poke (putword t (off + 1) (mem s)) s\<rparr>)))"

section \<open>\<open>AREF1\<close> in line\<close>

text \<open>
  The macro repeats \<open>N_OP_aref1\<close> for an index that is a positive small number; every other
  case goes to the function. \<open>aref1_switch\<close> is its switch: \<open>None\<close> is the jump to
  \<open>aref_ufn\<close>. The cast of a number of 32 bits has its own code here.
\<close>

definition aref1_number :: "calc \<Rightarrow> 32 word \<Rightarrow> vm \<Rightarrow> (LispPTR \<times> vm) res" where
  "aref1_number E v s =
     (if v AND 0xFFFF0000 = 0 then Inr (v OR S_POSITIVE, s)
      else if v AND 0xFFFF0000 = 0xFFFF0000 then Inr (v AND S_NEGATIVE, s)
      else box_cell E TYPE_FIXP v s)"

definition aref1_switch :: "calc \<Rightarrow> 32 word \<Rightarrow> LispPTR \<Rightarrow> 32 word \<Rightarrow> vm \<Rightarrow> (LispPTR \<times> vm) res option" where
  "aref1_switch E type baseL index s =
     (let w = getword (mem s) (baseL + index); b = getbyte (mem s) baseL index
      in if type = 38 then Some (Inr (rd s (cell_at baseL index), s))
         else if type = 20
         then Some (Inr (if w AND 0x8000 \<noteq> 0 then ucast w OR S_NEGATIVE else ucast w OR S_POSITIVE, s))
         else if type = 67 then Some (Inr (S_CHARACTER OR ucast b, s))
         else if type = 22 then Some (aref1_number E (rd s (cell_at baseL index)) s)
         else if type = 0
         then Some (Inr (S_POSITIVE OR
                (drop_bit (bit_shift index) (ucast (getbyte (mem s) baseL (signed_drop_bit 3 index))) AND 1), s))
         else if type = 3 then Some (Inr (S_POSITIVE OR ucast b, s))
         else if type = 4 then Some (Inr (S_POSITIVE OR ucast w, s))
         else if type = 54
         then Some (rbind (createcell68k (storage_chk E) (dirty_arg E) TYPE_FLOATP s) (\<lambda>(p, s1).
              Inr (p, wr p (rd s1 (cell_at baseL index)) s1)))
         else if type = 68 then Some (Inr (S_CHARACTER OR ucast w, s))
         else if type = 86 then Some (Inr (rd s (cell_at baseL index), s))
         else None)"

definition AREF1 :: "calc \<Rightarrow> cpu \<Rightarrow> op_exit" where
  "AREF1 E c =
     (let (arrayarg, c1) = POP_TOS_1 c; s = st c1; t = TOPOFSTACK c1; index = t AND 0xFFFF;
          aref_ufn = N_OP_POPPED_CALL_2 (N_OP_aref1 E) arrayarg c1
      in if GetTypeNumber s arrayarg \<noteq> TYPE_ONED_ARRAY then aref_ufn
         else if t AND SEGMASK \<noteq> S_POSITIVE then aref_ufn
         else if sint index \<ge> sint (ar_totalsize s arrayarg) then aref_ufn
         else case aref1_switch E (ar_typenumber s arrayarg) (ar_base s arrayarg) (index + ar_offset s arrayarg) s of
                None \<Rightarrow> aref_ufn
              | Some r \<Rightarrow> finish 1 c1 r)"

end
