(* ===== verification/Opcode_Laws.thy ===== *)
theory Opcode_Laws
  imports Opcode_Calls
begin

text \<open>
  What the opcodes of the interpreter loop promise: how an opcode is left, that the inline copies of
  the opcode functions agree with the functions, and that \<open>UNBIND\<close> undoes \<open>BIND\<close>.
\<close>

section \<open>Handing over to Lisp\<close>

text \<open>The number opcodes of two arguments that do not change a box in place.\<close>

definition number_ops :: "calc \<Rightarrow> op2 list" where
  "number_ops E =
     [N_OP_plus2 E, N_OP_difference E, N_OP_times2 E, N_OP_quot E, N_OP_iplus2 E, N_OP_idifference E,
      N_OP_itimes2 E, N_OP_iquot E, N_OP_iremainder E, N_OP_logor E, N_OP_logand E, N_OP_logxor E,
      N_OP_greaterp E, N_OP_igreaterp E, N_OP_makenumber E, N_OP_fplus2 E, N_OP_fdifference E,
      N_OP_ftimes2 E, N_OP_fquotient E, N_OP_fgreaterp E]"

text \<open>The result of an opcode function with the top of stack \<open>t\<close> that the sign test sorts rightly.\<close>

definition sorted_exit :: "LispPTR \<Rightarrow> (LispPTR \<times> vm) res \<Rightarrow> bool" where
  "sorted_exit t r =
     (case r of Inr (v, s) \<Rightarrow> \<not> bit v 31 | Inl (Ufn u) \<Rightarrow> u = t | Inl (Timer u) \<Rightarrow> False | Inl e \<Rightarrow> True)"

lemma sorted_exit_simps [simp]:
  "sorted_exit t (Inr (v, s)) \<longleftrightarrow> \<not> bit v 31" "sorted_exit t (Inl (Ufn u)) \<longleftrightarrow> u = t"
  "sorted_exit t (Inl (Fatal m))" "sorted_exit t (Inl Diverges)"
  by (simp_all add: sorted_exit_def)

lemma pointer_positive: "\<not> bit (x AND POINTERMASK) 31" "\<not> bit NIL 31" "\<not> bit ATOM_T 31"
  by (simp_all add: bit_and_iff lisp_const_defs)

lemma small_positive:
  fixes v :: "32 word"
  shows "v AND 0xFFFF0000 = 0 \<Longrightarrow> \<not> bit (S_POSITIVE OR v) 31" "\<not> bit (S_NEGATIVE OR (0xFFFF AND v)) 31"
proof -
  assume "v AND 0xFFFF0000 = 0"
  then have "\<not> bit (v AND 0xFFFF0000) 31" by simp
  then show "\<not> bit (S_POSITIVE OR v) 31" by (simp add: bit_or_iff bit_and_iff lisp_const_defs)
qed (simp add: bit_or_iff bit_and_iff lisp_const_defs)

lemma box_sorted: "box_ready s type \<Longrightarrow> sorted_exit t (box_cell E type v s)"
  using box_cell_law [of s type E v] pointer_positive by (auto simp: new_box_def)

lemma switch_sorted: "box_ready s TYPE_FIXP \<Longrightarrow> sorted_exit t (N_ARITH_SWITCH E v s)"
  by (auto simp: N_ARITH_SWITCH_def small_positive box_sorted)

lemma two_numbers_sorted:
  "sorted_exit t no \<Longrightarrow> (\<And>x y. sorted_exit t (yes x y)) \<Longrightarrow> sorted_exit t (two_numbers a b no yes)"
  by (auto simp: two_numbers_def split: option.splits)

lemma rbind_sorted:
  "(case m of Inl e \<Rightarrow> sorted_exit t (Inl e) | Inr x \<Rightarrow> sorted_exit t (f x)) \<Longrightarrow> sorted_exit t (rbind m f)"
  by (cases m) auto

lemma float_op_sorted: "box_ready s TYPE_FLOATP \<Longrightarrow> sorted_exit t (float_op f E x t s)"
  by (auto simp: float_op_def Let_def box_sorted intro!: two_numbers_sorted)

lemmas number_op_defs =
  N_OP_plus2_def N_OP_difference_def N_OP_times2_def N_OP_quot_def N_OP_iplus2_def N_OP_idifference_def
  N_OP_itimes2_def N_OP_iquot_def N_OP_iremainder_def N_OP_logor_def N_OP_logand_def N_OP_logxor_def
  N_OP_greaterp_def N_OP_igreaterp_def N_OP_makenumber_def N_OP_fplus2_def N_OP_fdifference_def
  N_OP_ftimes2_def N_OP_fquotient_def N_OP_fgreaterp_def

lemma number_ops_sorted:
  assumes "box_ready s TYPE_FIXP" "box_ready s TYPE_FLOATP" "f \<in> set (number_ops E)"
  shows "sorted_exit t (f x t s)"
  using assms(3) unfolding number_ops_def list.set insert_iff empty_iff
  by (elim disjE)
     (auto simp: number_op_defs c_div_def c_rem_def mul_check_def Let_def assms(1,2) pointer_positive
        switch_sorted float_op_sorted intro!: two_numbers_sorted rbind_sorted split: option.splits)

text \<open>
  The integer and float opcodes of two arguments leave the interpreter in one of two ways: either
  the function's result replaces the two arguments, is a pointer with its sign bit clear, and the
  next opcode follows; or the stack and every register are as they were before the opcode and it is
  handed over to Lisp. The test of the sign of the result never takes one for the other.
\<close>

theorem number_opcode_exits:
  assumes "box_ready (st c) TYPE_FIXP" "box_ready (st c) TYPE_FLOATP" "f \<in> set (number_ops E)"
  shows "case N_OP_CALL_2 f c of
      Nextop c' \<Rightarrow> \<exists>v s'. f (GET_TOS_1 c) (TOPOFSTACK c) (st c) = Inr (v, s') \<and> \<not> bit v 31 \<and>
        c' = c\<lparr>st := s', TOPOFSTACK := v, CSTKPTR := CSTKPTR c - 2, PCMAC := PCMAC c + 1\<rparr>
    | Op_ufn c' \<Rightarrow> f (GET_TOS_1 c) (TOPOFSTACK c) (st c) = Inl (Ufn (TOPOFSTACK c)) \<and>
        c' = c\<lparr>TopOfStack := TOPOFSTACK c\<rparr>
    | Check_interrupt c' \<Rightarrow> False
    | Fault e \<Rightarrow> f (GET_TOS_1 c) (TOPOFSTACK c) (st c) = Inl e \<and> (\<forall>u. e \<noteq> Ufn u \<and> e \<noteq> Timer u)"
proof -
  define r where "r = f (GET_TOS_1 c) (TOPOFSTACK c) (st c)"
  have so: "sorted_exit (TOPOFSTACK c) r" unfolding r_def by (rule number_ops_sorted [OF assms])
  have e: "N_OP_CALL_2 f c = call_op r (c\<lparr>CSTKPTR := CSTKPTR c - 2\<rparr>) (nextop 1) ufn_2"
    by (simp add: N_OP_CALL_2_def POP_TOS_1_def r_def GET_TOS_1_def)
  have m: "bit (- 1 :: 32 word) 31" by simp
  show ?thesis
  proof (cases r)
    case (Inl x)
    then show ?thesis using so unfolding r_def [symmetric] e
      by (cases x)
         (simp_all add: call_op_def returned_def ufn_2_def fix_tos_ufn_def set_tos_def sorted_exit_def)
  next
    case (Inr y)
    obtain v s' where "y = (v, s')" by (cases y)
    with Inr show ?thesis using so unfolding r_def [symmetric] e
      by (simp add: call_op_def returned_def nextop_def set_tos_def)
  qed
qed

section \<open>\<open>AREF1\<close> and \<open>N_OP_aref1\<close>\<close>

text \<open>The index is a positive small number inside a one-dimensional array: the macro's own path.\<close>

definition aref1_direct :: "vm \<Rightarrow> LispPTR \<Rightarrow> LispPTR \<Rightarrow> bool" where
  "aref1_direct s a t \<longleftrightarrow> GetTypeNumber s a = TYPE_ONED_ARRAY \<and> t AND SEGMASK = S_POSITIVE \<and>
     sint (t AND 0xFFFF) < sint (ar_totalsize s a)"

definition aref1_index :: "vm \<Rightarrow> LispPTR \<Rightarrow> LispPTR \<Rightarrow> 32 word" where
  "aref1_index s a t = (t AND 0xFFFF) + ar_offset s a"

definition aref1_cell :: "vm \<Rightarrow> LispPTR \<Rightarrow> LispPTR \<Rightarrow> 32 word" where
  "aref1_cell s a t = rd s (cell_at (ar_base s a) (aref1_index s a t))"

lemma aref1_function:
  "aref1_direct s a t \<Longrightarrow>
   N_OP_aref1 E a t s = aref_switch E (ar_typenumber s a) t (ar_base s a) (aref1_index s a t) s"
  by (simp add: aref1_direct_def N_OP_aref1_def index1_def N_GetPos_def aref1_index_def)

text \<open>
  The two switches differ in the numbers from -65536 to -1 of an array of 32-bit integers, and in
  how they refuse a type number.
\<close>

lemma switches_agree:
  assumes "type = 22 \<longrightarrow> rd s (cell_at baseL i) AND 0xFFFF0000 \<noteq> 0xFFFF0000"
  shows "aref_switch E type tos baseL i s =
    (case aref1_switch E type baseL i s of None \<Rightarrow> Inl (Ufn tos) | Some r \<Rightarrow> r)"
  using assms by (simp add: aref_switch_def aref1_switch_def Let_def N_ARITH_SWITCH_def aref1_number_def or.commute)

lemma segment_positive:
  fixes w :: DLword and b :: DLbyte
  shows "\<not> bit (S_POSITIVE OR ucast w) 31" "\<not> bit (S_CHARACTER OR ucast w) 31"
    "\<not> bit (ucast w OR S_POSITIVE) 31" "\<not> bit (ucast w OR S_NEGATIVE) 31"
    "\<not> bit (S_POSITIVE OR ucast b) 31" "\<not> bit (S_CHARACTER OR ucast b) 31"
    "\<not> bit (S_POSITIVE OR (x AND 1)) 31"
  by (auto simp: bit_or_iff bit_and_iff bit_ucast_iff S_POSITIVE_def S_NEGATIVE_def S_CHARACTER_def
      dest: bit_imp_le_length)

lemma new_float:
  fixes E :: calc
  assumes "box_ready s TYPE_FLOATP"
  shows "\<exists>s'. createcell68k (storage_chk E) (dirty_arg E) TYPE_FLOATP s = Inr (new_box s TYPE_FLOATP, s')"
  using box_cell_law [OF assms, of E 0] by (auto simp: box_cell_def rbind_Inr_iff)

lemma aref1_switch_result:
  fixes E :: calc
  assumes "aref1_switch E type baseL i s = Some r" "type = 38 \<or> type = 86 \<longrightarrow> \<not> bit (rd s (cell_at baseL i)) 31"
    and "type = 22 \<longrightarrow> rd s (cell_at baseL i) AND 0xFFFF0000 \<noteq> 0xFFFF0000"
    and "box_ready s TYPE_FIXP" "box_ready s TYPE_FLOATP"
  shows "\<exists>v s'. r = Inr (v, s') \<and> \<not> bit v 31"
proof -
  have box: "\<not> bit (new_box s y) 31" for y by (simp add: new_box_def pointer_positive)
  obtain s1 where b: "box_cell E TYPE_FIXP (rd s (cell_at baseL i)) s = Inr (new_box s TYPE_FIXP, s1)"
    using box_cell_law [OF assms(4)] by blast
  show ?thesis
  proof (cases "type = 22")
    case True
    then have r: "r = aref1_number E (rd s (cell_at baseL i)) s"
      and n: "rd s (cell_at baseL i) AND 0xFFFF0000 \<noteq> 0xFFFF0000"
      using assms(1,3) by (simp_all add: aref1_switch_def Let_def)
    show ?thesis unfolding r aref1_number_def b
      using n box small_positive(1) [of "rd s (cell_at baseL i)"]
      by (auto simp: or.commute [of "rd s (cell_at baseL i)"])
  next
    case False
    then show ?thesis
      using assms(1,2) box new_float [OF assms(5), of E]
      by (auto simp: aref1_switch_def Let_def segment_positive split: if_splits)
  qed
qed

text \<open>
  C21. The inline \<open>AREF1\<close> does what the function \<open>N_OP_aref1\<close> does through its call
  interface, for every array type and every index, unless the element read is a 32-bit integer from
  -65536 to -1, or a pointer with its sign bit set.
\<close>

theorem aref1_inline_agrees:
  assumes "ar_typenumber (st c) (GET_TOS_1 c) = 22 \<longrightarrow>
      aref1_cell (st c) (GET_TOS_1 c) (TOPOFSTACK c) AND 0xFFFF0000 \<noteq> 0xFFFF0000"
    and "ar_typenumber (st c) (GET_TOS_1 c) \<in> {38, 86} \<longrightarrow>
      \<not> bit (aref1_cell (st c) (GET_TOS_1 c) (TOPOFSTACK c)) 31"
    and "box_ready (st c) TYPE_FIXP" "box_ready (st c) TYPE_FLOATP"
  shows "AREF1 E c = N_OP_CALL_2 (N_OP_aref1 E) c"
proof -
  let ?a = "GET_TOS_1 c" and ?t = "TOPOFSTACK c" and ?s = "st c" and ?c = "c\<lparr>CSTKPTR := CSTKPTR c - 2\<rparr>"
  let ?sw = "aref1_switch E (ar_typenumber ?s ?a) (ar_base ?s ?a) (aref1_index ?s ?a ?t) ?s"
  have call: "N_OP_CALL_2 (N_OP_aref1 E) c = N_OP_POPPED_CALL_2 (N_OP_aref1 E) ?a ?c"
    by (simp add: N_OP_CALL_2_def N_OP_POPPED_CALL_2_def POP_TOS_1_def GET_TOS_1_def)
  have inl: "AREF1 E c = (if aref1_direct ?s ?a ?t
      then case ?sw of None \<Rightarrow> N_OP_POPPED_CALL_2 (N_OP_aref1 E) ?a ?c | Some r \<Rightarrow> finish 1 ?c r
      else N_OP_POPPED_CALL_2 (N_OP_aref1 E) ?a ?c)"
    unfolding AREF1_def POP_TOS_1_def GET_TOS_1_def aref1_direct_def aref1_index_def Let_def by auto
  show ?thesis
  proof (cases "aref1_direct ?s ?a ?t \<and> ?sw \<noteq> None")
    case True
    then obtain r where r: "?sw = Some r" by blast
    from aref1_switch_result [OF r] assms obtain v s' where v: "r = Inr (v, s')" "\<not> bit v 31"
      by (auto simp: aref1_cell_def)
    have "N_OP_aref1 E ?a ?t ?s = Inr (v, s')"
      using switches_agree [of "ar_typenumber ?s ?a" ?s "ar_base ?s ?a" "aref1_index ?s ?a ?t" E ?t] assms(1) r v(1)
        aref1_function True by (simp add: aref1_cell_def)
    then show ?thesis using True r v
      by (simp add: call inl N_OP_POPPED_CALL_2_def call_op_def returned_def finish_def)
  qed (auto simp: call inl)
qed

text \<open>
  On an element from -65536 to -1 of an array of 32-bit integers they differ: the function gives
  the number, the inline code clears its low half and gives -65536 for all of them.
\<close>

theorem aref1_inline_negative:
  assumes "aref1_direct (st c) (GET_TOS_1 c) (TOPOFSTACK c)" "ar_typenumber (st c) (GET_TOS_1 c) = 22"
    and "aref1_cell (st c) (GET_TOS_1 c) (TOPOFSTACK c) = v" "v AND 0xFFFF0000 = 0xFFFF0000"
  shows "AREF1 E c = nextop 1 (c\<lparr>CSTKPTR := CSTKPTR c - 2, TOPOFSTACK := S_NEGATIVE\<rparr>) \<and>
    N_OP_CALL_2 (N_OP_aref1 E) c =
      nextop 1 (c\<lparr>CSTKPTR := CSTKPTR c - 2, TOPOFSTACK := S_NEGATIVE OR (0xFFFF AND v)\<rparr>)"
proof
  let ?a = "GET_TOS_1 c" and ?t = "TOPOFSTACK c" and ?s = "st c" and ?c = "c\<lparr>CSTKPTR := CSTKPTR c - 2\<rparr>"
  have S: "v AND S_NEGATIVE = S_NEGATIVE"
  proof -
    have "v AND S_NEGATIVE = (v AND 0xFFFF0000) AND S_NEGATIVE" by (simp add: and.assoc S_NEGATIVE_def)
    then show ?thesis by (simp add: assms(4) S_NEGATIVE_def)
  qed
  have cell: "rd ?s (cell_at (ar_base ?s ?a) (aref1_index ?s ?a ?t)) = v" using assms(3) by (simp add: aref1_cell_def)
  have n: "aref1_switch E 22 (ar_base ?s ?a) (aref1_index ?s ?a ?t) ?s = Some (Inr (S_NEGATIVE, ?s))"
    by (simp add: aref1_switch_def aref1_number_def cell assms(4) S)
  have d: "GetTypeNumber ?s ?a = TYPE_ONED_ARRAY" "?t AND SEGMASK = S_POSITIVE"
    "\<not> sint (?t AND 0xFFFF) \<ge> sint (ar_totalsize ?s ?a)" using assms(1) by (auto simp: aref1_direct_def)
  show "AREF1 E c = nextop 1 (c\<lparr>CSTKPTR := CSTKPTR c - 2, TOPOFSTACK := S_NEGATIVE\<rparr>)"
    using n d by (simp add: AREF1_def POP_TOS_1_def flip: GET_TOS_1_def aref1_index_def)
      (simp add: GET_TOS_1_def aref1_index_def assms(2) [unfolded GET_TOS_1_def] finish_def set_tos_def)
  have "N_OP_aref1 E ?a ?t ?s = Inr (S_NEGATIVE OR (0xFFFF AND v), ?s)"
    by (simp add: aref1_function [OF assms(1)] aref_switch_def assms(2) cell N_ARITH_SWITCH_def assms(4))
  then show "N_OP_CALL_2 (N_OP_aref1 E) c =
      nextop 1 (c\<lparr>CSTKPTR := CSTKPTR c - 2, TOPOFSTACK := S_NEGATIVE OR (0xFFFF AND v)\<rparr>)"
    using small_positive(2) [of v]
    by (simp add: N_OP_CALL_2_def POP_TOS_1_def call_op_def returned_def set_tos_def GET_TOS_1_def)
qed

section \<open>Byte opcodes\<close>

text \<open>
  A byte opcode with a negative offset never reads or writes a byte of the Lisp memory on the
  64-bit machines: the offset is widened without its sign and the access is about 4 GB behind the
  base. With a non-negative small offset that stays in the memory the byte is read.
\<close>

theorem negative_byte_offset:
  fixes n :: DLword
  assumes "TOPOFSTACK c = seg OR ucast n" "seg = S_NEGATIVE \<or> seg = S_POSITIVE"
    and "seg = S_POSITIVE \<longrightarrow> byte_inside (POINTERMASK AND GET_TOS_1 c) (ucast n)"
  shows "GETBASEBYTE c =
    (if seg = S_NEGATIVE then Fault (Fatal ''access outside Lisp memory'')
     else nextop 1 (c\<lparr>CSTKPTR := CSTKPTR c - 2,
        TOPOFSTACK := S_POSITIVE OR ucast (getbyte (mem (st c)) (POINTERMASK AND GET_TOS_1 c) (ucast n))\<rparr>))"
proof -
  have low: "(S_POSITIVE OR ucast n) AND 0xFFFF = (ucast n :: 32 word)"
  proof -
    have "ucast n AND mask 16 = (ucast n :: 32 word)"
      by (rule bit_word_eqI) (auto simp: bit_and_iff bit_ucast_iff bit_mask_iff dest: bit_imp_le_length)
    moreover have "S_POSITIVE AND mask 16 = 0" by (simp add: S_POSITIVE_def mask_eq_exp_minus_1)
    ultimately have "(S_POSITIVE OR ucast n) AND mask 16 = (ucast n :: 32 word)"
      by (simp only: bit.conj_disj_distrib2 or.left_neutral)
    then show ?thesis by (simp add: mask_eq_exp_minus_1)
  qed
  have seg: "SEGMASK AND (S_POSITIVE OR ucast n) = S_POSITIVE" "SEGMASK AND (S_NEGATIVE OR ucast n) = S_NEGATIVE"
  proof -
    have m: "SEGMASK = push_bit 16 (mask 12)" by (simp add: SEGMASK_def mask_eq_exp_minus_1)
    have "SEGMASK AND ucast n = (0 :: 32 word)" unfolding m
      by (rule bit_word_eqI) (auto simp: bit_and_iff bit_ucast_iff bit_push_bit_iff dest: bit_imp_le_length)
    then show "SEGMASK AND (S_POSITIVE OR ucast n) = S_POSITIVE" "SEGMASK AND (S_NEGATIVE OR ucast n) = S_NEGATIVE"
      by (simp_all add: seg_pos)
  qed
  show ?thesis
  proof (cases "seg = S_NEGATIVE")
    case True
    let ?off = "(S_NEGATIVE OR ucast n) OR 0xFFFF0000 :: 32 word"
    have "uint (0xFFFF0000 :: 32 word) \<le> uint ((0xFFFF0000 :: 32 word) OR (S_NEGATIVE OR ucast n))"
      unfolding unsigned_or_eq by (rule or_greater_eq) simp
    then have "4294901760 \<le> uint ?off" by (simp add: or.commute)
    moreover have p: "(2 :: int) ^ 29 = 536870912" by simp
    ultimately have "\<not> byte_inside (POINTERMASK AND GET_TOS_1 c) ?off"
      unfolding byte_inside_def p using uint_ge_0 [of "POINTERMASK AND GET_TOS_1 c"] by linarith
    then show ?thesis using assms(1) True seg
      by (simp add: GETBASEBYTE_def Let_def POP_TOS_1_def S_POSITIVE_def S_NEGATIVE_def GET_TOS_1_def)
  next
    case False
    then have "seg = S_POSITIVE" using assms(2) by blast
    then show ?thesis using assms(1,3) seg low
      by (simp add: GETBASEBYTE_def Let_def POP_TOS_1_def GET_TOS_1_def nextop_def set_tos_def
          S_POSITIVE_def S_NEGATIVE_def)
  qed
qed

section \<open>\<open>BIND\<close> and \<open>UNBIND\<close>\<close>

text \<open>The cells \<open>p - 2, p - 4, ...\<close>, \<open>n\<close> of them.\<close>

definition below :: "nat \<Rightarrow> LispPTR \<Rightarrow> LispPTR \<Rightarrow> bool" where
  "below n p a \<longleftrightarrow> (\<exists>k<n. a = p - 2 * of_nat (Suc k))"

lemma below_Suc: "below (Suc n) p a \<longleftrightarrow> a = p - 2 \<or> below n (p - 2) a"
proof -
  have "(\<exists>k<Suc n. a = p - 2 * of_nat (Suc k)) \<longleftrightarrow> a = p - 2 \<or> (\<exists>k<n. a = p - 2 * of_nat (Suc (Suc k)))"
    by (auto simp: less_Suc_eq_0_disj)
  then show ?thesis by (simp add: below_def algebra_simps)
qed

lemma below_0 [simp]: "\<not> below 0 p a" by (simp add: below_def)

lemma rd_fill_down: "rd (fill_down n p v s) a = (if below n p a then v else rd s a)"
  by (induction n arbitrary: p s) (auto simp: below_Suc rd_wr)

text \<open>\<open>move_down\<close> copies the cells below \<open>sp\<close> if its target is apart from them.\<close>

lemma move_down_sp: "fst (move_down n p sp s) = sp - 2 * of_nat n"
  by (induction n arbitrary: p sp s) (simp_all add: algebra_simps)

lemma rd_move_down_other:
  "\<not> below n p a \<Longrightarrow> rd (snd (move_down n p sp s)) a = rd s a"
  by (induction n arbitrary: p sp s) (auto simp: below_Suc rd_wr)

lemma rd_move_down:
  assumes "k < n" "\<forall>i<n. \<not> below n p (sp - 2 * of_nat (Suc i))" "n < 2 ^ 30"
  shows "rd (snd (move_down n p sp s)) (p - 2 * of_nat (Suc k)) = rd s (sp - 2 * of_nat (Suc k))"
  using assms
proof (induction n arbitrary: p sp s k)
  case (Suc n)
  let ?s = "wr (p - 2) (rd s (sp - 2)) s"
  have ap: "\<forall>i<n. \<not> below n (p - 2) (sp - 2 - 2 * of_nat (Suc i))"
  proof (intro allI impI)
    fix i assume "i < n"
    then have "\<not> below (Suc n) p (sp - 2 * of_nat (Suc (Suc i)))"
      using spec [OF Suc.prems(2), of "Suc i"] \<open>i < n\<close> by blast
    then show "\<not> below n (p - 2) (sp - 2 - 2 * of_nat (Suc i))" by (simp add: below_Suc algebra_simps)
  qed
  show ?case
  proof (cases k)
    case 0
    have "\<not> below n (p - 2) (p - 2)"
    proof
      assume "below n (p - 2) (p - 2)"
      then obtain j where j: "j < n" "p - 2 = p - 2 - 2 * of_nat (Suc j)" unfolding below_def by blast
      have "0 = (2 * of_nat (Suc j) :: 32 word)"
        using diff_left_imp_eq [of "p - 2" 0 "2 * of_nat (Suc j)", unfolded diff_zero, OF j(2)] .
      then have "of_nat (2 * Suc j) = (0 :: 32 word)" unfolding of_nat_mult of_nat_numeral by (rule sym)
      then have "2 ^ LENGTH(32) dvd 2 * Suc j" by (simp only: word_of_nat_eq_0_iff)
      then have "2 ^ LENGTH(32) \<le> 2 * Suc j" by (rule dvd_imp_le) simp
      then show False using j(1) Suc.prems(3) by simp
    qed
    then show ?thesis using 0 by (simp add: rd_move_down_other rd_wr)
  next
    case (Suc m)
    have "rd (snd (move_down n (p - 2) (sp - 2) ?s)) (p - 2 - 2 * of_nat (Suc m)) =
        rd ?s (sp - 2 - 2 * of_nat (Suc m))"
      using Suc.IH [OF _ ap] Suc Suc.prems by simp
    moreover have "sp - 2 - 2 * of_nat (Suc m) \<noteq> p - 2"
    proof -
      have "\<not> below (Suc n) p (sp - 2 * of_nat (Suc (Suc m)))"
        using spec [OF Suc.prems(2), of "Suc m"] Suc.prems(1) unfolding Suc by blast
      then show ?thesis by (simp add: below_Suc algebra_simps)
    qed
    ultimately show ?thesis using Suc by (simp add: rd_wr algebra_simps)
  qed
qed simp


lemma small_bits:
  fixes n :: nat
  shows "n < 2 ^ m \<Longrightarrow> m \<le> k \<Longrightarrow> \<not> bit (of_nat n :: 32 word) k"
proof -
  assume n: "n < 2 ^ m" and k: "m \<le> k"
  have "take_bit m n = n" using n by (simp add: take_bit_nat_eq_self)
  then have "\<not> bit n k" using k by (metis bit_take_bit_iff not_le)
  then show ?thesis by (simp add: bit_of_nat_iff)
qed

lemma mark_parts:
  fixes x :: DLbyte
  assumes "n < 2 ^ 15"
  shows "bit (bind_mark n (ucast x)) 31" "unat (hi_word (NOT (bind_mark n (ucast x)))) = n"
    "ucast (lo_word (bind_mark n (ucast x))) = 2 * (ucast x :: 32 word)"
proof -
  have b: "bit (bind_mark n (ucast x)) k \<longleftrightarrow>
      k < 32 \<and> (16 \<le> k \<and> \<not> bit (of_nat n :: 32 word) (k - 16) \<or> 1 \<le> k \<and> bit x (k - 1))" for k
    unfolding bind_mark_def bit_or_iff bit_push_bit_iff bit_not_iff bit_ucast_iff
    by (auto dest: bit_imp_le_length)
  have x: "\<not> bit x k" if "8 \<le> k" for k using that bit_imp_le_length [of x k] by auto
  show "bit (bind_mark n (ucast x)) 31" using small_bits [OF assms, of 15] by (simp add: b)
  have "hi_word (NOT (bind_mark n (ucast x))) = of_nat n"
    by (rule bit_word_eqI)
       (auto simp: hi_word_def bit_ucast_iff bit_drop_bit_eq bit_not_iff b x bit_of_nat_iff)
  then show "unat (hi_word (NOT (bind_mark n (ucast x)))) = n"
    using assms by (simp add: unat_of_nat)
  have "ucast (lo_word (bind_mark n (ucast x))) = push_bit 1 (ucast x :: 32 word)"
    by (rule bit_word_eqI) (unfold lo_word_def bit_ucast_iff bit_push_bit_iff b, auto simp: x dest: bit_imp_le_length)
  then show "ucast (lo_word (bind_mark n (ucast x))) = 2 * (ucast x :: 32 word)" by simp
qed

lemma below_split: "below (n + m) p a \<longleftrightarrow> below n p a \<or> below m (p - 2 * of_nat n) a"
  by (induction n arbitrary: p) (simp_all add: below_Suc algebra_simps)


text \<open>
  The \<open>n1 + n2\<close> slots of the binding end at \<open>slots_end\<close>, below the \<open>n2\<close> values on the
  stack.
\<close>

definition slots_end :: "cpu \<Rightarrow> DLbyte \<Rightarrow> LispPTR" where "slots_end c x = PVAR c + 2 * (1 + ucast x)"

definition bind_room :: "cpu \<Rightarrow> nat \<Rightarrow> nat \<Rightarrow> DLbyte \<Rightarrow> bool" where
  "bind_room c n1 n2 x \<longleftrightarrow> n1 < 16 \<and> n2 < 16 \<and> 2 * int (n1 + n2) \<le> uint (slots_end c x) \<and>
     uint (slots_end c x) + 2 * int n2 \<le> uint (CSTKPTR c) \<and> uint (CSTKPTR c) + 4 < 2 ^ 32"

lemma uint_minus_nat:
  "int k \<le> uint p \<Longrightarrow> uint (p - of_nat k) = uint p - int k" for p :: "32 word"
proof -
  assume k: "int k \<le> uint p"
  then have "int k < 2 ^ 32" using uint32_less [of p] by simp
  then have "uint (of_nat k :: 32 word) = int k" by (simp add: unsigned_of_nat take_bit_nat_eq_self)
  then show ?thesis using k uint_sub_lem [of "of_nat k" p] by simp
qed

lemma below_range:
  fixes p :: "32 word"
  assumes "below n p a" "2 * int n \<le> uint p"
  shows "uint p - 2 * int n \<le> uint a \<and> uint a < uint p"
proof -
  obtain k where k: "k < n" "a = p - of_nat (2 * Suc k)" using assms(1) by (auto simp: below_def)
  have "uint a = uint p - int (2 * Suc k)" unfolding k(2) by (rule uint_minus_nat) (use assms(2) k(1) in simp)
  then show ?thesis using k(1) by simp
qed


text \<open>What \<open>bind_slots\<close> leaves in memory: NILs, then values from the stack.\<close>

lemma bind_slots_law:
  assumes "bind_room c n1 n2 x"
  shows "\<exists>s'. bind_slots (PVAR c) (CSTKPTR c) (TOPOFSTACK c) n1 n2 (ucast x) (st c) =
      (CSTKPTR c + 2 - 2 * of_nat n2, s') \<and>
    (\<forall>k<n1. rd s' (slots_end c x - 2 * of_nat (Suc k)) = NIL) \<and>
    (\<forall>k<n2. rd s' (slots_end c x - 2 * of_nat n1 - 2 * of_nat (Suc k)) =
       (if k = 0 then TOPOFSTACK c else rd (st c) (CSTKPTR c - 2 * of_nat k))) \<and>
    (\<forall>a. \<not> below (n1 + n2) (slots_end c x) a \<longrightarrow>
       rd s' a = (if n2 = 0 \<and> a = CSTKPTR c then TOPOFSTACK c else rd (st c) a))"
proof -
  let ?p = "slots_end c x" and ?s = "st c" and ?t = "TOPOFSTACK c" and ?sp = "CSTKPTR c"
  let ?q = "?p - 2 * of_nat n1"
  have room: "n1 < 16" "n2 < 16" "2 * int (n1 + n2) \<le> uint ?p" "uint ?p + 2 * int n2 \<le> uint ?sp"
    using assms by (auto simp: bind_room_def)
  define s1 where "s1 = fill_down n1 ?p NIL ?s"
  have r1: "rd s1 a = (if below n1 ?p a then NIL else rd ?s a)" for a by (simp add: s1_def rd_fill_down)
  have q: "uint ?q = uint ?p - 2 * int n1"
    using uint_minus_nat [of "2 * n1" ?p] room(3) by simp
  have apart1: "\<not> below n1 ?p a" if "uint ?p \<le> uint a \<or> uint a < uint ?q" for a
    using below_range [of n1 ?p a] room(3) that q by auto
  have apart2: "\<not> below n2 ?q a" if "uint ?q \<le> uint a" for a
    using below_range [of n2 ?q a] room(3) that q by auto
  have slot1: "below n1 ?p (?p - 2 * of_nat (Suc k))" if "k < n1" for k using that by (auto simp: below_def)
  have u1: "uint (?p - 2 * of_nat (Suc k)) = uint ?p - 2 - 2 * int k" if "k < n1" for k
    using uint_minus_nat [of "2 * Suc k" ?p] that room(3) by simp
  have u2: "uint (?q - 2 * of_nat (Suc k)) = uint ?q - 2 - 2 * int k" if "k < n2" for k
    using uint_minus_nat [of "2 * Suc k" ?q] that room(3) q by simp
  have split: "below (n1 + n2) ?p a \<longleftrightarrow> below n1 ?p a \<or> below n2 ?q a" for a by (rule below_split)
  show ?thesis
  proof (cases n2)
    case 0
    have "bind_slots (PVAR c) ?sp ?t n1 n2 (ucast x) ?s = (?sp + 2 - 2 * of_nat n2, wr ?sp ?t s1)"
      by (simp add: bind_slots_def 0 s1_def slots_end_def Let_def)
    moreover have "?p - 2 * of_nat (Suc k) \<noteq> ?sp" if "k < n1" for k
    proof
      assume "?p - 2 * of_nat (Suc k) = ?sp"
      then have "uint ?sp = uint ?p - 2 - 2 * int k" using u1 [OF that] by simp
      then show False using room(4) by linarith
    qed
    ultimately show ?thesis using 0 slot1 by (auto simp: rd_wr r1)
  next
    case (Suc m)
    define s2 where "s2 = wr (?q - 2) ?t s1"
    define r where "r = move_down m (?q - 2) ?sp s2"
    have e: "bind_slots (PVAR c) ?sp ?t n1 n2 (ucast x) ?s = r"
      by (simp add: bind_slots_def Suc r_def s2_def s1_def slots_end_def Let_def)
    have n2: "n2 = Suc m" by (rule Suc)
    have b2: "below n2 ?q a \<longleftrightarrow> a = ?q - 2 \<or> below m (?q - 2) a" for a by (simp add: n2 below_Suc)
    have src: "uint (?sp - 2 * of_nat (Suc i)) = uint ?sp - 2 - 2 * int i" if "i < m" for i
      using uint_minus_nat [of "2 * Suc i" ?sp] that room(4) uint_ge_0 [of ?p] n2 by simp
    have far: "\<not> below n2 ?q (?sp - 2 * of_nat (Suc i))" "\<not> below n1 ?p (?sp - 2 * of_nat (Suc i))" if "i < m" for i
    proof -
      have "uint ?p \<le> uint (?sp - 2 * of_nat (Suc i))" unfolding src [OF that] using that room(4) n2 by linarith
      then show "\<not> below n2 ?q (?sp - 2 * of_nat (Suc i))" "\<not> below n1 ?p (?sp - 2 * of_nat (Suc i))"
        using q by (intro apart1 apart2; linarith)+
    qed
    have r2: "rd s2 a = (if a = ?q - 2 then ?t else rd s1 a)" for a by (simp add: s2_def rd_wr)
    have ro: "rd (snd r) a = rd s2 a" if "\<not> below m (?q - 2) a" for a
      unfolding r_def by (rule rd_move_down_other [OF that])
    have fst: "fst r = ?sp + 2 - 2 * of_nat n2" by (simp add: r_def move_down_sp n2 algebra_simps)
    have nils: "rd (snd r) (?p - 2 * of_nat (Suc k)) = NIL" if k: "k < n1" for k
    proof -
      have "\<not> below n2 ?q (?p - 2 * of_nat (Suc k))" using u1 [OF k] k q by (intro apart2) linarith
      then show ?thesis using slot1 [OF k] by (simp add: b2 ro r2 r1)
    qed
    have top: "rd (snd r) (?q - 2 * of_nat (Suc 0)) = ?t"
    proof -
      have "\<not> below m (?q - 2) (?q - 2)"
      proof
        assume "below m (?q - 2) (?q - 2)"
        moreover have "uint (?q - 2) = uint ?q - 2" using u2 [of 0] n2 by simp
        ultimately show False using below_range [of m "?q - 2" "?q - 2"] q room(3) n2 by simp
      qed
      then show ?thesis by (simp add: ro r2)
    qed
    have vals: "rd (snd r) (?q - 2 * of_nat (Suc (Suc j))) = rd ?s (?sp - 2 * of_nat (Suc j))" if j: "j < m" for j
    proof -
      have "\<forall>i<m. \<not> below m (?q - 2) (?sp - 2 * of_nat (Suc i))" using far b2 by blast
      then have "rd (snd r) (?q - 2 - 2 * of_nat (Suc j)) = rd s2 (?sp - 2 * of_nat (Suc j))"
        unfolding r_def by (rule rd_move_down [OF j]) (use room(2) n2 in simp)
      moreover have "rd s2 (?sp - 2 * of_nat (Suc j)) = rd ?s (?sp - 2 * of_nat (Suc j))"
        using far [OF j] unfolding r2 r1 b2 by argo
      ultimately show ?thesis by (simp add: algebra_simps)
    qed
    have "\<forall>k<n2. rd (snd r) (?q - 2 * of_nat (Suc k)) = (if k = 0 then ?t else rd ?s (?sp - 2 * of_nat k))"
    proof (intro allI impI)
      fix k assume "k < n2"
      then show "rd (snd r) (?q - 2 * of_nat (Suc k)) = (if k = 0 then ?t else rd ?s (?sp - 2 * of_nat k))"
        using top vals n2 by (cases k) (simp_all only: if_True if_False Suc_less_eq simp_thms nat.distinct)
    qed
    moreover have "rd (snd r) a = rd ?s a" if "\<not> below (n1 + n2) ?p a" for a
      using that by (simp add: split b2 ro r2 r1)
    ultimately show ?thesis unfolding e using nils fst n2
      by (intro exI [of _ "snd r"]) (simp add: prod_eq_iff)
  qed
qed


text \<open>
  C20. \<open>BIND\<close> binds \<open>n1\<close> variables to NIL and \<open>n2\<close> to the values on the stack; a
  value pushed after it and an \<open>UNBIND\<close> leave that value in place of the \<open>n2\<close> values,
  every slot of the binding unbound again, and the rest of the memory alone but for the cell of the
  mark (and that of the old top of the stack, which the mark pushed into memory).
\<close>

theorem bind_unbind:
  assumes "bind_room c n1 n2 x"
  shows "\<exists>c1 c2. BIND (16 * n1 + n2) (ucast x) c = Nextop c1 \<and> UNBIND (PUSH (\<lambda>_. v) c1) = Nextop c2 \<and>
    (\<forall>k<n1. rd (st c1) (slots_end c x - 2 * of_nat (Suc k)) = NIL) \<and>
    (\<forall>k<n2. rd (st c1) (slots_end c x - 2 * of_nat n1 - 2 * of_nat (Suc k)) =
       (if k = 0 then TOPOFSTACK c else rd (st c) (CSTKPTR c - 2 * of_nat k))) \<and>
    TOPOFSTACK c2 = v \<and> CSTKPTR c2 = CSTKPTR c + 2 - 2 * of_nat n2 \<and> PVAR c2 = PVAR c \<and>
    (\<forall>k<n1 + n2. rd (st c2) (slots_end c x - 2 * of_nat (Suc k)) = UNBOUND) \<and>
    (\<forall>a. \<not> below (n1 + n2) (slots_end c x) a \<and> a \<noteq> CSTKPTR c2 \<longrightarrow>
       rd (st c2) a = (if n2 = 0 \<and> a = CSTKPTR c then TOPOFSTACK c else rd (st c) a))"
proof -
  let ?p = "slots_end c x" and ?m = "bind_mark (n1 + n2) (ucast x)"
  define sp where "sp = CSTKPTR c + 2 - 2 * of_nat n2"
  have room: "n1 < 16" "n2 < 16" using assms by (auto simp: bind_room_def)
  obtain s1 where s1: "bind_slots (PVAR c) (CSTKPTR c) (TOPOFSTACK c) n1 n2 (ucast x) (st c) = (sp, s1)"
    "\<forall>k<n1. rd s1 (?p - 2 * of_nat (Suc k)) = NIL"
    "\<forall>k<n2. rd s1 (?p - 2 * of_nat n1 - 2 * of_nat (Suc k)) =
       (if k = 0 then TOPOFSTACK c else rd (st c) (CSTKPTR c - 2 * of_nat k))"
    "\<And>a. \<not> below (n1 + n2) ?p a \<Longrightarrow> rd s1 a = (if n2 = 0 \<and> a = CSTKPTR c then TOPOFSTACK c else rd (st c) a)"
    using bind_slots_law [OF assms] unfolding sp_def [symmetric] by blast
  define c1 where "c1 = c\<lparr>st := s1, CSTKPTR := sp, TOPOFSTACK := ?m, PCMAC := PCMAC c + 3\<rparr>"
  have b: "BIND (16 * n1 + n2) (ucast x) c = Nextop c1"
    using room s1(1) by (simp add: BIND_def Let_def nextop_def set_tos_def c1_def)
  note mark = mark_parts [of "n1 + n2" x]
  have nm: "n1 + n2 < 2 ^ 15" using room by simp
  define s2 where "s2 = wr sp ?m s1"
  have push: "PUSH (\<lambda>_. v) c1 = c1\<lparr>st := s2, CSTKPTR := sp + 2, TOPOFSTACK := v\<rparr>"
    by (simp add: PUSH_def HARD_PUSH_def set_tos_def c1_def s2_def Let_def)
  have m2: "rd s2 sp = ?m" by (simp add: s2_def rd_wr)
  have find: "find_mark s2 (sp + 2) = Some sp"
    using mark(1) [OF nm] find_mark.simps [of s2 "sp + 2"] unfolding add_diff_cancel_right' m2 by simp
  define s3 where "s3 = fill_down (n1 + n2) ?p UNBOUND s2"
  have ub: "unbind_mark (PVAR c) ?m s2 = s3"
    by (simp add: unbind_mark_def mark [OF nm] s3_def slots_end_def algebra_simps)
  define c2 where "c2 = c1\<lparr>st := s3, CSTKPTR := sp, TOPOFSTACK := v, PCMAC := PCMAC c1 + 1\<rparr>"
  have u: "UNBIND (PUSH (\<lambda>_. v) c1) = Nextop c2"
    unfolding push UNBIND_def using find m2 ub by (simp add: nextop_def c2_def c1_def)
  have r3: "rd s3 a = (if below (n1 + n2) ?p a then UNBOUND else if a = sp then ?m else rd s1 a)" for a
    by (simp add: s3_def rd_fill_down s2_def rd_wr)
  have "below (n1 + n2) ?p (?p - 2 * of_nat (Suc k))" if "k < n1 + n2" for k
    unfolding below_def using that by blast
  then have "rd s3 (?p - 2 * of_nat (Suc k)) = UNBOUND" if "k < n1 + n2" for k
    unfolding r3 using that by presburger
  then have slots: "\<forall>k<n1 + n2. rd s3 (?p - 2 * of_nat (Suc k)) = UNBOUND" by blast
  have others: "\<forall>a. \<not> below (n1 + n2) ?p a \<and> a \<noteq> sp \<longrightarrow>
      rd s3 a = (if n2 = 0 \<and> a = CSTKPTR c then TOPOFSTACK c else rd (st c) a)"
    using s1(4) r3 by metis
  have f: "st c1 = s1" "st c2 = s3" "TOPOFSTACK c2 = v" "CSTKPTR c2 = sp" "PVAR c2 = PVAR c"
    by (simp_all add: c1_def c2_def)
  show ?thesis
    by (rule exI [of _ c1], rule exI [of _ c2], unfold f sp_def [symmetric])
       (intro conjI b u s1(2) s1(3) slots others refl)
qed


section \<open>On a concrete state\<close>

text \<open>
  A state with free FIXP and FLOATP cells, an array of four 32-bit integers at 0x600010 whose elements
  0 and 1 are 7 and -1, and a stack from 0x10100 on.
\<close>

definition vm_ops :: vm where
  "vm_ops = vm_num\<lparr>mem := (mem vm_num)(0x141038 := 2, 0x14103A := 0x500010, 0x600010 := 0x700000,
       0x600012 := 0x160000, 0x600016 := 4, 0x700000 := 7, 0x700002 := 0xFFFFFFFF, 0x10100 := 0x600010,
       0x10102 := 0xE0009),
     gc := (gc vm_num)\<lparr>mds_typetbl := (\<lambda>i. if i = 0x2000 then 2 else if i = 0x2800 then 3
                                    else if i = 0x3000 then 14 else 0)\<rparr>\<rparr>"

definition cpu_ops :: "LispPTR \<Rightarrow> cpu" where
  "cpu_ops t = \<lparr>st = vm_ops, TOPOFSTACK = t, CSTKPTR = 0x10102, PCMAC = 0x900000, PVAR = 0x10040, IVAR = 0x10020,
     TopOfStack = 0, Irq_Stk_Check = 0x10800, FuncObj = 0x480000, EndSTKP = 0x10900\<rparr>"

lemma cpu_ops_fields [simp]:
  "st (cpu_ops t) = vm_ops" "TOPOFSTACK (cpu_ops t) = t" "CSTKPTR (cpu_ops t) = 0x10102" "PVAR (cpu_ops t) = 0x10040"
  "GET_TOS_1 (cpu_ops t) = 0x600010"
  by (simp_all add: cpu_ops_def GET_TOS_1_def vm_ops_def rd_def getcell_def)

lemma vm_ops_reads:
  "rd vm_ops 0x10100 = 0x600010" "rd vm_ops 0x700000 = 7" "rd vm_ops 0x700002 = 0xFFFFFFFF"
  "ar_base vm_ops 0x600010 = 0x700000" "ar_typenumber vm_ops 0x600010 = 22" "ar_offset vm_ops 0x600010 = 0"
  "ar_totalsize vm_ops 0x600010 = 4" "GetTypeNumber vm_ops 0x600010 = TYPE_ONED_ARRAY"
  by (simp_all add: vm_ops_def rd_def getcell_def ar_base_def ar_typenumber_def ar_offset_def ar_totalsize_def
      POINTERMASK_def GetTypeNumber_def GetTypeEntry_def TYPE_ONED_ARRAY_def)

lemma vm_ops_box: "box_ready vm_ops TYPE_FIXP" "box_ready vm_ops TYPE_FLOATP"
proof -
  have d: "GetDTD TYPE_FIXP = 0x141024" "GetDTD TYPE_FLOATP = 0x141036"
    by (simp_all add: GetDTD_def DTD_OFFSET_def TYPE_FIXP_def TYPE_FLOATP_def)
  have sz: "dtd_size vm_ops 0x141024 = 2" "dtd_free vm_ops 0x141024 = 0x400010"
    "dtd_size vm_ops 0x141036 = 2" "dtd_free vm_ops 0x141036 = 0x500010"
    by (simp_all add: dtd_size_def dtd_free_def vm_ops_def vm_num_def vm_fixp_def rd_def getcell_def lo_word_def)
  have nb: "new_box vm_ops TYPE_FIXP = 0x400010" "new_box vm_ops TYPE_FLOATP = 0x500010"
    by (simp_all add: new_box_def d sz POINTERMASK_def)
  have ap: "cell_apart vm_ops 0x141024 0x400010" "cell_apart vm_ops 0x141036 0x500010"
    unfolding cell_apart_def sz by (auto simp: less_2_cases_iff cell_of_def)
  have ty: "RefCntP vm_ops 0x400010" "GetTypeNumber vm_ops 0x400010 = TYPE_FIXP"
    "RefCntP vm_ops 0x500010" "GetTypeNumber vm_ops 0x500010 = TYPE_FLOATP"
    by (simp_all add: RefCntP_def GetTypeNumber_def GetTypeEntry_def vm_ops_def vm_num_def vm_fixp_def vm0_def
        gctab0_def ATOM_T_def NIL_def TT_NOREF_def TYPE_FIXP_def TYPE_FLOATP_def)
  have "gc_ptr 0x400010" "gc_ptr 0x500010"
    by (simp_all add: gc_ptr_def ht_hiptr_def HTHIMASK_def POINTERMASK_def)
  then have cr: "counts_ready vm_ops 0x400010 DELREF" "counts_ready vm_ops 0x500010 DELREF"
    using typetbl_irrelevant by (simp_all add: counts_ready_def vm_ops_def vm_num_def vm_fixp_def vm0_def)
  show "box_ready vm_ops TYPE_FIXP" "box_ready vm_ops TYPE_FLOATP"
    using ap ty cr by (simp_all add: box_ready_def Let_def d sz nb NIL_def SEGMASK_def S_POSITIVE_def S_NEGATIVE_def)
qed

lemma number_opcode_exits_witness:
  "N_OP_CALL_2 (N_OP_logand calc0) (cpu_ops 0xE0007) = Op_ufn ((cpu_ops 0xE0007)\<lparr>TopOfStack := 0xE0007\<rparr>)"
proof -
  have "N_OP_logand calc0 \<in> set (number_ops calc0)" by (simp add: number_ops_def)
  note w = number_opcode_exits [OF _ _ this, of "cpu_ops 0xE0007", simplified, OF vm_ops_box]
  have "N_OP_logand calc0 0x600010 0xE0007 vm_ops = Inl (Ufn 0xE0007)"
    by (simp add: N_OP_logand_def two_numbers_def N_IGETNUMBER_def SEGMASK_def S_POSITIVE_def S_NEGATIVE_def
        vm_ops_reads TYPE_FIXP_def TYPE_FLOATP_def TYPE_ONED_ARRAY_def)
  then show ?thesis using w by (auto split: op_exit.splits)
qed

lemma aref1_inline_agrees_witness:
  "AREF1 calc0 (cpu_ops 0xE0000) = N_OP_CALL_2 (N_OP_aref1 calc0) (cpu_ops 0xE0000)"
  by (rule aref1_inline_agrees)
     (simp_all add: vm_ops_box vm_ops_reads aref1_cell_def aref1_index_def cell_at_def)

lemma aref1_inline_negative_witness:
  "AREF1 calc0 (cpu_ops 0xE0001) =
     nextop 1 ((cpu_ops 0xE0001)\<lparr>CSTKPTR := 0x10100, TOPOFSTACK := 0xF0000\<rparr>) \<and>
   N_OP_CALL_2 (N_OP_aref1 calc0) (cpu_ops 0xE0001) =
     nextop 1 ((cpu_ops 0xE0001)\<lparr>CSTKPTR := 0x10100, TOPOFSTACK := 0xFFFFF\<rparr>)"
proof -
  have "aref1_direct (st (cpu_ops 0xE0001)) (GET_TOS_1 (cpu_ops 0xE0001)) (TOPOFSTACK (cpu_ops 0xE0001))"
    by (simp add: aref1_direct_def vm_ops_reads SEGMASK_def S_POSITIVE_def)
  from aref1_inline_negative [OF this, where v = "0xFFFFFFFF" and E = calc0] show ?thesis
    by (simp add: vm_ops_reads aref1_cell_def aref1_index_def cell_at_def S_NEGATIVE_def)
qed

lemma negative_byte_offset_witness:
  "GETBASEBYTE (cpu_ops 0xFFFFF) = Fault (Fatal ''access outside Lisp memory'')"
  using negative_byte_offset [where c = "cpu_ops 0xFFFFF" and seg = S_NEGATIVE and n = "0xFFFF"] by (simp add: S_NEGATIVE_def S_POSITIVE_def)

lemma bind_unbind_witness:
  "\<exists>c1 c2. BIND 0x12 3 (cpu_ops 0xE0007) = Nextop c1 \<and> UNBIND (PUSH (\<lambda>_. 0xE0005) c1) = Nextop c2 \<and>
     rd (st c1) 0x10046 = NIL \<and> rd (st c1) 0x10044 = 0xE0007 \<and> rd (st c1) 0x10042 = 0x600010 \<and>
     TOPOFSTACK c2 = 0xE0005 \<and> CSTKPTR c2 = 0x10100 \<and> rd (st c2) 0x10042 = UNBOUND"
proof -
  have e: "slots_end (cpu_ops 0xE0007) 3 = 0x10048" by (simp add: slots_end_def)
  have room: "bind_room (cpu_ops 0xE0007) 1 2 3" unfolding bind_room_def e by simp
  have n: "(16 * 1 + 2 :: nat) = 0x12" "(ucast (3 :: 8 word) :: 32 word) = 3" by simp_all
  obtain c1 c2 where
    w: "BIND 0x12 3 (cpu_ops 0xE0007) = Nextop c1" "UNBIND (PUSH (\<lambda>_. 0xE0005) c1) = Nextop c2"
      "\<forall>k<1. rd (st c1) (0x10048 - 2 * of_nat (Suc k)) = NIL"
      "\<forall>k<2. rd (st c1) (0x10048 - 2 * of_nat 1 - 2 * of_nat (Suc k)) =
         (if k = 0 then 0xE0007 else rd vm_ops (0x10102 - 2 * of_nat k))"
      "TOPOFSTACK c2 = 0xE0005" "CSTKPTR c2 = 0x10102 + 2 - 2 * of_nat 2"
      "\<forall>k<1 + 2. rd (st c2) (0x10048 - 2 * of_nat (Suc k)) = UNBOUND"
    using bind_unbind [OF room, of "0xE0005"] unfolding e n by auto
  have "rd (st c1) 0x10046 = NIL" using w(3) by simp
  moreover have "rd (st c1) 0x10044 = 0xE0007" using spec [OF w(4), of 0] by simp
  moreover have "rd (st c1) 0x10042 = 0x600010" using spec [OF w(4), of 1] by (simp add: vm_ops_reads)
  moreover have "rd (st c2) 0x10042 = UNBOUND" using spec [OF w(7), of 2] by simp
  ultimately show ?thesis using w by auto
qed

end
