(* ===== verification/Free_Variables.thy ===== *)
theory Free_Variables
  imports Opcode_Laws
begin

text \<open>
  Free variables (\<open>src/fvar.c\<close> and the \<open>FVAR\<close> macros of \<open>inc/inlineC.h\<close>): the search
  of the name tables along the access links, in its two versions, the cache in the frame of the
  caller, and the opcodes that use it. The two searches are shown to implement the same dynamic scoping.

  An \<open>FVAR\<close> slot of a frame holds the address of the variable with its halves swapped, so that
  the lowest bit of the first word tells a resolved slot (an even address) from an unresolved one.
\<close>

section \<open>Frames and name tables\<close>

definition FNHEADSIZE :: "32 word" where "FNHEADSIZE = 8"
definition ENDSTACKMARK :: DLword where "ENDSTACKMARK = 0xB"
definition STK_HI :: DLword where "STK_HI = 1"

definition fn_ntsize :: "vm \<Rightarrow> LispPTR \<Rightarrow> DLword" where "fn_ntsize s fn = getword (mem s) (fn + 6)"
definition fn_nlocals :: "vm \<Rightarrow> LispPTR \<Rightarrow> 32 word" where
  "fn_nlocals s fn = drop_bit 8 (ucast (getword (mem s) (fn + 7)))"
definition fn_fvaroffset :: "vm \<Rightarrow> LispPTR \<Rightarrow> 32 word" where
  "fn_fvaroffset s fn = ucast (getword (mem s) (fn + 7)) AND 0xFF"

definition fx_validnametable :: "vm \<Rightarrow> LispPTR \<Rightarrow> bool" where
  "fx_validnametable s fx \<longleftrightarrow> bit (getword (mem s) fx) 9"
definition fx_fnheader :: "vm \<Rightarrow> LispPTR \<Rightarrow> LispPTR" where "fx_fnheader s fx = rd s (fx + 2)"
definition fx_nametable :: "vm \<Rightarrow> LispPTR \<Rightarrow> LispPTR" where "fx_nametable s fx = rd s (fx + 6)"

text \<open>The frame the access link points to; its lowest bit marks a slow frame.\<close>

definition alink_fx :: "DLword \<Rightarrow> LispPTR" where
  "alink_fx alink = STK_OFFSET + (ucast alink AND 0xFFFE) - FRAMESIZE"

definition swapx :: "32 word \<Rightarrow> 32 word" where "swapx w = join_words (lo_word w) (hi_word w)"

text \<open>The slot of a variable with no binding on the stack: the value cell of the atom.\<close>

definition top_slot :: "LispPTR \<Rightarrow> 32 word" where "top_slot name = swapx (value_cell name)"

definition unresolved :: "vm \<Rightarrow> LispPTR \<Rightarrow> bool" where "unresolved s slot \<longleftrightarrow> bit (getword (mem s) slot) 0"

section \<open>\<open>nnewframe\<close>\<close>

text \<open>
  What a name table entry means for the search: a slot value, go on in this table, or go on with the
  next frame.
\<close>

datatype nt_hit = Hit "32 word" | Go_on | Next_frame | Bad_entry

definition pvar_place :: "LispPTR \<Rightarrow> 32 word \<Rightarrow> LispPTR" where
  "pvar_place fx entry = FRAMESIZE + fx + push_bit 1 (entry AND 0xFFFFFFF)"

definition nt_resolve :: "vm \<Rightarrow> LispPTR \<Rightarrow> 32 word \<Rightarrow> nt_hit" where
  "nt_resolve s fx entry =
     (let fvaroffset = push_bit 1 (entry AND 0xFFFFFFF); fvartype = entry AND 0xFF000000; ppvar = pvar_place fx entry
      in if fvartype = 0x80000000
         then (if bit (getword (mem s) ppvar) 15 then Go_on else Hit (join_words (lo_word ppvar) STK_HI))
         else if fvartype = 0xC0000000
         then (if unresolved s ppvar then Next_frame else Hit (rd s ppvar))
         else if fvartype = 0
         then Hit (join_words (getword (mem s) (fx - 1) + lo_word fvaroffset) STK_HI)
         else Bad_entry)"

definition nt_probe :: "vm \<Rightarrow> (32 word \<Rightarrow> nt_hit) \<Rightarrow> LispPTR \<Rightarrow> nat \<Rightarrow> LispPTR \<Rightarrow> nat \<Rightarrow> nt_hit" where
  "nt_probe s resolve table n name k =
     (if rd s (table + 2 * of_nat k) = name then resolve (rd s (table + 2 * of_nat (k + n))) else Go_on)"

text \<open>The loop over the table of \<open>n\<close> names, two entries a round, and \<open>n\<close> offsets behind them.\<close>

function nt_pairs :: "vm \<Rightarrow> (32 word \<Rightarrow> nt_hit) \<Rightarrow> LispPTR \<Rightarrow> nat \<Rightarrow> LispPTR \<Rightarrow> nat \<Rightarrow> nt_hit" where
  "nt_pairs s resolve table n name k =
     (if k \<ge> n then Next_frame
      else case nt_probe s resolve table n name k of
             Go_on \<Rightarrow> (case nt_probe s resolve table n name (Suc k) of
                        Go_on \<Rightarrow> nt_pairs s resolve table n name (Suc (Suc k)) | r \<Rightarrow> r)
           | r \<Rightarrow> r)"
  by pat_completeness auto

termination by (relation "measure (\<lambda>(s, resolve, table, n, name, k). n - k)") auto

declare nt_pairs.simps [simp del]

definition nt_size :: "vm \<Rightarrow> LispPTR \<Rightarrow> nat" where "nt_size s nt = unat (drop_bit 1 (fn_ntsize s nt))"

definition name_table_of :: "vm \<Rightarrow> LispPTR \<Rightarrow> LispPTR" where
  "name_table_of s fx = (if fx_validnametable s fx then fx_nametable s fx else fx_fnheader s fx)"

text \<open>The loop over the frames; the result is the new contents of the slot.\<close>

partial_function (option) nnewframe :: "vm \<Rightarrow> LispPTR \<Rightarrow> LispPTR \<Rightarrow> 32 word res option" where
  "nnewframe s fx name =
     (let ph = fx_alink s fx
      in if ph = 0 then Some (Inl (Fatal ''alink = 0 in nnewframe''))
         else if ph = ENDSTACKMARK then Some (Inr (top_slot name))
         else (let fx1 = alink_fx ph; nt = name_table_of s fx1
               in case nt_pairs s (nt_resolve s fx1) (nt + FNHEADSIZE) (nt_size s nt) name 0 of
                    Hit v \<Rightarrow> Some (Inr v)
                  | Bad_entry \<Rightarrow> Some (Inl (Fatal ''Stack corrupted: bad value in name table''))
                  | _ \<Rightarrow> nnewframe s fx1 name))"

declare nnewframe.simps [code]

section \<open>\<open>native_newframe\<close>\<close>

definition STK_HI_RET :: "32 word \<Rightarrow> 32 word" where "STK_HI_RET x = push_bit 16 x OR 1 OR drop_bit 16 x"

definition native_resolve :: "vm \<Rightarrow> LispPTR \<Rightarrow> 32 word \<Rightarrow> nt_hit" where
  "native_resolve s fx entry =
     (let fvaroffset = push_bit 1 (entry AND 0xFFFFFFF); fvartype = entry AND 0xFF000000; ppvar = pvar_place fx entry
      in if fvartype = 0x80000000
         then (if bit (getword (mem s) ppvar) 15 then Go_on else Hit (STK_HI_RET ppvar))
         else if fvartype = 0xC0000000
         then (if unresolved s ppvar then Next_frame else Hit (rd s ppvar))
         else if fvartype = 0
         then Hit (STK_HI_RET (ucast (getword (mem s) (fx - 1)) + fvaroffset))
         else Bad_entry)"

text \<open>One entry a round; \<open>m\<close> rounds are left.\<close>

primrec nt_each :: "vm \<Rightarrow> (32 word \<Rightarrow> nt_hit) \<Rightarrow> LispPTR \<Rightarrow> nat \<Rightarrow> LispPTR \<Rightarrow> nat \<Rightarrow> nt_hit" where
  "nt_each s resolve table n name 0 = Next_frame"
| "nt_each s resolve table n name (Suc m) =
     (case nt_probe s resolve table n name (n - Suc m) of Go_on \<Rightarrow> nt_each s resolve table n name m | r \<Rightarrow> r)"

partial_function (option) native_search :: "vm \<Rightarrow> LispPTR \<Rightarrow> LispPTR \<Rightarrow> 32 word res option" where
  "native_search s fx name =
     (let alink = fx_alink s fx
      in if alink = 0 then Some (Inl (Fatal ''alink is 0 in native_newframe''))
         else if alink = ENDSTACKMARK then Some (Inr (top_slot name))
         else (let fx1 = alink_fx alink; nt = name_table_of s fx1 AND POINTERMASK
               in case nt_each s (native_resolve s fx1) (nt + FNHEADSIZE) (nt_size s nt) name (nt_size s nt) of
                    Hit v \<Rightarrow> Some (Inr v)
                  | Bad_entry \<Rightarrow> Some (Inl (Fatal ''Stack corrupted: bad value in name table''))
                  | _ \<Rightarrow> native_search s fx1 name))"

declare native_search.simps [code]

text \<open>The name of an \<open>FVAR\<close> slot, found in the function header by its number.\<close>

definition fvar_name :: "vm \<Rightarrow> LispPTR \<Rightarrow> 32 word \<Rightarrow> LispPTR" where
  "fvar_name s fnobj slot = rd s (fnobj + fn_fvaroffset s fnobj + 2 * slot - 2 * fn_nlocals s fnobj)"

definition native_newframe :: "32 word \<Rightarrow> cpu \<Rightarrow> (LispPTR \<times> cpu) res" where
  "native_newframe slot c =
     rbind (of_loop_res (native_search (st c) (PVAR c - FRAMESIZE) (fvar_name (st c) (FuncObj c) slot))) (\<lambda>v.
     Inr (v, poke_cell (PVAR c + 2 * slot) v c))"

section \<open>The opcodes\<close>

definition nfvlookup :: "LispPTR \<Rightarrow> cpu \<Rightarrow> cpu res" where
  "nfvlookup achain c =
     rbind (of_loop_res (nnewframe (st c) (CURRENTFX c)
              (fvar_name (st c) (FuncObj c) (drop_bit 1 (achain - PVAR c))))) (\<lambda>v.
     Inr (poke_cell achain v c))"

definition resolve_slot :: "LispPTR \<Rightarrow> cpu \<Rightarrow> cpu res" where
  "resolve_slot fslot c = (if unresolved (st c) fslot then nfvlookup fslot c else Inr c)"

definition slot_address :: "vm \<Rightarrow> LispPTR \<Rightarrow> LispPTR" where "slot_address s fslot = POINTERMASK AND swapx (rd s fslot)"

definition N_OP_fvarn :: "32 word \<Rightarrow> cpu \<Rightarrow> (LispPTR \<times> cpu) res" where
  "N_OP_fvarn n c =
     (let fslot = PVAR c + n
      in rbind (resolve_slot fslot c) (\<lambda>c1. Inr (peek c1 (slot_address (st c1) fslot), c1)))"

text \<open>\<open>FVAR\<close> and \<open>FVARX\<close> differ in their size. \<open>PUSH\<close> evaluates its argument after the push.\<close>

definition FVAR_op :: "32 word \<Rightarrow> 32 word \<Rightarrow> cpu \<Rightarrow> op_exit" where
  "FVAR_op len n c =
     (let fslot = PVAR c + n; c1 = HARD_PUSH (TOPOFSTACK c) c
      in if unresolved (st c) fslot
         then (case native_newframe (drop_bit 1 n) c1 of
                 Inl e \<Rightarrow> Fault e
               | Inr (v, c2) \<Rightarrow> nextop len (set_tos (peek c2 (POINTERMASK AND swapx v)) c2))
         else nextop len (set_tos (peek c1 (slot_address (st c1) fslot)) c1))"

definition FVAR :: "32 word \<Rightarrow> cpu \<Rightarrow> op_exit" where "FVAR n c = FVAR_op 1 n c"
definition FVARX :: "32 word \<Rightarrow> cpu \<Rightarrow> op_exit" where "FVARX n c = FVAR_op 2 n c"

definition N_OP_stkscan :: "LispPTR \<Rightarrow> cpu \<Rightarrow> LispPTR res" where
  "N_OP_stkscan tos c =
     rbind (of_loop_res (nnewframe (st c) (CURRENTFX c) (POINTERMASK AND tos))) (\<lambda>v. Inr (swapx v))"

definition STKSCAN :: "cpu \<Rightarrow> op_exit" where
  "STKSCAN c = (case N_OP_stkscan (TOPOFSTACK c) c of Inl e \<Rightarrow> Fault e | Inr v \<Rightarrow> nextop 1 (set_tos v c))"

text \<open>
  The assignment. Only a variable outside the stack is counted; the test for that looks at the
  lowest 8 bits of the segment.
\<close>

definition N_OP_fvar_set :: "LispPTR \<Rightarrow> 32 word \<Rightarrow> cpu \<Rightarrow> (LispPTR \<times> cpu) res" where
  "N_OP_fvar_set tos n c =
     (let ppvar = PVAR c + n
      in rbind (resolve_slot ppvar c) (\<lambda>c1.
         let hi = getword (mem (st c1)) (ppvar + 1);
             pfreeval = (push_bit 16 (ucast hi) AND SEGMASK) OR ucast (getword (mem (st c1)) ppvar)
         in rbind (if 0xFF AND hi \<noteq> STK_HI
                   then rbind (GCLOOKUP (rd (st c1) pfreeval) DELREF (st c1)) (\<lambda>s. GCLOOKUP tos ADDREF s)
                   else Inr (st c1)) (\<lambda>s.
            Inr (tos, c1\<lparr>st := wr pfreeval tos s\<rparr>))))"

definition FVARX_set :: "32 word \<Rightarrow> cpu \<Rightarrow> op_exit" where
  "FVARX_set n c =
     (case N_OP_fvar_set (TOPOFSTACK c) n c of Inl e \<Rightarrow> Fault e | Inr (v, c1) \<Rightarrow> nextop 2 (set_tos v c1))"

section \<open>Dynamic scoping\<close>

text \<open>
  The specification: the name table of a frame as a list of pairs, the first entry for the name that is
  not an unbound slot, and the first frame along the access links that has one.
\<close>

definition name_table :: "vm \<Rightarrow> LispPTR \<Rightarrow> (LispPTR \<times> 32 word) list" where
  "name_table s nt = (let n = nt_size s nt; t = nt + FNHEADSIZE
     in map (\<lambda>k. (rd s (t + 2 * of_nat k), rd s (t + 2 * of_nat (k + n)))) [0..<n])"

definition frame_hit :: "vm \<Rightarrow> LispPTR \<Rightarrow> LispPTR \<Rightarrow> nt_hit" where
  "frame_hit s fx name =
     (case [r \<leftarrow> map (\<lambda>(nm, entry). nt_resolve s fx entry)
                   [p \<leftarrow> name_table s (name_table_of s fx). fst p = name]. r \<noteq> Go_on] of
        [] \<Rightarrow> Next_frame | r # _ \<Rightarrow> r)"

primrec dyn_lookup :: "vm \<Rightarrow> LispPTR list \<Rightarrow> LispPTR \<Rightarrow> 32 word res" where
  "dyn_lookup s [] name = Inr (top_slot name)"
| "dyn_lookup s (fx # fxs) name =
     (case frame_hit s fx name of
        Hit v \<Rightarrow> Inr v
      | Bad_entry \<Rightarrow> Inl (Fatal ''Stack corrupted: bad value in name table'')
      | _ \<Rightarrow> dyn_lookup s fxs name)"

primrec alink_chain :: "vm \<Rightarrow> LispPTR \<Rightarrow> LispPTR list \<Rightarrow> bool" where
  "alink_chain s fx [] \<longleftrightarrow> fx_alink s fx = ENDSTACKMARK"
| "alink_chain s fx (f # fxs) \<longleftrightarrow>
     fx_alink s fx \<noteq> 0 \<and> fx_alink s fx \<noteq> ENDSTACKMARK \<and> f = alink_fx (fx_alink s fx) \<and> alink_chain s f fxs"


section \<open>Both searches find the dynamic binding\<close>

definition first_hit :: "nt_hit list \<Rightarrow> nt_hit" where
  "first_hit rs = (case [r \<leftarrow> rs. r \<noteq> Go_on] of [] \<Rightarrow> Next_frame | r # _ \<Rightarrow> r)"

lemma first_hit_simps [simp]:
  "first_hit [] = Next_frame"
  "first_hit (r # rs) = (if r = Go_on then first_hit rs else r)"
  by (simp_all add: first_hit_def)

lemma nt_case_Go_on: "(case r of Go_on \<Rightarrow> x | r1 \<Rightarrow> r1) = (if r = Go_on then x else r)"
  by (cases r) simp_all

lemma nt_pairs_first:
  "even (n - k) \<Longrightarrow> nt_pairs s resolve table n name k = first_hit (map (nt_probe s resolve table n name) [k..<n])"
proof (induction s resolve table n name k rule: nt_pairs.induct)
  case (1 s resolve table n name k)
  show ?case
  proof (cases "k \<ge> n")
    case True
    then show ?thesis by (simp add: nt_pairs.simps)
  next
    case False
    then have "Suc k < n" using "1.prems" by (metis Suc_lessI diff_Suc_1 diff_diff_left dvd_1_iff_1 even_Suc
        linorder_not_less odd_one plus_1_eq_Suc add_diff_cancel_right')
    then have u: "[k..<n] = k # Suc k # [Suc (Suc k)..<n]" by (simp add: upt_conv_Cons)
    have "n - k = Suc (Suc (n - Suc (Suc k)))" using \<open>Suc k < n\<close> by simp
    then have ev: "even (n - Suc (Suc k))" using "1.prems" by simp
    show ?thesis using False ev "1.IH"
      by (subst nt_pairs.simps, unfold nt_case_Go_on u list.map first_hit_simps) simp
  qed
qed

lemma nt_each_first:
  "m \<le> n \<Longrightarrow> nt_each s resolve table n name m = first_hit (map (nt_probe s resolve table n name) [n - m..<n])"
proof (induction m)
  case (Suc m)
  then have u: "[n - Suc m..<n] = (n - Suc m) # [n - m..<n]" by (simp add: upt_conv_Cons Suc_diff_Suc)
  show ?case using Suc by (simp only: nt_each.simps nt_case_Go_on u list.map first_hit_simps)
qed simp

lemma first_hit_filter:
  "first_hit (map (\<lambda>k. if P k then f k else Go_on) ks) = first_hit (map f (filter P ks))"
  by (induction ks) auto

lemma frame_hit_first:
  "frame_hit s fx name =
   (let nt = name_table_of s fx
    in first_hit (map (nt_probe s (nt_resolve s fx) (nt + FNHEADSIZE) (nt_size s nt) name) [0..<nt_size s nt]))"
  unfolding frame_hit_def name_table_def Let_def nt_probe_def first_hit_filter
  by (simp add: first_hit_def filter_map comp_def)

text \<open>
  A frame as the compiler and the stack discipline leave it: a table of an even number of names, its
  variables inside the stack segment.
\<close>

definition frame_plain :: "vm \<Rightarrow> LispPTR \<Rightarrow> bool" where
  "frame_plain s fx \<longleftrightarrow>
     (let nt = name_table_of s fx
      in nt AND POINTERMASK = nt \<and> even (nt_size s nt) \<and>
         (\<forall>(nm, entry) \<in> set (name_table s nt).
            pvar_place fx entry < 0x20000 \<and>
            ucast (getword (mem s) (fx - 1)) + push_bit 1 (entry AND 0xFFFFFFF) < (0x20000 :: 32 word)))"

lemma STK_HI_RET_small: "x < 0x20000 \<Longrightarrow> STK_HI_RET x = join_words (lo_word x) STK_HI"
proof (rule bit_word_eqI)
  fix n assume x: "x < 0x20000" and n: "n < LENGTH(32)"
  have ux: "unat x < 2 ^ 17" using x by (simp add: word_less_nat_alt)
  have h: "bit x m \<Longrightarrow> m < 17" for m 
  proof (rule ccontr)
    assume "bit x m" "\<not> m < 17"
    then show False using small_bits [of "unat x" 17 m] ux by simp
  qed
  have one: "bit x (n + 16) \<Longrightarrow> n = 0" using h [of "n + 16"] by simp
  show "bit (STK_HI_RET x) n = bit (join_words (lo_word x) STK_HI) n"
    using n one
    by (auto simp: STK_HI_RET_def join_words_def lo_word_def STK_HI_def bit_or_iff bit_push_bit_iff bit_ucast_iff
        bit_drop_bit_eq bit_1_iff add.commute)
qed

lemma lo_word_add: "lo_word (ucast w + x) = w + lo_word x" for w :: DLword
proof -
  have t: "word_of_int (take_bit 32 i) = (word_of_int i :: 16 word)" for i
    by transfer simp
  have "uint (ucast w + x) = take_bit 32 (uint w + uint x)"
    by (simp add: uint_word_ariths(1) take_bit_eq_mod unsigned_ucast_eq mod_add_left_eq)
  then have "ucast (ucast w + x) = (word_of_int (take_bit 32 (uint w + uint x)) :: 16 word)"
    by (simp only: ucast_eq)
  also have "\<dots> = word_of_int (uint w) + word_of_int (uint x)" by (simp only: t of_int_add)
  also have "\<dots> = w + ucast x" by (simp only: ucast_eq word_of_int_uint)
  finally show ?thesis by (simp only: lo_word_def)
qed

lemma native_resolve_plain:
  assumes "pvar_place fx entry < 0x20000"
    and "ucast (getword (mem s) (fx - 1)) + push_bit 1 (entry AND 0xFFFFFFF) < (0x20000 :: 32 word)"
  shows "native_resolve s fx entry = nt_resolve s fx entry"
  by (simp only: native_resolve_def nt_resolve_def Let_def STK_HI_RET_small [OF assms(1)]
      STK_HI_RET_small [OF assms(2)] lo_word_add)

lemma native_table:
  assumes "frame_plain s fx" "nt = name_table_of s fx AND POINTERMASK"
  shows "nt_each s (native_resolve s fx) (nt + FNHEADSIZE) (nt_size s nt) name (nt_size s nt) = frame_hit s fx name"
proof -
  have nt: "nt = name_table_of s fx" using assms by (simp add: frame_plain_def Let_def)
  have "nt_probe s (native_resolve s fx) (nt + FNHEADSIZE) (nt_size s nt) name k =
      nt_probe s (nt_resolve s fx) (nt + FNHEADSIZE) (nt_size s nt) name k" if "k \<in> set [0..<nt_size s nt]" for k
  proof -
    have "(rd s (nt + FNHEADSIZE + 2 * of_nat k), rd s (nt + FNHEADSIZE + 2 * of_nat (k + nt_size s nt)))
        \<in> set (name_table s nt)"
      using that unfolding name_table_def Let_def by (auto simp: image_iff)
    then show ?thesis using assms(1) native_resolve_plain unfolding frame_plain_def nt [symmetric] Let_def nt_probe_def
      by fastforce
  qed
  then have "map (nt_probe s (native_resolve s fx) (nt + FNHEADSIZE) (nt_size s nt) name) [0..<nt_size s nt] =
      map (nt_probe s (nt_resolve s fx) (nt + FNHEADSIZE) (nt_size s nt) name) [0..<nt_size s nt]"
    by (rule map_cong [OF refl])
  then show ?thesis
    unfolding nt_each_first [OF order_refl] frame_hit_first Let_def nt [symmetric] diff_self_eq_0 by (rule arg_cong)
qed

lemma both_lookups:
  "alink_chain s fx fxs \<Longrightarrow> (\<forall>f \<in> set fxs. frame_plain s f) \<Longrightarrow>
   nnewframe s fx name = Some (dyn_lookup s fxs name) \<and> native_search s fx name = Some (dyn_lookup s fxs name)"
proof (induction fxs arbitrary: fx)
  case Nil
  then show ?case by (simp add: nnewframe.simps [of s fx] native_search.simps [of s fx] ENDSTACKMARK_def)
next
  case (Cons f fxs)
  have a: "fx_alink s fx \<noteq> 0" "fx_alink s fx \<noteq> ENDSTACKMARK" "alink_fx (fx_alink s fx) = f"
    and IH: "nnewframe s f name = Some (dyn_lookup s fxs name)" "native_search s f name = Some (dyn_lookup s fxs name)"
    and f: "frame_plain s f" using Cons by auto
  have "even (nt_size s (name_table_of s f))" using f by (simp add: frame_plain_def Let_def)
  then have n: "nt_pairs s (nt_resolve s f) (name_table_of s f + FNHEADSIZE) (nt_size s (name_table_of s f)) name 0 =
      frame_hit s f name"
    by (simp add: nt_pairs_first frame_hit_first Let_def)
  show ?case
    using a IH n native_table [OF f refl]
    by (simp add: nnewframe.simps [of s fx] native_search.simps [of s fx] Let_def split: nt_hit.splits)
qed


text \<open>
  C22. Both searches of \<open>fvar.c\<close> end on every chain of frames that ends in the end mark, and give
  the dynamic binding of the name: the variable of the first frame along the access links whose name
  table has a bound entry for it, or the value cell of the atom. So \<open>FVAR\<close>, \<open>FVAR_\<close>,
  \<open>EVAL\<close> and \<open>STKSCAN\<close> mean the same variable.
\<close>

theorem free_variable_lookup:
  assumes "alink_chain s fx fxs" "\<forall>f \<in> set fxs. frame_plain s f"
  shows "nnewframe s fx name = Some (dyn_lookup s fxs name) \<and> native_search s fx name = Some (dyn_lookup s fxs name)"
  by (rule both_lookups [OF assms])

section \<open>Assignment\<close>

lemma slot_words:
  assumes "\<not> bit a 0"
  shows "(push_bit 16 (ucast (getword m (a + 1))) AND SEGMASK) OR ucast (getword m a) = POINTERMASK AND swapx (getcell m a)"
proof -
  define h l where "h = getword m a" and "l = getword m (a + 1)"
  have c: "getcell m a = join_words h l" unfolding h_def l_def by (rule getcell_words [OF assms])
  have m: "SEGMASK = push_bit 16 (mask 12)" "POINTERMASK = mask 28"
    by (simp_all add: SEGMASK_def POINTERMASK_def mask_eq_exp_minus_1)
  show ?thesis unfolding swapx_def c h_def [symmetric] l_def [symmetric] hi_lo_join m
    by (rule bit_word_eqI)
       (auto simp: join_words_def bit_or_iff bit_and_iff bit_push_bit_iff bit_ucast_iff bit_mask_iff
          dest: bit_imp_le_length)
qed

lemma unresolved_address: "\<not> bit a 0 \<Longrightarrow> unresolved s a \<longleftrightarrow> bit (slot_address s a) 0"
proof -
  assume a: "\<not> bit a 0"
  have c: "getcell (mem s) a = join_words (getword (mem s) a) (getword (mem s) (a + 1))" by (rule getcell_words [OF a])
  have w: "swapx (getcell (mem s) a) = join_words (getword (mem s) (a + 1)) (getword (mem s) a)"
    by (simp add: swapx_def c)
  show ?thesis unfolding unresolved_def slot_address_def rd_def w
    by (simp add: bit_and_iff join_words_def bit_or_iff bit_push_bit_iff bit_ucast_iff POINTERMASK_def)
qed

lemma GCLOOKUP_mem: "GCLOOKUP p c s = Inr s' \<Longrightarrow> mem s' = mem s"
proof -
  assume "GCLOOKUP p c s = Inr s'"
  then have "s' = s\<lparr>gc := gc s'\<rparr>" by (rule GCLOOKUP_frame)
  then have "mem s' = mem (s\<lparr>gc := gc s'\<rparr>)" by (rule arg_cong)
  then show ?thesis by simp
qed

text \<open>What the assignment does once the slot is resolved.\<close>

lemma fvar_set_cases:
  assumes "N_OP_fvar_set tos n c = Inr (v, c')" "\<not> bit (PVAR c + n) 0"
  shows "\<exists>c1 s. resolve_slot (PVAR c + n) c = Inr c1 \<and> mem s = mem (st c1) \<and> v = tos \<and>
    c' = c1\<lparr>st := wr (slot_address (st c1) (PVAR c + n)) tos s\<rparr>"
proof -
  let ?a = "PVAR c + n"
  obtain c1 where c1: "resolve_slot ?a c = Inr c1" using assms(1)
    by (auto simp: N_OP_fvar_set_def Let_def rbind_Inr_iff)
  have p: "(push_bit 16 (ucast (getword (mem (st c1)) (?a + 1))) AND SEGMASK) OR ucast (getword (mem (st c1)) ?a) =
      slot_address (st c1) ?a"
    unfolding slot_address_def rd_def by (rule slot_words [OF assms(2)])
  have "\<exists>s. mem s = mem (st c1) \<and> v = tos \<and> c' = c1\<lparr>st := wr (slot_address (st c1) ?a) tos s\<rparr>"
    using assms(1) unfolding N_OP_fvar_set_def Let_def c1 rbind_simps p
    by (auto simp: rbind_Inr_iff split: if_splits) (metis GCLOOKUP_mem)
  then show ?thesis using c1 by blast
qed


text \<open>
  What \<open>FVAR_\<close> stores in a free variable is what \<open>FVAR\<close> fetches from it next: the
  assignment leaves the slot resolved, the fetch needs no search, and gives the value assigned.
\<close>

theorem fvar_assign_fetch:
  assumes "FVARX_set n c = Nextop c1" "\<not> bit (PVAR c + n) 0"
    and "resolve_slot (PVAR c + n) c = Inr c0" "p = slot_address (st c0) (PVAR c + n)"
    and "p \<noteq> PVAR c + n" "\<not> bit p 0" "CSTKPTR c \<noteq> PVAR c + n" "CSTKPTR c \<noteq> p"
  shows "\<exists>c2. FVARX n c1 = Nextop c2 \<and> TOPOFSTACK c2 = TOPOFSTACK c \<and> CSTKPTR c2 = CSTKPTR c1 + 2 \<and>
    mem (st c2) = putcell (CSTKPTR c) (TOPOFSTACK c) (putcell p (TOPOFSTACK c) (mem (st c0)))"
proof -
  let ?a = "PVAR c + n" and ?t = "TOPOFSTACK c"
  obtain v c' where f: "N_OP_fvar_set ?t n c = Inr (v, c')" "c1 = set_tos v (c'\<lparr>PCMAC := PCMAC c' + 2\<rparr>)"
    using assms(1) by (auto simp: FVARX_set_def nextop_def set_tos_def split: sum.splits)
  obtain s where r: "mem s = mem (st c0)" "v = ?t" "c' = c0\<lparr>st := wr p ?t s\<rparr>"
    using fvar_set_cases [OF f(1) assms(2)] assms(3,4) by auto
  have c0: "PVAR c0 = PVAR c" "CSTKPTR c0 = CSTKPTR c" "TOPOFSTACK c0 = TOPOFSTACK c"
    using assms(3) by (auto simp: resolve_slot_def nfvlookup_def rbind_Inr_iff poke_cell_def split: if_splits)
  have c1: "st c1 = wr p ?t s" "PVAR c1 = PVAR c" "CSTKPTR c1 = CSTKPTR c" "TOPOFSTACK c1 = ?t"
    using f(2) r(2,3) c0 by (simp_all add: set_tos_def)
  let ?h = "HARD_PUSH ?t c1"
  have rd1: "rd (st c1) b = (if b = p then ?t else rd (st c0) b)" for b
    using r(1) by (simp add: c1 rd_wr) (simp add: rd_def)
  have rdh: "rd (st ?h) b = (if b = CSTKPTR c then ?t else rd (st c1) b)" for b
    by (simp add: HARD_PUSH_def c1 rd_wr)
  have sa: "slot_address (st c1) ?a = p" "slot_address (st ?h) ?a = p"
    using assms(4,5,7) by (simp_all add: slot_address_def rdh rd1)
  have res: "\<not> unresolved (st c1) ?a" using unresolved_address [OF assms(2)] sa(1) assms(6) by simp
  have "FVARX n c1 = nextop 2 (set_tos (peek ?h p) ?h)"
    using res sa(2) by (simp add: FVARX_def FVAR_op_def Let_def c1)
  moreover have "peek ?h p = ?t" using assms(8) by (simp add: peek_def rdh rd1)
  moreover have "mem (st ?h) = putcell (CSTKPTR c) ?t (putcell p ?t (mem (st c0)))"
    by (simp add: HARD_PUSH_def c1 wr_def r(1))
  ultimately show ?thesis by (simp add: nextop_def set_tos_def HARD_PUSH_def)
qed

text \<open>
  An assignment to a global variable whose value cell lies in a segment that ends in 01 (0x101,
  0x201, and so on, in a large memory) is taken for one on the stack: the new value is stored and no
  reference is counted, neither for the new value nor for the old one.
\<close>

theorem fvar_global_uncounted:
  assumes "\<not> bit (PVAR c + n) 0" "\<not> unresolved (st c) (PVAR c + n)"
    and "hi_word (slot_address (st c) (PVAR c + n)) AND 0xFF = 1"
  shows "N_OP_fvar_set tos n c = Inr (tos, c\<lparr>st := wr (slot_address (st c) (PVAR c + n)) tos (st c)\<rparr>) \<and>
    gc (wr (slot_address (st c) (PVAR c + n)) tos (st c)) = gc (st c)"
proof -
  let ?a = "PVAR c + n"
  have p: "(push_bit 16 (ucast (getword (mem (st c)) (?a + 1))) AND SEGMASK) OR ucast (getword (mem (st c)) ?a) =
      slot_address (st c) ?a"
    unfolding slot_address_def rd_def by (rule slot_words [OF assms(1)])
  define h where "h = getword (mem (st c)) (?a + 1)"
  have "hi_word (slot_address (st c) ?a) AND 0xFF = h AND 0xFF"
  proof (rule bit_word_eqI)
    fix k assume "k < LENGTH(16)"
    have m: "(0xFF :: DLword) = mask 8" "SEGMASK = push_bit 16 (mask 12)"
      by (simp_all add: SEGMASK_def mask_eq_exp_minus_1)
    show "bit (hi_word (slot_address (st c) ?a) AND 0xFF) k = bit (h AND 0xFF) k"
      unfolding p [symmetric] h_def [symmetric] m
      by (auto simp: hi_word_def bit_and_iff bit_or_iff bit_push_bit_iff bit_ucast_iff bit_mask_iff bit_drop_bit_eq
          dest: bit_imp_le_length)
  qed
  then have h: "0xFF AND h = STK_HI" using assms(3) by (simp add: STK_HI_def and.commute)
  show ?thesis
    unfolding N_OP_fvar_set_def Let_def resolve_slot_def if_not_P [OF assms(2)] rbind_simps p
    using h unfolding h_def by (simp add: wr_def)
qed


section \<open>On a concrete stack\<close>

text \<open>
  The frame at 0x10036 was called from the one at 0x10006, whose first table entry binds the atom 0x123
  to its variable 1. The slot at 0x10044 of the first frame is for that atom and unresolved, the next one
  is resolved to a value cell in segment 0x101.
\<close>

definition cpu_fv :: cpu where
  "cpu_fv = (cpu_ops 0xE0009)\<lparr>st := vm_ops\<lparr>mem := (mem vm_ops)(
     0x10036 := 0xC0000010, 0x10006 := 0xC000000B, 0x10008 := 0x480100, 0x10004 := 0x80000000,
     0x480106 := 0x40000, 0x480108 := 0x123, 0x48010A := 0, 0x48010C := 0x80000001, 0x48010E := 0,
     0x10012 := 0xE0005, 0x480006 := 0x120, 0x480022 := 0x123, 0x10044 := 0xFFFFFFFF, 0x10046 := 0x20101)\<rparr>\<rparr>"

lemma cpu_fv_mem:
  "mem (st cpu_fv) 0x10036 = 0xC0000010" "mem (st cpu_fv) 0x10006 = 0xC000000B" "mem (st cpu_fv) 0x10008 = 0x480100"
  "mem (st cpu_fv) 0x480106 = 0x40000" "mem (st cpu_fv) 0x480108 = 0x123" "mem (st cpu_fv) 0x48010A = 0"
  "mem (st cpu_fv) 0x48010C = 0x80000001" "mem (st cpu_fv) 0x48010E = 0" "mem (st cpu_fv) 0x10012 = 0xE0005"
  "mem (st cpu_fv) 0x480006 = 0x120" "mem (st cpu_fv) 0x480022 = 0x123" "mem (st cpu_fv) 0x10044 = 0xFFFFFFFF"
  "mem (st cpu_fv) 0x10046 = 0x20101" "mem (st cpu_fv) 0x10004 = 0x80000000"
  "PVAR cpu_fv = 0x10040" "CSTKPTR cpu_fv = 0x10102" "FuncObj cpu_fv = 0x480000" "TOPOFSTACK cpu_fv = 0xE0009"
  by (simp_all add: cpu_fv_def cpu_ops_def)

lemma cpu_fv_frame:
  "name_table_of (st cpu_fv) 0x10006 = 0x480100" "nt_size (st cpu_fv) 0x480100 = 2"
  "name_table (st cpu_fv) 0x480100 = [(0x123, 0x80000001), (0, 0)]"
proof -
  show "name_table_of (st cpu_fv) 0x10006 = 0x480100"
    by (simp add: name_table_of_def fx_validnametable_def fx_fnheader_def getword_def cell_of_def rd_def getcell_def
        cpu_fv_mem hi_word_def bit_simps)
  show n: "nt_size (st cpu_fv) 0x480100 = 2"
    by (simp add: nt_size_def fn_ntsize_def getword_def cell_of_def cpu_fv_mem hi_word_def)
  show "name_table (st cpu_fv) 0x480100 = [(0x123, 0x80000001), (0, 0)]"
    by (simp add: name_table_def n Let_def FNHEADSIZE_def rd_def getcell_def cpu_fv_mem upt_conv_Cons)
qed

lemma cpu_fv_lookup: "frame_plain (st cpu_fv) 0x10006" "alink_chain (st cpu_fv) 0x10036 [0x10006]"
  "dyn_lookup (st cpu_fv) [0x10006] 0x123 = Inr 0x120001"
proof -
  have w: "getword (mem (st cpu_fv)) 0x10005 = 0" by (simp add: getword_def cell_of_def cpu_fv_mem lo_word_def)
  show "frame_plain (st cpu_fv) 0x10006"
    by (simp add: frame_plain_def cpu_fv_frame Let_def POINTERMASK_def pvar_place_def FRAMESIZE_def w)
  show "alink_chain (st cpu_fv) 0x10036 [0x10006]"
    by (simp add: fx_alink_def getword_def cell_of_def cpu_fv_mem lo_word_def ENDSTACKMARK_def alink_fx_def
        STK_OFFSET_def FRAMESIZE_def)
  have "nt_resolve (st cpu_fv) 0x10006 0x80000001 = Hit 0x120001"
    by (simp add: nt_resolve_def Let_def pvar_place_def FRAMESIZE_def getword_def cell_of_def cpu_fv_mem hi_word_def
        lo_word_def join_words_def STK_HI_def bit_simps)
  then show "dyn_lookup (st cpu_fv) [0x10006] 0x123 = Inr 0x120001"
    by (simp add: frame_hit_def cpu_fv_frame)
qed

lemma free_variable_lookup_witness:
  "nnewframe (st cpu_fv) 0x10036 0x123 = Some (Inr 0x120001) \<and>
   native_search (st cpu_fv) 0x10036 0x123 = Some (Inr 0x120001)"
  using free_variable_lookup [OF cpu_fv_lookup(2)] cpu_fv_lookup by simp

lemma cpu_fv_resolve: "resolve_slot 0x10044 cpu_fv = Inr (poke_cell 0x10044 0x120001 cpu_fv)"
proof -
  have n: "fvar_name (st cpu_fv) 0x480000 2 = 0x123"
    by (simp add: fvar_name_def fn_fvaroffset_def fn_nlocals_def getword_def cell_of_def cpu_fv_mem lo_word_def rd_def
        getcell_def)
  have "unresolved (st cpu_fv) 0x10044"
    by (simp add: unresolved_def getword_def cell_of_def cpu_fv_mem hi_word_def bit_simps)
  then show ?thesis
    using both_lookups [OF cpu_fv_lookup(2), of "0x123"] cpu_fv_lookup
    by (simp add: resolve_slot_def nfvlookup_def n CURRENTFX_def cpu_fv_mem FRAMESIZE_def)
qed

lemma cpu_fv_set: "\<exists>c1. FVARX_set 4 cpu_fv = Nextop c1"
proof -
  have w: "getword (mem (st (poke_cell 0x10044 0x120001 cpu_fv))) 0x10045 = 1"
    by (simp add: getword_def cell_of_def poke_cell_def wr_def putcell_def lo_word_def)
  show ?thesis
    by (simp add: FVARX_set_def N_OP_fvar_set_def Let_def cpu_fv_mem cpu_fv_resolve w STK_HI_def nextop_def)
qed

lemma fvar_assign_fetch_witness:
  "\<exists>c1 c2. FVARX_set 4 cpu_fv = Nextop c1 \<and> FVARX 4 c1 = Nextop c2 \<and> TOPOFSTACK c2 = 0xE0009"
proof -
  obtain c1 where c1: "FVARX_set 4 cpu_fv = Nextop c1" using cpu_fv_set by blast
  have a: "PVAR cpu_fv + 4 = 0x10044" by (simp add: cpu_fv_mem)
  have p: "0x10012 = slot_address (st (poke_cell 0x10044 0x120001 cpu_fv)) 0x10044"
    by (simp add: slot_address_def poke_cell_def rd_wr swapx_def lo_word_def hi_word_def join_words_def POINTERMASK_def)
  show ?thesis
    using fvar_assign_fetch [OF c1, unfolded a, OF _ cpu_fv_resolve p] c1 by (auto simp: cpu_fv_mem)
qed

lemma fvar_global_uncounted_witness:
  "\<exists>c1. N_OP_fvar_set 0x600010 6 cpu_fv = Inr (0x600010, c1) \<and> rd (st c1) 0x1010002 = 0x600010 \<and>
     gc (st c1) = gc (st cpu_fv) \<and> RefCntP (st cpu_fv) 0x600010"
proof -
  have a: "PVAR cpu_fv + 6 = 0x10046" by (simp add: cpu_fv_mem)
  have p: "slot_address (st cpu_fv) 0x10046 = 0x1010002"
    by (simp add: slot_address_def rd_def getcell_def cpu_fv_mem swapx_def lo_word_def hi_word_def join_words_def
        POINTERMASK_def)
  have u: "\<not> unresolved (st cpu_fv) 0x10046"
    by (simp add: unresolved_def getword_def cell_of_def cpu_fv_mem hi_word_def bit_simps)
  have h: "hi_word 0x1010002 AND 0xFF = 1" by (simp add: hi_word_def)
  have "RefCntP (st cpu_fv) 0x600010"
    by (simp add: RefCntP_def GetTypeEntry_def cpu_fv_def cpu_ops_def vm_ops_def vm_num_def vm_fixp_def vm0_def gctab0_def
        ATOM_T_def NIL_def TT_NOREF_def)
  then show ?thesis
    using fvar_global_uncounted [of cpu_fv 6 "0x600010", unfolded a p, OF _ u h] by (simp add: rd_wr)
qed

end
