(* ===== verification/Frames.thy ===== *)
theory Frames
  imports Free_Variables
begin

text \<open>
  Function calls and returns: the macros of \<open>inc/tosfns.h\<close> (\<open>OPFN\<close>, \<open>OPFNX\<close>,
  \<open>OPAPPLY\<close>, \<open>OPCHECKAPPLY\<close>, \<open>OP_FN_COMMON\<close>, \<open>OP_ENVCALL\<close>, \<open>EVAL\<close>) and the
  fast path of \<open>OPRETURN\<close> (\<open>inc/tosret.h\<close>), on the frames of \<open>inc/stack.h\<close>.
  Definitions; what they promise is in \<open>Frame_Laws\<close>.

  A definition cell is its 32-bit contents: the flag \<open>ccodep\<close>, three more flags and the pointer to
  the code. The program counter of the interpreter counts bytes, a frame keeps it relative to the code.
\<close>

section \<open>Definition cells, code and frames\<close>

definition ccodep :: "32 word \<Rightarrow> bool" where "ccodep dc \<longleftrightarrow> bit dc 31"
definition argtype :: "32 word \<Rightarrow> 32 word" where "argtype dc = drop_bit 28 dc AND 3"
definition defpointer :: "32 word \<Rightarrow> LispPTR" where "defpointer dc = dc AND POINTERMASK"

definition GetDEFCELL68k :: "LispPTR \<Rightarrow> LispPTR" where
  "GetDEFCELL68k index = (if index AND SEGMASK \<noteq> 0 then index + NEWATOM_DEFN_OFFSET
                          else push_bit 16 ATOMS_HI + 10 * index + NEWATOM_DEFN_OFFSET)"

definition fn_stkmin :: "vm \<Rightarrow> LispPTR \<Rightarrow> 32 word" where "fn_stkmin s fn = ucast (getword (mem s) fn)"
definition fn_na :: "vm \<Rightarrow> LispPTR \<Rightarrow> int" where "fn_na s fn = sint (getword (mem s) (fn + 1))"
definition fn_pv :: "vm \<Rightarrow> LispPTR \<Rightarrow> int" where "fn_pv s fn = sint (getword (mem s) (fn + 2))"
definition fn_startpc :: "vm \<Rightarrow> LispPTR \<Rightarrow> 32 word" where "fn_startpc s fn = ucast (getword (mem s) (fn + 3))"

definition FX_MARK :: "32 word" where "FX_MARK = 0xC000"
definition BF_MARK32 :: "32 word" where "BF_MARK32 = 0x80000000"

definition fx_nextblock :: "vm \<Rightarrow> LispPTR \<Rightarrow> DLword" where "fx_nextblock s fx = getword (mem s) (fx + 4)"
definition fx_pc :: "vm \<Rightarrow> LispPTR \<Rightarrow> DLword" where "fx_pc s fx = getword (mem s) (fx + 5)"

definition poke_word :: "LispPTR \<Rightarrow> DLword \<Rightarrow> cpu \<Rightarrow> cpu" where
  "poke_word a w c = c\<lparr>st := poke (putword a w (mem (st c))) (st c)\<rparr>"

text \<open>\<open>StackOffsetFromNative\<close>.\<close>

definition stack_offset :: "LispPTR \<Rightarrow> 32 word" where "stack_offset a = a - STK_OFFSET"

definition code_base :: "LispPTR \<Rightarrow> 32 word" where "code_base fn = push_bit 1 fn"

section \<open>Bytes of the code\<close>

definition Get_BYTE_PCMAC :: "32 word \<Rightarrow> cpu \<Rightarrow> DLbyte" where
  "Get_BYTE_PCMAC k c = getbyte (mem (st c)) 0 (PCMAC c + k)"
definition Get_DLword_PCMAC :: "32 word \<Rightarrow> cpu \<Rightarrow> DLword" where
  "Get_DLword_PCMAC k c = push_bit 8 (ucast (Get_BYTE_PCMAC k c)) OR ucast (Get_BYTE_PCMAC (k + 1) c)"
definition Get_AtomNo_PCMAC :: "32 word \<Rightarrow> cpu \<Rightarrow> LispPTR" where
  "Get_AtomNo_PCMAC k c = push_bit 16 (ucast (Get_DLword_PCMAC k c)) OR ucast (Get_DLword_PCMAC (k + 2) c)"

section \<open>The parts of a call\<close>

definition save_pc :: "32 word \<Rightarrow> cpu \<Rightarrow> cpu" where
  "save_pc opsize c = poke_word (CURRENTFX c + 5) (ucast (PCMAC c - code_base (FuncObj c) + opsize)) c"

definition FN_STACK_CHECK :: "LispPTR \<Rightarrow> (cpu \<Rightarrow> op_exit) \<Rightarrow> cpu \<Rightarrow> op_exit" where
  "FN_STACK_CHECK fn k c =
     (if Irq_Stk_End (st c) = 0 then Check_interrupt c
      else (let c1 = c\<lparr>Irq_Stk_Check := of_nat (Irq_Stk_End (st c)) - fn_stkmin (st c) fn\<rparr>
            in if CSTKPTR c1 > Irq_Stk_Check c1 then Check_interrupt c1 else k c1))"

definition set_ivar :: "LispPTR \<Rightarrow> cpu \<Rightarrow> cpu" where
  "set_ivar ivar c = (poke_word (CURRENTFX c + 4) (lo_word (stack_offset ivar)) c)\<lparr>IVAR := ivar\<rparr>"

primrec push_n :: "nat \<Rightarrow> LispPTR \<Rightarrow> cpu \<Rightarrow> cpu" where
  "push_n 0 x c = c"
| "push_n (Suc n) x c = push_n n x (HARD_PUSH x c)"

text \<open>Missing arguments are NIL, surplus ones are dropped, unless the function takes any number.\<close>

definition adjust_args :: "int \<Rightarrow> int \<Rightarrow> cpu \<Rightarrow> cpu" where
  "adjust_args na num_args c =
     (if na \<ge> 0
      then let RESTARGS = num_args - na
           in if RESTARGS < 0 then push_n (nat (- RESTARGS)) NIL c
              else c\<lparr>CSTKPTR := CSTKPTR c - word_of_int (2 * RESTARGS)\<rparr>
      else c)"

text \<open>The basic frame pointer and the frame extension; its variables come next.\<close>

definition setup_frame :: "LispPTR \<Rightarrow> cpu \<Rightarrow> cpu" where
  "setup_frame fnheader c =
     (let c1 = HARD_PUSH (BF_MARK32 OR stack_offset (IVAR c)) c;
          c2 = poke_cell (CSTKPTR c1) (push_bit 16 FX_MARK OR stack_offset (PVAR c1)) c1;
          c3 = poke_cell (CSTKPTR c2 + 2) fnheader c2
      in c3\<lparr>CSTKPTR := CSTKPTR c3 + FRAMESIZE, PVAR := CSTKPTR c3 + FRAMESIZE\<rparr>)"

definition start_code :: "LispPTR \<Rightarrow> cpu \<Rightarrow> cpu" where
  "start_code fn c =
     c\<lparr>CSTKPTR := CSTKPTR c + 2, PCMAC := code_base fn + fn_startpc (st c) fn, FuncObj := fn\<rparr>"

section \<open>\<open>OP_FN_COMMON\<close>\<close>

definition ATOM_INTERPRETER :: LispPTR where "ATOM_INTERPRETER = 256"
definition ATOM_EVALFORM :: LispPTR where "ATOM_EVALFORM = 248"
definition TYPE_COMPILED_CLOSURE :: DLword where "TYPE_COMPILED_CLOSURE = 13"

record fn_args =
  fn_atom_index :: LispPTR
  fn_num_args :: int
  fn_opcode_size :: "32 word"
  fn_defcell :: "32 word"
  fn_apply :: nat

definition APPLY_POP_PUSH_TEST :: "fn_args \<Rightarrow> bool \<Rightarrow> cpu \<Rightarrow> cpu res" where
  "APPLY_POP_PUSH_TEST f needpush c =
     rbind
       (if fn_apply f = 0 then Inr c
        else if fn_apply f = 1 then Inr (POP (POP c))
        else if fn_apply f = 2 then Inr c
        else if fn_apply f = 3 then Inr (PUSH (\<lambda>c. S_POSITIVE OR ucast (Get_BYTE_PCMAC 1 c)) c)
        else if fn_apply f = 4 then Inr (PUSH (\<lambda>c. S_POSITIVE OR ucast (Get_DLword_PCMAC 1 c)) c)
        else if fn_apply f = 5 \<or> fn_apply f = 6
        then (let atm = Get_AtomNo_PCMAC 1 c
              in Inr (PUSH (\<lambda>_. if atm AND SEGMASK \<noteq> 0 then atm else S_POSITIVE OR atm) c))
        else Inl (Fatal ''Storage error: invalid UFN entry''))
       (\<lambda>c. Inr (if needpush then PUSH (\<lambda>_. fn_atom_index f) c else c))"

text \<open>The code to run, the environment of a closure, and whether the interpreter has to run the form.\<close>

definition callee :: "vm \<Rightarrow> fn_args \<Rightarrow> 32 word \<times> LispPTR \<times> bool" where
  "callee s f =
     (let dc = fn_defcell f
      in if ccodep dc then (dc, 0xFFFFFFFF, False)
         else if GetTypeNumber s (defpointer dc) = TYPE_COMPILED_CLOSURE
         then (let closure = defpointer dc; env = rd s (closure + 2) AND POINTERMASK
               in (rd s closure, if env \<noteq> 0 then env else 0xFFFFFFFF, False))
         else (rd s (GetDEFCELL68k ATOM_INTERPRETER), 0xFFFFFFFF, True))"

definition op_fn_common :: "fn_args \<Rightarrow> cpu \<Rightarrow> op_exit" where
  "op_fn_common f c =
     (let (dc, closure_env, needpush) = callee (st c) f; fn = defpointer dc
      in FN_STACK_CHECK fn (\<lambda>c.
           case APPLY_POP_PUSH_TEST f needpush c of
             Inl e \<Rightarrow> Fault e
           | Inr c1 \<Rightarrow>
               (let c2 = set_ivar (CSTKPTR c1 + word_of_int (2 * (1 - fn_num_args f - of_bool needpush))) c1;
                    c3 = adjust_args (fn_na (st c2) fn) (fn_num_args f) (HARD_PUSH (TOPOFSTACK c2) c2);
                    c4 = HARD_PUSH UNBOUND (HARD_PUSH closure_env (setup_frame (defpointer dc) c3));
                    c5 = push_n (2 * nat (fn_pv (st c4) fn)) UNBOUND c4
                in CHECK_INTERRUPT (nextop 0) (start_code fn c5)))
           (save_pc (fn_opcode_size f) c))"

section \<open>Calls\<close>

definition op_ufn :: "LispPTR \<Rightarrow> cpu \<Rightarrow> op_exit" where
  "op_ufn UFNTable c =
     (let entry = rd (st c) (UFNTable + 2 * ucast (Get_BYTE_PCMAC 0 c));
          byte_num = drop_bit 8 entry AND 0xFF; atom = ucast (hi_word entry)
      in op_fn_common \<lparr>fn_atom_index = atom, fn_num_args = uint (entry AND 0xFF), fn_opcode_size = byte_num + 1,
           fn_defcell = rd (st c) (GetDEFCELL68k atom), fn_apply = 2 + unat byte_num\<rparr> c)"

text \<open>The direct call of compiled code: \<open>OPFN\<close> and \<open>OPFNX\<close> differ in the operands only.\<close>

definition call_code :: "LispPTR \<Rightarrow> int \<Rightarrow> LispPTR \<Rightarrow> 32 word \<Rightarrow> cpu \<Rightarrow> op_exit" where
  "call_code atom argcount dc opsize c =
     (if \<not> ccodep dc
      then op_fn_common \<lparr>fn_atom_index = atom, fn_num_args = argcount, fn_opcode_size = opsize, fn_defcell = dc,
             fn_apply = 0\<rparr> c
      else
        (let fn = defpointer dc
         in FN_STACK_CHECK fn (\<lambda>c.
              let c1 = set_ivar (CSTKPTR c - word_of_int (2 * argcount) + 2) c;
                  c2 = adjust_args (fn_na (st c1) fn) argcount (HARD_PUSH (TOPOFSTACK c1) c1);
                  c3 = setup_frame fn c2;
                  c4 = push_n (2 * nat (fn_pv (st c3) fn + 1)) UNBOUND c3
              in nextop 0 (start_code fn c4))
            (save_pc opsize c)))"

definition OPFN :: "int \<Rightarrow> cpu \<Rightarrow> op_exit" where
  "OPFN argcount c =
     (let atom = Get_AtomNo_PCMAC 1 c in call_code atom argcount (rd (st c) (GetDEFCELL68k atom)) 5 c)"

definition OPFNX :: "cpu \<Rightarrow> op_exit" where
  "OPFNX c =
     (let num_args = uint (Get_BYTE_PCMAC 1 c); atom = Get_AtomNo_PCMAC 2 c
      in call_code atom num_args (rd (st c) (GetDEFCELL68k atom)) 6 c)"

definition OPAPPLY :: "cpu \<Rightarrow> op_exit" where
  "OPAPPLY c =
     (let n = GET_TOS_1 c; t = TOPOFSTACK c;
          call = (\<lambda>dc c. op_fn_common \<lparr>fn_atom_index = t, fn_num_args = uint (lo_word n), fn_opcode_size = 1,
                           fn_defcell = dc, fn_apply = 1\<rparr> c)
      in if hi_word n \<noteq> lo_word (drop_bit 16 S_POSITIVE) then Op_ufn c
         else if SEGMASK AND t = 0 \<or> GetTypeNumber (st c) t = TYPE_NEWATOM
         then call (rd (st c) (GetDEFCELL68k t)) c
         else if GetTypeNumber (st c) t = TYPE_COMPILED_CLOSURE then call t (c\<lparr>TopOfStack := t\<rparr>)
         else call (rd (st c) (GetDEFCELL68k NIL)) c)"

definition OPCHECKAPPLY :: "cpu \<Rightarrow> op_exit" where
  "OPCHECKAPPLY c =
     (let t = TOPOFSTACK c; dc = rd (st c) (GetDEFCELL68k (t AND POINTERMASK))
      in if ccodep dc \<and> (t AND SEGMASK = 0 \<or> GetTypeNumber (st c) t = TYPE_NEWATOM) \<and>
            (argtype dc = 0 \<or> argtype dc = 2)
         then nextop 1 c else Op_ufn c)"

definition OP_ENVCALL :: "cpu \<Rightarrow> op_exit" where
  "OP_ENVCALL c =
     (let closure_env = TOPOFSTACK c; Fn_DefCell = GET_TOS_1 c; fn = Fn_DefCell
      in case N_GETNUMBER (st c) (GET_TOS_2 c) of
           None \<Rightarrow> Op_ufn c
         | Some n \<Rightarrow>
             FN_STACK_CHECK fn (\<lambda>c.
               let c0 = c\<lparr>CSTKPTR := CSTKPTR c - 4\<rparr>;
                   c1 = set_ivar (CSTKPTR c0 - 2 * n) c0;
                   c2 = adjust_args (fn_na (st c1) fn) (sint n) c1;
                   c3 = setup_frame Fn_DefCell c2;
                   pv = fn_pv (st c3) fn;
                   c4 = (if pv \<ge> 0
                         then push_n (2 * nat pv) UNBOUND
                                (HARD_PUSH UNBOUND (HARD_PUSH (if closure_env = NIL then UNBOUND else closure_env) c3))
                         else c3)
               in nextop 0 (start_code fn c4))
             (save_pc 1 c))"

section \<open>\<open>EVAL\<close>\<close>

definition NOBIND_PTR :: LispPTR where "NOBIND_PTR = 1"
definition TYPE_STRINGP :: DLword where "TYPE_STRINGP = 7"
definition TYPE_GENERAL_ARRAY :: DLword where "TYPE_GENERAL_ARRAY = 16"

definition eval_variable :: "LispPTR \<Rightarrow> cpu \<Rightarrow> op_exit" where
  "eval_variable name c =
     (case of_loop_res (nnewframe (st c) (CURRENTFX c) name) of
        Inl e \<Rightarrow> Fault e
      | Inr v \<Rightarrow>
          (let lookuped = peek c (POINTERMASK AND swapx v)
           in if lookuped = NOBIND_PTR then Op_ufn c else nextop 1 (set_tos lookuped c)))"

definition EVAL :: "cpu \<Rightarrow> op_exit" where
  "EVAL c =
     (let t = TOPOFSTACK c; seg = t AND SEGMASK; ty = GetTypeNumber (st c) t
      in if seg = S_POSITIVE \<or> seg = S_NEGATIVE then nextop 1 c
         else if seg = 0
         then (if t = NIL \<or> t = ATOM_T then nextop 1 c else eval_variable (t AND 0xFFFF) c)
         else if ty \<in> {TYPE_FIXP, TYPE_FLOATP, TYPE_STRINGP, TYPE_ONED_ARRAY, TYPE_GENERAL_ARRAY} then nextop 1 c
         else if ty = TYPE_LISTP
         then op_fn_common \<lparr>fn_atom_index = ATOM_EVALFORM, fn_num_args = 1, fn_opcode_size = 1,
                fn_defcell = rd (st c) (GetDEFCELL68k ATOM_EVALFORM), fn_apply = 0\<rparr> c
         else if ty = TYPE_NEWATOM then eval_variable t c
         else Op_ufn c)"

section \<open>\<open>RETURN\<close>\<close>

text \<open>A frame whose access link is odd returns through \<open>slowreturn\<close> (\<open>Stack_Space\<close>).\<close>

datatype return_exit = Returned op_exit | Slow_return cpu

definition OPRETURN :: "cpu \<Rightarrow> return_exit" where
  "OPRETURN c =
     (let alink = fx_alink (st c) (CURRENTFX c)
      in if bit alink 0 then Slow_return c
         else
           (let pvar = STK_OFFSET + ucast alink; returnFX = pvar - FRAMESIZE;
                fn = fx_fnheader (st c) returnFX AND POINTERMASK;
                c1 = c\<lparr>CSTKPTR := IVAR c, PVAR := pvar,
                       IVAR := STK_OFFSET + ucast (getword (mem (st c)) (returnFX - 1)),
                       FuncObj := fn, PCMAC := ucast (fx_pc (st c) returnFX) + code_base fn,
                       Irq_Stk_Check := EndSTKP c - fn_stkmin (st c) fn\<rparr>
            in Returned (if CSTKPTR c1 \<ge> Irq_Stk_Check c1 \<or> Irq_Stk_End (st c1) = 0 then Check_interrupt c1
                         else nextop 0 (c1\<lparr>st := (st c1)\<lparr>Irq_Stk_End := unat (EndSTKP c1)\<rparr>\<rparr>))))"

end
