(* ===== verification/Frame_Laws.thy ===== *)
theory Frame_Laws
  imports Frames
begin

text \<open>
  What calls and returns promise: a call leaves a well-formed frame linked to that of the caller, and
  \<open>RETURN\<close> from it brings the caller's registers back.
\<close>

section \<open>Stack pointers as numbers\<close>

lemma uint_plus: "uint a + i < 2 ^ 32 \<Longrightarrow> 0 \<le> i \<Longrightarrow> uint (a + word_of_int i) = uint a + i" for a :: "32 word"
proof -
  assume a: "uint a + i < 2 ^ 32" "0 \<le> i"
  have "a + word_of_int i = word_of_int (uint a + i)" by simp
  moreover have "0 \<le> uint a + i" using a(2) uint_ge_0 [of a] by linarith
  ultimately show ?thesis using a(1) by (simp only: uint_word_of_int) (simp add: take_bit_int_eq_self)
qed

lemma uint_minus: "i \<le> uint a \<Longrightarrow> 0 \<le> i \<Longrightarrow> uint (a - word_of_int i) = uint a - i" for a :: "32 word"
  using uint_minus_nat [of "nat i" a] by simp

lemma bit0_step [simp]:
  "bit (a + 2 * b) 0 = bit a 0" "bit (a - 2 * b) 0 = bit a 0" "bit (a + 2) 0 = bit a 0" "bit (a - 2) 0 = bit a 0"
  for a b :: "32 word"
proof -
  show *: "bit (a + 2 * b) 0 = bit a 0" for a b :: "32 word" by (simp add: bit_0)
  show "bit (a - 2 * b) 0 = bit a 0" using * [of a "- b"] by simp
  show "bit (a + 2) 0 = bit a 0" using * [of a 1] by simp
  show "bit (a - 2) 0 = bit a 0" using * [of a "- 1"] by simp
qed

section \<open>Registers and memory of the steps of a call\<close>

lemma HARD_PUSH_fields [simp]:
  "st (HARD_PUSH x c) = wr (CSTKPTR c) x (st c)" "CSTKPTR (HARD_PUSH x c) = CSTKPTR c + 2"
  "PVAR (HARD_PUSH x c) = PVAR c" "IVAR (HARD_PUSH x c) = IVAR c" "FuncObj (HARD_PUSH x c) = FuncObj c"
  "TOPOFSTACK (HARD_PUSH x c) = TOPOFSTACK c" "PCMAC (HARD_PUSH x c) = PCMAC c" "EndSTKP (HARD_PUSH x c) = EndSTKP c"
  by (simp_all add: HARD_PUSH_def)

lemma push_n_fields [simp]:
  "CSTKPTR (push_n n x c) = CSTKPTR c + 2 * of_nat n" "PVAR (push_n n x c) = PVAR c" "IVAR (push_n n x c) = IVAR c"
  "FuncObj (push_n n x c) = FuncObj c" "EndSTKP (push_n n x c) = EndSTKP c"
  by (induction n arbitrary: c) (simp_all add: algebra_simps)

lemma rd_push_n:
  "uint a < uint (CSTKPTR c) \<Longrightarrow> uint (CSTKPTR c) + 2 * int n < 2 ^ 32 \<Longrightarrow> rd (st (push_n n x c)) a = rd (st c) a"
proof (induction n arbitrary: c)
  case (Suc n)
  have u: "uint (CSTKPTR c + 2) = uint (CSTKPTR c) + 2"
    using uint_plus [of "CSTKPTR c" 2] Suc.prems by simp
  have "rd (st (push_n n x (HARD_PUSH x c))) a = rd (st (HARD_PUSH x c)) a"
    using Suc.prems u by (intro Suc.IH) simp_all
  moreover have "a \<noteq> CSTKPTR c" using Suc.prems by auto
  ultimately show ?case by (simp add: rd_wr)
qed simp

lemma poke_word_fields [simp]:
  "CSTKPTR (poke_word a w c) = CSTKPTR c" "PVAR (poke_word a w c) = PVAR c" "IVAR (poke_word a w c) = IVAR c"
  "FuncObj (poke_word a w c) = FuncObj c" "TOPOFSTACK (poke_word a w c) = TOPOFSTACK c"
  "PCMAC (poke_word a w c) = PCMAC c" "EndSTKP (poke_word a w c) = EndSTKP c"
  by (simp_all add: poke_word_def)

lemma word_in_cell:
  "\<not> bit b 0 \<Longrightarrow> getword (mem s) b = hi_word (rd s b)" "\<not> bit b 0 \<Longrightarrow> getword (mem s) (b + 1) = lo_word (rd s b)"
  by (simp_all add: rd_def getcell_words)

lemma rd_poke_word:
  assumes "\<not> bit b 0"
  shows "rd (st (poke_word a w c)) b =
    (if a = b then join_words w (lo_word (rd (st c) b))
     else if a = b + 1 then join_words (hi_word (rd (st c) b)) w else rd (st c) b)"
proof -
  have g: "getword (mem (st (poke_word a w c))) x = (if x = a then w else getword (mem (st c)) x)" for x
    using words.get_put_same [of a w "mem (st c)"] words.get_put_other [of a x w "mem (st c)"]
    by (auto simp: poke_word_def poke_def)
  have "rd (st (poke_word a w c)) b =
      join_words (getword (mem (st (poke_word a w c))) b) (getword (mem (st (poke_word a w c))) (b + 1))"
    by (simp add: rd_def getcell_words [OF assms])
  then show ?thesis using assms by (auto simp: g word_in_cell)
qed

lemma save_pc_fields [simp]:
  "CSTKPTR (save_pc n c) = CSTKPTR c" "PVAR (save_pc n c) = PVAR c" "IVAR (save_pc n c) = IVAR c"
  "FuncObj (save_pc n c) = FuncObj c" "TOPOFSTACK (save_pc n c) = TOPOFSTACK c"
  "EndSTKP (save_pc n c) = EndSTKP c" "Irq_Stk_End (st (save_pc n c)) = Irq_Stk_End (st c)"
  by (simp_all add: save_pc_def) (simp add: poke_word_def poke_def)

lemma set_ivar_fields [simp]:
  "CSTKPTR (set_ivar i c) = CSTKPTR c" "PVAR (set_ivar i c) = PVAR c" "IVAR (set_ivar i c) = i"
  "FuncObj (set_ivar i c) = FuncObj c" "TOPOFSTACK (set_ivar i c) = TOPOFSTACK c" "EndSTKP (set_ivar i c) = EndSTKP c"
  by (simp_all add: set_ivar_def)

text \<open>The stack pointer stays above the first argument, and nothing below the old one is written.\<close>

lemma adjust_args_fields [simp]:
  "PVAR (adjust_args na n c) = PVAR c" "IVAR (adjust_args na n c) = IVAR c" "EndSTKP (adjust_args na n c) = EndSTKP c"
  by (simp_all add: adjust_args_def Let_def)

lemma adjust_args_law:
  assumes "0 \<le> n" "2 * n \<le> uint (CSTKPTR c)" "uint (CSTKPTR c) < 0x20004" "na < 32768"
  shows "uint (CSTKPTR c) - 2 * n \<le> uint (CSTKPTR (adjust_args na n c)) \<and> uint (CSTKPTR (adjust_args na n c)) < 0x40000 \<and>
    bit (CSTKPTR (adjust_args na n c)) 0 = bit (CSTKPTR c) 0 \<and>
    (\<forall>a. uint a < uint (CSTKPTR c) \<longrightarrow> rd (st (adjust_args na n c)) a = rd (st c) a)"
proof (cases "na \<ge> 0")
  case na: True
  show ?thesis
  proof (cases "n < na")
    case True
    define k where "k = nat (na - n)"
    have k: "int k = na - n" "k < 32768" using True assms(1,4) by (auto simp: k_def)
    have f: "adjust_args na n c = push_n k NIL c" using True na by (simp add: adjust_args_def k_def)
    have "uint (CSTKPTR c + 2 * of_nat k) = uint (CSTKPTR c) + 2 * int k"
      using uint_plus [of "CSTKPTR c" "2 * int k"] k(2) assms(3) by simp
    moreover have "rd (st (push_n k NIL c)) a = rd (st c) a" if "uint a < uint (CSTKPTR c)" for a
      using that k(2) assms(3) by (intro rd_push_n) auto
    ultimately show ?thesis using k assms(1,3) unfolding f by simp
  next
    case False
    have f: "adjust_args na n c = c\<lparr>CSTKPTR := CSTKPTR c - word_of_int (2 * (n - na))\<rparr>"
      using False na by (simp add: adjust_args_def)
    have "uint (CSTKPTR c - word_of_int (2 * (n - na))) = uint (CSTKPTR c) - 2 * (n - na)"
      using False na assms(2) by (intro uint_minus) auto
    moreover have "bit (CSTKPTR c - word_of_int (2 * (n - na))) 0 = bit (CSTKPTR c) 0"
      using bit0_step(2) [of "CSTKPTR c" "word_of_int (n - na)"] by simp
    ultimately show ?thesis using False na assms(1,3) unfolding f by (simp del: of_int_mult of_int_diff)
  qed
next
  case False
  then have f: "adjust_args na n c = c" by (simp add: adjust_args_def)
  show ?thesis using assms unfolding f by simp
qed

lemma setup_frame_fields [simp]:
  "CSTKPTR (setup_frame fn c) = CSTKPTR c + 12" "PVAR (setup_frame fn c) = CSTKPTR c + 12"
  "IVAR (setup_frame fn c) = IVAR c" "EndSTKP (setup_frame fn c) = EndSTKP c"
  by (simp_all add: setup_frame_def Let_def poke_cell_def FRAMESIZE_def)

lemma rd_setup_frame:
  "rd (st (setup_frame fn c)) a =
    (if a = CSTKPTR c + 4 then fn
     else if a = CSTKPTR c + 2 then push_bit 16 FX_MARK OR stack_offset (PVAR c)
     else if a = CSTKPTR c then BF_MARK32 OR stack_offset (IVAR c) else rd (st c) a)"
  by (simp add: setup_frame_def Let_def poke_cell_def rd_wr)

section \<open>The frame of a call\<close>

text \<open>A frame whose header cells agree with the registers.\<close>

definition frame_ok :: "cpu \<Rightarrow> bool" where
  "frame_ok c \<longleftrightarrow> \<not> bit (PVAR c) 0 \<and> 0x1000C \<le> uint (PVAR c) \<and> uint (PVAR c) < 0x20000 \<and>
     fx_fnheader (st c) (CURRENTFX c) AND POINTERMASK = FuncObj c \<and>
     STK_OFFSET + ucast (getword (mem (st c)) (CURRENTFX c - 1)) = IVAR c"

lemma word_through_DLword: "uint x < 0x10000 \<Longrightarrow> ucast (ucast x :: DLword) = x" for x :: "32 word"
proof -
  assume a: "uint x < 0x10000"
  have "int (unat x) = uint x" by simp
  then have "int (unat x) < int 65536" using a by linarith
  then have "unat x < 65536" by (simp only: of_nat_less_iff)
  then have "unat x < 2 ^ 16" by simp
  then have b: "k < 16" if "bit x k" for k
    using small_bits [of "unat x" 16 k] that by (cases "k < 16") simp_all
  show ?thesis by (intro bit_word_eqI) (auto simp: bit_ucast_iff dest: b)
qed

lemma stack_offset_back: "0x10000 \<le> uint p \<Longrightarrow> uint p < 0x20000 \<Longrightarrow> STK_OFFSET + ucast (lo_word (stack_offset p)) = p"
proof -
  assume p: "0x10000 \<le> uint p" "uint p < 0x20000"
  have "uint (stack_offset p) = uint p - 0x10000" using uint_minus [of "0x10000" p] p by (simp add: stack_offset_def STK_OFFSET_def)
  then have "ucast (ucast (stack_offset p) :: DLword) = stack_offset p" using p by (intro word_through_DLword) simp
  then have "ucast (lo_word (stack_offset p)) = stack_offset p" by (simp only: lo_word_def)
  then show ?thesis by (simp add: stack_offset_def)
qed

text \<open>What \<open>call_code\<close> does when it does not stop for an interrupt.\<close>

definition call_args :: "LispPTR \<Rightarrow> int \<Rightarrow> 32 word \<Rightarrow> cpu \<Rightarrow> cpu" where
  "call_args fn argcount opsize c =
     (let c0 = (save_pc opsize c)\<lparr>Irq_Stk_Check := of_nat (Irq_Stk_End (st c)) - fn_stkmin (st (save_pc opsize c)) fn\<rparr>;
          c1 = set_ivar (CSTKPTR c0 - word_of_int (2 * argcount) + 2) c0
      in adjust_args (fn_na (st c1) fn) argcount (HARD_PUSH (TOPOFSTACK c1) c1))"

definition call_result :: "LispPTR \<Rightarrow> int \<Rightarrow> 32 word \<Rightarrow> cpu \<Rightarrow> cpu" where
  "call_result fn argcount opsize c =
     (let c3 = setup_frame fn (call_args fn argcount opsize c)
      in start_code fn (push_n (2 * nat (fn_pv (st c3) fn + 1)) UNBOUND c3))"

lemma call_code_cases:
  assumes "ccodep dc" "call_code atom argcount dc opsize c = Nextop c1"
  shows "c1 = call_result (defpointer dc) argcount opsize c"
  using assms
  by (auto simp: call_code_def FN_STACK_CHECK_def Let_def call_result_def call_args_def nextop_def split: if_splits)


lemma word_ranges: "fn_na s f < 32768" "fn_pv s f < 32768"
  using sint_range_size [of "getword (mem s) (f + 1)"] sint_range_size [of "getword (mem s) (f + 2)"]
  by (simp_all add: fn_na_def fn_pv_def word_size)

text \<open>The first argument of a call with \<open>argcount\<close> arguments, the last one being in the cache.\<close>

definition first_arg :: "int \<Rightarrow> cpu \<Rightarrow> LispPTR" where
  "first_arg argcount c = CSTKPTR c - word_of_int (2 * argcount) + 2"

definition callable :: "int \<Rightarrow> cpu \<Rightarrow> bool" where
  "callable argcount c \<longleftrightarrow> 0 \<le> argcount \<and> uint (PVAR c) + 2 * argcount \<le> uint (CSTKPTR c) + 2 \<and>
     uint (CSTKPTR c) < 0x1FFFE \<and> \<not> bit (CSTKPTR c) 0"

lemma first_arg_uint:
  "callable argcount c \<Longrightarrow> 2 \<le> uint (PVAR c) \<Longrightarrow> uint (first_arg argcount c) = uint (CSTKPTR c) + 2 - 2 * argcount"
proof -
  assume a: "callable argcount c" "2 \<le> uint (PVAR c)"
  have u: "uint (CSTKPTR c + 2) = uint (CSTKPTR c) + 2"
    using a uint_plus [of "CSTKPTR c" 2] by (simp add: callable_def)
  have "first_arg argcount c = CSTKPTR c + 2 - word_of_int (2 * argcount)" by (simp add: first_arg_def)
  moreover have "uint (CSTKPTR c + 2 - word_of_int (2 * argcount)) = uint (CSTKPTR c + 2) - 2 * argcount"
    using a u by (intro uint_minus) (auto simp: callable_def)
  ultimately show ?thesis using u by (simp only:)
qed

text \<open>The caller's frame is saved, the arguments are in memory.\<close>

definition call_pushed :: "LispPTR \<Rightarrow> int \<Rightarrow> 32 word \<Rightarrow> cpu \<Rightarrow> cpu" where
  "call_pushed fn argcount opsize c =
     (let c0 = (save_pc opsize c)\<lparr>Irq_Stk_Check := of_nat (Irq_Stk_End (st c)) - fn_stkmin (st (save_pc opsize c)) fn\<rparr>;
          c1 = set_ivar (first_arg argcount c) c0
      in HARD_PUSH (TOPOFSTACK c1) c1)"

lemma call_args_pushed:
  "call_args fn argcount opsize c =
     adjust_args (fn_na (st (set_ivar (first_arg argcount c) (save_pc opsize c))) fn) argcount (call_pushed fn argcount opsize c)"
  by (simp add: call_args_def call_pushed_def Let_def first_arg_def set_ivar_def poke_word_def CURRENTFX_def)

lemma call_pushed_law:
  fixes fn opsize c argcount
  assumes "callable argcount c" "frame_ok c"
  defines "h \<equiv> call_pushed fn argcount opsize c" and "I \<equiv> first_arg argcount c"
  shows "CSTKPTR h = CSTKPTR c + 2" "PVAR h = PVAR c" "IVAR h = I" "\<not> bit (CSTKPTR h) 0"
    "uint (CSTKPTR h) = uint (CSTKPTR c) + 2" "rd (st h) (CSTKPTR c) = TOPOFSTACK c"
    "\<And>a. \<not> bit a 0 \<Longrightarrow> uint a < uint (CSTKPTR c) \<Longrightarrow> rd (st h) a =
       (if a = CURRENTFX c + 4 then join_words (lo_word (stack_offset I)) (ucast (PCMAC c - code_base (FuncObj c) + opsize))
        else rd (st c) a)"
proof -
  define c0 where "c0 = (save_pc opsize c)\<lparr>Irq_Stk_Check := of_nat (Irq_Stk_End (st c)) - fn_stkmin (st (save_pc opsize c)) fn\<rparr>"
  have c0: "CSTKPTR c0 = CSTKPTR c" "PVAR c0 = PVAR c" "st c0 = st (save_pc opsize c)" "TOPOFSTACK c0 = TOPOFSTACK c"
    by (simp_all add: c0_def)
  have h: "h = HARD_PUSH (TOPOFSTACK (set_ivar I c0)) (set_ivar I c0)"
    by (simp add: h_def call_pushed_def Let_def I_def c0_def)
  have p: "callable argcount c" "\<not> bit (PVAR c) 0" using assms(1,2) by (auto simp: frame_ok_def)
  have fx: "\<not> bit (CURRENTFX c + 4) 0"
    using p(2) bit0_step(2) [of "PVAR c" 3] by (simp add: CURRENTFX_def FRAMESIZE_def algebra_simps)
  show "CSTKPTR h = CSTKPTR c + 2" "PVAR h = PVAR c" "IVAR h = I" "\<not> bit (CSTKPTR h) 0"
    "rd (st h) (CSTKPTR c) = TOPOFSTACK c"
    using p(1) by (simp_all add: h c0 callable_def rd_wr)
  then show "uint (CSTKPTR h) = uint (CSTKPTR c) + 2"
    using p uint_plus [of "CSTKPTR c" 2] by (simp add: callable_def)
  fix a :: LispPTR
  assume a: "\<not> bit a 0" "uint a < uint (CSTKPTR c)"
  have "a \<noteq> CSTKPTR c" using a(2) by auto
  moreover have "CURRENTFX c + 4 \<noteq> a + 1" using fx a(1) by (auto simp: bit_0)
  moreover have "CURRENTFX c + 5 \<noteq> a" using fx a(1) by (auto simp: bit_0)
  moreover have "CURRENTFX c + 5 = a + 1 \<longleftrightarrow> CURRENTFX c + 4 = a"
  proof -
    have "CURRENTFX c + 5 = (CURRENTFX c + 4) + 1" by simp
    then show ?thesis by (simp only: add_right_cancel)
  qed
  moreover have "CURRENTFX c0 = CURRENTFX c" by (simp add: CURRENTFX_def c0)
  ultimately show "rd (st h) a =
       (if a = CURRENTFX c + 4 then join_words (lo_word (stack_offset I)) (ucast (PCMAC c - code_base (FuncObj c) + opsize))
        else rd (st c) a)"
    using a(1) by (auto simp: h rd_wr c0 set_ivar_def save_pc_def rd_poke_word)
qed

lemma call_pushed_bounds:
  assumes "callable argcount c" "frame_ok c"
  shows "2 * argcount \<le> uint (CSTKPTR (call_pushed fn argcount opsize c))"
    "uint (CSTKPTR (call_pushed fn argcount opsize c)) < 0x20004"
    "uint (first_arg argcount c) = uint (CSTKPTR (call_pushed fn argcount opsize c)) - 2 * argcount"
    "first_arg argcount c = CSTKPTR (call_pushed fn argcount opsize c) - word_of_int (2 * argcount)"
  using assms call_pushed_law(5) [OF assms] first_arg_uint [OF assms(1)] by (auto simp: callable_def frame_ok_def call_pushed_law(1) [OF assms] first_arg_def)

lemma call_args_law:
  fixes fn opsize c argcount
  assumes "callable argcount c" "frame_ok c"
  defines "c2 \<equiv> call_args fn argcount opsize c" and "I \<equiv> first_arg argcount c"
  shows "PVAR c2 = PVAR c \<and> IVAR c2 = I \<and> uint I \<le> uint (CSTKPTR c2) \<and> uint (CSTKPTR c2) < 0x40000 \<and>
    \<not> bit (CSTKPTR c2) 0 \<and>
    (\<forall>a. \<not> bit a 0 \<and> uint a < uint (CSTKPTR c) \<longrightarrow> rd (st c2) a =
       (if a = CURRENTFX c + 4 then join_words (lo_word (stack_offset I)) (ucast (PCMAC c - code_base (FuncObj c) + opsize))
        else rd (st c) a))"
proof -
  define h where "h = call_pushed fn argcount opsize c"
  define na where "na = fn_na (st (set_ivar I (save_pc opsize c))) fn"
  have c2: "c2 = adjust_args na argcount h" by (simp add: c2_def call_args_pushed h_def na_def I_def)
  note l = call_pushed_law [OF assms(1,2), where fn = fn and opsize = opsize, folded h_def I_def]
  note b = call_pushed_bounds [OF assms(1,2), where fn = fn and opsize = opsize, folded h_def I_def]
  have "na < 32768" unfolding na_def by (rule word_ranges)
  then show ?thesis using adjust_args_law [of argcount h na] l b(1-3) assms(1) unfolding c2 by (simp add: callable_def)
qed

lemma call_result_fields:
  fixes fn opsize c argcount
  defines "c2 \<equiv> call_args fn argcount opsize c"
  shows "PVAR (call_result fn argcount opsize c) = CSTKPTR c2 + 12" "FuncObj (call_result fn argcount opsize c) = fn"
    "IVAR (call_result fn argcount opsize c) = IVAR c2"
    "PCMAC (call_result fn argcount opsize c) = code_base fn + fn_startpc (st (call_result fn argcount opsize c)) fn"
  by (simp_all add: call_result_def Let_def start_code_def c2_def)

lemma rd_call_result:
  fixes fn opsize c argcount
  assumes "callable argcount c" "frame_ok c"
  defines "c2 \<equiv> call_args fn argcount opsize c"
  assumes "uint a < uint (CSTKPTR c2) + 12"
  shows "rd (st (call_result fn argcount opsize c)) a = rd (st (setup_frame fn c2)) a"
proof -
  let ?c3 = "setup_frame fn c2"
  define n where "n = 2 * nat (fn_pv (st ?c3) fn + 1)"
  have n: "2 * int n < 2 ^ 18" using word_ranges(2) [of "st ?c3" fn] by (simp add: n_def)
  have q: "uint (CSTKPTR c2) < 0x40000" using call_args_law [OF assms(1,2)] by (simp add: c2_def)
  have u: "uint (CSTKPTR ?c3) = uint (CSTKPTR c2) + 12" using q uint_plus [of "CSTKPTR c2" 12] by simp
  have "rd (st (push_n n UNBOUND ?c3)) a = rd (st ?c3) a"
    using assms(4) u q n by (intro rd_push_n) auto
  then show ?thesis by (simp add: call_result_def Let_def start_code_def c2_def n_def)
qed

text \<open>The cells of the new frame.\<close>

lemma call_frame_cells:
  fixes fn opsize c argcount
  assumes "callable argcount c" "frame_ok c"
  defines "c1 \<equiv> call_result fn argcount opsize c"
  shows "\<not> bit (CURRENTFX c1) 0"
    "rd (st c1) (CURRENTFX c1) = push_bit 16 FX_MARK OR stack_offset (PVAR c)"
    "rd (st c1) (CURRENTFX c1 + 2) = fn"
    "rd (st c1) (CURRENTFX c1 - 2) = BF_MARK32 OR stack_offset (first_arg argcount c)"
proof -
  define c2 where "c2 = call_args fn argcount opsize c"
  have l: "PVAR c2 = PVAR c" "IVAR c2 = first_arg argcount c" "uint (CSTKPTR c2) < 0x40000" "\<not> bit (CSTKPTR c2) 0"
    using call_args_law [OF assms(1,2)] by (simp_all add: c2_def)
  have fx: "CURRENTFX c1 = CSTKPTR c2 + 2"
    by (simp add: CURRENTFX_def FRAMESIZE_def c1_def call_result_fields c2_def)
  have u: "uint (CSTKPTR c2 + 2) = uint (CSTKPTR c2) + 2" "uint (CSTKPTR c2 + 4) = uint (CSTKPTR c2) + 4"
    using l(3) uint_plus [of "CSTKPTR c2" 2] uint_plus [of "CSTKPTR c2" 4] by simp_all
  have r: "rd (st c1) a = rd (st (setup_frame fn c2)) a" if "uint a < uint (CSTKPTR c2) + 12" for a
    using that rd_call_result [OF assms(1,2)] by (simp add: c1_def c2_def)
  show "\<not> bit (CURRENTFX c1) 0" using l(4) fx by simp
  show "rd (st c1) (CURRENTFX c1) = push_bit 16 FX_MARK OR stack_offset (PVAR c)"
    using r [of "CSTKPTR c2 + 2"] u l by (simp add: fx rd_setup_frame)
  show "rd (st c1) (CURRENTFX c1 + 2) = fn"
    using r [of "CSTKPTR c2 + 4"] u l by (simp add: fx rd_setup_frame add.commute)
  show "rd (st c1) (CURRENTFX c1 - 2) = BF_MARK32 OR stack_offset (first_arg argcount c)"
    using r [of "CSTKPTR c2"] u l by (simp add: fx rd_setup_frame)
qed

lemma lo_word_high: "lo_word (push_bit 16 m OR x) = lo_word x"
  unfolding lo_word_def by (rule bit_word_eqI) (auto simp: bit_ucast_iff bit_or_iff bit_push_bit_iff)

lemma lo_word_mark: "lo_word (push_bit 16 m OR x) = lo_word x" "lo_word (BF_MARK32 OR x) = lo_word x"
proof -
  have "BF_MARK32 = push_bit 16 0x8000" by (simp add: BF_MARK32_def)
  then have "lo_word (BF_MARK32 OR x) = lo_word (push_bit 16 0x8000 OR x)" by (rule arg_cong)
  also have "\<dots> = lo_word x" by (rule lo_word_high)
  finally show "lo_word (BF_MARK32 OR x) = lo_word x" .
qed (rule lo_word_high)

lemma call_frame_links:
  fixes fn opsize c argcount
  assumes "callable argcount c" "frame_ok c"
  defines "c1 \<equiv> call_result fn argcount opsize c"
  shows "STK_OFFSET + ucast (fx_alink (st c1) (CURRENTFX c1)) = PVAR c" "fx_fnheader (st c1) (CURRENTFX c1) = fn"
    "STK_OFFSET + ucast (getword (mem (st c1)) (CURRENTFX c1 - 1)) = first_arg argcount c"
proof -
  note cells = call_frame_cells [OF assms(1,2), of fn opsize, folded c1_def]
  have p: "0x10000 \<le> uint (PVAR c)" "uint (PVAR c) < 0x20000" "2 \<le> uint (PVAR c)"
    using assms(2) by (auto simp: frame_ok_def)
  show "STK_OFFSET + ucast (fx_alink (st c1) (CURRENTFX c1)) = PVAR c"
    using p cells by (simp add: fx_alink_def word_in_cell lo_word_mark stack_offset_back)
  show "fx_fnheader (st c1) (CURRENTFX c1) = fn" using cells by (simp add: fx_fnheader_def)
  have i: "0x10000 \<le> uint (first_arg argcount c)" "uint (first_arg argcount c) < 0x20000"
    using first_arg_uint [OF assms(1) p(3)] assms(1) p by (auto simp: callable_def)
  have "CURRENTFX c1 - 1 = CURRENTFX c1 - 2 + 1" by simp
  then have "getword (mem (st c1)) (CURRENTFX c1 - 1) = lo_word (rd (st c1) (CURRENTFX c1 - 2))"
    using word_in_cell(2) [of "CURRENTFX c1 - 2" "st c1"] cells(1) by simp
  then show "STK_OFFSET + ucast (getword (mem (st c1)) (CURRENTFX c1 - 1)) = first_arg argcount c"
    using cells i by (simp add: lo_word_mark stack_offset_back)
qed


section \<open>Memory above the stack\<close>

text \<open>The stack ends below \<open>0x20000\<close>; a call cannot write above \<open>0x80000\<close>.\<close>

definition high_kept :: "cpu \<Rightarrow> cpu \<Rightarrow> bool" where
  "high_kept c c' \<longleftrightarrow> (\<forall>a. 0x80000 \<le> uint a \<longrightarrow> mem (st c') a = mem (st c) a)"

lemma high_kept_trans: "high_kept c c' \<Longrightarrow> high_kept c' c'' \<Longrightarrow> high_kept c c''"
  by (simp add: high_kept_def)

lemma high_kept_HARD_PUSH: "uint (CSTKPTR c) < 0x80000 \<Longrightarrow> high_kept c (HARD_PUSH x c)"
  by (auto simp: high_kept_def wr_def putcell_def)

lemma high_kept_push_n: "uint (CSTKPTR c) + 2 * int n < 0x80000 \<Longrightarrow> high_kept c (push_n n x c)"
proof (induction n arbitrary: c)
  case (Suc n)
  have "uint (CSTKPTR c + 2) = uint (CSTKPTR c) + 2" using uint_plus [of "CSTKPTR c" 2] Suc.prems by simp
  then have "high_kept (HARD_PUSH x c) (push_n n x (HARD_PUSH x c))" using Suc.prems by (intro Suc.IH) simp
  then show ?case using high_kept_HARD_PUSH [of c x] Suc.prems high_kept_trans by auto
qed (simp add: high_kept_def)

lemma cell_of_half: "uint (cell_of a) div 2 = uint a div 2"
proof -
  have "drop_bit 1 (cell_of a) = drop_bit 1 a"
    by (rule bit_word_eqI) (simp add: bit_drop_bit_eq bit_cell_of)
  moreover have "uint (drop_bit 1 x) = uint x div 2" for x :: LispPTR
    by (simp add: drop_bit_eq_div uint_div)
  ultimately show ?thesis by metis
qed

lemma high_kept_word:
  assumes "high_kept c c'" "0x80000 \<le> uint a"
  shows "getword (mem (st c')) a = getword (mem (st c)) a"
proof -
  have "0x80000 \<le> uint (cell_of a)" using cell_of_half [of a] assms(2) by presburger
  then show ?thesis using assms(1) by (simp add: high_kept_def getword_def)
qed

lemma high_kept_poke_word: "uint a < 0x80000 \<Longrightarrow> high_kept c (poke_word a w c)"
proof -
  assume "uint a < 0x80000"
  then have "uint (cell_of a) < 0x80000" using cell_of_half [of a] by presburger
  then show ?thesis by (auto simp: high_kept_def poke_word_def poke_def putword_def Let_def)
qed

lemma high_kept_adjust:
  "0 \<le> n \<Longrightarrow> uint (CSTKPTR c) < 0x20004 \<Longrightarrow> na < 32768 \<Longrightarrow> high_kept c (adjust_args na n c)"
  using high_kept_push_n [of c "nat (na - n)" NIL]
  by (auto simp: adjust_args_def Let_def high_kept_def)

lemma high_kept_set_ivar: "0x1000C \<le> uint (PVAR c) \<Longrightarrow> uint (PVAR c) < 0x20000 \<Longrightarrow> high_kept c (set_ivar i c)"
proof -
  assume "0x1000C \<le> uint (PVAR c)" "uint (PVAR c) < 0x20000"
  then have "uint (CURRENTFX c + 4) < 0x80000"
    using uint_minus_nat [of 6 "PVAR c"] by (simp add: CURRENTFX_def FRAMESIZE_def)
  then show ?thesis using high_kept_poke_word [of "CURRENTFX c + 4" c "lo_word (stack_offset i)"]
    by (simp add: high_kept_def set_ivar_def)
qed

lemma high_kept_save_pc: "frame_ok c \<Longrightarrow> high_kept c (save_pc n c)"
proof -
  assume "frame_ok c"
  then have "uint (CURRENTFX c + 5) < 0x80000"
    using uint_minus_nat [of 5 "PVAR c"] by (simp add: frame_ok_def CURRENTFX_def FRAMESIZE_def)
  then show ?thesis by (simp add: save_pc_def high_kept_poke_word)
qed

lemma high_kept_setup_frame: "uint (CSTKPTR c) < 0x40000 \<Longrightarrow> high_kept c (setup_frame fn c)"
proof -
  assume a: "uint (CSTKPTR c) < 0x40000"
  have u: "uint (CSTKPTR c + 2) = uint (CSTKPTR c) + 2" "uint (CSTKPTR c + 4) = uint (CSTKPTR c) + 4"
    using a uint_plus [of "CSTKPTR c" 2] uint_plus [of "CSTKPTR c" 4] by simp_all
  have "rd (st (setup_frame fn c)) x = rd (st c) x" if "0x80000 \<le> uint x" for x
    using that a u by (auto simp: rd_setup_frame)
  then show ?thesis by (simp add: high_kept_def rd_def getcell_def)
qed


lemma high_kept_call:
  assumes "callable argcount c" "frame_ok c"
  shows "\<And>i. high_kept c (set_ivar i (save_pc opsize c))" "high_kept c (call_args fn argcount opsize c)"
    "high_kept c (call_result fn argcount opsize c)"
proof -
  have p: "0x1000C \<le> uint (PVAR c)" "uint (PVAR c) < 0x20000" "0 \<le> argcount" "uint (CSTKPTR c) < 0x1FFFE"
    using assms by (auto simp: frame_ok_def callable_def)
  note s = high_kept_save_pc [OF assms(2), of opsize]
  show k: "high_kept c (set_ivar i (save_pc opsize c))" for i
    using s p by (intro high_kept_trans [OF s] high_kept_set_ivar) simp_all
  define h where "h = call_pushed fn argcount opsize c"
  define c1 where "c1 = set_ivar (first_arg argcount c) ((save_pc opsize c)
      \<lparr>Irq_Stk_Check := of_nat (Irq_Stk_End (st c)) - fn_stkmin (st (save_pc opsize c)) fn\<rparr>)"
  have "st c1 = st (set_ivar (first_arg argcount c) (save_pc opsize c))" "CSTKPTR c1 = CSTKPTR c"
    by (simp_all add: c1_def set_ivar_def poke_word_def CURRENTFX_def)
  then have "high_kept c c1" "uint (CSTKPTR c1) < 0x80000" using k p by (simp_all add: high_kept_def)
  moreover have "h = HARD_PUSH (TOPOFSTACK c1) c1" by (simp add: h_def call_pushed_def Let_def c1_def)
  ultimately have kh: "high_kept c h" using high_kept_HARD_PUSH high_kept_trans by blast
  note b = call_pushed_bounds [OF assms, where fn = fn and opsize = opsize, folded h_def]
  have "high_kept h (adjust_args na argcount h)" if "na < 32768" for na
    using b(2) p(3) that by (intro high_kept_adjust) simp_all
  then show *: "high_kept c (call_args fn argcount opsize c)"
    unfolding call_args_pushed h_def [symmetric] using word_ranges(1) high_kept_trans [OF kh] by blast
  define c2 where "c2 = call_args fn argcount opsize c"
  have q: "uint (CSTKPTR c2) < 0x40000" using call_args_law [OF assms] by (simp add: c2_def)
  let ?c3 = "setup_frame fn c2"
  have u3: "uint (CSTKPTR ?c3) = uint (CSTKPTR c2) + 12" using q uint_plus [of "CSTKPTR c2" 12] by simp
  have "high_kept ?c3 (push_n (2 * nat (fn_pv (st ?c3) fn + 1)) UNBOUND ?c3)"
    using word_ranges(2) [of "st ?c3" fn] q u3 by (intro high_kept_push_n) auto
  then have "high_kept ?c3 (call_result fn argcount opsize c)"
    by (simp add: high_kept_def call_result_def Let_def start_code_def c2_def)
  then show "high_kept c (call_result fn argcount opsize c)"
    using * high_kept_setup_frame [OF q] high_kept_trans unfolding c2_def by blast
qed

lemma fn_fields_kept:
  assumes "high_kept c c'" "0x80000 \<le> uint fn" "uint fn < 2 ^ 28"
  shows "fn_na (st c') fn = fn_na (st c) fn" "fn_pv (st c') fn = fn_pv (st c) fn"
    "fn_startpc (st c') fn = fn_startpc (st c) fn"
proof -
  have "uint (fn + 1) = uint fn + 1" "uint (fn + 2) = uint fn + 2" "uint (fn + 3) = uint fn + 3"
    using assms(3) uint_plus [of fn 1] uint_plus [of fn 2] uint_plus [of fn 3] by simp_all
  then have h: "0x80000 \<le> uint (fn + 1)" "0x80000 \<le> uint (fn + 2)" "0x80000 \<le> uint (fn + 3)"
    using assms(2) by simp_all
  note w = high_kept_word [OF assms(1)]
  show "fn_na (st c') fn = fn_na (st c) fn" using w [OF h(1)] by (simp add: fn_na_def)
  show "fn_pv (st c') fn = fn_pv (st c) fn" using w [OF h(2)] by (simp add: fn_pv_def)
  show "fn_startpc (st c') fn = fn_startpc (st c) fn" using w [OF h(3)] by (simp add: fn_startpc_def)
qed


section \<open>The arguments\<close>

lemma rd_push_n_in:
  "j < n \<Longrightarrow> uint (CSTKPTR c) + 2 * int n < 2 ^ 32 \<Longrightarrow> rd (st (push_n n x c)) (CSTKPTR c + 2 * of_nat j) = x"
proof (induction n arbitrary: c j)
  case (Suc n)
  have u: "uint (CSTKPTR c + 2) = uint (CSTKPTR c) + 2" using uint_plus [of "CSTKPTR c" 2] Suc.prems by simp
  show ?case
  proof (cases j)
    case 0
    have "rd (st (push_n n x (HARD_PUSH x c))) (CSTKPTR c) = rd (st (HARD_PUSH x c)) (CSTKPTR c)"
      using Suc.prems u by (intro rd_push_n) simp_all
    then show ?thesis using 0 by (simp add: rd_wr)
  next
    case (Suc i)
    then have "rd (st (push_n n x (HARD_PUSH x c))) (CSTKPTR (HARD_PUSH x c) + 2 * of_nat i) = x"
      using Suc.prems u by (intro Suc.IH) simp_all
    then show ?thesis using Suc by (simp add: algebra_simps)
  qed
qed simp

lemma adjust_args_values:
  assumes "0 \<le> k" "k < na" "0 \<le> n" "2 * n \<le> uint (CSTKPTR c)" "uint (CSTKPTR c) < 0x20004" "na < 32768"
  defines "I \<equiv> CSTKPTR c - word_of_int (2 * n)"
  shows "rd (st (adjust_args na n c)) (I + word_of_int (2 * k)) =
    (if k < n then rd (st c) (I + word_of_int (2 * k)) else NIL)"
proof (cases "n < na")
  case True
  define m where "m = nat (na - n)"
  have f: "adjust_args na n c = push_n m NIL c" using True assms(1,2) by (simp add: adjust_args_def m_def)
  have m: "int m = na - n" "m < 32768" using True assms(3,6) by (auto simp: m_def)
  have room: "uint (CSTKPTR c) + 2 * int m < 2 ^ 32" using assms(5) m by simp
  have uI: "uint I = uint (CSTKPTR c) - 2 * n" using assms(3,4) unfolding I_def by (intro uint_minus) auto
  have uk: "uint (I + word_of_int (2 * k)) = uint I + 2 * k"
    using assms(1,2,5,6) uI assms(3) by (intro uint_plus) auto
  show ?thesis
  proof (cases "k < n")
    case True
    then show ?thesis using uk uI room unfolding f by (simp add: rd_push_n)
  next
    case False
    define j where "j = nat (k - n)"
    have j: "j < m" "int j = k - n" using False assms(2) m by (auto simp: j_def)
    have "word_of_int (2 * k) = word_of_int (2 * n) + (2 * of_nat j :: 32 word)"
    proof -
      have "2 * k = 2 * n + 2 * int j" using j(2) by simp
      then show ?thesis by (simp only: of_int_add) simp
    qed
    then have "I + word_of_int (2 * k) = CSTKPTR c + 2 * of_nat j" by (simp add: I_def)
    then show ?thesis using rd_push_n_in [OF j(1) room] False unfolding f by simp
  qed
next
  case False
  then show ?thesis using assms(1,2) by (simp add: adjust_args_def)
qed

definition given_arg :: "int \<Rightarrow> cpu \<Rightarrow> int \<Rightarrow> LispPTR" where
  "given_arg argcount c k =
     (if k < argcount - 1 then rd (st c) (first_arg argcount c + word_of_int (2 * k))
      else if k = argcount - 1 then TOPOFSTACK c else NIL)"


lemma call_args_values:
  fixes fn opsize c argcount
  assumes "callable argcount c" "frame_ok c" "0x80000 \<le> uint fn" "uint fn < 2 ^ 28" "0 \<le> k" "k < fn_na (st c) fn"
  defines "c2 \<equiv> call_args fn argcount opsize c" and "I \<equiv> first_arg argcount c"
  shows "rd (st c2) (I + word_of_int (2 * k)) = given_arg argcount c k"
    "uint (I + word_of_int (2 * k)) < uint (CSTKPTR c2)"
proof -
  define h where "h = call_pushed fn argcount opsize c"
  note l = call_pushed_law [OF assms(1,2), where fn = fn and opsize = opsize, folded h_def I_def]
  note b = call_pushed_bounds [OF assms(1,2), where fn = fn and opsize = opsize, folded h_def I_def]
  have na: "fn_na (st (set_ivar I (save_pc opsize c))) fn = fn_na (st c) fn"
    by (rule fn_fields_kept [OF high_kept_call(1) [OF assms(1,2)] assms(3,4)])
  have c2: "c2 = adjust_args (fn_na (st c) fn) argcount h"
    by (simp add: c2_def call_args_pushed h_def I_def [symmetric] na)
  have p: "0 \<le> argcount" "2 \<le> uint (PVAR c)" "uint (PVAR c) \<le> uint I" "\<not> bit (CSTKPTR c) 0" "\<not> bit (PVAR c) 0"
    "0x1000C \<le> uint (PVAR c)" "fn_na (st c) fn < 32768"
    using assms(1,2) first_arg_uint [OF assms(1)] word_ranges(1) by (auto simp: callable_def frame_ok_def I_def)
  have v: "rd (st c2) (I + word_of_int (2 * k)) = (if k < argcount then rd (st h) (I + word_of_int (2 * k)) else NIL)"
    unfolding c2 b(4) using assms(5,6) p b(1,2) by (intro adjust_args_values) simp_all
  have I0: "\<not> bit (I + word_of_int (2 * k)) 0"
    using l(4) bit0_step(2) [of "CSTKPTR h" "word_of_int argcount"] bit0_step(1) [of I "word_of_int k"] by (simp add: b(4))
  have uk: "uint (I + word_of_int (2 * k)) = uint I + 2 * k"
    using assms(5,6) p b(2,3) by (intro uint_plus) auto
  have "rd (st h) (I + word_of_int (2 * k)) = given_arg argcount c k" if k: "k < argcount"
  proof (cases "k = argcount - 1")
    case True
    have "word_of_int (2 * k) = word_of_int (2 * argcount) - (2 :: 32 word)" by (simp add: True algebra_simps)
    then have "I + word_of_int (2 * k) = CSTKPTR c" by (simp add: I_def first_arg_def)
    then show ?thesis using True l(6) by (simp add: given_arg_def)
  next
    case False
    then have lt: "uint (I + word_of_int (2 * k)) < uint (CSTKPTR c)" using k uk b(3) l(5) by simp
    have "uint (CURRENTFX c + 4) < uint (PVAR c)"
      using uint_minus_nat [of 6 "PVAR c"] p(6) by (simp add: CURRENTFX_def FRAMESIZE_def)
    then have "I + word_of_int (2 * k) \<noteq> CURRENTFX c + 4" using uk p(3) assms(5) by auto
    then show ?thesis using False k l(7) [OF I0 lt] by (simp add: given_arg_def I_def)
  qed
  then show "rd (st c2) (I + word_of_int (2 * k)) = given_arg argcount c k"
    using v by (auto simp: given_arg_def)
  define na where "na = fn_na (st c) fn"
  have "CSTKPTR c2 = I + word_of_int (2 * na)"
    using assms(5,6) by (simp add: c2 adjust_args_def na_def [symmetric] b(4) Let_def algebra_simps)
  moreover have "uint (I + word_of_int (2 * na)) = uint I + 2 * na"
    using assms(5,6) p b(2,3) by (intro uint_plus) (auto simp: na_def)
  ultimately show "uint (I + word_of_int (2 * k)) < uint (CSTKPTR c2)"
    using uk assms(6) by (simp add: na_def)
qed


section \<open>Calls build frames, returns give them back\<close>

lemma defpointer_uint: "uint (defpointer dc) < 2 ^ 28"
proof -
  have "uint (defpointer dc) = uint dc AND 0xFFFFFFF" by (simp add: defpointer_def POINTERMASK_def uint_and)
  then show ?thesis using AND_upper2 [of "0xFFFFFFF" "uint dc"] by simp
qed

lemma defpointer_mask [simp]: "defpointer dc AND POINTERMASK = defpointer dc"
  by (simp add: defpointer_def and.assoc)

lemma call_result_unbound:
  fixes fn opsize c argcount
  assumes "callable argcount c" "frame_ok c" "0x80000 \<le> uint fn" "uint fn < 2 ^ 28" "k < 2 * nat (fn_pv (st c) fn + 1)"
  defines "c1 \<equiv> call_result fn argcount opsize c"
  shows "rd (st c1) (PVAR c1 + 2 * of_nat k) = UNBOUND"
proof -
  define c2 where "c2 = call_args fn argcount opsize c"
  let ?c3 = "setup_frame fn c2"
  have q: "uint (CSTKPTR c2) < 0x40000" using call_args_law [OF assms(1,2)] by (simp add: c2_def)
  have u: "uint (CSTKPTR ?c3) = uint (CSTKPTR c2) + 12" using q uint_plus [of "CSTKPTR c2" 12] by simp
  have "high_kept c ?c3"
    using high_kept_trans [OF high_kept_call(2) [OF assms(1,2)] high_kept_setup_frame] q by (simp add: c2_def)
  then have pv: "fn_pv (st ?c3) fn = fn_pv (st c) fn" by (rule fn_fields_kept) (fact assms)+
  have "rd (st (push_n (2 * nat (fn_pv (st c) fn + 1)) UNBOUND ?c3)) (CSTKPTR ?c3 + 2 * of_nat k) = UNBOUND"
    using assms(5) q u word_ranges(2) [of "st c" fn] by (intro rd_push_n_in) auto
  then show ?thesis by (simp add: c1_def call_result_def Let_def start_code_def c2_def [symmetric] pv)
qed

text \<open>
  C23. A call of compiled code that is not interrupted builds a well-formed frame for the callee. Its
  access link is the caller's frame, its argument cells hold the arguments on the stack and NIL for
  those that are missing, its variables are unbound, and the interpreter is at its first byte.
\<close>

theorem call_builds_frame:
  assumes "ccodep dc" "call_code atom argcount dc opsize c = Nextop c1" "frame_ok c" "callable argcount c"
    and "0x80000 \<le> uint (defpointer dc)" "uint (PVAR c1) < 0x20000"
  shows "frame_ok c1 \<and> FuncObj c1 = defpointer dc \<and>
    STK_OFFSET + ucast (fx_alink (st c1) (CURRENTFX c1)) = PVAR c \<and>
    PCMAC c1 = code_base (FuncObj c1) + fn_startpc (st c) (FuncObj c1) \<and>
    (\<forall>k. 0 \<le> k \<and> k < fn_na (st c) (FuncObj c1) \<longrightarrow>
       rd (st c1) (IVAR c1 + word_of_int (2 * k)) = given_arg argcount c k) \<and>
    (\<forall>k < 2 * nat (fn_pv (st c) (FuncObj c1) + 1). rd (st c1) (PVAR c1 + 2 * of_nat k) = UNBOUND)"
proof -
  let ?fn = "defpointer dc"
  have c1: "c1 = call_result ?fn argcount opsize c" by (rule call_code_cases [OF assms(1,2)])
  note hyps = assms(4,3) and fn = assms(5) defpointer_uint [of dc]
  note f = call_result_fields [of ?fn argcount opsize c, folded c1]
  note links = call_frame_links [OF hyps, of ?fn opsize, folded c1]
  note law = call_args_law [OF hyps, where fn = ?fn and opsize = opsize]
  have I: "IVAR c1 = first_arg argcount c" using f(3) law by simp
  have even: "\<not> bit (PVAR c1) 0"
    using call_frame_cells(1) [OF hyps, of ?fn opsize, folded c1] bit0_step(2) [of "PVAR c1" 5]
    by (simp add: CURRENTFX_def FRAMESIZE_def)
  let ?c2 = "call_args ?fn argcount opsize c"
  have "uint (first_arg argcount c) \<le> uint (CSTKPTR ?c2)" "uint (CSTKPTR ?c2) < 0x40000" using law by auto
  moreover have "0x1000C \<le> uint (first_arg argcount c)"
    using assms(3,4) first_arg_uint [OF assms(4)] by (simp add: frame_ok_def callable_def)
  ultimately have low: "0x1000C \<le> uint (PVAR c1)"
    using f(1) uint_plus [of "CSTKPTR ?c2" 12] by simp
  have ok: "frame_ok c1" using links I even low assms(6) f(2) by (simp add: frame_ok_def)
  have pc: "PCMAC c1 = code_base ?fn + fn_startpc (st c) ?fn"
    using f(4) fn_fields_kept(3) [OF high_kept_call(3) [OF hyps] fn, of ?fn opsize, folded c1] by simp
  have arg: "rd (st c1) (IVAR c1 + word_of_int (2 * k)) = given_arg argcount c k"
    if k: "0 \<le> k" "k < fn_na (st c) ?fn" for k
  proof -
    let ?a = "first_arg argcount c + word_of_int (2 * k)"
    note v = call_args_values [OF hyps fn k, of opsize]
    have ne: "?a \<noteq> CSTKPTR ?c2" using v(2) by auto
    have u: "uint (CSTKPTR ?c2 + 2) = uint (CSTKPTR ?c2) + 2" "uint (CSTKPTR ?c2 + 4) = uint (CSTKPTR ?c2) + 4"
      using law uint_plus [of "CSTKPTR ?c2" 2] uint_plus [of "CSTKPTR ?c2" 4] by simp_all
    then have ne2: "?a \<noteq> CSTKPTR ?c2 + 2" "?a \<noteq> CSTKPTR ?c2 + 4" using v(2) by auto
    have "rd (st c1) ?a = rd (st (setup_frame ?fn ?c2)) ?a"
      unfolding c1 using v(2) by (intro rd_call_result [OF hyps]) simp
    also have "\<dots> = given_arg argcount c k" using ne ne2 v(1) by (simp add: rd_setup_frame)
    finally show ?thesis by (simp only: I)
  qed
  have var: "rd (st c1) (PVAR c1 + 2 * of_nat k) = UNBOUND" if "k < 2 * nat (fn_pv (st c) ?fn + 1)" for k
    unfolding c1 by (rule call_result_unbound [OF hyps fn that])
  show ?thesis using ok f(2) links(1) pc arg var by simp
qed


text \<open>
  What the callee must leave alone: its frame registers, the header cell of its frame and the header
  of the caller's.
\<close>

definition returnable :: "cpu \<Rightarrow> cpu \<Rightarrow> cpu \<Rightarrow> bool" where
  "returnable c c1 c2 \<longleftrightarrow> PVAR c2 = PVAR c1 \<and> IVAR c2 = IVAR c1 \<and>
     (\<forall>a \<in> {CURRENTFX c1, CURRENTFX c + 2, CURRENTFX c + 4, CURRENTFX c - 2}. rd (st c2) a = rd (st c1) a)"

lemma caller_cells_kept:
  fixes fn opsize c argcount
  assumes "callable argcount c" "frame_ok c" "\<not> bit a 0" "uint a + 2 < uint (PVAR c)"
  shows "rd (st (call_result fn argcount opsize c)) a =
    (if a = CURRENTFX c + 4
     then join_words (lo_word (stack_offset (first_arg argcount c))) (ucast (PCMAC c - code_base (FuncObj c) + opsize))
     else rd (st c) a)"
proof -
  let ?c2 = "call_args fn argcount opsize c"
  note law = call_args_law [OF assms(1,2), where fn = fn and opsize = opsize]
  have p: "uint (first_arg argcount c) \<ge> uint (PVAR c)" "uint (CSTKPTR c) + 2 \<ge> uint (PVAR c)" "\<not> bit (PVAR c) 0"
    "\<not> bit (CSTKPTR c) 0"
    using assms(1,2) first_arg_uint [OF assms(1)] by (auto simp: callable_def frame_ok_def)
  have q: "uint a < uint (CSTKPTR ?c2)" using law assms(4) p(1) by simp
  have u: "uint (CSTKPTR ?c2 + 2) = uint (CSTKPTR ?c2) + 2" "uint (CSTKPTR ?c2 + 4) = uint (CSTKPTR ?c2) + 4"
    using law uint_plus [of "CSTKPTR ?c2" 2] uint_plus [of "CSTKPTR ?c2" 4] by simp_all
  have ne: "a \<noteq> CSTKPTR ?c2" "a \<noteq> CSTKPTR ?c2 + 2" "a \<noteq> CSTKPTR ?c2 + 4" using q u by auto
  have "uint a < uint (CSTKPTR c)" using assms(4) p(2) by simp
  then show ?thesis
    using law assms(3) q ne rd_call_result [OF assms(1,2), of a fn opsize] by (simp add: rd_setup_frame)
qed

text \<open>
  C24. \<open>RETURN\<close> undoes a call: from any state of the callee that has kept the header of its
  frame and of the caller's, it gives back the caller's frame, arguments and code, goes on behind the
  call, and leaves the result in place of the arguments.
\<close>

theorem call_return:
  assumes "ccodep dc" "call_code atom argcount dc opsize c = Nextop c1" "frame_ok c" "callable argcount c"
    and "uint (PCMAC c - code_base (FuncObj c) + opsize) < 0x10000" "returnable c c1 c2"
  shows "\<exists>c3. OPRETURN c2 \<in> {Returned (Nextop c3), Returned (Check_interrupt c3)} \<and>
    PVAR c3 = PVAR c \<and> IVAR c3 = IVAR c \<and> FuncObj c3 = FuncObj c \<and> PCMAC c3 = PCMAC c + opsize \<and>
    CSTKPTR c3 = first_arg argcount c \<and> TOPOFSTACK c3 = TOPOFSTACK c2"
proof -
  let ?fn = "defpointer dc" and ?F = "CURRENTFX c"
  have c1: "c1 = call_result ?fn argcount opsize c" by (rule call_code_cases [OF assms(1,2)])
  note hyps = assms(4,3)
  have p: "0x1000C \<le> uint (PVAR c)" "uint (PVAR c) < 0x20000" "\<not> bit (PVAR c) 0" using assms(3) by (auto simp: frame_ok_def)
  have even: "\<not> bit ?F 0" "\<not> bit (?F + 2) 0" "\<not> bit (?F + 4) 0" "\<not> bit (?F - 2) 0"
  proof -
    show "\<not> bit ?F 0" using p(3) bit0_step(2) [of "PVAR c" 5] by (simp add: CURRENTFX_def FRAMESIZE_def)
    then show "\<not> bit (?F + 2) 0" "\<not> bit (?F + 4) 0" "\<not> bit (?F - 2) 0" using bit0_step(1) [of ?F 2] by simp_all
  qed
  have low: "uint (?F + 2) + 2 < uint (PVAR c)" "uint (?F + 4) + 2 < uint (PVAR c)" "uint (?F - 2) + 2 < uint (PVAR c)"
    using p uint_minus_nat [of 8 "PVAR c"] uint_minus_nat [of 6 "PVAR c"] uint_minus_nat [of 12 "PVAR c"]
    by (simp_all add: CURRENTFX_def FRAMESIZE_def)
  note kept = caller_cells_kept [OF hyps, of _ ?fn opsize, folded c1]
  have same: "rd (st c2) (CURRENTFX c1) = rd (st c1) (CURRENTFX c1)" "rd (st c2) (?F + 2) = rd (st c1) (?F + 2)"
    "rd (st c2) (?F + 4) = rd (st c1) (?F + 4)" "rd (st c2) (?F - 2) = rd (st c1) (?F - 2)"
    "CURRENTFX c2 = CURRENTFX c1" "IVAR c2 = IVAR c1"
    using assms(6) by (simp_all add: returnable_def CURRENTFX_def)
  note cells = call_frame_cells [OF hyps, of ?fn opsize, folded c1]
  have alink: "fx_alink (st c2) (CURRENTFX c2) = lo_word (stack_offset (PVAR c))"
    using cells(1,2) same by (simp add: fx_alink_def word_in_cell lo_word_mark)
  have ev: "\<not> bit (lo_word (stack_offset (PVAR c))) 0"
    using p(3) bit0_step(2) [of "PVAR c" "0x8000"] by (simp add: lo_word_def bit_ucast_iff stack_offset_def STK_OFFSET_def)
  have pv: "STK_OFFSET + ucast (lo_word (stack_offset (PVAR c))) = PVAR c" using p by (intro stack_offset_back) auto
  have F: "PVAR c - FRAMESIZE = ?F" by (simp add: CURRENTFX_def)
  have fn: "fx_fnheader (st c2) ?F AND POINTERMASK = FuncObj c"
    using same(2) kept [OF even(2) low(1)] assms(3) by (simp add: fx_fnheader_def frame_ok_def)
  have iv: "STK_OFFSET + ucast (getword (mem (st c2)) (?F - 1)) = IVAR c"
  proof -
    have e: "?F - 1 = ?F - 2 + 1" by simp
    have "?F - 2 \<noteq> ?F + 4" by simp
    then have "rd (st c2) (?F - 2) = rd (st c) (?F - 2)" using same(4) kept [OF even(4) low(3)] by simp
    then have "getword (mem (st c2)) (?F - 1) = getword (mem (st c)) (?F - 1)"
      unfolding e word_in_cell(2) [OF even(4)] by (rule arg_cong)
    then show ?thesis using assms(3) by (simp add: frame_ok_def)
  qed
  have pc: "ucast (fx_pc (st c2) ?F) + code_base (FuncObj c) = PCMAC c + opsize"
  proof -
    let ?d = "PCMAC c - code_base (FuncObj c) + opsize"
    have e: "?F + 5 = ?F + 4 + 1" by simp
    have "fx_pc (st c2) ?F = ucast ?d"
      unfolding fx_pc_def e word_in_cell(2) [OF even(3)] using same(3) kept [OF even(3) low(2)] by simp
    moreover have "ucast (ucast ?d :: DLword) = ?d" by (rule word_through_DLword [OF assms(5)])
    ultimately show ?thesis by simp
  qed
  have I: "IVAR c2 = first_arg argcount c"
    using same(6) call_result_fields(3) [of ?fn argcount opsize c, folded c1] call_args_law [OF hyps, where fn = ?fn] by simp
  define c3 where "c3 = c2\<lparr>CSTKPTR := IVAR c2, PVAR := PVAR c, IVAR := IVAR c, FuncObj := FuncObj c,
      PCMAC := PCMAC c + opsize, Irq_Stk_Check := EndSTKP c2 - fn_stkmin (st c2) (FuncObj c)\<rparr>"
  have "OPRETURN c2 = Returned (if CSTKPTR c3 \<ge> Irq_Stk_Check c3 \<or> Irq_Stk_End (st c3) = 0 then Check_interrupt c3
      else nextop 0 (c3\<lparr>st := (st c3)\<lparr>Irq_Stk_End := unat (EndSTKP c3)\<rparr>\<rparr>))"
    unfolding OPRETURN_def Let_def alink pv F fn iv pc c3_def [symmetric] using ev by (simp only: if_False)
  then show ?thesis
    by (cases "CSTKPTR c3 \<ge> Irq_Stk_Check c3 \<or> Irq_Stk_End (st c3) = 0")
       (rule exI [of _ c3], simp add: c3_def I,
        rule exI [of _ "c3\<lparr>st := (st c3)\<lparr>Irq_Stk_End := unat (EndSTKP c3)\<rparr>\<rparr>"], simp add: c3_def I nextop_def)
qed

section \<open>A concrete call\<close>

text \<open>A frame at \<open>0x100F6\<close> and a function of three arguments at \<open>0xA0000\<close>.\<close>

definition vm_call :: vm where
  "vm_call = vm_ops\<lparr>mem := (\<lambda>_. 0)(0x100F4 := 0x800000F0, 0x100F8 := 0x90000, 0xA0000 := 3, 0xA0002 := 0x0001000C),
     Irq_Stk_End := 0x1F000\<rparr>"

definition cpu_call :: cpu where
  "cpu_call = (cpu_ops 0xE0007)\<lparr>st := vm_call, PVAR := 0x10100, IVAR := 0x100F0, FuncObj := 0x90000, CSTKPTR := 0x10110,
     PCMAC := 0x120040\<rparr>"

lemma call_code_runs:
  assumes "ccodep dc" "Irq_Stk_End (st c) \<noteq> 0"
    and "CSTKPTR c \<le> of_nat (Irq_Stk_End (st c)) - fn_stkmin (st (save_pc opsize c)) (defpointer dc)"
  shows "call_code atom argcount dc opsize c = Nextop (call_result (defpointer dc) argcount opsize c)"
  using assms by (simp add: call_code_def FN_STACK_CHECK_def Let_def call_result_def call_args_def nextop_def)

definition cpu_called :: cpu where "cpu_called = call_result (defpointer 0x800A0000) 2 5 cpu_call"

lemma cpu_call_fields [simp]:
  "st cpu_call = vm_call" "PVAR cpu_call = 0x10100" "IVAR cpu_call = 0x100F0" "FuncObj cpu_call = 0x90000"
  "CSTKPTR cpu_call = 0x10110" "PCMAC cpu_call = 0x120040" "TOPOFSTACK cpu_call = 0xE0007"
  "Irq_Stk_End vm_call = 0x1F000"
  by (simp_all add: cpu_call_def vm_call_def)

lemma cpu_call_ok:
  "frame_ok cpu_call" "callable 2 cpu_call" "ccodep 0x800A0000" "defpointer 0x800A0000 = 0xA0000"
proof -
  show "ccodep 0x800A0000" "defpointer 0x800A0000 = 0xA0000"
    by (simp_all add: ccodep_def defpointer_def POINTERMASK_def)
  show "callable 2 cpu_call" by (simp add: callable_def)
  have "getword (mem vm_call) 0x100F5 = 0xF0"
    by (simp add: getword_def vm_call_def cell_of_def lo_word_def)
  then show "frame_ok cpu_call"
    by (simp add: frame_ok_def CURRENTFX_def FRAMESIZE_def fx_fnheader_def rd_def getcell_def vm_call_def
        POINTERMASK_def STK_OFFSET_def)
qed

lemma cpu_call_fn: "fn_na vm_call 0xA0000 = 3" "fn_pv vm_call 0xA0000 = 1" "fn_startpc vm_call 0xA0000 = 12"
  by (simp_all add: fn_na_def fn_pv_def fn_startpc_def getword_def vm_call_def cell_of_def lo_word_def hi_word_def)

lemma cpu_called:
  "call_code 300 2 0x800A0000 5 cpu_call = Nextop cpu_called" "PVAR cpu_called = 0x10120"
proof -
  have k: "high_kept cpu_call (set_ivar i (save_pc 5 cpu_call))" "high_kept cpu_call (save_pc 5 cpu_call)" for i
    using high_kept_call(1) [OF cpu_call_ok(2,1)] high_kept_save_pc [OF cpu_call_ok(1)] by simp_all
  have na: "fn_na (st (set_ivar i (save_pc 5 cpu_call))) 0xA0000 = 3" for i
    using fn_fields_kept(1) [OF k(1), of "0xA0000" i] by (simp add: cpu_call_fn)
  have "fn_stkmin (st (save_pc 5 cpu_call)) 0xA0000 = fn_stkmin vm_call 0xA0000"
    using high_kept_word [OF k(2), of "0xA0000"] by (simp add: fn_stkmin_def)
  also have "\<dots> = 0" by (simp add: fn_stkmin_def getword_def vm_call_def cell_of_def hi_word_def)
  finally have "fn_stkmin (st (save_pc 5 cpu_call)) 0xA0000 = 0" .
  then show "call_code 300 2 0x800A0000 5 cpu_call = Nextop cpu_called"
    unfolding cpu_called_def by (intro call_code_runs cpu_call_ok) (simp_all add: cpu_call_ok)
  show "PVAR cpu_called = 0x10120"
    by (simp add: cpu_called_def cpu_call_ok call_result_fields call_args_pushed na adjust_args_def Let_def
        call_pushed_law(1) [OF cpu_call_ok(2,1)])
qed

lemma call_builds_frame_witness:
  "frame_ok cpu_called \<and> STK_OFFSET + ucast (fx_alink (st cpu_called) (CURRENTFX cpu_called)) = 0x10100 \<and>
   rd (st cpu_called) (IVAR cpu_called + 2) = 0xE0007 \<and> rd (st cpu_called) (IVAR cpu_called + 4) = NIL"
proof -
  have b: "0x80000 \<le> uint (defpointer 0x800A0000)" "uint (PVAR cpu_called) < 0x20000"
    by (simp_all add: cpu_call_ok cpu_called)
  note t = call_builds_frame [OF cpu_call_ok(3) cpu_called(1) cpu_call_ok(1,2) b, unfolded cpu_call_ok(4)]
  then have f: "FuncObj cpu_called = 0xA0000" by blast
  have "rd (st cpu_called) (IVAR cpu_called + word_of_int (2 * k)) = given_arg 2 cpu_call k" if "0 \<le> k" "k < 3" for k
    using t that unfolding f by (simp add: cpu_call_fn)
  from this [of 1] this [of 2] t show ?thesis by (simp add: given_arg_def)
qed

lemma call_return_witness:
  "\<exists>c3. OPRETURN (cpu_called\<lparr>TOPOFSTACK := 0xE002A\<rparr>) \<in> {Returned (Nextop c3), Returned (Check_interrupt c3)} \<and>
    PVAR c3 = 0x10100 \<and> FuncObj c3 = 0x90000 \<and> PCMAC c3 = 0x120045 \<and> CSTKPTR c3 = 0x1010E \<and> TOPOFSTACK c3 = 0xE002A"
proof -
  have "uint (PCMAC cpu_call - code_base (FuncObj cpu_call) + 5) < 0x10000" by (simp add: code_base_def)
  moreover have "returnable cpu_call cpu_called (cpu_called\<lparr>TOPOFSTACK := 0xE002A\<rparr>)" by (simp add: returnable_def)
  ultimately have "\<exists>c3. OPRETURN (cpu_called\<lparr>TOPOFSTACK := 0xE002A\<rparr>) \<in> {Returned (Nextop c3), Returned (Check_interrupt c3)} \<and>
    PVAR c3 = PVAR cpu_call \<and> IVAR c3 = IVAR cpu_call \<and> FuncObj c3 = FuncObj cpu_call \<and> PCMAC c3 = PCMAC cpu_call + 5 \<and>
    CSTKPTR c3 = first_arg 2 cpu_call \<and> TOPOFSTACK c3 = TOPOFSTACK (cpu_called\<lparr>TOPOFSTACK := 0xE002A\<rparr>)"
    by (rule call_return [OF cpu_call_ok(3) cpu_called(1) cpu_call_ok(1,2)])
  then show ?thesis by (simp add: first_arg_def) blast
qed

end
