(* ===== verification/Stack_Space.thy ===== *)
theory Stack_Space
  imports Frame_Laws
begin

text \<open>
  The stack space: \<open>src/llstk.c\<close> (the free blocks, the use counts, moving a frame that has run
  into its end), \<open>src/hardrtn.c\<close> (the slow return and the copies of frames) and
  \<open>src/return.c\<close> (context switches), with the macros of \<open>inc/stack.h\<close> and
  \<open>inc/retmacro.h\<close>, all without their debugging checks (\<open>STACKCHECK\<close>). Definitions; what
  they promise is in \<open>Stack_Blocks\<close>.

  The stack is the segment at \<open>STK_OFFSET\<close>; its blocks refer to each other by 16-bit offsets. The
  top three bits of the first word of a block tell frames (6), basic frames (4), free blocks (5) and
  guard blocks (7) from argument cells (0).
\<close>

section \<open>Blocks\<close>

definition STK_FSB_WORD :: DLword where "STK_FSB_WORD = 0xA000"
definition STK_GUARD_WORD :: DLword where "STK_GUARD_WORD = 0xE000"
definition STK_GUARD :: DLword where "STK_GUARD = 7"
definition STK_FX :: DLword where "STK_FX = 6"
definition STK_FSB :: DLword where "STK_FSB = 5"
definition STK_BF :: DLword where "STK_BF = 4"
definition STK_NOTFLG :: DLword where "STK_NOTFLG = 0"
definition MINEXTRASTACKWORDS :: int where "MINEXTRASTACKWORDS = 32"
definition STACKAREA_SIZE :: int where "STACKAREA_SIZE = 768"

lemmas stack_const_defs [maiko_consts] =
  STK_FSB_WORD_def STK_GUARD_WORD_def STK_GUARD_def STK_FX_def STK_FSB_def STK_BF_def STK_NOTFLG_def
  MINEXTRASTACKWORDS_def STACKAREA_SIZE_def

text \<open>\<open>NativeAligned2FromStackOffset\<close> and \<open>StackOffsetFromNative\<close>.\<close>

definition stk_at :: "DLword \<Rightarrow> LispPTR" where "stk_at off = STK_OFFSET + ucast off"
definition stk_off :: "LispPTR \<Rightarrow> DLword" where "stk_off a = lo_word (stack_offset a)"

definition stk_flags :: "vm \<Rightarrow> LispPTR \<Rightarrow> DLword" where "stk_flags s a = drop_bit 13 (getword (mem s) a)"
definition FSB_size :: "vm \<Rightarrow> LispPTR \<Rightarrow> DLword" where "FSB_size s a = getword (mem s) (a + 1)"
definition FSBP :: "vm \<Rightarrow> LispPTR \<Rightarrow> bool" where "FSBP s a \<longleftrightarrow> getword (mem s) a = STK_FSB_WORD"

definition setword :: "LispPTR \<Rightarrow> DLword \<Rightarrow> vm \<Rightarrow> vm" where "setword a w s = poke (putword a w (mem s)) s"

definition block_cell :: "DLword \<Rightarrow> int \<Rightarrow> 32 word" where
  "block_cell flagword n = push_bit 16 (ucast flagword) OR ucast (word_of_int n :: DLword)"

definition MAKEFREEBLOCK :: "LispPTR \<Rightarrow> int \<Rightarrow> vm \<Rightarrow> vm res" where
  "MAKEFREEBLOCK p n s =
     (if n \<le> 0 then Inl (Fatal ''creating 0 length free stack block'')
      else if odd n then Inl (Fatal ''creating odd length free stack block'')
      else Inr (wr p (block_cell STK_FSB_WORD n) s))"

definition SETUPGUARDBLOCK :: "LispPTR \<Rightarrow> int \<Rightarrow> vm \<Rightarrow> vm res" where
  "SETUPGUARDBLOCK p n s =
     (if n \<le> 0 then Inl (Fatal ''creating 0 length stack guard block'')
      else if odd n then Inl (Fatal ''creating odd nd stack guard block'')
      else Inr (wr p (block_cell STK_GUARD_WORD n) s))"

section \<open>Frames\<close>

definition FX_size :: "vm \<Rightarrow> LispPTR \<Rightarrow> int" where
  "FX_size s fx = uint (fx_nextblock s fx) - uint (fx AND 0xFFFF)"
definition DUMMYBF :: "LispPTR \<Rightarrow> LispPTR" where "DUMMYBF fx = fx - 2"
definition SLOWP :: "vm \<Rightarrow> LispPTR \<Rightarrow> bool" where "SLOWP s fx \<longleftrightarrow> bit (fx_alink s fx) 0"
definition FX_INVALIDP :: "LispPTR \<Rightarrow> bool" where "FX_INVALIDP fx \<longleftrightarrow> fx = STK_OFFSET"

definition fx_usecount :: "vm \<Rightarrow> LispPTR \<Rightarrow> DLword" where "fx_usecount s fx = getword (mem s) fx AND 0xFF"
definition set_usecount :: "LispPTR \<Rightarrow> DLword \<Rightarrow> vm \<Rightarrow> vm" where
  "set_usecount a n s = setword a ((getword (mem s) a AND 0xFF00) OR (n AND 0xFF)) s"
definition fx_incall :: "vm \<Rightarrow> LispPTR \<Rightarrow> bool" where "fx_incall s fx \<longleftrightarrow> bit (getword (mem s) fx) 10"
definition fx_nopush :: "vm \<Rightarrow> LispPTR \<Rightarrow> bool" where "fx_nopush s fx \<longleftrightarrow> bit (getword (mem s) fx) 8"
definition set_nopush :: "bool \<Rightarrow> LispPTR \<Rightarrow> vm \<Rightarrow> vm" where
  "set_nopush b fx s = setword fx (if b then getword (mem s) fx OR 0x100 else getword (mem s) fx AND 0xFEFF) s"

definition bf_usecnt :: "vm \<Rightarrow> LispPTR \<Rightarrow> DLword" where "bf_usecnt s bf = getword (mem s) bf AND 0xFF"
definition bf_residual :: "vm \<Rightarrow> LispPTR \<Rightarrow> bool" where "bf_residual s bf \<longleftrightarrow> bit (getword (mem s) bf) 9"
definition bf_ivar :: "vm \<Rightarrow> LispPTR \<Rightarrow> DLword" where "bf_ivar s bf = getword (mem s) (bf + 1)"
definition BF_size :: "vm \<Rightarrow> LispPTR \<Rightarrow> int" where "BF_size s bf = uint (stk_off bf) - uint (bf_ivar s bf) + 2"

text \<open>The links as offsets of frames; the C macros compute in \<open>int\<close> and their users take 16 bits.\<close>

definition GETALINK :: "vm \<Rightarrow> LispPTR \<Rightarrow> DLword" where "GETALINK s fx = (fx_alink s fx AND 0xFFFE) - 10"
definition GETBLINK :: "vm \<Rightarrow> LispPTR \<Rightarrow> DLword" where
  "GETBLINK s fx = (if SLOWP s fx then fx_blink s fx else lo_word (DUMMYBF fx))"
definition GETCLINK :: "vm \<Rightarrow> LispPTR \<Rightarrow> DLword" where
  "GETCLINK s fx = (if SLOWP s fx then fx_clink s fx - 10 else fx_alink s fx - 10)"

definition SET_FASTP_NIL :: "LispPTR \<Rightarrow> vm \<Rightarrow> vm" where
  "SET_FASTP_NIL fx s =
     (if SLOWP s fx then s
      else let s1 = setword (fx + 8) (stk_off (DUMMYBF fx)) s; s2 = setword (fx + 9) (fx_alink s1 fx) s1
           in setword (fx + 1) (fx_alink s2 fx OR 1) s2)"

definition SETALINK :: "LispPTR \<Rightarrow> DLword \<Rightarrow> vm \<Rightarrow> vm" where
  "SETALINK fx val s =
     (let s1 = (if SLOWP s fx then s
                else let s0 = setword (fx + 8) (lo_word (DUMMYBF fx)) s in setword (fx + 9) (fx_alink s0 fx) s0)
      in setword (fx + 1) (val + 10 + 1) s1)"

definition SETBLINK :: "LispPTR \<Rightarrow> DLword \<Rightarrow> vm \<Rightarrow> vm" where
  "SETBLINK fx val s =
     (let s1 = setword (fx + 8) val s
      in if SLOWP s1 fx then s1
         else let s2 = setword (fx + 9) (fx_alink s1 fx) s1 in setword (fx + 1) (fx_alink s2 fx OR 1) s2)"

definition SETACLINK :: "LispPTR \<Rightarrow> DLword \<Rightarrow> vm \<Rightarrow> vm" where
  "SETACLINK fx val s =
     (let s1 = (if SLOWP s fx then s else setword (fx + 8) (lo_word (DUMMYBF fx)) s);
          s2 = setword (fx + 9) (val + 10) s1
      in setword (fx + 1) (fx_clink s2 fx + 1) s2)"

section \<open>Use counts\<close>

text \<open>The end of a run of argument cells.\<close>

partial_function (option) find_bf :: "vm \<Rightarrow> LispPTR \<Rightarrow> LispPTR option" where
  "find_bf s p = (if stk_flags s p = STK_BF then Some p else find_bf s (p + 2))"

declare find_bf.simps [code]

definition incusecount68k :: "LispPTR \<Rightarrow> vm \<Rightarrow> vm res" where
  "incusecount68k fx s =
     (if FX_INVALIDP fx then Inr s
      else
        (let s1 = set_usecount fx (fx_usecount s fx + 1) s; p = stk_at (fx_nextblock s1 fx);
             mark = (\<lambda>bf. let p2 = bf + 2 in if stk_flags s1 p2 = STK_FX then SET_FASTP_NIL p2 s1 else s1)
         in if fx_usecount s1 fx > 200 then Inl (Fatal ''MP9324:Stack frame use count maximum exceeded'')
            else if stk_flags s1 p = STK_NOTFLG then rbind (of_loop (find_bf s1 p)) (\<lambda>bf. Inr (mark bf))
            else if stk_flags s1 p = STK_BF then Inr (mark p)
            else Inr s1))"

text \<open>One frame without users: it and its basic frame become free blocks.\<close>

definition free_frame :: "LispPTR \<Rightarrow> vm \<Rightarrow> vm res" where
  "free_frame fx s =
     (let blink = stk_at (GETBLINK s fx); size = FX_size s fx
      in rbind (if bf_residual s (DUMMYBF fx) then MAKEFREEBLOCK (fx - 2) (size + 2) s else MAKEFREEBLOCK fx size s) (\<lambda>s1.
         if bf_usecnt s1 blink \<noteq> 0 then Inr (set_usecount blink (bf_usecnt s1 blink - 1) s1)
         else MAKEFREEBLOCK (stk_at (bf_ivar s1 blink)) (BF_size s1 blink) s1))"

partial_function (option) decusecount68k :: "LispPTR \<Rightarrow> vm \<Rightarrow> vm res option" where
  "decusecount68k fx s =
     (if FX_INVALIDP fx then Some (Inr s)
      else if fx_usecount s fx \<noteq> 0 then Some (Inr (set_usecount fx (fx_usecount s fx - 1) s))
      else
        (let alink = stk_at (GETALINK s fx); clink = stk_at (GETCLINK s fx)
         in case free_frame fx s of
              Inl e \<Rightarrow> Some (Inl e)
            | Inr s1 \<Rightarrow>
                (if alink \<noteq> clink
                 then Option.bind (decusecount68k alink s1)
                        (\<lambda>r. case r of Inl e \<Rightarrow> Some (Inl e) | Inr s2 \<Rightarrow> decusecount68k clink s2)
                 else decusecount68k clink s1)))"

declare decusecount68k.simps [code]

text \<open>\<open>blt\<close> copies from the last word to the first.\<close>

primrec blt :: "LispPTR \<Rightarrow> LispPTR \<Rightarrow> nat \<Rightarrow> vm \<Rightarrow> vm" where
  "blt dest source 0 s = s"
| "blt dest source (Suc n) s = blt dest source n (setword (dest + of_nat n) (getword (mem s) (source + of_nat n)) s)"


section \<open>The state of the machine\<close>

text \<open>
  \<open>stkm\<close> adds to the registers of the interpreter loop the part of \<open>MachineState\<close> that is
  only valid outside of it (\<open>CurrentStackPTR\<close>) and the words of the interface page and the global
  area that concern the stack; \<open>ifp_fx\<close> is the interface page as an array, \<open>dirty\<close> the value
  of \<open>newpage\<close>'s uninitialised variable (see \<open>Storage\<close>).
\<close>

record stkm =
  cp :: cpu
  CurrentStackPTR :: LispPTR
  ifp_fx :: "DLword \<Rightarrow> DLword"
  stackbase :: DLword
  endofstack :: DLword
  LastStackAddr_word :: LispPTR
  GuardStackAddr_word :: LispPTR
  STACKOVERFLOW_word :: LispPTR
  int_stackoverflow :: bool
  extended_frame :: bool
  dirty_word :: LispPTR

definition mv :: "stkm \<Rightarrow> vm" where "mv m = st (cp m)"
definition upd_vm :: "vm \<Rightarrow> stkm \<Rightarrow> stkm" where "upd_vm s m = m\<lparr>cp := (cp m)\<lparr>st := s\<rparr>\<rparr>"
definition cfx :: "stkm \<Rightarrow> LispPTR" where "cfx m = CURRENTFX (cp m)"
definition with_vm :: "vm res \<Rightarrow> stkm \<Rightarrow> stkm res" where "with_vm r m = rbind r (\<lambda>s. Inr (upd_vm s m))"

definition EXT :: "stkm \<Rightarrow> stkm" where
  "EXT m = m\<lparr>cp := (cp m)\<lparr>TopOfStack := TOPOFSTACK (cp m)\<rparr>, CurrentStackPTR := CSTKPTR (cp m) - 2\<rparr>"
definition RET :: "stkm \<Rightarrow> stkm" where
  "RET m = m\<lparr>cp := (cp m)\<lparr>TOPOFSTACK := TopOfStack (cp m), CSTKPTR := CurrentStackPTR m + 2\<rparr>\<rparr>"

section \<open>Finding a free block\<close>

text \<open>\<open>extendstack\<close>: one more page for the stack, or \<open>None\<close> when it is full.\<close>

definition extendstack :: "stkm \<Rightarrow> (LispPTR option \<times> stkm) res" where
  "extendstack m =
     (let easp = endofstack m
      in if ucast easp < LastStackAddr_word m AND 0xFFFF
         then
           (let m1 = (if ucast easp > GuardStackAddr_word m AND 0xFFFF \<and> STACKOVERFLOW_word m = NIL
                      then upd_vm (upd_sto (\<lambda>w. w\<lparr>PENDINGINTERRUPT_word := ATOM_T\<rparr>) (mv m))
                             (m\<lparr>extended_frame := True, int_stackoverflow := True, STACKOVERFLOW_word := ATOM_T\<rparr>)
                      else m);
                m2 = upd_vm (snd (newpage (dirty_word m1) (STK_OFFSET OR (ucast easp + 2)) (mv m1))) m1;
                newend = easp + 256
            in rbind (with_vm (MAKEFREEBLOCK (stk_at (easp + 2)) 254 (mv m2)) m2) (\<lambda>m3.
               let m4 = m3\<lparr>endofstack := newend\<rparr>
               in rbind (with_vm (SETUPGUARDBLOCK (stk_at newend) 2 (mv m4)) m4) (\<lambda>m5.
                  rbind (with_vm (MAKEFREEBLOCK (stk_at easp) 2 (mv m5)) m5) (\<lambda>m6.
                  Inr (Some (stk_at newend), m6)))))
         else Inr (None, m))"

text \<open>
  The loop at the label \<open>FREE\<close>: the length of the run of free blocks (and guard blocks that are not
  the end of the stack) from \<open>p\<close>.
\<close>

partial_function (option) free_run :: "vm \<Rightarrow> LispPTR \<Rightarrow> LispPTR \<Rightarrow> DLword \<Rightarrow> DLword res option" where
  "free_run s easp p freesize =
     (if freesize = 0 then Some (Inl (Fatal ''FREESIZE = 0''))
      else
        (let scan = p + ucast freesize
         in if stk_flags s scan = STK_FSB \<or> (stk_flags s scan = STK_GUARD \<and> scan < easp)
            then free_run s easp p (freesize + FSB_size s scan)
            else Some (Inr freesize)))"

declare free_run.simps [code]

text \<open>What is done with a run of \<open>freesize\<close> words at \<open>p\<close>: the block, if it is long enough.\<close>

definition take_block :: "DLword \<Rightarrow> int \<Rightarrow> LispPTR \<Rightarrow> DLword \<Rightarrow> vm \<Rightarrow> (LispPTR option \<times> vm) res" where
  "take_block n align p freesize s =
     (if uint freesize \<ge> uint n + STACKAREA_SIZE + MINEXTRASTACKWORDS
      then
        (let wanted = (if align < 0 \<or> align = uint (stk_off p) mod 4 then MINEXTRASTACKWORDS else MINEXTRASTACKWORDS + 2);
             q = p + word_of_int wanted
         in rbind (SETUPGUARDBLOCK q (uint n) s) (\<lambda>s1.
            rbind (MAKEFREEBLOCK p wanted s1) (\<lambda>s2.
            rbind (MAKEFREEBLOCK (q + ucast n) (uint freesize - wanted - uint n) s2) (\<lambda>s3.
            Inr (Some q, s3)))))
      else rbind (MAKEFREEBLOCK p (uint freesize) s) (\<lambda>s1. Inr (None, s1)))"

text \<open>
  \<open>freestackblock\<close>: a scan of the blocks from \<open>start\<close>, once around, and again after the
  stack has been extended. A call with \<open>start = None\<close> (the null pointer) begins at the base.
\<close>

datatype scan_step = Scan_at LispPTR | Free_at LispPTR | New_page | Scan_fails lisp_error

definition scan_block :: "LispPTR option \<Rightarrow> LispPTR \<Rightarrow> LispPTR \<Rightarrow> stkm \<Rightarrow> scan_step" where
  "scan_block start easp p m =
     (let s = mv m; f = stk_flags s p;
          next_at = (\<lambda>q. if Some q \<noteq> start then Scan_at q else New_page)
      in if f = STK_FSB \<or> (f = STK_GUARD \<and> p < easp) then Free_at p
         else if f = STK_GUARD then (if start \<noteq> None then Scan_at (stk_at (stackbase m)) else New_page)
         else if f = STK_FX then next_at (stk_at (fx_nextblock s p))
         else case find_bf s p of None \<Rightarrow> Scan_fails Diverges | Some bf \<Rightarrow> next_at (bf + 2))"

definition scan_start :: "LispPTR option \<Rightarrow> stkm \<Rightarrow> LispPTR" where
  "scan_start start m = (case start of Some p \<Rightarrow> p | None \<Rightarrow> stk_at (stackbase m))"

datatype fsb_next = Done "(LispPTR option \<times> stkm) res" | Again LispPTR LispPTR stkm

definition fsb_new_page :: "LispPTR option \<Rightarrow> stkm \<Rightarrow> fsb_next" where
  "fsb_new_page start m =
     (case extendstack m of
        Inl e \<Rightarrow> Done (Inl e)
      | Inr (None, m1) \<Rightarrow> Done (Inr (None, m1))
      | Inr (Some easp, m1) \<Rightarrow> Again easp (scan_start start m1) m1)"

definition fsb_free_scan :: "DLword \<Rightarrow> int \<Rightarrow> LispPTR option \<Rightarrow> LispPTR \<Rightarrow> LispPTR \<Rightarrow> stkm \<Rightarrow> fsb_next" where
  "fsb_free_scan n align start easp p m =
     (case of_loop_res (free_run (mv m) easp p (FSB_size (mv m) p)) of
        Inl e \<Rightarrow> Done (Inl e)
      | Inr freesize \<Rightarrow>
          (case take_block n align p freesize (mv m) of
             Inl e \<Rightarrow> Done (Inl e)
           | Inr (Some b, s1) \<Rightarrow> Done (Inr (Some b, upd_vm s1 m))
           | Inr (None, s1) \<Rightarrow>
               (let q = p + ucast freesize; m1 = upd_vm s1 m
                in if Some q \<noteq> start then Again easp q m1 else fsb_new_page start m1)))"

definition fsb_step :: "DLword \<Rightarrow> int \<Rightarrow> LispPTR option \<Rightarrow> LispPTR \<Rightarrow> LispPTR \<Rightarrow> stkm \<Rightarrow> fsb_next" where
  "fsb_step n align start easp p m =
     (case scan_block start easp p m of
        Scan_at q \<Rightarrow> Again easp q m
      | New_page \<Rightarrow> fsb_new_page start m
      | Scan_fails e \<Rightarrow> Done (Inl e)
      | Free_at q \<Rightarrow> fsb_free_scan n align start easp q m)"

partial_function (option) fsb_scan ::
  "DLword \<Rightarrow> int \<Rightarrow> LispPTR option \<Rightarrow> LispPTR \<Rightarrow> LispPTR \<Rightarrow> stkm \<Rightarrow> (LispPTR option \<times> stkm) res option" where
  "fsb_scan n align start easp p m =
     (case fsb_step n align start easp p m of
        Done r \<Rightarrow> Some r | Again easp1 q m1 \<Rightarrow> fsb_scan n align start easp1 q m1)"

declare fsb_scan.simps [code]

definition freestackblock :: "DLword \<Rightarrow> LispPTR option \<Rightarrow> int \<Rightarrow> stkm \<Rightarrow> (LispPTR option \<times> stkm) res" where
  "freestackblock n start align m =
     (if odd n then Inl (Fatal ''asking for odd-length stack block'')
      else of_loop_res (fsb_scan n align start (stk_at (endofstack m)) (scan_start start m) m))"


section \<open>Context switches\<close>

definition write_free :: "LispPTR \<Rightarrow> DLword \<Rightarrow> vm \<Rightarrow> vm" where
  "write_free p n s = setword (p + 1) n (setword p STK_FSB_WORD s)"

definition words_between :: "LispPTR \<Rightarrow> LispPTR \<Rightarrow> DLword" where "words_between hi lo = lo_word (hi - lo)"

definition BEFORE_CONTEXTSW :: "stkm \<Rightarrow> stkm res" where
  "BEFORE_CONTEXTSW m =
     (let csp = CurrentStackPTR m + 2; n = words_between (EndSTKP (cp m)) csp;
          s1 = write_free csp n (setword (cfx m + 4) (stk_off csp) (mv m))
      in if n = 0 then Inl (Fatal ''0-long free block.'') else Inr (upd_vm s1 (m\<lparr>CurrentStackPTR := csp\<rparr>)))"

text \<open>The end of a run of free blocks.\<close>

partial_function (option) free_end :: "vm \<Rightarrow> LispPTR \<Rightarrow> LispPTR option" where
  "free_end s p = (if FSBP s p then free_end s (p + ucast (FSB_size s p)) else Some p)"

declare free_end.simps [code]

definition set_endstk :: "LispPTR \<Rightarrow> stkm \<Rightarrow> stkm" where "set_endstk p m = m\<lparr>cp := (cp m)\<lparr>EndSTKP := p\<rparr>\<rparr>"

definition AFTER_CONTEXTSW :: "stkm \<Rightarrow> stkm res" where
  "AFTER_CONTEXTSW m =
     (let p = stk_at (fx_nextblock (mv m) (cfx m))
      in if \<not> FSBP (mv m) p then Inl (Fatal ''pre_moveframe: MP9316'')
         else rbind (of_loop (free_end (mv m) p)) (\<lambda>e. Inr ((set_endstk e m)\<lparr>CurrentStackPTR := p - 2\<rparr>)))"

definition FastRetCALL :: "stkm \<Rightarrow> stkm" where
  "FastRetCALL m =
     (let fx = cfx m; fn = fx_fnheader (mv m) fx
      in m\<lparr>cp := (cp m)\<lparr>IVAR := stk_at (getword (mem (mv m)) (fx - 1)), FuncObj := fn,
             PCMAC := code_base fn + ucast (fx_pc (mv m) fx)\<rparr>\<rparr>)"

text \<open>The stack of the frame that is now current: behind its last value lies free space.\<close>

definition resume_frame :: "LispPTR \<Rightarrow> stkm \<Rightarrow> stkm res" where
  "resume_frame next68k m =
     rbind (of_loop (free_end (mv m) next68k)) (\<lambda>e.
     let m1 = set_endstk e m; fx = cfx m1
     in if fx_incall (mv m1) fx then Inl (Fatal ''INCALL bit found in returnee frame'')
        else if fx_nopush (mv m1) fx
        then (let s1 = set_nopush False fx (mv m1)
              in Inr (FastRetCALL (upd_vm s1 (m1\<lparr>cp := (cp m1)\<lparr>TopOfStack := rd s1 (next68k - 2)\<rparr>,
                                               CurrentStackPTR := next68k - 4\<rparr>))))
        else Inr (FastRetCALL (m1\<lparr>CurrentStackPTR := next68k - 2\<rparr>)))"

definition PushStack :: "LispPTR \<Rightarrow> stkm \<Rightarrow> stkm" where
  "PushStack x m = (let csp = CurrentStackPTR m + 2 in upd_vm (wr csp x (mv m)) (m\<lparr>CurrentStackPTR := csp\<rparr>))"

definition Midpunt :: "DLword \<Rightarrow> stkm \<Rightarrow> stkm" where
  "Midpunt fxnum m =
     (let midpunt = lo_word (cfx m)
      in m\<lparr>cp := (cp m)\<lparr>PVAR := stk_at (ifp_fx m fxnum) + FRAMESIZE\<rparr>, ifp_fx := (ifp_fx m)(fxnum := midpunt)\<rparr>)"

definition contextsw :: "DLword \<Rightarrow> 32 word \<Rightarrow> DLword \<Rightarrow> stkm \<Rightarrow> stkm res" where
  "contextsw fxnum bytenum flags m =
     (if flags AND 1 \<noteq> 0 then Inl (Fatal ''contextswitch sets Incall'')
      else
        (let fx = cfx m; s1 = set_nopush True fx (mv m);
             s2 = setword (fx + 5) (ucast (PCMAC (cp m) - code_base (FuncObj (cp m)) + bytenum)) s1;
             m1 = PushStack (if flags AND 2 \<noteq> 0 then ucast fxnum else TopOfStack (cp m)) (upd_vm s2 m);
             csp = CurrentStackPTR m1 + 2; n = words_between (EndSTKP (cp m1)) csp;
             s3 = write_free csp n (setword (fx + 4) (lo_word csp) (mv m1));
             m2 = Midpunt fxnum (upd_vm s3 (m1\<lparr>CurrentStackPTR := csp\<rparr>));
             next68k = stk_at (fx_nextblock (mv m2) (cfx m2))
         in if n = 0 then Inl (Fatal ''creating 0-long free stack block.'')
            else if \<not> FSBP (mv m2) next68k then Inl (Fatal ''contextsw(): MP9316'')
            else resume_frame next68k m2))"

definition OP_contextsw :: "stkm \<Rightarrow> stkm res" where
  "OP_contextsw m = contextsw (ucast (TopOfStack (cp m) AND 0xFFFF)) 1 2 m"

section \<open>Moving and copying frames\<close>

definition nametable_on_stack :: "vm \<Rightarrow> LispPTR \<Rightarrow> bool" where
  "nametable_on_stack s fx \<longleftrightarrow> fx_validnametable s fx \<and> drop_bit 16 (fx_nametable s fx) = ucast STK_HI"

text \<open>The copy of a frame of \<open>n\<close> words with its dummy basic frame into the block at \<open>b\<close>.\<close>

definition copy_frame :: "LispPTR \<Rightarrow> LispPTR \<Rightarrow> int \<Rightarrow> vm \<Rightarrow> vm" where
  "copy_frame old b n s =
     (let s1 = blt b (old - 2) (nat n) s; s2 = setword b (getword (mem s1) b OR 0x200) s1; new = b + 2;
          s3 = setword (new + 4) (stk_off new + word_of_int n - 2) s2
      in SETBLINK new (GETBLINK s3 old) s3)"

definition shift_nametable :: "LispPTR \<Rightarrow> LispPTR \<Rightarrow> vm \<Rightarrow> vm" where
  "shift_nametable old new s = wr (new + 6) (rd s (new + 6) + (new - old)) s"

partial_function (option) merge_fsb :: "vm \<Rightarrow> LispPTR \<Rightarrow> LispPTR \<Rightarrow> vm option" where
  "merge_fsb s nxt new =
     (if FSBP s new
      then merge_fsb (setword (nxt + 1) (FSB_size s nxt + FSB_size s new) s) nxt
             (new + ucast (FSB_size (setword (nxt + 1) (FSB_size s nxt + FSB_size s new) s) new))
      else Some s)"

declare merge_fsb.simps [code]

text \<open>The label \<open>tryfsb\<close>: whether the frame can grow where it is.\<close>

datatype move_try = In_place stkm | Stack_full stkm | Elsewhere bool stkm | Try_fails lisp_error

definition try_fsb :: "LispPTR \<Rightarrow> bool \<Rightarrow> stkm \<Rightarrow> move_try" where
  "try_fsb nxt at_eos m =
     (let s = mv m; new = nxt + ucast (FSB_size s nxt)
      in if \<not> FSBP s nxt then Elsewhere at_eos m
         else if FSBP s new
         then (case merge_fsb s nxt new of None \<Rightarrow> Try_fails Diverges | Some s1 \<Rightarrow> In_place (upd_vm s1 m))
         else if stk_off new = endofstack m
         then (if ucast (stk_off new) > GuardStackAddr_word m AND 0xFFFF \<and> STACKOVERFLOW_word m = NIL
               then Elsewhere True m
               else case extendstack m of
                      Inl e \<Rightarrow> Try_fails e
                    | Inr (Some _, m1) \<Rightarrow> In_place m1
                    | Inr (None, m1) \<Rightarrow> Stack_full m1)
         else Elsewhere at_eos m)"

definition move_to :: "LispPTR \<Rightarrow> LispPTR \<Rightarrow> int \<Rightarrow> bool \<Rightarrow> stkm \<Rightarrow> (LispPTR \<times> stkm) res" where
  "move_to old b n onstk m =
     (let s1 = copy_frame old b n (mv m); new = b + 2;
          s2 = (if onstk then shift_nametable old new s1 else s1)
      in rbind (with_vm (if bf_residual s2 (DUMMYBF old) then MAKEFREEBLOCK (old - 2) n s2
                         else MAKEFREEBLOCK old (n - 2) s2) m) (\<lambda>m1.
         Inr (S_POSITIVE OR ucast (stk_off new), m1)))"

partial_function (option) move_loop :: "LispPTR \<Rightarrow> LispPTR \<Rightarrow> int \<Rightarrow> bool \<Rightarrow> stkm \<Rightarrow> (LispPTR \<times> stkm) res option" where
  "move_loop old nxt n at_eos m =
     (case try_fsb nxt at_eos m of
        Try_fails e \<Rightarrow> Some (Inl e)
      | In_place m1 \<Rightarrow> Some (Inr (S_POSITIVE OR ucast (stk_off old), m1))
      | Stack_full m1 \<Rightarrow> Some (Inr (0xFFFF, m1))
      | Elsewhere eos m1 \<Rightarrow>
          (let onstk = nametable_on_stack (mv m1) old
           in case freestackblock (word_of_int n) (Some old) (if onstk then uint (old - 2) mod 4 else -1) m1 of
                Inl e \<Rightarrow> Some (Inl e)
              | Inr (None, m2) \<Rightarrow> Some (Inr (0xFFFF, m2))
              | Inr (Some b, m2) \<Rightarrow>
                  (if eos \<and> b > old
                   then (if FSB_size (mv m2) b = 0 then Some (Inl (Fatal ''0-long stack freeblock.''))
                         else move_loop old nxt n eos (upd_vm (setword b STK_FSB_WORD (mv m2)) m2))
                   else Some (move_to old b n onstk m2))))"

declare move_loop.simps [code]

definition moveframe :: "LispPTR \<Rightarrow> stkm \<Rightarrow> (LispPTR \<times> stkm) res" where
  "moveframe old m =
     (let n = FX_size (mv m) old + 2
      in if n < 0 then Inl Diverges
         else of_loop_res (move_loop old (stk_at (fx_nextblock (mv m) old)) n False m))"

text \<open>\<open>do_stackoverflow\<close>: 1 when the stack is exhausted.\<close>

definition do_stackoverflow :: "bool \<Rightarrow> stkm \<Rightarrow> (bool \<times> stkm) res" where
  "do_stackoverflow incallp m =
     (let oldPVar = PVAR (cp m); savenext = fx_nextblock (mv m) (cfx m)
      in rbind (BEFORE_CONTEXTSW m) (\<lambda>m1.
         rbind (moveframe (cfx m1) m1) (\<lambda>(r, m2).
         let newfx = lo_word r
         in if newfx = 0xFFFF
            then Inr (True, m2\<lparr>cp := (cp m2)\<lparr>Irq_Stk_Check := 0, st := (mv m2)\<lparr>Irq_Stk_End := 0\<rparr>\<rparr>\<rparr>)
            else
              (let pv = stk_at (newfx + 10); d = pv - oldPVar
               in rbind (AFTER_CONTEXTSW (m2\<lparr>cp := (cp m2)\<lparr>PVAR := pv\<rparr>\<rparr>)) (\<lambda>m3.
                  Inr (False,
                    if incallp
                    then (let s = setword (cfx m3 + 4) (savenext + lo_word d) (mv m3)
                          in upd_vm s (m3\<lparr>cp := (cp m3)\<lparr>IVAR := IVAR (cp m3) + d\<rparr>\<rparr>))
                    else m3))))))"

section \<open>The slow return\<close>

definition make_FXcopy :: "LispPTR \<Rightarrow> stkm \<Rightarrow> (LispPTR option \<times> stkm) res" where
  "make_FXcopy fx m =
     (let n = FX_size (mv m) fx + 2; onstk = nametable_on_stack (mv m) fx
      in if n < 0 then Inl Diverges else
         rbind (freestackblock (word_of_int n) (Some (cfx m)) (if onstk then (uint (stk_off fx) - 2) mod 4 else -1) m) (\<lambda>(r, m1).
         case r of None \<Rightarrow> Inr (None, m1)
         | Some b \<Rightarrow>
             (let new = b + 2; bf = stk_at (GETBLINK (mv m1) fx);
                  s1 = set_usecount new 0 (copy_frame fx b n (mv m1));
                  s2 = (if onstk then shift_nametable fx new s1 else s1);
                  s3 = SET_FASTP_NIL fx (set_usecount bf (bf_usecnt s2 bf + 1) s2)
              in rbind (incusecount68k (stk_at (GETCLINK s3 fx)) s3) (\<lambda>s4.
                 rbind (if GETCLINK s4 fx \<noteq> GETALINK s4 fx then incusecount68k (stk_at (GETALINK s4 fx)) s4 else Inr s4) (\<lambda>s5.
                 rbind (of_loop_res (decusecount68k fx s5)) (\<lambda>s6.
                 Inr (Some new, upd_vm (SETACLINK (cfx m1) (stk_off new) s6) m1)))))))"

definition MAKE_FXCOPY :: "LispPTR \<Rightarrow> stkm \<Rightarrow> (LispPTR option \<times> stkm) res" where
  "MAKE_FXCOPY fx m =
     rbind (BEFORE_CONTEXTSW m) (\<lambda>m1.
     rbind (make_FXcopy fx m1) (\<lambda>(r, m2).
     case r of None \<Rightarrow> Inr (None, m2) | Some new \<Rightarrow> rbind (AFTER_CONTEXTSW m2) (\<lambda>m3. Inr (Some new, m3))))"

text \<open>The label \<open>another\<close>: the returning frame is freed and the other one is resumed.\<close>

definition slow_resume :: "LispPTR \<Rightarrow> stkm \<Rightarrow> stkm res" where
  "slow_resume returnFX m =
     (let s = mv m; fx = cfx m; iv = IVAR (cp m); endp = EndSTKP (cp m); next68k = stk_at (fx_nextblock s returnFX);
          bf = stk_at (fx_blink s fx);
          (p, s1, ok) =
            (if bf_residual s (fx - 2)
             then (fx - 2,
                   if bf_usecnt s bf = 0
                   then (write_free iv (words_between bf iv + 2) s, words_between bf iv + 2 \<noteq> 0)
                   else (set_usecount bf (bf_usecnt s bf - 1) s, True))
             else (iv, s, True));
          s2 = write_free p (words_between endp p) s1;
          m1 = upd_vm s2 (m\<lparr>cp := (cp m)\<lparr>PVAR := returnFX + FRAMESIZE\<rparr>\<rparr>)
      in if \<not> ok \<or> words_between endp p = 0 then Inl (Fatal ''creating 0-len block'')
         else if \<not> FSBP s2 next68k then Inl (Fatal ''OP_return: MP9316'')
         else resume_frame next68k m1)"

partial_function (option) slow_retry :: "LispPTR \<Rightarrow> stkm \<Rightarrow> (bool \<times> stkm) res option" where
  "slow_retry returnFX m =
     (let s = mv m; next68k = stk_at (fx_nextblock s returnFX); bf = stk_at (fx_blink s (cfx m))
      in if FSBP s next68k \<or> (next68k = IVAR (cp m) \<and> bf_usecnt s bf = 0)
         then Some (rbind (slow_resume returnFX m) (\<lambda>m1. Inr (False, m1)))
         else case MAKE_FXCOPY returnFX m of
                Inl e \<Rightarrow> Some (Inl e)
              | Inr (None, m1) \<Rightarrow> Some (Inr (True, m1))
              | Inr (Some new, m1) \<Rightarrow> slow_retry new m1)"

declare slow_retry.simps [code]

definition slowreturn :: "stkm \<Rightarrow> (bool \<times> stkm) res" where
  "slowreturn m =
     (let fx = cfx m; s = mv m; returnFX = stk_at (fx_alink s fx - 11)
      in rbind (if fx_alink s fx AND 0xFFFE \<noteq> fx_clink s fx
                then
                  (let s1 = SETALINK fx (fx_clink s fx) s
                   in rbind (of_loop_res (decusecount68k returnFX s1)) (\<lambda>s2.
                      Inr (stk_at (fx_clink s2 fx - 10), upd_vm s2 m)))
                else Inr (returnFX, m)) (\<lambda>(rfx, m1).
         rbind (if fx_usecount (mv m1) rfx \<noteq> 0 then MAKE_FXCOPY rfx m1 else Inr (Some rfx, m1)) (\<lambda>(r, m2).
         case r of None \<Rightarrow> Inr (True, m2) | Some rfx2 \<Rightarrow> of_loop_res (slow_retry rfx2 m2))))"

text \<open>\<open>RETURN\<close> with its slow path.\<close>

datatype stk_exit = Stk_exit op_exit stkm | Stk_overflow_help stkm

definition OPRETURN_full :: "stkm \<Rightarrow> stk_exit res" where
  "OPRETURN_full m =
     (case OPRETURN (cp m) of
        Returned x \<Rightarrow> Inr (Stk_exit x m)
      | Slow_return _ \<Rightarrow>
          rbind (slowreturn (EXT m)) (\<lambda>(full, m1).
          if full then Inr (Stk_overflow_help m1)
          else
            (let m2 = RET m1; c = (cp m2)\<lparr>Irq_Stk_Check := EndSTKP (cp m2) - fn_stkmin (mv m2) (FuncObj (cp m2))\<rparr>
             in Inr (Stk_exit
                  (if CSTKPTR c \<ge> Irq_Stk_Check c \<or> Irq_Stk_End (st c) = 0 then Check_interrupt c
                   else nextop 0 (c\<lparr>st := (st c)\<lparr>Irq_Stk_End := unat (EndSTKP c)\<rparr>\<rparr>))
                  (m2\<lparr>cp := c\<rparr>)))))"

end
