(* ===== verification/Stack_Blocks.thy ===== *)
theory Stack_Blocks
  imports Stack_Space
begin

text \<open>
  The stack as a list of blocks, and what \<open>freestackblock\<close> promises of it. A block is a kind and
  a length in words; the list tiles the stack from \<open>stackbase\<close> to the guard block at
  \<open>endofstack\<close>.
\<close>

section \<open>Positions\<close>

definition stk_pos :: "int \<Rightarrow> LispPTR" where "stk_pos k = STK_OFFSET + word_of_int k"

lemma stk_pos_plus: "stk_pos k + word_of_int n = stk_pos (k + n)" by (simp add: stk_pos_def add.assoc)

lemma stk_pos_add [simp]:
  "stk_pos k + 1 = stk_pos (k + 1)" "stk_pos k + 2 = stk_pos (k + 2)" "stk_pos k + 4 = stk_pos (k + 4)"
  "stk_pos k + ucast (n :: DLword) = stk_pos (k + uint n)"
  using stk_pos_plus [of k 1] stk_pos_plus [of k 2] stk_pos_plus [of k 4] stk_pos_plus [of k "uint n"]
  by simp_all

lemma uint_stk_pos: "0 \<le> k \<Longrightarrow> k < 0x20000 \<Longrightarrow> uint (stk_pos k) = 0x10000 + k"
  using uint_plus [of STK_OFFSET k] by (simp add: stk_pos_def STK_OFFSET_def)

lemma stk_pos_eq: "0 \<le> j \<Longrightarrow> j < 0x20000 \<Longrightarrow> 0 \<le> k \<Longrightarrow> k < 0x20000 \<Longrightarrow> stk_pos j = stk_pos k \<longleftrightarrow> j = k"
  by (metis add_left_cancel uint_stk_pos)

lemma stk_pos_less:
  "0 \<le> j \<Longrightarrow> j < 0x20000 \<Longrightarrow> 0 \<le> k \<Longrightarrow> k < 0x20000 \<Longrightarrow> stk_pos j < stk_pos k \<longleftrightarrow> j < k"
  by (simp add: word_less_def uint_stk_pos)

lemma stk_at_pos: "stk_at w = stk_pos (uint w)" by (simp add: stk_at_def stk_pos_def)

lemma stk_at_of_int: "0 \<le> k \<Longrightarrow> k < 0x10000 \<Longrightarrow> stk_at (word_of_int k) = stk_pos k"
  by (simp add: stk_at_pos uint_word_of_int)

lemma uint_stk_off: "0 \<le> k \<Longrightarrow> k < 0x10000 \<Longrightarrow> uint (stk_off (stk_pos k)) = k"
  by (simp add: stk_off_def stack_offset_def stk_pos_def lo_word_def uint_word_of_int unsigned_ucast_eq take_bit_eq_mod)

text \<open>Words of the stack by position.\<close>

definition sw :: "vm \<Rightarrow> int \<Rightarrow> DLword" where "sw s k = getword (mem s) (stk_pos k)"

lemma even_stk_pos: "0 \<le> k \<Longrightarrow> k < 0x20000 \<Longrightarrow> even k \<Longrightarrow> \<not> bit (stk_pos k) 0"
  using bit_uint_iff [of "stk_pos k" 0] by (simp add: uint_stk_pos bit_0)

lemma cell_of_pair: "\<not> bit a 0 \<Longrightarrow> cell_of a = a" "\<not> bit a 0 \<Longrightarrow> cell_of (a + 1) = a" for a :: LispPTR
proof -
  assume a: "\<not> bit a 0"
  show "cell_of a = a" using a by (intro bit_word_eqI) (auto simp: bit_cell_of Suc_le_eq intro: gr0I)
  show "cell_of (a + 1) = a" unfolding or_1_even [OF a, symmetric]
    using a by (intro bit_word_eqI) (auto simp: bit_cell_of bit_or_iff bit_1_iff Suc_le_eq intro: gr0I)
qed

lemma getword_wr:
  assumes "\<not> bit a 0"
  shows "getword (mem (wr a c s)) x =
    (if x = a then hi_word c else if x = a + 1 then lo_word c else getword (mem s) x)"
proof -
  have "cell_of x = a \<longleftrightarrow> x = a \<or> x = a + 1"
    using cell_of_pair [OF assms] cell_of_eqD [of x a] cell_of_eqD [of x "a + 1"] assms
    by (cases "bit x 0") (auto simp: bit_0)
  moreover have "bit (a + 1) 0" using assms by (simp add: bit_0)
  ultimately show ?thesis using assms cell_of_pair [OF assms] by (auto simp: wr_def putcell_def getword_def)
qed

lemma sw_wr:
  assumes "0 \<le> k" "k < 0x10000" "even k" "0 \<le> j" "j < 0x10000"
  shows "sw (wr (stk_pos k) c s) j = (if j = k then hi_word c else if j = k + 1 then lo_word c else sw s j)"
  using assms even_stk_pos [of k] stk_pos_eq [of j k] stk_pos_eq [of j "k + 1"]
  by (simp add: sw_def getword_wr)

lemma block_cell_words [simp]: "hi_word (block_cell f n) = f" "lo_word (block_cell f n) = word_of_int n"
proof -
  have "block_cell f n = join_words f (word_of_int n)" by (simp add: block_cell_def join_words_def)
  then show "hi_word (block_cell f n) = f" "lo_word (block_cell f n) = word_of_int n" by simp_all
qed

section \<open>Blocks\<close>

datatype blk_kind = Free_blk | Guard_blk | Frame_blk | Args_blk

type_synonym blk = "blk_kind \<times> int"

definition flag_bits :: "DLword \<Rightarrow> DLword" where "flag_bits w = drop_bit 13 w"

fun blk_ok :: "vm \<Rightarrow> int \<Rightarrow> blk \<Rightarrow> bool" where
  "blk_ok s k (Free_blk, n) \<longleftrightarrow> 0 < n \<and> even n \<and> flag_bits (sw s k) = STK_FSB \<and> sw s (k + 1) = word_of_int n"
| "blk_ok s k (Guard_blk, n) \<longleftrightarrow> 0 < n \<and> even n \<and> flag_bits (sw s k) = STK_GUARD \<and> sw s (k + 1) = word_of_int n"
| "blk_ok s k (Frame_blk, n) \<longleftrightarrow> 10 \<le> n \<and> even n \<and> flag_bits (sw s k) = STK_FX \<and> sw s (k + 4) = word_of_int (k + n)"
| "blk_ok s k (Args_blk, n) \<longleftrightarrow> 0 < n \<and> even n \<and> flag_bits (sw s (k + n - 2)) = STK_BF \<and>
     flag_bits (sw s k) \<notin> {STK_FSB, STK_GUARD, STK_FX} \<and>
     (\<forall>j \<in> {0..<n - 2}. even j \<longrightarrow> flag_bits (sw s (k + j)) \<noteq> STK_BF)"

primrec tiled :: "vm \<Rightarrow> int \<Rightarrow> blk list \<Rightarrow> bool" where
  "tiled s k [] \<longleftrightarrow> True"
| "tiled s k (b # bs) \<longleftrightarrow> blk_ok s k b \<and> tiled s (k + snd b) bs"

definition words_of :: "blk list \<Rightarrow> int" where "words_of bs = sum_list (map snd bs)"

lemma words_of_simps [simp]:
  "words_of [] = 0" "words_of (b # bs) = snd b + words_of bs" "words_of (xs @ ys) = words_of xs + words_of ys"
  by (simp_all add: words_of_def)

definition spare :: "blk \<Rightarrow> bool" where "spare b \<longleftrightarrow> fst b = Free_blk \<or> fst b = Guard_blk"

text \<open>The blocks in use, with their positions.\<close>

primrec in_use :: "int \<Rightarrow> blk list \<Rightarrow> (int \<times> blk) list" where
  "in_use k [] = []"
| "in_use k (b # bs) = (if spare b then [] else [(k, b)]) @ in_use (k + snd b) bs"

lemma in_use_append [simp]: "in_use k (xs @ ys) = in_use k xs @ in_use (k + words_of xs) ys"
  by (induction xs arbitrary: k) (simp_all add: add.assoc)

lemma in_use_spare [simp]: "list_all spare bs \<Longrightarrow> in_use k bs = []" by (induction bs arbitrary: k) simp_all

lemma tiled_append [simp]: "tiled s k (xs @ ys) \<longleftrightarrow> tiled s k xs \<and> tiled s (k + words_of xs) ys"
  by (induction xs arbitrary: k) (simp_all add: add.assoc)

lemma blk_ok_size: "blk_ok s k b \<Longrightarrow> 0 < snd b \<and> even (snd b)" by (cases "(s, k, b)" rule: blk_ok.cases) auto

lemma tiled_words: "tiled s k bs \<Longrightarrow> 0 \<le> words_of bs \<and> even (words_of bs)"
  by (induction bs arbitrary: k) (auto dest!: blk_ok_size)

lemma blk_ok_cong:
  "\<lbrakk>\<And>j. k \<le> j \<Longrightarrow> j < k + snd b \<Longrightarrow> sw s' j = sw s j; blk_ok s k b\<rbrakk> \<Longrightarrow> blk_ok s' k b"
  by (cases "(s, k, b)" rule: blk_ok.cases) (auto elim: oddE)

lemma tiled_cong:
  "\<lbrakk>\<And>j. k \<le> j \<Longrightarrow> j < k + words_of bs \<Longrightarrow> sw s' j = sw s j; tiled s k bs\<rbrakk> \<Longrightarrow> tiled s' k bs"
proof (induction bs arbitrary: k)
  case (Cons b bs)
  have n: "0 < snd b" "0 \<le> words_of bs" using blk_ok_size [of s k b] tiled_words [of s "k + snd b" bs] Cons.prems(2) by simp_all
  have "blk_ok s' k b" using Cons.prems n by (intro blk_ok_cong [of k b s' s]) auto
  moreover have "tiled s' (k + snd b) bs" using Cons.prems n by (intro Cons.IH) auto
  ultimately show ?case by simp
qed simp

lemma in_use_bounds:
  "\<lbrakk>tiled s k bs; (j, b) \<in> set (in_use k bs)\<rbrakk> \<Longrightarrow> k \<le> j \<and> j + snd b \<le> k + words_of bs \<and> 0 < snd b \<and> \<not> spare b"
proof (induction bs arbitrary: k)
  case (Cons c bs)
  have n: "0 < snd c" "0 \<le> words_of bs"
    using blk_ok_size [of s k c] tiled_words [of s "k + snd c" bs] Cons.prems(1) by simp_all
  show ?case
  proof (cases "j = k \<and> b = c \<and> \<not> spare c")
    case False
    then have "(j, b) \<in> set (in_use (k + snd c) bs)" using Cons.prems(2) by (auto split: if_splits)
    then show ?thesis using Cons.IH [of "k + snd c"] Cons.prems(1) n by auto
  qed (use n in auto)
qed simp

lemma in_use_split: "(j, b) \<in> set (in_use k bs) \<Longrightarrow> \<exists>xs ys. bs = xs @ b # ys \<and> j = k + words_of xs"
proof (induction bs arbitrary: k)
  case (Cons c bs)
  show ?case
  proof (cases "j = k \<and> b = c")
    case True
    then show ?thesis by simp (rule exI [of _ "[]"], simp)
  next
    case False
    then have "(j, b) \<in> set (in_use (k + snd c) bs)" using Cons.prems by (auto split: if_splits)
    then obtain xs ys where "bs = xs @ b # ys" "j = k + snd c + words_of xs" using Cons.IH by blast
    then show ?thesis by (intro exI [of _ "c # xs"] exI [of _ ys]) simp
  qed
qed simp

definition used_at :: "int \<Rightarrow> blk list \<Rightarrow> int \<Rightarrow> bool" where
  "used_at k bs i \<longleftrightarrow> (\<exists>(j, b) \<in> set (in_use k bs). j \<le> i \<and> i < j + snd b)"

lemma used_at_append: "used_at k (xs @ ys) i \<longleftrightarrow> used_at k xs i \<or> used_at (k + words_of xs) ys i"
  by (auto simp: used_at_def)

lemma used_at_bounds: "tiled s k bs \<Longrightarrow> used_at k bs i \<Longrightarrow> k \<le> i \<and> i < k + words_of bs"
  by (fastforce simp: used_at_def dest: in_use_bounds)

lemma not_used:
  assumes "tiled s k (xs @ run @ ys)" "list_all spare run" "k + words_of xs \<le> i" "i < k + words_of xs + words_of run"
  shows "\<not> used_at k (xs @ run @ ys) i"
  using assms used_at_bounds [of s k xs i] used_at_bounds [of s "k + words_of xs + words_of run" ys i]
  by (auto simp: used_at_append) (simp add: used_at_def)

text \<open>A scan does not step over a block in use.\<close>

lemma next_boundary:
  assumes "tiled s k (xs @ run @ ys)" "list_all spare run \<or> (\<exists>b. run = [b])" "(j, b) \<in> set (in_use k (xs @ run @ ys))"
    "k + words_of xs < j \<or> list_all spare run \<and> k + words_of xs \<le> j"
  shows "k + words_of xs + words_of run \<le> j"
proof -
  have "(j, b) \<notin> set (in_use k xs)" using in_use_bounds [of s k xs j b] assms by fastforce
  moreover have "(j, b) \<notin> set (in_use (k + words_of xs) run)" using assms(2,4) by (auto split: if_splits)
  ultimately have "(j, b) \<in> set (in_use (k + words_of xs + words_of run) ys)" using assms(3) by auto
  then show ?thesis using in_use_bounds [of s "k + words_of xs + words_of run" ys j b] assms(1) by (auto simp: add.assoc)
qed

section \<open>The loops over blocks\<close>

lemma stk_flags_pos: "stk_flags s (stk_pos k) = flag_bits (sw s k)" by (simp add: stk_flags_def flag_bits_def sw_def)
lemma FSB_size_pos: "FSB_size s (stk_pos k) = sw s (k + 1)" by (simp add: FSB_size_def sw_def)
lemma fx_nextblock_pos: "fx_nextblock s (stk_pos k) = sw s (k + 4)" by (simp add: fx_nextblock_def sw_def)

lemma MAKEFREEBLOCK_ok: "0 < n \<Longrightarrow> even n \<Longrightarrow> MAKEFREEBLOCK p n s = Inr (wr p (block_cell STK_FSB_WORD n) s)"
  by (simp add: MAKEFREEBLOCK_def)
lemma SETUPGUARDBLOCK_ok: "0 < n \<Longrightarrow> even n \<Longrightarrow> SETUPGUARDBLOCK p n s = Inr (wr p (block_cell STK_GUARD_WORD n) s)"
  by (simp add: SETUPGUARDBLOCK_def)

lemma flag_words [simp]:
  "flag_bits STK_FSB_WORD = STK_FSB" "flag_bits STK_GUARD_WORD = STK_GUARD"
  by (simp_all add: flag_bits_def stack_const_defs)

lemma flags_distinct [simp]:
  "STK_FSB \<noteq> STK_GUARD" "STK_GUARD \<noteq> STK_FSB" "STK_FX \<noteq> STK_FSB" "STK_FX \<noteq> STK_GUARD" "STK_BF \<noteq> STK_FSB"
  "STK_BF \<noteq> STK_GUARD" "STK_BF \<noteq> STK_FX" "STK_FSB \<noteq> STK_FX" "STK_GUARD \<noteq> STK_FX"
  by (simp_all add: stack_const_defs)

lemma find_bf_law:
  "\<lbrakk>even d; 0 \<le> d; flag_bits (sw s (k + d)) = STK_BF; \<forall>j \<in> {0..<d}. even j \<longrightarrow> flag_bits (sw s (k + j)) \<noteq> STK_BF\<rbrakk> \<Longrightarrow>
   find_bf s (stk_pos k) = Some (stk_pos (k + d))"
proof (induction "nat d" arbitrary: k d rule: less_induct)
  case less
  show ?case
  proof (cases "d = 0")
    case True
    then show ?thesis using less.prems by (simp add: find_bf.simps stk_flags_pos)
  next
    case False
    then have d: "2 \<le> d" using less.prems(1,2) by presburger
    have "flag_bits (sw s (k + 2 + j)) \<noteq> STK_BF" if "j \<in> {0..<d - 2}" "even j" for j
      using less.prems(4) [rule_format, of "2 + j"] that d by (simp add: add.assoc)
    then have "find_bf s (stk_pos (k + 2)) = Some (stk_pos (k + 2 + (d - 2)))"
      using less.prems d by (intro less.hyps) (auto simp: algebra_simps)
    moreover have "flag_bits (sw s k) \<noteq> STK_BF" using less.prems(4) [rule_format, of 0] d by simp
    ultimately show ?thesis by (subst find_bf.simps) (simp add: stk_flags_pos)
  qed
qed

lemma free_run_law:
  assumes "tiled s (k + f) (run @ rest)" "list_all spare run" "rest \<noteq> [] \<longrightarrow> \<not> spare (hd rest)"
    "k + f + words_of run + words_of rest = e" "flag_bits (sw s e) = STK_GUARD"
    "0 \<le> k" "0 < f" "e < 0x10000"
  shows "free_run s (stk_pos e) (stk_pos k) (word_of_int f) = Some (Inr (word_of_int (f + words_of run)))"
  using assms
proof (induction run arbitrary: f)
  case Nil
  have r: "0 \<le> words_of rest" using tiled_words [of s "k + f" rest] Nil by simp
  then have f: "uint (word_of_int f :: DLword) = f" using Nil by (simp add: uint_word_of_int)
  have "\<not> (flag_bits (sw s (k + f)) = STK_FSB \<or> flag_bits (sw s (k + f)) = STK_GUARD \<and> stk_pos (k + f) < stk_pos e)"
  proof (cases rest)
    case Nil' : Nil
    then show ?thesis using Nil by simp
  next
    case (Cons b bs)
    then have "blk_ok s (k + f) b" "\<not> spare b" using Nil by auto
    then show ?thesis by (cases "(s, k + f, b)" rule: blk_ok.cases) (auto simp: spare_def)
  qed
  moreover have "(word_of_int f :: DLword) \<noteq> 0" using f Nil.prems(7) by auto
  ultimately show ?case using f by (subst free_run.simps) (auto simp: stk_flags_pos Let_def)
next
  case (Cons b run)
  have ok: "blk_ok s (k + f) b" "spare b" and n: "0 < snd b" using Cons.prems(1,2) blk_ok_size [of s "k + f" b] by auto
  have w: "0 \<le> words_of run" "0 \<le> words_of rest" using tiled_words [of s "k + f + snd b" run] tiled_words [of s _ rest] Cons.prems(1) by auto
  have f: "uint (word_of_int f :: DLword) = f" using Cons.prems w n by (simp add: uint_word_of_int)
  have *: "free_run s (stk_pos e) (stk_pos k) (word_of_int (f + snd b)) = Some (Inr (word_of_int (f + snd b + words_of run)))"
    using Cons.prems n by (intro Cons.IH) (auto simp: algebra_simps)
  have size: "sw s (k + f + 1) = word_of_int (snd b)" using ok by (cases "(s, k + f, b)" rule: blk_ok.cases) (auto simp: spare_def)
  have "stk_pos (k + f) < stk_pos e" using Cons.prems w n by (subst stk_pos_less) auto
  then have go: "flag_bits (sw s (k + f)) = STK_FSB \<or> flag_bits (sw s (k + f)) = STK_GUARD \<and> stk_pos (k + f) < stk_pos e"
    using ok by (cases "(s, k + f, b)" rule: blk_ok.cases) (auto simp: spare_def)
  have "(word_of_int f :: DLword) \<noteq> 0" using f Cons.prems(7) by auto
  then show ?case using go f * size
    by (subst free_run.simps) (auto simp: stk_flags_pos FSB_size_pos add.assoc)
qed

section \<open>The state of the stack\<close>

definition base_of :: "stkm \<Rightarrow> int" where "base_of m = uint (stackbase m)"
definition end_of :: "stkm \<Rightarrow> int" where "end_of m = uint (endofstack m)"
definition limit_of :: "stkm \<Rightarrow> int" where "limit_of m = uint (LastStackAddr_word m AND 0xFFFF)"

definition stack_ok :: "stkm \<Rightarrow> blk list \<Rightarrow> bool" where
  "stack_ok m bs \<longleftrightarrow> even (base_of m) \<and> tiled (mv m) (base_of m) bs \<and> base_of m + words_of bs = end_of m \<and>
     flag_bits (sw (mv m) (end_of m)) = STK_GUARD \<and> limit_of m \<le> 0xFF00 \<and>
     uint (nactivepages (sto (mv m))) + limit_of m - end_of m \<le> 0x100000"

text \<open>
  What a step of the search may do: merge, divide or add free blocks. The blocks in use stay where they
  are with the words they hold, and the registers are as they were.
\<close>

definition kept_words :: "int \<Rightarrow> blk list \<Rightarrow> vm \<Rightarrow> vm \<Rightarrow> bool" where
  "kept_words k bs s s' \<longleftrightarrow> (\<forall>i. used_at k bs i \<longrightarrow> sw s' i = sw s i)"

definition rearranged :: "stkm \<Rightarrow> blk list \<Rightarrow> stkm \<Rightarrow> blk list \<Rightarrow> bool" where
  "rearranged m bs m' bs' \<longleftrightarrow> stack_ok m' bs' \<and> stackbase m' = stackbase m \<and>
     LastStackAddr_word m' = LastStackAddr_word m \<and> end_of m \<le> end_of m' \<and> (cp m')\<lparr>st := mv m\<rparr> = cp m \<and>
     in_use (base_of m) bs' = in_use (base_of m) bs \<and> kept_words (base_of m) bs (mv m) (mv m')"

lemma upd_vm_fields [simp]:
  "mv (upd_vm s m) = s" "stackbase (upd_vm s m) = stackbase m" "endofstack (upd_vm s m) = endofstack m"
  "LastStackAddr_word (upd_vm s m) = LastStackAddr_word m" "base_of (upd_vm s m) = base_of m"
  "end_of (upd_vm s m) = end_of m" "limit_of (upd_vm s m) = limit_of m" "cp (upd_vm s m) = (cp m)\<lparr>st := s\<rparr>"
  "CurrentStackPTR (upd_vm s m) = CurrentStackPTR m" "ifp_fx (upd_vm s m) = ifp_fx m"
  by (simp_all add: upd_vm_def mv_def base_of_def end_of_def limit_of_def)

lemma end_range: "0 \<le> base_of m" "0 \<le> end_of m" "end_of m < 0x10000"
  using uint_lt2p [of "stackbase m"] uint_lt2p [of "endofstack m"] by (simp_all add: base_of_def end_of_def)

lemma kept_words_refl [simp]: "kept_words k bs s s" by (simp add: kept_words_def)

lemma kept_words_trans:
  "kept_words k bs s s' \<Longrightarrow> in_use k bs' = in_use k bs \<Longrightarrow> kept_words k bs' s' s'' \<Longrightarrow> kept_words k bs s s''"
  by (simp add: kept_words_def used_at_def)

lemma rearranged_refl: "stack_ok m bs \<Longrightarrow> rearranged m bs m bs" by (simp add: rearranged_def mv_def)

lemma rearranged_trans:
  assumes "rearranged m bs m1 bs1" "rearranged m1 bs1 m2 bs2"
  shows "rearranged m bs m2 bs2"
proof -
  have "(cp m2)\<lparr>st := mv m\<rparr> = ((cp m2)\<lparr>st := mv m1\<rparr>)\<lparr>st := mv m\<rparr>" by simp
  also have "\<dots> = cp m" using assms by (simp add: rearranged_def)
  finally show ?thesis using assms kept_words_trans [of "base_of m" bs "mv m" "mv m1" bs1 "mv m2"]
    by (simp add: rearranged_def base_of_def)
qed

lemma kept_words_wr:
  assumes "even i" "0 \<le> i" "i < 0xFFFF" "\<not> used_at k bs i" "\<not> used_at k bs (i + 1)" "tiled s k bs" "0 \<le> k" "k + words_of bs < 0x10000"
  shows "kept_words k bs s (wr (stk_pos i) c s)"
  unfolding kept_words_def
proof (intro allI impI)
  fix j assume j: "used_at k bs j"
  then have "j \<noteq> i" "j \<noteq> i + 1" "0 \<le> j" "j < 0x10000" using assms used_at_bounds [of s k bs j] by auto
  then show "sw (wr (stk_pos i) c s) j = sw s j" using assms by (simp add: sw_wr)
qed

lemma mem_sto [simp]: "mem (upd_sto f s) = mem s" "sto (upd_sto f s) = f (sto s)" by (simp_all add: upd_sto_def)

lemma sw_PUTFPTOVP: 
  assumes "uint off < 0x1000000" "0 \<le> k" "k < 0x10000"
  shows "sw (PUTFPTOVP off v s) k = sw s k"
proof -
  have "uint (2 * off) = 2 * uint off" using assms(1) by (simp add: uint_word_ariths)
  then have u: "uint (FPTOVP_OFFSET + 2 * off) = 0x20000 + 2 * uint off"
    using assms(1) by (simp add: uint_word_ariths FPTOVP_OFFSET_def)
  have e: "\<not> bit (FPTOVP_OFFSET + 2 * off) 0" by (simp add: FPTOVP_OFFSET_def bit_0)
  have "stk_pos k \<noteq> FPTOVP_OFFSET + 2 * off" using u uint_stk_pos [of k] assms by auto
  moreover have "stk_pos k \<noteq> FPTOVP_OFFSET + 2 * off + 1"
  proof
    assume a: "stk_pos k = FPTOVP_OFFSET + 2 * off + 1"
    have "uint (FPTOVP_OFFSET + 2 * off + 1) = 0x20001 + 2 * uint off"
      using uint_plus [of "FPTOVP_OFFSET + 2 * off" 1] u assms(1) by simp
    moreover have "0 \<le> uint off" by simp
    moreover have "uint (stk_pos k) = 0x10000 + k" using uint_stk_pos [of k] assms by simp
    ultimately show False unfolding a using assms(3) by linarith
  qed
  ultimately show ?thesis using e by (simp add: sw_def PUTFPTOVP_def getword_wr)
qed

text \<open>Only the memory matters.\<close>

lemma sw_mem: "mem s' = mem s \<Longrightarrow> sw s' k = sw s k" by (simp add: sw_def)
lemma tiled_mem: "mem s' = mem s \<Longrightarrow> tiled s' k bs = tiled s k bs"
  using tiled_cong [of k bs s' s] tiled_cong [of k bs s s'] sw_mem [of s' s] by auto


lemma sto_PUTFPTOVP [simp]: "sto (PUTFPTOVP off v s) = sto s" by (simp add: PUTFPTOVP_def wr_def)

lemma newpage_law:
  assumes "uint (nactivepages (sto s)) \<le> 0x100000" "0 \<le> k" "k < 0x10000"
  shows "sw (snd (newpage d b s)) k = sw s k" 
    "uint (nactivepages (sto (snd (newpage d b s)))) \<le> uint (nactivepages (sto s)) + 2"
proof -
  define n where "n = nactivepages (sto s)"
  have n: "uint (n + 1) = uint n + 1" "uint (n + 1 + 1) = uint n + 2"
    using uint_plus [of n 1] uint_plus [of n 2] assms(1) by (simp_all add: n_def add.assoc)
  have two: "uint (2 * (n + 1)) = 2 * uint n + 2" using assms(1) n(1) by (simp add: uint_word_ariths n_def)
  have "uint (FPTOVP_OFFSET + 2 * (n + 1)) = 0x20000 + (2 * uint n + 2)"
    using uint_plus [of FPTOVP_OFFSET "2 * uint n + 2"] two assms(1) by (simp add: n_def FPTOVP_OFFSET_def uint_word_ariths)
  then have "uint (drop_bit 8 (FPTOVP_OFFSET + 2 * (n + 1))) = 0x200 + (2 * uint n + 2) div 256"
    by (simp add: drop_bit_eq_div uint_div)
  then have "uint (drop_bit 8 (FPTOVP_OFFSET + 2 * (n + 1)) - drop_bit 8 FPTOVP_OFFSET) = (2 * uint n + 2) div 256"
    using pos_imp_zdiv_nonneg_iff [of 256 "2 * uint n + 2"]
    by (subst uint_sub_lem [THEN iffD1]) (simp_all add: FPTOVP_OFFSET_def)
  moreover have "uint (ucast (fptovpstart (sto s)) :: 32 word) < 0x10000"
    using uint_lt2p [of "fptovpstart (sto s)"] by (simp add: unsigned_ucast_eq take_bit_int_eq_self)
  ultimately have fp: "uint (ucast (fptovpstart (sto s)) + (drop_bit 8 (FPTOVP_OFFSET + 2 * (n + 1)) - drop_bit 8 FPTOVP_OFFSET)) < 0x1000000"
    using assms(1) by (subst uint_add_lem [THEN iffD1]) (simp_all add: n_def)
  have full: "mem (newpage_full d s1) = mem s1" "nactivepages (sto (newpage_full d s1)) = nactivepages (sto s1)" for s1
    by (simp_all add: newpage_full_def Let_def)
  have small: "uint (n + 1) < 0x1000000" "uint (n + 1 + 1) < 0x1000000" using n assms(1) by (simp_all add: n_def)
  have "sw (newpage_table vp s) k = sw s k" for vp
    unfolding newpage_table_def Let_def n_def [symmetric]
    using small fp assms by (simp add: sw_PUTFPTOVP n_def [symmetric] sw_mem [OF mem_sto(1)] del: drop_bit_eq_div)
  then show "sw (snd (newpage d b s)) k = sw s k"
    by (simp add: newpage_def sw_mem [OF full(1)])
  show "uint (nactivepages (sto (snd (newpage d b s)))) \<le> uint (nactivepages (sto s)) + 2"
    using n by (simp add: newpage_def full newpage_table_def Let_def n_def)
qed

lemma sto_wr [simp]: "sto (wr a c s) = sto s" by (simp add: wr_def)

text \<open>The blocks that are not in use may be replaced by others of the same length.\<close>

lemma rearranged_segment:
  assumes ok: "stack_ok m (xs @ run @ ys)" and sp: "list_all spare run" "list_all spare run'"
    and w: "words_of run' = words_of run" and k: "k = base_of m + words_of xs" and t: "tiled s' k run'"
    and same: "\<And>i. \<lbrakk>0 \<le> i; i < 0x10000; i < k \<or> k + words_of run \<le> i\<rbrakk> \<Longrightarrow> sw s' i = sw (mv m) i"
    and sto: "sto s' = sto (mv m)"
  shows "rearranged m (xs @ run @ ys) (upd_vm s' m) (xs @ run' @ ys)"
proof -
  have tl: "tiled (mv m) (base_of m) xs" "tiled (mv m) (k + words_of run) ys" "tiled (mv m) k run"
    and e: "base_of m + words_of (xs @ run @ ys) = end_of m"
    using ok k by (auto simp: stack_ok_def add.assoc)
  have le: "0 \<le> words_of xs" "0 \<le> words_of ys" "0 \<le> words_of run" using tl tiled_words by blast+
  have "tiled s' (base_of m) xs"
    using le e k end_range [of m] by (intro tiled_cong [OF _ tl(1)] same) auto
  moreover have "tiled s' (k + words_of run) ys"
    using le e k end_range [of m] by (intro tiled_cong [OF _ tl(2)] same) auto
  ultimately have "tiled s' (base_of m) (xs @ run' @ ys)" using t w k by (simp add: add.assoc)
  moreover have "sw s' (end_of m) = sw (mv m) (end_of m)" using le e k end_range [of m] by (intro same) auto
  moreover have "kept_words (base_of m) (xs @ run @ ys) (mv m) s'"
    unfolding kept_words_def
  proof (intro allI impI)
    fix i assume u: "used_at (base_of m) (xs @ run @ ys) i"
    have t0: "tiled (mv m) (base_of m) (xs @ run @ ys)" using ok by (simp add: stack_ok_def)
    have "i < k \<or> k + words_of run \<le> i" using not_used [OF t0 sp(1), of i] u k by (meson not_le)
    moreover have "0 \<le> i" "i < 0x10000" using used_at_bounds [OF t0 u] e end_range [of m] by auto
    ultimately show "sw s' i = sw (mv m) i" by (intro same) auto
  qed
  ultimately show ?thesis
    using ok sp w sto by (simp add: rearranged_def stack_ok_def mv_def)
qed

lemma rearranged_merge:
  assumes "stack_ok m (xs @ run @ ys)" "list_all spare run" "run \<noteq> []" "k = base_of m + words_of xs"
  shows "rearranged m (xs @ run @ ys) (upd_vm (wr (stk_pos k) (block_cell STK_FSB_WORD (words_of run)) (mv m)) m)
    (xs @ [(Free_blk, words_of run)] @ ys)"
    and "0 < words_of run" "even (words_of run)" "even k" "0 \<le> k" "k + words_of run \<le> end_of m"
proof -
  have tl: "tiled (mv m) (base_of m) xs" "tiled (mv m) (k + words_of run) ys" "tiled (mv m) k run"
    and e: "base_of m + words_of (xs @ run @ ys) = end_of m" and b: "even (base_of m)"
    using assms by (auto simp: stack_ok_def add.assoc)
  have le: "0 \<le> words_of xs" "even (words_of xs)" "0 \<le> words_of ys" "even (words_of run)" using tl tiled_words by blast+
  obtain b1 r1 where r: "run = b1 # r1" using assms(3) by (cases run) auto
  have "0 < snd b1" "0 \<le> words_of r1" using tl(3) r blk_ok_size [of "mv m" k b1] tiled_words [of "mv m" "k + snd b1" r1] by auto
  then show n: "0 < words_of run" using r by simp
  show "even (words_of run)" by (rule le(4))
  show ev: "even k" "0 \<le> k" "k + words_of run \<le> end_of m"
    using assms(4) b le e end_range [of m] by auto
  show "rearranged m (xs @ run @ ys) (upd_vm (wr (stk_pos k) (block_cell STK_FSB_WORD (words_of run)) (mv m)) m)
    (xs @ [(Free_blk, words_of run)] @ ys)"
  proof (rule rearranged_segment [OF assms(1,2) _ _ assms(4)])
    show "tiled (wr (stk_pos k) (block_cell STK_FSB_WORD (words_of run)) (mv m)) k [(Free_blk, words_of run)]"
      using n le ev end_range [of m] by (simp add: sw_wr)
    show "sw (wr (stk_pos k) (block_cell STK_FSB_WORD (words_of run)) (mv m)) i = sw (mv m) i"
      if "0 \<le> i" "i < 0x10000" "i < k \<or> k + words_of run \<le> i" for i
      using that n le ev end_range [of m] by (auto simp: sw_wr)
  qed (simp_all add: spare_def)
qed


text \<open>The block that is handed out, with the free blocks around it.\<close>

definition handed_out :: "int \<Rightarrow> int \<Rightarrow> int \<Rightarrow> blk list \<Rightarrow> int \<Rightarrow> bool" where
  "handed_out base n align bs q \<longleftrightarrow>
     (\<exists>xs w r ys. bs = xs @ [(Free_blk, w), (Guard_blk, n), (Free_blk, r)] @ ys \<and> q = base + words_of xs + w \<and>
        MINEXTRASTACKWORDS \<le> w \<and> STACKAREA_SIZE - 2 \<le> r \<and> (align \<in> {0, 2} \<longrightarrow> q mod 4 = align))"

lemma take_block_ok:
  assumes ok: "stack_ok m (xs @ run @ ys)" "list_all spare run" "run \<noteq> []" and k: "k = base_of m + words_of xs"
    and n: "0 < uint n" "even (uint n)" and f: "uint freesize = words_of run"
    and fits: "uint n + STACKAREA_SIZE + MINEXTRASTACKWORDS \<le> words_of run"
  shows "\<exists>q s' bs'. take_block n align (stk_pos k) freesize (mv m) = Inr (Some (stk_pos q), s') \<and>
    rearranged m (xs @ run @ ys) (upd_vm s' m) bs' \<and> handed_out (base_of m) (uint n) align bs' q"
proof -
  note mg = rearranged_merge [OF ok k]
  define w where "w = (if align < 0 \<or> align = k mod 4 then MINEXTRASTACKWORDS else MINEXTRASTACKWORDS + 2)"
  define q where "q = k + w"
  define r where "r = words_of run - w - uint n"
  have w: "w = 32 \<or> w = 34" "even w" by (auto simp: w_def stack_const_defs)
  have r: "STACKAREA_SIZE - 2 \<le> r" "even r" using w fits n(2) mg(3) by (auto simp: r_def stack_const_defs)
  have off: "uint (stk_off (stk_pos k)) = k" using mg end_range [of m] by (intro uint_stk_off) auto
  have qn: "stk_pos k + word_of_int w + ucast n = stk_pos (q + uint n)"
    using stk_pos_plus [of k w] by (simp add: q_def)
  define s1 where "s1 = wr (stk_pos q) (block_cell STK_GUARD_WORD (uint n)) (mv m)"
  define s2 where "s2 = wr (stk_pos k) (block_cell STK_FSB_WORD w) s1"
  define s3 where "s3 = wr (stk_pos (q + uint n)) (block_cell STK_FSB_WORD r) s2"
  have run: "take_block n align (stk_pos k) freesize (mv m) = Inr (Some (stk_pos q), s3)"
    unfolding take_block_def f off w_def [symmetric] Let_def qn r_def [symmetric]
    using fits w n r stk_pos_plus [of k w]
    by (auto simp: SETUPGUARDBLOCK_ok MAKEFREEBLOCK_ok s3_def s2_def s1_def q_def stack_const_defs)
  have pos: "even k" "0 \<le> k" "even q" "0 \<le> q" "k < q" "even (q + uint n)" "q + uint n + 766 \<le> k + words_of run" "k + words_of run < 0x10000"
    using mg w n fits end_range [of m] by (auto simp: q_def stack_const_defs)
  have q: "q < 0x10000" "q + uint n < 0x10000" using pos n(1) by linarith+
  have lens: "uint n < 0x10000" "0 \<le> r" using r pos by (auto simp: stack_const_defs)
  have sw3: "sw s3 i = (if i = q + uint n then STK_FSB_WORD else if i = q + uint n + 1 then word_of_int r
      else if i = k then STK_FSB_WORD else if i = k + 1 then word_of_int w
      else if i = q then STK_GUARD_WORD else if i = q + 1 then n else sw (mv m) i)" if "0 \<le> i" "i < 0x10000" for i
    using that pos q by (simp add: s3_def s2_def s1_def sw_wr)
  have bs: "rearranged m (xs @ run @ ys) (upd_vm s3 m) (xs @ [(Free_blk, w), (Guard_blk, uint n), (Free_blk, r)] @ ys)"
  proof (rule rearranged_segment [OF ok(1,2) _ _ k])
    show "tiled s3 k [(Free_blk, w), (Guard_blk, uint n), (Free_blk, r)]"
      using pos w n r lens by (auto simp: sw3 q_def stack_const_defs flag_bits_def)
    show "sw s3 i = sw (mv m) i" if "0 \<le> i" "i < 0x10000" "i < k \<or> k + words_of run \<le> i" for i
      using that pos n by (auto simp: sw3)
    show "words_of [(Free_blk, w), (Guard_blk, uint n), (Free_blk, r)] = words_of run" by (simp add: r_def)
    show "sto s3 = sto (mv m)" by (simp add: s3_def s2_def s1_def)
  qed (simp add: spare_def)
  have "align \<in> {0, 2} \<longrightarrow> q mod 4 = align"
    using pos(1) by (auto simp: q_def w_def stack_const_defs) presburger+
  then have "handed_out (base_of m) (uint n) align (xs @ [(Free_blk, w), (Guard_blk, uint n), (Free_blk, r)] @ ys) q"
    unfolding handed_out_def using w r k
    by (intro exI [of _ xs] exI [of _ w] exI [of _ r] exI [of _ ys]) (auto simp: q_def stack_const_defs)
  then show ?thesis using run bs by blast
qed

lemma take_block_short:
  assumes "0 < words_of run" "even (words_of run)" "uint freesize = words_of run"
    "words_of run < uint n + STACKAREA_SIZE + MINEXTRASTACKWORDS"
  shows "take_block n align p freesize s = Inr (None, wr p (block_cell STK_FSB_WORD (words_of run)) s)"
  using assms by (simp add: take_block_def MAKEFREEBLOCK_ok)

lemma uint_ucast_DLword [simp]: "uint (ucast w :: 32 word) = uint w" for w :: DLword
  using uint_lt2p [of w] by (simp add: unsigned_ucast_eq take_bit_int_eq_self)

lemma extendstack_law:
  assumes ok: "stack_ok m bs"
  shows "(\<exists>m'. extendstack m = Inr (None, m') \<and> m' = m \<and> limit_of m \<le> end_of m) \<or>
    (\<exists>m'. extendstack m = Inr (Some (stk_pos (end_of m')), m') \<and> end_of m' = end_of m + 256 \<and> end_of m < limit_of m \<and>
       rearranged m bs m' (bs @ [(Free_blk, 2), (Free_blk, 254)]))"
proof (cases "end_of m < limit_of m")
  case False
  moreover have "(ucast (endofstack m) < LastStackAddr_word m AND 0xFFFF) = (end_of m < limit_of m)"
    by (simp add: word_less_def end_of_def limit_of_def)
  ultimately show ?thesis by (simp add: extendstack_def)
next
  case True
  define e where "e = end_of m"
  have less: "ucast (endofstack m) < LastStackAddr_word m AND 0xFFFF"
    using True by (simp add: word_less_def end_of_def limit_of_def)
  have t: "tiled (mv m) (base_of m) bs" "base_of m + words_of bs = e" "even (base_of m)" using ok by (auto simp: stack_ok_def e_def)
  have ev: "even e" using t tiled_words [OF t(1)] by (metis even_add)
  have "e < 0xFF00" using True ok by (simp add: stack_ok_def e_def)
  then have e: "even e" "0 \<le> e" "e + 2 \<le> 0xFF00" using ev end_range [of m] by (auto simp: e_def elim!: evenE)
  have ew: "endofstack m = word_of_int e" by (simp add: e_def end_of_def)
  define m1 where "m1 = (if ucast (endofstack m) > GuardStackAddr_word m AND 0xFFFF \<and> STACKOVERFLOW_word m = NIL
    then upd_vm (upd_sto (\<lambda>w. w\<lparr>PENDINGINTERRUPT_word := ATOM_T\<rparr>) (mv m))
           (m\<lparr>extended_frame := True, int_stackoverflow := True, STACKOVERFLOW_word := ATOM_T\<rparr>) else m)"
  define s0 where "s0 = snd (newpage (dirty_word m1) (STK_OFFSET OR (ucast (endofstack m) + 2)) (mv m1))"
  define s1 where "s1 = wr (stk_pos (e + 2)) (block_cell STK_FSB_WORD 254) s0"
  define s2 where "s2 = wr (stk_pos (e + 256)) (block_cell STK_GUARD_WORD 2) s1"
  define s3 where "s3 = wr (stk_pos e) (block_cell STK_FSB_WORD 2) s2"
  define m' where "m' = upd_vm s3 (m1\<lparr>endofstack := endofstack m + 256\<rparr>)"
  have m1: "mem (mv m1) = mem (mv m)" "nactivepages (sto (mv m1)) = nactivepages (sto (mv m))"
    "(cp m1)\<lparr>st := mv m\<rparr> = cp m" "stackbase m1 = stackbase m" "LastStackAddr_word m1 = LastStackAddr_word m"
    by (auto simp: m1_def mv_def upd_vm_def)
  have at: "stk_at (endofstack m + 2) = stk_pos (e + 2)" "stk_at (endofstack m + 256) = stk_pos (e + 256)" "stk_at (endofstack m) = stk_pos e"
    using e stk_at_of_int [of "e + 2"] stk_at_of_int [of "e + 256"] stk_at_of_int [of e] by (simp_all add: ew)
  have run: "extendstack m = Inr (Some (stk_pos (e + 256)), m')"
    unfolding extendstack_def Let_def m1_def [symmetric] s0_def [symmetric]
    using less by (simp add: at with_vm_def MAKEFREEBLOCK_ok SETUPGUARDBLOCK_ok m'_def s3_def s2_def s1_def upd_vm_def mv_def)
  have "uint (word_of_int (e + 256) :: DLword) = e + 256" using e by (subst uint_word_of_int) simp
  then have e': "end_of m' = e + 256" by (simp add: m'_def ew end_of_def)
  have np: "uint (nactivepages (sto (mv m1))) \<le> 0x100000" using ok True m1(2) by (simp add: stack_ok_def)
  have sw3: "sw s3 i = (if i = e then STK_FSB_WORD else if i = e + 1 then 2
      else if i = e + 256 then STK_GUARD_WORD else if i = e + 257 then 2
      else if i = e + 2 then STK_FSB_WORD else if i = e + 3 then 254 else sw (mv m) i)" if "0 \<le> i" "i < 0x10000" for i
    using that e newpage_law(1) [OF np that] by (simp add: s3_def s2_def s1_def s0_def sw_wr sw_mem [OF m1(1)])
  have "uint (nactivepages (sto s3)) \<le> uint (nactivepages (sto (mv m))) + 2"
    using newpage_law(2) [OF np order_refl] m1(2) by (simp add: s3_def s2_def s1_def s0_def)
  moreover have "tiled s3 (base_of m) bs" 
    using t e end_range [of m] tiled_words [OF t(1)] by (intro tiled_cong [OF _ t(1)]) (simp add: sw3)
  moreover have "tiled s3 e [(Free_blk, 2), (Free_blk, 254)]" "flag_bits (sw s3 (e + 256)) = STK_GUARD"
    using e by (simp_all add: sw3)
  moreover have f: "base_of m' = base_of m" "limit_of m' = limit_of m" "mv m' = s3" "end_of m = e"
    using m1(4,5) by (simp_all add: m'_def base_of_def limit_of_def e_def)
  ultimately have "stack_ok m' (bs @ [(Free_blk, 2), (Free_blk, 254)])" 
    using ok t e' by (auto simp: stack_ok_def)
  moreover have "kept_words (base_of m) bs (mv m) s3"
    unfolding kept_words_def
  proof (intro allI impI)
    fix i assume "used_at (base_of m) bs i"
    then have i: "0 \<le> i" "i < e" using used_at_bounds [OF t(1), of i] t(2) end_range [of m] by auto
    then show "sw s3 i = sw (mv m) i" using e by (simp add: sw3)
  qed
  moreover have "(cp m')\<lparr>st := mv m\<rparr> = cp m" using m1(3) by (simp add: m'_def)
  ultimately have "rearranged m bs m' (bs @ [(Free_blk, 2), (Free_blk, 254)])"
    using f e' m1(4,5) by (simp add: rearranged_def m'_def spare_def)
  then show ?thesis using True run e' by (auto simp: e_def)
qed

section \<open>The search\<close>

definition search_result :: "stkm \<Rightarrow> blk list \<Rightarrow> int \<Rightarrow> int \<Rightarrow> LispPTR option \<Rightarrow> stkm \<Rightarrow> bool" where
  "search_result m bs n align r m' \<longleftrightarrow>
     (\<exists>bs'. rearranged m bs m' bs' \<and>
        (case r of None \<Rightarrow> limit_of m' \<le> end_of m'
         | Some p \<Rightarrow> \<exists>q. p = stk_pos q \<and> handed_out (base_of m') n align bs' q))"

lemma search_result_trans: "rearranged m bs m1 bs1 \<Longrightarrow> search_result m1 bs1 n align r m' \<Longrightarrow> search_result m bs n align r m'"
  unfolding search_result_def using rearranged_trans by blast

lemma scan_block_law:
  assumes ok: "stack_ok m (xs @ b # ys)" and k: "k = base_of m + words_of xs" "k < end_of m"
  shows "scan_block (Some p0) (stk_pos (end_of m)) (stk_pos k) m =
    (if spare b then Free_at (stk_pos k)
     else if stk_pos (k + snd b) \<noteq> p0 then Scan_at (stk_pos (k + snd b)) else New_page)"
proof -
  have b: "blk_ok (mv m) k b" and w: "0 \<le> words_of xs" "0 \<le> words_of ys" and e: "k + snd b + words_of ys = end_of m"
    using ok k tiled_words [of "mv m"] by (auto simp: stack_ok_def)
  have lt: "stk_pos k < stk_pos (end_of m)" using k w end_range [of m] by (subst stk_pos_less) auto
  show ?thesis using b
  proof (cases "(mv m, k, b)" rule: blk_ok.cases)
    case (3 s k' n)
    have "0 \<le> k + n" "k + n < 0x10000" using e w k end_range [of m] b 3 by auto
    then show ?thesis using b 3 stk_at_of_int [of "k + n"]
      by (auto simp: scan_block_def stk_flags_pos spare_def Let_def fx_nextblock_pos)
  next
    case (4 s k' n)
    have c: "0 < n" "even n" "flag_bits (sw (mv m) (k + n - 2)) = STK_BF"
      "\<forall>j \<in> {0..<n - 2}. even j \<longrightarrow> flag_bits (sw (mv m) (k + j)) \<noteq> STK_BF"
      "flag_bits (sw (mv m) k) \<noteq> STK_FSB" "flag_bits (sw (mv m) k) \<noteq> STK_GUARD" "flag_bits (sw (mv m) k) \<noteq> STK_FX"
      using b 4 by simp_all
    have "2 \<le> n" using c(1,2) by presburger
    then have "find_bf (mv m) (stk_pos k) = Some (stk_pos (k + (n - 2)))"
      using c by (intro find_bf_law) (simp_all add: add_diff_eq)
    then show ?thesis using c(5-7) 4 by (auto simp: scan_block_def stk_flags_pos spare_def Let_def)
  qed (use lt in \<open>auto simp: scan_block_def stk_flags_pos spare_def Let_def\<close>)
qed

lemma scan_end:
  assumes "stack_ok m bs"
  shows "scan_block (Some p0) (stk_pos (end_of m)) (stk_pos (end_of m)) m = Scan_at (stk_pos (base_of m))"
  using assms by (simp add: scan_block_def stack_ok_def stk_flags_pos Let_def stk_at_pos base_of_def)

text \<open>The free run at a spare block.\<close>

lemma free_run_at:
  assumes ok: "stack_ok m (xs @ run @ ys)" "list_all spare run" "run \<noteq> []" "ys \<noteq> [] \<longrightarrow> \<not> spare (hd ys)"
    and k: "k = base_of m + words_of xs"
  shows "free_run (mv m) (stk_pos (end_of m)) (stk_pos k) (FSB_size (mv m) (stk_pos k)) = Some (Inr (word_of_int (words_of run)))"
proof -
  obtain b r where run: "run = b # r" using ok(3) by (cases run) auto
  have t: "blk_ok (mv m) k b" "tiled (mv m) (k + snd b) (r @ ys)" "0 \<le> words_of xs"
    and e: "k + snd b + words_of r + words_of ys = end_of m" "flag_bits (sw (mv m) (end_of m)) = STK_GUARD"
    using ok k run tiled_words [of "mv m" "base_of m" xs] by (auto simp: stack_ok_def add.assoc)
  have "sw (mv m) (k + 1) = word_of_int (snd b)" "0 < snd b"
    using t(1) ok(2) run blk_ok_size [OF t(1)] by (cases "(mv m, k, b)" rule: blk_ok.cases; auto simp: spare_def)+
  then show ?thesis
    using free_run_law [OF t(2), of "end_of m"] ok run e k t(3) end_range [of m] by (simp add: FSB_size_pos)
qed


text \<open>The distance of a scan from the frame at which it started.\<close>

definition scan_left :: "stkm \<Rightarrow> int \<Rightarrow> int \<Rightarrow> nat" where
  "scan_left m k0 k = nat (if k < k0 then k0 - k else (end_of m - k) + 1 + (k0 - base_of m))"

definition boundary :: "stkm \<Rightarrow> blk list \<Rightarrow> int \<Rightarrow> bool" where
  "boundary m bs k \<longleftrightarrow> (\<exists>xs ys. bs = xs @ ys \<and> k = base_of m + words_of xs)"

text \<open>
  One step: the search ends, asks for a new page, or goes on at a block that is nearer to the start.
\<close>

lemma scan_step_law:
  assumes ok: "stack_ok m bs" and k: "boundary m bs k" and k0: "(k0, b0) \<in> set (in_use (base_of m) bs)" "base_of m < k0"
    and n: "0 < uint n" "even (uint n)" "uint n < 0x8000"
  shows "(\<exists>m1 bs1 k1. fsb_step n align (Some (stk_pos k0)) (stk_pos (end_of m)) (stk_pos k) m = Again (stk_pos (end_of m)) (stk_pos k1) m1 \<and>
      rearranged m bs m1 bs1 \<and> end_of m1 = end_of m \<and> boundary m1 bs1 k1 \<and> scan_left m k0 k1 < scan_left m k0 k) \<or>
    (\<exists>r m1. fsb_step n align (Some (stk_pos k0)) (stk_pos (end_of m)) (stk_pos k) m = Done (Inr (r, m1)) \<and>
      search_result m bs (uint n) align r m1) \<or>
    (\<exists>m1 bs1. fsb_step n align (Some (stk_pos k0)) (stk_pos (end_of m)) (stk_pos k) m = fsb_new_page (Some (stk_pos k0)) m1 \<and>
      rearranged m bs m1 bs1 \<and> end_of m1 = end_of m)"
proof -
  obtain xs zs where xs: "bs = xs @ zs" "k = base_of m + words_of xs" using k by (auto simp: boundary_def)
  have t: "tiled (mv m) (base_of m) bs" and e: "base_of m + words_of bs = end_of m" using ok by (auto simp: stack_ok_def)
  have w: "0 \<le> words_of xs" "0 \<le> words_of zs" using t xs tiled_words [of "mv m"] by auto
  have b0: "base_of m \<le> k0" "k0 < end_of m" using in_use_bounds [OF t k0(1)] e by auto
  show ?thesis
  proof (cases zs)
    case Nil
    then have "k = end_of m" using xs e by simp
    moreover have "boundary m bs (base_of m)" unfolding boundary_def by (intro exI [of _ "[]"] exI [of _ bs]) simp
    moreover have "scan_left m k0 (base_of m) < scan_left m k0 (end_of m)"
      using b0 k0(2) by (simp add: scan_left_def)
    ultimately show ?thesis
      using scan_end [OF ok, of "stk_pos k0"] rearranged_refl [OF ok] by (auto simp: fsb_step_def)
  next
    case (Cons b ys)
    show ?thesis
    proof (cases "spare b")
      case False
      have n: "0 < snd b" using t xs Cons blk_ok_size [of "mv m" k b] by simp
      have len: "k + snd b \<le> end_of m" using e xs Cons t tiled_words [of "mv m" "k + snd b" ys] by auto
      have sb: "scan_block (Some (stk_pos k0)) (stk_pos (end_of m)) (stk_pos k) m =
          (if stk_pos (k + snd b) \<noteq> stk_pos k0 then Scan_at (stk_pos (k + snd b)) else New_page)"
        using scan_block_law [of m xs b ys k "stk_pos k0"] ok xs Cons False n len by simp
      have bd: "boundary m bs (k + snd b)"
        unfolding boundary_def using xs Cons by (intro exI [of _ "xs @ [b]"] exI [of _ ys]) simp
      have "scan_left m k0 (k + snd b) < scan_left m k0 k" if "k + snd b \<noteq> k0"
      proof (cases "k < k0")
        case True
        then have "k + snd b \<le> k0" using next_boundary [of "mv m" "base_of m" xs "[b]" ys k0 b0] t xs Cons k0 by auto
        then show ?thesis using True that n by (simp add: scan_left_def)
      qed (use n len b0 in \<open>simp add: scan_left_def\<close>)
      then show ?thesis
        using sb bd rearranged_refl [OF ok] by (cases "k + snd b = k0") (auto simp: fsb_step_def split: if_splits)
    next
      case True
      define run where "run = takeWhile spare zs"
      define rest where "rest = dropWhile spare zs"
      have zs: "zs = run @ rest" by (simp add: run_def rest_def)
      have run: "list_all spare run" "run \<noteq> []" "rest \<noteq> [] \<longrightarrow> \<not> spare (hd rest)"
        using True Cons hd_dropWhile [of spare zs] by (auto simp: run_def rest_def list_all_iff dest: set_takeWhileD)
      have ok': "stack_ok m (xs @ run @ rest)" using ok xs zs by simp
      note mg = rearranged_merge [OF ok' run(1,2) xs(2)]
      have "k < end_of m" using mg by auto
      then have sb: "scan_block (Some (stk_pos k0)) (stk_pos (end_of m)) (stk_pos k) m = Free_at (stk_pos k)"
        using scan_block_law [of m xs b ys k "stk_pos k0"] ok xs Cons True by simp
      have size: "uint (word_of_int (words_of run) :: DLword) = words_of run"
        using mg end_range [of m] by (subst uint_word_of_int) auto
      have fr: "free_run (mv m) (stk_pos (end_of m)) (stk_pos k) (FSB_size (mv m) (stk_pos k)) = Some (Inr (word_of_int (words_of run)))"
        by (rule free_run_at [OF ok' run xs(2)])
      show ?thesis
      proof (cases "uint n + STACKAREA_SIZE + MINEXTRASTACKWORDS \<le> words_of run")
        case True
        obtain q s' bs' where "take_block n align (stk_pos k) (word_of_int (words_of run)) (mv m) = Inr (Some (stk_pos q), s')"
          "rearranged m bs (upd_vm s' m) bs'" "handed_out (base_of m) (uint n) align bs' q"
          using take_block_ok [OF ok' run(1,2) xs(2) n(1,2) size True, of align] xs zs by auto
        then show ?thesis using sb fr
          by (intro disjI2 disjI1) (auto simp: fsb_step_def fsb_free_scan_def search_result_def)
      next
        case False
        define m1 where "m1 = upd_vm (wr (stk_pos k) (block_cell STK_FSB_WORD (words_of run)) (mv m)) m"
        define bs1 where "bs1 = xs @ [(Free_blk, words_of run)] @ rest"
        have tb: "take_block n align (stk_pos k) (word_of_int (words_of run)) (mv m) = Inr (None, mv m1)"
          using take_block_short [OF mg(2,3) size] False by (simp add: m1_def)
        have m1: "rearranged m bs m1 bs1" "end_of m1 = end_of m" using mg(1) xs zs by (simp_all add: m1_def bs1_def)
        have bd: "boundary m1 bs1 (k + words_of run)"
          unfolding boundary_def using xs by (intro exI [of _ "xs @ [(Free_blk, words_of run)]"] exI [of _ rest]) (simp add: bs1_def m1_def)
        have "scan_left m k0 (k + words_of run) < scan_left m k0 k" if "k + words_of run \<noteq> k0"
        proof (cases "k < k0")
          case True
          then have "k + words_of run \<le> k0"
            using next_boundary [of "mv m" "base_of m" xs run rest k0 b0] t xs zs k0 run(1) by auto
          then show ?thesis using True that mg(2) by (simp add: scan_left_def)
        qed (use mg b0 in \<open>simp add: scan_left_def\<close>)
        moreover have "stk_pos k + ucast (word_of_int (words_of run) :: DLword) = stk_pos (k + words_of run)" using size by simp
        moreover have "upd_vm (mv m1) m = m1" by (simp add: m1_def upd_vm_def mv_def)
        ultimately show ?thesis using sb fr tb m1 bd
          by (cases "k + words_of run = k0") (auto simp: fsb_step_def fsb_free_scan_def Let_def split: if_splits)
      qed
    qed
  qed
qed


lemma scan_left_bound: "k0 < 0x10000 \<Longrightarrow> 0 \<le> k \<Longrightarrow> scan_left m k0 k < 0x40000"
  using end_range [of m] by (auto simp: scan_left_def)

lemma boundary_range: "stack_ok m bs \<Longrightarrow> boundary m bs k \<Longrightarrow> 0 \<le> k \<and> k \<le> end_of m"
proof -
  assume ok: "stack_ok m bs" and "boundary m bs k"
  then obtain xs ys where xs: "bs = xs @ ys" "k = base_of m + words_of xs" by (auto simp: boundary_def)
  then have "0 \<le> words_of xs" "0 \<le> words_of ys" "k + words_of ys = end_of m"
    using ok tiled_words [of "mv m" "base_of m" xs] tiled_words [of "mv m" "base_of m + words_of xs" ys]
    by (auto simp: stack_ok_def)
  then show ?thesis using xs end_range [of m] by simp
qed

lemma in_use_boundary: "(j, b) \<in> set (in_use (base_of m) bs) \<Longrightarrow> boundary m bs j"
  using in_use_split unfolding boundary_def by blast

text \<open>A search ends: on the way round it comes nearer, and the stack can only grow to its limit.\<close>

lemma fsb_scan_law:
  assumes "stack_ok m bs" "boundary m bs k" "(k0, b0) \<in> set (in_use (base_of m) bs)" "base_of m < k0"
    "0 < uint n" "even (uint n)" "uint n < 0x8000"
  shows "\<exists>r m'. fsb_scan n align (Some (stk_pos k0)) (stk_pos (end_of m)) (stk_pos k) m = Some (Inr (r, m')) \<and>
    search_result m bs (uint n) align r m'"
  using assms
proof (induction "nat (limit_of m - end_of m) * 0x40000 + scan_left m k0 k" arbitrary: m bs k rule: less_induct)
  case less
  have keep: "limit_of m1 = limit_of m" "base_of m1 = base_of m" "stack_ok m1 bs1" "(k0, b0) \<in> set (in_use (base_of m1) bs1)"
    if "rearranged m bs m1 bs1" for m1 bs1
    using that less.prems(3) by (auto simp: rearranged_def limit_of_def base_of_def)
  consider (again) m1 bs1 k1 where
      "fsb_step n align (Some (stk_pos k0)) (stk_pos (end_of m)) (stk_pos k) m = Again (stk_pos (end_of m)) (stk_pos k1) m1"
      "rearranged m bs m1 bs1" "end_of m1 = end_of m" "boundary m1 bs1 k1" "scan_left m k0 k1 < scan_left m k0 k"
    | (ends) r m1 where "fsb_step n align (Some (stk_pos k0)) (stk_pos (end_of m)) (stk_pos k) m = Done (Inr (r, m1))"
      "search_result m bs (uint n) align r m1"
    | (page) m1 bs1 where
      "fsb_step n align (Some (stk_pos k0)) (stk_pos (end_of m)) (stk_pos k) m = fsb_new_page (Some (stk_pos k0)) m1"
      "rearranged m bs m1 bs1" "end_of m1 = end_of m"
    using scan_step_law [OF less.prems, of align] by blast
  then show ?case
  proof cases
    case again
    have "scan_left m1 k0 k1 = scan_left m k0 k1" using again(3) keep(2) [OF again(2)] by (simp add: scan_left_def)
    then have "\<exists>r m'. fsb_scan n align (Some (stk_pos k0)) (stk_pos (end_of m1)) (stk_pos k1) m1 = Some (Inr (r, m')) \<and>
        search_result m1 bs1 (uint n) align r m'"
      using again(3-5) keep [OF again(2)] less.prems by (intro less.hyps) simp_all
    then show ?thesis
      using again(1,3) search_result_trans [OF again(2)] by (subst fsb_scan.simps) auto
  next
    case ends
    then show ?thesis by (auto simp: fsb_scan.simps)
  next
    case page
    note k1 = keep [OF page(2)]
    consider (full) "extendstack m1 = Inr (None, m1)" "limit_of m1 \<le> end_of m1"
      | (more) m2 where "extendstack m1 = Inr (Some (stk_pos (end_of m2)), m2)" "end_of m2 = end_of m1 + 256"
        "end_of m1 < limit_of m1" "rearranged m1 bs1 m2 (bs1 @ [(Free_blk, 2), (Free_blk, 254)])"
      using extendstack_law [OF k1(3)] by blast
    then show ?thesis
    proof cases
      case full
      then show ?thesis using page by (auto simp: fsb_scan.simps fsb_new_page_def search_result_def)
    next
      case more
      let ?bs2 = "bs1 @ [(Free_blk, 2), (Free_blk, 254)]"
      have r: "rearranged m bs m2 ?bs2" by (rule rearranged_trans [OF page(2) more(4)])
      note k2 = keep [OF r]
      have b: "boundary m2 ?bs2 k0" by (rule in_use_boundary [OF k2(4)])
      have k0: "0 \<le> k0" "k0 < 0x10000" using boundary_range [OF k2(3) b] end_range [of m2] by auto
      have "nat (limit_of m2 - end_of m2) < nat (limit_of m - end_of m)" using more page(3) k1 k2 by simp
      then have "nat (limit_of m2 - end_of m2) * 0x40000 + scan_left m2 k0 k0 < nat (limit_of m - end_of m) * 0x40000 + scan_left m k0 k"
        using scan_left_bound [of k0 k0 m2] k0 by linarith
      then have "\<exists>r m'. fsb_scan n align (Some (stk_pos k0)) (stk_pos (end_of m2)) (stk_pos k0) m2 = Some (Inr (r, m')) \<and>
          search_result m2 ?bs2 (uint n) align r m'"
        using k2 b less.prems by (intro less.hyps) simp_all
      then show ?thesis using page(1) more(1) search_result_trans [OF r]
        by (subst fsb_scan.simps) (auto simp: fsb_new_page_def scan_start_def)
    qed
  qed
qed

text \<open>
  C25. \<open>freestackblock\<close>, started at a frame, always ends with an answer. Every frame and basic
  frame keeps its place and its words, the registers are unchanged and the stack is tiled as before;
  the block handed out is a guard block of the size asked for, with the alignment asked for, that
  lies between free blocks of at least 32 and 766 words. There is no block only when the stack has
  grown to its limit.
\<close>

theorem freestackblock_allocates:
  assumes "stack_ok m bs" "(k0, (Frame_blk, fsize)) \<in> set (in_use (base_of m) bs)" "base_of m < k0"
    and "0 < uint n" "even (uint n)" "uint n < 0x8000"
  shows "\<exists>r m'. freestackblock n (Some (stk_pos k0)) align m = Inr (r, m') \<and> search_result m bs (uint n) align r m'"
proof -
  have "even n" using assms(5) bit_uint_iff [of n 0] by (simp add: bit_0)
  have "stk_at (endofstack m) = stk_pos (end_of m)" by (simp add: stk_at_pos end_of_def)
  then show ?thesis
    using fsb_scan_law [OF assms(1) in_use_boundary [OF assms(2)] assms(2-6), of align] \<open>even n\<close>
    by (auto simp: freestackblock_def scan_start_def)
qed

section \<open>A small stack\<close>

text \<open>An argument block of 2 words, a frame of 20 words and 2000 free words, from offset \<open>0x100\<close>.\<close>

definition vm_stk :: vm where
  "vm_stk = vm_ops\<lparr>mem := (\<lambda>_. 0)(0x10100 := 0x80000100, 0x10102 := 0xC0000000, 0x10106 := 0x01160000,
     0x10116 := 0xA00007D0, 0x108E6 := 0xE0000002), sto := (sto vm_ops)\<lparr>nactivepages := 1\<rparr>\<rparr>"

definition stk_stk :: stkm where
  "stk_stk = \<lparr>cp = (cpu_ops 0)\<lparr>st := vm_stk, PVAR := 0x1010C\<rparr>, CurrentStackPTR = 0x10114, ifp_fx = (\<lambda>_. 0),
     stackbase = 0x100, endofstack = 0x8E6, LastStackAddr_word = 0x1FF00, GuardStackAddr_word = 0x1FE00,
     STACKOVERFLOW_word = NIL, int_stackoverflow = False, extended_frame = False, dirty_word = 0\<rparr>"

definition blocks_stk :: "blk list" where "blocks_stk = [(Args_blk, 2), (Frame_blk, 20), (Free_blk, 2000)]"

lemma stk_stk_fields:
  "mv stk_stk = vm_stk" "base_of stk_stk = 0x100" "end_of stk_stk = 0x8E6" "limit_of stk_stk = 0xFF00"
  by (simp_all add: stk_stk_def mv_def base_of_def end_of_def limit_of_def)

lemma sw_stk:
  "sw vm_stk 256 = 0x8000" "sw vm_stk 258 = 0xC000" "sw vm_stk 262 = 0x116" "sw vm_stk 278 = 0xA000"
  "sw vm_stk 279 = 0x7D0" "sw vm_stk 0x8E6 = 0xE000"
  by (simp_all add: sw_def stk_pos_def STK_OFFSET_def vm_stk_def getword_def cell_of_def hi_word_def lo_word_def)

lemma stack_ok_stk: "stack_ok stk_stk blocks_stk"
  by (simp add: stack_ok_def stk_stk_fields blocks_stk_def sw_stk flag_bits_def stack_const_defs) (simp add: vm_stk_def)

lemma freestackblock_allocates_witness:
  "\<exists>r m'. freestackblock 100 (Some (stk_pos 258)) 2 stk_stk = Inr (r, m') \<and>
     search_result stk_stk blocks_stk 100 2 r m'"
  using freestackblock_allocates [OF stack_ok_stk, of 258 20 100 2]
  by (simp add: stk_stk_fields blocks_stk_def spare_def)

end
