(* ===== verification/GC_Reclaim.thy ===== *)
theory GC_Reclaim
  imports Stack_Blocks
begin

text \<open>
  Reclaiming an object whose count has come to zero: \<open>gcreccell\<close> of \<open>src/gcrcell.c\<close>,
  \<open>reclaimarrayblock\<close> and \<open>reclaimstackp\<close> of \<open>src/gcfinal.c\<close>, and
  \<open>src/gccode.c\<close>. Definitions.
\<close>

section \<open>Code blocks\<close>

definition ENDOFX :: "32 word" where "ENDOFX = 0"
definition GCONST :: "32 word" where "GCONST = 111"
definition LONGEST_OPCODE :: nat where "LONGEST_OPCODE = 5"
definition UFNTBL_OFFSET :: LispPTR where "UFNTBL_OFFSET = 0x140C00"

text \<open>The initial lengths of the opcodes' operands; 9 marks an unknown opcode.\<close>

definition oplength_init :: "nat list" where
  "oplength_init =
    [0, 0, 0, 0, 0, 1, 4, 2, 4, 4, 4, 4, 4, 5, 0, 0, 0, 2, 0, 0, 1, 1, 0, 4, 0, 0, 0, 0, 0, 0, 1, 0,
     0, 0, 0, 1, 2, 9, 0, 0, 9, 9, 9, 9, 0, 0, 0, 0, 1, 1, 1, 1, 0, 0, 0, 0, 1, 1, 0, 0, 1, 1, 0, 0,
     0, 0, 0, 0, 0, 0, 0, 1, 0, 0, 0, 0, 0, 0, 0, 1, 0, 0, 0, 0, 0, 0, 0, 1, 0, 0, 0, 0, 0, 0, 0, 1,
     4, 0, 1, 1, 0, 0, 0, 4, 0, 0, 0, 0, 1, 1, 2, 4, 9, 0, 0, 0, 0, 0, 0, 0, 1, 1, 0, 0, 0, 2, 0, 4,
     0, 0, 0, 0, 0, 0, 0, 0, 0, 0, 0, 0, 0, 0, 0, 0, 0, 0, 0, 0, 0, 0, 0, 0, 0, 0, 0, 0, 0, 0, 0, 0,
     0, 0, 0, 0, 0, 0, 0, 0, 0, 0, 0, 0, 0, 0, 0, 0, 1, 2, 1, 1, 1, 1, 0, 0, 0, 0, 0, 0, 0, 0, 0, 0,
     1, 1, 0, 4, 0, 1, 1, 0, 1, 1, 2, 9, 0, 1, 1, 2, 0, 0, 0, 0, 0, 0, 0, 0, 0, 0, 0, 0, 0, 1, 1, 0,
     0, 0, 0, 0, 0, 0, 0, 0, 0, 0, 0, 0, 1, 1, 0, 0, 0, 0, 0, 0, 0, 0, 0, 0, 1, 0, 1, 1, 0, 0, 0, 0]"

definition fn_framename :: "vm \<Rightarrow> LispPTR \<Rightarrow> LispPTR" where "fn_framename s fn = rd s (fn + 4) AND POINTERMASK"

text \<open>\<open>Get_code_BYTE\<close> and four of them.\<close>

definition code_byte :: "vm \<Rightarrow> 32 word \<Rightarrow> 32 word" where "code_byte s pc = ucast (getbyte (mem s) 0 pc)"
definition code_cell :: "vm \<Rightarrow> 32 word \<Rightarrow> 32 word" where
  "code_cell s pc = push_bit 24 (code_byte s pc) OR push_bit 16 (code_byte s (pc + 1)) OR
     push_bit 8 (code_byte s (pc + 2)) OR code_byte s (pc + 3)"

definition ufn_byte_num :: "vm \<Rightarrow> 32 word \<Rightarrow> nat" where
  "ufn_byte_num s opnum = unat (drop_bit 8 (rd s (UFNTBL_OFFSET + 2 * opnum)) AND 0xFF)"

text \<open>The length of an opcode; that of an unknown one is taken from the UFN table and remembered.\<close>

definition op_length :: "32 word \<Rightarrow> vm \<Rightarrow> nat \<times> vm" where
  "op_length opnum s =
     (let len = oplength s ! unat opnum
      in if len > LONGEST_OPCODE
         then (let n = ufn_byte_num s opnum
               in (n, (log_error ''Unrecognized bytecode'' s)\<lparr>oplength := (oplength s)[unat opnum := n]\<rparr>))
         else (len, s))"

partial_function (option) map_code_loop :: "LispPTR \<Rightarrow> refcase \<Rightarrow> 32 word \<Rightarrow> vm \<Rightarrow> vm res option" where
  "map_code_loop codeblock casep pc s =
     (let opnum = code_byte s pc
      in if opnum = ENDOFX then Some (Inr s)
         else case (if opnum = GCONST \<and> code_cell s (pc + 1) \<noteq> codeblock
                    then REC_GCLOOKUP (code_cell s (pc + 1)) casep s else Inr s) of
                Inl e \<Rightarrow> Some (Inl e)
              | Inr s1 \<Rightarrow> map_code_loop codeblock casep (pc + of_nat (fst (op_length opnum s1)) + 1) (snd (op_length opnum s1)))"

declare map_code_loop.simps [code]

definition map_code_pointers :: "LispPTR \<Rightarrow> refcase \<Rightarrow> vm \<Rightarrow> vm res" where
  "map_code_pointers codeblock casep s =
     of_loop_res (map_code_loop codeblock casep (code_base codeblock + fn_startpc s codeblock) s)"

section \<open>The table of closures\<close>

definition Hashingbits :: "LispPTR \<Rightarrow> 32 word" where
  "Hashingbits item = HILOC item XOR (push_bit 3 (LOLOC item AND 0x1FFF) XOR drop_bit 9 (LOLOC item))"
definition Reprobefn :: "32 word \<Rightarrow> 32 word \<Rightarrow> 32 word" where
  "Reprobefn bits index = ((bits XOR drop_bit 8 bits) AND (if 63 > index then index else 63)) OR 1"
definition Fn16bits :: "32 word \<Rightarrow> 32 word \<Rightarrow> 32 word" where "Fn16bits a b = (a + b) AND 0xFFFF"
definition Getikvalue :: "vm \<Rightarrow> LispPTR \<Rightarrow> 32 word \<Rightarrow> LispPTR" where "Getikvalue s base index = rd s (base + push_bit 1 index)"
definition getikkey :: "vm \<Rightarrow> LispPTR \<Rightarrow> LispPTR" where "getikkey s value = rd s value AND POINTERMASK"

text \<open>The search: the place of the key, or \<open>None\<close> at an empty place.\<close>

partial_function (option) ik_probe ::
  "vm \<Rightarrow> LispPTR \<Rightarrow> LispPTR \<Rightarrow> 32 word \<Rightarrow> 32 word \<Rightarrow> 32 word \<Rightarrow> 32 word option option" where
  "ik_probe s item base limits reprobe index =
     (let value = Getikvalue s base index; deleted = Deleted_Implicit_Hash_Slot_word (arr s)
      in if value \<noteq> deleted \<and> value = NIL then Some None
         else if value \<noteq> deleted \<and> item = getikkey s value then Some (Some index)
         else ik_probe s item base limits reprobe (Fn16bits index reprobe AND limits))"

declare ik_probe.simps [code]

definition remimplicitkeyhash :: "LispPTR \<Rightarrow> LispPTR \<Rightarrow> vm \<Rightarrow> (LispPTR \<times> vm) res" where
  "remimplicitkeyhash item table s =
     (let bits = Hashingbits item; limits = ucast (getword (mem s) (table + 2)); base = rd s table;
          deleted = Deleted_Implicit_Hash_Slot_word (arr s)
      in rbind (of_loop (ik_probe s item base limits (Reprobefn bits limits) (bits AND limits))) (\<lambda>r.
         case r of None \<Rightarrow> Inr (NIL, s)
         | Some index \<Rightarrow>
             rbind (REC_GCLOOKUP deleted ADDREF s) (\<lambda>s1.
             rbind (REC_GCLOOKUP (Getikvalue s1 base index) DELREF s1) (\<lambda>s2.
             let s3 = wr (base + push_bit 1 index) deleted s2
             in Inr (T, setword (table + 4) (getword (mem s3) (table + 4) - 1) s3)))))"

definition reclaimcodeblock :: "LispPTR \<Rightarrow> vm \<Rightarrow> (LispPTR \<times> vm) res" where
  "reclaimcodeblock codebase s =
     rbind (if Closure_Cache_Enabled_word (arr s) \<noteq> NIL
            then remimplicitkeyhash codebase (Closure_Cache_word (arr s)) s else Inr (NIL, s)) (\<lambda>(found, s1).
     if found \<noteq> NIL then Inr (T, s1)
     else rbind (REC_GCLOOKUP (fn_framename s1 codebase) DELREF s1) (\<lambda>s2.
          rbind (if fn_startpc s2 codebase \<noteq> 0 then map_code_pointers codebase DELREF s2 else Inr s2) (\<lambda>s3.
          Inr (NIL, s3))))"

section \<open>Array blocks and stack pointers\<close>

definition PTRBLOCK_GCT :: "32 word" where "PTRBLOCK_GCT = 1"
definition CODEBLOCK_GCT :: "32 word" where "CODEBLOCK_GCT = 2"

partial_function (option) reclaim_ptrs :: "LispPTR \<Rightarrow> LispPTR \<Rightarrow> vm \<Rightarrow> vm res option" where
  "reclaim_ptrs btrailer tmpptr s =
     (case REC_GCLOOKUP (rd s tmpptr) DELREF s of
        Inl e \<Rightarrow> Some (Inl e)
      | Inr s1 \<Rightarrow>
          (if tmpptr + 2 \<noteq> btrailer then reclaim_ptrs btrailer (tmpptr + 2) (wr tmpptr NIL s1)
           else Some (Inr (wr tmpptr NIL s1))))"

declare reclaim_ptrs.simps [code]

definition reclaimarrayblock :: "LispPTR \<Rightarrow> vm \<Rightarrow> (LispPTR \<times> vm) res" where
  "reclaimarrayblock ptr s =
     (let base = ptr - 2
      in if HILOC ptr < FIRSTARRAYSEGMENT \<or> ab_password s base \<noteq> ARRAYBLOCKPASSWORD \<or> \<not> ab_inuse s base
         then Inr (T, log_error ''Bad array block reclaimed'' s)
         else
           rbind (if ab_gctype s base = PTRBLOCK_GCT
                  then rbind (of_loop_res (reclaim_ptrs (ptr - 2 + 2 * (ucast (ab_arlen s base) - 1)) ptr s)) (\<lambda>s1. Inr (True, s1))
                  else if ab_gctype s base = CODEBLOCK_GCT
                  then rbind (reclaimcodeblock ptr s) (\<lambda>(r, s1). Inr (r = NIL, s1))
                  else Inr (True, s)) (\<lambda>(reclaim_p, s1).
           if reclaim_p
           then (let (b, s2) = makefreearrayblock base (ab_arlen s1 base) s1
                 in rbind (mergebackward b s2) (\<lambda>(b2, s3).
                    rbind (mergeforward b2 s3) (\<lambda>(_, s4). Inr (T, s4))))
           else Inr (T, s1)))"

definition reclaimstackp :: "LispPTR \<Rightarrow> vm \<Rightarrow> (LispPTR \<times> vm) res" where
  "reclaimstackp ptr s =
     rbind (of_loop_res (decusecount68k (stk_at (getword (mem s) (ptr + 1))) s)) (\<lambda>s1. Inr (NIL, s1))"

section \<open>gcreccell\<close>

text \<open>
  The variables of the loop: the cell at hand, the field to go on with (\<open>None\<close> for \<open>-1\<close>), the chain of
  suspended cells, which is threaded through the cells themselves, and the table of those whose
  field does not fit the four bits of a cdr code. \<open>misses\<close> counts what the full table turned away.
\<close>

definition TODO_LIMIT :: nat where "TODO_LIMIT = 1000"

record greq =
  tmpptr :: LispPTR
  field_index :: "32 word option"
  donext :: LispPTR
  to_do :: "(LispPTR \<times> 32 word) list"
  todo_misses :: nat

definition ADD_TO_DO :: "LispPTR \<Rightarrow> 32 word \<Rightarrow> greq \<Rightarrow> vm \<Rightarrow> greq \<times> vm" where
  "ADD_TO_DO ptr off r s =
     (if length (to_do r) < TODO_LIMIT
      then (r\<lparr>to_do := (ptr, off) # to_do r\<rparr>,
            if ptr AND 0xF0000000 \<noteq> 0 then log_error ''illegal ptr in addtodo'' s else s)
      else (r\<lparr>todo_misses := todo_misses r + 1\<rparr>, s))"

text \<open>\<open>trynext\<close>: the next suspended cell, or the end of the reclamation (\<open>None\<close>).\<close>

definition trynext :: "greq \<Rightarrow> vm \<Rightarrow> (greq option \<times> vm) res" where
  "trynext r s =
     Inr (if donext r \<noteq> NIL
          then Some (r\<lparr>tmpptr := donext r, donext := car_field s (donext r), field_index := Some (cdr_code s (donext r))\<rparr>)
          else case to_do r of
                 [] \<Rightarrow> None
               | (p, off) # rest \<Rightarrow> Some (r\<lparr>tmpptr := p, field_index := Some off, to_do := rest\<rparr>),
          s)"

text \<open>\<open>doval\<close>: an object that became free is taken out of the table and reclaimed next.\<close>

definition doval :: "LispPTR \<Rightarrow> greq \<Rightarrow> vm \<Rightarrow> (greq option \<times> vm) res" where
  "doval v r s =
     (if v \<noteq> NIL then rbind (REC_GCLOOKUP v ADDREF s) (\<lambda>s1. Inr (Some (r\<lparr>tmpptr := v\<rparr>), s1)) else trynext r s)"

definition suspend :: "LispPTR \<Rightarrow> 32 word \<Rightarrow> greq \<Rightarrow> vm \<Rightarrow> greq \<times> vm" where
  "suspend p code r s = (r\<lparr>donext := p\<rparr>, set_code p code (set_car p (donext r) s))"

text \<open>A list cell: its car, then its cdr, then the cell (and its indirect cell) go to the free list.\<close>

definition reclaim_cdr :: "LispPTR \<Rightarrow> 32 word \<Rightarrow> greq \<Rightarrow> vm \<Rightarrow> (greq option \<times> vm) res" where
  "reclaim_cdr p code r s =
     rbind (cdr s p) (\<lambda>d.
     rbind (REC_GCLOOKUPV d DELREF s) (\<lambda>(v, s1).
     rbind (if code \<le> CDR_MAXINDIRECT then freelistcell (p + push_bit 1 (code - CDR_INDIRECT)) s1 else Inr s1) (\<lambda>s2.
     rbind (freelistcell p s2) (\<lambda>s3. doval v (r\<lparr>field_index := None\<rparr>) s3))))"

definition reclaim_listp :: "greq \<Rightarrow> vm \<Rightarrow> (greq option \<times> vm) res" where
  "reclaim_listp r s =
     (let p0 = tmpptr r
      in rbind (if cdr_code s p0 = CDR_INDIRECT
                then rbind (freelistcell p0 s) (\<lambda>s1. Inr (car_field s p0, s1)) else Inr (p0, s)) (\<lambda>(p, s1).
         let code = cdr_code s1 p; r1 = r\<lparr>tmpptr := p\<rparr>
         in if field_index r1 \<noteq> None then reclaim_cdr p code r1 s1
            else rbind (car s1 p) (\<lambda>a.
                 rbind (REC_GCLOOKUPV a DELREF s1) (\<lambda>(v, s2).
                 if v \<noteq> NIL then (let (r2, s3) = suspend p code r1 s2 in doval v r2 s3)
                 else reclaim_cdr p code r1 s2))))"

text \<open>The field of the type's pointer list at which a suspended cell is resumed.\<close>

partial_function (option) resume_field :: "vm \<Rightarrow> 32 word \<Rightarrow> LispPTR \<Rightarrow> LispPTR res option" where
  "resume_field s index ptrfield =
     (case car s ptrfield of
        Inl e \<Rightarrow> Some (Inl e)
      | Inr f \<Rightarrow>
          (if f AND 0xFFFF \<noteq> index
           then (case cdr s ptrfield of Inl e \<Rightarrow> Some (Inl e) | Inr d \<Rightarrow> resume_field s index d)
           else Some (Inr ptrfield)))"

declare resume_field.simps [code]

text \<open>The cell goes on the free list of its type.\<close>

definition addtofreelist :: "LispPTR \<Rightarrow> LispPTR \<Rightarrow> vm \<Rightarrow> vm" where
  "addtofreelist dtd p s = set_dtd_free dtd (p AND POINTERMASK) (wr p (dtd_free s dtd) s)"

text \<open>The loop over the pointer fields of the object \<open>p\<close>, up to the first that frees its value.\<close>

definition drop_field :: "LispPTR \<Rightarrow> LispPTR \<Rightarrow> vm \<Rightarrow> (LispPTR \<times> LispPTR \<times> vm) res" where
  "drop_field p ptrfield s =
     rbind (car s ptrfield) (\<lambda>f.
     rbind (cdr s ptrfield) (\<lambda>rest.
     rbind (REC_GCLOOKUPV (POINTERMASK AND rd s (p + (f AND 0xFFFF))) DELREF s) (\<lambda>(v, s1). Inr (v, rest, s1))))"

definition suspend_object :: "LispPTR \<Rightarrow> LispPTR \<Rightarrow> LispPTR \<Rightarrow> greq \<Rightarrow> vm \<Rightarrow> (greq option \<times> vm) res" where
  "suspend_object p v rest r s =
     rbind (car s rest) (\<lambda>f.
       let code = drop_bit 1 (f AND 0xFFFF);
           (r1, s1) = (if code < 15 then suspend p code r s else ADD_TO_DO p code r s)
       in doval v r1 s1)"

partial_function (option) reclaim_fields ::
  "LispPTR \<Rightarrow> LispPTR \<Rightarrow> LispPTR \<Rightarrow> greq \<Rightarrow> vm \<Rightarrow> (greq option \<times> vm) res option" where
  "reclaim_fields dtd p ptrfield r s =
     (if ptrfield = NIL then Some (doval NIL r (addtofreelist dtd p s))
      else case drop_field p ptrfield s of
             Inl e \<Rightarrow> Some (Inl e)
           | Inr (v, rest, s1) \<Rightarrow>
               (if v = NIL then reclaim_fields dtd p rest r s1
                else if rest = NIL then Some (doval v r (addtofreelist dtd p s1))
                else Some (suspend_object p v rest r s1)))"

declare reclaim_fields.simps [code]

definition reclaim_normal :: "DLword \<Rightarrow> greq \<Rightarrow> vm \<Rightarrow> (greq option \<times> vm) res" where
  "reclaim_normal typ r s =
     (let dtd = GetDTD typ; r1 = r\<lparr>field_index := None\<rparr>
      in rbind (case field_index r of
                  None \<Rightarrow> Inr (dtd_ptrs s dtd)
                | Some i \<Rightarrow> rbind (cdr s (dtd_ptrs s dtd)) (\<lambda>f. of_loop_res (resume_field s (push_bit 1 i) f))) (\<lambda>ptrfield.
         of_loop_res (reclaim_fields dtd (tmpptr r1) ptrfield r1 s)))"

text \<open>The types with a finalisation of their own; \<open>T\<close> says that nothing else is to be done.\<close>

definition finalize :: "DLword \<Rightarrow> LispPTR \<Rightarrow> vm \<Rightarrow> (LispPTR \<times> vm) res" where
  "finalize typ p s =
     (if typ = TYPE_ARRAYBLOCK then reclaimarrayblock p s
      else if typ = TYPE_STACKP then reclaimstackp p s
      else if typ = TYPE_VMEMPAGEP then releasingvmempage p s
      else if TYPE_CODEHUNK1 \<le> typ \<and> typ \<le> TYPE_CODEHUNK10 then reclaimcodeblock p s
      else Inr (NIL, s))"

text \<open>One round at the label \<open>lp\<close>.\<close>

definition gcrec_step :: "greq \<Rightarrow> vm \<Rightarrow> (greq option \<times> vm) res" where
  "gcrec_step r0 s0 =
     (let p = tmpptr r0 AND 0xFFFFFFFE; r = r0\<lparr>tmpptr := p\<rparr>; typ = GetTypeNumber s0 p;
          s = (if p AND 0x0FFF0000 = 0x60000 then log_error ''freeing an old atom??'' s0 else s0)
      in if typ = TYPE_LISTP then reclaim_listp r s
         else rbind (if field_index r = None then finalize typ p s else Inr (NIL, s)) (\<lambda>(ended, s1).
              if ended \<noteq> NIL then trynext r s1 else reclaim_normal typ r s1))"

partial_function (option) gcrec_loop :: "greq \<Rightarrow> vm \<Rightarrow> (nat \<times> vm) res option" where
  "gcrec_loop r s =
     (case gcrec_step r s of
        Inl e \<Rightarrow> Some (Inl e)
      | Inr (None, s1) \<Rightarrow> Some (Inr (todo_misses r, s1))
      | Inr (Some r1, s1) \<Rightarrow> gcrec_loop r1 s1)"

declare gcrec_loop.simps [code]

text \<open>The value of the C function is always \<open>NIL\<close>; here it is the number of misses.\<close>

definition gcreccell :: "LispPTR \<Rightarrow> vm \<Rightarrow> (nat \<times> vm) res" where
  "gcreccell cell s =
     of_loop_res (gcrec_loop \<lparr>tmpptr = cell, field_index = None, donext = NIL, to_do = [], todo_misses = 0\<rparr> s)"

end
