(* ===== verification/GC_Scan.thy ===== *)
theory GC_Scan
  imports GC_Reclaim
begin

text \<open>
  The phases of a collection: \<open>src/gcscan.c\<close> with its opcodes in \<open>src/gc2.c\<close>,
  \<open>src/gcmain3.c\<close> (the stack, the free objects, the stack bits), \<open>dogc01\<close> and
  \<open>doreclaim\<close> of \<open>src/gcr.c\<close>, \<open>src/gcoflow.c\<close> and \<open>OP_gcref\<close> of
  \<open>src/gc.c\<close>. Definitions; what is proved of them is in \<open>GC_Unscan\<close>.
\<close>

section \<open>Scanning the main table\<close>

definition HTMAIN_ENTRY_COUNT :: nat where "HTMAIN_ENTRY_COUNT = 32768"

text \<open>The entry before \<open>probe\<close> that is a link or of an object without references.\<close>

fun gcscan1 :: "gctab \<Rightarrow> nat \<Rightarrow> nat option" where
  "gcscan1 g 0 = None"
| "gcscan1 g (Suc p) =
     (if htmain g p \<noteq> 0 \<and> (bit (htmain g p) 0 \<or> drop_bit 16 (htmain g p) = 0) then Some p else gcscan1 g p)"

text \<open>The entry before \<open>probe\<close> that is a link or has its stack bit on.\<close>

fun gcscan2 :: "gctab \<Rightarrow> nat \<Rightarrow> nat option" where
  "gcscan2 g 0 = None"
| "gcscan2 g (Suc p) = (if htmain g p AND 0x10001 \<noteq> 0 then Some p else gcscan2 g p)"

definition scan_value :: "nat option \<Rightarrow> LispPTR" where
  "scan_value r = (case r of None \<Rightarrow> NIL | Some p \<Rightarrow> of_nat p OR S_POSITIVE)"

definition OP_gcscan1 :: "cpu \<Rightarrow> cpu" where
  "OP_gcscan1 c =
     (let c1 = (if TopOfStack c AND SEGMASK = S_POSITIVE
                then c\<lparr>TopOfStack := scan_value (gcscan1 (gc (st c)) (unat (LOLOC (TopOfStack c))))\<rparr> else c)
      in c1\<lparr>PCMAC := PCMAC c1 + 1\<rparr>)"

definition OP_gcscan2 :: "cpu \<Rightarrow> cpu" where
  "OP_gcscan2 c =
     (let c1 = (if TopOfStack c AND SEGMASK = S_POSITIVE
                then c\<lparr>TopOfStack := scan_value (gcscan2 (gc (st c)) (unat (LOLOC (TopOfStack c))))\<rparr> else c)
      in c1\<lparr>PCMAC := PCMAC c1 + 1\<rparr>)"

text \<open>A reference case as the code has it, a number.\<close>

definition refcase_of :: "32 word \<Rightarrow> refcase option" where
  "refcase_of n = (if n = 0 then Some ADDREF else if n = 1 then Some DELREF else if n = 2 then Some STKREF
                   else if n = 3 then Some UNSTKREF else None)"

definition OP_gcref :: "cpu \<Rightarrow> cpu res" where
  "OP_gcref c =
     (case refcase_of (code_byte (st c) (PCMAC c + 1)) of
        None \<Rightarrow> Inl (Fatal ''gcref: bad case'')
      | Some k \<Rightarrow>
          rbind (GCLOOKUPV (TopOfStack c) k (st c)) (\<lambda>(v, s).
          Inr (c\<lparr>TopOfStack := v, st := s, PCMAC := PCMAC c + 2\<rparr>)))"

section \<open>gcmapscan: reclaim the objects without references\<close>

definition StkCntIsZero :: "32 word \<Rightarrow> bool" where "StkCntIsZero e \<longleftrightarrow> e AND 0xFFFF0000 = 0"
definition StkrefP :: "32 word \<Rightarrow> bool" where "StkrefP e \<longleftrightarrow> e AND 0x10000 \<noteq> 0"
definition SinglerefP :: "32 word \<Rightarrow> bool" where "SinglerefP e \<longleftrightarrow> e AND 0xFFFE0000 = 0x20000"
definition GetSegnuminColl :: "32 word \<Rightarrow> 32 word" where "GetSegnuminColl e = drop_bit 1 (e AND 0xFFFE)"

text \<open>\<open>linkloop\<close>: the first free object of a chain, with the cell before it (0 for none).\<close>

partial_function (option) find_free_link :: "gctab \<Rightarrow> nat \<Rightarrow> nat \<Rightarrow> (nat \<times> nat) option option" where
  "find_free_link g link prev =
     (if StkCntIsZero (htcoll g link) then Some (Some (link, prev))
      else if htcoll g (link + 1) \<noteq> 0 then find_free_link g (unat (htcoll g (link + 1))) link
      else Some None)"

declare find_free_link.simps [code]

definition set_gc :: "gctab \<Rightarrow> vm \<Rightarrow> vm" where "set_gc g s = s\<lparr>gc := g\<rparr>"

datatype 'a scan_next = Retry 'a | Next_entry 'a

text \<open>One round at the label \<open>retry\<close> for the entry \<open>probe\<close>.\<close>

definition mapscan_entry :: "nat \<Rightarrow> vm \<Rightarrow> vm scan_next res" where
  "mapscan_entry probe s =
     (let g = gc s; contents = htmain g probe; at = push_bit 1 (of_nat probe)
      in if bit contents 0
         then rbind (of_loop (find_free_link g (unat (contents AND 0xFFFFFFFE)) 0)) (\<lambda>found.
              case found of None \<Rightarrow> Inr (Next_entry s)
              | Some (link, prev) \<Rightarrow>
                  rbind (gcreccell (VAG2 (GetSegnuminColl (htcoll g link)) at) (set_gc (dellink probe link prev g) s)) (\<lambda>(_, s1).
                  Inr (if htmain (gc s1) probe = 0 then Next_entry s1 else Retry s1)))
         else if StkCntIsZero contents
         then rbind (gcreccell (VAG2 (GetSegnuminColl contents) at) (set_gc (putgc (Main probe) 0 g) s)) (\<lambda>(_, s1).
              Inr (Next_entry s1))
         else Inr (Next_entry s))"

text \<open>The main loop; \<open>again\<close> holds the entry that is looked at once more.\<close>

partial_function (option) mapscan_loop :: "nat \<Rightarrow> nat option \<Rightarrow> vm \<Rightarrow> vm res option" where
  "mapscan_loop probe again s =
     (case (case again of Some p \<Rightarrow> Some p | None \<Rightarrow> gcscan1 (gc s) probe) of
        None \<Rightarrow> Some (Inr s)
      | Some p \<Rightarrow>
          (case mapscan_entry p s of
             Inl e \<Rightarrow> Some (Inl e)
           | Inr (Retry s1) \<Rightarrow> mapscan_loop p (Some p) s1
           | Inr (Next_entry s1) \<Rightarrow> mapscan_loop p None s1))"

declare mapscan_loop.simps [code]

definition gcmapscan :: "vm \<Rightarrow> vm res" where
  "gcmapscan s = of_loop_res (mapscan_loop HTMAIN_ENTRY_COUNT None s)"

section \<open>gcmapunscan: clear the stack bits\<close>

definition clear_stk :: "32 word \<Rightarrow> 32 word" where "clear_stk e = e AND 0xFFFEFFFF"

text \<open>\<open>scnlp\<close>: a chain, up to the first entry that goes away with its stack bit.\<close>

partial_function (option) unscan_chain :: "nat \<Rightarrow> nat \<Rightarrow> nat \<Rightarrow> gctab \<Rightarrow> gctab scan_next option" where
  "unscan_chain probe link prev g =
     (let e = htcoll g link
      in if StkrefP e \<and> SinglerefP e then Some (Retry (dellink probe link prev g))
         else
           (let g1 = (if StkrefP e then putgc (Coll link) (clear_stk e) g else g)
            in if htcoll g1 (link + 1) \<noteq> 0 then unscan_chain probe (unat (htcoll g1 (link + 1))) link g1
               else Some (Next_entry g1)))"

declare unscan_chain.simps [code]

partial_function (option) unscan_entry :: "nat \<Rightarrow> gctab \<Rightarrow> gctab option" where
  "unscan_entry probe g =
     (let contents = htmain g probe
      in if bit contents 0
         then (case unscan_chain probe (unat (contents AND 0xFFFFFFFE)) 0 g of
                 None \<Rightarrow> None
               | Some (Retry g1) \<Rightarrow> unscan_entry probe g1
               | Some (Next_entry g1) \<Rightarrow> Some g1)
         else if StkrefP contents
         then Some (putgc (Main probe) (if drop_bit 17 contents = 1 then 0 else clear_stk contents) g)
         else Some g)"

declare unscan_entry.simps [code]

partial_function (option) unscan_loop :: "nat \<Rightarrow> gctab \<Rightarrow> gctab option" where
  "unscan_loop probe g =
     (case gcscan2 g probe of
        None \<Rightarrow> Some g
      | Some p \<Rightarrow> (case unscan_entry p g of None \<Rightarrow> None | Some g1 \<Rightarrow> unscan_loop p g1))"

declare unscan_loop.simps [code]

definition gcmapunscan :: "gctab \<Rightarrow> gctab res" where
  "gcmapunscan g = of_loop (unscan_loop HTMAIN_ENTRY_COUNT g)"

section \<open>gcscanstack: mark what the stack refers to\<close>

definition Stkref :: "LispPTR \<Rightarrow> vm \<Rightarrow> vm res" where "Stkref p s = REC_GCLOOKUP p STKREF s"
definition BIND_BITS :: "32 word \<Rightarrow> 32 word" where "BIND_BITS v = drop_bit 28 v"
definition BF_FLAGS :: "32 word \<Rightarrow> 32 word" where "BF_FLAGS v = drop_bit 29 v"

definition stkref_bound :: "LispPTR \<Rightarrow> vm \<Rightarrow> vm res" where
  "stkref_bound v s = (if BIND_BITS v = 0 then Stkref v s else Inr s)"

text \<open>The first \<open>n\<close> cells from \<open>p\<close>, and the cells from \<open>p\<close> below \<open>q\<close>.\<close>

primrec scan_pvars :: "nat \<Rightarrow> LispPTR \<Rightarrow> vm \<Rightarrow> vm res" where
  "scan_pvars 0 p s = Inr s"
| "scan_pvars (Suc n) p s = rbind (stkref_bound (rd s p) s) (\<lambda>s1. scan_pvars n (p + 2) s1)"

partial_function (option) scan_temps :: "LispPTR \<Rightarrow> LispPTR \<Rightarrow> vm \<Rightarrow> vm res option" where
  "scan_temps p q s =
     (if p < q
      then (case stkref_bound (rd s p) s of Inl e \<Rightarrow> Some (Inl e) | Inr s1 \<Rightarrow> scan_temps (p + 2) q s1)
      else Some (Inr s))"

declare scan_temps.simps [code]

definition PADDING :: LispPTR where "PADDING = 4"

text \<open>
  A frame: its function, its variables, and its temporaries, around its name table when that is on
  the stack. The answer is the next block.
\<close>

definition scan_frame :: "LispPTR \<Rightarrow> vm \<Rightarrow> (LispPTR \<times> vm) res" where
  "scan_frame fx s =
     (let fnh = fx_fnheader s fx; nxt = stk_at (fx_nextblock s fx); nt = fx_nametable s fx;
          onstk = fx_validnametable s fx \<and> drop_bit 16 nt = ucast STK_HI;
          qtemp = (if onstk then stk_at (lo_word nt) else nxt);
          temps = fx + FRAMESIZE + PADDING + word_of_int (4 * (fn_pv s fnh + 1))
      in rbind (Stkref fnh s) (\<lambda>s1.
         rbind (scan_pvars (unat (fn_nlocals s fnh)) (fx + FRAMESIZE) s1) (\<lambda>s2.
         rbind (if onstk then Stkref (fn_framename s fnh) s2
                else if fx_validnametable s fx then Stkref nt s2 else Inr s2) (\<lambda>s3.
         rbind (of_loop_res (scan_temps temps qtemp s3)) (\<lambda>s4.
         rbind (if onstk
                then of_loop_res (scan_temps (qtemp + FNHEADSIZE + 2 * ucast (fn_ntsize s qtemp)) nxt s4)
                else Inr s4) (\<lambda>s5. Inr (nxt, s5)))))))"

partial_function (option) scan_args :: "LispPTR \<Rightarrow> vm \<Rightarrow> (LispPTR \<times> vm) res option" where
  "scan_args p s =
     (let w = rd s p
      in if BF_FLAGS w = 4 then Some (Inr (p + 2, s))
         else case Stkref (w AND POINTERMASK) s of Inl e \<Rightarrow> Some (Inl e) | Inr s1 \<Rightarrow> scan_args (p + 2) s1)"

declare scan_args.simps [code]

text \<open>One block of the stack: the next one, or \<open>None\<close> at the end.\<close>

definition scan_stack_block :: "LispPTR \<Rightarrow> LispPTR \<Rightarrow> vm \<Rightarrow> (LispPTR option \<times> vm) res" where
  "scan_stack_block scanend p s =
     (let f = stk_flags s p; nxt = p + ucast (FSB_size s p)
      in if f = STK_FX then rbind (scan_frame p s) (\<lambda>(q, s1). Inr (Some q, s1))
         else if f = STK_GUARD then Inr (if p \<ge> scanend then None else Some nxt, s)
         else if f = STK_FSB then Inr (Some nxt, s)
         else rbind (of_loop_res (scan_args p s)) (\<lambda>(q, s1). Inr (Some q, s1)))"

partial_function (option) scan_stack_loop :: "LispPTR \<Rightarrow> LispPTR \<Rightarrow> vm \<Rightarrow> vm res option" where
  "scan_stack_loop scanend p s =
     (if bit p 0 then Some (Inl (Fatal ''Frame ptr not to word bound''))
      else case scan_stack_block scanend p s of
             Inl e \<Rightarrow> Some (Inl e)
           | Inr (None, s1) \<Rightarrow> Some (Inr s1)
           | Inr (Some q, s1) \<Rightarrow> scan_stack_loop scanend q s1)"

declare scan_stack_loop.simps [code]

definition gcscanstack :: "stkm \<Rightarrow> vm res" where
  "gcscanstack m = of_loop_res (scan_stack_loop (stk_at (endofstack m)) (stk_at (stackbase m)) (mv m))"

section \<open>A collection\<close>

definition PushCStack :: "stkm \<Rightarrow> stkm" where "PushCStack m = PushStack (TopOfStack (cp m)) m"
definition PopCStack :: "stkm \<Rightarrow> stkm" where
  "PopCStack m = m\<lparr>cp := (cp m)\<lparr>TopOfStack := rd (mv m) (CurrentStackPTR m)\<rparr>, CurrentStackPTR := CurrentStackPTR m - 2\<rparr>"

text \<open>The space above the current frame becomes a free block, so that the stack is tiled.\<close>

definition gcarrangementstack :: "stkm \<Rightarrow> stkm res" where
  "gcarrangementstack m =
     (let m1 = PushCStack m; csp = CurrentStackPTR m1 + 2;
          s1 = setword (cfx m1 + 4) (lo_word csp) (mv m1)
      in if EndSTKP (cp m1) = csp then Inl (Fatal ''creating 0-long stack block.'')
         else Inr (upd_vm (write_free csp (words_between (EndSTKP (cp m1)) csp) s1) (m1\<lparr>CurrentStackPTR := csp\<rparr>)))"

definition dogc01 :: "stkm \<Rightarrow> stkm res" where
  "dogc01 m =
     rbind (gcarrangementstack m) (\<lambda>m1.
     rbind (gcscanstack m1) (\<lambda>s2.
     rbind (gcmapscan s2) (\<lambda>s3.
     rbind (gcmapunscan (gc s3)) (\<lambda>g4.
     Inr (PopCStack (upd_vm (set_gc g4 s3) m1))))))"

definition set_reclaim_cnt :: "LispPTR \<Rightarrow> vm \<Rightarrow> vm" where "set_reclaim_cnt n s = s\<lparr>gc := (gc s)\<lparr>reclaim_cnt := n\<rparr>\<rparr>"

definition doreclaim :: "stkm \<Rightarrow> stkm res" where
  "doreclaim m =
     (if gc_disabled (gc (mv m)) \<noteq> NIL then Inr m
      else rbind (dogc01 (upd_vm (set_reclaim_cnt NIL (mv m)) m)) (\<lambda>m1.
           Inr (upd_vm (set_reclaim_cnt (reclaim_min (gc (mv m1))) (mv m1)) m1)))"

section \<open>The overflow table of allocations\<close>

definition HTOVERFLOW_OFFSET :: LispPTR where "HTOVERFLOW_OFFSET = 0x170000"

definition Increment_Allocation_Count :: "32 word \<Rightarrow> stkm \<Rightarrow> stkm res" where
  "Increment_Allocation_Count n m =
     (let r = reclaim_cnt (gc (mv m))
      in if r = NIL then Inr m
         else if r > n then Inr (upd_vm (set_reclaim_cnt (r - n) (mv m)) m)
         else doreclaim (upd_vm (set_reclaim_cnt NIL (mv m)) m))"

text \<open>The cells of the overflow table: a case in the top 4 bits and a pointer.\<close>

partial_function (option) htoverflow_loop :: "LispPTR \<Rightarrow> vm \<Rightarrow> vm res option" where
  "htoverflow_loop cell s =
     (let addr = rd s cell AND POINTERMASK
      in if addr = NIL then Some (Inr s)
         else case refcase_of (drop_bit 28 (rd s cell)) of
                None \<Rightarrow> Some (Inl (Fatal ''overflow table: bad case''))
              | Some k \<Rightarrow>
                  (case REC_GCLOOKUP addr k s of
                     Inl e \<Rightarrow> Some (Inl e)
                   | Inr s1 \<Rightarrow> htoverflow_loop (cell + 2) (wr cell 0 s1)))"

declare htoverflow_loop.simps [code]

definition set_dtd_counts :: "LispPTR \<Rightarrow> DLword \<Rightarrow> 32 word \<Rightarrow> vm \<Rightarrow> vm" where
  "set_dtd_counts d cnt0 oldcnt s = wr (d + 12) oldcnt (wr (d + 2) (join_words cnt0 (dtd_size s d)) s)"

definition gc_handleoverflow :: "stkm \<Rightarrow> stkm res" where
  "gc_handleoverflow m =
     rbind (of_loop_res (htoverflow_loop HTOVERFLOW_OFFSET (mv m))) (\<lambda>s1.
     let m1 = upd_vm s1 m; cnt = ucast (dtd_cnt0 s1 ListpDTD)
     in if cnt > 1024
        then rbind (Increment_Allocation_Count cnt m1) (\<lambda>m2.
             Inr (upd_vm (set_dtd_counts ListpDTD 0 (dtd_oldcnt (mv m2) ListpDTD + cnt) (mv m2)) m2))
        else Inr m1)"

text \<open>The loop over the types of \<open>gcmaptable\<close>, for \<open>n\<close> types from \<open>typ\<close>.\<close>

primrec gcmap_types :: "nat \<Rightarrow> DLword \<Rightarrow> stkm \<Rightarrow> stkm res" where
  "gcmap_types 0 typ m = Inr m"
| "gcmap_types (Suc n) typ m =
     (let d = GetDTD typ; cnt = ucast (dtd_cnt0 (mv m) d)
      in rbind (if cnt \<noteq> 0
                then Increment_Allocation_Count cnt
                       (upd_vm (set_dtd_counts d 0 (dtd_oldcnt (mv m) d + cnt) (mv m)) m)
                else Inr m) (\<lambda>m1. gcmap_types n (typ + 1) m1))"

definition gcmaptable :: "nat \<Rightarrow> stkm \<Rightarrow> stkm res" where
  "gcmaptable maxtypenumber m =
     rbind (of_loop_res (htoverflow_loop HTOVERFLOW_OFFSET (mv m))) (\<lambda>s1.
     gcmap_types maxtypenumber 1 (upd_vm s1 m))"

end
