(* ===== verification/GC_Unscan.thy ===== *)
theory GC_Unscan
  imports GC_Scan
begin

text \<open>
  The last phase of a collection: \<open>gcmapunscan\<close> ends, and has cleared the stack bit of every
  object and nothing else.
\<close>

section \<open>Entries\<close>

lemma bit_16_mask: "bit (0x10000 :: 32 word) n \<longleftrightarrow> n = 16"
  using bit_stkmask [of n] by (simp add: HTSTKMASK_def)

lemma and_zero_bits: "x AND k = 0 \<longleftrightarrow> (\<forall>n. \<not> (bit x n \<and> bit k n))" for x k :: "32 word"
proof
  assume "x AND k = 0"
  then have "\<not> bit (x AND k) n" for n by simp
  then show "\<forall>n. \<not> (bit x n \<and> bit k n)" by (simp only: bit_and_iff) simp
next
  assume "\<forall>n. \<not> (bit x n \<and> bit k n)"
  then show "x AND k = 0" by (intro bit_word_eqI) (simp add: bit_and_iff)
qed

lemma StkrefP_hstk: "StkrefP e \<longleftrightarrow> hstk e"
  unfolding StkrefP_def hstk_def and_zero_bits bit_16_mask by blast

lemma SinglerefP_hcount: "SinglerefP e \<longleftrightarrow> hcount e = 1"
proof -
  have b: "bit (0xFFFE0000 :: 32 word) n \<longleftrightarrow> 17 \<le> n \<and> n < 32" for n
    using bit_cntmask [of n] by (simp add: HTCNTMASK_def)
  have m: "e AND 0xFFFE0000 = push_bit 17 (drop_bit 17 e)"
    by (rule bit_word_eqI) (simp only: bit_and_iff b bit_push_bit_iff bit_drop_bit_eq comp_apply, auto)
  have k: "(0x20000 :: 32 word) = push_bit 17 1" by simp
  have "push_bit 17 (drop_bit 17 e) = push_bit 17 1 \<longleftrightarrow> drop_bit 17 e = (1 :: 32 word)"
  proof
    assume a: "push_bit 17 (drop_bit 17 e) = push_bit 17 (1 :: 32 word)"
    have d: "drop_bit 17 (push_bit 17 x) = take_bit 15 x" for x :: "32 word"
      by (rule bit_word_eqI) (auto simp: bit_drop_bit_eq bit_push_bit_iff bit_take_bit_iff)
    have t: "take_bit 15 (drop_bit 17 e) = drop_bit 17 e"
      by (rule bit_word_eqI) (auto simp: bit_drop_bit_eq bit_take_bit_iff dest: bit_imp_le_length)
    show "drop_bit 17 e = 1" using arg_cong [OF a, of "drop_bit 17"] unfolding d t by simp
  qed simp
  then show ?thesis unfolding SinglerefP_def m k hcount_def by (simp add: word_unat_eq_iff)
qed

lemma bit_off_mask: "n < 32 \<Longrightarrow> bit (0xFFFEFFFF :: 32 word) n \<longleftrightarrow> n \<noteq> 16"
proof -
  assume n: "n < 32"
  have "(0xFFFEFFFF :: 32 word) = NOT 0x10000" by simp
  then show ?thesis using n bit_16_mask [of n] by (simp only: bit_not_iff possible_bit_word) auto
qed

lemma bit_clear_stk: "bit (clear_stk e) n \<longleftrightarrow> bit e n \<and> n \<noteq> 16"
  using bit_off_mask [of n] bit_imp_le_length [of e n] by (auto simp: clear_stk_def bit_and_iff)

lemma clear_stk_fields [simp]:
  "hcount (clear_stk e) = hcount e" "\<not> hstk (clear_stk e)" "hhi (clear_stk e) = hhi e" "wf_entry (clear_stk e) = wf_entry e"
proof -
  have "drop_bit 17 (clear_stk e) = drop_bit 17 e"
    by (rule bit_word_eqI) (auto simp: bit_drop_bit_eq bit_clear_stk)
  then show "hcount (clear_stk e) = hcount e" by (simp add: hcount_def)
  show "\<not> hstk (clear_stk e)" by (simp add: hstk_def bit_clear_stk)
  show h: "hhi (clear_stk e) = hhi e"
    unfolding hhi_def by (rule bit_word_eqI) (auto simp: bit_and_iff bit_himask bit_clear_stk)
  have "clear_stk e AND 0xE001 = e AND 0xE001"
    by (rule bit_word_eqI) (auto simp: bit_and_iff bit_clear_stk bit_unused)
  then show "wf_entry (clear_stk e) = wf_entry e" by (simp add: wf_entry_def h)
qed

lemma scan2_cond: "w AND 0x10001 \<noteq> 0 \<longleftrightarrow> bit w 0 \<or> hstk w" for w :: "32 word"
proof -
  have k: "(0x10001 :: 32 word) = 0x10000 OR 1" by simp
  have b: "bit (0x10001 :: 32 word) n \<longleftrightarrow> n = 16 \<or> n = 0" for n
    unfolding k bit_or_iff bit_16_mask by (simp add: bit_1_iff)
  show ?thesis unfolding hstk_def and_zero_bits b by blast
qed

section \<open>What may change\<close>

fun unst :: "32 word option \<Rightarrow> 32 word option" where
  "unst None = None"
| "unst (Some e) = (if hstk e then if hcount e = 1 then None else Some (clear_stk e) else Some e)"

lemma unst_idem [simp]: "unst (unst x) = unst x" by (cases x) auto
lemma unst_no_stk: "unst x = Some e \<Longrightarrow> \<not> hstk e" by (cases x) (auto split: if_splits)

abbreviation lookup :: "gctab \<Rightarrow> nat \<Rightarrow> 32 word \<Rightarrow> 32 word option" where
  "lookup g \<equiv> htlookup (htmain g) (htcoll g)"

definition stks :: "gctab \<Rightarrow> nat \<Rightarrow> 32 word set" where "stks g i = {h. \<exists>e. lookup g i h = Some e \<and> hstk e}"

definition unscanned :: "gctab \<Rightarrow> gctab \<Rightarrow> bool" where
  "unscanned g g' \<longleftrightarrow> ht_ok (htmain g') (htcoll g') \<and> g' = g\<lparr>htmain := htmain g', htcoll := htcoll g'\<rparr> \<and>
     (\<forall>j < HTSLOTS. \<forall>h. lookup g' j h = lookup g j h \<or> lookup g' j h = unst (lookup g j h))"

lemma unscanned_refl: "ht_ok (htmain g) (htcoll g) \<Longrightarrow> unscanned g g" by (simp add: unscanned_def)

lemma unscanned_trans:
  assumes "unscanned g g1" "unscanned g1 g2"
  shows "unscanned g g2"
proof -
  have "lookup g2 j h = lookup g j h \<or> lookup g2 j h = unst (lookup g j h)" if "j < HTSLOTS" for j h
    using assms that unst_idem [of "lookup g j h"] unfolding unscanned_def by metis
  moreover have "g2 = g\<lparr>htmain := htmain g2, htcoll := htcoll g2\<rparr>"
  proof -
    have "g2 = g1\<lparr>htmain := htmain g2, htcoll := htcoll g2\<rparr>" "g1 = g\<lparr>htmain := htmain g1, htcoll := htcoll g1\<rparr>"
      using assms by (simp_all add: unscanned_def)
    then show ?thesis by (metis (no_types, lifting) gctab.surjective gctab.update_convs(1,2))
  qed
  ultimately show ?thesis using assms(2) by (simp add: unscanned_def)
qed

lemma stks_mono: "unscanned g g' \<Longrightarrow> j < HTSLOTS \<Longrightarrow> stks g' j \<subseteq> stks g j"
proof
  fix h assume u: "unscanned g g'" "j < HTSLOTS" and "h \<in> stks g' j"
  then obtain e where e: "lookup g' j h = Some e" "hstk e" by (auto simp: stks_def)
  then have "lookup g' j h \<noteq> unst (lookup g j h)" using unst_no_stk by metis
  then have "lookup g j h = Some e" using u e by (metis unscanned_def)
  then show "h \<in> stks g j" using e by (auto simp: stks_def)
qed

text \<open>One entry cleared.\<close>

lemma unscanned_step:
  assumes "ht_ok (htmain g') (htcoll g')" "ht_upd (htmain g) (htcoll g) (htmain g') (htcoll g') i h v"
    "lookup g i h = Some e" "v = unst (Some e)" "g' = g\<lparr>htmain := htmain g', htcoll := htcoll g'\<rparr>"
  shows "unscanned g g'"
  using assms unfolding unscanned_def ht_upd_def by auto

section \<open>A chain\<close>

lemma chain_lookup:
  assumes sh: "ht_shape m c S fs" and i: "i < HTSLOTS" and b: "bit (m i) 0"
  shows "htlookup m c i h = Some e \<longleftrightarrow> (\<exists>x \<in> set (S i). c x = e \<and> hhi e = h)"
proof -
  note cs = collision_slot [OF sh i b]
  have "map_of (map (\<lambda>x. (hhi (c x), c x)) (S i)) h = Some e \<longleftrightarrow> (h, e) \<in> set (map (\<lambda>x. (hhi (c x), c x)) (S i))"
    using cs(4) by (intro map_of_eq_Some_iff) (simp add: comp_def)
  then show ?thesis using cs(1) by (auto simp: htlookup_shape [OF sh i] ents_def emap_def comp_def)
qed

lemma stks_chain:
  "ht_shape (htmain g) (htcoll g) S fs \<Longrightarrow> i < HTSLOTS \<Longrightarrow> bit (htmain g i) 0 \<Longrightarrow>
   stks g i = {hhi (htcoll g x) | x. x \<in> set (S i) \<and> hstk (htcoll g x)}"
  by (auto simp: stks_def chain_lookup)

lemma finite_stks: "ht_ok (htmain g) (htcoll g) \<Longrightarrow> i < HTSLOTS \<Longrightarrow> finite (stks g i)"
proof -
  assume ok: "ht_ok (htmain g) (htcoll g)" and i: "i < HTSLOTS"
  then obtain S fs where sh: "ht_shape (htmain g) (htcoll g) S fs" by (auto simp: ht_ok_def)
  have "stks g i \<subseteq> dom (emap (ents (htmain g) (htcoll g) S i))"
    by (auto simp: stks_def htlookup_shape [OF sh i])
  then show ?thesis using finite_dom_map_of finite_subset unfolding emap_def by blast
qed

text \<open>Rewriting an entry of a chain leaves the chains as they are.\<close>

lemma shape_put:
  assumes sh: "ht_shape m c S fs" and i: "i < HTSLOTS" and b: "bit (m i) 0" and x: "link \<in> set (S i)"
    and e: "wf_entry e" "hhi e = hhi (c link)"
  shows "ht_shape m (c(link := e)) S fs"
proof -
  note cs = collision_slot [OF sh i b]
  have le: "even link" "2 \<le> link" using cs(7) x by (auto simp: GC_Shape.cell_ok_def)
  have a: "agree {link} c (c(link := e))" using le by (simp add: agree_cell)
  have ch: "chain (c(link := e)) (unat (m i - 1)) (S i)"
    using cs(2,7) le by (subst chain_cong [of _ "c(link := e)" c]) (auto simp: GC_Shape.cell_ok_def)
  have hd: "map (\<lambda>x. hhi ((c(link := e)) x)) (S i) = map (\<lambda>x. hhi (c x)) (S i)" using e(2) by auto
  have ok3: "slot_ok (c(link := e)) (m i) (S i)"
    unfolding slot_ok_def hd using cs ch e b by auto
  have oth: "x \<noteq> link" if "x \<in> set (S j)" "j \<noteq> i" for x j
    using shape_disjoint [OF sh that(1), of i] x that(2) by auto
  have lf: "link \<notin> set fs" using shape_not_free [OF sh x] .
  have sv: "ht_shape (m(i := 0)) (c(link := e)) (S(i := [])) fs"
    by (rule shape_agree [OF shape_vacate [OF sh] a]) (use le lf oth in auto)
  have "ht_shape ((m(i := 0))(i := m i)) (c(link := e)) ((S(i := []))(i := S i)) fs"
    by (rule shape_install [OF sv])
       (use ok3 cs(6,7) le sh in \<open>auto simp: ht_shape_def separate_def disjoint_iff\<close>)
  then show ?thesis by simp
qed

lemma chain_word: "bit w 0 \<Longrightarrow> w AND 0xFFFFFFFE = w - 1" for w :: "32 word"
proof -
  assume b: "bit w 0"
  have "\<not> bit (key_of w) 0" by (simp add: bit_key_of)
  moreover have "key_of w OR 1 = w"
    using b by (intro bit_word_eqI) (auto simp: bit_or_iff bit_key_of bit_1_iff Suc_le_eq)
  ultimately have "key_of w + 1 = w" using or_1_even [of "key_of w"] by simp
  then show ?thesis by (simp add: key_of_def [symmetric] eq_diff_eq)
qed

lemma chain_cell:
  assumes sh: "ht_shape (htmain g) (htcoll g) S fs" and i: "i < HTSLOTS" and b: "bit (htmain g i) 0"
    and s: "S i = xs @ link # ys" and prev: "prev = (if xs = [] then 0 else last xs)"
  shows "newlink (htcoll g) (hhi (htcoll g link)) (unat (htmain g i - 1)) 0 = Some (Some (link, prev))"
    "wf_entry (htcoll g link)" "lookup g i (hhi (htcoll g link)) = Some (htcoll g link)"
    "unat (htcoll g (Suc link)) = (case ys of [] \<Rightarrow> 0 | y # zs \<Rightarrow> y)" "\<forall>y \<in> set ys. y \<noteq> 0" "link \<notin> set xs"
proof -
  note cs = collision_slot [OF sh i b]
  have "\<forall>y \<in> set xs. hhi (htcoll g y) \<noteq> hhi (htcoll g link)" using cs(4) s by (fastforce simp: image_iff)
  then have "\<forall>y \<in> set xs. htcoll g y AND HTHIMASK \<noteq> hhi (htcoll g link)" by (simp only: hhi_def simp_thms)
  then show "newlink (htcoll g) (hhi (htcoll g link)) (unat (htmain g i - 1)) 0 = Some (Some (link, prev))"
    using newlink_hit [of "htcoll g" "unat (htmain g i - 1)" xs link ys "hhi (htcoll g link)" 0] cs(2) s prev
    by (simp add: hhi_def [symmetric])
  show "wf_entry (htcoll g link)" using cs(3) s by simp
  show "lookup g i (hhi (htcoll g link)) = Some (htcoll g link)" using chain_lookup [OF sh i b] s by auto
  have "chain (htcoll g) (unat (htmain g i - 1)) ((xs @ [link]) @ ys)" using cs(2) s by simp
  from chain_append [OF this] have "chain (htcoll g) (unat (htcoll g (Suc link))) ys" by simp
  then show "unat (htcoll g (Suc link)) = (case ys of [] \<Rightarrow> 0 | y # zs \<Rightarrow> y)" by (cases ys) auto
  show "\<forall>y \<in> set ys. y \<noteq> 0" using cs(7) s by (fastforce simp: GC_Shape.cell_ok_def)
  show "link \<notin> set xs" using cs(6) s by auto
qed

lemma chain_drop:
  assumes sh: "ht_shape (htmain g) (htcoll g) S fs" and i: "i < HTSLOTS" and b: "bit (htmain g i) 0"
    and s: "S i = xs @ link # ys" and prev: "prev = (if xs = [] then 0 else last xs)"
    and e: "hstk (htcoll g link)" "hcount (htcoll g link) = 1"
  shows "unscanned g (dellink i link prev g)" "card (stks (dellink i link prev g) i) < card (stks g i)"
proof -
  note cc = chain_cell [OF sh i b s prev]
  have ok: "ht_ok (htmain g) (htcoll g)" using sh by (auto simp: ht_ok_def)
  note st = step_dellink [OF ok i b cc(1) refl]
  show u: "unscanned g (dellink i link prev g)"
    using st cc(3) e by (intro unscanned_step [where e = "htcoll g link" and v = None]) auto
  have "hhi (htcoll g link) \<in> stks g i" using cc(3) e(1) by (auto simp: stks_def)
  moreover have "hhi (htcoll g link) \<notin> stks (dellink i link prev g) i"
    using st i by (auto simp: stks_def ht_upd_def)
  ultimately have "stks (dellink i link prev g) i \<subset> stks g i" using stks_mono [OF u i] by blast
  then show "card (stks (dellink i link prev g) i) < card (stks g i)"
    using finite_stks [OF ok i] by (rule psubset_card_mono [rotated])
qed

lemma chain_clear:
  fixes g
  assumes sh: "ht_shape (htmain g) (htcoll g) S fs" and i: "i < HTSLOTS" and b: "bit (htmain g i) 0"
    and s: "S i = xs @ link # ys" and e: "\<not> (hstk (htcoll g link) \<and> hcount (htcoll g link) = 1)"
  defines "g1 \<equiv> (if hstk (htcoll g link) then putgc (Coll link) (clear_stk (htcoll g link)) g else g)"
  shows "unscanned g g1" "ht_shape (htmain g1) (htcoll g1) S fs" "htmain g1 = htmain g" "\<not> hstk (htcoll g1 link)"
    "htcoll g1 (Suc link) = htcoll g (Suc link)" "\<And>x. x \<noteq> link \<Longrightarrow> htcoll g1 x = htcoll g x"
proof -
  note cc = chain_cell [OF sh i b s refl]
  have ok: "ht_ok (htmain g) (htcoll g)" using sh by (auto simp: ht_ok_def)
  show "htmain g1 = htmain g" "htcoll g1 (Suc link) = htcoll g (Suc link)" "\<not> hstk (htcoll g1 link)"
    "\<And>x. x \<noteq> link \<Longrightarrow> htcoll g1 x = htcoll g x" by (simp_all add: g1_def)
  show "ht_shape (htmain g1) (htcoll g1) S fs"
    using shape_put [OF sh i b, of link "clear_stk (htcoll g link)"] s cc(2) sh by (simp add: g1_def)
  have "hhi (clear_stk (htcoll g link)) = hhi (htcoll g link)" by simp
  note st = step_chain_put [OF ok i b, of "clear_stk (htcoll g link)", unfolded this, OF cc(1)]
  show "unscanned g g1"
  proof (cases "hstk (htcoll g link)")
    case True
    then show ?thesis using st cc(2,3) e
      by (intro unscanned_step [where e = "htcoll g link" and v = "Some (clear_stk (htcoll g link))"]) (auto simp: g1_def)
  qed (use ok unscanned_refl in \<open>simp add: g1_def\<close>)
qed

text \<open>A walk along a chain whose part behind has no stack bits.\<close>

lemma unscan_chain_law:
  assumes "ht_shape (htmain g) (htcoll g) S fs" "i < HTSLOTS" "bit (htmain g i) 0"
    "S i = xs @ link # ys" "prev = (if xs = [] then 0 else last xs)" "\<forall>x \<in> set xs. \<not> hstk (htcoll g x)"
  shows "(\<exists>g'. unscan_chain i link prev g = Some (Retry g') \<and> unscanned g g' \<and> card (stks g' i) < card (stks g i)) \<or>
    (\<exists>g'. unscan_chain i link prev g = Some (Next_entry g') \<and> unscanned g g' \<and> stks g' i = {})"
  using assms
proof (induction ys arbitrary: xs link prev g)
  case (Nil xs link prev g)
  show ?case
  proof (cases "hstk (htcoll g link) \<and> hcount (htcoll g link) = 1")
    case True
    then show ?thesis using chain_drop [OF Nil.prems(1-5)]
      by (intro disjI1 exI [of _ "dellink i link prev g"])
         (simp add: unscan_chain.simps [of i link prev g] Let_def StkrefP_hstk SinglerefP_hcount)
  next
    case False
    define g1 where "g1 = (if hstk (htcoll g link) then putgc (Coll link) (clear_stk (htcoll g link)) g else g)"
    note cl = chain_clear [OF Nil.prems(1-4) False, folded g1_def]
    have "htcoll g1 (link + 1) = 0" using cl(5) chain_cell(4) [OF Nil.prems(1-5)] by (simp add: unat_eq_0)
    then have run: "unscan_chain i link prev g = Some (Next_entry g1)"
      using False by (subst unscan_chain.simps) (simp add: Let_def StkrefP_hstk SinglerefP_hcount g1_def)
    have "\<not> hstk (htcoll g1 x)" if "x \<in> set (S i)" for x
      using that Nil.prems(4,6) cl(4,6) by (cases "x = link") auto
    then have "stks g1 i = {}" using stks_chain [OF cl(2) Nil.prems(2)] Nil.prems(3) cl(3) by auto
    then show ?thesis using run cl(1) by blast
  qed
next
  case (Cons y ys xs link prev g)
  show ?case
  proof (cases "hstk (htcoll g link) \<and> hcount (htcoll g link) = 1")
    case True
    then show ?thesis using chain_drop [OF Cons.prems(1-5)]
      by (intro disjI1 exI [of _ "dellink i link prev g"])
         (simp add: unscan_chain.simps [of i link prev g] Let_def StkrefP_hstk SinglerefP_hcount)
  next
    case False
    define g1 where "g1 = (if hstk (htcoll g link) then putgc (Coll link) (clear_stk (htcoll g link)) g else g)"
    note cl = chain_clear [OF Cons.prems(1-4) False, folded g1_def]
    note cc = chain_cell [OF Cons.prems(1-5)]
    have nx: "unat (htcoll g1 (link + 1)) = y" "htcoll g1 (link + 1) \<noteq> 0" using cl(5) cc(4,5) by auto
    have c: "\<not> (StkrefP (htcoll g link) \<and> SinglerefP (htcoll g link))"
      using False by (simp only: StkrefP_hstk SinglerefP_hcount simp_thms)
    have d: "(if StkrefP (htcoll g link) then putgc (Coll link) (clear_stk (htcoll g link)) g else g) = g1"
      by (simp only: g1_def StkrefP_hstk)
    have run: "unscan_chain i link prev g = unscan_chain i y link g1"
      unfolding unscan_chain.simps [of i link prev g] Let_def d if_not_P [OF c] nx(1) using nx(2) by simp
    have "\<not> hstk (htcoll g1 x)" if "x \<in> set (xs @ [link])" for x
      using that Cons.prems(6) cl(4,6) by (cases "x = link") auto
    then have IH: "(\<exists>g'. unscan_chain i y link g1 = Some (Retry g') \<and> unscanned g1 g' \<and> card (stks g' i) < card (stks g1 i)) \<or>
        (\<exists>g'. unscan_chain i y link g1 = Some (Next_entry g') \<and> unscanned g1 g' \<and> stks g' i = {})"
      using Cons.prems cl by (intro Cons.IH [of g1 "xs @ [link]"]) simp_all
    have "card (stks g1 i) \<le> card (stks g i)"
      using stks_mono [OF cl(1) Cons.prems(2)] finite_stks [of g i] Cons.prems(1,2) by (intro card_mono) (auto simp: ht_ok_def)
    then show ?thesis using IH run unscanned_trans [OF cl(1)] by fastforce
  qed
qed

lemma unscan_entry_law:
  assumes "ht_ok (htmain g) (htcoll g)" "i < HTSLOTS"
  shows "\<exists>g'. unscan_entry i g = Some g' \<and> unscanned g g' \<and> stks g' i = {}"
  using assms
proof (induction "card (stks g i)" arbitrary: g rule: less_induct)
  case less
  then obtain S fs where sh: "ht_shape (htmain g) (htcoll g) S fs" by (auto simp: ht_ok_def)
  show ?case
  proof (cases "bit (htmain g i) 0")
    case True
    note cs = collision_slot [OF sh less.prems(2) True]
    obtain link ys where s: "S i = link # ys" using cs(1) by (cases "S i") auto
    have l: "unat (htmain g i AND 0xFFFFFFFE) = link" using cs(2) s chain_word [OF True] by simp
    from unscan_chain_law [OF sh less.prems(2) True, of "[]" link ys 0] s
    consider (retry) g1 where "unscan_chain i link 0 g = Some (Retry g1)" "unscanned g g1" "card (stks g1 i) < card (stks g i)"
      | (on) g1 where "unscan_chain i link 0 g = Some (Next_entry g1)" "unscanned g g1" "stks g1 i = {}"
      by auto
    then show ?thesis
    proof cases
      case retry
      then obtain g' where "unscan_entry i g1 = Some g'" "unscanned g1 g'" "stks g' i = {}"
        using less.hyps [of g1] less.prems(2) by (auto simp: unscanned_def)
      then show ?thesis using retry True l unscanned_trans by (subst unscan_entry.simps) (auto simp: Let_def)
    next
      case on
      then show ?thesis using True l by (subst unscan_entry.simps) (auto simp: Let_def)
    qed
  next
    case False
    note d = direct_slot [OF slot_ok_shape [OF sh less.prems(2)] False]
    define e where "e = htmain g i"
    have lk: "lookup g i h = (if e \<noteq> 0 \<and> hhi e = h then Some e else None)" for h
      using d by (auto simp: htlookup_shape [OF sh less.prems(2)] ents_def e_def)
    have run: "unscan_entry i g = Some (if hstk e then putgc (Main i) (if drop_bit 17 e = 1 then 0 else clear_stk e) g else g)"
      using False by (subst unscan_entry.simps) (simp add: Let_def StkrefP_hstk e_def)
    have one: "drop_bit 17 e = 1 \<longleftrightarrow> hcount e = 1" by (simp add: hcount_def word_unat_eq_iff)
    show ?thesis
    proof (cases "hstk e")
      case True
      then have e: "e \<noteq> 0" "wf_entry e" using d by (auto simp: e_def hstk_def)
      show ?thesis
      proof (cases "hcount e = 1")
        case single: True
        have st: "ht_ok ((htmain g)(i := 0)) (htcoll g)" "ht_upd (htmain g) (htcoll g) ((htmain g)(i := 0)) (htcoll g) i (hhi e) None"
          using step_direct_remove [OF less.prems False] e by (simp_all add: e_def)
        then have u: "unscanned g (putgc (Main i) 0 g)"
          using lk e True single by (intro unscanned_step [where e = e and v = None]) auto
        have "stks (putgc (Main i) 0 g) i = {}" by (auto simp: stks_def htlookup_def)
        then show ?thesis using run u True one single by auto
      next
        case many: False
        have st: "ht_ok ((htmain g)(i := clear_stk e)) (htcoll g)"
          "ht_upd (htmain g) (htcoll g) ((htmain g)(i := clear_stk e)) (htcoll g) i (hhi e) (Some (clear_stk e))"
          using step_direct [OF less.prems False, of "clear_stk e"] e by (simp_all add: e_def)
        then have u: "unscanned g (putgc (Main i) (clear_stk e) g)"
          using lk e True many by (intro unscanned_step [where e = e and v = "Some (clear_stk e)"]) auto
        have "bit (clear_stk e) 0 = False" using False by (simp add: bit_clear_stk e_def)
        then have "stks (putgc (Main i) (clear_stk e) g) i = {}"
          by (auto simp: stks_def htlookup_def Let_def split: if_splits)
        then show ?thesis using run u True one many by auto
      qed
    next
      case False
      then have "stks g i = {}" by (auto simp: stks_def lk)
      then show ?thesis using run False unscanned_refl [OF less.prems(1)] by auto
    qed
  qed
qed

section \<open>The table\<close>

lemma gcscan2_Some: "gcscan2 g n = Some p \<Longrightarrow> p < n \<and> (\<forall>j. p < j \<and> j < n \<longrightarrow> htmain g j AND 0x10001 = 0)"
  by (induction n) (auto split: if_splits simp: less_Suc_eq)

lemma gcscan2_None: "gcscan2 g n = None \<Longrightarrow> \<forall>j < n. htmain g j AND 0x10001 = 0"
  by (induction n) (auto split: if_splits simp: less_Suc_eq)

lemma stks_direct: "ht_ok (htmain g) (htcoll g) \<Longrightarrow> j < HTSLOTS \<Longrightarrow> htmain g j AND 0x10001 = 0 \<Longrightarrow> stks g j = {}"
proof -
  assume a: "ht_ok (htmain g) (htcoll g)" "j < HTSLOTS" "htmain g j AND 0x10001 = 0"
  have "\<not> bit (htmain g j) 0" "\<not> hstk (htmain g j)" using scan2_cond [of "htmain g j"] a(3) by auto
  then show ?thesis by (auto simp: stks_def htlookup_def Let_def split: if_splits)
qed

lemma unscan_loop_law:
  assumes "ht_ok (htmain g) (htcoll g)" "n \<le> HTSLOTS"
  shows "\<exists>g'. unscan_loop n g = Some g' \<and> unscanned g g' \<and> (\<forall>j < n. stks g' j = {})"
  using assms
proof (induction n arbitrary: g rule: less_induct)
  case (less n)
  show ?case
  proof (cases "gcscan2 g n")
    case None
    then show ?thesis
      using gcscan2_None [OF None] stks_direct [OF less.prems(1)] less.prems unscanned_refl
      by (subst unscan_loop.simps) auto
  next
    case (Some p)
    note p = gcscan2_Some [OF Some]
    then have pn: "p < n" "p < HTSLOTS" using less.prems by auto
    obtain g1 where g1: "unscan_entry p g = Some g1" "unscanned g g1" "stks g1 p = {}"
      using unscan_entry_law [OF less.prems(1) pn(2)] by blast
    then obtain g' where g': "unscan_loop p g1 = Some g'" "unscanned g1 g'" "\<forall>j < p. stks g' j = {}"
      using less.IH [OF pn(1), of g1] pn(2) by (auto simp: unscanned_def)
    have u: "unscanned g g'" by (rule unscanned_trans [OF g1(2) g'(2)])
    have "stks g' j = {}" if "j < n" for j
    proof -
      have j: "j < HTSLOTS" using that less.prems(2) by simp
      consider "j < p" | "j = p" | "p < j" by linarith
      then show ?thesis
      proof cases
        case 2
        then show ?thesis using stks_mono [OF g'(2) pn(2)] g1(3) by auto
      next
        case 3
        then have "stks g j = {}" using p that stks_direct [OF less.prems(1) j] by auto
        then show ?thesis using stks_mono [OF u j] by auto
      qed (use g'(3) in auto)
    qed
    then show ?thesis using Some g1(1) g'(1) u by (subst unscan_loop.simps) auto
  qed
qed

text \<open>
  C27. The last phase of a collection always ends. Afterwards no object has its stack bit on, every
  reference count is what it was, and the table is well formed: objects with one reference that
  were in the table for the stack bit only are no longer in it.
\<close>

theorem gcmapunscan_clears:
  assumes "gc_inv g"
  shows "\<exists>g'. gcmapunscan g = Inr g' \<and> gc_inv g' \<and>
    (\<forall>p. gc_ptr p \<longrightarrow> rcview g' p = (refcount g p, False)) \<and> g' = g\<lparr>htmain := htmain g', htcoll := htcoll g'\<rparr>"
proof -
  have ok: "ht_ok (htmain g) (htcoll g)" using assms by (simp add: gc_inv_def)
  obtain g' where g': "unscan_loop HTMAIN_ENTRY_COUNT g = Some g'" "unscanned g g'" "\<forall>j < HTSLOTS. stks g' j = {}"
    using unscan_loop_law [OF ok, of HTMAIN_ENTRY_COUNT] by (auto simp: HTMAIN_ENTRY_COUNT_def HTSLOTS_def)
  have fr: "g' = g\<lparr>htmain := htmain g', htcoll := htcoll g'\<rparr>" using g'(2) by (simp add: unscanned_def)
  have ov: "ovfl_ptr g' = ovfl_ptr g" "ovfl_cnt g' = ovfl_cnt g" using arg_cong [OF fr, of ovfl_ptr] arg_cong [OF fr, of ovfl_cnt] by simp_all
  have big: "bigcount g' p = bigcount g p" for p using bigmap_cong [OF ov] by (simp add: bigcount_def)
  have ent: "entry_of g' p = unst (entry_of g p)" for p
  proof -
    have "lookup g' (ht_slot p) (ht_hiptr p) = lookup g (ht_slot p) (ht_hiptr p) \<or>
        lookup g' (ht_slot p) (ht_hiptr p) = unst (lookup g (ht_slot p) (ht_hiptr p))"
      using g'(2) slot_bound [of p] by (simp add: unscanned_def)
    moreover have "\<not> hstk e" if "lookup g' (ht_slot p) (ht_hiptr p) = Some e" for e
      using g'(3) slot_bound [of p] that by (auto simp: stks_def)
    ultimately show ?thesis by (cases "lookup g (ht_slot p) (ht_hiptr p)") (auto simp: entry_of_def)
  qed
  have each: "entry_ok (entry_of g' p) (bigcount g' p) \<and> rcview g' p = (refcount g p, False)" if "gc_ptr p" for p
  proof -
    have "entry_ok (entry_of g p) (bigcount g p)" using assms that by (simp add: gc_inv_def)
    then show ?thesis
      unfolding ent big rcview_def refcount_def
      by (cases "entry_of g p"; cases "bigcount g p") auto
  qed
  have "\<exists>n. big_ok g' n" using assms big_ok_cong [OF ov(1)] by (auto simp: gc_inv_def)
  then have "gc_inv g'" using each g'(2) by (simp add: gc_inv_def unscanned_def)
  then show ?thesis using g'(1) each fr by (intro exI [of _ g']) (simp add: gcmapunscan_def)
qed

lemma gcmapunscan_clears_witness:
  "\<exists>g1 g2. rec_htfind True 0x200004 STKREF gctab0 = Inr (NIL, g1) \<and> rcview g1 0x200004 = (1, True) \<and>
     gcmapunscan g1 = Inr g2 \<and> rcview g2 0x200004 = (1, False)"
proof -
  obtain g1 where g1: "rec_htfind True 0x200004 STKREF gctab0 = Inr (NIL, g1)" "gc_inv g1" "rcview g1 0x200004 = (1, True)"
    using rec_htfind_refines_all [OF gctab0_inv(1) gc_ptr_sample _ gctab0_inv(2), of STKREF True]
    by (auto simp: gctab0_view refines_rc_step_def)
  then show ?thesis
    using gcmapunscan_clears [OF g1(2)] gc_ptr_sample by (auto simp: refcount_def)
qed

section \<open>Reclaiming and allocating\<close>

definition special_type :: "DLword \<Rightarrow> bool" where
  "special_type typ \<longleftrightarrow> typ \<in> {TYPE_LISTP, TYPE_ARRAYBLOCK, TYPE_STACKP, TYPE_VMEMPAGEP} \<or>
     TYPE_CODEHUNK1 \<le> typ \<and> typ \<le> TYPE_CODEHUNK10"

lemma gcreccell_atomic:
  assumes "GetTypeNumber s p = typ" "\<not> special_type typ" "dtd_ptrs s (GetDTD typ) = NIL"
    and "p AND 0xFFFFFFFE = p" "p AND 0x0FFF0000 \<noteq> 0x60000"
  shows "gcreccell p s = Inr (0, addtofreelist (GetDTD typ) p s)"
proof -
  have "finalize typ p s = Inr (NIL, s)" "typ \<noteq> TYPE_LISTP" using assms(2) by (auto simp: finalize_def special_type_def)
  then show ?thesis
    using assms(1,3-5) by (simp add: gcreccell_def gcrec_loop.simps gcrec_step_def Let_def NIL_def
      reclaim_normal_def reclaim_fields.simps doval_def trynext_def)
qed

text \<open>
  C26. Reclaiming an object without pointer fields and then allocating one of its type gives the
  same cell, cleared, and the free chain is the one from before.
\<close>

theorem reclaim_then_create:
  assumes "GetTypeNumber s p = typ" "\<not> special_type typ" "dtd_ptrs s (GetDTD typ) = NIL"
    and "p AND 0xFFFFFFFE = p" "p AND POINTERMASK = p" "p AND 0x0FFF0000 \<noteq> 0x60000" "p \<noteq> NIL"
    and "dtd_size s (GetDTD typ) \<noteq> 0" "cell_apart s (GetDTD typ) p" "RefCntP s p" "counts_ready s p DELREF"
  shows "\<exists>s1 s2. gcreccell p s = Inr (0, s1) \<and> createcell68k chk dirty typ s1 = Inr (p, s2) \<and>
    dtd_free s2 (GetDTD typ) = dtd_free s (GetDTD typ) AND POINTERMASK \<and>
    (\<forall>i < unat (dtd_size s (GetDTD typ)). getword (mem s2) (p + of_nat i) = 0)"
proof -
  define d where "d = GetDTD typ"
  define s1 where "s1 = addtofreelist d p s"
  have n: "0 < unat (dtd_size s d)" using assms(8) by (simp add: d_def unat_gt_0)
  have c: "cell_of p = p" using assms(4) by (simp add: cell_of_def)
  then have ap: "p \<notin> {d + 2, d + 4, d + 12}"
    using spec [OF assms(9) [unfolded cell_apart_def], of 0] n by (simp add: d_def)
  have rd1: "rd s1 x = (if x = d + 4 then p else if x = p then dtd_free s d else rd s x)" for x
    by (simp add: s1_def addtofreelist_def set_dtd_free_def rd_wr assms(5))
  have g: "gc s1 = gc s" "byteswapped s1 = byteswapped s"
    by (simp_all add: s1_def addtofreelist_def set_dtd_free_def)
  have sz: "dtd_size s1 d = dtd_size s d" using ap by (auto simp: dtd_size_def rd1)
  have pre: "dtd_size s1 d \<noteq> 0" "p = dtd_free s1 d AND POINTERMASK" "cell_apart s1 d p" "RefCntP s1 p" "counts_ready s1 p DELREF"
    using assms sz g RefCntP_gc [OF g(1)] by (simp_all add: d_def dtd_free_def rd1 cell_apart_def counts_ready_def)
  obtain s2 where s2: "take_cell 0x8000000 d p s1 = Inr (p, s2)" "dtd_free s2 d = rd s1 p AND POINTERMASK"
      "\<forall>i < unat (dtd_size s1 d). getword (mem s2) (p + of_nat i) = 0"
    using take_cell_law [OF pre(3-5), of "0x8000000"] by blast
  have "createcell68k chk dirty typ s1 = Inr (p, s2)"
    using pre(1) pre(2) [symmetric] assms(7) s2(1) by (simp add: createcell68k_def Let_def d_def [symmetric] retry_cell_def)
  moreover have "gcreccell p s = Inr (0, s1)"
    using gcreccell_atomic [OF assms(1-4,6)] by (simp add: s1_def d_def)
  moreover have "rd s1 p = dtd_free s d" using ap by (simp add: rd1)
  ultimately show ?thesis using s2(2,3) sz by (intro exI [of _ s1] exI [of _ s2]) (simp add: d_def)
qed

definition vm_reclaim :: vm where
  "vm_reclaim = vm_fixp\<lparr>gc := (gc vm_fixp)\<lparr>mds_typetbl := (\<lambda>i. if i = 0x2000 then 2 else 0)\<rparr>\<rparr>"

lemma counts_ready_types: "counts_ready (s\<lparr>gc := (gc s)\<lparr>mds_typetbl := t\<rparr>\<rparr>) p c = counts_ready s p c"
proof -
  let ?g = "(gc s)\<lparr>mds_typetbl := t\<rparr>"
  have b: "bigcount ?g q = bigcount (gc s) q" "big_ok ?g n = big_ok (gc s) n" for q n
    using bigmap_cong [of ?g "gc s"] big_ok_cong [of ?g "gc s"] by (simp_all add: bigcount_def)
  have e: "entry_of ?g q = entry_of (gc s) q" for q by (simp add: entry_of_def)
  have "gc_inv ?g = gc_inv (gc s)" "rcview ?g p = rcview (gc s) p" "big_room ?g = big_room (gc s)"
    by (simp_all add: gc_inv_def b e rcview_def big_room_def)
  moreover have "two_links ?g = two_links (gc s)"
    by (simp add: two_links_def GetLink_def Let_def)
  ultimately show ?thesis by (simp add: counts_ready_def)
qed

lemma reclaim_then_create_witness:
  "\<exists>s1 s2. gcreccell 0x400010 vm_reclaim = Inr (0, s1) \<and> createcell68k (\<lambda>s. Inr s) NIL TYPE_FIXP s1 = Inr (0x400010, s2) \<and>
     dtd_free s2 0x141024 = 0x400010"
proof -
  have ty: "GetTypeNumber vm_reclaim 0x400010 = TYPE_FIXP"
    by (simp add: GetTypeNumber_def GetTypeEntry_def vm_reclaim_def TYPE_FIXP_def)
  have d: "GetDTD TYPE_FIXP = 0x141024" by (rule vm_fixp_facts(1))
  have rd: "rd vm_reclaim x = rd vm_fixp x" for x by (simp add: rd_def vm_reclaim_def)
  have f: "dtd_size vm_reclaim 0x141024 = 2" "dtd_free vm_reclaim 0x141024 = 0x400010" "dtd_ptrs vm_reclaim 0x141024 = NIL"
    using vm_fixp_facts(2,3) by (simp_all add: dtd_size_def dtd_free_def dtd_ptrs_def rd) (simp add: vm_fixp_def rd_def getcell_def vm0_def NIL_def)
  have ap: "cell_apart vm_reclaim 0x141024 0x400010" using vm_fixp_facts(4) f(1) vm_fixp_facts(2) by (simp add: cell_apart_def)
  have "RefCntP vm_reclaim 0x400010"
    by (simp add: RefCntP_def GetTypeEntry_def vm_reclaim_def vm_fixp_def vm0_def gctab0_def ATOM_T_def NIL_def TT_NOREF_def)
  moreover have "counts_ready vm_reclaim 0x400010 DELREF"
    using vm_fixp_facts(6) counts_ready_types [where s = vm_fixp] by (simp add: vm_reclaim_def)
  moreover have "\<not> special_type TYPE_FIXP" by (simp add: special_type_def type_defs)
  ultimately show ?thesis
    using reclaim_then_create [OF ty, of "\<lambda>s. Inr s" NIL] d f ap by (auto simp: POINTERMASK_def NIL_def)
qed

end
