(* ===== verification/BitBlt.thy ===== *)
theory BitBlt
  imports Array_Rings
begin

text \<open>
  The bit block transfer: the macros of \<open>inc/bb.h\<close> and \<open>N_OP_pilotbitblt\<close> of
  \<open>src/bitblt.c\<close>. Definitions; what they promise is in \<open>BitBlt_Laws\<close>.

  The code moves aligned 32-bit cells. A cell pointer (\<open>unsigned int *\<close>) is the number of the cell,
  counted from the start of the Lisp memory; bits are counted from the left end of a cell. The
  \<open>int\<close> variables stay far inside their range and are mathematical integers; \<open>31 & x\<close> on
  them is \<open>x mod 32\<close> and \<open>x >> 5\<close> is \<open>x div 32\<close>, also for the negative ones. The
  source of a texture is read without \<open>GETWORD\<close>, so on a byte-swapped build \<open>*srcbase\<close> is the other
  word of its cell.
\<close>

section \<open>Cells and source pointers\<close>

definition rdc :: "vm \<Rightarrow> int \<Rightarrow> 32 word" where "rdc s k = rd s (word_of_int (2 * k))"
definition wrc :: "int \<Rightarrow> 32 word \<Rightarrow> vm \<Rightarrow> vm" where "wrc k v s = wr (word_of_int (2 * k)) v s"

text \<open>\<open>DLword *srcbase\<close>: into the Lisp memory, or into the local array \<open>grayword\<close>.\<close>

datatype src_ptr = In_lisp LispPTR | In_gray "DLword list" int

definition raw_word :: "vm \<Rightarrow> src_ptr \<Rightarrow> DLword" where
  "raw_word s p =
     (case p of
        In_lisp a \<Rightarrow> getword (mem s) (if byteswapped s then a XOR 1 else a)
      | In_gray ws i \<Rightarrow> ws ! nat i)"

definition ptr_plus :: "src_ptr \<Rightarrow> int \<Rightarrow> src_ptr" where
  "ptr_plus p n = (case p of In_lisp a \<Rightarrow> In_lisp (a + word_of_int n) | In_gray ws i \<Rightarrow> In_gray ws (i + n))"

definition lisp_base :: "src_ptr \<Rightarrow> LispPTR" where
  "lisp_base p = (case p of In_lisp a \<Rightarrow> a | In_gray _ _ \<Rightarrow> 0)"

section \<open>Control variables and loop variables\<close>

record bb_args =
  bb_srcbase :: src_ptr
  bb_dstbase :: LispPTR
  bb_sx :: int
  bb_dx :: int
  bb_w :: int
  bb_h :: int
  bb_srcbpl :: int
  bb_dstbpl :: int
  bb_backward :: bool
  bb_comp :: bool
  bb_op :: nat
  bb_gray :: bool
  bb_num_gray :: int
  bb_curr_gray :: int

record bb_vars =
  dst32addr :: int
  src32addr :: int
  OrigDstAddr :: int
  OrigSrcAddr :: int
  dst32lbit :: int
  dst32rbit :: int
  src32lbit :: int
  src32rbit :: int
  srcLshift :: nat
  srcRshift :: nat
  srcRmask :: "32 word"
  preloop_mask :: "32 word"
  postloop_mask :: "32 word"
  sdw_mask :: "32 word"
  dstnumL :: int
  bb_fast :: bool
  shS :: "32 word"
  savedS :: "32 word"
  gray_src :: src_ptr
  curr_gray_line :: int

definition bb_variables :: "bb_args \<Rightarrow> bb_vars" where
  "bb_variables a =
     \<lparr>dst32addr = 0, src32addr = 0, OrigDstAddr = 0, OrigSrcAddr = 0, dst32lbit = 0, dst32rbit = 0,
      src32lbit = 0, src32rbit = 0, srcLshift = 0, srcRshift = 0, srcRmask = 0, preloop_mask = 0,
      postloop_mask = 0, sdw_mask = 0, dstnumL = 0, bb_fast = False, shS = 0, savedS = 0,
      gray_src = bb_srcbase a, curr_gray_line = bb_curr_gray a\<rparr>"

definition ALL_ONES :: "32 word" where "ALL_ONES = 0xFFFFFFFF"

text \<open>The bits from \<open>l\<close> on to the right end, and up to \<open>r\<close> from the left end.\<close>

definition lbit_mask :: "int \<Rightarrow> 32 word" where
  "lbit_mask l = (if l \<noteq> 0 then NOT (push_bit (nat (32 - l)) ALL_ONES) else ALL_ONES)"
definition rbit_mask :: "int \<Rightarrow> 32 word" where "rbit_mask r = push_bit (nat (31 - r)) ALL_ONES"

definition F_num_loop :: "int \<Rightarrow> bb_vars \<Rightarrow> int" where "F_num_loop w v = (dst32lbit v + w) div 32 - 1"
definition B_num_loop :: "int \<Rightarrow> bb_vars \<Rightarrow> int" where
  "B_num_loop w v = (if w - dst32rbit v - 1 > 0 then (w - dst32rbit v - 1) div 32 else 0)"

section \<open>Initialisation\<close>

text \<open>The number of the byte \<open>dx >> 3\<close> bits behind a base.\<close>

definition x32byta :: "LispPTR \<Rightarrow> int \<Rightarrow> int" where
  "x32byta base dx = (if dx < 0 then 2 * uint base - (7 - dx) div 8 else 2 * uint base + dx div 8)"

text \<open>The masks and counts, which the advance to the next line computes again.\<close>

definition F_dst_masks :: "int \<Rightarrow> bb_vars \<Rightarrow> bb_vars" where
  "F_dst_masks w v =
     (let pre = lbit_mask (dst32lbit v); post = rbit_mask (dst32rbit v)
      in v\<lparr>preloop_mask := pre, postloop_mask := post, sdw_mask := pre AND post, dstnumL := F_num_loop w v\<rparr>)"

definition B_dst_masks :: "int \<Rightarrow> bb_vars \<Rightarrow> bb_vars" where
  "B_dst_masks w v =
     (let pre = rbit_mask (dst32rbit v); post = lbit_mask (dst32lbit v)
      in v\<lparr>preloop_mask := pre, postloop_mask := post, sdw_mask := pre AND post, dstnumL := B_num_loop w v\<rparr>)"

definition src_shifts :: "32 word \<Rightarrow> bb_vars \<Rightarrow> bb_vars" where
  "src_shifts aligned_mask v =
     (let L = nat ((src32lbit v - dst32lbit v) mod 32)
      in v\<lparr>srcRshift := nat ((dst32lbit v - src32lbit v) mod 32), srcLshift := L,
           srcRmask := if L \<noteq> 0 then NOT (push_bit L ALL_ONES) else aligned_mask\<rparr>)"

definition F_dst_init :: "bb_args \<Rightarrow> bb_vars \<Rightarrow> bb_vars" where
  "F_dst_init a v =
     (let b = x32byta (bb_dstbase a) (bb_dx a); n = b mod 4; l = 8 * n + bb_dx a mod 8
      in F_dst_masks (bb_w a) (v\<lparr>dst32addr := b div 4, OrigDstAddr := b div 4, dst32lbit := l,
           dst32rbit := (l + bb_w a - 1) mod 32\<rparr>))"

definition gray_src_init :: "bb_args \<Rightarrow> bb_vars \<Rightarrow> bb_vars" where
  "gray_src_init a v = v\<lparr>bb_fast := (bb_dstbpl a mod 32 = 0), src32lbit := bb_sx a mod 16\<rparr>"

definition F_src_init :: "bb_args \<Rightarrow> bb_vars \<Rightarrow> bb_vars" where
  "F_src_init a v =
     (let b = x32byta (lisp_base (bb_srcbase a)) (bb_sx a); n = b mod 4; l = 8 * n + bb_sx a mod 8
      in src_shifts ALL_ONES (v\<lparr>src32addr := b div 4, OrigSrcAddr := b div 4, src32lbit := l,
           src32rbit := (l + bb_w a - 1) mod 32\<rparr>))"

definition B_dst_init :: "bb_args \<Rightarrow> bb_vars \<Rightarrow> bb_vars" where
  "B_dst_init a v =
     (let abc = bb_dx a + bb_w a - 1; b = x32byta (bb_dstbase a) abc; n = b mod 4; r = 8 * n + abc mod 8
      in B_dst_masks (bb_w a) (v\<lparr>dst32addr := b div 4, OrigDstAddr := b div 4, dst32rbit := r,
           dst32lbit := (r - bb_w a + 1) mod 32\<rparr>))"

definition B_src_init :: "bb_args \<Rightarrow> bb_vars \<Rightarrow> bb_vars" where
  "B_src_init a v =
     (let abc = bb_sx a + bb_w a - 1; b = x32byta (lisp_base (bb_srcbase a)) abc; n = b mod 4; r = 8 * n + abc mod 8
      in src_shifts 0 (v\<lparr>src32addr := b div 4, OrigSrcAddr := b div 4, src32rbit := r,
           src32lbit := (r - bb_w a + 1) mod 32\<rparr>))"

definition some_init :: "bb_args \<Rightarrow> bb_vars \<Rightarrow> bb_vars" where
  "some_init a v =
     (let v1 = v\<lparr>bb_fast := (bb_srcbpl a mod 32 = 0 \<and> bb_dstbpl a mod 32 = 0)\<rparr>
      in if bb_gray a then gray_src_init a (F_dst_init a v1)
         else if \<not> bb_backward a then F_src_init a (F_dst_init a v1)
         else B_src_init a (B_dst_init a v1))"

section \<open>Source set-up\<close>

definition compl_if :: "bool \<Rightarrow> 32 word \<Rightarrow> 32 word" where "compl_if c x = (if c then NOT x else x)"

definition do_src_gray_setup :: "bb_args \<Rightarrow> vm \<Rightarrow> bb_vars \<Rightarrow> bb_vars" where
  "do_src_gray_setup a s v =
     (let L = nat ((src32lbit v - dst32lbit v) mod 16);
          x = (ucast (raw_word s (gray_src v)) :: 32 word);
          x1 = x OR push_bit 16 x;
          x2 = push_bit L x1;
          x3 = x2 OR (0xFFFF AND drop_bit 16 x2)
      in v\<lparr>srcLshift := L, shS := compl_if (bb_comp a) x3\<rparr>)"

definition F_do_src_setup :: "bb_args \<Rightarrow> vm \<Rightarrow> bb_vars \<Rightarrow> bb_vars" where
  "F_do_src_setup a s v =
     (let new = rdc s (src32addr v); L = srcLshift v; R = srcRshift v; m = srcRmask v
      in if src32lbit v > dst32lbit v \<and> src32lbit v + bb_w a > 32
         then let new2 = rdc s (src32addr v + 1)
              in v\<lparr>src32addr := src32addr v + 2,
                   shS := compl_if (bb_comp a) (push_bit L new OR (drop_bit R new2 AND m)),
                   savedS := push_bit L new2 AND NOT m\<rparr>
         else if src32lbit v \<le> dst32lbit v
         then v\<lparr>src32addr := src32addr v + 1, shS := compl_if (bb_comp a) (drop_bit R new AND m),
                savedS := push_bit L new AND NOT m\<rparr>
         else v\<lparr>src32addr := src32addr v + 1, shS := compl_if (bb_comp a) (push_bit L new)\<rparr>)"

definition B_do_src_setup :: "bb_args \<Rightarrow> vm \<Rightarrow> bb_vars \<Rightarrow> bb_vars" where
  "B_do_src_setup a s v =
     (let new = rdc s (src32addr v); L = srcLshift v; R = srcRshift v; m = srcRmask v
      in if src32rbit v < dst32rbit v \<and> src32lbit v + bb_w a > dst32lbit v + 1
         then let new2 = rdc s (src32addr v - 1)
              in v\<lparr>src32addr := src32addr v - 2,
                   shS := compl_if (bb_comp a) ((drop_bit R new AND m) OR push_bit L new2),
                   savedS := drop_bit R new2 AND m\<rparr>
         else if src32rbit v \<ge> dst32rbit v
         then v\<lparr>src32addr := src32addr v - 1, shS := compl_if (bb_comp a) (push_bit L new),
                savedS := drop_bit R new AND m\<rparr>
         else v\<lparr>src32addr := src32addr v - 1, shS := compl_if (bb_comp a) (drop_bit R new AND m)\<rparr>)"

section \<open>Transfers\<close>

text \<open>The four assignments \<open>=\<close>, \<open>&=\<close>, \<open>|=\<close> and \<open>^=\<close>.\<close>

definition bb_assign :: "nat \<Rightarrow> 32 word \<Rightarrow> 32 word \<Rightarrow> 32 word" where
  "bb_assign opn d x = (if opn = 0 then x else if opn = 1 then d AND x else if opn = 2 then d OR x
                        else if opn = 3 then d XOR x else d)"

definition do_partial_transfer :: "bb_args \<Rightarrow> 32 word \<Rightarrow> bb_vars \<Rightarrow> vm \<Rightarrow> vm" where
  "do_partial_transfer a msk v s =
     (let d = rdc s (dst32addr v)
      in wrc (dst32addr v) ((bb_assign (bb_op a) d (shS v) AND msk) OR (d AND NOT msk)) s)"

definition DestGetsF :: "bb_args \<Rightarrow> bb_vars \<times> vm \<Rightarrow> bb_vars \<times> vm" where
  "DestGetsF a = (\<lambda>(v, s). (v\<lparr>dst32addr := dst32addr v + 1\<rparr>,
                           wrc (dst32addr v) (bb_assign (bb_op a) (rdc s (dst32addr v)) (shS v)) s))"
definition DestGetsB :: "bb_args \<Rightarrow> bb_vars \<times> vm \<Rightarrow> bb_vars \<times> vm" where
  "DestGetsB a = (\<lambda>(v, s). (v\<lparr>dst32addr := dst32addr v - 1\<rparr>,
                           wrc (dst32addr v) (bb_assign (bb_op a) (rdc s (dst32addr v)) (shS v)) s))"

text \<open>\<open>GetSrcF\<close> and \<open>GetSrcCF\<close>, \<open>GetSrcB\<close> and \<open>GetSrcCB\<close>.\<close>

definition GetSrcF :: "bb_args \<Rightarrow> bb_vars \<times> vm \<Rightarrow> bb_vars \<times> vm" where
  "GetSrcF a = (\<lambda>(v, s). let new = rdc s (src32addr v)
     in (v\<lparr>src32addr := src32addr v + 1, shS := compl_if (bb_comp a) (savedS v OR drop_bit (srcRshift v) new),
           savedS := push_bit (srcLshift v) new\<rparr>, s))"
definition GetSrcB :: "bb_args \<Rightarrow> bb_vars \<times> vm \<Rightarrow> bb_vars \<times> vm" where
  "GetSrcB a = (\<lambda>(v, s). let new = rdc s (src32addr v)
     in (v\<lparr>src32addr := src32addr v - 1, shS := compl_if (bb_comp a) (savedS v OR push_bit (srcLshift v) new),
           savedS := drop_bit (srcRshift v) new\<rparr>, s))"

text \<open>The bodies of the aligned loops, \<open>*dst32addr++ = *src32addr++\<close> and its variants.\<close>

definition AlignedF :: "bb_args \<Rightarrow> bb_vars \<times> vm \<Rightarrow> bb_vars \<times> vm" where
  "AlignedF a = (\<lambda>(v, s).
     (v\<lparr>dst32addr := dst32addr v + 1, src32addr := src32addr v + 1\<rparr>,
      wrc (dst32addr v) (bb_assign (bb_op a) (rdc s (dst32addr v)) (compl_if (bb_comp a) (rdc s (src32addr v)))) s))"
definition AlignedB :: "bb_args \<Rightarrow> bb_vars \<times> vm \<Rightarrow> bb_vars \<times> vm" where
  "AlignedB a = (\<lambda>(v, s).
     (v\<lparr>dst32addr := dst32addr v - 1, src32addr := src32addr v - 1\<rparr>,
      wrc (dst32addr v) (bb_assign (bb_op a) (rdc s (dst32addr v)) (compl_if (bb_comp a) (rdc s (src32addr v)))) s))"

text \<open>\<open>for (cnt = dstnumL; --cnt >= 0; )\<close>; with another value of \<open>op\<close> the switches do nothing.\<close>

definition ForInner :: "bb_args \<Rightarrow> (bb_vars \<times> vm \<Rightarrow> bb_vars \<times> vm) \<Rightarrow> bb_vars \<times> vm \<Rightarrow> bb_vars \<times> vm" where
  "ForInner a body vs = (if bb_op a < 4 then (body ^^ nat (dstnumL (fst vs))) vs else vs)"

definition do_gray_transfer :: "bb_args \<Rightarrow> bb_vars \<times> vm \<Rightarrow> bb_vars \<times> vm" where
  "do_gray_transfer a = (\<lambda>(v, s).
     if dst32lbit v + bb_w a \<le> 32 then (v, do_partial_transfer a (sdw_mask v) v s)
     else
       (let s1 = do_partial_transfer a (preloop_mask v) v s;
            (v2, s2) = ForInner a (DestGetsF a) (v\<lparr>dst32addr := dst32addr v + 1\<rparr>, s1)
        in if dst32rbit v2 \<noteq> 31 then (v2, do_partial_transfer a (postloop_mask v2) v2 s2) else (v2, s2)))"

definition F_do_postloop_src_prep :: "bb_args \<Rightarrow> vm \<Rightarrow> bb_vars \<Rightarrow> bb_vars" where
  "F_do_postloop_src_prep a s v =
     v\<lparr>shS := compl_if (bb_comp a)
         (if src32rbit v \<le> dst32rbit v
          then savedS v OR (drop_bit (srcRshift v) (rdc s (src32addr v)) AND srcRmask v)
          else savedS v)\<rparr>"

definition B_do_postloop_src_prep :: "bb_args \<Rightarrow> vm \<Rightarrow> bb_vars \<Rightarrow> bb_vars" where
  "B_do_postloop_src_prep a s v =
     v\<lparr>shS := compl_if (bb_comp a)
         (if src32lbit v \<ge> dst32lbit v
          then savedS v OR push_bit (srcLshift v) (rdc s (src32addr v))
          else savedS v)\<rparr>"

definition F_do_transfer :: "bb_args \<Rightarrow> bb_vars \<times> vm \<Rightarrow> bb_vars \<times> vm" where
  "F_do_transfer a = (\<lambda>(v, s).
     if dst32lbit v + bb_w a \<le> 32 then (v, do_partial_transfer a (sdw_mask v) v s)
     else
       (let s1 = do_partial_transfer a (preloop_mask v) v s;
            (v2, s2) = ForInner a (if src32lbit v = dst32lbit v then AlignedF a else DestGetsF a \<circ> GetSrcF a)
                         (v\<lparr>dst32addr := dst32addr v + 1\<rparr>, s1)
        in if dst32rbit v2 \<noteq> 31
           then let v3 = F_do_postloop_src_prep a s2 v2 in (v3, do_partial_transfer a (postloop_mask v3) v3 s2)
           else (v2, s2)))"

definition B_do_transfer :: "bb_args \<Rightarrow> bb_vars \<times> vm \<Rightarrow> bb_vars \<times> vm" where
  "B_do_transfer a = (\<lambda>(v, s).
     if dst32lbit v + bb_w a \<le> 32 then (v, do_partial_transfer a (sdw_mask v) v s)
     else
       (let s1 = do_partial_transfer a (preloop_mask v) v s;
            (v2, s2) = ForInner a (if src32lbit v = dst32lbit v then AlignedB a else DestGetsB a \<circ> GetSrcB a)
                         (v\<lparr>dst32addr := dst32addr v - 1\<rparr>, s1)
        in if dst32lbit v2 \<noteq> 0
           then let v3 = B_do_postloop_src_prep a s2 v2 in (v3, do_partial_transfer a (postloop_mask v3) v3 s2)
           else (v2, s2)))"

section \<open>Advance to the next line\<close>

definition F_do_dst_advance :: "bb_args \<Rightarrow> bb_vars \<Rightarrow> bb_vars" where
  "F_do_dst_advance a v =
     (if bb_fast v
      then let k = OrigDstAddr v + bb_dstbpl a div 32 in v\<lparr>OrigDstAddr := k, dst32addr := k\<rparr>
      else
        (let l = dst32lbit v + bb_dstbpl a; k = OrigDstAddr v + l div 32; l1 = l mod 32
         in F_dst_masks (bb_w a) (v\<lparr>dst32addr := k, dst32lbit := l1, dst32rbit := (l1 + bb_w a - 1) mod 32,
              OrigDstAddr := k\<rparr>)))"

definition do_src_gray_advance :: "bb_args \<Rightarrow> bb_vars \<Rightarrow> bb_vars" where
  "do_src_gray_advance a v =
     (let c = curr_gray_line v + 1
      in if c \<ge> bb_num_gray a
         then v\<lparr>curr_gray_line := 0, gray_src := ptr_plus (gray_src v) (- (bb_num_gray a - 1))\<rparr>
         else v\<lparr>curr_gray_line := c, gray_src := ptr_plus (gray_src v) 1\<rparr>)"

definition F_do_src_advance :: "bb_args \<Rightarrow> bb_vars \<Rightarrow> bb_vars" where
  "F_do_src_advance a v =
     (if bb_fast v
      then let k = OrigSrcAddr v + bb_srcbpl a div 32 in v\<lparr>OrigSrcAddr := k, src32addr := k\<rparr>
      else
        (let l = src32lbit v + bb_srcbpl a; k = OrigSrcAddr v + l div 32; l1 = l mod 32
         in src_shifts ALL_ONES (v\<lparr>src32addr := k, src32lbit := l1, src32rbit := (l1 + bb_w a - 1) mod 32,
              OrigSrcAddr := k\<rparr>)))"

definition B_do_src_advance :: "bb_args \<Rightarrow> bb_vars \<Rightarrow> bb_vars" where
  "B_do_src_advance a v =
     (if bb_fast v
      then let k = OrigSrcAddr v + bb_srcbpl a div 32 in v\<lparr>OrigSrcAddr := k, src32addr := k\<rparr>
      else
        (let r = src32rbit v + bb_srcbpl a;
             k = (if r < 0 then OrigSrcAddr v - (31 - r) div 32 else OrigSrcAddr v + r div 32);
             r1 = r mod 32
         in src_shifts 0 (v\<lparr>src32addr := k, src32rbit := r1, src32lbit := (r1 - bb_w a + 1) mod 32,
              OrigSrcAddr := k\<rparr>)))"

text \<open>The code of the last branch adds \<open>dst32lbit >> 5\<close>, not \<open>dst32rbit >> 5\<close>.\<close>

definition B_do_dst_advance :: "bb_args \<Rightarrow> bb_vars \<Rightarrow> bb_vars" where
  "B_do_dst_advance a v =
     (if bb_fast v
      then let k = OrigDstAddr v + bb_dstbpl a div 32 in v\<lparr>OrigDstAddr := k, dst32addr := k\<rparr>
      else
        (let r = dst32rbit v + bb_dstbpl a;
             k = (if r < 0 then OrigDstAddr v - (31 - r) div 32 else OrigDstAddr v + dst32lbit v div 32);
             r1 = r mod 32
         in B_dst_masks (bb_w a) (v\<lparr>dst32addr := k, dst32rbit := r1, dst32lbit := (r1 - bb_w a + 1) mod 32,
              OrigDstAddr := k\<rparr>)))"

section \<open>The line loops\<close>

definition bb_line :: "bb_args \<Rightarrow> bb_vars \<times> vm \<Rightarrow> bb_vars \<times> vm" where
  "bb_line a = (\<lambda>(v, s).
     if bb_gray a
     then let (v1, s1) = do_gray_transfer a (do_src_gray_setup a s v, s)
          in (do_src_gray_advance a (F_do_dst_advance a v1), s1)
     else if \<not> bb_backward a
     then let (v1, s1) = F_do_transfer a (F_do_src_setup a s v, s)
          in (F_do_src_advance a (F_do_dst_advance a v1), s1)
     else let (v1, s1) = B_do_transfer a (B_do_src_setup a s v, s)
          in (B_do_src_advance a (B_do_dst_advance a v1), s1))"

definition new_bitblt_code :: "bb_args \<Rightarrow> vm \<Rightarrow> vm" where
  "new_bitblt_code a s = snd ((bb_line a ^^ nat (bb_h a)) (some_init a (bb_variables a), s))"

text \<open>\<open>new_char_bitblt_code\<close> is the loop of the forward case alone, after the same \<open>some_init\<close>.\<close>

definition char_line :: "bb_args \<Rightarrow> bb_vars \<times> vm \<Rightarrow> bb_vars \<times> vm" where
  "char_line a = (\<lambda>(v, s).
     let (v1, s1) = F_do_transfer a (F_do_src_setup a s v, s) in (F_do_src_advance a (F_do_dst_advance a v1), s1))"

definition new_char_bitblt_code :: "bb_args \<Rightarrow> vm \<Rightarrow> vm" where
  "new_char_bitblt_code a s = snd ((char_line a ^^ nat (bb_h a)) (some_init a (bb_variables a), s))"

section \<open>\<open>PILOTBITBLT\<close>\<close>

text \<open>The control block of \<open>inc/pilotbbt.h\<close>, in the logical order of its words.\<close>

definition pbt_word :: "vm \<Rightarrow> LispPTR \<Rightarrow> LispPTR \<Rightarrow> DLword" where "pbt_word s p n = getword (mem s) (p + n)"
definition pbtdest :: "vm \<Rightarrow> LispPTR \<Rightarrow> LispPTR" where
  "pbtdest s p = VAG2 (ucast (pbt_word s p 1)) (ucast (pbt_word s p 0))"
definition pbtdestbit :: "vm \<Rightarrow> LispPTR \<Rightarrow> int" where "pbtdestbit s p = uint (pbt_word s p 2)"
definition pbtdestbpl :: "vm \<Rightarrow> LispPTR \<Rightarrow> int" where "pbtdestbpl s p = sint (pbt_word s p 3)"
definition pbtsource :: "vm \<Rightarrow> LispPTR \<Rightarrow> LispPTR" where
  "pbtsource s p = VAG2 (ucast (pbt_word s p 5)) (ucast (pbt_word s p 4))"
definition pbtsourcebit :: "vm \<Rightarrow> LispPTR \<Rightarrow> int" where "pbtsourcebit s p = uint (pbt_word s p 6)"
definition pbtsourcebpl :: "vm \<Rightarrow> LispPTR \<Rightarrow> int" where "pbtsourcebpl s p = sint (pbt_word s p 7)"
definition pbtwidth :: "vm \<Rightarrow> LispPTR \<Rightarrow> int" where "pbtwidth s p = uint (pbt_word s p 8)"
definition pbtheight :: "vm \<Rightarrow> LispPTR \<Rightarrow> int" where "pbtheight s p = uint (pbt_word s p 9)"
definition pbtflags :: "vm \<Rightarrow> LispPTR \<Rightarrow> DLword" where "pbtflags s p = pbt_word s p 10"
definition pbtoperation :: "vm \<Rightarrow> LispPTR \<Rightarrow> nat" where
  "pbtoperation s p = unat (drop_bit 9 (pbtflags s p) AND 3)"
definition pbtgrayoffset :: "vm \<Rightarrow> LispPTR \<Rightarrow> int" where
  "pbtgrayoffset s p = uint (drop_bit 8 (pbt_word s p 7) AND 15)"
definition pbtgrayheightlessone :: "vm \<Rightarrow> LispPTR \<Rightarrow> int" where
  "pbtgrayheightlessone s p = uint (pbt_word s p 7 AND 15)"

definition N_OP_pilotbitblt :: "LispPTR \<Rightarrow> vm \<Rightarrow> LispPTR \<times> vm" where
  "N_OP_pilotbitblt p s =
     (if pbtheight s p \<le> 0 \<or> pbtwidth s p \<le> 0 then (p, s)
      else (p, new_bitblt_code
             \<lparr>bb_srcbase = In_lisp (pbtsource s p), bb_dstbase = pbtdest s p, bb_sx = pbtsourcebit s p,
              bb_dx = pbtdestbit s p, bb_w = pbtwidth s p, bb_h = pbtheight s p,
              bb_srcbpl = pbtsourcebpl s p, bb_dstbpl = pbtdestbpl s p, bb_backward = bit (pbtflags s p) 15,
              bb_comp = bit (pbtflags s p) 11, bb_op = pbtoperation s p, bb_gray = bit (pbtflags s p) 12,
              bb_num_gray = pbtgrayheightlessone s p + 1, bb_curr_gray = pbtgrayoffset s p\<rparr> s))"

end
