(* ===== verification/BitBlt_Pixels.thy ===== *)
theory BitBlt_Pixels
  imports BitBlt
begin

text \<open>
  The memory as a sequence of bits, from the left end of the first cell on: what the word operations of
  \<open>BitBlt\<close> do to it, and the reference for one transfer, a simultaneous assignment to a set of bits.
\<close>

section \<open>Bit positions and cells\<close>

lemma block_split: "(p :: int) = 32 * (p div 32) + p mod 32" "0 \<le> p mod 32" "p mod 32 < (32 :: int)"
  by simp_all

lemma block_unique: "32 * k \<le> p \<Longrightarrow> p < 32 * k + 32 \<Longrightarrow> p div 32 = k \<and> p mod 32 = p - (32 :: int) * k"
proof -
  assume h: "32 * k \<le> p" "p < 32 * k + 32"
  have e: "p = (p - 32 * k) + 32 * k" by simp
  have "p div 32 = k" by (subst e, subst div_mult_self2) (use h in simp_all)
  then show ?thesis using block_split(1) [of p] by simp
qed

lemma block_splitE: obtains q m where "(p :: int) = 32 * q + m" "0 \<le> m" "m < 32" "p div 32 = q" "p mod 32 = m"
  using block_split [of p] by blast

lemma span_more:
  assumes "32 < D mod 32 + (w :: int)"
  shows "32 * (D div 32 + 1) \<le> D + w" "D < 32 * (D div 32 + 1)"
    "D \<le> 32 * ((D + w - 1) div 32)" "32 * ((D + w - 1) div 32) \<le> D + w - 1"
proof -
  obtain q m where d: "D = 32 * q + m" "0 \<le> m" "m < 32" "D div 32 = q" "D mod 32 = m" by (rule block_splitE)
  obtain q' m' where e: "D + w - 1 = 32 * q' + m'" "0 \<le> m'" "m' < 32" "(D + w - 1) div 32 = q'" by (rule block_splitE)
  have w: "32 < m + w" using assms d(5) by simp
  then have q: "q + 1 \<le> q'" using d(1-3) e(1-3) by linarith
  show "32 * (D div 32 + 1) \<le> D + w" "D < 32 * (D div 32 + 1)" unfolding d(4) using w d(1-3) by simp_all
  show "D \<le> 32 * ((D + w - 1) div 32)" unfolding e(4) using q d(1-3) by linarith
  show "32 * ((D + w - 1) div 32) \<le> D + w - 1" unfolding e(4) using e(1-3) by linarith
qed

lemma span_end:
  "32 * (D div 32 + (D mod 32 + w) div 32) \<le> D + w" "D + w < 32 * (D div 32 + (D mod 32 + w) div 32) + (32 :: int)"
proof -
  obtain q m where d: "D = 32 * q + m" "0 \<le> m" "m < 32" "D div 32 = q" "D mod 32 = m" by (rule block_splitE)
  obtain q' m' where e: "m + w = 32 * q' + m'" "0 \<le> m'" "m' < 32" "(m + w) div 32 = q'" by (rule block_splitE)
  show "32 * (D div 32 + (D mod 32 + w) div 32) \<le> D + w" "D + w < 32 * (D div 32 + (D mod 32 + w) div 32) + 32"
    unfolding d(4,5) e(4) using d(1) e(1-3) by simp_all
qed

lemma block_end: "(p - 1) mod 32 = 31 \<Longrightarrow> 32 * k \<le> p \<Longrightarrow> p < 32 * k + 32 \<Longrightarrow> p = 32 * (k :: int)"
proof -
  assume h: "(p - 1) mod 32 = 31" "32 * k \<le> p" "p < 32 * k + 32"
  obtain q m where d: "p - 1 = 32 * q + m" "(p - 1) mod 32 = m" by (rule block_splitE)
  have "p = 32 * (q + 1)" using d h(1) by simp
  moreover from this have "q + 1 = k" using h(2,3) by simp
  ultimately show ?thesis by simp
qed

lemma block_start: "p mod 32 = 0 \<Longrightarrow> p \<le> 32 * (k + 1) \<Longrightarrow> 32 * k < p \<Longrightarrow> p = 32 * (k + 1 :: int)"
  using block_end [of p "k + 1"] block_unique [of k "p - 1"] block_unique [of k p] by (cases "p = 32 * (k + 1)") auto

section \<open>Bits of a cell\<close>

definition lbit :: "32 word \<Rightarrow> int \<Rightarrow> bool" where "lbit x i = bit x (nat (31 - i))"

definition in_cell :: "int \<Rightarrow> bool" where "in_cell i \<longleftrightarrow> 0 \<le> i \<and> i < 32"

lemma in_cell_mod [simp]: "in_cell (p mod 32)"
  by (simp add: in_cell_def)

lemma lbit_ops [simp]:
  "lbit (x AND y) i = (lbit x i \<and> lbit y i)"
  "lbit (x OR y) i = (lbit x i \<or> lbit y i)"
  "lbit (x XOR y) i = (lbit x i \<noteq> lbit y i)"
  by (auto simp: lbit_def bit_simps)

lemma lbit_not [simp]: "in_cell i \<Longrightarrow> lbit (NOT x) i = (\<not> lbit x i)"
  by (auto simp: lbit_def in_cell_def bit_simps)

lemma lbit_ones [simp]: "in_cell i \<Longrightarrow> lbit ALL_ONES i"
proof -
  have e: "ALL_ONES = - 1" by (simp add: ALL_ONES_def)
  assume "in_cell i"
  then show ?thesis unfolding e by (auto simp: lbit_def in_cell_def)
qed

lemma lbit_0 [simp]: "\<not> lbit 0 i"
  by (simp add: lbit_def)

lemma lbit_push: "in_cell i \<Longrightarrow> lbit (push_bit n x) i = (i + int n < 32 \<and> lbit x (i + int n))"
proof -
  assume i: "in_cell i"
  have e: "nat (31 - i) - n = nat (31 - (i + int n))" by simp
  have "n \<le> nat (31 - i) \<longleftrightarrow> i + int n < 32" using i by (auto simp: in_cell_def)
  moreover have "nat (31 - i) < 32" using i by (auto simp: in_cell_def)
  ultimately show ?thesis unfolding lbit_def bit_push_bit_iff e by auto
qed

lemma lbit_drop: "in_cell i \<Longrightarrow> lbit (drop_bit n x) i = (int n \<le> i \<and> lbit x (i - int n))"
proof -
  assume i: "in_cell i"
  show ?thesis
  proof (cases "int n \<le> i")
    case True
    then have "n + nat (31 - i) = nat (31 - (i - int n))" using i by (auto simp: in_cell_def)
    then show ?thesis using True by (simp add: lbit_def bit_drop_bit_eq)
  next
    case False
    then have "n + nat (31 - i) \<ge> 32" using i by (auto simp: in_cell_def)
    then show ?thesis using False bit_imp_le_length [of x "n + nat (31 - i)"]
      by (auto simp: lbit_def bit_drop_bit_eq)
  qed
qed

lemma lbit_lmask: "in_cell l \<Longrightarrow> in_cell i \<Longrightarrow> lbit (lbit_mask l) i \<longleftrightarrow> l \<le> i"
proof -
  assume l: "in_cell l" and i: "in_cell i"
  show ?thesis
  proof (cases "l = 0")
    case False
    then have "in_cell (i + int (nat (32 - l))) \<or> \<not> i + int (nat (32 - l)) < 32"
      using l i by (auto simp: in_cell_def)
    then show ?thesis using False l i by (auto simp: lbit_mask_def lbit_push) (auto simp: in_cell_def)
  qed (use i in \<open>auto simp: lbit_mask_def in_cell_def [of i]\<close>)
qed

lemma lbit_rmask: "in_cell r \<Longrightarrow> in_cell i \<Longrightarrow> lbit (rbit_mask r) i \<longleftrightarrow> i \<le> r"
proof -
  assume r: "in_cell r" and i: "in_cell i"
  have e: "int (nat (31 - r)) = 31 - r" using r by (simp add: in_cell_def)
  have "i + (31 - r) < 32 \<Longrightarrow> in_cell (i + (31 - r))" using r i by (auto simp: in_cell_def)
  then show ?thesis using r i unfolding rbit_mask_def lbit_push [OF i] e by auto
qed

lemma lbit_eqI: "(\<And>i. in_cell i \<Longrightarrow> lbit x i = lbit y i) \<Longrightarrow> x = y"
proof (rule bit_word_eqI)
  fix n assume h: "\<And>i. in_cell i \<Longrightarrow> lbit x i = lbit y i" and n: "n < LENGTH(32)"
  have "nat (31 - (31 - int n)) = n" by simp
  then show "bit x n = bit y n" using h [of "31 - int n"] n by (simp add: lbit_def in_cell_def)
qed

section \<open>Combining a source bit with a destination bit\<close>

definition pix_op :: "nat \<Rightarrow> bool \<Rightarrow> bool \<Rightarrow> bool \<Rightarrow> bool" where
  "pix_op opn c d x = (let y = (c \<noteq> x) in
     if opn = 0 then y else if opn = 1 then d \<and> y else if opn = 2 then d \<or> y else if opn = 3 then d \<noteq> y else d)"

lemma lbit_assign: "in_cell i \<Longrightarrow> lbit (bb_assign opn d (compl_if c x)) i = pix_op opn c (lbit d i) (lbit x i)"
  by (auto simp: bb_assign_def compl_if_def pix_op_def)

section \<open>The memory as bits\<close>

definition LAST_BIT :: int where "LAST_BIT = 2 ^ 36"

definition pix :: "vm \<Rightarrow> int \<Rightarrow> bool" where "pix s p = lbit (rdc s (p div 32)) (p mod 32)"

definition shows_image :: "vm \<Rightarrow> (int \<Rightarrow> bool) \<Rightarrow> bool" where
  "shows_image s m \<longleftrightarrow> (\<forall>p. 0 \<le> p \<and> p < LAST_BIT \<longrightarrow> pix s p = m p)"

text \<open>The bits of \<open>A\<close> get the combination with the bit \<open>d\<close> further on; all at once.\<close>

definition blt_on :: "nat \<Rightarrow> bool \<Rightarrow> int \<Rightarrow> int set \<Rightarrow> (int \<Rightarrow> bool) \<Rightarrow> int \<Rightarrow> bool" where
  "blt_on opn c d A m = (\<lambda>p. if p \<in> A then pix_op opn c (m p) (m (p + d)) else m p)"

lemma cell_address_inj:
  "0 \<le> j \<Longrightarrow> j < 2 ^ 31 \<Longrightarrow> 0 \<le> k \<Longrightarrow> k < 2 ^ 31 \<Longrightarrow>
     (word_of_int (2 * j) :: 32 word) = word_of_int (2 * k) \<longleftrightarrow> j = k"
proof -
  assume h: "0 \<le> j" "j < 2 ^ 31" "0 \<le> k" "k < 2 ^ 31"
  have "uint (word_of_int (2 * j) :: 32 word) = 2 * j" "uint (word_of_int (2 * k) :: 32 word) = 2 * k"
    using h by (subst uint_word_of_int, simp)+
  then show ?thesis by (metis mult_cancel_left zero_neq_numeral)
qed

lemma cell_bounds: "0 \<le> p \<Longrightarrow> p < LAST_BIT \<Longrightarrow> 0 \<le> p div 32 \<and> p div 32 < 2 ^ 31"
  by (auto simp: LAST_BIT_def)

lemma pix_wrc:
  assumes "0 \<le> k" "k < 2 ^ 31" "0 \<le> p" "p < LAST_BIT"
  shows "pix (wrc k x s) p = (if p div 32 = k then lbit x (p mod 32) else pix s p)"
proof -
  have "rdc (wrc k x s) (p div 32) = (if p div 32 = k then x else rdc s (p div 32))"
    using cell_address_inj [of "p div 32" k] cell_bounds [of p] assms by (simp add: rdc_def wrc_def rd_wr)
  then show ?thesis by (simp add: pix_def)
qed

definition mask_set :: "int \<Rightarrow> 32 word \<Rightarrow> int set" where
  "mask_set k msk = {p. p div 32 = k \<and> lbit msk (p mod 32)}"

text \<open>One masked store extends the set of bits that are done.\<close>

lemma store_step:
  assumes s: "shows_image s (blt_on opn c d A m)" and k: "0 \<le> k" "k < 2 ^ 31"
    and fresh: "mask_set k msk \<inter> A = {}"
    and src: "\<And>p. p \<in> mask_set k msk \<Longrightarrow> lbit y (p mod 32) = m (p + d)"
  shows "shows_image (wrc k ((bb_assign opn (rdc s k) (compl_if c y) AND msk) OR (rdc s k AND NOT msk)) s)
           (blt_on opn c d (A \<union> mask_set k msk) m)"
  unfolding shows_image_def
proof (intro allI impI)
  fix p assume p: "0 \<le> p \<and> p < LAST_BIT"
  have old: "pix s p = blt_on opn c d A m p" using s p by (simp add: shows_image_def)
  show "pix (wrc k ((bb_assign opn (rdc s k) (compl_if c y) AND msk) OR (rdc s k AND NOT msk)) s) p =
        blt_on opn c d (A \<union> mask_set k msk) m p"
  proof (cases "p div 32 = k")
    case False
    then show ?thesis using p k old by (simp add: pix_wrc blt_on_def mask_set_def)
  next
    case True
    have d: "lbit (rdc s k) (p mod 32) = pix s p" using True by (simp add: pix_def)
    show ?thesis
    proof (cases "p \<in> mask_set k msk")
      case True
      then have "p \<notin> A" using fresh by auto
      moreover have "lbit msk (p mod 32)" using True by (simp add: mask_set_def)
      ultimately show ?thesis using \<open>p div 32 = k\<close> p k old d src [OF True] True
        by (simp add: pix_wrc lbit_assign) (simp add: blt_on_def)
    next
      case F: False
      then have "\<not> lbit msk (p mod 32)" using True by (simp add: mask_set_def)
      then show ?thesis using \<open>p div 32 = k\<close> p k old d F by (simp add: pix_wrc) (simp add: blt_on_def)
    qed
  qed
qed

lemma full_mask: "(x AND ALL_ONES) OR (z AND NOT ALL_ONES) = x"
  by (rule lbit_eqI) simp

lemma mask_set_full: "mask_set k ALL_ONES = {32 * k..<32 * k + 32}"
  by (auto simp: mask_set_def)

lemma mask_set_iff: "p \<in> mask_set k msk \<longleftrightarrow> 32 * k \<le> p \<and> p < 32 * k + 32 \<and> lbit msk (p - 32 * k)"
proof -
  have "p div 32 = k \<longleftrightarrow> 32 * k \<le> p \<and> p < 32 * k + 32" using block_split [of p] block_unique [of k p] by auto
  moreover have "p mod 32 = p - 32 * (p div 32)" by (simp add: minus_mult_div_eq_mod)
  ultimately show ?thesis by (auto simp: mask_set_def)
qed

lemma mask_set_left: "in_cell l \<Longrightarrow> mask_set k (lbit_mask l) = {32 * k + l..<32 * k + 32}"
  by (auto simp: mask_set_iff in_cell_def lbit_lmask [unfolded in_cell_def])

lemma mask_set_right: "in_cell r \<Longrightarrow> mask_set k (rbit_mask r) = {32 * k..32 * k + r}"
  by (auto simp: mask_set_iff in_cell_def lbit_rmask [unfolded in_cell_def])

lemma mask_set_both: "in_cell l \<Longrightarrow> in_cell r \<Longrightarrow> mask_set k (lbit_mask l AND rbit_mask r) = {32 * k + l..32 * k + r}"
  by (auto simp: mask_set_iff in_cell_def lbit_rmask [unfolded in_cell_def] lbit_lmask [unfolded in_cell_def])

lemma store_cell:
  assumes s: "shows_image s (blt_on opn c d A m)" and k: "0 \<le> k" "k < 2 ^ 31"
    and fresh: "{32 * k..<32 * k + 32} \<inter> A = {}"
    and src: "\<And>i. in_cell i \<Longrightarrow> lbit y i = m (32 * k + i + d)"
  shows "shows_image (wrc k (bb_assign opn (rdc s k) (compl_if c y)) s) (blt_on opn c d (A \<union> {32 * k..<32 * k + 32}) m)"
proof -
  have "\<And>p. p \<in> mask_set k ALL_ONES \<Longrightarrow> lbit y (p mod 32) = m (p + d)"
  proof -
    fix p assume "p \<in> mask_set k ALL_ONES"
    then have "32 * k + p mod 32 = p" by (auto simp: mask_set_def)
    then show "lbit y (p mod 32) = m (p + d)" using src [of "p mod 32"] by simp
  qed
  then show ?thesis using store_step [OF s k, of ALL_ONES y] fresh by (simp add: full_mask mask_set_full)
qed

section \<open>Lines\<close>

definition in_memory :: "int \<Rightarrow> int \<Rightarrow> bool" where "in_memory p w \<longleftrightarrow> 0 \<le> p \<and> p + w \<le> LAST_BIT"

definition line_ok :: "bb_args \<Rightarrow> int \<Rightarrow> int \<Rightarrow> bool" where
  "line_ok a D S \<longleftrightarrow> 0 < bb_w a \<and> bb_op a < 4 \<and> in_memory D (bb_w a) \<and> in_memory S (bb_w a)"

text \<open>The distance from destination to source, in cells and bits.\<close>

definition far :: "int \<Rightarrow> int \<Rightarrow> int" where "far D S = (S - D) div 32"
definition off :: "int \<Rightarrow> int \<Rightarrow> int" where "off D S = (S - D) mod 32"

lemma distance: "S - D = 32 * far D S + off D S" and off_range: "0 \<le> off D S" "off D S < 32"
  by (simp_all add: far_def off_def)

definition shifts_ok :: "int \<Rightarrow> int \<Rightarrow> bb_vars \<Rightarrow> bool" where
  "shifts_ok D S v \<longleftrightarrow> srcLshift v = nat (off D S) \<and> srcRshift v = nat ((D - S) mod 32)"

definition src_vars :: "bb_args \<Rightarrow> 32 word \<Rightarrow> int \<Rightarrow> int \<Rightarrow> bb_vars \<Rightarrow> bool" where
  "src_vars a am D S v \<longleftrightarrow>
     src32lbit v = S mod 32 \<and> src32rbit v = (S + bb_w a - 1) mod 32 \<and> shifts_ok D S v \<and>
     srcRmask v = (if off D S \<noteq> 0 then NOT (push_bit (nat (off D S)) ALL_ONES) else am)"

text \<open>What a line changes.\<close>

definition same_line :: "bb_vars \<Rightarrow> bb_vars \<Rightarrow> bool" where
  "same_line v v' \<longleftrightarrow>
     v' = v\<lparr>dst32addr := dst32addr v', src32addr := src32addr v', shS := shS v', savedS := savedS v'\<rparr>"

lemma same_line_refl: "same_line v v"
  by (simp add: same_line_def)

lemma same_line_upd:
  "same_line v v' \<Longrightarrow> same_line v (v'\<lparr>dst32addr := d\<rparr>)"
  "same_line v v' \<Longrightarrow> same_line v (v'\<lparr>src32addr := d\<rparr>)"
  "same_line v v' \<Longrightarrow> same_line v (v'\<lparr>shS := x\<rparr>)"
  "same_line v v' \<Longrightarrow> same_line v (v'\<lparr>savedS := x\<rparr>)"
  by (cases v; cases v'; simp add: same_line_def)+

lemma same_line_fields:
  "same_line v v' \<Longrightarrow> OrigDstAddr v' = OrigDstAddr v \<and> OrigSrcAddr v' = OrigSrcAddr v \<and>
     dst32lbit v' = dst32lbit v \<and> dst32rbit v' = dst32rbit v \<and> src32lbit v' = src32lbit v \<and>
     src32rbit v' = src32rbit v \<and> srcLshift v' = srcLshift v \<and> srcRshift v' = srcRshift v \<and>
     srcRmask v' = srcRmask v \<and> preloop_mask v' = preloop_mask v \<and> postloop_mask v' = postloop_mask v \<and>
     sdw_mask v' = sdw_mask v \<and> dstnumL v' = dstnumL v \<and> bb_fast v' = bb_fast v \<and>
     gray_src v' = gray_src v \<and> curr_gray_line v' = curr_gray_line v"
  by (cases v; cases v'; simp add: same_line_def)

lemma cell_range: "line_ok a D S \<Longrightarrow> D \<le> 32 * k + i \<Longrightarrow> 32 * k + i < D + bb_w a \<Longrightarrow> in_cell i \<Longrightarrow> 0 \<le> k \<and> k < 2 ^ 31"
  by (auto simp: line_ok_def in_memory_def in_cell_def LAST_BIT_def)

lemma src_cell:
  "S div 32 = D div 32 + far D S + (if D mod 32 + off D S < 32 then 0 else 1)"
  "S mod 32 = D mod 32 + off D S - (if D mod 32 + off D S < 32 then 0 else 32)"
proof -
  define k l where "k = D div 32" and "l = D mod 32"
  have D: "D = 32 * k + l" and l: "0 \<le> l" "l < 32" by (simp_all add: k_def l_def)
  have S: "S = 32 * (k + far D S) + (l + off D S)" using distance [of S D] D by simp
  let ?e = "if l + off D S < 32 then 0 else 1 :: int"
  have "S = 32 * (k + far D S + ?e) + (l + off D S - 32 * ?e)" using S by simp
  moreover have "0 \<le> l + off D S - 32 * ?e" "l + off D S - 32 * ?e < 32" using l off_range [of D S] by auto
  ultimately have "S div 32 = k + far D S + ?e \<and> S mod 32 = l + off D S - 32 * ?e"
    by (metis div_mult_self4 div_pos_pos_trivial mod_mult_self4 mod_pos_pos_trivial add.commute add_0 zero_neq_numeral)
  then show "S div 32 = D div 32 + far D S + (if D mod 32 + off D S < 32 then 0 else 1)"
    and "S mod 32 = D mod 32 + off D S - (if D mod 32 + off D S < 32 then 0 else 32)"
    by (auto simp: k_def l_def)
qed

lemma aligned_iff: "S mod 32 = D mod 32 \<longleftrightarrow> off D S = 0"
  by (simp add: off_def mod_eq_dvd_iff dvd_eq_mod_eq_0)

section \<open>Reading the source\<close>

lemma read_bit:
  "shows_image s (blt_on opn c d A m) \<Longrightarrow> in_cell i \<Longrightarrow> 0 \<le> k \<Longrightarrow> 32 * k + i < LAST_BIT \<Longrightarrow> 32 * k + i \<notin> A \<Longrightarrow>
     lbit (rdc s k) i = m (32 * k + i)"
proof -
  assume h: "shows_image s (blt_on opn c d A m)" "in_cell i" "0 \<le> k" "32 * k + i < LAST_BIT" "32 * k + i \<notin> A"
  have e: "(32 * k + i) div 32 = k" "(32 * k + i) mod 32 = i" using h(2) by (auto simp: in_cell_def)
  have "pix s (32 * k + i) = blt_on opn c d A m (32 * k + i)"
    using h by (simp add: shows_image_def in_cell_def)
  then show ?thesis using h(5) unfolding pix_def e by (simp add: blt_on_def)
qed

lemma shift_sum: "shifts_ok D S v \<Longrightarrow> off D S \<noteq> 0 \<Longrightarrow>
   int (srcLshift v) = off D S \<and> int (srcRshift v) = 32 - off D S"
proof -
  assume h: "shifts_ok D S v" "off D S \<noteq> 0"
  have "(D - S) mod 32 = 32 - off D S" using h(2) zmod_zminus1_eq_if [of "S - D" 32] by (simp add: off_def)
  then show ?thesis using h off_range [of D S] by (simp add: shifts_ok_def)
qed

lemma shift_none: "shifts_ok D S v \<Longrightarrow> off D S = 0 \<Longrightarrow> srcLshift v = 0 \<and> srcRshift v = 0"
proof -
  assume h: "shifts_ok D S v" "off D S = 0"
  have "(D - S) mod 32 = 0" using h(2) zmod_zminus1_eq_if [of "S - D" 32] by (simp add: off_def)
  then show ?thesis using h by (simp add: shifts_ok_def)
qed

lemma read_shifted:
  assumes ok: "line_ok a D S" and s: "shows_image s (blt_on opn c (S - D) A m)"
    and p: "D \<le> 32 * k + i" "32 * k + i < D + bb_w a" and new: "32 * k + i + (S - D) \<notin> A"
    and j: "in_cell j" and e: "32 * k' + j = 32 * k + i + (S - D)"
  shows "lbit (rdc s k') j = m (32 * k + i + (S - D))"
proof -
  have f: "0 \<le> 32 * k + i + (S - D)" "32 * k + i + (S - D) < LAST_BIT"
    using ok p by (auto simp: line_ok_def in_memory_def)
  have "0 \<le> k'" using f(1) e j by (simp add: in_cell_def)
  then show ?thesis using read_bit [OF s j, of k'] f e new by simp
qed

lemma push_source:
  assumes ok: "line_ok a D S" and s: "shows_image s (blt_on opn c (S - D) A m)"
    and p: "D \<le> 32 * k + i" "32 * k + i < D + bb_w a" and new: "32 * k + i + (S - D) \<notin> A"
    and L: "int n = off D S" and k': "k' = k + far D S" and i: "in_cell i"
  shows "lbit (push_bit n (rdc s k')) i = (i + off D S < 32 \<and> m (32 * k + i + (S - D)))"
proof (cases "i + off D S < 32")
  case True
  then have j: "in_cell (i + off D S)" using i off_range [of D S] by (auto simp: in_cell_def)
  have "lbit (rdc s k') (i + off D S) = m (32 * k + i + (S - D))"
    using distance [of S D] by (intro read_shifted [OF ok s p new j]) (simp add: k')
  then show ?thesis using True i L by (simp add: lbit_push)
qed (use i L in \<open>simp add: lbit_push\<close>)

lemma drop_source:
  assumes ok: "line_ok a D S" and s: "shows_image s (blt_on opn c (S - D) A m)"
    and p: "D \<le> 32 * k + i" "32 * k + i < D + bb_w a" and new: "32 * k + i + (S - D) \<notin> A"
    and R: "int n = 32 - off D S" and k': "k' = k + far D S + 1" and i: "in_cell i"
  shows "lbit (drop_bit n (rdc s k')) i = (32 \<le> i + off D S \<and> m (32 * k + i + (S - D)))"
proof (cases "32 \<le> i + off D S")
  case True
  then have j: "in_cell (i - (32 - off D S))" using i off_range [of D S] by (auto simp: in_cell_def)
  have "lbit (rdc s k') (i - (32 - off D S)) = m (32 * k + i + (S - D))"
    using distance [of S D] by (intro read_shifted [OF ok s p new j]) (simp add: k')
  then show ?thesis using True i R by (simp add: lbit_drop)
qed (use i R in \<open>simp add: lbit_drop\<close>)

section \<open>Storing what was read\<close>

definition got :: "bb_args \<Rightarrow> int \<Rightarrow> int \<Rightarrow> (int \<Rightarrow> bool) \<Rightarrow> int \<Rightarrow> 32 word \<Rightarrow> bool" where
  "got a D S m k x \<longleftrightarrow> (\<exists>y. x = compl_if (bb_comp a) y \<and>
     (\<forall>i. in_cell i \<longrightarrow> D \<le> 32 * k + i \<longrightarrow> 32 * k + i < D + bb_w a \<longrightarrow> lbit y i = m (32 * k + i + (S - D))))"

lemma gotI:
  "(\<And>i. in_cell i \<Longrightarrow> D \<le> 32 * k + i \<Longrightarrow> 32 * k + i < D + bb_w a \<Longrightarrow> lbit y i = m (32 * k + i + (S - D))) \<Longrightarrow>
     got a D S m k (compl_if (bb_comp a) y)"
  unfolding got_def by blast

text \<open>A masked store of such a word.\<close>

lemma got_store:
  assumes ok: "line_ok a D S" and g: "got a D S m k (shS v)" and dk: "dst32addr v = k"
    and s: "shows_image s (blt_on (bb_op a) (bb_comp a) (S - D) A m)"
    and r: "mask_set k msk \<noteq> {}" "mask_set k msk \<subseteq> {D..<D + bb_w a}" "mask_set k msk \<inter> A = {}"
  shows "shows_image (do_partial_transfer a msk v s) (blt_on (bb_op a) (bb_comp a) (S - D) (A \<union> mask_set k msk) m)"
proof -
  obtain y where y: "shS v = compl_if (bb_comp a) y"
    and yb: "\<And>i. in_cell i \<Longrightarrow> D \<le> 32 * k + i \<Longrightarrow> 32 * k + i < D + bb_w a \<Longrightarrow> lbit y i = m (32 * k + i + (S - D))"
    using g unfolding got_def by blast
  obtain q where q: "q \<in> mask_set k msk" using r(1) by blast
  then have "q = 32 * k + q mod 32" "D \<le> q" "q < D + bb_w a" using r(2) by (auto simp: mask_set_def)
  then have kk: "0 \<le> k" "k < 2 ^ 31" using cell_range [OF ok, of k "q mod 32"] by auto
  have "lbit y (p mod 32) = m (p + (S - D))" if "p \<in> mask_set k msk" for p
  proof -
    have "32 * k + p mod 32 = p" "D \<le> p" "p < D + bb_w a" using that r(2) by (auto simp: mask_set_def)
    then show ?thesis using yb [of "p mod 32"] by simp
  qed
  from store_step [OF s kk r(3) this] show ?thesis by (simp add: do_partial_transfer_def Let_def dk y)
qed

end
