(* ===== verification/BitBlt_Forward.thy ===== *)
theory BitBlt_Forward
  imports BitBlt_Pixels
begin

text \<open>
  One line of a forward transfer (\<open>F_do_src_setup\<close>, \<open>F_do_transfer\<close>): it is the
  simultaneous transfer of its bits, unless the destination starts inside the source.
\<close>

section \<open>The variables of a line and of a position in it\<close>

definition F_ok :: "bb_args \<Rightarrow> int \<Rightarrow> int \<Rightarrow> bool" where
  "F_ok a D S \<longleftrightarrow> line_ok a D S \<and> \<not> (S < D \<and> D < S + bb_w a)"

definition F_dst_vars :: "bb_args \<Rightarrow> int \<Rightarrow> bb_vars \<Rightarrow> bool" where
  "F_dst_vars a D v \<longleftrightarrow>
     OrigDstAddr v = D div 32 \<and> dst32lbit v = D mod 32 \<and> dst32rbit v = (D + bb_w a - 1) mod 32 \<and>
     preloop_mask v = lbit_mask (D mod 32) \<and> postloop_mask v = rbit_mask ((D + bb_w a - 1) mod 32) \<and>
     sdw_mask v = preloop_mask v AND postloop_mask v \<and> dstnumL v = (D mod 32 + bb_w a) div 32 - 1"

definition F_line_vars :: "bb_args \<Rightarrow> int \<Rightarrow> int \<Rightarrow> bb_vars \<Rightarrow> bool" where
  "F_line_vars a D S v \<longleftrightarrow> F_dst_vars a D v \<and> OrigSrcAddr v = S div 32 \<and> src_vars a ALL_ONES D S v"

section \<open>Reading the source\<close>

lemma F_line_ok: "F_ok a D S \<Longrightarrow> line_ok a D S"
  by (simp add: F_ok_def)

lemma F_unread: "F_ok a D S \<Longrightarrow> b \<le> p \<Longrightarrow> D \<le> p \<Longrightarrow> p < D + bb_w a \<Longrightarrow> p + (S - D) \<notin> {D..<b}"
  by (auto simp: F_ok_def)

definition F_stream :: "bb_args \<Rightarrow> int \<Rightarrow> int \<Rightarrow> (int \<Rightarrow> bool) \<Rightarrow> int \<Rightarrow> bb_vars \<Rightarrow> bool" where
  "F_stream a D S m k v \<longleftrightarrow>
     src32addr v = k + far D S + (if off D S = 0 then 0 else 1) \<and>
     (\<forall>i. in_cell i \<longrightarrow> 32 * k + i < D + bb_w a \<longrightarrow>
        lbit (savedS v) i = (off D S \<noteq> 0 \<and> i + off D S < 32 \<and> m (32 * k + i + (S - D))))"

lemmas F_push = push_source [OF F_line_ok _ _ _ F_unread]
lemmas F_drop = drop_source [OF F_line_ok _ _ _ F_unread]
lemmas F_read = read_shifted [OF F_line_ok _ _ _ F_unread]

lemma F_get:
  assumes ok: "F_ok a D S" and s: "shows_image s (blt_on opn c (S - D) {D..<b} m)"
    and p: "b \<le> 32 * k + i" "D \<le> 32 * k + i" "32 * k + i < D + bb_w a"
    and sh: "shifts_ok D S v" and L: "off D S \<noteq> 0"
    and st: "F_stream a D S m k v" and i: "in_cell i"
  shows "lbit (savedS v OR drop_bit (srcRshift v) (rdc s (src32addr v))) i = m (32 * k + i + (S - D))"
proof -
  have a: "src32addr v = k + far D S + 1" using st L by (simp add: F_stream_def)
  have sv: "lbit (savedS v) i = (i + off D S < 32 \<and> m (32 * k + i + (S - D)))"
    using st i p(3) L by (simp add: F_stream_def)
  show ?thesis using F_drop [OF ok s p(2,3) ok p _ a i] shift_sum [OF sh L] sv by auto
qed

section \<open>The inner loop\<close>

definition F_inv :: "bb_args \<Rightarrow> int \<Rightarrow> int \<Rightarrow> (int \<Rightarrow> bool) \<Rightarrow> bb_vars \<Rightarrow> int \<Rightarrow> bb_vars \<times> vm \<Rightarrow> bool" where
  "F_inv a D S m v0 k vs \<longleftrightarrow>
     same_line v0 (fst vs) \<and> dst32addr (fst vs) = k \<and> F_stream a D S m k (fst vs) \<and>
     shows_image (snd vs) (blt_on (bb_op a) (bb_comp a) (S - D) {D..<32 * k} m)"

lemma F_step_shifted:
  assumes ok: "F_ok a D S" and sh: "shifts_ok D S v0" and L: "off D S \<noteq> 0"
    and k: "D \<le> 32 * k" "32 * k + 32 \<le> D + bb_w a" and inv: "F_inv a D S m v0 k vs"
  shows "F_inv a D S m v0 (k + 1) ((DestGetsF a \<circ> GetSrcF a) vs)"
proof -
  obtain v s where vs: "vs = (v, s)" by (cases vs)
  have sl: "same_line v0 v" and dk: "dst32addr v = k" and st: "F_stream a D S m k v"
    and im: "shows_image s (blt_on (bb_op a) (bb_comp a) (S - D) {D..<32 * k} m)"
    using inv by (simp_all add: F_inv_def vs)
  have shv: "shifts_ok D S v" using sh same_line_fields [OF sl] by (simp add: shifts_ok_def)
  let ?y = "savedS v OR drop_bit (srcRshift v) (rdc s (src32addr v))"
  have y: "lbit ?y i = m (32 * k + i + (S - D))" if "in_cell i" for i
    using that k by (intro F_get [OF ok im _ _ _ shv L st]) (simp_all add: in_cell_def)
  have kk: "0 \<le> k" "k < 2 ^ 31" using cell_range [OF F_line_ok [OF ok], of k 0] k by (simp_all add: in_cell_def)
  have im1: "shows_image (wrc k (bb_assign (bb_op a) (rdc s k) (compl_if (bb_comp a) ?y)) s)
               (blt_on (bb_op a) (bb_comp a) (S - D) ({D..<32 * k} \<union> {32 * k..<32 * k + 32}) m)"
    using k by (intro store_cell [OF im kk _ y]) auto
  have A: "{D..<32 * k} \<union> {32 * k..<32 * k + 32} = {D..<32 * (k + 1)}" using k by auto
  have sa: "src32addr v = k + 1 + far D S" using st L by (simp add: F_stream_def)
  have st1: "lbit (push_bit (srcLshift v) (rdc s (src32addr v))) i =
             (i + off D S < 32 \<and> m (32 * (k + 1) + i + (S - D)))"
    if "in_cell i" "32 * (k + 1) + i < D + bb_w a" for i
    using that k shift_sum [OF shv L] by (intro F_push [OF ok im _ _ ok _ _ _ _ sa]) (simp_all add: in_cell_def)
  show ?thesis unfolding vs using sl dk im1 sa st1 L
    by (simp add: F_inv_def DestGetsF_def GetSrcF_def Let_def same_line_upd F_stream_def A)
qed

lemma F_step_aligned:
  assumes ok: "F_ok a D S" and L: "off D S = 0"
    and k: "D \<le> 32 * k" "32 * k + 32 \<le> D + bb_w a" and inv: "F_inv a D S m v0 k vs"
  shows "F_inv a D S m v0 (k + 1) (AlignedF a vs)"
proof -
  obtain v s where vs: "vs = (v, s)" by (cases vs)
  have sl: "same_line v0 v" and dk: "dst32addr v = k" and st: "F_stream a D S m k v"
    and im: "shows_image s (blt_on (bb_op a) (bb_comp a) (S - D) {D..<32 * k} m)"
    using inv by (simp_all add: F_inv_def vs)
  have sa: "src32addr v = k + far D S" using st L by (simp add: F_stream_def)
  have sp: "S - D = 32 * far D S" using distance [of S D] L by simp
  have y: "lbit (rdc s (src32addr v)) i = m (32 * k + i + (S - D))" if "in_cell i" for i
    using that k sp by (intro F_read [OF ok im _ _ ok _ _ _ that]) (simp_all add: in_cell_def sa)
  have kk: "0 \<le> k" "k < 2 ^ 31" using cell_range [OF F_line_ok [OF ok], of k 0] k by (simp_all add: in_cell_def)
  have im1: "shows_image (wrc k (bb_assign (bb_op a) (rdc s k) (compl_if (bb_comp a) (rdc s (src32addr v)))) s)
               (blt_on (bb_op a) (bb_comp a) (S - D) ({D..<32 * k} \<union> {32 * k..<32 * k + 32}) m)"
    using k by (intro store_cell [OF im kk _ y]) auto
  have A: "{D..<32 * k} \<union> {32 * k..<32 * k + 32} = {D..<32 * (k + 1)}" using k by auto
  show ?thesis unfolding vs using sl dk im1 sa st L
    by (simp add: F_inv_def AlignedF_def same_line_upd F_stream_def A)
qed

lemma F_loop:
  assumes ok: "F_ok a D S" and sh: "shifts_ok D S v0"
    and body: "body = (if off D S = 0 then AlignedF a else DestGetsF a \<circ> GetSrcF a)"
    and k: "D \<le> 32 * k" and inv: "F_inv a D S m v0 k vs"
  shows "32 * (k + int n) \<le> D + bb_w a \<Longrightarrow> F_inv a D S m v0 (k + int n) ((body ^^ n) vs)"
proof (induction n)
  case (Suc n)
  have "F_inv a D S m v0 (k + int n) ((body ^^ n) vs)" using Suc by simp
  then have "F_inv a D S m v0 (k + int n + 1) (body ((body ^^ n) vs))"
    using F_step_aligned [OF ok _ _ _ , of "k + int n" m v0 "(body ^^ n) vs"]
      F_step_shifted [OF ok sh _ _ _, of "k + int n" m "(body ^^ n) vs"] Suc.prems k
    unfolding body by (cases "off D S = 0") (simp_all del: o_apply)
  then show ?case by (simp add: ac_simps)
qed (use inv in simp)

section \<open>The whole line\<close>

lemma srcRmask_redundant:
  assumes "src_vars a ALL_ONES D S v"
  shows "drop_bit (srcRshift v) x AND srcRmask v = drop_bit (srcRshift v) x"
    and "push_bit (srcLshift v) x AND NOT (srcRmask v) = (if off D S = 0 then 0 else push_bit (srcLshift v) x)"
proof -
  have sh: "shifts_ok D S v" and m: "srcRmask v = (if off D S \<noteq> 0 then NOT (push_bit (nat (off D S)) ALL_ONES) else ALL_ONES)"
    using assms by (simp_all add: src_vars_def)
  have n: "int (nat (off D S)) = off D S" using off_range [of D S] by simp
  have mb: "lbit (srcRmask v) i = (off D S = 0 \<or> 32 \<le> i + off D S)" if "in_cell i" for i
  proof -
    have "i + off D S < 32 \<Longrightarrow> in_cell (i + off D S)" using that off_range [of D S] by (simp add: in_cell_def)
    then show ?thesis using that n by (auto simp: m lbit_push)
  qed
  show "drop_bit (srcRshift v) x AND srcRmask v = drop_bit (srcRshift v) x"
    using shift_sum [OF sh] by (intro lbit_eqI, cases "off D S = 0") (auto simp: mb lbit_drop)
  show "push_bit (srcLshift v) x AND NOT (srcRmask v) = (if off D S = 0 then 0 else push_bit (srcLshift v) x)"
    using shift_sum [OF sh] by (intro lbit_eqI, cases "off D S = 0") (auto simp: mb lbit_push)
qed

lemma F_setup:
  assumes ok: "F_ok a D S" and lv: "F_line_vars a D S v" and ad: "dst32addr v = D div 32" "src32addr v = S div 32"
    and s: "shows_image s m" and v': "v' = F_do_src_setup a s v"
  shows "same_line v v'" "dst32addr v' = D div 32" "got a D S m (D div 32) (shS v')"
    "D mod 32 + bb_w a > 32 \<Longrightarrow> F_stream a D S m (D div 32 + 1) v'"
proof -
  define k l e where "k = D div 32" and "l = D mod 32" and "e = off D S"
  have D: "D = 32 * k + l" and l: "0 \<le> l" "l < 32" by (simp_all add: k_def l_def)
  have im: "shows_image s (blt_on (bb_op a) (bb_comp a) (S - D) {D..<D} m)" using s by (simp add: blt_on_def)
  have sv: "src_vars a ALL_ONES D S v" and dv: "dst32lbit v = l"
    using lv by (simp_all add: F_line_vars_def F_dst_vars_def l_def)
  have sh: "shifts_ok D S v" and sl: "src32lbit v = S mod 32" using sv by (simp_all add: src_vars_def)
  note sc = src_cell [of S D, folded k_def l_def e_def]
  note red = srcRmask_redundant [OF sv, folded e_def]
  have e: "0 \<le> e" "e < 32" using off_range [of D S] by (simp_all add: e_def)
  let ?n = "rdc s (S div 32)"
  show "same_line v v'" "dst32addr v' = D div 32"
    using ad(1) by (simp_all add: v' F_do_src_setup_def Let_def same_line_upd same_line_refl)
  have push: "lbit (push_bit (srcLshift v) (rdc s k')) i = (i + e < 32 \<and> m (32 * j + i + (S - D)))"
    if "e \<noteq> 0" "k' = j + far D S" "in_cell i" "D \<le> 32 * j + i" "32 * j + i < D + bb_w a" for k' j i
    using that shift_sum [OF sh, folded e_def] unfolding e_def
    by (intro F_push [OF ok im _ _ ok]) simp_all
  have drop: "lbit (drop_bit (srcRshift v) (rdc s k')) i = (32 \<le> i + e \<and> m (32 * j + i + (S - D)))"
    if "e \<noteq> 0" "k' = j + far D S + 1" "in_cell i" "D \<le> 32 * j + i" "32 * j + i < D + bb_w a" for k' j i
    using that shift_sum [OF sh, folded e_def] unfolding e_def
    by (intro F_drop [OF ok im _ _ ok]) simp_all
  have stream: "F_stream a D S m (k + 1) v'" if "e \<noteq> 0" "src32addr v' = k + 2 + far D S"
    "savedS v' = push_bit (srcLshift v) (rdc s (k + 1 + far D S))"
  proof -
    have "D \<le> 32 * (k + 1) + i" if "in_cell i" for i using that D l by (simp add: in_cell_def)
    then show ?thesis using that push [of "k + 1 + far D S" "k + 1"] by (simp add: F_stream_def e_def [symmetric])
  qed
  have "got a D S m k (shS v') \<and> (l + bb_w a > 32 \<longrightarrow> F_stream a D S m (k + 1) v')"
  proof (cases "e = 0")
    case True
    have n: "srcLshift v = 0" "srcRshift v = 0" using shift_none [OF sh] True by (simp_all add: e_def)
    have vv: "v' = v\<lparr>src32addr := k + far D S + 1, shS := compl_if (bb_comp a) (rdc s (k + far D S)), savedS := 0\<rparr>"
      using red [of "rdc s (k + far D S)"] True l sc n by (simp add: v' F_do_src_setup_def Let_def sl dv ad)
    have "lbit (rdc s (k + far D S)) i = m (32 * k + i + (S - D))"
      if "in_cell i" "D \<le> 32 * k + i" "32 * k + i < D + bb_w a" for i
      using that distance [of S D] True by (intro F_read [OF ok im _ _ ok _ _ _ that(1)]) (simp_all add: e_def)
    then have "got a D S m k (shS v')" unfolding vv by (simp add: gotI)
    then show ?thesis using True by (simp add: vv F_stream_def e_def [symmetric])
  next
    case e0: False
    show ?thesis
    proof (cases "l + e < 32")
      case True
      have a: "S div 32 = k + far D S" "S mod 32 = l + e" using sc True by simp_all
      show ?thesis
      proof (cases "l + e + bb_w a > 32")
        case two: True
        let ?y = "push_bit (srcLshift v) (rdc s (k + far D S)) OR drop_bit (srcRshift v) (rdc s (k + far D S + 1))"
        have vv: "src32addr v' = k + 2 + far D S" "shS v' = compl_if (bb_comp a) ?y"
          "savedS v' = push_bit (srcLshift v) (rdc s (k + 1 + far D S))"
          using red a e0 e two by (simp_all add: v' F_do_src_setup_def Let_def sl dv ad ac_simps)
        have "got a D S m k (shS v')" unfolding vv(2)
          by (rule gotI) (use push [OF e0 refl] drop [OF e0 refl] in auto)
        then show ?thesis using stream [OF e0 vv(1,3)] by simp
      next
        case one: False
        have vv: "shS v' = compl_if (bb_comp a) (push_bit (srcLshift v) (rdc s (k + far D S)))"
          using a e0 e one by (simp add: v' F_do_src_setup_def Let_def sl dv ad)
        have "got a D S m k (shS v')" unfolding vv
          by (rule gotI) (use push [OF e0 refl] one D in auto)
        then show ?thesis using one e e0 by simp
      qed
    next
      case False
      have a: "S div 32 = k + far D S + 1" "S mod 32 = l + e - 32" using sc False by simp_all
      have vv: "src32addr v' = k + 2 + far D S"
        "shS v' = compl_if (bb_comp a) (drop_bit (srcRshift v) (rdc s (k + far D S + 1)))"
        "savedS v' = push_bit (srcLshift v) (rdc s (k + 1 + far D S))"
        using red a e0 e by (simp_all add: v' F_do_src_setup_def Let_def sl dv ad ac_simps)
      have "got a D S m k (shS v')" unfolding vv(2)
        by (rule gotI) (use drop [OF e0 refl] False D in auto)
      then show ?thesis using stream [OF e0 vv(1,3)] by simp
    qed
  qed
  then show "got a D S m (D div 32) (shS v')" "D mod 32 + bb_w a > 32 \<Longrightarrow> F_stream a D S m (D div 32 + 1) v'"
    by (simp_all add: k_def l_def)
qed

lemma F_post:
  assumes ok: "F_ok a D S" and sv: "src_vars a ALL_ONES D S v" and dv: "dst32rbit v = (D + bb_w a - 1) mod 32"
    and st: "F_stream a D S m k v" and s: "shows_image s (blt_on opn c (S - D) {D..<32 * k} m)"
    and k: "D \<le> 32 * k" "32 * k \<le> D + bb_w a - 1" "D + bb_w a - 1 < 32 * k + 32"
  shows "got a D S m k (shS (F_do_postloop_src_prep a s v))"
proof -
  define r where "r = (D + bb_w a - 1) mod 32"
  have r: "D + bb_w a - 1 = 32 * k + r" using block_unique [OF k(2,3)] by (simp add: r_def)
  have offs: "off (D + bb_w a - 1) (S + bb_w a - 1) = off D S" by (simp add: off_def)
  have sr: "src32rbit v = r + off D S - (if r + off D S < 32 then 0 else 32)"
    using src_cell(2) [of "S + bb_w a - 1" "D + bb_w a - 1"] sv by (simp add: src_vars_def offs r_def)
  have sh: "shifts_ok D S v" using sv by (simp add: src_vars_def)
  have saved: "lbit (savedS v) i = (off D S \<noteq> 0 \<and> i + off D S < 32 \<and> m (32 * k + i + (S - D)))"
    if "in_cell i" "32 * k + i < D + bb_w a" for i using that st by (simp add: F_stream_def)
  let ?y = "if src32rbit v \<le> dst32rbit v
            then savedS v OR (drop_bit (srcRshift v) (rdc s (src32addr v)) AND srcRmask v) else savedS v"
  have "lbit ?y i = m (32 * k + i + (S - D))"
    if i: "in_cell i" and p: "D \<le> 32 * k + i" "32 * k + i < D + bb_w a" for i
  proof (cases "off D S = 0")
    case True
    have "src32addr v = k + far D S" using st True by (simp add: F_stream_def)
    then have "lbit (rdc s (src32addr v)) i = m (32 * k + i + (S - D))"
      using distance [of S D] True i by (intro F_read [OF ok s p ok _ p i]) (simp_all add: in_cell_def)
    then show ?thesis using saved [OF i p(2)] True sr dv srcRmask_redundant(1) [OF sv] shift_none [OF sh] i off_range [of D S]
      by (simp add: r_def)
  next
    case False
    have g: "lbit (savedS v OR drop_bit (srcRshift v) (rdc s (src32addr v))) i = m (32 * k + i + (S - D))"
      using i by (intro F_get [OF ok s _ p sh False st i]) (simp add: in_cell_def)
    show ?thesis
    proof (cases "src32rbit v \<le> dst32rbit v")
      case True
      then show ?thesis using g srcRmask_redundant(1) [OF sv] by simp
    next
      case F: False
      then have "r + off D S < 32" using sr dv off_range [of D S] by (auto simp: r_def [symmetric] split: if_splits)
      then have "i + off D S < 32" using p r by simp
      then show ?thesis using F saved [OF i p(2)] False by simp
    qed
  qed
  from gotI [OF this, where a = a] show ?thesis by (simp add: F_do_postloop_src_prep_def)
qed

lemma F_line_vars_kept: "same_line v v' \<Longrightarrow> F_line_vars a D S v \<Longrightarrow> F_line_vars a D S v'"
  using same_line_fields [of v v']
  by (simp add: F_line_vars_def F_dst_vars_def src_vars_def shifts_ok_def)

lemma F_single:
  assumes ok: "F_ok a D S" and lv: "F_line_vars a D S v" and ad: "dst32addr v = D div 32"
    and g: "got a D S m (D div 32) (shS v)" and s: "shows_image s m" and one: "D mod 32 + bb_w a \<le> 32"
  shows "shows_image (do_partial_transfer a (sdw_mask v) v s) (blt_on (bb_op a) (bb_comp a) (S - D) {D..<D + bb_w a} m)"
proof -
  have im: "shows_image s (blt_on (bb_op a) (bb_comp a) (S - D) {} m)" using s by (simp add: blt_on_def)
  have w: "0 < bb_w a" using ok by (simp add: F_ok_def line_ok_def)
  have "D + bb_w a - 1 = (D mod 32 + bb_w a - 1) + 32 * (D div 32)" by simp
  then have rb: "(D + bb_w a - 1) mod 32 = D mod 32 + bb_w a - 1"
    using one w by (simp only: mod_mult_self2) simp
  have msk: "sdw_mask v = lbit_mask (D mod 32) AND rbit_mask ((D + bb_w a - 1) mod 32)"
    using lv by (simp add: F_line_vars_def F_dst_vars_def)
  have e: "32 * (D div 32) + D mod 32 = D" "32 * (D div 32) + (D mod 32 + bb_w a - 1) = D + bb_w a - 1" by simp_all
  have "{D..D + bb_w a - 1} = {D..<D + bb_w a}" by auto
  moreover have "mask_set (D div 32) (sdw_mask v) = {32 * (D div 32) + D mod 32..32 * (D div 32) + (D + bb_w a - 1) mod 32}"
    unfolding msk by (rule mask_set_both [OF in_cell_mod in_cell_mod])
  ultimately have A: "mask_set (D div 32) (sdw_mask v) = {D..<D + bb_w a}" unfolding rb e by simp
  show ?thesis using got_store [OF F_line_ok [OF ok] g ad im, of "sdw_mask v"] w by (simp add: A)
qed

lemma F_first:
  assumes ok: "F_ok a D S" and lv: "F_line_vars a D S v" and ad: "dst32addr v = D div 32"
    and g: "got a D S m (D div 32) (shS v)" and s: "shows_image s m" and more: "D mod 32 + bb_w a > 32"
  shows "shows_image (do_partial_transfer a (preloop_mask v) v s)
           (blt_on (bb_op a) (bb_comp a) (S - D) {D..<32 * (D div 32 + 1)} m)"
proof -
  have im: "shows_image s (blt_on (bb_op a) (bb_comp a) (S - D) {} m)" using s by (simp add: blt_on_def)
  have msk: "preloop_mask v = lbit_mask (D mod 32)" using lv by (simp add: F_line_vars_def F_dst_vars_def)
  have "32 * (D div 32) + D mod 32 = D" by simp
  then have A: "mask_set (D div 32) (preloop_mask v) = {D..<32 * (D div 32 + 1)}"
    unfolding msk mask_set_left [OF in_cell_mod] by simp
  have "32 * (D div 32 + 1) \<le> D + bb_w a" "D < 32 * (D div 32 + 1)" by (rule span_more [OF more])+
  then show ?thesis using got_store [OF F_line_ok [OF ok] g ad im, of "preloop_mask v"] by (simp add: A)
qed

lemma F_last:
  assumes ok: "F_ok a D S" and lv: "F_line_vars a D S v" and ad: "dst32addr v = k"
    and st: "F_stream a D S m k v" and s: "shows_image s (blt_on (bb_op a) (bb_comp a) (S - D) {D..<32 * k} m)"
    and k: "D \<le> 32 * k" "32 * k \<le> D + bb_w a - 1" "D + bb_w a - 1 < 32 * k + 32"
    and v': "v' = F_do_postloop_src_prep a s v"
  shows "shows_image (do_partial_transfer a (postloop_mask v') v' s)
           (blt_on (bb_op a) (bb_comp a) (S - D) {D..<D + bb_w a} m)"
proof -
  have dv: "dst32rbit v = (D + bb_w a - 1) mod 32" and sv: "src_vars a ALL_ONES D S v"
    and msk: "postloop_mask v' = rbit_mask ((D + bb_w a - 1) mod 32)" and ad': "dst32addr v' = k"
    using lv ad by (simp_all add: F_line_vars_def F_dst_vars_def v' F_do_postloop_src_prep_def)
  have "32 * k + (D + bb_w a - 1) mod 32 = D + bb_w a - 1" using block_unique [OF k(2,3)] by simp
  then have A: "mask_set k (postloop_mask v') = {32 * k..<D + bb_w a}"
    unfolding msk mask_set_right [OF in_cell_mod] by auto
  have g: "got a D S m k (shS v')" unfolding v' by (rule F_post [OF ok sv dv st s k])
  have "{D..<32 * k} \<union> {32 * k..<D + bb_w a} = {D..<D + bb_w a}" using k by auto
  then show ?thesis using got_store [OF F_line_ok [OF ok] g ad' s, of "postloop_mask v'"] k by (simp add: A)
qed

theorem F_line:
  assumes ok: "F_ok a D S" and lv: "F_line_vars a D S v" and ad: "dst32addr v = D div 32" "src32addr v = S div 32"
    and s: "shows_image s m" and r: "F_do_transfer a (F_do_src_setup a s v, s) = (v2, s2)"
  shows "same_line v v2 \<and> shows_image s2 (blt_on (bb_op a) (bb_comp a) (S - D) {D..<D + bb_w a} m)"
proof -
  define v1 where "v1 = F_do_src_setup a s v"
  note set = F_setup [OF ok lv ad s v1_def]
  have lv1: "F_line_vars a D S v1" by (rule F_line_vars_kept [OF set(1) lv])
  then have dv: "dst32lbit v1 = D mod 32" "dstnumL v1 = (D mod 32 + bb_w a) div 32 - 1"
    by (simp_all add: F_line_vars_def F_dst_vars_def)
  show ?thesis
  proof (cases "D mod 32 + bb_w a \<le> 32")
    case True
    then have "v2 = v1 \<and> s2 = do_partial_transfer a (sdw_mask v1) v1 s"
      using r by (auto simp: F_do_transfer_def v1_def [symmetric] dv)
    then show ?thesis using F_single [OF ok lv1 set(2,3) s True] set(1) by simp
  next
    case False
    define s1 v1' where "s1 = do_partial_transfer a (preloop_mask v1) v1 s"
      and "v1' = v1\<lparr>dst32addr := dst32addr v1 + 1\<rparr>"
    define body where "body = (if off D S = 0 then AlignedF a else DestGetsF a \<circ> GetSrcF a)"
    define n K where "n = nat ((D mod 32 + bb_w a) div 32 - 1)" and "K = D div 32 + 1 + int n"
    have K: "32 * K \<le> D + bb_w a" "D + bb_w a < 32 * K + 32" "D \<le> 32 * (D div 32 + 1)" "D \<le> 32 * K"
    proof -
      have "1 < D mod 32 + bb_w a" using False by simp
      then have K': "K = D div 32 + (D mod 32 + bb_w a) div 32" using False by (simp add: K_def n_def)
      show "32 * K \<le> D + bb_w a" "D + bb_w a < 32 * K + 32" unfolding K' by (rule span_end)+
      show "D \<le> 32 * (D div 32 + 1)" using span_more(2) [of D "bb_w a"] False by simp
      then show "D \<le> 32 * K" by (simp add: K_def)
    qed
    have inv: "F_inv a D S m v (D div 32 + 1) (v1', s1)"
      using set(1,2,4) False F_first [OF ok lv1 set(2,3) s] 
      by (simp add: F_inv_def same_line_upd F_stream_def v1'_def s1_def)
    have sh: "shifts_ok D S v" using lv by (simp add: F_line_vars_def src_vars_def)
    obtain v3 s3 where v3: "(body ^^ n) (v1', s1) = (v3, s3)" by (cases "(body ^^ n) (v1', s1)")
    have iK: "F_inv a D S m v K (v3, s3)"
      using F_loop [OF ok sh body_def K(3) inv, of n] K(1) v3 by (simp add: K_def)
    then have sl3: "same_line v v3" and at3: "dst32addr v3 = K" "F_stream a D S m K v3"
      and im3: "shows_image s3 (blt_on (bb_op a) (bb_comp a) (S - D) {D..<32 * K} m)"
      by (simp_all add: F_inv_def)
    have lv3: "F_line_vars a D S v3" by (rule F_line_vars_kept [OF sl3 lv])
    then have dr: "dst32rbit v3 = (D + bb_w a - 1) mod 32" by (simp add: F_line_vars_def F_dst_vars_def)
    have al: "src32lbit v1' = dst32lbit v1' \<longleftrightarrow> off D S = 0"
      using lv1 aligned_iff [of S D] by (simp add: F_line_vars_def F_dst_vars_def src_vars_def v1'_def)
    have loop: "ForInner a (if src32lbit v1 = dst32lbit v1 then AlignedF a else DestGetsF a \<circ> GetSrcF a) (v1', s1) = (v3, s3)"
      using ok v3 dv(2) al by (simp add: ForInner_def F_ok_def line_ok_def body_def n_def v1'_def)
    have r': "(v2, s2) = (if dst32rbit v3 \<noteq> 31
        then let v4 = F_do_postloop_src_prep a s3 v3 in (v4, do_partial_transfer a (postloop_mask v4) v4 s3) else (v3, s3))"
      using r False loop by (simp add: F_do_transfer_def v1_def [symmetric] dv s1_def [symmetric] v1'_def [symmetric] Let_def)
    show ?thesis
    proof (cases "(D + bb_w a - 1) mod 32 = 31")
      case True
      then have "D + bb_w a = 32 * K" using K(1,2) by (intro block_end) simp_all
      then show ?thesis using r' dr True sl3 im3 by simp
    next
      case F: False
      have "32 * K \<le> D + bb_w a - 1" "D + bb_w a - 1 < 32 * K + 32"
        using K(1,2) F block_unique [of "K - 1" "D + bb_w a - 1"] by (cases "D + bb_w a = 32 * K"; simp)+
      from F_last [OF ok lv3 at3 im3 K(4) this refl] show ?thesis
        using r' dr F sl3 by (simp add: Let_def F_do_postloop_src_prep_def same_line_upd)
    qed
  qed
qed

end
