(* ===== verification/BitBlt_Backward.thy ===== *)
theory BitBlt_Backward
  imports BitBlt_Forward
begin

text \<open>
  One line of a backward transfer (\<open>B_do_src_setup\<close>, \<open>B_do_transfer\<close>), which goes from the
  right end to the left: it is the simultaneous transfer of its bits, unless the source starts inside the
  destination.
\<close>

section \<open>The variables of a line and of a position in it\<close>

definition B_ok :: "bb_args \<Rightarrow> int \<Rightarrow> int \<Rightarrow> bool" where
  "B_ok a D S \<longleftrightarrow> line_ok a D S \<and> \<not> (D < S \<and> S < D + bb_w a)"

definition B_dst_vars :: "bb_args \<Rightarrow> int \<Rightarrow> bb_vars \<Rightarrow> bool" where
  "B_dst_vars a D v \<longleftrightarrow>
     OrigDstAddr v = (D + bb_w a - 1) div 32 \<and> dst32lbit v = D mod 32 \<and> dst32rbit v = (D + bb_w a - 1) mod 32 \<and>
     preloop_mask v = rbit_mask ((D + bb_w a - 1) mod 32) \<and> postloop_mask v = lbit_mask (D mod 32) \<and>
     sdw_mask v = preloop_mask v AND postloop_mask v \<and>
     dstnumL v = (if bb_w a - (D + bb_w a - 1) mod 32 - 1 > 0 then (bb_w a - (D + bb_w a - 1) mod 32 - 1) div 32 else 0)"

definition B_line_vars :: "bb_args \<Rightarrow> int \<Rightarrow> int \<Rightarrow> bb_vars \<Rightarrow> bool" where
  "B_line_vars a D S v \<longleftrightarrow> B_dst_vars a D v \<and> OrigSrcAddr v = (S + bb_w a - 1) div 32 \<and> src_vars a 0 D S v"

lemma B_line_vars_kept: "same_line v v' \<Longrightarrow> B_line_vars a D S v \<Longrightarrow> B_line_vars a D S v'"
  using same_line_fields [of v v']
  by (simp add: B_line_vars_def B_dst_vars_def src_vars_def shifts_ok_def)

section \<open>Reading the source\<close>

lemma B_line_ok: "B_ok a D S \<Longrightarrow> line_ok a D S"
  by (simp add: B_ok_def)

lemma B_unread: "B_ok a D S \<Longrightarrow> p < b \<Longrightarrow> D \<le> p \<Longrightarrow> p < D + bb_w a \<Longrightarrow> p + (S - D) \<notin> {b..<D + bb_w a}"
  by (auto simp: B_ok_def)

lemmas B_push = push_source [OF B_line_ok _ _ _ B_unread]
lemmas B_drop = drop_source [OF B_line_ok _ _ _ B_unread]
lemmas B_read = read_shifted [OF B_line_ok _ _ _ B_unread]

definition B_stream :: "bb_args \<Rightarrow> int \<Rightarrow> int \<Rightarrow> (int \<Rightarrow> bool) \<Rightarrow> int \<Rightarrow> bb_vars \<Rightarrow> bool" where
  "B_stream a D S m k v \<longleftrightarrow>
     src32addr v = k + far D S \<and>
     (\<forall>i. in_cell i \<longrightarrow> D \<le> 32 * k + i \<longrightarrow>
        lbit (savedS v) i = (off D S \<noteq> 0 \<and> 32 \<le> i + off D S \<and> m (32 * k + i + (S - D))))"

lemma B_get:
  assumes ok: "B_ok a D S" and s: "shows_image s (blt_on opn c (S - D) {b..<D + bb_w a} m)"
    and p: "32 * k + i < b" "D \<le> 32 * k + i" "32 * k + i < D + bb_w a"
    and sh: "shifts_ok D S v"
    and st: "B_stream a D S m k v" and i: "in_cell i"
  shows "lbit (savedS v OR push_bit (srcLshift v) (rdc s (src32addr v))) i = m (32 * k + i + (S - D))"
proof -
  have a: "src32addr v = k + far D S" using st by (simp add: B_stream_def)
  have sv: "lbit (savedS v) i = (off D S \<noteq> 0 \<and> 32 \<le> i + off D S \<and> m (32 * k + i + (S - D)))"
    using st i p by (simp add: B_stream_def)
  have L: "int (srcLshift v) = off D S"
    using shift_sum [OF sh] shift_none [OF sh] by (cases "off D S = 0") auto
  show ?thesis using B_push [OF ok s p(2,3) ok p L a i] sv i by (auto simp: in_cell_def)
qed

section \<open>The inner loop\<close>

text \<open>Cell \<open>k\<close> is the next one; everything right of it is done.\<close>

definition B_inv :: "bb_args \<Rightarrow> int \<Rightarrow> int \<Rightarrow> (int \<Rightarrow> bool) \<Rightarrow> bb_vars \<Rightarrow> int \<Rightarrow> bb_vars \<times> vm \<Rightarrow> bool" where
  "B_inv a D S m v0 k vs \<longleftrightarrow>
     same_line v0 (fst vs) \<and> dst32addr (fst vs) = k \<and> B_stream a D S m k (fst vs) \<and>
     shows_image (snd vs) (blt_on (bb_op a) (bb_comp a) (S - D) {32 * (k + 1)..<D + bb_w a} m)"

lemma B_step_shifted:
  assumes ok: "B_ok a D S" and sh: "shifts_ok D S v0" and L: "off D S \<noteq> 0"
    and k: "D \<le> 32 * k" "32 * k + 32 \<le> D + bb_w a" and inv: "B_inv a D S m v0 k vs"
  shows "B_inv a D S m v0 (k - 1) ((DestGetsB a \<circ> GetSrcB a) vs)"
proof -
  obtain v s where vs: "vs = (v, s)" by (cases vs)
  have sl: "same_line v0 v" and dk: "dst32addr v = k" and st: "B_stream a D S m k v"
    and im: "shows_image s (blt_on (bb_op a) (bb_comp a) (S - D) {32 * (k + 1)..<D + bb_w a} m)"
    using inv by (simp_all add: B_inv_def vs)
  have shv: "shifts_ok D S v" using sh same_line_fields [OF sl] by (simp add: shifts_ok_def)
  let ?y = "savedS v OR push_bit (srcLshift v) (rdc s (src32addr v))"
  have y: "lbit ?y i = m (32 * k + i + (S - D))" if "in_cell i" for i
    using that k by (intro B_get [OF ok im _ _ _ shv st]) (simp_all add: in_cell_def)
  have kk: "0 \<le> k" "k < 2 ^ 31" using cell_range [OF B_line_ok [OF ok], of k 0] k by (simp_all add: in_cell_def)
  have im1: "shows_image (wrc k (bb_assign (bb_op a) (rdc s k) (compl_if (bb_comp a) ?y)) s)
               (blt_on (bb_op a) (bb_comp a) (S - D) ({32 * (k + 1)..<D + bb_w a} \<union> {32 * k..<32 * k + 32}) m)"
    using k by (intro store_cell [OF im kk _ y]) auto
  have A: "{32 * (k + 1)..<D + bb_w a} \<union> {32 * k..<32 * k + 32} = {32 * k..<D + bb_w a}" using k by auto
  have sa: "src32addr v = k - 1 + far D S + 1" using st by (simp add: B_stream_def)
  have st1: "lbit (drop_bit (srcRshift v) (rdc s (src32addr v))) i =
             (32 \<le> i + off D S \<and> m (32 * (k - 1) + i + (S - D)))"
    if "in_cell i" "D \<le> 32 * (k - 1) + i" for i
    using that k shift_sum [OF shv L] by (intro B_drop [OF ok im _ _ ok _ _ _ _ sa]) (simp_all add: in_cell_def)
  show ?thesis unfolding vs using sl dk im1 [unfolded A] sa st1 L
    by (simp add: B_inv_def DestGetsB_def GetSrcB_def Let_def same_line_upd B_stream_def)
qed

lemma B_step_aligned:
  assumes ok: "B_ok a D S" and L: "off D S = 0"
    and k: "D \<le> 32 * k" "32 * k + 32 \<le> D + bb_w a" and inv: "B_inv a D S m v0 k vs"
  shows "B_inv a D S m v0 (k - 1) (AlignedB a vs)"
proof -
  obtain v s where vs: "vs = (v, s)" by (cases vs)
  have sl: "same_line v0 v" and dk: "dst32addr v = k" and st: "B_stream a D S m k v"
    and im: "shows_image s (blt_on (bb_op a) (bb_comp a) (S - D) {32 * (k + 1)..<D + bb_w a} m)"
    using inv by (simp_all add: B_inv_def vs)
  have sa: "src32addr v = k + far D S" using st by (simp add: B_stream_def)
  have sp: "S - D = 32 * far D S" using distance [of S D] L by simp
  have y: "lbit (rdc s (src32addr v)) i = m (32 * k + i + (S - D))" if "in_cell i" for i
    using that k sp by (intro B_read [OF ok im _ _ ok _ _ _ that]) (simp_all add: in_cell_def sa)
  have kk: "0 \<le> k" "k < 2 ^ 31" using cell_range [OF B_line_ok [OF ok], of k 0] k by (simp_all add: in_cell_def)
  have im1: "shows_image (wrc k (bb_assign (bb_op a) (rdc s k) (compl_if (bb_comp a) (rdc s (src32addr v)))) s)
               (blt_on (bb_op a) (bb_comp a) (S - D) ({32 * (k + 1)..<D + bb_w a} \<union> {32 * k..<32 * k + 32}) m)"
    using k by (intro store_cell [OF im kk _ y]) auto
  have A: "{32 * (k + 1)..<D + bb_w a} \<union> {32 * k..<32 * k + 32} = {32 * k..<D + bb_w a}" using k by auto
  have nosave: "\<not> lbit (savedS v) i" if "in_cell i" "D \<le> 32 * k + i" for i
    using that st L by (simp add: B_stream_def)
  show ?thesis unfolding vs using sl dk im1 [unfolded A] sa nosave L
    by (simp add: B_inv_def AlignedB_def same_line_upd B_stream_def)
qed

lemma B_loop:
  assumes ok: "B_ok a D S" and sh: "shifts_ok D S v0"
    and body: "body = (if off D S = 0 then AlignedB a else DestGetsB a \<circ> GetSrcB a)"
    and k: "32 * k + 32 \<le> D + bb_w a" and inv: "B_inv a D S m v0 k vs"
  shows "D \<le> 32 * (k + 1 - int n) \<Longrightarrow> B_inv a D S m v0 (k - int n) ((body ^^ n) vs)"
proof (induction n)
  case (Suc n)
  have "B_inv a D S m v0 (k - int n) ((body ^^ n) vs)" using Suc by simp
  then have "B_inv a D S m v0 (k - int n - 1) (body ((body ^^ n) vs))"
    using B_step_aligned [OF ok _ _ _ , of "k - int n" m v0 "(body ^^ n) vs"]
      B_step_shifted [OF ok sh _ _ _, of "k - int n" m "(body ^^ n) vs"] Suc.prems k
    unfolding body by (cases "off D S = 0") (simp_all del: o_apply)
  then show ?case by (simp add: diff_diff_eq ac_simps)
qed (use inv in simp)

section \<open>The whole line\<close>

lemma drop_masked:
  assumes "src_vars a 0 D S v"
  shows "drop_bit (srcRshift v) x AND srcRmask v = (if off D S = 0 then 0 else drop_bit (srcRshift v) x)"
proof (cases "off D S = 0")
  case False
  have sh: "shifts_ok D S v" and m: "srcRmask v = NOT (push_bit (nat (off D S)) ALL_ONES)"
    using assms False by (simp_all add: src_vars_def)
  have n: "int (nat (off D S)) = off D S" using off_range [of D S] by simp
  have "lbit (srcRmask v) i = (32 \<le> i + off D S)" if "in_cell i" for i
  proof -
    have "i + off D S < 32 \<Longrightarrow> in_cell (i + off D S)" using that off_range [of D S] by (simp add: in_cell_def)
    then show ?thesis using that n by (auto simp: m lbit_push)
  qed
  then have "drop_bit (srcRshift v) x AND srcRmask v = drop_bit (srcRshift v) x"
    using shift_sum [OF sh False] by (intro lbit_eqI) (auto simp: lbit_drop)
  then show ?thesis using False by simp
qed (use assms in \<open>simp add: src_vars_def\<close>)

lemma last_cell:
  "(S + w - 1) div 32 = (D + w - 1) div 32 + far D S + (if (D + w - 1) mod 32 + off D S < 32 then 0 else 1)"
  "(S + w - 1) mod 32 = (D + w - 1) mod 32 + off D S - (if (D + w - 1) mod 32 + off D S < 32 then 0 else 32)"
proof -
  have "off (D + w - 1) (S + w - 1) = off D S" "far (D + w - 1) (S + w - 1) = far D S"
    by (simp_all add: off_def far_def)
  then show "(S + w - 1) div 32 = (D + w - 1) div 32 + far D S + (if (D + w - 1) mod 32 + off D S < 32 then 0 else 1)"
    "(S + w - 1) mod 32 = (D + w - 1) mod 32 + off D S - (if (D + w - 1) mod 32 + off D S < 32 then 0 else 32)"
    using src_cell [of "S + w - 1" "D + w - 1"] by simp_all
qed

lemma B_setup:
  assumes ok: "B_ok a D S" and lv: "B_line_vars a D S v"
    and ad: "dst32addr v = (D + bb_w a - 1) div 32" "src32addr v = (S + bb_w a - 1) div 32"
    and s: "shows_image s m" and v': "v' = B_do_src_setup a s v"
  shows "same_line v v'" "dst32addr v' = (D + bb_w a - 1) div 32" "got a D S m ((D + bb_w a - 1) div 32) (shS v')"
    "D mod 32 + bb_w a > 32 \<Longrightarrow> B_stream a D S m ((D + bb_w a - 1) div 32 - 1) v'"
proof -
  define k r e w where "k = (D + bb_w a - 1) div 32" and "r = (D + bb_w a - 1) mod 32" and "e = off D S" and "w = bb_w a"
  have D: "D + w - 1 = 32 * k + r" and r: "0 \<le> r" "r < 32" by (simp_all add: k_def r_def w_def)
  have w: "0 < w" using ok by (simp add: B_ok_def line_ok_def w_def)
  have im: "shows_image s (blt_on (bb_op a) (bb_comp a) (S - D) {D + w..<D + bb_w a} m)" using s by (simp add: blt_on_def w_def)
  have sv: "src_vars a 0 D S v" and dv: "dst32rbit v = r" "dst32lbit v = D mod 32"
    using lv by (simp_all add: B_line_vars_def B_dst_vars_def r_def)
  have sh: "shifts_ok D S v" and sl: "src32rbit v = (S + w - 1) mod 32" "src32lbit v = S mod 32"
    using sv by (simp_all add: src_vars_def w_def)
  note sc = last_cell [of S "bb_w a" D, folded k_def r_def e_def w_def]
  note red = drop_masked [OF sv, folded e_def]
  have e: "0 \<le> e" "e < 32" using off_range [of D S] by (simp_all add: e_def)
  show "same_line v v'" "dst32addr v' = (D + bb_w a - 1) div 32"
    using ad(1) by (simp_all add: v' B_do_src_setup_def Let_def same_line_upd same_line_refl)
  have L: "int (srcLshift v) = e"
    using shift_sum [OF sh] shift_none [OF sh] by (cases "e = 0") (auto simp: e_def)
  have push: "lbit (push_bit (srcLshift v) (rdc s k')) i = (i + e < 32 \<and> m (32 * j + i + (S - D)))"
    if "k' = j + far D S" "in_cell i" "D \<le> 32 * j + i" "32 * j + i < D + w" for k' j i
    using that L unfolding e_def by (intro B_push [OF ok im _ _ ok]) (simp_all add: w_def)
  have drop: "lbit (drop_bit (srcRshift v) (rdc s k')) i = (32 \<le> i + e \<and> m (32 * j + i + (S - D)))"
    if "e \<noteq> 0" "k' = j + far D S + 1" "in_cell i" "D \<le> 32 * j + i" "32 * j + i < D + w" for k' j i
    using that shift_sum [OF sh, folded e_def] unfolding e_def
    by (intro B_drop [OF ok im _ _ ok]) (simp_all add: w_def)
  have stream: "B_stream a D S m (k - 1) v'" if "src32addr v' = k - 1 + far D S"
    "savedS v' = (if e = 0 then 0 else drop_bit (srcRshift v) (rdc s (k + far D S)))"
  proof -
    have "32 * (k - 1) + i < D + w" if "in_cell i" for i using that D r by (simp add: in_cell_def)
    then show ?thesis using that drop [of "k + far D S" "k - 1"] by (simp add: B_stream_def e_def [symmetric])
  qed
  have "got a D S m k (shS v') \<and> (D mod 32 + w > 32 \<longrightarrow> B_stream a D S m (k - 1) v')"
  proof (cases "r + e < 32")
    case True
    then have a: "(S + w - 1) div 32 = k + far D S" "(S + w - 1) mod 32 = r + e" using sc by simp_all
    have vv: "src32addr v' = k - 1 + far D S" "shS v' = compl_if (bb_comp a) (push_bit (srcLshift v) (rdc s (k + far D S)))"
      "savedS v' = (if e = 0 then 0 else drop_bit (srcRshift v) (rdc s (k + far D S)))"
      using red a e by (simp_all add: v' B_do_src_setup_def Let_def sl dv ad w_def [symmetric])
    have "got a D S m k (shS v')" unfolding vv(2)
      by (rule gotI) (use push [OF refl] D True in \<open>auto simp: w_def\<close>)
    then show ?thesis using stream [OF vv(1,3)] by simp
  next
    case False
    then have e0: "e \<noteq> 0" using r by auto
    have a: "(S + w - 1) div 32 = k + far D S + 1" "(S + w - 1) mod 32 = r + e - 32" using sc False by simp_all
    show ?thesis
    proof (cases "S mod 32 + w > D mod 32 + 1")
      case two: True
      let ?y = "drop_bit (srcRshift v) (rdc s (k + far D S + 1)) OR push_bit (srcLshift v) (rdc s (k + far D S))"
      have vv: "src32addr v' = k - 1 + far D S" "shS v' = compl_if (bb_comp a) ?y"
        "savedS v' = (if e = 0 then 0 else drop_bit (srcRshift v) (rdc s (k + far D S)))"
        using red a e0 e two by (simp_all add: v' B_do_src_setup_def Let_def sl dv ad w_def [symmetric])
      have "got a D S m k (shS v')" unfolding vv(2)
        by (rule gotI) (use push [OF refl] drop [OF e0 refl] in \<open>auto simp: w_def\<close>)
      then show ?thesis using stream [OF vv(1,3)] by simp
    next
      case one: False
      have vv: "shS v' = compl_if (bb_comp a) (drop_bit (srcRshift v) (rdc s (k + far D S + 1)))"
        using red a e0 e one r by (simp add: v' B_do_src_setup_def Let_def sl dv ad w_def [symmetric])
      have l: "32 \<le> D mod 32 + e" "w \<le> 33 - e"
        using one w e e0 src_cell(2) [of S D, folded e_def] by (auto split: if_splits)
      have "D = 32 * k + (r + 1 - w)" using D by simp
      moreover have "0 \<le> r + 1 - w" "r + 1 - w < 32" using l(2) False r w e by auto
      ultimately have "D mod 32 = r + 1 - w" by simp
      then have "got a D S m k (shS v')" "\<not> D mod 32 + w > 32" unfolding vv
        using drop [OF e0 refl] D l(1) r by (auto intro!: gotI simp: w_def)
      then show ?thesis by simp
    qed
  qed
  then show "got a D S m ((D + bb_w a - 1) div 32) (shS v')"
    "D mod 32 + bb_w a > 32 \<Longrightarrow> B_stream a D S m ((D + bb_w a - 1) div 32 - 1) v'"
    by (simp_all add: k_def w_def)
qed

lemma B_post:
  assumes ok: "B_ok a D S" and lv: "B_line_vars a D S v"
    and st: "B_stream a D S m k v" and s: "shows_image s (blt_on opn c (S - D) {32 * (k + 1)..<D + bb_w a} m)"
    and k: "32 * k \<le> D" "D < 32 * k + 32"
  shows "got a D S m k (shS (B_do_postloop_src_prep a s v))"
proof -
  have sv: "src_vars a 0 D S v" and dv: "dst32lbit v = D mod 32" using lv by (simp_all add: B_line_vars_def B_dst_vars_def)
  have sh: "shifts_ok D S v" and sl: "src32lbit v = S mod 32" using sv by (simp_all add: src_vars_def)
  have l: "D = 32 * k + D mod 32" using block_unique [OF k] by simp
  let ?y = "if src32lbit v \<ge> dst32lbit v then savedS v OR push_bit (srcLshift v) (rdc s (src32addr v)) else savedS v"
  have "lbit ?y i = m (32 * k + i + (S - D))"
    if i: "in_cell i" and p: "D \<le> 32 * k + i" "32 * k + i < D + bb_w a" for i
  proof (cases "src32lbit v \<ge> dst32lbit v")
    case True
    have "32 * k + i < 32 * (k + 1)" using i by (simp add: in_cell_def)
    then show ?thesis using B_get [OF ok s _ p sh st i] True by simp
  next
    case False
    then have "32 \<le> D mod 32 + off D S" using src_cell(2) [of S D] sl dv off_range [of D S] by (auto split: if_splits)
    then have "off D S \<noteq> 0" "32 \<le> i + off D S" using p(1) l i off_range [of D S] by (auto simp: in_cell_def)
    then show ?thesis using False st i p by (simp add: B_stream_def)
  qed
  from gotI [OF this, where a = a] show ?thesis by (simp add: B_do_postloop_src_prep_def)
qed

lemma B_single:
  assumes ok: "B_ok a D S" and lv: "B_line_vars a D S v" and ad: "dst32addr v = (D + bb_w a - 1) div 32"
    and g: "got a D S m ((D + bb_w a - 1) div 32) (shS v)" and s: "shows_image s m" and one: "D mod 32 + bb_w a \<le> 32"
  shows "shows_image (do_partial_transfer a (sdw_mask v) v s) (blt_on (bb_op a) (bb_comp a) (S - D) {D..<D + bb_w a} m)"
proof -
  have im: "shows_image s (blt_on (bb_op a) (bb_comp a) (S - D) {} m)" using s by (simp add: blt_on_def)
  have w: "0 < bb_w a" using ok by (simp add: B_ok_def line_ok_def)
  have "D + bb_w a - 1 = (D mod 32 + bb_w a - 1) + 32 * (D div 32)" by simp
  then have c: "(D + bb_w a - 1) div 32 = D div 32" using one w by (simp only: div_mult_self2)
  have e: "32 * (D div 32) + D mod 32 = D" "32 * (D div 32) + (D + bb_w a - 1) mod 32 = D + bb_w a - 1"
    using c mult_div_mod_eq [of 32 "D + bb_w a - 1"] by simp_all
  have msk: "sdw_mask v = lbit_mask (D mod 32) AND rbit_mask ((D + bb_w a - 1) mod 32)"
    using lv by (simp add: B_line_vars_def B_dst_vars_def and.commute)
  have "{D..D + bb_w a - 1} = {D..<D + bb_w a}" by auto
  moreover have "mask_set (D div 32) (sdw_mask v) = {32 * (D div 32) + D mod 32..32 * (D div 32) + (D + bb_w a - 1) mod 32}"
    unfolding msk by (rule mask_set_both [OF in_cell_mod in_cell_mod])
  ultimately have A: "mask_set (D div 32) (sdw_mask v) = {D..<D + bb_w a}" unfolding e by simp
  show ?thesis using got_store [OF B_line_ok [OF ok] g ad im, of "sdw_mask v"] w unfolding c A by simp
qed

lemma B_first:
  assumes ok: "B_ok a D S" and lv: "B_line_vars a D S v" and k: "k = (D + bb_w a - 1) div 32" and ad: "dst32addr v = k"
    and g: "got a D S m k (shS v)" and s: "shows_image s m" and more: "D mod 32 + bb_w a > 32"
  shows "shows_image (do_partial_transfer a (preloop_mask v) v s)
           (blt_on (bb_op a) (bb_comp a) (S - D) {32 * k..<D + bb_w a} m)"
proof -
  have im: "shows_image s (blt_on (bb_op a) (bb_comp a) (S - D) {} m)" using s by (simp add: blt_on_def)
  have msk: "preloop_mask v = rbit_mask ((D + bb_w a - 1) mod 32)" using lv by (simp add: B_line_vars_def B_dst_vars_def)
  have e: "32 * k + (D + bb_w a - 1) mod 32 = D + bb_w a - 1" by (simp add: k)
  have "{32 * k..D + bb_w a - 1} = {32 * k..<D + bb_w a}" by auto
  then have A: "mask_set k (preloop_mask v) = {32 * k..<D + bb_w a}"
    unfolding msk mask_set_right [OF in_cell_mod] e by simp
  have "D \<le> 32 * k" "32 * k < D + bb_w a" using span_more(3,4) [OF more] by (simp_all add: k)
  then show ?thesis using got_store [OF B_line_ok [OF ok] g ad im, of "preloop_mask v"] by (simp add: A)
qed

lemma B_last:
  assumes ok: "B_ok a D S" and lv: "B_line_vars a D S v" and ad: "dst32addr v = k"
    and st: "B_stream a D S m k v" and s: "shows_image s (blt_on (bb_op a) (bb_comp a) (S - D) {32 * (k + 1)..<D + bb_w a} m)"
    and k: "32 * k \<le> D" "D < 32 * k + 32" "32 * k + 32 \<le> D + bb_w a"
    and v': "v' = B_do_postloop_src_prep a s v"
  shows "shows_image (do_partial_transfer a (postloop_mask v') v' s)
           (blt_on (bb_op a) (bb_comp a) (S - D) {D..<D + bb_w a} m)"
proof -
  have msk: "postloop_mask v' = lbit_mask (D mod 32)" and ad': "dst32addr v' = k"
    using lv ad by (simp_all add: B_line_vars_def B_dst_vars_def v' B_do_postloop_src_prep_def)
  have "32 * k + D mod 32 = D" using block_unique [OF k(1,2)] by simp
  then have A: "mask_set k (postloop_mask v') = {D..<32 * k + 32}"
    unfolding msk mask_set_left [OF in_cell_mod] by simp
  have g: "got a D S m k (shS v')" unfolding v' by (rule B_post [OF ok lv st s k(1,2)])
  have "{32 * (k + 1)..<D + bb_w a} \<union> {D..<32 * k + 32} = {D..<D + bb_w a}" using k by auto
  then show ?thesis using got_store [OF B_line_ok [OF ok] g ad' s, of "postloop_mask v'"] k by (simp add: A)
qed

theorem B_line:
  assumes ok: "B_ok a D S" and lv: "B_line_vars a D S v"
    and ad: "dst32addr v = (D + bb_w a - 1) div 32" "src32addr v = (S + bb_w a - 1) div 32"
    and s: "shows_image s m" and r: "B_do_transfer a (B_do_src_setup a s v, s) = (v2, s2)"
  shows "same_line v v2 \<and> shows_image s2 (blt_on (bb_op a) (bb_comp a) (S - D) {D..<D + bb_w a} m)"
proof -
  define v1 k where "v1 = B_do_src_setup a s v" and "k = (D + bb_w a - 1) div 32"
  note set = B_setup [OF ok lv ad s v1_def, folded k_def]
  have lv1: "B_line_vars a D S v1" by (rule B_line_vars_kept [OF set(1) lv])
  then have dv: "dst32lbit v1 = D mod 32"
    "dstnumL v1 = (if bb_w a - (D + bb_w a - 1) mod 32 - 1 > 0 then (bb_w a - (D + bb_w a - 1) mod 32 - 1) div 32 else 0)"
    by (simp_all add: B_line_vars_def B_dst_vars_def)
  show ?thesis
  proof (cases "D mod 32 + bb_w a \<le> 32")
    case True
    then have "v2 = v1 \<and> s2 = do_partial_transfer a (sdw_mask v1) v1 s"
      using r by (auto simp: B_do_transfer_def v1_def [symmetric] dv)
    then show ?thesis using B_single [OF ok lv1 set(2) [unfolded k_def] set(3) [unfolded k_def] s True] set(1) by simp
  next
    case False
    define s1 v1' where "s1 = do_partial_transfer a (preloop_mask v1) v1 s"
      and "v1' = v1\<lparr>dst32addr := dst32addr v1 - 1\<rparr>"
    define body where "body = (if off D S = 0 then AlignedB a else DestGetsB a \<circ> GetSrcB a)"
    define n K where "n = nat ((32 * k - D) div 32)" and "K = k - 1 - int n"
    have k: "D \<le> 32 * k" "32 * k \<le> D + bb_w a - 1"
      using False span_more(3,4) [of D "bb_w a"] by (simp_all add: k_def)
    have n: "nat (dstnumL v1) = n"
    proof -
      have "bb_w a - (D + bb_w a - 1) mod 32 - 1 = 32 * k - D"
        unfolding k_def by (simp add: algebra_simps minus_mult_div_eq_mod [symmetric])
      then show ?thesis using k by (auto simp: dv n_def)
    qed
    have K: "D \<le> 32 * (K + 1)" "32 * K < D" "32 * (k - 1) + 32 \<le> D + bb_w a" "32 * K + 32 \<le> D + bb_w a"
    proof -
      have "int n = (32 * k - D) div 32" using k by (simp add: n_def)
      then have "32 * int n \<le> 32 * k - D" "32 * k - D < 32 * int n + 32"
        using block_split [of "32 * k - D"] by simp_all
      then show "D \<le> 32 * (K + 1)" "32 * K < D" "32 * (k - 1) + 32 \<le> D + bb_w a" "32 * K + 32 \<le> D + bb_w a"
        using k by (simp_all add: K_def)
    qed
    have inv: "B_inv a D S m v (k - 1) (v1', s1)"
      using set(1,2,4) False B_first [OF ok lv1 k_def set(2,3) s]
      by (simp add: B_inv_def same_line_upd B_stream_def v1'_def s1_def)
    have sh: "shifts_ok D S v" using lv by (simp add: B_line_vars_def src_vars_def)
    obtain v3 s3 where v3: "(body ^^ n) (v1', s1) = (v3, s3)" by (cases "(body ^^ n) (v1', s1)")
    have iK: "B_inv a D S m v K (v3, s3)"
      using B_loop [OF ok sh body_def K(3) inv, of n] K(1) v3 by (simp add: K_def)
    then have sl3: "same_line v v3" and at3: "dst32addr v3 = K" "B_stream a D S m K v3"
      and im3: "shows_image s3 (blt_on (bb_op a) (bb_comp a) (S - D) {32 * (K + 1)..<D + bb_w a} m)"
      by (simp_all add: B_inv_def)
    have lv3: "B_line_vars a D S v3" by (rule B_line_vars_kept [OF sl3 lv])
    then have dr: "dst32lbit v3 = D mod 32" by (simp add: B_line_vars_def B_dst_vars_def)
    have al: "src32lbit v1' = dst32lbit v1' \<longleftrightarrow> off D S = 0"
      using lv1 aligned_iff [of S D] by (simp add: B_line_vars_def B_dst_vars_def src_vars_def v1'_def)
    have loop: "ForInner a (if src32lbit v1 = dst32lbit v1 then AlignedB a else DestGetsB a \<circ> GetSrcB a) (v1', s1) = (v3, s3)"
      using ok v3 n al by (simp add: ForInner_def B_ok_def line_ok_def body_def v1'_def)
    have r': "(v2, s2) = (if dst32lbit v3 \<noteq> 0
        then let v4 = B_do_postloop_src_prep a s3 v3 in (v4, do_partial_transfer a (postloop_mask v4) v4 s3) else (v3, s3))"
      using r False loop by (simp add: B_do_transfer_def v1_def [symmetric] dv s1_def [symmetric] v1'_def [symmetric] Let_def)
    show ?thesis
    proof (cases "D mod 32 = 0")
      case True
      then have "D = 32 * (K + 1)" by (rule block_start [OF _ K(1,2)])
      then show ?thesis using r' dr True sl3 im3 by simp
    next
      case F: False
      have "32 * K \<le> D" "D < 32 * K + 32" using K(1,2) F by (cases "D = 32 * (K + 1)"; simp)+
      from B_last [OF ok lv3 at3 im3 this K(4) refl] show ?thesis
        using r' dr F sl3 by (simp add: Let_def B_do_postloop_src_prep_def same_line_upd)
    qed
  qed
qed

end
