(* ===== verification/BitBlt_Laws.thy ===== *)
theory BitBlt_Laws
  imports BitBlt_Backward
begin

text \<open>
  The bit block transfer as a whole: line after line it is the bitwise reference \<open>bitblt_ref\<close>, in both
  directions; and where no line destroys the source of a later one, the reference is one simultaneous
  copy of the rectangle.
\<close>

section \<open>The reference\<close>

primrec bitblt_ref ::
  "nat \<Rightarrow> nat \<Rightarrow> bool \<Rightarrow> int \<Rightarrow> int \<Rightarrow> int \<Rightarrow> int \<Rightarrow> int \<Rightarrow> (int \<Rightarrow> bool) \<Rightarrow> int \<Rightarrow> bool" where
  "bitblt_ref 0 opn c w D S dbpl sbpl m = m"
| "bitblt_ref (Suc h) opn c w D S dbpl sbpl m =
     bitblt_ref h opn c w (D + dbpl) (S + sbpl) dbpl sbpl (blt_on opn c (S - D) {D..<D + w} m)"

section \<open>Initialisation\<close>

definition dst_start :: "bb_args \<Rightarrow> int" where "dst_start a = 16 * uint (bb_dstbase a) + bb_dx a"
definition src_start :: "bb_args \<Rightarrow> int" where "src_start a = 16 * uint (lisp_base (bb_srcbase a)) + bb_sx a"

lemma byte_split:
  fixes base :: LispPTR and x :: int
  defines "b \<equiv> x32byta base x"
  shows "b div 4 = (16 * uint base + x) div 32" "8 * (b mod 4) + x mod 8 = (16 * uint base + x) mod 32"
proof -
  have b: "b = 2 * uint base + x div 8" unfolding b_def x32byta_def by (cases "x < 0") simp_all
  have "16 * uint base + x = 8 * b + x mod 8" by (simp add: b)
  then have e: "16 * uint base + x = 32 * (b div 4) + (8 * (b mod 4) + x mod 8)"
    using div_mult_mod_eq [of b 4] by linarith
  have "0 \<le> 8 * (b mod 4) + x mod 8" "8 * (b mod 4) + x mod 8 < 32"
    using pos_mod_bound [of 4 b] pos_mod_bound [of 8 x] by simp_all
  then show "b div 4 = (16 * uint base + x) div 32" "8 * (b mod 4) + x mod 8 = (16 * uint base + x) mod 32"
    unfolding e by (simp_all add: div_mult_self4 mod_mult_self4)
qed

lemma next_bits: "(P mod 32 + w - 1) mod 32 = (P + w - 1) mod (32 :: int)"
  using mod_add_left_eq [of P 32 "w - 1"] by (simp add: add_diff_eq)

lemma before_bits: "((P + w - 1) mod 32 - w + 1) mod 32 = P mod (32 :: int)"
  using mod_diff_left_eq [of "P + w - 1" 32 "w - 1"] by (simp add: algebra_simps)

lemma distance_bits: "(S mod 32 - D mod 32) mod 32 = (S - D) mod (32 :: int)"
  by (rule mod_diff_eq)

lemma F_dst_masks_vars:
  "dst32lbit v = D mod 32 \<Longrightarrow> dst32rbit v = (D + bb_w a - 1) mod 32 \<Longrightarrow> OrigDstAddr v = D div 32 \<Longrightarrow>
     F_dst_vars a D (F_dst_masks (bb_w a) v)"
  by (simp add: F_dst_vars_def F_dst_masks_def F_num_loop_def Let_def)

lemma B_dst_masks_vars:
  "dst32lbit v = D mod 32 \<Longrightarrow> dst32rbit v = (D + bb_w a - 1) mod 32 \<Longrightarrow> OrigDstAddr v = (D + bb_w a - 1) div 32 \<Longrightarrow>
     B_dst_vars a D (B_dst_masks (bb_w a) v)"
  by (simp add: B_dst_vars_def B_dst_masks_def B_num_loop_def Let_def)

lemma src_shifts_vars:
  "dst32lbit v = D mod 32 \<Longrightarrow> src32lbit v = S mod 32 \<Longrightarrow> src32rbit v = (S + bb_w a - 1) mod 32 \<Longrightarrow>
     src_vars a am D S (src_shifts am v)"
proof -
  assume h: "dst32lbit v = D mod 32" "src32lbit v = S mod 32" "src32rbit v = (S + bb_w a - 1) mod 32"
  have z: "(S - D) mod 32 \<noteq> 0 \<Longrightarrow> 0 < (S - D) mod 32" using pos_mod_sign [of 32 "S - D"] by linarith
  show ?thesis using z
    by (cases "(S - D) mod 32 = 0") (simp_all add: h src_vars_def src_shifts_def shifts_ok_def Let_def distance_bits off_def)
qed

text \<open>What the masks and the shifts leave alone.\<close>

lemma F_dst_masks_fields [simp]:
  "dst32addr (F_dst_masks w v) = dst32addr v" "src32addr (F_dst_masks w v) = src32addr v"
  "OrigSrcAddr (F_dst_masks w v) = OrigSrcAddr v" "src32lbit (F_dst_masks w v) = src32lbit v"
  "src32rbit (F_dst_masks w v) = src32rbit v" "bb_fast (F_dst_masks w v) = bb_fast v"
  "OrigDstAddr (F_dst_masks w v) = OrigDstAddr v" "dst32lbit (F_dst_masks w v) = dst32lbit v"
  "gray_src (F_dst_masks w v) = gray_src v" "curr_gray_line (F_dst_masks w v) = curr_gray_line v"
  by (simp_all add: F_dst_masks_def Let_def)

lemma B_dst_masks_fields [simp]:
  "dst32addr (B_dst_masks w v) = dst32addr v" "src32addr (B_dst_masks w v) = src32addr v"
  "OrigSrcAddr (B_dst_masks w v) = OrigSrcAddr v" "src32lbit (B_dst_masks w v) = src32lbit v"
  "src32rbit (B_dst_masks w v) = src32rbit v" "bb_fast (B_dst_masks w v) = bb_fast v"
  "OrigDstAddr (B_dst_masks w v) = OrigDstAddr v" "dst32lbit (B_dst_masks w v) = dst32lbit v"
  by (simp_all add: B_dst_masks_def Let_def)

lemma src_shifts_fields [simp]:
  "dst32addr (src_shifts m v) = dst32addr v" "src32addr (src_shifts m v) = src32addr v"
  "OrigSrcAddr (src_shifts m v) = OrigSrcAddr v" "bb_fast (src_shifts m v) = bb_fast v"
  "F_dst_vars a D (src_shifts m v) = F_dst_vars a D v" "B_dst_vars a D (src_shifts m v) = B_dst_vars a D v"
  by (simp_all add: src_shifts_def Let_def F_dst_vars_def B_dst_vars_def)

definition fast_ok :: "bb_args \<Rightarrow> bb_vars \<Rightarrow> bool" where
  "fast_ok a v \<longleftrightarrow> bb_fast v = (bb_srcbpl a mod 32 = 0 \<and> bb_dstbpl a mod 32 = 0)"

lemma F_init:
  assumes "\<not> bb_gray a" "\<not> bb_backward a" "v = some_init a (bb_variables a)"
  shows "F_line_vars a (dst_start a) (src_start a) v \<and> dst32addr v = dst_start a div 32 \<and>
    src32addr v = src_start a div 32 \<and> fast_ok a v"
proof -
  note bd = byte_split [of "bb_dstbase a" "bb_dx a", folded dst_start_def]
  note bs = byte_split [of "lisp_base (bb_srcbase a)" "bb_sx a", folded src_start_def]
  have d: "F_dst_vars a (dst_start a) (F_dst_init a u)" for u
    unfolding F_dst_init_def Let_def by (rule F_dst_masks_vars) (simp_all add: bd next_bits)
  have s: "src_vars a ALL_ONES (dst_start a) (src_start a) (F_src_init a (F_dst_init a u))" for u
    unfolding F_src_init_def Let_def
    by (rule src_shifts_vars) (use d [of u] in \<open>simp_all add: bs next_bits F_dst_vars_def\<close>)
  have f: "F_dst_vars a (dst_start a) (F_src_init a (F_dst_init a u))" for u
    using d [of u] by (simp add: F_src_init_def Let_def) (simp add: F_dst_vars_def)
  show ?thesis using assms d s f
    by (simp add: some_init_def F_line_vars_def fast_ok_def) (simp add: F_src_init_def F_dst_init_def Let_def bd bs)
qed

lemma B_init:
  assumes "\<not> bb_gray a" "bb_backward a" "v = some_init a (bb_variables a)"
  shows "B_line_vars a (dst_start a) (src_start a) v \<and> dst32addr v = (dst_start a + bb_w a - 1) div 32 \<and>
    src32addr v = (src_start a + bb_w a - 1) div 32 \<and> fast_ok a v"
proof -
  have e: "16 * uint (bb_dstbase a) + (bb_dx a + bb_w a - 1) = dst_start a + bb_w a - 1"
    "16 * uint (lisp_base (bb_srcbase a)) + (bb_sx a + bb_w a - 1) = src_start a + bb_w a - 1"
    by (simp_all add: dst_start_def src_start_def)
  note bd = byte_split [of "bb_dstbase a" "bb_dx a + bb_w a - 1", unfolded e]
  note bs = byte_split [of "lisp_base (bb_srcbase a)" "bb_sx a + bb_w a - 1", unfolded e]
  have d: "B_dst_vars a (dst_start a) (B_dst_init a u)" for u
    unfolding B_dst_init_def Let_def by (rule B_dst_masks_vars) (simp_all add: bd before_bits)
  have s: "src_vars a 0 (dst_start a) (src_start a) (B_src_init a (B_dst_init a u))" for u
    unfolding B_src_init_def Let_def
    by (rule src_shifts_vars) (use d [of u] in \<open>simp_all add: bs before_bits B_dst_vars_def\<close>)
  have f: "B_dst_vars a (dst_start a) (B_src_init a (B_dst_init a u))" for u
    using d [of u] by (simp add: B_src_init_def Let_def) (simp add: B_dst_vars_def)
  show ?thesis using assms d s f
    by (simp add: some_init_def B_line_vars_def fast_ok_def) (simp add: B_src_init_def B_dst_init_def Let_def bd bs)
qed

section \<open>From one line to the next\<close>

lemma next_cell: "P div 32 + (P mod 32 + b) div 32 = (P + b) div (32 :: int)" "(P mod 32 + b) mod 32 = (P + b) mod (32 :: int)"
proof -
  have "P + b = (P mod 32 + b) + 32 * (P div 32)" by simp
  then show "P div 32 + (P mod 32 + b) div 32 = (P + b) div 32" by (simp only: div_mult_self2)
qed (simp add: mod_add_left_eq)

lemma whole_cells: "b mod 32 = (0 :: int) \<Longrightarrow> (P + b) div 32 = P div 32 + b div 32 \<and> (P + b) mod 32 = P mod 32"
  by (auto simp: div_plus_div_distrib_dvd_right mod_eq_0_iff_dvd elim!: dvdE)

lemma last_shift: "b mod 32 = (0 :: int) \<Longrightarrow> (P + b + w - 1) mod 32 = (P + w - 1) mod 32"
proof -
  assume h: "b mod 32 = 0"
  have e: "P + b + w - 1 = P + w - 1 + b" by simp
  show ?thesis unfolding e using whole_cells [OF h, of "P + w - 1"] by (rule conjunct2)
qed

lemma off_both: "d mod 32 = 0 \<Longrightarrow> e mod 32 = 0 \<Longrightarrow> off (D + d) (S + e) = off D S"
proof -
  assume h: "d mod 32 = 0" "e mod 32 = 0"
  have "(S + e - (D + d)) mod 32 = (S - D + (e - d)) mod 32" by (simp add: algebra_simps)
  moreover have "(e - d) mod 32 = 0" using h by (simp add: mod_eq_0_iff_dvd)
  ultimately show ?thesis using whole_cells [of "e - d" "S - D"] by (simp add: off_def)
qed

lemma src_vars_shift:
  "d mod 32 = 0 \<Longrightarrow> e mod 32 = 0 \<Longrightarrow> src_vars a am (D + d) (S + e) v = src_vars a am D S v"
proof -
  assume h: "d mod 32 = 0" "e mod 32 = 0"
  have "(S + e + bb_w a - 1) mod 32 = (S + bb_w a - 1) mod 32" by (rule last_shift [OF h(2)])
  moreover have "shifts_ok (D + d) (S + e) v = shifts_ok D S v"
    unfolding shifts_ok_def off_def [symmetric] off_both [OF h] off_both [OF h(2,1)] ..
  ultimately show ?thesis using whole_cells [OF h(2), of S] by (simp add: src_vars_def off_both [OF h])
qed

definition F_at :: "bb_args \<Rightarrow> int \<Rightarrow> int \<Rightarrow> bb_vars \<Rightarrow> bool" where
  "F_at a D S v \<longleftrightarrow> F_line_vars a D S v \<and> dst32addr v = D div 32 \<and> src32addr v = S div 32 \<and> fast_ok a v"
definition B_at :: "bb_args \<Rightarrow> int \<Rightarrow> int \<Rightarrow> bb_vars \<Rightarrow> bool" where
  "B_at a D S v \<longleftrightarrow> B_line_vars a D S v \<and> dst32addr v = (D + bb_w a - 1) div 32 \<and>
     src32addr v = (S + bb_w a - 1) div 32 \<and> fast_ok a v"

lemma F_advance:
  assumes lv: "F_line_vars a D S v" and f: "fast_ok a v"
  shows "F_at a (D + bb_dstbpl a) (S + bb_srcbpl a) (F_do_src_advance a (F_do_dst_advance a v))"
proof (cases "bb_fast v")
  case True
  then have m: "bb_srcbpl a mod 32 = 0" "bb_dstbpl a mod 32 = 0" using f by (simp_all add: fast_ok_def)
  have "F_dst_vars a (D + bb_dstbpl a) v' \<and> src_vars a ALL_ONES (D + bb_dstbpl a) (S + bb_srcbpl a) v'"
    if "v' = F_do_src_advance a (F_do_dst_advance a v)" for v'
    using True lv whole_cells [OF m(2), of D] last_shift [OF m(2), of D "bb_w a"]
    by (simp add: that F_line_vars_def src_vars_shift [OF m(2,1)])
      (simp add: F_dst_vars_def src_vars_def shifts_ok_def F_do_dst_advance_def F_do_src_advance_def Let_def)
  moreover define v' where "v' = F_do_src_advance a (F_do_dst_advance a v)"
  moreover have "dst32addr v' = D div 32 + bb_dstbpl a div 32" "src32addr v' = S div 32 + bb_srcbpl a div 32"
    "OrigSrcAddr v' = S div 32 + bb_srcbpl a div 32" "bb_fast v' = bb_fast v"
    using True lv by (simp_all add: v'_def F_do_dst_advance_def F_do_src_advance_def Let_def F_line_vars_def F_dst_vars_def)
  ultimately show ?thesis using f unfolding F_at_def F_line_vars_def fast_ok_def
      whole_cells [OF m(1), THEN conjunct1] whole_cells [OF m(2), THEN conjunct1] by simp
next
  case False
  define v1 where "v1 = F_do_dst_advance a v"
  let ?D = "D + bb_dstbpl a" and ?S = "S + bb_srcbpl a"
  have ov: "OrigDstAddr v = D div 32" "dst32lbit v = D mod 32" using lv by (simp_all add: F_line_vars_def F_dst_vars_def)
  have v1: "v1 = F_dst_masks (bb_w a) (v\<lparr>dst32addr := ?D div 32, dst32lbit := ?D mod 32,
              dst32rbit := (?D + bb_w a - 1) mod 32, OrigDstAddr := ?D div 32\<rparr>)"
    unfolding v1_def F_do_dst_advance_def Let_def ov unfolding next_cell unfolding next_bits if_not_P [OF False] ..
  have d: "F_dst_vars a ?D v1" unfolding v1 by (rule F_dst_masks_vars) simp_all
  have o: "dst32addr v1 = ?D div 32" "OrigSrcAddr v1 = S div 32" "src32lbit v1 = S mod 32" "\<not> bb_fast v1" "fast_ok a v1"
    using False lv f unfolding v1 by (simp_all add: F_line_vars_def src_vars_def fast_ok_def)
  have v2: "F_do_src_advance a v1 = src_shifts ALL_ONES (v1\<lparr>src32addr := ?S div 32, src32lbit := ?S mod 32,
              src32rbit := (?S + bb_w a - 1) mod 32, OrigSrcAddr := ?S div 32\<rparr>)"
    unfolding F_do_src_advance_def Let_def o unfolding next_cell unfolding next_bits if_not_P [OF o(4)] ..
  have s: "src_vars a ALL_ONES ?D ?S (F_do_src_advance a v1)"
    unfolding v2 by (rule src_shifts_vars) (use d in \<open>simp_all add: F_dst_vars_def\<close>)
  have "F_dst_vars a ?D (F_do_src_advance a v1)"
    using d unfolding v2 by simp (simp add: F_dst_vars_def)
  then show ?thesis using s o unfolding F_at_def F_line_vars_def v1_def [symmetric] unfolding v2
    by (simp add: fast_ok_def)
qed

lemma ceiling_cells: "(31 - r) div 32 = - (r div (32 :: int))"
  using block_unique [of "- (r div 32)" "31 - r"] block_split [of r] by simp

lemma no_carry: "d \<le> 0 \<Longrightarrow> r < 32 \<Longrightarrow> 0 \<le> r + d \<Longrightarrow> (r + d) div 32 = (0 :: int)" by simp

lemma back_cells:
  "d \<le> 0 \<Longrightarrow> 0 \<le> R \<Longrightarrow> R < 32 \<Longrightarrow>
     (if R + d < 0 then q - (31 - (R + d)) div 32 else q + (l mod 32) div 32) = q + (R + d) div (32 :: int)"
  unfolding ceiling_cells using no_carry [of d R] by simp

lemma any_cells:
  "(if R < 0 then q - (31 - R) div 32 else q + R div 32) = q + R div (32 :: int)"
  unfolding ceiling_cells by simp

lemma B_advance:
  assumes lv: "B_line_vars a D S v" and f: "fast_ok a v" and up: "bb_fast v \<or> bb_dstbpl a \<le> 0"
  shows "B_at a (D + bb_dstbpl a) (S + bb_srcbpl a) (B_do_src_advance a (B_do_dst_advance a v))"
proof (cases "bb_fast v")
  case True
  then have m: "bb_srcbpl a mod 32 = 0" "bb_dstbpl a mod 32 = 0" using f by (simp_all add: fast_ok_def)
  have c: "(P + b + bb_w a - 1) div 32 = (P + bb_w a - 1) div 32 + b div 32" if "b mod 32 = 0" for P b
  proof -
    have e: "P + b + bb_w a - 1 = P + bb_w a - 1 + b" by simp
    show ?thesis unfolding e using whole_cells [OF that, of "P + bb_w a - 1"] by (rule conjunct1)
  qed
  have "B_dst_vars a (D + bb_dstbpl a) v' \<and> src_vars a 0 (D + bb_dstbpl a) (S + bb_srcbpl a) v'"
    if "v' = B_do_src_advance a (B_do_dst_advance a v)" for v'
    using True lv whole_cells [OF m(2), of D] last_shift [OF m(2), of D "bb_w a"] c [OF m(2), of D]
    by (simp add: that B_line_vars_def src_vars_shift [OF m(2,1)])
      (simp add: B_dst_vars_def src_vars_def shifts_ok_def B_do_dst_advance_def B_do_src_advance_def Let_def)
  moreover define v' where "v' = B_do_src_advance a (B_do_dst_advance a v)"
  moreover have "dst32addr v' = (D + bb_w a - 1) div 32 + bb_dstbpl a div 32"
    "src32addr v' = (S + bb_w a - 1) div 32 + bb_srcbpl a div 32"
    "OrigSrcAddr v' = (S + bb_w a - 1) div 32 + bb_srcbpl a div 32" "bb_fast v' = bb_fast v"
    using True lv by (simp_all add: v'_def B_do_dst_advance_def B_do_src_advance_def Let_def B_line_vars_def B_dst_vars_def)
  ultimately show ?thesis using f unfolding B_at_def B_line_vars_def fast_ok_def c [OF m(1)] c [OF m(2)] by simp
next
  case False
  then have up: "bb_dstbpl a \<le> 0" using up by simp
  define v1 where "v1 = B_do_dst_advance a v"
  have ov: "OrigDstAddr v = (D + bb_w a - 1) div 32" "dst32rbit v = (D + bb_w a - 1) mod 32" "dst32lbit v = D mod 32"
    using lv by (simp_all add: B_line_vars_def B_dst_vars_def)
  have e: "P + b + bb_w a - 1 = P + bb_w a - 1 + b" for P b by simp
  have k: "(if dst32rbit v + bb_dstbpl a < 0 then OrigDstAddr v - (31 - (dst32rbit v + bb_dstbpl a)) div 32
            else OrigDstAddr v + dst32lbit v div 32) = (D + bb_dstbpl a + bb_w a - 1) div 32"
    unfolding ov e by (subst back_cells [OF up]) (simp_all only: next_cell(1) pos_mod_sign pos_mod_bound)
  have rb: "((P + bb_w a - 1) mod 32 + b) mod 32 = (P + b + bb_w a - 1) mod 32" for P b
    unfolding e by (rule next_cell(2))
  let ?D = "D + bb_dstbpl a" and ?S = "S + bb_srcbpl a"
  have v1: "v1 = B_dst_masks (bb_w a) (v\<lparr>dst32addr := (?D + bb_w a - 1) div 32, dst32rbit := (?D + bb_w a - 1) mod 32,
              dst32lbit := ?D mod 32, OrigDstAddr := (?D + bb_w a - 1) div 32\<rparr>)"
    unfolding v1_def B_do_dst_advance_def Let_def k unfolding ov rb before_bits if_not_P [OF False] ..
  have d: "B_dst_vars a ?D v1" unfolding v1 by (rule B_dst_masks_vars) simp_all
  have o: "dst32addr v1 = (?D + bb_w a - 1) div 32" "OrigSrcAddr v1 = (S + bb_w a - 1) div 32"
    "src32rbit v1 = (S + bb_w a - 1) mod 32" "\<not> bb_fast v1" "fast_ok a v1"
    using False lv f unfolding v1 by (simp_all add: B_line_vars_def src_vars_def fast_ok_def)
  have ks: "(if src32rbit v1 + bb_srcbpl a < 0 then OrigSrcAddr v1 - (31 - (src32rbit v1 + bb_srcbpl a)) div 32
             else OrigSrcAddr v1 + (src32rbit v1 + bb_srcbpl a) div 32) = (?S + bb_w a - 1) div 32"
    unfolding any_cells o e by (rule next_cell(1))
  have v2: "B_do_src_advance a v1 = src_shifts 0 (v1\<lparr>src32addr := (?S + bb_w a - 1) div 32,
              src32rbit := (?S + bb_w a - 1) mod 32, src32lbit := ?S mod 32, OrigSrcAddr := (?S + bb_w a - 1) div 32\<rparr>)"
    unfolding B_do_src_advance_def Let_def ks unfolding o rb before_bits if_not_P [OF o(4)] ..
  have s: "src_vars a 0 ?D ?S (B_do_src_advance a v1)"
    unfolding v2 by (rule src_shifts_vars) (use d in \<open>simp_all add: B_dst_vars_def\<close>)
  have "B_dst_vars a ?D (B_do_src_advance a v1)"
    using d unfolding v2 by simp (simp add: B_dst_vars_def)
  then show ?thesis using s o unfolding B_at_def B_line_vars_def v1_def [symmetric] unfolding v2
    by (simp add: fast_ok_def)
qed

end
