(* ===== verification/BitBlt_Copy.thy ===== *)
theory BitBlt_Copy
  imports BitBlt_Laws
begin

text \<open>
  The loops over the lines: \<open>new_bitblt_code\<close> is the bitwise reference \<open>bitblt_ref\<close> in both
  directions, and where no line destroys the source of a later one, the reference is one simultaneous
  copy of a rectangle (\<open>blt_rect\<close>).
\<close>

section \<open>The line loops\<close>

definition line_apart :: "bb_args \<Rightarrow> int \<Rightarrow> int \<Rightarrow> bool" where
  "line_apart a D S \<longleftrightarrow> (if bb_backward a then B_ok a D S else F_ok a D S)"

definition bb_at :: "bb_args \<Rightarrow> int \<Rightarrow> int \<Rightarrow> bb_vars \<Rightarrow> bool" where
  "bb_at a D S v \<longleftrightarrow> (if bb_backward a then B_at a D S v else F_at a D S v)"

text \<open>The backward advance is only right upwards or by whole cells.\<close>

definition advance_ok :: "bb_args \<Rightarrow> bool" where
  "advance_ok a \<longleftrightarrow> bb_backward a \<longrightarrow> bb_dstbpl a \<le> 0 \<or> bb_dstbpl a mod 32 = 0 \<and> bb_srcbpl a mod 32 = 0"

definition one_line :: "bb_args \<Rightarrow> int \<Rightarrow> int \<Rightarrow> (int \<Rightarrow> bool) \<Rightarrow> int \<Rightarrow> bool" where
  "one_line a D S m = blt_on (bb_op a) (bb_comp a) (S - D) {D..<D + bb_w a} m"

lemma bb_line_step:
  assumes g: "\<not> bb_gray a" and ok: "line_apart a D S" and adv: "advance_ok a" and at: "bb_at a D S v" and s: "shows_image s m"
  obtains v' s' where "bb_line a (v, s) = (v', s')" "bb_at a (D + bb_dstbpl a) (S + bb_srcbpl a) v'"
    "shows_image s' (one_line a D S m)"
proof (cases "bb_backward a")
  case True
  obtain v1 s1 where r: "B_do_transfer a (B_do_src_setup a s v, s) = (v1, s1)"
    by (cases "B_do_transfer a (B_do_src_setup a s v, s)")
  have b: "B_ok a D S" "B_line_vars a D S v" "dst32addr v = (D + bb_w a - 1) div 32"
    "src32addr v = (S + bb_w a - 1) div 32" "fast_ok a v"
    using ok at True by (simp_all add: line_apart_def bb_at_def B_at_def)
  have l: "same_line v v1" "shows_image s1 (one_line a D S m)"
    using B_line [OF b(1-4) s r] by (simp_all add: one_line_def)
  have "B_line_vars a D S v1" "fast_ok a v1"
    using B_line_vars_kept [OF l(1) b(2)] same_line_fields [OF l(1)] b(5) by (simp_all add: fast_ok_def)
  moreover from this have "bb_fast v1 \<or> bb_dstbpl a \<le> 0" using adv True by (auto simp: advance_ok_def fast_ok_def)
  ultimately have "B_at a (D + bb_dstbpl a) (S + bb_srcbpl a) (B_do_src_advance a (B_do_dst_advance a v1))"
    by (rule B_advance)
  then show thesis using that [of "B_do_src_advance a (B_do_dst_advance a v1)" s1] g True r l(2)
    by (simp add: bb_line_def bb_at_def)
next
  case False
  obtain v1 s1 where r: "F_do_transfer a (F_do_src_setup a s v, s) = (v1, s1)"
    by (cases "F_do_transfer a (F_do_src_setup a s v, s)")
  have f: "F_ok a D S" "F_line_vars a D S v" "dst32addr v = D div 32" "src32addr v = S div 32" "fast_ok a v"
    using ok at False by (simp_all add: line_apart_def bb_at_def F_at_def)
  have l: "same_line v v1" "shows_image s1 (one_line a D S m)"
    using F_line [OF f(1-4) s r] by (simp_all add: one_line_def)
  have "F_line_vars a D S v1" "fast_ok a v1"
    using F_line_vars_kept [OF l(1) f(2)] same_line_fields [OF l(1)] f(5) by (simp_all add: fast_ok_def)
  then have "F_at a (D + bb_dstbpl a) (S + bb_srcbpl a) (F_do_src_advance a (F_do_dst_advance a v1))"
    by (rule F_advance)
  then show thesis using that [of "F_do_src_advance a (F_do_dst_advance a v1)" s1] g False r l(2)
    by (simp add: bb_line_def bb_at_def)
qed

lemma bb_lines:
  assumes g: "\<not> bb_gray a" and adv: "advance_ok a"
  shows "bb_at a D S v \<Longrightarrow> shows_image s m \<Longrightarrow>
     (\<And>l. l < n \<Longrightarrow> line_apart a (D + int l * bb_dstbpl a) (S + int l * bb_srcbpl a)) \<Longrightarrow>
     shows_image (snd ((bb_line a ^^ n) (v, s)))
       (bitblt_ref n (bb_op a) (bb_comp a) (bb_w a) D S (bb_dstbpl a) (bb_srcbpl a) m)"
proof (induction n arbitrary: D S v s m)
  case (Suc n)
  have "line_apart a D S" using Suc.prems(3) [of 0] by simp
  then obtain v' s' where l: "bb_line a (v, s) = (v', s')" "bb_at a (D + bb_dstbpl a) (S + bb_srcbpl a) v'"
    "shows_image s' (one_line a D S m)"
    using bb_line_step [OF g _ adv Suc.prems(1,2)] by metis
  have "line_apart a (D + bb_dstbpl a + int l * bb_dstbpl a) (S + bb_srcbpl a + int l * bb_srcbpl a)" if "l < n" for l
    using Suc.prems(3) [of "Suc l"] that by (simp add: algebra_simps)
  from Suc.IH [OF l(2,3) this] show ?case
    by (simp add: funpow_Suc_right l(1) one_line_def del: funpow.simps)
qed simp

lemma bb_code_lines:
  assumes g: "\<not> bb_gray a" and adv: "advance_ok a" and s: "shows_image s m"
    and ok: "\<And>l. l < nat (bb_h a) \<Longrightarrow> line_apart a (dst_start a + int l * bb_dstbpl a) (src_start a + int l * bb_srcbpl a)"
  shows "shows_image (new_bitblt_code a s)
    (bitblt_ref (nat (bb_h a)) (bb_op a) (bb_comp a) (bb_w a) (dst_start a) (src_start a) (bb_dstbpl a) (bb_srcbpl a) m)"
proof -
  have "bb_at a (dst_start a) (src_start a) (some_init a (bb_variables a))"
    using B_init [OF g] F_init [OF g] by (simp add: bb_at_def B_at_def F_at_def)
  from bb_lines [OF g adv this s ok] show ?thesis by (simp add: new_bitblt_code_def)
qed

lemma char_code: "\<not> bb_gray a \<Longrightarrow> \<not> bb_backward a \<Longrightarrow> new_char_bitblt_code a s = new_bitblt_code a s"
proof -
  assume h: "\<not> bb_gray a" "\<not> bb_backward a"
  have "char_line a = bb_line a" using h by (auto simp: char_line_def bb_line_def fun_eq_iff)
  then show ?thesis by (simp add: new_char_bitblt_code_def new_bitblt_code_def)
qed

text \<open>C28. The bit block transfer without a texture, which moves aligned 32-bit cells with shifts, masks and
  saved words, computes the bitwise reference, line after line, in both directions and for each of the four
  operations, on lines of at least one bit inside the memory. Two conditions are needed. Within a line the
  direction must fit the overlap (\<open>line_apart\<close>): forwards the destination does not start inside the source, to
  the right of its first bit; backwards the source does not start inside the destination in this way.
  From line to line, a backward transfer goes up, or down by whole 32-bit cells (\<open>advance_ok\<close>): by any other
  number of bits downwards \<open>B_do_dst_advance\<close> stays on the same cell. \<open>copy_args\<close>, from which \<open>BITBLT\<close> calls it,
  meets both.\<close>

theorem bitblt_bitwise:
  assumes "\<not> bb_gray a" and "advance_ok a"
    and "\<And>l. l < nat (bb_h a) \<Longrightarrow> line_apart a (dst_start a + int l * bb_dstbpl a) (src_start a + int l * bb_srcbpl a)"
  shows "shows_image (new_bitblt_code a s)
    (bitblt_ref (nat (bb_h a)) (bb_op a) (bb_comp a) (bb_w a) (dst_start a) (src_start a)
       (bb_dstbpl a) (bb_srcbpl a) (pix s))"
  by (rule bb_code_lines) (use assms in \<open>simp_all add: shows_image_def\<close>)

text \<open>Two lines moved five bits to the right within themselves, from right to left and from the lower line up.\<close>

definition blt_overlap :: bb_args where
  "blt_overlap =
     \<lparr>bb_srcbase = In_lisp 0x40004, bb_dstbase = 0x40004, bb_sx = 3, bb_dx = 8, bb_w = 40, bb_h = 2,
      bb_srcbpl = -64, bb_dstbpl = -64, bb_backward = True, bb_comp = False, bb_op = 0, bb_gray = False,
      bb_num_gray = 0, bb_curr_gray = 0\<rparr>"

lemma blt_overlap_facts:
  "\<not> bb_gray blt_overlap" "advance_ok blt_overlap"
  "l < nat (bb_h blt_overlap) \<Longrightarrow>
     line_apart blt_overlap (dst_start blt_overlap + int l * bb_dstbpl blt_overlap) (src_start blt_overlap + int l * bb_srcbpl blt_overlap)"
  by (simp_all add: blt_overlap_def advance_ok_def line_apart_def B_ok_def line_ok_def in_memory_def LAST_BIT_def
      dst_start_def src_start_def lisp_base_def)

theorem bitblt_bitwise_witness:
  "shows_image (new_bitblt_code blt_overlap vm0)
     (bitblt_ref 2 0 False 40 4194376 4194371 (-64) (-64) (pix vm0))"
  using bitblt_bitwise [of blt_overlap vm0, OF blt_overlap_facts]
  by (simp add: blt_overlap_def dst_start_def src_start_def lisp_base_def)

section \<open>Rectangles\<close>

text \<open>The rows \<open>lo\<close> to \<open>hi - 1\<close> of a rectangle, each \<open>w\<close> bits of a line of \<open>dbpl\<close>, all at once.\<close>

definition blt_rect ::
  "nat \<Rightarrow> bool \<Rightarrow> int \<Rightarrow> int \<Rightarrow> int \<Rightarrow> int \<Rightarrow> int \<Rightarrow> int \<Rightarrow> int \<Rightarrow> (int \<Rightarrow> bool) \<Rightarrow> int \<Rightarrow> bool" where
  "blt_rect opn c w lo hi D S dbpl sbpl m = (\<lambda>p.
     let j = (p - D) div dbpl; i = (p - D) mod dbpl
     in if lo \<le> j \<and> j < hi \<and> i < w then pix_op opn c (m p) (m (S + j * sbpl + i)) else m p)"

lemma row_of:
  fixes dbpl :: int
  assumes "0 < dbpl" "w \<le> dbpl"
  shows "p \<in> {D + j * dbpl..<D + j * dbpl + w} \<longleftrightarrow> (p - D) div dbpl = j \<and> (p - D) mod dbpl < w"
    and "(p - D) div dbpl = j \<Longrightarrow> p = D + j * dbpl + (p - D) mod dbpl"
proof -
  have e: "p - D = dbpl * ((p - D) div dbpl) + (p - D) mod dbpl" by simp
  show "(p - D) div dbpl = j \<Longrightarrow> p = D + j * dbpl + (p - D) mod dbpl" using e by (simp add: mult.commute)
  have "(p - D) div dbpl = j \<and> (p - D) mod dbpl = p - (D + j * dbpl)" if "D + j * dbpl \<le> p" "p < D + j * dbpl + w"
  proof -
    have r: "p - D = dbpl * j + (p - (D + j * dbpl))" "0 \<le> p - (D + j * dbpl)" "p - (D + j * dbpl) < dbpl"
      using that assms by (auto simp: mult.commute)
    show ?thesis using int_div_pos_eq [OF r] int_mod_pos_eq [OF r] by simp
  qed
  moreover have "0 \<le> (p - D) mod dbpl" using assms by simp
  moreover have "p = D + j * dbpl + (p - D) mod dbpl" if "(p - D) div dbpl = j" using e that by (simp add: mult.commute)
  ultimately show "p \<in> {D + j * dbpl..<D + j * dbpl + w} \<longleftrightarrow> (p - D) div dbpl = j \<and> (p - D) mod dbpl < w"
    by (metis add.commute add_less_cancel_left atLeastLessThan_iff le_add_same_cancel2 diff_add_cancel add_diff_cancel_left')
qed

lemma blt_rect_none: "lo \<ge> hi \<Longrightarrow> blt_rect opn c w lo hi D S dbpl sbpl m = m"
  by (auto simp: blt_rect_def Let_def fun_eq_iff)

text \<open>One more row, below or above the rows done, whose source they do not touch.\<close>

lemma blt_rect_row:
  assumes d: "0 < dbpl" "w \<le> dbpl" and n: "lo' \<le> hi'" "n = hi' \<and> lo = lo' \<and> hi = hi' + 1 \<or> n = lo' - 1 \<and> lo = n \<and> hi = hi'"
    and new: "\<And>j i. lo' \<le> j \<Longrightarrow> j < hi' \<Longrightarrow> 0 \<le> i \<Longrightarrow> i < w \<Longrightarrow> S + n * sbpl + i \<notin> {D + j * dbpl..<D + j * dbpl + w}"
  shows "blt_on opn c (S + n * sbpl - (D + n * dbpl)) {D + n * dbpl..<D + n * dbpl + w}
           (blt_rect opn c w lo' hi' D S dbpl sbpl m) = blt_rect opn c w lo hi D S dbpl sbpl m"
proof
  fix p
  define m' j i where "m' = blt_rect opn c w lo' hi' D S dbpl sbpl m" and "j = (p - D) div dbpl" and "i = (p - D) mod dbpl"
  have i: "0 \<le> i" using d by (simp add: i_def)
  have p: "p = D + j * dbpl + i" using row_of(2) [OF d, of p D j] by (simp add: j_def i_def)
  have row: "p \<in> {D + n * dbpl..<D + n * dbpl + w} \<longleftrightarrow> j = n \<and> i < w" using row_of(1) [OF d] by (simp add: j_def i_def)
  show "blt_on opn c (S + n * sbpl - (D + n * dbpl)) {D + n * dbpl..<D + n * dbpl + w} m' p =
        blt_rect opn c w lo hi D S dbpl sbpl m p"
  proof (cases "j = n \<and> i < w")
    case True
    define q where "q = S + n * sbpl + i"
    have pq: "p + (S + n * sbpl - (D + n * dbpl)) = q" using p True by (simp add: q_def)
    have "m' q = m q"
    proof (cases "lo' \<le> (q - D) div dbpl \<and> (q - D) div dbpl < hi' \<and> (q - D) mod dbpl < w")
      case c: True
      then have "q \<in> {D + ((q - D) div dbpl) * dbpl..<D + ((q - D) div dbpl) * dbpl + w}" using row_of(1) [OF d] by simp
      then show ?thesis using new [of "(q - D) div dbpl" i] c i True by (simp add: q_def)
    qed (auto simp: m'_def blt_rect_def Let_def)
    moreover have "m' p = m p" using True n by (auto simp: m'_def blt_rect_def Let_def j_def [symmetric])
    moreover have "lo \<le> n \<and> n < hi" using n by auto
    moreover have "p \<in> {D + n * dbpl..<D + n * dbpl + w}" using True row by blast
    ultimately show ?thesis using True unfolding blt_on_def pq
      by (simp add: blt_rect_def Let_def j_def [symmetric] i_def [symmetric] q_def)
  next
    case False
    have "lo' \<le> j \<and> j < hi' \<longleftrightarrow> lo \<le> j \<and> j < hi" if "i < w" using that False n by auto
    then show ?thesis using False row
      by (auto simp: blt_on_def m'_def blt_rect_def Let_def j_def [symmetric] i_def [symmetric])
  qed
qed

text \<open>Line after line downwards (\<open>g = 1\<close>, rows \<open>a, a + 1, \<dots>\<close>) and upwards.\<close>

lemma lines_down:
  assumes d: "0 < dbpl" "w \<le> dbpl"
    and new: "\<And>n j i. lo \<le> j \<Longrightarrow> j < n \<Longrightarrow> n < hi \<Longrightarrow> 0 \<le> i \<Longrightarrow> i < w \<Longrightarrow>
                S + n * sbpl + i \<notin> {D + j * dbpl..<D + j * dbpl + w}"
  shows "lo \<le> k \<Longrightarrow> hi = k + int h \<Longrightarrow>
     bitblt_ref h opn c w (D + k * dbpl) (S + k * sbpl) dbpl sbpl (blt_rect opn c w lo k D S dbpl sbpl m) =
     blt_rect opn c w lo hi D S dbpl sbpl m"
proof (induction h arbitrary: k)
  case (Suc h)
  have "blt_on opn c (S + k * sbpl - (D + k * dbpl)) {D + k * dbpl..<D + k * dbpl + w} (blt_rect opn c w lo k D S dbpl sbpl m) =
        blt_rect opn c w lo (k + 1) D S dbpl sbpl m"
    using Suc.prems new [of _ k] by (intro blt_rect_row [OF d]) (simp_all del: atLeastLessThan_iff)
  then show ?case using Suc.IH [of "k + 1"] Suc.prems by (simp add: algebra_simps)
qed simp

lemma lines_up:
  assumes d: "0 < dbpl" "w \<le> dbpl"
    and new: "\<And>n j i. 0 \<le> n \<Longrightarrow> n < j \<Longrightarrow> j < hi \<Longrightarrow> 0 \<le> i \<Longrightarrow> i < w \<Longrightarrow>
                S + n * sbpl + i \<notin> {D + j * dbpl..<D + j * dbpl + w}"
  shows "int h \<le> hi \<Longrightarrow>
     bitblt_ref h opn c w (D + (int h - 1) * dbpl) (S + (int h - 1) * sbpl) (- dbpl) (- sbpl)
       (blt_rect opn c w (int h) hi D S dbpl sbpl m) =
     blt_rect opn c w 0 hi D S dbpl sbpl m"
proof (induction h)
  case (Suc h)
  have "blt_on opn c (S + int h * sbpl - (D + int h * dbpl)) {D + int h * dbpl..<D + int h * dbpl + w}
          (blt_rect opn c w (int h + 1) hi D S dbpl sbpl m) = blt_rect opn c w (int h) hi D S dbpl sbpl m"
    using Suc.prems new [of "int h"] by (intro blt_rect_row [OF d]) (simp_all del: atLeastLessThan_iff)
  then show ?case using Suc by (simp add: algebra_simps)
qed simp

end
