(* ===== verification/Bitmaps.thy ===== *)
theory Bitmaps
  imports BitBlt_Copy Numbers
begin

text \<open>
  The Lisp functions that move bits between bitmaps and draw characters: \<open>bitbltsub\<close>,
  \<open>bitblt_bitmap\<close>, \<open>bitshade_bitmap\<close>, \<open>bltchar\<close>, \<open>newbltchar\<close> and
  \<open>tedit_bltchar\<close> of \<open>src/bbtsub.c\<close>. Definitions; what they promise is in
  \<open>Bitmap_Laws\<close>.

  The arguments of a function are cells of the stack, \<open>args\<close> is the Lisp address of the first.
  Atoms whose numbers the emulator looks up at start are fields of \<open>blt_env\<close>. A function that
  leaves the work to Lisp code names it in \<open>Blt_punt\<close>. The comments require the coordinates to be
  \<open>SMALLPOSP\<close>s, but \<open>N_GETNUMBER\<close> lets any 32-bit number through: the sums of two of them
  are kept to the width of a C \<open>int\<close> (\<open>c_int\<close>; gcc wraps around). All other \<open>int\<close> variables hold
  sums of a few 16-bit quantities, which fit.
\<close>

section \<open>Environment and data\<close>

record blt_env =
  INPUT_atom :: LispPTR
  REPLACE_atom :: LispPTR
  PAINT_atom :: LispPTR
  ERASE_atom :: LispPTR
  INVERT_atom :: LispPTR
  TEXTURE_atom :: LispPTR
  MERGE_atom :: LispPTR
  TOPWDS68k :: LispPTR

datatype 'a blt_exit = Blt_done 'a | Blt_punt string

definition bmbase :: "vm \<Rightarrow> LispPTR \<Rightarrow> LispPTR" where "bmbase s bm = rd s bm"
definition bmrasterwidth :: "vm \<Rightarrow> LispPTR \<Rightarrow> int" where "bmrasterwidth s bm = uint (getword (mem s) (bm + 2))"
definition bmheight :: "vm \<Rightarrow> LispPTR \<Rightarrow> int" where "bmheight s bm = uint (getword (mem s) (bm + 3))"
definition bmwidth :: "vm \<Rightarrow> LispPTR \<Rightarrow> int" where "bmwidth s bm = uint (getword (mem s) (bm + 4))"
definition bmbitperpixel :: "vm \<Rightarrow> LispPTR \<Rightarrow> int" where "bmbitperpixel s bm = uint (getword (mem s) (bm + 5))"

definition IsNumber :: "vm \<Rightarrow> LispPTR \<Rightarrow> bool" where
  "IsNumber s a \<longleftrightarrow> mds_typetbl (gc s) (unat (drop_bit 9 (a AND 0x0FFFFF00))) AND 0x1000 \<noteq> 0"

definition bbop :: "blt_env \<Rightarrow> LispPTR \<Rightarrow> nat" where
  "bbop E operation =
     (if operation = PAINT_atom E then 2 else if operation = ERASE_atom E then 1
      else if operation = INVERT_atom E then 3 else 0)"

definition bbsrc_type :: "blt_env \<Rightarrow> LispPTR \<Rightarrow> LispPTR \<Rightarrow> bool" where
  "bbsrc_type E sourcetype operation =
     (if sourcetype = INVERT_atom E then operation \<noteq> ERASE_atom E else operation = ERASE_atom E)"

definition lisp_arg :: "vm \<Rightarrow> LispPTR \<Rightarrow> nat \<Rightarrow> LispPTR" where "lisp_arg s args i = rd s (args + 2 * of_nat i)"

section \<open>Textures\<close>

definition Expand4Bit :: "32 word \<Rightarrow> DLword" where
  "Expand4Bit b = ucast (b OR push_bit 4 b OR push_bit 8 b OR push_bit 12 b)"

text \<open>\<open>grayword\<close> after four times \<open>GETWORD(base++) =\<close>; a byte-swapped build exchanges the
  words of a cell (the array starts at a cell).\<close>

definition gray_words :: "vm \<Rightarrow> 32 word \<Rightarrow> DLword list" where
  "gray_words s t =
     (let row = (\<lambda>k. Expand4Bit (drop_bit k t AND 0xF))
      in if byteswapped s then [row 8, row 12, row 0, row 4] else [row 12, row 8, row 4, row 0])"

text \<open>The source, the number of its lines and the line to start with, at line \<open>y\<close> of the destination.\<close>

definition white_shade :: "src_ptr \<times> int \<times> int" where "white_shade = (In_gray [0, 0, 0, 0] 0, 1, 0)"

definition texture_source :: "vm \<Rightarrow> LispPTR \<Rightarrow> int \<Rightarrow> (src_ptr \<times> int \<times> int) res" where
  "texture_source s texture y =
     (if IsNumber s texture
      then (let t = texture AND 0xFFFF; c = y mod 4
            in if t = 0 then Inr white_shade
               else if t = 0xFFFF then Inr (In_gray [0xFFFF, 0, 0, 0] 0, 1, 0)
               else Inr (In_gray (gray_words s t) c, 4, c))
      else (let n = min (bmheight s texture) 16
            in if n = 0 then Inl (Fatal ''division by zero'')
               else Inr (In_lisp (bmbase s texture + word_of_int (y smod n)), n, y smod n)))"

section \<open>\<open>bitbltsub\<close>\<close>

text \<open>Within one bitmap the copy starts at the end when the destination comes after the source.\<close>

definition blt_backwards :: "bool \<Rightarrow> int \<Rightarrow> int \<Rightarrow> int \<Rightarrow> int \<Rightarrow> int \<Rightarrow> int \<Rightarrow> bool" where
  "blt_backwards same sx sty dx dty w h =
     (if \<not> same then False else if sty > dty then False else if dty > sty + h then False
      else sty \<noteq> dty \<or> sx < dx \<and> dx < sx + w)"

definition raster_line :: "vm \<Rightarrow> LispPTR \<Rightarrow> int \<Rightarrow> LispPTR" where
  "raster_line s bm y = bmbase s bm + word_of_int (bmrasterwidth s bm * y)"

definition copy_args ::
  "vm \<Rightarrow> LispPTR \<Rightarrow> LispPTR \<Rightarrow> int \<Rightarrow> int \<Rightarrow> int \<Rightarrow> int \<Rightarrow> int \<Rightarrow> int \<Rightarrow> nat \<Rightarrow> bool \<Rightarrow> bb_args" where
  "copy_args s srcebm destbm sx sty dx dty w h opn cmp =
     (let back = blt_backwards (srcebm = destbm) sx sty dx dty w h;
          last_line = (if back then h - 1 else 0); sign = (if back then -1 else 1)
      in \<lparr>bb_srcbase = In_lisp (raster_line s srcebm (sty + last_line)),
          bb_dstbase = raster_line s destbm (dty + last_line), bb_sx = sx, bb_dx = dx, bb_w = w, bb_h = h,
          bb_srcbpl = sign * (bmrasterwidth s srcebm * 16), bb_dstbpl = sign * (bmrasterwidth s destbm * 16),
          bb_backward = back, bb_comp = cmp, bb_op = opn, bb_gray = False, bb_num_gray = 0, bb_curr_gray = 0\<rparr>)"

definition shade_args ::
  "vm \<Rightarrow> src_ptr \<times> int \<times> int \<Rightarrow> LispPTR \<Rightarrow> int \<Rightarrow> int \<Rightarrow> int \<Rightarrow> int \<Rightarrow> int \<Rightarrow> nat \<Rightarrow> bool \<Rightarrow> bb_args" where
  "shade_args s src destbm sx dx dty w h opn cmp =
     (let (p, num_gray, curr) = src
      in \<lparr>bb_srcbase = p, bb_dstbase = raster_line s destbm dty, bb_sx = sx, bb_dx = dx, bb_w = w, bb_h = h,
          bb_srcbpl = 0, bb_dstbpl = bmrasterwidth s destbm * 16, bb_backward = False, bb_comp = cmp,
          bb_op = opn, bb_gray = True, bb_num_gray = num_gray, bb_curr_gray = curr\<rparr>)"

definition bitbltsub :: "blt_env \<Rightarrow> LispPTR \<Rightarrow> vm \<Rightarrow> vm res" where
  "bitbltsub E args s =
     (let arg = lisp_arg s args; low = (\<lambda>i. uint (arg i AND 0xFFFF));
          pbt = arg 0; srcebm = arg 1; sx = low 2; sty = low 3; destbm = arg 4; dx = low 5; dty = low 6;
          sourcetype = (if arg 8 = NIL then INPUT_atom E else arg 8);
          operation = (if arg 9 = NIL then REPLACE_atom E else arg 9);
          w = pbtwidth s pbt; h = pbtheight s pbt;
          cmp = bbsrc_type E sourcetype operation; opn = bbop E operation
      in if h \<le> 0 \<or> w \<le> 0 then Inr s
         else if sourcetype = TEXTURE_atom E
         then (let texture = arg 10;
                   wxoffset = (if arg 11 = NIL then 0 else low 11);
                   wyoffset = (if arg 12 = NIL then 0 else low 12);
                   gx = (if wxoffset \<noteq> 0 then dx - wxoffset else dx) smod 16
               in rbind (if texture = NIL then Inr white_shade else texture_source s texture (dty + wyoffset)) (\<lambda>src.
                  Inr (new_bitblt_code (shade_args s src destbm gx dx dty w h opn cmp) s)))
         else Inr (new_bitblt_code (copy_args s srcebm destbm sx sty dx dty w h opn cmp) s))"

section \<open>\<open>bitblt_bitmap\<close> and \<open>bitshade_bitmap\<close>\<close>

text \<open>\<open>N_GETNUMBER(x, n, bad_arg)\<close>, where \<open>bad_arg\<close> returns \<open>NIL\<close>.\<close>

definition num_arg ::
  "vm \<Rightarrow> LispPTR \<Rightarrow> (int \<Rightarrow> (LispPTR \<times> vm) blt_exit res) \<Rightarrow> (LispPTR \<times> vm) blt_exit res" where
  "num_arg s x k = (case N_GETNUMBER s x of None \<Rightarrow> Inr (Blt_done (NIL, s)) | Some n \<Rightarrow> k (sint n))"

text \<open>A sum in a C \<open>int\<close>.\<close>

definition c_int :: "int \<Rightarrow> int" where "c_int n = signed_take_bit 31 n"

record region =
  rg_left :: int
  rg_bottom :: int
  rg_right :: int
  rg_top :: int

definition clip_to :: "int \<Rightarrow> int \<Rightarrow> int \<Rightarrow> int \<Rightarrow> region \<Rightarrow> region" where
  "clip_to l b r t R =
     \<lparr>rg_left = max (rg_left R) l, rg_bottom = max (rg_bottom R) b,
      rg_right = min (rg_right R) r, rg_top = min (rg_top R) t\<rparr>"

definition car_number ::
  "vm \<Rightarrow> LispPTR \<Rightarrow> (int \<Rightarrow> (LispPTR \<times> vm) blt_exit res) \<Rightarrow> (LispPTR \<times> vm) blt_exit res" where
  "car_number s l k = rbind (car s l) (\<lambda>v. num_arg s v k)"

text \<open>The clipping region is a list of left, bottom, width and height.\<close>

definition clip_region ::
  "vm \<Rightarrow> LispPTR \<Rightarrow> region \<Rightarrow> (region \<Rightarrow> (LispPTR \<times> vm) blt_exit res) \<Rightarrow> (LispPTR \<times> vm) blt_exit res" where
  "clip_region s clipreg R k =
     (if clipreg = NIL then k R
      else car_number s clipreg (\<lambda>cr_left.
           rbind (cdr s clipreg) (\<lambda>c1. car_number s c1 (\<lambda>cr_bot.
           rbind (cdr s c1) (\<lambda>c2. car_number s c2 (\<lambda>width.
           rbind (cdr s c2) (\<lambda>c3. car_number s c3 (\<lambda>height.
           k (clip_to cr_left cr_bot (c_int (cr_left + width)) (c_int (cr_bot + height)) R)))))))))"

definition whole_bitmap :: "vm \<Rightarrow> LispPTR \<Rightarrow> region" where
  "whole_bitmap s bm = \<lparr>rg_left = 0, rg_bottom = 0, rg_right = bmwidth s bm, rg_top = bmheight s bm\<rparr>"

text \<open>From destination to source coordinates, within the source and its clipped part.\<close>

definition source_region :: "vm \<Rightarrow> LispPTR \<Rightarrow> int \<Rightarrow> int \<Rightarrow> int \<Rightarrow> int \<Rightarrow> int \<Rightarrow> int \<Rightarrow> region \<Rightarrow> region" where
  "source_region s bm stodx stody clipleft clipbottom width height R =
     \<lparr>rg_left = max clipleft (max 0 (c_int (rg_left R - stodx))),
      rg_bottom = max clipbottom (max 0 (c_int (rg_bottom R - stody))),
      rg_right = min (bmwidth s bm) (min (c_int (rg_right R - stodx)) (c_int (clipleft + width))),
      rg_top = min (bmheight s bm) (min (c_int (rg_top R - stody)) (c_int (clipbottom + height)))\<rparr>"

definition empty_region :: "region \<Rightarrow> bool" where
  "empty_region R \<longleftrightarrow> rg_right R \<le> rg_left R \<or> rg_top R \<le> rg_bottom R"

definition copy_region :: "blt_env \<Rightarrow> LispPTR \<Rightarrow> LispPTR \<Rightarrow> LispPTR \<Rightarrow> LispPTR \<Rightarrow> int \<Rightarrow> int \<Rightarrow> region \<Rightarrow> vm \<Rightarrow> vm" where
  "copy_region E srcebm destbm sourcetype operation stodx stody R s =
     new_bitblt_code
       (copy_args s srcebm destbm (rg_left R) (bmheight s srcebm - rg_top R)
          (c_int (rg_left R + stodx)) (c_int (bmheight s destbm - c_int (rg_top R + stody)))
          (rg_right R - rg_left R) (rg_top R - rg_bottom R) (bbop E operation) (bbsrc_type E sourcetype operation)) s"

definition bitblt_bitmap :: "blt_env \<Rightarrow> LispPTR \<Rightarrow> vm \<Rightarrow> (LispPTR \<times> vm) blt_exit res" where
  "bitblt_bitmap E args s =
     (let arg = lisp_arg s args; srcebm = arg 0; destbm = arg 3; sourcetype = arg 8; operation = arg 9
      in if bmbitperpixel s destbm \<noteq> 1 \<or> bmbitperpixel s srcebm \<noteq> 1 \<or> sourcetype = MERGE_atom E
         then Inr (Blt_punt ''PUNT.BITBLT.BITMAP'')
         else num_arg s (arg 1) (\<lambda>sleft. num_arg s (arg 2) (\<lambda>sbottom. num_arg s (arg 4) (\<lambda>dleft.
              num_arg s (arg 5) (\<lambda>dbottom. num_arg s (arg 6) (\<lambda>width. num_arg s (arg 7) (\<lambda>height.
              num_arg s (arg 12) (\<lambda>clipleft. num_arg s (arg 13) (\<lambda>clipbottom.
              clip_region s (arg 11) (whole_bitmap s destbm) (\<lambda>R0.
                let R1 = clip_to dleft dbottom (c_int (dleft + width)) (c_int (dbottom + height)) R0;
                    stodx = c_int (dleft - sleft); stody = c_int (dbottom - sbottom);
                    R = source_region s srcebm stodx stody clipleft clipbottom width height R1
                in if empty_region R then Inr (Blt_done (NIL, s))
                   else Inr (Blt_done (ATOM_T, copy_region E srcebm destbm sourcetype operation stodx stody R s))))))))))))"

text \<open>The width and the height may be absent. The calls of \<open>error\<close> report impossible values and go on.\<close>

definition opt_limit ::
  "vm \<Rightarrow> LispPTR \<Rightarrow> int \<Rightarrow> int \<Rightarrow> (int \<Rightarrow> (LispPTR \<times> vm) blt_exit res) \<Rightarrow> (LispPTR \<times> vm) blt_exit res" where
  "opt_limit s x from limit k = (if x = NIL then k limit else num_arg s x (\<lambda>n. k (min limit (c_int (from + n)))))"

definition log_if :: "bool \<Rightarrow> string \<Rightarrow> vm \<Rightarrow> vm" where "log_if b msg s = (if b then log_error msg s else s)"

definition shade_checks :: "vm \<Rightarrow> LispPTR \<Rightarrow> region \<Rightarrow> vm" where
  "shade_checks s bm R =
     (let dty = bmheight s bm - rg_top R
      in log_if (rg_left R < 0 \<or> rg_right R > bmrasterwidth s bm * 16) ''left/right bad.''
           (log_if (rg_bottom R > 2048) ''bottom suspicious''
           (log_if (rg_bottom R < 0) ''bottom bad.''
           (log_if (dty < 0 \<or> dty + (rg_top R - rg_bottom R) > bmheight s bm) ''dty bad.'' s))))"

definition shade_region :: "blt_env \<Rightarrow> LispPTR \<Rightarrow> LispPTR \<Rightarrow> LispPTR \<Rightarrow> region \<Rightarrow> vm \<Rightarrow> vm res" where
  "shade_region E texture destbm operation R s =
     (let dty = bmheight s destbm - rg_top R
      in rbind (if GetTypeNumber s texture = TYPE_LITATOM
                then (if texture = NIL then Inr white_shade else Inl (Fatal ''Should not!''))
                else texture_source s texture dty) (\<lambda>src.
         Inr (new_bitblt_code
                (shade_args s src destbm (rg_left R smod 16) (rg_left R) dty (rg_right R - rg_left R)
                   (rg_top R - rg_bottom R) (bbop E operation) (bbsrc_type E 0 operation)) s)))"

definition bitshade_bitmap :: "blt_env \<Rightarrow> LispPTR \<Rightarrow> vm \<Rightarrow> (LispPTR \<times> vm) blt_exit res" where
  "bitshade_bitmap E args s =
     (let arg = lisp_arg s args; texture = arg 0; destbm = arg 1; ty = GetTypeNumber s texture
      in if ty = TYPE_LITATOM \<and> texture \<noteq> NIL \<or> ty = TYPE_LISTP \<or> bmbitperpixel s destbm \<noteq> 1
         then Inr (Blt_punt ''PUNT.BLTSHADE.BITMAP'')
         else num_arg s (arg 2) (\<lambda>dleft. num_arg s (arg 3) (\<lambda>dbottom.
              clip_region s (arg 7) (whole_bitmap s destbm) (\<lambda>R0.
              opt_limit s (arg 4) dleft (rg_right R0) (\<lambda>right.
              opt_limit s (arg 5) dbottom (rg_top R0) (\<lambda>top1.
                let R = clip_to dleft dbottom right top1 R0
                in if empty_region R then Inr (Blt_done (NIL, s))
                   else rbind (shade_region E texture destbm (arg 6) R (shade_checks s destbm R))
                          (\<lambda>s'. Inr (Blt_done (ATOM_T, s')))))))))"

section \<open>Characters\<close>

text \<open>The fields of \<open>inc/dspdata.h\<close> that the character functions use.\<close>

definition ddxposition :: LispPTR where "ddxposition = 0"
definition ddxoffset :: LispPTR where "ddxoffset = 4"
definition ddslowprintingcase :: LispPTR where "ddslowprintingcase = 14"
definition ddwidthscache :: LispPTR where "ddwidthscache = 16"
definition ddoffsetscache :: LispPTR where "ddoffsetscache = 18"
definition ddrightmargin :: LispPTR where "ddrightmargin = 24"
definition ddleftmargin :: LispPTR where "ddleftmargin = 26"
definition ddclippingleft :: LispPTR where "ddclippingleft = 34"
definition ddclippingright :: LispPTR where "ddclippingright = 35"
definition ddpilotbbt :: LispPTR where "ddpilotbbt = 42"
definition ddcharimagewidths :: LispPTR where "ddcharimagewidths = 48"
definition ddcharset :: LispPTR where "ddcharset = 62"

text \<open>An entry of a table of words, indexed by the character.\<close>

definition char_entry :: "vm \<Rightarrow> LispPTR \<Rightarrow> 32 word \<Rightarrow> int" where
  "char_entry s table char8code = uint (getword (mem s) (table + char8code))"

text \<open>The bits of one character: control variables from the control block \<open>pbt\<close>, always forwards.\<close>

definition char_args :: "vm \<Rightarrow> LispPTR \<Rightarrow> int \<Rightarrow> int \<Rightarrow> int \<Rightarrow> bb_args" where
  "char_args s pbt sx dx w =
     \<lparr>bb_srcbase = In_lisp (pbtsource s pbt), bb_dstbase = pbtdest s pbt, bb_sx = sx, bb_dx = dx, bb_w = w,
      bb_h = pbtheight s pbt, bb_srcbpl = \<bar>pbtsourcebpl s pbt\<bar>, bb_dstbpl = \<bar>pbtdestbpl s pbt\<bar>, bb_backward = False,
      bb_comp = bit (pbtflags s pbt) 11, bb_op = pbtoperation s pbt, bb_gray = False, bb_num_gray = 0,
      bb_curr_gray = 0\<rparr>"

definition low_half :: "32 word \<Rightarrow> int" where "low_half c = uint (c AND 0xFFFF)"

definition bltchar :: "LispPTR \<Rightarrow> vm \<Rightarrow> vm" where
  "bltchar args s =
     (let arg = lisp_arg s args; pbt = arg 0 AND POINTERMASK; dspdata = arg 1 AND POINTERMASK;
          char8code = arg 2 AND 0xFFFF; curx = low_half (arg 3); left = low_half (arg 4); right = low_half (arg 5);
          w = right - left
      in if pbtheight s pbt \<le> 0 \<or> w \<le> 0 then s
         else let base = char_entry s (rd s (dspdata + ddoffsetscache)) char8code
              in new_char_bitblt_code (char_args s pbt (base + left - curx) left w) s)"

text \<open>\<open>FGetNum\<close>: small numbers only, anything else goes to Lisp.\<close>

definition FGetNum :: "LispPTR \<Rightarrow> int option" where
  "FGetNum p = (if p AND SEGMASK = S_POSITIVE then Some (uint (p AND 0xFFFF))
                else if p AND SEGMASK = S_NEGATIVE then Some (sint (p OR 0xFFFF0000)) else None)"

definition fgetnum :: "LispPTR \<Rightarrow> (int \<Rightarrow> vm blt_exit) \<Rightarrow> vm blt_exit" where
  "fgetnum p k = (case FGetNum p of None \<Rightarrow> Blt_punt ''MAIKO.PUNTBLTCHAR'' | Some n \<Rightarrow> k n)"

text \<open>The new position as a small number; the second test also lets values from 65536 on through.\<close>

definition new_position :: "int \<Rightarrow> LispPTR option" where
  "new_position n = (if 0 \<le> n \<and> n < 65536 then Some (S_POSITIVE OR word_of_int n)
                     else if -65537 < n then Some (S_NEGATIVE OR (0xFFFF AND word_of_int n)) else None)"

text \<open>The visible part of the character, from \<open>left\<close> to \<open>right\<close> on the display.\<close>

definition draw_char :: "LispPTR \<Rightarrow> 32 word \<Rightarrow> int \<Rightarrow> int \<Rightarrow> vm \<Rightarrow> vm" where
  "draw_char dd char8code curx right0 s =
     (let clipright = uint (getword (mem s) (dd + ddclippingright)); clipleft = uint (getword (mem s) (dd + ddclippingleft));
          right = (if right0 > clipright then clipright else right0);
          left = (if curx > clipleft then curx else clipleft);
          pbt = rd s (dd + ddpilotbbt); w = right - left
      in if pbtheight s pbt \<le> 0 \<or> w \<le> 0 then s
         else let base = char_entry s (rd s (dd + ddoffsetscache)) char8code
              in new_char_bitblt_code (char_args s pbt (base + left - curx) left w) s)"

definition newbltchar :: "blt_env \<Rightarrow> LispPTR \<Rightarrow> vm \<Rightarrow> vm blt_exit" where
  "newbltchar E args s =
     (let arg = lisp_arg s args; charset = drop_bit 8 (arg 0) AND 0xFF; char8code = arg 0 AND 0xFF;
          displaystream = arg 1; dd = arg 2; punt = Blt_punt ''MAIKO.PUNTBLTCHAR''
      in if rd s (dd + ddcharset) AND 0xFFFF \<noteq> charset \<or> rd s (dd + ddslowprintingcase) \<noteq> NIL then punt
         else fgetnum (rd s (dd + ddxposition)) (\<lambda>curx. fgetnum (rd s (dd + ddrightmargin)) (\<lambda>rmargin.
              fgetnum (rd s (dd + ddleftmargin)) (\<lambda>lmargin. fgetnum (rd s (dd + ddxoffset)) (\<lambda>xoff.
                let right = curx + char_entry s (rd s (dd + ddcharimagewidths)) char8code;
                    newpos = curx + char_entry s (rd s (dd + ddwidthscache)) char8code
                in if right > rmargin \<and> curx > lmargin then punt
                   else if displaystream \<noteq> rd s (TOPWDS68k E) then punt
                   else case new_position newpos of
                          None \<Rightarrow> punt
                        | Some p \<Rightarrow> Blt_done (draw_char dd char8code (curx + xoff) (right + xoff) (wr (dd + ddxposition) p s)))))))"

definition tedit_bltchar :: "LispPTR \<Rightarrow> vm \<Rightarrow> vm blt_exit" where
  "tedit_bltchar args s =
     (let arg = lisp_arg s args; charset = drop_bit 8 (arg 0) AND 0xFF; char8code = arg 0 AND 0xFF;
          dx = low_half (arg 2); dd = arg 3; clipright = low_half (arg 5)
      in if rd s (dd + ddcharset) AND 0xFFFF \<noteq> charset then Blt_punt ''TEDIT.BLTCHAR''
         else
           (let imagewidth = char_entry s (rd s (dd + ddcharimagewidths)) char8code;
                right = min (dx + imagewidth) clipright; pbt = rd s (dd + ddpilotbbt)
            in if dx < right
               then Blt_done (new_char_bitblt_code
                      (char_args s pbt (char_entry s (rd s (dd + ddoffsetscache)) char8code) dx (min imagewidth (right - dx))) s)
               else Blt_done s))"

end
