(* ===== verification/Bitmap_Laws.thy ===== *)
theory Bitmap_Laws
  imports Bitmaps Number_Laws
begin

text \<open>
  What the bitmap functions promise. \<open>copy_args\<close> chooses the direction so that the lines never
  destroy what is still to be read: the transfer is one simultaneous copy of a rectangle, whatever the
  overlap. \<open>bitblt_bitmap\<close> is then stated in the coordinates of Lisp, pixel by pixel.
\<close>

section \<open>Bitmaps in memory\<close>

definition bm_start :: "vm \<Rightarrow> LispPTR \<Rightarrow> int" where "bm_start s bm = 16 * uint (bmbase s bm)"
definition bm_bpl :: "vm \<Rightarrow> LispPTR \<Rightarrow> int" where "bm_bpl s bm = 16 * bmrasterwidth s bm"

definition bitmap_ok :: "vm \<Rightarrow> LispPTR \<Rightarrow> bool" where
  "bitmap_ok s bm \<longleftrightarrow> bmwidth s bm \<le> bm_bpl s bm \<and> bm_start s bm + bmheight s bm * bm_bpl s bm \<le> LAST_BIT"

lemma c_int_small: "- (2 ^ 31) \<le> n \<Longrightarrow> n < 2 ^ 31 \<Longrightarrow> c_int n = n"
  by (simp add: c_int_def signed_take_bit_int_eq_self)

lemma bitmap_size: "0 \<le> bmwidth s bm" "bmwidth s bm < 65536" "0 \<le> bmheight s bm" "bmheight s bm < 65536"
  using uint_lt2p [of "getword (mem s) (bm + 4)"] uint_lt2p [of "getword (mem s) (bm + 3)"]
  by (simp_all add: bmwidth_def bmheight_def)

text \<open>The same bitmap, or bitmaps whose bits are elsewhere.\<close>

definition bitmaps_apart :: "vm \<Rightarrow> LispPTR \<Rightarrow> LispPTR \<Rightarrow> bool" where
  "bitmaps_apart s a b \<longleftrightarrow> a = b \<or> bm_start s a + bmheight s a * bm_bpl s a \<le> bm_start s b \<or>
     bm_start s b + bmheight s b * bm_bpl s b \<le> bm_start s a"

text \<open>An area of \<open>w\<close> times \<open>h\<close> bits, \<open>x\<close> from the left and \<open>y\<close> from the top.\<close>

definition area_ok :: "vm \<Rightarrow> LispPTR \<Rightarrow> int \<Rightarrow> int \<Rightarrow> int \<Rightarrow> int \<Rightarrow> bool" where
  "area_ok s bm x y w h \<longleftrightarrow> bitmap_ok s bm \<and> 0 \<le> x \<and> x + w \<le> bm_bpl s bm \<and> 0 \<le> y \<and> y + h \<le> bmheight s bm \<and>
     0 < w \<and> 0 < h"

definition bit_at :: "vm \<Rightarrow> LispPTR \<Rightarrow> int \<Rightarrow> int \<Rightarrow> int" where
  "bit_at s bm x y = bm_start s bm + y * bm_bpl s bm + x"

lemma raster_line_start:
  assumes "bitmap_ok s bm" "0 \<le> y" "y < bmheight s bm" "0 < bm_bpl s bm"
  shows "16 * uint (raster_line s bm y) = bit_at s bm 0 y"
proof -
  have b: "0 < bmrasterwidth s bm" using assms(4) by (simp add: bm_bpl_def)
  have "bmrasterwidth s bm * y < bmrasterwidth s bm * bmheight s bm" using assms(3) b by simp
  moreover have "0 \<le> bmrasterwidth s bm * y" using assms(2) b by simp
  moreover have "16 * (uint (bmbase s bm) + bmrasterwidth s bm * bmheight s bm) \<le> 16 * 2 ^ 32"
    using assms(1) by (simp add: bitmap_ok_def bm_start_def bm_bpl_def LAST_BIT_def algebra_simps)
  ultimately have r: "0 \<le> bmrasterwidth s bm * y" "uint (bmbase s bm) + bmrasterwidth s bm * y < 2 ^ 32" by simp_all
  have "uint (raster_line s bm y) = (uint (bmbase s bm) + bmrasterwidth s bm * y) mod 2 ^ 32"
  proof -
    have "raster_line s bm y = word_of_int (uint (bmbase s bm) + bmrasterwidth s bm * y)"
      by (simp add: raster_line_def del: of_int_mult)
    then show ?thesis by (simp add: uint_word_of_int del: of_int_add of_int_mult)
  qed
  also have "\<dots> = uint (bmbase s bm) + bmrasterwidth s bm * y"
    using r uint_ge_0 [of "bmbase s bm"] by (intro mod_pos_pos_trivial) linarith+
  finally show ?thesis by (simp add: bit_at_def bm_start_def bm_bpl_def)
qed

lemma area_line:
  assumes "area_ok s bm x y w h" "0 \<le> l" "l < h"
  shows "0 \<le> bit_at s bm x (y + l)" "bit_at s bm x (y + l) + w \<le> bm_start s bm + bmheight s bm * bm_bpl s bm"
    "bm_start s bm \<le> bit_at s bm x (y + l)" "bit_at s bm x (y + l) + w \<le> LAST_BIT"
proof -
  have a: "bitmap_ok s bm" "0 \<le> x" "x + w \<le> bm_bpl s bm" "0 \<le> y" "y + h \<le> bmheight s bm" "0 < w" "0 < h"
    using assms(1) by (auto simp: area_ok_def)
  have b: "0 < bm_bpl s bm" using a by linarith
  have "0 \<le> (y + l) * bm_bpl s bm" using a assms b by simp
  then show st: "bm_start s bm \<le> bit_at s bm x (y + l)" using a by (simp add: bit_at_def)
  moreover have "0 \<le> bm_start s bm" by (simp add: bm_start_def)
  ultimately show "0 \<le> bit_at s bm x (y + l)" by linarith
  have "(y + l + 1) * bm_bpl s bm \<le> bmheight s bm * bm_bpl s bm" using a assms b by (intro mult_right_mono) auto
  moreover have "bit_at s bm x (y + l) + w \<le> bm_start s bm + (y + l + 1) * bm_bpl s bm"
    using a by (simp add: bit_at_def algebra_simps)
  ultimately show e: "bit_at s bm x (y + l) + w \<le> bm_start s bm + bmheight s bm * bm_bpl s bm" by linarith
  then show "bit_at s bm x (y + l) + w \<le> LAST_BIT" using a(1) by (simp add: bitmap_ok_def)
qed

lemma area_line_ok:
  assumes "area_ok s src sx sty w h" "area_ok s dst dx dty w h" "0 \<le> l" "l < h" "bb_w a = w" "bb_op a < 4"
  shows "line_ok a (bit_at s dst dx (dty + l)) (bit_at s src sx (sty + l))"
  using area_line [OF assms(1,3,4)] area_line [OF assms(2,3,4)] assms
  by (simp add: line_ok_def in_memory_def area_ok_def)

section \<open>The direction of a copy\<close>

text \<open>How the rectangles lie when the copy goes forwards.\<close>

lemma forwards_apart:
  assumes s: "area_ok s src sx sty w h" and d: "area_ok s dst dx dty w h" and ap: "bitmaps_apart s src dst"
    and f: "\<not> blt_backwards (src = dst) sx sty dx dty w h"
    and l: "0 \<le> l" "l < h" and j: "0 \<le> j" "j \<le> l" and i: "0 \<le> i" "i < w"
  shows "j < l \<Longrightarrow> bit_at s src sx (sty + l) + i \<notin> {bit_at s dst dx (dty + j)..<bit_at s dst dx (dty + j) + w}"
    and "\<not> (bit_at s src sx (sty + l) < bit_at s dst dx (dty + l) \<and> bit_at s dst dx (dty + l) < bit_at s src sx (sty + l) + w)"
proof -
  define b where "b = bm_bpl s src"
  have a: "0 \<le> sx" "sx + w \<le> b" "0 \<le> dx" "0 < w" "0 < h" using s d by (auto simp: area_ok_def b_def)
  have "(j < l \<longrightarrow> bit_at s src sx (sty + l) + i \<notin> {bit_at s dst dx (dty + j)..<bit_at s dst dx (dty + j) + w}) \<and>
    \<not> (bit_at s src sx (sty + l) < bit_at s dst dx (dty + l) \<and> bit_at s dst dx (dty + l) < bit_at s src sx (sty + l) + w)"
  proof (cases "src = dst")
    case False
    then show ?thesis
      using ap area_line [OF s l] area_line [OF d l] area_line [OF d j(1), unfolded atLeastLessThan_iff] i j l
      by (auto simp: bitmaps_apart_def)
  next
    case True
    have dxw: "dx + w \<le> b" using d True by (auto simp: area_ok_def b_def)
    define K L where "K = (sty - dty + (l - j)) * b" and "L = (sty - dty) * b"
    have e: "bit_at s src sx (sty + l) - bit_at s dst dx (dty + j) = K + (sx - dx)"
      "bit_at s src sx (sty + l) - bit_at s dst dx (dty + l) = L + (sx - dx)"
      by (simp_all add: bit_at_def True b_def K_def L_def algebra_simps)
    have b: "0 < b" using a by linarith
    have le: "u * b \<le> v * b" if "u \<le> v" for u v using that b by (intro mult_right_mono) auto
    consider "sty > dty" | "dty > sty + h" | "sty = dty" "\<not> (sx < dx \<and> dx < sx + w)"
      using f True by (auto simp: blt_backwards_def split: if_splits)
    then show ?thesis
    proof cases
      case 1
      have "b \<le> L" using 1 le [of 1 "sty - dty"] by (simp add: L_def)
      moreover have "2 * b \<le> K" if "j < l" using 1 that le [of 2 "sty - dty + (l - j)"] by (simp add: K_def)
      ultimately show ?thesis using e a i dxw by auto
    next
      case 2
      have "L \<le> (- 2) * b" using 2 l le [of "sty - dty" "-2"] by (simp add: L_def)
      moreover have "K \<le> (- 2) * b" using 2 j l le [of "sty - dty + (l - j)" "-2"] by (simp add: K_def)
      ultimately show ?thesis using e a i dxw by auto
    next
      case 3
      have "b \<le> K" if "j < l" using 3 that le [of 1 "sty - dty + (l - j)"] by (simp add: K_def)
      moreover have "L = 0" using 3 by (simp add: L_def)
      ultimately show ?thesis using e a i dxw 3 by auto
    qed
  qed
  then show "j < l \<Longrightarrow> bit_at s src sx (sty + l) + i \<notin> {bit_at s dst dx (dty + j)..<bit_at s dst dx (dty + j) + w}"
    and "\<not> (bit_at s src sx (sty + l) < bit_at s dst dx (dty + l) \<and> bit_at s dst dx (dty + l) < bit_at s src sx (sty + l) + w)"
    by blast+
qed

lemma backwards_apart:
  assumes s: "area_ok s bm sx sty w h" and d: "area_ok s bm dx dty w h"
    and f: "blt_backwards same sx sty dx dty w h" and j: "l \<le> j" and i: "0 \<le> i" "i < w"
  shows "l < j \<Longrightarrow> bit_at s bm sx (sty + l) + i \<notin> {bit_at s bm dx (dty + j)..<bit_at s bm dx (dty + j) + w}"
    and "bit_at s bm sx (sty + l) < bit_at s bm dx (dty + l)"
proof -
  define b where "b = bm_bpl s bm"
  have a: "0 \<le> sx" "sx + w \<le> b" "0 \<le> dx" "dx + w \<le> b" "0 < w" "0 < h" using s d by (auto simp: area_ok_def b_def)
  define K L where "K = (sty - dty + (l - j)) * b" and "L = (sty - dty) * b"
  have e: "bit_at s bm sx (sty + l) - bit_at s bm dx (dty + j) = K + (sx - dx)"
    "bit_at s bm sx (sty + l) - bit_at s bm dx (dty + l) = L + (sx - dx)"
    by (simp_all add: bit_at_def b_def K_def L_def algebra_simps)
  have b: "0 < b" using a by linarith
  have le: "u * b \<le> v * b" if "u \<le> v" for u v using that b by (intro mult_right_mono) auto
  have "sty < dty \<or> sty = dty \<and> sx < dx" using f by (auto simp: blt_backwards_def split: if_splits)
  then consider "sty < dty" | "sty = dty" "sx < dx" by blast
  then show m: "bit_at s bm sx (sty + l) < bit_at s bm dx (dty + l)"
  proof cases
    case 1
    then show ?thesis using le [of "sty - dty" "-1"] e a by (auto simp: L_def)
  next
    case 2
    then show ?thesis using e by (auto simp: L_def)
  qed
  assume "l < j"
  then have "K \<le> L - b" using le [of "sty - dty + (l - j)" "sty - dty - 1"] by (simp add: K_def L_def algebra_simps)
  then show "bit_at s bm sx (sty + l) + i \<notin> {bit_at s bm dx (dty + j)..<bit_at s bm dx (dty + j) + w}"
    using e m a i by auto
qed

section \<open>A copy is simultaneous\<close>

lemma copy_args_start:
  assumes s: "area_ok s src sx sty w h" and d: "area_ok s dst dx dty w h"
    and a: "a = copy_args s src dst sx sty dx dty w h opn cmp"
  shows "dst_start a = bit_at s dst dx (dty + (if bb_backward a then h - 1 else 0))"
    and "src_start a = bit_at s src sx (sty + (if bb_backward a then h - 1 else 0))"
  using s d raster_line_start [of s dst "dty + (if bb_backward a then h - 1 else 0)"]
    raster_line_start [of s src "sty + (if bb_backward a then h - 1 else 0)"]
  by (auto simp: a copy_args_def Let_def dst_start_def src_start_def lisp_base_def area_ok_def bit_at_def)

lemma copy_simultaneous:
  assumes s: "area_ok s src sx sty w h" and d: "area_ok s dst dx dty w h" and ap: "bitmaps_apart s src dst"
    and opn: "opn < 4"
  shows "shows_image (new_bitblt_code (copy_args s src dst sx sty dx dty w h opn cmp) s)
     (blt_rect opn cmp w 0 h (bit_at s dst dx dty) (bit_at s src sx sty) (bm_bpl s dst) (bm_bpl s src) (pix s))"
proof -
  define a where "a = copy_args s src dst sx sty dx dty w h opn cmp"
  define D S b c where "D = bit_at s dst dx dty" and "S = bit_at s src sx sty" and "b = bm_bpl s dst" and "c = bm_bpl s src"
  note st = copy_args_start [OF s d a_def]
  have f: "\<not> bb_gray a" "bb_w a = w" "bb_h a = h" "bb_op a = opn" "bb_comp a = cmp"
    "bb_backward a = blt_backwards (src = dst) sx sty dx dty w h"
    "bb_dstbpl a = (if bb_backward a then - b else b)" "bb_srcbpl a = (if bb_backward a then - c else c)"
    by (simp_all add: a_def copy_args_def Let_def b_def c_def bm_bpl_def)
  have bw: "0 < b" "w \<le> b" "0 < h" using d by (auto simp: area_ok_def b_def)
  have rows: "bit_at s dst dx (dty + j) = D + j * b" "bit_at s src sx (sty + j) = S + j * c" for j
    by (simp_all add: D_def S_def b_def c_def bit_at_def algebra_simps)
  have ok: "line_ok a (D + j * b) (S + j * c)" if "0 \<le> j" "j < h" for j
    using area_line_ok [OF s d that, of a] f opn by (simp add: rows)
  have adv: "advance_ok a" using f bw by (simp add: advance_ok_def)
  have im: "shows_image s (pix s)" by (simp add: shows_image_def)
  show ?thesis
  proof (cases "bb_backward a")
    case False
    note fw = forwards_apart [OF s d ap, unfolded rows, OF False [unfolded f(6)]]
    have la: "line_apart a (dst_start a + int l * bb_dstbpl a) (src_start a + int l * bb_srcbpl a)" if "l < nat (bb_h a)" for l
      using ok [of "int l"] fw(2) [of "int l" "int l" 0] that False f st bw d
      by (simp add: line_apart_def F_ok_def rows area_ok_def) (simp add: D_def S_def)
    have "shows_image (new_bitblt_code a s) (bitblt_ref (nat h) opn cmp w D S b c (pix s))"
      using bb_code_lines [OF f(1) adv im la] False f st by (simp add: D_def S_def)
    moreover have "bitblt_ref (nat h) opn cmp w (D + 0 * b) (S + 0 * c) b c (blt_rect opn cmp w 0 0 D S b c (pix s)) =
        blt_rect opn cmp w 0 h D S b c (pix s)"
      using bw fw(1) by (intro lines_down) simp_all
    ultimately show ?thesis by (simp add: a_def D_def S_def b_def c_def blt_rect_none)
  next
    case True
    then have same: "src = dst" "c = b" using f(6) by (auto simp: blt_backwards_def b_def c_def split: if_splits)
    have s': "area_ok s dst sx sty w h" using s same by simp
    note rows' = rows [unfolded same]
    note bk = backwards_apart [OF s' d True [unfolded f(6)], unfolded rows']
    have la: "line_apart a (dst_start a + int l * bb_dstbpl a) (src_start a + int l * bb_srcbpl a)" if "l < nat (bb_h a)" for l
    proof -
      have l: "0 \<le> h - 1 - int l" "h - 1 - int l < h" using that f by auto
      have "dst_start a + int l * bb_dstbpl a = D + (h - 1 - int l) * b"
        "src_start a + int l * bb_srcbpl a = S + (h - 1 - int l) * c"
        unfolding st rows using True f by (simp_all add: algebra_simps)
      then show ?thesis using ok [OF l] bk(2) [of "h - 1 - int l" "h - 1 - int l" 0] True bw d
        by (simp add: line_apart_def B_ok_def same area_ok_def)
    qed
    have "shows_image (new_bitblt_code a s) (bitblt_ref (nat h) opn cmp w (D + (h - 1) * b) (S + (h - 1) * c) (- b) (- c) (pix s))"
      using bb_code_lines [OF f(1) adv im la] True f unfolding st rows by simp
    moreover have "bitblt_ref (nat h) opn cmp w (D + (int (nat h) - 1) * b) (S + (int (nat h) - 1) * c) (- b) (- c)
          (blt_rect opn cmp w (int (nat h)) h D S b c (pix s)) = blt_rect opn cmp w 0 h D S b c (pix s)"
      using bw bk(1) same by (intro lines_up) simp_all
    ultimately show ?thesis using bw by (simp add: a_def D_def S_def b_def c_def blt_rect_none)
  qed
qed

section \<open>Pixels\<close>

text \<open>The pixel \<open>(x, y)\<close> of a bitmap, counted as Lisp does, from the lower left corner.\<close>

definition pixel :: "vm \<Rightarrow> LispPTR \<Rightarrow> (int \<Rightarrow> bool) \<Rightarrow> int \<Rightarrow> int \<Rightarrow> bool" where
  "pixel s bm m x y = m (bit_at s bm x (bmheight s bm - 1 - y))"

definition in_region :: "region \<Rightarrow> int \<Rightarrow> int \<Rightarrow> bool" where
  "in_region R x y \<longleftrightarrow> rg_left R \<le> x \<and> x < rg_right R \<and> rg_bottom R \<le> y \<and> y < rg_top R"

definition bits_of :: "vm \<Rightarrow> LispPTR \<Rightarrow> int set" where
  "bits_of s bm = {bm_start s bm..<bm_start s bm + bmheight s bm * bm_bpl s bm}"

lemma blt_rect_pixel:
  assumes b: "0 < b" "0 \<le> x" "x < b" "0 \<le> dx" "dx + w \<le> b" "0 < w"
  shows "blt_rect opn c w 0 h (P + dty * b + dx) S b sb m (P + r * b + x) =
    (if dty \<le> r \<and> r < dty + h \<and> dx \<le> x \<and> x < dx + w
     then pix_op opn c (m (P + r * b + x)) (m (S + (r - dty) * sb + (x - dx))) else m (P + r * b + x))"
proof (cases "dx \<le> x")
  case True
  have e: "P + r * b + x - (P + dty * b + dx) = b * (r - dty) + (x - dx)" by (simp add: algebra_simps)
  have q: "0 \<le> x - dx" "x - dx < b" using True b by auto
  show ?thesis unfolding blt_rect_def Let_def int_div_pos_eq [OF e q] int_mod_pos_eq [OF e q] using True by auto
next
  case False
  have e: "P + r * b + x - (P + dty * b + dx) = b * (r - dty - 1) + (b + x - dx)" by (simp add: algebra_simps)
  have q: "0 \<le> b + x - dx" "b + x - dx < b" using False b by auto
  show ?thesis unfolding blt_rect_def Let_def int_div_pos_eq [OF e q] int_mod_pos_eq [OF e q] using False b by auto
qed

definition region_fits :: "vm \<Rightarrow> LispPTR \<Rightarrow> region \<Rightarrow> bool" where
  "region_fits s bm R \<longleftrightarrow> 0 \<le> rg_left R \<and> rg_right R \<le> bmwidth s bm \<and> 0 \<le> rg_bottom R \<and> rg_top R \<le> bmheight s bm"

definition shift_region :: "int \<Rightarrow> int \<Rightarrow> region \<Rightarrow> region" where
  "shift_region dx dy R = \<lparr>rg_left = rg_left R + dx, rg_bottom = rg_bottom R + dy,
                          rg_right = rg_right R + dx, rg_top = rg_top R + dy\<rparr>"

lemma region_area:
  assumes "bitmap_ok s bm" "region_fits s bm R" "\<not> empty_region R"
  shows "area_ok s bm (rg_left R) (bmheight s bm - rg_top R) (rg_right R - rg_left R) (rg_top R - rg_bottom R)"
  using assms by (auto simp: area_ok_def region_fits_def empty_region_def bitmap_ok_def)

lemma bbop_4: "bbop E opn < 4"
  by (simp add: bbop_def)

lemma copy_region_pixels:
  assumes ok: "bitmap_ok s src" "bitmap_ok s dst" "bitmaps_apart s src dst"
    and R: "region_fits s src R" "region_fits s dst (shift_region dx dy R)" "\<not> empty_region R"
    and s'_def: "s' = copy_region E src dst sourcetype operation dx dy R s"
  shows "0 \<le> x \<Longrightarrow> x < bmwidth s dst \<Longrightarrow> 0 \<le> y \<Longrightarrow> y < bmheight s dst \<Longrightarrow>
      pixel s dst (pix s') x y =
       (if in_region R (x - dx) (y - dy)
        then pix_op (bbop E operation) (bbsrc_type E sourcetype operation)
               (pixel s dst (pix s) x y) (pixel s src (pix s) (x - dx) (y - dy))
        else pixel s dst (pix s) x y)"
    and "0 \<le> p \<Longrightarrow> p < LAST_BIT \<Longrightarrow> p \<notin> bits_of s dst \<Longrightarrow> pix s' p = pix s p"
proof -
  define w h sty dty where "w = rg_right R - rg_left R" and "h = rg_top R - rg_bottom R"
    and "sty = bmheight s src - rg_top R" and "dty = bmheight s dst - (rg_top R + dy)"
  define b c where "b = bm_bpl s dst" and "c = bm_bpl s src"
  have as: "area_ok s src (rg_left R) sty w h" using region_area [OF ok(1) R(1,3)] by (simp add: w_def h_def sty_def)
  have "\<not> empty_region (shift_region dx dy R)" using R(3) by (simp add: empty_region_def shift_region_def)
  from region_area [OF ok(2) R(2) this] have ad: "area_ok s dst (rg_left R + dx) dty w h"
    by (simp add: w_def h_def dty_def shift_region_def)
  have "0 \<le> rg_left R + dx" "rg_left R + dx < bmwidth s dst" "0 \<le> rg_top R + dy" "rg_top R + dy \<le> bmheight s dst"
    using R(2,3) by (auto simp: region_fits_def shift_region_def empty_region_def)
  then have cs: "c_int (rg_left R + dx) = rg_left R + dx" "c_int (rg_top R + dy) = rg_top R + dy" "c_int dty = dty"
    using bitmap_size [of s dst] by (auto intro!: c_int_small simp: dty_def)
  have im: "shows_image s' (blt_rect (bbop E operation) (bbsrc_type E sourcetype operation) w 0 h
      (bit_at s dst (rg_left R + dx) dty) (bit_at s src (rg_left R) sty) b c (pix s))"
    using copy_simultaneous [OF as ad ok(3) bbop_4]
    by (simp add: s'_def copy_region_def w_def h_def sty_def b_def c_def cs(1,2) cs(3) [unfolded dty_def])
      (simp add: dty_def)
  have bb: "0 < b" "0 \<le> rg_left R + dx" "rg_left R + dx + w \<le> b" "w \<le> b" "0 < w" using ad by (auto simp: area_ok_def b_def)
  {
    assume xy: "0 \<le> x" "x < bmwidth s dst" "0 \<le> y" "y < bmheight s dst"
    then have xb: "x < b" using ok(2) by (auto simp: bitmap_ok_def b_def)
    define r where "r = bmheight s dst - 1 - y"
    have "area_ok s dst x 0 1 (bmheight s dst)" using xy xb ok(2) by (auto simp: area_ok_def b_def)
    from area_line [OF this, of r] have "0 \<le> bit_at s dst x r" "bit_at s dst x r < LAST_BIT" using xy by (auto simp: r_def)
    then have "pixel s dst (pix s') x y = blt_rect (bbop E operation) (bbsrc_type E sourcetype operation) w 0 h
      (bm_start s dst + dty * b + (rg_left R + dx)) (bit_at s src (rg_left R) sty) b c (pix s) (bm_start s dst + r * b + x)"
      using im by (simp add: shows_image_def pixel_def r_def bit_at_def b_def)
    also have "\<dots> = (if dty \<le> r \<and> r < dty + h \<and> rg_left R + dx \<le> x \<and> x < rg_left R + dx + w
      then pix_op (bbop E operation) (bbsrc_type E sourcetype operation) (pix s (bm_start s dst + r * b + x))
             (pix s (bit_at s src (rg_left R) sty + (r - dty) * c + (x - (rg_left R + dx))))
      else pix s (bm_start s dst + r * b + x))"
      by (rule blt_rect_pixel [OF bb(1) xy(1) xb bb(2,3,5)])
    also have "bm_start s dst + r * b + x = bit_at s dst x (bmheight s dst - 1 - y)" by (simp add: bit_at_def r_def b_def)
    also have "bit_at s src (rg_left R) sty + (r - dty) * c + (x - (rg_left R + dx)) =
        bit_at s src (x - dx) (bmheight s src - 1 - (y - dy))"
      by (simp add: bit_at_def r_def c_def dty_def sty_def algebra_simps)
    also have "(dty \<le> r \<and> r < dty + h \<and> rg_left R + dx \<le> x \<and> x < rg_left R + dx + w) = in_region R (x - dx) (y - dy)"
      by (auto simp: in_region_def dty_def r_def h_def w_def)
    finally show "pixel s dst (pix s') x y =
       (if in_region R (x - dx) (y - dy)
        then pix_op (bbop E operation) (bbsrc_type E sourcetype operation)
               (pixel s dst (pix s) x y) (pixel s src (pix s) (x - dx) (y - dy))
        else pixel s dst (pix s) x y)" by (simp add: pixel_def)
  next
    assume p: "0 \<le> p" "p < LAST_BIT" "p \<notin> bits_of s dst"
    define D j where "D = bit_at s dst (rg_left R + dx) dty" and "j = (p - D) div b"
    have "\<not> (0 \<le> j \<and> j < h \<and> (p - D) mod b < w)"
    proof
      assume j: "0 \<le> j \<and> j < h \<and> (p - D) mod b < w"
      then have "p \<in> {D + j * b..<D + j * b + w}" using row_of(1) [OF bb(1,4)] by (simp add: j_def)
      moreover have "D + j * b = bit_at s dst (rg_left R + dx) (dty + j)" by (simp add: D_def bit_at_def b_def algebra_simps)
      ultimately show False using area_line [OF ad, of j] j p(3) by (auto simp: bits_of_def)
    qed
    then show "pix s' p = pix s p" using im p(1,2)
      by (auto simp: shows_image_def blt_rect_def Let_def D_def j_def)
  }
qed

section \<open>\<open>BITBLT\<close> between bitmaps\<close>

text \<open>
  A number that can serve as a coordinate or a size: every sum of two of them fits a C \<open>int\<close>, and so
  does the difference of a sum and a difference. The small numbers are far below the bound.
\<close>

definition coord :: "int \<Rightarrow> bool" where "coord n \<longleftrightarrow> - (2 ^ 28) < n \<and> n < 2 ^ 28"

definition coord_is :: "vm \<Rightarrow> LispPTR \<Rightarrow> int \<Rightarrow> bool" where
  "coord_is s x n \<longleftrightarrow> map_option sint (N_GETNUMBER s x) = Some n \<and> coord n"

lemma coord_sums:
  assumes "coord m" "coord n"
  shows "c_int (m + n) = m + n" "c_int (m - n) = m - n"
  using assms by (intro c_int_small; simp add: coord_def)+

lemma coord_is_coord: "coord_is s x n \<Longrightarrow> coord n"
  by (simp add: coord_is_def)

lemma coord_is_sum: "coord_is s x m \<Longrightarrow> coord_is s y n \<Longrightarrow> c_int (m + n) = m + n"
  by (rule coord_sums) (rule coord_is_coord, assumption)+

text \<open>A region with its corners between the sums of two coordinates.\<close>

definition coord_region :: "region \<Rightarrow> bool" where
  "coord_region R \<longleftrightarrow> - (2 ^ 29) < rg_left R \<and> rg_left R < 2 ^ 29 \<and> - (2 ^ 29) < rg_right R \<and> rg_right R < 2 ^ 29 \<and>
     - (2 ^ 29) < rg_bottom R \<and> rg_bottom R < 2 ^ 29 \<and> - (2 ^ 29) < rg_top R \<and> rg_top R < 2 ^ 29"

lemma whole_coord: "coord_region (whole_bitmap s bm)"
  using bitmap_size [of s bm] by (simp add: coord_region_def whole_bitmap_def)

lemma clip_coord: "coord_region R \<Longrightarrow> coord a \<Longrightarrow> coord b \<Longrightarrow> coord w \<Longrightarrow> coord h \<Longrightarrow>
    coord_region (clip_to a b (a + w) (b + h) R)"
  by (auto simp: coord_region_def coord_def clip_to_def)

lemma num_arg_is: "coord_is s x n \<Longrightarrow> num_arg s x k = k n"
  by (auto simp: coord_is_def num_arg_def)

lemma car_coord_is: "car s l = Inr v \<Longrightarrow> coord_is s v n \<Longrightarrow> car_number s l k = k n"
  by (simp add: car_number_def num_arg_is)

text \<open>Clipping \<open>R\<close> to the list \<open>l\<close> of left, bottom, width and height gives \<open>C\<close>.\<close>

definition clips :: "vm \<Rightarrow> LispPTR \<Rightarrow> region \<Rightarrow> region \<Rightarrow> bool" where
  "clips s l R C \<longleftrightarrow>
     (if l = NIL then C = R
      else \<exists>v0 v1 v2 v3 c1 c2 c3 a b w h.
        car s l = Inr v0 \<and> coord_is s v0 a \<and> cdr s l = Inr c1 \<and>
        car s c1 = Inr v1 \<and> coord_is s v1 b \<and> cdr s c1 = Inr c2 \<and>
        car s c2 = Inr v2 \<and> coord_is s v2 w \<and> cdr s c2 = Inr c3 \<and>
        car s c3 = Inr v3 \<and> coord_is s v3 h \<and> C = clip_to a b (a + w) (b + h) R)"

lemma clips_region: "clips s l R C \<Longrightarrow> clip_region s l R k = k C"
  by (auto simp: clips_def clip_region_def car_coord_is coord_is_sum split: if_splits)

lemma clips_coord: "clips s l R C \<Longrightarrow> coord_region R \<Longrightarrow> coord_region C"
  by (auto simp: clips_def intro!: clip_coord intro: coord_is_coord split: if_splits)

lemma in_clip_to: "in_region (clip_to l b r t R) x y \<longleftrightarrow> in_region R x y \<and> l \<le> x \<and> x < r \<and> b \<le> y \<and> y < t"
  by (auto simp: in_region_def clip_to_def)

lemma fits_clip_to: "region_fits s bm R \<Longrightarrow> region_fits s bm (clip_to l b r t R)"
  by (auto simp: region_fits_def clip_to_def)

lemma clips_fits: "region_fits s bm R \<Longrightarrow> clips s l R C \<Longrightarrow> region_fits s bm C"
  by (auto simp: clips_def fits_clip_to split: if_splits)

lemma whole_fits: "region_fits s bm (whole_bitmap s bm)"
  by (simp add: region_fits_def whole_bitmap_def)

text \<open>The sums of \<open>source_region\<close> fit.\<close>

definition coord_shift :: "int \<Rightarrow> bool" where "coord_shift d \<longleftrightarrow> - (2 ^ 29) < d \<and> d < 2 ^ 29"

lemma shift_sums:
  assumes "coord_region R" "coord_shift dx" "coord_shift dy"
  shows "c_int (rg_left R - dx) = rg_left R - dx" "c_int (rg_right R - dx) = rg_right R - dx"
    "c_int (rg_bottom R - dy) = rg_bottom R - dy" "c_int (rg_top R - dy) = rg_top R - dy"
  using assms by (intro c_int_small; simp add: coord_region_def coord_shift_def)+

lemma in_source_region:
  assumes "coord_region R" "coord_shift dx" "coord_shift dy" "coord cl" "coord cb" "coord w" "coord h"
  shows "in_region (source_region s bm dx dy cl cb w h R) (x - dx) (y - dy) \<longleftrightarrow>
     in_region R x y \<and> in_region (whole_bitmap s bm) (x - dx) (y - dy) \<and>
     cl \<le> x - dx \<and> x - dx < cl + w \<and> cb \<le> y - dy \<and> y - dy < cb + h"
  using coord_sums [OF assms(4,6)] coord_sums [OF assms(5,7)] shift_sums [OF assms(1-3)]
  by (auto simp: in_region_def source_region_def whole_bitmap_def)

lemma source_region_fits:
  assumes "region_fits s dst R" "coord_region R" "coord_shift dx" "coord_shift dy"
  shows "region_fits s src (source_region s src dx dy cl cb w h R)"
    "region_fits s dst (shift_region dx dy (source_region s src dx dy cl cb w h R))"
  using assms(1) shift_sums [OF assms(2-4)] by (auto simp: region_fits_def source_region_def shift_region_def)

text \<open>The numeric arguments \<open>1, 2, 4, 5, 6, 7, 12, 13\<close> of \<open>BITBLT\<close>.\<close>

record blt_numbers =
  sleft :: int
  sbottom :: int
  dleft :: int
  dbottom :: int
  blt_width :: int
  blt_height :: int
  clipleft :: int
  clipbottom :: int

definition blt_reads :: "vm \<Rightarrow> LispPTR \<Rightarrow> blt_numbers \<Rightarrow> bool" where
  "blt_reads s args N \<longleftrightarrow>
     coord_is s (lisp_arg s args 1) (sleft N) \<and> coord_is s (lisp_arg s args 2) (sbottom N) \<and>
     coord_is s (lisp_arg s args 4) (dleft N) \<and> coord_is s (lisp_arg s args 5) (dbottom N) \<and>
     coord_is s (lisp_arg s args 6) (blt_width N) \<and> coord_is s (lisp_arg s args 7) (blt_height N) \<and>
     coord_is s (lisp_arg s args 12) (clipleft N) \<and> coord_is s (lisp_arg s args 13) (clipbottom N)"

text \<open>The source pixel of the destination pixel \<open>(x, y)\<close>, and whether it is copied.\<close>

definition from_x :: "blt_numbers \<Rightarrow> int \<Rightarrow> int" where "from_x N x = x - (dleft N - sleft N)"
definition from_y :: "blt_numbers \<Rightarrow> int \<Rightarrow> int" where "from_y N y = y - (dbottom N - sbottom N)"

definition wanted :: "vm \<Rightarrow> LispPTR \<Rightarrow> region \<Rightarrow> blt_numbers \<Rightarrow> int \<Rightarrow> int \<Rightarrow> bool" where
  "wanted s src C N x y \<longleftrightarrow>
     in_region C x y \<and> dleft N \<le> x \<and> x < dleft N + blt_width N \<and> dbottom N \<le> y \<and> y < dbottom N + blt_height N \<and>
     in_region (whole_bitmap s src) (from_x N x) (from_y N y) \<and>
     clipleft N \<le> from_x N x \<and> from_x N x < clipleft N + blt_width N \<and>
     clipbottom N \<le> from_y N y \<and> from_y N y < clipbottom N + blt_height N"

definition blt_source_region :: "vm \<Rightarrow> LispPTR \<Rightarrow> region \<Rightarrow> blt_numbers \<Rightarrow> region" where
  "blt_source_region s src C N =
     source_region s src (dleft N - sleft N) (dbottom N - sbottom N) (clipleft N) (clipbottom N) (blt_width N) (blt_height N)
       (clip_to (dleft N) (dbottom N) (dleft N + blt_width N) (dbottom N + blt_height N) C)"

lemma blt_reads_coord:
  assumes "blt_reads s args N" "coord_region C"
  shows "coord (sleft N)" "coord (sbottom N)" "coord (dleft N)" "coord (dbottom N)" "coord (blt_width N)"
    "coord (blt_height N)" "coord (clipleft N)" "coord (clipbottom N)"
    "coord_shift (dleft N - sleft N)" "coord_shift (dbottom N - sbottom N)"
    "coord_region (clip_to (dleft N) (dbottom N) (dleft N + blt_width N) (dbottom N + blt_height N) C)"
proof -
  show c: "coord (sleft N)" "coord (sbottom N)" "coord (dleft N)" "coord (dbottom N)" "coord (blt_width N)"
    "coord (blt_height N)" "coord (clipleft N)" "coord (clipbottom N)"
    using assms(1) by (auto simp: blt_reads_def dest: coord_is_coord)
  show "coord_shift (dleft N - sleft N)" "coord_shift (dbottom N - sbottom N)"
    using c(1-4) by (simp_all add: coord_shift_def coord_def)
  show "coord_region (clip_to (dleft N) (dbottom N) (dleft N + blt_width N) (dbottom N + blt_height N) C)"
    by (rule clip_coord [OF assms(2) c(3-6)])
qed

lemma in_blt_region:
  assumes "blt_reads s args N" "coord_region C"
  shows "in_region (blt_source_region s src C N) (from_x N x) (from_y N y) = wanted s src C N x y"
proof -
  note r = blt_reads_coord [OF assms]
  show ?thesis unfolding blt_source_region_def from_x_def from_y_def wanted_def
    by (subst in_source_region [OF r(11,9,10,7,8,5,6)]) (auto simp: in_clip_to)
qed

lemma bitblt_bitmap_run:
  assumes "bmbitperpixel s (lisp_arg s args 0) = 1" "bmbitperpixel s (lisp_arg s args 3) = 1"
    "lisp_arg s args 8 \<noteq> MERGE_atom E" "blt_reads s args N"
    "clips s (lisp_arg s args 11) (whole_bitmap s (lisp_arg s args 3)) C"
  shows "bitblt_bitmap E args s =
    (let R = blt_source_region s (lisp_arg s args 0) C N
     in if empty_region R then Inr (Blt_done (NIL, s))
        else Inr (Blt_done (ATOM_T, copy_region E (lisp_arg s args 0) (lisp_arg s args 3) (lisp_arg s args 8)
                    (lisp_arg s args 9) (dleft N - sleft N) (dbottom N - sbottom N) R s)))"
proof -
  have n: "coord_is s (lisp_arg s args 1) (sleft N)" "coord_is s (lisp_arg s args 2) (sbottom N)"
    "coord_is s (lisp_arg s args 4) (dleft N)" "coord_is s (lisp_arg s args 5) (dbottom N)"
    "coord_is s (lisp_arg s args 6) (blt_width N)" "coord_is s (lisp_arg s args 7) (blt_height N)"
    "coord_is s (lisp_arg s args 12) (clipleft N)" "coord_is s (lisp_arg s args 13) (clipbottom N)"
    using assms(4) by (auto simp: blt_reads_def)
  note c = n [THEN coord_is_coord]
  note sums = coord_sums(1) [OF c(3,5)] coord_sums(1) [OF c(4,6)] coord_sums(2) [OF c(3,1)] coord_sums(2) [OF c(4,2)]
  show ?thesis using assms(1-3)
    by (simp add: bitblt_bitmap_def Let_def n [THEN num_arg_is] clips_region [OF assms(5)] blt_source_region_def sums
        del: One_nat_def)
qed

text \<open>C29. \<open>BITBLT\<close> between bitmaps of one bit per pixel, which are the same bitmap or share no bits: every
  pixel of the destination that lies in the clipping region, in the destination rectangle and over a pixel of
  the clipped source gets the combination with that pixel as it was before the call, also when source and
  destination rectangles of one bitmap overlap; every other pixel and all memory outside the destination keep
  their bits. The coordinates and sizes are below \<open>2 ^ 28\<close> in absolute value, which the
  \<open>SMALLPOSP\<close>s that the comment asks for are by far: their sums fit a C \<open>int\<close>.\<close>

theorem bitblt_bitmap_pixels:
  assumes "bmbitperpixel s (lisp_arg s args 0) = 1" and "bmbitperpixel s (lisp_arg s args 3) = 1"
    and "lisp_arg s args 8 \<noteq> MERGE_atom E" and "blt_reads s args N"
    and "clips s (lisp_arg s args 11) (whole_bitmap s (lisp_arg s args 3)) C"
    and "bitmap_ok s (lisp_arg s args 0)" and "bitmap_ok s (lisp_arg s args 3)"
    and "bitmaps_apart s (lisp_arg s args 0) (lisp_arg s args 3)"
  shows "\<exists>r s'. bitblt_bitmap E args s = Inr (Blt_done (r, s')) \<and>
    (\<forall>x y. in_region (whole_bitmap s (lisp_arg s args 3)) x y \<longrightarrow>
       pixel s (lisp_arg s args 3) (pix s') x y =
        (if wanted s (lisp_arg s args 0) C N x y
         then pix_op (bbop E (lisp_arg s args 9)) (bbsrc_type E (lisp_arg s args 8) (lisp_arg s args 9))
                (pixel s (lisp_arg s args 3) (pix s) x y)
                (pixel s (lisp_arg s args 0) (pix s) (from_x N x) (from_y N y))
         else pixel s (lisp_arg s args 3) (pix s) x y)) \<and>
    (\<forall>p. 0 \<le> p \<and> p < LAST_BIT \<and> p \<notin> bits_of s (lisp_arg s args 3) \<longrightarrow> pix s' p = pix s p)"
proof (cases "empty_region (blt_source_region s (lisp_arg s args 0) C N)")
  case True
  note inb = in_blt_region [OF assms(4) clips_coord [OF assms(5) whole_coord]]
  have "\<not> wanted s (lisp_arg s args 0) C N x y" for x y
    using True by (auto simp: inb [symmetric] empty_region_def in_region_def)
  then show ?thesis using bitblt_bitmap_run [OF assms(1-5)] True by simp
next
  case False
  note cr = clips_coord [OF assms(5) whole_coord]
  note r = blt_reads_coord [OF assms(4) cr]
  have "region_fits s (lisp_arg s args 3)
      (clip_to (dleft N) (dbottom N) (dleft N + blt_width N) (dbottom N + blt_height N) C)"
    using clips_fits [OF whole_fits assms(5)] by (rule fits_clip_to)
  note fits = source_region_fits [OF this r(11,9,10), where src = "lisp_arg s args 0" and
    cl = "clipleft N" and cb = "clipbottom N" and w = "blt_width N" and
    h = "blt_height N", folded blt_source_region_def]
  note px = copy_region_pixels [OF assms(6-8) fits False refl]
  show ?thesis using bitblt_bitmap_run [OF assms(1-5)] False px
    by (auto simp: in_blt_region [OF assms(4) cr, symmetric] from_x_def from_y_def) (auto simp: in_region_def whole_bitmap_def)
qed

text \<open>A bitmap of 20 times 4 pixels, with 10 times 2 of them moved three to the right and one up.\<close>

definition env_blt :: blt_env where
  "env_blt = \<lparr>INPUT_atom = 100, REPLACE_atom = 101, PAINT_atom = 102, ERASE_atom = 103, INVERT_atom = 104,
     TEXTURE_atom = 105, MERGE_atom = 106, TOPWDS68k = 0x60000\<rparr>"

definition vm_blt :: vm where
  "vm_blt = vm0\<lparr>mem := (\<lambda>_. 0)(0x40000 := 0x50000, 0x40002 := 0x00020004, 0x40004 := 0x00140001,
     0x11000 := 0x40000, 0x11002 := 0xE0000, 0x11004 := 0xE0000, 0x11006 := 0x40000, 0x11008 := 0xE0003,
     0x1100A := 0xE0001, 0x1100C := 0xE000A, 0x1100E := 0xE0002, 0x11018 := 0xE0000, 0x1101A := 0xE0000)\<rparr>"

definition numbers_blt :: blt_numbers where
  "numbers_blt = \<lparr>sleft = 0, sbottom = 0, dleft = 3, dbottom = 1, blt_width = 10, blt_height = 2,
     clipleft = 0, clipbottom = 0\<rparr>"

lemma vm_blt_args:
  "lisp_arg vm_blt 0x11000 0 = 0x40000" "lisp_arg vm_blt 0x11000 3 = 0x40000" "lisp_arg vm_blt 0x11000 8 = 0"
  "lisp_arg vm_blt 0x11000 9 = 0" "lisp_arg vm_blt 0x11000 11 = 0"
  "bmbase vm_blt 0x40000 = 0x50000" "bmrasterwidth vm_blt 0x40000 = 2" "bmheight vm_blt 0x40000 = 4"
  "bmwidth vm_blt 0x40000 = 20" "bmbitperpixel vm_blt 0x40000 = 1"
  by (simp_all add: lisp_arg_def vm_blt_def rd_def getcell_def bmbase_def bmrasterwidth_def bmheight_def bmwidth_def
      bmbitperpixel_def getword_def cell_of_def hi_word_def lo_word_def)

lemma vm_blt_numbers: "blt_reads vm_blt 0x11000 numbers_blt"
  by (simp add: blt_reads_def coord_is_def coord_def numbers_blt_def N_GETNUMBER_def lisp_arg_def vm_blt_def rd_def getcell_def
      SEGMASK_def S_POSITIVE_def)

theorem bitblt_bitmap_pixels_witness:
  "\<exists>r s'. bitblt_bitmap env_blt 0x11000 vm_blt = Inr (Blt_done (r, s')) \<and>
     pixel vm_blt 0x40000 (pix s') 5 2 = pixel vm_blt 0x40000 (pix vm_blt) 2 1"
proof -
  have w: "wanted vm_blt 0x40000 (whole_bitmap vm_blt 0x40000) numbers_blt 5 2"
    "in_region (whole_bitmap vm_blt 0x40000) 5 2" "from_x numbers_blt 5 = 2" "from_y numbers_blt 2 = 1"
    by (simp_all add: wanted_def in_region_def whole_bitmap_def vm_blt_args numbers_blt_def from_x_def from_y_def)
  have "bitmap_ok vm_blt 0x40000" "bitmaps_apart vm_blt 0x40000 0x40000"
    by (simp_all add: bitmap_ok_def bm_bpl_def bm_start_def vm_blt_args LAST_BIT_def bitmaps_apart_def)
  moreover have "clips vm_blt 0 (whole_bitmap vm_blt 0x40000) (whole_bitmap vm_blt 0x40000)"
    by (simp add: clips_def NIL_def)
  moreover have "MERGE_atom env_blt \<noteq> 0" by (simp add: env_blt_def)
  ultimately obtain r s' where "bitblt_bitmap env_blt 0x11000 vm_blt = Inr (Blt_done (r, s'))"
    "\<And>x y. in_region (whole_bitmap vm_blt 0x40000) x y \<Longrightarrow> pixel vm_blt 0x40000 (pix s') x y =
        (if wanted vm_blt 0x40000 (whole_bitmap vm_blt 0x40000) numbers_blt x y
         then pix_op (bbop env_blt 0) (bbsrc_type env_blt 0 0) (pixel vm_blt 0x40000 (pix vm_blt) x y)
                (pixel vm_blt 0x40000 (pix vm_blt) (from_x numbers_blt x) (from_y numbers_blt y))
         else pixel vm_blt 0x40000 (pix vm_blt) x y)"
    using bitblt_bitmap_pixels [of vm_blt "0x11000" env_blt numbers_blt "whole_bitmap vm_blt 0x40000"] vm_blt_numbers
    by (auto simp: vm_blt_args)
  then show ?thesis using w by (auto simp: bbop_def bbsrc_type_def env_blt_def pix_op_def)
qed

section \<open>\<open>\BITBLTSUB\<close>\<close>

lemma bitbltsub_copies:
  assumes "pbtheight s (lisp_arg s args 0) = h" "pbtwidth s (lisp_arg s args 0) = w"
    and "(if lisp_arg s args 8 = NIL then INPUT_atom E else lisp_arg s args 8) = source" "source \<noteq> TEXTURE_atom E"
    and "(if lisp_arg s args 9 = NIL then REPLACE_atom E else lisp_arg s args 9) = operation"
    and s: "area_ok s (lisp_arg s args 1) (low_half (lisp_arg s args 2)) (low_half (lisp_arg s args 3)) w h"
    and d: "area_ok s (lisp_arg s args 4) (low_half (lisp_arg s args 5)) (low_half (lisp_arg s args 6)) w h"
    and ap: "bitmaps_apart s (lisp_arg s args 1) (lisp_arg s args 4)"
  shows "\<exists>s'. bitbltsub E args s = Inr s' \<and>
    shows_image s' (blt_rect (bbop E operation) (bbsrc_type E source operation) w 0 h
      (bit_at s (lisp_arg s args 4) (low_half (lisp_arg s args 5)) (low_half (lisp_arg s args 6)))
      (bit_at s (lisp_arg s args 1) (low_half (lisp_arg s args 2)) (low_half (lisp_arg s args 3)))
      (bm_bpl s (lisp_arg s args 4)) (bm_bpl s (lisp_arg s args 1)) (pix s))"
proof -
  have "0 < w" "0 < h" using s by (auto simp: area_ok_def)
  then have "bitbltsub E args s = Inr (new_bitblt_code (copy_args s (lisp_arg s args 1) (lisp_arg s args 4)
      (low_half (lisp_arg s args 2)) (low_half (lisp_arg s args 3)) (low_half (lisp_arg s args 5))
      (low_half (lisp_arg s args 6)) w h (bbop E operation) (bbsrc_type E source operation)) s)"
    using assms(1-5) unfolding bitbltsub_def Let_def low_half_def by simp
  then show ?thesis using copy_simultaneous [OF s d ap bbop_4] by blast
qed

section \<open>The position after a character\<close>

lemma new_position_read:
  assumes n: "-65536 \<le> n" "n < 65536"
  shows "\<exists>p. new_position n = Some p \<and> FGetNum p = Some n"
proof -
  define v :: "32 word" where "v = word_of_int n"
  have v: "sint v = n" unfolding v_def using n by (intro sint_fits) (simp add: fits_def)
  show ?thesis
  proof (cases "0 \<le> n")
    case True
    then have h: "v AND 0xFFFF0000 = 0" using arith_switch_cases(1) [of v] n v by (simp add: MAX_SMALL_def)
    have "uint v = n" using v True sint32 [of v] uint32_less [of v] by (auto split: if_splits)
    then show ?thesis using True n small_pos_parts [OF h]
      by (simp add: new_position_def FGetNum_def v_def [symmetric] and.commute [of _ SEGMASK])
  next
    case False
    then have h: "v AND 0xFFFF0000 = 0xFFFF0000" using arith_switch_cases(2) [of v] n v by (simp add: MIN_SMALL_def)
    have "N_GETNUMBER s (S_NEGATIVE OR (0xFFFF AND v)) = Some v" for s by (rule small_neg_get [OF h])
    moreover have "SEGMASK AND (0xFFFF AND v) = 0" by (simp add: and.assoc [symmetric] SEGMASK_def)
    then have "SEGMASK AND (S_NEGATIVE OR (0xFFFF AND v)) = S_NEGATIVE" by (simp add: seg_pos)
    moreover have "S_NEGATIVE \<noteq> S_POSITIVE" by (simp add: S_NEGATIVE_def S_POSITIVE_def)
    ultimately show ?thesis using False n v
      by (simp add: new_position_def FGetNum_def v_def [symmetric] and.commute [of _ SEGMASK] N_GETNUMBER_def)
  qed
qed

text \<open>A position beyond the small numbers is stored as a negative one.\<close>

lemma new_position_wraps: "new_position 65536 = Some S_NEGATIVE" "FGetNum S_NEGATIVE = Some (- 65536)"
  by (simp_all add: new_position_def FGetNum_def S_NEGATIVE_def S_POSITIVE_def SEGMASK_def)

end
