(* ===== verification/BitBlt_Gray.thy ===== *)
theory BitBlt_Gray
  imports BitBlt_Laws
begin

text \<open>
  Textures: the branch \<open>gray\<close> of the bit block transfer. A line is filled from one 16-bit word that is
  repeated along the line and aligned with \<open>sx\<close>; the lines go through the rows of the texture
  cyclically (\<open>gray_ref\<close>). The store lemmas of \<open>BitBlt_Pixels\<close> are reused by putting the texture
  behind the end of the memory.
\<close>

section \<open>Stores from a texture\<close>

definition tex_on :: "nat \<Rightarrow> bool \<Rightarrow> (int \<Rightarrow> bool) \<Rightarrow> int set \<Rightarrow> (int \<Rightarrow> bool) \<Rightarrow> int \<Rightarrow> bool" where
  "tex_on opn c t A m = (\<lambda>p. if p \<in> A then pix_op opn c (m p) (t p) else m p)"

definition behind :: "(int \<Rightarrow> bool) \<Rightarrow> (int \<Rightarrow> bool) \<Rightarrow> int \<Rightarrow> bool" where
  "behind t m q = (if q < 2 ^ 38 then m q else t (q - 2 ^ 40))"

lemma shows_behind: "shows_image s (blt_on opn c (2 ^ 40) A (behind t m)) \<longleftrightarrow> shows_image s (tex_on opn c t A m)"
  by (auto simp: shows_image_def blt_on_def tex_on_def behind_def LAST_BIT_def)

lemma tex_store:
  assumes s: "shows_image s (tex_on opn c t A m)" and k: "0 \<le> k" "k < 2 ^ 31"
    and fresh: "mask_set k msk \<inter> A = {}" and y: "\<And>p. p \<in> mask_set k msk \<Longrightarrow> lbit y (p mod 32) = t p"
  shows "shows_image (wrc k ((bb_assign opn (rdc s k) (compl_if c y) AND msk) OR (rdc s k AND NOT msk)) s)
           (tex_on opn c t (A \<union> mask_set k msk) m)"
proof -
  have "lbit y (p mod 32) = behind t m (p + 2 ^ 40)" if "p \<in> mask_set k msk" for p
    using y [OF that] that k by (auto simp: behind_def mask_set_iff)
  from store_step [OF s [folded shows_behind] k fresh this] show ?thesis by (simp only: shows_behind)
qed

lemma tex_store_cell:
  assumes s: "shows_image s (tex_on opn c t A m)" and k: "0 \<le> k" "k < 2 ^ 31"
    and fresh: "{32 * k..<32 * k + 32} \<inter> A = {}" and y: "\<And>i. in_cell i \<Longrightarrow> lbit y i = t (32 * k + i)"
  shows "shows_image (wrc k (bb_assign opn (rdc s k) (compl_if c y)) s) (tex_on opn c t (A \<union> {32 * k..<32 * k + 32}) m)"
proof -
  have "lbit y i = behind t m (32 * k + i + 2 ^ 40)" if "in_cell i" for i
    using y [OF that] that k by (auto simp: behind_def in_cell_def)
  from store_cell [OF s [folded shows_behind] k fresh this] show ?thesis by (simp only: shows_behind)
qed

section \<open>The word of a line\<close>

definition wbit :: "DLword \<Rightarrow> int \<Rightarrow> bool" where "wbit x i = bit x (nat (15 - i))"

text \<open>The bits of line \<open>D\<close> for the texture word \<open>x\<close>.\<close>

definition tex_bits :: "DLword \<Rightarrow> int \<Rightarrow> int \<Rightarrow> int \<Rightarrow> bool" where
  "tex_bits x sx D = (\<lambda>p. wbit x ((sx + (p - D)) mod 16))"

definition replicate_word :: "DLword \<Rightarrow> nat \<Rightarrow> 32 word" where
  "replicate_word w L =
     (let x = (ucast w :: 32 word); x2 = push_bit L (x OR push_bit 16 x) in x2 OR (0xFFFF AND drop_bit 16 x2))"

lemma bit_replicate:
  assumes L: "L < 16" and n: "n < 32"
  shows "bit (replicate_word w L) n = bit w ((16 + n - L) mod 16)"
proof -
  have m: "(0xFFFF :: 32 word) = mask 16" by (simp add: mask_eq_exp_minus_1)
  have w: "bit w j \<Longrightarrow> j < 16" for j using bit_imp_le_length [of w j] by simp
  have e: "(16 + k - L) mod 16 = (if k < L then 16 + k - L else if k - L < 16 then k - L else k - L - 16)" if "k < 32" for k
    using that L by (auto simp: mod_if)
  show ?thesis using n L e [OF n]
    by (auto simp: replicate_word_def Let_def m bit_or_iff bit_and_iff bit_push_bit_iff bit_drop_bit_eq bit_mask_iff bit_ucast_iff
        dest: w split: if_splits)
qed

lemma lbit_replicate:
  assumes "0 \<le> L" "L < 16" "in_cell i"
  shows "lbit (replicate_word w (nat L)) i = wbit w ((i + L) mod 16)"
proof -
  have n: "nat (31 - i) < 32" "nat L < 16" using assms by (auto simp: in_cell_def)
  have "int ((16 + nat (31 - i) - nat L) mod 16) = (47 - i - L) mod 16"
    using assms by (simp add: in_cell_def zmod_int of_nat_diff algebra_simps)
  also have "\<dots> = 15 - (i + L) mod 16"
  proof (rule int_mod_pos_eq [of _ _ "2 - (i + L) div 16"])
    show "47 - i - L = 16 * (2 - (i + L) div 16) + (15 - (i + L) mod 16)"
      using minus_mult_div_eq_mod [of "i + L" 16] by simp
  qed (use pos_mod_bound [of 16 "i + L"] pos_mod_sign [of 16 "i + L"] in auto)
  finally have "(16 + nat (31 - i) - nat L) mod 16 = nat (15 - (i + L) mod 16)" by linarith
  then show ?thesis by (simp add: lbit_def wbit_def bit_replicate [OF n(2,1)])
qed

definition gray_word :: "vm \<Rightarrow> bb_vars \<Rightarrow> DLword" where "gray_word s v = raw_word s (gray_src v)"

lemma gray_setup:
  assumes v: "src32lbit v = sx mod 16" "dst32lbit v = D mod 32"
  shows "\<exists>y. shS (do_src_gray_setup a s v) = compl_if (bb_comp a) y \<and>
    (\<forall>k i. in_cell i \<longrightarrow> lbit y i = tex_bits (gray_word s v) sx D (32 * k + i))"
proof -
  define L where "L = (src32lbit v - dst32lbit v) mod 16"
  have "lbit (replicate_word (gray_word s v) (nat L)) i = tex_bits (gray_word s v) sx D (32 * k + i)" if "in_cell i" for k i
  proof -
    have r: "sx mod 16 = sx - 16 * (sx div 16)" "D mod 32 = D - 32 * (D div 32)"
      by (simp_all add: minus_mult_div_eq_mod)
    have "(i + L) mod 16 = (i + (sx mod 16 - D mod 32)) mod 16" by (simp add: L_def v mod_add_right_eq)
    also have "i + (sx mod 16 - D mod 32) = sx + (32 * k + i - D) + 16 * (2 * (D div 32) - 2 * k - sx div 16)"
      unfolding r by (simp add: algebra_simps)
    finally have "(i + L) mod 16 = (sx + (32 * k + i - D)) mod 16" by (simp only: mod_mult_self2)
    then show ?thesis using lbit_replicate [of L i] that by (simp add: L_def tex_bits_def)
  qed
  moreover have "shS (do_src_gray_setup a s v) = compl_if (bb_comp a) (replicate_word (gray_word s v) (nat L))"
    by (simp add: do_src_gray_setup_def Let_def replicate_word_def gray_word_def L_def)
  ultimately show ?thesis by blast
qed

section \<open>One line\<close>

definition gray_line_ok :: "bb_args \<Rightarrow> int \<Rightarrow> bool" where
  "gray_line_ok a D \<longleftrightarrow> 0 < bb_w a \<and> bb_op a < 4 \<and> in_memory D (bb_w a)"

lemma gray_line_cell: "gray_line_ok a D \<Longrightarrow> D \<le> 32 * k + i \<Longrightarrow> 32 * k + i < D + bb_w a \<Longrightarrow> in_cell i \<Longrightarrow> 0 \<le> k \<and> k < 2 ^ 31"
  by (rule cell_range [of a D D]) (simp_all add: gray_line_ok_def line_ok_def)

text \<open>The masks of a line cover its first, its last or its only cell.\<close>

lemma line_masks:
  assumes dv: "F_dst_vars a D v" and w: "0 < bb_w a"
  shows "D mod 32 + bb_w a \<le> 32 \<Longrightarrow> mask_set (D div 32) (sdw_mask v) = {D..<D + bb_w a}"
    and "D mod 32 + bb_w a > 32 \<Longrightarrow> mask_set (D div 32) (preloop_mask v) = {D..<32 * (D div 32 + 1)}"
    and "32 * k \<le> D + bb_w a - 1 \<Longrightarrow> D + bb_w a - 1 < 32 * k + 32 \<Longrightarrow> mask_set k (postloop_mask v) = {32 * k..<D + bb_w a}"
proof -
  have m: "preloop_mask v = lbit_mask (D mod 32)" "postloop_mask v = rbit_mask ((D + bb_w a - 1) mod 32)"
    "sdw_mask v = lbit_mask (D mod 32) AND rbit_mask ((D + bb_w a - 1) mod 32)"
    using dv by (simp_all add: F_dst_vars_def)
  have e: "32 * (D div 32) + D mod 32 = D" by simp
  {
    assume one: "D mod 32 + bb_w a \<le> 32"
    have "D + bb_w a - 1 = (D mod 32 + bb_w a - 1) + 32 * (D div 32)" by simp
    then have "(D + bb_w a - 1) mod 32 = D mod 32 + bb_w a - 1" using one w by (simp only: mod_mult_self2) simp
    moreover have "32 * (D div 32) + (D mod 32 + bb_w a - 1) = D + bb_w a - 1" by simp
    moreover have "{D..D + bb_w a - 1} = {D..<D + bb_w a}" by auto
    ultimately show "mask_set (D div 32) (sdw_mask v) = {D..<D + bb_w a}"
      unfolding m mask_set_both [OF in_cell_mod in_cell_mod] by (simp only: e)
  next
    assume "D mod 32 + bb_w a > 32"
    show "mask_set (D div 32) (preloop_mask v) = {D..<32 * (D div 32 + 1)}"
      unfolding m mask_set_left [OF in_cell_mod] e by simp
  next
    assume k: "32 * k \<le> D + bb_w a - 1" "D + bb_w a - 1 < 32 * k + 32"
    have "32 * k + (D + bb_w a - 1) mod 32 = D + bb_w a - 1" using block_unique [OF k] by simp
    then show "mask_set k (postloop_mask v) = {32 * k..<D + bb_w a}"
      unfolding m mask_set_right [OF in_cell_mod] by auto
  }
qed

definition gray_inv :: "bb_args \<Rightarrow> (int \<Rightarrow> bool) \<Rightarrow> int \<Rightarrow> (int \<Rightarrow> bool) \<Rightarrow> bb_vars \<Rightarrow> int \<Rightarrow> bb_vars \<times> vm \<Rightarrow> bool" where
  "gray_inv a t D m v0 k vs \<longleftrightarrow> fst vs = v0\<lparr>dst32addr := k\<rparr> \<and>
     shows_image (snd vs) (tex_on (bb_op a) (bb_comp a) t {D..<32 * k} m)"

lemma gray_loop:
  assumes ok: "gray_line_ok a D" and y: "shS v0 = compl_if (bb_comp a) y" "\<And>k i. in_cell i \<Longrightarrow> lbit y i = t (32 * k + i)"
    and k: "D \<le> 32 * k" and inv: "gray_inv a t D m v0 k vs"
  shows "32 * (k + int n) \<le> D + bb_w a \<Longrightarrow> gray_inv a t D m v0 (k + int n) ((DestGetsF a ^^ n) vs)"
proof (induction n)
  case (Suc n)
  define K where "K = k + int n"
  obtain v s where vs: "(DestGetsF a ^^ n) vs = (v, s)" by (cases "(DestGetsF a ^^ n) vs")
  have i: "v = v0\<lparr>dst32addr := K\<rparr>" "shows_image s (tex_on (bb_op a) (bb_comp a) t {D..<32 * K} m)"
    using Suc vs by (simp_all add: gray_inv_def K_def)
  have r: "D \<le> 32 * K" "32 * K + 32 \<le> D + bb_w a" using k Suc.prems by (simp_all add: K_def)
  have kk: "0 \<le> K" "K < 2 ^ 31" using gray_line_cell [OF ok, of K 0] r by (simp_all add: in_cell_def)
  have "{D..<32 * K} \<union> {32 * K..<32 * K + 32} = {D..<32 * (K + 1)}" using r by auto
  then have "shows_image (wrc K (bb_assign (bb_op a) (rdc s K) (compl_if (bb_comp a) y)) s)
      (tex_on (bb_op a) (bb_comp a) t {D..<32 * (K + 1)} m)"
    using tex_store_cell [OF i(2) kk, of y] y(2) by auto
  then have "gray_inv a t D m v0 (K + 1) (DestGetsF a (v, s))"
    by (simp add: gray_inv_def DestGetsF_def i(1) y(1))
  then show ?case by (simp add: vs K_def algebra_simps)
qed (use inv in simp)

lemma gray_partial:
  assumes ok: "gray_line_ok a D" and y: "shS v = compl_if (bb_comp a) y" "\<And>k i. in_cell i \<Longrightarrow> lbit y i = t (32 * k + i)"
    and s: "shows_image s (tex_on (bb_op a) (bb_comp a) t A m)" and dk: "dst32addr v = k"
    and r: "mask_set k msk \<noteq> {}" "mask_set k msk \<subseteq> {D..<D + bb_w a}" "mask_set k msk \<inter> A = {}"
  shows "shows_image (do_partial_transfer a msk v s) (tex_on (bb_op a) (bb_comp a) t (A \<union> mask_set k msk) m)"
proof -
  obtain q where q: "q \<in> mask_set k msk" using r(1) by blast
  then have "q = 32 * k + q mod 32" "D \<le> q" "q < D + bb_w a" using r(2) by (auto simp: mask_set_def)
  then have kk: "0 \<le> k" "k < 2 ^ 31" using gray_line_cell [OF ok, of k "q mod 32"] by auto
  have "lbit y (p mod 32) = t p" if "p \<in> mask_set k msk" for p
  proof -
    have "32 * k + p mod 32 = p" using that by (auto simp: mask_set_def)
    then show ?thesis using y(2) [of "p mod 32" k] by simp
  qed
  from tex_store [OF s kk r(3) this] show ?thesis by (simp add: do_partial_transfer_def Let_def dk y(1))
qed

lemma gray_line:
  assumes ok: "gray_line_ok a D" and dv: "F_dst_vars a D v" and ad: "dst32addr v = D div 32"
    and y: "shS v = compl_if (bb_comp a) y" "\<And>k i. in_cell i \<Longrightarrow> lbit y i = t (32 * k + i)"
    and s: "shows_image s m" and r: "do_gray_transfer a (v, s) = (v2, s2)"
  shows "same_line v v2 \<and> shows_image s2 (tex_on (bb_op a) (bb_comp a) t {D..<D + bb_w a} m)"
proof -
  have w: "0 < bb_w a" "bb_op a < 4" using ok by (simp_all add: gray_line_ok_def)
  note msk = line_masks [OF dv w(1)]
  have im: "shows_image s (tex_on (bb_op a) (bb_comp a) t {} m)" using s by (simp add: tex_on_def)
  have l: "dst32lbit v = D mod 32" "dstnumL v = (D mod 32 + bb_w a) div 32 - 1" using dv by (simp_all add: F_dst_vars_def)
  show ?thesis
  proof (cases "D mod 32 + bb_w a \<le> 32")
    case True
    then have "v2 = v \<and> s2 = do_partial_transfer a (sdw_mask v) v s"
      using r by (auto simp: do_gray_transfer_def l)
    then show ?thesis using gray_partial [OF ok y im ad, of "sdw_mask v"] w by (simp add: msk(1) [OF True] same_line_refl)
  next
    case False
    define n K where "n = nat ((D mod 32 + bb_w a) div 32 - 1)" and "K = D div 32 + 1 + int n"
    have K': "K = D div 32 + (D mod 32 + bb_w a) div 32" using False by (simp add: K_def n_def)
    have K: "32 * K \<le> D + bb_w a" "D + bb_w a < 32 * K + 32" unfolding K' by (rule span_end)+
    have D: "D \<le> 32 * (D div 32 + 1)" "D < 32 * (D div 32 + 1)" "32 * (D div 32 + 1) \<le> D + bb_w a"
      using span_more [of D "bb_w a"] False by simp_all
    have DK: "D \<le> 32 * K" using D by (simp add: K_def)
    define s1 where "s1 = do_partial_transfer a (preloop_mask v) v s"
    have "shows_image s1 (tex_on (bb_op a) (bb_comp a) t {D..<32 * (D div 32 + 1)} m)"
      using gray_partial [OF ok y im ad, of "preloop_mask v"] D msk(2) False by (simp add: s1_def)
    then have inv: "gray_inv a t D m v (D div 32 + 1) (v\<lparr>dst32addr := D div 32 + 1\<rparr>, s1)" by (simp add: gray_inv_def)
    obtain v3 s3 where v3: "(DestGetsF a ^^ n) (v\<lparr>dst32addr := D div 32 + 1\<rparr>, s1) = (v3, s3)"
      by (cases "(DestGetsF a ^^ n) (v\<lparr>dst32addr := D div 32 + 1\<rparr>, s1)")
    have i3: "v3 = v\<lparr>dst32addr := K\<rparr>" "shows_image s3 (tex_on (bb_op a) (bb_comp a) t {D..<32 * K} m)"
      using gray_loop [OF ok y D(1) inv, of n] K(1) v3 by (simp_all add: gray_inv_def K_def)
    have r': "(v2, s2) = (if dst32rbit v3 \<noteq> 31 then (v3, do_partial_transfer a (postloop_mask v3) v3 s3) else (v3, s3))"
      using r False v3 w by (simp add: do_gray_transfer_def l ad s1_def ForInner_def n_def Let_def)
    have dr: "dst32rbit v3 = (D + bb_w a - 1) mod 32" using dv by (simp add: i3(1) F_dst_vars_def)
    have sl: "same_line v v3" by (simp add: i3(1) same_line_upd same_line_refl)
    show ?thesis
    proof (cases "(D + bb_w a - 1) mod 32 = 31")
      case True
      then have "D + bb_w a = 32 * K" using K by (intro block_end) simp_all
      then show ?thesis using r' dr True sl i3(2) by simp
    next
      case F: False
      have k: "32 * K \<le> D + bb_w a - 1" "D + bb_w a - 1 < 32 * K + 32"
        using K F block_unique [of "K - 1" "D + bb_w a - 1"] by (cases "D + bb_w a = 32 * K"; simp)+
      have "{D..<32 * K} \<union> {32 * K..<D + bb_w a} = {D..<D + bb_w a}" using DK k by auto
      then have "shows_image (do_partial_transfer a (postloop_mask v3) v3 s3) (tex_on (bb_op a) (bb_comp a) t {D..<D + bb_w a} m)"
        using gray_partial [OF ok _ y(2) i3(2), of v3 K "postloop_mask v3"] msk(3) [OF k] DK k y(1) by (simp add: i3(1))
      then show ?thesis using r' dr F sl by simp
    qed
  qed
qed

section \<open>All lines\<close>

text \<open>Row \<open>i\<close> of a texture of \<open>n\<close> rows is followed by row \<open>next_row n i\<close>.\<close>

definition next_row :: "int \<Rightarrow> int \<Rightarrow> int" where "next_row n i = (if i + 1 \<ge> n then 0 else i + 1)"

primrec gray_ref ::
  "nat \<Rightarrow> nat \<Rightarrow> bool \<Rightarrow> int \<Rightarrow> int \<Rightarrow> int \<Rightarrow> int \<Rightarrow> DLword list \<Rightarrow> int \<Rightarrow> int \<Rightarrow> (int \<Rightarrow> bool) \<Rightarrow> int \<Rightarrow> bool" where
  "gray_ref 0 opn c w D sx dbpl ws n i m = m"
| "gray_ref (Suc h) opn c w D sx dbpl ws n i m =
     gray_ref h opn c w (D + dbpl) sx dbpl ws n (next_row n i)
       (tex_on opn c (tex_bits (ws ! nat i) sx D) {D..<D + w} m)"

definition gray_at :: "bb_args \<Rightarrow> DLword list \<Rightarrow> int \<Rightarrow> int \<Rightarrow> bb_vars \<Rightarrow> bool" where
  "gray_at a ws D i v \<longleftrightarrow> F_dst_vars a D v \<and> dst32addr v = D div 32 \<and> src32lbit v = bb_sx a mod 16 \<and>
     bb_fast v = (bb_dstbpl a mod 32 = 0) \<and> gray_src v = In_gray ws i \<and> curr_gray_line v = i"

lemma F_dst_advance:
  assumes dv: "F_dst_vars a D v" and f: "bb_fast v \<Longrightarrow> bb_dstbpl a mod 32 = 0"
  shows "F_dst_vars a (D + bb_dstbpl a) (F_do_dst_advance a v)"
    and "dst32addr (F_do_dst_advance a v) = (D + bb_dstbpl a) div 32"
proof -
  have "F_dst_vars a (D + bb_dstbpl a) (F_do_dst_advance a v) \<and> dst32addr (F_do_dst_advance a v) = (D + bb_dstbpl a) div 32"
  proof (cases "bb_fast v")
    case True
    note m = f [OF True]
    show ?thesis using True dv whole_cells [OF m, of D] last_shift [OF m, of D "bb_w a"]
      by (simp add: F_dst_vars_def F_do_dst_advance_def Let_def)
  next
    case False
    let ?D = "D + bb_dstbpl a"
    have ov: "OrigDstAddr v = D div 32" "dst32lbit v = D mod 32" using dv by (simp_all add: F_dst_vars_def)
    have v1: "F_do_dst_advance a v = F_dst_masks (bb_w a) (v\<lparr>dst32addr := ?D div 32, dst32lbit := ?D mod 32,
                dst32rbit := (?D + bb_w a - 1) mod 32, OrigDstAddr := ?D div 32\<rparr>)"
      unfolding F_do_dst_advance_def Let_def ov unfolding next_cell unfolding next_bits if_not_P [OF False] ..
    have "F_dst_vars a ?D (F_do_dst_advance a v)" unfolding v1 by (rule F_dst_masks_vars) simp_all
    then show ?thesis by (simp add: v1)
  qed
  then show "F_dst_vars a (D + bb_dstbpl a) (F_do_dst_advance a v)"
    and "dst32addr (F_do_dst_advance a v) = (D + bb_dstbpl a) div 32" by simp_all
qed

lemma F_dst_advance_keeps:
  "src32lbit (F_do_dst_advance a v) = src32lbit v" "bb_fast (F_do_dst_advance a v) = bb_fast v"
  "gray_src (F_do_dst_advance a v) = gray_src v" "curr_gray_line (F_do_dst_advance a v) = curr_gray_line v"
  by (simp_all add: F_do_dst_advance_def F_dst_masks_def Let_def)

lemma gray_advance:
  assumes "gray_at a ws D i v" "0 \<le> i" "i < bb_num_gray a"
  shows "gray_at a ws (D + bb_dstbpl a) (next_row (bb_num_gray a) i) (do_src_gray_advance a (F_do_dst_advance a v))"
proof -
  have v: "F_dst_vars a D v" "bb_fast v \<Longrightarrow> bb_dstbpl a mod 32 = 0" using assms(1) by (simp_all add: gray_at_def)
  have "i + - (bb_num_gray a - 1) = 0" if "i + 1 \<ge> bb_num_gray a" using that assms by simp
  then show ?thesis using F_dst_advance [OF v] assms(1)
    by (auto simp: gray_at_def do_src_gray_advance_def Let_def F_dst_advance_keeps next_row_def ptr_plus_def)
      (simp_all add: F_dst_vars_def)
qed

lemma gray_line_step:
  assumes g: "bb_gray a" and ok: "gray_line_ok a D" and at: "gray_at a ws D i v" and i: "0 \<le> i" "i < bb_num_gray a"
    and s: "shows_image s m"
  obtains v' s' where "bb_line a (v, s) = (v', s')" "gray_at a ws (D + bb_dstbpl a) (next_row (bb_num_gray a) i) v'"
    "shows_image s' (tex_on (bb_op a) (bb_comp a) (tex_bits (ws ! nat i) (bb_sx a) D) {D..<D + bb_w a} m)"
proof -
  define v1 where "v1 = do_src_gray_setup a s v"
  obtain v2 s2 where r: "do_gray_transfer a (v1, s) = (v2, s2)" by (cases "do_gray_transfer a (v1, s)")
  have l: "src32lbit v = bb_sx a mod 16" "dst32lbit v = D mod 32" using at by (simp_all add: gray_at_def F_dst_vars_def)
  obtain y where y: "shS v1 = compl_if (bb_comp a) y"
    "\<And>k j. in_cell j \<Longrightarrow> lbit y j = tex_bits (gray_word s v) (bb_sx a mod 16) D (32 * k + j)"
    using gray_setup [of v "bb_sx a mod 16" D a s] l unfolding v1_def by auto
  have t: "tex_bits (gray_word s v) (bb_sx a mod 16) D = tex_bits (ws ! nat i) (bb_sx a) D"
    using at by (simp add: tex_bits_def gray_word_def gray_at_def raw_word_def mod_add_left_eq)
  have at1: "gray_at a ws D i v1" using at by (simp add: v1_def do_src_gray_setup_def Let_def gray_at_def F_dst_vars_def)
  have "same_line v1 v2 \<and> shows_image s2 (tex_on (bb_op a) (bb_comp a) (tex_bits (ws ! nat i) (bb_sx a) D) {D..<D + bb_w a} m)"
    by (rule gray_line [OF ok _ _ y [unfolded t] s r]) (use at1 in \<open>simp_all add: gray_at_def\<close>)
  then have l2: "same_line v1 v2" and im: "shows_image s2 (tex_on (bb_op a) (bb_comp a) (tex_bits (ws ! nat i) (bb_sx a) D) {D..<D + bb_w a} m)"
    by simp_all
  have nx: "bb_line a (v, s) = (do_src_gray_advance a (F_do_dst_advance a v2), s2)"
    using g r by (simp add: bb_line_def v1_def [symmetric])
  have "gray_at a ws D i (v2\<lparr>dst32addr := D div 32\<rparr>)"
    using at1 same_line_fields [OF l2] by (simp add: gray_at_def F_dst_vars_def)
  moreover have "F_do_dst_advance a (v2\<lparr>dst32addr := D div 32\<rparr>) = F_do_dst_advance a v2"
    by (simp add: F_do_dst_advance_def Let_def)
  ultimately have "gray_at a ws (D + bb_dstbpl a) (next_row (bb_num_gray a) i) (do_src_gray_advance a (F_do_dst_advance a v2))"
    using gray_advance [OF _ i, of ws D "v2\<lparr>dst32addr := D div 32\<rparr>"] by simp
  then show thesis using that nx im by blast
qed

lemma next_row_range: "0 \<le> i \<Longrightarrow> i < n \<Longrightarrow> 0 \<le> next_row n i \<and> next_row n i < n"
  by (auto simp: next_row_def)

lemma gray_lines:
  assumes g: "bb_gray a"
  shows "gray_at a ws D i v \<Longrightarrow> 0 \<le> i \<Longrightarrow> i < bb_num_gray a \<Longrightarrow> shows_image s m \<Longrightarrow>
     (\<And>l. l < h \<Longrightarrow> gray_line_ok a (D + int l * bb_dstbpl a)) \<Longrightarrow>
     shows_image (snd ((bb_line a ^^ h) (v, s)))
       (gray_ref h (bb_op a) (bb_comp a) (bb_w a) D (bb_sx a) (bb_dstbpl a) ws (bb_num_gray a) i m)"
proof (induction h arbitrary: D i v s m)
  case (Suc h)
  have "gray_line_ok a D" using Suc.prems(5) [of 0] by simp
  then obtain v' s' where l: "bb_line a (v, s) = (v', s')"
    "gray_at a ws (D + bb_dstbpl a) (next_row (bb_num_gray a) i) v'"
    "shows_image s' (tex_on (bb_op a) (bb_comp a) (tex_bits (ws ! nat i) (bb_sx a) D) {D..<D + bb_w a} m)"
    using gray_line_step [OF g _ Suc.prems(1-4)] by metis
  have "gray_line_ok a (D + bb_dstbpl a + int l * bb_dstbpl a)" if "l < h" for l
    using Suc.prems(5) [of "Suc l"] that by (simp add: algebra_simps)
  from Suc.IH [OF l(2) _ _ l(3) this] show ?case
    using next_row_range [OF Suc.prems(2,3)] by (simp add: funpow_Suc_right l(1) del: funpow.simps)
qed simp

lemma gray_init:
  assumes "bb_gray a" "bb_srcbase a = In_gray ws i" "bb_curr_gray a = i"
  shows "gray_at a ws (dst_start a) i (some_init a (bb_variables a))"
proof -
  note bd = byte_split [of "bb_dstbase a" "bb_dx a", folded dst_start_def]
  have "F_dst_vars a (dst_start a) (F_dst_init a u)" for u
    unfolding F_dst_init_def Let_def by (rule F_dst_masks_vars) (simp_all add: bd next_bits)
  moreover have "dst32addr (F_dst_init a u) = dst_start a div 32" "gray_src (F_dst_init a u) = gray_src u"
    "curr_gray_line (F_dst_init a u) = curr_gray_line u" for u
    by (simp_all add: F_dst_init_def Let_def F_dst_masks_def bd)
  ultimately show ?thesis using assms
    by (simp add: some_init_def gray_src_init_def gray_at_def bb_variables_def) (simp add: F_dst_vars_def)
qed

lemma gray_code:
  assumes "bb_gray a" "bb_srcbase a = In_gray ws i" "bb_curr_gray a = i" "0 \<le> i" "i < bb_num_gray a"
    and "\<And>l. l < nat (bb_h a) \<Longrightarrow> gray_line_ok a (dst_start a + int l * bb_dstbpl a)"
  shows "shows_image (new_bitblt_code a s)
    (gray_ref (nat (bb_h a)) (bb_op a) (bb_comp a) (bb_w a) (dst_start a) (bb_sx a) (bb_dstbpl a) ws (bb_num_gray a) i (pix s))"
  unfolding new_bitblt_code_def
  by (rule gray_lines [OF assms(1) gray_init [OF assms(1-3)] assms(4,5) _ assms(6)]) (simp_all add: shows_image_def)

end
