(* ===== verification/Bitmap_Shade.thy ===== *)
theory Bitmap_Shade
  imports Bitmap_Laws BitBlt_Gray
begin

text \<open>
  Filling a region with a shade: \<open>bitshade_bitmap\<close> repeats the 4 by 4 bits of a number over the
  bitmap, aligned with its upper left corner (\<open>shade_bit\<close>), inside the clipped region only.
\<close>

section \<open>The reference as a rectangle\<close>

lemma row_pixel:
  fixes b :: int
  assumes b: "0 < b" "0 \<le> x" "x < b" "0 \<le> dx" "dx + w \<le> b"
  shows "P + r * b + x \<in> {P + j * b + dx..<P + j * b + dx + w} \<longleftrightarrow> r = j \<and> dx \<le> x \<and> x < dx + w"
proof (cases r j rule: linorder_cases)
  case less
  then have "(r + 1) * b \<le> j * b" using b by (intro mult_right_mono) auto
  then show ?thesis using less b by (auto simp: algebra_simps)
next
  case greater
  then have "(j + 1) * b \<le> r * b" using b by (intro mult_right_mono) auto
  then show ?thesis using greater b by (auto simp: algebra_simps)
qed auto

lemma next_row_mod: "0 \<le> i \<Longrightarrow> i < n \<Longrightarrow> (next_row n i + k) mod n = (i + (k + 1)) mod n"
proof -
  assume i: "0 \<le> i" "i < n"
  have "next_row n i = (i + 1) mod n" using i by (cases "i + 1 = n") (auto simp: next_row_def)
  then show ?thesis by (simp add: mod_add_left_eq add.assoc add.commute [of 1])
qed

lemma gray_ref_pixel:
  assumes b: "0 < b" "0 \<le> x" "x < b" "0 \<le> dx" "dx + w \<le> b"
  shows "0 \<le> i \<Longrightarrow> i < n \<Longrightarrow>
    gray_ref h opn c w (P + j * b + dx) sx b ws n i m (P + r * b + x) =
    (if j \<le> r \<and> r < j + int h \<and> dx \<le> x \<and> x < dx + w
     then pix_op opn c (m (P + r * b + x)) (wbit (ws ! nat ((i + (r - j)) mod n)) ((sx + (x - dx)) mod 16))
     else m (P + r * b + x))"
proof (induction h arbitrary: j i m)
  case (Suc h)
  define p m' where "p = P + r * b + x"
    and "m' = tex_on opn c (tex_bits (ws ! nat i) sx (P + j * b + dx)) {P + j * b + dx..<P + j * b + dx + w} m"
  have D: "P + j * b + dx + b = P + (j + 1) * b + dx" by (simp add: algebra_simps)
  have "gray_ref (Suc h) opn c w (P + j * b + dx) sx b ws n i m p = gray_ref h opn c w (P + (j + 1) * b + dx) sx b ws n (next_row n i) m' p"
    by (simp add: m'_def D)
  also have "\<dots> = (if j + 1 \<le> r \<and> r < j + 1 + int h \<and> dx \<le> x \<and> x < dx + w
      then pix_op opn c (m' p) (wbit (ws ! nat ((i + (r - j)) mod n)) ((sx + (x - dx)) mod 16)) else m' p)"
    using Suc.IH [of "next_row n i" "j + 1" m'] next_row_range [OF Suc.prems] next_row_mod [OF Suc.prems, of "r - (j + 1)"]
    by (simp add: p_def)
  also have "m' p = (if r = j \<and> dx \<le> x \<and> x < dx + w then pix_op opn c (m p) (wbit (ws ! nat i) ((sx + (x - dx)) mod 16)) else m p)"
    using row_pixel [OF b, of P r j] by (simp add: m'_def tex_on_def tex_bits_def p_def algebra_simps)
  finally show ?case using Suc.prems unfolding p_def by auto
qed auto

section \<open>Shades\<close>

text \<open>The bit of shade \<open>t\<close> at column \<open>x\<close> and line \<open>r\<close> from the top.\<close>

definition shade_bit :: "32 word \<Rightarrow> int \<Rightarrow> int \<Rightarrow> bool" where
  "shade_bit t x r = bit t (nat (15 - 4 * (r mod 4) - x mod 4))"

text \<open>
  The row of the shade that is shown at line \<open>r\<close>: on a byte-swapped build the rows come in the order
  1, 0, 3, 2, because the words of the texture are written through \<open>GETWORD\<close> and read without.
\<close>

definition shade_row :: "bool \<Rightarrow> int \<Rightarrow> int" where
  "shade_row swapped r = (if \<not> swapped then r mod 4 else if even r then r mod 4 + 1 else r mod 4 - 1)"

lemma shade_row_4: "0 \<le> shade_row swapped r" "shade_row swapped r < 4" "shade_row swapped r mod 4 = shade_row swapped r"
proof -
  have "r mod 4 \<in> {0, 1, 2, 3}" using pos_mod_bound [of 4 r] pos_mod_sign [of 4 r] by auto
  moreover have "even r \<longleftrightarrow> even (r mod 4)" by (simp add: dvd_mod_iff)
  ultimately show "0 \<le> shade_row swapped r" "shade_row swapped r < 4" "shade_row swapped r mod 4 = shade_row swapped r"
    by (auto simp: shade_row_def)
qed

lemma bit_expand:
  assumes "b AND 0xF = b" "n < 16"
  shows "bit (Expand4Bit b) n = bit b (n mod 4)"
proof -
  have m: "(0xF :: 32 word) = mask 4" by (simp add: mask_eq_exp_minus_1)
  have b: "bit b j \<Longrightarrow> j < 4" for j using assms(1) unfolding m by (metis bit_and_iff bit_mask_iff)
  have e: "n mod 4 = (if n < 4 then n else if n < 8 then n - 4 else if n < 12 then n - 8 else n - 12)"
    using assms(2) by (auto simp: mod_if)
  show ?thesis using assms(2) unfolding e
    by (auto simp: Expand4Bit_def bit_ucast_iff bit_or_iff bit_push_bit_iff dest: b)
qed

lemma wbit_expand:
  assumes "k + 4 \<le> 32"
  shows "wbit (Expand4Bit (drop_bit k t AND 0xF)) (x mod 16) = bit t (k + nat (3 - x mod 4))"
proof -
  have m: "(0xF :: 32 word) = mask 4" by (simp add: mask_eq_exp_minus_1)
  have "nat (15 - x mod 16) mod 4 = nat (3 - x mod 4)"
  proof -
    have "(15 - x mod 16) mod 4 = 3 - x mod 4"
    proof (rule int_mod_pos_eq [of _ _ "3 - (x mod 16) div 4"])
      have "x mod 16 mod 4 = x mod 4" by (rule mod_mod_cancel) simp
      then show "15 - x mod 16 = 4 * (3 - (x mod 16) div 4) + (3 - x mod 4)"
        using minus_mult_div_eq_mod [of "x mod 16" 4] by simp
    qed (use pos_mod_bound [of 4 x] pos_mod_sign [of 4 x] in auto)
    moreover have "0 \<le> 15 - x mod 16" using pos_mod_bound [of 16 x] by simp
    ultimately show ?thesis using nat_mod_distrib [of "15 - x mod 16" 4] by simp
  qed
  moreover have "nat (15 - x mod 16) < 16" by (simp add: nat_less_iff)
  ultimately have "wbit (Expand4Bit (drop_bit k t AND 0xF)) (x mod 16) = bit (drop_bit k t AND 0xF) (nat (3 - x mod 4))"
    by (simp add: wbit_def bit_expand)
  moreover have "nat (3 - x mod 4) < 4" by (simp add: nat_less_iff)
  ultimately show ?thesis by (simp add: m bit_and_iff bit_mask_iff bit_drop_bit_eq)
qed

text \<open>The rows of a shade. The two plain shades have only one.\<close>

lemma texture_source_shade:
  assumes "IsNumber s t" and "0 \<le> y"
  obtains ws n i where "texture_source s t y = Inr (In_gray ws i, n, i)" "0 \<le> i" "i < n"
    "\<And>k x. 0 \<le> k \<Longrightarrow> wbit (ws ! nat ((i + k) mod n)) (x mod 16) = shade_bit t x (shade_row (byteswapped s) (y + k))"
proof -
  define u where "u = t AND 0xFFFF"
  have m: "(0xFFFF :: 32 word) = mask 16" by (simp add: mask_eq_exp_minus_1)
  have lo: "bit u j = bit t j" if "j < 16" for j using that by (simp add: u_def m bit_and_iff bit_mask_iff)
  have sb: "shade_bit t x r = bit u (nat (15 - 4 * (r mod 4) - x mod 4))" for x r
    by (simp add: shade_bit_def lo nat_less_iff)
  have n: "nat (15 - 4 * (r mod 4) - x mod 4) < 16" "nat (15 - x mod 16) < 16" for r x :: int by (simp_all add: nat_less_iff)
  consider (zero) "u = 0" | (ones) "u = 0xFFFF" | (brick) "u \<noteq> 0" "u \<noteq> 0xFFFF" by blast
  then show thesis
  proof cases
    case zero
    then show thesis using that [of "[0, 0, 0, 0]" 0 1] assms(1)
      by (simp add: texture_source_def Let_def u_def [symmetric] white_shade_def wbit_def sb)
  next
    case ones
    have "(0xFFFF :: DLword) = - 1" by simp
    then have "bit (0xFFFF :: DLword) j" if "j < 16" for j using that by (simp only: bit_minus_1_iff) simp
    moreover have "bit u j" if "j < 16" for j using that by (simp add: ones m bit_mask_iff)
    ultimately show thesis using that [of "[0xFFFF, 0, 0, 0]" 0 1] assms(1) ones n
      by (simp add: texture_source_def Let_def u_def [symmetric] wbit_def sb)
  next
    case brick
    have row: "gray_words s u ! nat ((y mod 4 + k) mod 4) =
        Expand4Bit (drop_bit (nat (12 - 4 * shade_row (byteswapped s) (y + k))) u AND 0xF)" for k
    proof -
      define q where "q = (y + k) mod 4"
      have ev: "even (y + k) \<longleftrightarrow> even q" by (simp add: q_def dvd_mod_iff)
      have "q \<in> {0, 1, 2, 3}" using pos_mod_bound [of 4 "y + k"] pos_mod_sign [of 4 "y + k"] by (auto simp: q_def)
      then show ?thesis unfolding mod_add_left_eq shade_row_def ev q_def [symmetric] by (auto simp: gray_words_def Let_def)
    qed
    have "wbit (gray_words s u ! nat ((y mod 4 + k) mod 4)) (x mod 16) = shade_bit t x (shade_row (byteswapped s) (y + k))" for k x
    proof -
      define q where "q = shade_row (byteswapped s) (y + k)"
      have q: "0 \<le> q" "q < 4" "q mod 4 = q" by (simp_all add: q_def shade_row_4)
      have "nat (12 - 4 * q) + nat (3 - x mod 4) = nat (15 - 4 * q - x mod 4)"
        using q pos_mod_bound [of 4 x] by (simp add: nat_add_distrib [symmetric])
      then show ?thesis unfolding row sb q_def [symmetric] using q by (subst wbit_expand) (simp_all add: nat_le_iff)
    qed
    then show thesis using that [of "gray_words s u" "y mod 4" 4] assms(1) brick(1,2)
      by (simp add: texture_source_def Let_def u_def [symmetric])
  qed
qed

section \<open>\<open>bitshade_bitmap\<close>\<close>

definition opt_coord :: "vm \<Rightarrow> LispPTR \<Rightarrow> int option \<Rightarrow> bool" where
  "opt_coord s x W \<longleftrightarrow> (if x = NIL then W = None else (\<exists>n. coord_is s x n \<and> W = Some n))"

definition limit_of :: "int \<Rightarrow> int option \<Rightarrow> int \<Rightarrow> int" where
  "limit_of from W limit = (case W of None \<Rightarrow> limit | Some n \<Rightarrow> min limit (from + n))"

lemma opt_limit_is: "opt_coord s x W \<Longrightarrow> coord from \<Longrightarrow> opt_limit s x from limit k = k (limit_of from W limit)"
  by (auto simp: opt_coord_def opt_limit_def limit_of_def num_arg_is coord_sums(1) [OF _ coord_is_coord] split: if_splits)

definition shaded_region :: "region \<Rightarrow> int \<Rightarrow> int \<Rightarrow> int option \<Rightarrow> int option \<Rightarrow> region" where
  "shaded_region C dl db W H = clip_to dl db (limit_of dl W (rg_right C)) (limit_of db H (rg_top C)) C"

lemma log_if_same [simp]: "mem (log_if b msg s) = mem s" "gc (log_if b msg s) = gc s" "byteswapped (log_if b msg s) = byteswapped s"
  by (simp_all add: log_if_def log_error_def)

lemma shade_checks_same [simp]:
  "mem (shade_checks s bm R) = mem s" "gc (shade_checks s bm R) = gc s" "byteswapped (shade_checks s bm R) = byteswapped s"
  by (simp_all add: shade_checks_def Let_def)

lemma reads_same:
  assumes "mem s' = mem s" "gc s' = gc s" "byteswapped s' = byteswapped s"
  shows "bmbase s' bm = bmbase s bm" "bmheight s' bm = bmheight s bm" "bmrasterwidth s' bm = bmrasterwidth s bm"
    "raster_line s' bm y = raster_line s bm y" "IsNumber s' t = IsNumber s t" "GetTypeNumber s' t = GetTypeNumber s t"
    "texture_source s' t y = texture_source s t y" "pix s' p = pix s p"
  using assms by (simp_all add: bmbase_def bmheight_def bmrasterwidth_def raster_line_def IsNumber_def GetTypeNumber_def
      GetTypeEntry_def texture_source_def gray_words_def pix_def rdc_def rd_def Let_def cong: if_cong)

lemma smod_16: "0 \<le> x \<Longrightarrow> x smod 16 = x mod 16" for x :: int
  by (cases "x = 0") (simp_all add: signed_modulo_int_def sgn_if)

lemma shade_region_pixels:
  assumes ok: "bitmap_ok s dst" and R: "region_fits s dst R" "\<not> empty_region R"
    and tex: "IsNumber s t" "GetTypeNumber s t \<noteq> TYPE_LITATOM"
  shows "\<exists>s'. shade_region E t dst operation R s = Inr s' \<and>
    (\<forall>x y. in_region (whole_bitmap s dst) x y \<longrightarrow> pixel s dst (pix s') x y =
       (if in_region R x y
        then pix_op (bbop E operation) (bbsrc_type E 0 operation) (pixel s dst (pix s) x y)
               (shade_bit t x (shade_row (byteswapped s) (bmheight s dst - 1 - y)))
        else pixel s dst (pix s) x y)) \<and>
    (\<forall>p. 0 \<le> p \<and> p < LAST_BIT \<and> p \<notin> bits_of s dst \<longrightarrow> pix s' p = pix s p)"
proof -
  define w h l dty where "w = rg_right R - rg_left R" and "h = rg_top R - rg_bottom R"
    and "l = rg_left R" and "dty = bmheight s dst - rg_top R"
  define b where "b = bm_bpl s dst"
  have ad: "area_ok s dst l dty w h" using region_area [OF ok R] by (simp add: w_def h_def l_def dty_def)
  then have g: "0 < b" "0 \<le> l" "l + w \<le> b" "0 < w" "0 < h" "0 \<le> dty" "dty < bmheight s dst"
    by (auto simp: area_ok_def b_def)
  obtain ws n i where src: "texture_source s t dty = Inr (In_gray ws i, n, i)" "0 \<le> i" "i < n"
    "\<And>k x. 0 \<le> k \<Longrightarrow> wbit (ws ! nat ((i + k) mod n)) (x mod 16) = shade_bit t x (shade_row (byteswapped s) (dty + k))"
    using texture_source_shade [OF tex(1) g(6)] by metis
  define opn c where "opn = bbop E operation" and "c = bbsrc_type E 0 operation"
  define a where "a = shade_args s (In_gray ws i, n, i) dst (l smod 16) l dty w h opn c"
  have run: "shade_region E t dst operation R s = Inr (new_bitblt_code a s)"
    using tex(2) src(1) by (simp add: shade_region_def Let_def a_def w_def h_def l_def dty_def opn_def c_def)
  have f: "bb_gray a" "bb_srcbase a = In_gray ws i" "bb_curr_gray a = i" "bb_num_gray a = n" "bb_w a = w" "bb_h a = h"
    "bb_op a = opn" "bb_comp a = c" "bb_dstbpl a = b" "bb_sx a = l mod 16"
    using g by (simp_all add: a_def shade_args_def b_def bm_bpl_def smod_16)
  have st: "dst_start a = bm_start s dst + dty * b + l"
    using raster_line_start [of s dst dty] ok g by (simp add: a_def shade_args_def dst_start_def b_def bit_at_def)
  have rows: "bm_start s dst + dty * b + l + j * b = bit_at s dst l (dty + j)" for j
    by (simp add: bit_at_def b_def algebra_simps)
  have lines: "gray_line_ok a (dst_start a + int j * bb_dstbpl a)" if "j < nat (bb_h a)" for j
    using area_line [OF ad, of "int j"] that g unfolding st f rows
    by (simp add: gray_line_ok_def f in_memory_def opn_def bbop_4)
  have im: "shows_image (new_bitblt_code a s)
      (gray_ref (nat h) opn c w (bm_start s dst + dty * b + l) (l mod 16) b ws n i (pix s))"
    using gray_code [OF f(1-3) src(2) _ lines] src(3) unfolding st f by simp
  have px: "gray_ref (nat h) opn c w (bm_start s dst + dty * b + l) (l mod 16) b ws n i (pix s) (bm_start s dst + r * b + x) =
      (if dty \<le> r \<and> r < dty + h \<and> l \<le> x \<and> x < l + w
       then pix_op opn c (pix s (bm_start s dst + r * b + x)) (shade_bit t x (shade_row (byteswapped s) r)) else pix s (bm_start s dst + r * b + x))"
    if "0 \<le> x" "x < b" for r x
  proof -
    have "wbit (ws ! nat ((i + (r - dty)) mod n)) ((l mod 16 + (x - l)) mod 16) = shade_bit t x (shade_row (byteswapped s) r)" if "dty \<le> r"
      using src(4) [of "r - dty" x] that by (simp add: mod_add_left_eq)
    then show ?thesis using gray_ref_pixel [OF g(1) that g(2,3) src(2,3), of "nat h"] g(5) by simp
  qed
  have inside: "pixel s dst (pix (new_bitblt_code a s)) x y =
     (if in_region R x y then pix_op opn c (pixel s dst (pix s) x y) (shade_bit t x (shade_row (byteswapped s) (bmheight s dst - 1 - y)))
      else pixel s dst (pix s) x y)" if xy: "in_region (whole_bitmap s dst) x y" for x y
  proof -
    have xy': "0 \<le> x" "x < bmwidth s dst" "0 \<le> y" "y < bmheight s dst" using xy by (auto simp: in_region_def whole_bitmap_def)
    then have xb: "x < b" using ok by (auto simp: bitmap_ok_def b_def)
    define r where "r = bmheight s dst - 1 - y"
    have "area_ok s dst x 0 1 (bmheight s dst)" using xy' xb ok by (auto simp: area_ok_def b_def)
    from area_line [OF this, of r] have "0 \<le> bit_at s dst x r" "bit_at s dst x r < LAST_BIT" using xy' by (auto simp: r_def)
    then have "pixel s dst (pix (new_bitblt_code a s)) x y =
        gray_ref (nat h) opn c w (bm_start s dst + dty * b + l) (l mod 16) b ws n i (pix s) (bm_start s dst + r * b + x)"
      using im by (simp add: shows_image_def pixel_def r_def bit_at_def b_def)
    also note px [OF xy'(1) xb, of r]
    also have "(dty \<le> r \<and> r < dty + h \<and> l \<le> x \<and> x < l + w) = in_region R x y"
      by (auto simp: in_region_def dty_def r_def h_def w_def l_def)
    finally show ?thesis by (simp add: pixel_def r_def bit_at_def b_def)
  qed
  have "pix (new_bitblt_code a s) p = pix s p" if p: "0 \<le> p" "p < LAST_BIT" "p \<notin> bits_of s dst" for p
  proof -
    define r x where "r = (p - bm_start s dst) div b" and "x = (p - bm_start s dst) mod b"
    have x: "0 \<le> x" "x < b" using g(1) by (simp_all add: x_def)
    have e: "p = bm_start s dst + r * b + x" using div_mult_mod_eq [of "p - bm_start s dst" b] by (simp add: r_def x_def)
    have "\<not> (dty \<le> r \<and> r < dty + h \<and> l \<le> x \<and> x < l + w)"
    proof
      assume q: "dty \<le> r \<and> r < dty + h \<and> l \<le> x \<and> x < l + w"
      then have "bit_at s dst l r \<le> p" "p < bit_at s dst l r + w" by (simp_all add: e bit_at_def b_def)
      then show False using area_line [OF ad, of "r - dty"] q p(3) by (auto simp: bits_of_def)
    qed
    then have "gray_ref (nat h) opn c w (bm_start s dst + dty * b + l) (l mod 16) b ws n i (pix s) p = pix s p"
      using px [OF x, of r] unfolding e by (simp only: if_False)
    then show ?thesis using im p(1,2) by (simp add: shows_image_def)
  qed
  with inside show ?thesis by (auto simp: run opn_def c_def)
qed

lemma bitshade_bitmap_run:
  assumes "bmbitperpixel s (lisp_arg s args 1) = 1"
    and "GetTypeNumber s (lisp_arg s args 0) \<notin> {TYPE_LITATOM, TYPE_LISTP}"
    and n: "coord_is s (lisp_arg s args 2) dl" "coord_is s (lisp_arg s args 3) db"
    and "opt_coord s (lisp_arg s args 4) W" "opt_coord s (lisp_arg s args 5) H"
    and "clips s (lisp_arg s args 7) (whole_bitmap s (lisp_arg s args 1)) C"
  shows "bitshade_bitmap E args s =
    (let R = shaded_region C dl db W H
     in if empty_region R then Inr (Blt_done (NIL, s))
        else rbind (shade_region E (lisp_arg s args 0) (lisp_arg s args 1) (lisp_arg s args 6) R
                      (shade_checks s (lisp_arg s args 1) R)) (\<lambda>s'. Inr (Blt_done (ATOM_T, s'))))"
  using assms(1,2)
  by (simp add: bitshade_bitmap_def Let_def n [THEN num_arg_is] clips_region [OF assms(7)]
      opt_limit_is [OF assms(5) n(1) [THEN coord_is_coord]] opt_limit_is [OF assms(6) n(2) [THEN coord_is_coord]] shaded_region_def del: One_nat_def)

text \<open>The pixels to be shaded.\<close>

definition shaded :: "region \<Rightarrow> int \<Rightarrow> int \<Rightarrow> int option \<Rightarrow> int option \<Rightarrow> int \<Rightarrow> int \<Rightarrow> bool" where
  "shaded C dl db W H x y \<longleftrightarrow>
     in_region C x y \<and> dl \<le> x \<and> db \<le> y \<and> (\<forall>n. W = Some n \<longrightarrow> x < dl + n) \<and> (\<forall>n. H = Some n \<longrightarrow> y < db + n)"

lemma in_shaded_region: "in_region (shaded_region C dl db W H) x y = shaded C dl db W H x y"
  unfolding shaded_region_def in_clip_to shaded_def by (cases W; cases H) (auto simp: limit_of_def in_region_def)

lemma shade_region_same:
  assumes "mem s' = mem s" "gc s' = gc s" "byteswapped s' = byteswapped s"
  shows "bits_of s' bm = bits_of s bm" "pixel s' bm m x y = pixel s bm m x y" "whole_bitmap s' bm = whole_bitmap s bm"
    "bitmap_ok s' bm = bitmap_ok s bm" "region_fits s' bm R = region_fits s bm R"
  using assms by (simp_all add: bits_of_def bm_start_def bm_bpl_def pixel_def bit_at_def whole_bitmap_def bitmap_ok_def region_fits_def
      bmbase_def bmheight_def bmrasterwidth_def bmwidth_def rd_def)

text \<open>C30. \<open>BLTSHADE\<close> with a number as the texture: every pixel of the bitmap inside the clipping region and
  the rectangle gets the combination with the bit of the 4 by 4 shade at its place, counted from the upper
  left corner of the bitmap; all other pixels and all memory outside the bitmap keep their bits. On a
  byte-swapped build the rows of the shade come out in the order 1, 0, 3, 2 (\<open>shade_row\<close>), because
  \<open>do_src_gray_setup\<close> of \<open>inc/bb.h\<close> reads them without \<open>GETWORD\<close>. The coordinates and sizes are below
  \<open>2 ^ 28\<close> in absolute value, so that their sums fit a C \<open>int\<close>.\<close>

theorem bitshade_bitmap_pixels:
  assumes "bmbitperpixel s (lisp_arg s args 1) = 1" and "bitmap_ok s (lisp_arg s args 1)"
    and "GetTypeNumber s (lisp_arg s args 0) \<notin> {TYPE_LITATOM, TYPE_LISTP}" and "IsNumber s (lisp_arg s args 0)"
    and "coord_is s (lisp_arg s args 2) dl" and "coord_is s (lisp_arg s args 3) db"
    and "opt_coord s (lisp_arg s args 4) W" and "opt_coord s (lisp_arg s args 5) H"
    and "clips s (lisp_arg s args 7) (whole_bitmap s (lisp_arg s args 1)) C"
  shows "\<exists>r s'. bitshade_bitmap E args s = Inr (Blt_done (r, s')) \<and>
    (\<forall>x y. in_region (whole_bitmap s (lisp_arg s args 1)) x y \<longrightarrow>
       pixel s (lisp_arg s args 1) (pix s') x y =
        (if shaded C dl db W H x y
         then pix_op (bbop E (lisp_arg s args 6)) (bbsrc_type E 0 (lisp_arg s args 6))
                (pixel s (lisp_arg s args 1) (pix s) x y)
                (shade_bit (lisp_arg s args 0) x (shade_row (byteswapped s) (bmheight s (lisp_arg s args 1) - 1 - y)))
         else pixel s (lisp_arg s args 1) (pix s) x y)) \<and>
    (\<forall>p. 0 \<le> p \<and> p < LAST_BIT \<and> p \<notin> bits_of s (lisp_arg s args 1) \<longrightarrow> pix s' p = pix s p)"
proof -
  define R where "R = shaded_region C dl db W H"
  note run = bitshade_bitmap_run [OF assms(1,3,5-9), of E, folded R_def, unfolded Let_def]
  show ?thesis
  proof (cases "empty_region R")
    case True
    have "\<not> shaded C dl db W H x y" for x y
      using True by (auto simp: in_shaded_region [symmetric] empty_region_def in_region_def R_def)
    then show ?thesis using run True by simp
  next
    case False
    have fits: "region_fits s (lisp_arg s args 1) R"
      using clips_fits [OF whole_fits assms(9)] by (simp add: R_def shaded_region_def fits_clip_to)
    define s1 where "s1 = shade_checks s (lisp_arg s args 1) R"
    have same: "mem s1 = mem s" "gc s1 = gc s" "byteswapped s1 = byteswapped s" by (simp_all add: s1_def)
    note sm = reads_same [OF same] shade_region_same [OF same]
    obtain s' where s': "shade_region E (lisp_arg s args 0) (lisp_arg s args 1) (lisp_arg s args 6) R s1 = Inr s'"
      "\<forall>x y. in_region (whole_bitmap s (lisp_arg s args 1)) x y \<longrightarrow> pixel s (lisp_arg s args 1) (pix s') x y =
         (if in_region R x y
          then pix_op (bbop E (lisp_arg s args 6)) (bbsrc_type E 0 (lisp_arg s args 6))
                 (pixel s (lisp_arg s args 1) (pix s1) x y)
                 (shade_bit (lisp_arg s args 0) x (shade_row (byteswapped s) (bmheight s (lisp_arg s args 1) - 1 - y)))
          else pixel s (lisp_arg s args 1) (pix s1) x y)"
      "\<forall>p. 0 \<le> p \<and> p < LAST_BIT \<and> p \<notin> bits_of s (lisp_arg s args 1) \<longrightarrow> pix s' p = pix s p"
      using shade_region_pixels [of s1 "lisp_arg s args 1" R "lisp_arg s args 0" E "lisp_arg s args 6"] assms(2-4) fits False
      unfolding sm by (auto simp: same)
    have "pix s1 = pix s" by (rule ext) (rule sm)
    moreover have "in_region R x y = shaded C dl db W H x y" for x y by (simp add: R_def in_shaded_region)
    moreover have "bitshade_bitmap E args s = Inr (Blt_done (ATOM_T, s'))"
      using run False s'(1) unfolding s1_def by simp
    ultimately show ?thesis using s'(2,3) by simp
  qed
qed

text \<open>The grey 0x8421 over a corner of a bitmap of 20 times 4 pixels.\<close>

definition vm_shade :: vm where
  "vm_shade = vm0\<lparr>mem := (\<lambda>_. 0)(0x40000 := 0x50000, 0x40002 := 0x00020004, 0x40004 := 0x00140001,
     0x11000 := 0xE8421, 0x11002 := 0x40000, 0x11004 := 0xE0001, 0x11006 := 0xE0000, 0x11008 := 0xE0004),
     gc := gctab0\<lparr>mds_typetbl := (\<lambda>_. 0x1001)\<rparr>\<rparr>"

theorem bitshade_bitmap_pixels_witness:
  "\<exists>r s'. bitshade_bitmap env_blt 0x11000 vm_shade = Inr (Blt_done (r, s')) \<and>
     pixel vm_shade 0x40000 (pix s') 4 3 \<and> \<not> pixel vm_shade 0x40000 (pix s') 3 3"
proof -
  have a: "lisp_arg vm_shade 0x11000 0 = 0xE8421" "lisp_arg vm_shade 0x11000 1 = 0x40000"
    "lisp_arg vm_shade 0x11000 (Suc 0) = 0x40000" "lisp_arg vm_shade 0x11000 2 = 0xE0001"
    "lisp_arg vm_shade 0x11000 3 = 0xE0000" "lisp_arg vm_shade 0x11000 4 = 0xE0004" "lisp_arg vm_shade 0x11000 5 = 0"
    "lisp_arg vm_shade 0x11000 6 = 0" "lisp_arg vm_shade 0x11000 7 = 0"
    "bmbase vm_shade 0x40000 = 0x50000" "bmrasterwidth vm_shade 0x40000 = 2" "bmheight vm_shade 0x40000 = 4"
    "bmwidth vm_shade 0x40000 = 20" "bmbitperpixel vm_shade 0x40000 = 1" "\<not> byteswapped vm_shade"
    by (simp_all add: lisp_arg_def vm_shade_def rd_def getcell_def bmbase_def bmrasterwidth_def bmheight_def bmwidth_def
        bmbitperpixel_def getword_def cell_of_def hi_word_def lo_word_def vm0_def)
  have t: "GetTypeNumber vm_shade 0xE8421 \<notin> {TYPE_LITATOM, TYPE_LISTP}" "IsNumber vm_shade 0xE8421"
    by (simp_all add: GetTypeNumber_def GetTypeEntry_def IsNumber_def vm_shade_def type_defs)
  have n: "coord_is vm_shade 0xE0001 1" "coord_is vm_shade 0xE0000 0" "coord_is vm_shade 0xE0004 4"
    by (simp_all add: coord_is_def coord_def N_GETNUMBER_def SEGMASK_def S_POSITIVE_def)
  have o: "opt_coord vm_shade 0xE0004 (Some 4)" "opt_coord vm_shade 0 None"
    "clips vm_shade 0 (whole_bitmap vm_shade 0x40000) (whole_bitmap vm_shade 0x40000)" "bitmap_ok vm_shade 0x40000"
    using n by (simp_all add: opt_coord_def clips_def NIL_def bitmap_ok_def bm_bpl_def bm_start_def a LAST_BIT_def)
  obtain r s' where "bitshade_bitmap env_blt 0x11000 vm_shade = Inr (Blt_done (r, s'))"
    and px: "\<And>x y. in_region (whole_bitmap vm_shade 0x40000) x y \<Longrightarrow> pixel vm_shade 0x40000 (pix s') x y =
        (if shaded (whole_bitmap vm_shade 0x40000) 1 0 (Some 4) None x y
         then pix_op (bbop env_blt 0) (bbsrc_type env_blt 0 0) (pixel vm_shade 0x40000 (pix vm_shade) x y)
                (shade_bit 0xE8421 x (shade_row False (3 - y)))
         else pixel vm_shade 0x40000 (pix vm_shade) x y)"
    using bitshade_bitmap_pixels [of vm_shade "0x11000" 1 0 "Some 4" None "whole_bitmap vm_shade 0x40000" env_blt] a t n o
    by auto
  then show ?thesis
    using px [of 4 3] px [of 3 3]
    by (auto simp: in_region_def whole_bitmap_def a shaded_def bbop_def bbsrc_type_def env_blt_def pix_op_def shade_bit_def shade_row_def)
qed

end
