(* ===== verification/Drawing.thy ===== *)
theory Drawing
  imports Stack_Space "HOL-Library.Signed_Division"
begin

text \<open>
  The opcodes that move words and draw single dots: \<open>N_OP_blt\<close> (\<open>src/blt.c\<close>),
  \<open>N_OP_drawline\<close> (\<open>src/draw.c\<close>) and \<open>N_OP_misc7\<close> (\<open>src/misc7.c\<close>), with
  what they promise. The display is not modelled, so the flushing of the changed region at the end of
  each is left out.
\<close>

section \<open>\<open>BLT\<close>\<close>

definition N_OP_blt :: "LispPTR \<Rightarrow> LispPTR \<Rightarrow> LispPTR \<Rightarrow> vm \<Rightarrow> (LispPTR \<times> vm) res" where
  "N_OP_blt destptr sourceptr wordcount s =
     (if wordcount AND SEGMASK \<noteq> S_POSITIVE then Inl (Ufn wordcount)
      else Inr (wordcount, blt destptr sourceptr (unat (wordcount AND 0xFFFF)) s))"

section \<open>\<open>DRAWLINE\<close>\<close>

text \<open>
  The three operations on a dot; for the number 3 the switch has no case. \<open>curbit\<close>
  is a mask of one bit, or 0 when the dot has left the word.
\<close>

definition dot :: "32 word \<Rightarrow> LispPTR \<Rightarrow> DLword \<Rightarrow> vm \<Rightarrow> vm" where
  "dot op p curbit s =
     (let w = getword (mem s) p
      in setword p (if op = 0 then w OR curbit else if op = 1 then w AND NOT curbit else w XOR curbit) s)"

text \<open>The loops of the two octants; both end when one of the counters is 0.\<close>

primrec drawline_x ::
  "32 word \<Rightarrow> int \<Rightarrow> int \<Rightarrow> 32 word \<Rightarrow> nat \<Rightarrow> nat \<Rightarrow> int \<Rightarrow> DLword \<Rightarrow> LispPTR \<Rightarrow> vm \<Rightarrow> vm" where
  "drawline_x op xsize ysize width 0 numy delta curbit p s = s"
| "drawline_x op xsize ysize width (Suc numx) numy delta curbit p s =
     (if numy = 0 then s
      else
        (let (bit1, p1) = (if curbit = 0 then (0x8000, p + 1) else (curbit, p));
             s1 = dot op p1 bit1 s; delta1 = delta - ysize; bit2 = drop_bit 1 bit1
         in if delta1 < 0
            then drawline_x op xsize ysize width numx (numy - 1) (delta1 + xsize) bit2 (p1 + width) s1
            else drawline_x op xsize ysize width numx numy delta1 bit2 p1 s1))"

primrec drawline_y ::
  "32 word \<Rightarrow> int \<Rightarrow> int \<Rightarrow> 32 word \<Rightarrow> nat \<Rightarrow> nat \<Rightarrow> int \<Rightarrow> DLword \<Rightarrow> LispPTR \<Rightarrow> vm \<Rightarrow> vm" where
  "drawline_y op xsize ysize width numx 0 delta curbit p s = s"
| "drawline_y op xsize ysize width numx (Suc numy) delta curbit p s =
     (if numx = 0 then s
      else
        (let s1 = dot op p curbit s; delta1 = delta - xsize; p1 = p + width; bit1 = drop_bit 1 curbit
         in if delta1 < 0
            then (if bit1 = 0
                  then drawline_y op xsize ysize width (numx - 1) numy (delta1 + ysize) 0x8000 (p1 + 1) s1
                  else drawline_y op xsize ysize width (numx - 1) numy (delta1 + ysize) bit1 p1 s1)
            else drawline_y op xsize ysize width numx numy delta1 curbit p1 s1))"

text \<open>The words from one raster line to the next, a small number.\<close>

definition raster_words :: "32 word \<Rightarrow> 32 word option" where
  "raster_words width =
     (if SEGMASK AND width = S_POSITIVE then Some (width AND 0xFFFF)
      else if SEGMASK AND width = S_NEGATIVE then Some (width OR 0xFFFF0000)
      else None)"

text \<open>C leaves a shift by 32 or more undefined; from 16 on the mask is 0.\<close>

definition N_OP_drawline ::
  "LispPTR \<Rightarrow> 32 word \<Rightarrow> 32 word \<Rightarrow> 32 word \<Rightarrow> 32 word \<Rightarrow> 32 word \<Rightarrow> 32 word \<Rightarrow> 32 word \<Rightarrow> 32 word \<Rightarrow> vm \<Rightarrow>
   (LispPTR \<times> vm) res" where
  "N_OP_drawline ptr curbit xsize0 width ysize0 op0 delta0 numx0 numy0 s =
     (let low = (\<lambda>x :: 32 word. x AND 0xFFFF);
          op = op0 AND 3; numx = unat (low numx0); numy = unat (low numy0);
          xsize = uint (low xsize0); ysize = uint (low ysize0); delta = uint (low delta0);
          shift = unat (low curbit); mask0 = drop_bit shift 0x8000
      in case raster_words width of None \<Rightarrow> Inl (Ufn numy0)
         | Some w \<Rightarrow>
             if shift \<ge> 32 then Inl (Fatal ''shift by the width of the type'')
             else if op = 3 then Inr (0, s)
             else if xsize > ysize
             then Inr (0, drawline_x op xsize ysize w numx numy (xsize - delta - 1) mask0 ptr s)
             else Inr (0, drawline_y op xsize ysize w numx numy (ysize - delta - 1) mask0 ptr s))"

section \<open>\<open>MISC7\<close>\<close>

text \<open>One bit of a bitmap is read, and cleared, set or inverted. \<open>n\<close> are the five numbers.\<close>

definition fbitmapbit :: "LispPTR \<Rightarrow> int \<Rightarrow> int \<Rightarrow> int \<Rightarrow> int \<Rightarrow> int \<Rightarrow> vm \<Rightarrow> LispPTR \<times> vm" where
  "fbitmapbit base x y operation heightminus1 rasterwidth s =
     (let offset = word_of_int (rasterwidth * (heightminus1 - y) + x sdiv 16);
          bmmask = drop_bit (nat (x mod 16)) (0x8000 :: DLword);
          bmdata = getword (mem s) (base + offset);
          new = (if operation = 0 then bmdata XOR bmmask
                 else if operation = 1 then bmdata AND NOT bmmask
                 else if operation = 2 then bmdata else bmdata OR bmmask)
      in (S_POSITIVE OR (if bmdata AND bmmask = 0 then 0 else 1), setword (base + offset) new s))"

definition N_OP_misc7 ::
  "LispPTR \<Rightarrow> LispPTR \<Rightarrow> LispPTR \<Rightarrow> LispPTR \<Rightarrow> LispPTR \<Rightarrow> LispPTR \<Rightarrow> LispPTR \<Rightarrow> int \<Rightarrow> vm \<Rightarrow> (LispPTR \<times> vm) res" where
  "N_OP_misc7 arg1 arg2 arg3 arg4 arg5 arg6 arg7 alpha s =
     (if alpha \<noteq> 1 then Inl (Ufn arg7)
      else case (N_GETNUMBER s arg2, N_GETNUMBER s arg3, N_GETNUMBER s arg4, N_GETNUMBER s arg5, N_GETNUMBER s arg6) of
             (Some x, Some y, Some operation, Some heightminus1, Some rasterwidth) \<Rightarrow>
               Inr (fbitmapbit arg1 (sint x) (sint y) (sint operation) (sint heightminus1) (sint rasterwidth) s)
           | _ \<Rightarrow> Inl (Ufn arg7))"

end
