(* ===== verification/Drawing_Laws.thy ===== *)
theory Drawing_Laws
  imports Drawing Stack_Blocks
begin

text \<open>
  What the opcodes of \<open>Drawing\<close> promise: \<open>DRAWLINE\<close> visits exactly the points of the
  digital line, whatever the octant, and \<open>BLT\<close> moves a block of words as it was before the call.
\<close>

section \<open>The digital line\<close>

text \<open>
  The points of a line relative to its start. One coordinate counts the steps, the other is the height of
  the line over it, rounded down; \<open>d\<close> shifts the line by a part of a step. A point is left out
  when one of the two numbers of steps is used up.
\<close>

definition line_points :: "nat \<Rightarrow> nat \<Rightarrow> nat \<Rightarrow> nat \<Rightarrow> nat \<Rightarrow> (nat \<times> nat) list" where
  "line_points X Y d numx numy =
     (if X > Y then map (\<lambda>i. (i, (i * Y + d) div X)) (filter (\<lambda>i. (i * Y + d) div X < numy) [0..<numx])
      else map (\<lambda>i. ((i * X + d) div Y, i)) (filter (\<lambda>i. (i * X + d) div Y < numx) [0..<numy]))"

text \<open>The dot of a point, \<open>b\<close> pixels to the right of the first of \<open>ptr\<close>.\<close>

definition dot_mask :: "nat \<Rightarrow> DLword" where "dot_mask k = drop_bit (k mod 16) 0x8000"
definition dot_place :: "LispPTR \<Rightarrow> 32 word \<Rightarrow> nat \<Rightarrow> nat \<Rightarrow> LispPTR" where
  "dot_place ptr width k y = ptr + width * of_nat y + of_nat (k div 16)"
definition line_dot :: "32 word \<Rightarrow> LispPTR \<Rightarrow> 32 word \<Rightarrow> nat \<Rightarrow> nat \<times> nat \<Rightarrow> vm \<Rightarrow> vm" where
  "line_dot op ptr width b xy = dot op (dot_place ptr width (b + fst xy) (snd xy)) (dot_mask (b + fst xy))"

lemma dot_mask_nz: "dot_mask k \<noteq> 0"
proof -
  have "bit (0x8000 :: DLword) 15" by simp
  then have "bit (dot_mask k) (15 - k mod 16)" by (simp add: dot_mask_def bit_drop_bit_eq)
  then show ?thesis by (auto simp del: bit_0)
qed

lemma dot_mask_next: "drop_bit 1 (dot_mask k) = (if k mod 16 = 15 then 0 else dot_mask (Suc k))"
proof (cases "k mod 16 = 15")
  case False
  then have "Suc k mod 16 = Suc (k mod 16)" by (simp add: mod_Suc)
  then show ?thesis using False by (simp add: dot_mask_def drop_bit_drop_bit del: drop_bit_eq_div drop_bit_Suc)
qed (simp add: dot_mask_def drop_bit_drop_bit del: drop_bit_Suc)

text \<open>One pixel to the right, or one line down.\<close>

lemma dot_place_right:
  "dot_place ptr w (Suc k) y = (if k mod 16 = 15 then dot_place ptr w k y + 1 else dot_place ptr w k y)"
proof -
  have "Suc k div 16 = (if k mod 16 = 15 then Suc (k div 16) else k div 16)" by (simp add: div_Suc mod_Suc)
  then show ?thesis by (simp add: dot_place_def)
qed

lemma dot_place_down: "dot_place ptr w k (Suc y) = dot_place ptr w k y + w" by (simp add: dot_place_def algebra_simps)

text \<open>The height of the line and the error term of the loops.\<close>

lemma line_rise:
  fixes X Y d i :: nat
  assumes "Y \<le> X" "0 < X"
  defines "k \<equiv> \<lambda>i. (i * Y + d) div X"
  defines "e \<equiv> \<lambda>i. (int (k i) + 1) * int X - int i * int Y - int d - 1"
  shows "0 \<le> e i" "e (Suc i) = (if e i - int Y < 0 then e i - int Y + int X else e i - int Y)"
    "k (Suc i) = (if e i - int Y < 0 then Suc (k i) else k i)"
proof -
  have q: "k i * X + (i * Y + d) mod X = i * Y + d" "(i * Y + d) mod X < X" for i using assms(2) by (simp_all add: k_def)
  have e: "e i = int X - 1 - int ((i * Y + d) mod X)" for i
    using arg_cong [OF q(1) [of i], of int] by (simp add: e_def algebra_simps)
  show "0 \<le> e i" using q(2) [of i] by (simp add: e)
  define r where "r = (i * Y + d) mod X"
  have r: "r < X" "k i * X + (r + Y) = Suc i * Y + d" using q [of i] by (simp_all add: r_def)
  have "k (Suc i) = k i + (r + Y) div X" unfolding k_def using r(2) assms(2) by (metis div_mult_self3 k_def not_gr0)
  moreover have "(Suc i * Y + d) mod X = (r + Y) mod X" using r(2) by (metis mod_mult_self3)
  moreover have "(r + Y) div X = (if X \<le> r + Y then 1 else 0)" "(r + Y) mod X = (if X \<le> r + Y then r + Y - X else r + Y)"
    using r(1) assms(1) by (simp_all add: div_if [of "r + Y"] mod_if [of "r + Y"])
  moreover have "e i - int Y < 0 \<longleftrightarrow> X \<le> r + Y" using r(1) by (auto simp: e r_def [symmetric])
  ultimately show "k (Suc i) = (if e i - int Y < 0 then Suc (k i) else k i)"
    "e (Suc i) = (if e i - int Y < 0 then e i - int Y + int X else e i - int Y)"
    by (auto simp: e r_def [symmetric])
qed

lemma line_mono: "i \<le> j \<Longrightarrow> (i * Y + d) div X \<le> (j * Y + d) div X" for X Y d :: nat
  by (simp add: div_le_mono)

section \<open>The loops\<close>

definition x_steps :: "nat \<Rightarrow> nat \<Rightarrow> nat \<Rightarrow> nat \<Rightarrow> nat list \<Rightarrow> nat list" where
  "x_steps X Y d limit is = filter (\<lambda>i. (i * Y + d) div X < limit) is"

lemma drawline_x_dots:
  fixes X Y d :: nat and i n numy :: nat
  defines "k \<equiv> \<lambda>i. (i * Y + d) div X"
  assumes "Y \<le> X" "0 < X" "k i \<le> numy"
    "(if c = 0 then (0x8000, p + 1) else (c, p)) = (dot_mask (b + i), dot_place ptr w (b + i) (k i))"
  shows "drawline_x op (int X) (int Y) w n (numy - k i) ((int (k i) + 1) * int X - int i * int Y - int d - 1) c p s =
    fold (\<lambda>i. line_dot op ptr w b (i, k i)) (filter (\<lambda>i. k i < numy) [i..<i + n]) s"
  using assms(4,5)
proof (induction n arbitrary: i c p s)
  case (Suc n)
  show ?case
  proof (cases "k i = numy")
    case True
    have "k i \<le> k j" if "i \<le> j" for j using that line_mono by (simp add: k_def)
    then have "filter (\<lambda>i. k i < numy) [i..<i + Suc n] = []" using True by (simp add: filter_empty_conv not_less)
    then show ?thesis using True by simp
  next
    case False
    then have lt: "k i < numy" using Suc.prems(1) by simp
    define s1 where "s1 = line_dot op ptr w b (i, k i) s"
    define c2 where "c2 = drop_bit 1 (dot_mask (b + i))"
    define e where "e = (\<lambda>i. (int (k i) + 1) * int X - int i * int Y - int d - 1)"
    have rise: "e (Suc i) = (if e i - int Y < 0 then e i - int Y + int X else e i - int Y)"
      "k (Suc i) = (if e i - int Y < 0 then Suc (k i) else k i)"
      using line_rise(2,3) [OF assms(2,3), of i d] by (simp_all only: e_def k_def)
    have right: "(if c2 = 0 then (0x8000, q + 1) else (c2, q)) = (dot_mask (b + Suc i), dot_place ptr w (b + Suc i) y)"
      if "q = dot_place ptr w (b + i) y" for q y
      using that dot_mask_nz [of "Suc (b + i)"] dot_place_right [of ptr w "b + i" y]
      by (auto simp: c2_def dot_mask_next dot_mask_def mod_Suc simp del: drop_bit_eq_div)
    have up: "[i..<i + Suc n] = i # [Suc i..<Suc i + n]" by (simp add: upt_conv_Cons)
    have go: "drawline_x op (int X) (int Y) w (Suc n) (numy - k i) (e i) c p s =
        (let q = dot_place ptr w (b + i) (k i)
         in if e i - int Y < 0 then drawline_x op (int X) (int Y) w n (numy - k i - 1) (e i - int Y + int X) c2 (q + w) s1
            else drawline_x op (int X) (int Y) w n (numy - k i) (e i - int Y) c2 q s1)"
      using lt Suc.prems(2) by (simp add: Let_def s1_def line_dot_def c2_def)
    also have "\<dots> = drawline_x op (int X) (int Y) w n (numy - k (Suc i)) (e (Suc i)) c2
        (dot_place ptr w (b + i) (k (Suc i))) s1"
      using rise dot_place_down [of ptr w "b + i" "k i"] by (simp add: Let_def)
    also have "\<dots> = fold (\<lambda>i. line_dot op ptr w b (i, k i)) (filter (\<lambda>i. k i < numy) [Suc i..<Suc i + n]) s1"
      unfolding e_def using lt rise(2) by (intro Suc.IH right) simp_all
    finally show ?thesis using lt unfolding e_def up by (simp add: s1_def)
  qed
qed simp

lemma drawline_y_dots:
  fixes X Y d :: nat and i n numx :: nat
  defines "k \<equiv> \<lambda>i. (i * X + d) div Y"
  assumes "X \<le> Y" "0 < Y" "k i \<le> numx"
  shows "drawline_y op (int X) (int Y) w (numx - k i) n ((int (k i) + 1) * int Y - int i * int X - int d - 1)
      (dot_mask (b + k i)) (dot_place ptr w (b + k i) i) s =
    fold (\<lambda>i. line_dot op ptr w b (k i, i)) (filter (\<lambda>i. k i < numx) [i..<i + n]) s"
  using assms(4)
proof (induction n arbitrary: i s)
  case (Suc n)
  show ?case
  proof (cases "k i = numx")
    case True
    have "k i \<le> k j" if "i \<le> j" for j using that line_mono by (simp add: k_def)
    then have "filter (\<lambda>i. k i < numx) [i..<i + Suc n] = []" using True by (simp add: filter_empty_conv not_less)
    then show ?thesis using True by simp
  next
    case False
    then have lt: "k i < numx" using Suc.prems(1) by simp
    define s1 where "s1 = line_dot op ptr w b (k i, i) s"
    define e where "e = (\<lambda>i. (int (k i) + 1) * int Y - int i * int X - int d - 1)"
    have rise: "e (Suc i) = (if e i - int X < 0 then e i - int X + int Y else e i - int X)"
      "k (Suc i) = (if e i - int X < 0 then Suc (k i) else k i)"
      using line_rise(2,3) [OF assms(2,3), of i d] by (simp_all only: e_def k_def)
    define q where "q = dot_place ptr w (b + k i) i + w"
    have q: "dot_place ptr w (b + k i) (Suc i) = q" by (simp add: q_def dot_place_down)
    have right: "dot_place ptr w (b + Suc (k i)) (Suc i) = (if drop_bit 1 (dot_mask (b + k i)) = 0 then q + 1 else q)"
      "dot_mask (b + Suc (k i)) = (if drop_bit 1 (dot_mask (b + k i)) = 0 then 0x8000 else drop_bit 1 (dot_mask (b + k i)))"
      using dot_mask_nz [of "Suc (b + k i)"] dot_place_right [of ptr w "b + k i" "Suc i"] q
      by (auto simp: dot_mask_next dot_mask_def mod_Suc simp del: drop_bit_eq_div)
    have up: "[i..<i + Suc n] = i # [Suc i..<Suc i + n]" by (simp add: upt_conv_Cons)
    have "drawline_y op (int X) (int Y) w (numx - k i) (Suc n) (e i) (dot_mask (b + k i)) (dot_place ptr w (b + k i) i) s =
        drawline_y op (int X) (int Y) w (numx - k (Suc i)) n (e (Suc i)) (dot_mask (b + k (Suc i)))
          (dot_place ptr w (b + k (Suc i)) (Suc i)) s1"
      using lt rise right q by (simp add: Let_def s1_def line_dot_def q_def)
    also have "\<dots> = fold (\<lambda>i. line_dot op ptr w b (k i, i)) (filter (\<lambda>i. k i < numx) [Suc i..<Suc i + n]) s1"
      unfolding e_def using lt rise(2) by (intro Suc.IH) simp
    finally show ?thesis using lt unfolding e_def up by (simp add: s1_def)
  qed
qed simp

section \<open>\<open>DRAWLINE\<close>\<close>

text \<open>
  C32. \<open>DRAWLINE\<close> draws the digital line. For a small number as the width of the raster, one of the
  three operations, a first bit inside the word and an error term below the longer side, the opcode
  applies the operation to the dots of \<open>line_points\<close>, each once and in order, and to nothing else: in
  both octants the loops, which only add, compute the rounded division.
\<close>

theorem drawline_digital_line:
  assumes "raster_words width = Some w" "op0 AND 3 \<noteq> 3" "unat (curbit AND 0xFFFF) < 16"
    "unat (delta AND 0xFFFF) < max (unat (xsize AND 0xFFFF)) (unat (ysize AND 0xFFFF))"
  shows "N_OP_drawline ptr curbit xsize width ysize op0 delta numx numy s =
    Inr (0, fold (line_dot (op0 AND 3) ptr w (unat (curbit AND 0xFFFF)))
      (line_points (unat (xsize AND 0xFFFF)) (unat (ysize AND 0xFFFF)) (unat (delta AND 0xFFFF))
        (unat (numx AND 0xFFFF)) (unat (numy AND 0xFFFF))) s)"
proof -
  define X Y d b nx ny op where v: "X = unat (xsize AND 0xFFFF)" "Y = unat (ysize AND 0xFFFF)"
    "d = unat (delta AND 0xFFFF)" "b = unat (curbit AND 0xFFFF)" "nx = unat (numx AND 0xFFFF)"
    "ny = unat (numy AND 0xFFFF)" "op = op0 AND 3"
  have u: "uint (xsize AND 0xFFFF) = int X" "uint (ysize AND 0xFFFF) = int Y" "uint (delta AND 0xFFFF) = int d"
    by (simp_all add: v)
  have b: "b < 16" "drop_bit b (0x8000 :: DLword) = dot_mask b" using assms(3) by (simp_all add: v dot_mask_def)
  have nz: "dot_mask b \<noteq> 0" by (rule dot_mask_nz)
  have run: "N_OP_drawline ptr curbit xsize width ysize op0 delta numx numy s =
      Inr (0, if Y < X then drawline_x op (int X) (int Y) w nx ny (int X - int d - 1) (dot_mask b) ptr s
              else drawline_y op (int X) (int Y) w nx ny (int Y - int d - 1) (dot_mask b) ptr s)"
    using assms(1,2) b by (simp add: N_OP_drawline_def Let_def u v(4-7) [symmetric] del: drop_bit_eq_div)
  have place: "dot_place ptr w b 0 = ptr" using b(1) by (simp add: dot_place_def)
  have "(if Y < X then drawline_x op (int X) (int Y) w nx ny (int X - int d - 1) (dot_mask b) ptr s
         else drawline_y op (int X) (int Y) w nx ny (int Y - int d - 1) (dot_mask b) ptr s)
      = fold (line_dot op ptr w b) (line_points X Y d nx ny) s"
  proof (cases "Y < X")
    case True
    then have "d div X = 0" using assms(4) by (simp add: v)
    then show ?thesis
      using drawline_x_dots [of Y X 0 d ny "dot_mask b" ptr b ptr w op nx s] True nz place
      by (simp add: line_points_def fold_map comp_def)
  next
    case False
    then have "d div Y = 0" "0 < Y" using assms(4) by (auto simp: v)
    then show ?thesis
      using drawline_y_dots [of X Y 0 d nx op w ny b ptr s] False place
      by (simp add: line_points_def fold_map comp_def)
  qed
  then show ?thesis unfolding run by (simp add: v)
qed

text \<open>A line over five columns and two rows.\<close>

lemma sample_line: "line_points 5 2 2 6 3 = [(0, 0), (1, 0), (2, 1), (3, 1), (4, 2), (5, 2)]"
  by (simp add: line_points_def upt_rec)

theorem drawline_digital_line_witness:
  "N_OP_drawline 0x50000 0xE0000 0xE0005 0xE0002 0xE0002 0xE0000 0xE0002 0xE0006 0xE0003 vm0 =
     Inr (0, fold (line_dot 0 0x50000 2 0) [(0, 0), (1, 0), (2, 1), (3, 1), (4, 2), (5, 2)] vm0)"
  using drawline_digital_line [where width = "0xE0002" and w = 2 and ?op0.0 = "0xE0000" and curbit = "0xE0000"
      and delta = "0xE0002" and xsize = "0xE0005" and ysize = "0xE0002" and numx = "0xE0006" and numy = "0xE0003"
      and ptr = "0x50000" and s = vm0]
  by (simp add: raster_words_def maiko_consts sample_line del: One_nat_def)

section \<open>\<open>BLT\<close>\<close>

lemma getword_setword: "getword (mem (setword a w s)) b = (if b = a then w else getword (mem s) b)"
  by (auto simp: setword_def poke_def words.get_put_same words.get_put_other)

lemma of_nat_word_eq: "i < 0x10000 \<Longrightarrow> j < 0x10000 \<Longrightarrow> (of_nat i :: 32 word) = of_nat j \<longleftrightarrow> i = j"
  by (simp add: word_unat_eq_iff unsigned_of_nat take_bit_eq_mod)

text \<open>
  The index the word at \<open>k\<close> of the destination comes from, when the source starts \<open>d\<close> words above: the
  words are moved from the last to the first, so a source that starts inside the destination has been
  written over, and its last \<open>d\<close> words are repeated.
\<close>

definition blt_from :: "nat \<Rightarrow> nat \<Rightarrow> nat \<Rightarrow> nat" where "blt_from d n k = k + (n - 1 - k) div d * d"

lemma blt_from_plain: "d = 0 \<or> n \<le> d \<Longrightarrow> k < n \<Longrightarrow> blt_from d n k = k"
  by (auto simp: blt_from_def)

lemma blt_from_last: "k \<le> n \<Longrightarrow> blt_from d (Suc n) k = (if 0 < d \<and> k < n \<and> blt_from d n k + d = n then n else if k < n then blt_from d n k else k)"
proof (cases "0 < d \<and> k < n")
  case True
  define q where "q = (n - Suc k) div d"
  have q: "q * d \<le> n - Suc k" "n - Suc k < (q + 1) * d"
    using True dividend_less_div_times [of d "n - Suc k"] by (auto simp: q_def)
  show ?thesis
  proof (cases "k + q * d + d = n")
    case e: True
    then have "n - k = (q + 1) * d" by (simp add: algebra_simps)
    then have "(n - k) div d = q + 1" using True by simp
    then show ?thesis using e True by (simp add: blt_from_def q_def [symmetric] algebra_simps)
  next
    case False
    have "q * d \<le> n - k" "n - k < (q + 1) * d" using q False True by (auto simp: algebra_simps)
    then have "(n - k) div d = q" using True by (intro div_nat_eqI) (simp_all add: algebra_simps)
    then show ?thesis using False True by (simp add: blt_from_def q_def [symmetric])
  qed
qed (auto simp: blt_from_def)

lemma blt_words:
  fixes dest source :: LispPTR
  defines "d \<equiv> unat (source - dest)"
  assumes "n < 0x10000"
  shows "(\<forall>i < n. getword (mem (blt dest source n s)) (dest + of_nat i) = getword (mem s) (source + of_nat (blt_from d n i))) \<and>
    (\<forall>a. (\<forall>i < n. a \<noteq> dest + of_nat i) \<longrightarrow> getword (mem (blt dest source n s)) a = getword (mem s) a)"
  using assms(2)
proof (induction n arbitrary: s)
  case (Suc n)
  define s1 where "s1 = setword (dest + of_nat n) (getword (mem s) (source + of_nat n)) s"
  have ih: "\<forall>i < n. getword (mem (blt dest source n s1)) (dest + of_nat i) = getword (mem s1) (source + of_nat (blt_from d n i))"
    "\<forall>a. (\<forall>i < n. a \<noteq> dest + of_nat i) \<longrightarrow> getword (mem (blt dest source n s1)) a = getword (mem s1) a"
    using Suc.IH [of s1] Suc.prems by auto
  have src: "source = dest + of_nat d" by (simp add: d_def)
  have d32: "d < 2 ^ 32" using unsigned_less [of "source - dest"] by (simp add: d_def)
  have hit: "source + of_nat (blt_from d n i) = dest + of_nat n \<longleftrightarrow> 0 < d \<and> blt_from d n i + d = n" if i: "i < n" for i
  proof (cases "d = 0")
    case True
    then show ?thesis using i of_nat_word_eq [of i n] Suc.prems by (simp add: src blt_from_def)
  next
    case False
    define j where "j = blt_from d n i + d - n"
    have ge: "n \<le> blt_from d n i + d" "j < d"
    proof -
      define q where "q = (n - Suc i) div d"
      have "q * d \<le> n - Suc i" "n - Suc i < (q + 1) * d"
        using False dividend_less_div_times [of d "n - Suc i"] by (auto simp: q_def)
      then show "n \<le> blt_from d n i + d" "j < d" using i by (auto simp: j_def blt_from_def q_def [symmetric])
    qed
    have "source + of_nat (blt_from d n i) = dest + of_nat n \<longleftrightarrow> of_nat (blt_from d n i + d) = (of_nat n :: 32 word)"
      by (simp add: src algebra_simps)
    also have "blt_from d n i + d = n + j" using ge by (simp add: j_def)
    also have "(of_nat (n + j) = (of_nat n :: 32 word)) \<longleftrightarrow> (of_nat j :: 32 word) = 0" by simp
    also have "\<dots> \<longleftrightarrow> j = 0" using ge(2) d32 by (simp add: word_unat_eq_iff unsigned_of_nat take_bit_nat_eq_self)
    also have "\<dots> \<longleftrightarrow> 0 < d \<and> n + j = n" using False by simp
    finally show ?thesis using ge by (simp add: j_def)
  qed
  have new: "\<forall>i < n. dest + of_nat n \<noteq> dest + of_nat i" using Suc.prems(1) of_nat_word_eq [of n] by auto
  have b: "blt dest source (Suc n) s = blt dest source n s1" by (simp add: s1_def)
  show ?case
  proof (intro conjI allI impI)
    fix i assume i: "i < Suc n"
    show "getword (mem (blt dest source (Suc n) s)) (dest + of_nat i) = getword (mem s) (source + of_nat (blt_from d (Suc n) i))"
    proof (cases "i = n")
      case True
      then show ?thesis using ih(2) new unfolding b by (simp add: s1_def getword_setword blt_from_last)
    next
      case False
      then have i: "i < n" using i by simp
      then show ?thesis using ih(1) hit [OF i] unfolding b by (simp add: s1_def getword_setword blt_from_last)
    qed
  next
    fix a assume "\<forall>i < Suc n. a \<noteq> dest + of_nat i"
    then show "getword (mem (blt dest source (Suc n) s)) a = getword (mem s) a"
      using ih(2) unfolding b by (auto simp: s1_def getword_setword)
  qed
qed simp

text \<open>
  C33. \<open>BLT\<close> moves a block of words, from the last to the first. When the source does not start
  inside the destination above its first word, every word of the destination afterwards is the word
  the source had before the call, although the two may overlap. When it starts \<open>d\<close> words above the
  first word of the destination and inside it, the last \<open>d\<close> words of the source are repeated over the
  destination (\<open>blt_from\<close>). Nothing else changes; a count that is no positive small number is
  handed over to Lisp and changes nothing.
\<close>

theorem blt_moves:
  "case N_OP_blt destptr sourceptr wordcount s of
      Inl e \<Rightarrow> e = Ufn wordcount \<and> wordcount AND SEGMASK \<noteq> S_POSITIVE
    | Inr (v, s') \<Rightarrow> v = wordcount \<and> wordcount AND SEGMASK = S_POSITIVE \<and>
        (let n = unat (wordcount AND 0xFFFF); d = unat (sourceptr - destptr)
         in (\<forall>i < n. getword (mem s') (destptr + of_nat i) = getword (mem s) (sourceptr + of_nat (blt_from d n i)) \<and>
               (d = 0 \<or> n \<le> d \<longrightarrow> blt_from d n i = i)) \<and>
            (\<forall>a. (\<forall>i < n. a \<noteq> destptr + of_nat i) \<longrightarrow> getword (mem s') a = getword (mem s) a))"
proof -
  have "unat (wordcount AND 0xFFFF) < 0x10000" using word_and_le1 [of wordcount "0xFFFF"] by (simp add: word_le_nat_alt)
  from blt_words [OF this, of destptr sourceptr s] show ?thesis
    by (auto simp: N_OP_blt_def Let_def blt_from_plain)
qed

text \<open>Three words moved one place up, and one place down.\<close>

lemma blt_moves_witness:
  "(\<exists>s'. N_OP_blt 0x50001 0x50000 0xE0003 vm0 = Inr (0xE0003, s') \<and>
     getword (mem s') 0x50003 = getword (mem vm0) 0x50002) \<and>
   (\<exists>s'. N_OP_blt 0x50000 0x50001 0xE0003 vm0 = Inr (0xE0003, s') \<and>
     getword (mem s') 0x50000 = getword (mem vm0) 0x50003)"
proof -
  have "(3 :: nat) \<le> unat (- 1 :: 32 word)" by (simp add: unsigned_minus_1_eq_mask mask_eq_exp_minus_1)
  then show ?thesis
    using blt_moves [where sourceptr = "0x50000" and destptr = "0x50001" and wordcount = "0xE0003" and s = vm0]
      blt_moves [where sourceptr = "0x50001" and destptr = "0x50000" and wordcount = "0xE0003" and s = vm0]
    apply (simp add: N_OP_blt_def maiko_consts Let_def)
    apply (drule conjunct1, drule spec [of _ 2], drule conjunct1, drule spec [of _ 0])
    apply (simp add: blt_from_def)
    done
qed
end
