(* ===== verification/Interrupts.thy ===== *)
theory Interrupts
  imports GC_Unscan
begin

text \<open>
  Interrupts: \<open>cause_interruptcall\<close> (\<open>src/intcall.c\<close>) builds the frame of a Lisp
  function on top of the interrupted one, and the label \<open>check_interrupt\<close> of \<open>dispatch\<close>
  (\<open>src/xc.c\<close>) decides when. Definitions; what they promise is in \<open>Interrupt_Laws\<close>.

  The display, the keyboard and the clock are outside the model: \<open>poll_events\<close> stands for
  \<open>process_Display_events\<close> and \<open>process_io_events\<close>, \<open>tick\<close> for
  \<open>update_timer\<close>. A call of \<open>error\<close> after which the code goes on is logged.
\<close>

section \<open>The call of an interrupt function\<close>

definition SubovFXP :: DLword where "SubovFXP = 2"
definition STK_SAFE :: "32 word" where "STK_SAFE = 32"
definition BF_MARK :: DLword where "BF_MARK = 0x8000"

definition PC_at :: "32 word \<Rightarrow> stkm \<Rightarrow> stkm" where "PC_at pc m = m\<lparr>cp := (cp m)\<lparr>PCMAC := pc\<rparr>\<rparr>"

text \<open>\<open>DOSTACKOVERFLOW\<close>; \<open>False\<close> is its \<open>return\<close>.\<close>

definition DOSTACKOVERFLOW :: "32 word \<Rightarrow> 32 word \<Rightarrow> stkm \<Rightarrow> (bool \<times> stkm) res" where
  "DOSTACKOVERFLOW argnum bytenum m =
     rbind (do_stackoverflow True m) (\<lambda>(full, m1).
     if full
     then rbind (contextsw SubovFXP bytenum 1 (PushStack (S_POSITIVE OR argnum) m1)) (\<lambda>m2. Inr (False, m2))
     else Inr (True, m1))"

definition suspend_frame :: "stkm \<Rightarrow> stkm" where
  "suspend_frame m =
     (let fx = cfx m; nextblock = stk_off (CurrentStackPTR m) + 4;
          m1 = PushCStack (upd_vm (setword (fx + 4) nextblock (set_nopush True fx (mv m))) m);
          m2 = m1\<lparr>cp := (cp m1)\<lparr>IVAR := stk_at (fx_nextblock (mv m1) fx)\<rparr>\<rparr>
      in upd_vm (setword (fx + 5) (ucast (PCMAC (cp m2) - code_base (FuncObj (cp m2)))) (mv m2)) m2)"

primrec push_nils :: "nat \<Rightarrow> stkm \<Rightarrow> stkm" where
  "push_nils 0 m = m"
| "push_nils (Suc n) m = push_nils n (PushStack NIL m)"

text \<open>A basic frame without arguments of its own, and a slow frame extension.\<close>

definition interrupt_links :: "LispPTR \<Rightarrow> stkm \<Rightarrow> stkm" where
  "interrupt_links defptr m =
     (let bf = CurrentStackPTR m + 2; fx = bf + 2; pvar = PVAR (cp m);
          s1 = setword (bf + 1) (fx_nextblock (mv m) (cfx m)) (setword bf BF_MARK (mv m));
          s2 = setword fx (lo_word FX_MARK) s1;
          s3 = setword (fx + 1) (stk_off pvar + 1) s2;
          s4 = setword (fx + 8) (stk_off (fx - 2)) s3;
          s5 = setword (fx + 9) (stk_off pvar) s4;
          s6 = wr (fx + 2) defptr s5
      in upd_vm s6 (m\<lparr>cp := (cp m)\<lparr>PVAR := fx + FRAMESIZE\<rparr>, CurrentStackPTR := fx + FRAMESIZE\<rparr>))"

primrec unbound_cells :: "nat \<Rightarrow> stkm \<Rightarrow> stkm" where
  "unbound_cells 0 m = m"
| "unbound_cells (Suc n) m =
     unbound_cells n (upd_vm (wr (CurrentStackPTR m) UNBOUND (mv m)) (m\<lparr>CurrentStackPTR := CurrentStackPTR m + 2\<rparr>))"

definition cause_interruptcall :: "LispPTR \<Rightarrow> stkm \<Rightarrow> stkm res" where
  "cause_interruptcall atom_index m =
     (let m1 = suspend_frame m; defcell = GetDEFCELL68k atom_index;
          fn = defpointer (rd (mv m1) defcell)
      in rbind (if CurrentStackPTR m1 + fn_stkmin (mv m1) fn + STK_SAFE > EndSTKP (cp m1)
                then DOSTACKOVERFLOW 0 (-1) m1 else Inr (True, m1)) (\<lambda>(go_on, m2).
         if \<not> go_on then Inr m2
         else
           (let m3 = m2\<lparr>cp := (cp m2)\<lparr>FuncObj := fn\<rparr>\<rparr>;
                m4 = push_nils (nat (fn_na (mv m3) fn)) m3;
                m5 = interrupt_links (defpointer (rd (mv m4) defcell)) m4;
                m6 = unbound_cells (2 * nat (fn_pv (mv m5) fn + 1)) m5;
                m7 = PC_at (code_base fn + fn_startpc (mv m6) fn) m6;
                csp = CurrentStackPTR m7;
                m8 = upd_vm (setword (cfx m7 + 4) (stk_off csp) (mv m7)) m7
            in with_vm (MAKEFREEBLOCK csp (uint (EndSTKP (cp m8) - csp)) (mv m8)) m8)))"

section \<open>The state of the interrupt check\<close>

text \<open>
  What the check adds to the machine: the counter of the periodic interrupt, the keyboard, the debugger's
  request, and words of the global area. \<open>other_pending\<close> holds those pending interrupts whose
  bits are not fields of their own.
\<close>

record em =
  sm :: stkm
  period_cnt :: int
  KBDEventFlg :: int
  URaid_req :: bool
  KEYBUFFERING_word :: LispPTR
  PERIODIC_INTERRUPT_word :: LispPTR
  PERIODIC_INTERRUPT_FREQUENCY_word :: LispPTR
  other_pending :: DLbyte
  handledmask :: DLbyte

record em_env =
  numeric :: calc
  UFNTable :: LispPTR
  TIMER_INTERVAL :: int
  ATOM_STARTED :: LispPTR
  PERIODIC_INTERRUPTFRAME_index :: LispPTR
  DOBUFFEREDTRANSITION_index :: LispPTR
  DORECLAIM_index :: LispPTR
  INTERRUPTFRAME_index :: LispPTR
  OP_subrcall :: "DLbyte \<Rightarrow> DLbyte \<Rightarrow> stkm \<Rightarrow> stkm res"
  OP_miscn :: "DLbyte \<Rightarrow> DLbyte \<Rightarrow> stkm \<Rightarrow> (bool \<times> stkm) res"
  clock_usec :: "stkm \<Rightarrow> 32 word"
  poll_events :: "em \<Rightarrow> em"
  tick :: "em \<Rightarrow> em"

definition on_sm :: "(stkm \<Rightarrow> stkm) \<Rightarrow> em \<Rightarrow> em" where "on_sm f x = x\<lparr>sm := f (sm x)\<rparr>"
definition on_vm :: "(vm \<Rightarrow> vm) \<Rightarrow> stkm \<Rightarrow> stkm" where "on_vm f m = upd_vm (f (mv m)) m"

definition pendingmask :: "em \<Rightarrow> DLbyte" where
  "pendingmask x =
     (let w = sto (mv (sm x))
      in other_pending x OR (if int_vmemfull w then 8 else 0) OR (if int_stackoverflow (sm x) then 4 else 0) OR
         (if int_storagefull w then 2 else 0))"

definition set_pendinginterrupt :: "LispPTR \<Rightarrow> stkm \<Rightarrow> stkm" where
  "set_pendinginterrupt v = on_vm (upd_sto (\<lambda>w. w\<lparr>PENDINGINTERRUPT_word := v\<rparr>))"

definition set_irq :: "LispPTR \<Rightarrow> nat \<Rightarrow> stkm \<Rightarrow> stkm" where
  "set_irq chk endp m = upd_vm ((mv m)\<lparr>Irq_Stk_End := endp\<rparr>) (m\<lparr>cp := (cp m)\<lparr>Irq_Stk_Check := chk\<rparr>\<rparr>)"

definition CLR_IRQ :: "stkm \<Rightarrow> stkm" where
  "CLR_IRQ m = (let e = EndSTKP (cp m) in set_irq (e - fn_stkmin (mv m) (FuncObj (cp m))) (unat e) m)"

definition set_tos_m :: "LispPTR \<Rightarrow> stkm \<Rightarrow> stkm" where "set_tos_m v m = m\<lparr>cp := set_tos v (cp m)\<rparr>"

section \<open>The stack check\<close>

text \<open>
  The code from \<open>stackoverflow_help\<close>, which \<open>RETURN\<close> jumps to, and what both ways through
  the check do at its end. The result is \<open>need_irq\<close>.
\<close>

definition after_stack_check :: "em \<Rightarrow> bool \<times> em" where
  "after_stack_check x =
     (let m = sm x; need_irq = (Irq_Stk_End (mv m) = 0 \<or> extended_frame m);
          m1 = CLR_IRQ m;
          m2 = (if extended_frame m1 then set_pendinginterrupt ATOM_T m1 else m1)
      in (need_irq, x\<lparr>sm := m2\<rparr>))"

definition stackoverflow_help :: "em \<Rightarrow> bool \<times> em" where
  "stackoverflow_help x =
     after_stack_check
       (on_sm (\<lambda>m. set_tos_m NIL (RET (on_vm (log_error ''Stack Overflow, MUST HARDRESET!'') m))) (x\<lparr>period_cnt := 60\<rparr>))"

definition check_stack :: "em \<Rightarrow> (bool \<times> em) res" where
  "check_stack x =
     (let m = sm x; c = cp m
      in if CSTKPTR c + 2 > Irq_Stk_Check c \<and> Irq_Stk_End (st c) > 0 \<and> Irq_Stk_Check c > 0
         then
           rbind (do_stackoverflow False
                    ((EXT (m\<lparr>cp := HARD_PUSH (TOPOFSTACK c) c\<rparr>))\<lparr>extended_frame := False\<rparr>)) (\<lambda>(full, m1).
           Inr (if full then stackoverflow_help (x\<lparr>sm := m1\<rparr>)
                else after_stack_check (x\<lparr>sm := (RET m1)\<lparr>cp := POP (cp (RET m1))\<rparr>\<rparr>)))
         else Inr (False, x))"

section \<open>The interrupts\<close>

definition interrupt :: "LispPTR \<Rightarrow> em \<Rightarrow> em res" where
  "interrupt atom_index x = rbind (cause_interruptcall atom_index (sm x)) (\<lambda>m. Inr (x\<lparr>sm := m\<rparr>))"

definition periodic_interrupt :: "em_env \<Rightarrow> em \<Rightarrow> em res" where
  "periodic_interrupt E x =
     (if PERIODIC_INTERRUPT_word x = NIL then Inr x
      else if period_cnt x > 0 then Inr (x\<lparr>period_cnt := period_cnt x - 1\<rparr>)
      else
        rbind (interrupt (PERIODIC_INTERRUPTFRAME_index E) x) (\<lambda>x1.
        let freq = PERIODIC_INTERRUPT_FREQUENCY_word x1
        in Inr (x1\<lparr>period_cnt := if freq = NIL then 0
                                 else uint (freq AND 0xFFFF) * 1000000 div (60 * TIMER_INTERVAL E)\<rparr>)))"

definition one_interrupt :: "em_env \<Rightarrow> em \<Rightarrow> em res" where
  "one_interrupt E x =
     (if URaid_req x then Inr (on_sm (on_vm (log_error ''Call URaid by User Interrupt'')) (x\<lparr>URaid_req := False\<rparr>))
      else if KBDEventFlg x > 0 \<and> KEYBUFFERING_word x = ATOM_T
      then rbind (interrupt (DOBUFFEREDTRANSITION_index E) (x\<lparr>KEYBUFFERING_word := ATOM_STARTED E\<rparr>)) (\<lambda>x1.
           Inr (x1\<lparr>KBDEventFlg := KBDEventFlg x1 - 1\<rparr>))
      else if reclaim_cnt (gc (mv (sm x))) = S_POSITIVE
      then interrupt (DORECLAIM_index E) (on_sm (on_vm (set_reclaim_cnt NIL)) x)
      else if PENDINGINTERRUPT_word (sto (mv (sm x))) \<noteq> NIL
      then interrupt (INTERRUPTFRAME_index E)
             (on_sm (set_pendinginterrupt NIL) (x\<lparr>handledmask := handledmask x OR pendingmask x\<rparr>))
      else Inr x)"

definition take_interrupts :: "em_env \<Rightarrow> em \<Rightarrow> em res" where
  "take_interrupts E x =
     rbind (periodic_interrupt E (tick E (on_sm EXT x))) (\<lambda>x1.
     rbind (one_interrupt E x1) (\<lambda>x2. Inr (on_sm (\<lambda>m. CLR_IRQ (RET m)) x2)))"

text \<open>The code from \<open>timer_Signalled = IO_Signalled = FALSE\<close> on, after a stack check.\<close>

datatype irq_next = Irq_done "em res" | Re_check_stack em

definition deliver :: "em_env \<Rightarrow> bool \<Rightarrow> em \<Rightarrow> irq_next" where
  "deliver E need_irq x =
     (let x1 = poll_events E x; m = sm x1; c = cp m
      in if Irq_Stk_End (st c) = 0 \<or> Irq_Stk_Check c = 0 \<or> need_irq
         then (if stack_offset (CSTKPTR c) > ucast (stackbase m) then Irq_done (take_interrupts E x1)
               else Re_check_stack (on_sm CLR_IRQ x1))
         else Irq_done (Inr x1))"

partial_function (option) re_check_stack :: "em_env \<Rightarrow> em \<Rightarrow> em res option" where
  "re_check_stack E x =
     (case check_stack x of
        Inl e \<Rightarrow> Some (Inl e)
      | Inr (need_irq, x1) \<Rightarrow>
          (case deliver E need_irq x1 of
             Irq_done r \<Rightarrow> Some r
           | Re_check_stack x2 \<Rightarrow> re_check_stack E x2))"

declare re_check_stack.simps [code]

definition check_interrupt :: "em_env \<Rightarrow> em \<Rightarrow> em res" where
  "check_interrupt E x =
     (let m = sm x
      in of_loop_res (re_check_stack E
           (if CSTKPTR (cp m) > EndSTKP (cp m)
            then x\<lparr>sm := RET (on_vm (log_error ''Unrecoverable Stack Overflow'') (EXT m))\<rparr> else x)))"

text \<open>\<open>RETURN\<close> jumps into the middle of the check when the stack is full.\<close>

definition overflow_in_return :: "em_env \<Rightarrow> em \<Rightarrow> em res" where
  "overflow_in_return E x =
     (let (need_irq, x1) = stackoverflow_help x
      in of_loop_res (case deliver E need_irq x1 of Irq_done r \<Rightarrow> Some r | Re_check_stack x2 \<Rightarrow> re_check_stack E x2))"

end
