(* ===== verification/Emulator.thy ===== *)
theory Emulator
  imports Interrupts Drawing BitBlt
begin

text \<open>
  The main loop of the emulator, \<open>dispatch\<close> of \<open>src/xc.c\<close>: the table of the opcodes, one
  step of the loop, and the machine as a relation on its states. Definitions; what they promise is in
  \<open>Emulator_Laws\<close>.

  The opcode functions are those of the other theories, brought together by the macros at the end of
  \<open>inc/inlineC.h\<close>. \<open>OP_subrcall\<close> and \<open>OP_miscn\<close>, the doors to the input and
  output of the emulator, are fields of the environment, and so is the time of day.
\<close>

section \<open>Operands\<close>

text \<open>An opcode with a byte, two bytes or a name behind it in the code.\<close>

definition byte1 :: "('a::len word \<Rightarrow> cpu \<Rightarrow> op_exit) \<Rightarrow> cpu \<Rightarrow> op_exit" where
  "byte1 f c = f (ucast (Get_BYTE_PCMAC 1 c)) c"
definition byte2 :: "('a::len word \<Rightarrow> 'b::len word \<Rightarrow> cpu \<Rightarrow> op_exit) \<Rightarrow> cpu \<Rightarrow> op_exit" where
  "byte2 f c = f (ucast (Get_BYTE_PCMAC 1 c)) (ucast (Get_BYTE_PCMAC 2 c)) c"
definition atom1 :: "(LispPTR \<Rightarrow> cpu \<Rightarrow> op_exit) \<Rightarrow> cpu \<Rightarrow> op_exit" where
  "atom1 f c = f (Get_AtomNo_PCMAC 1 c) c"
definition Get_SBYTE_PCMAC1 :: "cpu \<Rightarrow> 32 word" where
  "Get_SBYTE_PCMAC1 c = scast (Get_BYTE_PCMAC 1 c)"

section \<open>The call macros with many arguments\<close>

definition N_OP_CALL_7d ::
  "(LispPTR \<Rightarrow> LispPTR \<Rightarrow> LispPTR \<Rightarrow> LispPTR \<Rightarrow> LispPTR \<Rightarrow> LispPTR \<Rightarrow> op1) \<Rightarrow> cpu \<Rightarrow> op_exit" where
  "N_OP_CALL_7d f c =
     call_op (f (arg_cell 6 c) (arg_cell 5 c) (arg_cell 4 c) (arg_cell 3 c) (arg_cell 2 c) (arg_cell 1 c)
                (TOPOFSTACK c) (st c)) c (drop_args 6 2) fix_tos_ufn"

definition N_OP_CALL_9 ::
  "(LispPTR \<Rightarrow> LispPTR \<Rightarrow> LispPTR \<Rightarrow> LispPTR \<Rightarrow> LispPTR \<Rightarrow> LispPTR \<Rightarrow> LispPTR \<Rightarrow> LispPTR \<Rightarrow> op1) \<Rightarrow> cpu \<Rightarrow> op_exit" where
  "N_OP_CALL_9 f c =
     call_op (f (arg_cell 8 c) (arg_cell 7 c) (arg_cell 6 c) (arg_cell 5 c) (arg_cell 4 c) (arg_cell 3 c)
                (arg_cell 2 c) (arg_cell 1 c) (TOPOFSTACK c) (st c)) c (drop_args 8 1) fix_tos_ufn"

text \<open>A function of two arguments that cannot change the state.\<close>

definition pure_2 :: "(LispPTR \<Rightarrow> LispPTR \<Rightarrow> vm \<Rightarrow> LispPTR res) \<Rightarrow> op2" where
  "pure_2 f x y s = pure_op (f x y s) s"

section \<open>Opcodes of the loop itself\<close>

definition GCREF_byte :: "DLbyte \<Rightarrow> cpu \<Rightarrow> op_exit" where
  "GCREF_byte n c =
     (case refcase_of (ucast n) of None \<Rightarrow> Fault (Fatal ''gcref: bad case'') | Some k \<Rightarrow> GCREF k c)"

definition GCSCAN1 :: "cpu \<Rightarrow> op_exit" where
  "GCSCAN1 c = nextop 1 (set_tos (scan_value (gcscan1 (gc (st c)) (unat (TOPOFSTACK c AND 0xFFFF)))) c)"
definition GCSCAN2 :: "cpu \<Rightarrow> op_exit" where
  "GCSCAN2 c = nextop 1 (set_tos (scan_value (gcscan2 (gc (st c)) (unat (TOPOFSTACK c AND 0xFFFF)))) c)"

definition PILOTBITBLT :: "cpu \<Rightarrow> op_exit" where
  "PILOTBITBLT c =
     (let (p, c1) = POP_TOS_1 c; (v, s) = N_OP_pilotbitblt p (st c1) in nextop 1 (set_tos v (c1\<lparr>st := s\<rparr>)))"

definition EQ :: "cpu \<Rightarrow> op_exit" where
  "EQ c = (let (x, c1) = POP_TOS_1 c in nextop 1 (set_tos (if TOPOFSTACK c1 = x then ATOM_T else NIL) c1))"

definition ACONST :: "cpu \<Rightarrow> op_exit" where "ACONST c = nextop 5 (PUSH (Get_AtomNo_PCMAC 1) c)"
definition GCONST :: "cpu \<Rightarrow> op_exit" where "GCONST c = nextop 5 (PUSH (Get_AtomNo_PCMAC 1) c)"
definition SIC :: "cpu \<Rightarrow> op_exit" where
  "SIC c = nextop 2 (PUSH (\<lambda>c. S_POSITIVE OR ucast (Get_BYTE_PCMAC 1 c)) c)"
definition SNIC :: "cpu \<Rightarrow> op_exit" where
  "SNIC c = nextop 2 (PUSH (\<lambda>c. S_NEGATIVE OR 0xFF00 OR ucast (Get_BYTE_PCMAC 1 c)) c)"
definition SICX :: "cpu \<Rightarrow> op_exit" where
  "SICX c = nextop 3 (PUSH (\<lambda>c. S_POSITIVE OR ucast (Get_DLword_PCMAC 1 c)) c)"

definition JUMPX :: "cpu \<Rightarrow> op_exit" where
  "JUMPX c = CHECK_INTERRUPT (\<lambda>c. nextop (Get_SBYTE_PCMAC1 c) c) c"
definition JUMPXX :: "cpu \<Rightarrow> op_exit" where
  "JUMPXX c =
     CHECK_INTERRUPT (\<lambda>c. nextop (push_bit 8 (Get_SBYTE_PCMAC1 c) OR ucast (Get_BYTE_PCMAC 2 c)) c) c"
definition FJUMPX :: "cpu \<Rightarrow> op_exit" where
  "FJUMPX c =
     (if TOPOFSTACK c \<noteq> 0 then nextop 2 (POP c)
      else CHECK_INTERRUPT (\<lambda>c. nextop (Get_SBYTE_PCMAC1 (POP c)) (POP c)) c)"
definition TJUMPX :: "cpu \<Rightarrow> op_exit" where
  "TJUMPX c =
     (if TOPOFSTACK c = 0 then nextop 2 (POP c)
      else CHECK_INTERRUPT (\<lambda>c. nextop (Get_SBYTE_PCMAC1 (POP c)) (POP c)) c)"
definition NFJUMPX :: "cpu \<Rightarrow> op_exit" where
  "NFJUMPX c =
     (if TOPOFSTACK c \<noteq> 0 then nextop 2 (POP c) else CHECK_INTERRUPT (\<lambda>c. nextop (Get_SBYTE_PCMAC1 c) c) c)"
definition NTJUMPX :: "cpu \<Rightarrow> op_exit" where
  "NTJUMPX c =
     (if TOPOFSTACK c = 0 then nextop 2 (POP c) else CHECK_INTERRUPT (\<lambda>c. nextop (Get_SBYTE_PCMAC1 c) c) c)"

section \<open>The opcode table\<close>

text \<open>
  Eight opcodes a row, in octal, as in the code. An opcode the emulator leaves to Lisp is
  \<open>Op_ufn\<close>. Those that need more than the registers of the loop (020, 044, 0167, 0175
  and 0176) have \<open>Op_ufn\<close> in their place here; \<open>dispatch\<close> looks at them first.
\<close>

definition opcodes_000 :: "em_env \<Rightarrow> (cpu \<Rightarrow> op_exit) list" where
  "opcodes_000 E =
     (let E0 = numeric E; chk = storage_chk E0; dirty = dirty_arg E0
      in [Op_ufn, OPCAR, OPCDR, LISTP, NTYPEX, byte1 TYPEP, atom1 DTEST, byte2 (\<lambda>n m :: DLbyte. UNWIND n (m \<noteq> 0)),
          OPFN 0, OPFN 1, OPFN 2, OPFN 3, OPFN 4, OPFNX, OPAPPLY, OPCHECKAPPLY,
          Op_ufn, byte2 (\<lambda>a :: DLbyte. BIND (unat a)), UNBIND, DUNBIND, byte1 RPLPTR, byte1 GCREF_byte,
            N_OP_CALL_exception_2 (pure_2 N_OP_assoc), atom1 GVAR_set,
          N_OP_CALL_2 N_OP_rplaca, N_OP_CALL_2 (N_OP_rplacd chk dirty), CONS E0,
            N_OP_CALL_exception_2 (pure_2 N_OP_classoc), N_OP_CALL_exception_2 (pure_2 N_OP_fmemb),
            N_OP_CALL_exception_2 (pure_2 N_OP_clfmemb), byte1 (\<lambda>x :: DLbyte. FINDKEY (unat x)),
            N_OP_CALL_1 (N_OP_createcell chk dirty)])"

definition opcodes_040 :: "em_env \<Rightarrow> (cpu \<Rightarrow> op_exit) list" where
  "opcodes_040 E =
     (let E0 = numeric E; chk = storage_chk E0; dirty = dirty_arg E0
      in [BIN, Op_ufn, Op_ufn, byte1 (\<lambda>n :: DLbyte. RESTLIST E0 (uint n)), Op_ufn, Op_ufn,
            N_OP_CALL_2 (N_OP_rplcons chk dirty), LISTGET,
          Op_ufn, Op_ufn, Op_ufn, Op_ufn, EVAL, OP_ENVCALL, atom1 DTEST, STKSCAN,
          Op_ufn, Op_ufn,
            byte1 (\<lambda>n :: DLbyte. N_OP_UNBOXED_CALL_3d (\<lambda>a b t s. pure_op (N_OP_ubfloat3 E0 a b t (uint n) s) s)),
            byte1 TYPEMASK, Op_ufn, Op_ufn, Op_ufn, Op_ufn,
          byte1 (\<lambda>n :: DLbyte. N_OP_CALL_7d (\<lambda>a b c d e f g. N_OP_misc7 a b c d e f g (uint n))), Op_ufn,
            N_OP_CALL_2 (pure_2 N_OP_eqlop), N_OP_CALL_9 N_OP_drawline, byte1 STOREN, byte1 COPYN, Op_ufn, Op_ufn])"

definition opcodes_100 :: "em_env \<Rightarrow> (cpu \<Rightarrow> op_exit) list" where
  "opcodes_100 E =
     [IVARMACRO 0, IVARMACRO 1, IVARMACRO 2, IVARMACRO 3, IVARMACRO 4, IVARMACRO 5, IVARMACRO 6, byte1 IVARX,
      PVARMACRO 0, PVARMACRO 1, PVARMACRO 2, PVARMACRO 3, PVARMACRO 4, PVARMACRO 5, PVARMACRO 6, byte1 PVARX,
      FVAR 0, FVAR 2, FVAR 4, FVAR 6, FVAR 8, FVAR 10, FVAR 12, byte1 FVARX,
      PVARSETMACRO 0, PVARSETMACRO 1, PVARSETMACRO 2, PVARSETMACRO 3, PVARSETMACRO 4, PVARSETMACRO 5, PVARSETMACRO 6,
        byte1 PVARX_set,
      atom1 GVAR, \<lambda>c. N_OP_CALL_1 (\<lambda>t s. pure_op (N_OP_arg0 t c) s) c, byte1 IVARX_set, byte1 FVARX_set, COPY,
        MYARGCOUNT, MYALINK, ACONST,
      PUSHATOM NIL, PUSHATOM ATOM_T, PUSHATOM S_POSITIVE, PUSHATOM 0xE0001, SIC, SNIC, SICX, GCONST,
      Op_ufn, Op_ufn, Op_ufn, Op_ufn, Op_ufn, Op_ufn, PILOTBITBLT, Op_ufn,
      Op_ufn, Op_ufn, Op_ufn, GCSCAN1, GCSCAN2, Op_ufn, Op_ufn, Op_ufn]"

definition opcodes_200 :: "em_env \<Rightarrow> (cpu \<Rightarrow> op_exit) list" where
  "opcodes_200 E =
     [JUMPMACRO 2, JUMPMACRO 3, JUMPMACRO 4, JUMPMACRO 5, JUMPMACRO 6, JUMPMACRO 7, JUMPMACRO 8, JUMPMACRO 9,
      JUMPMACRO 10, JUMPMACRO 11, JUMPMACRO 12, JUMPMACRO 13, JUMPMACRO 14, JUMPMACRO 15, JUMPMACRO 16, JUMPMACRO 17,
      FJUMPMACRO 2, FJUMPMACRO 3, FJUMPMACRO 4, FJUMPMACRO 5, FJUMPMACRO 6, FJUMPMACRO 7, FJUMPMACRO 8, FJUMPMACRO 9,
      FJUMPMACRO 10, FJUMPMACRO 11, FJUMPMACRO 12, FJUMPMACRO 13, FJUMPMACRO 14, FJUMPMACRO 15, FJUMPMACRO 16,
        FJUMPMACRO 17,
      TJUMPMACRO 2, TJUMPMACRO 3, TJUMPMACRO 4, TJUMPMACRO 5, TJUMPMACRO 6, TJUMPMACRO 7, TJUMPMACRO 8, TJUMPMACRO 9,
      TJUMPMACRO 10, TJUMPMACRO 11, TJUMPMACRO 12, TJUMPMACRO 13, TJUMPMACRO 14, TJUMPMACRO 15, TJUMPMACRO 16,
        TJUMPMACRO 17,
      JUMPX, JUMPXX, FJUMPX, TJUMPX, NFJUMPX, NTJUMPX, AREF1 (numeric E), N_OP_CALL_3 N_OP_aset1,
      PVARSETPOPMACRO 0, PVARSETPOPMACRO 1, PVARSETPOPMACRO 2, PVARSETPOPMACRO 3, PVARSETPOPMACRO 4, PVARSETPOPMACRO 5,
        PVARSETPOPMACRO 6, \<lambda>c. nextop 1 (POP c)]"

definition opcodes_300 :: "em_env \<Rightarrow> (cpu \<Rightarrow> op_exit) list" where
  "opcodes_300 E =
     (let E0 = numeric E
      in [byte1 POPN, byte1 ATOMCELL_N, GETBASEBYTE, atom1 INSTANCEP, N_OP_CALL_3 N_OP_blt, Op_ufn, Op_ufn, PUTBASEBYTE,
          byte1 GETBASE_N, byte1 GETBASEPTR_N, byte2 (\<lambda>a bb :: DLbyte. GETBITS_N_M a (unat bb)), Op_ufn,
            N_OP_CALL_2 (pure_2 N_OP_clequal), byte1 PUTBASE_N, byte1 PUTBASEPTR_N,
            byte2 (\<lambda>a bb :: DLbyte. PUTBITS_N_M a (unat bb)),
          N_OP_CALL_2 (pure_2 N_OP_addbase), N_OP_VAG2, N_OP_HILOC, N_OP_LOLOC, N_OP_CALL_2 (N_OP_plus2 E0),
            N_OP_CALL_2 (N_OP_difference E0), N_OP_CALL_2 (N_OP_times2 E0), N_OP_CALL_2 (N_OP_quot E0),
          N_OP_CALL_2 (N_OP_iplus2 E0), N_OP_CALL_2 (N_OP_idifference E0), N_OP_CALL_2 (N_OP_itimes2 E0),
            N_OP_CALL_2 (N_OP_iquot E0), N_OP_CALL_2 (N_OP_iremainder E0),
            byte1 (\<lambda>n. N_OP_CALL_1d (\<lambda>t. N_OP_iplusn E0 t n)), byte1 (\<lambda>n. N_OP_CALL_1d (\<lambda>t. N_OP_idifferencen E0 t n)),
            Op_ufn])"

definition opcodes_340 :: "em_env \<Rightarrow> (cpu \<Rightarrow> op_exit) list" where
  "opcodes_340 E =
     (let E0 = numeric E
      in [N_OP_CALL_1 (N_OP_llsh1 E0), N_OP_CALL_1 (N_OP_llsh8 E0), N_OP_CALL_1 (N_OP_lrsh1 E0),
            N_OP_CALL_1 (N_OP_lrsh8 E0), N_OP_CALL_2 (N_OP_logor E0), N_OP_CALL_2 (N_OP_logand E0),
            N_OP_CALL_2 (N_OP_logxor E0), N_OP_CALL_2 (N_OP_lsh E0),
          N_OP_CALL_2 (N_OP_fplus2 E0), N_OP_CALL_2 (N_OP_fdifference E0), N_OP_CALL_2 (N_OP_ftimes2 E0),
            N_OP_CALL_2 (N_OP_fquotient E0),
            byte1 (\<lambda>n :: DLbyte. N_OP_UNBOXED_CALL_2d (\<lambda>a t s. pure_op (N_OP_ubfloat2 E0 a t (uint n)) s)),
            byte1 (\<lambda>n :: DLbyte. N_OP_UNBOXED_CALL_1d (\<lambda>t. N_OP_ubfloat1 E0 t (uint n))),
            N_OP_CALL_3 (N_OP_aref2 E0), N_OP_CALL_4 N_OP_aset2,
          EQ, N_OP_CALL_2 (N_OP_igreaterp E0), N_OP_CALL_2 (N_OP_fgreaterp E0), N_OP_CALL_2 (N_OP_greaterp E0),
            N_OP_CALL_2 (pure_2 (N_OP_equal E0)), N_OP_CALL_2 (N_OP_makenumber E0), N_OP_CALL_2 N_OP_boxiplus,
            N_OP_CALL_2 N_OP_boxidiff,
          Op_ufn, Op_ufn, byte1 (\<lambda>n :: DLbyte. N_OP_CALL_3d (\<lambda>a b t. N_OP_misc3 E0 a b t (uint n))),
            byte1 (\<lambda>n :: DLbyte. N_OP_CALL_4d (\<lambda>a b c t. N_OP_misc4 a b c t (uint n))), Op_ufn, SWAP, nextop 1,
            CLARITHEQUAL E0])"

definition opcode_table :: "em_env \<Rightarrow> nat \<Rightarrow> cpu \<Rightarrow> op_exit" where
  "opcode_table E b =
     (if b < 32 then opcodes_000 E ! b else if b < 64 then opcodes_040 E ! (b - 32)
      else if b < 128 then opcodes_100 E ! (b - 64) else if b < 192 then opcodes_200 E ! (b - 128)
      else if b < 224 then opcodes_300 E ! (b - 192) else opcodes_340 E ! (b - 224))"

section \<open>One opcode\<close>

text \<open>
  Where the loop goes after an opcode: to \<open>nextopcode\<close>, to \<open>check_interrupt\<close>, to
  \<open>stackoverflow_help\<close>, or nowhere. \<open>Ufn_exit\<close> does not occur.
\<close>

datatype em_exit = Nextopcode stkm | Irq_check stkm | Overflow_help stkm | Ufn_exit stkm | Stopped lisp_error

definition leave :: "op_exit \<Rightarrow> stkm \<Rightarrow> em_exit" where
  "leave x m =
     (case x of Nextop c \<Rightarrow> Nextopcode (m\<lparr>cp := c\<rparr>) | Check_interrupt c \<Rightarrow> Irq_check (m\<lparr>cp := c\<rparr>)
      | Op_ufn c \<Rightarrow> Ufn_exit (m\<lparr>cp := c\<rparr>) | Fault e \<Rightarrow> Stopped e)"

definition goto_ufn :: "em_env \<Rightarrow> op_exit \<Rightarrow> op_exit" where
  "goto_ufn E x = (case x of Op_ufn c \<Rightarrow> op_ufn (UFNTable E) c | _ \<Rightarrow> x)"

definition RETURN :: "stkm \<Rightarrow> em_exit" where
  "RETURN m =
     (case OPRETURN_full m of Inl e \<Rightarrow> Stopped e | Inr (Stk_overflow_help m1) \<Rightarrow> Overflow_help m1
      | Inr (Stk_exit x m1) \<Rightarrow> leave x m1)"

definition SUBRCALL :: "em_env \<Rightarrow> stkm \<Rightarrow> em_exit" where
  "SUBRCALL E m =
     (let c = cp m
      in case OP_subrcall E (Get_BYTE_PCMAC 1 c) (Get_BYTE_PCMAC 2 c) (EXT m) of
           Inl e \<Rightarrow> Stopped e | Inr m1 \<Rightarrow> Nextopcode (RET m1))"

definition MISCN :: "em_env \<Rightarrow> stkm \<Rightarrow> em_exit" where
  "MISCN E m =
     (let c = cp m
      in case OP_miscn E (Get_BYTE_PCMAC 1 c) (Get_BYTE_PCMAC 2 c) (EXT m) of
           Inl e \<Rightarrow> Stopped e
         | Inr (punted, m1) \<Rightarrow>
             (if punted then leave (goto_ufn E (Op_ufn (cp (RET m1)))) (RET m1) else Nextopcode (RET m1)))"

definition RCLK :: "em_env \<Rightarrow> stkm \<Rightarrow> em_exit" where
  "RCLK E m = leave (nextop 1 (poke_cell (TOPOFSTACK (cp m)) (clock_usec E m) (cp m))) m"

definition CONTEXTSWITCH :: "stkm \<Rightarrow> em_exit" where
  "CONTEXTSWITCH m =
     (case OP_contextsw (EXT m) of Inl e \<Rightarrow> Stopped e | Inr m1 \<Rightarrow> Nextopcode (CLR_IRQ (RET m1)))"

definition dispatch :: "em_env \<Rightarrow> stkm \<Rightarrow> em_exit" where
  "dispatch E m =
     (let b = unat (Get_BYTE_PCMAC 0 (cp m))
      in if b = 16 then RETURN m
         else if b = 36 then MISCN E m
         else if b = 119 then RCLK E m
         else if b = 125 then SUBRCALL E m
         else if b = 126 then CONTEXTSWITCH m
         else leave (goto_ufn E (opcode_table E b (cp m))) m)"

section \<open>The loop\<close>

definition loop_step :: "em_env \<Rightarrow> em \<Rightarrow> em res" where
  "loop_step E x =
     (case dispatch E (sm x) of
        Nextopcode m \<Rightarrow> Inr (x\<lparr>sm := m\<rparr>)
      | Irq_check m \<Rightarrow> check_interrupt E (x\<lparr>sm := m\<rparr>)
      | Overflow_help m \<Rightarrow> overflow_in_return E (x\<lparr>sm := m\<rparr>)
      | Ufn_exit m \<Rightarrow> Inr (x\<lparr>sm := m\<rparr>)
      | Stopped e \<Rightarrow> Inl e)"

primrec loop_steps :: "em_env \<Rightarrow> nat \<Rightarrow> em \<Rightarrow> em res" where
  "loop_steps E 0 x = Inr x"
| "loop_steps E (Suc n) x = rbind (loop_step E x) (loop_steps E n)"

text \<open>
  A signal handler may ask for an interrupt between any two opcodes, by clearing the limits the
  checks compare with.
\<close>

inductive em_step :: "em_env \<Rightarrow> em \<Rightarrow> em \<Rightarrow> bool" for E where
  opcode: "loop_step E x = Inr y \<Longrightarrow> em_step E x y"
| signal: "em_step E x (on_sm (set_irq 0 0) x)"

end
