(* ===== verification/Interrupt_Laws.thy ===== *)
theory Interrupt_Laws
  imports Interrupts
begin

text \<open>
  An interrupt is invisible to the code it interrupts: \<open>cause_interruptcall\<close> pushes the frame of
  the interrupt function above everything the interrupted frame uses, and when that frame returns,
  through the slow return, the machine is where it was.
\<close>

section \<open>Words of the stack\<close>

lemma stk_pos_off [simp]:
  "stk_pos k + numeral n = stk_pos (k + numeral n)" "stk_pos k - numeral n = stk_pos (k - numeral n)"
  "numeral n + stk_pos k = stk_pos (k + numeral n)" "stk_pos k - 1 = stk_pos (k - 1)"
  by (simp_all add: stk_pos_def)

lemma sw_setword:
  assumes "0 \<le> k" "k < 0x10000" "0 \<le> j" "j < 0x10000"
  shows "sw (setword (stk_pos k) w s) j = (if j = k then w else sw s j)"
  using assms stk_pos_eq [of j k] words.get_put_same words.get_put_other
  by (auto simp: sw_def setword_def poke_def)

lemma rd_stk: "0 \<le> k \<Longrightarrow> k < 0x10000 \<Longrightarrow> even k \<Longrightarrow> rd s (stk_pos k) = join_words (sw s k) (sw s (k + 1))"
  using even_stk_pos [of k] cell_of_pair [of "stk_pos k"] by (simp add: sw_def rd_def getcell_words)

lemma lo_word_int: "lo_word (word_of_int k) = word_of_int k"
  by (rule bit_word_eqI) (simp add: lo_word_def bit_ucast_iff bit_word_of_int_iff)

lemma stk_off_pos [simp]: "stk_off (stk_pos k) = word_of_int k"
  using lo_word_int [of k] by (simp add: stk_off_def stack_offset_def stk_pos_def)

lemma lo_word_pos: "lo_word (stk_pos k) = word_of_int k"
proof -
  have "stk_pos k = word_of_int (0x10000 + k)" by (simp add: stk_pos_def STK_OFFSET_def)
  moreover have "(word_of_int (0x10000 + k) :: DLword) = word_of_int k" by simp
  ultimately show ?thesis by (simp only: lo_word_int)
qed

lemma PC_at_fields [simp]:
  "mv (PC_at pc m) = mv m" "CurrentStackPTR (PC_at pc m) = CurrentStackPTR m" "cp (PC_at pc m) = (cp m)\<lparr>PCMAC := pc\<rparr>"
  by (simp_all add: PC_at_def mv_def)

lemma upd_vm_twice [simp]: "upd_vm s (upd_vm t m) = upd_vm s m" by (simp add: upd_vm_def)

lemma fx_words:
  "fx_alink s (stk_pos k) = sw s (k + 1)" "fx_nextblock s (stk_pos k) = sw s (k + 4)" "fx_pc s (stk_pos k) = sw s (k + 5)"
  "fx_blink s (stk_pos k) = sw s (k + 8)" "fx_clink s (stk_pos k) = sw s (k + 9)"
  "fx_usecount s (stk_pos k) = sw s k AND 0xFF" "fx_incall s (stk_pos k) = bit (sw s k) 10"
  "fx_nopush s (stk_pos k) = bit (sw s k) 8" "bf_usecnt s (stk_pos k) = sw s k AND 0xFF"
  "bf_residual s (stk_pos k) = bit (sw s k) 9" "FSBP s (stk_pos k) \<longleftrightarrow> sw s k = STK_FSB_WORD"
  by (simp_all add: fx_alink_def fx_nextblock_def fx_pc_def fx_blink_def fx_clink_def fx_usecount_def fx_incall_def
      fx_nopush_def bf_usecnt_def bf_residual_def FSBP_def sw_def)

section \<open>What stays\<close>

text \<open>Lisp code and definition cells lie above the stack.\<close>

definition code_kept :: "vm \<Rightarrow> vm \<Rightarrow> bool" where
  "code_kept s s' \<longleftrightarrow> (\<forall>a. 0x80000 \<le> uint a \<longrightarrow> mem s' a = mem s a)"

lemma code_kept_refl [simp]: "code_kept s s" by (simp add: code_kept_def)
lemma code_kept_trans: "code_kept s s' \<Longrightarrow> code_kept s' s'' \<Longrightarrow> code_kept s s''" by (simp add: code_kept_def)

lemma cell_of_stk: "0 \<le> k \<Longrightarrow> k < 0x20000 \<Longrightarrow> uint (cell_of (stk_pos k)) < 0x80000"
  using cell_of_half [of "stk_pos k"] uint_stk_pos [of k] by presburger

lemma code_kept_setword: "0 \<le> k \<Longrightarrow> k < 0x20000 \<Longrightarrow> code_kept s (setword (stk_pos k) w s)"
  using cell_of_stk [of k] by (auto simp: code_kept_def setword_def poke_def putword_def Let_def)

lemma code_kept_wr: "0 \<le> k \<Longrightarrow> k < 0x20000 \<Longrightarrow> code_kept s (wr (stk_pos k) v s)"
  using uint_stk_pos [of k] by (auto simp: code_kept_def wr_def putcell_def)

lemma code_kept_set_nopush: "0 \<le> k \<Longrightarrow> k < 0x20000 \<Longrightarrow> code_kept s (set_nopush b (stk_pos k) s)"
  using code_kept_setword by (simp add: set_nopush_def)

lemma fn_kept:
  assumes "code_kept s s'" "0x80000 \<le> uint fn" "uint fn < 2 ^ 28"
  shows "fn_na s' fn = fn_na s fn" "fn_pv s' fn = fn_pv s fn" "fn_stkmin s' fn = fn_stkmin s fn"
    "fn_startpc s' fn = fn_startpc s fn"
proof -
  have h: "high_kept \<lparr>st = s, TOPOFSTACK = 0, CSTKPTR = 0, PCMAC = 0, PVAR = 0, IVAR = 0, TopOfStack = 0,
      Irq_Stk_Check = 0, FuncObj = 0, EndSTKP = 0\<rparr> \<lparr>st = s', TOPOFSTACK = 0, CSTKPTR = 0, PCMAC = 0, PVAR = 0,
      IVAR = 0, TopOfStack = 0, Irq_Stk_Check = 0, FuncObj = 0, EndSTKP = 0\<rparr>"
    using assms(1) by (simp add: high_kept_def code_kept_def)
  show "fn_na s' fn = fn_na s fn" "fn_pv s' fn = fn_pv s fn" "fn_startpc s' fn = fn_startpc s fn"
    using fn_fields_kept [OF h assms(2,3)] by simp_all
  show "fn_stkmin s' fn = fn_stkmin s fn" using high_kept_word [OF h assms(2)] by (simp add: fn_stkmin_def)
qed

lemma rd_code: "code_kept s s' \<Longrightarrow> 0x80000 \<le> uint a \<Longrightarrow> rd s' a = rd s a"
  by (simp add: code_kept_def rd_def getcell_def)

section \<open>The interrupted frame\<close>

text \<open>
  A machine outside the loop whose current frame is at \<open>f\<close>, whose last stack cell is at \<open>c\<close>
  and whose free space ends at \<open>e\<close>: the registers agree with the frame, which is fast or slow,
  used once and not waiting for a value.
\<close>

definition interruptible :: "stkm \<Rightarrow> int \<Rightarrow> int \<Rightarrow> int \<Rightarrow> bool" where
  "interruptible m f c e \<longleftrightarrow>
     2 \<le> f \<and> f + 8 \<le> c \<and> c < e \<and> e < 0x10000 \<and> even f \<and> even c \<and> even e \<and>
     PVAR (cp m) = stk_pos (f + 10) \<and> CurrentStackPTR m = stk_pos c \<and> EndSTKP (cp m) = stk_pos e \<and>
     IVAR (cp m) = stk_at (sw (mv m) (f - 1)) \<and> FuncObj (cp m) = rd (mv m) (stk_pos (f + 2)) \<and>
     uint (PCMAC (cp m) - code_base (FuncObj (cp m))) < 0x10000 \<and>
     sw (mv m) f AND 0xFF = 0 \<and> \<not> bit (sw (mv m) f) 8 \<and> \<not> bit (sw (mv m) f) 10"

text \<open>The same frame while it waits, in the memory \<open>s\<close>.\<close>

definition suspended :: "stkm \<Rightarrow> int \<Rightarrow> int \<Rightarrow> vm \<Rightarrow> bool" where
  "suspended m f c s \<longleftrightarrow>
     sw s f = sw (mv m) f OR 0x100 \<and> sw s (f + 4) = word_of_int (c + 4) \<and>
     sw s (f + 5) = ucast (PCMAC (cp m) - code_base (FuncObj (cp m))) \<and>
     sw s (c + 2) = hi_word (TopOfStack (cp m)) \<and> sw s (c + 3) = lo_word (TopOfStack (cp m)) \<and>
     (\<forall>j. 0 \<le> j \<and> j < c + 2 \<and> j \<noteq> f \<and> j \<noteq> f + 4 \<and> j \<noteq> f + 5 \<longrightarrow> sw s j = sw (mv m) j)"

lemma suspend_frame_law:
  assumes "interruptible m f c e" "c + 4 < 0x10000"
  defines "m1 \<equiv> suspend_frame m"
  shows "suspended m f c (mv m1)" "code_kept (mv m) (mv m1)"
    "cp m1 = (cp m)\<lparr>st := mv m1, IVAR := stk_pos (c + 4)\<rparr>" "CurrentStackPTR m1 = stk_pos (c + 2)"
proof -
  have r: "2 \<le> f" "f + 8 \<le> c" "c < e" "e < 0x10000" "even f" "even c" "even e"
    "PVAR (cp m) = stk_pos (f + 10)" "CurrentStackPTR m = stk_pos c"
    using assms(1) by (simp_all add: interruptible_def)
  then have ce: "c + 2 \<le> e" by presburger
  have fx: "cfx m = stk_pos f" using r(8) by (simp add: cfx_def CURRENTFX_def FRAMESIZE_def)
  define s1 where "s1 = setword (stk_pos (f + 4)) (word_of_int (c + 4)) (set_nopush True (stk_pos f) (mv m))"
  define s2 where "s2 = wr (stk_pos (c + 2)) (TopOfStack (cp m)) s1"
  define s3 where "s3 = setword (stk_pos (f + 5)) (ucast (PCMAC (cp m) - code_base (FuncObj (cp m)))) s2"
  have w: "sw s2 (f + 4) = word_of_int (c + 4)" using r ce by (simp add: s2_def s1_def sw_wr sw_setword)
  have iv: "stk_at (word_of_int (c + 4)) = stk_pos (c + 4)" using stk_at_of_int [of "c + 4"] r assms(2) by simp
  have m1: "m1 = upd_vm s3 (m\<lparr>cp := (cp m)\<lparr>IVAR := stk_pos (c + 4)\<rparr>, CurrentStackPTR := stk_pos (c + 2)\<rparr>)"
    using r fx w iv
    by (simp add: m1_def suspend_frame_def Let_def PushCStack_def PushStack_def upd_vm_def mv_def cfx_def
        CURRENTFX_def FRAMESIZE_def s3_def s2_def s1_def fx_words)
  show "suspended m f c (mv m1)" 
    using r ce by (auto simp: m1 suspended_def s3_def s2_def s1_def set_nopush_def sw_setword sw_wr simp flip: sw_def) 
  show "code_kept (mv m) (mv m1)"
    using r ce by (auto simp: m1 s3_def s2_def s1_def intro!: code_kept_trans [OF _ code_kept_setword]
      code_kept_trans [OF _ code_kept_wr] code_kept_set_nopush)
  show "cp m1 = (cp m)\<lparr>st := mv m1, IVAR := stk_pos (c + 4)\<rparr>" "CurrentStackPTR m1 = stk_pos (c + 2)"
    by (simp_all add: m1)
qed

section \<open>The frame of the interrupt function\<close>

text \<open>The basic frame and the links of the frame at \<open>g\<close>, called from the one at \<open>f\<close>.\<close>

definition interrupt_frame :: "int \<Rightarrow> int \<Rightarrow> vm \<Rightarrow> bool" where
  "interrupt_frame f g s \<longleftrightarrow>
     sw s (g - 2) = BF_MARK \<and> sw s (g + 1) = word_of_int (f + 11) \<and> sw s (g + 8) = word_of_int (g - 2) \<and>
     sw s (g + 9) = word_of_int (f + 10)"

text \<open>A step that writes nothing below \<open>k\<close>, and the registers a step may change.\<close>

definition above :: "int \<Rightarrow> stkm \<Rightarrow> stkm \<Rightarrow> bool" where
  "above k m m' \<longleftrightarrow> (\<forall>j. 0 \<le> j \<and> j < k \<longrightarrow> sw (mv m') j = sw (mv m) j) \<and> code_kept (mv m) (mv m') \<and>
     cp m' = (cp m)\<lparr>st := mv m'\<rparr>"

lemma above_refl [simp]: "above k m m" by (simp add: above_def mv_def)

lemma above_trans: "above k m m' \<Longrightarrow> above l m' m'' \<Longrightarrow> k \<le> l \<Longrightarrow> above k m m''"
proof -
  assume a: "above k m m'" "above l m' m''" "k \<le> l"
  have "cp m'' = ((cp m)\<lparr>st := mv m'\<rparr>)\<lparr>st := mv m''\<rparr>" using a(1,2) by (simp only: above_def)
  then show ?thesis using a code_kept_trans [of "mv m" "mv m'" "mv m''"] by (simp add: above_def)
qed

lemma above_wr:
  assumes "0 \<le> k" "k < 0xFFFF" "even k"
  shows "above k m (upd_vm (wr (stk_pos k) v (mv m)) (m\<lparr>CurrentStackPTR := p\<rparr>))"
  using assms code_kept_wr by (auto simp: above_def sw_wr)

lemma push_nils_law:
  "\<lbrakk>CurrentStackPTR m = stk_pos k; 0 \<le> k; even k; k + 2 * int n < 0xFFFE\<rbrakk> \<Longrightarrow>
   CurrentStackPTR (push_nils n m) = stk_pos (k + 2 * int n) \<and> above (k + 2) m (push_nils n m)"
proof (induction n arbitrary: m k)
  case (Suc n)
  have p: "PushStack NIL m = upd_vm (wr (stk_pos (k + 2)) NIL (mv m)) (m\<lparr>CurrentStackPTR := stk_pos (k + 2)\<rparr>)"
    using Suc.prems(1) by (simp add: PushStack_def Let_def)
  have "above (k + 2) m (PushStack NIL m)" using Suc.prems unfolding p by (intro above_wr) auto
  moreover have "CurrentStackPTR (push_nils n (PushStack NIL m)) = stk_pos (k + 2 + 2 * int n) \<and>
      above (k + 2 + 2) (PushStack NIL m) (push_nils n (PushStack NIL m))"
    using Suc.prems by (intro Suc.IH) (auto simp: p)
  ultimately show ?case using above_trans [of "k + 2" m _ "k + 2 + 2"] by (auto simp: algebra_simps)
qed simp

lemma unbound_cells_law:
  "\<lbrakk>CurrentStackPTR m = stk_pos k; 0 \<le> k; even k; k + 2 * int n \<le> 0xFFFE\<rbrakk> \<Longrightarrow>
   CurrentStackPTR (unbound_cells n m) = stk_pos (k + 2 * int n) \<and> above k m (unbound_cells n m)"
proof (induction n arbitrary: m k)
  case (Suc n)
  define m1 where "m1 = upd_vm (wr (stk_pos k) UNBOUND (mv m)) (m\<lparr>CurrentStackPTR := stk_pos (k + 2)\<rparr>)"
  have "above k m m1" using Suc.prems unfolding m1_def by (intro above_wr) auto
  moreover have "CurrentStackPTR (unbound_cells n m1) = stk_pos (k + 2 + 2 * int n) \<and>
      above (k + 2) m1 (unbound_cells n m1)"
    using Suc.prems by (intro Suc.IH) (auto simp: m1_def)
  moreover have "unbound_cells (Suc n) m = unbound_cells n m1" using Suc.prems(1) by (simp add: m1_def)
  ultimately show ?case using above_trans [of k m m1 "k + 2"] by (auto simp: algebra_simps)
qed simp

lemma interrupt_links_law:
  fixes defptr :: LispPTR
  assumes "CurrentStackPTR m = stk_pos k" "PVAR (cp m) = stk_pos (f + 10)" "0 \<le> f" "f + 8 \<le> k" "even k" "even f"
    "k + 14 < 0x10000"
  defines "m1 \<equiv> interrupt_links defptr m"
  shows "interrupt_frame f (k + 4) (mv m1)" "\<forall>j. 0 \<le> j \<and> j < k + 2 \<longrightarrow> sw (mv m1) j = sw (mv m) j"
    "code_kept (mv m) (mv m1)" "cp m1 = (cp m)\<lparr>PVAR := stk_pos (k + 14), st := mv m1\<rparr>"
    "CurrentStackPTR m1 = stk_pos (k + 14)"
proof -
  have e: "even (k + 2)" "even (k + 4)" "even (k + 6)" using assms(5) by simp_all
  show "interrupt_frame f (k + 4) (mv m1)"
    using assms(1-7) e
    by (simp add: m1_def interrupt_links_def interrupt_frame_def Let_def sw_setword sw_wr)
  show "\<forall>j. 0 \<le> j \<and> j < k + 2 \<longrightarrow> sw (mv m1) j = sw (mv m) j"
    using assms(1-7) e by (simp add: m1_def interrupt_links_def Let_def sw_setword sw_wr)
  show "code_kept (mv m) (mv m1)"
    using assms(1-7) by (auto simp: m1_def interrupt_links_def Let_def intro!: code_kept_trans [OF _ code_kept_setword]
      code_kept_trans [OF _ code_kept_wr] code_kept_setword)
  show "cp m1 = (cp m)\<lparr>PVAR := stk_pos (k + 14), st := mv m1\<rparr>" "CurrentStackPTR m1 = stk_pos (k + 14)"
    using assms(1) by (simp_all add: m1_def interrupt_links_def Let_def FRAMESIZE_def add.commute)
qed

text \<open>The function is compiled code, and its frame fits above \<open>c\<close>.\<close>

definition handler_of :: "stkm \<Rightarrow> LispPTR \<Rightarrow> LispPTR" where
  "handler_of m atom_index = defpointer (rd (mv m) (GetDEFCELL68k atom_index))"

definition handler_args :: "stkm \<Rightarrow> LispPTR \<Rightarrow> int" where
  "handler_args m atom_index = int (nat (fn_na (mv m) (handler_of m atom_index)))"

definition handler_fits :: "stkm \<Rightarrow> LispPTR \<Rightarrow> int \<Rightarrow> int \<Rightarrow> bool" where
  "handler_fits m atom_index c e \<longleftrightarrow>
     (let fn = handler_of m atom_index
      in 0x80000 \<le> uint (GetDEFCELL68k atom_index) \<and> 0x80000 \<le> uint fn \<and>
         c + 34 + uint (fn_stkmin (mv m) fn) \<le> e \<and>
         c + 20 + 2 * handler_args m atom_index + 4 * int (nat (fn_pv (mv m) fn + 1)) \<le> e)"

lemma cause_interruptcall_law:
  assumes "interruptible m f c e" "handler_fits m atom_index c e"
  defines "g \<equiv> c + 6 + 2 * handler_args m atom_index"
  obtains m1 where "cause_interruptcall atom_index m = Inr m1" "suspended m f c (mv m1)" "interrupt_frame f g (mv m1)"
    "PVAR (cp m1) = stk_pos (g + 10)" "IVAR (cp m1) = stk_pos (c + 4)" "EndSTKP (cp m1) = EndSTKP (cp m)" "even g"
    "c + 6 \<le> g"
proof -
  define fn where "fn = handler_of m atom_index"
  define na where "na = nat (fn_na (mv m) fn)"
  define pv where "pv = nat (fn_pv (mv m) fn + 1)"
  define d where "d = GetDEFCELL68k atom_index"
  have r: "2 \<le> f" "f + 8 \<le> c" "e < 0x10000" "even f" "even c" "even e" "PVAR (cp m) = stk_pos (f + 10)"
    "EndSTKP (cp m) = stk_pos e"
    using assms(1) by (simp_all add: interruptible_def)
  have h: "0x80000 \<le> uint d" "0x80000 \<le> uint fn" "uint fn < 2 ^ 28" "c + 34 + uint (fn_stkmin (mv m) fn) \<le> e"
    "c + 20 + 2 * int na + 4 * int pv \<le> e" and g: "g = c + 6 + 2 * int na"
    using assms(2) defpointer_uint
    by (simp_all add: handler_fits_def Let_def handler_args_def fn_def na_def pv_def g_def d_def handler_of_def)
  define m1 where "m1 = suspend_frame m"
  define m3 where "m3 = m1\<lparr>cp := (cp m1)\<lparr>FuncObj := fn\<rparr>\<rparr>"
  define m4 where "m4 = push_nils na m3"
  define m5 where "m5 = interrupt_links fn m4"
  define m6 where "m6 = unbound_cells (2 * pv) m5"
  have c4: "c + 4 < 0x10000" using h(4) r(3) uint_ge_0 [of "fn_stkmin (mv m) fn"] by linarith
  have m1: "suspended m f c (mv m1)" "code_kept (mv m) (mv m1)"
    "cp m1 = (cp m)\<lparr>st := mv m1, IVAR := stk_pos (c + 4)\<rparr>" "CurrentStackPTR m1 = stk_pos (c + 2)"
    unfolding m1_def using suspend_frame_law [OF assms(1) c4] by auto
  have m3: "mv m3 = mv m1" "CurrentStackPTR m3 = stk_pos (c + 2)" by (simp_all add: m3_def mv_def m1(4))
  have m4: "CurrentStackPTR m4 = stk_pos (g - 4)" "above (c + 4) m3 m4"
    using push_nils_law [OF m3(2), of na] r h(5) by (simp_all add: m4_def g algebra_simps)
  have pvar4: "PVAR (cp m4) = stk_pos (f + 10)" using m4(2) m1(3) r(7) by (simp add: above_def m3_def)
  have m5: "interrupt_frame f g (mv m5)" "\<forall>j. 0 \<le> j \<and> j < g - 2 \<longrightarrow> sw (mv m5) j = sw (mv m4) j"
    "code_kept (mv m4) (mv m5)" "cp m5 = (cp m4)\<lparr>PVAR := stk_pos (g + 10), st := mv m5\<rparr>"
    "CurrentStackPTR m5 = stk_pos (g + 10)"
    using interrupt_links_law [OF m4(1) pvar4, of fn] r h(5) by (simp_all add: m5_def g algebra_simps)
  have m6: "CurrentStackPTR m6 = stk_pos (g + 10 + 4 * int pv)" "above (g + 10) m5 m6"
    using unbound_cells_law [OF m5(5), of "2 * pv"] r h(5) by (simp_all add: m6_def g algebra_simps)
  define csp where "csp = g + 10 + 4 * int pv"
  have csp: "0 < csp" "even csp" "csp + 4 \<le> e" "g + 10 \<le> csp" using r h(5) by (simp_all add: csp_def g)
  define s8 where "s8 = wr (stk_pos csp) (block_cell STK_FSB_WORD (e - csp)) (setword (stk_pos (g + 4)) (word_of_int csp) (mv m6))"
  define m8 where "m8 = upd_vm s8 (PC_at (code_base fn + fn_startpc (mv m6) fn) m6)"
  have kept: "code_kept (mv m) (mv m3)" "code_kept (mv m) (mv m4)" "code_kept (mv m) (mv m6)"
    using m1(2) m3 m4(2) m5(3) m6(2) code_kept_trans by (simp_all add: above_def) metis+
  have d: "rd (mv m1) d = rd (mv m) d" "rd (mv m4) d = rd (mv m) d"
    using kept(1,2) m3(1) h(1) by (simp_all add: rd_code)
  have f1: "fn_stkmin (mv m1) fn = fn_stkmin (mv m) fn" "fn_na (mv m3) fn = fn_na (mv m) fn"
    using fn_kept [OF kept(1) h(2,3)] m3(1) by simp_all
  have f2: "fn_pv (mv m5) fn = fn_pv (mv m) fn"
    using fn_kept [OF code_kept_trans [OF kept(2) m5(3)] h(2,3)] by simp
  have fn: "fn = defpointer (rd (mv m) d)" by (simp add: fn_def handler_of_def d_def)
  have room: "\<not> CurrentStackPTR m1 + fn_stkmin (mv m1) fn + STK_SAFE > EndSTKP (cp m1)"
  proof -
    have "CurrentStackPTR m1 + fn_stkmin (mv m1) fn + STK_SAFE = stk_pos (c + 2 + uint (fn_stkmin (mv m) fn) + 32)"
      using stk_pos_plus [of "c + 2" "uint (fn_stkmin (mv m) fn)"] by (simp add: m1(4) f1 STK_SAFE_def)
    moreover have "EndSTKP (cp m1) = stk_pos e" by (simp add: m1(3) r(8))
    ultimately show ?thesis
      using h(4) r uint_ge_0 [of "fn_stkmin (mv m) fn"] stk_pos_less [of e "c + 2 + uint (fn_stkmin (mv m) fn) + 32"]
      by simp
  qed
  have len: "uint (stk_pos e - stk_pos csp) = e - csp"
    using csp r(3) by (simp add: stk_pos_def uint_word_of_int flip: of_int_diff)
  have cfx6: "cfx (PC_at pc m6) = stk_pos g" for pc
    using m6(2) m5(4) by (simp add: above_def cfx_def CURRENTFX_def FRAMESIZE_def)
  have end6: "EndSTKP (cp m6) = stk_pos e"
    using m6(2) m5(4) m4(2) m1(3) r(8) by (simp add: above_def m3_def)
  have run: "cause_interruptcall atom_index m = Inr m8"
    using room d f1 f2 csp len end6 m6(1) r(6)
    by (simp add: cause_interruptcall_def Let_def m1_def [symmetric] d_def [symmetric] fn [symmetric] m3_def [symmetric]
        na_def [symmetric] m4_def [symmetric] m5_def [symmetric] pv_def [symmetric] m6_def [symmetric] cfx6
        csp_def [symmetric] MAKEFREEBLOCK_def with_vm_def m8_def s8_def)
  show thesis
  proof (rule that [OF run])
    have w: "sw s8 j = sw (mv m5) j" if "0 \<le> j" "j < g + 10" "j \<noteq> g + 4" for j
      using that csp r h(5) m6(2) by (simp add: s8_def sw_wr sw_setword above_def g)
    have "sw s8 j = sw (mv m1) j" if "0 \<le> j" "j < c + 4" for j
      using that w [of j] m5(2) m4(2) m3(1) by (simp add: above_def g)
    then show "suspended m f c (mv m8)" using m1(1) r by (simp add: m8_def suspended_def)
    show "interrupt_frame f g (mv m8)" using m5(1) w r by (simp add: m8_def interrupt_frame_def g)
    show "PVAR (cp m8) = stk_pos (g + 10)" "IVAR (cp m8) = stk_pos (c + 4)" "EndSTKP (cp m8) = EndSTKP (cp m)"
      using m6(2) m5(4) m4(2) m1(3) by (simp_all add: above_def m8_def m3_def)
    show "even g" "c + 6 \<le> g" using r by (simp_all add: g)
  qed
qed

section \<open>The return\<close>

lemma join_split [simp]: "join_words (hi_word x) (lo_word x) = x" by (fact join_hi_lo)

lemma clear_low_bit: "even k \<Longrightarrow> (word_of_int (k + 1) :: DLword) AND 0xFFFE = word_of_int k"
proof -
  assume k: "even k"
  define a where "a = (word_of_int k :: DLword)"
  have a: "\<not> bit a 0" unfolding a_def bit_word_of_int_iff using k by (simp add: bit_0)
  have "(a OR 1) AND NOT 1 = a"
    by (rule bit_word_eqI, unfold bit_and_iff bit_or_iff bit_not_iff bit_1_iff) (use a in \<open>auto intro: gr0I\<close>)
  moreover have "(0xFFFE :: DLword) = NOT 1" by simp
  moreover have "word_of_int (k + 1) = a OR 1" using a by (simp add: a_def or_one_eq bit_0)
  ultimately show ?thesis by (simp only: a_def)
qed

lemma nopush_word:
  fixes w :: DLword
  assumes "w AND 0xFF = 0" "\<not> bit w 8" "\<not> bit w 10"
  shows "(w OR 0x100) AND 0xFF = 0" "bit (w OR 0x100) 8" "\<not> bit (w OR 0x100) 10" "(w OR 0x100) AND 0xFEFF = w"
proof -
  show "(w OR 0x100) AND 0xFF = 0" using assms(1) by (simp add: bit.conj_disj_distrib2)
  show "bit (w OR 0x100) 8" "\<not> bit (w OR 0x100) 10" using assms(3) by (simp_all add: bit_or_iff)
  have K: "(0x100 :: DLword) = 2 ^ 8" "(0xFEFF :: DLword) = NOT (2 ^ 8)" by simp_all
  have "(w OR 2 ^ 8) AND NOT (2 ^ 8) = w"
    by (rule bit_word_eqI, unfold bit_and_iff bit_or_iff bit_not_iff bit_exp_iff) (use assms(2) in auto)
  then show "(w OR 0x100) AND 0xFEFF = w" by (simp only: K)
qed

text \<open>The words the interrupt used become a free block that reaches to the end.\<close>

lemma free_rest:
  assumes "0 \<le> k" "k + 4 \<le> e" "e < 0x10000" "\<not> FSBP s (stk_pos e)"
  defines "s' \<equiv> write_free (stk_pos k) (words_between (stk_pos e) (stk_pos k)) s"
  shows "words_between (stk_pos e) (stk_pos k) \<noteq> 0" "FSBP s' (stk_pos k)" "free_end s' (stk_pos k) = Some (stk_pos e)"
    "0 \<le> j \<Longrightarrow> j < k \<Longrightarrow> sw s' j = sw s j"
proof -
  have n: "words_between (stk_pos e) (stk_pos k) = word_of_int (e - k)"
    using lo_word_int [of "e - k"] by (simp add: words_between_def stk_pos_def)
  then have u: "uint (words_between (stk_pos e) (stk_pos k)) = e - k"
    using assms(1-3) unfolding n uint_word_of_int by simp
  then show "words_between (stk_pos e) (stk_pos k) \<noteq> 0" using assms(2) by auto
  have w: "sw s' k = STK_FSB_WORD" "sw s' (k + 1) = word_of_int (e - k)" "sw s' e = sw s e"
    using assms(1-3) n by (simp_all add: s'_def write_free_def sw_setword)
  then show "FSBP s' (stk_pos k)" by (simp add: fx_words)
  moreover have "FSB_size s' (stk_pos k) = word_of_int (e - k)" using w(2) by (simp add: FSB_size_def sw_def)
  moreover have "\<not> FSBP s' (stk_pos e)" using assms(4) w(3) by (simp add: fx_words)
  ultimately show "free_end s' (stk_pos k) = Some (stk_pos e)"
    using u n by (subst free_end.simps, subst free_end.simps) simp
  show "0 \<le> j \<Longrightarrow> j < k \<Longrightarrow> sw s' j = sw s j"
    using assms(1-3) by (simp add: s'_def write_free_def sw_setword)
qed

lemma interrupt_return:
  assumes "interruptible m f c e" "suspended m f c (mv m2)" "interrupt_frame f g (mv m2)" "c + 6 \<le> g" "g + 14 \<le> e" "even g"
    "PVAR (cp m2) = stk_pos (g + 10)" "IVAR (cp m2) = stk_pos (c + 4)" "EndSTKP (cp m2) = stk_pos e"
    "\<not> FSBP (mv m2) (stk_pos e)"
  obtains m3 where "slowreturn m2 = Inr (False, m3)" "PVAR (cp m3) = PVAR (cp m)" "IVAR (cp m3) = IVAR (cp m)"
    "FuncObj (cp m3) = FuncObj (cp m)" "PCMAC (cp m3) = PCMAC (cp m)" "EndSTKP (cp m3) = EndSTKP (cp m)"
    "TopOfStack (cp m3) = TopOfStack (cp m)" "CurrentStackPTR m3 = CurrentStackPTR m"
    "\<forall>j. 0 \<le> j \<and> j < c + 2 \<and> j \<noteq> f + 4 \<and> j \<noteq> f + 5 \<longrightarrow> sw (mv m3) j = sw (mv m) j"
proof -
  have r: "2 \<le> f" "f + 8 \<le> c" "e < 0x10000" "even f" "even c" "even e" "PVAR (cp m) = stk_pos (f + 10)"
    "EndSTKP (cp m) = stk_pos e" "CurrentStackPTR m = stk_pos c" "IVAR (cp m) = stk_at (sw (mv m) (f - 1))"
    "FuncObj (cp m) = rd (mv m) (stk_pos (f + 2))"
    using assms(1) by (simp_all add: interruptible_def)
  have pc: "uint (PCMAC (cp m) - code_base (FuncObj (cp m))) < 0x10000" using assms(1) unfolding interruptible_def by blast
  have np: "sw (mv m) f AND 0xFF = 0" "\<not> bit (sw (mv m) f) 8" "\<not> bit (sw (mv m) f) 10"
    using assms(1) by (simp_all add: interruptible_def)
  have fx: "cfx m2 = stk_pos g" using assms(7) by (simp add: cfx_def CURRENTFX_def FRAMESIZE_def)
  define s where "s = mv m2"
  define s2 where "s2 = write_free (stk_pos (c + 4)) (words_between (stk_pos e) (stk_pos (c + 4))) s"
  note links = assms(3) [unfolded interrupt_frame_def, folded s_def]
  note frame = assms(2) [unfolded suspended_def, folded s_def]
  have ret: "stk_at (fx_alink s (stk_pos g) - 11) = stk_pos f"
    using links stk_at_of_int [of f] r assms(4,5) by (simp add: fx_words)
  have clean: "fx_alink s (stk_pos g) AND 0xFFFE = fx_clink s (stk_pos g)"
    using links clear_low_bit [of "f + 10"] r(4) by (simp add: fx_words add.commute)
  have nxt: "stk_at (fx_nextblock s (stk_pos f)) = stk_pos (c + 4)"
    using frame stk_at_of_int [of "c + 4"] r assms(4,5) by (simp add: fx_words)
  have bf: "stk_at (fx_blink s (stk_pos g)) = stk_pos (g - 2)" "bf_usecnt s (stk_pos (g - 2)) = 0"
    "\<not> bf_residual s (stk_pos (g - 2))"
    using links stk_at_of_int [of "g - 2"] r assms(4,5) by (simp_all add: fx_words BF_MARK_def)
  have rest: "words_between (stk_pos e) (stk_pos (c + 4)) \<noteq> 0" "FSBP s2 (stk_pos (c + 4))"
    "free_end s2 (stk_pos (c + 4)) = Some (stk_pos e)" "\<And>j. 0 \<le> j \<Longrightarrow> j < c + 4 \<Longrightarrow> sw s2 j = sw s j"
    using free_rest [of "c + 4" e s] r assms(4,5,10) by (simp_all add: s2_def s_def)
  define m1 where "m1 = upd_vm s2 (m2\<lparr>cp := (cp m2)\<lparr>PVAR := stk_pos (f + 10)\<rparr>\<rparr>)"
  have "slow_resume (stk_pos f) m2 = resume_frame (stk_pos (c + 4)) m1"
    using nxt bf rest(1,2) assms(8,9) fx
    by (simp add: slow_resume_def Let_def s_def [symmetric] s2_def [symmetric] m1_def FRAMESIZE_def)
  moreover have "of_loop_res (slow_retry (stk_pos f) m2) = rbind (slow_resume (stk_pos f) m2) (\<lambda>m1. Inr (False, m1))"
    using nxt bf assms(8) fx by (subst slow_retry.simps) (simp add: s_def [symmetric] of_loop_res_def)
  moreover have "slowreturn m2 = of_loop_res (slow_retry (stk_pos f) m2)"
    using clean ret fx frame nopush_word(1) [OF np]
    by (simp add: slowreturn_def Let_def s_def [symmetric] fx_words)
  ultimately have run: "slowreturn m2 = rbind (resume_frame (stk_pos (c + 4)) m1) (\<lambda>m1. Inr (False, m1))" by simp
  define s3 where "s3 = set_nopush False (stk_pos f) s2"
  have w2: "sw s2 f = sw (mv m) f OR 0x100" "sw s2 (c + 2) = hi_word (TopOfStack (cp m))"
    "sw s2 (c + 3) = lo_word (TopOfStack (cp m))" "sw s2 (f + 5) = ucast (PCMAC (cp m) - code_base (FuncObj (cp m)))"
    using rest(4) frame r(1,2) by simp_all
  have s3: "sw s3 j = (if j = f then sw (mv m) f else sw s2 j)" if "0 \<le> j" "j < c + 4" for j
    using that w2(1) nopush_word(4) [OF np] r assms(4,5) by (simp add: s3_def set_nopush_def sw_setword flip: sw_def)
  have below: "sw s3 j = sw (mv m) j" if "0 \<le> j" "j < c + 2" "j \<noteq> f + 4" "j \<noteq> f + 5" for j
    using that s3 [of j] rest(4) [of j] frame by simp
  have top: "rd s3 (stk_pos (c + 2)) = TopOfStack (cp m)"
    using s3 [of "c + 2"] s3 [of "c + 3"] rd_stk [of "c + 2" s3] w2(2,3) r(1-5) assms(4,5) by (simp add: add.commute)
  have fn: "fx_fnheader s3 (stk_pos f) = FuncObj (cp m)"
    using below r assms(4,5) by (simp add: fx_fnheader_def rd_stk)
  have pc: "code_base (FuncObj (cp m)) + ucast (fx_pc s3 (stk_pos f)) = PCMAC (cp m)"
  proof -
    have "(ucast (ucast (PCMAC (cp m) - code_base (FuncObj (cp m))) :: DLword) :: 32 word)
        = PCMAC (cp m) - code_base (FuncObj (cp m))" using pc by (rule word_through_DLword)
    moreover have "fx_pc s3 (stk_pos f) = ucast (PCMAC (cp m) - code_base (FuncObj (cp m)))"
      using s3 [of "f + 5"] w2(4) r(1,2) by (simp add: fx_words)
    ultimately show ?thesis by simp
  qed
  define m3 where "m3 = FastRetCALL (upd_vm s3
      (m1\<lparr>cp := (cp m1)\<lparr>EndSTKP := stk_pos e, TopOfStack := rd s3 (stk_pos (c + 2))\<rparr>, CurrentStackPTR := stk_pos c\<rparr>))"
  have "cfx m1 = stk_pos f" "mv m1 = s2" by (simp_all add: m1_def cfx_def CURRENTFX_def FRAMESIZE_def)
  moreover have "fx_nopush s2 (stk_pos f)" "\<not> fx_incall s2 (stk_pos f)"
    using w2(1) nopush_word(2,3) [OF np] by (simp_all add: fx_words)
  ultimately have "resume_frame (stk_pos (c + 4)) m1 = Inr m3"
    using rest(3) by (simp add: resume_frame_def Let_def set_endstk_def cfx_def mv_def CURRENTFX_def m3_def s3_def add.commute)
  then have "slowreturn m2 = Inr (False, m3)" using run by simp
  then show thesis
  proof (rule that)
    show "PVAR (cp m3) = PVAR (cp m)" "IVAR (cp m3) = IVAR (cp m)" "FuncObj (cp m3) = FuncObj (cp m)"
      "PCMAC (cp m3) = PCMAC (cp m)" "EndSTKP (cp m3) = EndSTKP (cp m)" "TopOfStack (cp m3) = TopOfStack (cp m)" 
      "CurrentStackPTR m3 = CurrentStackPTR m"
      using r top fn pc below [of "f - 1", unfolded sw_def [of s3]]
      by (simp_all add: m3_def FastRetCALL_def Let_def set_endstk_def m1_def cfx_def CURRENTFX_def FRAMESIZE_def)
    show "\<forall>j. 0 \<le> j \<and> j < c + 2 \<and> j \<noteq> f + 4 \<and> j \<noteq> f + 5 \<longrightarrow> sw (mv m3) j = sw (mv m) j"
      using below by (simp add: m3_def FastRetCALL_def Let_def mv_def)
  qed
qed

section \<open>Interrupts are invisible\<close>

text \<open>
  The interrupt function may do as it likes with its own variables and everything above them, with
  the rest of the machine, and with the two words of its frame that every call from it sets; it
  returns when its frame is the current one again.
\<close>

definition handler_returns :: "int \<Rightarrow> stkm \<Rightarrow> stkm \<Rightarrow> bool" where
  "handler_returns tp m1 m2 \<longleftrightarrow>
     PVAR (cp m2) = PVAR (cp m1) \<and> IVAR (cp m2) = IVAR (cp m1) \<and> EndSTKP (cp m2) = EndSTKP (cp m1) \<and>
     (\<forall>j. 0 \<le> j \<and> j < tp \<and> j \<noteq> tp - 6 \<and> j \<noteq> tp - 5 \<longrightarrow> sw (mv m2) j = sw (mv m1) j) \<and>
     \<not> FSBP (mv m2) (EndSTKP (cp m2))"

text \<open>
  The interrupted code goes on where it was: the registers are the same, and so are the words of
  the stack, but for the two that the interrupt used to save the registers.
\<close>

definition resumed :: "int \<Rightarrow> int \<Rightarrow> stkm \<Rightarrow> stkm \<Rightarrow> bool" where
  "resumed f c m m3 \<longleftrightarrow>
     PVAR (cp m3) = PVAR (cp m) \<and> IVAR (cp m3) = IVAR (cp m) \<and> FuncObj (cp m3) = FuncObj (cp m) \<and>
     PCMAC (cp m3) = PCMAC (cp m) \<and> EndSTKP (cp m3) = EndSTKP (cp m) \<and> TopOfStack (cp m3) = TopOfStack (cp m) \<and>
     CurrentStackPTR m3 = CurrentStackPTR m \<and>
     (\<forall>j. 0 \<le> j \<and> j < c + 2 \<and> j \<noteq> f + 4 \<and> j \<noteq> f + 5 \<longrightarrow> sw (mv m3) j = sw (mv m) j)"

text \<open>
  C31. An interrupt is invisible to the code it interrupts. \<open>cause_interruptcall\<close> suspends the
  current frame and starts the interrupt function; whatever that function did, when it returns the
  slow return resumes the interrupted frame with the program counter, the value on top of the stack, the
  variables, the function and the stack as they were.
\<close>

theorem interrupt_invisible:
  assumes "interruptible m f c e" "handler_fits m atom_index c e"
  shows "\<exists>m1 tp. cause_interruptcall atom_index m = Inr m1 \<and> PVAR (cp m1) = stk_pos tp \<and> tp \<le> e \<and>
    (\<forall>m2. handler_returns tp m1 m2 \<longrightarrow> (\<exists>m3. slowreturn m2 = Inr (False, m3) \<and> resumed f c m m3))"
proof -
  define g where "g = c + 6 + 2 * handler_args m atom_index"
  obtain m1 where m1: "cause_interruptcall atom_index m = Inr m1" "suspended m f c (mv m1)" "interrupt_frame f g (mv m1)"
    "PVAR (cp m1) = stk_pos (g + 10)" "IVAR (cp m1) = stk_pos (c + 4)" "EndSTKP (cp m1) = EndSTKP (cp m)" "even g"
    "c + 6 \<le> g"
    using cause_interruptcall_law [OF assms] by (metis g_def)
  have r: "2 \<le> f" "f + 8 \<le> c" "EndSTKP (cp m) = stk_pos e" using assms(1) by (simp_all add: interruptible_def)
  have ge: "g + 14 \<le> e" using assms(2) by (simp add: handler_fits_def Let_def g_def split: if_splits)
  have "\<exists>m3. slowreturn m2 = Inr (False, m3) \<and> resumed f c m m3" if m2: "handler_returns (g + 10) m1 m2" for m2
  proof -
    have w: "sw (mv m2) j = sw (mv m1) j" if "0 \<le> j" "j < g + 10" "j \<noteq> g + 4" "j \<noteq> g + 5" for j
      using m2 that by (simp add: handler_returns_def)
    have "suspended m f c (mv m2)" using m1(2,8) w r by (simp add: suspended_def)
    moreover have "interrupt_frame f g (mv m2)" using m1(3,8) w r by (simp add: interrupt_frame_def)
    ultimately show ?thesis
      using interrupt_return [OF assms(1) _ _ m1(8) ge m1(7), of m2] m2 m1(4-6) r(3)
      unfolding handler_returns_def resumed_def by metis
  qed
  then show ?thesis using m1(1,4) ge by (intro exI [of _ m1] exI [of _ "g + 10"]) simp
qed

definition vm_int :: vm where
  "vm_int = vm_stk\<lparr>mem := (mem vm_stk)(0x2C0BBC := 0x800A0000)\<rparr>"

definition stk_int :: stkm where
  "stk_int = stk_stk\<lparr>cp := (cp stk_stk)\<lparr>st := vm_int, EndSTKP := 0x108E6, IVAR := 0x10100, FuncObj := 0, PCMAC := 0x40,
     TopOfStack := 0xE0005\<rparr>\<rparr>"

text \<open>An interrupt whose function overwrites the word behind the free space, and returns.\<close>

theorem interrupt_invisible_witness:
  "\<exists>m1 m2 m3. cause_interruptcall 300 stk_int = Inr m1 \<and> mv m2 = setword 0x108E6 0xE000 (mv m1) \<and>
     slowreturn m2 = Inr (False, m3) \<and> TopOfStack (cp m3) = 0xE0005 \<and> PCMAC (cp m3) = 0x40"
proof -
  have i: "interruptible stk_int 258 276 2278" 
    by (simp add: interruptible_def stk_int_def stk_stk_def vm_int_def vm_stk_def mv_def sw_def stk_pos_def STK_OFFSET_def
        getword_def cell_of_def hi_word_def lo_word_def rd_def getcell_def code_base_def stk_at_def)
  have h: "handler_fits stk_int 300 276 2278"
    by (simp add: handler_fits_def handler_of_def handler_args_def stk_int_def stk_stk_def vm_int_def vm_stk_def mv_def
        GetDEFCELL68k_def maiko_consts ATOMS_HI_def NEWATOM_DEFN_OFFSET_def rd_def getcell_def defpointer_def
        fn_na_def fn_pv_def fn_stkmin_def getword_def cell_of_def hi_word_def lo_word_def Let_def)
  obtain m1 tp where m1: "cause_interruptcall 300 stk_int = Inr m1" "tp \<le> 2278"
    "\<And>m2. handler_returns tp m1 m2 \<Longrightarrow> \<exists>m3. slowreturn m2 = Inr (False, m3) \<and> resumed 258 276 stk_int m3"
    using interrupt_invisible [OF i h] by blast
  define m2 where "m2 = upd_vm (setword (stk_pos 2278) 0xE000 (mv m1)) m1"
  have "EndSTKP (cp m1) = stk_pos 2278"
    using cause_interruptcall_law [OF i h] m1(1) i by (metis Inr_inject interruptible_def)
  then have "handler_returns tp m1 m2"
    using m1(2) by (simp add: handler_returns_def m2_def sw_setword fx_words STK_FSB_WORD_def)
  then obtain m3 where m3: "slowreturn m2 = Inr (False, m3)" "resumed 258 276 stk_int m3" using m1(3) by blast
  moreover have "mv m2 = setword 0x108E6 0xE000 (mv m1)" by (simp add: m2_def stk_pos_def STK_OFFSET_def)
  moreover have "TopOfStack (cp m3) = 0xE0005" "PCMAC (cp m3) = 0x40" using m3(2) by (simp_all add: resumed_def stk_int_def)
  ultimately show ?thesis using m1(1) by blast
qed

end
