(* ===== verification/Emulator_Laws.thy ===== *)
theory Emulator_Laws
  imports Emulator Interrupt_Laws
begin

text \<open>
  The main loop: no opcode leaves it through the table, and a compiled Lisp loop runs to its end.
\<close>

section \<open>Every opcode is carried out or handed over\<close>

text \<open>The call of the Lisp function of an opcode never asks for another one.\<close>

lemma op_fn_common_exit: "op_fn_common f c \<noteq> Op_ufn c'"
  by (auto simp: op_fn_common_def Let_def FN_STACK_CHECK_def CHECK_INTERRUPT_def nextop_def split: prod.splits sum.splits if_splits)

lemma goto_ufn_exit: "goto_ufn E x \<noteq> Op_ufn c"
  by (auto simp: goto_ufn_def op_ufn_def Let_def op_fn_common_exit split: op_exit.splits)

lemma leave_Ufn: "leave x m = Ufn_exit m' \<longleftrightarrow> (\<exists>c. x = Op_ufn c \<and> m' = m\<lparr>cp := c\<rparr>)"
  by (auto simp: leave_def split: op_exit.splits)

lemma RETURN_exit: "RETURN m \<noteq> Ufn_exit m'"
  by (auto simp: RETURN_def OPRETURN_full_def OPRETURN_def Let_def rbind_def leave_Ufn nextop_def
      split: sum.splits stk_exit.splits prod.splits if_splits return_exit.splits)

lemma dispatch_exit: "dispatch E m \<noteq> Ufn_exit m'"
  using RETURN_exit goto_ufn_exit
  by (auto simp: dispatch_def Let_def MISCN_def SUBRCALL_def RCLK_def CONTEXTSWITCH_def leave_Ufn nextop_def
      split: sum.splits prod.splits if_splits)

section \<open>Running code\<close>

lemma table_lengths:
  "length (opcodes_000 E) = 32" "length (opcodes_040 E) = 32" "length (opcodes_100 E) = 64" "length (opcodes_200 E) = 64"
  "length (opcodes_300 E) = 32" "length (opcodes_340 E) = 32"
  by (simp_all add: opcodes_000_def opcodes_040_def opcodes_100_def opcodes_200_def opcodes_300_def opcodes_340_def Let_def)

definition at_cpu :: "em \<Rightarrow> cpu \<Rightarrow> em" where "at_cpu x c = x\<lparr>sm := (sm x)\<lparr>cp := c\<rparr>\<rparr>"

lemma at_cpu_simps [simp]: "cp (sm (at_cpu x c)) = c" "at_cpu (at_cpu x c) d = at_cpu x d" "at_cpu x (cp (sm x)) = x"
  by (simp_all add: at_cpu_def)

lemma loop_step_opcode:
  assumes "unat (Get_BYTE_PCMAC 0 c) = b" "b \<notin> {16, 36, 119, 125, 126}" "opcode_table E b c = Nextop c'"
  shows "loop_step E (at_cpu x c) = Inr (at_cpu x c')"
  using assms by (simp add: loop_step_def dispatch_def Let_def leave_def goto_ufn_def) (simp add: at_cpu_def)

lemma countdown_opcodes:
  "opcode_table E 72 = PVARMACRO 0" "opcode_table E 222 = byte1 (\<lambda>n. N_OP_CALL_1d (\<lambda>t. N_OP_idifferencen (numeric E) t n))"
  "opcode_table E 88 = PVARSETMACRO 0" "opcode_table E 106 = PUSHATOM S_POSITIVE" "opcode_table E 240 = EQ"
  "opcode_table E 178 = FJUMPX"
  by (simp_all add: opcode_table_def opcodes_100_def opcodes_200_def opcodes_300_def opcodes_340_def Let_def fun_eq_iff)

text \<open>The code of a loop: variable 0 is counted down until it is 0.\<close>

definition countdown_code :: "vm \<Rightarrow> 32 word \<Rightarrow> bool" where
  "countdown_code s pc \<longleftrightarrow>
     map (\<lambda>k. getbyte (mem s) 0 (pc + k)) [0, 1, 2, 3, 4, 5, 6, 7] = [72, 222, 1, 88, 106, 240, 178, 250]"

lemma code_byte_kept:
  assumes "code_kept s s'" "0x100000 \<le> uint n"
  shows "getbyte (mem s') 0 n = getbyte (mem s) 0 n"
proof -
  have "uint (drop_bit 1 n) = uint n div 2" by (simp add: drop_bit_eq_div uint_div)
  then have "0x80000 \<le> uint (cell_of (drop_bit 1 n))" using assms(2) cell_of_half [of "drop_bit 1 n"] by presburger
  then show ?thesis using assms(1) by (simp add: getbyte_def Let_def getword_def code_kept_def)
qed

lemma code_kept_cell: "uint a < 0x80000 \<Longrightarrow> code_kept s (wr a v s)"
  by (auto simp: code_kept_def wr_def putcell_def)

lemma countdown_code_kept:
  assumes "countdown_code s pc" "code_kept s s'" "0x100000 \<le> uint pc" "uint pc < 0xFFFFFFF0"
  shows "countdown_code s' pc"
proof -
  have "getbyte (mem s') 0 (pc + word_of_int k) = getbyte (mem s) 0 (pc + word_of_int k)" if "0 \<le> k" "k < 8" for k
    using that assms(3,4) uint_plus [of pc k] by (intro code_byte_kept [OF assms(2)]) simp
  from this [of 0] this [of 1] this [of 2] this [of 3] this [of 4] this [of 5] this [of 6] this [of 7]
  show ?thesis using assms(1) by (simp add: countdown_code_def)
qed

text \<open>Small numbers.\<close>

definition small :: "nat \<Rightarrow> LispPTR" where "small n = S_POSITIVE OR of_nat n"

lemma sint_nat_word: "n < 65536 \<Longrightarrow> sint (of_nat n :: 32 word) = int n"
proof -
  assume n: "n < 65536"
  then have "uint (of_nat n :: 32 word) = int n" by (simp add: uint_nat unsigned_of_nat take_bit_eq_mod)
  then show ?thesis using n sint32 [of "of_nat n"] by simp
qed

lemma small_high: "n < 65536 \<Longrightarrow> (of_nat n :: 32 word) AND 0xFFFF0000 = 0"
  using sint_nat_word [of n] arith_switch_cases(1) [of "of_nat n"] by (simp add: MAX_SMALL_def)

lemma positive_small: "n < 65536 \<Longrightarrow> \<not> bit (small n) 31"
  using small_positive(1) [OF small_high] by (simp add: small_def)

lemma small_0: "n < 65536 \<Longrightarrow> small n = S_POSITIVE \<longleftrightarrow> n = 0"
proof -
  assume n: "n < 65536"
  have "small n = S_POSITIVE \<Longrightarrow> (of_nat n :: 32 word) = 0"
    using small_pos_parts(2) [OF small_high [OF n]] by (simp add: small_def) (simp add: S_POSITIVE_def)
  then show ?thesis using sint_nat_word [OF n] by (auto simp: small_def)
qed

lemma decrement_small:
  assumes "Suc n < 65536"
  shows "N_OP_idifferencen E (small (Suc n)) 1 s = Inr (small n, s)"
proof -
  have "N_IGETNUMBER E s (small (Suc n)) = Some (of_nat (Suc n))"
    using small_pos_get(2) [OF small_high [OF assms]] by (simp add: small_def)
  moreover have "subn_check (overflow_builtins E) (of_nat (Suc n)) 1 = Some (of_nat n)"
  proof -
    have "sint (of_nat (Suc n) :: 32 word) = int (Suc n)" by (rule sint_nat_word [OF assms])
    then show ?thesis using assms subn_check_exact [of 1 "overflow_builtins E" "of_nat (Suc n)"] by (simp add: fits_def)
  qed
  ultimately show ?thesis using small_high [of n] assms by (simp add: N_OP_idifferencen_def N_ARITH_SWITCH_def small_def)
qed

text \<open>The machine at the start of the loop: the code is apart from the stack, and no interrupt is due.\<close>

definition countdown_at :: "cpu \<Rightarrow> nat \<Rightarrow> bool" where
  "countdown_at c n \<longleftrightarrow>
     rd (st c) (PVAR c) = small n \<and> countdown_code (st c) (PCMAC c) \<and>
     0x100000 \<le> uint (PCMAC c) \<and> uint (PCMAC c) < 0xFFFFFFF0 \<and> uint (CSTKPTR c) < 0x40000 \<and> uint (PVAR c) < 0x40000 \<and>
     PVAR c \<noteq> CSTKPTR c \<and> PVAR c \<noteq> CSTKPTR c + 2 \<and> CSTKPTR c + 2 \<le> Irq_Stk_Check c"

definition countdown_pass :: "nat \<Rightarrow> cpu \<Rightarrow> cpu" where
  "countdown_pass n c =
     c\<lparr>st := wr (CSTKPTR c + 2) (small n) (wr (PVAR c) (small n) (wr (CSTKPTR c) (TOPOFSTACK c) (st c))),
       PCMAC := PCMAC c + (if n = 0 then 8 else 0)\<rparr>"

lemma one_pass:
  assumes "countdown_at c (Suc n)" "Suc n < 65536"
  shows "loop_steps E 6 (at_cpu x c) = Inr (at_cpu x (countdown_pass n c))"
proof -
  have h: "rd (st c) (PVAR c) = small (Suc n)" "countdown_code (st c) (PCMAC c)" "0x100000 \<le> uint (PCMAC c)" "uint (PCMAC c) < 0xFFFFFFF0"
    "uint (CSTKPTR c) < 0x40000" "uint (PVAR c) < 0x40000" "PVAR c \<noteq> CSTKPTR c" "PVAR c \<noteq> CSTKPTR c + 2"
    "CSTKPTR c + 2 \<le> Irq_Stk_Check c"
    using assms(1) by (simp_all add: countdown_at_def)
  have sp2: "uint (CSTKPTR c + 2) < 0x80000" using uint_plus [of "CSTKPTR c" 2] h(5) by simp
  define s1 where "s1 = wr (CSTKPTR c) (TOPOFSTACK c) (st c)"
  define s2 where "s2 = wr (PVAR c) (small n) s1"
  define s3 where "s3 = wr (CSTKPTR c + 2) (small n) s2"
  have k: "code_kept (st c) s1" "code_kept (st c) s2" "code_kept (st c) s3"
    using h(5,6) sp2 by (auto simp: s1_def s2_def s3_def intro!: code_kept_cell code_kept_trans [OF _ code_kept_cell])
  have b: "countdown_code s (PCMAC c)" if "s \<in> {st c, s1, s2, s3}" for s
    using that countdown_code_kept [OF h(2) _ h(3,4)] k h(2) by auto
  note code = b [unfolded countdown_code_def list.map list.inject]
  define c1 where "c1 = c\<lparr>st := s1, CSTKPTR := CSTKPTR c + 2, TOPOFSTACK := small (Suc n), PCMAC := PCMAC c + 1\<rparr>"
  define c2 where "c2 = c1\<lparr>TOPOFSTACK := small n, PCMAC := PCMAC c + 3\<rparr>"
  define c3 where "c3 = c2\<lparr>st := s2, PCMAC := PCMAC c + 4\<rparr>"
  define c4 where "c4 = c3\<lparr>st := s3, CSTKPTR := CSTKPTR c + 4, TOPOFSTACK := S_POSITIVE, PCMAC := PCMAC c + 5\<rparr>"
  define c5 where "c5 = c4\<lparr>CSTKPTR := CSTKPTR c + 2, TOPOFSTACK := if n = 0 then ATOM_T else NIL, PCMAC := PCMAC c + 6\<rparr>"
  have "loop_step E (at_cpu x c) = Inr (at_cpu x c1)"
    using code [of "st c"] h(1,7) by (intro loop_step_opcode [of _ 72]) (simp_all add: Get_BYTE_PCMAC_def countdown_opcodes PVARMACRO_def PUSH_def HARD_PUSH_def nextop_def Let_def set_tos_def
          peek_def c1_def s1_def rd_def wr_def getcell_def putcell_def)
  moreover have "loop_step E (at_cpu x c1) = Inr (at_cpu x c2)"
    using code [of s1] decrement_small [OF assms(2), of "numeric E" s1] positive_small [of n] assms(2)
    by (intro loop_step_opcode [of _ 222])
       (simp_all add: Get_BYTE_PCMAC_def countdown_opcodes byte1_def N_OP_CALL_1d_def call_op_def returned_def nextop_def set_tos_def
          c1_def c2_def add.commute [of 1 "PCMAC c"] add.commute [of 2 "PCMAC c"])
  moreover have "loop_step E (at_cpu x c2) = Inr (at_cpu x c3)"
    using code [of s1] 
    by (intro loop_step_opcode [of _ 88])
       (simp_all add: Get_BYTE_PCMAC_def countdown_opcodes PVARSETMACRO_def nextop_def poke_cell_def
          c1_def c2_def c3_def s2_def)
  moreover have "loop_step E (at_cpu x c3) = Inr (at_cpu x c4)"
    using code [of s2]
    by (intro loop_step_opcode [of _ 106])
       (simp_all add: Get_BYTE_PCMAC_def countdown_opcodes PUSHATOM_def PUSH_def HARD_PUSH_def Let_def nextop_def set_tos_def
          c1_def c2_def c3_def c4_def s3_def)
  moreover have "loop_step E (at_cpu x c4) = Inr (at_cpu x c5)"
    using code [of s3] small_0 [of n] assms(2)
    by (intro loop_step_opcode [of _ 240])
       (auto simp: Get_BYTE_PCMAC_def countdown_opcodes EQ_def POP_TOS_1_def Let_def nextop_def set_tos_def
          c1_def c2_def c3_def c4_def c5_def s3_def rd_def wr_def getcell_def putcell_def)
  moreover have "loop_step E (at_cpu x c5) = Inr (at_cpu x (countdown_pass n c))"
  proof -
    have j: "PCMAC c + 6 + scast (250 :: DLbyte) = PCMAC c" by simp
    show ?thesis
      using code [of s3] h(5-9) sp2 j
      by (intro loop_step_opcode [of _ 178])
         (auto simp: Get_BYTE_PCMAC_def countdown_opcodes FJUMPX_def POP_def POP_TOS_1_def Let_def nextop_def set_tos_def
            CHECK_INTERRUPT_def Get_SBYTE_PCMAC1_def countdown_pass_def maiko_consts
            c1_def c2_def c3_def c4_def c5_def s1_def s2_def s3_def rd_def wr_def getcell_def putcell_def
            add.commute [of 7 "PCMAC c"])
  qed
  ultimately show ?thesis by (simp add: numeral_eq_Suc)
qed

lemma loop_steps_add: "loop_steps E (m + n) x = rbind (loop_steps E m x) (loop_steps E n)"
  by (induction m arbitrary: x) (auto simp: rbind_def split: sum.splits)

lemma pass_again:
  assumes "countdown_at c (Suc n)" "0 < n"
  shows "countdown_at (countdown_pass n c) n"
proof -
  have h: "countdown_code (st c) (PCMAC c)" "0x100000 \<le> uint (PCMAC c)" "uint (PCMAC c) < 0xFFFFFFF0"
    "uint (CSTKPTR c) < 0x40000" "uint (PVAR c) < 0x40000" "PVAR c \<noteq> CSTKPTR c" "PVAR c \<noteq> CSTKPTR c + 2"
    using assms(1) by (simp_all add: countdown_at_def)
  have "code_kept (st c) (st (countdown_pass n c))"
    using h(4,5) uint_plus [of "CSTKPTR c" 2]
    by (auto simp: countdown_pass_def intro!: code_kept_cell code_kept_trans [OF _ code_kept_cell])
  then have "countdown_code (st (countdown_pass n c)) (PCMAC c)" by (rule countdown_code_kept [OF h(1) _ h(2,3)])
  then show ?thesis
    using assms by (simp add: countdown_at_def) (simp add: countdown_pass_def rd_def wr_def getcell_def putcell_def)
qed

text \<open>The machine behind the loop: variable 0 holds 0, and two cells above the stack were used.\<close>

definition counted_down :: "cpu \<Rightarrow> cpu \<Rightarrow> bool" where
  "counted_down c c' \<longleftrightarrow>
     rd (st c') (PVAR c) = small 0 \<and> c'\<lparr>st := st c, PCMAC := PCMAC c\<rparr> = c \<and> PCMAC c' = PCMAC c + 8 \<and>
     (\<forall>a. a \<noteq> PVAR c \<and> a \<noteq> CSTKPTR c \<and> a \<noteq> CSTKPTR c + 2 \<longrightarrow> rd (st c') a = rd (st c) a)"

text \<open>
  C34. A compiled loop runs to its end. From any number from 1 to 65535 in variable 0, six opcodes a pass,
  the main loop counts it down to 0 and leaves the code behind the loop to be run next, with every
  register as it was, and no other cell changed but two above the top of the stack.
\<close>

theorem countdown_ends:
  assumes "countdown_at c n" "0 < n" "n < 65536"
  shows "\<exists>c'. loop_steps E (6 * n) (at_cpu x c) = Inr (at_cpu x c') \<and> counted_down c c'"
  using assms
proof (induction n arbitrary: c)
  case (Suc n)
  define d where "d = countdown_pass n c"
  have pass: "loop_steps E 6 (at_cpu x c) = Inr (at_cpu x d)" using one_pass Suc.prems by (simp add: d_def)
  have keep: "PVAR c \<noteq> CSTKPTR c" "PVAR c \<noteq> CSTKPTR c + 2" using Suc.prems(1) by (simp_all add: countdown_at_def)
  show ?case
  proof (cases "n = 0")
    case True
    have "counted_down c d"
      using keep True by (simp add: counted_down_def d_def countdown_pass_def rd_def wr_def getcell_def putcell_def)
    then show ?thesis using pass True by auto
  next
    case False
    then obtain c' where c': "loop_steps E (6 * n) (at_cpu x d) = Inr (at_cpu x c')" "counted_down d c'"
      using Suc.IH [OF pass_again [OF Suc.prems(1)]] Suc.prems(3) by (auto simp: d_def)
    have f: "PVAR d = PVAR c" "CSTKPTR d = CSTKPTR c" "PCMAC d = PCMAC c" "d\<lparr>st := st c\<rparr> = c"
      "\<And>a. a \<noteq> PVAR c \<Longrightarrow> a \<noteq> CSTKPTR c \<Longrightarrow> a \<noteq> CSTKPTR c + 2 \<Longrightarrow> rd (st d) a = rd (st c) a"
      using False by (simp_all add: d_def countdown_pass_def rd_def wr_def getcell_def putcell_def)
    have "c'\<lparr>st := st c, PCMAC := PCMAC c\<rparr> = (c'\<lparr>st := st d, PCMAC := PCMAC d\<rparr>)\<lparr>st := st c\<rparr>" using f(3) by simp
    also have "\<dots> = c" using c'(2) f(4) by (simp only: counted_down_def)
    finally have "counted_down c c'" using c'(2) f by (simp add: counted_down_def)
    moreover have "loop_steps E (6 * Suc n) (at_cpu x c) = Inr (at_cpu x c')"
      using loop_steps_add [of E 6 "6 * n" "at_cpu x c"] pass c'(1) by simp
    ultimately show ?thesis by blast
  qed
qed simp

definition cpu_count :: cpu where
  "cpu_count = (cpu_ops 0)\<lparr>st := vm_ops\<lparr>mem := (\<lambda>_. 0)(0x90020 := 0x48DE0158, 0x90022 := 0x6AF0B2FA, 0x10100 := 0xE0003)\<rparr>,
     PVAR := 0x10100, CSTKPTR := 0x10110, PCMAC := 0x120040, Irq_Stk_Check := 0x11000\<rparr>"

theorem countdown_ends_witness:
  "\<forall>E x. \<exists>c'. loop_steps E 18 (at_cpu x cpu_count) = Inr (at_cpu x c') \<and> rd (st c') 0x10100 = 0xE0000"
proof -
  have a: "countdown_at cpu_count 3"
    by (simp add: countdown_at_def cpu_count_def countdown_code_def getbyte_def getword_def cell_of_def hi_word_def lo_word_def
        rd_def getcell_def small_def S_POSITIVE_def)
  show ?thesis
  proof (intro allI)
    fix E x
    obtain c' where c': "loop_steps E (6 * 3) (at_cpu x cpu_count) = Inr (at_cpu x c')" "counted_down cpu_count c'"
      using countdown_ends [OF a] by fastforce
    moreover have "PVAR cpu_count = 0x10100" by (simp add: cpu_count_def)
    ultimately show "\<exists>c'. loop_steps E 18 (at_cpu x cpu_count) = Inr (at_cpu x c') \<and> rd (st c') 0x10100 = 0xE0000"
      by (intro exI [of _ c']) (simp add: counted_down_def small_def S_POSITIVE_def)
  qed
qed

end
