(* ===== verification/Atoms.thy ===== *)
theory Atoms
  imports Emulator
begin

text \<open>
  Symbols by name: the hash table of atoms (\<open>src/mkatom.c\<close>), the hash tables of the packages
  (\<open>src/gcarray.c\<close>) and the search for a package (\<open>find_package_from_name\<close> of
  \<open>src/testtool.c\<close>), with the parts of a symbol (\<open>inc/cell.h\<close>) and the array header of
  \<open>inc/array.h\<close>. Definitions; what they promise is in \<open>Atom_Laws\<close>.

  A string of the emulator is the list of its bytes, followed by zeros; a string in the Lisp space is an
  address with an offset in bytes. Plain \<open>char\<close> is signed on some of the supported machines and
  unsigned on others: \<open>signed_char\<close>.
\<close>

section \<open>The parts of a symbol\<close>

text \<open>The offsets of the fields are those of \<open>inc/lispemul.h\<close>, in DLwords.\<close>

definition GetPnameCell :: "LispPTR \<Rightarrow> LispPTR" where
  "GetPnameCell index = (if index AND SEGMASK \<noteq> 0 then index + NEWATOM_PNAME_OFFSET
                         else push_bit 16 ATOMS_HI + 10 * index + NEWATOM_PNAME_OFFSET)"
definition GetPropCell :: "LispPTR \<Rightarrow> LispPTR" where
  "GetPropCell index = (if index AND SEGMASK \<noteq> 0 then index + NEWATOM_PLIST_OFFSET
                        else push_bit 16 ATOMS_HI + 10 * index + NEWATOM_PLIST_OFFSET)"
definition GetVALCELL68k :: "LispPTR \<Rightarrow> LispPTR" where
  "GetVALCELL68k index = (if index AND SEGMASK \<noteq> 0 then index + NEWATOM_VALUE_OFFSET
                          else push_bit 16 ATOMS_HI + 10 * index + NEWATOM_VALUE_OFFSET)"

definition pnamebase :: "vm \<Rightarrow> LispPTR \<Rightarrow> LispPTR" where
  "pnamebase s index = rd s (GetPnameCell index) AND POINTERMASK"
definition fatpnamep :: "vm \<Rightarrow> LispPTR \<Rightarrow> DLword" where
  "fatpnamep s index = (if bit (rd s (GetPropCell index + 2)) 13 then 1 else 0)"
definition pname_length :: "vm \<Rightarrow> LispPTR \<Rightarrow> DLword" where
  "pname_length s index = ucast (getbyte (mem s) (pnamebase s index) 0)"

section \<open>Hash values of strings\<close>

definition char_at :: "DLbyte list \<Rightarrow> nat \<Rightarrow> DLbyte" where
  "char_at cs i = (if i < length cs then cs ! i else 0)"

definition char_int :: "bool \<Rightarrow> DLbyte \<Rightarrow> DLword" where
  "char_int signed_char c = (if signed_char then scast c else ucast c)"

definition hash_step :: "DLword \<Rightarrow> DLword \<Rightarrow> DLword" where
  "hash_step hash c =
     (let hash = hash + push_bit 2 (hash AND 4095); temp1 = hash + push_bit 8 (hash AND 255)
      in temp1 + c)"

definition hash_chars :: "(nat \<Rightarrow> DLword) \<Rightarrow> nat \<Rightarrow> DLword" where
  "hash_chars c n = foldl (\<lambda>hash i. hash_step hash (c i)) (push_bit 8 (c 0)) [1..<n]"

definition compute_hash :: "bool \<Rightarrow> DLbyte list \<Rightarrow> DLword \<Rightarrow> DLword \<Rightarrow> DLword" where
  "compute_hash signed_char char_base offset len =
     hash_chars (\<lambda>i. char_int signed_char (char_at char_base (unat offset + i))) (unat len)"

definition compute_lisp_hash :: "vm \<Rightarrow> LispPTR \<Rightarrow> DLword \<Rightarrow> DLword \<Rightarrow> DLword \<Rightarrow> DLword" where
  "compute_lisp_hash s char_base offset len fatp =
     (if len = 0 then 0
      else if fatp \<noteq> 0
      then hash_chars (\<lambda>i. 0xFF AND getword (mem s) (char_base + ucast offset + of_nat i)) (unat len)
      else hash_chars (\<lambda>i. 0xFF AND ucast (getbyte (mem s) char_base (ucast offset + of_nat i))) (unat len))"

definition Atom_reprobe :: "DLword \<Rightarrow> DLword \<Rightarrow> DLword" where
  "Atom_reprobe hash c = ((c XOR hash) OR 1) AND 63"

section \<open>Comparing strings\<close>

text \<open>A place in the Lisp space: an address and an offset in bytes.\<close>

type_synonym lisp_chars = "LispPTR \<times> 32 word"

definition byte_of :: "vm \<Rightarrow> lisp_chars \<Rightarrow> nat \<Rightarrow> DLbyte" where
  "byte_of s p i = getbyte (mem s) (fst p) (snd p + of_nat i)"
definition word_of :: "vm \<Rightarrow> lisp_chars \<Rightarrow> nat \<Rightarrow> DLword" where
  "word_of s p i = getword (mem s) (fst p + drop_bit 1 (snd p) + of_nat i)"

definition truth :: "bool \<Rightarrow> LispPTR" where "truth b = (if b then T else NIL)"

text \<open>The second string starts \<open>start\<close> bytes into \<open>char2\<close>.\<close>

definition compare_chars :: "vm \<Rightarrow> lisp_chars \<Rightarrow> DLbyte list \<Rightarrow> nat \<Rightarrow> DLword \<Rightarrow> LispPTR" where
  "compare_chars s char1 char2 start len =
     truth (list_all (\<lambda>i. byte_of s char1 i = char_at char2 (start + i)) [0..<unat len])"

definition lispcmp :: "vm \<Rightarrow> lisp_chars \<Rightarrow> lisp_chars \<Rightarrow> DLword \<Rightarrow> bool" where
  "lispcmp s char1 char2 len = list_all (\<lambda>i. word_of s char1 i = ucast (byte_of s char2 i)) [0..<unat len]"

definition compare_lisp_chars ::
  "vm \<Rightarrow> lisp_chars \<Rightarrow> lisp_chars \<Rightarrow> DLword \<Rightarrow> DLword \<Rightarrow> DLword \<Rightarrow> LispPTR" where
  "compare_lisp_chars s char1 char2 len fat1 fat2 =
     truth
      (if (fat1 = 0) = (fat2 = 0)
       then (if byteswapped s
             then (if fat1 \<noteq> 0 then list_all (\<lambda>i. word_of s char1 i = word_of s char2 i) [0..<unat len]
                   else list_all (\<lambda>i. byte_of s char1 i = byte_of s char2 i) [0..<unat len])
             else list_all (\<lambda>i. byte_of s char1 i = byte_of s char2 i)
                    [0..<unat (if fat1 \<noteq> 0 then len + len else len)])
       else if fat1 \<noteq> 0 then lispcmp s char1 char2 len
       else lispcmp s char2 char1 len)"

section \<open>The atom hash table\<close>

definition ATOMoffset :: LispPTR where "ATOMoffset = 2"
definition ATMHT_OFFSET :: LispPTR where "ATMHT_OFFSET = 0x150000"

definition AtomHT :: "vm \<Rightarrow> DLword \<Rightarrow> DLword" where
  "AtomHT s hash = getword (mem s) (ATMHT_OFFSET + ucast hash)"

text \<open>The entry names the atom asked for.\<close>

definition same_pname :: "vm \<Rightarrow> DLbyte list \<Rightarrow> DLword \<Rightarrow> DLword \<Rightarrow> DLword \<Rightarrow> bool" where
  "same_pname s char_base offset len atom_index \<longleftrightarrow>
     len = pname_length s (ucast atom_index) \<and>
     compare_chars s (pnamebase s (ucast atom_index), 1) char_base (unat offset) len = T"

partial_function (option) atom_probe ::
  "vm \<Rightarrow> DLbyte list \<Rightarrow> DLword \<Rightarrow> DLword \<Rightarrow> DLword \<Rightarrow> DLword \<Rightarrow> LispPTR option" where
  "atom_probe s char_base offset len reprobe hash =
     (if AtomHT s hash = 0 then Some 0xFFFFFFFF
      else if same_pname s char_base offset len (AtomHT s hash - 1) then Some (ucast (AtomHT s hash - 1))
      else atom_probe s char_base offset len reprobe (hash + reprobe))"

declare atom_probe.simps [code]

definition make_atom :: "bool \<Rightarrow> vm \<Rightarrow> DLbyte list \<Rightarrow> DLword \<Rightarrow> DLword \<Rightarrow> LispPTR res" where
  "make_atom signed_char s char_base offset len =
     (let first_char = char_at char_base (unat offset)
      in if len = 1
         then Inr (if first_char > 57 then ATOMoffset + (ucast first_char - 10)
                   else if first_char \<ge> 48 then S_POSITIVE + (ucast first_char - 48)
                   else ATOMoffset + ucast first_char)
         else let hash = (if len = 0 then 0 else compute_hash signed_char char_base offset len);
                  first = (if len = 0 then 255 else ucast first_char)
              in of_loop (atom_probe s char_base offset len (Atom_reprobe hash first) hash))"

section \<open>Array headers as the collector sees them\<close>

text \<open>
  \<open>struct arrayheader\<close> of \<open>inc/array.h\<close>: on a byte-swapped machine \<open>totalsize\<close> and
  \<open>fillpointer\<close> stand the other way round than in \<open>OneDArray\<close> of \<open>inc/lsptypes.h\<close>.
\<close>

definition ah_totalsize :: "vm \<Rightarrow> LispPTR \<Rightarrow> 32 word" where
  "ah_totalsize s a = rd s (a + (if byteswapped s then 4 else 6))"

definition aref1 :: "vm \<Rightarrow> LispPTR \<Rightarrow> 32 word \<Rightarrow> LispPTR res" where
  "aref1 s a index =
     (if sint (ah_totalsize s a) \<le> sint index then Inl (Fatal ''index out of range in GC's AREF1.'')
      else let n = index + ar_offset s a; base = ar_base s a
           in if ar_typenumber s a = 3 then Inr (ucast (getbyte (mem s) base n) OR S_POSITIVE)
              else if ar_typenumber s a = 4 then Inr (ucast (getword (mem s) (base + n)) OR S_POSITIVE)
              else if ar_typenumber s a = 38 then Inr (rd s (base + 2 * n))
              else Inl (Fatal ''Not Implemented in gc's aref1 (other types)''))"

section \<open>Package hash tables\<close>

definition ht_table :: "vm \<Rightarrow> LispPTR \<Rightarrow> LispPTR" where "ht_table s a = rd s a"
definition ht_hash :: "vm \<Rightarrow> LispPTR \<Rightarrow> LispPTR" where "ht_hash s a = rd s (a + 2)"

text \<open>\<open>%\<close> on \<open>int\<close>; with 0 on the right the processor traps.\<close>

definition Rehash_factor :: "DLword \<Rightarrow> int \<Rightarrow> DLword" where
  "Rehash_factor hash tablelen = word_of_int (uint hash smod (tablelen - 2) + 1)"
definition Symbol_hash_reprobe :: "DLword \<Rightarrow> DLword \<Rightarrow> int \<Rightarrow> DLword" where
  "Symbol_hash_reprobe hash rehashfactor tablelen = word_of_int ((uint hash + uint rehashfactor) smod tablelen)"
definition Entry_hash :: "DLword \<Rightarrow> DLword \<Rightarrow> DLword" where
  "Entry_hash strlen sxhash =
     (((strlen XOR sxhash XOR drop_bit 8 sxhash XOR drop_bit 16 sxhash XOR drop_bit 19 sxhash) mod 254) + 2)"

text \<open>The characters a caller passes, and how they are compared with the name of a symbol.\<close>

datatype chars = Emulator_chars "DLbyte list" | Lisp_chars LispPTR

definition symbol_named :: "vm \<Rightarrow> chars \<Rightarrow> DLword \<Rightarrow> DLword \<Rightarrow> DLword \<Rightarrow> LispPTR \<Rightarrow> bool" where
  "symbol_named s char_base offset len fatp index \<longleftrightarrow>
     len = pname_length s index \<and>
     (let pname = (pnamebase s index, 1 + ucast (fatpnamep s index))
      in case char_base of
           Lisp_chars a \<Rightarrow>
             compare_lisp_chars s pname (a, if fatp \<noteq> 0 then push_bit 1 (ucast offset) else ucast offset)
               len (fatpnamep s index) fatp = T
         | Emulator_chars cs \<Rightarrow>
             compare_chars s pname cs (if fatp \<noteq> 0 then 2 * unat offset else unat offset) len = T)"

definition symbol_index :: "LispPTR \<Rightarrow> LispPTR" where
  "symbol_index v = (if v AND SEGMASK = S_POSITIVE then v AND 0xFFFF else v)"

text \<open>One step of the search of a table: done (found or an empty entry), or go on at the next place.\<close>

definition table_step ::
  "vm \<Rightarrow> LispPTR \<Rightarrow> LispPTR \<Rightarrow> DLword \<Rightarrow> (LispPTR \<Rightarrow> bool) \<Rightarrow> DLword \<Rightarrow> LispPTR option option res" where
  "table_step s vec hash ehashval named indexvar =
     rbind (aref1 s hash (ucast indexvar)) (\<lambda>v.
       let ehash = ucast (0xFF AND v) :: DLword
       in if ehashval \<noteq> ehash then Inr (if ehash = 0 then Some None else None)
          else rbind (aref1 s vec (ucast indexvar)) (\<lambda>v.
                 Inr (if named (symbol_index v) then Some (Some (symbol_index v)) else None)))"

partial_function (option) find_in_table ::
  "vm \<Rightarrow> LispPTR \<Rightarrow> LispPTR \<Rightarrow> DLword \<Rightarrow> (LispPTR \<Rightarrow> bool) \<Rightarrow> int \<Rightarrow> DLword \<Rightarrow> DLword \<Rightarrow>
   LispPTR option res option" where
  "find_in_table s vec hash ehashval named arraylen h2 indexvar =
     (case table_step s vec hash ehashval named indexvar of
        Inl e \<Rightarrow> Some (Inl e)
      | Inr (Some r) \<Rightarrow> Some (Inr r)
      | Inr None \<Rightarrow>
          find_in_table s vec hash ehashval named arraylen h2 (Symbol_hash_reprobe indexvar h2 arraylen))"

declare find_in_table.simps [code]

text \<open>The first of a list of tables; the result, or the rest of the list.\<close>

definition first_table ::
  "vm \<Rightarrow> DLword \<Rightarrow> DLword \<Rightarrow> (LispPTR \<Rightarrow> bool) \<Rightarrow> LispPTR \<Rightarrow> LispPTR \<Rightarrow>
   (LispPTR + LispPTR \<times> LispPTR) res" where
  "first_table s hashval ehashval named vecs hashes =
     rbind (car s vecs) (\<lambda>vec. rbind (cdr s vecs) (\<lambda>vecs1.
     rbind (car s hashes) (\<lambda>hash. rbind (cdr s hashes) (\<lambda>hashes1.
       let arraylen = sint (ah_totalsize s vec)
       in if arraylen = 0 then Inr (Inl 0xFFFFFFFF)
          else if arraylen = 2 then Inl (Fatal ''division by zero'')
          else rbind (of_loop (find_in_table s vec hash ehashval named arraylen (Rehash_factor hashval arraylen)
                       (word_of_int (uint hashval smod arraylen)))) (\<lambda>r.
               rbind r (\<lambda>found.
                 case found of Some index \<Rightarrow> Inr (Inl index)
                 | None \<Rightarrow> Inr (if hashes1 = NIL then Inl 0xFFFFFFFF else Inr (vecs1, hashes1))))))))"

partial_function (option) loop_thru_hashtables ::
  "vm \<Rightarrow> DLword \<Rightarrow> DLword \<Rightarrow> (LispPTR \<Rightarrow> bool) \<Rightarrow> LispPTR \<Rightarrow> LispPTR \<Rightarrow> LispPTR res option" where
  "loop_thru_hashtables s hashval ehashval named vecs hashes =
     (case first_table s hashval ehashval named vecs hashes of
        Inl e \<Rightarrow> Some (Inl e)
      | Inr (Inl index) \<Rightarrow> Some (Inr index)
      | Inr (Inr (vecs1, hashes1)) \<Rightarrow> loop_thru_hashtables s hashval ehashval named vecs1 hashes1)"

declare loop_thru_hashtables.simps [code]

definition find_symbol ::
  "bool \<Rightarrow> vm \<Rightarrow> chars \<Rightarrow> DLword \<Rightarrow> DLword \<Rightarrow> LispPTR \<Rightarrow> DLword \<Rightarrow> LispPTR res" where
  "find_symbol signed_char s char_base offset len hashtbl fatp =
     (if hashtbl = 0 then Inr 0xFFFFFFFF
      else let hashval = (case char_base of Lisp_chars a \<Rightarrow> compute_lisp_hash s a offset len fatp
                          | Emulator_chars cs \<Rightarrow> compute_hash signed_char cs offset len)
           in rbind (of_loop (loop_thru_hashtables s hashval (Entry_hash len hashval)
                      (symbol_named s char_base offset len fatp) (ht_table s hashtbl) (ht_hash s hashtbl)))
                (\<lambda>r. r))"

section \<open>Packages\<close>

definition pk_NAME :: "vm \<Rightarrow> LispPTR \<Rightarrow> LispPTR" where "pk_NAME s a = rd s (a + 4)"
definition pk_INTERNAL_SYMBOLS :: "vm \<Rightarrow> LispPTR \<Rightarrow> LispPTR" where "pk_INTERNAL_SYMBOLS s a = rd s (a + 16)"
definition pk_EXTERNAL_SYMBOLS :: "vm \<Rightarrow> LispPTR \<Rightarrow> LispPTR" where "pk_EXTERNAL_SYMBOLS s a = rd s (a + 18)"
definition str_fillpointer :: "vm \<Rightarrow> LispPTR \<Rightarrow> 32 word" where "str_fillpointer s a = rd s (a + 4)"

text \<open>The standard function \<open>strncmp\<close>, as a test for equality.\<close>

primrec strncmp_eq :: "DLbyte list \<Rightarrow> DLbyte list \<Rightarrow> nat \<Rightarrow> nat \<Rightarrow> bool" where
  "strncmp_eq a b i 0 = True"
| "strncmp_eq a b i (Suc n) =
     (if char_at a i \<noteq> char_at b i then False else if char_at a i = 0 then True
      else strncmp_eq a b (Suc i) n)"

definition cstring :: "string \<Rightarrow> DLbyte list" where "cstring = map of_char"

text \<open>Does the package at this index have the name? Its name string is thin.\<close>

definition package_at :: "vm \<Rightarrow> LispPTR \<Rightarrow> DLbyte list \<Rightarrow> nat \<Rightarrow> nat \<Rightarrow> bool res" where
  "package_at s table packname len index =
     rbind (aref1 s table (of_nat index)) (\<lambda>package.
       let namestring = pk_NAME s package; len2 = ucast (str_fillpointer s namestring) :: DLword
       in Inr (len = unat len2 \<and>
               compare_chars s (ar_base s namestring, ar_offset s namestring) packname 0 (of_nat len) = T))"

primrec find_package ::
  "vm \<Rightarrow> LispPTR \<Rightarrow> DLbyte list \<Rightarrow> nat \<Rightarrow> nat list \<Rightarrow> nat option res" where
  "find_package s table packname len [] = Inr None"
| "find_package s table packname len (index # is) =
     rbind (package_at s table packname len index) (\<lambda>b.
       if b then Inr (Some index) else find_package s table packname len is)"

definition find_package_from_name :: "vm \<Rightarrow> LispPTR \<Rightarrow> DLbyte list \<Rightarrow> nat \<Rightarrow> nat option res" where
  "find_package_from_name s table packname len =
     find_package s table packname len [1..<nat (sint (ah_totalsize s table))]"

definition package_named :: "vm \<Rightarrow> LispPTR \<Rightarrow> DLbyte list \<Rightarrow> DLword \<Rightarrow> nat option res" where
  "package_named s table packname packlen =
     (let is = (\<lambda>nick. strncmp_eq packname (cstring nick) 0 (unat packlen))
      in if is ''XCL'' then find_package_from_name s table (cstring ''XEROX-COMMON-LISP'') 17
         else if is ''SI'' then find_package_from_name s table (cstring ''SYSTEM'') 6
         else if is ''CL'' then find_package_from_name s table (cstring ''LISP'') 4
         else if is ''XCLC'' then find_package_from_name s table (cstring ''COMPILER'') 8
         else find_package_from_name s table packname (unat packlen))"

text \<open>\<open>table\<close> is \<open>*Package_from_Index_word\<close>.\<close>

definition get_package_atom ::
  "bool \<Rightarrow> vm \<Rightarrow> LispPTR \<Rightarrow> DLbyte list \<Rightarrow> DLword \<Rightarrow> DLbyte list \<Rightarrow> DLword \<Rightarrow> LispPTR res" where
  "get_package_atom signed_char s table char_base charlen packname packlen =
     rbind (package_named s table packname packlen) (\<lambda>packindex.
       case packindex of None \<Rightarrow> Inr 0xFFFFFFFF
       | Some i \<Rightarrow>
           rbind (aref1 s table (of_nat i)) (\<lambda>packaddr.
           rbind (find_symbol signed_char s (Emulator_chars char_base) 0 charlen (pk_EXTERNAL_SYMBOLS s packaddr) 0)
             (\<lambda>index. if index \<noteq> 0xFFFFFFFF then Inr index
                       else find_symbol signed_char s (Emulator_chars char_base) 0 charlen
                              (pk_INTERNAL_SYMBOLS s packaddr) 0)))"

definition with_symbol ::
  "bool \<Rightarrow> LispPTR \<Rightarrow> LispPTR \<Rightarrow> LispPTR \<Rightarrow> LispPTR \<Rightarrow> LispPTR \<Rightarrow> LispPTR \<Rightarrow> vm \<Rightarrow> (LispPTR \<times> vm) res" where
  "with_symbol signed_char char_base offset charlen fatp hashtbl result s =
     rbind (find_symbol signed_char s (Lisp_chars char_base) (ucast (offset AND 0xFFFF))
              (ucast (charlen AND 0xFFFF)) hashtbl (ucast fatp)) (\<lambda>symbol.
       if symbol = 0xFFFFFFFF then Inr (NIL, wr result 0xFFFFFFFF s) else Inr (symbol, wr result 3 s))"

end
