(* ===== verification/Atom_Laws.thy ===== *)
theory Atom_Laws
  imports Atoms
begin

text \<open>
  Looking up symbols. Both hash tables are searched by open addressing: the interface
  \<open>probe_search\<close> states the equation of such a search, and its lemmas say where it stops. The
  reprobe of the atom table is odd, so a search comes by every place; that of a package table is
  prime to its length where the tables are made that way.
\<close>

section \<open>Search by open addressing\<close>

text \<open>\<open>look\<close> is what one place decides, \<open>move\<close> the way to the next place.\<close>

locale probe_search =
  fixes look :: "'k \<Rightarrow> 'h \<Rightarrow> 'r option"
    and move :: "'k \<Rightarrow> 'h \<Rightarrow> 'h"
    and search :: "'k \<Rightarrow> 'h \<Rightarrow> 'r option"
  assumes search_eq: "search k h = (case look k h of Some r \<Rightarrow> Some r | None \<Rightarrow> search k (move k h))"
    and search_stops: "search k h = Some r \<Longrightarrow> \<exists>n. look k ((move k ^^ n) h) = Some r"
begin

definition place :: "'k \<Rightarrow> 'h \<Rightarrow> nat \<Rightarrow> 'h" where "place k h n = (move k ^^ n) h"

lemma place_0 [simp]: "place k h 0 = h" by (simp add: place_def)

lemma place_Suc: "place k h (Suc n) = place k (move k h) n"
  by (simp add: place_def funpow_Suc_right del: funpow.simps)

lemma search_at:
  "\<forall>m<n. look k (place k h m) = None \<Longrightarrow> look k (place k h n) = Some r \<Longrightarrow> search k h = Some r"
proof (induction n arbitrary: h)
  case 0
  then show ?case using search_eq [of k h] by simp
next
  case (Suc n)
  have "look k h = None" using Suc.prems(1) [rule_format, of 0] by simp
  moreover have "search k (move k h) = Some r"
  proof (rule Suc.IH)
    show "\<forall>m<n. look k (place k (move k h) m) = None"
      using Suc.prems(1) by (auto simp flip: place_Suc)
    show "look k (place k (move k h) n) = Some r" using Suc.prems(2) by (simp add: place_Suc)
  qed
  ultimately show ?case using search_eq [of k h] by simp
qed

lemma first_place:
  assumes "look k (place k h n) \<noteq> None"
  obtains m where "m \<le> n" "\<forall>i<m. look k (place k h i) = None" "look k (place k h m) \<noteq> None"
proof
  define m where "m = (LEAST i. look k (place k h i) \<noteq> None)"
  show "m \<le> n" using assms unfolding m_def by (rule Least_le)
  show "look k (place k h m) \<noteq> None" using assms unfolding m_def by (rule LeastI)
  show "\<forall>i<m. look k (place k h i) = None" unfolding m_def using not_less_Least by blast
qed

text \<open>A search ends exactly when one of its places decides it.\<close>

lemma search_ends: "(\<exists>r. search k h = Some r) \<longleftrightarrow> (\<exists>n. look k (place k h n) \<noteq> None)"
proof
  assume "\<exists>r. search k h = Some r"
  then obtain r n where "look k ((move k ^^ n) h) = Some r" using search_stops by blast
  then show "\<exists>n. look k (place k h n) \<noteq> None" by (auto simp: place_def)
next
  assume "\<exists>n. look k (place k h n) \<noteq> None"
  then obtain n where "look k (place k h n) \<noteq> None" by blast
  then obtain m where "\<forall>i<m. look k (place k h i) = None" "look k (place k h m) \<noteq> None"
    by (rule first_place)
  then show "\<exists>r. search k h = Some r" using search_at by blast
qed

text \<open>
  A search through a table: the places \<open>G\<close> it may come by are empty, or hold an entry that has the
  name asked for or not. The entry of that name, if any, stands on the way, before every empty place.
\<close>

lemma looks_up:
  assumes look: "\<And>g. g \<in> G \<Longrightarrow>
      look k g = (if free g then Some missing else if named g then Some (val g) else None)"
    and stays: "\<And>n. place k h n \<in> G"
    and stops: "\<exists>n. free (place k h n)"
    and on_way: "\<And>g. g \<in> G \<Longrightarrow> \<not> free g \<Longrightarrow> named g \<Longrightarrow>
      \<exists>n. place k h n = g \<and> (\<forall>m<n. \<not> free (place k h m))"
    and once: "\<And>g g'. g \<in> G \<Longrightarrow> g' \<in> G \<Longrightarrow> \<not> free g \<Longrightarrow> \<not> free g' \<Longrightarrow> named g \<Longrightarrow> named g' \<Longrightarrow> g = g'"
  shows "search k h = Some v \<longleftrightarrow>
    (\<exists>g\<in>G. \<not> free g \<and> named g \<and> v = val g) \<or> (\<forall>g\<in>G. \<not> free g \<longrightarrow> \<not> named g) \<and> v = missing"
proof -
  have found: "search k h = Some (val g)" if g: "g \<in> G" "\<not> free g" "named g" for g
  proof -
    obtain n where n: "place k h n = g" "\<forall>m<n. \<not> free (place k h m)" using on_way g by blast
    have "look k (place k h n) \<noteq> None" using g n(1) look stays by simp
    then obtain m where m: "m \<le> n" "\<forall>i<m. look k (place k h i) = None" "look k (place k h m) \<noteq> None"
      by (rule first_place)
    have f: "\<not> free (place k h m)" using m(1) n g(2) by (cases "m = n") auto
    then have "named (place k h m)" using m(3) look [OF stays, of m] by (simp split: if_splits)
    then have "place k h m = g" using once [OF stays g(1)] f g by blast
    then have "look k (place k h m) = Some (val g)" using look [OF stays, of m] g by simp
    then show ?thesis by (rule search_at [OF m(2)])
  qed
  moreover have none: "search k h = Some missing" if "\<forall>g\<in>G. \<not> free g \<longrightarrow> \<not> named g"
  proof -
    obtain n where "free (place k h n)" using stops ..
    then have "look k (place k h n) \<noteq> None" using look [OF stays, of n] by simp
    then obtain m where m: "\<forall>i<m. look k (place k h i) = None" "look k (place k h m) \<noteq> None"
      by (rule first_place)
    then have "look k (place k h m) = Some missing"
      using that stays look [OF stays, of m] by (simp split: if_splits)
    then show ?thesis by (rule search_at [OF m(1)])
  qed
  ultimately show ?thesis by (metis option.inject)
qed

end

section \<open>The atom table is such a search\<close>

text \<open>A search of the atom table is given by the characters asked for and the reprobe.\<close>

definition atom_look :: "vm \<times> DLbyte list \<times> DLword \<times> DLword \<times> DLword \<Rightarrow> DLword \<Rightarrow> LispPTR option" where
  "atom_look = (\<lambda>(s, cs, offset, len, r) hash.
     if AtomHT s hash = 0 then Some 0xFFFFFFFF
     else if same_pname s cs offset len (AtomHT s hash - 1) then Some (ucast (AtomHT s hash - 1)) else None)"

definition atom_move :: "vm \<times> DLbyte list \<times> DLword \<times> DLword \<times> DLword \<Rightarrow> DLword \<Rightarrow> DLword" where
  "atom_move = (\<lambda>(s, cs, offset, len, r) hash. hash + r)"

definition atom_search :: "vm \<times> DLbyte list \<times> DLword \<times> DLword \<times> DLword \<Rightarrow> DLword \<Rightarrow> LispPTR option" where
  "atom_search = (\<lambda>(s, cs, offset, len, r) hash. atom_probe s cs offset len r hash)"

lemma atom_probe_stops:
  assumes p: "atom_probe s cs offset len r h = Some v"
  shows "\<exists>n. atom_look (s, cs, offset, len, r) ((atom_move (s, cs, offset, len, r) ^^ n) h) = Some v"
proof (rule atom_probe.raw_induct [where P = "\<lambda>s cs offset len r h v.
    \<exists>n. atom_look (s, cs, offset, len, r) ((atom_move (s, cs, offset, len, r) ^^ n) h) = Some v", OF _ p],
    goal_cases)
  case (1 probe s cs offset len r h v)
  show ?case
  proof (cases "atom_look (s, cs, offset, len, r) h")
    case None
    then have "probe s cs offset len r (h + r) = Some v"
      using 1(2) by (simp add: atom_look_def split: if_splits)
    from 1(1) [OF this] obtain n
      where "atom_look (s, cs, offset, len, r) ((atom_move (s, cs, offset, len, r) ^^ n) (h + r)) = Some v" ..
    then show ?thesis
      by (intro exI [of _ "Suc n"]) (simp add: funpow_Suc_right atom_move_def del: funpow.simps)
  next
    case (Some w)
    then have "w = v" using 1(2) by (simp add: atom_look_def split: if_splits)
    then show ?thesis using Some by (intro exI [of _ 0]) simp
  qed
qed

interpretation atom: probe_search atom_look atom_move atom_search
proof
  fix k h
  show "atom_search k h = (case atom_look k h of Some r \<Rightarrow> Some r | None \<Rightarrow> atom_search k (atom_move k h))"
    using atom_probe.simps [of "fst k" "fst (snd k)" "fst (snd (snd k))" "fst (snd (snd (snd k)))" _ h]
    by (simp add: atom_search_def atom_look_def atom_move_def case_prod_beta)
next
  fix k h r
  assume "atom_search k h = Some r"
  then show "\<exists>n. atom_look k ((atom_move k ^^ n) h) = Some r"
    by (cases k) (auto simp: atom_search_def dest: atom_probe_stops)
qed

section \<open>Every place is reached\<close>

lemma atom_move_step: "atom_move (s, cs, offset, len, r) h = h + r"
  by (simp add: atom_move_def)

lemma atom_place: "atom.place (s, cs, offset, len, r) h n = h + of_nat n * r"
  by (induction n arbitrary: h) (simp_all add: atom.place_Suc atom_move_step algebra_simps)

lemma two_16: "(2 :: DLword) ^ 16 = 0" by simp

lemma odd_word_inverse:
  fixes r :: DLword
  assumes "bit r 0"
  shows "\<exists>u. u * r = 1"
proof -
  have "bit (uint r) 0" using assms by (subst bit_uint_iff) simp
  then have "odd (uint r)" unfolding bit_0 .
  then have "coprime (uint r) 2" by simp
  then have "coprime (uint r) (2 ^ 16)" by (rule coprime_power_right_iff [THEN iffD2, OF disjI1])
  then have "gcd (uint r) (2 ^ 16) = 1" by (simp add: coprime_iff_gcd_eq_1)
  then obtain u v where b: "u * uint r + v * 2 ^ 16 = 1" using bezout_int [of "uint r" "2 ^ 16"] by metis
  have "word_of_int u * r = (word_of_int (u * uint r + v * 2 ^ 16) :: DLword)"
    by (simp only: of_int_add of_int_mult word_of_int_uint of_int_power of_int_numeral two_16) simp
  then show ?thesis unfolding b by auto
qed

lemma odd_steps_reach:
  fixes r h g :: DLword
  assumes "bit r 0"
  shows "\<exists>n. h + of_nat n * r = g"
proof -
  obtain u where u: "u * r = 1" using odd_word_inverse [OF assms] ..
  have "of_nat (unat ((g - h) * u)) * r = (g - h) * (u * r)" by (simp add: mult.assoc)
  then show ?thesis using u by (intro exI [of _ "unat ((g - h) * u)"]) simp
qed

lemma Atom_reprobe_odd: "bit (Atom_reprobe hash c) 0"
  by (simp add: Atom_reprobe_def bit_and_iff bit_or_iff)

section \<open>Names\<close>

text \<open>The characters of an atom's print name, and those a caller asks for.\<close>

definition atom_name :: "vm \<Rightarrow> DLword \<Rightarrow> DLbyte list" where
  "atom_name s atom_index =
     map (byte_of s (pnamebase s (ucast atom_index), 1)) [0..<unat (pname_length s (ucast atom_index))]"

definition chars_from :: "DLbyte list \<Rightarrow> DLword \<Rightarrow> DLword \<Rightarrow> DLbyte list" where
  "chars_from cs offset len = map (\<lambda>i. char_at cs (unat offset + i)) [0..<unat len]"

lemma T_not_NIL [simp]: "T \<noteq> NIL" by (simp add: T_def NIL_def)
lemma truth_T [simp]: "truth b = T \<longleftrightarrow> b" by (simp add: truth_def T_def NIL_def)

lemma same_pname_iff: "same_pname s cs offset len i \<longleftrightarrow> atom_name s i = chars_from cs offset len"
proof -
  have "map f [0..<n] = map g [0..<m] \<longleftrightarrow> n = m \<and> (\<forall>i<n. f i = g i)" for f g :: "nat \<Rightarrow> DLbyte" and n m
    by (auto simp: list_eq_iff_nth_eq)
  moreover have "len = w \<longleftrightarrow> unat len = unat w" for w by (simp add: word_unat_eq_iff)
  ultimately show ?thesis
    by (auto simp: same_pname_def compare_chars_def atom_name_def chars_from_def list_all_iff)
qed

text \<open>Where the search for a name starts, and how far it goes from place to place.\<close>

definition name_hash :: "bool \<Rightarrow> DLbyte list \<Rightarrow> DLword" where
  "name_hash signed_char cs =
     (if cs = [] then 0 else hash_chars (\<lambda>i. char_int signed_char (cs ! i)) (length cs))"
definition name_reprobe :: "bool \<Rightarrow> DLbyte list \<Rightarrow> DLword" where
  "name_reprobe signed_char cs =
     Atom_reprobe (name_hash signed_char cs) (if cs = [] then 255 else ucast (hd cs))"
definition name_place :: "bool \<Rightarrow> DLbyte list \<Rightarrow> nat \<Rightarrow> DLword" where
  "name_place signed_char cs n = name_hash signed_char cs + of_nat n * name_reprobe signed_char cs"

lemma hash_chars_cong: "(\<And>i. i = 0 \<or> i < n \<Longrightarrow> f i = g i) \<Longrightarrow> hash_chars f n = hash_chars g n"
proof -
  assume e: "\<And>i. i = 0 \<or> i < n \<Longrightarrow> f i = g i"
  have "foldl (\<lambda>h i. hash_step h (f i)) (push_bit 8 (f 0)) [1..<n] =
        foldl (\<lambda>h i. hash_step h (g i)) (push_bit 8 (f 0)) [1..<n]"
    using e by (intro foldl_cong) auto
  then show ?thesis using e [of 0] by (simp add: hash_chars_def)
qed

lemma make_atom_probes:
  assumes "len \<noteq> 1"
  shows "make_atom signed_char s cs offset len =
    of_loop (atom_probe s cs offset len (name_reprobe signed_char (chars_from cs offset len))
               (name_hash signed_char (chars_from cs offset len)))"
proof (cases "len = 0")
  case True
  then show ?thesis
    by (simp add: make_atom_def name_hash_def name_reprobe_def chars_from_def)
next
  case False
  then have n: "0 < unat len" by (simp add: unat_gt_0)
  then have ne: "chars_from cs offset len \<noteq> []" "length (chars_from cs offset len) = unat len"
    by (simp_all add: chars_from_def)
  have c: "chars_from cs offset len ! i = char_at cs (unat offset + i)" if "i = 0 \<or> i < unat len" for i
    using that n by (auto simp: chars_from_def)
  have "compute_hash signed_char cs offset len = name_hash signed_char (chars_from cs offset len)"
    using ne c by (auto simp: compute_hash_def name_hash_def intro: hash_chars_cong)
  moreover have "char_at cs (unat offset) = hd (chars_from cs offset len)"
    using ne c [of 0] by (simp add: hd_conv_nth)
  ultimately show ?thesis
    using False assms ne by (simp add: make_atom_def name_reprobe_def Let_def)
qed

section \<open>What the look-up of an atom promises\<close>

text \<open>
  The invariant of the table: there is an empty place; an atom whose name does not have one character
  stands at a place of the probe sequence of its name, and no place before it is empty; a name occurs
  once.
\<close>

definition atom_table_ok :: "bool \<Rightarrow> vm \<Rightarrow> bool" where
  "atom_table_ok signed_char s \<longleftrightarrow>
     (\<exists>h. AtomHT s h = 0) \<and>
     (\<forall>h. AtomHT s h \<noteq> 0 \<longrightarrow> length (atom_name s (AtomHT s h - 1)) \<noteq> 1 \<longrightarrow>
        (let name = atom_name s (AtomHT s h - 1)
         in \<exists>n. name_place signed_char name n = h \<and>
                (\<forall>m<n. AtomHT s (name_place signed_char name m) \<noteq> 0))) \<and>
     (\<forall>h h'. AtomHT s h \<noteq> 0 \<longrightarrow> AtomHT s h' \<noteq> 0 \<longrightarrow>
        atom_name s (AtomHT s h - 1) = atom_name s (AtomHT s h' - 1) \<longrightarrow> h = h')"

lemma make_atom_search:
  fixes len :: DLword and s :: vm and signed_char :: bool
  assumes "len \<noteq> 1" and name: "name = chars_from cs offset len"
  defines "k \<equiv> (s, cs, offset, len, name_reprobe signed_char name)"
  shows "make_atom signed_char s cs offset len = of_loop (atom_search k (name_hash signed_char name))"
    and "atom.place k (name_hash signed_char name) n = name_place signed_char name n"
    and "atom_look k h = (if AtomHT s h = 0 then Some 0xFFFFFFFF
           else if atom_name s (AtomHT s h - 1) = name then Some (ucast (AtomHT s h - 1)) else None)"
proof -
  show "make_atom signed_char s cs offset len = of_loop (atom_search k (name_hash signed_char name))"
    using make_atom_probes [OF assms(1)] by (simp add: k_def name atom_search_def)
  show "atom.place k (name_hash signed_char name) n = name_place signed_char name n"
    by (simp add: k_def atom_place name_place_def)
  show "atom_look k h = (if AtomHT s h = 0 then Some 0xFFFFFFFF
           else if atom_name s (AtomHT s h - 1) = name then Some (ucast (AtomHT s h - 1)) else None)"
    by (simp add: k_def atom_look_def same_pname_iff name)
qed

lemma length_chars_from: "length (chars_from cs offset len) = unat len"
  by (simp add: chars_from_def)

lemma name_place_reaches: "\<exists>n. name_place signed_char name n = h"
  using odd_steps_reach [OF Atom_reprobe_odd, of "name_hash signed_char name" _ _ h]
  by (simp add: name_place_def name_reprobe_def)

text \<open>
  C36. For a name of other than one character \<open>make_atom\<close> returns exactly when the table has an empty place or the atom: its reprobe is odd,
  so the search passes by every one of the 65536 places. On a full table without the atom it does not end.
\<close>

theorem make_atom_returns:
  assumes "len \<noteq> 1"
  shows "(\<exists>v. make_atom signed_char s cs offset len = Inr v) \<longleftrightarrow>
    (\<exists>h. AtomHT s h = 0 \<or> atom_name s (AtomHT s h - 1) = chars_from cs offset len)"
proof -
  define name where "name = chars_from cs offset len"
  note search = make_atom_search [OF assms name_def, where s = s and signed_char = signed_char]
  have "(\<exists>v. make_atom signed_char s cs offset len = Inr v) \<longleftrightarrow>
    (\<exists>n. AtomHT s (name_place signed_char name n) = 0 \<or>
         atom_name s (AtomHT s (name_place signed_char name n) - 1) = name)"
    using atom.search_ends [of _ "name_hash signed_char name"] search by (simp split: if_splits) blast
  also have "\<dots> \<longleftrightarrow> (\<exists>h. AtomHT s h = 0 \<or> atom_name s (AtomHT s h - 1) = name)"
    using name_place_reaches [of signed_char name] by metis
  finally show ?thesis by (simp add: name_def)
qed

lemma digit_object: "48 \<le> c \<Longrightarrow> c \<le> 57 \<Longrightarrow> S_POSITIVE + (ucast c - 48) = S_POSITIVE OR ucast (c - 48)" for c :: DLbyte
proof -
  assume c: "48 \<le> c" "c \<le> 57"
  have "48 \<le> n \<Longrightarrow> n \<le> 57 \<Longrightarrow> n = 48 \<or> n = 49 \<or> n = 50 \<or> n = 51 \<or> n = 52 \<or> n = 53 \<or> n = 54 \<or> n = 55 \<or> n = 56 \<or> n = 57"
    for n :: nat by presburger
  from this [of "unat c"] have "unat c \<in> {48, 49, 50, 51, 52, 53, 54, 55, 56, 57}"
    using c by (simp add: word_le_nat_alt)
  then have "c \<in> {48, 49, 50, 51, 52, 53, 54, 55, 56, 57}" by (auto simp: word_unat_eq_iff)
  then show ?thesis by (auto simp: S_POSITIVE_def)
qed

text \<open>
  C35. On a well-formed table \<open>make_atom\<close> is the look-up by name, for names of other than one
  character: it returns the index of the atom with the name asked for, and -1 when there is none. One
  character is not looked up: a digit is the small number, any other character the atom at the place fixed for
  it, counted without the ten digits.
\<close>

theorem make_atom_finds:
  assumes ok: "atom_table_ok signed_char s"
  shows "make_atom signed_char s cs offset len = Inr v \<longleftrightarrow>
    (if len = 1
     then let c = char_at cs (unat offset)
          in v = (if c > 57 then ATOMoffset + (ucast c - 10)
                  else if 48 \<le> c then S_POSITIVE OR ucast (c - 48) else ATOMoffset + ucast c)
     else (\<exists>h. AtomHT s h \<noteq> 0 \<and> atom_name s (AtomHT s h - 1) = chars_from cs offset len \<and>
             v = ucast (AtomHT s h - 1)) \<or>
          (\<forall>h. AtomHT s h \<noteq> 0 \<longrightarrow> atom_name s (AtomHT s h - 1) \<noteq> chars_from cs offset len) \<and> v = 0xFFFFFFFF)"
proof (cases "len = 1")
  case True
  then show ?thesis by (auto simp: make_atom_def Let_def not_le not_less digit_object)
next
  case len: False
  define name where "name = chars_from cs offset len"
  define k where "k = (s, cs, offset, len, name_reprobe signed_char name)"
  define h0 where "h0 = name_hash signed_char name"
  note search = make_atom_search [OF len name_def, where s = s and signed_char = signed_char, folded k_def h0_def]
  have l: "length name \<noteq> 1"
    using len word_unat_eq_iff [of len 1] by (auto simp: name_def length_chars_from)
  have "atom_search k h0 = Some v \<longleftrightarrow>
    (\<exists>g\<in>UNIV. \<not> AtomHT s g = 0 \<and> atom_name s (AtomHT s g - 1) = name \<and> v = ucast (AtomHT s g - 1)) \<or>
    (\<forall>g\<in>UNIV. \<not> AtomHT s g = 0 \<longrightarrow> \<not> atom_name s (AtomHT s g - 1) = name) \<and> v = 0xFFFFFFFF"
  proof (rule atom.looks_up)
    obtain h where e: "AtomHT s h = 0" using ok by (auto simp: atom_table_ok_def)
    obtain n where "name_place signed_char name n = h" using name_place_reaches by blast
    then show "\<exists>n. AtomHT s (atom.place k h0 n) = 0" using e by (auto simp: search)
    show "\<exists>n. atom.place k h0 n = g \<and> (\<forall>m<n. \<not> AtomHT s (atom.place k h0 m) = 0)"
      if "\<not> AtomHT s g = 0" "atom_name s (AtomHT s g - 1) = name" for g
      using ok that l unfolding atom_table_ok_def search by metis
    show "g = g'" if "\<not> AtomHT s g = 0" "\<not> AtomHT s g' = 0" "atom_name s (AtomHT s g - 1) = name"
      "atom_name s (AtomHT s g' - 1) = name" for g g'
      using ok that by (simp add: atom_table_ok_def)
  qed (simp_all add: search)
  then show ?thesis using len by (simp add: search name_def)
qed

section \<open>The two hash functions\<close>

lemma char_int_ascii: "\<not> signed_char \<or> c < 128 \<Longrightarrow> char_int signed_char c = ucast c"
proof -
  assume a: "\<not> signed_char \<or> c < 128"
  have "scast c = (ucast c :: DLword)" if "c < 128"
  proof -
    have "0 \<le> uint c" "uint c < 128" using that by (simp_all add: word_less_def)
    then have "\<not> bit (uint c) 7" by (simp add: bit_iff_odd)
    then have "\<not> bit c 7" by (simp add: bit_uint_iff)
    moreover have "bit c n \<Longrightarrow> n < 8" for n by (auto dest: bit_imp_le_length)
    ultimately show ?thesis
      by (intro bit_word_eqI) (auto simp: bit_ucast_iff bit_signed_iff min_def le_Suc_eq less_Suc_eq
        eval_nat_numeral dest: le_neq_implies_less)
  qed
  then show ?thesis using a by (auto simp: char_int_def)
qed

lemma first_char_signed: "push_bit 8 (char_int signed_char c) = push_bit 8 (ucast c :: DLword)"
proof (rule bit_word_eqI)
  fix n
  assume "n < LENGTH(16)"
  then have "7 \<le> n - 8 \<Longrightarrow> n - 8 = 7" by simp
  then show "bit (push_bit 8 (char_int signed_char c)) n = bit (push_bit 8 (ucast c :: DLword)) n"
    by (cases "7 \<le> n - 8") (auto simp: char_int_def bit_push_bit_iff bit_ucast_iff bit_signed_iff min_def)
qed

lemma hash_chars_agree:
  assumes "push_bit 8 (f 0) = push_bit 8 (g 0)" "\<And>i. 0 < i \<Longrightarrow> i < n \<Longrightarrow> f i = g i"
  shows "hash_chars f n = hash_chars g n"
proof -
  have "foldl (\<lambda>h i. hash_step h (f i)) x [1..<n] = foldl (\<lambda>h i. hash_step h (g i)) x [1..<n]" for x
    using assms(2) by (intro foldl_cong) auto
  then show ?thesis by (simp add: hash_chars_def assms(1))
qed

text \<open>
  C37. The hash function for strings of the emulator and the one for strings of Lisp agree, also on fat
  strings, as long as plain \<open>char\<close> is unsigned or the characters after the first are ASCII.
\<close>

theorem hash_functions_agree:
  assumes same: "\<forall>i<unat len. if fatp \<noteq> 0
      then getword (mem s) (a + ucast o1 + of_nat i) = ucast (char_at cs (unat o2 + i))
      else getbyte (mem s) a (ucast o1 + of_nat i) = char_at cs (unat o2 + i)"
    and ascii: "\<forall>i<unat len. 0 < i \<longrightarrow> \<not> signed_char \<or> char_at cs (unat o2 + i) < 128"
    and "len \<noteq> 0"
  shows "compute_lisp_hash s a o1 len fatp = compute_hash signed_char cs o2 len"
proof -
  have n: "0 < unat len" using assms(3) by (simp add: unat_gt_0)
  have low: "0xFF AND (ucast c :: DLword) = ucast c" for c :: DLbyte
  proof -
    have m: "(0xFF :: DLword) = mask 8" by (simp add: mask_eq_exp_minus_1)
    show ?thesis unfolding m
      by (intro bit_word_eqI) (auto simp: bit_and_iff bit_ucast_iff bit_mask_iff dest: bit_imp_le_length)
  qed
  define f where "f i = (if fatp \<noteq> 0 then 0xFF AND getword (mem s) (a + ucast o1 + of_nat i)
    else 0xFF AND ucast (getbyte (mem s) a (ucast o1 + of_nat i)))" for i :: nat
  have f: "f i = ucast (char_at cs (unat o2 + i))" if "i < unat len" for i
    using same that low by (auto simp: f_def)
  have "compute_lisp_hash s a o1 len fatp = hash_chars f (unat len)"
    using assms(3) by (cases "fatp = 0") (simp_all add: compute_lisp_hash_def f_def [abs_def])
  also have "\<dots> = compute_hash signed_char cs o2 len"
    unfolding compute_hash_def
    using f [OF n] f ascii by (intro hash_chars_agree) (auto simp: first_char_signed char_int_ascii)
  finally show ?thesis .
qed

text \<open>With a signed \<open>char\<close> they differ from the second character on.\<close>

lemma signed_hash_differs:
  "compute_hash True [65, 0xE9] 0 2 \<noteq> compute_hash False [65, 0xE9] 0 2"
  by code_simp

section \<open>Searching a package table\<close>

type_synonym table_key = "vm \<times> LispPTR \<times> LispPTR \<times> DLword \<times> (LispPTR \<Rightarrow> bool) \<times> int \<times> DLword"

definition pkg_look :: "table_key \<Rightarrow> DLword \<Rightarrow> LispPTR option res option" where
  "pkg_look = (\<lambda>(s, vec, hash, ehashval, named, arraylen, h2) i.
     case table_step s vec hash ehashval named i of
       Inl e \<Rightarrow> Some (Inl e) | Inr (Some r) \<Rightarrow> Some (Inr r) | Inr None \<Rightarrow> None)"

definition pkg_move :: "table_key \<Rightarrow> DLword \<Rightarrow> DLword" where
  "pkg_move = (\<lambda>(s, vec, hash, ehashval, named, arraylen, h2) i. Symbol_hash_reprobe i h2 arraylen)"

definition pkg_search :: "table_key \<Rightarrow> DLword \<Rightarrow> LispPTR option res option" where
  "pkg_search = (\<lambda>(s, vec, hash, ehashval, named, arraylen, h2) i.
     find_in_table s vec hash ehashval named arraylen h2 i)"

lemma find_in_table_stops:
  assumes p: "find_in_table s vec hash eh named l h2 i = Some v"
  shows "\<exists>n. pkg_look (s, vec, hash, eh, named, l, h2) ((pkg_move (s, vec, hash, eh, named, l, h2) ^^ n) i) = Some v"
proof (rule find_in_table.raw_induct [where P = "\<lambda>s vec hash eh named l h2 i v.
    \<exists>n. pkg_look (s, vec, hash, eh, named, l, h2) ((pkg_move (s, vec, hash, eh, named, l, h2) ^^ n) i) = Some v",
    OF _ p], goal_cases)
  case (1 search s vec hash eh named l h2 i v)
  let ?k = "(s, vec, hash, eh, named, l, h2)"
  show ?case
  proof (cases "pkg_look ?k i")
    case None
    then have "search s vec hash eh named l h2 (Symbol_hash_reprobe i h2 l) = Some v"
      using 1(2) by (auto simp: pkg_look_def split: sum.splits option.splits)
    from 1(1) [OF this] obtain n
      where "pkg_look ?k ((pkg_move ?k ^^ n) (Symbol_hash_reprobe i h2 l)) = Some v" ..
    then show ?thesis
      by (intro exI [of _ "Suc n"]) (simp add: funpow_Suc_right pkg_move_def del: funpow.simps)
  next
    case (Some w)
    then have "w = v" using 1(2) by (auto simp: pkg_look_def split: sum.splits option.splits)
    then show ?thesis using Some by (intro exI [of _ 0]) simp
  qed
qed

interpretation pkg: probe_search pkg_look pkg_move pkg_search
proof
  fix k :: table_key and h
  obtain s vec hash eh named l h2 where k: "k = (s, vec, hash, eh, named, l, h2)" by (cases k)
  show "pkg_search k h = (case pkg_look k h of Some r \<Rightarrow> Some r | None \<Rightarrow> pkg_search k (pkg_move k h))"
    using find_in_table.simps [of s vec hash eh named l h2 h]
    by (simp add: k pkg_search_def pkg_look_def pkg_move_def split: sum.split option.split)
next
  fix k :: table_key and h r
  assume "pkg_search k h = Some r"
  then show "\<exists>n. pkg_look k ((pkg_move k ^^ n) h) = Some r"
    by (cases k) (auto simp: pkg_search_def dest: find_in_table_stops)
qed

text \<open>Entry \<open>i\<close> of a package table: the byte of the hash array and the symbol.\<close>

definition pkg_byte :: "vm \<Rightarrow> LispPTR \<Rightarrow> DLword \<Rightarrow> DLword" where
  "pkg_byte s hash i = (case aref1 s hash (ucast i) of Inr v \<Rightarrow> ucast (0xFF AND v) | Inl e \<Rightarrow> 0)"
definition pkg_symbol :: "vm \<Rightarrow> LispPTR \<Rightarrow> DLword \<Rightarrow> LispPTR" where
  "pkg_symbol s vec i = (case aref1 s vec (ucast i) of Inr v \<Rightarrow> symbol_index v | Inl e \<Rightarrow> NIL)"
definition readable :: "vm \<Rightarrow> LispPTR \<Rightarrow> int \<Rightarrow> bool" where
  "readable s a n \<longleftrightarrow> (\<forall>i. uint i < n \<longrightarrow> (\<exists>v. aref1 s a (ucast (i :: DLword)) = Inr v))"

definition pkg_place :: "DLword \<Rightarrow> int \<Rightarrow> nat \<Rightarrow> DLword" where
  "pkg_place hashval n m =
     word_of_int ((uint hashval mod n + int m * uint (Rehash_factor hashval n)) mod n)"

lemma uint_word_of_int_16: "0 \<le> k \<Longrightarrow> k < 65536 \<Longrightarrow> uint (word_of_int k :: DLword) = k"
  by (simp add: uint_word_of_int)

lemma uint_pkg_place: "0 < n \<Longrightarrow> n < 65536 \<Longrightarrow>
  uint (pkg_place h n m) = (uint h mod n + int m * uint (Rehash_factor h n)) mod n"
  unfolding pkg_place_def
  by (rule uint_word_of_int_16) (auto intro: order.strict_trans [OF pos_mod_bound])

lemma smod_nonneg: "0 \<le> a \<Longrightarrow> 0 < n \<Longrightarrow> a smod n = a mod (n :: int)"
  by (cases "a = 0") (simp_all add: signed_modulo_int_def sgn_if)

lemma pkg_place_is:
  assumes "0 < n" "n < 65536"
  shows "pkg.place (s, vec, hash, eh, named, n, Rehash_factor h n)
    (word_of_int (uint h smod n)) m = pkg_place h n m"
proof (induction m)
  case 0
  show ?case using assms by (simp add: pkg_place_def smod_nonneg)
next
  case (Suc m)
  let ?k = "(s, vec, hash, eh, named, n, Rehash_factor h n)"
  have "pkg.place ?k i (Suc m) = pkg_move ?k (pkg.place ?k i m)" for i by (simp add: pkg.place_def)
  then have "pkg.place ?k (word_of_int (uint h smod n)) (Suc m) =
      Symbol_hash_reprobe (pkg_place h n m) (Rehash_factor h n) n"
    using Suc by (simp add: pkg_move_def)
  also have "\<dots> = word_of_int ((uint (pkg_place h n m) + uint (Rehash_factor h n)) mod n)"
    using assms(1) by (simp add: Symbol_hash_reprobe_def smod_nonneg)
  also have "(uint (pkg_place h n m) + uint (Rehash_factor h n)) mod n =
      (uint h mod n + int (Suc m) * uint (Rehash_factor h n)) mod n"
    unfolding uint_pkg_place [OF assms] mod_add_left_eq by (simp add: algebra_simps)
  finally show ?case by (simp add: pkg_place_def)
qed

lemma pkg_place_reaches:
  assumes n: "0 < n" "n < 65536" and co: "coprime (uint (Rehash_factor h n)) n" and i: "uint i < n"
  shows "\<exists>m. pkg_place h n m = i"
proof -
  let ?r = "uint (Rehash_factor h n)"
  obtain u v where b: "u * ?r + v * n = 1"
    using bezout_int [of ?r n] co by (metis coprime_iff_gcd_eq_1)
  define d where "d = uint i - uint h mod n"
  define m where "m = nat ((d * u) mod n)"
  have "int m = (d * u) mod n" using n(1) by (simp add: m_def)
  then have "(int m * ?r) mod n = (d * (u * ?r)) mod n" by (simp add: mod_mult_left_eq mult.assoc)
  also have "d * (u * ?r) = d + n * - (d * v)"
    using arg_cong [OF b, of "\<lambda>x. d * x"] by (simp add: algebra_simps)
  also have "(d + n * - (d * v)) mod n = d mod n" by (rule mod_mult_self2)
  finally have "(uint h mod n + int m * ?r) mod n = (uint h mod n + d) mod n"
    by (metis mod_add_right_eq)
  also have "\<dots> = uint i" using i by (simp add: d_def)
  finally have "uint (pkg_place h n m) = uint i" by (simp add: uint_pkg_place n)
  then show ?thesis by (intro exI [of _ m] word_uint_eqI)
qed

lemma pkg_look_at:
  assumes "readable s hash n" "readable s vec n" "uint i < n" "eh \<noteq> 0"
  shows "pkg_look (s, vec, hash, eh, named, l, h2) i =
    (if pkg_byte s hash i = 0 then Some (Inr None)
     else if pkg_byte s hash i = eh \<and> named (pkg_symbol s vec i)
     then Some (Inr (Some (pkg_symbol s vec i))) else None)"
  using assms by (auto simp: readable_def pkg_look_def table_step_def pkg_byte_def pkg_symbol_def Let_def
    split: sum.splits)

definition chars_hash :: "bool \<Rightarrow> vm \<Rightarrow> chars \<Rightarrow> DLword \<Rightarrow> DLword \<Rightarrow> DLword \<Rightarrow> DLword" where
  "chars_hash signed_char s cs offset len fatp =
     (case cs of Lisp_chars a \<Rightarrow> compute_lisp_hash s a offset len fatp
      | Emulator_chars bs \<Rightarrow> compute_hash signed_char bs offset len)"

text \<open>
  The pairs of arrays of a package table with their lengths, first to last, as the two parallel lists give
  them.
\<close>

primrec package_tables :: "vm \<Rightarrow> LispPTR \<Rightarrow> LispPTR \<Rightarrow> (LispPTR \<times> LispPTR \<times> int) list \<Rightarrow> bool" where
  "package_tables s vecs hashes [] \<longleftrightarrow> hashes = NIL"
| "package_tables s vecs hashes (t # ts) \<longleftrightarrow>
     hashes \<noteq> NIL \<and>
     (case t of (vec, hash, n) \<Rightarrow>
        car s vecs = Inr vec \<and> car s hashes = Inr hash \<and> sint (ah_totalsize s vec) = n \<and> 2 < n \<and> n < 65536 \<and>
        readable s hash n \<and> readable s vec n) \<and>
     (\<exists>vecs1 hashes1. cdr s vecs = Inr vecs1 \<and> cdr s hashes = Inr hashes1 \<and> package_tables s vecs1 hashes1 ts)"

definition package_table :: "vm \<Rightarrow> LispPTR \<Rightarrow> (LispPTR \<times> LispPTR \<times> int) list \<Rightarrow> bool" where
  "package_table s hashtbl ts \<longleftrightarrow>
     hashtbl \<noteq> 0 \<and> ts \<noteq> [] \<and> package_tables s (ht_table s hashtbl) (ht_hash s hashtbl) ts"

text \<open>
  A pair of arrays of length \<open>n\<close> is well-formed for the symbols with the property \<open>N\<close> and the hash
  values \<open>hv\<close>, \<open>eh\<close>.
\<close>

definition symbols_ok ::
  "vm \<Rightarrow> LispPTR \<Rightarrow> LispPTR \<Rightarrow> int \<Rightarrow> DLword \<Rightarrow> DLword \<Rightarrow> (LispPTR \<Rightarrow> bool) \<Rightarrow> bool" where
  "symbols_ok s vec hash n hv eh N \<longleftrightarrow>
     (\<exists>i. uint i < n \<and> pkg_byte s hash i = 0) \<and>
     (\<forall>i. uint i < n \<longrightarrow> pkg_byte s hash i \<noteq> 0 \<longrightarrow> N (pkg_symbol s vec i) \<longrightarrow>
        pkg_byte s hash i = eh \<and>
        (\<exists>m. pkg_place hv n m = i \<and> (\<forall>j<m. pkg_byte s hash (pkg_place hv n j) \<noteq> 0))) \<and>
     (\<forall>i i'. uint i < n \<longrightarrow> uint i' < n \<longrightarrow> pkg_byte s hash i \<noteq> 0 \<longrightarrow> pkg_byte s hash i' \<noteq> 0 \<longrightarrow>
        N (pkg_symbol s vec i) \<longrightarrow> N (pkg_symbol s vec i') \<longrightarrow> i = i')"

lemma Entry_hash_nonzero: "Entry_hash len h \<noteq> 0"
proof -
  have "x mod 254 + 2 \<noteq> 0" for x :: DLword
  proof -
    have "uint (x mod 254) < 254" by (simp add: uint_mod)
    moreover have "0 \<le> uint (x mod 254)" by simp
    ultimately have "uint (x mod 254 + 2) = uint (x mod 254) + 2" by (simp add: uint_plus_if')
    then have "uint (x mod 254 + 2) \<noteq> 0" using \<open>0 \<le> uint (x mod 254)\<close> by linarith
    then show ?thesis by fastforce
  qed
  then show ?thesis by (simp add: Entry_hash_def)
qed

text \<open>The symbol \<open>v\<close> with the property \<open>N\<close> in one pair of arrays, and in the first that has one.\<close>

definition named_in :: "vm \<Rightarrow> (LispPTR \<Rightarrow> bool) \<Rightarrow> LispPTR \<times> LispPTR \<times> int \<Rightarrow> LispPTR \<Rightarrow> bool" where
  "named_in s N t v \<longleftrightarrow> (case t of (vec, hash, n) \<Rightarrow>
     \<exists>i. uint i < n \<and> pkg_byte s hash i \<noteq> 0 \<and> N (pkg_symbol s vec i) \<and> v = pkg_symbol s vec i)"

primrec first_named :: "vm \<Rightarrow> (LispPTR \<Rightarrow> bool) \<Rightarrow> (LispPTR \<times> LispPTR \<times> int) list \<Rightarrow> LispPTR \<Rightarrow> bool" where
  "first_named s N [] v \<longleftrightarrow> v = 0xFFFFFFFF"
| "first_named s N (t # ts) v \<longleftrightarrow> named_in s N t v \<or> (\<forall>w. \<not> named_in s N t w) \<and> first_named s N ts v"

definition tables_ok :: "vm \<Rightarrow> DLword \<Rightarrow> DLword \<Rightarrow> (LispPTR \<Rightarrow> bool) \<Rightarrow> (LispPTR \<times> LispPTR \<times> int) list \<Rightarrow> bool" where
  "tables_ok s hv eh N ts \<longleftrightarrow>
     list_all (\<lambda>(vec, hash, n). coprime (uint (Rehash_factor hv n)) n \<and> symbols_ok s vec hash n hv eh N) ts"

lemma search_one_table:
  assumes n: "0 < n" "n < 65536" and r: "readable s hash n" "readable s vec n" and eh: "eh \<noteq> 0"
    and co: "coprime (uint (Rehash_factor hv n)) n" and ok: "symbols_ok s vec hash n hv eh N"
  shows "\<exists>r. pkg_search (s, vec, hash, eh, N, n, Rehash_factor hv n) (word_of_int (uint hv smod n)) = Some (Inr r) \<and>
    (\<forall>v. named_in s N (vec, hash, n) v \<longleftrightarrow> r = Some v)"
proof -
  define k where "k = (s, vec, hash, eh, N, n, Rehash_factor hv n)"
  define i0 where "i0 = (word_of_int (uint hv smod n) :: DLword)"
  define G where "G = {i :: DLword. uint i < n}"
  have place: "pkg.place k i0 m = pkg_place hv n m" for m
    unfolding k_def i0_def by (rule pkg_place_is [OF n])
  have G: "pkg.place k i0 m \<in> G" for m
    unfolding place G_def using uint_pkg_place [OF n, of hv m] n by simp
  have look: "pkg_look k g = (if pkg_byte s hash g = 0 then Some (Inr None)
      else if pkg_byte s hash g = eh \<and> N (pkg_symbol s vec g) then Some (Inr (Some (pkg_symbol s vec g))) else None)"
    if "g \<in> G" for g
    unfolding k_def by (rule pkg_look_at [OF r]) (use that eh in \<open>simp_all add: G_def\<close>)
  have named: "pkg_byte s hash g = eh \<and> N (pkg_symbol s vec g) \<longleftrightarrow> N (pkg_symbol s vec g)"
    if "g \<in> G" "pkg_byte s hash g \<noteq> 0" for g
    using ok that by (auto simp: symbols_ok_def G_def)
  have "pkg_search k i0 = Some (Inr r) \<longleftrightarrow>
    (\<exists>g\<in>G. \<not> pkg_byte s hash g = 0 \<and> (pkg_byte s hash g = eh \<and> N (pkg_symbol s vec g)) \<and>
       (Inr r :: LispPTR option res) = Inr (Some (pkg_symbol s vec g))) \<or>
    (\<forall>g\<in>G. \<not> pkg_byte s hash g = 0 \<longrightarrow> \<not> (pkg_byte s hash g = eh \<and> N (pkg_symbol s vec g))) \<and>
       (Inr r :: LispPTR option res) = Inr None" for r
  proof (rule pkg.looks_up [OF look G])
    obtain i where i: "uint i < n" "pkg_byte s hash i = 0" using ok by (auto simp: symbols_ok_def)
    obtain m where "pkg_place hv n m = i" using pkg_place_reaches [OF n co i(1)] ..
    then show "\<exists>m. pkg_byte s hash (pkg.place k i0 m) = 0" using i(2) by (auto simp: place)
    show "\<exists>m. pkg.place k i0 m = g \<and> (\<forall>j<m. \<not> pkg_byte s hash (pkg.place k i0 j) = 0)"
      if "g \<in> G" "\<not> pkg_byte s hash g = 0" "pkg_byte s hash g = eh \<and> N (pkg_symbol s vec g)" for g
      using ok that unfolding symbols_ok_def place G_def by blast
    show "g = g'" if "g \<in> G" "g' \<in> G" "\<not> pkg_byte s hash g = 0" "\<not> pkg_byte s hash g' = 0"
      "pkg_byte s hash g = eh \<and> N (pkg_symbol s vec g)" "pkg_byte s hash g' = eh \<and> N (pkg_symbol s vec g')" for g g'
      using ok that unfolding symbols_ok_def G_def by blast
  qed
  then have search: "pkg_search k i0 = Some (Inr r) \<longleftrightarrow>
    (\<exists>g\<in>G. pkg_byte s hash g \<noteq> 0 \<and> N (pkg_symbol s vec g) \<and> r = Some (pkg_symbol s vec g)) \<or>
    (\<forall>g\<in>G. pkg_byte s hash g \<noteq> 0 \<longrightarrow> \<not> N (pkg_symbol s vec g)) \<and> r = None" for r
    using named by simp blast
  then obtain r where "pkg_search k i0 = Some (Inr r)" by blast
  note r = this this [unfolded search]
  have once: "i = i'" if "i \<in> G" "i' \<in> G" "pkg_byte s hash i \<noteq> 0" "pkg_byte s hash i' \<noteq> 0"
    "N (pkg_symbol s vec i)" "N (pkg_symbol s vec i')" for i i'
    using ok that unfolding symbols_ok_def G_def by blast
  have "named_in s N (vec, hash, n) v \<longleftrightarrow> r = Some v" for v
    using r(2) once by (auto simp: named_in_def G_def)
  with r(1) show ?thesis unfolding k_def i0_def by blast
qed

text \<open>The loop over the tables stops at the first that has the symbol, and after the last.\<close>

lemma loop_finds:
  assumes eh: "eh \<noteq> 0"
  shows "package_tables s vecs hashes ts \<Longrightarrow> ts \<noteq> [] \<Longrightarrow> tables_ok s hv eh N ts \<Longrightarrow>
    \<exists>v. loop_thru_hashtables s hv eh N vecs hashes = Some (Inr v) \<and> (\<forall>w. first_named s N ts w \<longleftrightarrow> w = v)"
proof (induction ts arbitrary: vecs hashes)
  case (Cons t ts)
  obtain vec hash n where t: "t = (vec, hash, n)" by (cases t)
  obtain vecs1 hashes1 where c: "car s vecs = Inr vec" "car s hashes = Inr hash" "cdr s vecs = Inr vecs1"
    "cdr s hashes = Inr hashes1" "sint (ah_totalsize s vec) = n" "2 < n" "n < 65536" "readable s hash n" "readable s vec n"
    and more: "package_tables s vecs1 hashes1 ts"
    using Cons.prems(1) by (auto simp: t)
  have co: "coprime (uint (Rehash_factor hv n)) n" "symbols_ok s vec hash n hv eh N" "tables_ok s hv eh N ts"
    using Cons.prems(3) by (simp_all add: tables_ok_def t)
  have "0 < n" using c(6) by simp
  from search_one_table [OF this c(7-9) eh co(1,2)] obtain r where
    r: "find_in_table s vec hash eh N n (Rehash_factor hv n) (word_of_int (uint hv smod n)) = Some (Inr r)"
      "\<And>v. named_in s N t v \<longleftrightarrow> r = Some v"
    by (auto simp: pkg_search_def t)
  have f: "first_table s hv eh N vecs hashes =
      Inr (case r of Some i \<Rightarrow> Inl i | None \<Rightarrow> if hashes1 = NIL then Inl 0xFFFFFFFF else Inr (vecs1, hashes1))"
    using c r(1) by (simp add: first_table_def Let_def split: option.split)
  show ?case
  proof (cases r)
    case (Some i)
    have "loop_thru_hashtables s hv eh N vecs hashes = Some (Inr i)"
      using f by (subst loop_thru_hashtables.simps) (simp add: Some)
    moreover have "first_named s N (t # ts) w \<longleftrightarrow> w = i" for w using r(2) Some by auto
    ultimately show ?thesis by blast
  next
    case None
    show ?thesis
    proof (cases ts)
      case Nil
      then have "loop_thru_hashtables s hv eh N vecs hashes = Some (Inr 0xFFFFFFFF)"
        using f more by (subst loop_thru_hashtables.simps) (simp add: None)
      then show ?thesis using r(2) None Nil by simp
    next
      case (Cons u us)
      then have "hashes1 \<noteq> NIL" "ts \<noteq> []" using more by simp_all
      then have "loop_thru_hashtables s hv eh N vecs hashes = loop_thru_hashtables s hv eh N vecs1 hashes1"
        using f by (subst loop_thru_hashtables.simps) (simp add: None)
      then show ?thesis using Cons.IH [OF more \<open>ts \<noteq> []\<close> co(3)] r(2) None by simp
    qed
  qed
qed simp

text \<open>
  C38. On a well-formed package table, of one or several pairs of arrays of more than two entries, each of a
  length prime to the step, \<open>find_symbol\<close> is the look-up by name: it returns the symbol with the name
  asked for from the first pair of arrays that has one, and -1 when there is none in any.
\<close>

theorem find_symbol_finds:
  fixes s :: vm and fatp offset len :: DLword and cs :: chars and signed_char :: bool
  defines "N \<equiv> symbol_named s cs offset len fatp"
    and "hv \<equiv> chars_hash signed_char s cs offset len fatp"
  assumes tab: "package_table s hashtbl ts"
    and ok: "tables_ok s hv (Entry_hash len hv) N ts"
  shows "find_symbol signed_char s cs offset len hashtbl fatp = Inr v \<longleftrightarrow> first_named s N ts v"
proof -
  have t: "hashtbl \<noteq> 0" "package_tables s (ht_table s hashtbl) (ht_hash s hashtbl) ts" "ts \<noteq> []"
    using tab by (simp_all add: package_table_def)
  obtain w where w: "loop_thru_hashtables s hv (Entry_hash len hv) N (ht_table s hashtbl) (ht_hash s hashtbl) = Some (Inr w)"
    "\<And>v. first_named s N ts v \<longleftrightarrow> v = w"
    using loop_finds [OF Entry_hash_nonzero t(2,3) ok] by blast
  have "find_symbol signed_char s cs offset len hashtbl fatp = Inr w"
    using t(1) w(1) by (simp add: find_symbol_def hv_def N_def chars_hash_def split: chars.split)
  then show ?thesis using w(2) by auto
qed

section \<open>The laws at work\<close>

text \<open>
  A memory with one atom, \<open>AB\<close> with index 0x200, in the atom table at its hash value, and a package
  table of length 5 that holds it.
\<close>

definition vm_rest :: vm where
  "vm_rest = vm0\<lparr>mem := (\<lambda>_. 0)(
       0x2C1400 := 0x400000, 0x400000 := 0x02414200,
       0x700000 := 0x600000, 0x700002 := 0x600002, 0x600000 := 0x80500010, 0x600002 := 0x80500020,
       0x500010 := 0x500040, 0x500012 := 0x260000, 0x500014 := 5, 0x500016 := 5,
       0x500020 := 0x500060, 0x500022 := 0x030000, 0x500024 := 5, 0x500026 := 5,
       0x500040 := 0xE0200, 0x500060 := 0x91000000),
     gc := (gc vm0)\<lparr>mds_typetbl := (\<lambda>n. if n = 0x3000 then 5 else 0)\<rparr>\<rparr>"

definition vm_atoms :: vm where
  "vm_atoms = vm_rest\<lparr>mem := putword 0x154542 0x201 (mem vm_rest)\<rparr>"

lemma atom_entries: "AtomHT vm_atoms h = (if h = 0x4542 then 0x201 else 0)"
proof (cases "h = 0x4542")
  case True
  then show ?thesis by (simp add: AtomHT_def vm_atoms_def ATMHT_OFFSET_def words.get_put_same)
next
  case False
  have u: "uint (0x150000 + ucast h :: 32 word) = 0x150000 + uint h"
    using uint_lt2p [of h] by (simp add: uint_plus_if' uint_up_ucast is_up)
  have ne: "0x150000 + ucast h \<noteq> (0x154542 :: 32 word)"
  proof
    assume "0x150000 + ucast h = (0x154542 :: 32 word)"
    from arg_cong [OF this, of uint] have "uint h = uint (0x4542 :: DLword)" by (simp add: u)
    then show False using False by (simp only: word_uint_eq_iff)
  qed
  define a where "a = cell_of (0x150000 + ucast h)"
  have "uint a \<le> 0x150000 + uint h"
    using word_and_le1 [of "0xFFFFFFFE" "0x150000 + ucast h :: 32 word"]
    by (simp add: a_def cell_of_def word_le_def u and.commute)
  then have "uint a < 0x160000" using uint_lt2p [of h] by simp
  then have "a \<noteq> 0x2C1400" "a \<noteq> 0x400000" "a \<noteq> 0x700000" "a \<noteq> 0x700002" "a \<noteq> 0x600000" "a \<noteq> 0x600002"
    "a \<noteq> 0x500010" "a \<noteq> 0x500012" "a \<noteq> 0x500014" "a \<noteq> 0x500016" "a \<noteq> 0x500020" "a \<noteq> 0x500022"
    "a \<noteq> 0x500024" "a \<noteq> 0x500026" "a \<noteq> 0x500040" "a \<noteq> 0x500060" by auto
  moreover have "AtomHT vm_atoms h = getword (mem vm_rest) (0x150000 + ucast h)"
    unfolding AtomHT_def vm_atoms_def ATMHT_OFFSET_def using ne by (simp add: words.get_put_other)
  ultimately show ?thesis
    using False by (simp add: vm_rest_def getword_def hi_word_def lo_word_def flip: a_def)
qed

lemma atom_AB: "atom_name vm_atoms 0x200 = [65, 66]"
  by code_simp

lemma AB_chars: "chars_from (cstring ''AB'') 0 2 = [65, 66]"
  by code_simp

lemma vm_atoms_table: "atom_table_ok True vm_atoms"
proof -
  have "name_place True [65, 66] 0 = 0x4542" by code_simp
  then show ?thesis
    unfolding atom_table_ok_def atom_entries using atom_AB by (auto simp: Let_def intro!: exI [of _ 0])
qed

lemma make_atom_finds_witness:
  "make_atom True vm_atoms (cstring ''AB'') 0 2 = Inr 0x200 \<and> make_atom True vm_atoms [55] 0 1 = Inr 0xE0007"
  using make_atom_finds [OF vm_atoms_table, where len = 2 and cs = "cstring ''AB''" and offset = 0 and v = "0x200"]
    make_atom_finds [OF vm_atoms_table, where len = 1 and cs = "[55]" and offset = 0 and v = "0xE0007"]
  by (auto simp: atom_entries AB_chars atom_AB char_at_def S_POSITIVE_def)

lemma make_atom_returns_witness:
  "\<exists>v. make_atom True vm_atoms (cstring ''CDR'') 0 3 = Inr v"
proof (rule make_atom_returns [THEN iffD2])
  show "\<exists>h. AtomHT vm_atoms h = 0 \<or> atom_name vm_atoms (AtomHT vm_atoms h - 1) = chars_from (cstring ''CDR'') 0 3"
    by (rule exI [of _ 0]) (simp add: atom_entries)
qed simp

lemma hash_functions_agree_witness:
  "compute_lisp_hash vm_atoms 0x400000 1 2 0 = compute_hash True (cstring ''AB'') 0 2"
proof (rule hash_functions_agree)
  have two: "i < (2 :: nat) \<longleftrightarrow> i = 0 \<or> i = 1" for i by auto
  have "getbyte (mem vm_atoms) 0x400000 1 = 65 \<and> getbyte (mem vm_atoms) 0x400000 2 = 66" by code_simp
  then show "\<forall>i<unat (2 :: DLword). if 0 \<noteq> (0 :: DLword)
      then getword (mem vm_atoms) (0x400000 + ucast (1 :: DLword) + of_nat i) = ucast (char_at (cstring ''AB'') (unat (0 :: DLword) + i))
      else getbyte (mem vm_atoms) 0x400000 (ucast (1 :: DLword) + of_nat i) = char_at (cstring ''AB'') (unat (0 :: DLword) + i)"
    by (simp add: two cstring_def char_at_def)
  show "\<forall>i<unat (2 :: DLword). 0 < i \<longrightarrow> \<not> True \<or> char_at (cstring ''AB'') (unat (0 :: DLword) + i) < 128"
    by (simp add: two cstring_def char_at_def)
qed simp

lemma below_5: "uint i < 5 \<longleftrightarrow> i \<in> {0, 1, 2, 3, 4 :: DLword}"
proof
  assume "uint i < 5"
  moreover have "0 \<le> x \<Longrightarrow> x < 5 \<Longrightarrow> x = 0 \<or> x = 1 \<or> x = 2 \<or> x = 3 \<or> x = 4" for x :: int by presburger
  ultimately have "uint i \<in> {0, 1, 2, 3, 4}" using uint_ge_0 [of i] by blast
  then have "(word_of_int (uint i) :: DLword) \<in> word_of_int ` {0, 1, 2, 3, 4}" by (rule imageI)
  then show "i \<in> {0, 1, 2, 3, 4}" by simp
qed auto

text \<open>
  A package table of two pairs of arrays: the first has another symbol with the same hash values at the same
  place, the second has \<open>AB\<close>.
\<close>

definition vm_pkg :: vm where
  "vm_pkg = vm_rest\<lparr>mem := (mem vm_rest)(
       0x700002 := 0x600004, 0x600000 := 0x90500030, 0x600002 := 0x80500010,
       0x600004 := 0x905000A0, 0x600006 := 0x80500020,
       0x500030 := 0x500080, 0x500032 := 0x260000, 0x500034 := 5, 0x500036 := 5,
       0x5000A0 := 0x5000C0, 0x5000A2 := 0x030000, 0x5000A4 := 5, 0x5000A6 := 5,
       0x500080 := 0xE0201, 0x5000C0 := 0x91000000)\<rparr>"

lemmas vm_pkg_defs = vm_pkg_def vm_rest_def vm0_def putword_def cell_of_def rd_def getcell_def getword_def
  getbyte_def join_words_def hi_word_def lo_word_def

abbreviation pkg_arrays :: "(LispPTR \<times> LispPTR \<times> int) list" where
  "pkg_arrays \<equiv> [(0x500030, 0x5000A0, 5), (0x500010, 0x500020, 5)]"

lemma vm_pkg_headers:
  "ah_totalsize vm_pkg 0x500030 = 5" "ah_totalsize vm_pkg 0x500010 = 5"
  "ah_totalsize vm_pkg 0x5000A0 = 5" "ah_totalsize vm_pkg 0x500020 = 5"
  "ar_offset vm_pkg 0x500030 = 0" "ar_offset vm_pkg 0x500010 = 0"
  "ar_offset vm_pkg 0x5000A0 = 0" "ar_offset vm_pkg 0x500020 = 0"
  "ar_base vm_pkg 0x500030 = 0x500080" "ar_base vm_pkg 0x500010 = 0x500040"
  "ar_base vm_pkg 0x5000A0 = 0x5000C0" "ar_base vm_pkg 0x500020 = 0x500060"
  "ar_typenumber vm_pkg 0x500030 = 38" "ar_typenumber vm_pkg 0x500010 = 38"
  "ar_typenumber vm_pkg 0x5000A0 = 3" "ar_typenumber vm_pkg 0x500020 = 3"
  by (simp_all add: ah_totalsize_def ar_offset_def ar_base_def ar_typenumber_def vm_pkg_defs maiko_consts)

lemma vm_pkg_arefs:
  "sint i < 5 \<Longrightarrow> aref1 vm_pkg 0x500030 i = Inr (rd vm_pkg (0x500080 + 2 * i))"
  "sint i < 5 \<Longrightarrow> aref1 vm_pkg 0x500010 i = Inr (rd vm_pkg (0x500040 + 2 * i))"
  "sint i < 5 \<Longrightarrow> aref1 vm_pkg 0x5000A0 i = Inr (ucast (getbyte (mem vm_pkg) 0x5000C0 i) OR S_POSITIVE)"
  "sint i < 5 \<Longrightarrow> aref1 vm_pkg 0x500020 i = Inr (ucast (getbyte (mem vm_pkg) 0x500060 i) OR S_POSITIVE)"
  by (simp_all add: aref1_def vm_pkg_headers)

lemma below_5_sint: "uint i < 5 \<Longrightarrow> sint (ucast (i :: DLword) :: 32 word) < 5"
  by (auto simp: below_5)

lemma vm_pkg_hash_bytes:
  "getbyte (mem vm_pkg) 0x5000C0 0 = 0x91"
  "getbyte (mem vm_pkg) 0x5000C0 1 = 0"
  "getbyte (mem vm_pkg) 0x5000C0 2 = 0"
  "getbyte (mem vm_pkg) 0x5000C0 3 = 0"
  "getbyte (mem vm_pkg) 0x5000C0 4 = 0"
  "getbyte (mem vm_pkg) 0x500060 0 = 0x91"
  "getbyte (mem vm_pkg) 0x500060 1 = 0"
  "getbyte (mem vm_pkg) 0x500060 2 = 0"
  "getbyte (mem vm_pkg) 0x500060 3 = 0"
  "getbyte (mem vm_pkg) 0x500060 4 = 0"
  by (simp_all add: vm_pkg_defs)

lemma vm_pkg_bytes:
  "pkg_byte vm_pkg 0x5000A0 0 = 0x91"
  "pkg_byte vm_pkg 0x5000A0 1 = 0"
  "pkg_byte vm_pkg 0x5000A0 2 = 0"
  "pkg_byte vm_pkg 0x5000A0 3 = 0"
  "pkg_byte vm_pkg 0x5000A0 4 = 0"
  "pkg_byte vm_pkg 0x500020 0 = 0x91"
  "pkg_byte vm_pkg 0x500020 1 = 0"
  "pkg_byte vm_pkg 0x500020 2 = 0"
  "pkg_byte vm_pkg 0x500020 3 = 0"
  "pkg_byte vm_pkg 0x500020 4 = 0"
  by (simp_all add: pkg_byte_def vm_pkg_arefs vm_pkg_hash_bytes S_POSITIVE_def)

lemma vm_pkg_symbols: "pkg_symbol vm_pkg 0x500030 0 = 0x201" "pkg_symbol vm_pkg 0x500010 0 = 0x200"
  by (simp_all add: pkg_symbol_def vm_pkg_arefs) (simp_all add: vm_pkg_defs symbol_index_def maiko_consts)

lemma vm_pkg_readable: "readable vm_pkg 0x500030 5" "readable vm_pkg 0x500010 5"
  "readable vm_pkg 0x5000A0 5" "readable vm_pkg 0x500020 5"
  using below_5_sint by (simp_all add: readable_def vm_pkg_arefs)

lemma vm_pkg_cells:
  "rd vm_pkg 0x600000 = 0x90500030" "rd vm_pkg 0x600002 = 0x80500010"
  "rd vm_pkg 0x600004 = 0x905000A0" "rd vm_pkg 0x600006 = 0x80500020"
  "rd vm_pkg 0x700000 = 0x600000" "rd vm_pkg 0x700002 = 0x600004"
  by (simp_all add: vm_pkg_defs)

lemma vm_pkg_listp: "a \<in> {0x600000, 0x600002, 0x600004, 0x600006} \<Longrightarrow> Listp vm_pkg a"
  by (auto simp: Listp_def GetTypeNumber_def GetTypeEntry_def vm_pkg_def vm_rest_def maiko_consts)

lemma car_plain: "Listp s x \<Longrightarrow> cdr_code s x \<noteq> CDR_INDIRECT \<Longrightarrow> car_field s x = v \<Longrightarrow> car s x = Inr v"
  by (simp add: car_def)

lemma vm_pkg_lists:
  "car vm_pkg 0x600000 = Inr 0x500030" "cdr vm_pkg 0x600000 = Inr 0x600002"
  "car vm_pkg 0x600002 = Inr 0x500010" "cdr vm_pkg 0x600002 = Inr NIL"
  "car vm_pkg 0x600004 = Inr 0x5000A0" "cdr vm_pkg 0x600004 = Inr 0x600006"
  "car vm_pkg 0x600006 = Inr 0x500020" "cdr vm_pkg 0x600006 = Inr NIL"
proof -
  have f: "cdr_code vm_pkg 0x600000 = 8 OR drop_bit 1 (2 - 0)" "cdr_code vm_pkg 0x600004 = 8 OR drop_bit 1 (2 - 0)"
    "cdr_code vm_pkg 0x600002 = CDR_NIL" "cdr_code vm_pkg 0x600006 = CDR_NIL"
    "car_field vm_pkg 0x600000 = 0x500030" "car_field vm_pkg 0x600002 = 0x500010"
    "car_field vm_pkg 0x600004 = 0x5000A0" "car_field vm_pkg 0x600006 = 0x500020"
    by (simp_all add: cdr_code_def car_field_def vm_pkg_cells code_of_def car_of_def CDR_NIL_def POINTERMASK_def)
  have d: "(2 - 0 :: 32 word) \<in> {2, 4, 6, 8, 10, 12, 14}" by simp
  have n: "(0x600000 :: 32 word) \<noteq> NIL" "(0x600002 :: 32 word) \<noteq> NIL" "(0x600004 :: 32 word) \<noteq> NIL" "(0x600006 :: 32 word) \<noteq> NIL"
    by (simp_all add: NIL_def)
  show "cdr vm_pkg 0x600000 = Inr 0x600002" "cdr vm_pkg 0x600004 = Inr 0x600006"
    using cdr_onpage [OF _ n(1) f(1) d] cdr_onpage [OF _ n(3) f(2) d] by (simp_all add: vm_pkg_listp)
  show "cdr vm_pkg 0x600002 = Inr NIL" "cdr vm_pkg 0x600006 = Inr NIL"
    using cdr_nil [OF _ n(2) f(3)] cdr_nil [OF _ n(4) f(4)] by (simp_all add: vm_pkg_listp)
  show "car vm_pkg 0x600000 = Inr 0x500030" "car vm_pkg 0x600002 = Inr 0x500010"
    "car vm_pkg 0x600004 = Inr 0x5000A0" "car vm_pkg 0x600006 = Inr 0x500020"
    using f by (intro car_plain; simp add: vm_pkg_listp CDR_INDIRECT_def CDR_NIL_def)+
qed

text \<open>A table of length 5 with one entry, at the place its hash value gives.\<close>

lemma one_entry:
  assumes "pkg_byte s hash 0 = eh" "pkg_byte s hash 1 = 0" "pkg_byte s hash 2 = 0" "pkg_byte s hash 3 = 0"
    "pkg_byte s hash 4 = 0" "eh \<noteq> 0" "pkg_place hv 5 0 = 0"
  shows "symbols_ok s vec hash 5 hv eh N"
proof -
  have "i = 0" if "i \<in> {0, 1, 2, 3, 4}" "pkg_byte s hash i \<noteq> 0" for i
    using that assms(2-5) by auto
  moreover have "\<exists>m. pkg_place hv 5 m = 0 \<and> (\<forall>j<m. pkg_byte s hash (pkg_place hv 5 j) \<noteq> 0)"
    by (rule exI [of _ 0]) (simp add: assms(7))
  moreover have "\<exists>i. i \<in> {0, 1, 2, 3, 4} \<and> pkg_byte s hash i = 0" by (rule exI [of _ 1]) (simp add: assms(2))
  ultimately show ?thesis unfolding symbols_ok_def below_5 using assms(1) by metis
qed

lemma find_symbol_finds_witness:
  "find_symbol True vm_pkg (Emulator_chars (cstring ''AB'')) 0 2 0x700000 0 = Inr 0x200"
proof -
  let ?N = "symbol_named vm_pkg (Emulator_chars (cstring ''AB'')) 0 2 0"
  let ?hv = "chars_hash True vm_pkg (Emulator_chars (cstring ''AB'')) 0 2 0"
  have hv: "?hv = 0x4542" "Entry_hash 2 0x4542 = 0x91" "Rehash_factor 0x4542 5 = 1" "pkg_place 0x4542 5 0 = 0"
    by code_simp+
  have N: "?N 0x200" "\<not> ?N 0x201" by code_simp+
  have "package_table vm_pkg 0x700000 pkg_arrays"
  proof -
    have n: "(0x600004 :: 32 word) \<noteq> NIL" "(0x600006 :: 32 word) \<noteq> NIL" by (simp_all add: NIL_def)
    have t: "ht_table vm_pkg 0x700000 = 0x600000" "ht_hash vm_pkg 0x700000 = 0x600004"
      by (simp_all add: ht_table_def ht_hash_def vm_pkg_cells)
    have "package_tables vm_pkg 0x600002 0x600006 [(0x500010, 0x500020, 5)]"
      unfolding package_tables.simps vm_pkg_lists using n vm_pkg_readable by (simp add: vm_pkg_headers)
    then have "package_tables vm_pkg 0x600000 0x600004 pkg_arrays"
      unfolding package_tables.simps(2) [of _ _ _ "(0x500030, 0x5000A0, 5)"] vm_pkg_lists
      using n vm_pkg_readable by (simp add: vm_pkg_headers del: package_tables.simps)
    then show ?thesis unfolding package_table_def t by simp
  qed
  moreover have ok: "symbols_ok vm_pkg v 0x5000A0 5 ?hv (Entry_hash 2 ?hv) ?N"
    "symbols_ok vm_pkg v 0x500020 5 ?hv (Entry_hash 2 ?hv) ?N" for v
    unfolding hv using vm_pkg_bytes(1-5) vm_pkg_bytes(6-10) by (intro one_entry hv(4); simp)+
  have "tables_ok vm_pkg ?hv (Entry_hash 2 ?hv) ?N pkg_arrays"
    using ok by (simp add: tables_ok_def) (simp add: hv)
  ultimately have found: "find_symbol True vm_pkg (Emulator_chars (cstring ''AB'')) 0 2 0x700000 0 = Inr v \<longleftrightarrow>
    first_named vm_pkg ?N pkg_arrays v" for v
    using find_symbol_finds by blast
  have "\<not> named_in vm_pkg ?N (0x500030, 0x5000A0, 5) w" for w
  proof
    assume "named_in vm_pkg ?N (0x500030, 0x5000A0, 5) w"
    then obtain i where i: "i \<in> {0, 1, 2, 3, 4}" "pkg_byte vm_pkg 0x5000A0 i \<noteq> 0" "?N (pkg_symbol vm_pkg 0x500030 i)"
      unfolding named_in_def below_5 prod.case by (elim exE conjE) (rule that)
    from i(1,2) have "i = 0" using vm_pkg_bytes(2-5) by (elim insertE emptyE) simp_all
    then show False using i(3) N(2) by (simp only: vm_pkg_symbols)
  qed
  moreover have "named_in vm_pkg ?N (0x500010, 0x500020, 5) 0x200"
    unfolding named_in_def prod.case by (rule exI [of _ 0]) (simp only: vm_pkg_bytes vm_pkg_symbols N, simp)
  ultimately show ?thesis unfolding found first_named.simps by blast
qed

end
