(* ===== verification/Sysout.thy ===== *)
theory Sysout
  imports Lisp_Memory
begin

text \<open>
  The memory image: \<open>vmem_save\<close> of \<open>src/vmemsave.c\<close> writes the active pages of the virtual
  memory to a file, \<open>sysout_loader\<close> of \<open>src/ldsout.c\<close> reads them back, with
  \<open>word_swap_page\<close> of \<open>src/byteswap.c\<close> and the interface page of \<open>inc/ifpage.h\<close>.
  Definitions; what they promise is in \<open>Sysout_Laws\<close>.

  The file-page table (\<open>FPtoVP\<close>) names the virtual page of every page of the file; it lies in the
  memory itself, and so does the interface page. Files are bytes. The system calls are the host's: call
  number \<open>k\<close>, with its repetitions after a signal (\<open>INTRSAFE\<close>), succeeds, fails with an
  \<open>errno\<close> and without an effect, or is cut off by the alarm of \<open>TIMEOUT\<close>
  (\<open>inc/timeout.h\<close>), before it has had its effect or after, as \<open>outcome\<close> says; a call of \<open>write\<close>
  takes as many bytes as \<open>accepts\<close> says, also when the alarm comes after. The old sysout format without
  \<open>BIGVM\<close> and the progress display of the DOS version are left out.
\<close>

section \<open>Cells, bytes and byte order\<close>

definition cell_byte :: "32 word \<Rightarrow> nat \<Rightarrow> DLbyte" where "cell_byte c j = ucast (drop_bit (8 * j) c)"

definition of_bytes :: "DLbyte \<Rightarrow> DLbyte \<Rightarrow> DLbyte \<Rightarrow> DLbyte \<Rightarrow> 32 word" where
  "of_bytes b3 b2 b1 b0 =
     push_bit 24 (ucast b3) OR push_bit 16 (ucast b2) OR push_bit 8 (ucast b1) OR ucast b0"

text \<open>\<open>ntohl\<close> on a host with the low byte first; on the others it changes nothing, and they do not call it.\<close>

definition ntohl :: "32 word \<Rightarrow> 32 word" where
  "ntohl c = of_bytes (cell_byte c 0) (cell_byte c 1) (cell_byte c 2) (cell_byte c 3)"

text \<open>The \<open>j\<close>-th byte of a cell in the memory of the host, and a cell read from four bytes.\<close>

definition host_byte :: "bool \<Rightarrow> 32 word \<Rightarrow> nat \<Rightarrow> DLbyte" where
  "host_byte little c j = cell_byte c (if little then j else 3 - j)"
definition host_cell :: "bool \<Rightarrow> (nat \<Rightarrow> DLbyte) \<Rightarrow> 32 word" where
  "host_cell little b = (if little then of_bytes (b 3) (b 2) (b 1) (b 0) else of_bytes (b 0) (b 1) (b 2) (b 3))"

primrec word_swap_page :: "LispPTR \<Rightarrow> nat \<Rightarrow> memory \<Rightarrow> memory" where
  "word_swap_page page 0 m = m"
| "word_swap_page page (Suc n) m =
     (let m1 = word_swap_page page n m; a = page + 2 * of_nat n in putcell a (ntohl (getcell m1 a)) m1)"

section \<open>The host\<close>

definition ENOENT :: nat where "ENOENT = 2"
definition ENOSPC :: nat where "ENOSPC = 28"
definition EDQUOT :: nat where "EDQUOT = 122"

datatype outcome = Success | Failure nat | Timed_out | Timed_out_after

record disk_file =
  flen :: nat
  bytes :: "nat \<Rightarrow> DLbyte"

record host =
  outcome :: "nat \<Rightarrow> outcome"
  accepts :: "nat \<Rightarrow> nat \<Rightarrow> nat"
  little :: bool
  maxpages :: nat
  sfs_cell :: LispPTR

record sys =
  world :: memory
  files :: "string \<Rightarrow> disk_file option"
  pos :: nat
  calls :: nat

text \<open>An operation ends with a value, or returns early with the value of the whole function.\<close>

type_synonym ('e, 'a) proc = "sys \<Rightarrow> ('e + 'a) \<times> sys"
type_synonym 'a io = "(LispPTR, 'a) proc"

definition iob :: "('e, 'a) proc \<Rightarrow> ('a \<Rightarrow> ('e, 'b) proc) \<Rightarrow> ('e, 'b) proc" where
  "iob m f s = (case m s of (Inl r, s') \<Rightarrow> (Inl r, s') | (Inr x, s') \<Rightarrow> f x s')"

text \<open>The result of a system call: an \<open>errno\<close>, or a value.\<close>

definition syscall :: "host \<Rightarrow> (sys \<Rightarrow> (nat + 'a) \<times> sys) \<Rightarrow> LispPTR \<Rightarrow> (nat + 'a) io" where
  "syscall h f timeout s =
     (let s1 = s\<lparr>calls := Suc (calls s)\<rparr>
      in case outcome h (calls s) of
           Success \<Rightarrow> (case f s1 of (r, s2) \<Rightarrow> (Inr r, s2))
         | Failure e \<Rightarrow> (Inr (Inl e), s1)
         | Timed_out \<Rightarrow> (Inl timeout, s1)
         | Timed_out_after \<Rightarrow> (case f s1 of (r, s2) \<Rightarrow> (Inl timeout, s2)))"

definition empty_file :: disk_file where "empty_file = \<lparr>flen = 0, bytes = (\<lambda>_. 0)\<rparr>"

definition sys_open :: "string \<Rightarrow> sys \<Rightarrow> (nat + unit) \<times> sys" where
  "sys_open name s = (if files s name = None then (Inl ENOENT, s) else (Inr (), s\<lparr>pos := 0\<rparr>))"
definition sys_create :: "string \<Rightarrow> sys \<Rightarrow> (nat + unit) \<times> sys" where
  "sys_create name s = (Inr (), s\<lparr>files := (files s)(name \<mapsto> empty_file), pos := 0\<rparr>)"
definition sys_lseek :: "nat \<Rightarrow> sys \<Rightarrow> (nat + unit) \<times> sys" where
  "sys_lseek p s = (Inr (), s\<lparr>pos := p\<rparr>)"
definition sys_close :: "sys \<Rightarrow> (nat + unit) \<times> sys" where "sys_close s = (Inr (), s)"
definition sys_unlink :: "string \<Rightarrow> sys \<Rightarrow> (nat + unit) \<times> sys" where
  "sys_unlink name s =
     (if files s name = None then (Inl ENOENT, s) else (Inr (), s\<lparr>files := (files s)(name := None)\<rparr>))"
definition sys_rename :: "string \<Rightarrow> string \<Rightarrow> sys \<Rightarrow> (nat + unit) \<times> sys" where
  "sys_rename old new s =
     (if files s old = None then (Inl ENOENT, s)
      else (Inr (), s\<lparr>files := (files s)(new := files s old, old := None)\<rparr>))"

definition write_bytes :: "nat \<Rightarrow> nat \<Rightarrow> (nat \<Rightarrow> DLbyte) \<Rightarrow> disk_file \<Rightarrow> disk_file" where
  "write_bytes p n b f =
     f\<lparr>flen := (if n = 0 then flen f else max (flen f) (p + n)),
       bytes := (\<lambda>a. if p \<le> a \<and> a < p + n then b (a - p) else bytes f a)\<rparr>"

text \<open>The bytes of the memory from a cell on.\<close>

definition world_byte :: "bool \<Rightarrow> memory \<Rightarrow> LispPTR \<Rightarrow> nat \<Rightarrow> DLbyte" where
  "world_byte lit m a k = host_byte lit (getcell m (a + 2 * of_nat (k div 4))) (k mod 4)"

definition sys_write :: "host \<Rightarrow> string \<Rightarrow> LispPTR \<Rightarrow> nat \<Rightarrow> sys \<Rightarrow> (nat + unit) \<times> sys" where
  "sys_write h name base_addr n s =
     (let k = min n (accepts h (calls s - 1) n)
      in case files s name of None \<Rightarrow> (Inr (), s)
         | Some f \<Rightarrow> (Inr (), s\<lparr>files := (files s)(name \<mapsto> write_bytes (pos s) k (world_byte (little h) (world s) base_addr) f),
                             pos := pos s + k\<rparr>))"

section \<open>The interface page and the page table\<close>

definition IFPAGE_OFFSET :: LispPTR where "IFPAGE_OFFSET = 0x140000"
definition FPTOVP_OFFSET :: LispPTR where "FPTOVP_OFFSET = 0x20000"
definition MACHINETYPE_MAIKO :: DLword where "MACHINETYPE_MAIKO = 3"
definition IFPAGE_KEYVAL :: DLword where "IFPAGE_KEYVAL = 0x15E3"
definition SFS_NOTSWITCHABLE :: "32 word" where "SFS_NOTSWITCHABLE = 1"
definition SFS_ARRAYSWITCHED :: DLword where "SFS_ARRAYSWITCHED = 3"
definition SFS_FULLYSWITCHED :: DLword where "SFS_FULLYSWITCHED = 4"

text \<open>The fields of \<open>IFPAGE\<close>, for an interface page at \<open>p\<close>.\<close>

definition if_lversion :: "memory \<Rightarrow> LispPTR \<Rightarrow> DLword" where "if_lversion m p = getword m (p + 8)"
definition if_minbversion :: "memory \<Rightarrow> LispPTR \<Rightarrow> DLword" where "if_minbversion m p = getword m (p + 10)"
definition ifp_key :: "memory \<Rightarrow> LispPTR \<Rightarrow> DLword" where "ifp_key m p = getword m (p + 15)"
definition if_storagefullstate :: "memory \<Rightarrow> LispPTR \<Rightarrow> DLword" where
  "if_storagefullstate m p = getword m (p + 46)"
definition if_fptovpstart :: "memory \<Rightarrow> LispPTR \<Rightarrow> DLword" where "if_fptovpstart m p = getword m (p + 59)"
definition if_nactivepages :: "memory \<Rightarrow> LispPTR \<Rightarrow> 32 word" where "if_nactivepages m p = getcell m (p + 82)"
definition if_process_size :: "memory \<Rightarrow> LispPTR \<Rightarrow> 32 word" where "if_process_size m p = getcell m (p + 86)"

definition set_machinetype :: "DLword \<Rightarrow> memory \<Rightarrow> memory" where
  "set_machinetype = putword (IFPAGE_OFFSET + 13)"
definition set_if_storagefullstate :: "DLword \<Rightarrow> memory \<Rightarrow> memory" where
  "set_if_storagefullstate = putword (IFPAGE_OFFSET + 46)"

text \<open>\<open>GETFPTOVP(FPtoVP + 1, i)\<close> and \<open>GETPAGEOK\<close>: the page of entry \<open>i\<close>; 0xFFFF above marks a hole.\<close>

definition GETFPTOVP :: "memory \<Rightarrow> nat \<Rightarrow> 32 word" where
  "GETFPTOVP m i = getcell m (FPTOVP_OFFSET + 2 + 2 * of_nat i)"
definition page_ok :: "32 word \<Rightarrow> bool" where "page_ok v \<longleftrightarrow> drop_bit 16 v \<noteq> 0xFFFF"

section \<open>Saving\<close>

definition COMPLETESYSOUT :: LispPTR where "COMPLETESYSOUT = NIL"
definition NOFILESPACE :: LispPTR where "NOFILESPACE = S_POSITIVE OR 2"
definition FILECANNOTOPEN :: LispPTR where "FILECANNOTOPEN = S_POSITIVE OR 3"
definition FILECANNOTSEEK :: LispPTR where "FILECANNOTSEEK = S_POSITIVE OR 4"
definition FILECANNOTWRITE :: LispPTR where "FILECANNOTWRITE = S_POSITIVE OR 5"
definition FILETIMEOUT :: LispPTR where "FILETIMEOUT = S_POSITIVE OR 6"

definition BYTESPER_PAGE :: nat where "BYTESPER_PAGE = 512"
definition CELLSPER_PAGE :: nat where "CELLSPER_PAGE = 128"

definition give :: "'e \<Rightarrow> ('e, 'a) proc" where "give r s = (Inl r, s)"
definition skip :: "('e, unit) proc" where "skip s = (Inr (), s)"
definition on_world :: "(memory \<Rightarrow> memory) \<Rightarrow> ('e, unit) proc" where "on_world f s = (Inr (), s\<lparr>world := f (world s)\<rparr>)"

definition or_give :: "(nat \<Rightarrow> LispPTR) \<Rightarrow> (nat + unit) io \<Rightarrow> unit io" where
  "or_give code m = iob m (\<lambda>r. case r of Inl e \<Rightarrow> give (code e) | Inr x \<Rightarrow> skip)"

definition write_error :: "nat \<Rightarrow> LispPTR" where
  "write_error e = (if e = ENOSPC \<or> e = EDQUOT then NOFILESPACE else FILECANNOTWRITE)"

definition swap_pages :: "host \<Rightarrow> LispPTR \<Rightarrow> nat \<Rightarrow> unit io" where
  "swap_pages h base_addr n = (if little h then on_world (word_swap_page base_addr (n * CELLSPER_PAGE)) else skip)"

text \<open>The pages of the table from \<open>i\<close> on that follow one another, starting with \<open>oldfptovp\<close>.\<close>

function contig_pages :: "memory \<Rightarrow> nat \<Rightarrow> nat \<Rightarrow> 32 word \<Rightarrow> nat" where
  "contig_pages m vmemsize i oldfptovp =
     (if GETFPTOVP m i = oldfptovp \<and> i < vmemsize
      then Suc (contig_pages m vmemsize (Suc i) (oldfptovp + 1)) else 0)"
  by pat_completeness auto
termination by (relation "measure (\<lambda>(m, n, i, v). n - i)") auto

declare contig_pages.simps [simp del]

text \<open>Writing more than \<open>maxpages\<close> pages at once; an error there returns without swapping
  the bytes back. The options only accept positive values of \<open>maxpages\<close>.\<close>

function write_chunks :: "host \<Rightarrow> string \<Rightarrow> LispPTR \<Rightarrow> nat \<Rightarrow> (nat + unit) io" where
  "write_chunks h name ba pc s =
     (if maxpages h < pc \<and> 0 < maxpages h
      then iob (or_give write_error
                 (syscall h (sys_write h name ba (maxpages h * BYTESPER_PAGE)) FILETIMEOUT))
             (\<lambda>_. write_chunks h name (ba + of_nat (maxpages h) * 256) (pc - maxpages h)) s
      else syscall h (sys_write h name ba (pc * BYTESPER_PAGE)) FILETIMEOUT s)"
  by pat_completeness auto
termination by (relation "measure (\<lambda>(h, name, ba, pc, s). pc)") auto

declare write_chunks.simps [simp del]

definition write_run :: "host \<Rightarrow> string \<Rightarrow> LispPTR \<Rightarrow> nat \<Rightarrow> unit io" where
  "write_run h name base_addr n =
     iob (swap_pages h base_addr n) (\<lambda>_.
     iob (write_chunks h name base_addr n) (\<lambda>rsize.
     iob (swap_pages h base_addr n) (\<lambda>_.
       case rsize of Inl e \<Rightarrow> give (write_error e) | Inr x \<Rightarrow> skip)))"

text \<open>The body of the loop over the file pages; the result is the next \<open>i\<close>.\<close>

definition save_run :: "host \<Rightarrow> string \<Rightarrow> nat \<Rightarrow> nat \<Rightarrow> nat io" where
  "save_run h name vmemsize i s =
     (let v = GETFPTOVP (world s) i
      in if page_ok v
         then iob (or_give (\<lambda>_. FILECANNOTSEEK) (syscall h (sys_lseek (i * BYTESPER_PAGE)) FILETIMEOUT)) (\<lambda>_ s1.
              let n = contig_pages (world s1) vmemsize i v
              in iob (write_run h name (v * 256) n) (\<lambda>_ s2. (Inr (i + n), s2)) s1) s
         else (Inr (Suc i), s))"

lemma iob_simps:
  "m s = (Inl r, s1) \<Longrightarrow> iob m f s = (Inl r, s1)"
  "m s = (Inr x, s1) \<Longrightarrow> iob m f s = f x s1"
  by (simp_all add: iob_def)

lemma iob_Inr: "iob m f s = (Inr y, s2) \<longleftrightarrow> (\<exists>x s1. m s = (Inr x, s1) \<and> f x s1 = (Inr y, s2))"
  by (auto simp: iob_def split: prod.splits sum.splits)

lemma save_run_advances: "save_run h name n i s = (Inr j, s1) \<Longrightarrow> i < n \<Longrightarrow> i < j"
proof -
  assume r: "save_run h name n i s = (Inr j, s1)" and i: "i < n"
  have w: "world s2 = world s" if "or_give g (syscall h (sys_lseek k) c) s = (Inr u, s2)" for g k c u s2
    using that by (auto simp: or_give_def iob_Inr syscall_def sys_lseek_def give_def skip_def Let_def
      split: outcome.splits sum.splits)
  have c: "0 < contig_pages m n i (GETFPTOVP m i)" for m
    using i by (subst contig_pages.simps) simp
  show "i < j"
    using r c by (auto simp: save_run_def iob_Inr Let_def split: if_splits dest!: w)
qed

function save_pages :: "host \<Rightarrow> string \<Rightarrow> nat \<Rightarrow> nat \<Rightarrow> unit io" where
  "save_pages h name vmemsize i s =
     (if i < vmemsize
      then (case save_run h name vmemsize i s of
              (Inl r, s1) \<Rightarrow> (Inl r, s1)
            | (Inr j, s1) \<Rightarrow> save_pages h name vmemsize j s1)
      else (Inr (), s))"
  by pat_completeness auto
termination
  by (relation "measure (\<lambda>(h, name, n, i, s). n - i)") (auto dest: save_run_advances [OF sym])

declare save_pages.simps [simp del]

text \<open>
  The header: the interface page gets the type of the machine and the storage-full state. A state that
  forbids the second half of the address space is reset, so that another process may use it.
\<close>

definition set_header :: "host \<Rightarrow> memory \<Rightarrow> memory" where
  "set_header h m =
     (let m1 = set_machinetype MACHINETYPE_MAIKO m; st = getcell m1 (sfs_cell h)
      in if st AND 0xFFFF = SFS_NOTSWITCHABLE
         then set_if_storagefullstate 0 (putcell (sfs_cell h) NIL m1)
         else set_if_storagefullstate (ucast (st AND 0xFFFF)) m1)"

definition temp_name :: "string \<Rightarrow> string" where "temp_name name = name @ ''-temp''"

definition FP_IFPAGE :: nat where "FP_IFPAGE = 512"

text \<open>The first access: a file that is there must be writable.\<close>

definition confirm_protection :: "host \<Rightarrow> string \<Rightarrow> unit io" where
  "confirm_protection h name =
     iob (syscall h (sys_open name) FILETIMEOUT) (\<lambda>r.
       case r of Inl e \<Rightarrow> if e \<noteq> ENOENT then give FILECANNOTOPEN else skip
       | Inr x \<Rightarrow> iob (syscall h sys_close FILETIMEOUT) (\<lambda>_. skip))"

definition save_ifpage :: "host \<Rightarrow> string \<Rightarrow> unit io" where
  "save_ifpage h name =
     iob (or_give (\<lambda>_. FILECANNOTSEEK) (syscall h (sys_lseek FP_IFPAGE) FILETIMEOUT)) (\<lambda>_.
     iob (swap_pages h IFPAGE_OFFSET 1) (\<lambda>_.
     iob (syscall h (sys_write h name IFPAGE_OFFSET BYTESPER_PAGE) FILETIMEOUT) (\<lambda>rsize.
     iob (swap_pages h IFPAGE_OFFSET 1) (\<lambda>_.
       case rsize of Inl e \<Rightarrow> give (write_error e) | Inr x \<Rightarrow> skip))))"

text \<open>The temporary file takes the place of the old image.\<close>

definition replace_file :: "host \<Rightarrow> string \<Rightarrow> unit io" where
  "replace_file h name =
     iob (syscall h (sys_unlink name) FILETIMEOUT) (\<lambda>r.
     iob (case r of Inl e \<Rightarrow> if e \<noteq> ENOENT then give FILECANNOTOPEN else skip | Inr x \<Rightarrow> skip) (\<lambda>_.
       or_give (\<lambda>_. FILECANNOTWRITE) (syscall h (sys_rename (temp_name name) name) FILETIMEOUT)))"

definition vmem_save_body :: "host \<Rightarrow> string \<Rightarrow> unit io" where
  "vmem_save_body h name s =
     (let vmemsize = nat (sint (if_nactivepages (world s) IFPAGE_OFFSET)); temp = temp_name name
      in iob (confirm_protection h name) (\<lambda>_.
         iob (or_give (\<lambda>_. FILECANNOTOPEN) (syscall h (sys_create temp) FILETIMEOUT)) (\<lambda>_.
         iob (on_world (set_header h)) (\<lambda>_.
         iob (save_pages h temp vmemsize 0) (\<lambda>_.
         iob (save_ifpage h temp) (\<lambda>_.
         iob (or_give (\<lambda>_. FILECANNOTWRITE) (syscall h sys_close FILETIMEOUT)) (\<lambda>_.
           replace_file h name)))))) s)"

definition vmem_save :: "host \<Rightarrow> string \<Rightarrow> sys \<Rightarrow> LispPTR \<times> sys" where
  "vmem_save h name s =
     (case vmem_save_body h name s of (Inl r, s1) \<Rightarrow> (r, s1) | (Inr _, s1) \<Rightarrow> (COMPLETESYSOUT, s1))"

section \<open>Loading\<close>

definition DEFAULT_MAX_SYSOUTSIZE :: nat where "DEFAULT_MAX_SYSOUTSIZE = 64"
definition DEFAULT_PRIME_SYSOUTSIZE :: nat where "DEFAULT_PRIME_SYSOUTSIZE = 8"
definition MAX_EXPLICIT_SYSOUTSIZE :: nat where "MAX_EXPLICIT_SYSOUTSIZE = 256"
definition IFPAGE_ADDRESS :: nat where "IFPAGE_ADDRESS = 512"
definition LVERSION :: nat where "LVERSION = 35010"
definition MINBVERSION :: nat where "MINBVERSION = 35010"

text \<open>A call that must succeed: the loader leaves the emulator otherwise. There is no alarm.\<close>

definition must :: "host \<Rightarrow> string \<Rightarrow> (sys \<Rightarrow> (nat + 'a) \<times> sys) \<Rightarrow> (string, 'a) proc" where
  "must h msg f s =
     (let s1 = s\<lparr>calls := Suc (calls s)\<rparr>
      in if outcome h (calls s) = Success
         then (case f s1 of (Inl e, s2) \<Rightarrow> (Inl msg, s2) | (Inr x, s2) \<Rightarrow> (Inr x, s2))
         else (Inl msg, s1))"

definition check :: "bool \<Rightarrow> string \<Rightarrow> (string, unit) proc" where
  "check b msg = (if b then skip else give msg)"

text \<open>\<open>read\<close> of \<open>n\<close> cells at the file position, into a memory: bytes behind the end of the file stay.\<close>

primrec read_cells :: "bool \<Rightarrow> disk_file \<Rightarrow> nat \<Rightarrow> LispPTR \<Rightarrow> nat \<Rightarrow> memory \<Rightarrow> memory" where
  "read_cells lit f p a 0 m = m"
| "read_cells lit f p a (Suc n) m =
     (let m1 = read_cells lit f p a n m; b = a + 2 * of_nat n; q = p + 4 * n
      in putcell b (host_cell lit (\<lambda>j. if q + j < flen f then bytes f (q + j)
                                       else host_byte lit (getcell m1 b) j)) m1)"

definition sys_read :: "host \<Rightarrow> string \<Rightarrow> LispPTR \<Rightarrow> nat \<Rightarrow> memory \<Rightarrow> sys \<Rightarrow> (nat + memory) \<times> sys" where
  "sys_read h name a n m s =
     (case files s name of None \<Rightarrow> (Inr m, s)
      | Some f \<Rightarrow> (Inr (read_cells (little h) f (pos s) a n m),
                  s\<lparr>pos := pos s + min (4 * n) (flen f - pos s)\<rparr>))"

definition swapped :: "host \<Rightarrow> LispPTR \<Rightarrow> nat \<Rightarrow> memory \<Rightarrow> memory" where
  "swapped h a n m = (if little h then word_swap_page a n m else m)"

definition sys_fstat :: "string \<Rightarrow> sys \<Rightarrow> (nat + nat) \<times> sys" where
  "sys_fstat name s = (Inr (case files s name of None \<Rightarrow> 0 | Some f \<Rightarrow> flen f), s)"

text \<open>The size of the process in megabytes, and whether it may still grow.\<close>

definition choose_size :: "memory \<Rightarrow> nat \<Rightarrow> (string, nat \<times> LispPTR) proc" where
  "choose_size ifpage sys_size s =
     (let process_size = unat (if_process_size ifpage 0);
          n = (if sys_size = 0 then if process_size = 0 then DEFAULT_MAX_SYSOUTSIZE else process_size else sys_size);
          st = if_storagefullstate ifpage 0
      in if st = SFS_ARRAYSWITCHED \<or> st = SFS_FULLYSWITCHED
         then (if process_size \<noteq> n then (Inl ''You can't specify the process size.'', s) else (Inr (n, NIL), s))
         else (Inr (n, T), s))"

text \<open>One page of the file; \<open>cfp\<close> is the position the loader takes the file to have.\<close>

definition load_page :: "host \<Rightarrow> string \<Rightarrow> memory \<Rightarrow> nat \<Rightarrow> int \<Rightarrow> (string, int) proc" where
  "load_page h name fptovp i cfp =
     (let v = getcell fptovp (2 * of_nat i); lispworld_offset = v * 512; a = drop_bit 1 lispworld_offset
      in if page_ok v
         then iob (if int (i * BYTESPER_PAGE) \<noteq> cfp
                   then must h ''can't seek sysout file'' (sys_lseek (i * BYTESPER_PAGE)) else skip) (\<lambda>_ s.
              iob (must h ''can't read sysout file'' (sys_read h name a CELLSPER_PAGE (world s))) (\<lambda>m.
              iob (on_world (\<lambda>_. swapped h a CELLSPER_PAGE m)) (\<lambda>_ s1.
                (Inr (int (i * BYTESPER_PAGE) + int BYTESPER_PAGE), s1))) s)
         else (\<lambda>s. (Inr cfp, s)))"

primrec load_pages :: "host \<Rightarrow> string \<Rightarrow> memory \<Rightarrow> nat list \<Rightarrow> int \<Rightarrow> (string, unit) proc" where
  "load_pages h name fptovp [] cfp = skip"
| "load_pages h name fptovp (i # is) cfp = iob (load_page h name fptovp i cfp) (load_pages h name fptovp is)"

text \<open>What \<open>malloc\<close> returns is not initialised: \<open>junk\<close>.\<close>

definition sysout_loader :: "host \<Rightarrow> memory \<Rightarrow> string \<Rightarrow> nat \<Rightarrow> (string, nat \<times> LispPTR) proc" where
  "sysout_loader h junk name sys_size =
     iob (check (sys_size = 0 \<or> DEFAULT_PRIME_SYSOUTSIZE \<le> sys_size) ''more than 8MB'') (\<lambda>_.
     iob (check (sys_size \<le> MAX_EXPLICIT_SYSOUTSIZE) ''256Mb is the maximum'') (\<lambda>_.
     iob (must h ''can't open sysout file'' (sys_open name)) (\<lambda>_.
     iob (must h ''can't seek to IFPAGE'' (sys_lseek IFPAGE_ADDRESS)) (\<lambda>_.
     iob (must h ''can't read IFPAGE'' (sys_read h name 0 44 junk)) (\<lambda>buf.
       let ifpage = swapped h 0 44 buf in
     iob (check (LVERSION \<le> unat (if_lversion ifpage 0)) ''Lisp VM is too old for this emulator.'') (\<lambda>_.
     iob (check (unat (if_minbversion ifpage 0) \<le> MINBVERSION) ''Emulator is too old for this Lisp VM.'') (\<lambda>_.
     iob (choose_size ifpage sys_size) (\<lambda>(n, expanded).
     iob (must h ''can't allocate'' (\<lambda>s. (Inr (), s\<lparr>world := (\<lambda>_. 0)\<rparr>))) (\<lambda>_.
     iob (must h ''can't get sysout file size'' (sys_fstat name)) (\<lambda>st_size.
       let sysout_size = (st_size div BYTESPER_PAGE * 2) mod 2 ^ 32;
           offset = (int (unat (if_fptovpstart ifpage 0)) - 1) * int BYTESPER_PAGE + 4 in
     iob (check (ifp_key ifpage 0 = IFPAGE_KEYVAL) ''not a sysout'') (\<lambda>_.
     iob (check (unat (if_nactivepages ifpage 0) = sysout_size div 2) ''sysout size differs'') (\<lambda>_.
     iob (check (0 \<le> offset) ''can't seek to FPTOVP'') (\<lambda>_.
     iob (must h ''can't seek to FPTOVP'' (sys_lseek (nat offset))) (\<lambda>_.
     iob (must h ''can't read FPTOVP'' (sys_read h name 0 (sysout_size div 2) junk)) (\<lambda>table.
       let fptovp = swapped h 0 (sysout_size div 2 + 1) table in
     iob (load_pages h name fptovp [0..<sysout_size div 2] (-1)) (\<lambda>_ s.
       (Inr (n, expanded), s)))))))))))))))))"

end
