(* ===== verification/Sysout_Laws.thy ===== *)
theory Sysout_Laws
  imports Sysout
begin

text \<open>
  Saving and loading the memory image: a saved image read back gives the memory that was saved, on
  either byte order; and whatever goes wrong while saving, the old image stays until the new one has been
  written without an error, complete when every successful \<open>write\<close> took all its bytes.
\<close>

section \<open>Cells and bytes\<close>

lemma bit_byte: "bit (b :: DLbyte) n \<Longrightarrow> n < 8"
  by (auto dest: bit_imp_le_length)

lemma bit_of_bytes: "bit (of_bytes b3 b2 b1 b0) n \<longleftrightarrow>
  (if n < 8 then bit b0 n else if n < 16 then bit b1 (n - 8) else if n < 24 then bit b2 (n - 16)
   else bit b3 (n - 24))"
  by (auto simp: of_bytes_def bit_or_iff bit_push_bit_iff bit_ucast_iff dest: bit_byte)

lemma cell_byte_of_bytes:
  "cell_byte (of_bytes b3 b2 b1 b0) 0 = b0" "cell_byte (of_bytes b3 b2 b1 b0) 1 = b1"
  "cell_byte (of_bytes b3 b2 b1 b0) 2 = b2" "cell_byte (of_bytes b3 b2 b1 b0) 3 = b3"
  by (rule bit_word_eqI; auto simp: cell_byte_def bit_ucast_iff bit_drop_bit_eq bit_of_bytes dest: bit_byte)+

lemma of_bytes_cell: "of_bytes (cell_byte c 3) (cell_byte c 2) (cell_byte c 1) (cell_byte c 0) = c"
  by (rule bit_word_eqI) (auto simp: bit_of_bytes cell_byte_def bit_ucast_iff bit_drop_bit_eq)

lemma ntohl_ntohl [simp]: "ntohl (ntohl c) = c"
  by (simp add: ntohl_def cell_byte_of_bytes of_bytes_cell del: One_nat_def)

text \<open>The bytes of a cell in the order of the file.\<close>

definition file_byte :: "32 word \<Rightarrow> nat \<Rightarrow> DLbyte" where "file_byte c j = cell_byte c (3 - j)"
definition to_file :: "bool \<Rightarrow> 32 word \<Rightarrow> 32 word" where "to_file lit c = (if lit then ntohl c else c)"

lemma less_4: "j < 4 \<longleftrightarrow> j = 0 \<or> j = 1 \<or> j = 2 \<or> j = (3 :: nat)" by auto

lemma host_byte_to_file: "j < 4 \<Longrightarrow> host_byte lit (to_file lit c) j = file_byte c j"
  by (auto simp: less_4 host_byte_def to_file_def file_byte_def ntohl_def cell_byte_of_bytes
    cell_byte_of_bytes [unfolded One_nat_def])

lemma to_file_host_cell: "(\<And>j. j < 4 \<Longrightarrow> b j = file_byte c j) \<Longrightarrow> to_file lit (host_cell lit b) = c"
  by (simp add: to_file_def host_cell_def file_byte_def ntohl_def cell_byte_of_bytes of_bytes_cell
    cell_byte_of_bytes [unfolded One_nat_def] of_bytes_cell [unfolded One_nat_def])

section \<open>Runs of cells\<close>

lemma uint_double: "k < 2 ^ 31 \<Longrightarrow> uint (2 * of_nat k :: 32 word) = 2 * int k"
proof -
  assume "k < 2 ^ 31"
  then have "uint (of_nat (2 * k) :: 32 word) = int (2 * k)"
    by (simp add: unsigned_of_nat take_bit_nat_eq_self del: of_nat_mult)
  then show ?thesis by simp
qed

lemma step_inj:
  fixes a :: LispPTR
  assumes "a + 2 * of_nat j = a + 2 * of_nat k" "j < 2 ^ 31" "k < 2 ^ 31"
  shows "j = k"
proof -
  have "2 * of_nat j = (2 * of_nat k :: 32 word)" using assms(1) by simp
  then have "uint (2 * of_nat j :: 32 word) = uint (2 * of_nat k :: 32 word)" by simp
  then show ?thesis using assms(2,3) by (simp only: uint_double)
qed

lemma word_swap_page_cell:
  assumes "n \<le> 2 ^ 31"
  shows "getcell (word_swap_page a n m) b =
    (if \<exists>k<n. b = a + 2 * of_nat k then ntohl (getcell m b) else getcell m b)"
  using assms
proof (induction n)
  case (Suc n)
  let ?b = "a + 2 * of_nat n"
  have "\<not> (\<exists>k<n. ?b = a + 2 * of_nat k)" using step_inj [of a n] Suc.prems by fastforce
  then show ?case
    using Suc by (auto simp: Let_def getcell_def putcell_def less_Suc_eq)
qed simp

lemma swapped_cell:
  assumes "n \<le> 2 ^ 31"
  shows "getcell (swapped h a n m) b =
    (if \<exists>k<n. b = a + 2 * of_nat k then to_file (little h) (getcell m b) else getcell m b)"
  by (cases "little h") (auto simp: swapped_def to_file_def word_swap_page_cell [OF assms])

lemma swapped_swapped: "n \<le> 2 ^ 31 \<Longrightarrow> swapped h a n (swapped h a n m) = m"
proof
  fix b
  assume n: "n \<le> 2 ^ 31"
  have "getcell (swapped h a n (swapped h a n m)) b = getcell m b"
    unfolding swapped_cell [OF n] by (auto simp: to_file_def)
  then show "swapped h a n (swapped h a n m) b = m b" by (simp add: getcell_def)
qed

section \<open>System calls that succeed\<close>

text \<open>The host takes all the bytes of a \<open>write\<close> that succeeds. POSIX allows it to take fewer.\<close>

definition full_writes :: "host \<Rightarrow> bool" where
  "full_writes h \<longleftrightarrow> (\<forall>k n. outcome h k = Success \<longrightarrow> n \<le> accepts h k n)"

lemma syscall_Inr: "syscall h f c s = (Inr (Inr x), s2) \<longleftrightarrow>
  outcome h (calls s) = Success \<and> f (s\<lparr>calls := Suc (calls s)\<rparr>) = (Inr x, s2)"
  by (auto simp: syscall_def Let_def split: outcome.splits prod.splits)

lemma or_give_Inr: "or_give code m s = (Inr u, s2) \<longleftrightarrow> (\<exists>x. m s = (Inr (Inr x), s2))"
  by (auto simp: or_give_def iob_def give_def skip_def split: prod.splits sum.splits)

lemma code_or_skip: "(case r of Inl e \<Rightarrow> give (c e) | Inr x \<Rightarrow> skip) s = (Inr u, s2) \<longleftrightarrow> r = Inr () \<and> s2 = s"
  for r :: "nat + unit"
  by (cases r) (auto simp: give_def skip_def)

lemma lseek_done: "or_give code (syscall h (sys_lseek p) c) s = (Inr u, s2) \<Longrightarrow>
  s2 = s\<lparr>calls := Suc (calls s), pos := p\<rparr>"
  by (auto simp: or_give_Inr syscall_Inr sys_lseek_def)

lemma write_done:
  assumes "syscall h (sys_write h name a n) c s = (Inr (Inr x), s2)" "full_writes h" "files s name = Some f"
  shows "s2 = s\<lparr>calls := Suc (calls s), pos := pos s + n,
    files := (files s)(name \<mapsto> write_bytes (pos s) n (world_byte (little h) (world s) a) f)\<rparr>"
proof -
  have "outcome h (calls s) = Success" using assms(1) by (simp add: syscall_Inr)
  then have "min n (accepts h (calls s) n) = n" using assms(2) by (simp add: full_writes_def min_absorb1)
  then show ?thesis using assms(1,3) by (auto simp: syscall_Inr sys_write_def Let_def)
qed

lemma write_bytes_twice:
  assumes "0 < a" "0 < b"
  shows "write_bytes (p + a) b g2 (write_bytes p a g1 f) = write_bytes p (a + b) (\<lambda>k. if k < a then g1 k else g2 (k - a)) f"
  using assms by (intro disk_file.equality) (auto simp: write_bytes_def fun_eq_iff)

lemma world_byte_later: "world_byte lit m (a + of_nat n * 256) k = world_byte lit m a (k + n * 512)"
proof -
  have "(k + n * 512) div 4 = k div 4 + n * 128" "(k + n * 512) mod 4 = k mod 4"
    by (simp_all add: div_add1_eq mod_add_eq [symmetric])
  moreover have "a + of_nat n * 256 + 2 * of_nat (k div 4) = a + 2 * (of_nat (k div 4 + n * 128) :: 32 word)"
    by (simp add: algebra_simps)
  ultimately show ?thesis by (simp only: world_byte_def)
qed

lemma write_chunks_done:
  "write_chunks h name ba pc s = (Inr (Inr ()), s2) \<Longrightarrow> full_writes h \<Longrightarrow> files s name = Some f \<Longrightarrow> 0 < pc \<Longrightarrow>
   world s2 = world s \<and> pos s2 = pos s + pc * 512 \<and>
   files s2 = (files s)(name \<mapsto> write_bytes (pos s) (pc * 512) (world_byte (little h) (world s) ba) f)"
proof (induction h name ba pc s arbitrary: f rule: write_chunks.induct)
  case (1 h name ba pc s)
  show ?case
  proof (cases "maxpages h < pc \<and> 0 < maxpages h")
    case False
    then have "syscall h (sys_write h name ba (pc * BYTESPER_PAGE)) FILETIMEOUT s = (Inr (Inr ()), s2)"
      using 1(2) by (subst (asm) write_chunks.simps) (simp only: if_False)
    from write_done [OF this 1(3,4)] show ?thesis by (simp add: BYTESPER_PAGE_def)
  next
    case True
    let ?m = "maxpages h" and ?g = "world_byte (little h) (world s) ba"
    obtain s1 x where w: "syscall h (sys_write h name ba (?m * BYTESPER_PAGE)) FILETIMEOUT s = (Inr (Inr x), s1)"
      and r: "write_chunks h name (ba + of_nat ?m * 256) (pc - ?m) s1 = (Inr (Inr ()), s2)"
      using 1(2) True by (subst (asm) write_chunks.simps) (auto simp: iob_Inr or_give_Inr)
    note s1 = write_done [OF w 1(3,4)]
    have f1: "files s1 name = Some (write_bytes (pos s) (?m * 512) ?g f)"
      using s1 by (simp add: BYTESPER_PAGE_def)
    have "world s2 = world s1 \<and> pos s2 = pos s1 + (pc - ?m) * 512 \<and>
      files s2 = (files s1)(name \<mapsto> write_bytes (pos s1) ((pc - ?m) * 512)
        (world_byte (little h) (world s1) (ba + of_nat ?m * 256)) (write_bytes (pos s) (?m * 512) ?g f))"
      using True by (intro "1.IH" [OF True r 1(3) f1]) simp
    moreover have "write_bytes (pos s + ?m * 512) ((pc - ?m) * 512) (\<lambda>k. ?g (k + ?m * 512))
        (write_bytes (pos s) (?m * 512) ?g f) = write_bytes (pos s) (pc * 512) ?g f"
    proof -
      have "?m * 512 + (pc - ?m) * 512 = pc * 512" using True by (simp flip: add_mult_distrib)
      moreover have "(\<lambda>k. if k < ?m * 512 then ?g k else ?g (k - ?m * 512 + ?m * 512)) = ?g" by auto
      ultimately show ?thesis using True by (subst write_bytes_twice) auto
    qed
    moreover have "pos s1 + (pc - ?m) * 512 = pos s + pc * 512"
      using True s1 by (simp add: BYTESPER_PAGE_def flip: add_mult_distrib)
    ultimately show ?thesis using s1 by (simp add: world_byte_later [abs_def] BYTESPER_PAGE_def)
  qed
qed

section \<open>Pages in the file\<close>

text \<open>The bytes of the memory in file order, from a cell on.\<close>

definition image_byte :: "memory \<Rightarrow> LispPTR \<Rightarrow> nat \<Rightarrow> DLbyte" where
  "image_byte m a k = file_byte (getcell m (a + 2 * of_nat (k div 4))) (k mod 4)"

lemma swap_pages_is: "swap_pages h a n s = (Inr (), s\<lparr>world := swapped h a (n * 128) (world s)\<rparr>)"
  by (simp add: swap_pages_def on_world_def skip_def swapped_def CELLSPER_PAGE_def)

lemma write_bytes_cong: "(\<And>k. k < n \<Longrightarrow> g k = g' k) \<Longrightarrow> write_bytes p n g f = write_bytes p n g' f"
  by (intro disk_file.equality) (auto simp: write_bytes_def fun_eq_iff)

lemma world_byte_swapped:
  assumes "k < 4 * n" "n \<le> 2 ^ 31"
  shows "world_byte (little h) (swapped h a n m) a k = image_byte m a k"
proof -
  have "k div 4 < n" using assms(1) by (simp add: less_mult_imp_div_less mult.commute)
  then have "\<exists>i<n. a + 2 * of_nat (k div 4) = a + 2 * (of_nat i :: 32 word)" by blast
  then show ?thesis
    by (simp add: world_byte_def image_byte_def swapped_cell [OF assms(2)] host_byte_to_file)
qed

lemma write_run_done:
  assumes w: "write_run h name a n s = (Inr (), s2)" and h: "full_writes h" and f: "files s name = Some f"
    and n: "0 < n" "n \<le> 2 ^ 20"
  shows "world s2 = world s \<and> files s2 = (files s)(name \<mapsto> write_bytes (pos s) (n * 512) (image_byte (world s) a) f)"
proof -
  define s0 where "s0 = s\<lparr>world := swapped h a (n * 128) (world s)\<rparr>"
  obtain s1 where c: "write_chunks h name a n s0 = (Inr (Inr ()), s1)"
    and s2: "s2 = s1\<lparr>world := swapped h a (n * 128) (world s1)\<rparr>"
    using w by (auto simp: write_run_def iob_Inr swap_pages_is s0_def code_or_skip)
  have "files s0 name = Some f" using f by (simp add: s0_def)
  note d = write_chunks_done [OF c h this n(1)]
  have m: "n * 128 \<le> 2 ^ 31" using n(2) by simp
  have "write_bytes (pos s) (n * 512) (world_byte (little h) (world s0) a) f =
      write_bytes (pos s) (n * 512) (image_byte (world s) a) f"
    by (rule write_bytes_cong) (simp add: s0_def world_byte_swapped [OF _ m])
  then show ?thesis using d s2 by (simp add: s0_def swapped_swapped [OF m])
qed

lemma contig_pages_run: "k < contig_pages m n i v \<Longrightarrow> GETFPTOVP m (i + k) = v + of_nat k \<and> i + k < n"
proof (induction m n i v arbitrary: k rule: contig_pages.induct)
  case (1 m n i v)
  show ?case
  proof (cases k)
    case 0
    then show ?thesis using 1(2) by (subst (asm) contig_pages.simps) (simp split: if_splits)
  next
    case (Suc k')
    then have c: "GETFPTOVP m i = v \<and> i < n" "k' < contig_pages m n (Suc i) (v + 1)"
      using 1(2) by (subst (asm) contig_pages.simps, simp split: if_splits)+
    from 1(1) [OF c] show ?thesis using Suc by (simp add: add_ac)
  qed
qed

lemma contig_pages_pos: "GETFPTOVP m i = v \<Longrightarrow> i < n \<Longrightarrow> 0 < contig_pages m n i v"
  by (subst contig_pages.simps) simp

lemma contig_pages_bound: "i \<le> n \<Longrightarrow> i + contig_pages m n i v \<le> n"
proof (induction m n i v rule: contig_pages.induct)
  case (1 m n i v)
  then show ?case by (subst contig_pages.simps) (cases "GETFPTOVP m i = v \<and> i < n"; simp)
qed

lemma save_run_done:
  assumes r: "save_run h name n i s = (Inr j, s2)" and h: "full_writes h" and f: "files s name = Some f"
    and i: "i < n" "n \<le> 2 ^ 20"
  shows "if page_ok (GETFPTOVP (world s) i)
    then let k = contig_pages (world s) n i (GETFPTOVP (world s) i)
      in j = i + k \<and> world s2 = world s \<and> files s2 = (files s)(name \<mapsto>
           write_bytes (512 * i) (k * 512) (image_byte (world s) (GETFPTOVP (world s) i * 256)) f)
    else j = Suc i \<and> s2 = s"
proof (cases "page_ok (GETFPTOVP (world s) i)")
  case False
  then show ?thesis using r by (simp add: save_run_def)
next
  case True
  define v where "v = GETFPTOVP (world s) i"
  define k where "k = contig_pages (world s) n i v"
  obtain s1 where l: "or_give (\<lambda>_. FILECANNOTSEEK) (syscall h (sys_lseek (i * BYTESPER_PAGE)) FILETIMEOUT) s = (Inr (), s1)"
    and w: "write_run h name (v * 256) (contig_pages (world s1) n i v) s1 = (Inr (), s2)"
    and j: "j = i + contig_pages (world s1) n i v"
    using r True by (auto simp: save_run_def iob_Inr Let_def v_def)
  note s1 = lseek_done [OF l]
  have k: "0 < k" "k \<le> n" using i contig_pages_run [of "k - 1" "world s" n i v] contig_pages_pos [of "world s" i v n]
    by (auto simp: k_def v_def)
  have "world s2 = world s1 \<and> files s2 = (files s1)(name \<mapsto>
      write_bytes (pos s1) (k * 512) (image_byte (world s1) (v * 256)) f)"
    using w h f k i(2) s1 by (intro write_run_done) (simp_all add: k_def)
  then show ?thesis using True j s1 by (simp add: v_def k_def BYTESPER_PAGE_def mult.commute)
qed

text \<open>
  What saving does not protect against. A run of pages whose \<open>write\<close> is cut off by the alarm
  stays in file order in the memory of a host with the low byte first; and \<open>write\<close> may take
  fewer bytes than it is given without an error, which is compared with -1 only.
\<close>

lemma write_run_cut_off:
  assumes "outcome h (calls s) = Timed_out" "n \<le> maxpages h"
  shows "write_run h name a n s =
    (Inl FILETIMEOUT, s\<lparr>world := swapped h a (n * 128) (world s), calls := Suc (calls s)\<rparr>)"
proof -
  have "write_chunks h name a n t = syscall h (sys_write h name a (n * BYTESPER_PAGE)) FILETIMEOUT t" for t
    using assms(2) by (subst write_chunks.simps) simp
  then show ?thesis using assms(1) by (simp add: write_run_def iob_def swap_pages_is syscall_def)
qed

lemma write_run_short:
  assumes "outcome h (calls s) = Success" "n \<le> maxpages h" "files s name = Some f"
    "accepts h (calls s) (n * 512) = k" "k < n * 512"
  shows "\<exists>s2 f2. write_run h name a n s = (Inr (), s2) \<and> files s2 name = Some f2 \<and> flen f2 \<le> max (flen f) (pos s + k)"
proof -
  have "write_chunks h name a n t = syscall h (sys_write h name a (n * BYTESPER_PAGE)) FILETIMEOUT t" for t
    using assms(2) by (subst write_chunks.simps) simp
  then show ?thesis
    using assms by (simp add: write_run_def iob_def swap_pages_is syscall_def sys_write_def skip_def Let_def
      BYTESPER_PAGE_def write_bytes_def)
qed

section \<open>The complete image\<close>

text \<open>The file pages below \<open>i\<close> hold what the table says.\<close>

definition image_upto :: "memory \<Rightarrow> nat \<Rightarrow> nat \<Rightarrow> disk_file \<Rightarrow> bool" where
  "image_upto m n i f \<longleftrightarrow> flen f \<le> 512 * n \<and>
     (\<forall>q<i. page_ok (GETFPTOVP m q) \<longrightarrow> 512 * (q + 1) \<le> flen f \<and>
        (\<forall>k<512. bytes f (512 * q + k) = image_byte m (GETFPTOVP m q * 256) k))"

lemma image_byte_page: "image_byte m ((v + of_nat t) * 256) k = image_byte m (v * 256) (512 * t + k)"
proof -
  have "(512 * t + k) div 4 = k div 4 + t * 128" "(512 * t + k) mod 4 = k mod 4"
    by (simp_all add: div_add1_eq mod_add_eq [symmetric])
  moreover have "(v + of_nat t) * 256 + 2 * of_nat (k div 4) = v * 256 + 2 * (of_nat (k div 4 + t * 128) :: 32 word)"
    by (simp add: algebra_simps)
  ultimately show ?thesis by (simp only: image_byte_def)
qed

lemma image_step:
  assumes I: "image_upto m n i f" and run: "\<And>t. t < k \<Longrightarrow> GETFPTOVP m (i + t) = v + of_nat t \<and> i + t < n"
    and k: "0 < k"
  shows "image_upto m n (i + k) (write_bytes (512 * i) (k * 512) (image_byte m (v * 256)) f)"
    (is "image_upto m n (i + k) ?f")
proof -
  have "i + (k - 1) < n" using run [of "k - 1"] k by simp
  then have "i + k \<le> n" using k by linarith
  then have len: "flen ?f \<le> 512 * n" "flen f \<le> flen ?f" "512 * (i + k) \<le> flen ?f"
    using I k by (auto simp: image_upto_def write_bytes_def)
  have "512 * (q + 1) \<le> flen ?f \<and> (\<forall>j<512. bytes ?f (512 * q + j) = image_byte m (GETFPTOVP m q * 256) j)"
    if q: "q < i + k" "page_ok (GETFPTOVP m q)" for q
  proof (cases "q < i")
    case True
    then have "\<not> 512 * i \<le> 512 * q + j" if "j < 512" for j using that by simp
    then have "bytes ?f (512 * q + j) = bytes f (512 * q + j)" if "j < 512" for j
      using that by (simp add: write_bytes_def)
    then show ?thesis using I True q(2) len by (auto simp: image_upto_def)
  next
    case False
    define t where "t = q - i"
    have t: "q = i + t" "t < k" using False q by (auto simp: t_def)
    have "bytes ?f (512 * q + j) = image_byte m (v * 256) (512 * t + j)" if "j < 512" for j
      using that t by (auto simp: write_bytes_def)
    moreover have "image_byte m (GETFPTOVP m q * 256) j = image_byte m (v * 256) (512 * t + j)" for j
      using run [OF t(2)] by (simp only: t(1) image_byte_page)
    ultimately show ?thesis using t len by simp
  qed
  then show ?thesis using len by (simp add: image_upto_def)
qed

lemma save_pages_done:
  "save_pages h name n i s = (Inr (), s2) \<Longrightarrow> full_writes h \<Longrightarrow> n \<le> 2 ^ 20 \<Longrightarrow>
   files s name = Some f \<Longrightarrow> image_upto (world s) n i f \<Longrightarrow> i \<le> n \<Longrightarrow>
   world s2 = world s \<and> (\<exists>f'. files s2 = (files s)(name \<mapsto> f') \<and> image_upto (world s) n n f')"
proof (induction h name n i s arbitrary: f rule: save_pages.induct)
  case (1 h name n i s)
  show ?case
  proof (cases "i < n")
    case False
    then have "s2 = s" "i = n" using 1(2,7) by (simp_all add: save_pages.simps)
    then show ?thesis using 1(5,6) map_upd_triv [of "files s" name f] by metis
  next
    case True
    obtain j s1 where r: "save_run h name n i s = (Inr j, s1)" and p: "save_pages h name n j s1 = (Inr (), s2)"
      using 1(2) True by (subst (asm) save_pages.simps) (auto split: prod.splits sum.splits)
    note d = save_run_done [OF r 1(3) 1(5) True 1(4)]
    let ?v = "GETFPTOVP (world s) i"
    obtain f1 where f1: "world s1 = world s" "files s1 = (files s)(name \<mapsto> f1)" "image_upto (world s) n j f1" "j \<le> n"
    proof (cases "page_ok ?v")
      case ok: True
      let ?k = "contig_pages (world s) n i ?v"
      have k: "0 < ?k" using contig_pages_pos True by simp
      moreover have "i + ?k \<le> n" using contig_pages_bound True by simp
      ultimately show thesis using d ok
        by (intro that) (auto simp: Let_def intro!: image_step [OF 1(6)] dest: contig_pages_run)
    next
      case False
      then show thesis using d True 1(5,6) by (intro that [of f]) (auto simp: image_upto_def less_Suc_eq map_upd_triv)
    qed
    have "files s1 name = Some f1" "image_upto (world s1) n j f1" using f1 by simp_all
    from "1.IH" [OF True r [symmetric] refl p 1(3,4) this f1(4)] obtain f'
      where "world s2 = world s1" "files s2 = (files s1)(name \<mapsto> f')" "image_upto (world s1) n n f'" by blast
    then have "world s2 = world s" "files s2 = (files s)(name \<mapsto> f')" "image_upto (world s) n n f'"
      by (simp_all only: f1 fun_upd_upd)
    then show ?thesis by blast
  qed
qed

text \<open>Writing the interface page over its copy does not change the image.\<close>

definition complete_image :: "memory \<Rightarrow> nat \<Rightarrow> disk_file \<Rightarrow> bool" where "complete_image m n = image_upto m n n"

lemma image_rewrite:
  assumes I: "complete_image m n f" and one: "GETFPTOVP m 1 * 256 = IFPAGE_OFFSET" "1 < n"
  shows "complete_image m n (write_bytes 512 512 (image_byte m IFPAGE_OFFSET) f)"
proof -
  let ?f = "write_bytes 512 512 (image_byte m IFPAGE_OFFSET) f"
  have len: "flen f \<le> flen ?f" "flen ?f \<le> 512 * n"
    using I one(2) by (auto simp: complete_image_def image_upto_def write_bytes_def)
  have "bytes ?f (512 * q + k) = image_byte m (GETFPTOVP m q * 256) k"
    if "q < n" "page_ok (GETFPTOVP m q)" "k < 512" for q k
  proof (cases "q = 1")
    case True
    then show ?thesis using that one by (simp add: write_bytes_def)
  next
    case False
    then have "\<not> (512 \<le> 512 * q + k \<and> 512 * q + k < 512 + 512)" using that(3) by (cases q) auto
    then have "bytes ?f (512 * q + k) = bytes f (512 * q + k)" unfolding write_bytes_def by auto
    then show ?thesis using I that by (simp add: complete_image_def image_upto_def)
  qed
  then show ?thesis using I len unfolding complete_image_def image_upto_def by (meson order.trans)
qed

lemma save_ifpage_done:
  assumes p: "save_ifpage h name s = (Inr (), s2)" and h: "full_writes h" and f: "files s name = Some f"
    and I: "complete_image (world s) n f" and one: "GETFPTOVP (world s) 1 * 256 = IFPAGE_OFFSET" "1 < n"
  shows "world s2 = world s \<and> (\<exists>f'. files s2 = (files s)(name \<mapsto> f') \<and> complete_image (world s) n f')"
proof -
  obtain s1 s3 where l: "or_give (\<lambda>_. FILECANNOTSEEK) (syscall h (sys_lseek FP_IFPAGE) FILETIMEOUT) s = (Inr (), s1)"
    and w: "syscall h (sys_write h name IFPAGE_OFFSET BYTESPER_PAGE) FILETIMEOUT
      (s1\<lparr>world := swapped h IFPAGE_OFFSET 128 (world s1)\<rparr>) = (Inr (Inr ()), s3)"
    and s2: "s2 = s3\<lparr>world := swapped h IFPAGE_OFFSET 128 (world s3)\<rparr>"
    using p by (auto simp: save_ifpage_def iob_Inr swap_pages_is code_or_skip)
  note s1 = lseek_done [OF l]
  have "files (s1\<lparr>world := swapped h IFPAGE_OFFSET 128 (world s1)\<rparr>) name = Some f" using f s1 by simp
  note s3 = write_done [OF w h this]
  have "write_bytes 512 512 (world_byte (little h) (swapped h IFPAGE_OFFSET 128 (world s)) IFPAGE_OFFSET) f =
      write_bytes 512 512 (image_byte (world s) IFPAGE_OFFSET) f"
    by (rule write_bytes_cong) (simp add: world_byte_swapped)
  then show ?thesis
    using s2 s3 s1 image_rewrite [OF I one] by (auto simp: swapped_swapped FP_IFPAGE_def BYTESPER_PAGE_def)
qed

section \<open>What saving leaves on the disk\<close>

text \<open>
  An operation that changes no file but \<open>name\<close>, does not remove that one, and whose early returns are
  error codes.
\<close>

definition only_file :: "string \<Rightarrow> 'a io \<Rightarrow> bool" where
  "only_file name m \<longleftrightarrow> (\<forall>s r s2. m s = (r, s2) \<longrightarrow> (\<forall>x. x \<noteq> name \<longrightarrow> files s2 x = files s x) \<and>
     (files s name \<noteq> None \<longrightarrow> files s2 name \<noteq> None) \<and> (\<forall>c. r = Inl c \<longrightarrow> c \<noteq> NIL))"

lemma only_file_iob: "only_file name m \<Longrightarrow> (\<And>x. only_file name (f x)) \<Longrightarrow> only_file name (iob m f)"
  unfolding only_file_def iob_def by (auto split: prod.splits sum.splits)

lemma error_codes: "NOFILESPACE \<noteq> NIL" "FILECANNOTOPEN \<noteq> NIL" "FILECANNOTSEEK \<noteq> NIL" "FILECANNOTWRITE \<noteq> NIL"
  "FILETIMEOUT \<noteq> NIL" "write_error e \<noteq> NIL"
  by (simp_all add: NOFILESPACE_def FILECANNOTOPEN_def FILECANNOTSEEK_def FILECANNOTWRITE_def FILETIMEOUT_def
    write_error_def maiko_consts)

lemma only_file_basic:
  "only_file name skip" "c \<noteq> NIL \<Longrightarrow> only_file name (give c)" "only_file name (on_world g)"
  "c \<noteq> NIL \<Longrightarrow> only_file name (syscall h (sys_lseek p) c)"
  "c \<noteq> NIL \<Longrightarrow> only_file name (syscall h sys_close c)"
  "c \<noteq> NIL \<Longrightarrow> only_file name (syscall h (sys_open x) c)"
  "c \<noteq> NIL \<Longrightarrow> only_file name (syscall h (sys_create name) c)"
  "c \<noteq> NIL \<Longrightarrow> only_file name (syscall h (sys_write h name a n) c)"
  "only_file name (swap_pages h a n)"
  by (auto simp: only_file_def skip_def give_def on_world_def syscall_def sys_lseek_def sys_close_def sys_open_def
    sys_create_def sys_write_def swap_pages_is Let_def split: outcome.splits option.splits if_splits)

lemma only_file_or_give: "only_file name m \<Longrightarrow> (\<And>e. code e \<noteq> NIL) \<Longrightarrow> only_file name (or_give code m)"
  unfolding or_give_def by (intro only_file_iob) (auto split: sum.split intro: only_file_basic)

lemmas only_file_intros = only_file_iob only_file_basic only_file_or_give error_codes

lemma only_file_state: "(\<And>t. only_file name (m t)) \<Longrightarrow> only_file name (\<lambda>s. m s s)"
  unfolding only_file_def by blast

lemma only_file_write_chunks: "only_file name (write_chunks h name ba pc)"
proof (induction pc arbitrary: ba rule: less_induct)
  case (less pc)
  have "write_chunks h name ba pc = (if maxpages h < pc \<and> 0 < maxpages h
      then iob (or_give write_error (syscall h (sys_write h name ba (maxpages h * BYTESPER_PAGE)) FILETIMEOUT))
             (\<lambda>_. write_chunks h name (ba + of_nat (maxpages h) * 256) (pc - maxpages h))
      else syscall h (sys_write h name ba (pc * BYTESPER_PAGE)) FILETIMEOUT)"
    by (rule ext) (subst write_chunks.simps, simp)
  moreover have "only_file name \<dots>" using less by (auto intro!: only_file_intros)
  ultimately show ?case by simp
qed

lemma only_file_result: "only_file name (\<lambda>s. (Inr x, s))"
  by (simp add: only_file_def)

lemma only_file_give_or_skip:
  "(\<And>e. c e \<noteq> NIL) \<Longrightarrow> only_file name (case r of Inl e \<Rightarrow> give (c e) | Inr x \<Rightarrow> skip)"
  by (cases r) (auto intro: only_file_basic)

lemma only_file_write_run: "only_file name (write_run h name a n)"
  unfolding write_run_def
  by (intro only_file_iob only_file_write_chunks only_file_give_or_skip only_file_basic error_codes)

lemma only_file_save_run: "only_file name (save_run h name n i)"
proof -
  define g where "g v k = iob (write_run h name (v * 256) k) (\<lambda>_ s2. (Inr (i + k), s2))" for v k
  define seek where "seek = or_give (\<lambda>_. FILECANNOTSEEK) (syscall h (sys_lseek (i * BYTESPER_PAGE)) FILETIMEOUT)"
  define a where "a v = iob seek (\<lambda>_ s1. g v (contig_pages (world s1) n i v) s1)" for v
  have g: "only_file name (g v k)" for v k
    unfolding g_def by (intro only_file_iob only_file_write_run only_file_result)
  have "only_file name (\<lambda>s1. g v (contig_pages (world s1) n i v) s1)" for v
    using only_file_state [of name "\<lambda>t. g v (contig_pages (world t) n i v)"] g by simp
  moreover have "only_file name seek"
    unfolding seek_def by (intro only_file_or_give only_file_basic error_codes)
  ultimately have a: "only_file name (a v)" for v
    unfolding a_def by (intro only_file_iob)
  have "save_run h name n i = (\<lambda>s. (if page_ok (GETFPTOVP (world s) i) then a (GETFPTOVP (world s) i)
      else (\<lambda>s. (Inr (Suc i), s))) s)"
    by (rule ext) (simp add: save_run_def Let_def a_def g_def seek_def)
  moreover have "only_file name (\<lambda>s. (if page_ok (GETFPTOVP (world s) i) then a (GETFPTOVP (world s) i)
      else (\<lambda>s. (Inr (Suc i), s))) s)"
    by (rule only_file_state) (simp add: a only_file_result)
  ultimately show ?thesis by (simp only:)
qed

lemma save_pages_only: "save_pages h name n i s = (r, s2) \<Longrightarrow>
  (\<forall>x. x \<noteq> name \<longrightarrow> files s2 x = files s x) \<and> (files s name \<noteq> None \<longrightarrow> files s2 name \<noteq> None) \<and>
  (\<forall>c. r = Inl c \<longrightarrow> c \<noteq> NIL)"
proof (induction h name n i s rule: save_pages.induct)
  case (1 h name n i s)
  show ?case
  proof (cases "i < n")
    case False
    then show ?thesis using 1(2) by (auto simp: save_pages.simps)
  next
    case True
    obtain t s1 where r: "save_run h name n i s = (t, s1)" by fastforce
    have o1: "\<forall>x. x \<noteq> name \<longrightarrow> files s1 x = files s x" "files s name \<noteq> None \<longrightarrow> files s1 name \<noteq> None"
      "\<forall>c. t = Inl c \<longrightarrow> c \<noteq> NIL"
      using only_file_save_run [of name h n i] r unfolding only_file_def by blast+
    show ?thesis
    proof (cases t)
      case (Inl c)
      then show ?thesis using 1(2) r True o1 by (subst (asm) save_pages.simps) auto
    next
      case (Inr j)
      then have "save_pages h name n j s1 = (r, s2)" using 1(2) r True by (subst (asm) save_pages.simps) simp
      from "1.IH" [OF True r [symmetric] Inr this] Inr r True o1 show ?thesis by auto
    qed
  qed
qed

lemma only_file_save_pages: "only_file name (save_pages h name n i)"
  using save_pages_only unfolding only_file_def by blast

lemma only_file_save_ifpage: "only_file name (save_ifpage h name)"
  unfolding save_ifpage_def
  by (intro only_file_iob only_file_give_or_skip only_file_or_give only_file_basic error_codes)

lemma only_file_confirm: "only_file x (confirm_protection h name)"
  unfolding confirm_protection_def
  by (auto intro!: only_file_intros split: sum.split)

text \<open>Saving up to the point where the old image is given up.\<close>

definition write_temp :: "host \<Rightarrow> string \<Rightarrow> nat \<Rightarrow> unit io" where
  "write_temp h name n =
     iob (confirm_protection h name) (\<lambda>_.
     iob (or_give (\<lambda>_. FILECANNOTOPEN) (syscall h (sys_create (temp_name name)) FILETIMEOUT)) (\<lambda>_.
     iob (on_world (set_header h)) (\<lambda>_.
     iob (save_pages h (temp_name name) n 0) (\<lambda>_.
     iob (save_ifpage h (temp_name name)) (\<lambda>_.
       or_give (\<lambda>_. FILECANNOTWRITE) (syscall h sys_close FILETIMEOUT))))))"

lemma iob_assoc: "iob (iob m f) g = iob m (\<lambda>x. iob (f x) g)"
  by (rule ext) (auto simp: iob_def split: prod.splits sum.splits)

lemma vmem_save_split: "vmem_save_body h name s =
  iob (write_temp h name (nat (sint (if_nactivepages (world s) IFPAGE_OFFSET)))) (\<lambda>_. replace_file h name) s"
  by (simp add: vmem_save_body_def write_temp_def iob_assoc Let_def)

lemma only_file_write_temp: "only_file (temp_name name) (write_temp h name n)"
  unfolding write_temp_def
  by (intro only_file_iob only_file_confirm only_file_save_pages only_file_save_ifpage only_file_or_give
    only_file_basic error_codes)

lemma temp_name_differs: "temp_name name \<noteq> name" "name \<noteq> temp_name name"
  by (simp_all add: temp_name_def)

lemma confirm_done: "confirm_protection h name s = (Inr u, s2) \<Longrightarrow> world s2 = world s"
  by (cases "outcome h (calls s)"; cases "outcome h (Suc (calls s))"; cases "files s name")
    (auto simp: confirm_protection_def iob_def syscall_def sys_open_def sys_close_def skip_def give_def Let_def
      split: if_splits)

lemma image_upto_empty: "image_upto m n 0 empty_file"
  by (simp add: image_upto_def empty_file_def)

text \<open>The table is sound: its second entry is the interface page, as the code relies on.\<close>

definition table_starts :: "memory \<Rightarrow> nat \<Rightarrow> bool" where
  "table_starts m n \<longleftrightarrow> 1 < n \<and> n \<le> 2 ^ 20 \<and> GETFPTOVP m 1 * 256 = IFPAGE_OFFSET"

lemma write_temp_done:
  assumes w: "write_temp h name n s = (Inr (), s2)" and h: "full_writes h"
    and ok: "table_starts (set_header h (world s)) n"
  shows "world s2 = set_header h (world s) \<and>
    (\<exists>f. files s2 (temp_name name) = Some f \<and> complete_image (set_header h (world s)) n f)"
proof -
  let ?t = "temp_name name" and ?m = "set_header h (world s)"
  obtain s1 where c: "confirm_protection h name s = (Inr (), s1)"
    and w1: "iob (or_give (\<lambda>_. FILECANNOTOPEN) (syscall h (sys_create ?t) FILETIMEOUT)) (\<lambda>_.
       iob (on_world (set_header h)) (\<lambda>_. iob (save_pages h ?t n 0) (\<lambda>_. iob (save_ifpage h ?t) (\<lambda>_.
       or_give (\<lambda>_. FILECANNOTWRITE) (syscall h sys_close FILETIMEOUT))))) s1 = (Inr (), s2)"
    using w by (auto simp: write_temp_def iob_Inr)
  have ws1: "world s1 = world s" by (rule confirm_done [OF c])
  obtain s3 where s3: "world s3 = ?m" "files s3 ?t = Some empty_file"
    and w3: "iob (save_pages h ?t n 0) (\<lambda>_. iob (save_ifpage h ?t) (\<lambda>_.
       or_give (\<lambda>_. FILECANNOTWRITE) (syscall h sys_close FILETIMEOUT))) s3 = (Inr (), s2)"
    using w1 ws1
    by (auto simp: iob_Inr [of "or_give _ _"] iob_Inr [of "on_world _"] or_give_Inr syscall_Inr
      sys_create_def on_world_def) (erule that [rotated 2]; simp)
  obtain s4 s5 where p: "save_pages h ?t n 0 s3 = (Inr (), s4)" and q: "save_ifpage h ?t s4 = (Inr (), s5)"
    and z: "or_give (\<lambda>_. FILECANNOTWRITE) (syscall h sys_close FILETIMEOUT) s5 = (Inr (), s2)"
    using w3 by (auto simp: iob_Inr)
  have n: "1 < n" "n \<le> 2 ^ 20" "GETFPTOVP ?m 1 * 256 = IFPAGE_OFFSET" using ok by (simp_all add: table_starts_def)
  have "image_upto (world s3) n 0 empty_file" by (rule image_upto_empty)
  from save_pages_done [OF p h n(2) s3(2) this] obtain f1
    where s4: "world s4 = ?m" "files s4 ?t = Some f1" "complete_image ?m n f1"
    using s3 by (auto simp: complete_image_def)
  have "complete_image (world s4) n f1" "GETFPTOVP (world s4) 1 * 256 = IFPAGE_OFFSET" using s4 n by simp_all
  from save_ifpage_done [OF q h s4(2) this n(1)] obtain f2
    where "world s5 = ?m" "files s5 ?t = Some f2" "complete_image ?m n f2" using s4 by auto
  moreover have "world s2 = world s5" "files s2 = files s5"
    using z by (auto simp: or_give_Inr syscall_Inr sys_close_def)
  ultimately show ?thesis by simp
qed

text \<open>Without an error there is a temporary file, whatever the writes took.\<close>

lemma write_temp_exists:
  assumes w: "write_temp h name n s = (Inr u, s2)"
  obtains f where "files s2 (temp_name name) = Some f"
proof -
  let ?t = "temp_name name"
  define rest where "rest = iob (on_world (set_header h)) (\<lambda>_. iob (save_pages h ?t n 0) (\<lambda>_.
     iob (save_ifpage h ?t) (\<lambda>_. or_give (\<lambda>_. FILECANNOTWRITE) (syscall h sys_close FILETIMEOUT))))"
  obtain s1 s3 where c: "or_give (\<lambda>_. FILECANNOTOPEN) (syscall h (sys_create ?t) FILETIMEOUT) s1 = (Inr (), s3)"
    and r: "rest s3 = (Inr u, s2)"
    using w by (auto simp: write_temp_def iob_Inr rest_def)
  have "files s3 ?t \<noteq> None" using c by (auto simp: or_give_Inr syscall_Inr sys_create_def)
  moreover have "only_file ?t rest"
    unfolding rest_def
    by (intro only_file_iob only_file_save_pages only_file_save_ifpage only_file_or_give only_file_basic error_codes)
  ultimately have "files s2 ?t \<noteq> None" using r unfolding only_file_def by blast
  then show thesis using that by blast
qed

text \<open>Giving up the old image: the new one is in the temporary file until it has its name.\<close>

lemma replace_file_cases:
  assumes r: "replace_file h name s = (x, s2)" and t: "files s (temp_name name) = Some f"
  obtains (kept) c where "x = Inl c" "c \<noteq> NIL" "files s2 name = files s name"
  | (moved) c where "x = Inl c" "c \<noteq> NIL" "files s2 name = None" "files s2 (temp_name name) = Some f"
  | (late) c where "x = Inl c" "c \<noteq> NIL" "files s2 name = Some f"
  | (replaced) "x = Inr ()" "files s2 name = Some f" "world s2 = world s"
  using r t temp_name_differs error_codes
  by (cases "outcome h (calls s)"; cases "outcome h (Suc (calls s))"; cases "files s name")
    (auto simp: replace_file_def iob_def or_give_def syscall_def sys_unlink_def sys_rename_def give_def skip_def
      Let_def split: if_splits)

text \<open>
  C39. Whichever system call fails or is cut off during \<open>vmem_save\<close>, before or after it has had its
  effect, the old file is on the disk as it was until all of the new one has been written and closed without
  an error; then there is the new one, in its place or, when the renaming has not taken place, under the
  temporary name. NIL is returned only if the new file is in its place. The new file is the complete image of
  the memory when the table has the interface page as its second entry and every \<open>write\<close> that succeeded
  has taken all its bytes: a short \<open>write\<close>, which POSIX allows, is not noticed
  (\<open>write_run_short\<close>).
\<close>

theorem vmem_save_safe:
  assumes "vmem_save h name s = (r, s2)"
    and "n = nat (sint (if_nactivepages (world s) IFPAGE_OFFSET))" and "m = set_header h (world s)"
  shows "(r \<noteq> COMPLETESYSOUT \<and> files s2 name = files s name) \<or>
    (\<exists>s1 f. write_temp h name n s = (Inr (), s1) \<and> files s1 (temp_name name) = Some f \<and>
       (full_writes h \<and> table_starts m n \<longrightarrow> complete_image m n f) \<and>
       (files s2 name = Some f \<and> (r = COMPLETESYSOUT \<and> full_writes h \<and> table_starts m n \<longrightarrow> world s2 = m) \<or>
        r \<noteq> COMPLETESYSOUT \<and> files s2 name = None \<and> files s2 (temp_name name) = Some f))"
proof -
  obtain x where b: "iob (write_temp h name n) (\<lambda>_. replace_file h name) s = (x, s2)"
    and r: "r = (case x of Inl c \<Rightarrow> c | Inr u \<Rightarrow> COMPLETESYSOUT)"
    using assms(1,2) by (auto simp: vmem_save_def vmem_save_split split: prod.splits sum.splits)
  obtain y s1 where w: "write_temp h name n s = (y, s1)" by fastforce
  have o1: "files s1 name = files s name" "\<And>c. y = Inl c \<Longrightarrow> c \<noteq> NIL"
    using only_file_write_temp [of name h n] w temp_name_differs unfolding only_file_def by blast+
  show ?thesis
  proof (cases y)
    case (Inl c)
    then have "x = Inl c" "s2 = s1" using b w by (auto simp: iob_def)
    then show ?thesis using o1 r Inl by (auto simp: COMPLETESYSOUT_def)
  next
    case (Inr u)
    then have p: "replace_file h name s1 = (x, s2)" using b w by (simp add: iob_def)
    have "write_temp h name n s = (Inr (), s1)" using w Inr by simp
    note w = this
    obtain f where f: "files s1 (temp_name name) = Some f" by (rule write_temp_exists [OF w])
    have full: "full_writes h \<and> table_starts m n \<longrightarrow> complete_image m n f \<and> world s1 = m"
      using write_temp_done [OF w] f assms(3) by auto
    from p f show ?thesis
    proof (cases rule: replace_file_cases)
      case (kept c)
      then show ?thesis using o1 r by (simp add: COMPLETESYSOUT_def)
    qed (use w f full r in \<open>auto simp: COMPLETESYSOUT_def\<close>)
  qed
qed

section \<open>Reading an image\<close>

lemma host_cell_cong: "(\<And>j. j < 4 \<Longrightarrow> b j = b' j) \<Longrightarrow> host_cell lit b = host_cell lit b'"
  by (simp add: host_cell_def)

lemma read_cells_other: "(\<And>k. k < n \<Longrightarrow> b \<noteq> a + 2 * of_nat k) \<Longrightarrow>
  getcell (read_cells lit f p a n m) b = getcell m b"
  by (induction n) (simp_all add: Let_def getcell_def putcell_def)

lemma read_cells_cell:
  assumes "k < n" "n \<le> 2 ^ 31" "p + 4 * n \<le> flen f"
  shows "getcell (read_cells lit f p a n m) (a + 2 * of_nat k) = host_cell lit (\<lambda>j. bytes f (p + 4 * k + j))"
  using assms
proof (induction n)
  case (Suc n)
  show ?case
  proof (cases "k = n")
    case True
    have "j < 4 \<Longrightarrow> p + 4 * n + j < flen f" for j using Suc.prems by simp
    then show ?thesis using True by (auto simp: Let_def getcell_def putcell_def intro!: host_cell_cong)
  next
    case False
    then have "k < n" "n \<le> 2 ^ 31" "p + 4 * n \<le> flen f" using Suc.prems by simp_all
    moreover have "a + 2 * of_nat k \<noteq> a + 2 * (of_nat n :: 32 word)"
      using step_inj [of a k n] False Suc.prems by auto
    ultimately show ?thesis using Suc.IH by (simp add: Let_def getcell_def putcell_def)
  qed
qed simp

text \<open>What is read, and put in the order of the host, is what the file pages hold.\<close>

lemma read_swapped:
  assumes k: "k < n" "n \<le> N" "N \<le> 2 ^ 31" and len: "p + 4 * n \<le> flen f"
    and b: "\<And>j. j < 4 * n \<Longrightarrow> bytes f (p + j) = image_byte M a' j"
  shows "getcell (swapped h a N (read_cells (little h) f p a n m)) (a + 2 * of_nat k) = getcell M (a' + 2 * of_nat k)"
proof -
  have "bytes f (p + 4 * k + j) = file_byte (getcell M (a' + 2 * of_nat k)) j" if "j < 4" for j
  proof -
    have "4 * k + j < 4 * n" using k(1) that by linarith
    then have "bytes f (p + (4 * k + j)) = image_byte M a' (4 * k + j)" by (rule b)
    moreover have "(4 * k + j) div 4 = k" "(4 * k + j) mod 4 = j" using that by simp_all
    ultimately show ?thesis by (simp add: image_byte_def add.assoc)
  qed
  then have "to_file (little h) (host_cell (little h) (\<lambda>j. bytes f (p + 4 * k + j))) = getcell M (a' + 2 * of_nat k)"
    by (simp add: to_file_host_cell)
  moreover have "\<exists>i<N. a + 2 * of_nat k = a + 2 * (of_nat i :: 32 word)" using k by (intro exI [of _ k]) simp
  moreover have "n \<le> 2 ^ 31" using k by linarith
  ultimately show ?thesis
    by (simp only: swapped_cell [OF k(3)] if_True read_cells_cell [OF k(1) _ len])
qed

lemma read_swapped_other:
  assumes "\<And>k. k < n \<Longrightarrow> b \<noteq> a + 2 * of_nat k" "n \<le> 2 ^ 31"
  shows "getcell (swapped h a n (read_cells (little h) f p a n m)) b = getcell m b"
  using assms by (auto simp: swapped_cell read_cells_other)

lemma low_page_bits:
  fixes v :: "32 word"
  assumes "v < 2 ^ 23" "bit v k"
  shows "k < 23"
proof (rule ccontr)
  assume "\<not> k < 23"
  have "uint v < 2 ^ 23" using assms(1) by (simp add: word_less_def)
  then have "take_bit 23 (uint v) = uint v" by (simp add: take_bit_int_eq_self_iff)
  then have "\<not> bit (uint v) k" using \<open>\<not> k < 23\<close> by (metis bit_take_bit_iff)
  then show False using assms(2) by (metis bit_imp_le_length bit_uint_iff)
qed

lemma lisp_page_address:
  fixes v :: "32 word"
  assumes "v < 2 ^ 23"
  shows "drop_bit 1 (v * 512) = v * 256"
proof -
  have "drop_bit 1 (push_bit 9 v) = push_bit 8 v"
    by (rule bit_word_eqI) (auto simp: bit_drop_bit_eq bit_push_bit_iff dest: low_page_bits [OF assms])
  then show ?thesis by (simp add: push_bit_eq_mult mult.commute)
qed

lemma low_page_ok: "v < 2 ^ 23 \<Longrightarrow> page_ok v"
proof -
  assume v: "v < 2 ^ 23"
  have "drop_bit 16 v \<noteq> 0xFFFF"
  proof
    assume "drop_bit 16 v = 0xFFFF"
    then have "bit (drop_bit 16 v) 15 \<longleftrightarrow> bit (0xFFFF :: 32 word) 15" by simp
    then have "bit v 31" by (simp add: bit_drop_bit_eq)
    then show False using low_page_bits [OF v] by fastforce
  qed
  then show ?thesis by (simp add: page_ok_def)
qed

text \<open>The memory that the first \<open>i\<close> file pages make.\<close>

definition loaded :: "memory \<Rightarrow> nat \<Rightarrow> memory \<Rightarrow> bool" where
  "loaded m i w \<longleftrightarrow> (\<forall>a. getcell w a =
     (if \<exists>q<i. page_ok (GETFPTOVP m q) \<and> (\<exists>j<128. a = GETFPTOVP m q * 256 + 2 * of_nat j) then getcell m a else 0))"

lemma loaded_step:
  assumes L: "loaded m i w" and ok: "page_ok (GETFPTOVP m i)"
    and new: "\<And>j. j < 128 \<Longrightarrow> getcell w' (GETFPTOVP m i * 256 + 2 * of_nat j) = getcell m (GETFPTOVP m i * 256 + 2 * of_nat j)"
    and old: "\<And>b. (\<And>j. j < 128 \<Longrightarrow> b \<noteq> GETFPTOVP m i * 256 + 2 * of_nat j) \<Longrightarrow> getcell w' b = getcell w b"
  shows "loaded m (Suc i) w'"
  unfolding loaded_def
proof
  fix a
  show "getcell w' a = (if \<exists>q<Suc i. page_ok (GETFPTOVP m q) \<and> (\<exists>j<128. a = GETFPTOVP m q * 256 + 2 * of_nat j)
      then getcell m a else 0)"
  proof (cases "\<exists>j<128. a = GETFPTOVP m i * 256 + 2 * of_nat j")
    case True
    then show ?thesis using new ok by (auto simp: less_Suc_eq)
  next
    case False
    then have "getcell w' a = getcell w a" using old by blast
    moreover have "(\<exists>q<Suc i. page_ok (GETFPTOVP m q) \<and> (\<exists>j<128. a = GETFPTOVP m q * 256 + 2 * of_nat j)) \<longleftrightarrow>
      (\<exists>q<i. page_ok (GETFPTOVP m q) \<and> (\<exists>j<128. a = GETFPTOVP m q * 256 + 2 * of_nat j))"
      using False by (auto simp: less_Suc_eq)
    ultimately show ?thesis using L by (simp add: loaded_def)
  qed
qed

lemma loaded_hole: "loaded m i w \<Longrightarrow> \<not> page_ok (GETFPTOVP m i) \<Longrightarrow> loaded m (Suc i) w"
  by (auto simp: loaded_def less_Suc_eq)

lemma must_succeeds: "(\<And>k. outcome h k = Success) \<Longrightarrow> must h msg f s =
  (case f (s\<lparr>calls := Suc (calls s)\<rparr>) of (Inl e, s2) \<Rightarrow> (Inl msg, s2) | (Inr x, s2) \<Rightarrow> (Inr x, s2))"
  by (simp add: must_def Let_def)

lemma load_page_done:
  assumes H: "\<And>k. outcome h k = Success" and F: "files s name = Some f" "flen f = 512 * n" "complete_image m n f"
    and i: "i < n" and table: "getcell fptovp (2 * of_nat i) = GETFPTOVP m i"
    and low: "page_ok (GETFPTOVP m i) \<Longrightarrow> GETFPTOVP m i < 2 ^ 23"
    and cfp: "cfp = -1 \<or> cfp = int (pos s)" and L: "loaded m i (world s)"
  shows "\<exists>cfp' s'. load_page h name fptovp i cfp s = (Inr cfp', s') \<and> files s' = files s \<and>
    (cfp' = -1 \<or> cfp' = int (pos s')) \<and> loaded m (Suc i) (world s')"
proof (cases "page_ok (GETFPTOVP m i)")
  case False
  then show ?thesis using L cfp by (simp add: load_page_def table loaded_hole)
next
  case True
  let ?v = "GETFPTOVP m i" and ?p = "i * 512"
  have a: "drop_bit 1 (?v * 512) = ?v * 256" by (rule lisp_page_address) (rule low [OF True])
  define w where "w = swapped h (?v * 256) 128 (read_cells (little h) f ?p (?v * 256) 128 (world s))"
  have len: "?p + 4 * 128 \<le> flen f" using i F(2) by simp
  have b: "bytes f (?p + j) = image_byte m (?v * 256) j" if "j < 4 * 128" for j
    using F(3) True i that by (simp add: complete_image_def image_upto_def mult.commute)
  have "loaded m (Suc i) w" unfolding w_def
    by (rule loaded_step [OF L True read_swapped [OF _ _ _ len b]])
      (use read_swapped_other [of 128] in auto)
  moreover have "\<exists>s'. load_page h name fptovp i cfp s = (Inr (int ?p + 512), s') \<and> files s' = files s \<and>
      pos s' = ?p + 512 \<and> world s' = w"
  proof -
    define s1 where "s1 = (if int ?p \<noteq> cfp then s\<lparr>calls := Suc (calls s), pos := ?p\<rparr> else s)"
    have s1: "files s1 = files s" "world s1 = world s" "pos s1 = ?p" using cfp by (auto simp: s1_def)
    have "(if int (i * BYTESPER_PAGE) \<noteq> cfp then must h ''can't seek sysout file'' (sys_lseek (i * BYTESPER_PAGE)) else skip) s
        = (Inr (), s1)"
      by (simp add: s1_def must_succeeds [OF H] sys_lseek_def skip_def BYTESPER_PAGE_def)
    then have "load_page h name fptovp i cfp s =
      iob (must h ''can't read sysout file'' (sys_read h name (?v * 256) CELLSPER_PAGE (world s1))) (\<lambda>m.
        iob (on_world (\<lambda>_. swapped h (?v * 256) CELLSPER_PAGE m)) (\<lambda>_ s2.
          (Inr (int (i * BYTESPER_PAGE) + int BYTESPER_PAGE), s2))) s1"
      using True by (simp only: load_page_def table a Let_def if_True iob_simps(2))
    then show ?thesis
      using s1 F(1) len by (auto simp: iob_def must_succeeds [OF H] sys_read_def on_world_def w_def
        BYTESPER_PAGE_def CELLSPER_PAGE_def)
  qed
  ultimately show ?thesis by (metis of_nat_add of_nat_numeral)
qed

lemma load_pages_done:
  assumes H: "\<And>k. outcome h k = Success" and F: "flen f = 512 * n" "complete_image m n f"
    and table: "\<And>i. i < n \<Longrightarrow> getcell fptovp (2 * of_nat i) = GETFPTOVP m i"
    and low: "\<And>i. i < n \<Longrightarrow> page_ok (GETFPTOVP m i) \<Longrightarrow> GETFPTOVP m i < 2 ^ 23"
  shows "files s name = Some f \<Longrightarrow> cfp = -1 \<or> cfp = int (pos s) \<Longrightarrow> loaded m i (world s) \<Longrightarrow> i \<le> n \<Longrightarrow>
    \<exists>s'. load_pages h name fptovp [i..<n] cfp s = (Inr (), s') \<and> files s' = files s \<and> loaded m n (world s')"
proof (induction "n - i" arbitrary: i cfp s)
  case 0
  then show ?case by (simp add: skip_def)
next
  case (Suc d)
  then have i: "i < n" by simp
  from load_page_done [OF H Suc.prems(1) F i table [OF i] low [OF i] Suc.prems(2,3)]
  obtain cfp' s1 where 1: "load_page h name fptovp i cfp s = (Inr cfp', s1)" "files s1 = files s"
    "cfp' = -1 \<or> cfp' = int (pos s1)" "loaded m (Suc i) (world s1)" by blast
  have "\<exists>s'. load_pages h name fptovp [Suc i..<n] cfp' s1 = (Inr (), s') \<and> files s' = files s1 \<and> loaded m n (world s')"
    using Suc.hyps Suc.prems(1) 1 i by (intro Suc.hyps(1)) simp_all
  then show ?case using 1 i by (simp add: upt_conv_Cons iob_def)
qed

section \<open>Saving, then loading\<close>

text \<open>
  The table as the emulator keeps it: the last page of the file is in use, the pages are in the address
  space, and the pages of the table itself are in the file from page \<open>fptovpstart - 1\<close> on.
\<close>

definition table_sound :: "memory \<Rightarrow> nat \<Rightarrow> bool" where
  "table_sound m n \<longleftrightarrow> table_starts m n \<and> page_ok (GETFPTOVP m (n - 1)) \<and>
     (\<forall>i<n. page_ok (GETFPTOVP m i) \<longrightarrow> GETFPTOVP m i < 2 ^ 23) \<and>
     0 < if_fptovpstart m IFPAGE_OFFSET \<and>
     (\<forall>q \<le> n div 128. unat (if_fptovpstart m IFPAGE_OFFSET) - 1 + q < n \<and>
        GETFPTOVP m (unat (if_fptovpstart m IFPAGE_OFFSET) - 1 + q) = 0x200 + of_nat q)"

text \<open>The interface page of an image the loader takes.\<close>

definition ifpage_sound :: "memory \<Rightarrow> nat \<Rightarrow> bool" where
  "ifpage_sound m n \<longleftrightarrow> ifp_key m IFPAGE_OFFSET = IFPAGE_KEYVAL \<and>
     LVERSION \<le> unat (if_lversion m IFPAGE_OFFSET) \<and> unat (if_minbversion m IFPAGE_OFFSET) \<le> MINBVERSION \<and>
     unat (if_nactivepages m IFPAGE_OFFSET) = n \<and>
     (if_storagefullstate m IFPAGE_OFFSET \<in> {SFS_ARRAYSWITCHED, SFS_FULLYSWITCHED} \<longrightarrow>
        if_process_size m IFPAGE_OFFSET \<noteq> 0)"

lemma image_page: "complete_image m n f \<Longrightarrow> q < n \<Longrightarrow> page_ok (GETFPTOVP m q) \<Longrightarrow> k < 512 \<Longrightarrow>
  bytes f (512 * q + k) = image_byte m (GETFPTOVP m q * 256) k"
  by (simp add: complete_image_def image_upto_def)

lemma image_length: "complete_image m n f \<Longrightarrow> 0 < n \<Longrightarrow> page_ok (GETFPTOVP m (n - 1)) \<Longrightarrow> flen f = 512 * n"
  unfolding complete_image_def image_upto_def by (cases n) (auto simp: le_antisym)

text \<open>The table in the file, read from its second cell on.\<close>

lemma table_in_image:
  assumes I: "complete_image m n f" and q0: "\<And>q. q \<le> n div 128 \<Longrightarrow> q0 + q < n \<and> GETFPTOVP m (q0 + q) = 0x200 + of_nat q"
    and j: "j < 4 * n" and n: "n \<le> 2 ^ 20"
  shows "bytes f (512 * q0 + 4 + j) = image_byte m (FPTOVP_OFFSET + 2) j"
proof -
  define q where "q = (4 + j) div 512"
  define k where "k = (4 + j) mod 512"
  have jk: "4 + j = 512 * q + k" "k < 512" by (simp_all add: q_def k_def)
  have le: "q \<le> n div 128"
  proof -
    have "4 + j \<le> 4 * n + 3" using j by linarith
    then have "(4 + j) div 512 \<le> (4 * n + 3) div 512" by (rule div_le_mono)
    also have "(4 * n + 3) div 512 = n div 128" by linarith
    finally show ?thesis by (simp add: q_def)
  qed
  then have q: "q0 + q < n" "GETFPTOVP m (q0 + q) = 0x200 + of_nat q" using q0 by simp_all
  have "q < 2 ^ 14" using le n by simp
  then have "unat (of_nat (0x200 + q) :: 32 word) = 0x200 + q"
    by (simp add: unsigned_of_nat take_bit_nat_eq_self del: of_nat_add)
  then have "of_nat (0x200 + q) < (2 ^ 23 :: 32 word)" using \<open>q < 2 ^ 14\<close> by (simp only: word_less_nat_alt) simp
  then have ok: "page_ok (0x200 + of_nat q)" by (intro low_page_ok) simp
  have "bytes f (512 * (q0 + q) + k) = image_byte m (GETFPTOVP m (q0 + q) * 256) k"
    using I q ok jk(2) by (intro image_page) simp_all
  moreover have "512 * (q0 + q) + k = 512 * q0 + 4 + j" using jk(1) by simp
  moreover have "image_byte m (GETFPTOVP m (q0 + q) * 256) k = image_byte m (FPTOVP_OFFSET + 2) j"
  proof -
    have "image_byte m ((0x200 + of_nat q) * 256) k = image_byte m (0x200 * 256) (512 * q + k)"
      by (rule image_byte_page)
    also have "\<dots> = image_byte m (FPTOVP_OFFSET + 2) j"
    proof -
      have "(4 + j) div 4 = Suc (j div 4)" by simp
      then show ?thesis by (simp add: image_byte_def FPTOVP_OFFSET_def flip: jk(1))
    qed
    finally show ?thesis using q by simp
  qed
  ultimately show ?thesis by metis
qed

text \<open>When every system call succeeds, so does saving.\<close>

definition succeeds :: "('e, nat + unit) proc \<Rightarrow> bool" where
  "succeeds m \<longleftrightarrow> (\<forall>s. \<exists>s'. m s = (Inr (Inr ()), s'))"
definition completes :: "('e, 'a) proc \<Rightarrow> bool" where
  "completes m \<longleftrightarrow> (\<forall>s. \<exists>x s'. m s = (Inr x, s'))"

lemma completes_iob: "completes m \<Longrightarrow> (\<And>x. completes (f x)) \<Longrightarrow> completes (iob m f)"
  unfolding completes_def iob_def by (metis (no_types, lifting) case_prod_conv sum.case(2))

lemma completes_or_give: "succeeds m \<Longrightarrow> completes (or_give code m)"
  unfolding completes_def succeeds_def or_give_def iob_def skip_def
  by (metis (no_types, lifting) case_prod_conv sum.case(2))

lemma calls_succeed:
  assumes "\<And>k. outcome h k = Success"
  shows "succeeds (syscall h (sys_lseek p) c)" "succeeds (syscall h sys_close c)"
    "succeeds (syscall h (sys_create x) c)" "succeeds (syscall h (sys_write h x a n) c)"
  by (auto simp: succeeds_def syscall_def assms sys_lseek_def sys_close_def sys_create_def sys_write_def Let_def
    split: option.split)

lemma write_chunks_succeeds:
  assumes "\<And>k. outcome h k = Success"
  shows "\<exists>s'. write_chunks h name ba pc s = (Inr (Inr ()), s')"
proof (induction pc arbitrary: ba s rule: less_induct)
  case (less pc)
  show ?case
  proof (cases "maxpages h < pc \<and> 0 < maxpages h")
    case False
    then have "write_chunks h name ba pc s = syscall h (sys_write h name ba (pc * BYTESPER_PAGE)) FILETIMEOUT s"
      by (subst write_chunks.simps) (simp only: if_False)
    then show ?thesis using calls_succeed(4) [of h name ba "pc * BYTESPER_PAGE", OF assms] by (simp add: succeeds_def)
  next
    case True
    let ?w = "or_give write_error (syscall h (sys_write h name ba (maxpages h * BYTESPER_PAGE)) FILETIMEOUT)"
    obtain u s1 where "?w s = (Inr u, s1)"
      using completes_or_give calls_succeed(4) [OF assms] unfolding completes_def by blast
    then have "write_chunks h name ba pc s = write_chunks h name (ba + of_nat (maxpages h) * 256) (pc - maxpages h) s1"
      using True by (subst write_chunks.simps) (simp add: iob_def)
    then show ?thesis using less [of "pc - maxpages h"] True by simp
  qed
qed

lemma write_run_completes:
  assumes "\<And>k. outcome h k = Success"
  shows "completes (write_run h name a n)"
  unfolding completes_def
proof
  fix s :: sys
  let ?s = "s\<lparr>world := swapped h a (n * 128) (world s)\<rparr>"
  obtain s1 where "write_chunks h name a n ?s = (Inr (Inr ()), s1)" using write_chunks_succeeds [of h, OF assms] by blast
  then show "\<exists>x s'. write_run h name a n s = (Inr x, s')"
    by (simp add: write_run_def iob_def swap_pages_is skip_def)
qed

lemma save_run_completes:
  assumes "\<And>k. outcome h k = Success"
  shows "\<exists>j s'. save_run h name n i s = (Inr j, s')"
proof (cases "page_ok (GETFPTOVP (world s) i)")
  case True
  let ?v = "GETFPTOVP (world s) i"
  obtain u s1 where 1: "or_give (\<lambda>_. FILECANNOTSEEK) (syscall h (sys_lseek (i * BYTESPER_PAGE)) FILETIMEOUT) s = (Inr u, s1)"
    using completes_or_give calls_succeed(1) [OF assms] unfolding completes_def by blast
  obtain x s2 where 2: "write_run h name (?v * 256) (contig_pages (world s1) n i ?v) s1 = (Inr x, s2)"
    using write_run_completes [of h, OF assms] unfolding completes_def by blast
  show ?thesis using True 1 2 by (simp add: save_run_def iob_def Let_def)
qed (simp add: save_run_def)

lemma save_pages_completes:
  assumes "\<And>k. outcome h k = Success"
  shows "\<exists>s'. save_pages h name n i s = (Inr (), s')"
proof (induction "n - i" arbitrary: i s rule: less_induct)
  case less
  show ?case
  proof (cases "i < n")
    case True
    obtain j s1 where r: "save_run h name n i s = (Inr j, s1)" using save_run_completes [of h, OF assms] by blast
    then have "i < j" using save_run_advances True by blast
    then show ?thesis using True r less [of j s1] by (subst save_pages.simps) simp
  qed (simp add: save_pages.simps)
qed

lemma save_ifpage_completes:
  assumes "\<And>k. outcome h k = Success"
  shows "completes (save_ifpage h name)"
  unfolding save_ifpage_def
proof (rule completes_iob)
  show "completes (or_give (\<lambda>_. FILECANNOTSEEK) (syscall h (sys_lseek FP_IFPAGE) FILETIMEOUT))"
    by (intro completes_or_give calls_succeed [of h, OF assms])
  show "completes (iob (swap_pages h IFPAGE_OFFSET 1) (\<lambda>_. iob (syscall h (sys_write h name IFPAGE_OFFSET BYTESPER_PAGE) FILETIMEOUT)
    (\<lambda>rsize. iob (swap_pages h IFPAGE_OFFSET 1) (\<lambda>_. case rsize of Inl e \<Rightarrow> give (write_error e) | Inr x \<Rightarrow> skip))))"
    by (auto simp: completes_def iob_def swap_pages_is syscall_def assms sys_write_def skip_def Let_def split: option.split)
qed

lemma write_temp_completes:
  assumes "\<And>k. outcome h k = Success"
  shows "\<exists>s'. write_temp h name n s = (Inr (), s')"
proof -
  have "completes (confirm_protection h name)"
    by (auto simp: completes_def confirm_protection_def iob_def syscall_def assms sys_open_def sys_close_def skip_def
      give_def Let_def)
  moreover have "completes (save_pages h x n 0)" for x
    using save_pages_completes [of h, OF assms] unfolding completes_def by blast
  moreover have "completes (on_world g)" for g by (simp add: completes_def on_world_def)
  ultimately have "completes (write_temp h name n)"
    unfolding write_temp_def
    by (intro completes_iob completes_or_give calls_succeed [of h, OF assms] save_ifpage_completes [of h, OF assms])
  then show ?thesis unfolding completes_def by simp
qed

lemma replace_succeeds:
  assumes "\<And>k. outcome h k = Success" and t: "files s (temp_name name) = Some f"
  shows "\<exists>s'. replace_file h name s = (Inr (), s') \<and> files s' name = Some f"
  using t temp_name_differs
  by (cases "files s name") (auto simp: replace_file_def iob_def or_give_def syscall_def assms(1) sys_unlink_def
    sys_rename_def skip_def Let_def)

lemma vmem_save_completes:
  assumes H: "\<And>k. outcome h k = Success" and "full_writes h"
    and n: "n = nat (sint (if_nactivepages (world s) IFPAGE_OFFSET))" and ok: "table_starts (set_header h (world s)) n"
  shows "\<exists>s' f. vmem_save h name s = (COMPLETESYSOUT, s') \<and> files s' name = Some f \<and>
    complete_image (set_header h (world s)) n f"
proof -
  obtain s1 where w: "write_temp h name n s = (Inr (), s1)" using write_temp_completes [of h, OF H] by blast
  from write_temp_done [OF w assms(2) ok] obtain f
    where f: "files s1 (temp_name name) = Some f" "complete_image (set_header h (world s)) n f" by auto
  from replace_succeeds [of h, OF H f(1)] obtain s2
    where "replace_file h name s1 = (Inr (), s2)" "files s2 name = Some f" by blast
  then show ?thesis using w f(2) n by (auto simp: vmem_save_def vmem_save_split iob_def)
qed

text \<open>The interface page of the file.\<close>

lemma table_starts_page_ok:
  assumes "table_starts m n"
  shows "page_ok (GETFPTOVP m 1)"
proof -
  let ?v = "GETFPTOVP m 1"
  have "push_bit 8 ?v = 0x140000"
    using assms by (simp add: table_starts_def IFPAGE_OFFSET_def push_bit_eq_mult mult.commute)
  then have "bit (push_bit 8 ?v) 24 \<longleftrightarrow> bit (0x140000 :: 32 word) 24" by simp
  then have v: "\<not> bit ?v 16" by (simp add: bit_push_bit_iff)
  have "drop_bit 16 ?v \<noteq> 0xFFFF"
  proof
    assume "drop_bit 16 ?v = 0xFFFF"
    then have "bit (drop_bit 16 ?v) 0 \<longleftrightarrow> bit (0xFFFF :: 32 word) 0" by simp
    then show False using v by (simp add: bit_drop_bit_eq)
  qed
  then show ?thesis by (simp add: page_ok_def)
qed

lemma ifpage_of_image:
  fixes m junk :: memory and n :: nat and f :: disk_file and h :: host
  defines "p \<equiv> swapped h 0 44 (read_cells (little h) f 512 0 44 junk)"
  assumes I: "complete_image m n f" and ok: "table_starts m n" and len: "flen f = 512 * n"
  shows "if_lversion p 0 = if_lversion m IFPAGE_OFFSET" "if_minbversion p 0 = if_minbversion m IFPAGE_OFFSET"
    "ifp_key p 0 = ifp_key m IFPAGE_OFFSET" "if_storagefullstate p 0 = if_storagefullstate m IFPAGE_OFFSET"
    "if_fptovpstart p 0 = if_fptovpstart m IFPAGE_OFFSET" "if_nactivepages p 0 = if_nactivepages m IFPAGE_OFFSET"
    "if_process_size p 0 = if_process_size m IFPAGE_OFFSET"
proof -
  have n: "1 < n" "GETFPTOVP m 1 * 256 = IFPAGE_OFFSET" using ok by (simp_all add: table_starts_def)
  note ok1 = table_starts_page_ok [OF ok]
  have c: "getcell p (0 + 2 * of_nat k) = getcell m (IFPAGE_OFFSET + 2 * of_nat k)" if "k < 44" for k
    unfolding p_def using that
  proof (rule read_swapped)
    show "512 + 4 * 44 \<le> flen f" using n len by simp
    show "bytes f (512 + j) = image_byte m IFPAGE_OFFSET j" if "j < 4 * 44" for j
      using image_page [OF I n(1) ok1, of j] n(2) that by simp
  qed simp_all
  have w: "getword p a = getword m (IFPAGE_OFFSET + a)" if "a \<in> {8, 10, 15, 46, 59}" for a
    using that c [of 4] c [of 5] c [of 7] c [of 23] c [of 29]
    by (auto simp: getword_def cell_of_def getcell_def IFPAGE_OFFSET_def)
  show "if_lversion p 0 = if_lversion m IFPAGE_OFFSET" "if_minbversion p 0 = if_minbversion m IFPAGE_OFFSET"
    "ifp_key p 0 = ifp_key m IFPAGE_OFFSET" "if_storagefullstate p 0 = if_storagefullstate m IFPAGE_OFFSET"
    "if_fptovpstart p 0 = if_fptovpstart m IFPAGE_OFFSET" "if_nactivepages p 0 = if_nactivepages m IFPAGE_OFFSET"
    "if_process_size p 0 = if_process_size m IFPAGE_OFFSET"
    using w c [of 41] c [of 43] 
    by (simp_all add: if_lversion_def if_minbversion_def ifp_key_def if_storagefullstate_def if_fptovpstart_def
      if_nactivepages_def if_process_size_def)
qed

text \<open>The steps of the loader when every call succeeds.\<close>

lemma load_steps:
  assumes "\<And>k. outcome h k = Success"
  shows "b \<Longrightarrow> iob (check b msg) g s = g () s"
    "files s x = Some f \<Longrightarrow> iob (must h msg (sys_open x)) g s = g () (s\<lparr>calls := Suc (calls s), pos := 0\<rparr>)"
    "iob (must h msg (sys_lseek p)) g s = g () (s\<lparr>calls := Suc (calls s), pos := p\<rparr>)"
    "files s x = Some f \<Longrightarrow> iob (must h msg (sys_read h x a n m)) g2 s = g2 (read_cells (little h) f (pos s) a n m)
       (s\<lparr>calls := Suc (calls s), pos := pos s + min (4 * n) (flen f - pos s)\<rparr>)"
    "files s x = Some f \<Longrightarrow> iob (must h msg (sys_fstat x)) g' s = g' (flen f) (s\<lparr>calls := Suc (calls s)\<rparr>)"
    "iob (must h msg (\<lambda>s. (Inr (), s\<lparr>world := w\<rparr>))) g s = g () (s\<lparr>calls := Suc (calls s), world := w\<rparr>)"
  by (simp_all add: iob_def check_def skip_def must_succeeds assms sys_open_def sys_lseek_def sys_read_def sys_fstat_def)

text \<open>
  C40. When every system call succeeds and \<open>write\<close> takes all bytes, saving and loading the memory image
  gives the memory back: every cell of a page that the file-page table names has its value, with the
  header set, and all others are zero. The host may be of either byte order.
\<close>

theorem save_load_roundtrip:
  assumes H: "\<And>k. outcome h k = Success" and W: "full_writes h"
    and n: "n = nat (sint (if_nactivepages (world s) IFPAGE_OFFSET))" and m: "m = set_header h (world s)"
    and T: "table_sound m n" and P: "ifpage_sound m n"
  shows "\<exists>s1 R s2. vmem_save h name s = (COMPLETESYSOUT, s1) \<and>
    sysout_loader h junk name 0 s1 = (Inr R, s2) \<and>
    (\<forall>a. getcell (world s2) a =
      (if \<exists>q<n. page_ok (GETFPTOVP m q) \<and> (\<exists>j<128. a = GETFPTOVP m q * 256 + 2 * of_nat j) then getcell m a else 0))"
proof -
  have ok: "table_starts m n" "1 < n" "n \<le> 2 ^ 20" using T by (simp_all add: table_sound_def table_starts_def)
  then obtain s1 f where save: "vmem_save h name s = (COMPLETESYSOUT, s1)" and f: "files s1 name = Some f"
    and I: "complete_image m n f"
    using vmem_save_completes [of h n s name, OF H W n] m by auto
  have len: "flen f = 512 * n" using T I ok by (intro image_length [of m]) (simp_all add: table_sound_def)
  let ?q0 = "unat (if_fptovpstart m IFPAGE_OFFSET) - 1"
  have q0: "?q0 + q < n \<and> GETFPTOVP m (?q0 + q) = 0x200 + of_nat q" if "q \<le> n div 128" for q
    using T that by (simp add: table_sound_def)
  define table where "table = swapped h 0 (n + 1) (read_cells (little h) f (512 * ?q0 + 4) 0 n junk)"
  have inside: "512 * ?q0 + 4 + 4 * n \<le> flen f"
  proof -
    have "?q0 + n div 128 < n" using q0 by simp
    moreover have "n = 128 * (n div 128) + n mod 128" "n mod 128 < 128" by simp_all
    ultimately show ?thesis using len by linarith
  qed
  have table: "getcell table (2 * of_nat i) = GETFPTOVP m i" if "i < n" for i
  proof -
    have "getcell table (0 + 2 * of_nat i) = getcell m (FPTOVP_OFFSET + 2 + 2 * of_nat i)"
      unfolding table_def using that
    proof (rule read_swapped)
      show "512 * ?q0 + 4 + 4 * n \<le> flen f" by (rule inside)
      show "bytes f (512 * ?q0 + 4 + j) = image_byte m (FPTOVP_OFFSET + 2) j" if "j < 4 * n" for j
        by (rule table_in_image [OF I q0 that ok(3)])
    qed (use ok in simp_all)
    then show ?thesis by (simp add: GETFPTOVP_def)
  qed
  have start: "0 < unat (if_fptovpstart m IFPAGE_OFFSET)" using T by (simp add: table_sound_def word_less_nat_alt)
  have low: "GETFPTOVP m i < 2 ^ 23" if "i < n" "page_ok (GETFPTOVP m i)" for i
    using T that by (simp add: table_sound_def)
  let ?p = "swapped h 0 44 (read_cells (little h) f 512 0 44 junk)"
  note page = ifpage_of_image [OF I ok(1) len]
  obtain R where size: "\<And>t. choose_size ?p 0 t = (Inr R, t)"
    using P by (cases "if_storagefullstate m IFPAGE_OFFSET \<in> {SFS_ARRAYSWITCHED, SFS_FULLYSWITCHED}")
      (auto simp: choose_size_def page ifpage_sound_def Let_def unat_eq_0)
  define S where "S = s1\<lparr>world := (\<lambda>_. 0), calls := Suc (Suc (Suc (Suc (Suc (Suc (Suc (calls s1))))))),
    pos := 512 * ?q0 + 4 + 4 * n\<rparr>"
  have nactive: "unat (if_nactivepages m IFPAGE_OFFSET) = n" using P by (simp add: ifpage_sound_def)
  have blocks: "flen f div 512 * 2 mod 4294967296 = 2 * n" using len ok(3) by simp
  have offset: "127 \<le> 128 * uint (if_fptovpstart m IFPAGE_OFFSET)"
      "nat (uint (if_fptovpstart m IFPAGE_OFFSET) * 512 - 508) = 512 * ?q0 + 4"
    using start by (simp_all flip: nat_uint_eq)
  have whole: "min (4 * n) (flen f - (512 * ?q0 + 4)) = 4 * n" using inside by linarith
  have "sysout_loader h junk name 0 s1 = iob (load_pages h name table [0..<n] (-1)) (\<lambda>_ s. (Inr R, s)) S"
    using P
    by (simp add: sysout_loader_def load_steps [OF H] iob_simps(2) [OF size] f page IFPAGE_ADDRESS_def BYTESPER_PAGE_def
      ifpage_sound_def nactive Let_def blocks offset S_def table_def whole [unfolded One_nat_def])
  moreover obtain s2 where "load_pages h name table [0..<n] (-1) S = (Inr (), s2)" "loaded m n (world s2)"
    using load_pages_done [of h f n m table S name "-1" 0, OF H len I table low]
    by (auto simp: S_def f loaded_def getcell_def)
  ultimately show ?thesis using save unfolding loaded_def by (auto simp: iob_def)
qed

section \<open>A small image\<close>

text \<open>Three file pages: a hole, the interface page and the page of the table.\<close>

definition image_host :: host where
  "image_host = \<lparr>outcome = (\<lambda>_. Success), accepts = (\<lambda>_ n. n), little = True, maxpages = 1, sfs_cell = 0x60000\<rparr>"
definition image_sys :: sys where
  "image_sys = \<lparr>world = (\<lambda>_. 0)(0x20002 := 0xFFFFFFFF, 0x20004 := 0x1400, 0x20006 := 0x200,
     0x140008 := 0x88C20000, 0x14000A := 0x88C20000, 0x14000E := 0x15E3, 0x14003A := 3, 0x140052 := 3),
     files = Map.empty, pos = 0, calls = 0\<rparr>"

lemma image_header: "set_header image_host (world image_sys) = (\<lambda>_. 0)(0x20002 := 0xFFFFFFFF, 0x20004 := 0x1400,
    0x20006 := 0x200, 0x140008 := 0x88C20000, 0x14000A := 0x88C20000, 0x14000C := 3, 0x14000E := 0x15E3,
    0x14003A := 3, 0x140052 := 3)"
  by (rule ext) (simp add: set_header_def image_host_def image_sys_def set_machinetype_def
    set_if_storagefullstate_def IFPAGE_OFFSET_def MACHINETYPE_MAIKO_def SFS_NOTSWITCHABLE_def putword_def cell_of_def
    join_words_def hi_word_def lo_word_def getcell_def Let_def)

lemma image_table: "GETFPTOVP (set_header image_host (world image_sys)) 0 = 0xFFFFFFFF"
    "GETFPTOVP (set_header image_host (world image_sys)) 1 = 0x1400"
    "GETFPTOVP (set_header image_host (world image_sys)) 2 = 0x200"
  by (simp_all add: image_header GETFPTOVP_def getcell_def FPTOVP_OFFSET_def)

lemmas image_fields = image_header getcell_def getword_def cell_of_def hi_word_def lo_word_def IFPAGE_OFFSET_def

lemma image_pages: "3 = nat (sint (if_nactivepages (world image_sys) IFPAGE_OFFSET))"
  by (simp add: if_nactivepages_def image_sys_def image_fields)

lemma less_3: "i < 3 \<longleftrightarrow> i = 0 \<or> i = 1 \<or> i = (2 :: nat)" by auto

lemma image_table_sound: "table_sound (set_header image_host (world image_sys)) 3"
proof -
  have "if_fptovpstart (set_header image_host (world image_sys)) IFPAGE_OFFSET = 3"
    by (simp add: if_fptovpstart_def image_fields)
  moreover have "(\<forall>i<3. P i) \<longleftrightarrow> P 0 \<and> P 1 \<and> P (2 :: nat)" for P by (auto simp: less_3)
  moreover have "\<not> page_ok 0xFFFFFFFF" "page_ok 0x200" by (simp_all add: page_ok_def)
  ultimately show ?thesis
    by (simp add: table_sound_def table_starts_def image_table image_table [unfolded One_nat_def] IFPAGE_OFFSET_def)
qed

lemma image_ifpage_sound: "ifpage_sound (set_header image_host (world image_sys)) 3"
  by (simp add: ifpage_sound_def ifp_key_def if_lversion_def if_minbversion_def if_nactivepages_def
    if_storagefullstate_def if_process_size_def image_fields IFPAGE_KEYVAL_def LVERSION_def MINBVERSION_def
    SFS_ARRAYSWITCHED_def SFS_FULLYSWITCHED_def)

lemma image_full_writes: "full_writes image_host"
  by (simp add: full_writes_def image_host_def)

theorem save_load_roundtrip_witness:
  "\<exists>s1 R s2. vmem_save image_host ''lisp.virtualmem'' image_sys = (COMPLETESYSOUT, s1) \<and>
    sysout_loader image_host (\<lambda>_. 7) ''lisp.virtualmem'' 0 s1 = (Inr R, s2) \<and> getcell (world s2) 0x20004 = 0x1400"
proof -
  have "outcome image_host k = Success" for k by (simp add: image_host_def)
  from save_load_roundtrip [where name = "''lisp.virtualmem''" and junk = "\<lambda>_. 7", OF this image_full_writes
      image_pages refl image_table_sound image_ifpage_sound]
  obtain s1 R s2 where s: "vmem_save image_host ''lisp.virtualmem'' image_sys = (COMPLETESYSOUT, s1)"
    "sysout_loader image_host (\<lambda>_. 7) ''lisp.virtualmem'' 0 s1 = (Inr R, s2)"
    and w: "\<And>a. getcell (world s2) a = (if \<exists>q<3. page_ok (GETFPTOVP (set_header image_host (world image_sys)) q) \<and>
        (\<exists>j<128. a = GETFPTOVP (set_header image_host (world image_sys)) q * 256 + 2 * of_nat j)
      then getcell (set_header image_host (world image_sys)) a else 0)" by blast
  have "page_ok (GETFPTOVP (set_header image_host (world image_sys)) 2)" by (simp add: image_table page_ok_def)
  moreover have "0x20004 = GETFPTOVP (set_header image_host (world image_sys)) 2 * 256 + 2 * of_nat (2 :: nat)"
    by (simp add: image_table)
  moreover have "(2 :: nat) < 128" "(2 :: nat) < 3" by simp_all
  ultimately have "getcell (world s2) 0x20004 = getcell (set_header image_host (world image_sys)) 0x20004"
    using w [of "0x20004"] by metis
  then show ?thesis using s by (auto simp: image_header getcell_def)
qed

theorem vmem_save_safe_witness:
  "\<exists>f. complete_image (set_header image_host (world image_sys)) 3 f \<and>
    files (snd (vmem_save image_host ''lisp.virtualmem'' image_sys)) ''lisp.virtualmem'' = Some f"
proof -
  have k: "outcome image_host k = Success" for k by (simp add: image_host_def)
  have t: "table_starts (set_header image_host (world image_sys)) 3" using image_table_sound by (simp add: table_sound_def)
  obtain s2 where s2: "vmem_save image_host ''lisp.virtualmem'' image_sys = (COMPLETESYSOUT, s2)"
    using vmem_save_completes [of image_host, OF k image_full_writes image_pages t] by blast
  from vmem_save_safe [OF s2 image_pages refl] show ?thesis using s2 t image_full_writes by auto
qed


end
