(* ===== verification/Spec2Isabelle.thy ===== *)
theory Spec2Isabelle
  imports GC_Unscan Bitmap_Shade Drawing_Laws Emulator_Laws Atom_Laws Sysout_Laws
begin

text \<open>
  Maiko is the virtual machine of Medley Interlisp: an emulator in C for the byte codes of the Xerox
  Lisp machines. This library models its core in HOL and proves what the parts promise to each other.
  The configuration is the default one of \<open>CMakeLists.txt\<close> (release 351: \<open>BIGVM\<close>, \<open>BIGATOMS\<close>,
  \<open>NEWCDRCODING\<close>); both byte orders are covered, \<open>byteswapped\<close> of the state tells them apart.

  \<^bold>\<open>Conventions.\<close> A Lisp pointer is a \<open>32 word\<close> that counts 16-bit words; the memory maps even
  addresses to 32-bit cells. A C pointer into Lisp memory is the Lisp address it was made from. C
  integers keep their width, and wrap where the code lets them wrap. An operation that may fail returns
  \<open>lisp_error + 'a\<close>: handed over to Lisp (\<open>Ufn\<close>), stopped for an interrupt (\<open>Timer\<close>), the debugger
  (\<open>Fatal\<close>), or a loop that does not end (\<open>Diverges\<close>). The state is a record \<open>vm\<close> (memory,
  reference counts, words of the global value area); the interpreter adds its registers (\<open>cpu\<close>), the
  interrupt code and the main loop the state of the devices (\<open>em\<close>).

  \<^bold>\<open>Memory and storage.\<close>
  \<^item> \<open>Maiko_Prelude\<close>: machine types, errors, the lemmas on them.
  \<^item> \<open>GC_Table\<close>, \<open>GC_Entry\<close>, \<open>GC_Shape\<close>, \<open>GC_Steps\<close>, \<open>GC_Overflow\<close>, \<open>GC_Refcount\<close>,
    \<open>GC_Htfind\<close>: the reference-count hash table (\<open>src/gchtfind.c\<close>): its shape as disjoint chains,
    and that \<open>htfind\<close> refines a map from pointers to counts, the overflow table included.
  \<^item> \<open>Lisp_Memory\<close>: addresses, cells, words and bytes (\<open>inc/adr68k.h\<close>, \<open>inc/lsptypes.h\<close>), and
    the counting macros of \<open>inc/gcdata.h\<close>. The interface \<open>store\<close> states the laws of an access width.
  \<^item> \<open>Array_Space\<close>, \<open>Array_Rings\<close>: the free blocks of \<open>src/gcfinal.c\<close>; linking and deleting act
    on two-way rings (interface \<open>dlinks\<close>).
  \<^item> \<open>Storage\<close>, \<open>Datatype_Cells\<close>: pages, the storage-full states and datatype cells
    (\<open>src/storage.c\<close>, \<open>src/allocmds.c\<close>, \<open>src/mkcell.c\<close>).
  \<^item> \<open>Conses\<close>, \<open>Cons_Pages\<close>, \<open>Cons_Pairs\<close>, \<open>Cons_Laws\<close>, \<open>Cons_Store\<close>: cdr-coded cons cells
    (\<open>src/car-cdr.c\<close>, \<open>src/conspage.c\<close>): \<open>cons\<close>, \<open>rplaca\<close> and \<open>rplacd\<close> against \<open>car\<close> and
    \<open>cdr\<close>, the free cells of a page, the counts they leave.

  \<^bold>\<open>Opcodes.\<close>
  \<^item> \<open>Numbers\<close>, \<open>Number_Laws\<close>: integers and floats (\<open>inc/arith.h\<close>, \<open>src/arithops.c\<close>,
    \<open>src/shift.c\<close>, \<open>src/fp.c\<close>): boxing round trips, exactness or hand-over, overflow tests.
  \<^item> \<open>Lisp_Arrays\<close>: array elements (\<open>inc/my.h\<close>, \<open>src/arrayops.c\<close>). \<open>Equality\<close>: \<open>src/eqf.c\<close>.
  \<^item> \<open>Opcodes\<close>, \<open>Opcode_Calls\<close>, \<open>Opcode_Laws\<close>: the opcodes expanded in line
    (\<open>inc/inlineC.h\<close>, \<open>inc/tos1defs.h\<close>) and the macros that call opcode functions.
  \<^item> \<open>Free_Variables\<close>: \<open>src/fvar.c\<close>; both searches against one look-up along the access links.
  \<^item> \<open>Frames\<close>, \<open>Frame_Laws\<close>: calls and returns (\<open>inc/tosfns.h\<close>, \<open>inc/tosret.h\<close>).
  \<^item> \<open>Stack_Space\<close>, \<open>Stack_Blocks\<close>: the stack as a list of blocks, its growth, copies of frames,
    context switches and the slow return (\<open>src/llstk.c\<close>, \<open>src/hardrtn.c\<close>, \<open>src/return.c\<close>).

  \<^bold>\<open>Collection.\<close> \<open>GC_Reclaim\<close>, \<open>GC_Scan\<close>, \<open>GC_Unscan\<close>: reclaiming an object
  (\<open>src/gcrcell.c\<close>, \<open>src/gccode.c\<close>) and the phases of a collection (\<open>src/gcscan.c\<close>,
  \<open>src/gcmain3.c\<close>): what is reclaimed can be allocated again, and the last phase clears the stack bits.

  \<^bold>\<open>Pictures.\<close> \<open>BitBlt\<close> with \<open>BitBlt_Pixels\<close>, \<open>BitBlt_Forward\<close>, \<open>BitBlt_Backward\<close>,
  \<open>BitBlt_Laws\<close>, \<open>BitBlt_Copy\<close>, \<open>BitBlt_Gray\<close>: the transfer macros of \<open>inc/bb.h\<close>, proved equal to
  a bitwise transfer; \<open>Bitmaps\<close>, \<open>Bitmap_Laws\<close>, \<open>Bitmap_Shade\<close>: the functions on bitmaps
  (\<open>src/bbtsub.c\<close>) as maps of pixels, their coordinates kept to a C \<open>int\<close>: the pixel
  properties hold for coordinates below \<open>2 ^ 28\<close>, those of shades with the row order that byte-swapped
  builds give them; \<open>Drawing\<close>, \<open>Drawing_Laws\<close>: \<open>BLT\<close> and \<open>DRAWLINE\<close>.

  \<^bold>\<open>The machine.\<close> \<open>Interrupts\<close>, \<open>Interrupt_Laws\<close>: \<open>src/intcall.c\<close> and the interrupt check; an
  interrupt is invisible to the code it interrupts. \<open>Emulator\<close>, \<open>Emulator_Laws\<close>: \<open>dispatch\<close>
  (\<open>src/xc.c\<close>), the table of the opcodes and a step relation \<open>em_step\<close>.

  \<^bold>\<open>Symbols.\<close> \<open>Atoms\<close>, \<open>Atom_Laws\<close>: the atom table and the package tables (\<open>src/mkatom.c\<close>,
  \<open>src/gcarray.c\<close>, a package may have several); both are searches by open addressing (interface
  \<open>probe_search\<close>).

  \<^bold>\<open>Memory image.\<close> \<open>Sysout\<close>, \<open>Sysout_Laws\<close>: saving the memory to a file and loading it
  (\<open>src/vmemsave.c\<close>, \<open>src/ldsout.c\<close>, \<open>word_swap_page\<close> of \<open>src/byteswap.c\<close>) over system calls
  that may fail, write only a part, or be timed out before or after their effect: the old image is
  removed only when the new one is written to its end, the new one is complete when no \<open>write\<close> that
  succeeded was short, and what is loaded is what was saved. The pages of an image are at most \<open>2 ^ 20\<close>, more than an address space of 256 MB has.

  \<^bold>\<open>Interfaces.\<close> Every locale is interpreted on the model's definitions in the theory of its provider,
  and the properties use the facts of the interpretation.

  \<^bold>\<open>Loops.\<close> A C loop that may not end is a \<open>partial_function (option)\<close>; that it ends is proved where
  it is claimed. The storage check and the cons it calls are unrolled twice, which is as deep as the code
  can go, since the second check finds the state already set. The bit numbers of the stack-bit scan stay
  below \<open>2 ^ 36\<close>. \<open>loop_steps n\<close> runs \<open>n\<close> opcodes.

  \<^bold>\<open>Not modelled.\<close> Everything behind a system or library call: displays (X11, SDL, VESA), keyboard
  and mouse, network, serial lines, the files of Lisp programs and path names, the processes of the host, foreign functions.
  Third-party code (lp_solve). The low-level debuggers and the consistency checks compiled in for them,
  the statistics of the collector, the cursor. Floating-point rounding is a parameter (\<open>calc\<close>), as is
  what the subroutine and \<open>MISCN\<close> tables call.
\<close>

end
